(* ===== verification/Prelude.thy ===== *)
theory Prelude
  imports Main "HOL-Library.Word" "HOL-Library.Multiset" "HOL-Library.Monad_Syntax"
begin

unbundle bit_operations_syntax

text \<open>
  Shared vocabulary of the development: the machine integer types of the C sources, the
  collections of simplification rules, and the generic facts about lists, options and
  words that the component theories use.

  A C function that can dereference a null pointer, index outside an array or fail an
  \<open>ovs_assert\<close> returns an \<open>option\<close> value: \<open>None\<close> is the fault. The do-notation of
  \<open>HOL-Library.Monad_Syntax\<close> sequences such functions.
\<close>

section \<open>Machine types\<close>

type_synonym u8 = "8 word"
type_synonym u16 = "16 word"
type_synonym u32 = "32 word"
type_synonym u64 = "64 word"

text \<open>Addresses of objects inside the enclave (\<open>ptr\<close>) are abstract; addresses that the
  untrusted side hands in (\<open>ut_ptr\<close>) are 64-bit words because the code truncates them.\<close>

type_synonym ptr = nat
type_synonym ut_ptr = u64

section \<open>Rule collections\<close>

named_theorems hash_defs \<open>definitions of the hash functions\<close>
named_theorems layout_simps \<open>facts about the layout of struct flow\<close>
named_theorems hmap_simps \<open>contents of hash maps after an operation\<close>
named_theorems ecall_defs \<open>definitions of the enclave entry points\<close>

section \<open>Words\<close>

lemma word_eq_iff_bit32: "(a :: u32) = b \<longleftrightarrow> (\<forall>i < 32. bit a i = bit b i)"
  by (auto intro: bit_word_eqI)

lemma word_neq_0_bit: "(a :: 'a :: len word) \<noteq> 0 \<longleftrightarrow> (\<exists>i < LENGTH('a). bit a i)"
proof
  show "a \<noteq> 0 \<Longrightarrow> \<exists>i < LENGTH('a). bit a i"
    by (rule ccontr) (auto intro: bit_word_eqI)
qed auto

lemma bit_u32_lt: "bit (a :: u32) i \<Longrightarrow> i < 32"
  using bit_imp_le_length [of a i] by simp

section \<open>Lists and options\<close>

lemma upt_split_at: "k < n \<Longrightarrow> [0..<n] = [0..<k] @ k # [Suc k..<n]"
  using upt_add_eq_append [of 0 k "n - k"] by (simp add: upt_conv_Cons)

lemma takeWhile_upt_least:
  assumes "P k" and "k < n" and "\<And>i. i < k \<Longrightarrow> \<not> P i"
  shows "length (takeWhile (\<lambda>i. \<not> P i) [0..<n]) = k"
proof -
  have "[0..<n] = [0..<k] @ k # [Suc k..<n]"
    using assms(2) by (rule upt_split_at)
  then show ?thesis using assms(1,3) by (simp add: takeWhile_append)
qed

lemma filter_upt_Cons:
  assumes "P k" and "k < n" and "\<And>i. i < k \<Longrightarrow> \<not> P i"
  shows "filter P [0..<n] = k # filter (\<lambda>i. P i \<and> i \<noteq> k) [0..<n]"
proof -
  have s: "[0..<n] = [0..<k] @ k # [Suc k..<n]"
    using assms(2) by (rule upt_split_at)
  have f: "filter (\<lambda>i. P i \<and> i \<noteq> k) [Suc k..<n] = filter P [Suc k..<n]"
    by (rule filter_cong) auto
  have e: "filter P [0..<k] = []" "filter (\<lambda>i. P i \<and> i \<noteq> k) [0..<k] = []"
    using assms(3) by (auto simp: filter_empty_conv)
  show ?thesis using assms(1) by (simp add: s f e)
qed

lemma find_None_iff_all: "List.find P xs = None \<longleftrightarrow> (\<forall>x \<in> set xs. \<not> P x)"
  by (auto simp: find_None_iff)

lemma find_SomeD: "List.find P xs = Some x \<Longrightarrow> x \<in> set xs \<and> P x"
  by (auto simp: find_Some_iff)

end
