(* ===== verification/Util.thy ===== *)
theory Util
  imports Prelude
begin

text \<open>
  The bit-twiddling helpers of \<open>OFTonSGX/trusted/lib/util.h\<close> and \<open>util.c\<close>, and the byte-order
  functions of \<open>sgx_htons.c\<close>. The enclave is built for x86, so the little-endian branches of
  the preprocessor conditionals are the ones modelled.

  The main facts: the loop header \<open>for (map = m; map; map = zero_rightmost_1bit(map))\<close>, used by
  every traversal of a compressed flow, visits exactly the set bits of \<open>m\<close> in increasing
  order; the portable \<open>raw_ctz\<close> agrees with the builtin; the table-driven \<open>popcount\<close> counts
  the set bits; \<open>bitwise_zero\<close> clears exactly the requested bits.
\<close>

section \<open>Rightmost set bit\<close>

definition rightmost_1bit :: "'a :: len word \<Rightarrow> 'a word" where
  "rightmost_1bit x = x AND (- x)"

definition zero_rightmost_1bit :: "'a :: len word \<Rightarrow> 'a word" where
  "zero_rightmost_1bit x = x AND (x - 1)"

text \<open>The GCC branch of \<open>raw_ctz\<close>: the number of trailing zero bits.\<close>

definition raw_ctz :: "u32 \<Rightarrow> nat" where
  "raw_ctz n = length (takeWhile (\<lambda>i. \<not> bit n i) [0..<32])"

text \<open>The portable branch in \<open>util.c\<close>, a binary search with one \<open>CTZ_STEP\<close> per power of two.\<close>

definition CTZ_STEP :: "nat \<Rightarrow> u32 \<times> int \<Rightarrow> u32 \<times> int" where
  "CTZ_STEP X = (\<lambda>(n, count). let k = push_bit X n in
     if k \<noteq> 0 then (k, count - int X) else (n, count))"

definition raw_ctz_portable :: "u32 \<Rightarrow> int" where
  "raw_ctz_portable n =
     snd (CTZ_STEP 1 (CTZ_STEP 2 (CTZ_STEP 4 (CTZ_STEP 8 (CTZ_STEP 16 (n, 31))))))"

text \<open>The offsets visited by the loop over the set bits of a 32-bit map.\<close>

lemma zero_rightmost_1bit_less: "m \<noteq> 0 \<Longrightarrow> unat (zero_rightmost_1bit m) < unat m"
proof -
  assume "m \<noteq> 0"
  then have "m - 1 < m" by (simp add: word_less_nat_alt unat_minus_one unat_gt_0)
  moreover have "m AND (m - 1) \<le> m - 1" by (rule word_and_le1)
  ultimately show ?thesis
    by (simp add: zero_rightmost_1bit_def word_less_nat_alt word_le_nat_alt)
qed

function map_ofs :: "u32 \<Rightarrow> nat list" where
  "map_ofs m = (if m = 0 then [] else raw_ctz m # map_ofs (zero_rightmost_1bit m))"
  by pat_completeness auto
termination
  by (relation "measure unat") (auto intro: zero_rightmost_1bit_less)

declare map_ofs.simps [simp del]

section \<open>Counting bits\<close>

definition INIT1 :: "nat \<Rightarrow> nat" where
  "INIT1 X = (\<Sum>i \<leftarrow> [0..<8]. if X AND push_bit i 1 \<noteq> 0 then 1 else 0)"

definition popcount8 :: "nat list" where
  "popcount8 = map INIT1 [0..<256]"

definition popcount :: "u32 \<Rightarrow> nat" where
  "popcount x = popcount8 ! unat (x AND 0xff) + popcount8 ! unat (drop_bit 8 x AND 0xff) +
     popcount8 ! unat (drop_bit 16 x AND 0xff) + popcount8 ! unat (drop_bit 24 x)"

section \<open>Clearing a run of bits in a byte array\<close>

text \<open>One write through the moving pointer \<open>dst\<close>, an index into the array; a write outside
  the array is a fault.\<close>

definition put_byte :: "u8 list \<Rightarrow> int \<Rightarrow> (u8 \<Rightarrow> u8) \<Rightarrow> u8 list option" where
  "put_byte dst i f =
     (if 0 \<le> i \<and> i < int (length dst) then Some (dst[nat i := f (dst ! nat i)]) else None)"

text \<open>\<open>while (n_bits >= 8) { *dst-- = 0; n_bits -= 8; }\<close> followed by the last partial byte.\<close>

fun bitwise_zero_loop :: "u8 list \<Rightarrow> int \<Rightarrow> nat \<Rightarrow> u8 list option" where
  "bitwise_zero_loop dst i n_bits =
     (if 8 \<le> n_bits
      then do { dst' \<leftarrow> put_byte dst i (\<lambda>_. 0); bitwise_zero_loop dst' (i - 1) (n_bits - 8) }
      else if n_bits \<noteq> 0
      then put_byte dst i (\<lambda>b. b AND NOT (push_bit n_bits 1 - 1))
      else Some dst)"

declare bitwise_zero_loop.simps [simp del]

definition bitwise_zero :: "u8 list \<Rightarrow> nat \<Rightarrow> nat \<Rightarrow> nat \<Rightarrow> u8 list option" where
  "bitwise_zero dst dst_len dst_ofs n_bits =
     (if n_bits = 0 then Some dst
      else let i = int dst_len - int (dst_ofs div 8 + 1); ofs = dst_ofs mod 8 in
        if ofs \<noteq> 0
        then let chunk = min n_bits (8 - ofs) in
          do { dst' \<leftarrow> put_byte dst i (\<lambda>b. b AND NOT (push_bit ofs (push_bit chunk 1 - 1)));
               if n_bits - chunk = 0 then Some dst'
               else bitwise_zero_loop dst' (i - 1) (n_bits - chunk) }
        else bitwise_zero_loop dst i n_bits)"

text \<open>Bit \<open>N\<close> of the array read as one unsigned integer in network byte order.\<close>

definition be_bit :: "u8 list \<Rightarrow> nat \<Rightarrow> bool" where
  "be_bit dst N = bit (dst ! (length dst - (N div 8 + 1))) (N mod 8)"

section \<open>Byte order\<close>

definition bswap_16_sgx :: "u16 \<Rightarrow> u16" where
  "bswap_16_sgx a = push_bit 8 a OR drop_bit 8 a"

definition bswap_32_sgx :: "u32 \<Rightarrow> u32" where
  "bswap_32_sgx x = drop_bit 24 (x AND 0xff000000) OR drop_bit 8 (x AND 0x00ff0000)
     OR push_bit 8 (x AND 0x0000ff00) OR push_bit 24 (x AND 0x000000ff)"

definition htons :: "u16 \<Rightarrow> u16" where "htons x = bswap_16_sgx x"
definition ntohs :: "u16 \<Rightarrow> u16" where "ntohs x = bswap_16_sgx x"
definition htonl :: "u32 \<Rightarrow> u32" where "htonl x = bswap_32_sgx x"
definition ntohl :: "u32 \<Rightarrow> u32" where "ntohl x = bswap_32_sgx x"

text \<open>\<open>get_unaligned_u32\<close> reads four bytes; the shifts are computed in \<open>int\<close> and converted.\<close>

definition get_unaligned_u32 :: "u8 list \<Rightarrow> u32" where
  "get_unaligned_u32 p = ntohl (push_bit 24 (ucast (p ! 0)) OR push_bit 16 (ucast (p ! 1))
     OR push_bit 8 (ucast (p ! 2)) OR ucast (p ! 3))"

section \<open>Facts about set bits\<close>

lemma raw_ctz_least:
  assumes "bit n k" and "\<And>i. i < k \<Longrightarrow> \<not> bit n i"
  shows "raw_ctz n = k"
  unfolding raw_ctz_def
  using assms by (intro takeWhile_upt_least) (auto dest: bit_u32_lt)

lemma least_bit_exists:
  assumes "(n :: u32) \<noteq> 0"
  shows "\<exists>k < 32. bit n k \<and> (\<forall>i < k. \<not> bit n i)"
proof -
  from assms obtain j where "bit n j" by (auto simp: word_neq_0_bit)
  define k where "k = (LEAST i. bit n i)"
  have "bit n k" unfolding k_def by (rule LeastI, rule \<open>bit n j\<close>)
  moreover have "\<not> bit n i" if "i < k" for i using that not_less_Least k_def by blast
  ultimately show ?thesis by (blast dest: bit_u32_lt)
qed

lemma raw_ctz_props:
  assumes "n \<noteq> 0"
  shows "raw_ctz n < 32" and "bit n (raw_ctz n)" and "i < raw_ctz n \<Longrightarrow> \<not> bit n i"
proof -
  obtain k where "k < 32" "bit n k" "\<And>i. i < k \<Longrightarrow> \<not> bit n i"
    using least_bit_exists [OF assms] by blast
  moreover from this have "raw_ctz n = k" by (intro raw_ctz_least)
  ultimately show "raw_ctz n < 32" "bit n (raw_ctz n)" "i < raw_ctz n \<Longrightarrow> \<not> bit n i" by auto
qed

text \<open>Subtracting one flips the lowest set bit and everything below it.\<close>

lemma minus_one_low_bit:
  fixes m :: "'a :: len word"
  assumes "bit m k" and "\<And>i. i < k \<Longrightarrow> \<not> bit m i"
  shows "m - 1 = unset_bit k m OR mask k"
proof -
  have "unset_bit k m = m - 2 ^ k" using assms(1) by (simp add: unset_bit_eq)
  then have "m - 1 = unset_bit k m + mask k" by (simp add: mask_eq_exp_minus_1)
  also have "\<dots> = unset_bit k m OR mask k"
    by (rule disjunctive_add_eq_or, rule bit_word_eqI) (use assms(2) in \<open>auto simp: bit_simps\<close>)
  finally show ?thesis .
qed

lemma bit_zero_rightmost_low:
  fixes m :: "'a :: len word"
  assumes "bit m k" and "\<And>i. i < k \<Longrightarrow> \<not> bit m i"
  shows "bit (zero_rightmost_1bit m) i \<longleftrightarrow> bit m i \<and> i \<noteq> k"
  using assms(2) by (auto simp: zero_rightmost_1bit_def minus_one_low_bit [OF assms] bit_simps
      dest: bit_imp_le_length)

lemma rightmost_1bit_low:
  fixes m :: "'a :: len word"
  assumes "bit m k" and "\<And>i. i < k \<Longrightarrow> \<not> bit m i"
  shows "rightmost_1bit m = push_bit k 1"
proof -
  have "- m = NOT (m - 1)" by (simp add: not_eq_complement)
  with assms show ?thesis
    by (intro bit_word_eqI)
      (auto simp: rightmost_1bit_def minus_one_low_bit [OF assms] bit_simps dest: bit_imp_le_length)
qed

lemma bit_zero_rightmost_1bit:
  "m \<noteq> 0 \<Longrightarrow> bit (zero_rightmost_1bit m) i \<longleftrightarrow> bit m i \<and> i \<noteq> raw_ctz m"
  using raw_ctz_props by (intro bit_zero_rightmost_low) auto

lemma map_ofs_eq_filter: "map_ofs m = filter (bit m) [0..<32]"
proof (induction m rule: map_ofs.induct)
  case (1 m)
  show ?case
  proof (cases "m = 0")
    case True
    then show ?thesis by (simp add: map_ofs.simps)
  next
    case False
    have "map_ofs m = raw_ctz m # filter (bit (zero_rightmost_1bit m)) [0..<32]"
      using 1 False by (simp add: map_ofs.simps [of m])
    also have "filter (bit (zero_rightmost_1bit m)) [0..<32]
        = filter (\<lambda>i. bit m i \<and> i \<noteq> raw_ctz m) [0..<32]"
      by (rule filter_cong) (use False in \<open>auto simp: bit_zero_rightmost_1bit\<close>)
    also have "raw_ctz m # \<dots> = filter (bit m) [0..<32]"
      using raw_ctz_props [OF False] by (intro filter_upt_Cons [symmetric]) auto
    finally show ?thesis .
  qed
qed

text \<open>
  The loops run over a \<open>uint32_t\<close> map while \<open>zero_rightmost_1bit\<close> computes in \<open>uintmax_t\<close>; the
  widening and the truncation on assignment do not change the result.\<close>

lemma zero_rightmost_1bit_promote:
  fixes m :: u32
  assumes "m \<noteq> 0"
  shows "ucast (zero_rightmost_1bit (ucast m :: u64)) = zero_rightmost_1bit m"
proof -
  obtain k where k: "k < 32" "bit m k" "\<And>i. i < k \<Longrightarrow> \<not> bit m i"
    using least_bit_exists [OF assms] by blast
  have "bit (ucast m :: u64) k" "\<And>i. i < k \<Longrightarrow> \<not> bit (ucast m :: u64) i"
    using k by (auto simp: bit_simps)
  note w = bit_zero_rightmost_low [OF this]
  show ?thesis
    by (rule bit_word_eqI) (auto simp: bit_simps w bit_zero_rightmost_low [OF k(2,3)])
qed

section \<open>The portable count of trailing zeros\<close>

lemma push_bit_ctz:
  assumes "n \<noteq> 0"
  shows "push_bit X n \<noteq> 0 \<longleftrightarrow> raw_ctz n + X < 32"
    and "raw_ctz n + X < 32 \<Longrightarrow> raw_ctz (push_bit X n) = raw_ctz n + X"
proof -
  note c = raw_ctz_props [OF assms]
  show "push_bit X n \<noteq> 0 \<longleftrightarrow> raw_ctz n + X < 32"
  proof
    assume "push_bit X n \<noteq> 0"
    then obtain i where i: "i < 32" "bit (push_bit X n) i" by (auto simp: word_neq_0_bit)
    then have "X \<le> i" "bit n (i - X)" by (auto simp: bit_simps)
    with c(3) [of "i - X"] i(1) show "raw_ctz n + X < 32" by (meson le_diff_conv2 le_less_trans not_le)
  next
    assume "raw_ctz n + X < 32"
    with c(2) have "bit (push_bit X n) (raw_ctz n + X)" by (simp add: bit_simps)
    then show "push_bit X n \<noteq> 0" by auto
  qed
  show "raw_ctz (push_bit X n) = raw_ctz n + X" if "raw_ctz n + X < 32"
    by (rule raw_ctz_least) (use c that in \<open>auto simp: bit_simps\<close>)
qed

lemma CTZ_STEP_ctz:
  assumes "n \<noteq> 0"
  shows "\<exists>n'. n' \<noteq> 0 \<and> (if raw_ctz n + X < 32
      then CTZ_STEP X (n, c) = (n', c - int X) \<and> raw_ctz n' = raw_ctz n + X
      else CTZ_STEP X (n, c) = (n', c) \<and> raw_ctz n' = raw_ctz n)"
  using push_bit_ctz [OF assms, of X] assms by (auto simp: CTZ_STEP_def Let_def)

text \<open>the portable count of trailing zeros agrees with the builtin for every non-zero word.\<close>

theorem raw_ctz_portable_correct:
  assumes "n \<noteq> 0"
  shows "raw_ctz_portable n = int (raw_ctz n)"
proof -
  obtain n1 c1 where 1: "CTZ_STEP 16 (n, 31) = (n1, c1)" "n1 \<noteq> 0"
    and c1: "c1 = (if raw_ctz n + 16 < 32 then 15 else 31)"
    and r1: "raw_ctz n1 = (if raw_ctz n + 16 < 32 then raw_ctz n + 16 else raw_ctz n)"
    using CTZ_STEP_ctz [OF assms, of 16 31] by (auto split: if_splits)
  obtain n2 c2 where 2: "CTZ_STEP 8 (n1, c1) = (n2, c2)" "n2 \<noteq> 0"
    and c2: "c2 = (if raw_ctz n1 + 8 < 32 then c1 - 8 else c1)"
    and r2: "raw_ctz n2 = (if raw_ctz n1 + 8 < 32 then raw_ctz n1 + 8 else raw_ctz n1)"
    using CTZ_STEP_ctz [OF 1(2), of 8 c1] by (auto split: if_splits)
  obtain n3 c3 where 3: "CTZ_STEP 4 (n2, c2) = (n3, c3)" "n3 \<noteq> 0"
    and c3: "c3 = (if raw_ctz n2 + 4 < 32 then c2 - 4 else c2)"
    and r3: "raw_ctz n3 = (if raw_ctz n2 + 4 < 32 then raw_ctz n2 + 4 else raw_ctz n2)"
    using CTZ_STEP_ctz [OF 2(2), of 4 c2] by (auto split: if_splits)
  obtain n4 c4 where 4: "CTZ_STEP 2 (n3, c3) = (n4, c4)" "n4 \<noteq> 0"
    and c4: "c4 = (if raw_ctz n3 + 2 < 32 then c3 - 2 else c3)"
    and r4: "raw_ctz n4 = (if raw_ctz n3 + 2 < 32 then raw_ctz n3 + 2 else raw_ctz n3)"
    using CTZ_STEP_ctz [OF 3(2), of 2 c3] by (auto split: if_splits)
  obtain n5 c5 where 5: "CTZ_STEP 1 (n4, c4) = (n5, c5)" "n5 \<noteq> 0"
    and c5: "c5 = (if raw_ctz n4 + 1 < 32 then c4 - 1 else c4)"
    using CTZ_STEP_ctz [OF 4(2), of 1 c4] by (auto split: if_splits)
  have "raw_ctz_portable n = c5" unfolding raw_ctz_portable_def 1 2 3 4 5 by simp
  with raw_ctz_props(1) [OF assms] c1 c2 c3 c4 c5 r1 r2 r3 r4 show ?thesis
    by (simp split: if_splits)
qed

section \<open>The population count\<close>

lemma sum_list_if_length: "(\<Sum>i \<leftarrow> xs. if P i then 1 else 0) = length (filter P xs)"
  by (induction xs) auto

lemma INIT1_eq: "INIT1 X = length (filter (bit X) [0..<8])"
  unfolding INIT1_def sum_list_if_length by (simp add: push_bit_eq_mult and_exp_eq_0_iff_not_bit)

lemma length_filter_shift:
  "length (filter P [m..<m + n]) = length (filter (\<lambda>i. P (m + i)) [0..<n])"
proof -
  have "[m..<m + n] = map ((+) m) [0..<n]" by (induction n) auto
  then show ?thesis by (simp add: filter_map o_def)
qed

lemma popcount8_byte:
  fixes x :: u32
  assumes "x < 256"
  shows "popcount8 ! unat x = length (filter (bit x) [0..<8])"
proof -
  have "unat x < 256" using assms by (simp add: word_less_nat_alt)
  then have "popcount8 ! unat x = length (filter (bit (unat x)) [0..<8])"
    by (simp add: popcount8_def INIT1_eq)
  also have "filter (bit (unat x)) [0..<8] = filter (bit x) [0..<8]"
    by (rule filter_cong) (auto simp: bit_simps)
  finally show ?thesis .
qed

lemma and_ff_less: "(x :: u32) AND 0xff < 256"
proof -
  have "x AND 0xff \<le> 0xff" by (rule word_and_le1)
  then show ?thesis by (rule le_less_trans) simp
qed

lemma popcount_filter [code]: "popcount x = length (filter (bit x) [0..<32])"
proof -
  have byte: "popcount8 ! unat (drop_bit k x AND 0xff) = length (filter (bit x) [k..<k + 8])" for k
  proof -
    have "filter (bit (drop_bit k x AND 0xff)) [0..<8] = filter (\<lambda>i. bit x (k + i)) [0..<8]"
      by (rule filter_cong) (auto simp: bit_simps less_Suc_eq numeral_eq_Suc)
    then show ?thesis by (simp add: popcount8_byte [OF and_ff_less] length_filter_shift)
  qed
  have "drop_bit 24 x = drop_bit 24 x AND 0xff"
    by (rule bit_word_eqI) (auto simp: bit_simps less_Suc_eq numeral_eq_Suc dest: bit_u32_lt)
  moreover have "[0..<32] = [0..<0+8] @ [8..<8+8] @ [16..<16+8] @ [24..<24+8]"
    by (simp add: upt_rec)
  ultimately show ?thesis
    using byte [of 0] byte [of 8] byte [of 16] byte [of 24] by (simp add: popcount_def)
qed

text \<open>the table-driven \<open>popcount\<close> returns the number of set bits of its argument.\<close>

theorem popcount_correct: "popcount x = card {i. bit x i}"
proof -
  have "{i. bit x i} = set (filter (bit x) [0..<32])" by (auto dest: bit_u32_lt)
  then have "card {i. bit x i} = card (set (filter (bit x) [0..<32]))" by (rule arg_cong)
  also have "\<dots> = popcount x" unfolding popcount_filter by (rule distinct_card) simp
  finally show ?thesis by simp
qed

section \<open>Clearing bits\<close>

lemma put_byte_be_bit:
  assumes "q < length dst"
  shows "\<exists>dst'. put_byte dst (int (length dst) - int (q + 1)) f = Some dst' \<and> length dst' = length dst
    \<and> (\<forall>N < 8 * length dst. be_bit dst' N =
          (if N div 8 = q then bit (f (dst ! (length dst - (q + 1)))) (N mod 8) else be_bit dst N))"
proof -
  have i: "nat (int (length dst) - int (q + 1)) = length dst - (q + 1)" by simp
  have d: "be_bit (dst[length dst - (q + 1) := v]) N =
      (if N div 8 = q then bit v (N mod 8) else be_bit dst N)" if "N < 8 * length dst" for N v
  proof -
    have "N div 8 < length dst" using that by auto
    then have "length dst - (N div 8 + 1) = length dst - (q + 1) \<longleftrightarrow> N div 8 = q"
      using assms by auto
    then show ?thesis using assms by (auto simp: be_bit_def nth_list_update)
  qed
  have "put_byte dst (int (length dst) - int (q + 1)) f
      = Some (dst[length dst - (q + 1) := f (dst ! (length dst - (q + 1)))])"
    unfolding put_byte_def i using assms by simp
  with d show ?thesis by auto
qed

lemma bit_and_not_mask:
  "n < 8 \<Longrightarrow> bit (b AND NOT (push_bit n 1 - 1 :: u8)) j \<longleftrightarrow> bit b j \<and> \<not> j < n"
  by (auto simp: push_bit_eq_mult simp flip: mask_eq_exp_minus_1)
    (auto simp: bit_simps dest: bit_imp_le_length)

lemma bit_and_not_chunk:
  "o' + c \<le> 8 \<Longrightarrow> c < 8 \<Longrightarrow>
   bit (b AND NOT (push_bit o' (push_bit c 1 - 1) :: u8)) j \<longleftrightarrow> bit b j \<and> \<not> (o' \<le> j \<and> j < o' + c)"
  by (auto simp: push_bit_eq_mult [of c] simp flip: mask_eq_exp_minus_1)
    (auto simp: bit_simps dest: bit_imp_le_length)

lemma bitwise_zero_loop_correct:
  assumes "8 * q + n \<le> 8 * length dst"
  shows "\<exists>dst'. bitwise_zero_loop dst (int (length dst) - int (q + 1)) n = Some dst'
    \<and> length dst' = length dst
    \<and> (\<forall>N < 8 * length dst. be_bit dst' N \<longleftrightarrow> be_bit dst N \<and> \<not> (8 * q \<le> N \<and> N < 8 * q + n))"
  using assms
proof (induction n arbitrary: dst q rule: less_induct)
  case (less n)
  consider "8 \<le> n" | "n < 8" "n \<noteq> 0" | "n = 0" by linarith
  then show ?case
  proof cases
    case 1
    with less.prems have q: "q < length dst" by linarith
    obtain d where d: "put_byte dst (int (length dst) - int (q + 1)) (\<lambda>_. 0) = Some d"
      "length d = length dst"
      "\<forall>N < 8 * length dst. be_bit d N = (N div 8 \<noteq> q \<and> be_bit dst N)"
      using put_byte_be_bit [OF q, of "\<lambda>_. 0"] by auto
    have "n - 8 < n" "8 * Suc q + (n - 8) \<le> 8 * length d" using 1 less.prems d(2) by auto
    from less.IH [OF this] obtain d' where d':
      "bitwise_zero_loop d (int (length dst) - int (Suc q + 1)) (n - 8) = Some d'"
      "length d' = length dst"
      "\<forall>N < 8 * length dst. be_bit d' N \<longleftrightarrow> be_bit d N \<and> \<not> (8 * Suc q \<le> N \<and> N < 8 * Suc q + (n - 8))"
      using d(2) by auto
    have i: "int (length dst) - int (q + 1) - 1 = int (length dst) - int (Suc q + 1)" by simp
    have "bitwise_zero_loop dst (int (length dst) - int (q + 1)) n = Some d'"
      using 1 d(1) d'(1) by (subst bitwise_zero_loop.simps) (simp only: i if_True Option.bind.simps)
    moreover have "be_bit d' N \<longleftrightarrow> be_bit dst N \<and> \<not> (8 * q \<le> N \<and> N < 8 * q + n)"
      if "N < 8 * length dst" for N
    proof -
      have "N div 8 = q \<longleftrightarrow> 8 * q \<le> N \<and> N < 8 * Suc q" by auto
      then show ?thesis using that d(3) d'(3) 1 by auto
    qed
    ultimately show ?thesis using d'(2) by auto
  next
    case 2
    with less.prems have q: "q < length dst" by linarith
    obtain d where d: "put_byte dst (int (length dst) - int (q + 1))
        (\<lambda>b. b AND NOT (push_bit n 1 - 1)) = Some d" "length d = length dst"
      "\<forall>N < 8 * length dst. be_bit d N = (if N div 8 = q
         then bit (dst ! (length dst - (q + 1))) (N mod 8) \<and> \<not> N mod 8 < n else be_bit dst N)"
      using put_byte_be_bit [OF q, of "\<lambda>b. b AND NOT (push_bit n 1 - 1)"] bit_and_not_mask [OF 2(1)]
      by auto
    have "be_bit d N \<longleftrightarrow> be_bit dst N \<and> \<not> (8 * q \<le> N \<and> N < 8 * q + n)"
      if "N < 8 * length dst" for N
    proof (cases "N div 8 = q")
      case True
      then have "N = 8 * q + N mod 8" by (metis mult_div_mod_eq)
      then have "8 * q \<le> N \<and> N < 8 * q + n \<longleftrightarrow> N mod 8 < n" by linarith
      with True that d(3) show ?thesis by (auto simp: be_bit_def)
    next
      case False
      then have "\<not> (8 * q \<le> N \<and> N < 8 * q + n)" using 2(1) by auto
      with False that d(3) show ?thesis by auto
    qed
    then show ?thesis using 2 d(1,2) by (auto simp: bitwise_zero_loop.simps)
  qed (simp add: bitwise_zero_loop.simps)
qed

text \<open>The first, partial byte: \<open>c\<close> bits from bit \<open>o'\<close> of byte \<open>q\<close>.\<close>

lemma put_chunk:
  assumes "q < length dst" and "o' + c \<le> 8" and "c < 8"
  shows "\<exists>d. put_byte dst (int (length dst) - int (q + 1))
        (\<lambda>b. b AND NOT (push_bit o' (push_bit c 1 - 1))) = Some d \<and> length d = length dst
    \<and> (\<forall>N < 8 * length dst. be_bit d N \<longleftrightarrow>
          be_bit dst N \<and> \<not> (8 * q + o' \<le> N \<and> N < 8 * q + o' + c))"
proof -
  let ?f = "\<lambda>b. b AND NOT (push_bit o' (push_bit c 1 - 1))"
  obtain d where d: "put_byte dst (int (length dst) - int (q + 1)) ?f = Some d"
    "length d = length dst"
    and bits: "\<And>N. N < 8 * length dst \<Longrightarrow> be_bit d N = (if N div 8 = q
       then bit (?f (dst ! (length dst - (q + 1)))) (N mod 8) else be_bit dst N)"
    using put_byte_be_bit [OF assms(1), of ?f] by blast
  have "be_bit d N \<longleftrightarrow> be_bit dst N \<and> \<not> (8 * q + o' \<le> N \<and> N < 8 * q + o' + c)"
    if "N < 8 * length dst" for N
  proof (cases "N div 8 = q")
    case True
    then have "N = 8 * q + N mod 8" by (metis mult_div_mod_eq)
    then have "o' \<le> N mod 8 \<and> N mod 8 < o' + c \<longleftrightarrow> 8 * q + o' \<le> N \<and> N < 8 * q + o' + c"
      by linarith
    with True show ?thesis
      by (simp only: bits [OF that] bit_and_not_chunk [OF assms(2,3)] if_True) (simp add: be_bit_def)
  next
    case False
    then have "N < 8 * q \<or> 8 * q + 8 \<le> N" by linarith
    with assms(2) False show ?thesis by (auto simp: bits [OF that])
  qed
  with d show ?thesis by blast
qed

lemma bitwise_zero_at:
  assumes "o' < 8" and "8 * q + o' + n \<le> 8 * length dst"
  shows "\<exists>dst'. bitwise_zero dst (length dst) (8 * q + o') n = Some dst' \<and> length dst' = length dst
    \<and> (\<forall>N < 8 * length dst. be_bit dst' N \<longleftrightarrow>
          be_bit dst N \<and> \<not> (8 * q + o' \<le> N \<and> N < 8 * q + o' + n))"
proof -
  let ?i = "int (length dst) - int (q + 1)" and ?c = "min n (8 - o')"
  let ?f = "\<lambda>b. b AND NOT (push_bit o' (push_bit ?c 1 - 1))"
  have dm: "(8 * q + o') div 8 = q" "(8 * q + o') mod 8 = o'" using assms(1) by auto
  have unf: "bitwise_zero dst (length dst) (8 * q + o') n =
     (if n = 0 then Some dst else if o' \<noteq> 0
      then do { dst' \<leftarrow> put_byte dst ?i ?f;
                if n - ?c = 0 then Some dst' else bitwise_zero_loop dst' (?i - 1) (n - ?c) }
      else bitwise_zero_loop dst ?i n)"
    unfolding bitwise_zero_def Let_def dm by simp
  consider "n = 0" | "n \<noteq> 0" "o' = 0" | "n \<noteq> 0" "o' \<noteq> 0" by blast
  then show ?thesis
  proof cases
    case 2
    with assms bitwise_zero_loop_correct [of q n dst] show ?thesis unfolding unf by auto
  next
    case 3
    have pre: "q < length dst" "o' + ?c \<le> 8" "?c < 8" using 3 assms by auto
    obtain d where d: "put_byte dst ?i ?f = Some d" "length d = length dst"
      and first: "\<And>N. N < 8 * length dst \<Longrightarrow>
        be_bit d N \<longleftrightarrow> be_bit dst N \<and> \<not> (8 * q + o' \<le> N \<and> N < 8 * q + o' + ?c)"
      using put_chunk [OF pre] by blast
    show ?thesis
    proof (cases "n - ?c = 0")
      case True
      then have "?c = n" by auto
      with 3 d first True show ?thesis unfolding unf by auto
    next
      case False
      then have c: "?c = 8 - o'" by auto
      have "8 * Suc q + (n - ?c) \<le> 8 * length d"
        unfolding c d(2) using assms False by arith
      from bitwise_zero_loop_correct [OF this] obtain d' where d':
        "bitwise_zero_loop d (?i - 1) (n - ?c) = Some d'" "length d' = length dst"
        and rest: "\<And>N. N < 8 * length dst \<Longrightarrow> be_bit d' N \<longleftrightarrow>
           be_bit d N \<and> \<not> (8 * Suc q \<le> N \<and> N < 8 * Suc q + (n - ?c))"
        using d(2) by (auto simp: algebra_simps)
      have "8 * q + o' + ?c = 8 * Suc q" unfolding c using assms(1) by arith
      moreover have "8 * q + o' + n = 8 * Suc q + (n - ?c)" "8 * q + o' \<le> 8 * Suc q"
        unfolding c using assms(1) False by arith+
      ultimately have "be_bit d' N \<longleftrightarrow> be_bit dst N \<and> \<not> (8 * q + o' \<le> N \<and> N < 8 * q + o' + n)"
        if "N < 8 * length dst" for N
        using rest [OF that] first [OF that] by (metis le_trans not_le trans_less_add1)
      with 3 d(1) d'(1,2) False show ?thesis unfolding unf by auto
    qed
  qed (simp add: bitwise_zero_def)
qed

text \<open>under the precondition stated in its comment (\<open>dst_ofs + n_bits <= dst_len * 8\<close>),
  \<open>bitwise_zero\<close> never writes outside the array, and afterwards bit \<open>N\<close> of the array, read as a
  big-endian integer, is cleared if it lies in the requested range and unchanged otherwise.\<close>

theorem bitwise_zero_correct:
  assumes "dst_ofs + n_bits \<le> 8 * length dst"
  shows "\<exists>dst'. bitwise_zero dst (length dst) dst_ofs n_bits = Some dst' \<and> length dst' = length dst
    \<and> (\<forall>N < 8 * length dst. be_bit dst' N \<longleftrightarrow>
          be_bit dst N \<and> \<not> (dst_ofs \<le> N \<and> N < dst_ofs + n_bits))"
  using bitwise_zero_at [of "dst_ofs mod 8" "dst_ofs div 8" n_bits dst] assms by simp

theorem bitwise_zero_correct_witness:
  "\<exists>dst'. bitwise_zero [255, 255, 255] (length [255, 255, 255 :: u8]) 3 13 = Some dst'
     \<and> length dst' = length [255, 255, 255 :: u8]
     \<and> (\<forall>N < 8 * length [255, 255, 255 :: u8]. be_bit dst' N \<longleftrightarrow>
           be_bit [255, 255, 255] N \<and> \<not> (3 \<le> N \<and> N < 3 + 13))"
  by (rule bitwise_zero_correct) simp

section \<open>Byte order facts\<close>

lemma ntohs_htons [simp]: "ntohs (htons x) = x"
  by (rule bit_word_eqI) (auto simp: ntohs_def htons_def bswap_16_sgx_def bit_simps)

lemma bit_bswap_32:
  assumes "i < 32"
  shows "bit (bswap_32_sgx x) i \<longleftrightarrow> bit x (8 * (3 - i div 8) + i mod 8)"
proof -
  have m: "(0xff000000 :: u32) = push_bit 24 (mask 8)" "(0x00ff0000 :: u32) = push_bit 16 (mask 8)"
    "(0x0000ff00 :: u32) = push_bit 8 (mask 8)" "(0xff :: u32) = mask 8"
    by (simp_all add: mask_eq_exp_minus_1)
  obtain q o' where i: "i = 8 * q + o'" "o' < 8" "q < 4"
    using assms that [of "i div 8" "i mod 8"] by auto
  then have d: "i div 8 = q" "i mod 8 = o'" by auto
  from i(3) consider "q = 0" | "q = 1" | "q = 2" | "q = 3" by linarith
  then show ?thesis unfolding d bswap_32_sgx_def m
    by cases (use i(1,2) in \<open>auto simp: bit_simps ac_simps dest: bit_u32_lt\<close>)
qed

lemma bswap_32_invol: "bswap_32_sgx (bswap_32_sgx x) = x"
proof (rule bit_word_eqI)
  fix i
  assume "i < LENGTH(32)"
  then have i: "i < 32" by simp
  let ?j = "8 * (3 - i div 8) + i mod 8"
  have j: "?j < 32" "8 * (3 - ?j div 8) + ?j mod 8 = i" using i by auto
  show "bit (bswap_32_sgx (bswap_32_sgx x)) i = bit x i"
    by (simp only: bit_bswap_32 [OF i] bit_bswap_32 [OF j(1)] j(2))
qed

lemma ntohl_htonl [simp]: "ntohl (htonl x) = x"
  by (simp add: ntohl_def htonl_def bswap_32_invol)

lemma get_unaligned_u32_le:
  "get_unaligned_u32 p = ucast (p ! 0) OR push_bit 8 (ucast (p ! 1))
     OR push_bit 16 (ucast (p ! 2)) OR push_bit 24 (ucast (p ! 3))"
proof (rule bit_word_eqI)
  fix i
  assume "i < LENGTH(32)"
  then have l: "i < 32" by simp
  obtain q o' where i: "i = 8 * q + o'" "o' < 8" "q < 4"
    using l that [of "i div 8" "i mod 8"] by auto
  then have d: "i div 8 = q" "i mod 8 = o'" by auto
  have hi: "\<not> bit (b :: u8) j" if "8 \<le> j" for b j using that by (auto dest: bit_imp_le_length)
  from i(3) consider "q = 0" | "q = 1" | "q = 2" | "q = 3" by linarith
  then show "bit (get_unaligned_u32 p) i = bit (ucast (p ! 0) OR push_bit 8 (ucast (p ! 1))
     OR push_bit 16 (ucast (p ! 2)) OR push_bit 24 (ucast (p ! 3)) :: u32) i"
    unfolding get_unaligned_u32_def ntohl_def bit_bswap_32 [OF l] d
    by cases (use i(1,2) in \<open>auto simp: bit_simps hi\<close>)
qed

end
