(* ===== verification/Hash.thy ===== *)
theory Hash
  imports Util
begin

text \<open>
  The Murmur-based hash functions of \<open>OFTonSGX/trusted/lib/hash.h\<close> and \<open>hash.c\<close>. Arithmetic is
  that of \<open>uint32_t\<close>: multiplication and addition wrap, and the \<open>size_t\<close> length xor-ed in by
  \<open>mhash_finish\<close> is truncated. An array argument and its length are one list.

  Besides being deterministic functions of the words they are given, the hashes are shown to be
  injective in every single input word (each mixing step is a bijection), and the byte-wise
  \<open>hash_bytes\<close> is shown to agree with the word-wise \<open>hash_words\<close> on the memory image of an array.
\<close>

section \<open>Definitions\<close>

definition hash_rot :: "u32 \<Rightarrow> nat \<Rightarrow> u32" where
  "hash_rot x k = push_bit k x OR drop_bit (32 - k) x"

text \<open>\<open>mhash_add__\<close> of the source (an Isabelle name cannot end in an underscore).\<close>

definition mhash_add_raw :: "u32 \<Rightarrow> u32 \<Rightarrow> u32" where
  "mhash_add_raw hash data =
     (let data = data * 0xcc9e2d51;
          data = hash_rot data 15;
          data = data * 0x1b873593
      in hash XOR data)"

definition mhash_add :: "u32 \<Rightarrow> u32 \<Rightarrow> u32" where
  "mhash_add hash data =
     (let hash = mhash_add_raw hash data;
          hash = hash_rot hash 13
      in hash * 5 + 0xe6546b64)"

definition mhash_finish :: "u32 \<Rightarrow> nat \<Rightarrow> u32" where
  "mhash_finish hash n_bytes =
     (let hash = hash XOR of_nat n_bytes;
          hash = hash XOR drop_bit 16 hash;
          hash = hash * 0x85ebca6b;
          hash = hash XOR drop_bit 13 hash;
          hash = hash * 0xc2b2ae35;
          hash = hash XOR drop_bit 16 hash
      in hash)"

definition hash_2words :: "u32 \<Rightarrow> u32 \<Rightarrow> u32" where
  "hash_2words x y = mhash_finish (mhash_add (mhash_add x 0) y) 4"

definition hash_int :: "u32 \<Rightarrow> u32 \<Rightarrow> u32" where
  "hash_int x basis = hash_2words x basis"

text \<open>\<open>hash_pointer\<close> keeps the low 32 bits of the address.\<close>

definition hash_pointer :: "u64 \<Rightarrow> u32 \<Rightarrow> u32" where
  "hash_pointer p basis = hash_int (ucast p) basis"

definition hash_3words :: "u32 \<Rightarrow> u32 \<Rightarrow> u32 \<Rightarrow> u32" where
  "hash_3words a b c = mhash_finish (mhash_add (mhash_add (mhash_add a 0) b) c) 12"

definition hash_words :: "u32 list \<Rightarrow> u32 \<Rightarrow> u32" where
  "hash_words p basis = mhash_finish (foldl mhash_add basis p) (length p * 4)"

text \<open>\<open>memcpy(&tmp, p, n)\<close> of fewer than four bytes into a zeroed word.\<close>

definition memcpy_tail :: "u8 list \<Rightarrow> u32" where
  "memcpy_tail p = foldr (\<lambda>b acc. ucast b OR push_bit 8 acc) p 0"

fun hash_bytes_loop :: "u8 list \<Rightarrow> u32 \<Rightarrow> u32" where
  "hash_bytes_loop p hash =
     (if 4 \<le> length p
      then hash_bytes_loop (drop 4 p) (mhash_add hash (get_unaligned_u32 p))
      else if length p \<noteq> 0 then mhash_add_raw hash (memcpy_tail p)
      else hash)"

declare hash_bytes_loop.simps [simp del]

definition hash_bytes :: "u8 list \<Rightarrow> u32 \<Rightarrow> u32" where
  "hash_bytes p basis = mhash_finish (hash_bytes_loop p basis) (length p)"

text \<open>The memory image of a \<open>uint32_t\<close> on a little-endian machine.\<close>

definition u32_bytes :: "u32 \<Rightarrow> u8 list" where
  "u32_bytes w = [ucast w, ucast (drop_bit 8 w), ucast (drop_bit 16 w), ucast (drop_bit 24 w)]"

section \<open>Every mixing step is injective\<close>

lemma odd_mult_inj:
  fixes c d :: u32
  assumes "c * d = 1"
  shows "x * c = y * c \<longleftrightarrow> x = y"
proof
  assume "x * c = y * c"
  then have "x * (c * d) = y * (c * d)" by (simp flip: mult.assoc)
  with assms show "x = y" by simp
qed simp

lemma bit_hash_rot:
  "0 < k \<Longrightarrow> k < 32 \<Longrightarrow> i < 32 \<Longrightarrow>
     bit (hash_rot x k) i = (if k \<le> i then bit x (i - k) else bit x (i + 32 - k))"
  by (auto simp: hash_rot_def bit_simps algebra_simps dest: bit_u32_lt)

lemma hash_rot_inj:
  assumes "0 < k" and "k < 32"
  shows "hash_rot x k = hash_rot y k \<longleftrightarrow> x = y"
proof
  assume eq: "hash_rot x k = hash_rot y k"
  show "x = y"
  proof (rule bit_word_eqI)
    fix i
    assume "i < LENGTH(32)"
    then have i: "i < 32" by simp
    show "bit x i = bit y i"
    proof (cases "i + k < 32")
      case True
      then show ?thesis
        using bit_hash_rot [OF assms, of "i + k" x] bit_hash_rot [OF assms, of "i + k" y] eq by simp
    next
      case False
      then have "i + k - 32 < 32" "\<not> k \<le> i + k - 32" "i + k - 32 + 32 - k = i" using i assms by auto
      then show ?thesis
        using bit_hash_rot [OF assms, of "i + k - 32" x] bit_hash_rot [OF assms, of "i + k - 32" y] eq
        by simp
    qed
  qed
qed simp

lemma xorshift_inj:
  fixes x y :: u32
  assumes "0 < k"
  shows "x XOR drop_bit k x = y XOR drop_bit k y \<longleftrightarrow> x = y"
proof
  assume eq: "x XOR drop_bit k x = y XOR drop_bit k y"
  have "bit x i = bit y i" if "i < 32" for i
    using that
  proof (induction "32 - i" arbitrary: i rule: less_induct)
    case less
    have "bit (x XOR drop_bit k x) i = bit (y XOR drop_bit k y) i" using eq by simp
    then have st: "(bit x i \<noteq> bit x (i + k)) = (bit y i \<noteq> bit y (i + k))"
      by (simp add: bit_simps add.commute)
    show ?case
    proof (cases "i + k < 32")
      case True
      then have "bit x (i + k) = bit y (i + k)" using less assms by auto
      with st show ?thesis by auto
    next
      case False
      then have "\<not> bit x (i + k)" "\<not> bit y (i + k)" by (auto dest: bit_u32_lt)
      with st show ?thesis by auto
    qed
  qed
  then show "x = y" by (intro bit_word_eqI) simp
qed simp

lemma xor_cancel_right: "(x :: u32) XOR z = y XOR z \<longleftrightarrow> x = y"
proof
  assume "x XOR z = y XOR z"
  then have "(x XOR z) XOR z = (y XOR z) XOR z" by simp
  then show "x = y" by (simp add: xor.assoc)
qed simp

lemma xor_cancel_left: "(z :: u32) XOR x = z XOR y \<longleftrightarrow> x = y"
  using xor_cancel_right [of x z y] by (simp add: xor.commute)

lemma mult_consts:
  "x * (0xcc9e2d51 :: u32) = y * 0xcc9e2d51 \<longleftrightarrow> x = y"
  "x * (0x1b873593 :: u32) = y * 0x1b873593 \<longleftrightarrow> x = y"
  "x * (5 :: u32) = y * 5 \<longleftrightarrow> x = y"
  "x * (0x85ebca6b :: u32) = y * 0x85ebca6b \<longleftrightarrow> x = y"
  "x * (0xc2b2ae35 :: u32) = y * 0xc2b2ae35 \<longleftrightarrow> x = y"
  by (rule odd_mult_inj [where d = "0xdee13bb1"] odd_mult_inj [where d = "0x56ed309b"]
      odd_mult_inj [where d = "0xcccccccd"] odd_mult_inj [where d = "0xa5cb9243"] odd_mult_inj [where d = "0x7ed1b41d"],
      simp)+

lemmas mix_inj = mult_consts hash_rot_inj xorshift_inj xor_cancel_left xor_cancel_right

lemma mhash_add_raw_inj_data: "mhash_add_raw h x = mhash_add_raw h y \<longleftrightarrow> x = y"
  by (simp add: mhash_add_raw_def Let_def mix_inj)

lemma mhash_add_inj_data: "mhash_add h x = mhash_add h y \<longleftrightarrow> x = y"
  by (simp add: mhash_add_def mhash_add_raw_inj_data Let_def mix_inj)

lemma mhash_add_inj_hash: "mhash_add g x = mhash_add h x \<longleftrightarrow> g = h"
  by (simp add: mhash_add_def mhash_add_raw_def Let_def mix_inj)

lemma mhash_finish_inj: "mhash_finish g n = mhash_finish h n \<longleftrightarrow> g = h"
  by (simp only: mhash_finish_def Let_def mix_inj zero_less_numeral)

lemma hash_2words_inj: "hash_2words x b = hash_2words y b \<longleftrightarrow> x = y"
  by (simp add: hash_2words_def mhash_finish_inj mhash_add_inj_hash)

lemma hash_int_inj: "hash_int x b = hash_int y b \<longleftrightarrow> x = y"
  by (simp add: hash_int_def hash_2words_inj)

lemma foldl_mhash_inj_basis: "foldl mhash_add g xs = foldl mhash_add h xs \<longleftrightarrow> g = h"
  by (induction xs arbitrary: g h) (simp_all add: mhash_add_inj_hash)

text \<open>\<open>hash_words\<close> is injective in each word of its input: changing exactly one word of an
  array changes its hash, whatever the other words and the basis are.\<close>

theorem hash_words_one_word:
  "hash_words (xs @ a # ys) basis = hash_words (xs @ b # ys) basis \<longleftrightarrow> a = b"
  by (simp add: hash_words_def mhash_finish_inj foldl_mhash_inj_basis mhash_add_inj_data)

section \<open>Bytes and words\<close>

lemma bit_ucast_u8: "bit (ucast (w :: u32) :: u8) j \<longleftrightarrow> j < 8 \<and> bit w j"
  by (auto simp: bit_simps)

lemma get_unaligned_u32_bytes: "get_unaligned_u32 (u32_bytes w @ r) = w"
proof (rule bit_word_eqI)
  fix i
  assume "i < LENGTH(32)"
  then have "i < 32" by simp
  then consider "i < 8" | "8 \<le> i" "i < 16" | "16 \<le> i" "i < 24" | "24 \<le> i" "i < 32" by linarith
  then show "bit (get_unaligned_u32 (u32_bytes w @ r)) i = bit w i"
    unfolding get_unaligned_u32_le u32_bytes_def
    by cases (auto simp: bit_simps nth_Cons')
qed

lemma get_unaligned_u32_append: "length p = 4 \<Longrightarrow> get_unaligned_u32 (p @ r) = get_unaligned_u32 p"
  by (simp add: get_unaligned_u32_def nth_append)

lemma hash_bytes_loop_words:
  "hash_bytes_loop (concat (map u32_bytes ws)) h = foldl mhash_add h ws"
proof (induction ws arbitrary: h)
  case Nil
  then show ?case by (simp add: hash_bytes_loop.simps)
next
  case (Cons w ws)
  have l: "length (u32_bytes w) = 4" by (simp add: u32_bytes_def)
  show ?case
    by (subst hash_bytes_loop.simps) (simp add: l Cons get_unaligned_u32_bytes)
qed

lemma length_concat_u32_bytes: "length (concat (map u32_bytes ws)) = length ws * 4"
  by (induction ws) (simp_all add: u32_bytes_def)

text \<open>hashing the bytes of an array of words is hashing the words: the two entry points of
  \<open>hash.c\<close> agree on the memory image of every \<open>uint32_t\<close> array.\<close>

theorem hash_bytes_eq_hash_words:
  "hash_bytes (concat (map u32_bytes ws)) basis = hash_words ws basis"
  by (simp add: hash_bytes_def hash_words_def hash_bytes_loop_words length_concat_u32_bytes)

end
