(* ===== verification/Flow.thy ===== *)
theory Flow
  imports Hash
begin

text \<open>
  Flows, compressed flows and compressed masks: \<open>OFTonSGX/trusted/lib/flow.h\<close> and \<open>flow.c\<close>. A
  \<open>struct flow\<close> is the array of \<open>FLOW_U32S\<close> words through which \<open>flow.c\<close> accesses it; the number
  of words and the offsets of the members follow from the member list by the layout rules of the
  x86-64 ABI. A \<open>struct miniflow\<close> is its two maps and the array of values.

  \<open>miniflow_wf\<close> is the invariant stated in the comment of \<open>struct miniflow\<close>. Under it a compressed
  flow is a canonical representation of the expanded one, and each operation on compressed flows
  is characterised by the expanded flows alone: reading, comparing and hashing under a mask,
  combining masks, and the tests on masks.
\<close>

section \<open>Layout of struct flow\<close>

text \<open>Name, size and alignment of every member.\<close>

definition flow_members :: "(string \<times> nat \<times> nat) list" where
  "flow_members =
     [(''tunnel'', 24, 8), (''metadata'', 8, 8), (''ipv6_src'', 16, 4), (''ipv6_dst'', 16, 4),
      (''nd_target'', 16, 4), (''skb_priority'', 4, 4), (''regs'', 32, 4), (''nw_src'', 4, 4),
      (''nw_dst'', 4, 4), (''ipv6_label'', 4, 4), (''in_port'', 4, 4), (''skb_mark'', 4, 4),
      (''mpls_lse'', 4, 4), (''mpls_depth'', 2, 2), (''vlan_tci'', 2, 2), (''dl_type'', 2, 2),
      (''tp_src'', 2, 2), (''tp_dst'', 2, 2), (''dl_src'', 6, 1), (''dl_dst'', 6, 1),
      (''nw_proto'', 1, 1), (''nw_tos'', 1, 1), (''arp_sha'', 6, 1), (''arp_tha'', 6, 1),
      (''nw_ttl'', 1, 1), (''nw_frag'', 1, 1), (''zeros'', 6, 1)]"

definition align_up :: "nat \<Rightarrow> nat \<Rightarrow> nat" where
  "align_up n a = (n + (a - 1)) div a * a"

fun place_members :: "nat \<Rightarrow> (string \<times> nat \<times> nat) list \<Rightarrow> (string \<times> nat) list \<times> nat" where
  "place_members pos [] = ([], pos)"
| "place_members pos ((f, sz, al) # fs) =
     (let p = align_up pos al; (rest, e) = place_members (p + sz) fs in ((f, p) # rest, e))"

definition flow_offsetof :: "string \<Rightarrow> nat" where
  "flow_offsetof f = the (map_of (fst (place_members 0 flow_members)) f)"

definition sizeof_flow :: nat where
  "sizeof_flow = align_up (snd (place_members 0 flow_members)) 8"

definition FLOW_U32S :: nat where
  "FLOW_U32S = sizeof_flow div 4"

section \<open>State\<close>

type_synonym flow = "u32 list"

record flow_wildcards =
  wc_masks :: flow

definition MINI_N_MAPS :: nat where "MINI_N_MAPS = (FLOW_U32S + 31) div 32"

record miniflow =
  mf_values :: "u32 list"
  mf_map :: "u32 list"

record minimask =
  masks :: miniflow

section \<open>Operations\<close>

text \<open>The word offsets visited by the double loop over the maps, in order.\<close>

definition maps_ofs :: "u32 list \<Rightarrow> nat list" where
  "maps_ofs m = concat (map (\<lambda>i. map (\<lambda>c. c + i * 32) (map_ofs (m ! i))) [0..<MINI_N_MAPS])"

definition flow_hash :: "flow \<Rightarrow> u32 \<Rightarrow> u64" where
  "flow_hash f basis = ucast (hash_words (take (sizeof_flow div 4) f) basis)"

text \<open>\<open>memcmp\<close>: the sign of the first difference.\<close>

fun memcmp :: "u8 list \<Rightarrow> u8 list \<Rightarrow> int" where
  "memcmp (x # xs) (y # ys) = (if x < y then - 1 else if y < x then 1 else memcmp xs ys)"
| "memcmp _ _ = 0"

definition flow_compare_3way :: "flow \<Rightarrow> flow \<Rightarrow> int" where
  "flow_compare_3way a b = memcmp (concat (map u32_bytes a)) (concat (map u32_bytes b))"

definition flow_equal :: "flow \<Rightarrow> flow \<Rightarrow> bool" where
  "flow_equal a b \<longleftrightarrow> flow_compare_3way a b = 0"

definition flow_union_with_miniflow :: "flow \<Rightarrow> miniflow \<Rightarrow> flow" where
  "flow_union_with_miniflow dst src =
     fst (fold (\<lambda>c (dst, ofs). (dst[c := dst ! c OR mf_values src ! ofs], ofs + 1))
           (maps_ofs (mf_map src)) (dst, 0))"

definition flow_wildcards_fold_minimask :: "flow_wildcards \<Rightarrow> minimask \<Rightarrow> flow_wildcards" where
  "flow_wildcards_fold_minimask wc m = wc\<lparr>wc_masks := flow_union_with_miniflow (wc_masks wc) (masks m)\<rparr>"

definition flow_zero_wildcards :: "flow \<Rightarrow> flow_wildcards \<Rightarrow> flow" where
  "flow_zero_wildcards f wc = map (\<lambda>i. f ! i AND wc_masks wc ! i) [0..<FLOW_U32S]"

definition miniflow_n_values :: "miniflow \<Rightarrow> nat" where
  "miniflow_n_values mf = (\<Sum>i \<leftarrow> [0..<MINI_N_MAPS]. popcount (mf_map mf ! i))"

definition miniflow_map_step :: "flow \<Rightarrow> nat \<Rightarrow> u32 list \<Rightarrow> u32 list" where
  "miniflow_map_step src i m =
     (if src ! i \<noteq> 0 then m[i div 32 := m ! (i div 32) OR push_bit (i mod 32) 1] else m)"

definition miniflow_map_of :: "flow \<Rightarrow> u32 list" where
  "miniflow_map_of src = fold (miniflow_map_step src) [0..<FLOW_U32S] (replicate MINI_N_MAPS 0)"

definition miniflow_init :: "flow \<Rightarrow> miniflow" where
  "miniflow_init src = (let m = miniflow_map_of src in
     \<lparr>mf_values = map (\<lambda>c. src ! c) (maps_ofs m), mf_map = m\<rparr>)"

definition miniflow_clone :: "miniflow \<Rightarrow> miniflow" where
  "miniflow_clone src = (let n = miniflow_n_values src in
     \<lparr>mf_values = take n (mf_values src), mf_map = mf_map src\<rparr>)"

definition miniflow_expand :: "miniflow \<Rightarrow> flow" where
  "miniflow_expand src = flow_union_with_miniflow (replicate FLOW_U32S 0) src"

definition miniflow_get :: "miniflow \<Rightarrow> nat \<Rightarrow> u32" where
  "miniflow_get mf u32_ofs =
     (if mf_map mf ! (u32_ofs div 32) AND push_bit (u32_ofs mod 32) 1 = 0 then 0
      else if u32_ofs < 32
      then mf_values mf ! popcount (mf_map mf ! 0 AND (push_bit u32_ofs 1 - 1))
      else mf_values mf ! (popcount (mf_map mf ! 0)
             + popcount (mf_map mf ! 1 AND (push_bit (u32_ofs - 32) 1 - 1))))"

definition minimask_expand :: "minimask \<Rightarrow> flow_wildcards" where
  "minimask_expand m = \<lparr>wc_masks = miniflow_expand (masks m)\<rparr>"

text \<open>The halfword at byte offset \<open>u8_ofs\<close>, still in network byte order.\<close>

definition miniflow_get_be16 :: "miniflow \<Rightarrow> nat \<Rightarrow> u16" where
  "miniflow_get_be16 mf u8_ofs = (let w = miniflow_get mf (u8_ofs div 4) in
     if u8_ofs mod 4 \<noteq> 0 then ucast (drop_bit 16 w) else ucast w)"

definition VLAN_VID_MASK :: u16 where "VLAN_VID_MASK = 0x0fff"

definition VLAN_VID_SHIFT :: nat where "VLAN_VID_SHIFT = 0"

definition vlan_tci_to_vid :: "u16 \<Rightarrow> u16" where
  "vlan_tci_to_vid vlan_tci = drop_bit VLAN_VID_SHIFT (ntohs vlan_tci AND VLAN_VID_MASK)"

definition miniflow_get_vid :: "miniflow \<Rightarrow> u16" where
  "miniflow_get_vid mf = vlan_tci_to_vid (miniflow_get_be16 mf (flow_offsetof ''vlan_tci''))"

definition miniflow_equal :: "miniflow \<Rightarrow> miniflow \<Rightarrow> bool" where
  "miniflow_equal a b \<longleftrightarrow>
     (\<forall>i \<in> set [0..<MINI_N_MAPS]. mf_map a ! i = mf_map b ! i)
     \<and> take (miniflow_n_values a) (mf_values a) = take (miniflow_n_values a) (mf_values b)"

text \<open>The loops that walk the set bits of a mask with \<open>p\<close> running along its values.\<close>

definition mask_words :: "minimask \<Rightarrow> (nat \<times> u32) list" where
  "mask_words m = (let os = maps_ofs (mf_map (masks m)) in
     map (\<lambda>k. (os ! k, mf_values (masks m) ! k)) [0..<length os])"

definition miniflow_equal_in_minimask :: "miniflow \<Rightarrow> miniflow \<Rightarrow> minimask \<Rightarrow> bool" where
  "miniflow_equal_in_minimask a b m \<longleftrightarrow>
     (\<forall>(c, p) \<in> set (mask_words m). (miniflow_get a c XOR miniflow_get b c) AND p = 0)"

definition miniflow_equal_flow_in_minimask :: "miniflow \<Rightarrow> flow \<Rightarrow> minimask \<Rightarrow> bool" where
  "miniflow_equal_flow_in_minimask a b m \<longleftrightarrow>
     (\<forall>(c, p) \<in> set (mask_words m). (miniflow_get a c XOR b ! c) AND p = 0)"

definition miniflow_hash :: "miniflow \<Rightarrow> u32 \<Rightarrow> u32" where
  "miniflow_hash mf basis = hash_3words (mf_map mf ! 0) (mf_map mf ! 1)
     (hash_words (take (miniflow_n_values mf) (mf_values mf)) basis)"

definition miniflow_hash_in_minimask :: "miniflow \<Rightarrow> minimask \<Rightarrow> u32 \<Rightarrow> u32" where
  "miniflow_hash_in_minimask mf m basis =
     mhash_finish (fold (\<lambda>(c, p) hash. mhash_add hash (miniflow_get mf c AND p)) (mask_words m) basis)
       (length (mask_words m) * 4)"

definition flow_hash_in_minimask :: "flow \<Rightarrow> minimask \<Rightarrow> u32 \<Rightarrow> u32" where
  "flow_hash_in_minimask f m basis =
     mhash_finish (fold (\<lambda>(c, p) hash. mhash_add hash (f ! c AND p)) (mask_words m) basis)
       (length (mask_words m) * 4)"

definition minimask_init :: "flow_wildcards \<Rightarrow> minimask" where
  "minimask_init wc = \<lparr>masks = miniflow_init (wc_masks wc)\<rparr>"

definition minimask_clone :: "minimask \<Rightarrow> minimask" where
  "minimask_clone src = \<lparr>masks = miniflow_clone (masks src)\<rparr>"

text \<open>One map of \<open>minimask_combine\<close>: the accumulator is \<open>dst->map[i]\<close> and the values stored so far;
  \<open>rightmost_1bit(map)\<close> is the bit whose offset is \<open>raw_ctz(map)\<close>.\<close>

function combine_loop :: "miniflow \<Rightarrow> miniflow \<Rightarrow> nat \<Rightarrow> u32 \<Rightarrow> u32 \<times> u32 list \<Rightarrow> u32 \<times> u32 list" where
  "combine_loop a b i m (dmap, vals) =
     (if m = 0 then (dmap, vals)
      else let c = raw_ctz m + i * 32; w = miniflow_get a c AND miniflow_get b c in
        combine_loop a b i (zero_rightmost_1bit m)
          (if w \<noteq> 0 then (dmap OR rightmost_1bit m, vals @ [w]) else (dmap, vals)))"
  by pat_completeness auto
termination
  by (relation "measure (\<lambda>(a, b, i, m, acc). unat m)") (auto intro: zero_rightmost_1bit_less)

declare combine_loop.simps [simp del]

definition minimask_combine :: "minimask \<Rightarrow> minimask \<Rightarrow> minimask" where
  "minimask_combine a' b' = (let a = masks a'; b = masks b';
     (maps, vals) = fold (\<lambda>i (maps, vals).
        let (dm, vals) = combine_loop a b i (mf_map a ! i AND mf_map b ! i) (0, vals)
        in (maps @ [dm], vals)) [0..<MINI_N_MAPS] ([], [])
     in \<lparr>masks = \<lparr>mf_values = vals, mf_map = maps\<rparr>\<rparr>)"

definition minimask_get_vid_mask :: "minimask \<Rightarrow> u16" where
  "minimask_get_vid_mask m = miniflow_get_vid (masks m)"

definition minimask_equal :: "minimask \<Rightarrow> minimask \<Rightarrow> bool" where
  "minimask_equal a b \<longleftrightarrow> miniflow_equal (masks a) (masks b)"

definition minimask_hash :: "minimask \<Rightarrow> u32 \<Rightarrow> u32" where
  "minimask_hash m basis = miniflow_hash (masks m) basis"

definition minimask_has_extra :: "minimask \<Rightarrow> minimask \<Rightarrow> bool" where
  "minimask_has_extra a' b' = (let a = masks a'; b = masks b' in
     \<exists>c \<in> set (maps_ofs (map2 (OR) (mf_map a) (mf_map b))).
       miniflow_get a c AND miniflow_get b c \<noteq> miniflow_get b c)"

definition minimask_is_catchall :: "minimask \<Rightarrow> bool" where
  "minimask_is_catchall m \<longleftrightarrow> mf_map (masks m) ! 0 OR mf_map (masks m) ! 1 = 0"

section \<open>Sizes\<close>

lemma sizeof_flow_eq: "sizeof_flow = 184"
  by code_simp

lemma FLOW_U32S_eq: "FLOW_U32S = 46"
  by (simp add: FLOW_U32S_def sizeof_flow_eq)

lemma MINI_N_MAPS_eq: "MINI_N_MAPS = 2"
  by (simp add: MINI_N_MAPS_def FLOW_U32S_eq)

lemma vlan_tci_offset: "flow_offsetof ''vlan_tci'' = 142"
  by code_simp

section \<open>The invariant and the set bits of the maps\<close>

definition mbit :: "u32 list \<Rightarrow> nat \<Rightarrow> bool" where
  "mbit m c = bit (m ! (c div 32)) (c mod 32)"

definition miniflow_wf :: "miniflow \<Rightarrow> bool" where
  "miniflow_wf mf \<longleftrightarrow> length (mf_map mf) = MINI_N_MAPS
     \<and> (\<forall>c < 32 * MINI_N_MAPS. mbit (mf_map mf) c \<longrightarrow> c < FLOW_U32S)
     \<and> length (mf_values mf) = length (maps_ofs (mf_map mf)) \<and> 0 \<notin> set (mf_values mf)"

abbreviation minimask_wf :: "minimask \<Rightarrow> bool" where
  "minimask_wf m \<equiv> miniflow_wf (masks m)"

abbreviation flow_wf :: "flow \<Rightarrow> bool" where
  "flow_wf f \<equiv> length f = FLOW_U32S"

text \<open>The number of set bits below an offset.\<close>

abbreviation rank :: "(nat \<Rightarrow> bool) \<Rightarrow> nat \<Rightarrow> nat" where
  "rank P c \<equiv> length (filter P [0..<c])"

lemma upt_append_at: "k \<le> n \<Longrightarrow> [0..<n] = [0..<k] @ [k..<n]"
  using upt_add_eq_append [of 0 k "n - k"] by simp

lemma upt_maps: "[0..<MINI_N_MAPS] = [0, 1]"
  by (simp add: MINI_N_MAPS_eq upt_rec)

lemma filter_nth_rank: "P c \<Longrightarrow> c < n \<Longrightarrow> filter P [0..<n] ! rank P c = c"
  by (subst upt_split_at [of c n]) simp_all

lemma rank_less: "P c \<Longrightarrow> c < n \<Longrightarrow> rank P c < length (filter P [0..<n])"
  by (subst upt_split_at [of c n]) simp_all

lemma map_shift_filter:
  "map (\<lambda>c. c + k) (filter P [0..<n]) = filter (\<lambda>c. P (c - k)) [k..<k + n]"
proof -
  have "[k..<k + n] = map (\<lambda>c. c + k) [0..<n]" by (induction n) auto
  then show ?thesis by (simp add: filter_map o_def)
qed

lemma mbit_high: "mbit m c = bit (m ! 1) (c - 32)" if c: "32 \<le> c" "c < 64"
proof -
  from c have "c = (c - 32) + 32" "c - 32 < 32" by linarith+
  then obtain d where "c = d + 32" "d < 32" by blast
  then show ?thesis by (simp add: mbit_def div_add_self2)
qed

lemma mbit_low: "c < 32 \<Longrightarrow> mbit m c = bit (m ! 0) c"
  by (simp add: mbit_def)

lemma maps_ofs_filter: "length m = MINI_N_MAPS \<Longrightarrow> maps_ofs m = filter (mbit m) [0..<64]"
proof -
  have "maps_ofs m = filter (bit (m ! 0)) [0..<32] @ map (\<lambda>c. c + 32) (filter (bit (m ! 1)) [0..<32])"
    unfolding maps_ofs_def upt_maps map_ofs_eq_filter by simp
  also have "map (\<lambda>c. c + 32) (filter (bit (m ! 1)) [0..<32]) = filter (\<lambda>c. bit (m ! 1) (c - 32)) [32..<32 + 32]"
    by (rule map_shift_filter)
  also have "filter (\<lambda>c. bit (m ! 1) (c - 32)) [32..<32 + 32] = filter (mbit m) [32..<64]"
    by (rule filter_cong) (auto simp: mbit_high)
  also have "filter (bit (m ! 0)) [0..<32] = filter (mbit m) [0..<32]"
    by (rule filter_cong) (auto simp: mbit_low)
  finally show ?thesis using upt_append_at [of 32 64] by simp
qed

lemma filter_upt_bound: "(\<And>c. c < n \<Longrightarrow> P c \<Longrightarrow> c < k) \<Longrightarrow> k \<le> n \<Longrightarrow> filter P [0..<n] = filter P [0..<k]"
  using upt_append_at [of k n] by (fastforce simp: filter_empty_conv)

lemma miniflow_wf_ofs:
  assumes "miniflow_wf mf"
  shows "maps_ofs (mf_map mf) = filter (mbit (mf_map mf)) [0..<FLOW_U32S]"
proof -
  have "maps_ofs (mf_map mf) = filter (mbit (mf_map mf)) [0..<64]"
    using assms by (intro maps_ofs_filter) (simp add: miniflow_wf_def)
  also have "\<dots> = filter (mbit (mf_map mf)) [0..<FLOW_U32S]"
    using assms by (intro filter_upt_bound) (auto simp: miniflow_wf_def MINI_N_MAPS_eq FLOW_U32S_eq)
  finally show ?thesis .
qed

lemma n_values_ofs: "length m = MINI_N_MAPS \<Longrightarrow> miniflow_n_values \<lparr>mf_values = v, mf_map = m\<rparr> = length (maps_ofs m)"
  unfolding miniflow_n_values_def maps_ofs_def upt_maps map_ofs_eq_filter popcount_filter by simp

lemma miniflow_wf_n_values: "miniflow_wf mf \<Longrightarrow> miniflow_n_values mf = length (mf_values mf)"
  using n_values_ofs [of "mf_map mf" "mf_values mf"] by (simp add: miniflow_wf_def miniflow_n_values_def)

section \<open>Reading a compressed flow\<close>

lemma popcount_below:
  "c \<le> 32 \<Longrightarrow> popcount (m AND (2 ^ c - 1)) = rank (bit m) c"
proof -
  assume c: "c \<le> 32"
  have "m AND (2 ^ c - 1) = take_bit c m" by (simp add: take_bit_eq_mask flip: mask_eq_exp_minus_1)
  then have "popcount (m AND (2 ^ c - 1)) = length (filter (\<lambda>i. i < c \<and> bit m i) [0..<32])"
    by (simp add: popcount_filter bit_take_bit_iff [abs_def])
  also have "filter (\<lambda>i. i < c \<and> bit m i) [0..<32] = filter (\<lambda>i. i < c \<and> bit m i) [0..<c]"
    using c by (intro filter_upt_bound) auto
  also have "filter (\<lambda>i. i < c \<and> bit m i) [0..<c] = filter (bit m) [0..<c]"
    by (rule filter_cong) auto
  finally show ?thesis .
qed

lemma rank_mbit_high:
  assumes "32 \<le> c" and "c < 64"
  shows "rank (mbit m) c = rank (bit (m ! 0)) 32 + rank (bit (m ! 1)) (c - 32)"
proof -
  have "[0..<c] = [0..<32] @ [32..<32 + (c - 32)]" using assms upt_append_at [of 32 c] by simp
  moreover have "filter (mbit m) [32..<32 + (c - 32)] = map (\<lambda>i. i + 32) (filter (bit (m ! 1)) [0..<c - 32])"
    unfolding map_shift_filter using assms by (intro filter_cong) (auto simp: mbit_high)
  moreover have "filter (mbit m) [0..<32] = filter (bit (m ! 0)) [0..<32]"
    by (rule filter_cong) (auto simp: mbit_def)
  ultimately show ?thesis by simp
qed

lemma rank_mbit_low: "c \<le> 32 \<Longrightarrow> rank (mbit m) c = rank (bit (m ! 0)) c"
  by (rule arg_cong [where f = length], rule filter_cong) (auto simp: mbit_def)

lemma miniflow_get_rank:
  assumes "c < 64"
  shows "miniflow_get mf c = (if mbit (mf_map mf) c then mf_values mf ! rank (mbit (mf_map mf)) c else 0)"
proof (cases "c < 32")
  case True
  then show ?thesis by (simp add: miniflow_get_def and_exp_eq_0_iff_not_bit mbit_def [of _ c] popcount_below rank_mbit_low)
next
  case False
  then show ?thesis using assms
    by (simp add: miniflow_get_def and_exp_eq_0_iff_not_bit mbit_def [of _ c] popcount_below rank_mbit_high
        popcount_filter [of "mf_map mf ! 0"])
qed

lemma fold_union:
  fixes vs :: "u32 list" and k0 :: nat
  assumes "distinct os" and "\<forall>c \<in> set os. c < length dst"
  defines "r \<equiv> fst (fold (\<lambda>c (dst, k). (dst[c := dst ! c OR vs ! k], k + 1)) os (dst, k0))"
  shows "length r = length dst \<and> (\<forall>i < length os. r ! (os ! i) = dst ! (os ! i) OR vs ! (k0 + i))
    \<and> (\<forall>j. j \<notin> set os \<longrightarrow> r ! j = dst ! j)"
  using assms(1,2) unfolding r_def
proof (induction os arbitrary: dst k0)
  case (Cons c os)
  let ?d = "dst[c := dst ! c OR vs ! k0]"
  let ?r = "fst (fold (\<lambda>c (dst, k). (dst[c := dst ! c OR vs ! k], k + 1)) os (?d, k0 + 1))"
  have IH: "length ?r = length ?d" "\<forall>i < length os. ?r ! (os ! i) = ?d ! (os ! i) OR vs ! (k0 + 1 + i)"
    "\<forall>j. j \<notin> set os \<longrightarrow> ?r ! j = ?d ! j"
    using Cons.IH [of ?d "k0 + 1"] Cons.prems by auto
  have "?r ! ((c # os) ! i) = dst ! ((c # os) ! i) OR vs ! (k0 + i)" if "i < length (c # os)" for i
  proof (cases i)
    case 0
    then show ?thesis using IH(3) Cons.prems by simp
  next
    case (Suc i')
    then have "os ! i' \<noteq> c" "i' < length os" using that Cons.prems(1) by auto
    then show ?thesis using IH(2) Suc by simp
  qed
  then show ?case using IH by auto
qed auto

lemma flow_union_nth:
  assumes "miniflow_wf mf" and "flow_wf f" and "c < FLOW_U32S"
  shows "flow_union_with_miniflow f mf ! c = f ! c OR miniflow_get mf c"
    and "length (flow_union_with_miniflow f mf) = FLOW_U32S"
proof -
  let ?P = "mbit (mf_map mf)" and ?os = "maps_ofs (mf_map mf)"
  have os: "?os = filter ?P [0..<FLOW_U32S]" by (rule miniflow_wf_ofs [OF assms(1)])
  have u: "length (flow_union_with_miniflow f mf) = length f"
    "\<forall>i < length ?os. flow_union_with_miniflow f mf ! (?os ! i) = f ! (?os ! i) OR mf_values mf ! (0 + i)"
    "\<forall>j. j \<notin> set ?os \<longrightarrow> flow_union_with_miniflow f mf ! j = f ! j"
    using fold_union [of ?os f "mf_values mf" 0] os assms(2) by (auto simp: flow_union_with_miniflow_def)
  show "length (flow_union_with_miniflow f mf) = FLOW_U32S" using u(1) assms(2) by simp
  have c64: "c < 64" using assms(3) by (simp add: FLOW_U32S_eq)
  show "flow_union_with_miniflow f mf ! c = f ! c OR miniflow_get mf c"
  proof (cases "?P c")
    case True
    have "?os ! rank ?P c = c" "rank ?P c < length ?os"
      unfolding os using True assms(3) by (auto intro: filter_nth_rank rank_less)
    with u(2) True show ?thesis by (metis add_0 miniflow_get_rank [OF c64])
  next
    case False
    then show ?thesis using u(3) os by (simp add: miniflow_get_rank [OF c64])
  qed
qed

lemma length_expand [simp]: "miniflow_wf mf \<Longrightarrow> length (miniflow_expand mf) = FLOW_U32S"
  unfolding miniflow_expand_def by (rule flow_union_nth(2) [of mf _ 0]) (auto simp: FLOW_U32S_eq)

lemma expand_nth:
  "miniflow_wf mf \<Longrightarrow> c < FLOW_U32S \<Longrightarrow> miniflow_expand mf ! c = miniflow_get mf c"
  by (simp add: miniflow_expand_def flow_union_nth)

lemma get_nonzero:
  assumes "miniflow_wf mf" and "c < FLOW_U32S"
  shows "miniflow_get mf c \<noteq> 0 \<longleftrightarrow> mbit (mf_map mf) c"
proof -
  have c64: "c < 64" using assms(2) by (simp add: FLOW_U32S_eq)
  have "rank (mbit (mf_map mf)) c < length (mf_values mf)" if "mbit (mf_map mf) c"
    using rank_less [where P = "mbit (mf_map mf)", OF that assms(2)] assms(1) miniflow_wf_ofs [OF assms(1)] by (simp add: miniflow_wf_def)
  with assms(1) show ?thesis
    unfolding miniflow_get_rank [OF c64] miniflow_wf_def by (metis nth_mem)
qed

lemma expand_eq_map: "miniflow_wf mf \<Longrightarrow> miniflow_expand mf = map (miniflow_get mf) [0..<FLOW_U32S]"
  by (rule nth_equalityI) (simp_all add: expand_nth)

lemma wf_filter_get:
  "miniflow_wf mf \<Longrightarrow> maps_ofs (mf_map mf) = filter (\<lambda>c. miniflow_get mf c \<noteq> 0) [0..<FLOW_U32S]"
  unfolding miniflow_wf_ofs by (rule filter_cong) (simp_all add: get_nonzero)

lemma rank_filter_nth:
  assumes "i < length (filter P [0..<n])"
  shows "rank P (filter P [0..<n] ! i) = i"
proof -
  let ?c = "filter P [0..<n] ! i"
  have "?c \<in> set (filter P [0..<n])" using assms by (rule nth_mem)
  then have c: "P ?c" "?c < n" by auto
  have "filter P [0..<n] ! rank P ?c = filter P [0..<n] ! i" "rank P ?c < length (filter P [0..<n])"
    using filter_nth_rank [of P ?c n] rank_less [of P ?c n] c by simp_all
  then show ?thesis using assms by (metis distinct_filter distinct_upt nth_eq_iff_index_eq)
qed

lemma wf_values_get:
  assumes "miniflow_wf mf"
  shows "mf_values mf = map (miniflow_get mf) (maps_ofs (mf_map mf))"
proof (rule nth_equalityI)
  note os = miniflow_wf_ofs [OF assms]
  show "length (mf_values mf) = length (map (miniflow_get mf) (maps_ofs (mf_map mf)))"
    using assms by (simp add: miniflow_wf_def)
  fix i
  assume "i < length (mf_values mf)"
  then have i: "i < length (maps_ofs (mf_map mf))" using assms by (simp add: miniflow_wf_def)
  let ?c = "maps_ofs (mf_map mf) ! i"
  have "?c \<in> set (maps_ofs (mf_map mf))" using i by (rule nth_mem)
  then have c: "mbit (mf_map mf) ?c" "?c < 64" unfolding os by (auto simp: FLOW_U32S_eq)
  have "rank (mbit (mf_map mf)) ?c = i"
    using rank_filter_nth [of i "mbit (mf_map mf)" FLOW_U32S] i unfolding os by simp
  then show "mf_values mf ! i = map (miniflow_get mf) (maps_ofs (mf_map mf)) ! i"
    using i c by (simp add: miniflow_get_rank)
qed

lemma maps_eqI:
  assumes "length m = MINI_N_MAPS" and "length m' = MINI_N_MAPS" and "\<And>c. c < 64 \<Longrightarrow> mbit m c = mbit m' c"
  shows "m = m'"
proof -
  have "bit (m ! 0) i = bit (m' ! 0) i" "bit (m ! 1) i = bit (m' ! 1) i" if "i < 32" for i
    using assms(3) [of i] assms(3) [of "i + 32"] that by (auto simp: mbit_low mbit_high)
  then have "m ! 0 = m' ! 0" "m ! 1 = m' ! 1" by (auto intro: bit_word_eqI)
  with assms(1,2) show ?thesis by (auto simp: MINI_N_MAPS_eq numeral_2_eq_2 length_Suc_conv)
qed

text \<open>A compressed flow is determined by the words it stands for.\<close>

lemma miniflow_canonical:
  assumes "miniflow_wf a" and "miniflow_wf b" and "\<And>c. c < FLOW_U32S \<Longrightarrow> miniflow_get a c = miniflow_get b c"
  shows "a = b"
proof -
  have "mbit (mf_map a) c = mbit (mf_map b) c" if "c < 64" for c
  proof (cases "c < FLOW_U32S")
    case True
    then show ?thesis using assms get_nonzero by metis
  next
    case False
    then show ?thesis using assms(1,2) that by (auto simp: miniflow_wf_def MINI_N_MAPS_eq)
  qed
  then have m: "mf_map a = mf_map b"
    using assms(1,2) by (intro maps_eqI) (simp_all add: miniflow_wf_def)
  moreover have "mf_values a = mf_values b"
    using assms(3) miniflow_wf_ofs [OF assms(1)] wf_values_get [OF assms(1)] wf_values_get [OF assms(2)] m
    by auto
  ultimately show ?thesis by simp
qed

lemma expand_inj: "miniflow_wf a \<Longrightarrow> miniflow_wf b \<Longrightarrow> miniflow_expand a = miniflow_expand b \<longleftrightarrow> a = b"
  using miniflow_canonical [of a b] expand_nth [of a] expand_nth [of b] by metis

section \<open>Compressing a flow\<close>

lemma mbit_step:
  assumes "length m = MINI_N_MAPS" and "i < 64" and "c < 64"
  shows "mbit (miniflow_map_step src i m) c \<longleftrightarrow> mbit m c \<or> (c = i \<and> src ! i \<noteq> 0)"
proof -
  have d: "i div 32 < length m" "c mod 32 < 32" using assms by (auto simp: MINI_N_MAPS_eq)
  have "c = i \<longleftrightarrow> c div 32 = i div 32 \<and> c mod 32 = i mod 32" by (metis div_mod_decomp)
  with d show ?thesis
    by (cases "c div 32 = i div 32") (auto simp: miniflow_map_step_def mbit_def nth_list_update bit_simps)
qed

lemma length_map_step [simp]: "length (miniflow_map_step src i m) = length m"
  by (simp add: miniflow_map_step_def)

lemma miniflow_map_of_bits:
  "length (miniflow_map_of src) = MINI_N_MAPS"
  "c < 64 \<Longrightarrow> mbit (miniflow_map_of src) c \<longleftrightarrow> c < FLOW_U32S \<and> src ! c \<noteq> 0"
proof -
  let ?m = "\<lambda>n. fold (miniflow_map_step src) [0..<n] (replicate MINI_N_MAPS 0)"
  have *: "length (?m n) = MINI_N_MAPS \<and> (\<forall>c < 64. mbit (?m n) c \<longleftrightarrow> c < n \<and> src ! c \<noteq> 0)" if "n \<le> 64" for n
    using that
  proof (induction n)
    case 0
    show ?case by (auto simp: mbit_def MINI_N_MAPS_eq)
  next
    case (Suc n)
    then have IH: "length (?m n) = MINI_N_MAPS" "\<forall>c < 64. mbit (?m n) c \<longleftrightarrow> c < n \<and> src ! c \<noteq> 0"
      by auto
    with mbit_step [OF IH(1), of n] Suc.prems show ?case by (auto simp: less_Suc_eq)
  qed
  show "length (miniflow_map_of src) = MINI_N_MAPS"
    "c < 64 \<Longrightarrow> mbit (miniflow_map_of src) c \<longleftrightarrow> c < FLOW_U32S \<and> src ! c \<noteq> 0"
    using * [of FLOW_U32S] by (simp_all add: miniflow_map_of_def FLOW_U32S_eq)
qed

lemma init_ofs: "maps_ofs (miniflow_map_of src) = filter (\<lambda>c. src ! c \<noteq> 0) [0..<FLOW_U32S]"
proof -
  have "maps_ofs (miniflow_map_of src) = filter (mbit (miniflow_map_of src)) [0..<64]"
    by (rule maps_ofs_filter [OF miniflow_map_of_bits(1)])
  also have "\<dots> = filter (mbit (miniflow_map_of src)) [0..<FLOW_U32S]"
    by (rule filter_upt_bound) (auto simp: miniflow_map_of_bits FLOW_U32S_eq)
  also have "\<dots> = filter (\<lambda>c. src ! c \<noteq> 0) [0..<FLOW_U32S]"
    by (rule filter_cong) (auto simp: miniflow_map_of_bits FLOW_U32S_eq)
  finally show ?thesis .
qed

lemma miniflow_init_wf [simp]: "miniflow_wf (miniflow_init src)"
  by (auto simp: miniflow_wf_def miniflow_init_def Let_def miniflow_map_of_bits init_ofs MINI_N_MAPS_eq)

lemma miniflow_get_init:
  assumes "c < FLOW_U32S"
  shows "miniflow_get (miniflow_init src) c = src ! c"
proof -
  let ?P = "mbit (miniflow_map_of src)"
  have c64: "c < 64" using assms by (simp add: FLOW_U32S_eq)
  show ?thesis
  proof (cases "src ! c = 0")
    case True
    then show ?thesis
      using get_nonzero [OF miniflow_init_wf assms, of src] miniflow_map_of_bits(2) [OF c64, of src]
      by (simp add: miniflow_init_def Let_def)
  next
    case False
    then have P: "?P c" using assms miniflow_map_of_bits(2) [OF c64] by simp
    have os: "maps_ofs (miniflow_map_of src) = filter ?P [0..<FLOW_U32S]"
      using miniflow_wf_ofs [OF miniflow_init_wf, of src] by (simp add: miniflow_init_def Let_def)
    show ?thesis
      using P rank_less [of ?P c FLOW_U32S] filter_nth_rank [of ?P c FLOW_U32S] assms
      by (simp add: miniflow_get_rank [OF c64] miniflow_init_def Let_def os)
  qed
qed

lemma expand_init: "flow_wf f \<Longrightarrow> miniflow_expand (miniflow_init f) = f"
  by (rule nth_equalityI) (simp_all add: expand_nth miniflow_get_init)

lemma init_expand: "miniflow_wf mf \<Longrightarrow> miniflow_init (miniflow_expand mf) = mf"
  by (rule miniflow_canonical) (simp_all add: expand_nth miniflow_get_init)

lemma miniflow_clone_id [simp]: "miniflow_wf mf \<Longrightarrow> miniflow_clone mf = mf"
  by (simp add: miniflow_clone_def miniflow_wf_n_values)

lemma minimask_clone_id [simp]: "minimask_wf m \<Longrightarrow> minimask_clone m = m"
  by (simp add: minimask_clone_def)

section \<open>Comparing and hashing under a mask\<close>

lemma mask_words_eq:
  assumes "minimask_wf m"
  shows "mask_words m = map (\<lambda>c. (c, miniflow_get (masks m) c))
    (filter (\<lambda>c. miniflow_get (masks m) c \<noteq> 0) [0..<FLOW_U32S])"
proof -
  let ?os = "maps_ofs (mf_map (masks m))"
  have "mask_words m = map (\<lambda>c. (c, miniflow_get (masks m) c)) ?os"
    unfolding mask_words_def Let_def
    by (rule nth_equalityI) (simp_all add: wf_values_get [OF assms])
  then show ?thesis unfolding wf_filter_get [OF assms] .
qed

lemma xor_and_zero: "(x XOR y) AND p = 0 \<longleftrightarrow> x AND p = (y AND p :: u32)"
proof
  assume l: "(x XOR y) AND p = 0"
  have "bit ((x XOR y) AND p) i = False" for i using l by simp
  then show "x AND p = y AND p" by (intro bit_word_eqI) (auto simp: bit_simps)
next
  assume "x AND p = y AND p"
  then have "bit (x AND p) i = bit (y AND p) i" for i by simp
  then show "(x XOR y) AND p = 0" by (intro bit_word_eqI) (auto simp: bit_simps)
qed

text \<open>The words of a flow selected by a mask.\<close>

definition masked :: "flow \<Rightarrow> flow \<Rightarrow> u32 list" where
  "masked f m = map (\<lambda>c. f ! c AND m ! c) (filter (\<lambda>c. m ! c \<noteq> 0) [0..<FLOW_U32S])"

definition agree :: "flow \<Rightarrow> flow \<Rightarrow> flow \<Rightarrow> bool" where
  "agree f g m \<longleftrightarrow> (\<forall>c < FLOW_U32S. f ! c AND m ! c = g ! c AND m ! c)"

lemma agree_masked: "agree f g m \<Longrightarrow> masked f m = masked g m"
  by (auto simp: agree_def masked_def)

lemma equal_in_minimask:
  assumes "miniflow_wf a" and "miniflow_wf b" and "minimask_wf m"
  shows "miniflow_equal_in_minimask a b m \<longleftrightarrow>
    agree (miniflow_expand a) (miniflow_expand b) (miniflow_expand (masks m))"
  unfolding miniflow_equal_in_minimask_def mask_words_eq [OF assms(3)] agree_def xor_and_zero
  using assms by (auto simp: expand_nth)

lemma equal_flow_in_minimask:
  assumes "miniflow_wf a" and "minimask_wf m"
  shows "miniflow_equal_flow_in_minimask a f m \<longleftrightarrow>
    agree (miniflow_expand a) f (miniflow_expand (masks m))"
  unfolding miniflow_equal_flow_in_minimask_def mask_words_eq [OF assms(2)] agree_def xor_and_zero
  using assms by (auto simp: expand_nth)

lemma fold_mhash: "fold (\<lambda>c hash. mhash_add hash (g c)) cs basis = foldl mhash_add basis (map g cs)"
  by (induction cs arbitrary: basis) auto

lemma flow_hash_masked:
  assumes "minimask_wf m"
  shows "flow_hash_in_minimask f m basis = hash_words (masked f (miniflow_expand (masks m))) basis"
proof -
  have "filter (\<lambda>c. miniflow_get (masks m) c \<noteq> 0) [0..<FLOW_U32S]
      = filter (\<lambda>c. miniflow_expand (masks m) ! c \<noteq> 0) [0..<FLOW_U32S]" (is "_ = ?cs")
    using assms by (intro filter_cong) (simp_all add: expand_nth)
  then have "mask_words m = map (\<lambda>c. (c, miniflow_get (masks m) c)) ?cs" using mask_words_eq [OF assms] by simp
  also have "\<dots> = map (\<lambda>c. (c, miniflow_expand (masks m) ! c)) ?cs"
    using assms by (auto simp: expand_nth)
  finally show ?thesis
    by (simp add: flow_hash_in_minimask_def fold_map comp_def fold_mhash hash_words_def masked_def)
qed

lemma miniflow_hash_masked:
  assumes "miniflow_wf mf" and "minimask_wf m"
  shows "miniflow_hash_in_minimask mf m basis = flow_hash_in_minimask (miniflow_expand mf) m basis"
proof -
  have "\<forall>cp \<in> set (mask_words m). miniflow_get mf (fst cp) = miniflow_expand mf ! fst cp"
    unfolding mask_words_eq [OF assms(2)] using assms(1) by (auto simp: expand_nth)
  then have "fold (\<lambda>(c, p) hash. mhash_add hash (miniflow_get mf c AND p)) (mask_words m) basis
      = fold (\<lambda>(c, p) hash. mhash_add hash (miniflow_expand mf ! c AND p)) (mask_words m) basis"
    by (intro fold_cong) auto
  then show ?thesis by (simp add: miniflow_hash_in_minimask_def flow_hash_in_minimask_def)
qed

lemma agree_hash:
  "minimask_wf m \<Longrightarrow> agree f g (miniflow_expand (masks m)) \<Longrightarrow>
   flow_hash_in_minimask f m basis = flow_hash_in_minimask g m basis"
  by (simp add: flow_hash_masked agree_masked)

lemma miniflow_equal_iff:
  assumes "miniflow_wf a" and "miniflow_wf b"
  shows "miniflow_equal a b \<longleftrightarrow> a = b"
proof
  assume eq: "miniflow_equal a b"
  then have "mf_map a = mf_map b"
    using assms by (auto simp: miniflow_equal_def upt_maps miniflow_wf_def MINI_N_MAPS_eq
        intro!: nth_equalityI simp: less_2_cases_iff)
  moreover from this have "length (mf_values a) = length (mf_values b)"
    using assms by (simp add: miniflow_wf_def)
  ultimately show "a = b" using eq assms(1) by (simp add: miniflow_equal_def miniflow_wf_n_values)
qed (simp add: miniflow_equal_def)

lemma minimask_equal_iff: "minimask_wf a \<Longrightarrow> minimask_wf b \<Longrightarrow> minimask_equal a b \<longleftrightarrow> a = b"
  by (cases a, cases b) (simp add: minimask_equal_def miniflow_equal_iff)

section \<open>Operations on masks\<close>

text \<open>The word-wise conjunction of two compressed masks.\<close>

definition and_word :: "miniflow \<Rightarrow> miniflow \<Rightarrow> nat \<Rightarrow> u32" where
  "and_word a b c = miniflow_get a c AND miniflow_get b c"

lemma combine_loop_eq:
  "combine_loop a b i m (d, vals) =
     (let cs = filter (\<lambda>c. and_word a b (c + i * 32) \<noteq> 0) (map_ofs m)
      in (fold (\<lambda>c d. d OR push_bit c 1) cs d, vals @ map (\<lambda>c. and_word a b (c + i * 32)) cs))"
proof (induction m arbitrary: d vals rule: map_ofs.induct)
  case (1 m)
  show ?case
  proof (cases "m = 0")
    case True
    then show ?thesis by (simp add: combine_loop.simps map_ofs.simps)
  next
    case False
    have "rightmost_1bit m = push_bit (raw_ctz m) 1"
      using raw_ctz_props [OF False] by (intro rightmost_1bit_low) auto
    then show ?thesis
      using False 1 [OF False]
      by (subst combine_loop.simps) (simp add: map_ofs.simps [of m] and_word_def Let_def)
  qed
qed

lemma bit_fold_or:
  "bit (fold (\<lambda>c d. d OR push_bit c 1) cs (d :: u32)) k \<longleftrightarrow> bit d k \<or> (k \<in> set cs \<and> k < 32)"
  by (induction cs arbitrary: d) (auto simp: bit_simps)

lemma and_word_bits:
  assumes "miniflow_wf a" and "miniflow_wf b" and "c < 64" and "and_word a b c \<noteq> 0"
  shows "mbit (mf_map a) c" "mbit (mf_map b) c"
proof -
  have "miniflow_get a c \<noteq> 0" "miniflow_get b c \<noteq> 0" using assms(4) by (auto simp: and_word_def)
  then show "mbit (mf_map a) c" "mbit (mf_map b) c"
    using miniflow_get_rank [OF assms(3), of a] miniflow_get_rank [OF assms(3), of b] by metis+
qed

lemma combine_values:
  assumes "miniflow_wf a" and "miniflow_wf b" and "i < 2"
  shows "map (\<lambda>c. c + i * 32) (filter (\<lambda>c. and_word a b (c + i * 32) \<noteq> 0) (map_ofs (mf_map a ! i AND mf_map b ! i)))
    = filter (\<lambda>c. and_word a b c \<noteq> 0) [i * 32..<i * 32 + 32]"
proof -
  have "filter (\<lambda>c. and_word a b (c + i * 32) \<noteq> 0) (map_ofs (mf_map a ! i AND mf_map b ! i))
      = filter (\<lambda>c. and_word a b (c + i * 32) \<noteq> 0) [0..<32]"
    unfolding map_ofs_eq_filter filter_filter
  proof (rule filter_cong)
    fix c
    assume "c \<in> set [0..<32]"
    then have "c + i * 32 < 64" "(c + i * 32) div 32 = i" "(c + i * 32) mod 32 = c" using assms(3) by auto
    then show "(bit (mf_map a ! i AND mf_map b ! i) c \<and> and_word a b (c + i * 32) \<noteq> 0) =
        (and_word a b (c + i * 32) \<noteq> 0)"
      using and_word_bits [OF assms(1,2), of "c + i * 32"] by (auto simp: mbit_def bit_simps)
  qed simp
  then show ?thesis using map_shift_filter [of "i * 32" "\<lambda>c. and_word a b (c + i * 32) \<noteq> 0" 32]
    by (auto intro!: filter_cong)
qed

lemma mbit_pair: "c < 64 \<Longrightarrow> mbit [x, y] c = (if c < 32 then bit x c else bit y (c - 32))"
  by (simp add: mbit_low mbit_high)

lemma combine_eq_init:
  assumes "minimask_wf a" and "minimask_wf b"
  shows "minimask_combine a b
    = minimask_init \<lparr>wc_masks = map (and_word (masks a) (masks b)) [0..<FLOW_U32S]\<rparr>"
proof -
  let ?a = "masks a" and ?b = "masks b"
  let ?w = "and_word ?a ?b" and ?src = "map (and_word (masks a) (masks b)) [0..<FLOW_U32S]"
  let ?cs = "\<lambda>i. filter (\<lambda>c. ?w (c + i * 32) \<noteq> 0) (map_ofs (mf_map ?a ! i AND mf_map ?b ! i))"
  let ?d = "\<lambda>i. fold (\<lambda>c d. d OR push_bit c 1) (?cs i) (0 :: u32)"
  have v: "map (\<lambda>c. ?w (c + i * 32)) (?cs i) = map ?w (filter (\<lambda>c. ?w c \<noteq> 0) [i * 32..<i * 32 + 32])"
    if "i < 2" for i
    using combine_values [OF assms that, symmetric] by (simp add: comp_def)
  have bd: "k \<in> set (?cs i) \<longleftrightarrow> k < 32 \<and> ?w (k + i * 32) \<noteq> 0" if "i < 2" for i k
  proof -
    have "(\<lambda>c. c + i * 32) ` set (?cs i) = set (filter (\<lambda>c. ?w c \<noteq> 0) [i * 32..<i * 32 + 32])"
      using arg_cong [OF combine_values [OF assms that], of set] by simp
    then have "k \<in> set (?cs i) \<longleftrightarrow> k + i * 32 \<in> set (filter (\<lambda>c. ?w c \<noteq> 0) [i * 32..<i * 32 + 32])"
      by (metis (mono_tags, lifting) add_right_imp_eq image_iff)
    then show ?thesis by auto
  qed
  have dbit: "bit (?d i) k \<longleftrightarrow> k < 32 \<and> ?w (k + i * 32) \<noteq> 0" if "i < 2" for i k
    unfolding bit_fold_or bd [OF that] by auto
  have zero: "?w c = 0" if "c < 64" "\<not> c < FLOW_U32S" for c
    using that assms and_word_bits(1) [OF assms, of c] by (auto simp: miniflow_wf_def MINI_N_MAPS_eq)
  have "minimask_combine a b = \<lparr>masks = \<lparr>mf_values = map ?w (filter (\<lambda>c. ?w c \<noteq> 0) [0..<64]), mf_map = [?d 0, ?d 1]\<rparr>\<rparr>"
    using v [of 0] v [of 1] upt_append_at [of 32 64]
    by (simp add: minimask_combine_def upt_maps combine_loop_eq Let_def)
  also have "filter (\<lambda>c. ?w c \<noteq> 0) [0..<64] = filter (\<lambda>c. ?w c \<noteq> 0) [0..<FLOW_U32S]"
    using zero by (intro filter_upt_bound) (auto simp: FLOW_U32S_eq)
  also have "map ?w (filter (\<lambda>c. ?w c \<noteq> 0) [0..<FLOW_U32S]) = mf_values (miniflow_init ?src)"
    by (auto simp: miniflow_init_def Let_def init_ofs intro!: filter_cong map_cong)
  also have "[?d 0, ?d 1] = miniflow_map_of ?src"
  proof (rule maps_eqI)
    fix c :: nat
    assume c: "c < 64"
    have "mbit [?d 0, ?d 1] c \<longleftrightarrow> ?w c \<noteq> 0"
      unfolding mbit_pair [OF c] using c dbit [of 0 c] dbit [of 1 "c - 32"]
      by (cases "c < 32") (simp_all add: less_diff_conv2)
    also have "\<dots> \<longleftrightarrow> mbit (miniflow_map_of ?src) c"
      using c zero [of c] by (cases "c < FLOW_U32S") (simp_all add: miniflow_map_of_bits)
    finally show "mbit [?d 0, ?d 1] c = mbit (miniflow_map_of ?src) c" .
  qed (simp_all add: MINI_N_MAPS_eq miniflow_map_of_bits(1) [unfolded MINI_N_MAPS_eq])
  finally show ?thesis by (simp add: minimask_init_def miniflow_init_def Let_def)
qed

lemma minimask_init_wf [simp]: "minimask_wf (minimask_init wc)"
  by (simp add: minimask_init_def)

lemma combine_wf [simp]: "minimask_wf a \<Longrightarrow> minimask_wf b \<Longrightarrow> minimask_wf (minimask_combine a b)"
  by (simp add: combine_eq_init)

lemma expand_combine:
  assumes "minimask_wf a" and "minimask_wf b"
  shows "miniflow_expand (masks (minimask_combine a b)) =
    map2 (AND) (miniflow_expand (masks a)) (miniflow_expand (masks b))"
proof -
  have "miniflow_expand (masks (minimask_combine a b)) = map (and_word (masks a) (masks b)) [0..<FLOW_U32S]"
    unfolding combine_eq_init [OF assms] by (simp add: minimask_init_def expand_init)
  then show ?thesis
    using assms by (auto simp: expand_eq_map and_word_def intro!: nth_equalityI)
qed

lemma has_extra_iff:
  assumes "minimask_wf a" and "minimask_wf b"
  shows "minimask_has_extra a b \<longleftrightarrow>
    (\<exists>c < FLOW_U32S. miniflow_expand (masks a) ! c AND miniflow_expand (masks b) ! c \<noteq> miniflow_expand (masks b) ! c)"
proof -
  let ?m = "map2 (OR) (mf_map (masks a)) (mf_map (masks b))"
  have l: "length (mf_map (masks a)) = 2" "length (mf_map (masks b)) = 2"
    using assms by (auto simp: miniflow_wf_def MINI_N_MAPS_eq)
  have "mbit ?m c \<longleftrightarrow> mbit (mf_map (masks a)) c \<or> mbit (mf_map (masks b)) c" if "c < 64" for c
    using that l by (cases "c < 32") (auto simp: mbit_low mbit_high bit_simps)
  moreover have "maps_ofs ?m = filter (mbit ?m) [0..<64]" using l by (intro maps_ofs_filter) (simp add: MINI_N_MAPS_eq)
  ultimately have s: "c \<in> set (maps_ofs ?m) \<longleftrightarrow>
      c < 64 \<and> (mbit (mf_map (masks a)) c \<or> mbit (mf_map (masks b)) c)" for c
    by auto
  have e: "c < FLOW_U32S" if "c \<in> set (maps_ofs ?m)" for c
    using that assms unfolding s by (auto simp: miniflow_wf_def MINI_N_MAPS_eq)
  have z: "c \<in> set (maps_ofs ?m)" if "c < FLOW_U32S" "miniflow_get (masks b) c \<noteq> 0" for c
    using that get_nonzero [OF assms(2)] unfolding s by (auto simp: FLOW_U32S_eq)
  show ?thesis
    unfolding minimask_has_extra_def Let_def using e z assms by (force simp: expand_nth)
qed

lemma catchall_iff:
  assumes "minimask_wf m"
  shows "minimask_is_catchall m \<longleftrightarrow> miniflow_expand (masks m) = replicate FLOW_U32S 0"
proof -
  have "minimask_is_catchall m \<longleftrightarrow> (\<forall>c < 64. \<not> mbit (mf_map (masks m)) c)"
  proof
    assume "minimask_is_catchall m"
    then have "mf_map (masks m) ! 0 = 0" "mf_map (masks m) ! 1 = 0"
      by (auto simp: minimask_is_catchall_def or_eq_0_iff)
    then show "\<forall>c < 64. \<not> mbit (mf_map (masks m)) c"
      by (metis bit_0_eq bot_apply bot_bool_def linorder_not_less mbit_high mbit_low)
  next
    assume *: "\<forall>c < 64. \<not> mbit (mf_map (masks m)) c"
    have "\<not> bit (mf_map (masks m) ! 0) i" "\<not> bit (mf_map (masks m) ! 1) i" if "i < 32" for i
      using * [rule_format, of i] * [rule_format, of "i + 32"] that by (auto simp: mbit_low mbit_high)
    then have "mf_map (masks m) ! 0 = 0" "mf_map (masks m) ! 1 = 0" by (auto intro: bit_word_eqI)
    then show "minimask_is_catchall m" by (simp add: minimask_is_catchall_def)
  qed
  also have "\<dots> \<longleftrightarrow> (\<forall>c < FLOW_U32S. miniflow_get (masks m) c = 0)"
    using assms get_nonzero [OF assms] by (auto simp: miniflow_wf_def MINI_N_MAPS_eq FLOW_U32S_eq)
  finally show ?thesis
    using assms by (simp add: expand_eq_map list_eq_iff_nth_eq)
qed

section \<open>Whole flows\<close>

lemma u32_bytes_inj: "u32_bytes x = u32_bytes y \<longleftrightarrow> x = y"
  by (metis get_unaligned_u32_bytes)

lemma concat_u32_bytes_inj:
  "length a = length b \<Longrightarrow> concat (map u32_bytes a) = concat (map u32_bytes b) \<longleftrightarrow> a = b"
proof (induction a b rule: list_induct2)
  case (Cons x xs y ys)
  have l: "length (u32_bytes x) = length (u32_bytes y)" by (simp add: u32_bytes_def)
  show ?case unfolding list.map concat.simps append_eq_append_conv [OF disjI1, OF l] Cons.IH u32_bytes_inj
    by simp
qed simp

lemma memcmp_0_iff: "length xs = length ys \<Longrightarrow> memcmp xs ys = 0 \<longleftrightarrow> xs = ys"
  by (induction xs ys rule: list_induct2) auto

lemma flow_equal_iff: "length a = length b \<Longrightarrow> flow_equal a b \<longleftrightarrow> a = b"
  by (simp add: flow_equal_def flow_compare_3way_def memcmp_0_iff length_concat_u32_bytes
      concat_u32_bytes_inj)

lemma fold_minimask_nth:
  assumes "minimask_wf m" and "flow_wf (wc_masks wc)" and "c < FLOW_U32S"
  shows "wc_masks (flow_wildcards_fold_minimask wc m) ! c = wc_masks wc ! c OR miniflow_expand (masks m) ! c"
    and "flow_wf (wc_masks (flow_wildcards_fold_minimask wc m))"
  using flow_union_nth [OF assms] assms by (simp_all add: flow_wildcards_fold_minimask_def expand_nth)

lemma agree_zero_wildcards:
  assumes "flow_wf f"
  shows "agree f (flow_zero_wildcards f wc) (wc_masks wc)" and "flow_wf (flow_zero_wildcards f wc)"
proof -
  have "(x AND y) AND y = (x AND y :: u32)" for x y by (rule bit_word_eqI) (auto simp: bit_simps)
  then show "agree f (flow_zero_wildcards f wc) (wc_masks wc)" by (simp add: agree_def flow_zero_wildcards_def)
  show "flow_wf (flow_zero_wildcards f wc)" by (simp add: flow_zero_wildcards_def)
qed

section \<open>Properties\<close>

text \<open>C30: compressing a flow and expanding it again gives the flow back, compressing establishes the
  invariant of \<open>struct miniflow\<close>, and reading a word of the compressed flow reads the word of the
  original.\<close>

theorem miniflow_roundtrip:
  assumes "length f = FLOW_U32S"
  shows "miniflow_expand (miniflow_init f) = f \<and> miniflow_wf (miniflow_init f)
    \<and> (\<forall>c < FLOW_U32S. miniflow_get (miniflow_init f) c = f ! c)"
  using expand_init [OF assms] by (simp add: miniflow_get_init)

definition flow_example :: flow where
  "flow_example = (replicate FLOW_U32S 0)[3 := 0xdead, 31 := 7, 32 := 8, 45 := 0xffffffff]"

theorem miniflow_roundtrip_witness:
  "miniflow_expand (miniflow_init flow_example) = flow_example \<and> miniflow_wf (miniflow_init flow_example)
    \<and> miniflow_get (miniflow_init flow_example) 45 = flow_example ! 45"
  using miniflow_roundtrip [of flow_example] by (simp add: flow_example_def FLOW_U32S_eq)

text \<open>compression is canonical: two compressed flows compare equal exactly when they expand to
  the same flow.\<close>

theorem miniflow_equal_expand:
  assumes "miniflow_wf a" and "miniflow_wf b"
  shows "miniflow_equal a b \<longleftrightarrow> miniflow_expand a = miniflow_expand b"
  using assms by (simp add: miniflow_equal_iff expand_inj)

theorem miniflow_equal_expand_witness:
  "miniflow_equal (miniflow_init flow_example) (miniflow_init (replicate FLOW_U32S 1)) \<longleftrightarrow>
     miniflow_expand (miniflow_init flow_example) = miniflow_expand (miniflow_init (replicate FLOW_U32S 1))"
  by (rule miniflow_equal_expand) simp_all

text \<open>C31: comparing under a mask looks at exactly the bits set in the mask, and things equal under a
  mask hash alike under it. The hash of a compressed flow under a mask is the hash of the flow
  under that mask, as the comments on the two functions promise.\<close>

theorem masked_compare_and_hash:
  assumes "miniflow_wf a" and "miniflow_wf b" and "minimask_wf m"
  shows "(miniflow_equal_in_minimask a b m \<longleftrightarrow>
      (\<forall>c < FLOW_U32S. \<forall>i. bit (miniflow_get (masks m) c) i \<longrightarrow>
          bit (miniflow_get a c) i = bit (miniflow_get b c) i))
    \<and> (miniflow_equal_in_minimask a b m \<longrightarrow>
        miniflow_hash_in_minimask a m basis = miniflow_hash_in_minimask b m basis)
    \<and> miniflow_hash_in_minimask a m basis = flow_hash_in_minimask (miniflow_expand a) m basis
    \<and> miniflow_equal_in_minimask a b m = miniflow_equal_flow_in_minimask a (miniflow_expand b) m"
proof -
  have bits: "x AND p = (y AND p :: u32) \<longleftrightarrow> (\<forall>i. bit p i \<longrightarrow> bit x i = bit y i)" for x y p
  proof
    assume "x AND p = y AND p"
    then have "bit (x AND p) i = bit (y AND p) i" for i by simp
    then show "\<forall>i. bit p i \<longrightarrow> bit x i = bit y i" by (auto simp: bit_simps)
  qed (intro bit_word_eqI, auto simp: bit_simps)
  show ?thesis
    using assms agree_hash [OF assms(3), of "miniflow_expand a" "miniflow_expand b" basis]
    by (simp add: equal_in_minimask equal_flow_in_minimask miniflow_hash_masked agree_def expand_nth bits)
qed

theorem masked_compare_and_hash_witness:
  "let a = miniflow_init flow_example; b = miniflow_init (flow_example[3 := 0xde00]);
       m = minimask_init \<lparr>wc_masks = (replicate FLOW_U32S 0)[3 := 0xff00, 31 := 1]\<rparr> in
   (miniflow_equal_in_minimask a b m \<longleftrightarrow>
      (\<forall>c < FLOW_U32S. \<forall>i. bit (miniflow_get (masks m) c) i \<longrightarrow>
          bit (miniflow_get a c) i = bit (miniflow_get b c) i))
    \<and> (miniflow_equal_in_minimask a b m \<longrightarrow>
        miniflow_hash_in_minimask a m 5 = miniflow_hash_in_minimask b m 5)
    \<and> miniflow_hash_in_minimask a m 5 = flow_hash_in_minimask (miniflow_expand a) m 5
    \<and> miniflow_equal_in_minimask a b m = miniflow_equal_flow_in_minimask a (miniflow_expand b) m"
  unfolding Let_def by (rule masked_compare_and_hash) simp_all

text \<open>combining two masks gives a well-formed mask that fixes exactly the bits both fix, and
  \<open>minimask_has_extra\<close> tells whether some bit is wildcarded in its first argument but not in its
  second.\<close>

theorem minimask_combine_has_extra:
  assumes "minimask_wf a" and "minimask_wf b"
  shows "minimask_wf (minimask_combine a b)
    \<and> (\<forall>c < FLOW_U32S. miniflow_get (masks (minimask_combine a b)) c =
          miniflow_get (masks a) c AND miniflow_get (masks b) c)
    \<and> (minimask_has_extra a b \<longleftrightarrow>
        (\<exists>c < FLOW_U32S. \<exists>i. bit (miniflow_get (masks b) c) i \<and> \<not> bit (miniflow_get (masks a) c) i))"
proof -
  have sub: "x AND y \<noteq> y \<longleftrightarrow> (\<exists>i. bit y i \<and> \<not> bit x i)" for x y :: u32
  proof -
    have "x AND y = y \<longleftrightarrow> (\<forall>i. bit y i \<longrightarrow> bit x i)"
    proof
      assume "x AND y = y"
      then show "\<forall>i. bit y i \<longrightarrow> bit x i" by (metis bit_and_iff)
    qed (intro bit_word_eqI, auto simp: bit_simps)
    then show ?thesis by blast
  qed
  have "miniflow_get (masks (minimask_combine a b)) c = miniflow_get (masks a) c AND miniflow_get (masks b) c"
    if "c < FLOW_U32S" for c
    using expand_combine [OF assms] assms that by (simp flip: expand_nth)
  then show ?thesis using assms by (simp add: has_extra_iff expand_nth sub cong: conj_cong)
qed

end
