(* ===== verification/Match.thy ===== *)
theory Match
  imports Flow
begin

text \<open>
  Matches and compressed matches: \<open>OFTonSGX/trusted/lib/match.h\<close> and \<open>match.c\<close>.

  \<open>match_normal\<close> is the invariant stated in the comment of \<open>struct match\<close>: a wildcarded bit of the
  mask is a zero bit of the flow. \<open>matches\<close> is the meaning of a compressed match: the packets it
  covers. For normal matches, equal compressed matches are exactly those covering the same packets.
\<close>

section \<open>State and operations\<close>

record match =
  match_flow :: flow
  match_wc :: flow_wildcards

record minimatch =
  mm_flow :: miniflow
  mm_mask :: minimask

definition minimatch_init :: "match \<Rightarrow> minimatch" where
  "minimatch_init src = \<lparr>mm_flow = miniflow_init (match_flow src), mm_mask = minimask_init (match_wc src)\<rparr>"

definition minimatch_clone :: "minimatch \<Rightarrow> minimatch" where
  "minimatch_clone src = \<lparr>mm_flow = miniflow_clone (mm_flow src), mm_mask = minimask_clone (mm_mask src)\<rparr>"

definition minimatch_expand :: "minimatch \<Rightarrow> match" where
  "minimatch_expand src = \<lparr>match_flow = miniflow_expand (mm_flow src), match_wc = minimask_expand (mm_mask src)\<rparr>"

definition minimatch_equal :: "minimatch \<Rightarrow> minimatch \<Rightarrow> bool" where
  "minimatch_equal a b \<longleftrightarrow> miniflow_equal (mm_flow a) (mm_flow b) \<and> minimask_equal (mm_mask a) (mm_mask b)"

definition minimatch_hash :: "minimatch \<Rightarrow> u32 \<Rightarrow> u32" where
  "minimatch_hash m basis = miniflow_hash (mm_flow m) (minimask_hash (mm_mask m) basis)"

section \<open>Invariant and meaning\<close>

abbreviation mask_of :: "minimask \<Rightarrow> flow" where
  "mask_of m \<equiv> miniflow_expand (masks m)"

definition minimatch_wf :: "minimatch \<Rightarrow> bool" where
  "minimatch_wf m \<longleftrightarrow> miniflow_wf (mm_flow m) \<and> minimask_wf (mm_mask m)"

definition minimatch_normal :: "minimatch \<Rightarrow> bool" where
  "minimatch_normal m \<longleftrightarrow> (\<forall>c < FLOW_U32S.
     miniflow_expand (mm_flow m) ! c AND mask_of (mm_mask m) ! c = miniflow_expand (mm_flow m) ! c)"

definition match_normal :: "match \<Rightarrow> bool" where
  "match_normal m \<longleftrightarrow> (\<forall>c < FLOW_U32S. match_flow m ! c AND wc_masks (match_wc m) ! c = match_flow m ! c)"

abbreviation match_wf :: "match \<Rightarrow> bool" where
  "match_wf m \<equiv> flow_wf (match_flow m) \<and> flow_wf (wc_masks (match_wc m))"

definition matches :: "minimatch \<Rightarrow> flow \<Rightarrow> bool" where
  "matches m f \<longleftrightarrow> agree (miniflow_expand (mm_flow m)) f (mask_of (mm_mask m))"

section \<open>Lemmas\<close>

lemma minimatch_init_wf [simp]: "minimatch_wf (minimatch_init m)"
  by (simp add: minimatch_wf_def minimatch_init_def)

lemma minimatch_init_expand:
  "match_wf m \<Longrightarrow> miniflow_expand (mm_flow (minimatch_init m)) = match_flow m
     \<and> mask_of (mm_mask (minimatch_init m)) = wc_masks (match_wc m)"
  by (simp add: minimatch_init_def minimask_init_def expand_init)

lemma minimatch_init_normal: "match_wf m \<Longrightarrow> minimatch_normal (minimatch_init m) = match_normal m"
  by (simp add: minimatch_normal_def match_normal_def minimatch_init_expand)

lemma minimatch_clone_id [simp]: "minimatch_wf m \<Longrightarrow> minimatch_clone m = m"
  by (simp add: minimatch_clone_def minimatch_wf_def)

lemma minimatch_equal_iff: "minimatch_wf a \<Longrightarrow> minimatch_wf b \<Longrightarrow> minimatch_equal a b \<longleftrightarrow> a = b"
  by (cases a, cases b) (simp add: minimatch_equal_def minimatch_wf_def miniflow_equal_iff minimask_equal_iff)

lemma minimatch_roundtrip_aux: "match_wf m \<Longrightarrow> minimatch_expand (minimatch_init m) = m"
  by (cases m, cases "match_wc m")
    (simp add: minimatch_expand_def minimask_expand_def minimatch_init_expand)

lemma agree_refl [simp]: "agree f f m"
  by (simp add: agree_def)

lemma agree_sym: "agree f g m \<Longrightarrow> agree g f m"
  by (simp add: agree_def)

lemma agree_trans: "agree f g m \<Longrightarrow> agree g h m \<Longrightarrow> agree f h m"
  by (simp add: agree_def)

lemma matches_self: "matches m (miniflow_expand (mm_flow m))"
  by (simp add: matches_def)

text \<open>Normal matches that agree under their common mask are equal flows.\<close>

lemma normal_agree_eq:
  assumes "minimatch_wf a" and "minimatch_wf b" and "minimatch_normal a" and "minimatch_normal b"
    and "mm_mask a = mm_mask b"
    and "agree (miniflow_expand (mm_flow a)) (miniflow_expand (mm_flow b)) (mask_of (mm_mask b))"
  shows "mm_flow a = mm_flow b"
proof -
  have "miniflow_expand (mm_flow a) = miniflow_expand (mm_flow b)"
    using assms by (intro nth_equalityI) (auto simp: minimatch_normal_def agree_def minimatch_wf_def)
  then show ?thesis using assms(1,2) by (simp add: expand_inj minimatch_wf_def)
qed

section \<open>Properties\<close>

text \<open>Compressing a match and expanding it gives the match back, and two compressed matches
  compare equal exactly when the matches are equal.\<close>

theorem minimatch_roundtrip:
  assumes "match_wf m" and "match_wf m'"
  shows "minimatch_expand (minimatch_init m) = m
    \<and> (minimatch_equal (minimatch_init m) (minimatch_init m') \<longleftrightarrow> m = m')"
  using assms minimatch_roundtrip_aux by (metis minimatch_equal_iff minimatch_init_wf)

theorem minimatch_roundtrip_witness:
  "let m = \<lparr>match_flow = flow_example, match_wc = \<lparr>wc_masks = replicate FLOW_U32S (- 1)\<rparr>\<rparr>;
       m' = \<lparr>match_flow = replicate FLOW_U32S 0, match_wc = \<lparr>wc_masks = flow_example\<rparr>\<rparr> in
   minimatch_expand (minimatch_init m) = m
    \<and> (minimatch_equal (minimatch_init m) (minimatch_init m') \<longleftrightarrow> m = m')"
  unfolding Let_def by (rule minimatch_roundtrip) (simp_all add: flow_example_def)

end
