(* ===== verification/OVS_Hmap.thy ===== *)
theory OVS_Hmap
  imports Util
begin

text \<open>
  The chained hash map of \<open>OFTonSGX/trusted/lib/hmap.h\<close> and \<open>hmap.c\<close>. A bucket is the chain of
  nodes reached from its head pointer, front first; a node is the hash stored in it and the
  structure it is embedded in. A pointer to a node of a chain is the rest of the chain from that
  node on, so \<open>node->next\<close> is its tail and NULL is the empty chain. \<open>size_t\<close> hashes and masks are
  64-bit words; the node count is a natural number (nodes are objects in memory).

  \<open>hmap_wf\<close> is the map's invariant. Every operation keeps it, the assertions in \<open>resize\<close> never
  fail, resizing loses no node, iteration visits every node, and a search by hash visits exactly
  the nodes with that hash. The locale \<open>hash_search\<close> turns this into the correctness of the
  lookups written over the map.
\<close>

section \<open>State and operations\<close>

type_synonym 'a hnode = "u64 \<times> 'a"

record 'a hmap =
  buckets :: "'a hnode list list"
  hmask :: u64
  hn :: nat

definition hmap_idx :: "u64 \<Rightarrow> u64 \<Rightarrow> nat" where
  "hmap_idx hash m = unat (hash AND m)"

definition hmap_init :: "'a hmap" where
  "hmap_init = \<lparr>buckets = [[]], hmask = 0, hn = 0\<rparr>"

definition hmap_clear :: "'a hmap \<Rightarrow> 'a hmap" where
  "hmap_clear h = (if hn h > 0 then h\<lparr>buckets := replicate (unat (hmask h) + 1) [], hn := 0\<rparr> else h)"

definition hmap_swap :: "'a hmap \<Rightarrow> 'a hmap \<Rightarrow> 'a hmap \<times> 'a hmap" where
  "hmap_swap a b = (b, a)"

definition hmap_count :: "'a hmap \<Rightarrow> nat" where "hmap_count h = hn h"

definition hmap_capacity :: "'a hmap \<Rightarrow> u64" where "hmap_capacity h = hmask h * 2 + 1"

definition hmap_is_empty :: "'a hmap \<Rightarrow> bool" where "hmap_is_empty h \<longleftrightarrow> hn h = 0"

definition hmap_insert_fast :: "'a hmap \<Rightarrow> 'a \<Rightarrow> u64 \<Rightarrow> 'a hmap" where
  "hmap_insert_fast h x hash = (let i = hmap_idx hash (hmask h) in
     h\<lparr>buckets := (buckets h)[i := (hash, x) # buckets h ! i], hn := hn h + 1\<rparr>)"

text \<open>The loop of \<open>resize\<close>: every node of every bucket, in order, goes into the new map.\<close>

definition rehash :: "'a hnode list list \<Rightarrow> 'a hmap \<Rightarrow> 'a hmap" where
  "rehash bs tmp = fold (\<lambda>b t. fold (\<lambda>(hash, x) t. hmap_insert_fast t x hash) b t) bs tmp"

text \<open>\<open>page_ok\<close> is false when the buckets live in shared memory and no page can be had; \<open>resize\<close>
  then returns with the map unchanged. Without shared memory \<open>xmalloc\<close> either succeeds or aborts.\<close>

definition resize :: "bool \<Rightarrow> 'a hmap \<Rightarrow> u64 \<Rightarrow> 'a hmap option" where
  "resize page_ok h new_mask =
     (if new_mask AND (new_mask + 1) \<noteq> 0 then None
      else if new_mask = - 1 then None
      else if new_mask \<noteq> 0 \<and> \<not> page_ok then Some h
      else let tmp = (if new_mask \<noteq> 0
                      then \<lparr>buckets = replicate (unat new_mask + 1) [], hmask = new_mask, hn = 0\<rparr>
                      else hmap_init);
               tmp = rehash (buckets h) tmp
           in Some (fst (hmap_swap h tmp)))"

definition calc_mask :: "u64 \<Rightarrow> u64" where
  "calc_mask capacity =
     (let mask = drop_bit 1 capacity;
          mask = mask OR drop_bit 1 mask;
          mask = mask OR drop_bit 2 mask;
          mask = mask OR drop_bit 4 mask;
          mask = mask OR drop_bit 8 mask;
          mask = mask OR drop_bit 16 mask;
          mask = mask OR drop_bit 32 mask
      in mask OR push_bit 1 (mask AND 1))"

definition hmap_expand :: "bool \<Rightarrow> 'a hmap \<Rightarrow> 'a hmap option" where
  "hmap_expand page_ok h = (let new_mask = calc_mask (of_nat (hn h)) in
     if new_mask > hmask h then resize page_ok h new_mask else Some h)"

definition hmap_insert :: "bool \<Rightarrow> 'a hmap \<Rightarrow> 'a \<Rightarrow> u64 \<Rightarrow> 'a hmap option" where
  "hmap_insert page_ok h x hash = (let h = hmap_insert_fast h x hash in
     if hn h div 2 > unat (hmask h) then hmap_expand page_ok h else Some h)"

text \<open>The hash stored in the node embedded in \<open>x\<close>.\<close>

definition hmap_node_hash :: "'a hmap \<Rightarrow> 'a \<Rightarrow> u64 option" where
  "hmap_node_hash h x = map_option fst (find (\<lambda>nd. snd nd = x) (concat (buckets h)))"

text \<open>The loops \<open>while (*bucket != node) bucket = &(*bucket)->next\<close>; running off the end of the
  chain dereferences NULL.\<close>

fun unlink :: "'a hnode list \<Rightarrow> 'a \<Rightarrow> 'a hnode list option" where
  "unlink [] x = None"
| "unlink (nd # chain) x =
     (if snd nd = x then Some chain else do { chain' \<leftarrow> unlink chain x; Some (nd # chain') })"

fun relink :: "'a hnode list \<Rightarrow> 'a \<Rightarrow> 'a \<Rightarrow> 'a hnode list option" where
  "relink [] old new = None"
| "relink (nd # chain) old new =
     (if snd nd = old then Some ((fst nd, new) # chain)
      else do { chain' \<leftarrow> relink chain old new; Some (nd # chain') })"

definition hmap_remove :: "'a hmap \<Rightarrow> 'a \<Rightarrow> 'a hmap option" where
  "hmap_remove h x = do {
     hash \<leftarrow> hmap_node_hash h x;
     let i = hmap_idx hash (hmask h);
     chain \<leftarrow> unlink (buckets h ! i) x;
     Some (h\<lparr>buckets := (buckets h)[i := chain], hn := hn h - 1\<rparr>) }"

definition hmap_replace :: "'a hmap \<Rightarrow> 'a \<Rightarrow> 'a \<Rightarrow> 'a hmap option" where
  "hmap_replace h old new = do {
     hash \<leftarrow> hmap_node_hash h old;
     let i = hmap_idx hash (hmask h);
     chain \<leftarrow> relink (buckets h ! i) old new;
     Some (h\<lparr>buckets := (buckets h)[i := chain]\<rparr>) }"

definition hmap_next_with_hash_from :: "'a hnode list \<Rightarrow> u64 \<Rightarrow> 'a hnode list" where
  "hmap_next_with_hash_from node hash = dropWhile (\<lambda>nd. fst nd \<noteq> hash) node"

definition hmap_first_with_hash :: "'a hmap \<Rightarrow> u64 \<Rightarrow> 'a hnode list" where
  "hmap_first_with_hash h hash = hmap_next_with_hash_from (buckets h ! hmap_idx hash (hmask h)) hash"

definition hmap_next_with_hash :: "'a hnode list \<Rightarrow> 'a hnode list" where
  "hmap_next_with_hash node = hmap_next_with_hash_from (tl node) (fst (hd node))"

definition hmap_first_in_bucket :: "'a hmap \<Rightarrow> u64 \<Rightarrow> 'a hnode list" where
  "hmap_first_in_bucket h hash = buckets h ! hmap_idx hash (hmask h)"

definition hmap_next_in_bucket :: "'a hnode list \<Rightarrow> 'a hnode list" where
  "hmap_next_in_bucket node = tl node"

text \<open>The structures visited by \<open>HMAP_FOR_EACH_WITH_HASH\<close>.\<close>

function with_hash_from :: "'a hnode list \<Rightarrow> 'a list" where
  "with_hash_from node = (if node = [] then []
     else snd (hd node) # with_hash_from (hmap_next_with_hash node))"
  by pat_completeness auto
termination
proof (relation "measure length", simp)
  fix node :: "'a hnode list"
  assume "node \<noteq> []"
  moreover have "length (dropWhile P xs) \<le> length xs" for P and xs :: "'a hnode list"
    by (rule length_dropWhile_le)
  ultimately show "(hmap_next_with_hash node, node) \<in> measure length"
    by (auto simp: hmap_next_with_hash_def hmap_next_with_hash_from_def neq_Nil_conv le_imp_less_Suc)
qed

declare with_hash_from.simps [simp del]

definition HMAP_FOR_EACH_WITH_HASH :: "'a hmap \<Rightarrow> u64 \<Rightarrow> 'a list" where
  "HMAP_FOR_EACH_WITH_HASH h hash = with_hash_from (hmap_first_with_hash h hash)"

definition hmap_next_from :: "'a hmap \<Rightarrow> nat \<Rightarrow> 'a hnode list" where
  "hmap_next_from h start = (case find (\<lambda>b. b \<noteq> []) (drop start (take (unat (hmask h) + 1) (buckets h))) of
     None \<Rightarrow> [] | Some b \<Rightarrow> b)"

definition hmap_first :: "'a hmap \<Rightarrow> 'a hnode list" where
  "hmap_first h = hmap_next_from h 0"

definition hmap_next :: "'a hmap \<Rightarrow> 'a hnode list \<Rightarrow> 'a hnode list" where
  "hmap_next h node = (if tl node \<noteq> [] then tl node
     else hmap_next_from h (hmap_idx (fst (hd node)) (hmask h) + 1))"

text \<open>The structures visited by \<open>HMAP_FOR_EACH\<close> from a node on.\<close>

partial_function (option) hmap_iter :: "'a hmap \<Rightarrow> 'a hnode list \<Rightarrow> 'a list option" where
  "hmap_iter h node = (if node = [] then Some []
     else do { xs \<leftarrow> hmap_iter h (hmap_next h node); Some (snd (hd node) # xs) })"

declare hmap_iter.simps [code]

definition HMAP_FOR_EACH :: "'a hmap \<Rightarrow> 'a list option" where
  "HMAP_FOR_EACH h = hmap_iter h (hmap_first h)"

section \<open>Contents and invariant\<close>

definition hmap_nodes :: "'a hmap \<Rightarrow> 'a hnode multiset" where
  "hmap_nodes h = mset (concat (buckets h))"

definition hmap_elems :: "'a hmap \<Rightarrow> 'a list" where
  "hmap_elems h = map snd (concat (buckets h))"

definition low_mask :: "u64 \<Rightarrow> bool" where
  "low_mask m \<longleftrightarrow> (\<exists>k < 64. m = mask k)"

definition hmap_wf :: "'a hmap \<Rightarrow> bool" where
  "hmap_wf h \<longleftrightarrow> low_mask (hmask h) \<and> length (buckets h) = unat (hmask h) + 1
     \<and> (\<forall>i < length (buckets h). \<forall>nd \<in> set (buckets h ! i). hmap_idx (fst nd) (hmask h) = i)
     \<and> hn h = length (concat (buckets h))"

section \<open>Masks\<close>

lemma hmap_idx_le: "hmap_idx hash m < unat m + 1"
proof -
  have "hash AND m \<le> m" by (rule word_and_le1)
  then show ?thesis by (simp add: hmap_idx_def word_le_nat_alt)
qed

lemma low_mask_0 [simp]: "low_mask 0"
  unfolding low_mask_def by (rule exI [of _ 0]) simp

lemma low_mask_asserts:
  assumes "low_mask m"
  shows "m AND (m + 1) = 0" and "m \<noteq> - 1"
proof -
  obtain k where k: "k < 64" "m = mask k" using assms by (auto simp: low_mask_def)
  have "m + 1 = 2 ^ k" using k by (simp add: mask_eq_exp_minus_1)
  then show "m AND (m + 1) = 0"
    using k by (intro bit_word_eqI) (auto simp: bit_simps)
  have "\<not> bit m 63" using k by (simp add: bit_simps)
  moreover have "bit (- 1 :: u64) 63" by simp
  ultimately show "m \<noteq> - 1" by metis
qed

lemma closed_low_mask:
  fixes m :: u64
  assumes "\<And>i. bit m (Suc i) \<Longrightarrow> bit m i" and "\<not> bit m 63"
  shows "low_mask m"
proof -
  define k where "k = (LEAST i. \<not> bit m i)"
  have k: "\<not> bit m k" "\<And>i. i < k \<Longrightarrow> bit m i"
    using LeastI [of "\<lambda>i. \<not> bit m i"] assms(2) not_less_Least by (auto simp: k_def)
  have "k \<le> 63" using assms(2) by (simp add: k_def Least_le)
  moreover have "\<not> bit m (k + d)" for d by (induction d) (use k assms in auto)
  then have "\<not> bit m i" if "k \<le> i" for i using that by (metis le_add_diff_inverse)
  then have "m = mask k" using k(2) by (intro bit_word_eqI) (auto simp: bit_simps not_le [symmetric])
  ultimately show ?thesis unfolding low_mask_def by (intro exI [of _ k]) simp
qed

definition smeared :: "u64 \<Rightarrow> nat \<Rightarrow> u64 \<Rightarrow> bool" where
  "smeared x w m \<longleftrightarrow> (\<forall>i. bit m i \<longleftrightarrow> (\<exists>d < w. bit x (i + d)))"

lemma smeared_step:
  assumes "smeared x w m"
  shows "smeared x (w + w) (m OR drop_bit w m)"
  unfolding smeared_def
proof
  fix i
  have "(\<exists>d < w + w. bit x (i + d)) \<longleftrightarrow> (\<exists>d < w. bit x (i + d)) \<or> (\<exists>d < w. bit x (i + w + d))"
    (is "?l = ?r")
  proof
    assume ?l
    then obtain d where d: "d < w + w" "bit x (i + d)" by blast
    show ?r
    proof (cases "d < w")
      case False
      then have "d - w < w" "bit x (i + w + (d - w))" using d by auto
      then show ?thesis by blast
    qed (use d in blast)
  next
    assume ?r
    then show ?l by (metis add.assoc add_strict_mono group_cancel.add1 nat_add_left_cancel_less trans_less_add1)
  qed
  with assms show "bit (m OR drop_bit w m) i \<longleftrightarrow> (\<exists>d < w + w. bit x (i + d))"
    by (auto simp: smeared_def bit_simps ac_simps)
qed

lemma calc_mask_smeared:
  "\<exists>m. smeared (drop_bit 1 capacity) 64 m \<and> calc_mask capacity = m OR push_bit 1 (m AND 1)"
proof -
  define x where "x = drop_bit 1 capacity"
  define m1 where "m1 = x OR drop_bit 1 x"
  define m2 where "m2 = m1 OR drop_bit 2 m1"
  define m3 where "m3 = m2 OR drop_bit 4 m2"
  define m4 where "m4 = m3 OR drop_bit 8 m3"
  define m5 where "m5 = m4 OR drop_bit 16 m4"
  define m6 where "m6 = m5 OR drop_bit 32 m5"
  have "smeared x 1 x" by (auto simp: smeared_def)
  then have "smeared x 2 m1" using smeared_step [of x 1 x] by (simp add: m1_def numeral_2_eq_2)
  then have "smeared x 4 m2" using smeared_step [of x 2 m1] by (simp add: m2_def)
  then have "smeared x 8 m3" using smeared_step [of x 4 m2] by (simp add: m3_def)
  then have "smeared x 16 m4" using smeared_step [of x 8 m3] by (simp add: m4_def)
  then have "smeared x 32 m5" using smeared_step [of x 16 m4] by (simp add: m5_def)
  then have "smeared x 64 m6" using smeared_step [of x 32 m5] by (simp add: m6_def)
  moreover have "calc_mask capacity = m6 OR push_bit 1 (m6 AND 1)"
    by (simp only: calc_mask_def Let_def m1_def m2_def m3_def m4_def m5_def m6_def x_def)
  ultimately show ?thesis by (auto simp: x_def)
qed

lemma calc_mask_low: "low_mask (calc_mask capacity)"
proof -
  obtain m where m: "smeared (drop_bit 1 capacity) 64 m" "calc_mask capacity = m OR push_bit 1 (m AND 1)"
    using calc_mask_smeared by blast
  have b: "bit m i \<longleftrightarrow> (\<exists>d < 64. bit capacity (Suc i + d))" for i
    using m(1) by (simp add: smeared_def bit_simps)
  have u: "bit capacity j \<Longrightarrow> j < 64" for j by (auto dest: bit_imp_le_length)
  have closed: "bit m i" if "bit m (Suc i)" for i
  proof -
    obtain d where d: "d < 64" "bit capacity (Suc (Suc i) + d)" using \<open>bit m (Suc i)\<close> b by blast
    then have "Suc d < 64" "bit capacity (Suc i + Suc d)" using u [OF d(2)] by auto
    then show ?thesis using b by blast
  qed
  have top: "\<not> bit m 63" using b [of 63] u by fastforce
  have r: "bit (calc_mask capacity) i \<longleftrightarrow> bit m i \<or> (i = 1 \<and> bit m 0)" for i
    unfolding m(2) bit_or_iff bit_push_bit_iff bit_and_iff bit_1_iff by auto
  show ?thesis by (rule closed_low_mask) (use r closed top in auto)
qed

lemma calc_mask_capacity: "unat capacity \<le> 2 * unat (calc_mask capacity) + 1"
proof -
  have "drop_bit 1 capacity \<le> calc_mask capacity"
    unfolding calc_mask_def Let_def
    by (rule order_trans [OF _ le_word_or2], (rule order_trans [OF _ le_word_or2])+) simp
  then have "unat capacity div 2 \<le> unat (calc_mask capacity)"
    by (simp add: word_le_nat_alt drop_bit_eq_div unat_div)
  then show ?thesis by linarith
qed

section \<open>The operations keep the invariant and the contents\<close>

lemma hmap_wf_idx: "hmap_wf h \<Longrightarrow> hmap_idx hash (hmask h) < length (buckets h)"
  using hmap_idx_le by (simp add: hmap_wf_def)

lemma mset_concat_update:
  "i < length bs \<Longrightarrow> mset (concat (bs[i := b])) + mset (bs ! i) = mset (concat bs) + mset b"
proof -
  assume i: "i < length bs"
  have "bs = take i bs @ bs ! i # drop (Suc i) bs" by (rule id_take_nth_drop [OF i])
  then have "mset (concat bs) = mset (concat (take i bs)) + mset (bs ! i) + mset (concat (drop (Suc i) bs))"
    by (metis (no_types, lifting) add.assoc concat.simps(2) concat_append mset_append)
  then show ?thesis using i by (simp add: upd_conv_take_nth_drop)
qed

lemma hmap_wf_bucket:
  "hmap_wf h \<Longrightarrow> i < length (buckets h) \<Longrightarrow> nd \<in> set (buckets h ! i) \<Longrightarrow> hmap_idx (fst nd) (hmask h) = i"
  by (simp add: hmap_wf_def)

lemma hmap_wf_hn: "hmap_wf h \<Longrightarrow> hn h = size (hmap_nodes h)"
  by (simp add: hmap_wf_def hmap_nodes_def)

lemma hmap_wf_update:
  assumes "hmap_wf h" and "i < length (buckets h)"
    and "\<And>nd. nd \<in> set chain \<Longrightarrow> hmap_idx (fst nd) (hmask h) = i"
    and "n = size (mset (concat ((buckets h)[i := chain])))"
  shows "hmap_wf (h\<lparr>buckets := (buckets h)[i := chain], hn := n\<rparr>)"
  using assms by (auto simp: hmap_wf_def nth_list_update)

lemma hmap_nodes_update:
  assumes "hmap_wf h" and "i < length (buckets h)"
  shows "hmap_nodes (h\<lparr>buckets := (buckets h)[i := chain], hn := n\<rparr>) + mset (buckets h ! i)
    = hmap_nodes h + mset chain"
  using mset_concat_update [OF assms(2)] by (simp add: hmap_nodes_def)

lemma hmap_init_wf [simp]: "hmap_wf hmap_init" "hmap_nodes hmap_init = {#}"
  by (auto simp: hmap_wf_def hmap_init_def hmap_nodes_def)

lemma concat_replicate_Nil [simp]: "concat (replicate n []) = []"
  by (induction n) auto

lemma hmap_empty_wf:
  "low_mask m \<Longrightarrow> hmap_wf \<lparr>buckets = replicate (unat m + 1) [], hmask = m, hn = 0\<rparr>"
  by (auto simp: hmap_wf_def nth_append nth_Cons' simp del: replicate_Suc)

lemma hmap_clear_wf:
  assumes "hmap_wf h"
  shows "hmap_wf (hmap_clear h)" and "hmap_nodes (hmap_clear h) = {#}"
proof -
  show "hmap_nodes (hmap_clear h) = {#}"
    using assms hmap_wf_hn [OF assms] by (auto simp: hmap_clear_def hmap_nodes_def simp del: replicate_Suc)
  show "hmap_wf (hmap_clear h)"
    using assms hmap_empty_wf [of "hmask h"] by (auto simp: hmap_clear_def hmap_wf_def)
qed

lemma hmap_insert_fast_wf:
  assumes "hmap_wf h"
  shows "hmap_wf (hmap_insert_fast h x hash)"
    and "hmap_nodes (hmap_insert_fast h x hash) = add_mset (hash, x) (hmap_nodes h)"
    and "hmask (hmap_insert_fast h x hash) = hmask h"
proof -
  let ?i = "hmap_idx hash (hmask h)"
  note i = hmap_wf_idx [OF assms, of hash]
  have n: "mset (concat ((buckets h)[?i := (hash, x) # buckets h ! ?i])) = add_mset (hash, x) (hmap_nodes h)"
    using mset_concat_update [OF i, of "(hash, x) # buckets h ! ?i"] by (simp add: hmap_nodes_def)
  show "hmap_wf (hmap_insert_fast h x hash)"
    unfolding hmap_insert_fast_def Let_def
    by (rule hmap_wf_update [OF assms i], unfold n)
      (use assms i hmap_wf_hn [OF assms] in \<open>auto simp: hmap_wf_def\<close>)
  show "hmap_nodes (hmap_insert_fast h x hash) = add_mset (hash, x) (hmap_nodes h)"
    using n by (simp add: hmap_insert_fast_def Let_def hmap_nodes_def)
  show "hmask (hmap_insert_fast h x hash) = hmask h" by (simp add: hmap_insert_fast_def Let_def)
qed

lemma fold_insert_wf:
  assumes "hmap_wf t"
  shows "hmap_wf (fold (\<lambda>(hash, x) t. hmap_insert_fast t x hash) b t)
    \<and> hmap_nodes (fold (\<lambda>(hash, x) t. hmap_insert_fast t x hash) b t) = hmap_nodes t + mset b
    \<and> hmask (fold (\<lambda>(hash, x) t. hmap_insert_fast t x hash) b t) = hmask t"
  using assms by (induction b arbitrary: t) (auto simp: hmap_insert_fast_wf)

lemma rehash_wf:
  assumes "hmap_wf t"
  shows "hmap_wf (rehash bs t) \<and> hmap_nodes (rehash bs t) = hmap_nodes t + mset (concat bs)
    \<and> hmask (rehash bs t) = hmask t"
  using assms
proof (induction bs arbitrary: t)
  case (Cons b bs)
  then show ?case using fold_insert_wf [OF Cons.prems, of b] by (simp add: rehash_def)
qed (simp add: rehash_def)

lemma resize_wf:
  assumes "hmap_wf h" and "low_mask m"
  shows "\<exists>h'. resize ok h m = Some h' \<and> hmap_wf h' \<and> hmap_nodes h' = hmap_nodes h
    \<and> hmask h' = (if ok \<or> m = 0 then m else hmask h)"
proof -
  have e: "hmap_wf \<lparr>buckets = replicate (unat m + 1) [], hmask = m, hn = 0\<rparr>"
    by (rule hmap_empty_wf [OF assms(2)])
  have "hmap_nodes \<lparr>buckets = replicate (unat m + 1) [], hmask = m, hn = 0\<rparr> = {#}"
    by (simp add: hmap_nodes_def)
  moreover have "hmask hmap_init = 0" by (simp add: hmap_init_def)
  ultimately show ?thesis
    using low_mask_asserts [OF assms(2)] assms(1) rehash_wf [OF e, of "buckets h"]
      rehash_wf [OF hmap_init_wf(1), of "buckets h"]
    by (auto simp: resize_def Let_def hmap_swap_def simp del: replicate_Suc simp flip: hmap_nodes_def)
qed

lemma hmap_expand_wf:
  assumes "hmap_wf h"
  shows "\<exists>h'. hmap_expand ok h = Some h' \<and> hmap_wf h' \<and> hmap_nodes h' = hmap_nodes h
    \<and> (ok \<longrightarrow> hmask h' = max (hmask h) (calc_mask (of_nat (hn h))))"
  using resize_wf [OF assms calc_mask_low [of "of_nat (hn h)"], of ok] assms
  by (auto simp: hmap_expand_def Let_def max_def)

lemma hmap_insert_wf:
  assumes "hmap_wf h"
  shows "\<exists>h'. hmap_insert ok h x hash = Some h' \<and> hmap_wf h'
    \<and> hmap_nodes h' = add_mset (hash, x) (hmap_nodes h)"
  using hmap_insert_fast_wf [OF assms, of x hash]
    hmap_expand_wf [OF hmap_insert_fast_wf(1) [OF assms], of ok x hash]
  by (auto simp: hmap_insert_def Let_def)

text \<open>Removal and replacement of a node.\<close>

lemma unlink_split:
  assumes "\<exists>nd \<in> set chain. snd nd = x"
  obtains us nd vs where "chain = us @ nd # vs" "snd nd = x" "unlink chain x = Some (us @ vs)"
    "\<And>y. relink chain x y = Some (us @ (fst nd, y) # vs)"
proof -
  have "\<exists>us nd vs. chain = us @ nd # vs \<and> snd nd = x \<and> unlink chain x = Some (us @ vs)
    \<and> (\<forall>y. relink chain x y = Some (us @ (fst nd, y) # vs))"
    using assms
  proof (induction chain)
    case (Cons nd chain)
    show ?case
    proof (cases "snd nd = x")
      case True
      then show ?thesis by (intro exI [of _ "[]"] exI [of _ nd] exI [of _ chain]) simp
    next
      case False
      with Cons obtain us nd' vs where "chain = us @ nd' # vs" "snd nd' = x"
        "unlink chain x = Some (us @ vs)" "\<forall>y. relink chain x y = Some (us @ (fst nd', y) # vs)"
        by auto
      with False show ?thesis by (intro exI [of _ "nd # us"] exI [of _ nd'] exI [of _ vs]) simp
    qed
  qed simp
  with that show thesis by blast
qed

lemma hmap_elems_nodes: "mset (hmap_elems h) = image_mset snd (hmap_nodes h)"
  by (simp add: hmap_elems_def hmap_nodes_def)

lemma set_hmap_elems: "set (hmap_elems h) = snd ` set_mset (hmap_nodes h)"
  by (simp add: hmap_elems_def hmap_nodes_def)

lemma bucket_nodes:
  "i < length (buckets h) \<Longrightarrow> nd \<in> set (buckets h ! i) \<Longrightarrow> nd \<in># hmap_nodes h"
  by (auto simp: hmap_nodes_def)

lemma nodes_bucket: "nd \<in># hmap_nodes h \<Longrightarrow> \<exists>i < length (buckets h). nd \<in> set (buckets h ! i)"
  by (auto simp: hmap_nodes_def) (metis in_set_conv_nth)

lemma distinct_nodes:
  "distinct (hmap_elems h) \<Longrightarrow> nd \<in># hmap_nodes h \<Longrightarrow> nd' \<in># hmap_nodes h \<Longrightarrow> snd nd = snd nd' \<Longrightarrow> nd = nd'"
  unfolding hmap_elems_def distinct_map hmap_nodes_def set_mset_mset by (blast dest: inj_onD)

lemma hmap_node_hash_unique:
  assumes "distinct (hmap_elems h)" and "(hash, x) \<in># hmap_nodes h"
  shows "hmap_node_hash h x = Some hash"
proof -
  obtain nd where nd: "find (\<lambda>nd. snd nd = x) (concat (buckets h)) = Some nd"
    using assms(2) by (cases "find (\<lambda>nd. snd nd = x) (concat (buckets h))")
      (auto simp: find_None_iff hmap_nodes_def)
  then have "nd \<in># hmap_nodes h" "snd nd = x" by (auto simp: hmap_nodes_def dest: find_SomeD)
  with assms have "nd = (hash, x)" by (intro distinct_nodes [OF assms(1)]) auto
  with nd show ?thesis by (simp add: hmap_node_hash_def)
qed

lemma hmap_node_bucket:
  assumes "hmap_wf h" and "(hash, x) \<in># hmap_nodes h"
  shows "(hash, x) \<in> set (buckets h ! hmap_idx hash (hmask h))"
proof -
  obtain i where i: "i < length (buckets h)" "(hash, x) \<in> set (buckets h ! i)"
    using nodes_bucket [OF assms(2)] by blast
  then have "hmap_idx hash (hmask h) = i" using assms(1) by (force simp: hmap_wf_def)
  with i show ?thesis by simp
qed

lemma hmap_bucket_split:
  assumes "hmap_wf h" and "distinct (hmap_elems h)" and "(hash, x) \<in># hmap_nodes h"
  defines "b \<equiv> buckets h ! hmap_idx hash (hmask h)"
  obtains us vs where "b = us @ (hash, x) # vs" "unlink b x = Some (us @ vs)"
    "\<And>y. relink b x y = Some (us @ (hash, y) # vs)"
proof -
  have m: "(hash, x) \<in> set b" unfolding b_def by (rule hmap_node_bucket [OF assms(1,3)])
  then have "\<exists>nd \<in> set b. snd nd = x" by force
  then obtain us nd vs where s: "b = us @ nd # vs" "snd nd = x" "unlink b x = Some (us @ vs)"
    "\<And>y. relink b x y = Some (us @ (fst nd, y) # vs)"
    by (rule unlink_split) blast
  have "nd \<in># hmap_nodes h"
    by (rule bucket_nodes [OF hmap_wf_idx [OF assms(1), of hash]]) (use s(1) in \<open>simp flip: b_def\<close>)
  with assms(3) s(2) have "nd = (hash, x)" by (intro distinct_nodes [OF assms(2)]) auto
  with s that show thesis by auto
qed

lemma hmap_remove_wf:
  assumes "hmap_wf h" and "distinct (hmap_elems h)" and "(hash, x) \<in># hmap_nodes h"
  shows "\<exists>h'. hmap_remove h x = Some h' \<and> hmap_wf h' \<and> hmap_nodes h' = hmap_nodes h - {#(hash, x)#}"
proof -
  let ?i = "hmap_idx hash (hmask h)"
  obtain us vs where b: "buckets h ! ?i = us @ (hash, x) # vs" "unlink (buckets h ! ?i) x = Some (us @ vs)"
    by (rule hmap_bucket_split [OF assms]) blast
  note i = hmap_wf_idx [OF assms(1), of hash]
  have n: "mset (concat ((buckets h)[?i := us @ vs])) = hmap_nodes h - {#(hash, x)#}"
    using mset_concat_update [OF i, of "us @ vs"] b(1) by (simp add: hmap_nodes_def) (metis add_mset_remove_trivial)
  have "hmap_wf (h\<lparr>buckets := (buckets h)[?i := us @ vs], hn := hn h - 1\<rparr>)"
    by (rule hmap_wf_update [OF assms(1) i], unfold n)
      (use assms(1,3) i b(1) hmap_wf_hn [OF assms(1)] in \<open>auto simp: hmap_wf_def size_Diff_singleton\<close>)
  moreover have "hmap_nodes (h\<lparr>buckets := (buckets h)[?i := us @ vs], hn := hn h - 1\<rparr>)
      = hmap_nodes h - {#(hash, x)#}"
    using n by (simp add: hmap_nodes_def)
  ultimately show ?thesis
    using b(2) hmap_node_hash_unique [OF assms(2,3)] by (simp add: hmap_remove_def)
qed

lemma hmap_replace_wf:
  assumes "hmap_wf h" and "distinct (hmap_elems h)" and "(hash, x) \<in># hmap_nodes h"
  shows "\<exists>h'. hmap_replace h x y = Some h' \<and> hmap_wf h'
    \<and> hmap_nodes h' = add_mset (hash, y) (hmap_nodes h - {#(hash, x)#})"
proof -
  let ?i = "hmap_idx hash (hmask h)"
  obtain us vs where b: "buckets h ! ?i = us @ (hash, x) # vs"
    "relink (buckets h ! ?i) x y = Some (us @ (hash, y) # vs)"
    by (rule hmap_bucket_split [OF assms]) blast
  note i = hmap_wf_idx [OF assms(1), of hash]
  obtain N where N: "hmap_nodes h = add_mset (hash, x) N" using assms(3) by (blast dest: multi_member_split)
  have n: "mset (concat ((buckets h)[?i := us @ (hash, y) # vs]))
      = add_mset (hash, y) (hmap_nodes h - {#(hash, x)#})"
    using mset_concat_update [OF i, of "us @ (hash, y) # vs"] b(1) N
    by (simp flip: hmap_nodes_def add: add_mset_commute)
  have "hmap_wf (h\<lparr>buckets := (buckets h)[?i := us @ (hash, y) # vs], hn := hn h\<rparr>)"
    by (rule hmap_wf_update [OF assms(1) i], unfold n)
      (use hmap_wf_bucket [OF assms(1) i] b(1) hmap_wf_hn [OF assms(1)] N in auto)
  moreover have "hmap_nodes (h\<lparr>buckets := (buckets h)[?i := us @ (hash, y) # vs]\<rparr>)
      = add_mset (hash, y) (hmap_nodes h - {#(hash, x)#})"
    using n by (simp add: hmap_nodes_def)
  ultimately show ?thesis
    using b(2) hmap_node_hash_unique [OF assms(2,3)] by (simp add: hmap_replace_def)
qed

section \<open>Searching and iterating\<close>

lemma with_hash_from_drop:
  "with_hash_from (hmap_next_with_hash_from chain hash) = map snd (filter (\<lambda>nd. fst nd = hash) chain)"
proof (induction chain)
  case Nil
  then show ?case by (simp add: hmap_next_with_hash_from_def with_hash_from.simps)
next
  case (Cons nd chain)
  then show ?case
    by (cases "fst nd = hash", subst with_hash_from.simps)
      (simp_all add: hmap_next_with_hash_from_def hmap_next_with_hash_def)
qed

lemma HMAP_FOR_EACH_WITH_HASH_eq:
  "HMAP_FOR_EACH_WITH_HASH h hash = map snd (filter (\<lambda>nd. fst nd = hash) (buckets h ! hmap_idx hash (hmask h)))"
  by (simp add: HMAP_FOR_EACH_WITH_HASH_def hmap_first_with_hash_def with_hash_from_drop)

lemma set_with_hash:
  assumes "hmap_wf h"
  shows "x \<in> set (HMAP_FOR_EACH_WITH_HASH h hash) \<longleftrightarrow> (hash, x) \<in># hmap_nodes h"
proof
  assume "x \<in> set (HMAP_FOR_EACH_WITH_HASH h hash)"
  then have "(hash, x) \<in> set (buckets h ! hmap_idx hash (hmask h))"
    by (auto simp: HMAP_FOR_EACH_WITH_HASH_eq)
  with hmap_wf_idx [OF assms, of hash] show "(hash, x) \<in># hmap_nodes h" by (rule bucket_nodes)
next
  assume "(hash, x) \<in># hmap_nodes h"
  from hmap_node_bucket [OF assms this] show "x \<in> set (HMAP_FOR_EACH_WITH_HASH h hash)"
    by (force simp: HMAP_FOR_EACH_WITH_HASH_eq)
qed

lemma hmap_next_from_step:
  assumes "hmap_wf h" and "i < length (buckets h)"
  shows "hmap_next_from h i = (if buckets h ! i \<noteq> [] then buckets h ! i else hmap_next_from h (Suc i))"
proof -
  have "drop i (take (unat (hmask h) + 1) (buckets h)) = buckets h ! i # drop (Suc i) (take (unat (hmask h) + 1) (buckets h))"
    using assms by (simp add: hmap_wf_def Cons_nth_drop_Suc)
  then show ?thesis by (simp add: hmap_next_from_def)
qed

lemma hmap_iter_chain:
  assumes "hmap_wf h" and "i < length (buckets h)" and "set chain \<subseteq> set (buckets h ! i)" and "chain \<noteq> []"
    and "hmap_iter h (hmap_next_from h (Suc i)) = Some xs"
  shows "hmap_iter h chain = Some (map snd chain @ xs)"
  using assms(3,4)
proof (induction chain)
  case (Cons nd chain)
  have "hmap_idx (fst nd) (hmask h) = i" using hmap_wf_bucket [OF assms(1,2)] Cons.prems by auto
  with Cons assms(5) show ?case
    by (subst hmap_iter.simps) (auto simp: hmap_next_def)
qed simp

lemma hmap_iter_from:
  assumes "hmap_wf h" and "i \<le> length (buckets h)"
  shows "hmap_iter h (hmap_next_from h i) = Some (map snd (concat (drop i (buckets h))))"
  using assms(2)
proof (induction "length (buckets h) - i" arbitrary: i)
  case 0
  then have "hmap_next_from h i = []" using assms(1) by (simp add: hmap_next_from_def hmap_wf_def)
  with 0 show ?case by (simp add: hmap_iter.simps)
next
  case (Suc d)
  then have i: "i < length (buckets h)" by simp
  have ih: "hmap_iter h (hmap_next_from h (Suc i)) = Some (map snd (concat (drop (Suc i) (buckets h))))"
    using Suc by simp
  have "drop i (buckets h) = buckets h ! i # drop (Suc i) (buckets h)" using i by (simp add: Cons_nth_drop_Suc)
  with ih hmap_iter_chain [OF assms(1) i, of "buckets h ! i"] show ?case
    by (simp add: hmap_next_from_step [OF assms(1) i])
qed

lemma HMAP_FOR_EACH_elems: "hmap_wf h \<Longrightarrow> HMAP_FOR_EACH h = Some (hmap_elems h)"
  using hmap_iter_from [of h 0] by (simp add: HMAP_FOR_EACH_def hmap_first_def hmap_elems_def)

section \<open>Searching for a key\<close>

text \<open>The lookups written over \<open>HMAP_FOR_EACH_WITH_HASH\<close>: the hash of the key selects the nodes,
  a comparison picks the first equal one. They are right when equal things hash alike.\<close>

locale hash_search =
  fixes node_hash :: "'a \<Rightarrow> u64"
    and key_hash :: "'k \<Rightarrow> u64"
    and eq :: "'k \<Rightarrow> 'a \<Rightarrow> bool"
    and ok :: "'k \<Rightarrow> 'a \<Rightarrow> bool"
  assumes eq_hash: "ok k x \<Longrightarrow> eq k x \<Longrightarrow> node_hash x = key_hash k"
begin

text \<open>Every node carries the hash of the structure it is embedded in.\<close>

definition hashed_by :: "'a hmap \<Rightarrow> bool" where
  "hashed_by h \<longleftrightarrow> hmap_wf h \<and> (\<forall>nd \<in># hmap_nodes h. fst nd = node_hash (snd nd))"

text \<open>The two ways a search is written: over the nodes with the hash of the key, or over the whole
  bucket it falls into.\<close>

definition search :: "'a hmap \<Rightarrow> 'k \<Rightarrow> 'a option" where
  "search h k = find (eq k) (HMAP_FOR_EACH_WITH_HASH h (key_hash k))"

definition bucket_search :: "'a hmap \<Rightarrow> 'k \<Rightarrow> 'a option" where
  "bucket_search h k = find (eq k) (map snd (hmap_first_in_bucket h (key_hash k)))"

definition all_ok :: "'a hmap \<Rightarrow> 'k \<Rightarrow> bool" where
  "all_ok h k \<longleftrightarrow> (\<forall>x \<in> set (hmap_elems h). ok k x)"

lemma elems_nodes: "hashed_by h \<Longrightarrow> x \<in> set (hmap_elems h) \<longleftrightarrow> (node_hash x, x) \<in># hmap_nodes h"
  by (auto simp: hashed_by_def set_hmap_elems) force

lemma set_with_key:
  assumes "hashed_by h" and "all_ok h k"
  shows "x \<in> set (HMAP_FOR_EACH_WITH_HASH h (key_hash k)) \<and> eq k x \<longleftrightarrow> x \<in> set (hmap_elems h) \<and> eq k x"
proof
  assume l: "x \<in> set (HMAP_FOR_EACH_WITH_HASH h (key_hash k)) \<and> eq k x"
  then have "(key_hash k, x) \<in># hmap_nodes h" using assms(1) by (simp add: hashed_by_def set_with_hash)
  with l show "x \<in> set (hmap_elems h) \<and> eq k x" by (force simp: set_hmap_elems)
next
  assume r: "x \<in> set (hmap_elems h) \<and> eq k x"
  then have "node_hash x = key_hash k" using assms(2) eq_hash by (auto simp: all_ok_def)
  with r elems_nodes [OF assms(1), of x] show "x \<in> set (HMAP_FOR_EACH_WITH_HASH h (key_hash k)) \<and> eq k x"
    using assms(1) by (simp add: hashed_by_def set_with_hash)
qed

lemma set_in_bucket:
  assumes "hashed_by h" and "all_ok h k"
  shows "x \<in> set (map snd (hmap_first_in_bucket h (key_hash k))) \<and> eq k x \<longleftrightarrow> x \<in> set (hmap_elems h) \<and> eq k x"
proof
  have wf: "hmap_wf h" using assms(1) by (simp add: hashed_by_def)
  assume "x \<in> set (map snd (hmap_first_in_bucket h (key_hash k))) \<and> eq k x"
  with bucket_nodes [OF hmap_wf_idx [OF wf]] show "x \<in> set (hmap_elems h) \<and> eq k x"
    by (auto simp: hmap_first_in_bucket_def set_hmap_elems)
next
  assume "x \<in> set (hmap_elems h) \<and> eq k x"
  with set_with_key [OF assms, of x] show "x \<in> set (map snd (hmap_first_in_bucket h (key_hash k))) \<and> eq k x"
    by (auto simp: HMAP_FOR_EACH_WITH_HASH_eq hmap_first_in_bucket_def)
qed

lemma search_Some:
  "hashed_by h \<Longrightarrow> all_ok h k \<Longrightarrow> search h k = Some x \<Longrightarrow> x \<in> set (hmap_elems h) \<and> eq k x"
  using set_with_key [of h k x] by (auto simp: search_def dest: find_SomeD)

lemma search_None:
  assumes "hashed_by h" and "all_ok h k"
  shows "search h k = None \<longleftrightarrow> (\<forall>x \<in> set (hmap_elems h). \<not> eq k x)"
  using set_with_key [OF assms] by (auto simp: search_def find_None_iff)

lemma search_unique:
  assumes "hashed_by h" and "all_ok h k" and "x \<in> set (hmap_elems h)" and "eq k x"
    and "\<And>y. y \<in> set (hmap_elems h) \<Longrightarrow> eq k y \<Longrightarrow> y = x"
  shows "search h k = Some x"
proof (cases "search h k")
  case None
  with search_None [OF assms(1,2)] assms(3,4) show ?thesis by blast
next
  case (Some y)
  with search_Some [OF assms(1,2) Some] assms(5) show ?thesis by simp
qed

lemma bucket_search_Some:
  "hashed_by h \<Longrightarrow> all_ok h k \<Longrightarrow> bucket_search h k = Some x \<Longrightarrow> x \<in> set (hmap_elems h) \<and> eq k x"
  using set_in_bucket [of h k x] by (auto simp: bucket_search_def dest: find_SomeD)

lemma bucket_search_None:
  assumes "hashed_by h" and "all_ok h k"
  shows "bucket_search h k = None \<longleftrightarrow> (\<forall>x \<in> set (hmap_elems h). \<not> eq k x)"
  using set_in_bucket [OF assms] by (auto simp: bucket_search_def find_None_iff)

lemma hashed_by_init: "hashed_by hmap_init"
  by (simp add: hashed_by_def)

lemma hashed_by_insert:
  assumes "hashed_by h"
  shows "\<exists>h'. hmap_insert pg h x (node_hash x) = Some h' \<and> hashed_by h'
    \<and> hmap_nodes h' = add_mset (node_hash x, x) (hmap_nodes h)"
  using assms hmap_insert_wf [of h pg x "node_hash x"] by (auto simp: hashed_by_def)

lemma hashed_by_remove:
  assumes "hashed_by h" and "distinct (hmap_elems h)" and "x \<in> set (hmap_elems h)"
  shows "\<exists>h'. hmap_remove h x = Some h' \<and> hashed_by h'
    \<and> hmap_nodes h' = hmap_nodes h - {#(node_hash x, x)#}"
  using assms hmap_remove_wf [of h "node_hash x" x] elems_nodes [OF assms(1), of x]
  by (fastforce simp: hashed_by_def dest: in_diffD)

lemma hashed_by_replace:
  assumes "hashed_by h" and "distinct (hmap_elems h)" and "x \<in> set (hmap_elems h)" and "node_hash y = node_hash x"
  shows "\<exists>h'. hmap_replace h x y = Some h' \<and> hashed_by h'
    \<and> hmap_nodes h' = add_mset (node_hash y, y) (hmap_nodes h - {#(node_hash x, x)#})"
  using assms hmap_replace_wf [of h "node_hash x" x y] elems_nodes [OF assms(1), of x]
  by (fastforce simp: hashed_by_def dest: in_diffD)

end

section \<open>Properties\<close>

lemma hmap_insert_mask:
  assumes "hmap_wf h" and "hmap_insert True h x hash = Some h'" and "hn h + 1 < 2 ^ 64"
    and "hn h div 2 \<le> unat (hmask h)"
  shows "hn h' div 2 \<le> unat (hmask h')"
proof -
  let ?g = "hmap_insert_fast h x hash"
  have wf: "hmap_wf ?g" by (rule hmap_insert_fast_wf(1) [OF assms(1)])
  have g: "hn ?g = hn h + 1" by (simp add: hmap_insert_fast_def Let_def)
  show ?thesis
  proof (cases "hn ?g div 2 > unat (hmask ?g)")
    case True
    then have e: "hmap_expand True ?g = Some h'" using assms(2) by (simp add: hmap_insert_def Let_def)
    have u: "unat (of_nat (hn ?g) :: u64) = hn ?g" using g assms(3) by (intro of_nat_inverse [OF refl]) simp
    have "hn ?g \<le> 2 * unat (calc_mask (of_nat (hn ?g))) + 1" using calc_mask_capacity [of "of_nat (hn ?g)"] u by simp
    moreover have "calc_mask (of_nat (hn ?g)) \<le> hmask h'" "hmap_wf h'" "hmap_nodes h' = hmap_nodes ?g"
      using hmap_expand_wf [OF wf, of True] e by auto
    ultimately show ?thesis
      using hmap_wf_hn [OF wf] hmap_wf_hn [of h'] by (simp add: word_le_nat_alt)
  next
    case False
    then show ?thesis using assms(2) by (auto simp: hmap_insert_def Let_def)
  qed
qed

text \<open>Inserting never trips an assertion of \<open>resize\<close>, keeps the map well formed, and adds exactly
  the new node to its contents, whether or not the map is expanded and whether or not the page
  for the new buckets can be had; with memory available the load stays at most two per bucket.\<close>

theorem hmap_insert_correct:
  assumes "hmap_wf h" and "hn h + 1 < 2 ^ 64" and "hn h div 2 \<le> unat (hmask h)"
  shows "\<exists>h'. hmap_insert page_ok h x hash = Some h' \<and> hmap_wf h'
    \<and> hmap_nodes h' = add_mset (hash, x) (hmap_nodes h)
    \<and> (page_ok \<longrightarrow> hn h' div 2 \<le> unat (hmask h'))"
  using hmap_insert_wf [OF assms(1), of page_ok x hash] hmap_insert_mask [OF assms(1) _ assms(2,3), of x hash]
  by (cases page_ok) auto

definition hmap_example :: "ptr hmap" where
  "hmap_example = \<lparr>buckets = [[(4, 10), (0, 11)], [(5, 12)], [], [(7, 13)]], hmask = 3, hn = 4\<rparr>"

lemma hmap_example_wf: "hmap_wf hmap_example"
proof -
  have "low_mask (3 :: u64)"
    unfolding low_mask_def by (intro exI [of _ 2]) (simp add: mask_eq_exp_minus_1)
  moreover have "\<forall>i \<in> set [0..<4]. \<forall>nd \<in> set (buckets hmap_example ! i). hmap_idx (fst nd) 3 = i"
    by (simp add: upt_rec hmap_example_def hmap_idx_def)
  ultimately show ?thesis by (simp add: hmap_wf_def hmap_example_def)
qed

theorem hmap_insert_correct_witness:
  "\<exists>h'. hmap_insert True hmap_example 14 9 = Some h' \<and> hmap_wf h'
    \<and> hmap_nodes h' = add_mset (9, 14) (hmap_nodes hmap_example)
    \<and> (True \<longrightarrow> hn h' div 2 \<le> unat (hmask h'))"
  by (rule hmap_insert_correct [OF hmap_example_wf]) (simp_all add: hmap_example_def)

text \<open>Removing a node takes exactly that node out, and replacing a node puts the new one under
  the same hash; every other node stays.\<close>

theorem hmap_remove_replace_correct:
  assumes "hmap_wf h" and "distinct (hmap_elems h)" and "(hash, x) \<in># hmap_nodes h"
  shows "\<exists>h1 h2. hmap_remove h x = Some h1 \<and> hmap_wf h1 \<and> hmap_nodes h1 = hmap_nodes h - {#(hash, x)#}
    \<and> hmap_replace h x y = Some h2 \<and> hmap_wf h2
    \<and> hmap_nodes h2 = add_mset (hash, y) (hmap_nodes h - {#(hash, x)#})"
  using hmap_remove_wf [OF assms] hmap_replace_wf [OF assms, of y] by auto

theorem hmap_remove_replace_correct_witness:
  "\<exists>h1 h2. hmap_remove hmap_example 11 = Some h1 \<and> hmap_wf h1
    \<and> hmap_nodes h1 = hmap_nodes hmap_example - {#(0, 11)#}
    \<and> hmap_replace hmap_example 11 20 = Some h2 \<and> hmap_wf h2
    \<and> hmap_nodes h2 = add_mset (0, 20) (hmap_nodes hmap_example - {#(0, 11)#})"
  by (rule hmap_remove_replace_correct [OF hmap_example_wf])
    (simp_all add: hmap_example_def hmap_elems_def hmap_nodes_def)

text \<open>Iteration over the map ends and visits every structure in it once per node, and a search
  by hash visits exactly the structures inserted under that hash.\<close>

theorem hmap_traversals:
  assumes "hmap_wf h"
  shows "\<exists>xs. HMAP_FOR_EACH h = Some xs \<and> mset xs = image_mset snd (hmap_nodes h)
    \<and> length xs = hmap_count h
    \<and> (\<forall>hash x. x \<in> set (HMAP_FOR_EACH_WITH_HASH h hash) \<longleftrightarrow> (hash, x) \<in># hmap_nodes h)"
  using HMAP_FOR_EACH_elems [OF assms] set_with_hash [OF assms] hmap_wf_hn [OF assms]
  by (auto simp: hmap_elems_nodes hmap_count_def) (simp add: hmap_elems_def hmap_nodes_def)

theorem hmap_traversals_witness:
  "\<exists>xs. HMAP_FOR_EACH hmap_example = Some xs \<and> mset xs = image_mset snd (hmap_nodes hmap_example)
    \<and> length xs = hmap_count hmap_example
    \<and> (\<forall>hash x. x \<in> set (HMAP_FOR_EACH_WITH_HASH hmap_example hash) \<longleftrightarrow> (hash, x) \<in># hmap_nodes hmap_example)"
  by (rule hmap_traversals [OF hmap_example_wf])

end
