(* ===== verification/Classifier.thy ===== *)
theory Classifier
  imports Match OVS_Hmap
begin

text \<open>
  The flow classifier of \<open>OFTonSGX/trusted/lib/classifier.h\<close> and \<open>classifier.c\<close>: rules grouped into
  one \<open>cls_table\<close> per mask, each a hash map from masked flow to the ring of rules with that match,
  and the tables ordered by their highest priority.

  Rules and tables are objects at addresses. \<open>rules\<close> is the store of \<open>struct cls_rule\<close>s (their
  \<open>match\<close> and \<open>priority\<close>); it is never changed by the classifier. The intrusive parts of a rule
  (\<open>hmap_node\<close>, \<open>list\<close>) are represented by where the rule sits: a table's hash map holds, for each
  head rule, the ring of rules reached through \<open>list\<close> from the head, head first. The store of
  \<open>struct cls_table\<close>s is part of the classifier. Dereferencing NULL is a fault (\<open>None\<close>).
\<close>

section \<open>State\<close>

record cls_rule =
  cr_match :: minimatch
  priority :: u32

type_synonym rule_store = "ptr \<Rightarrow> cls_rule"

type_synonym ring = "ptr list"

record cls_table =
  t_rules :: "ring hmap"
  t_mask :: minimask
  n_table_rules :: int
  max_priority :: u32
  max_count :: int

record classifier =
  n_rules :: int
  tables :: "ptr hmap"
  tables_priority :: "ptr list"
  tstore :: "ptr \<Rightarrow> cls_table"
  tnext :: ptr

text \<open>\<open>tnext\<close> is the next address \<open>xzalloc\<close> returns for a table.\<close>

abbreviation rule_flow :: "rule_store \<Rightarrow> ptr \<Rightarrow> miniflow" where
  "rule_flow rs r \<equiv> mm_flow (cr_match (rs r))"

abbreviation rule_mask :: "rule_store \<Rightarrow> ptr \<Rightarrow> minimask" where
  "rule_mask rs r \<equiv> mm_mask (cr_match (rs r))"

abbreviation prio :: "rule_store \<Rightarrow> ptr \<Rightarrow> u32" where
  "prio rs r \<equiv> priority (rs r)"

definition set_table :: "classifier \<Rightarrow> ptr \<Rightarrow> cls_table \<Rightarrow> classifier" where
  "set_table cls t tb = cls\<lparr>tstore := (tstore cls)(t := tb)\<rparr>"

section \<open>Rules\<close>

definition cls_rule_init :: "match \<Rightarrow> u32 \<Rightarrow> cls_rule" where
  "cls_rule_init m p = \<lparr>cr_match = minimatch_init m, priority = p\<rparr>"

definition cls_rule_init_from_minimatch :: "minimatch \<Rightarrow> u32 \<Rightarrow> cls_rule" where
  "cls_rule_init_from_minimatch m p = \<lparr>cr_match = minimatch_clone m, priority = p\<rparr>"

definition cls_rule_clone :: "cls_rule \<Rightarrow> cls_rule" where
  "cls_rule_clone src = \<lparr>cr_match = minimatch_clone (cr_match src), priority = priority src\<rparr>"

definition cls_rule_equal :: "cls_rule \<Rightarrow> cls_rule \<Rightarrow> bool" where
  "cls_rule_equal a b \<longleftrightarrow> priority a = priority b \<and> minimatch_equal (cr_match a) (cr_match b)"

definition cls_rule_hash :: "cls_rule \<Rightarrow> u32 \<Rightarrow> u32" where
  "cls_rule_hash r basis = minimatch_hash (cr_match r) (hash_int (priority r) basis)"

definition cls_rule_is_catchall :: "cls_rule \<Rightarrow> bool" where
  "cls_rule_is_catchall r \<longleftrightarrow> minimask_is_catchall (mm_mask (cr_match r))"

definition cls_rule_is_loose_match :: "cls_rule \<Rightarrow> minimatch \<Rightarrow> bool" where
  "cls_rule_is_loose_match r criteria \<longleftrightarrow>
     \<not> minimask_has_extra (mm_mask (cr_match r)) (mm_mask criteria)
     \<and> miniflow_equal_in_minimask (mm_flow (cr_match r)) (mm_flow criteria) (mm_mask criteria)"

text \<open>\<open>FOR_EACH_RULE_IN_LIST\<close>: the rules from the head on while the priority falls; back at the
  head it has not fallen.\<close>

fun rules_in_list :: "rule_store \<Rightarrow> ring \<Rightarrow> ptr list" where
  "rules_in_list rs [] = []"
| "rules_in_list rs [r] = [r]"
| "rules_in_list rs (r # next # rest) =
     r # (if prio rs next < prio rs r then rules_in_list rs (next # rest) else [])"

section \<open>Tables\<close>

definition cls_table_is_catchall :: "cls_table \<Rightarrow> bool" where
  "cls_table_is_catchall tb \<longleftrightarrow> minimask_is_catchall (t_mask tb)"

definition classifier_init :: classifier where
  "classifier_init = \<lparr>n_rules = 0, tables = hmap_init, tables_priority = [],
     tstore = (\<lambda>_. \<lparr>t_rules = hmap_init, t_mask = \<lparr>masks = \<lparr>mf_values = [], mf_map = [0, 0]\<rparr>\<rparr>,
       n_table_rules = 0, max_priority = 0, max_count = 0\<rparr>), tnext = 1\<rparr>"

definition classifier_is_empty :: "classifier \<Rightarrow> bool" where
  "classifier_is_empty cls \<longleftrightarrow> n_rules cls = 0"

definition classifier_count :: "classifier \<Rightarrow> int" where
  "classifier_count cls = n_rules cls"

definition find_table :: "classifier \<Rightarrow> minimask \<Rightarrow> ptr option" where
  "find_table cls m = find (\<lambda>t. minimask_equal m (t_mask (tstore cls t)))
     (map snd (hmap_first_in_bucket (tables cls) (ucast (minimask_hash m 0))))"

definition insert_table :: "classifier \<Rightarrow> minimask \<Rightarrow> (classifier \<times> ptr) option" where
  "insert_table cls m = do {
     let t = tnext cls;
     let tb = \<lparr>t_rules = hmap_init, t_mask = minimask_clone m, n_table_rules = 0,
               max_priority = 0, max_count = 0\<rparr>;
     tabs \<leftarrow> hmap_insert True (tables cls) t (ucast (minimask_hash m 0));
     Some ((set_table cls t tb)\<lparr>tables := tabs, tables_priority := tables_priority cls @ [t],
             tnext := t + 1\<rparr>, t) }"

definition destroy_table :: "classifier \<Rightarrow> ptr \<Rightarrow> classifier option" where
  "destroy_table cls t = do {
     tabs \<leftarrow> hmap_remove (tables cls) t;
     Some (cls\<lparr>tables := tabs, tables_priority := remove1 t (tables_priority cls)\<rparr>) }"

text \<open>The table list around a table: what is before it and what is after it.\<close>

definition before_table :: "ptr \<Rightarrow> ptr list \<Rightarrow> ptr list" where
  "before_table t ts = takeWhile (\<lambda>u. u \<noteq> t) ts"

definition after_table :: "ptr \<Rightarrow> ptr list \<Rightarrow> ptr list" where
  "after_table t ts = tl (dropWhile (\<lambda>u. u \<noteq> t) ts)"

text \<open>The reverse scan from \<open>table\<close> stops at the first table, going backwards, whose maximum
  priority is at least \<open>p\<close> (or at the list head); \<open>table\<close> is moved just after it.\<close>

definition move_earlier :: "(ptr \<Rightarrow> u32) \<Rightarrow> u32 \<Rightarrow> ptr \<Rightarrow> ptr list \<Rightarrow> ptr list" where
  "move_earlier mp p t ts = (let xs = rev (before_table t ts);
       passed = takeWhile (\<lambda>iter. \<not> mp iter \<ge> p) xs;
       rest = dropWhile (\<lambda>iter. \<not> mp iter \<ge> p) xs
     in rev rest @ t # rev passed @ after_table t ts)"

text \<open>The forward scan stops at the first later table whose maximum priority is at most \<open>p\<close> (or at
  the list head); \<open>table\<close> is moved just before it.\<close>

definition move_later :: "(ptr \<Rightarrow> u32) \<Rightarrow> u32 \<Rightarrow> ptr \<Rightarrow> ptr list \<Rightarrow> ptr list" where
  "move_later mp p t ts = (let ys = after_table t ts
     in before_table t ts @ takeWhile (\<lambda>iter. \<not> mp iter \<le> p) ys @ t # dropWhile (\<lambda>iter. \<not> mp iter \<le> p) ys)"

definition update_tables_after_insertion :: "classifier \<Rightarrow> ptr \<Rightarrow> u32 \<Rightarrow> classifier" where
  "update_tables_after_insertion cls t new_priority = (let tb = tstore cls t in
     if new_priority = max_priority tb
     then set_table cls t (tb\<lparr>max_count := max_count tb + 1\<rparr>)
     else if new_priority > max_priority tb
     then let cls' = set_table cls t (tb\<lparr>max_priority := new_priority, max_count := 1\<rparr>)
          in cls'\<lparr>tables_priority := move_earlier (\<lambda>u. max_priority (tstore cls' u)) new_priority t
                (tables_priority cls)\<rparr>
     else cls)"

text \<open>The recount over the heads of a table: the maximum priority and how many heads have it.\<close>

definition recount_step :: "rule_store \<Rightarrow> ring \<Rightarrow> u32 \<times> int \<Rightarrow> u32 \<times> int" where
  "recount_step rs ring = (\<lambda>(mp, mc). let p = prio rs (hd ring) in
     if p > mp then (p, 1) else if p = mp then (mp, mc + 1) else (mp, mc))"

definition update_tables_after_removal :: "rule_store \<Rightarrow> classifier \<Rightarrow> ptr \<Rightarrow> u32 \<Rightarrow> classifier" where
  "update_tables_after_removal rs cls t del_priority = (let tb = tstore cls t in
     if del_priority = max_priority tb
     then let mc = max_count tb - 1 in
       if mc = 0
       then let (mp, mc) = fold (recount_step rs) (hmap_elems (t_rules tb)) (0, mc);
                cls' = set_table cls t (tb\<lparr>max_priority := mp, max_count := mc\<rparr>)
            in cls'\<lparr>tables_priority := move_later (\<lambda>u. max_priority (tstore cls' u)) mp t
                  (tables_priority cls)\<rparr>
       else set_table cls t (tb\<lparr>max_count := mc\<rparr>)
     else cls)"

section \<open>Searching a table\<close>

definition find_match :: "rule_store \<Rightarrow> cls_table \<Rightarrow> flow \<Rightarrow> ptr option" where
  "find_match rs tb f = (let hash = flow_hash_in_minimask f (t_mask tb) 0 in
     map_option hd (find (\<lambda>ring. miniflow_equal_flow_in_minimask (rule_flow rs (hd ring)) f (t_mask tb))
       (HMAP_FOR_EACH_WITH_HASH (t_rules tb) (ucast hash))))"

definition find_equal :: "rule_store \<Rightarrow> cls_table \<Rightarrow> miniflow \<Rightarrow> u32 \<Rightarrow> ring option" where
  "find_equal rs tb mf hash =
     find (\<lambda>ring. miniflow_equal (rule_flow rs (hd ring)) mf)
       (HMAP_FOR_EACH_WITH_HASH (t_rules tb) (ucast hash))"

section \<open>Insertion and removal\<close>

text \<open>The scan of a ring for the insertion point. The visited rules end where the priority stops
  falling; a rule not reached is followed by the rest of the ring, and \<open>list_push_back\<close> appends.
  The result is the new ring and the rule it displaces.\<close>

fun ring_insert :: "rule_store \<Rightarrow> ptr \<Rightarrow> ring \<Rightarrow> ring \<times> ptr option" where
  "ring_insert rs new [] = ([new], None)"
| "ring_insert rs new (r # rest) =
     (if prio rs new \<ge> prio rs r
      then if prio rs new = prio rs r then (new # rest, Some r) else (new # r # rest, None)
      else case rest of
          [] \<Rightarrow> ([r, new], None)
        | next # _ \<Rightarrow> if prio rs next < prio rs r
            then (case ring_insert rs new rest of (rest', old) \<Rightarrow> (r # rest', old))
            else ((r # rest) @ [new], None))"

definition rule_node_hash :: "rule_store \<Rightarrow> ptr \<Rightarrow> u32" where
  "rule_node_hash rs r = miniflow_hash_in_minimask (rule_flow rs r) (rule_mask rs r) 0"

definition insert_rule :: "rule_store \<Rightarrow> classifier \<Rightarrow> ptr \<Rightarrow> ptr \<Rightarrow> (classifier \<times> ptr option) option" where
  "insert_rule rs cls t new = do {
     let tb = tstore cls t;
     let hash = rule_node_hash rs new;
     (rules', old) \<leftarrow> (case find_equal rs tb (rule_flow rs new) hash of
         None \<Rightarrow> do { h \<leftarrow> hmap_insert True (t_rules tb) [new] (ucast hash); Some (h, None) }
       | Some ring \<Rightarrow> (case ring_insert rs new ring of (ring', old) \<Rightarrow>
             do { h \<leftarrow> hmap_replace (t_rules tb) ring ring'; Some (h, old) }));
     let cls = set_table cls t (tb\<lparr>t_rules := rules'\<rparr>);
     Some (if old = None then update_tables_after_insertion cls t (prio rs new) else cls, old) }"

definition classifier_replace :: "rule_store \<Rightarrow> classifier \<Rightarrow> ptr \<Rightarrow> (classifier \<times> ptr option) option" where
  "classifier_replace rs cls r = do {
     (cls, t) \<leftarrow> (case find_table cls (rule_mask rs r) of
         Some t \<Rightarrow> Some (cls, t)
       | None \<Rightarrow> insert_table cls (rule_mask rs r));
     (cls, old) \<leftarrow> insert_rule rs cls t r;
     Some (if old = None
           then (let tb = tstore cls t in
                 (set_table cls t (tb\<lparr>n_table_rules := n_table_rules tb + 1\<rparr>))\<lparr>n_rules := n_rules cls + 1\<rparr>)
           else cls, old) }"

definition classifier_insert :: "rule_store \<Rightarrow> classifier \<Rightarrow> ptr \<Rightarrow> classifier option" where
  "classifier_insert rs cls r = do {
     (cls, displaced) \<leftarrow> classifier_replace rs cls r;
     if displaced = None then Some cls else None }"

text \<open>Taking \<open>rule\<close> off its ring. The node hash is the one stored by \<open>insert_rule\<close>. Unlinking a rule
  that is on no ring of the table is undefined in the source and a fault here.\<close>

definition classifier_remove :: "rule_store \<Rightarrow> classifier \<Rightarrow> ptr \<Rightarrow> classifier option" where
  "classifier_remove rs cls r = do {
     t \<leftarrow> find_table cls (rule_mask rs r);
     let tb = tstore cls t;
     ring \<leftarrow> find_equal rs tb (rule_flow rs r) (rule_node_hash rs r);
     rules' \<leftarrow> (if hd ring \<noteq> r
       then (if r \<in> set ring then hmap_replace (t_rules tb) ring (remove1 r ring) else None)
       else if tl ring = [] then hmap_remove (t_rules tb) ring
       else hmap_replace (t_rules tb) ring (tl ring));
     let tb = tb\<lparr>t_rules := rules', n_table_rules := n_table_rules tb - 1\<rparr>;
     let cls = set_table cls t tb;
     cls \<leftarrow> (if n_table_rules tb = 0 then destroy_table cls t
       else Some (update_tables_after_removal rs cls t (prio rs r)));
     Some (cls\<lparr>n_rules := n_rules cls - 1\<rparr>) }"

fun destroy_tables :: "classifier \<Rightarrow> ptr list \<Rightarrow> classifier option" where
  "destroy_tables cls [] = Some cls"
| "destroy_tables cls (t # ts) = do { cls \<leftarrow> destroy_table cls t; destroy_tables cls ts }"

definition classifier_destroy :: "classifier \<Rightarrow> classifier option" where
  "classifier_destroy cls = do { ts \<leftarrow> HMAP_FOR_EACH (tables cls); destroy_tables cls ts }"

section \<open>Lookup\<close>

definition fold_wc :: "flow_wildcards option \<Rightarrow> cls_table \<Rightarrow> flow_wildcards option" where
  "fold_wc wc tb = map_option (\<lambda>w. flow_wildcards_fold_minimask w (t_mask tb)) wc"

text \<open>The inner loop, once a rule has been found, and the outer loop.\<close>

fun lookup_better :: "rule_store \<Rightarrow> classifier \<Rightarrow> flow \<Rightarrow> ptr list \<Rightarrow> ptr \<Rightarrow> flow_wildcards option
    \<Rightarrow> ptr \<times> flow_wildcards option" where
  "lookup_better rs cls f [] best wc = (best, wc)"
| "lookup_better rs cls f (t # ts) best wc = (let tb = tstore cls t in
     if max_priority tb \<le> prio rs best then (best, wc)
     else let wc = fold_wc wc tb in
       case find_match rs tb f of
         Some r \<Rightarrow> lookup_better rs cls f ts (if prio rs r > prio rs best then r else best) wc
       | None \<Rightarrow> lookup_better rs cls f ts best wc)"

fun lookup_first :: "rule_store \<Rightarrow> classifier \<Rightarrow> flow \<Rightarrow> ptr list \<Rightarrow> flow_wildcards option
    \<Rightarrow> ptr option \<times> flow_wildcards option" where
  "lookup_first rs cls f [] wc = (None, wc)"
| "lookup_first rs cls f (t # ts) wc = (let tb = tstore cls t; wc = fold_wc wc tb in
     case find_match rs tb f of
       Some r \<Rightarrow> (case lookup_better rs cls f ts r wc of (best, wc) \<Rightarrow> (Some best, wc))
     | None \<Rightarrow> lookup_first rs cls f ts wc)"

definition classifier_lookup :: "rule_store \<Rightarrow> classifier \<Rightarrow> flow \<Rightarrow> flow_wildcards option
    \<Rightarrow> ptr option \<times> flow_wildcards option" where
  "classifier_lookup rs cls f wc = lookup_first rs cls f (tables_priority cls) wc"

fun scan_exact :: "rule_store \<Rightarrow> u32 \<Rightarrow> ptr list \<Rightarrow> ptr option" where
  "scan_exact rs p [] = None"
| "scan_exact rs p (r # rest) =
     (if p \<ge> prio rs r then (if p = prio rs r then Some r else None) else scan_exact rs p rest)"

definition classifier_find_rule_exactly :: "rule_store \<Rightarrow> classifier \<Rightarrow> cls_rule \<Rightarrow> ptr option" where
  "classifier_find_rule_exactly rs cls target =
     (case find_table cls (mm_mask (cr_match target)) of
       None \<Rightarrow> None
     | Some t \<Rightarrow> let tb = tstore cls t in
         if priority target > max_priority tb then None
         else (case find_equal rs tb (mm_flow (cr_match target))
                  (miniflow_hash_in_minimask (mm_flow (cr_match target)) (mm_mask (cr_match target)) 0) of
             None \<Rightarrow> None
           | Some ring \<Rightarrow> scan_exact rs (priority target) (rules_in_list rs ring)))"

definition classifier_find_match_exactly :: "rule_store \<Rightarrow> classifier \<Rightarrow> match \<Rightarrow> u32 \<Rightarrow> ptr option" where
  "classifier_find_match_exactly rs cls target p =
     classifier_find_rule_exactly rs cls (cls_rule_init target p)"

text \<open>The scan of one ring in \<open>classifier_rule_overlaps\<close>.\<close>

fun ring_overlaps :: "rule_store \<Rightarrow> cls_rule \<Rightarrow> minimask \<Rightarrow> ptr list \<Rightarrow> bool" where
  "ring_overlaps rs target m [] = False"
| "ring_overlaps rs target m (r # rest) =
     (if prio rs r < priority target then False
      else if prio rs r = priority target
           \<and> miniflow_equal_in_minimask (mm_flow (cr_match target)) (rule_flow rs r) m then True
      else ring_overlaps rs target m rest)"

fun tables_overlap :: "rule_store \<Rightarrow> classifier \<Rightarrow> cls_rule \<Rightarrow> ptr list \<Rightarrow> bool" where
  "tables_overlap rs cls target [] = False"
| "tables_overlap rs cls target (t # ts) = (let tb = tstore cls t in
     if priority target > max_priority tb then False
     else let m = minimask_combine (mm_mask (cr_match target)) (t_mask tb) in
       if \<exists>ring \<in> set (hmap_elems (t_rules tb)). ring_overlaps rs target m (rules_in_list rs ring)
       then True else tables_overlap rs cls target ts)"

definition classifier_rule_overlaps :: "rule_store \<Rightarrow> classifier \<Rightarrow> cls_rule \<Rightarrow> bool" where
  "classifier_rule_overlaps rs cls target = tables_overlap rs cls target (tables_priority cls)"

section \<open>Cursors\<close>

definition rule_matches :: "cls_rule \<Rightarrow> cls_rule option \<Rightarrow> bool" where
  "rule_matches r target = (case target of None \<Rightarrow> True
     | Some tg \<Rightarrow> miniflow_equal_in_minimask (mm_flow (cr_match r)) (mm_flow (cr_match tg)) (mm_mask (cr_match tg)))"

text \<open>A position of the cursor: the table, the rings of that table from the current one on, the
  rules of the current ring from the current one on, and the tables still to come.\<close>

definition search_table :: "rule_store \<Rightarrow> cls_table \<Rightarrow> cls_rule option \<Rightarrow> ring list" where
  "search_table rs tb target =
     (if (case target of None \<Rightarrow> True | Some tg \<Rightarrow> \<not> minimask_has_extra (t_mask tb) (mm_mask (cr_match tg)))
      then dropWhile (\<lambda>ring. \<not> rule_matches (rs (hd ring)) target) (hmap_elems (t_rules tb))
      else [])"

definition cls_cursor_init :: "cls_rule option \<Rightarrow> cls_rule option" where
  "cls_cursor_init target = (case target of None \<Rightarrow> None
     | Some tg \<Rightarrow> if \<not> cls_rule_is_catchall tg then Some tg else None)"

type_synonym cursor_pos = "ptr \<times> ring list \<times> ptr list"

text \<open>The search through the tables shared by \<open>cls_cursor_first\<close> and \<open>cls_cursor_next\<close>.\<close>

fun cursor_tables :: "rule_store \<Rightarrow> classifier \<Rightarrow> cls_rule option \<Rightarrow> ptr list \<Rightarrow> (cursor_pos \<times> ptr list) option" where
  "cursor_tables rs cls target [] = None"
| "cursor_tables rs cls target (t # ts) = (case search_table rs (tstore cls t) target of
       [] \<Rightarrow> cursor_tables rs cls target ts
     | ring # rings \<Rightarrow> Some ((t, ring # rings, ring), ts))"

definition cls_cursor_first :: "rule_store \<Rightarrow> classifier \<Rightarrow> cls_rule option \<Rightarrow> (cursor_pos \<times> ptr list) option" where
  "cls_cursor_first rs cls target = cursor_tables rs cls target (hmap_elems (tables cls))"

definition cls_cursor_next :: "rule_store \<Rightarrow> classifier \<Rightarrow> cls_rule option \<Rightarrow> cursor_pos \<times> ptr list
    \<Rightarrow> (cursor_pos \<times> ptr list) option" where
  "cls_cursor_next rs cls target = (\<lambda>((t, rings, rest), ts).
     let next = (if tl rest \<noteq> [] then tl rest else hd rings) in
     if prio rs (hd next) < prio rs (hd rest)
     then Some ((t, rings, next), ts)
     else (case dropWhile (\<lambda>ring. \<not> rule_matches (rs (hd ring)) target) (tl rings) of
         ring # rings' \<Rightarrow> Some ((t, ring # rings', ring), ts)
       | [] \<Rightarrow> cursor_tables rs cls target ts))"

text \<open>The rules visited by \<open>CLS_CURSOR_FOR_EACH\<close> from a position on.\<close>

partial_function (option) cursor_iter :: "rule_store \<Rightarrow> classifier \<Rightarrow> cls_rule option
    \<Rightarrow> (cursor_pos \<times> ptr list) option \<Rightarrow> ptr list option" where
  "cursor_iter rs cls target pos = (if pos = None then Some []
     else do { rest \<leftarrow> cursor_iter rs cls target (cls_cursor_next rs cls target (the pos));
               Some (hd (snd (snd (fst (the pos)))) # rest) })"

declare cursor_iter.simps [code]

definition CLS_CURSOR_FOR_EACH :: "rule_store \<Rightarrow> classifier \<Rightarrow> cls_rule option \<Rightarrow> ptr list option" where
  "CLS_CURSOR_FOR_EACH rs cls target = (let tg = cls_cursor_init target in
     cursor_iter rs cls tg (cls_cursor_first rs cls tg))"

end
