(* ===== verification/Classifier_Correct.thy ===== *)
theory Classifier_Correct
  imports Classifier
begin

text \<open>
  The invariant of the classifier and the correctness of its operations. \<open>cls_inv\<close> collects what
  the comments of \<open>classifier.c\<close> and the field comments of \<open>classifier.h\<close> promise: one table per
  mask, one ring per masked flow, rings in strictly descending priority, exact rule counts, maximum
  priorities and their multiplicities, and the tables in descending order of maximum priority.
  Under it the classifier is a finite set of rules with pairwise different (match, priority) keys:
  replacing and removing act on that set, and every search is characterised by it.
\<close>

section \<open>Invariant\<close>

definition rule_ok :: "rule_store \<Rightarrow> ptr \<Rightarrow> bool" where
  "rule_ok rs r \<longleftrightarrow> minimatch_wf (cr_match (rs r)) \<and> minimatch_normal (cr_match (rs r))"

definition ring_ok :: "rule_store \<Rightarrow> minimask \<Rightarrow> ring \<Rightarrow> bool" where
  "ring_ok rs m ring \<longleftrightarrow> ring \<noteq> []
     \<and> (\<forall>r \<in> set ring. rule_ok rs r \<and> rule_mask rs r = m \<and> rule_flow rs (hd ring) = rule_flow rs r)
     \<and> sorted_wrt (\<lambda>a b. prio rs b < prio rs a) ring"

definition ring_hash :: "rule_store \<Rightarrow> ring \<Rightarrow> u64" where
  "ring_hash rs ring = ucast (rule_node_hash rs (hd ring))"

text \<open>The map of rings of a table with mask \<open>m\<close>.\<close>

definition rings_inv :: "rule_store \<Rightarrow> minimask \<Rightarrow> ring hmap \<Rightarrow> bool" where
  "rings_inv rs m h \<longleftrightarrow> hmap_wf h \<and> (\<forall>nd \<in># hmap_nodes h. fst nd = ring_hash rs (snd nd))
     \<and> (\<forall>ring \<in> set (hmap_elems h). ring_ok rs m ring)
     \<and> distinct (map (\<lambda>ring. rule_flow rs (hd ring)) (hmap_elems h))"

definition table_rules :: "cls_table \<Rightarrow> ptr list" where
  "table_rules tb = concat (hmap_elems (t_rules tb))"

definition prio_count :: "rule_store \<Rightarrow> ptr multiset \<Rightarrow> u32 \<Rightarrow> int" where
  "prio_count rs ms p = int (size {#r \<in># ms. prio rs r = p#})"

text \<open>\<open>mp\<close> bounds the priorities and \<open>mc\<close> rules attain it; the maximum of no rules is 0.\<close>

definition prio_ok :: "rule_store \<Rightarrow> ptr multiset \<Rightarrow> u32 \<Rightarrow> int \<Rightarrow> bool" where
  "prio_ok rs ms mp mc \<longleftrightarrow> (\<forall>r \<in># ms. prio rs r \<le> mp)
     \<and> mc = prio_count rs ms mp \<and> (mp = 0 \<or> mc > 0)"

definition table_inv :: "rule_store \<Rightarrow> cls_table \<Rightarrow> bool" where
  "table_inv rs tb \<longleftrightarrow> minimask_wf (t_mask tb) \<and> rings_inv rs (t_mask tb) (t_rules tb)
     \<and> prio_ok rs (mset (table_rules tb)) (max_priority tb) (max_count tb)
     \<and> n_table_rules tb = int (length (table_rules tb))"

definition tables_inv :: "classifier \<Rightarrow> bool" where
  "tables_inv cls \<longleftrightarrow> hmap_wf (tables cls)
     \<and> (\<forall>nd \<in># hmap_nodes (tables cls). fst nd = ucast (minimask_hash (t_mask (tstore cls (snd nd))) 0))
     \<and> distinct (hmap_elems (tables cls)) \<and> (\<forall>t \<in> set (hmap_elems (tables cls)). t < tnext cls)
     \<and> inj_on (\<lambda>t. t_mask (tstore cls t)) (set (hmap_elems (tables cls)))
     \<and> mset (tables_priority cls) = mset (hmap_elems (tables cls))
     \<and> sorted_wrt (\<lambda>t u. max_priority (tstore cls u) \<le> max_priority (tstore cls t)) (tables_priority cls)"

definition cls_rules :: "classifier \<Rightarrow> ptr list" where
  "cls_rules cls = concat (map (\<lambda>t. table_rules (tstore cls t)) (hmap_elems (tables cls)))"

definition cls_inv :: "rule_store \<Rightarrow> classifier \<Rightarrow> bool" where
  "cls_inv rs cls \<longleftrightarrow> tables_inv cls
     \<and> (\<forall>t \<in> set (hmap_elems (tables cls)). table_inv rs (tstore cls t) \<and> table_rules (tstore cls t) \<noteq> [])
     \<and> n_rules cls = int (length (cls_rules cls))"

section \<open>Searches through the hash maps\<close>

definition table_hash :: "(ptr \<Rightarrow> cls_table) \<Rightarrow> ptr \<Rightarrow> u64" where
  "table_hash st t = ucast (minimask_hash (t_mask (st t)) 0)"

definition mask_hash :: "minimask \<Rightarrow> u64" where
  "mask_hash m = ucast (minimask_hash m 0)"

definition mask_eq :: "(ptr \<Rightarrow> cls_table) \<Rightarrow> minimask \<Rightarrow> ptr \<Rightarrow> bool" where
  "mask_eq st m t \<longleftrightarrow> minimask_equal m (t_mask (st t))"

definition mask_ok :: "(ptr \<Rightarrow> cls_table) \<Rightarrow> minimask \<Rightarrow> ptr \<Rightarrow> bool" where
  "mask_ok st m t \<longleftrightarrow> minimask_wf m \<and> minimask_wf (t_mask (st t))"

interpretation table_search: hash_search "table_hash st" mask_hash "mask_eq st" "mask_ok st" for st
  by unfold_locales (auto simp: mask_ok_def mask_eq_def table_hash_def mask_hash_def minimask_equal_iff)

definition packet_hash :: "minimask \<Rightarrow> flow \<Rightarrow> u64" where
  "packet_hash m f = ucast (flow_hash_in_minimask f m 0)"

definition ring_match :: "rule_store \<Rightarrow> minimask \<Rightarrow> flow \<Rightarrow> ring \<Rightarrow> bool" where
  "ring_match rs m f ring \<longleftrightarrow> miniflow_equal_flow_in_minimask (rule_flow rs (hd ring)) f m"

definition ring_match_ok :: "rule_store \<Rightarrow> minimask \<Rightarrow> flow \<Rightarrow> ring \<Rightarrow> bool" where
  "ring_match_ok rs m f ring \<longleftrightarrow> minimask_wf m \<and> ring_ok rs m ring"

lemma ring_ok_head:
  assumes "ring_ok rs m ring"
  shows "hd ring \<in> set ring" "rule_mask rs (hd ring) = m" "rule_ok rs (hd ring)"
    "minimatch_wf (cr_match (rs (hd ring)))" "miniflow_wf (rule_flow rs (hd ring))"
proof -
  show h: "hd ring \<in> set ring" using assms by (simp add: ring_ok_def)
  then show "rule_mask rs (hd ring) = m" and o: "rule_ok rs (hd ring)" using assms unfolding ring_ok_def by blast+
  then show "minimatch_wf (cr_match (rs (hd ring)))" "miniflow_wf (rule_flow rs (hd ring))"
    by (auto simp: rule_ok_def minimatch_wf_def)
qed

interpretation match_search: hash_search "ring_hash rs" "packet_hash m" "ring_match rs m" "ring_match_ok rs m"
  for rs m
proof
  fix f ring
  assume a: "ring_match_ok rs m f ring" and e: "ring_match rs m f ring"
  then have m: "minimask_wf m" and r: "ring_ok rs m ring" by (auto simp: ring_match_ok_def)
  note h = ring_ok_head [OF r]
  have "agree (miniflow_expand (rule_flow rs (hd ring))) f (mask_of m)"
    using e equal_flow_in_minimask [OF h(5) m] by (simp add: ring_match_def)
  from agree_hash [OF m this, of 0] show "ring_hash rs ring = packet_hash m f"
    by (simp add: ring_hash_def packet_hash_def rule_node_hash_def h(2) miniflow_hash_masked [OF h(5) m])
qed

definition miniflow_key_hash :: "minimask \<Rightarrow> miniflow \<Rightarrow> u64" where
  "miniflow_key_hash m mf = ucast (miniflow_hash_in_minimask mf m 0)"

definition ring_equal :: "rule_store \<Rightarrow> miniflow \<Rightarrow> ring \<Rightarrow> bool" where
  "ring_equal rs mf ring \<longleftrightarrow> miniflow_equal (rule_flow rs (hd ring)) mf"

definition ring_equal_ok :: "rule_store \<Rightarrow> minimask \<Rightarrow> miniflow \<Rightarrow> ring \<Rightarrow> bool" where
  "ring_equal_ok rs m mf ring \<longleftrightarrow> miniflow_wf mf \<and> ring_ok rs m ring"

interpretation equal_search: hash_search "ring_hash rs" "miniflow_key_hash m" "ring_equal rs" "ring_equal_ok rs m"
  for rs m
proof
  fix mf ring
  assume a: "ring_equal_ok rs m mf ring" and e: "ring_equal rs mf ring"
  then have m: "miniflow_wf mf" and r: "ring_ok rs m ring" by (auto simp: ring_equal_ok_def)
  note h = ring_ok_head [OF r]
  have "rule_flow rs (hd ring) = mf" using e miniflow_equal_iff [OF h(5) m] by (simp add: ring_equal_def)
  then show "ring_hash rs ring = miniflow_key_hash m mf"
    by (simp add: ring_hash_def miniflow_key_hash_def rule_node_hash_def h(2))
qed

lemma rings_inv_hashed:
  "rings_inv rs m h \<Longrightarrow> match_search.hashed_by rs h"
  "rings_inv rs m h \<Longrightarrow> minimask_wf m \<Longrightarrow> match_search.all_ok rs m h f"
  "rings_inv rs m h \<Longrightarrow> miniflow_wf mf \<Longrightarrow> equal_search.all_ok rs m h mf"
  by (simp_all add: rings_inv_def match_search.hashed_by_def
      match_search.all_ok_def equal_search.all_ok_def ring_match_ok_def ring_equal_ok_def)

lemma rings_inv_ring: "rings_inv rs m h \<Longrightarrow> ring \<in> set (hmap_elems h) \<Longrightarrow> ring_ok rs m ring"
  by (simp add: rings_inv_def)

lemma cls_inv_table: "cls_inv rs cls \<Longrightarrow> t \<in> set (hmap_elems (tables cls)) \<Longrightarrow> table_inv rs (tstore cls t)"
  by (simp add: cls_inv_def)

lemma cls_inv_hashed:
  assumes "cls_inv rs cls"
  shows "table_search.hashed_by (tstore cls) (tables cls)"
    and "minimask_wf m \<Longrightarrow> table_search.all_ok (tstore cls) (tables cls) m"
  using assms by (simp_all add: cls_inv_def tables_inv_def table_search.hashed_by_def
      table_search.all_ok_def table_inv_def table_hash_def mask_ok_def)

lemma find_table_search: "find_table cls m = table_search.bucket_search (tstore cls) (tables cls) m"
  unfolding find_table_def table_search.bucket_search_def mask_hash_def by (simp add: mask_eq_def [abs_def])

lemma find_table_Some:
  assumes "cls_inv rs cls" and "minimask_wf m" and "find_table cls m = Some t"
  shows "t \<in> set (hmap_elems (tables cls))" and "t_mask (tstore cls t) = m"
proof -
  note h = cls_inv_hashed [OF assms(1)]
  have r: "t \<in> set (hmap_elems (tables cls)) \<and> mask_eq (tstore cls) m t"
    by (rule table_search.bucket_search_Some [OF h(1) h(2) [OF assms(2)]])
      (use assms(3) in \<open>simp add: find_table_search\<close>)
  then show "t \<in> set (hmap_elems (tables cls))" "t_mask (tstore cls t) = m"
    using cls_inv_table [OF assms(1), of t] assms(2) by (auto simp: mask_eq_def table_inv_def minimask_equal_iff)
qed

lemma find_table_None:
  assumes "cls_inv rs cls" and "minimask_wf m" and "find_table cls m = None" and "t \<in> set (hmap_elems (tables cls))"
  shows "t_mask (tstore cls t) \<noteq> m"
proof -
  note h = cls_inv_hashed [OF assms(1)]
  have "\<not> mask_eq (tstore cls) m t"
    using table_search.bucket_search_None [OF h(1) h(2) [OF assms(2)]] assms(3,4) by (simp add: find_table_search)
  then show ?thesis
    using cls_inv_table [OF assms(1,4)] assms(2) by (auto simp: mask_eq_def table_inv_def minimask_equal_iff)
qed

lemma find_equal_search:
  "find_equal rs tb mf (miniflow_hash_in_minimask mf (t_mask tb) 0) =
   equal_search.search (t_mask tb) rs (t_rules tb) mf"
  unfolding find_equal_def equal_search.search_def miniflow_key_hash_def by (simp add: ring_equal_def [abs_def])

lemma find_equal_Some:
  assumes "rings_inv rs (t_mask tb) (t_rules tb)" and "miniflow_wf mf"
    and "find_equal rs tb mf (miniflow_hash_in_minimask mf (t_mask tb) 0) = Some ring"
  shows "ring \<in> set (hmap_elems (t_rules tb))" and "rule_flow rs (hd ring) = mf"
proof -
  note i = rings_inv_hashed [OF assms(1)]
  have r: "ring \<in> set (hmap_elems (t_rules tb)) \<and> ring_equal rs mf ring"
    by (rule equal_search.search_Some [OF i(1) i(3) [OF assms(2)]])
      (use assms(3) in \<open>simp add: find_equal_search\<close>)
  then show "ring \<in> set (hmap_elems (t_rules tb))" by simp
  with r show "rule_flow rs (hd ring) = mf"
    using ring_ok_head(5) [OF rings_inv_ring [OF assms(1)]] assms(2)
    by (simp add: ring_equal_def miniflow_equal_iff)
qed

lemma find_equal_None:
  assumes "rings_inv rs (t_mask tb) (t_rules tb)" and "miniflow_wf mf"
    and "find_equal rs tb mf (miniflow_hash_in_minimask mf (t_mask tb) 0) = None"
    and "ring \<in> set (hmap_elems (t_rules tb))"
  shows "rule_flow rs (hd ring) \<noteq> mf"
proof -
  note i = rings_inv_hashed [OF assms(1)]
  have "\<not> ring_equal rs mf ring"
    using equal_search.search_None [OF i(1) i(3) [OF assms(2)]] assms(3,4) by (simp add: find_equal_search)
  then show ?thesis
    using ring_ok_head(5) [OF rings_inv_ring [OF assms(1,4)]] assms(2)
    by (simp add: ring_equal_def miniflow_equal_iff)
qed

lemma find_match_search:
  "find_match rs tb f = map_option hd (match_search.search (t_mask tb) rs (t_rules tb) f)"
  unfolding find_match_def match_search.search_def packet_hash_def Let_def by (simp add: ring_match_def [abs_def])

section \<open>Rules of a table\<close>

lemma table_rules_ring:
  "r \<in> set (table_rules tb) \<longleftrightarrow> (\<exists>ring \<in> set (hmap_elems (t_rules tb)). r \<in> set ring)"
  by (simp add: table_rules_def)

lemma ring_ok_rule:
  assumes "ring_ok rs m ring" and "r \<in> set ring"
  shows "rule_ok rs r" "rule_mask rs r = m" "rule_flow rs r = rule_flow rs (hd ring)" "prio rs r \<le> prio rs (hd ring)"
proof -
  have "rule_ok rs r \<and> rule_mask rs r = m \<and> rule_flow rs (hd ring) = rule_flow rs r"
    using assms unfolding ring_ok_def by blast
  then show "rule_ok rs r" "rule_mask rs r = m" "rule_flow rs r = rule_flow rs (hd ring)" by auto
  show "prio rs r \<le> prio rs (hd ring)"
    using assms by (cases ring) (auto simp: ring_ok_def intro: less_imp_le)
qed

text \<open>Two normal flows matched by one packet under one mask are equal.\<close>

lemma ring_flow_unique:
  assumes "rule_ok rs r" and "rule_ok rs r'" and "rule_mask rs r = rule_mask rs r'"
    and "matches (cr_match (rs r)) f" and "matches (cr_match (rs r')) f"
  shows "rule_flow rs r = rule_flow rs r'"
  using assms by (intro normal_agree_eq) (auto simp: rule_ok_def matches_def intro: agree_trans agree_sym)

lemma rings_unique:
  assumes "rings_inv rs m h" and "ring \<in> set (hmap_elems h)" and "ring' \<in> set (hmap_elems h)"
    and "rule_flow rs (hd ring) = rule_flow rs (hd ring')"
  shows "ring = ring'"
  using assms unfolding rings_inv_def distinct_map by (blast dest: inj_onD)

lemma find_match_None:
  assumes "table_inv rs tb" and "find_match rs tb f = None" and "r \<in> set (table_rules tb)"
  shows "\<not> matches (cr_match (rs r)) f"
proof -
  have inv: "rings_inv rs (t_mask tb) (t_rules tb)" "minimask_wf (t_mask tb)" using assms(1) by (auto simp: table_inv_def)
  obtain ring where ring: "ring \<in> set (hmap_elems (t_rules tb))" "r \<in> set ring"
    using assms(3) by (auto simp: table_rules_ring)
  have ok: "ring_ok rs (t_mask tb) ring" by (rule rings_inv_ring [OF inv(1) ring(1)])
  have "\<not> ring_match rs (t_mask tb) f ring"
    using match_search.search_None [OF rings_inv_hashed(1) [OF inv(1)] rings_inv_hashed(2) [OF inv]] assms(2) ring(1)
    by (simp add: find_match_search)
  then show ?thesis
    using equal_flow_in_minimask [OF ring_ok_head(5) [OF ok] inv(2)] ring_ok_rule [OF ok ring(2)]
    by (simp add: ring_match_def matches_def)
qed

lemma find_match_Some:
  assumes "table_inv rs tb" and "find_match rs tb f = Some r"
  shows "r \<in> set (table_rules tb)" and "matches (cr_match (rs r)) f"
    and "\<And>r'. r' \<in> set (table_rules tb) \<Longrightarrow> matches (cr_match (rs r')) f \<Longrightarrow> prio rs r' \<le> prio rs r"
proof -
  have inv: "rings_inv rs (t_mask tb) (t_rules tb)" "minimask_wf (t_mask tb)" using assms(1) by (auto simp: table_inv_def)
  obtain ring where s: "match_search.search (t_mask tb) rs (t_rules tb) f = Some ring" "r = hd ring"
    using assms(2) by (auto simp: find_match_search)
  have ring: "ring \<in> set (hmap_elems (t_rules tb))" "ring_match rs (t_mask tb) f ring"
    using match_search.search_Some [OF rings_inv_hashed(1) [OF inv(1)] rings_inv_hashed(2) [OF inv] s(1)] by auto
  have ok: "ring_ok rs (t_mask tb) ring" by (rule rings_inv_ring [OF inv(1) ring(1)])
  note h = ring_ok_head [OF ok]
  show "r \<in> set (table_rules tb)" using ring(1) h(1) s(2) by (auto simp: table_rules_ring)
  show m: "matches (cr_match (rs r)) f"
    using ring(2) equal_flow_in_minimask [OF h(5) inv(2)] h(2) s(2) by (simp add: ring_match_def matches_def)
  fix r'
  assume r': "r' \<in> set (table_rules tb)" "matches (cr_match (rs r')) f"
  then obtain ring' where ring': "ring' \<in> set (hmap_elems (t_rules tb))" "r' \<in> set ring'"
    by (auto simp: table_rules_ring)
  note o' = ring_ok_rule [OF rings_inv_ring [OF inv(1) ring'(1)] ring'(2)]
  have "rule_flow rs r' = rule_flow rs r"
    using o' h s(2) m r'(2) by (intro ring_flow_unique) auto
  then have "ring' = ring" using o'(3) s(2) by (intro rings_unique [OF inv(1) ring'(1) ring(1)]) simp
  with ring'(2) show "prio rs r' \<le> prio rs r" using ring_ok_rule(4) [OF ok] s(2) by simp
qed

lemma table_max: "table_inv rs tb \<Longrightarrow> r \<in> set (table_rules tb) \<Longrightarrow> prio rs r \<le> max_priority tb"
  by (simp add: table_inv_def prio_ok_def)

section \<open>Lookup\<close>

abbreviation hit :: "rule_store \<Rightarrow> flow \<Rightarrow> ptr \<Rightarrow> bool" where
  "hit rs f r \<equiv> matches (cr_match (rs r)) f"

abbreviation in_tables :: "classifier \<Rightarrow> ptr list \<Rightarrow> ptr \<Rightarrow> bool" where
  "in_tables cls ts r \<equiv> \<exists>t \<in> set ts. r \<in> set (table_rules (tstore cls t))"

lemma lookup_better_correct:
  assumes "\<forall>t \<in> set ts. table_inv rs (tstore cls t)"
    and "sorted_wrt (\<lambda>t u. max_priority (tstore cls u) \<le> max_priority (tstore cls t)) ts"
    and "fst (lookup_better rs cls f ts best wc) = r"
  shows "(r = best \<or> in_tables cls ts r \<and> hit rs f r) \<and> prio rs best \<le> prio rs r
    \<and> (\<forall>r'. in_tables cls ts r' \<longrightarrow> hit rs f r' \<longrightarrow> prio rs r' \<le> prio rs r)"
  using assms
proof (induction ts arbitrary: best wc)
  case (Cons t ts)
  let ?tb = "tstore cls t"
  have inv: "table_inv rs ?tb" using Cons.prems(1) by simp
  show ?case
  proof (cases "max_priority ?tb \<le> prio rs best")
    case True
    have "prio rs r' \<le> prio rs best" if h: "in_tables cls (t # ts) r'" for r'
    proof -
      from h obtain u where u: "u \<in> set (t # ts)" "r' \<in> set (table_rules (tstore cls u))" by blast
      then have "prio rs r' \<le> max_priority (tstore cls u)" using Cons.prems(1) table_max by blast
      also have "max_priority (tstore cls u) \<le> max_priority ?tb" using Cons.prems(2) u(1) by auto
      finally show ?thesis using True by simp
    qed
    with True Cons.prems(3) show ?thesis by (auto simp: Let_def)
  next
    case False
    show ?thesis
    proof (cases "find_match rs ?tb f")
      case None
      with False Cons.prems have "fst (lookup_better rs cls f ts best (fold_wc wc ?tb)) = r" by (simp add: Let_def)
      from Cons.IH [OF _ _ this] Cons.prems(1,2) find_match_None [OF inv None] show ?thesis by auto
    next
      case (Some q)
      let ?best = "if prio rs q > prio rs best then q else best"
      from False Cons.prems Some have "fst (lookup_better rs cls f ts ?best (fold_wc wc ?tb)) = r" by (simp add: Let_def)
      from Cons.IH [OF _ _ this] Cons.prems(1,2)
      have ih: "(r = ?best \<or> in_tables cls ts r \<and> hit rs f r) \<and> prio rs ?best \<le> prio rs r
        \<and> (\<forall>r'. in_tables cls ts r' \<longrightarrow> hit rs f r' \<longrightarrow> prio rs r' \<le> prio rs r)" by simp
      note m = find_match_Some [OF inv Some]
      have "prio rs q \<le> prio rs r" "prio rs best \<le> prio rs r" using ih by (auto split: if_splits)
      with ih m show ?thesis by (fastforce split: if_splits)
    qed
  qed
qed auto

lemma lookup_first_correct:
  assumes "\<forall>t \<in> set ts. table_inv rs (tstore cls t)"
    and "sorted_wrt (\<lambda>t u. max_priority (tstore cls u) \<le> max_priority (tstore cls t)) ts"
  shows "case fst (lookup_first rs cls f ts wc) of
      None \<Rightarrow> \<forall>r'. in_tables cls ts r' \<longrightarrow> \<not> hit rs f r'
    | Some r \<Rightarrow> in_tables cls ts r \<and> hit rs f r
        \<and> (\<forall>r'. in_tables cls ts r' \<longrightarrow> hit rs f r' \<longrightarrow> prio rs r' \<le> prio rs r)"
  using assms
proof (induction ts arbitrary: wc)
  case (Cons t ts)
  let ?tb = "tstore cls t"
  have inv: "table_inv rs ?tb" using Cons.prems(1) by simp
  show ?case
  proof (cases "find_match rs ?tb f")
    case None
    then have "fst (lookup_first rs cls f (t # ts) wc) = fst (lookup_first rs cls f ts (fold_wc wc ?tb))"
      by (simp add: Let_def)
    with Cons.IH [of "fold_wc wc ?tb"] Cons.prems find_match_None [OF inv None] show ?thesis
      by (auto split: option.splits)
  next
    case (Some q)
    note m = find_match_Some [OF inv Some]
    define r where "r = fst (lookup_better rs cls f ts q (fold_wc wc ?tb))"
    then have e: "fst (lookup_first rs cls f (t # ts) wc) = Some r"
      using Some by (simp add: Let_def split: prod.splits)
    have b: "(r = q \<or> in_tables cls ts r \<and> hit rs f r) \<and> prio rs q \<le> prio rs r
      \<and> (\<forall>r'. in_tables cls ts r' \<longrightarrow> hit rs f r' \<longrightarrow> prio rs r' \<le> prio rs r)"
      using Cons.prems by (intro lookup_better_correct) (auto simp: r_def)
    then have "in_tables cls (t # ts) r" "hit rs f r" using m(1,2) by auto
    moreover have "prio rs r' \<le> prio rs r" if "in_tables cls (t # ts) r'" "hit rs f r'" for r'
      using that b m(3) [of r'] by auto
    ultimately show ?thesis unfolding e by simp
  qed
qed auto

lemma in_cls_rules: "r \<in> set (cls_rules cls) \<longleftrightarrow> in_tables cls (hmap_elems (tables cls)) r"
  by (simp add: cls_rules_def)

lemma cls_inv_tables_priority: "cls_inv rs cls \<Longrightarrow> set (tables_priority cls) = set (hmap_elems (tables cls))"
  by (metis cls_inv_def tables_inv_def set_mset_mset)

lemma classifier_lookup_best:
  assumes "cls_inv rs cls"
  shows "case fst (classifier_lookup rs cls f wc) of
      None \<Rightarrow> \<forall>r \<in> set (cls_rules cls). \<not> hit rs f r
    | Some r \<Rightarrow> r \<in> set (cls_rules cls) \<and> hit rs f r
        \<and> (\<forall>r' \<in> set (cls_rules cls). hit rs f r' \<longrightarrow> prio rs r' \<le> prio rs r)"
proof -
  have s: "sorted_wrt (\<lambda>t u. max_priority (tstore cls u) \<le> max_priority (tstore cls t)) (tables_priority cls)"
    using assms by (simp add: cls_inv_def tables_inv_def)
  have t: "\<forall>t \<in> set (tables_priority cls). table_inv rs (tstore cls t)"
    using assms cls_inv_tables_priority [OF assms] by (auto intro: cls_inv_table)
  show ?thesis
    using lookup_first_correct [OF t s, of f wc]
    unfolding classifier_lookup_def cls_inv_tables_priority [OF assms] in_cls_rules
    by (auto split: option.splits simp: in_cls_rules)
qed

subsection \<open>The bits a lookup depends on\<close>

lemma equal_flow_cong:
  assumes "minimask_wf m" and "agree f g (mask_of m)"
  shows "miniflow_equal_flow_in_minimask a f m = miniflow_equal_flow_in_minimask a g m"
  unfolding miniflow_equal_flow_in_minimask_def mask_words_eq [OF assms(1)] xor_and_zero
  using assms by (auto simp: agree_def expand_nth)

lemma find_match_cong:
  "minimask_wf (t_mask tb) \<Longrightarrow> agree f g (mask_of (t_mask tb)) \<Longrightarrow> find_match rs tb f = find_match rs tb g"
  unfolding find_match_def Let_def by (simp add: agree_hash [of _ f g] equal_flow_cong [of _ f g])

text \<open>Every bit of the first set of wildcards is in the second.\<close>

definition wc_le :: "flow_wildcards \<Rightarrow> flow_wildcards \<Rightarrow> bool" where
  "wc_le v w \<longleftrightarrow> flow_wf (wc_masks v) \<and> flow_wf (wc_masks w)
     \<and> (\<forall>c < FLOW_U32S. wc_masks v ! c AND wc_masks w ! c = wc_masks v ! c)"

lemma and_sub_trans: "x AND y = x \<Longrightarrow> y AND z = y \<Longrightarrow> x AND z = (x :: u32)"
  by (metis and.assoc)

lemma wc_le_trans: "wc_le u v \<Longrightarrow> wc_le v w \<Longrightarrow> wc_le u w"
  unfolding wc_le_def using and_sub_trans by metis

lemma agree_sub:
  assumes "\<And>c. c < FLOW_U32S \<Longrightarrow> m ! c AND m' ! c = m ! c" and "agree f g m'"
  shows "agree f g m"
  unfolding agree_def
proof (intro allI impI)
  fix c
  assume c: "c < FLOW_U32S"
  have "f ! c AND m ! c = (f ! c AND m' ! c) AND m ! c" for f :: flow
  proof -
    have "f ! c AND m ! c = f ! c AND (m ! c AND m' ! c)" using assms(1) [OF c] by simp
    then show ?thesis by (simp only: and.assoc and.commute and.left_commute)
  qed
  with assms(2) c show "f ! c AND m ! c = g ! c AND m ! c" by (simp add: agree_def)
qed

lemma agree_wc_le: "wc_le \<lparr>wc_masks = m\<rparr> w \<Longrightarrow> agree f g (wc_masks w) \<Longrightarrow> agree f g m"
  by (rule agree_sub [of m "wc_masks w"]) (simp_all add: wc_le_def)

lemma fold_wc_le:
  assumes "minimask_wf (t_mask tb)" and "flow_wf (wc_masks w)"
  defines "w' \<equiv> flow_wildcards_fold_minimask w (t_mask tb)"
  shows "wc_le w w'" and "wc_le \<lparr>wc_masks = mask_of (t_mask tb)\<rparr> w'"
proof -
  have o: "x AND (x OR y) = x" "y AND (x OR y) = y" for x y :: u32
    by (rule bit_word_eqI, auto simp: bit_simps)+
  show "wc_le w w'" "wc_le \<lparr>wc_masks = mask_of (t_mask tb)\<rparr> w'"
    using fold_minimask_nth(1) [OF assms(1,2)] fold_minimask_nth(2) [OF assms(1,2), of 0] assms(1,2)
    unfolding w'_def wc_le_def by (auto simp: o FLOW_U32S_eq)
qed

lemma lookup_better_wc:
  assumes "\<forall>t \<in> set ts. minimask_wf (t_mask (tstore cls t))" and "flow_wf (wc_masks w)"
    and "lookup_better rs cls f ts best (Some w) = (r, wc')"
  shows "\<exists>w'. wc' = Some w' \<and> wc_le w w'
    \<and> (\<forall>g v. agree f g (wc_masks w') \<longrightarrow> fst (lookup_better rs cls g ts best v) = r)"
  using assms
proof (induction ts arbitrary: best w)
  case Nil
  then show ?case by (auto simp: wc_le_def)
next
  case (Cons t ts)
  let ?tb = "tstore cls t"
  let ?w = "flow_wildcards_fold_minimask w (t_mask ?tb)"
  have m: "minimask_wf (t_mask ?tb)" using Cons.prems(1) by simp
  show ?case
  proof (cases "max_priority ?tb \<le> prio rs best")
    case True
    with Cons.prems show ?thesis by (auto simp: wc_le_def Let_def)
  next
    case False
    define best' where "best' = (case find_match rs ?tb f of
        Some q \<Rightarrow> if prio rs q > prio rs best then q else best | None \<Rightarrow> best)"
    note le = fold_wc_le [OF m Cons.prems(2)]
    have step: "lookup_better rs cls g (t # ts) best v = lookup_better rs cls g ts best' (fold_wc v ?tb)"
      if "find_match rs ?tb g = find_match rs ?tb f" for g v
      using False that by (auto simp: Let_def best'_def split: option.splits)
    have e: "lookup_better rs cls f ts best' (Some ?w) = (r, wc')"
      using Cons.prems(3) step [of f "Some w"] by (simp add: fold_wc_def)
    have wf: "flow_wf (wc_masks ?w)" using le(1) by (simp add: wc_le_def)
    have "\<exists>w'. wc' = Some w' \<and> wc_le ?w w'
        \<and> (\<forall>g v. agree f g (wc_masks w') \<longrightarrow> fst (lookup_better rs cls g ts best' v) = r)"
      by (rule Cons.IH [OF _ wf e]) (use Cons.prems(1) in simp)
    then obtain w' where w': "wc' = Some w'" "wc_le ?w w'"
      "\<forall>g v. agree f g (wc_masks w') \<longrightarrow> fst (lookup_better rs cls g ts best' v) = r"
      by blast
    have "fst (lookup_better rs cls g (t # ts) best v) = r" if "agree f g (wc_masks w')" for g v
    proof -
      have "wc_le \<lparr>wc_masks = mask_of (t_mask ?tb)\<rparr> w'" using le(2) w'(2) by (rule wc_le_trans)
      then have "agree f g (mask_of (t_mask ?tb))" using that by (rule agree_wc_le)
      then have "find_match rs ?tb g = find_match rs ?tb f" using find_match_cong [OF m] by simp
      then have "lookup_better rs cls g (t # ts) best v = lookup_better rs cls g ts best' (fold_wc v ?tb)" by (rule step)
      with w'(3) that show ?thesis by metis
    qed
    then show ?thesis using w'(1) wc_le_trans [OF le(1) w'(2)] by blast
  qed
qed

lemma lookup_first_wc:
  assumes "\<forall>t \<in> set ts. minimask_wf (t_mask (tstore cls t))" and "flow_wf (wc_masks w)"
    and "lookup_first rs cls f ts (Some w) = (r, wc')"
  shows "\<exists>w'. wc' = Some w' \<and> wc_le w w'
    \<and> (\<forall>g v. agree f g (wc_masks w') \<longrightarrow> fst (lookup_first rs cls g ts v) = r)"
  using assms
proof (induction ts arbitrary: w)
  case Nil
  then show ?case by (auto simp: wc_le_def)
next
  case (Cons t ts)
  let ?tb = "tstore cls t"
  let ?w = "flow_wildcards_fold_minimask w (t_mask ?tb)"
  have m: "minimask_wf (t_mask ?tb)" using Cons.prems(1) by simp
  note le = fold_wc_le [OF m Cons.prems(2)]
  have wf: "flow_wf (wc_masks ?w)" using le(1) by (simp add: wc_le_def)
  have same: "find_match rs ?tb g = find_match rs ?tb f" if "wc_le ?w w'" "agree f g (wc_masks w')" for g w'
  proof -
    have "wc_le \<lparr>wc_masks = mask_of (t_mask ?tb)\<rparr> w'" using le(2) that(1) by (rule wc_le_trans)
    then have "agree f g (mask_of (t_mask ?tb))" using that(2) by (rule agree_wc_le)
    then show ?thesis using find_match_cong [OF m] by simp
  qed
  show ?case
  proof (cases "find_match rs ?tb f")
    case None
    then have e: "lookup_first rs cls f ts (Some ?w) = (r, wc')"
      using Cons.prems(3) by (simp add: Let_def fold_wc_def)
    have "\<exists>w'. wc' = Some w' \<and> wc_le ?w w'
        \<and> (\<forall>g v. agree f g (wc_masks w') \<longrightarrow> fst (lookup_first rs cls g ts v) = r)"
      by (rule Cons.IH [OF _ wf e]) (use Cons.prems(1) in simp)
    then obtain w' where w': "wc' = Some w'" "wc_le ?w w'"
      "\<forall>g v. agree f g (wc_masks w') \<longrightarrow> fst (lookup_first rs cls g ts v) = r"
      by blast
    have "fst (lookup_first rs cls g (t # ts) v) = r" if "agree f g (wc_masks w')" for g v
      using None same [OF w'(2) that] w'(3) that by (simp add: Let_def)
    with w'(1) wc_le_trans [OF le(1) w'(2)] show ?thesis by blast
  next
    case (Some q)
    then obtain b where e: "lookup_better rs cls f ts q (Some ?w) = (b, wc')" "r = Some b"
      using Cons.prems(3) by (auto simp: Let_def fold_wc_def split: prod.splits)
    have "\<exists>w'. wc' = Some w' \<and> wc_le ?w w'
        \<and> (\<forall>g v. agree f g (wc_masks w') \<longrightarrow> fst (lookup_better rs cls g ts q v) = b)"
      by (rule lookup_better_wc [OF _ wf e(1)]) (use Cons.prems(1) in simp)
    then obtain w' where w': "wc' = Some w'" "wc_le ?w w'"
      "\<forall>g v. agree f g (wc_masks w') \<longrightarrow> fst (lookup_better rs cls g ts q v) = b"
      by blast
    have "fst (lookup_first rs cls g (t # ts) v) = r" if "agree f g (wc_masks w')" for g v
      using Some same [OF w'(2) that] w'(3) [rule_format, OF that, of "fold_wc v ?tb"] e(2)
      by (auto simp: Let_def split: prod.splits)
    with w'(1) wc_le_trans [OF le(1) w'(2)] show ?thesis by blast
  qed
qed

section \<open>Exact searches\<close>

lemma rules_in_list_sorted: "sorted_wrt (\<lambda>a b. prio rs b < prio rs a) ring \<Longrightarrow> rules_in_list rs ring = ring"
  by (induction rs ring rule: rules_in_list.induct) auto

lemma rules_in_list_ring: "ring_ok rs m ring \<Longrightarrow> rules_in_list rs ring = ring"
  by (simp add: ring_ok_def rules_in_list_sorted)

lemma scan_exact_Some:
  "scan_exact rs p rules = Some r \<Longrightarrow> r \<in> set rules \<and> prio rs r = p"
  by (induction rules) (auto split: if_splits)

lemma scan_exact_found:
  assumes "sorted_wrt (\<lambda>a b. prio rs b < prio rs a) ring" and "r \<in> set ring"
  shows "scan_exact rs (prio rs r) ring = Some r"
  using assms by (induction ring) auto

text \<open>The key of a rule: its match and its priority, that is, the rule as a value.\<close>

lemma table_rules_ok:
  assumes "table_inv rs tb" and "r \<in> set (table_rules tb)"
  shows "rule_ok rs r" and "rule_mask rs r = t_mask tb"
  using assms ring_ok_rule(1,2) by (auto simp: table_rules_ring table_inv_def dest: rings_inv_ring)

lemma cls_rules_ok: "cls_inv rs cls \<Longrightarrow> r \<in> set (cls_rules cls) \<Longrightarrow> rule_ok rs r"
  unfolding in_cls_rules using table_rules_ok(1) cls_inv_table by blast

lemma cls_inv_mask_inj:
  "cls_inv rs cls \<Longrightarrow> t \<in> set (hmap_elems (tables cls)) \<Longrightarrow> u \<in> set (hmap_elems (tables cls)) \<Longrightarrow>
   t_mask (tstore cls t) = t_mask (tstore cls u) \<Longrightarrow> t = u"
  unfolding cls_inv_def tables_inv_def by (blast dest: inj_onD)

lemma rule_ok_wf:
  "rule_ok rs r \<Longrightarrow> minimatch_wf (cr_match (rs r))" "rule_ok rs r \<Longrightarrow> miniflow_wf (rule_flow rs r)"
  "rule_ok rs r \<Longrightarrow> minimask_wf (rule_mask rs r)"
  by (auto simp: rule_ok_def minimatch_wf_def)

text \<open>Where a rule of the classifier is found by the two searches.\<close>

lemma locate_rule:
  assumes "cls_inv rs cls" and "r \<in> set (cls_rules cls)"
  obtains t ring where "find_table cls (rule_mask rs r) = Some t" "t \<in> set (hmap_elems (tables cls))"
    "t_mask (tstore cls t) = rule_mask rs r" "r \<in> set (table_rules (tstore cls t))"
    "find_equal rs (tstore cls t) (rule_flow rs r) (rule_node_hash rs r) = Some ring"
    "ring \<in> set (hmap_elems (t_rules (tstore cls t)))" "r \<in> set ring" "ring_ok rs (rule_mask rs r) ring"
proof -
  note wf = rule_ok_wf [OF cls_rules_ok [OF assms]]
  obtain t where t: "t \<in> set (hmap_elems (tables cls))" "r \<in> set (table_rules (tstore cls t))"
    using assms(2) by (auto simp: in_cls_rules)
  note tinv = cls_inv_table [OF assms(1) t(1)]
  have tm: "t_mask (tstore cls t) = rule_mask rs r" using table_rules_ok(2) [OF tinv t(2)] by simp
  obtain t' where t': "find_table cls (rule_mask rs r) = Some t'"
    using find_table_None [OF assms(1) wf(3) _ t(1)] tm by (cases "find_table cls (rule_mask rs r)") auto
  note ft = find_table_Some [OF assms(1) wf(3) t']
  have "t' = t" by (rule cls_inv_mask_inj [OF assms(1) ft(1) t(1)]) (simp add: ft(2) tm)
  have inv: "rings_inv rs (t_mask (tstore cls t)) (t_rules (tstore cls t))" using tinv by (simp add: table_inv_def)
  obtain ring where ring: "ring \<in> set (hmap_elems (t_rules (tstore cls t)))" "r \<in> set ring"
    using t(2) by (auto simp: table_rules_ring)
  note ok = rings_inv_ring [OF inv ring(1)]
  have rf: "rule_flow rs (hd ring) = rule_flow rs r" using ring_ok_rule(3) [OF ok ring(2)] by simp
  have h: "rule_node_hash rs r = miniflow_hash_in_minimask (rule_flow rs r) (t_mask (tstore cls t)) 0"
    by (simp add: rule_node_hash_def tm)
  obtain ring' where ring': "find_equal rs (tstore cls t) (rule_flow rs r) (rule_node_hash rs r) = Some ring'"
    using find_equal_None [OF inv wf(2) _ ring(1)] rf
    by (cases "find_equal rs (tstore cls t) (rule_flow rs r) (rule_node_hash rs r)") (auto simp: h)
  note fe = find_equal_Some [OF inv wf(2) ring' [unfolded h]]
  have "ring' = ring" using rings_unique [OF inv fe(1) ring(1)] fe(2) rf by simp
  show ?thesis
    by (rule that [of t ring])
      (use t' \<open>t' = t\<close> t tm ring' \<open>ring' = ring\<close> ring ok in simp_all)
qed

lemma rule_eqI:
  fixes r r' :: cls_rule
  shows "mm_flow (cr_match r) = mm_flow (cr_match r') \<Longrightarrow> mm_mask (cr_match r) = mm_mask (cr_match r') \<Longrightarrow>
    priority r = priority r' \<Longrightarrow> r = r'"
  by (cases r, cases r', cases "cr_match r", cases "cr_match r'") simp

lemma find_rule_exactly_iff:
  assumes "cls_inv rs cls" and "minimatch_wf (cr_match target)"
  shows "classifier_find_rule_exactly rs cls target = Some r \<longleftrightarrow> r \<in> set (cls_rules cls) \<and> rs r = target"
proof
  have wf: "miniflow_wf (mm_flow (cr_match target))" "minimask_wf (mm_mask (cr_match target))"
    using assms(2) by (auto simp: minimatch_wf_def)
  assume "classifier_find_rule_exactly rs cls target = Some r"
  then obtain t ring where t: "find_table cls (mm_mask (cr_match target)) = Some t"
    and ring: "find_equal rs (tstore cls t) (mm_flow (cr_match target))
      (miniflow_hash_in_minimask (mm_flow (cr_match target)) (mm_mask (cr_match target)) 0) = Some ring"
    and sc: "scan_exact rs (priority target) (rules_in_list rs ring) = Some r"
    by (auto simp: classifier_find_rule_exactly_def Let_def split: option.splits if_splits)
  note ft = find_table_Some [OF assms(1) wf(2) t]
  have inv: "rings_inv rs (t_mask (tstore cls t)) (t_rules (tstore cls t))"
    using cls_inv_table [OF assms(1) ft(1)] by (simp add: table_inv_def)
  have fe: "ring \<in> set (hmap_elems (t_rules (tstore cls t)))" "rule_flow rs (hd ring) = mm_flow (cr_match target)"
    using find_equal_Some [OF inv wf(1)] ring ft(2) by auto
  note ok = rings_inv_ring [OF inv fe(1)]
  have r: "r \<in> set ring" "prio rs r = priority target"
    using scan_exact_Some [OF sc] rules_in_list_ring [OF ok] by auto
  have "rs r = target"
    using ring_ok_rule [OF ok r(1)] fe(2) ft(2) r(2) by (intro rule_eqI) auto
  moreover have "r \<in> set (cls_rules cls)" using ft(1) fe(1) r(1) by (auto simp: in_cls_rules table_rules_ring)
  ultimately show "r \<in> set (cls_rules cls) \<and> rs r = target" by simp
next
  assume "r \<in> set (cls_rules cls) \<and> rs r = target"
  then have r: "r \<in> set (cls_rules cls)" "target = rs r" by auto
  obtain t ring where l: "find_table cls (rule_mask rs r) = Some t" "t \<in> set (hmap_elems (tables cls))"
    "t_mask (tstore cls t) = rule_mask rs r" "r \<in> set (table_rules (tstore cls t))"
    "find_equal rs (tstore cls t) (rule_flow rs r) (rule_node_hash rs r) = Some ring"
    "ring \<in> set (hmap_elems (t_rules (tstore cls t)))" "r \<in> set ring" "ring_ok rs (rule_mask rs r) ring"
    by (rule locate_rule [OF assms(1) r(1)])
  have "scan_exact rs (prio rs r) ring = Some r" using l(7,8) by (intro scan_exact_found) (simp_all add: ring_ok_def)
  then show "classifier_find_rule_exactly rs cls target = Some r"
    using l(1,5) table_max [OF cls_inv_table [OF assms(1) l(2)] l(4)] rules_in_list_ring [OF l(8)]
    by (simp add: classifier_find_rule_exactly_def Let_def r(2) rule_node_hash_def)
qed

lemma cls_rules_key_inj:
  assumes "cls_inv rs cls" and "r \<in> set (cls_rules cls)" and "r' \<in> set (cls_rules cls)" and "rs r = rs r'"
  shows "r = r'"
  using find_rule_exactly_iff [OF assms(1) rule_ok_wf(1) [OF cls_rules_ok [OF assms(1,2)]]] assms(2-4)
  by (metis option.inject)

section \<open>Overlaps\<close>

lemma ring_overlaps_iff:
  "sorted_wrt (\<lambda>a b. prio rs b < prio rs a) ring \<Longrightarrow> ring_overlaps rs target m ring \<longleftrightarrow>
     (\<exists>r \<in> set ring. prio rs r = priority target
        \<and> miniflow_equal_in_minimask (mm_flow (cr_match target)) (rule_flow rs r) m)"
proof (induction ring)
  case (Cons r ring)
  have "\<not> prio rs q = priority target" if "prio rs r \<le> priority target" "q \<in> set ring" for q
    using Cons.prems that by auto
  with Cons show ?case by auto
qed simp

text \<open>Two matches agree under the combination of their masks exactly when some packet matches both.\<close>

lemma common_packet:
  assumes "minimatch_wf a" and "minimatch_wf b"
  shows "miniflow_equal_in_minimask (mm_flow a) (mm_flow b) (minimask_combine (mm_mask a) (mm_mask b)) \<longleftrightarrow>
    (\<exists>f. flow_wf f \<and> matches a f \<and> matches b f)"
proof -
  let ?x = "miniflow_expand (mm_flow a)" and ?y = "miniflow_expand (mm_flow b)"
  let ?p = "mask_of (mm_mask a)" and ?q = "mask_of (mm_mask b)"
  have wf: "miniflow_wf (mm_flow a)" "miniflow_wf (mm_flow b)" "minimask_wf (mm_mask a)" "minimask_wf (mm_mask b)"
    using assms by (auto simp: minimatch_wf_def)
  have "miniflow_equal_in_minimask (mm_flow a) (mm_flow b) (minimask_combine (mm_mask a) (mm_mask b)) \<longleftrightarrow>
      (\<forall>c < FLOW_U32S. ?x ! c AND (?p ! c AND ?q ! c) = ?y ! c AND (?p ! c AND ?q ! c))"
    using wf by (simp add: equal_in_minimask agree_def expand_combine)
  also have "\<dots> \<longleftrightarrow> (\<exists>f. flow_wf f \<and> matches a f \<and> matches b f)"
  proof
    assume eq: "\<forall>c < FLOW_U32S. ?x ! c AND (?p ! c AND ?q ! c) = ?y ! c AND (?p ! c AND ?q ! c)"
    let ?f = "map (\<lambda>c. (?x ! c AND ?p ! c) OR (?y ! c AND ?q ! c)) [0..<FLOW_U32S]"
    have w: "x AND p = ((x AND p) OR (y AND q)) AND p" "y AND q = ((x AND p) OR (y AND q)) AND q"
      if "x AND (p AND q) = y AND (p AND q)" for x y p q :: u32
    proof -
      have "bit (x AND (p AND q)) i = bit (y AND (p AND q)) i" for i using that by simp
      then have "bit p i \<Longrightarrow> bit q i \<Longrightarrow> bit x i = bit y i" for i by (auto simp: bit_simps)
      then show "x AND p = ((x AND p) OR (y AND q)) AND p" "y AND q = ((x AND p) OR (y AND q)) AND q"
        by (auto intro!: bit_word_eqI simp: bit_simps)
    qed
    have "matches a ?f" "matches b ?f"
      unfolding matches_def agree_def using w(1) [OF eq [rule_format]] w(2) [OF eq [rule_format]] by simp_all
    then show "\<exists>f. flow_wf f \<and> matches a f \<and> matches b f" by (intro exI [of _ ?f]) simp
  next
    assume "\<exists>f. flow_wf f \<and> matches a f \<and> matches b f"
    then obtain f where f: "\<forall>c < FLOW_U32S. ?x ! c AND ?p ! c = f ! c AND ?p ! c"
      "\<forall>c < FLOW_U32S. ?y ! c AND ?q ! c = f ! c AND ?q ! c"
      unfolding matches_def agree_def by blast
    have v: "x AND (p AND q) = y AND (p AND q)" if "x AND p = z AND p" "y AND q = z AND q" for x y z p q :: u32
    proof -
      have "bit (x AND p) i = bit (z AND p) i" "bit (y AND q) i = bit (z AND q) i" for i using that by simp_all
      then have "bit p i \<Longrightarrow> bit q i \<Longrightarrow> bit x i = bit y i" for i by (auto simp: bit_simps)
      then show ?thesis by (auto intro!: bit_word_eqI simp: bit_simps)
    qed
    show "\<forall>c < FLOW_U32S. ?x ! c AND (?p ! c AND ?q ! c) = ?y ! c AND (?p ! c AND ?q ! c)"
      using v [OF f(1) [rule_format] f(2) [rule_format]] by blast
  qed
  finally show ?thesis .
qed

lemma tables_overlap_iff:
  assumes "\<forall>t \<in> set ts. table_inv rs (tstore cls t)"
    and "sorted_wrt (\<lambda>t u. max_priority (tstore cls u) \<le> max_priority (tstore cls t)) ts"
    and "minimatch_wf (cr_match target)"
  shows "tables_overlap rs cls target ts \<longleftrightarrow> (\<exists>r. in_tables cls ts r \<and> prio rs r = priority target
    \<and> (\<exists>f. flow_wf f \<and> matches (cr_match target) f \<and> hit rs f r))"
  using assms(1,2)
proof (induction ts)
  case (Cons t ts)
  let ?tb = "tstore cls t"
  have inv: "table_inv rs ?tb" "rings_inv rs (t_mask ?tb) (t_rules ?tb)" using Cons.prems(1) by (auto simp: table_inv_def)
  show ?case
  proof (cases "priority target > max_priority ?tb")
    case True
    have "prio rs r \<noteq> priority target" if h: "in_tables cls (t # ts) r" for r
    proof -
      from h obtain u where u: "u \<in> set (t # ts)" "r \<in> set (table_rules (tstore cls u))" by blast
      then have "prio rs r \<le> max_priority (tstore cls u)" using Cons.prems(1) table_max by blast
      also have "max_priority (tstore cls u) \<le> max_priority ?tb" using Cons.prems(2) u(1) by auto
      finally show ?thesis using True by auto
    qed
    with True show ?thesis by (auto simp: Let_def)
  next
    case False
    let ?m = "minimask_combine (mm_mask (cr_match target)) (t_mask ?tb)"
    have ro: "ring_overlaps rs target ?m (rules_in_list rs ring) \<longleftrightarrow> (\<exists>r \<in> set ring. prio rs r = priority target
        \<and> miniflow_equal_in_minimask (mm_flow (cr_match target)) (rule_flow rs r) ?m)"
      if "ring \<in> set (hmap_elems (t_rules ?tb))" for ring
      using rings_inv_ring [OF inv(2) that] by (simp add: ring_overlaps_iff ring_ok_def rules_in_list_sorted)
    have "(\<exists>ring \<in> set (hmap_elems (t_rules ?tb)). ring_overlaps rs target ?m (rules_in_list rs ring)) \<longleftrightarrow>
      (\<exists>r \<in> set (table_rules ?tb). prio rs r = priority target
        \<and> miniflow_equal_in_minimask (mm_flow (cr_match target)) (rule_flow rs r) ?m)"
      by (simp add: ro table_rules_def cong: bex_cong)
    also have "\<dots> \<longleftrightarrow> (\<exists>r \<in> set (table_rules ?tb). prio rs r = priority target
        \<and> (\<exists>f. flow_wf f \<and> matches (cr_match target) f \<and> hit rs f r))"
      using table_rules_ok [OF inv(1)] common_packet [OF assms(3)] rule_ok_wf(1) by metis
    finally show ?thesis using False Cons by (auto simp: Let_def)
  qed
qed simp

end
