(* ===== verification/Classifier_Update.thy ===== *)
theory Classifier_Update
  imports Classifier_Correct
begin

text \<open>
  Insertion, replacement and removal of rules: each keeps the classifier's invariant and changes
  its set of rules by exactly the rule concerned. The lemmas follow the layers of the code: the
  ring of identical matches, the map of rings of a table, the counters of a table, the order of
  the tables, and the classifier.
\<close>

section \<open>Rings\<close>

abbreviation falling :: "rule_store \<Rightarrow> ring \<Rightarrow> bool" where
  "falling rs \<equiv> sorted_wrt (\<lambda>a b. prio rs b < prio rs a)"

text \<open>How the multiset of rules changes when \<open>new\<close> goes in and \<open>old\<close>, if any, goes out.\<close>

definition exchange :: "ptr \<Rightarrow> ptr option \<Rightarrow> ptr multiset \<Rightarrow> ptr multiset \<Rightarrow> bool" where
  "exchange new old ms ms' \<longleftrightarrow> (case old of
       None \<Rightarrow> ms' = add_mset new ms
     | Some q \<Rightarrow> q \<in># ms \<and> ms' = add_mset new (ms - {#q#}))"

lemma exchange_plus: "exchange new old ms ms' \<Longrightarrow> exchange new old (ms + ns) (ms' + ns)"
  by (auto simp: exchange_def split: option.splits)

lemma ring_insert_falling:
  assumes "falling rs ring" and "ring_insert rs new ring = (ring', old)"
  shows "falling rs ring' \<and> exchange new old (mset ring) (mset ring')
    \<and> (\<forall>q. old = Some q \<longrightarrow> prio rs q = prio rs new)"
  using assms
proof (induction ring arbitrary: ring')
  case (Cons r rest)
  show ?case
  proof (cases "prio rs new \<ge> prio rs r")
    case True
    then have "prio rs new = prio rs r \<or> prio rs r < prio rs new \<and> prio rs new \<noteq> prio rs r"
      by (auto simp: le_less)
    moreover have "\<forall>x \<in> set rest. prio rs x < prio rs new"
      using Cons.prems(1) True by (auto intro: less_le_trans)
    ultimately show ?thesis using True Cons.prems by (auto simp: exchange_def)
  next
    case False
    show ?thesis
    proof (cases rest)
      case Nil
      with False Cons.prems show ?thesis by (auto simp: exchange_def)
    next
      case (Cons n ns)
      obtain rest' where r: "ring_insert rs new rest = (rest', old)" "ring' = r # rest'"
        using False Cons Cons.prems by (auto split: prod.splits if_splits)
      have ih: "falling rs rest' \<and> exchange new old (mset rest) (mset rest')
          \<and> (\<forall>q. old = Some q \<longrightarrow> prio rs q = prio rs new)"
        using Cons.prems(1) by (intro Cons.IH [OF _ r(1)]) simp
      then have "set rest' \<subseteq> insert new (set rest)"
        by (auto simp: exchange_def simp flip: set_mset_mset split: option.splits dest: in_diffD)
      moreover have "\<forall>q \<in> set rest. prio rs q < prio rs r" using Cons.prems(1) by simp
      ultimately have "\<forall>q \<in> set rest'. prio rs q < prio rs r" using False by auto
      with ih r(2) show ?thesis
        by (auto simp: exchange_def split: option.splits)
    qed
  qed
qed (simp add: exchange_def)

lemma ring_insert_ok:
  assumes "ring_ok rs m ring" and "rule_ok rs new" and "rule_mask rs new = m"
    and "rule_flow rs new = rule_flow rs (hd ring)" and "ring_insert rs new ring = (ring', old)"
  shows "ring_ok rs m ring'" and "rule_flow rs (hd ring') = rule_flow rs new"
    and "exchange new old (mset ring) (mset ring')" and "old = Some q \<Longrightarrow> q \<in> set ring \<and> prio rs q = prio rs new"
proof -
  have f: "falling rs ring" using assms(1) by (simp add: ring_ok_def)
  note i = ring_insert_falling [OF f assms(5)]
  show x: "exchange new old (mset ring) (mset ring')" using i by blast
  show "old = Some q \<Longrightarrow> q \<in> set ring \<and> prio rs q = prio rs new" using i by (auto simp: exchange_def)
  have sub: "set ring' \<subseteq> insert new (set ring)" "new \<in> set ring'"
    using x by (auto simp: exchange_def simp flip: set_mset_mset split: option.splits dest: in_diffD)
  have all: "rule_ok rs q \<and> rule_mask rs q = m \<and> rule_flow rs q = rule_flow rs new" if "q \<in> set ring'" for q
  proof (cases "q = new")
    case False
    then have "q \<in> set ring" using that sub(1) by auto
    from ring_ok_rule [OF assms(1) this] assms(4) show ?thesis by simp
  qed (use assms(2,3) in simp)
  moreover have "hd ring' \<in> set ring'" using sub(2) by (cases ring') auto
  ultimately show h: "rule_flow rs (hd ring') = rule_flow rs new" by blast
  have "ring' \<noteq> []" using sub(2) by auto
  then show "ring_ok rs m ring'" unfolding ring_ok_def h using i all by metis
qed

section \<open>Counters\<close>

lemma filter_mset_none: "(\<And>r. r \<in># ms \<Longrightarrow> \<not> P r) \<Longrightarrow> {#r \<in># ms. P r#} = {#}"
  by (induction ms) auto

lemma prio_count_simps [simp]:
  "prio_count rs {#} p = 0"
  "prio_count rs (add_mset r ms) p = prio_count rs ms p + (if prio rs r = p then 1 else 0)"
  "prio_count rs (ms + ns) p = prio_count rs ms p + prio_count rs ns p"
  by (simp_all add: prio_count_def)

lemma prio_count_nonneg [simp]: "0 \<le> prio_count rs ms p"
  by (simp add: prio_count_def)

lemma prio_count_none: "(\<And>r. r \<in># ms \<Longrightarrow> prio rs r \<noteq> p) \<Longrightarrow> prio_count rs ms p = 0"
  by (simp add: prio_count_def filter_mset_none)

lemma prio_ok_insert:
  fixes new :: ptr
  assumes "prio_ok rs ms mp mc"
  defines "p \<equiv> prio rs new"
  shows "prio_ok rs (add_mset new ms) (if p > mp then p else mp)
    (if p = mp then mc + 1 else if p > mp then 1 else mc)"
proof -
  have "prio_count rs ms p = 0" if "p > mp"
    using assms(1) that by (intro prio_count_none) (auto simp: prio_ok_def)
  then show ?thesis using assms(1) unfolding p_def prio_ok_def by (auto simp: less_imp_le)
qed

lemma prio_ok_exchange:
  assumes "prio_ok rs ms mp mc" and "q \<in># ms" and "prio rs q = prio rs new"
  shows "prio_ok rs (add_mset new (ms - {#q#})) mp mc"
proof -
  obtain ns where "ms = add_mset q ns" using assms(2) by (blast dest: multi_member_split)
  with assms show ?thesis by (cases "prio rs q = mp") (auto simp: prio_ok_def)
qed

lemma prio_ok_remove:
  assumes "prio_ok rs (add_mset r ms) mp mc" and "prio rs r = mp \<Longrightarrow> mc - 1 \<noteq> 0"
  shows "prio_ok rs ms mp (if prio rs r = mp then mc - 1 else mc)"
  using assms prio_count_nonneg [of rs ms mp] by (cases "prio rs r = mp") (auto simp: prio_ok_def)

lemma recount_heads:
  assumes "prio_ok rs ms mp mc"
  shows "case fold (recount_step rs) rings (mp, mc) of (mp', mc') \<Rightarrow>
    prio_ok rs (ms + mset (map hd rings)) mp' mc'"
  using assms
proof (induction rings arbitrary: ms mp mc)
  case (Cons ring rings)
  obtain mp1 mc1 where s: "recount_step rs ring (mp, mc) = (mp1, mc1)" by force
  have "prio_ok rs (add_mset (hd ring) ms) mp1 mc1"
    using prio_ok_insert [OF Cons.prems, of "hd ring"] s
    by (auto simp: recount_step_def Let_def split: if_splits)
  from Cons.IH [OF this] s show ?case by simp
qed simp

text \<open>Counting the heads counts the table: the other rules of a ring have lower priority.\<close>

lemma prio_ok_heads:
  assumes "\<forall>ring \<in> set rings. ring_ok rs m ring" and "prio_ok rs (mset (map hd rings)) mp mc"
  shows "prio_ok rs (mset (concat rings)) mp mc"
proof -
  have le: "prio rs r \<le> mp" if "r \<in> set (concat rings)" for r
  proof -
    from that obtain ring where ring: "ring \<in> set rings" "r \<in> set ring" by auto
    then have "prio rs r \<le> prio rs (hd ring)" using assms(1) ring_ok_rule(4) by blast
    also have "\<dots> \<le> mp" using assms(2) ring(1) by (auto simp: prio_ok_def)
    finally show ?thesis .
  qed
  have "prio_count rs (mset (concat rings)) mp = prio_count rs (mset (map hd rings)) mp"
    using assms(1) le
  proof (induction rings)
    case (Cons ring rings)
    then have "falling rs ring" "ring \<noteq> []" by (auto simp: ring_ok_def)
    then obtain h t where ring: "ring = h # t" "\<forall>q \<in> set t. prio rs q < prio rs h" by (cases ring) auto
    then have "\<forall>q \<in> set t. prio rs q < mp" using Cons.prems(2) [of h] by auto
    then have "prio_count rs (mset t) mp = 0" by (intro prio_count_none) auto
    with Cons ring(1) show ?case by auto
  qed simp
  with le assms(2) show ?thesis by (auto simp: prio_ok_def)
qed

section \<open>Moving a table\<close>

lemma split_at:
  assumes "distinct ts" and "ts = xs @ t # ys"
  shows "before_table t ts = xs" "after_table t ts = ys"
  using assms by (auto simp: before_table_def after_table_def takeWhile_append dropWhile_append)

definition ordered :: "(ptr \<Rightarrow> u32) \<Rightarrow> ptr list \<Rightarrow> bool" where
  "ordered mp ts \<longleftrightarrow> sorted_wrt (\<lambda>t u. mp u \<le> mp t) ts"

lemma move_earlier_ordered:
  assumes "distinct ts" and "t \<in> set ts" and "ordered mp ts" and "mp t < p"
  shows "ordered (mp(t := p)) (move_earlier (mp(t := p)) p t ts)" and "mset (move_earlier (mp(t := p)) p t ts) = mset ts"
proof -
  obtain xs ys where ts: "ts = xs @ t # ys" using assms(2) by (blast dest: split_list)
  define K where "K = rev (dropWhile (\<lambda>u. \<not> mp u \<ge> p) (rev xs))"
  define P where "P = rev (takeWhile (\<lambda>u. \<not> mp u \<ge> p) (rev xs))"
  have t: "t \<notin> set xs" "t \<notin> set ys" using assms(1) ts by auto
  have xs: "xs = K @ P" unfolding K_def P_def by (metis rev_append rev_rev_ident takeWhile_dropWhile_id)
  have "takeWhile (\<lambda>u. \<not> (mp(t := p)) u \<ge> p) (rev xs) = takeWhile (\<lambda>u. \<not> mp u \<ge> p) (rev xs)"
    "dropWhile (\<lambda>u. \<not> (mp(t := p)) u \<ge> p) (rev xs) = dropWhile (\<lambda>u. \<not> mp u \<ge> p) (rev xs)"
    using t(1) by (auto intro!: takeWhile_cong dropWhile_cong)
  then have m: "move_earlier (mp(t := p)) p t ts = K @ t # P @ ys"
    unfolding move_earlier_def Let_def split_at [OF assms(1) ts] K_def P_def by simp
  then show "mset (move_earlier (mp(t := p)) p t ts) = mset ts" using xs by (simp add: ts)
  have o: "ordered mp (K @ P @ ys)" "\<forall>u \<in> set ys. mp u \<le> mp t"
    using assms(3) unfolding ts xs by (auto simp: ordered_def sorted_wrt_append)
  have k: "p \<le> mp u" if u: "u \<in> set K" for u
  proof -
    obtain v vs where d: "dropWhile (\<lambda>u. \<not> mp u \<ge> p) (rev xs) = v # vs"
      using u by (cases "dropWhile (\<lambda>u. \<not> mp u \<ge> p) (rev xs)") (auto simp: K_def)
    then have "mp v \<ge> p" by (metis hd_dropWhile list.distinct(1) list.sel(1))
    moreover have "K = rev vs @ [v]" using d by (simp add: K_def)
    then have "u = v \<or> mp v \<le> mp u" using o(1) u by (auto simp: ordered_def sorted_wrt_append)
    ultimately show ?thesis by auto
  qed
  have "mp u < p" if "u \<in> set P" for u using that by (auto simp: P_def dest: set_takeWhileD)
  then have low: "mp u < p" if "u \<in> set (P @ ys)" for u using that o(2) assms(4) by auto
  have t': "t \<notin> set K" "t \<notin> set P" using t(1) xs by auto
  have "ordered (mp(t := p)) (K @ P @ ys)"
    unfolding ordered_def by (rule sorted_wrt_mono_rel [OF _ o(1) [unfolded ordered_def]]) (use t(2) t' in auto)
  then show "ordered (mp(t := p)) (move_earlier (mp(t := p)) p t ts)"
    unfolding m using k low t(2) t' by (auto simp: ordered_def sorted_wrt_append less_imp_le)
qed

lemma move_later_ordered:
  assumes "distinct ts" and "t \<in> set ts" and "ordered mp ts" and "p \<le> mp t"
  shows "ordered (mp(t := p)) (move_later (mp(t := p)) p t ts)" and "mset (move_later (mp(t := p)) p t ts) = mset ts"
proof -
  obtain xs ys where ts: "ts = xs @ t # ys" using assms(2) by (blast dest: split_list)
  define P where "P = takeWhile (\<lambda>u. \<not> mp u \<le> p) ys"
  define K where "K = dropWhile (\<lambda>u. \<not> mp u \<le> p) ys"
  have t: "t \<notin> set xs" "t \<notin> set ys" using assms(1) ts by auto
  have ys: "ys = P @ K" unfolding K_def P_def by simp
  have "takeWhile (\<lambda>u. \<not> (mp(t := p)) u \<le> p) ys = takeWhile (\<lambda>u. \<not> mp u \<le> p) ys"
    "dropWhile (\<lambda>u. \<not> (mp(t := p)) u \<le> p) ys = dropWhile (\<lambda>u. \<not> mp u \<le> p) ys"
    using t(2) by (auto intro!: takeWhile_cong dropWhile_cong)
  then have m: "move_later (mp(t := p)) p t ts = xs @ P @ t # K"
    unfolding move_later_def Let_def split_at [OF assms(1) ts] K_def P_def by simp
  then show "mset (move_later (mp(t := p)) p t ts) = mset ts" using ys by (simp add: ts)
  have o: "ordered mp (xs @ P @ K)" "\<forall>u \<in> set xs. mp t \<le> mp u"
    using assms(3) unfolding ts ys by (auto simp: ordered_def sorted_wrt_append)
  have k: "mp u \<le> p" if u: "u \<in> set K" for u
  proof -
    obtain v vs where d: "K = v # vs" using u by (cases K) auto
    then have "mp v \<le> p" unfolding K_def by (metis hd_dropWhile list.distinct(1) list.sel(1))
    moreover have "u = v \<or> mp u \<le> mp v" using o(1) u d by (auto simp: ordered_def sorted_wrt_append)
    ultimately show ?thesis by auto
  qed
  have "p \<le> mp u" if "u \<in> set P" for u using that by (auto simp: P_def dest: set_takeWhileD)
  then have high: "p \<le> mp u" if "u \<in> set (xs @ P)" for u using that o(2) assms(4) by auto
  have t': "t \<notin> set K" "t \<notin> set P" using t(2) ys by auto
  have "ordered (mp(t := p)) (xs @ P @ K)"
    unfolding ordered_def by (rule sorted_wrt_mono_rel [OF _ o(1) [unfolded ordered_def]]) (use t(1) t' in auto)
  then show "ordered (mp(t := p)) (move_later (mp(t := p)) p t ts)"
    unfolding m using k high t(1) t' by (auto simp: ordered_def sorted_wrt_append)
qed

section \<open>The map of rings\<close>

lemma mset_map_elems: "mset (map g (hmap_elems h)) = image_mset (g \<circ> snd) (hmap_nodes h)"
  by (simp add: hmap_elems_def hmap_nodes_def comp_def)

lemma mset_concat_elems: "mset (concat (hmap_elems h)) = \<Sum>\<^sub># (image_mset (mset \<circ> snd) (hmap_nodes h))"
  by (simp only: mset_concat sum_mset_sum_list flip: mset_map_elems)

lemma mset_concat_cong: "mset xss = mset yss \<Longrightarrow> mset (concat xss) = mset (concat yss)"
  unfolding mset_concat sum_mset_sum_list [symmetric] mset_map by simp

lemma rings_inv_distinct: "rings_inv rs m h \<Longrightarrow> distinct (hmap_elems h)"
  by (auto simp: rings_inv_def distinct_map)

lemma rings_invI:
  assumes "equal_search.hashed_by rs h'"
    and "\<And>ring. ring \<in> set (hmap_elems h') \<Longrightarrow> ring_ok rs m ring"
    and "distinct (map (\<lambda>ring. rule_flow rs (hd ring)) (hmap_elems h'))"
  shows "rings_inv rs m h'"
  using assms by (simp add: rings_inv_def equal_search.hashed_by_def)

lemma rings_insert:
  assumes "rings_inv rs m h" and "ring_ok rs m ring"
    and "\<And>q. q \<in> set (hmap_elems h) \<Longrightarrow> rule_flow rs (hd q) \<noteq> rule_flow rs (hd ring)"
  shows "\<exists>h'. hmap_insert True h ring (ring_hash rs ring) = Some h' \<and> rings_inv rs m h'
    \<and> mset (concat (hmap_elems h')) = mset ring + mset (concat (hmap_elems h))"
proof -
  let ?g = "\<lambda>ring. rule_flow rs (hd ring)"
  obtain h' where h': "hmap_insert True h ring (ring_hash rs ring) = Some h'" "equal_search.hashed_by rs h'"
    and n: "hmap_nodes h' = add_mset (ring_hash rs ring, ring) (hmap_nodes h)"
    using equal_search.hashed_by_insert [OF rings_inv_hashed(1) [OF assms(1)]] by blast
  have "mset (map ?g (hmap_elems h')) = mset (?g ring # map ?g (hmap_elems h))"
    by (simp add: n mset_map_elems [of ?g] del: mset_map)
  then have "distinct (map ?g (hmap_elems h')) = distinct (?g ring # map ?g (hmap_elems h))"
    by (rule mset_eq_imp_distinct_iff)
  moreover have "?g ring \<notin> set (map ?g (hmap_elems h))" using assms(3) by (metis (no_types, lifting) imageE list.set_map)
  moreover have "distinct (map ?g (hmap_elems h))" using assms(1) by (simp add: rings_inv_def)
  ultimately have "distinct (map ?g (hmap_elems h'))" by simp
  moreover have "q = ring \<or> q \<in> set (hmap_elems h)" if "q \<in> set (hmap_elems h')" for q
    using that n by (auto simp: set_hmap_elems)
  ultimately have "rings_inv rs m h'"
    using h'(2) assms(2) rings_inv_ring [OF assms(1)] by (intro rings_invI) auto
  with h'(1) show ?thesis by (auto simp: mset_concat_elems n)
qed

lemma rings_replace:
  assumes "rings_inv rs m h" and "ring \<in> set (hmap_elems h)" and "ring_ok rs m ring'"
    and "rule_flow rs (hd ring') = rule_flow rs (hd ring)"
  shows "\<exists>h'. hmap_replace h ring ring' = Some h' \<and> rings_inv rs m h'
    \<and> mset (concat (hmap_elems h')) + mset ring = mset ring' + mset (concat (hmap_elems h))"
proof -
  let ?g = "\<lambda>ring. rule_flow rs (hd ring)"
  note i = rings_inv_hashed(1) [OF assms(1)]
  have hash: "ring_hash rs ring' = ring_hash rs ring"
    using ring_ok_head(2) [OF assms(3)] ring_ok_head(2) [OF rings_inv_ring [OF assms(1,2)]] assms(4)
    by (simp add: ring_hash_def rule_node_hash_def)
  obtain h' where h': "hmap_replace h ring ring' = Some h'" "equal_search.hashed_by rs h'"
    and n: "hmap_nodes h' = add_mset (ring_hash rs ring', ring') (hmap_nodes h - {#(ring_hash rs ring, ring)#})"
    using equal_search.hashed_by_replace [OF i rings_inv_distinct [OF assms(1)] assms(2) hash] by blast
  obtain ns where ns: "hmap_nodes h = add_mset (ring_hash rs ring, ring) ns"
    using equal_search.elems_nodes [OF i, of ring] assms(2) by (blast dest: multi_member_split)
  have "mset (map ?g (hmap_elems h')) = mset (map ?g (hmap_elems h))"
    by (simp add: n ns mset_map_elems [of ?g] assms(4) del: mset_map)
  then have "distinct (map ?g (hmap_elems h')) = distinct (map ?g (hmap_elems h))"
    by (rule mset_eq_imp_distinct_iff)
  then have "distinct (map ?g (hmap_elems h'))" using assms(1) by (simp add: rings_inv_def)
  moreover have "q = ring' \<or> q \<in> set (hmap_elems h)" if "q \<in> set (hmap_elems h')" for q
    using that n ns by (auto simp: set_hmap_elems)
  ultimately have "rings_inv rs m h'"
    using h'(2) assms(3) rings_inv_ring [OF assms(1)] by (intro rings_invI) auto
  with h'(1) show ?thesis by (auto simp: mset_concat_elems n ns ac_simps)
qed

lemma rings_remove:
  assumes "rings_inv rs m h" and "ring \<in> set (hmap_elems h)"
  shows "\<exists>h'. hmap_remove h ring = Some h' \<and> rings_inv rs m h'
    \<and> mset (concat (hmap_elems h')) + mset ring = mset (concat (hmap_elems h))"
proof -
  let ?g = "\<lambda>ring. rule_flow rs (hd ring)"
  note i = rings_inv_hashed(1) [OF assms(1)]
  obtain h' where h': "hmap_remove h ring = Some h'" "equal_search.hashed_by rs h'"
    and n: "hmap_nodes h' = hmap_nodes h - {#(ring_hash rs ring, ring)#}"
    using equal_search.hashed_by_remove [OF i rings_inv_distinct [OF assms(1)] assms(2)] by blast
  obtain ns where ns: "hmap_nodes h = add_mset (ring_hash rs ring, ring) ns"
    using equal_search.elems_nodes [OF i, of ring] assms(2) by (blast dest: multi_member_split)
  have "mset (?g ring # map ?g (hmap_elems h')) = mset (map ?g (hmap_elems h))"
    by (simp add: n ns mset_map_elems [of ?g] del: mset_map)
  then have "distinct (?g ring # map ?g (hmap_elems h')) = distinct (map ?g (hmap_elems h))"
    by (rule mset_eq_imp_distinct_iff)
  then have "distinct (map ?g (hmap_elems h'))" using assms(1) by (simp add: rings_inv_def)
  moreover have "q \<in> set (hmap_elems h)" if "q \<in> set (hmap_elems h')" for q
    using that n ns by (auto simp: set_hmap_elems)
  ultimately have "rings_inv rs m h'"
    using h'(2) rings_inv_ring [OF assms(1)] by (intro rings_invI) auto
  with h'(1) show ?thesis by (auto simp: mset_concat_elems n ns ac_simps)
qed

section \<open>Inserting into a table\<close>

text \<open>The first half of \<open>insert_rule\<close>: the new map of rings and the displaced rule.\<close>

lemma insert_rings:
  assumes "table_inv rs tb" and "rule_ok rs new" and "rule_mask rs new = t_mask tb"
  shows "\<exists>rules' old. (case find_equal rs tb (rule_flow rs new) (rule_node_hash rs new) of
         None \<Rightarrow> do { h \<leftarrow> hmap_insert True (t_rules tb) [new] (ucast (rule_node_hash rs new)); Some (h, None) }
       | Some ring \<Rightarrow> (case ring_insert rs new ring of (ring', old) \<Rightarrow>
             do { h \<leftarrow> hmap_replace (t_rules tb) ring ring'; Some (h, old) })) = Some (rules', old)
    \<and> rings_inv rs (t_mask tb) rules'
    \<and> exchange new old (mset (table_rules tb)) (mset (concat (hmap_elems rules')))
    \<and> (\<forall>q. old = Some q \<longrightarrow> q \<in> set (table_rules tb) \<and> rs q = rs new)"
proof -
  have inv: "rings_inv rs (t_mask tb) (t_rules tb)" using assms(1) by (simp add: table_inv_def)
  note wf = rule_ok_wf [OF assms(2)]
  have h: "rule_node_hash rs new = miniflow_hash_in_minimask (rule_flow rs new) (t_mask tb) 0"
    by (simp add: rule_node_hash_def assms(3))
  show ?thesis
  proof (cases "find_equal rs tb (rule_flow rs new) (rule_node_hash rs new)")
    case None
    have "rule_flow rs (hd q) \<noteq> rule_flow rs (hd [new])" if "q \<in> set (hmap_elems (t_rules tb))" for q
      using find_equal_None [OF inv wf(2) None [unfolded h] that] by simp
    moreover have "ring_ok rs (t_mask tb) [new]" using assms(2,3) by (simp add: ring_ok_def)
    ultimately obtain h' where "hmap_insert True (t_rules tb) [new] (ring_hash rs [new]) = Some h'"
      "rings_inv rs (t_mask tb) h'" "mset (concat (hmap_elems h')) = mset [new] + mset (concat (hmap_elems (t_rules tb)))"
      using rings_insert [OF inv] by blast
    with None show ?thesis by (auto simp: ring_hash_def exchange_def table_rules_def)
  next
    case (Some ring)
    note fe = find_equal_Some [OF inv wf(2) Some [unfolded h]]
    note ok = rings_inv_ring [OF inv fe(1)]
    obtain ring' old where r: "ring_insert rs new ring = (ring', old)" by force
    note ri = ring_insert_ok [OF ok assms(2,3) fe(2) [symmetric] r]
    obtain h' where h': "hmap_replace (t_rules tb) ring ring' = Some h'" "rings_inv rs (t_mask tb) h'"
      "mset (concat (hmap_elems h')) + mset ring = mset ring' + mset (table_rules tb)"
      using rings_replace [OF inv fe(1) ri(1)] ri(2) fe(2) unfolding table_rules_def by auto
    obtain ns where ns: "mset (table_rules tb) = mset ring + ns"
    proof -
      obtain us vs where "hmap_elems (t_rules tb) = us @ ring # vs" using fe(1) by (blast dest: split_list)
      then show thesis using that [of "mset (concat (us @ vs))"] by (simp add: table_rules_def)
    qed
    have "mset (concat (hmap_elems h')) = mset ring' + ns" using h'(3) ns by (simp add: ac_simps)
    then have "exchange new old (mset (table_rules tb)) (mset (concat (hmap_elems h')))"
      using exchange_plus [OF ri(3), of ns] ns by simp
    moreover have "q \<in> set (table_rules tb) \<and> rs q = rs new" if "old = Some q" for q
    proof -
      have q: "q \<in> set ring" "prio rs q = prio rs new" using ri(4) [OF that] by auto
      then have "rs q = rs new"
        using ring_ok_rule [OF ok q(1)] fe(2) assms(3) by (intro rule_eqI) auto
      with q(1) fe(1) show ?thesis by (auto simp: table_rules_ring)
    qed
    ultimately show ?thesis using Some r h'(1,2) by auto
  qed
qed

section \<open>Changing one table of the classifier\<close>

text \<open>The part of the invariant that only looks at which tables there are and at their masks.\<close>

definition tables_core :: "classifier \<Rightarrow> bool" where
  "tables_core cls \<longleftrightarrow> hmap_wf (tables cls)
     \<and> (\<forall>nd \<in># hmap_nodes (tables cls). fst nd = ucast (minimask_hash (t_mask (tstore cls (snd nd))) 0))
     \<and> distinct (hmap_elems (tables cls)) \<and> (\<forall>t \<in> set (hmap_elems (tables cls)). t < tnext cls)
     \<and> inj_on (\<lambda>t. t_mask (tstore cls t)) (set (hmap_elems (tables cls)))"

lemma tables_inv_core:
  "tables_inv cls \<longleftrightarrow> tables_core cls \<and> mset (tables_priority cls) = mset (hmap_elems (tables cls))
     \<and> ordered (max_priority \<circ> tstore cls) (tables_priority cls)"
  by (auto simp: tables_inv_def tables_core_def ordered_def)

lemma tables_core_cong:
  assumes "tables_core cls" and "tables cls' = tables cls" and "tnext cls' = tnext cls"
    and "\<And>t. t_mask (tstore cls' t) = t_mask (tstore cls t)"
  shows "tables_core cls'"
  using assms by (simp add: tables_core_def)

lemma cls_rules_update:
  assumes "distinct (hmap_elems (tables cls))" and "t \<in> set (hmap_elems (tables cls))"
    and "tables cls' = tables cls" and "\<And>u. u \<noteq> t \<Longrightarrow> tstore cls' u = tstore cls u"
  shows "mset (cls_rules cls') + mset (table_rules (tstore cls t))
    = mset (cls_rules cls) + mset (table_rules (tstore cls' t))"
proof -
  obtain us vs where e: "hmap_elems (tables cls) = us @ t # vs" using assms(2) by (blast dest: split_list)
  then have "t \<notin> set us" "t \<notin> set vs" using assms(1) by auto
  then have "map (\<lambda>u. table_rules (tstore cls' u)) us = map (\<lambda>u. table_rules (tstore cls u)) us"
    "map (\<lambda>u. table_rules (tstore cls' u)) vs = map (\<lambda>u. table_rules (tstore cls u)) vs"
    using assms(4) by (metis (no_types, lifting) map_cong)+
  then show ?thesis by (simp add: cls_rules_def assms(3) e del: map_eq_conv)
qed

lemma set_table_simps [simp]:
  "tstore (set_table cls t tb) = (tstore cls)(t := tb)" "tables (set_table cls t tb) = tables cls"
  "tables_priority (set_table cls t tb) = tables_priority cls" "tnext (set_table cls t tb) = tnext cls"
  "n_rules (set_table cls t tb) = n_rules cls"
  by (simp_all add: set_table_def)

lemma update_after_insertion:
  fixes cls t and p :: u32
  assumes "ordered (max_priority \<circ> tstore cls) (tables_priority cls)" and "distinct (tables_priority cls)"
    and "t \<in> set (tables_priority cls)"
  defines "tb \<equiv> tstore cls t"
  shows "\<exists>ts. update_tables_after_insertion cls t p =
      (set_table cls t (tb\<lparr>max_priority := (if p > max_priority tb then p else max_priority tb),
        max_count := (if p = max_priority tb then max_count tb + 1 else if p > max_priority tb then 1 else max_count tb)\<rparr>))
        \<lparr>tables_priority := ts\<rparr>
    \<and> mset ts = mset (tables_priority cls)
    \<and> ordered ((max_priority \<circ> tstore cls)(t := if p > max_priority tb then p else max_priority tb)) ts"
proof -
  let ?mp = "max_priority \<circ> tstore cls"
  have id: "?mp(t := max_priority (tstore cls t)) = ?mp" by auto
  consider "p = max_priority tb" | "p > max_priority tb" | "p < max_priority tb" by (metis linorder_less_linear)
  then show ?thesis
  proof cases
    case 1
    then show ?thesis
      using assms(1) id by (intro exI [of _ "tables_priority cls"])
        (auto simp: tb_def update_tables_after_insertion_def set_table_def Let_def)
  next
    case 2
    let ?tb = "tb\<lparr>max_priority := p, max_count := 1\<rparr>"
    have f: "(\<lambda>u. max_priority (((tstore cls)(t := ?tb)) u)) = ?mp(t := p)" by auto
    have "update_tables_after_insertion cls t p
        = (set_table cls t ?tb)\<lparr>tables_priority := move_earlier (?mp(t := p)) p t (tables_priority cls)\<rparr>"
      using 2 unfolding update_tables_after_insertion_def tb_def [symmetric] Let_def set_table_simps f by simp
    then show ?thesis
      using 2 move_earlier_ordered [OF assms(2,3,1), of p]
      by (intro exI [of _ "move_earlier (?mp(t := p)) p t (tables_priority cls)"]) (auto simp: tb_def comp_def)
  next
    case 3
    then show ?thesis
      using assms(1) id by (intro exI [of _ "tables_priority cls"])
        (auto simp: tb_def update_tables_after_insertion_def set_table_def Let_def)
  qed
qed

text \<open>The invariant, except that table \<open>t\<close> may still be empty.\<close>

definition cls_inv_but :: "rule_store \<Rightarrow> classifier \<Rightarrow> ptr \<Rightarrow> bool" where
  "cls_inv_but rs cls t \<longleftrightarrow> tables_inv cls \<and> t \<in> set (hmap_elems (tables cls))
     \<and> (\<forall>u \<in> set (hmap_elems (tables cls)). table_inv rs (tstore cls u))
     \<and> (\<forall>u \<in> set (hmap_elems (tables cls)). u \<noteq> t \<longrightarrow> table_rules (tstore cls u) \<noteq> [])
     \<and> n_rules cls = int (length (cls_rules cls))"

lemma tables_inv_priority:
  assumes "tables_inv cls"
  shows "distinct (tables_priority cls)" "set (tables_priority cls) = set (hmap_elems (tables cls))"
proof -
  have m: "mset (tables_priority cls) = mset (hmap_elems (tables cls))" "distinct (hmap_elems (tables cls))"
    using assms by (auto simp: tables_inv_def)
  show "distinct (tables_priority cls)" "set (tables_priority cls) = set (hmap_elems (tables cls))"
    using mset_eq_imp_distinct_iff [OF m(1)] mset_eq_setD [OF m(1)] m(2) by auto
qed

text \<open>Storing a changed table and a re-ordered table list, with the number of rules in step.\<close>

lemma cls_inv_store:
  assumes "cls_inv_but rs cls t" and "tables cls' = tables cls" and "tnext cls' = tnext cls"
    and "tstore cls' = (tstore cls)(t := tb')" and "t_mask tb' = t_mask (tstore cls t)"
    and "table_inv rs tb'" and "table_rules tb' \<noteq> []"
    and "mset (tables_priority cls') = mset (tables_priority cls)"
    and "ordered (max_priority \<circ> tstore cls') (tables_priority cls')"
    and "n_rules cls' - n_rules cls = int (length (table_rules tb')) - int (length (table_rules (tstore cls t)))"
  shows "cls_inv rs cls'"
    and "mset (cls_rules cls') + mset (table_rules (tstore cls t)) = mset (cls_rules cls) + mset (table_rules tb')"
proof -
  have t: "tables_inv cls" "t \<in> set (hmap_elems (tables cls))" using assms(1) by (auto simp: cls_inv_but_def)
  have d: "distinct (hmap_elems (tables cls))" using t(1) by (simp add: tables_inv_def)
  have "mset (cls_rules cls') + mset (table_rules (tstore cls t))
      = mset (cls_rules cls) + mset (table_rules (tstore cls' t))"
    by (rule cls_rules_update [OF d t(2) assms(2)]) (simp add: assms(4))
  then show m: "mset (cls_rules cls') + mset (table_rules (tstore cls t)) = mset (cls_rules cls) + mset (table_rules tb')"
    by (simp add: assms(4))
  have "length (cls_rules cls') + length (table_rules (tstore cls t)) = length (cls_rules cls) + length (table_rules tb')"
    using arg_cong [OF m, of size] by simp
  moreover have "n_rules cls = int (length (cls_rules cls))" using assms(1) by (simp add: cls_inv_but_def)
  ultimately have "n_rules cls' = int (length (cls_rules cls'))" using assms(10) by linarith
  moreover have core: "tables_core cls" "mset (tables_priority cls) = mset (hmap_elems (tables cls))"
    using t(1) unfolding tables_inv_core by blast+
  have "tables_core cls'"
    by (rule tables_core_cong [OF core(1) assms(2,3)]) (simp add: assms(4,5))
  then have "tables_inv cls'" unfolding tables_inv_core using assms(2,8,9) core(2) by simp
  moreover have "table_inv rs (tstore cls' u) \<and> table_rules (tstore cls' u) \<noteq> []"
    if "u \<in> set (hmap_elems (tables cls))" for u
    using that assms(1,4,6,7) by (cases "u = t") (simp_all add: cls_inv_but_def)
  ultimately show "cls_inv rs cls'" by (simp add: cls_inv_def assms(2))
qed

text \<open>A new table is empty, so it goes to the back of the list.\<close>

lemma hmap_elems_init [simp]: "hmap_elems hmap_init = []"
  by (simp add: hmap_elems_def hmap_init_def)

lemma empty_table_inv:
  "minimask_wf m \<Longrightarrow> table_inv rs \<lparr>t_rules = hmap_init, t_mask = m, n_table_rules = 0, max_priority = 0, max_count = 0\<rparr>"
  by (simp add: table_inv_def rings_inv_def table_rules_def prio_ok_def)

lemma insert_table_correct:
  assumes "cls_inv rs cls" and "minimask_wf m" and "find_table cls m = None"
  shows "\<exists>cls'. insert_table cls m = Some (cls', tnext cls) \<and> cls_inv_but rs cls' (tnext cls)
    \<and> t_mask (tstore cls' (tnext cls)) = m \<and> mset (cls_rules cls') = mset (cls_rules cls)"
proof -
  let ?t = "tnext cls" and ?E = "hmap_elems (tables cls)"
  let ?tb = "\<lparr>t_rules = hmap_init, t_mask = m, n_table_rules = 0, max_priority = 0, max_count = 0\<rparr>"
  let ?st = "(tstore cls)(?t := ?tb)"
  have ti: "tables_inv cls" using assms(1) by (simp add: cls_inv_def)
  then have fresh: "?t \<notin> set ?E" by (auto simp: tables_inv_def)
  have "table_search.hashed_by ?st (tables cls)"
    using cls_inv_hashed(1) [OF assms(1)] fresh
    by (auto simp: table_search.hashed_by_def table_hash_def set_hmap_elems) force
  from table_search.hashed_by_insert [OF this]
  obtain h' where h': "hmap_insert True (tables cls) ?t (table_hash ?st ?t) = Some h'" "table_search.hashed_by ?st h'"
    and n: "hmap_nodes h' = add_mset (table_hash ?st ?t, ?t) (hmap_nodes (tables cls))" by blast
  have e: "mset (hmap_elems h') = add_mset ?t (mset ?E)"
    using mset_map_elems [of id h'] mset_map_elems [of id "tables cls"] by (simp add: n)
  then have se: "set (hmap_elems h') = insert ?t (set ?E)" by (metis set_mset_add_mset_insert set_mset_mset)
  let ?cls = "(set_table cls ?t ?tb)\<lparr>tables := h', tables_priority := tables_priority cls @ [?t], tnext := ?t + 1\<rparr>"
  have i: "insert_table cls m = Some (?cls, ?t)"
    using h'(1) assms(2) by (simp add: insert_table_def table_hash_def Let_def)
  have inj: "inj_on (\<lambda>u. t_mask (?st u)) (insert ?t (set ?E))"
    using fresh find_table_None [OF assms] ti by (auto simp: inj_on_def tables_inv_def)
  have "distinct (hmap_elems h') = distinct (?t # ?E)" using e by (intro mset_eq_imp_distinct_iff) simp
  moreover have "sorted_wrt (\<lambda>t u. max_priority (?st u) \<le> max_priority (?st t)) (tables_priority cls @ [?t])"
  proof -
    have "sorted_wrt (\<lambda>t u. max_priority (?st u) \<le> max_priority (?st t)) (tables_priority cls)"
      by (rule sorted_wrt_mono_rel [of _ "\<lambda>t u. max_priority (tstore cls u) \<le> max_priority (tstore cls t)"])
        (use ti fresh tables_inv_priority(2) [OF ti] in \<open>auto simp: tables_inv_def\<close>)
    then show ?thesis by (simp add: sorted_wrt_append)
  qed
  ultimately have "tables_inv ?cls"
    using ti h'(2) fresh inj by (auto simp: tables_inv_def se e table_search.hashed_by_def table_hash_def)
  moreover have r: "mset (cls_rules ?cls) = mset (cls_rules cls)"
  proof -
    have "mset (map (\<lambda>u. table_rules (?st u)) (hmap_elems h')) = mset (map (\<lambda>u. table_rules (?st u)) (?t # ?E))"
      using e by simp
    also have "map (\<lambda>u. table_rules (?st u)) (?t # ?E) = [] # map (\<lambda>u. table_rules (tstore cls u)) ?E"
      using fresh by (auto simp: table_rules_def)
    finally have "mset (concat (map (\<lambda>u. table_rules (?st u)) (hmap_elems h')))
        = mset (concat ([] # map (\<lambda>u. table_rules (tstore cls u)) ?E))"
      by (rule mset_concat_cong)
    then show ?thesis by (simp add: cls_rules_def)
  qed
  moreover have "length (cls_rules ?cls) = length (cls_rules cls)" using arg_cong [OF r, of size] by simp
  ultimately have "cls_inv_but rs ?cls ?t"
    using assms(1) empty_table_inv [OF assms(2)] by (auto simp: cls_inv_but_def cls_inv_def se)
  with i r show ?thesis by auto
qed

section \<open>Replacing a rule\<close>

text \<open>\<open>insert_rule\<close> together with the counts its caller updates.\<close>

lemma insert_rule_correct:
  assumes "cls_inv_but rs cls t" and "rule_ok rs new" and "t_mask (tstore cls t) = rule_mask rs new"
  shows "\<exists>cls1 old cls'. insert_rule rs cls t new = Some (cls1, old)
    \<and> cls' = (if old = None then (let tb = tstore cls1 t in
        (set_table cls1 t (tb\<lparr>n_table_rules := n_table_rules tb + 1\<rparr>))\<lparr>n_rules := n_rules cls1 + 1\<rparr>) else cls1)
    \<and> cls_inv rs cls' \<and> exchange new old (mset (cls_rules cls)) (mset (cls_rules cls'))
    \<and> (\<forall>q. old = Some q \<longrightarrow> q \<in> set (cls_rules cls) \<and> rs q = rs new)"
proof -
  let ?tb = "tstore cls t"
  have t: "tables_inv cls" "t \<in> set (hmap_elems (tables cls))" and tinv: "table_inv rs ?tb"
    using assms(1) by (auto simp: cls_inv_but_def)
  obtain h old where h: "(case find_equal rs ?tb (rule_flow rs new) (rule_node_hash rs new) of
         None \<Rightarrow> do { h \<leftarrow> hmap_insert True (t_rules ?tb) [new] (ucast (rule_node_hash rs new)); Some (h, None) }
       | Some ring \<Rightarrow> (case ring_insert rs new ring of (ring', old) \<Rightarrow>
             do { h \<leftarrow> hmap_replace (t_rules ?tb) ring ring'; Some (h, old) })) = Some (h, old)"
    and rinv: "rings_inv rs (t_mask ?tb) h"
    and ex: "exchange new old (mset (table_rules ?tb)) (mset (concat (hmap_elems h)))"
    and same: "\<forall>q. old = Some q \<longrightarrow> q \<in> set (table_rules ?tb) \<and> rs q = rs new"
    using insert_rings [OF tinv assms(2) assms(3) [symmetric]] by blast
  have olds: "\<forall>q. old = Some q \<longrightarrow> q \<in> set (cls_rules cls) \<and> rs q = rs new"
    using same t(2) by (auto simp: in_cls_rules)
  have "mset (concat (hmap_elems h)) \<noteq> {#}" using ex by (auto simp del: mset_zero_iff simp: exchange_def split: option.splits)
  then have ne: "concat (hmap_elems h) \<noteq> []" by (metis mset.simps(1))
  have exc: "exchange new old (mset (cls_rules cls)) (mset (cls_rules cls'))"
    if e: "mset (cls_rules cls') + mset (table_rules ?tb) = mset (cls_rules cls) + mset (concat (hmap_elems h))" for cls'
  proof -
    obtain us vs where "hmap_elems (tables cls) = us @ t # vs" using t(2) by (blast dest: split_list)
    then have "mset (table_rules ?tb) \<subseteq># mset (cls_rules cls)" by (simp add: cls_rules_def)
    then obtain ns where ns: "mset (cls_rules cls) = mset (table_rules ?tb) + ns" by (metis subset_mset.add_diff_inverse)
    with e have "mset (cls_rules cls') = mset (concat (hmap_elems h)) + ns" by (simp add: ac_simps)
    with exchange_plus [OF ex, of ns] ns show ?thesis by simp
  qed
  let ?p = "prio rs new" and ?mp = "max_priority ?tb" and ?mc = "max_count ?tb"
  have pk: "prio_ok rs (mset (table_rules ?tb)) ?mp ?mc" using tinv by (simp add: table_inv_def)
  let ?tb1 = "?tb\<lparr>t_rules := h\<rparr>"
  show ?thesis
  proof (cases old)
    case None
    note o = t(1) [unfolded tables_inv_core, THEN conjunct2, THEN conjunct2]
    note d = tables_inv_priority [OF t(1)]
    let ?cls1 = "set_table cls t ?tb1"
    let ?tb2 = "?tb1\<lparr>max_priority := (if ?p > ?mp then ?p else ?mp),
        max_count := (if ?p = ?mp then ?mc + 1 else if ?p > ?mp then 1 else ?mc)\<rparr>"
    have oc: "ordered (max_priority \<circ> tstore ?cls1) (tables_priority ?cls1)"
      using o by (simp add: fun_upd_comp) (simp add: fun_upd_idem)
    obtain ts where ts: "update_tables_after_insertion ?cls1 t ?p = (set_table ?cls1 t ?tb2)\<lparr>tables_priority := ts\<rparr>"
      "mset ts = mset (tables_priority cls)"
      "ordered ((max_priority \<circ> tstore ?cls1)(t := max_priority ?tb2)) ts"
      using update_after_insertion [OF oc, of t ?p] d t(2) by (auto cong: if_cong)
    let ?cls2 = "(set_table ?cls1 t ?tb2)\<lparr>tables_priority := ts\<rparr>"
    let ?tb3 = "?tb2\<lparr>n_table_rules := n_table_rules ?tb2 + 1\<rparr>"
    let ?cls3 = "(set_table ?cls2 t ?tb3)\<lparr>n_rules := n_rules cls + 1\<rparr>"
    have add: "mset (concat (hmap_elems h)) = add_mset new (mset (table_rules ?tb))"
      using ex None by (simp add: exchange_def)
    have tr: "table_rules ?tb3 = concat (hmap_elems h)" by (simp add: table_rules_def)
    have len: "length (concat (hmap_elems h)) = length (table_rules ?tb) + 1"
      using arg_cong [OF add, of size] by simp
    have "table_inv rs ?tb3"
      using tinv rinv prio_ok_insert [OF pk, of new] len
      unfolding table_inv_def tr add by simp
    moreover have "max_priority \<circ> tstore ?cls3 = (max_priority \<circ> tstore ?cls1)(t := max_priority ?tb2)" by auto
    then have "ordered (max_priority \<circ> tstore ?cls3) (tables_priority ?cls3)" using ts(3) by simp
    ultimately have c: "cls_inv rs ?cls3
      \<and> mset (cls_rules ?cls3) + mset (table_rules ?tb) = mset (cls_rules cls) + mset (table_rules ?tb3)"
      using cls_inv_store [OF assms(1), of ?cls3 ?tb3] ts(2) ne len tr by simp
    have i: "insert_rule rs cls t new = Some (?cls2, old)"
      using h None ts(1) by (simp add: insert_rule_def Let_def)
    have e: "?cls3 = (if old = None then (let tb = tstore ?cls2 t in
        (set_table ?cls2 t (tb\<lparr>n_table_rules := n_table_rules tb + 1\<rparr>))\<lparr>n_rules := n_rules ?cls2 + 1\<rparr>) else ?cls2)"
      using None by (simp add: Let_def)
    have "exchange new old (mset (cls_rules cls)) (mset (cls_rules ?cls3))"
      by (rule exc) (use c tr in simp)
    with i e c olds show ?thesis by blast
  next
    case (Some q)
    let ?cls1 = "set_table cls t ?tb1"
    have x: "q \<in># mset (table_rules ?tb)" "mset (concat (hmap_elems h)) = add_mset new (mset (table_rules ?tb) - {#q#})"
      using ex Some by (simp_all add: exchange_def)
    have tr: "table_rules ?tb1 = concat (hmap_elems h)" by (simp add: table_rules_def)
    have "size (mset (concat (hmap_elems h))) = size (mset (table_rules ?tb))"
      unfolding x(2) by (metis insert_DiffM size_add_mset x(1))
    then have len: "length (concat (hmap_elems h)) = length (table_rules ?tb)" by simp
    have "prio rs q = prio rs new" using same Some by simp
    then have "table_inv rs ?tb1"
      using tinv rinv prio_ok_exchange [OF _ x(1), of rs _ _ new] len
      unfolding table_inv_def tr x(2) by simp
    moreover have "max_priority \<circ> tstore ?cls1 = max_priority \<circ> tstore cls" by auto
    ultimately have c: "cls_inv rs ?cls1
      \<and> mset (cls_rules ?cls1) + mset (table_rules ?tb) = mset (cls_rules cls) + mset (table_rules ?tb1)"
      using cls_inv_store [OF assms(1), of ?cls1 ?tb1] t(1) ne len tr by (simp add: tables_inv_core)
    have i: "insert_rule rs cls t new = Some (?cls1, old)"
      using h Some by (simp add: insert_rule_def Let_def)
    have "exchange new old (mset (cls_rules cls)) (mset (cls_rules ?cls1))"
      by (rule exc) (use c tr in simp)
    with i c olds Some show ?thesis by auto
  qed
qed

lemma cls_inv_but_of: "cls_inv rs cls \<Longrightarrow> t \<in> set (hmap_elems (tables cls)) \<Longrightarrow> cls_inv_but rs cls t"
  by (simp add: cls_inv_def cls_inv_but_def)

text \<open>\<open>classifier_replace\<close> adds the rule and takes out the rule with the same match and priority, if
  there is one, which it returns.\<close>

lemma replace_correct:
  assumes "cls_inv rs cls" and "rule_ok rs new"
  obtains cls' old where "classifier_replace rs cls new = Some (cls', old)" "cls_inv rs cls'"
    "exchange new old (mset (cls_rules cls)) (mset (cls_rules cls'))"
    "\<forall>q. old = Some q \<longrightarrow> q \<in> set (cls_rules cls) \<and> rs q = rs new"
proof -
  note wf = rule_ok_wf [OF assms(2)]
  obtain cls0 t where c: "(case find_table cls (rule_mask rs new) of Some t \<Rightarrow> Some (cls, t)
       | None \<Rightarrow> insert_table cls (rule_mask rs new)) = Some (cls0, t)"
    "cls_inv_but rs cls0 t" "t_mask (tstore cls0 t) = rule_mask rs new" "mset (cls_rules cls0) = mset (cls_rules cls)"
  proof (cases "find_table cls (rule_mask rs new)")
    case None
    with insert_table_correct [OF assms(1) wf(3) None] that show thesis by auto
  next
    case (Some t)
    with find_table_Some [OF assms(1) wf(3) Some] cls_inv_but_of [OF assms(1)] that show thesis by auto
  qed
  from insert_rule_correct [OF c(2) assms(2) c(3)]
  obtain cls1 old cls' where i: "insert_rule rs cls0 t new = Some (cls1, old)"
    "cls' = (if old = None then (let tb = tstore cls1 t in
        (set_table cls1 t (tb\<lparr>n_table_rules := n_table_rules tb + 1\<rparr>))\<lparr>n_rules := n_rules cls1 + 1\<rparr>) else cls1)"
    and r: "cls_inv rs cls'" "exchange new old (mset (cls_rules cls0)) (mset (cls_rules cls'))"
    "\<forall>q. old = Some q \<longrightarrow> q \<in> set (cls_rules cls0) \<and> rs q = rs new" by blast
  show thesis
  proof (rule that)
    show "classifier_replace rs cls new = Some (cls', old)" unfolding classifier_replace_def c(1) i(2) by (simp add: i(1))
    show "cls_inv rs cls'" by (rule r(1))
    show "exchange new old (mset (cls_rules cls)) (mset (cls_rules cls'))" using r(2) c(4) by simp
    show "\<forall>q. old = Some q \<longrightarrow> q \<in> set (cls_rules cls) \<and> rs q = rs new" using r(3) mset_eq_setD [OF c(4)] by blast
  qed
qed

section \<open>Removing a rule\<close>

lemma sorted_wrt_remove: "sorted_wrt P xs \<Longrightarrow> sorted_wrt P (remove1 x xs)"
  by (induction xs) (auto dest: notin_set_remove1 [rotated])

lemma ring_remove_ok:
  assumes "ring_ok rs m ring" and "r \<in> set ring" and "remove1 r ring \<noteq> []"
  shows "ring_ok rs m (remove1 r ring)" and "rule_flow rs (hd (remove1 r ring)) = rule_flow rs (hd ring)"
proof -
  have sub: "set (remove1 r ring) \<subseteq> set ring" by (rule set_remove1_subset)
  then have "hd (remove1 r ring) \<in> set ring" using assms(3) by (meson hd_in_set subsetD)
  then show f: "rule_flow rs (hd (remove1 r ring)) = rule_flow rs (hd ring)" using ring_ok_rule(3) [OF assms(1)] by blast
  have "falling rs (remove1 r ring)" using assms(1) by (intro sorted_wrt_remove) (simp add: ring_ok_def)
  then show "ring_ok rs m (remove1 r ring)"
    using assms(3) sub ring_ok_rule [OF assms(1)] unfolding ring_ok_def f by (metis subsetD)
qed

lemma remove_rings:
  assumes "rings_inv rs m h" and "ring \<in> set (hmap_elems h)" and "r \<in> set ring"
  shows "\<exists>h'. (if hd ring \<noteq> r
       then (if r \<in> set ring then hmap_replace h ring (remove1 r ring) else None)
       else if tl ring = [] then hmap_remove h ring
       else hmap_replace h ring (tl ring)) = Some h'
    \<and> rings_inv rs m h' \<and> mset (concat (hmap_elems h)) = add_mset r (mset (concat (hmap_elems h')))"
proof -
  note ok = rings_inv_ring [OF assms(1,2)]
  have tl: "hd ring = r \<Longrightarrow> remove1 r ring = tl ring" using assms(3) by (cases ring) auto
  have ms: "mset ring = add_mset r (mset (remove1 r ring))" using assms(3) by simp
  show ?thesis
  proof (cases "remove1 r ring = []")
    case True
    then have "ring = [r]" using ms by (metis mset.simps(1) mset_single_iff_right)
    with rings_remove [OF assms(1,2)] show ?thesis by auto
  next
    case False
    note rk = ring_remove_ok [OF ok assms(3) False]
    from rings_replace [OF assms(1,2) rk] obtain h' where h': "hmap_replace h ring (remove1 r ring) = Some h'"
      "rings_inv rs m h'" "mset (concat (hmap_elems h')) + mset ring = mset (remove1 r ring) + mset (concat (hmap_elems h))"
      by blast
    have "mset (concat (hmap_elems h)) = add_mset r (mset (concat (hmap_elems h')))"
      using h'(3) unfolding ms by (simp add: ac_simps)
    with h'(1,2) tl False assms(3) show ?thesis by (cases "hd ring = r") auto
  qed
qed

lemma update_after_removal:
  fixes cls t r
  assumes "ordered (max_priority \<circ> tstore cls) (tables_priority cls)" and "distinct (tables_priority cls)"
    and "t \<in> set (tables_priority cls)"
  defines "tb \<equiv> tstore cls t"
  assumes "rings_inv rs (t_mask tb) (t_rules tb)"
    and pk: "prio_ok rs (add_mset r (mset (table_rules tb))) (max_priority tb) (max_count tb)"
  shows "\<exists>ts mp mc. update_tables_after_removal rs cls t (prio rs r) =
      (set_table cls t (tb\<lparr>max_priority := mp, max_count := mc\<rparr>))\<lparr>tables_priority := ts\<rparr>
    \<and> mset ts = mset (tables_priority cls) \<and> prio_ok rs (mset (table_rules tb)) mp mc
    \<and> ordered ((max_priority \<circ> tstore cls)(t := mp)) ts"
proof -
  let ?mp = "max_priority \<circ> tstore cls"
  have id: "?mp(t := max_priority (tstore cls t)) = ?mp" by auto
  show ?thesis
  proof (cases "prio rs r = max_priority tb \<and> max_count tb - 1 = 0")
    case True
    let ?re = "fold (recount_step rs) (hmap_elems (t_rules tb)) (0, 0)"
    obtain mp mc where re: "?re = (mp, mc)" by force
    have "prio_ok rs {#} 0 0" by (simp add: prio_ok_def)
    from recount_heads [OF this, of "hmap_elems (t_rules tb)"] re
    have "prio_ok rs (mset (map hd (hmap_elems (t_rules tb)))) mp mc" by simp
    then have k: "prio_ok rs (mset (table_rules tb)) mp mc"
      unfolding table_rules_def using assms(5) by (intro prio_ok_heads [of _ _ "t_mask tb"]) (auto simp: rings_inv_def)
    have le: "mp \<le> max_priority tb"
    proof (cases "mp = 0")
      case False
      then have "prio_count rs (mset (table_rules tb)) mp > 0" using k by (simp add: prio_ok_def)
      then obtain q where "q \<in> set (table_rules tb)" "prio rs q = mp"
        using prio_count_none [of "mset (table_rules tb)" rs mp] by auto
      then show ?thesis using pk by (auto simp: prio_ok_def)
    qed simp
    let ?tb = "tb\<lparr>max_priority := mp, max_count := mc\<rparr>"
    have f: "(\<lambda>u. max_priority (if u = t then ?tb else tstore cls u)) = ?mp(t := mp)" by auto
    have "update_tables_after_removal rs cls t (prio rs r)
        = (set_table cls t ?tb)\<lparr>tables_priority := move_later (?mp(t := mp)) mp t (tables_priority cls)\<rparr>"
      using True re unfolding update_tables_after_removal_def tb_def [symmetric] Let_def set_table_simps by (simp add: f)
    moreover have "mp \<le> ?mp t" using le by (simp add: tb_def)
    ultimately show ?thesis
      using k move_later_ordered [OF assms(2,3,1), of mp] by blast
  next
    case False
    let ?mc = "if prio rs r = max_priority tb then max_count tb - 1 else max_count tb"
    have "prio_ok rs (mset (table_rules tb)) (max_priority tb) ?mc"
      by (rule prio_ok_remove [OF pk]) (use False in simp)
    moreover have "update_tables_after_removal rs cls t (prio rs r)
        = (set_table cls t (tb\<lparr>max_priority := max_priority tb, max_count := ?mc\<rparr>))\<lparr>tables_priority := tables_priority cls\<rparr>"
      using False by (auto simp: update_tables_after_removal_def Let_def tb_def set_table_def)
    ultimately show ?thesis using assms(1) id unfolding tb_def by metis
  qed
qed

lemma tables_inv_hashed: "tables_inv cls \<Longrightarrow> table_search.hashed_by (tstore cls) (tables cls)"
  by (simp add: tables_inv_def table_search.hashed_by_def table_hash_def)

lemma destroy_table_correct:
  assumes "tables_inv cls" and "t \<in> set (hmap_elems (tables cls))"
  obtains cls' where "destroy_table cls t = Some cls'" "tables_inv cls'" "tstore cls' = tstore cls" "n_rules cls' = n_rules cls"
    "mset (hmap_elems (tables cls)) = add_mset t (mset (hmap_elems (tables cls')))"
    "mset (cls_rules cls) = mset (table_rules (tstore cls t)) + mset (cls_rules cls')"
proof -
  let ?E = "hmap_elems (tables cls)"
  have d: "distinct ?E" using assms(1) by (simp add: tables_inv_def)
  note i = tables_inv_hashed [OF assms(1)]
  from table_search.hashed_by_remove [OF i d assms(2)]
  obtain h' where h': "hmap_remove (tables cls) t = Some h'" "table_search.hashed_by (tstore cls) h'"
    and n: "hmap_nodes h' = hmap_nodes (tables cls) - {#(table_hash (tstore cls) t, t)#}" by blast
  have "(table_hash (tstore cls) t, t) \<in># hmap_nodes (tables cls)"
    using table_search.elems_nodes [OF i] assms(2) by blast
  then have n': "hmap_nodes (tables cls) = add_mset (table_hash (tstore cls) t, t) (hmap_nodes h')" by (simp add: n)
  have e: "mset ?E = add_mset t (mset (hmap_elems h'))"
    using mset_map_elems [of id h'] mset_map_elems [of id "tables cls"] by (simp add: n')
  then have "distinct ?E = distinct (t # hmap_elems h')" by (intro mset_eq_imp_distinct_iff) simp
  then have dh: "distinct (hmap_elems h')" "t \<notin> set (hmap_elems h')" using d by auto
  have sub: "set (hmap_elems h') \<subseteq> set ?E" using mset_eq_setD [of ?E "t # hmap_elems h'"] e by auto
  let ?cls = "cls\<lparr>tables := h', tables_priority := remove1 t (tables_priority cls)\<rparr>"
  have "mset (remove1 t (tables_priority cls)) = mset (hmap_elems h')"
    using assms(1) e by (simp add: tables_inv_def)
  then have "tables_inv ?cls"
    using assms(1) h'(2) dh(1) sub by (auto simp: tables_inv_def table_search.hashed_by_def table_hash_def
        intro: sorted_wrt_remove inj_on_subset)
  moreover have "mset (cls_rules cls) = mset (table_rules (tstore cls t)) + mset (cls_rules ?cls)"
  proof -
    have "mset (map (table_rules \<circ> tstore cls) ?E) = mset (map (table_rules \<circ> tstore cls) (t # hmap_elems h'))"
      using e by simp
    from mset_concat_cong [OF this] show ?thesis by (simp add: cls_rules_def comp_def)
  qed
  ultimately show thesis using h'(1) e by (intro that [of ?cls]) (simp_all add: destroy_table_def)
qed

text \<open>\<open>classifier_remove\<close> takes out the rule; a table left without rules is destroyed.\<close>

lemma remove_correct:
  assumes "cls_inv rs cls" and "r \<in> set (cls_rules cls)"
  obtains cls' where "classifier_remove rs cls r = Some cls'" "cls_inv rs cls'"
    "mset (cls_rules cls) = add_mset r (mset (cls_rules cls'))"
proof -
  obtain t ring where l: "find_table cls (rule_mask rs r) = Some t" "t \<in> set (hmap_elems (tables cls))"
    "t_mask (tstore cls t) = rule_mask rs r" "r \<in> set (table_rules (tstore cls t))"
    "find_equal rs (tstore cls t) (rule_flow rs r) (rule_node_hash rs r) = Some ring"
    "ring \<in> set (hmap_elems (t_rules (tstore cls t)))" "r \<in> set ring" "ring_ok rs (rule_mask rs r) ring"
    by (rule locate_rule [OF assms])
  let ?tb = "tstore cls t"
  have tinv: "table_inv rs ?tb" and ti: "tables_inv cls" using assms(1) l(2) by (simp_all add: cls_inv_def)
  then have inv: "rings_inv rs (t_mask ?tb) (t_rules ?tb)"
    and pk: "prio_ok rs (mset (table_rules ?tb)) (max_priority ?tb) (max_count ?tb)" by (simp_all add: table_inv_def)
  from remove_rings [OF inv l(6,7)]
  obtain h' where h': "(if hd ring \<noteq> r
       then (if r \<in> set ring then hmap_replace (t_rules ?tb) ring (remove1 r ring) else None)
       else if tl ring = [] then hmap_remove (t_rules ?tb) ring
       else hmap_replace (t_rules ?tb) ring (tl ring)) = Some h'" "rings_inv rs (t_mask ?tb) h'"
    and ms: "mset (table_rules ?tb) = add_mset r (mset (concat (hmap_elems h')))"
    unfolding table_rules_def by blast
  let ?tb1 = "?tb\<lparr>t_rules := h', n_table_rules := n_table_rules ?tb - 1\<rparr>"
  let ?cls1 = "set_table cls t ?tb1"
  have tr: "table_rules ?tb1 = concat (hmap_elems h')" by (simp add: table_rules_def)
  have len: "length (table_rules ?tb) = length (table_rules ?tb1) + 1" using arg_cong [OF ms, of size] by (simp add: tr)
  have n1: "n_table_rules ?tb1 = int (length (table_rules ?tb1))" using tinv len by (simp add: table_inv_def)
  have step: "classifier_remove rs cls r = (if n_table_rules ?tb1 = 0 then destroy_table ?cls1 t
       else Some (update_tables_after_removal rs ?cls1 t (prio rs r))) \<bind> (\<lambda>cls. Some (cls\<lparr>n_rules := n_rules cls - 1\<rparr>))"
    unfolding classifier_remove_def Let_def l(1) bind.bind_lunit l(5) h'(1) ..
  have mp1: "max_priority \<circ> tstore ?cls1 = max_priority \<circ> tstore cls" by auto
  have ti1: "tables_inv ?cls1"
    using ti tables_core_cong [of cls ?cls1] unfolding tables_inv_core mp1 by simp
  show thesis
  proof (cases "table_rules ?tb1 = []")
    case True
    have "mset (cls_rules ?cls1) + mset (table_rules ?tb) = mset (cls_rules cls) + mset (table_rules ?tb1)"
      using cls_rules_update [OF _ l(2), of ?cls1] ti by (simp add: tables_inv_def)
    then have cr: "mset (cls_rules cls) = add_mset r (mset (cls_rules ?cls1))"
      unfolding ms True tr [symmetric] by simp
    obtain cls' where c: "destroy_table ?cls1 t = Some cls'" "tables_inv cls'" "tstore cls' = tstore ?cls1"
      "n_rules cls' = n_rules ?cls1" "mset (hmap_elems (tables ?cls1)) = add_mset t (mset (hmap_elems (tables cls')))"
      "mset (cls_rules ?cls1) = mset (table_rules (tstore ?cls1 t)) + mset (cls_rules cls')"
      by (rule destroy_table_correct [OF ti1, of t]) (use l(2) in simp)
    let ?cls = "cls'\<lparr>n_rules := n_rules cls' - 1\<rparr>"
    have "mset (hmap_elems (tables cls)) = mset (t # hmap_elems (tables cls'))" using c(5) by simp
    from mset_eq_imp_distinct_iff [OF this] mset_eq_setD [OF this]
    have sub: "u \<in> set (hmap_elems (tables cls)) \<and> u \<noteq> t" if "u \<in> set (hmap_elems (tables cls'))" for u
      using ti that by (auto simp: tables_inv_def)
    have m: "mset (cls_rules cls) = add_mset r (mset (cls_rules ?cls))" using cr c(6) True by (simp add: cls_rules_def)
    then have "length (cls_rules cls) = length (cls_rules ?cls) + 1" by (metis add.commute plus_1_eq_Suc size_add_mset size_mset)
    moreover have "n_rules cls = int (length (cls_rules cls))" using assms(1) by (simp add: cls_inv_def)
    moreover have "tables_inv ?cls" using c(2) by (simp add: tables_inv_def)
    ultimately have "cls_inv rs ?cls"
      using assms(1) c(3,4) sub by (auto simp: cls_inv_def)
    with m show thesis using step c(1) n1 True by (intro that [of ?cls]) simp_all
  next
    case False
    have "\<exists>ts mp mc. update_tables_after_removal rs ?cls1 t (prio rs r) =
      (set_table ?cls1 t (tstore ?cls1 t\<lparr>max_priority := mp, max_count := mc\<rparr>))\<lparr>tables_priority := ts\<rparr>
    \<and> mset ts = mset (tables_priority ?cls1) \<and> prio_ok rs (mset (table_rules (tstore ?cls1 t))) mp mc
    \<and> ordered ((max_priority \<circ> tstore ?cls1)(t := mp)) ts"
      by (rule update_after_removal)
        (use ti1 tables_inv_priority [OF ti] l(2) h'(2) pk ms tr in \<open>simp_all add: tables_inv_core\<close>)
    then obtain ts mp mc where u: "update_tables_after_removal rs ?cls1 t (prio rs r) =
      (set_table ?cls1 t (?tb1\<lparr>max_priority := mp, max_count := mc\<rparr>))\<lparr>tables_priority := ts\<rparr>"
      "mset ts = mset (tables_priority cls)" "prio_ok rs (mset (table_rules ?tb1)) mp mc"
      "ordered ((max_priority \<circ> tstore ?cls1)(t := mp)) ts" by auto
    let ?tb2 = "?tb1\<lparr>max_priority := mp, max_count := mc\<rparr>"
    let ?cls = "(set_table ?cls1 t ?tb2)\<lparr>tables_priority := ts, n_rules := n_rules cls - 1\<rparr>"
    have tr2: "table_rules ?tb2 = table_rules ?tb1" by (simp add: table_rules_def)
    have "minimask_wf (t_mask ?tb)" using tinv by (simp add: table_inv_def)
    then have "table_inv rs ?tb2" unfolding table_inv_def tr2 using h'(2) u(3) n1 by simp
    moreover have "max_priority \<circ> tstore ?cls = (max_priority \<circ> tstore ?cls1)(t := mp)" by auto
    ultimately have "cls_inv rs ?cls
      \<and> mset (cls_rules ?cls) + mset (table_rules ?tb) = mset (cls_rules cls) + mset (table_rules ?tb2)"
      using cls_inv_store [OF cls_inv_but_of [OF assms(1) l(2)], of ?cls ?tb2] u(2,4) False len tr2 by simp
    then have "cls_inv rs ?cls" "mset (cls_rules cls) = add_mset r (mset (cls_rules ?cls))" using ms tr tr2 by simp_all
    then show thesis using step u(1) n1 False by (intro that [of ?cls]) simp_all
  qed
qed

section \<open>No rule occurs twice\<close>

lemma table_rules_distinct:
  assumes "table_inv rs tb"
  shows "distinct (table_rules tb)"
  unfolding table_rules_def
proof (rule distinct_concat)
  have inv: "rings_inv rs (t_mask tb) (t_rules tb)" using assms by (simp add: table_inv_def)
  show "distinct (hmap_elems (t_rules tb))" by (rule rings_inv_distinct [OF inv])
  fix ring
  assume ring: "ring \<in> set (hmap_elems (t_rules tb))"
  have "falling rs ring \<Longrightarrow> distinct ring" by (induction ring) auto
  then show "distinct ring" using rings_inv_ring [OF inv ring] by (simp add: ring_ok_def)
  fix ring'
  assume ring': "ring' \<in> set (hmap_elems (t_rules tb))" and ne: "ring \<noteq> ring'"
  then show "set ring \<inter> set ring' = {}"
    using ring_ok_rule(3) [OF rings_inv_ring [OF inv ring]] ring_ok_rule(3) [OF rings_inv_ring [OF inv ring']]
      rings_unique [OF inv ring ring'] by fastforce
qed

lemma cls_rules_distinct:
  assumes "cls_inv rs cls"
  shows "distinct (cls_rules cls)"
proof -
  let ?E = "hmap_elems (tables cls)" and ?R = "\<lambda>t. table_rules (tstore cls t)"
  have d: "t = u" if "t \<in> set ?E" "u \<in> set ?E" "r \<in> set (?R t)" "r \<in> set (?R u)" for t u r
    using that table_rules_ok(2) cls_inv_table [OF assms] by (intro cls_inv_mask_inj [OF assms]) metis+
  have ne: "?R t \<noteq> []" if "t \<in> set ?E" for t using assms that by (simp add: cls_inv_def)
  have "distinct ?E" using assms by (simp add: cls_inv_def tables_inv_def)
  moreover have "inj_on ?R (set ?E)"
    using d ne by (intro inj_onI) (metis hd_in_set)
  moreover have "\<forall>t \<in> set ?E. distinct (?R t)" using assms table_rules_distinct by (auto simp: cls_inv_def)
  ultimately show ?thesis
    unfolding cls_rules_def using d by (intro distinct_concat) (auto simp: distinct_map)
qed

section \<open>Creating and destroying\<close>

lemma init_inv: "cls_inv rs classifier_init" "cls_rules classifier_init = []"
  by (simp_all add: classifier_init_def cls_inv_def tables_inv_def cls_rules_def)

lemma destroy_tables_correct:
  assumes "tables_inv cls" and "mset (hmap_elems (tables cls)) = mset ts"
  obtains cls' where "destroy_tables cls ts = Some cls'" "tables_inv cls'" "hmap_elems (tables cls') = []"
  using assms
proof (induction ts arbitrary: cls thesis)
  case (Cons t ts)
  have "t \<in> set (hmap_elems (tables cls))" using Cons.prems(3) by (metis list.set_intros(1) mset_eq_setD)
  then obtain cls1 where c: "destroy_table cls t = Some cls1" "tables_inv cls1"
    "mset (hmap_elems (tables cls)) = add_mset t (mset (hmap_elems (tables cls1)))"
    using destroy_table_correct [OF Cons.prems(2)] by metis
  obtain cls' where "destroy_tables cls1 ts = Some cls'" "tables_inv cls'" "hmap_elems (tables cls') = []"
    by (rule Cons.IH [of cls1]) (use c Cons.prems(3) in auto)
  with c(1) show ?case by (intro Cons.prems(1) [of cls']) simp_all
qed simp

lemma destroy_correct:
  assumes "cls_inv rs cls"
  obtains cls' where "classifier_destroy cls = Some cls'" "cls_rules cls' = []" "tables_priority cls' = []"
proof -
  have t: "tables_inv cls" using assms by (simp add: cls_inv_def)
  then have "HMAP_FOR_EACH (tables cls) = Some (hmap_elems (tables cls))"
    by (intro HMAP_FOR_EACH_elems) (simp add: tables_inv_def)
  moreover obtain cls' where "destroy_tables cls (hmap_elems (tables cls)) = Some cls'" "tables_inv cls'"
    "hmap_elems (tables cls') = []" using destroy_tables_correct [OF t refl] by blast
  ultimately show thesis
    by (intro that [of cls']) (auto simp: classifier_destroy_def cls_rules_def tables_inv_def)
qed

end
