(* ===== verification/Classifier_Cursor.thy ===== *)
theory Classifier_Cursor
  imports Classifier_Correct
begin

text \<open>
  Iteration over the rules of a classifier with a cursor (\<open>cls_cursor_first\<close>, \<open>cls_cursor_next\<close>,
  \<open>CLS_CURSOR_FOR_EACH\<close>): the loop ends, and it visits each rule that the target loosely matches
  exactly once and no other rule. A loose match is characterised by the packets: every packet that
  matches the rule matches the target.
\<close>

section \<open>The order of the visit\<close>

definition visit_rings :: "rule_store \<Rightarrow> cls_rule option \<Rightarrow> ring list \<Rightarrow> ptr list" where
  "visit_rings rs target rings = concat (filter (\<lambda>ring. rule_matches (rs (hd ring)) target) rings)"

definition mask_fits :: "cls_rule option \<Rightarrow> minimask \<Rightarrow> bool" where
  "mask_fits target m = (case target of None \<Rightarrow> True | Some tg \<Rightarrow> \<not> minimask_has_extra m (mm_mask (cr_match tg)))"

definition visit_table :: "rule_store \<Rightarrow> cls_rule option \<Rightarrow> cls_table \<Rightarrow> ptr list" where
  "visit_table rs target tb =
     (if mask_fits target (t_mask tb) then visit_rings rs target (hmap_elems (t_rules tb)) else [])"

text \<open>Where the cursor goes once a ring is done.\<close>

definition advance :: "rule_store \<Rightarrow> classifier \<Rightarrow> cls_rule option \<Rightarrow> ptr \<Rightarrow> ring list \<Rightarrow> ptr list
    \<Rightarrow> (cursor_pos \<times> ptr list) option" where
  "advance rs cls target t rings ts = (case dropWhile (\<lambda>ring. \<not> rule_matches (rs (hd ring)) target) rings of
       ring # rings' \<Rightarrow> Some ((t, ring # rings', ring), ts)
     | [] \<Rightarrow> cursor_tables rs cls target ts)"

lemma iter_None [simp]: "cursor_iter rs cls target None = Some []"
  by (simp add: cursor_iter.simps)

lemma iter_Some: "cursor_iter rs cls target (Some ((t, rings, rest), ts)) =
    map_option (Cons (hd rest)) (cursor_iter rs cls target (cls_cursor_next rs cls target ((t, rings, rest), ts)))"
  by (subst cursor_iter.simps) (simp add: map_conv_bind_option comp_def)

lemma iter_ring:
  assumes "sorted_wrt (\<lambda>a b. prio rs b < prio rs a) (pre @ rest)" and "rest \<noteq> []"
  shows "cursor_iter rs cls target (Some ((t, (pre @ rest) # rings, rest), ts)) =
    map_option ((@) rest) (cursor_iter rs cls target (advance rs cls target t rings ts))"
  using assms
proof (induction rest arbitrary: pre)
  case (Cons r rest)
  show ?case
  proof (cases rest)
    case Nil
    have "\<not> prio rs (hd (pre @ [r])) < prio rs r" using Cons.prems(1) Nil by (cases pre) auto
    then show ?thesis
      by (simp add: Nil iter_Some cls_cursor_next_def advance_def Let_def split: list.split)
  next
    case (Cons n ns)
    have "prio rs n < prio rs r" using Cons.prems(1) Cons by (simp add: sorted_wrt_append)
    then have "cls_cursor_next rs cls target ((t, (pre @ r # rest) # rings, r # rest), ts)
        = Some ((t, (pre @ r # rest) # rings, rest), ts)"
      by (simp add: cls_cursor_next_def Cons Let_def)
    moreover have "cursor_iter rs cls target (Some ((t, ((pre @ [r]) @ rest) # rings, rest), ts)) =
        map_option ((@) rest) (cursor_iter rs cls target (advance rs cls target t rings ts))"
      using Cons.prems(1) Cons by (intro Cons.IH) simp_all
    ultimately show ?thesis by (simp add: iter_Some option.map_comp comp_def)
  qed
qed simp

lemma iter_rings:
  assumes "\<And>ring. ring \<in> set rings \<Longrightarrow> ring \<noteq> [] \<and> sorted_wrt (\<lambda>a b. prio rs b < prio rs a) ring"
  shows "cursor_iter rs cls target (advance rs cls target t rings ts) =
    map_option ((@) (visit_rings rs target rings)) (cursor_iter rs cls target (cursor_tables rs cls target ts))"
  using assms
proof (induction rings)
  case Nil
  show ?case by (simp add: advance_def visit_rings_def option.map_id0 [unfolded id_def])
next
  case (Cons ring rings)
  have ih: "cursor_iter rs cls target (advance rs cls target t rings ts) =
      map_option ((@) (visit_rings rs target rings)) (cursor_iter rs cls target (cursor_tables rs cls target ts))"
    using Cons by simp
  show ?case
  proof (cases "rule_matches (rs (hd ring)) target")
    case True
    then have "advance rs cls target t (ring # rings) ts = Some ((t, ring # rings, ring), ts)" by (simp add: advance_def)
    with iter_ring [of rs "[]" ring] Cons.prems [of ring] ih True show ?thesis
      by (simp add: visit_rings_def option.map_comp comp_def)
  next
    case False
    then show ?thesis using ih by (simp add: advance_def visit_rings_def)
  qed
qed

lemma search_table_advance:
  "(case search_table rs (tstore cls t) target of [] \<Rightarrow> cursor_tables rs cls target ts
     | ring # rings \<Rightarrow> Some ((t, ring # rings, ring), ts))
   = (if mask_fits target (t_mask (tstore cls t)) then advance rs cls target t (hmap_elems (t_rules (tstore cls t))) ts
      else cursor_tables rs cls target ts)"
  by (simp add: search_table_def mask_fits_def advance_def split: list.split)

lemma iter_tables:
  assumes "\<And>t. t \<in> set ts \<Longrightarrow> table_inv rs (tstore cls t)"
  shows "cursor_iter rs cls target (cursor_tables rs cls target ts)
    = Some (concat (map (\<lambda>t. visit_table rs target (tstore cls t)) ts))"
  using assms
proof (induction ts)
  case (Cons t ts)
  let ?rings = "hmap_elems (t_rules (tstore cls t))"
  have "ring \<noteq> [] \<and> sorted_wrt (\<lambda>a b. prio rs b < prio rs a) ring" if "ring \<in> set ?rings" for ring
    using Cons.prems [of t] rings_inv_ring [of rs _ _ ring] that by (auto simp: table_inv_def ring_ok_def)
  note r = iter_rings [OF this, where t = t and ts = ts and cls = cls and target = target]
  show ?case
    using Cons by (simp add: search_table_advance r visit_table_def)
qed simp

lemma cursor_visits:
  assumes "cls_inv rs cls"
  shows "CLS_CURSOR_FOR_EACH rs cls target =
    Some (concat (map (\<lambda>t. visit_table rs (cls_cursor_init target) (tstore cls t)) (hmap_elems (tables cls))))"
  unfolding CLS_CURSOR_FOR_EACH_def cls_cursor_first_def Let_def
  by (rule iter_tables) (rule cls_inv_table [OF assms])

section \<open>Loose matches\<close>

text \<open>A rule is a loose match of \<open>c\<close> when \<open>c\<close> matches every packet that the rule matches.\<close>

lemma sub_agree:
  fixes x y p q :: u32
  shows "p AND q = q \<and> x AND q = y AND q \<longleftrightarrow> (\<forall>z. x AND p = z AND p \<longrightarrow> y AND q = z AND q)"
proof
  assume a: "p AND q = q \<and> x AND q = y AND q"
  have "y AND q = z AND q" if z: "x AND p = z AND p" for z
  proof -
    have "y AND q = (x AND p) AND q" using a by (metis and.assoc)
    also have "\<dots> = z AND q" using a z by (metis and.assoc)
    finally show ?thesis .
  qed
  then show "\<forall>z. x AND p = z AND p \<longrightarrow> y AND q = z AND q" by blast
next
  assume a: "\<forall>z. x AND p = z AND p \<longrightarrow> y AND q = z AND q"
  then have xy: "x AND q = y AND q" by simp
  let ?z = "x XOR (q AND NOT p)"
  have "x AND p = ?z AND p" by (rule bit_word_eqI) (auto simp: bit_simps)
  with a have "y AND q = ?z AND q" by blast
  then have "x AND q = ?z AND q" using xy by simp
  then have "bit (x AND q) i = bit (?z AND q) i" for i by simp
  then have "bit q i \<Longrightarrow> bit p i" for i using bit_u32_lt [of q i] by (simp add: bit_simps) blast
  then have "p AND q = q" by (intro bit_word_eqI) (auto simp: bit_simps)
  with xy show "p AND q = q \<and> x AND q = y AND q" by blast
qed

lemma loose_match_words:
  assumes "minimatch_wf (cr_match r)" and "minimatch_wf c"
  shows "cls_rule_is_loose_match r c \<longleftrightarrow> (\<forall>i < FLOW_U32S.
      mask_of (mm_mask (cr_match r)) ! i AND mask_of (mm_mask c) ! i = mask_of (mm_mask c) ! i
    \<and> miniflow_expand (mm_flow (cr_match r)) ! i AND mask_of (mm_mask c) ! i
        = miniflow_expand (mm_flow c) ! i AND mask_of (mm_mask c) ! i)"
  using assms by (auto simp: cls_rule_is_loose_match_def minimatch_wf_def has_extra_iff equal_in_minimask agree_def)

lemma loose_match_packets:
  assumes "minimatch_wf (cr_match r)" and "minimatch_wf c"
  shows "cls_rule_is_loose_match r c \<longleftrightarrow> (\<forall>f. flow_wf f \<longrightarrow> matches (cr_match r) f \<longrightarrow> matches c f)"
proof
  assume "cls_rule_is_loose_match r c"
  then show "\<forall>f. flow_wf f \<longrightarrow> matches (cr_match r) f \<longrightarrow> matches c f"
    unfolding loose_match_words [OF assms] sub_agree matches_def agree_def by blast
next
  let ?x = "miniflow_expand (mm_flow (cr_match r))"
  assume a: "\<forall>f. flow_wf f \<longrightarrow> matches (cr_match r) f \<longrightarrow> matches c f"
  have l: "length ?x = FLOW_U32S" using assms(1) by (simp add: minimatch_wf_def)
  have "miniflow_expand (mm_flow c) ! i AND mask_of (mm_mask c) ! i = z AND mask_of (mm_mask c) ! i"
    if i: "i < FLOW_U32S" and z: "?x ! i AND mask_of (mm_mask (cr_match r)) ! i = z AND mask_of (mm_mask (cr_match r)) ! i" for i z
  proof -
    have "flow_wf (?x[i := z])" using l by simp
    moreover have "matches (cr_match r) (?x[i := z])" using z l i by (auto simp: matches_def agree_def nth_list_update)
    ultimately have "matches c (?x[i := z])" using a by blast
    with i l show ?thesis by (auto simp: matches_def agree_def dest: spec [of _ i])
  qed
  then show "cls_rule_is_loose_match r c" unfolding loose_match_words [OF assms] sub_agree by blast
qed

lemma loose_catchall:
  assumes "minimatch_wf (cr_match r)" and "minimatch_wf c" and "minimask_is_catchall (mm_mask c)"
  shows "cls_rule_is_loose_match r c"
  using assms by (simp add: loose_match_words catchall_iff minimatch_wf_def)

definition loosely :: "cls_rule option \<Rightarrow> cls_rule \<Rightarrow> bool" where
  "loosely target r = (case target of None \<Rightarrow> True | Some tg \<Rightarrow> cls_rule_is_loose_match r (cr_match tg))"

lemma loosely_init:
  assumes "minimatch_wf (cr_match r)" and "\<And>tg. target = Some tg \<Longrightarrow> minimatch_wf (cr_match tg)"
  shows "loosely (cls_cursor_init target) r = loosely target r"
  using assms loose_catchall
  by (auto simp: loosely_def cls_cursor_init_def cls_rule_is_catchall_def split: option.splits)

lemma visit_rings_loosely:
  assumes "\<And>ring. ring \<in> set rings \<Longrightarrow> ring_ok rs m ring" and "mask_fits target m"
  shows "visit_rings rs target rings = filter (\<lambda>r. loosely target (rs r)) (concat rings)"
  using assms(1)
proof (induction rings)
  case (Cons ring rings)
  have ok: "ring_ok rs m ring" using Cons.prems by simp
  have "rule_matches (rs (hd ring)) target = loosely target (rs r)" if "r \<in> set ring" for r
    using assms(2) ring_ok_rule [OF ok that]
    by (simp add: rule_matches_def loosely_def cls_rule_is_loose_match_def mask_fits_def split: option.splits)
  then have "filter (\<lambda>r. loosely target (rs r)) ring = (if rule_matches (rs (hd ring)) target then ring else [])"
    by (auto simp: filter_id_conv filter_empty_conv)
  with Cons show ?case by (simp add: visit_rings_def)
qed (simp add: visit_rings_def)

lemma visit_table_loosely:
  assumes "table_inv rs tb"
  shows "visit_table rs target tb = filter (\<lambda>r. loosely target (rs r)) (table_rules tb)"
proof (cases "mask_fits target (t_mask tb)")
  case True
  have "ring_ok rs (t_mask tb) ring" if "ring \<in> set (hmap_elems (t_rules tb))" for ring
    using assms that by (simp add: table_inv_def rings_inv_def)
  from visit_rings_loosely [OF this True] True show ?thesis by (simp add: visit_table_def table_rules_def)
next
  case False
  then have "\<not> loosely target (rs r)" if "r \<in> set (table_rules tb)" for r
    using table_rules_ok(2) [OF assms that]
    by (simp add: loosely_def mask_fits_def cls_rule_is_loose_match_def split: option.splits)
  with False show ?thesis by (simp add: visit_table_def filter_empty_conv)
qed

lemma cursor_loosely:
  assumes "cls_inv rs cls" and "\<And>tg. target = Some tg \<Longrightarrow> minimatch_wf (cr_match tg)"
  shows "CLS_CURSOR_FOR_EACH rs cls target = Some (filter (\<lambda>r. loosely target (rs r)) (cls_rules cls))"
proof -
  let ?t = "cls_cursor_init target"
  have "map (\<lambda>t. visit_table rs ?t (tstore cls t)) (hmap_elems (tables cls))
      = map (\<lambda>t. filter (\<lambda>r. loosely ?t (rs r)) (table_rules (tstore cls t))) (hmap_elems (tables cls))"
    using visit_table_loosely [OF cls_inv_table [OF assms(1)]] by (intro map_cong) auto
  then have "CLS_CURSOR_FOR_EACH rs cls target = Some (filter (\<lambda>r. loosely ?t (rs r)) (cls_rules cls))"
    unfolding cursor_visits [OF assms(1)] by (simp add: cls_rules_def filter_concat comp_def del: map_eq_conv)
  also have "filter (\<lambda>r. loosely ?t (rs r)) (cls_rules cls) = filter (\<lambda>r. loosely target (rs r)) (cls_rules cls)"
    using loosely_init [OF rule_ok_wf(1) [OF cls_rules_ok [OF assms(1)]] assms(2)] by (intro filter_cong) auto
  finally show ?thesis .
qed

end
