(* ===== verification/Classifier_Spec.thy ===== *)
theory Classifier_Spec
  imports Classifier_Update Classifier_Cursor
begin

text \<open>
  The specification of the classifier and its properties. Abstractly a classifier is a finite map
  from rule values (match and priority) to the rule object that holds that value, \<open>cls_abs\<close>:
  \<open>classifier_replace\<close> is a map update that returns the previous entry, \<open>classifier_remove\<close> deletes
  an entry, \<open>classifier_find_rule_exactly\<close> is application, and a lookup returns a rule of highest
  priority among those whose match covers the packet.
\<close>

section \<open>Abstraction\<close>

definition cls_abs :: "rule_store \<Rightarrow> classifier \<Rightarrow> cls_rule \<rightharpoonup> ptr" where
  "cls_abs rs cls k = find (\<lambda>r. rs r = k) (cls_rules cls)"

lemma cls_abs_iff:
  assumes "cls_inv rs cls"
  shows "cls_abs rs cls k = Some r \<longleftrightarrow> r \<in> set (cls_rules cls) \<and> rs r = k"
proof
  show "cls_abs rs cls k = Some r \<Longrightarrow> r \<in> set (cls_rules cls) \<and> rs r = k"
    unfolding cls_abs_def by (auto dest: find_SomeD)
  assume r: "r \<in> set (cls_rules cls) \<and> rs r = k"
  then obtain r' where r': "cls_abs rs cls k = Some r'"
    unfolding cls_abs_def by (cases "find (\<lambda>r. rs r = k) (cls_rules cls)") (auto simp: find_None_iff)
  then have "r' \<in> set (cls_rules cls) \<and> rs r' = k" unfolding cls_abs_def by (auto dest: find_SomeD)
  with r r' show "cls_abs rs cls k = Some r" using cls_rules_key_inj [OF assms, of r' r] by simp
qed

lemma cls_abs_None: "cls_abs rs cls k = None \<longleftrightarrow> (\<forall>r \<in> set (cls_rules cls). rs r \<noteq> k)"
  by (auto simp: cls_abs_def find_None_iff)

lemma cls_abs_eqI:
  assumes "cls_inv rs cls" and "\<And>k r. m k = Some r \<longleftrightarrow> r \<in> set (cls_rules cls) \<and> rs r = k"
  shows "cls_abs rs cls = m"
proof
  fix k
  show "cls_abs rs cls k = m k"
    using cls_abs_iff [OF assms(1), of k] assms(2) [of k] by (metis not_Some_eq)
qed

lemma exchange_abs:
  assumes "cls_inv rs cls" and "cls_inv rs cls'" and "exchange new old (mset (cls_rules cls)) (mset (cls_rules cls'))"
    and "\<forall>q. old = Some q \<longrightarrow> q \<in> set (cls_rules cls) \<and> rs q = rs new" and "new \<notin> set (cls_rules cls)"
  shows "cls_abs rs cls' = (cls_abs rs cls)(rs new \<mapsto> new)" and "old = cls_abs rs cls (rs new)"
proof -
  have keys: "r = new" if "r \<in> set (cls_rules cls')" "rs r = rs new" "new \<in> set (cls_rules cls')" for r
    using cls_rules_key_inj [OF assms(2) that(1,3,2)] .
  have d: "distinct (cls_rules cls)" by (rule cls_rules_distinct [OF assms(1)])
  have new: "new \<in> set (cls_rules cls')"
    using assms(3) by (cases old) (auto simp: exchange_def simp flip: set_mset_mset)
  have other: "r \<in> set (cls_rules cls') \<longleftrightarrow> r \<in> set (cls_rules cls)" if "rs r \<noteq> rs new" for r
  proof (cases old)
    case None
    then have "set (cls_rules cls') = insert new (set (cls_rules cls))"
      using assms(3) by (simp add: exchange_def flip: set_mset_mset)
    with that show ?thesis by auto
  next
    case (Some q)
    then have q: "rs q = rs new" "q \<in># mset (cls_rules cls)" using assms(4) by auto
    obtain ns where ns: "mset (cls_rules cls) = add_mset q ns" using multi_member_split [OF q(2)] by blast
    then have "mset (cls_rules cls') = add_mset new ns" using assms(3) Some by (simp add: exchange_def)
    with ns that q(1) show ?thesis by (auto simp flip: set_mset_mset)
  qed
  have "((cls_abs rs cls)(rs new \<mapsto> new)) k = Some r \<longleftrightarrow> r \<in> set (cls_rules cls') \<and> rs r = k" for k r
    using new keys other cls_abs_iff [OF assms(1), of k r] by (cases "k = rs new") auto
  then show "cls_abs rs cls' = (cls_abs rs cls)(rs new \<mapsto> new)" by (rule cls_abs_eqI [OF assms(2)])
  show "old = cls_abs rs cls (rs new)"
  proof (cases old)
    case None
    then have "set (cls_rules cls') = insert new (set (cls_rules cls))"
      using assms(3) by (simp add: exchange_def flip: set_mset_mset)
    then have "\<forall>r \<in> set (cls_rules cls). rs r \<noteq> rs new" using keys new assms(5) by blast
    with None show ?thesis using cls_abs_None [of rs cls] by metis
  next
    case (Some q)
    then show ?thesis using assms(4) cls_abs_iff [OF assms(1)] by metis
  qed
qed

lemma remove_abs:
  assumes "cls_inv rs cls" and "cls_inv rs cls'" and "mset (cls_rules cls) = add_mset r (mset (cls_rules cls'))"
  shows "cls_abs rs cls' = (cls_abs rs cls)(rs r := None)"
proof -
  have "distinct (cls_rules cls) = distinct (r # cls_rules cls')"
    using assms(3) by (intro mset_eq_imp_distinct_iff) simp
  then have d: "r \<notin> set (cls_rules cls')" using cls_rules_distinct [OF assms(1)] by simp
  have s: "set (cls_rules cls) = insert r (set (cls_rules cls'))" using assms(3) by (simp flip: set_mset_mset)
  have "((cls_abs rs cls)(rs r := None)) k = Some q \<longleftrightarrow> q \<in> set (cls_rules cls') \<and> rs q = k" for k q
    using cls_abs_iff [OF assms(1), of k q] cls_rules_key_inj [OF assms(1), of q r] s d
    by (cases "k = rs r") auto
  then show ?thesis by (rule cls_abs_eqI [OF assms(2)])
qed

section \<open>An example classifier\<close>

text \<open>Three rules: a catch-all rule, and two rules on word 3 of the flow with different priorities.\<close>

definition example_match :: "nat \<Rightarrow> u32 \<Rightarrow> u32 \<Rightarrow> match" where
  "example_match c v m = \<lparr>match_flow = (replicate FLOW_U32S 0)[c := v],
     match_wc = \<lparr>wc_masks = (replicate FLOW_U32S 0)[c := m]\<rparr>\<rparr>"

definition example_rules :: rule_store where
  "example_rules r = (if r = 0 then cls_rule_init (example_match 0 0 0) 0
     else cls_rule_init (example_match 3 5 0xff) (of_nat r))"

definition example_cls :: classifier where
  "example_cls = fst (the (classifier_replace example_rules (fst (the (classifier_replace example_rules
     (fst (the (classifier_replace example_rules classifier_init 0))) 7))) 9))"

lemma example_rule_ok: "rule_ok example_rules r"
proof -
  have "match_wf (example_match c v m) \<and> (v AND m = v \<longrightarrow> match_normal (example_match c v m))" for c v m
    by (cases "c < FLOW_U32S") (auto simp: example_match_def match_normal_def nth_list_update)
  then show ?thesis by (simp add: rule_ok_def example_rules_def cls_rule_init_def minimatch_init_normal)
qed

lemma example_step:
  assumes "cls_inv example_rules cls" and "\<forall>q \<in> set (cls_rules cls). prio example_rules q \<noteq> prio example_rules r"
  defines "cls' \<equiv> fst (the (classifier_replace example_rules cls r))"
  shows "cls_inv example_rules cls'" and "mset (cls_rules cls') = add_mset r (mset (cls_rules cls))"
proof -
  obtain c old where c: "classifier_replace example_rules cls r = Some (c, old)" "cls_inv example_rules c"
    "exchange r old (mset (cls_rules cls)) (mset (cls_rules c))"
    "\<forall>q. old = Some q \<longrightarrow> q \<in> set (cls_rules cls) \<and> example_rules q = example_rules r"
    by (rule replace_correct [OF assms(1) example_rule_ok [of r]])
  have "old = None" using c(4) assms(2) by (cases old) fastforce+
  with c show "cls_inv example_rules cls'" "mset (cls_rules cls') = add_mset r (mset (cls_rules cls))"
    by (auto simp: cls'_def exchange_def)
qed

lemma example_prio: "prio example_rules r = of_nat r"
  by (simp add: example_rules_def cls_rule_init_def)

lemma example_cls_inv: "cls_inv example_rules example_cls" "mset (cls_rules example_cls) = {#0, 7, 9#}"
proof -
  let ?c1 = "fst (the (classifier_replace example_rules classifier_init 0))"
  let ?c2 = "fst (the (classifier_replace example_rules ?c1 7))"
  note p = example_prio
  have 1: "cls_inv example_rules ?c1" "mset (cls_rules ?c1) = {#0#}"
    using example_step [OF init_inv(1), of 0] by (simp_all add: init_inv)
  have s1: "set (cls_rules ?c1) = {0}" using 1(2) by (metis set_mset_add_mset_insert set_mset_empty set_mset_mset)
  have 2: "cls_inv example_rules ?c2" "mset (cls_rules ?c2) = {#0, 7#}"
    using example_step [OF 1(1), of 7] 1(2) by (simp_all add: s1 p add_mset_commute)
  have s2: "set (cls_rules ?c2) = {0, 7}" using 2(2) by (metis set_mset_add_mset_insert set_mset_empty set_mset_mset)
  show "cls_inv example_rules example_cls" "mset (cls_rules example_cls) = {#0, 7, 9#}"
    using example_step [OF 2(1), of 9] 2(2) by (simp_all add: example_cls_def s2 p add_mset_commute)
qed

lemma example_set: "set (cls_rules example_cls) = {0, 7, 9}"
  using example_cls_inv(2) by (metis set_mset_add_mset_insert set_mset_empty set_mset_mset)

lemma exchange_size:
  assumes "exchange new old (mset xs) (mset ys)"
  shows "length ys = length xs + (if old = None then 1 else 0)"
proof (cases old)
  case None
  then have "size (mset ys) = size (mset xs) + 1" using assms by (simp add: exchange_def del: size_mset)
  with None show ?thesis by simp
next
  case (Some q)
  then have q: "q \<in># mset xs" "mset ys = add_mset new (mset xs - {#q#})" using assms by (simp_all add: exchange_def)
  have "size (mset ys) = size (mset xs)" unfolding q(2) size_add_mset by (rule size_Suc_Diff1 [OF q(1)])
  with Some show ?thesis by simp
qed

lemma cls_abs_cong:
  "(\<And>r. r \<in> set (cls_rules cls) \<Longrightarrow> rs' r = rs r) \<Longrightarrow> cls_abs rs' cls = cls_abs rs cls"
  unfolding cls_abs_def fun_eq_iff by (intro allI find_cong [OF refl]) simp

lemma overlaps_iff:
  assumes "cls_inv rs cls" and "minimatch_wf (cr_match target)"
  shows "classifier_rule_overlaps rs cls target \<longleftrightarrow> (\<exists>r \<in> set (cls_rules cls). prio rs r = priority target
    \<and> (\<exists>f. flow_wf f \<and> matches (cr_match target) f \<and> matches (cr_match (rs r)) f))"
proof -
  have s: "sorted_wrt (\<lambda>t u. max_priority (tstore cls u) \<le> max_priority (tstore cls t)) (tables_priority cls)"
    using assms(1) by (simp add: cls_inv_def tables_inv_def)
  have t: "\<forall>t \<in> set (tables_priority cls). table_inv rs (tstore cls t)"
    using cls_inv_table [OF assms(1)] by (simp add: cls_inv_tables_priority [OF assms(1)])
  show ?thesis
    unfolding classifier_rule_overlaps_def tables_overlap_iff [OF t s assms(2)] cls_inv_tables_priority [OF assms(1)]
    using in_cls_rules by blast
qed

section \<open>Properties\<close>

text \<open>C1: \<open>classifier_lookup\<close> returns a rule of the classifier that matches the packet and has the
  highest priority among all rules that match it, and NULL exactly when no rule matches.\<close>

theorem classifier_lookup_correct:
  assumes "cls_inv rs cls"
  shows "case fst (classifier_lookup rs cls f wc) of
      None \<Rightarrow> \<forall>r \<in> set (cls_rules cls). \<not> matches (cr_match (rs r)) f
    | Some r \<Rightarrow> r \<in> set (cls_rules cls) \<and> matches (cr_match (rs r)) f
        \<and> (\<forall>r' \<in> set (cls_rules cls). matches (cr_match (rs r')) f \<longrightarrow> prio rs r' \<le> prio rs r)"
  by (rule classifier_lookup_best [OF assms])

theorem classifier_lookup_correct_witness:
  "case fst (classifier_lookup example_rules example_cls ((replicate FLOW_U32S 0)[3 := 0x105]) None) of
      None \<Rightarrow> \<forall>r \<in> set (cls_rules example_cls). \<not> matches (cr_match (example_rules r)) ((replicate FLOW_U32S 0)[3 := 0x105])
    | Some r \<Rightarrow> r \<in> set (cls_rules example_cls) \<and> matches (cr_match (example_rules r)) ((replicate FLOW_U32S 0)[3 := 0x105])
        \<and> (\<forall>r' \<in> set (cls_rules example_cls). matches (cr_match (example_rules r')) ((replicate FLOW_U32S 0)[3 := 0x105])
             \<longrightarrow> prio example_rules r' \<le> prio example_rules r)"
  by (rule classifier_lookup_correct [OF example_cls_inv(1)])

text \<open>C22: the wildcards that \<open>classifier_lookup\<close> accumulates for the datapath flow are sound: they
  keep every bit that was already significant, and every packet that agrees with the looked-up one on
  the significant bits gets the same lookup result, so a cached result may be used for it.\<close>

theorem classifier_lookup_wildcards:
  assumes "cls_inv rs cls" and "flow_wf (wc_masks w)"
  shows "\<exists>w'. snd (classifier_lookup rs cls f (Some w)) = Some w'
    \<and> (\<forall>c < FLOW_U32S. wc_masks w ! c AND wc_masks w' ! c = wc_masks w ! c)
    \<and> (\<forall>g v. agree f g (wc_masks w') \<longrightarrow>
          fst (classifier_lookup rs cls g v) = fst (classifier_lookup rs cls f (Some w)))"
proof -
  have "\<forall>t \<in> set (tables_priority cls). minimask_wf (t_mask (tstore cls t))"
    using cls_inv_table [OF assms(1)] by (simp add: cls_inv_tables_priority [OF assms(1)] table_inv_def)
  moreover obtain r wc' where e: "lookup_first rs cls f (tables_priority cls) (Some w) = (r, wc')" by force
  ultimately obtain w' where "wc' = Some w'" "wc_le w w'"
    "\<forall>g v. agree f g (wc_masks w') \<longrightarrow> fst (lookup_first rs cls g (tables_priority cls) v) = r"
    using lookup_first_wc [OF _ assms(2)] by blast
  with e show ?thesis unfolding classifier_lookup_def by (auto simp: wc_le_def)
qed

theorem classifier_lookup_wildcards_witness:
  "\<exists>w'. snd (classifier_lookup example_rules example_cls flow_example (Some \<lparr>wc_masks = replicate FLOW_U32S 1\<rparr>)) = Some w'
    \<and> (\<forall>c < FLOW_U32S. wc_masks \<lparr>wc_masks = replicate FLOW_U32S 1\<rparr> ! c AND wc_masks w' ! c
          = wc_masks \<lparr>wc_masks = replicate FLOW_U32S 1\<rparr> ! c)
    \<and> (\<forall>g v. agree flow_example g (wc_masks w') \<longrightarrow>
          fst (classifier_lookup example_rules example_cls g v)
          = fst (classifier_lookup example_rules example_cls flow_example (Some \<lparr>wc_masks = replicate FLOW_U32S 1\<rparr>)))"
  by (rule classifier_lookup_wildcards [OF example_cls_inv(1)]) simp

text \<open>\<open>classifier_find_rule_exactly\<close> finds the rule with exactly the target's match and priority
  if the classifier has one and otherwise returns NULL, and \<open>classifier_find_match_exactly\<close> does so
  for a given match and priority.\<close>

theorem classifier_find_exactly_correct:
  assumes "cls_inv rs cls" and "minimatch_wf (cr_match target)"
  shows "classifier_find_rule_exactly rs cls target = cls_abs rs cls target
    \<and> classifier_find_match_exactly rs cls m p = cls_abs rs cls \<lparr>cr_match = minimatch_init m, priority = p\<rparr>"
proof -
  have e: "classifier_find_rule_exactly rs cls t = cls_abs rs cls t" if "minimatch_wf (cr_match t)" for t
    using find_rule_exactly_iff [OF assms(1) that] cls_abs_iff [OF assms(1), of t] by (metis not_Some_eq)
  then show ?thesis using assms(2) by (simp add: classifier_find_match_exactly_def cls_rule_init_def)
qed

theorem classifier_find_exactly_correct_witness:
  "classifier_find_rule_exactly example_rules example_cls (example_rules 7) = cls_abs example_rules example_cls (example_rules 7)
    \<and> classifier_find_match_exactly example_rules example_cls (example_match 3 5 0xff) 8
        = cls_abs example_rules example_cls \<lparr>cr_match = minimatch_init (example_match 3 5 0xff), priority = 8\<rparr>"
  by (rule classifier_find_exactly_correct [OF example_cls_inv(1) rule_ok_wf(1) [OF example_rule_ok]])

text \<open>C23: \<open>classifier_rule_overlaps\<close> answers true exactly when some rule of the classifier has the
  target's priority and some packet matches both that rule and the target.\<close>

theorem classifier_overlaps_correct:
  assumes "cls_inv rs cls" and "minimatch_wf (cr_match target)"
  shows "classifier_rule_overlaps rs cls target \<longleftrightarrow> (\<exists>r \<in> set (cls_rules cls). prio rs r = priority target
    \<and> (\<exists>f. flow_wf f \<and> matches (cr_match target) f \<and> matches (cr_match (rs r)) f))"
  by (rule overlaps_iff [OF assms])

theorem classifier_overlaps_correct_witness:
  "classifier_rule_overlaps example_rules example_cls (example_rules 7) \<longleftrightarrow>
    (\<exists>r \<in> set (cls_rules example_cls). prio example_rules r = priority (example_rules 7)
    \<and> (\<exists>f. flow_wf f \<and> matches (cr_match (example_rules 7)) f \<and> matches (cr_match (example_rules r)) f))"
  by (rule classifier_overlaps_correct [OF example_cls_inv(1) rule_ok_wf(1) [OF example_rule_ok]])

text \<open>C2: \<open>classifier_replace\<close> never faults, keeps the invariant and refines a map update: the new rule
  takes the place of the rule with the same match and priority, if any, which is what it returns; the
  number of rules grows by one exactly when there was none.\<close>

theorem classifier_replace_refines:
  assumes "cls_inv rs cls" and "rule_ok rs new" and "new \<notin> set (cls_rules cls)"
  shows "\<exists>cls' old. classifier_replace rs cls new = Some (cls', old) \<and> cls_inv rs cls'
    \<and> cls_abs rs cls' = (cls_abs rs cls)(rs new \<mapsto> new) \<and> old = cls_abs rs cls (rs new)
    \<and> classifier_count cls' = classifier_count cls + (if old = None then 1 else 0)"
proof -
  obtain cls' old where c: "classifier_replace rs cls new = Some (cls', old)" "cls_inv rs cls'"
    "exchange new old (mset (cls_rules cls)) (mset (cls_rules cls'))"
    "\<forall>q. old = Some q \<longrightarrow> q \<in> set (cls_rules cls) \<and> rs q = rs new"
    by (rule replace_correct [OF assms(1,2)])
  have "classifier_count cls' = classifier_count cls + (if old = None then 1 else 0)"
    using exchange_size [OF c(3)] assms(1) c(2) by (simp add: classifier_count_def cls_inv_def)
  with c exchange_abs [OF assms(1) c(2-4) assms(3)] show ?thesis by blast
qed

theorem classifier_replace_refines_witness:
  "\<exists>cls' old. classifier_replace example_rules example_cls 11 = Some (cls', old) \<and> cls_inv example_rules cls'
    \<and> cls_abs example_rules cls' = (cls_abs example_rules example_cls)(example_rules 11 \<mapsto> 11)
    \<and> old = cls_abs example_rules example_cls (example_rules 11)
    \<and> classifier_count cls' = classifier_count example_cls + (if old = None then 1 else 0)"
  by (rule classifier_replace_refines [OF example_cls_inv(1) example_rule_ok]) (simp add: example_set)

text \<open>\<open>classifier_insert\<close> adds the rule when no rule has its match and priority; otherwise its
  assertion fails.\<close>

theorem classifier_insert_correct:
  assumes "cls_inv rs cls" and "rule_ok rs new" and "new \<notin> set (cls_rules cls)"
  shows "case classifier_insert rs cls new of
      None \<Rightarrow> \<exists>r \<in> set (cls_rules cls). rs r = rs new
    | Some cls' \<Rightarrow> cls_inv rs cls' \<and> (\<forall>r \<in> set (cls_rules cls). rs r \<noteq> rs new)
        \<and> mset (cls_rules cls') = add_mset new (mset (cls_rules cls))"
proof -
  obtain cls' old where c: "classifier_replace rs cls new = Some (cls', old)" "cls_inv rs cls'"
    "exchange new old (mset (cls_rules cls)) (mset (cls_rules cls'))"
    "\<forall>q. old = Some q \<longrightarrow> q \<in> set (cls_rules cls) \<and> rs q = rs new"
    by (rule replace_correct [OF assms(1,2)])
  have o: "old = cls_abs rs cls (rs new)" by (rule exchange_abs(2) [OF assms(1) c(2-4) assms(3)])
  show ?thesis
  proof (cases old)
    case None
    then have "\<forall>r \<in> set (cls_rules cls). rs r \<noteq> rs new" using o cls_abs_None by metis
    with None c show ?thesis by (simp add: classifier_insert_def exchange_def)
  qed (use c in \<open>auto simp: classifier_insert_def\<close>)
qed

theorem classifier_insert_correct_witness:
  "case classifier_insert example_rules example_cls 11 of
      None \<Rightarrow> \<exists>r \<in> set (cls_rules example_cls). example_rules r = example_rules 11
    | Some cls' \<Rightarrow> cls_inv example_rules cls' \<and> (\<forall>r \<in> set (cls_rules example_cls). example_rules r \<noteq> example_rules 11)
        \<and> mset (cls_rules cls') = add_mset 11 (mset (cls_rules example_cls))"
  by (rule classifier_insert_correct [OF example_cls_inv(1) example_rule_ok]) (simp add: example_set)

text \<open>C3: \<open>classifier_remove\<close> of a rule in the classifier never faults, keeps the invariant (the table
  counters, the order of the tables and that no table is empty included) and deletes exactly that
  rule: it is no longer found.\<close>

theorem classifier_remove_refines:
  assumes "cls_inv rs cls" and "r \<in> set (cls_rules cls)"
  shows "\<exists>cls'. classifier_remove rs cls r = Some cls' \<and> cls_inv rs cls'
    \<and> cls_abs rs cls' = (cls_abs rs cls)(rs r := None)
    \<and> set (cls_rules cls') = set (cls_rules cls) - {r}
    \<and> classifier_count cls' = classifier_count cls - 1"
proof -
  obtain cls' where c: "classifier_remove rs cls r = Some cls'" "cls_inv rs cls'"
    "mset (cls_rules cls) = add_mset r (mset (cls_rules cls'))"
    by (rule remove_correct [OF assms])
  have "distinct (cls_rules cls) = distinct (r # cls_rules cls')" using c(3) by (intro mset_eq_imp_distinct_iff) simp
  moreover have "set (cls_rules cls) = set (r # cls_rules cls')" using c(3) by (intro mset_eq_setD) simp
  ultimately have "set (cls_rules cls') = set (cls_rules cls) - {r}" using cls_rules_distinct [OF assms(1)] by auto
  moreover have "length (cls_rules cls) = length (r # cls_rules cls')" using c(3) by (intro mset_eq_length) simp
  ultimately show ?thesis
    using c remove_abs [OF assms(1) c(2,3)] assms(1) by (simp add: classifier_count_def cls_inv_def)
qed

theorem classifier_remove_refines_witness:
  "\<exists>cls'. classifier_remove example_rules example_cls 9 = Some cls' \<and> cls_inv example_rules cls'
    \<and> cls_abs example_rules cls' = (cls_abs example_rules example_cls)(example_rules 9 := None)
    \<and> set (cls_rules cls') = set (cls_rules example_cls) - {9}
    \<and> classifier_count cls' = classifier_count example_cls - 1"
  by (rule classifier_remove_refines [OF example_cls_inv(1)]) (simp add: example_set)

text \<open>C24: a cursor loop (\<open>CLS_CURSOR_FOR_EACH\<close>) ends, and visits once each rule whose every packet
  matches the target, and no other rule; without a target it visits every rule once.\<close>

theorem cls_cursor_correct:
  assumes "cls_inv rs cls" and "\<forall>tg. target = Some tg \<longrightarrow> minimatch_wf (cr_match tg)"
  shows "\<exists>visited. CLS_CURSOR_FOR_EACH rs cls target = Some visited \<and> distinct visited
    \<and> set visited = {r \<in> set (cls_rules cls). case target of None \<Rightarrow> True
        | Some tg \<Rightarrow> \<forall>f. flow_wf f \<longrightarrow> matches (cr_match (rs r)) f \<longrightarrow> matches (cr_match tg) f}"
proof -
  have "loosely target (rs r) \<longleftrightarrow> (case target of None \<Rightarrow> True
        | Some tg \<Rightarrow> \<forall>f. flow_wf f \<longrightarrow> matches (cr_match (rs r)) f \<longrightarrow> matches (cr_match tg) f)"
    if "r \<in> set (cls_rules cls)" for r
    using loose_match_packets [OF rule_ok_wf(1) [OF cls_rules_ok [OF assms(1) that]]] assms(2)
    by (simp add: loosely_def split: option.split)
  moreover have "CLS_CURSOR_FOR_EACH rs cls target = Some (filter (\<lambda>r. loosely target (rs r)) (cls_rules cls))"
    by (rule cursor_loosely [OF assms(1)]) (use assms(2) in blast)
  ultimately show ?thesis using cls_rules_distinct [OF assms(1)] by auto
qed

theorem cls_cursor_correct_witness:
  "\<exists>visited. CLS_CURSOR_FOR_EACH example_rules example_cls (Some (example_rules 0)) = Some visited \<and> distinct visited
    \<and> set visited = {r \<in> set (cls_rules example_cls). case Some (example_rules 0) of None \<Rightarrow> True
        | Some tg \<Rightarrow> \<forall>f. flow_wf f \<longrightarrow> matches (cr_match (example_rules r)) f \<longrightarrow> matches (cr_match tg) f}"
  by (rule cls_cursor_correct [OF example_cls_inv(1)]) (use rule_ok_wf(1) [OF example_rule_ok] in simp)

text \<open>a new classifier satisfies the invariant and is empty; \<open>classifier_destroy\<close> never faults and
  frees every table.\<close>

theorem classifier_init_destroy:
  "cls_inv rs classifier_init \<and> classifier_is_empty classifier_init \<and> cls_rules classifier_init = []
   \<and> (cls_inv rs cls \<longrightarrow> (\<exists>cls'. classifier_destroy cls = Some cls' \<and> cls_rules cls' = [] \<and> tables_priority cls' = []))"
proof -
  have "\<exists>cls'. classifier_destroy cls = Some cls' \<and> cls_rules cls' = [] \<and> tables_priority cls' = []"
    if "cls_inv rs cls"
    using destroy_correct [OF that] by metis
  then show ?thesis using init_inv by (simp add: classifier_is_empty_def classifier_init_def)
qed

theorem classifier_init_destroy_witness:
  "\<exists>cls'. classifier_destroy example_cls = Some cls' \<and> cls_rules cls' = [] \<and> tables_priority cls' = []"
  using classifier_init_destroy [of example_rules example_cls] example_cls_inv(1) by blast

end
