(* ===== verification/OVS_Heap.thy ===== *)
theory OVS_Heap
  imports Prelude
begin

text \<open>
  The binary max-heap of \<open>OFTonSGX/trusted/lib/heap.h\<close> and \<open>heap.c\<close>, on which the eviction groups
  and the rules of a group are ordered. The array holds pointers to nodes embedded in the clients'
  structures, and each node holds its index, so an operation changes the array and the node store
  together. Element 0 of the array is unused. \<open>size_t\<close> values are natural numbers: the array bounds
  them. Entries that \<open>xrealloc\<close> adds are indeterminate; the model writes 0 and never reads them.

  \<open>heap_wf\<close> is the structural invariant (the array is large enough, every node in the heap knows its
  index) and \<open>heap_inv\<close> adds the heap order. The interface a client relies on is the locale
  \<open>prio_queue\<close> at the end.
\<close>

section \<open>State and operations\<close>

record heap_node =
  idx :: nat
  hn_priority :: u32

record heap =
  harray :: "ptr list"
  heap_n :: nat
  allocated :: nat

type_synonym node_store = "ptr \<Rightarrow> heap_node"
type_synonym heap_st = "heap \<times> node_store"

abbreviation prio_at :: "heap_st \<Rightarrow> nat \<Rightarrow> u32" where
  "prio_at st i \<equiv> hn_priority (snd st (harray (fst st) ! i))"

definition heap_init_ovs :: heap where
  "heap_init_ovs = \<lparr>harray = [], heap_n = 0, allocated = 0\<rparr>"

definition heap_clear_ovs :: "heap \<Rightarrow> heap" where
  "heap_clear_ovs h = h\<lparr>heap_n := 0\<rparr>"

definition heap_swap_ovs :: "heap \<times> heap \<Rightarrow> heap \<times> heap" where
  "heap_swap_ovs = (\<lambda>(a, b). (b, a))"

definition heap_parent :: "nat \<Rightarrow> nat" where "heap_parent i = i div 2"

definition heap_left :: "nat \<Rightarrow> nat" where "heap_left i = i * 2"

definition heap_right :: "nat \<Rightarrow> nat" where "heap_right i = i * 2 + 1"

definition heap_is_leaf :: "heap \<Rightarrow> nat \<Rightarrow> bool" where
  "heap_is_leaf h i \<longleftrightarrow> heap_left i > heap_n h"

definition heap_count_ovs :: "heap \<Rightarrow> nat" where "heap_count_ovs h = heap_n h"

definition heap_is_empty_ovs :: "heap \<Rightarrow> bool" where "heap_is_empty_ovs h \<longleftrightarrow> heap_n h = 0"

definition heap_max_ovs :: "heap \<Rightarrow> ptr" where "heap_max_ovs h = harray h ! 1"

definition heap_pop_ovs :: "heap \<Rightarrow> heap \<times> ptr" where
  "heap_pop_ovs h = (h\<lparr>heap_n := heap_n h - 1\<rparr>, harray h ! heap_n h)"

definition put_node_ovs :: "heap_st \<Rightarrow> ptr \<Rightarrow> nat \<Rightarrow> heap_st" where
  "put_node_ovs st node i =
     ((fst st)\<lparr>harray := (harray (fst st))[i := node]\<rparr>, (snd st)(node := (snd st node)\<lparr>idx := i\<rparr>))"

definition swap_nodes_ovs :: "heap_st \<Rightarrow> nat \<Rightarrow> nat \<Rightarrow> heap_st" where
  "swap_nodes_ovs st i j = (let old_i = harray (fst st) ! i; old_j = harray (fst st) ! j in
     put_node_ovs (put_node_ovs st old_j i) old_i j)"

function float_up_ovs :: "heap_st \<Rightarrow> nat \<Rightarrow> bool \<Rightarrow> heap_st \<times> bool" where
  "float_up_ovs st i moved =
     (if i \<le> 1 then (st, moved)
      else let parent = heap_parent i in
        if prio_at st parent \<ge> prio_at st i then (st, moved)
        else float_up_ovs (swap_nodes_ovs st parent i) parent True)"
  by pat_completeness auto
termination
  by (relation "measure (\<lambda>(st, i, moved). i)") (auto simp: heap_parent_def)

lemma heap_n_swap [simp]: "heap_n (fst (swap_nodes_ovs st i j)) = heap_n (fst st)"
  by (simp add: swap_nodes_ovs_def put_node_ovs_def Let_def)

definition max_child :: "heap_st \<Rightarrow> nat \<Rightarrow> nat" where
  "max_child st i = (let left = heap_left i; right = heap_right i; m = i;
       m = (if prio_at st left > prio_at st m then left else m)
     in if right \<le> heap_n (fst st) \<and> prio_at st right > prio_at st m then right else m)"

lemma max_child_cases: "max_child st i \<in> {i, 2 * i, 2 * i + 1}"
  by (auto simp: max_child_def Let_def heap_left_def heap_right_def)

lemma max_child_bounds:
  assumes "\<not> heap_is_leaf (fst st) i" and "max_child st i \<noteq> i"
  shows "i < max_child st i" "max_child st i \<le> heap_n (fst st)"
  using assms by (auto simp: max_child_def heap_is_leaf_def Let_def heap_left_def heap_right_def split: if_splits)

function float_down_ovs :: "heap_st \<Rightarrow> nat \<Rightarrow> heap_st" where
  "float_down_ovs st i =
     (if heap_is_leaf (fst st) i then st
      else let m = max_child st i in
        if m = i then st else float_down_ovs (swap_nodes_ovs st m i) m)"
  by pat_completeness auto
termination
  by (relation "measure (\<lambda>(st, i). heap_n (fst st) - i)")
    (auto dest: max_child_bounds intro: diff_less_mono2 less_le_trans)

declare float_up_ovs.simps [simp del] float_down_ovs.simps [simp del]

definition float_up_or_down_ovs :: "heap_st \<Rightarrow> nat \<Rightarrow> heap_st" where
  "float_up_or_down_ovs st i = (case float_up_ovs st i False of
     (st, moved) \<Rightarrow> if \<not> moved then float_down_ovs st i else st)"

definition heap_raw_insert_ovs :: "heap_st \<Rightarrow> ptr \<Rightarrow> u32 \<Rightarrow> heap_st" where
  "heap_raw_insert_ovs st node p = (let h = fst st;
     h = (if heap_n h \<ge> allocated h
          then let al = (if heap_n h = 0 then 1 else 2 * heap_n h)
               in h\<lparr>allocated := al, harray := take (al + 1) (harray h @ replicate (al + 1 - length (harray h)) 0)\<rparr>
          else h);
     h = h\<lparr>heap_n := heap_n h + 1\<rparr>;
     st = put_node_ovs (h, snd st) node (heap_n h)
     in (fst st, (snd st)(node := (snd st node)\<lparr>hn_priority := p\<rparr>)))"

definition heap_raw_change_ovs :: "node_store \<Rightarrow> ptr \<Rightarrow> u32 \<Rightarrow> node_store" where
  "heap_raw_change_ovs nd node p = nd(node := (nd node)\<lparr>hn_priority := p\<rparr>)"

definition heap_raw_remove_ovs :: "heap_st \<Rightarrow> ptr \<Rightarrow> heap_st" where
  "heap_raw_remove_ovs st node = (let i = idx (snd st node); h = fst st;
     st = (if i < heap_n h then put_node_ovs st (harray h ! heap_n h) i else st)
     in ((fst st)\<lparr>heap_n := heap_n (fst st) - 1\<rparr>, snd st))"

definition heap_insert_ovs :: "heap_st \<Rightarrow> ptr \<Rightarrow> u32 \<Rightarrow> heap_st" where
  "heap_insert_ovs st node p = (let st = heap_raw_insert_ovs st node p in
     fst (float_up_ovs st (idx (snd st node)) False))"

definition heap_remove_ovs :: "heap_st \<Rightarrow> ptr \<Rightarrow> heap_st" where
  "heap_remove_ovs st node = (let i = idx (snd st node); st = heap_raw_remove_ovs st node in
     if i \<le> heap_n (fst st) then float_up_or_down_ovs st i else st)"

definition heap_change_ovs :: "heap_st \<Rightarrow> ptr \<Rightarrow> u32 \<Rightarrow> heap_st" where
  "heap_change_ovs st node p = (let st = (fst st, heap_raw_change_ovs (snd st) node p) in
     float_up_or_down_ovs st (idx (snd st node)))"

text \<open>The loop of \<open>heap_rebuild\<close>: \<open>i = n / 2\<close> down to 1.\<close>

definition heap_rebuild_ovs :: "heap_st \<Rightarrow> heap_st" where
  "heap_rebuild_ovs st = fold (\<lambda>i st. float_down_ovs st i) (rev [1..<heap_n (fst st) div 2 + 1]) st"

text \<open>\<open>HEAP_FOR_EACH\<close>: from the first element on, the successor of a node is the element after the
  index stored in it.\<close>

partial_function (option) heap_walk :: "heap_st \<Rightarrow> ptr option \<Rightarrow> ptr list option" where
  "heap_walk st node = (if node = None then Some []
     else do { rest \<leftarrow> heap_walk st (if idx (snd st (the node)) < heap_n (fst st)
                 then Some (harray (fst st) ! (idx (snd st (the node)) + 1)) else None);
               Some (the node # rest) })"

declare heap_walk.simps [code]

definition HEAP_FOR_EACH :: "heap_st \<Rightarrow> ptr list option" where
  "HEAP_FOR_EACH st = heap_walk st (if heap_n (fst st) > 0 then Some (harray (fst st) ! 1) else None)"

section \<open>Invariant\<close>

definition heap_elems :: "heap \<Rightarrow> ptr list" where
  "heap_elems h = map (\<lambda>i. harray h ! i) [1..<heap_n h + 1]"

definition heap_wf :: "heap_st \<Rightarrow> bool" where
  "heap_wf st \<longleftrightarrow> heap_n (fst st) \<le> allocated (fst st)
     \<and> (if allocated (fst st) = 0 then harray (fst st) = [] else length (harray (fst st)) = allocated (fst st) + 1)
     \<and> (\<forall>i. 1 \<le> i \<longrightarrow> i \<le> heap_n (fst st) \<longrightarrow> idx (snd st (harray (fst st) ! i)) = i)"

abbreviation below :: "heap_st \<Rightarrow> nat \<Rightarrow> bool" where
  "below st j \<equiv> prio_at st j \<le> prio_at st (j div 2)"

definition heap_inv :: "heap_st \<Rightarrow> bool" where
  "heap_inv st \<longleftrightarrow> heap_wf st \<and> (\<forall>j. 2 \<le> j \<longrightarrow> j \<le> heap_n (fst st) \<longrightarrow> below st j)"

text \<open>What the sifting loops keep: same nodes, same priorities, and no other node touched.\<close>

definition same_nodes :: "heap_st \<Rightarrow> heap_st \<Rightarrow> bool" where
  "same_nodes st st' \<longleftrightarrow> heap_wf st' \<and> heap_n (fst st') = heap_n (fst st)
     \<and> mset (heap_elems (fst st')) = mset (heap_elems (fst st))
     \<and> (\<forall>x. hn_priority (snd st' x) = hn_priority (snd st x))
     \<and> (\<forall>x. x \<notin> set (heap_elems (fst st)) \<longrightarrow> snd st' x = snd st x)"

lemma same_nodes_refl: "heap_wf st \<Longrightarrow> same_nodes st st"
  by (simp add: same_nodes_def)

lemma same_nodes_trans: "same_nodes a b \<Longrightarrow> same_nodes b c \<Longrightarrow> same_nodes a c"
  unfolding same_nodes_def by (metis mset_eq_setD)

lemma heap_wf_length: "heap_wf st \<Longrightarrow> 1 \<le> i \<Longrightarrow> i \<le> heap_n (fst st) \<Longrightarrow> i < length (harray (fst st))"
  by (auto simp: heap_wf_def split: if_splits)

lemma heap_wf_inj:
  assumes "heap_wf st" and "1 \<le> i" "i \<le> heap_n (fst st)" and "1 \<le> j" "j \<le> heap_n (fst st)"
  shows "harray (fst st) ! i = harray (fst st) ! j \<longleftrightarrow> i = j"
  using assms unfolding heap_wf_def by metis

lemma heap_elems_distinct: "heap_wf st \<Longrightarrow> distinct (heap_elems (fst st))"
  by (auto simp: heap_elems_def distinct_map inj_on_def heap_wf_inj)

lemma in_heap_elems: "x \<in> set (heap_elems h) \<longleftrightarrow> (\<exists>i. 1 \<le> i \<and> i \<le> heap_n h \<and> x = harray h ! i)"
  by (auto simp: heap_elems_def image_iff intro: bexI)

lemma elem_idx:
  assumes "heap_wf st" and "x \<in> set (heap_elems (fst st))"
  shows "1 \<le> idx (snd st x)" "idx (snd st x) \<le> heap_n (fst st)" "harray (fst st) ! idx (snd st x) = x"
  using assms by (auto simp: in_heap_elems heap_wf_def)

lemma heap_walk_elems:
  assumes "heap_wf st" and "1 \<le> i" "i \<le> heap_n (fst st)"
  shows "heap_walk st (Some (harray (fst st) ! i)) = Some (map (\<lambda>i. harray (fst st) ! i) [i..<heap_n (fst st) + 1])"
  using assms(2,3)
proof (induction "heap_n (fst st) - i" arbitrary: i)
  case (Suc k)
  have x: "idx (snd st (harray (fst st) ! i)) = i" using assms(1) Suc.prems by (simp add: heap_wf_def)
  have "heap_walk st (Some (harray (fst st) ! (i + 1))) = Some (map (\<lambda>i. harray (fst st) ! i) [i + 1..<heap_n (fst st) + 1])"
    using Suc by (intro Suc.hyps(1)) simp_all
  moreover have "i < heap_n (fst st)" using Suc.hyps(2) by simp
  moreover have "[i..<heap_n (fst st) + 1] = i # [i + 1..<heap_n (fst st) + 1]" using calculation(2) by (simp add: upt_conv_Cons)
  ultimately show ?case by (subst heap_walk.simps) (simp add: x del: upt_Suc)
next
  case 0
  have "idx (snd st (harray (fst st) ! i)) = i" using assms(1) 0 by (simp add: heap_wf_def)
  then show ?case using 0 by (subst heap_walk.simps) (simp add: heap_walk.simps [of st None] upt_conv_Cons)
qed

lemma HEAP_FOR_EACH_elems: "heap_wf st \<Longrightarrow> HEAP_FOR_EACH st = Some (heap_elems (fst st))"
  using heap_walk_elems [of st 1] by (simp add: HEAP_FOR_EACH_def heap_elems_def heap_walk.simps [of st None])

section \<open>Swapping\<close>

lemma swap_nodes:
  assumes "heap_wf st" and "1 \<le> i" "i \<le> heap_n (fst st)" and "1 \<le> j" "j \<le> heap_n (fst st)" and "i \<noteq> j"
  shows "same_nodes st (swap_nodes_ovs st i j)"
    and "\<And>k. 1 \<le> k \<Longrightarrow> k \<le> heap_n (fst st) \<Longrightarrow>
      prio_at (swap_nodes_ovs st i j) k = prio_at st (if k = i then j else if k = j then i else k)"
proof -
  let ?a = "harray (fst st)" and ?s = "swap_nodes_ovs st i j"
  have l: "i < length ?a" "j < length ?a" using assms heap_wf_length by blast+
  have ne: "?a ! i \<noteq> ?a ! j" using assms heap_wf_inj by blast
  have a: "harray (fst ?s) = ?a[i := ?a ! j, j := ?a ! i]"
    by (simp add: swap_nodes_ovs_def put_node_ovs_def Let_def)
  have nd: "snd ?s = (snd st)(?a ! j := (snd st (?a ! j))\<lparr>idx := i\<rparr>, ?a ! i := (snd st (?a ! i))\<lparr>idx := j\<rparr>)"
    using ne by (simp add: swap_nodes_ovs_def put_node_ovs_def Let_def)
  have at: "harray (fst ?s) ! k = ?a ! (if k = i then j else if k = j then i else k)" for k
    using l assms(6) by (auto simp: a nth_list_update)
  show "\<And>k. 1 \<le> k \<Longrightarrow> k \<le> heap_n (fst st) \<Longrightarrow>
      prio_at ?s k = prio_at st (if k = i then j else if k = j then i else k)"
    unfolding at nd using ne by simp
  have al: "allocated (fst ?s) = allocated (fst st)" by (simp add: swap_nodes_ovs_def put_node_ovs_def Let_def)
  have "idx (snd ?s (harray (fst ?s) ! k)) = k" if k: "1 \<le> k" "k \<le> heap_n (fst st)" for k
  proof -
    have "?a ! k = ?a ! i \<longleftrightarrow> k = i" "?a ! k = ?a ! j \<longleftrightarrow> k = j" using heap_wf_inj assms k by blast+
    moreover have "idx (snd st (?a ! k)) = k" using assms(1) k by (simp add: heap_wf_def)
    ultimately show ?thesis unfolding at nd using ne assms(6) by auto
  qed
  then have wf: "heap_wf ?s" using assms(1) by (auto simp: heap_wf_def al a split: if_splits)
  have in_s: "?a ! i \<in> set (heap_elems (fst st))" "?a ! j \<in> set (heap_elems (fst st))"
    using assms by (auto simp: in_heap_elems)
  define \<pi> where "\<pi> k = (if k = i then j else if k = j then i else k)" for k
  have pi: "\<pi> (\<pi> k) = k" "1 \<le> k \<Longrightarrow> k \<le> heap_n (fst st) \<Longrightarrow> 1 \<le> \<pi> k \<and> \<pi> k \<le> heap_n (fst st)" for k
    using assms by (auto simp: \<pi>_def)
  have "x \<in> set (heap_elems (fst ?s)) \<longleftrightarrow> x \<in> set (heap_elems (fst st))" for x
    unfolding in_heap_elems at heap_n_swap \<pi>_def [symmetric] using pi by metis
  then have "set (heap_elems (fst ?s)) = set (heap_elems (fst st))" by blast
  then have "mset (heap_elems (fst ?s)) = mset (heap_elems (fst st))"
    using heap_elems_distinct [OF wf] heap_elems_distinct [OF assms(1)] set_eq_iff_mset_eq_distinct by blast
  then show "same_nodes st ?s" using wf in_s by (auto simp: same_nodes_def nd)
qed

section \<open>Sifting\<close>

text \<open>The heap order everywhere except, respectively, between \<open>i\<close> and its parent, and between \<open>i\<close> and
  its children; the children of \<open>i\<close> are below its parent in both cases.\<close>

abbreviation in_heap :: "heap_st \<Rightarrow> nat \<Rightarrow> bool" where
  "in_heap st j \<equiv> 2 \<le> j \<and> j \<le> heap_n (fst st)"

definition grand_ok :: "heap_st \<Rightarrow> nat \<Rightarrow> bool" where
  "grand_ok st i \<longleftrightarrow> (\<forall>j. in_heap st j \<longrightarrow> j div 2 = i \<longrightarrow> 2 \<le> i \<longrightarrow> prio_at st j \<le> prio_at st (i div 2))"

definition up_ok :: "heap_st \<Rightarrow> nat \<Rightarrow> bool" where
  "up_ok st i \<longleftrightarrow> (\<forall>j. in_heap st j \<longrightarrow> j \<noteq> i \<longrightarrow> below st j) \<and> grand_ok st i"

text \<open>For \<open>heap_rebuild\<close>, the order only below the nodes from \<open>lo\<close> on.\<close>

definition down_ok :: "nat \<Rightarrow> heap_st \<Rightarrow> nat \<Rightarrow> bool" where
  "down_ok lo st i \<longleftrightarrow> (\<forall>j. in_heap st j \<longrightarrow> lo \<le> j div 2 \<longrightarrow> j div 2 \<noteq> i \<longrightarrow> below st j)
     \<and> (lo \<le> i div 2 \<longrightarrow> grand_ok st i)"

definition ordered_from :: "nat \<Rightarrow> heap_st \<Rightarrow> bool" where
  "ordered_from lo st \<longleftrightarrow> (\<forall>j. in_heap st j \<longrightarrow> lo \<le> j div 2 \<longrightarrow> below st j)"

lemma heap_inv_iff: "heap_inv st \<longleftrightarrow> heap_wf st \<and> (\<forall>j. in_heap st j \<longrightarrow> below st j)"
  by (auto simp: heap_inv_def)

lemma heap_inv_ordered: "heap_inv st \<longleftrightarrow> heap_wf st \<and> ordered_from 1 st"
  by (auto simp: heap_inv_def ordered_from_def)

lemma up_step:
  assumes "heap_wf st" and "2 \<le> i" "i \<le> heap_n (fst st)" and "up_ok st i"
    and "prio_at st (i div 2) < prio_at st i"
  shows "up_ok (swap_nodes_ovs st (i div 2) i) (i div 2)"
proof -
  let ?p = "i div 2" and ?s = "swap_nodes_ovs st (i div 2) i"
  have r: "1 \<le> ?p" "?p \<le> heap_n (fst st)" "1 \<le> i" "?p \<noteq> i" using assms(2,3) by auto
  have pr: "prio_at ?s k = prio_at st (if k = ?p then i else if k = i then ?p else k)"
    if "1 \<le> k" "k \<le> heap_n (fst st)" for k
    using swap_nodes(2) [OF assms(1) r(1,2,3) assms(3) r(4)] that by blast
  have ok: "below st j" if "in_heap st j" "j \<noteq> i" for j using assms(4) that by (simp add: up_ok_def)
  have gr: "prio_at st j \<le> prio_at st ?p" if "in_heap st j" "j div 2 = i" for j
    using assms(2,4) that by (simp add: up_ok_def grand_ok_def)
  have "below ?s j" if j: "in_heap st j" "j \<noteq> ?p" for j
  proof -
    have k: "1 \<le> j" "j \<le> heap_n (fst st)" "1 \<le> j div 2" "j div 2 \<le> heap_n (fst st)" using j by auto
    note p = pr [OF k(1,2)] pr [OF k(3,4)]
    consider "j = i" | "j \<noteq> i" "j div 2 = i" | "j \<noteq> i" "j div 2 = ?p" | "j \<noteq> i" "j div 2 \<noteq> i" "j div 2 \<noteq> ?p" by blast
    then show ?thesis
    proof cases
      case 1
      then show ?thesis unfolding p using assms(5) r(4) by auto
    next
      case 2
      then show ?thesis unfolding p using gr [OF j(1)] j(2) r(4) by auto
    next
      case 3
      then show ?thesis unfolding p using ok [OF j(1)] assms(5) j(2) by auto
    next
      case 4
      then show ?thesis unfolding p using ok [OF j(1)] j(2) by auto
    qed
  qed
  moreover have "prio_at ?s j \<le> prio_at ?s (?p div 2)" if j: "in_heap st j" "j div 2 = ?p" "2 \<le> ?p" for j
  proof -
    have k: "1 \<le> j" "j \<le> heap_n (fst st)" "1 \<le> ?p div 2" "?p div 2 \<le> heap_n (fst st)" "?p div 2 \<noteq> ?p" "?p div 2 \<noteq> i" "j \<noteq> ?p"
      using j r(2) by auto
    have g: "prio_at st ?p \<le> prio_at st (?p div 2)" using ok [of ?p] j(3) r by auto
    show ?thesis
      unfolding pr [OF k(1,2)] pr [OF k(3,4)] using k(5-7) g ok [OF j(1)] j(2) by (auto intro: order_trans)
  qed
  ultimately show ?thesis by (simp add: up_ok_def grand_ok_def)
qed

lemma float_up_correct:
  assumes "heap_wf st" and "1 \<le> i" "i \<le> heap_n (fst st)" and "up_ok st i"
  shows "same_nodes st (fst (float_up_ovs st i m)) \<and> heap_inv (fst (float_up_ovs st i m))"
  using assms
proof (induction st i m rule: float_up_ovs.induct)
  case (1 st i m)
  show ?case
  proof (cases "i \<le> 1 \<or> prio_at st (i div 2) \<ge> prio_at st i")
    case True
    then have "fst (float_up_ovs st i m) = st" by (subst float_up_ovs.simps) (auto simp: heap_parent_def Let_def)
    moreover have "below st j" if "in_heap st j" for j using 1(5) that True by (cases "j = i") (auto simp: up_ok_def)
    ultimately show ?thesis using 1(2) same_nodes_refl by (simp add: heap_inv_iff)
  next
    case False
    let ?s = "swap_nodes_ovs st (i div 2) i"
    have s: "same_nodes st ?s" using False 1(2-4) by (intro swap_nodes(1)) auto
    then have wf: "heap_wf ?s" by (simp add: same_nodes_def)
    have "same_nodes ?s (fst (float_up_ovs ?s (i div 2) True)) \<and> heap_inv (fst (float_up_ovs ?s (i div 2) True))"
      using False 1(2-5) wf up_step [of st i]
      by (intro 1(1) [of "i div 2", unfolded heap_parent_def, OF _ refl]) auto
    moreover have "float_up_ovs st i m = float_up_ovs ?s (i div 2) True"
      using False by (subst float_up_ovs.simps) (auto simp: heap_parent_def Let_def)
    ultimately show ?thesis using same_nodes_trans [OF s] by simp
  qed
qed

lemma max_child_max:
  assumes "\<not> heap_is_leaf (fst st) i" and "in_heap st j" and "j div 2 = i"
  shows "prio_at st j \<le> prio_at st (max_child st i)" and "prio_at st i \<le> prio_at st (max_child st i)"
proof -
  have "j = 2 * i \<or> j = 2 * i + 1" using assms(3) by auto
  then show "prio_at st j \<le> prio_at st (max_child st i)" "prio_at st i \<le> prio_at st (max_child st i)"
    using assms(2) by (auto simp: max_child_def Let_def heap_left_def heap_right_def mult.commute)
qed

lemma down_step:
  assumes "heap_wf st" and "1 \<le> i" and "\<not> heap_is_leaf (fst st) i" and "down_ok lo st i" and "max_child st i \<noteq> i"
    and "lo \<le> i"
  shows "down_ok lo (swap_nodes_ovs st (max_child st i) i) (max_child st i)"
proof -
  let ?c = "max_child st i" let ?s = "swap_nodes_ovs st ?c i"
  note b = max_child_bounds [OF assms(3,5)]
  have c: "?c div 2 = i" "2 \<le> ?c" using max_child_cases [of st i] assms(2,5) by auto
  have r: "1 \<le> ?c" "i \<le> heap_n (fst st)" using b assms(2) by auto
  have pr: "prio_at ?s k = prio_at st (if k = ?c then i else if k = i then ?c else k)"
    if "1 \<le> k" "k \<le> heap_n (fst st)" for k
    using swap_nodes(2) [OF assms(1) r(1) b(2) assms(2) r(2) assms(5)] that by blast
  have ok: "below st j" if "in_heap st j" "lo \<le> j div 2" "j div 2 \<noteq> i" for j using assms(4) that by (simp add: down_ok_def)
  have gr: "prio_at st j \<le> prio_at st (i div 2)" if "in_heap st j" "j div 2 = i" "2 \<le> i" "lo \<le> i div 2" for j
    using assms(4) that by (simp add: down_ok_def grand_ok_def)
  note mx = max_child_max(1) [OF assms(3)]
  have mi: "prio_at st i \<le> prio_at st ?c" using max_child_max(2) [OF assms(3), of ?c] b(2) c by auto
  have "below ?s j" if j: "in_heap st j" "j div 2 \<noteq> ?c" "lo \<le> j div 2" for j
  proof -
    have k: "1 \<le> j" "j \<le> heap_n (fst st)" "1 \<le> j div 2" "j div 2 \<le> heap_n (fst st)" using j by auto
    note p = pr [OF k(1,2)] pr [OF k(3,4)]
    consider "j = ?c" | "j = i" | "j \<noteq> ?c" "j \<noteq> i" "j div 2 = i" | "j \<noteq> ?c" "j \<noteq> i" "j div 2 \<noteq> i" by blast
    then show ?thesis
    proof cases
      case 1
      then show ?thesis unfolding p using mi c(1) assms(5) by auto
    next
      case 2
      then have "j div 2 \<noteq> i" using j by auto
      with 2 show ?thesis unfolding p using gr [of ?c] b(2) c j by auto
    next
      case 3
      then show ?thesis unfolding p using mx [OF j(1)] by auto
    next
      case 4
      then show ?thesis unfolding p using ok [OF j(1)] j(2,3) by auto
    qed
  qed
  moreover have "prio_at ?s j \<le> prio_at ?s (?c div 2)" if j: "in_heap st j" "j div 2 = ?c" for j
  proof -
    have k: "1 \<le> j" "j \<le> heap_n (fst st)" "j \<noteq> ?c" "j \<noteq> i" using j c b(1) by auto
    have "below st j" using ok [OF j(1)] j(2) assms(5,6) b(1) by simp
    then show ?thesis unfolding c(1) pr [OF k(1,2)] pr [OF assms(2) r(2)] using k(3,4) j(2) assms(5) by auto
  qed
  ultimately show ?thesis by (simp add: down_ok_def grand_ok_def)
qed

lemma float_down_correct:
  assumes "heap_wf st" and "1 \<le> i" and "down_ok lo st i" and "lo \<le> i"
  shows "same_nodes st (float_down_ovs st i) \<and> ordered_from lo (float_down_ovs st i)"
  using assms
proof (induction st i rule: float_down_ovs.induct)
  case (1 st i)
  show ?case
  proof (cases "heap_is_leaf (fst st) i \<or> max_child st i = i")
    case True
    then have "float_down_ovs st i = st" by (subst float_down_ovs.simps) (auto simp: Let_def)
    moreover have "below st j" if j: "in_heap st j" "lo \<le> j div 2" for j
    proof (cases "j div 2 = i")
      case True
      then have "\<not> heap_is_leaf (fst st) i" using j(1) by (auto simp: heap_is_leaf_def heap_left_def)
      with max_child_max(1) [OF this j(1) True] True \<open>heap_is_leaf (fst st) i \<or> max_child st i = i\<close> show ?thesis by auto
    qed (use 1(4) j in \<open>simp add: down_ok_def\<close>)
    ultimately show ?thesis using 1(2) same_nodes_refl by (simp add: ordered_from_def)
  next
    case False
    let ?c = "max_child st i" let ?s = "swap_nodes_ovs st ?c i"
    have b: "i < ?c" "?c \<le> heap_n (fst st)" using max_child_bounds [of st i] False by auto
    have s: "same_nodes st ?s" using 1(2,3) b by (intro swap_nodes(1)) auto
    then have wf: "heap_wf ?s" by (simp add: same_nodes_def)
    have "same_nodes ?s (float_down_ovs ?s ?c) \<and> ordered_from lo (float_down_ovs ?s ?c)"
      using False 1(2-5) wf down_step [of st i] b by (intro 1(1) [of ?c, OF _ refl]) auto
    moreover have "float_down_ovs st i = float_down_ovs ?s ?c"
      using False by (subst float_down_ovs.simps) (auto simp: Let_def)
    ultimately show ?thesis using same_nodes_trans [OF s] by simp
  qed
qed

section \<open>The operations on the heap\<close>

lemma float_up_moved: "snd (float_up_ovs st i True)"
proof (induction st i True rule: float_up_ovs.induct)
  case (1 st i)
  then show ?case by (subst float_up_ovs.simps) (auto simp: Let_def)
qed

text \<open>Only the priority of node \<open>i\<close> may be out of order.\<close>

definition hole_ok :: "heap_st \<Rightarrow> nat \<Rightarrow> bool" where
  "hole_ok st i \<longleftrightarrow> (\<forall>j. in_heap st j \<longrightarrow> j \<noteq> i \<longrightarrow> j div 2 \<noteq> i \<longrightarrow> below st j) \<and> grand_ok st i"

lemma float_up_or_down_correct:
  assumes "heap_wf st" and "1 \<le> i" "i \<le> heap_n (fst st)" and "hole_ok st i"
  shows "same_nodes st (float_up_or_down_ovs st i) \<and> heap_inv (float_up_or_down_ovs st i)"
proof (cases "i \<le> 1 \<or> prio_at st (i div 2) \<ge> prio_at st i")
  case True
  then have "float_up_ovs st i False = (st, False)" by (subst float_up_ovs.simps) (auto simp: heap_parent_def Let_def)
  then have e: "float_up_or_down_ovs st i = float_down_ovs st i" by (simp add: float_up_or_down_ovs_def)
  have "below st j" if "in_heap st j" "j div 2 \<noteq> i" for j using assms(4) that True by (cases "j = i") (auto simp: hole_ok_def)
  then have "down_ok 1 st i" using assms(4) by (simp add: down_ok_def hole_ok_def)
  from float_down_correct [OF assms(1,2) this assms(2)] show ?thesis
    unfolding e heap_inv_ordered by (auto simp: same_nodes_def)
next
  case False
  then have "float_up_ovs st i False = float_up_ovs (swap_nodes_ovs st (i div 2) i) (i div 2) True"
    by (subst float_up_ovs.simps) (auto simp: heap_parent_def Let_def)
  then have "snd (float_up_ovs st i False)" by (simp add: float_up_moved)
  then have e: "float_up_or_down_ovs st i = fst (float_up_ovs st i False)"
    by (simp add: float_up_or_down_ovs_def case_prod_beta)
  have "below st j" if j: "in_heap st j" "j \<noteq> i" for j
  proof (cases "j div 2 = i")
    case True
    then have "prio_at st j \<le> prio_at st (i div 2)" using assms(4) j False by (simp add: hole_ok_def grand_ok_def)
    with True False show ?thesis by auto
  qed (use assms(4) j in \<open>simp add: hole_ok_def\<close>)
  then have "up_ok st i" using assms(4) by (simp add: up_ok_def hole_ok_def)
  from float_up_correct [OF assms(1-3) this] show ?thesis unfolding e by simp
qed

lemma rebuild_loop:
  assumes "heap_wf st" and "ordered_from (k + 1) st"
  shows "same_nodes st (fold (\<lambda>i st. float_down_ovs st i) (rev [1..<k + 1]) st)
    \<and> ordered_from 1 (fold (\<lambda>i st. float_down_ovs st i) (rev [1..<k + 1]) st)"
  using assms
proof (induction k arbitrary: st)
  case 0
  then show ?case using same_nodes_refl by simp
next
  case (Suc k)
  have "down_ok (k + 1) st (k + 1)" using Suc.prems(2) by (auto simp: down_ok_def ordered_from_def)
  from float_down_correct [OF Suc.prems(1) _ this]
  have d: "same_nodes st (float_down_ovs st (k + 1))" "ordered_from (k + 1) (float_down_ovs st (k + 1))" by auto
  have wf: "heap_wf (float_down_ovs st (k + 1))" using d(1) by (simp add: same_nodes_def)
  have e: "rev [1..<Suc k + 1] = (k + 1) # rev [1..<k + 1]" by simp
  show ?case
    using Suc.IH [OF wf d(2)] same_nodes_trans [OF d(1)] unfolding e fold_simps by simp
qed

lemma heap_rebuild_ok:
  assumes "heap_wf st"
  shows "same_nodes st (heap_rebuild_ovs st) \<and> heap_inv (heap_rebuild_ovs st)"
proof -
  have "ordered_from (heap_n (fst st) div 2 + 1) st" by (auto simp: ordered_from_def)
  from rebuild_loop [OF assms this] show ?thesis
    by (simp add: heap_rebuild_ovs_def heap_inv_ordered same_nodes_def)
qed

lemma heap_max_ok:
  assumes "heap_inv st" and "heap_n (fst st) > 0"
  shows "heap_max_ovs (fst st) \<in> set (heap_elems (fst st))"
    and "x \<in> set (heap_elems (fst st)) \<Longrightarrow> hn_priority (snd st x) \<le> hn_priority (snd st (heap_max_ovs (fst st)))"
proof -
  show "heap_max_ovs (fst st) \<in> set (heap_elems (fst st))"
    using assms(2) by (auto simp: in_heap_elems heap_max_ovs_def intro!: exI [of _ 1])
  have "prio_at st i \<le> prio_at st 1" if "1 \<le> i" "i \<le> heap_n (fst st)" for i
    using that
  proof (induction i rule: less_induct)
    case (less i)
    show ?case
    proof (cases "i = 1")
      case False
      then have "below st i" using assms(1) less.prems by (simp add: heap_inv_def)
      also have "prio_at st (i div 2) \<le> prio_at st 1" using less False by auto
      finally show ?thesis .
    qed simp
  qed
  then show "x \<in> set (heap_elems (fst st)) \<Longrightarrow> hn_priority (snd st x) \<le> hn_priority (snd st (heap_max_ovs (fst st)))"
    by (auto simp: in_heap_elems heap_max_ovs_def)
qed

lemma heap_raw_insert_ok:
  fixes st node and p :: u32
  assumes "heap_wf st" and "node \<notin> set (heap_elems (fst st))"
  defines "st' \<equiv> heap_raw_insert_ovs st node p"
  shows "heap_wf st'" and "heap_n (fst st') = heap_n (fst st) + 1"
    and "heap_elems (fst st') = heap_elems (fst st) @ [node]"
    and "idx (snd st' node) = heap_n (fst st) + 1" and "hn_priority (snd st' node) = p"
    and "\<And>x. x \<noteq> node \<Longrightarrow> snd st' x = snd st x"
    and "\<And>i. 1 \<le> i \<Longrightarrow> i \<le> heap_n (fst st) \<Longrightarrow> prio_at st' i = prio_at st i"
proof -
  let ?n = "heap_n (fst st)" and ?a = "harray (fst st)"
  let ?al = "if ?n \<ge> allocated (fst st) then if ?n = 0 then 1 else 2 * ?n else allocated (fst st)"
  let ?b = "if ?n \<ge> allocated (fst st) then take (?al + 1) (?a @ replicate (?al + 1 - length ?a) 0) else ?a"
  have f: "heap_n (fst st') = ?n + 1" "allocated (fst st') = ?al" "harray (fst st') = ?b[?n + 1 := node]"
    "snd st' = (snd st)(node := \<lparr>idx = ?n + 1, hn_priority = p\<rparr>)"
    by (auto simp: st'_def heap_raw_insert_ovs_def put_node_ovs_def Let_def)
  have al: "?n + 1 \<le> ?al" by auto
  have len: "length ?b = ?al + 1" using assms(1) by (auto simp: heap_wf_def split: if_splits)
  have old: "harray (fst st') ! i = ?a ! i" if "1 \<le> i" "i \<le> ?n" for i
    using heap_wf_length [OF assms(1) that] that by (auto simp: f(3) nth_append)
  have new: "harray (fst st') ! (?n + 1) = node" unfolding f(3) using len al by simp
  have fresh: "?a ! i \<noteq> node" if "1 \<le> i" "i \<le> ?n" for i using assms(2) that by (auto simp: in_heap_elems)
  show "heap_n (fst st') = ?n + 1" by (rule f(1))
  show "idx (snd st' node) = ?n + 1" "hn_priority (snd st' node) = p" by (simp_all add: f(4))
  show "\<And>x. x \<noteq> node \<Longrightarrow> snd st' x = snd st x" by (simp add: f(4))
  show "\<And>i. 1 \<le> i \<Longrightarrow> i \<le> ?n \<Longrightarrow> prio_at st' i = prio_at st i" using old fresh by (simp add: f(4))
  show "heap_elems (fst st') = heap_elems (fst st) @ [node]" using old new by (auto simp: heap_elems_def f(1))
  have "idx (snd st' (harray (fst st') ! i)) = i" if i: "1 \<le> i" "i \<le> ?n + 1" for i
  proof (cases "i = ?n + 1")
    case True
    then show ?thesis by (simp add: new [simplified] f(4))
  next
    case False
    then have "i \<le> ?n" using i by simp
    with i old [of i] fresh [of i] assms(1) show ?thesis by (simp add: f(4) heap_wf_def)
  qed
  moreover have "?al \<noteq> 0" using al by arith
  ultimately show "heap_wf st'" unfolding heap_wf_def f(1,2) using al len f(3) by simp
qed

lemma heap_insert_ok:
  fixes st node and p :: u32
  assumes "heap_inv st" and "node \<notin> set (heap_elems (fst st))"
  defines "st' \<equiv> heap_insert_ovs st node p"
  shows "heap_inv st'" and "mset (heap_elems (fst st')) = add_mset node (mset (heap_elems (fst st)))"
    and "hn_priority (snd st' x) = (if x = node then p else hn_priority (snd st x))"
    and "x \<notin> set (heap_elems (fst st)) \<Longrightarrow> x \<noteq> node \<Longrightarrow> snd st' x = snd st x"
proof -
  let ?r = "heap_raw_insert_ovs st node p" and ?n = "heap_n (fst st)"
  have wf: "heap_wf st" using assms(1) by (simp add: heap_inv_def)
  note r = heap_raw_insert_ok [OF wf assms(2), where p = p]
  have "below ?r j" if j: "in_heap ?r j" "j \<noteq> ?n + 1" for j
  proof -
    have "1 \<le> j" "j \<le> ?n" "1 \<le> j div 2" "j div 2 \<le> ?n" using j r(2) by auto
    then show ?thesis using j(1) r(7) [of j] r(7) [of "j div 2"] assms(1) by (simp add: heap_inv_def)
  qed
  then have "up_ok ?r (?n + 1)" by (auto simp: up_ok_def grand_ok_def r(2))
  then have "same_nodes ?r st' \<and> heap_inv st'"
    unfolding st'_def heap_insert_ovs_def Let_def r(4) using r(1,2) by (intro float_up_correct) auto
  then show "heap_inv st'" "mset (heap_elems (fst st')) = add_mset node (mset (heap_elems (fst st)))"
    "hn_priority (snd st' x) = (if x = node then p else hn_priority (snd st x))"
    "x \<notin> set (heap_elems (fst st)) \<Longrightarrow> x \<noteq> node \<Longrightarrow> snd st' x = snd st x"
    using r(3,5,6) by (auto simp: same_nodes_def)
qed

lemma heap_change_ok:
  fixes st node and p :: u32
  assumes "heap_inv st" and "node \<in> set (heap_elems (fst st))"
  defines "st' \<equiv> heap_change_ovs st node p"
  shows "heap_inv st'" and "mset (heap_elems (fst st')) = mset (heap_elems (fst st))"
    and "hn_priority (snd st' x) = (if x = node then p else hn_priority (snd st x))"
    and "x \<notin> set (heap_elems (fst st)) \<Longrightarrow> snd st' x = snd st x"
proof -
  let ?r = "(fst st, heap_raw_change_ovs (snd st) node p)" and ?i = "idx (snd st node)"
  have wf: "heap_wf st" using assms(1) by (simp add: heap_inv_def)
  note i = elem_idx [OF wf assms(2)]
  have pr: "prio_at ?r j = (if j = ?i then p else prio_at st j)" if "1 \<le> j" "j \<le> heap_n (fst st)" for j
    using heap_wf_inj [OF wf that i(1,2)] i(3) by (simp add: heap_raw_change_ovs_def)
  have "heap_wf ?r" using wf by (auto simp: heap_wf_def heap_raw_change_ovs_def)
  moreover have "below ?r j" if j: "in_heap ?r j" "j \<noteq> ?i" "j div 2 \<noteq> ?i" for j
  proof -
    have "1 \<le> j" "j \<le> heap_n (fst st)" "1 \<le> j div 2" "j div 2 \<le> heap_n (fst st)" using j by auto
    then show ?thesis using j pr [of j] pr [of "j div 2"] assms(1) by (simp add: heap_inv_def)
  qed
  moreover have "prio_at ?r j \<le> prio_at ?r (?i div 2)" if j: "in_heap ?r j" "j div 2 = ?i" "2 \<le> ?i" for j
  proof -
    have "prio_at st j \<le> prio_at st ?i" "prio_at st ?i \<le> prio_at st (?i div 2)"
      using assms(1) j i(2) by (auto simp: heap_inv_def)
    moreover have "prio_at ?r j = prio_at st j" "prio_at ?r (?i div 2) = prio_at st (?i div 2)"
      using j i(2) pr [of j] pr [of "?i div 2"] by auto
    ultimately show ?thesis by simp
  qed
  ultimately have "same_nodes ?r (float_up_or_down_ovs ?r ?i) \<and> heap_inv (float_up_or_down_ovs ?r ?i)"
    using i by (intro float_up_or_down_correct) (auto simp: hole_ok_def grand_ok_def)
  moreover have "st' = float_up_or_down_ovs ?r ?i"
    by (simp add: st'_def heap_change_ovs_def Let_def heap_raw_change_ovs_def)
  ultimately show "heap_inv st'" "mset (heap_elems (fst st')) = mset (heap_elems (fst st))"
    "hn_priority (snd st' x) = (if x = node then p else hn_priority (snd st x))"
    "x \<notin> set (heap_elems (fst st)) \<Longrightarrow> snd st' x = snd st x"
    using assms(2) by (auto simp: same_nodes_def heap_raw_change_ovs_def)
qed

lemma heap_raw_remove_ok:
  assumes "heap_wf st" and "node \<in> set (heap_elems (fst st))"
  defines "st' \<equiv> heap_raw_remove_ovs st node" and "i \<equiv> idx (snd st node)"
  shows "heap_wf st'" and "heap_n (fst st') = heap_n (fst st) - 1"
    and "mset (heap_elems (fst st)) = add_mset node (mset (heap_elems (fst st')))"
    and "hn_priority (snd st' x) = hn_priority (snd st x)"
    and "x \<notin> set (heap_elems (fst st)) \<Longrightarrow> snd st' x = snd st x"
    and "1 \<le> j \<Longrightarrow> j \<le> heap_n (fst st) - 1 \<Longrightarrow> prio_at st' j = prio_at st (if j = i then heap_n (fst st) else j)"
proof -
  let ?n = "heap_n (fst st)" and ?a = "harray (fst st)"
  note e = elem_idx [OF assms(1,2), folded i_def]
  have ni: "1 \<le> ?n" using e by simp
  let ?b = "if i < ?n then ?a[i := ?a ! ?n] else ?a"
  have f: "heap_n (fst st') = ?n - 1" "allocated (fst st') = allocated (fst st)" "harray (fst st') = ?b"
    "snd st' = (if i < ?n then (snd st)(?a ! ?n := (snd st (?a ! ?n))\<lparr>idx := i\<rparr>) else snd st)"
    by (auto simp: st'_def i_def heap_raw_remove_ovs_def put_node_ovs_def Let_def)
  have at: "harray (fst st') ! j = ?a ! (if j = i then ?n else j)" if "1 \<le> j" "j \<le> ?n - 1" for j
    using heap_wf_length [OF assms(1), of j] that ni by (auto simp: f(3))
  have inj: "?a ! j = ?a ! k \<longleftrightarrow> j = k" if "1 \<le> j" "j \<le> ?n" "1 \<le> k" "k \<le> ?n" for j k
    using heap_wf_inj [OF assms(1) that] .
  have "idx (snd st' (harray (fst st') ! j)) = j" if j: "1 \<le> j" "j \<le> ?n - 1" for j
    using at [OF j] inj [of j ?n] j ni assms(1) by (auto simp: f(4) heap_wf_def)
  then show wf: "heap_wf st'" using assms(1) by (auto simp: heap_wf_def f(1-3))
  show "heap_n (fst st') = ?n - 1" by (rule f(1))
  show pr: "hn_priority (snd st' x) = hn_priority (snd st x)" for x by (simp add: f(4))
  show "x \<notin> set (heap_elems (fst st)) \<Longrightarrow> snd st' x = snd st x"
    using ni by (auto simp: f(4) in_heap_elems)
  show "1 \<le> j \<Longrightarrow> j \<le> ?n - 1 \<Longrightarrow> prio_at st' j = prio_at st (if j = i then ?n else j)"
    unfolding pr using at by simp
  have "x \<in> set (heap_elems (fst st')) \<longleftrightarrow> x \<in> set (heap_elems (fst st)) \<and> x \<noteq> node" for x
  proof
    assume "x \<in> set (heap_elems (fst st'))"
    then obtain j where j: "1 \<le> j" "j \<le> ?n - 1" "x = harray (fst st') ! j" by (auto simp: in_heap_elems f(1))
    then have "x = ?a ! (if j = i then ?n else j)" using at by simp
    moreover have "?a ! (if j = i then ?n else j) \<noteq> ?a ! i" using inj j ni e by auto
    ultimately show "x \<in> set (heap_elems (fst st)) \<and> x \<noteq> node" using j ni e(3) by (auto simp: in_heap_elems)
  next
    assume "x \<in> set (heap_elems (fst st)) \<and> x \<noteq> node"
    then obtain j where j: "1 \<le> j" "j \<le> ?n" "x = ?a ! j" "j \<noteq> i" using e(3) by (auto simp: in_heap_elems)
    let ?k = "if j = ?n then i else j"
    have k: "1 \<le> ?k" "?k \<le> ?n - 1" using j e ni by auto
    then have "x = harray (fst st') ! ?k" using at [of ?k] j by auto
    with k show "x \<in> set (heap_elems (fst st'))" using f(1) by (auto simp: in_heap_elems)
  qed
  then have "set (node # heap_elems (fst st')) = set (heap_elems (fst st))" "node \<notin> set (heap_elems (fst st'))"
    using assms(2) by auto
  then have "mset (node # heap_elems (fst st')) = mset (heap_elems (fst st))"
    using heap_elems_distinct [OF wf] heap_elems_distinct [OF assms(1)]
    by (intro iffD1 [OF set_eq_iff_mset_eq_distinct]) auto
  then show "mset (heap_elems (fst st)) = add_mset node (mset (heap_elems (fst st')))" by simp
qed

lemma heap_remove_ok:
  assumes "heap_inv st" and "node \<in> set (heap_elems (fst st))"
  defines "st' \<equiv> heap_remove_ovs st node"
  shows "heap_inv st'" and "mset (heap_elems (fst st)) = add_mset node (mset (heap_elems (fst st')))"
    and "hn_priority (snd st' x) = hn_priority (snd st x)"
    and "x \<notin> set (heap_elems (fst st)) \<Longrightarrow> snd st' x = snd st x"
proof -
  let ?r = "heap_raw_remove_ovs st node" and ?i = "idx (snd st node)" and ?n = "heap_n (fst st)"
  have wf: "heap_wf st" using assms(1) by (simp add: heap_inv_def)
  note r = heap_raw_remove_ok [OF wf assms(2)] and i = elem_idx [OF wf assms(2)]
  have ord: "prio_at st j \<le> prio_at st (j div 2)" if "2 \<le> j" "j \<le> ?n" for j
    using assms(1) that by (simp add: heap_inv_def)
  have near: "below ?r j" if j: "in_heap ?r j" "j \<noteq> ?i" "j div 2 \<noteq> ?i" for j
  proof -
    have "1 \<le> j" "j \<le> ?n - 1" "1 \<le> j div 2" "j div 2 \<le> ?n - 1" using j r(2) by auto
    then show ?thesis using r(6) [of j] r(6) [of "j div 2"] j ord [of j] by simp
  qed
  have "same_nodes ?r st' \<and> heap_inv st'"
  proof (cases "?i \<le> heap_n (fst ?r)")
    case True
    have "prio_at ?r j \<le> prio_at ?r (?i div 2)" if j: "in_heap ?r j" "j div 2 = ?i" "2 \<le> ?i" for j
    proof -
      have b: "1 \<le> j" "j \<le> ?n - 1" "1 \<le> ?i div 2" "?i div 2 \<le> ?n - 1" "j \<noteq> ?i" "?i div 2 \<noteq> ?i"
        using j True r(2) by auto
      have "prio_at st j \<le> prio_at st ?i" "prio_at st ?i \<le> prio_at st (?i div 2)"
        using ord [of j] ord [of ?i] j b i by auto
      then show ?thesis using r(6) [OF b(1,2)] r(6) [OF b(3,4)] b(5,6) by simp
    qed
    then have "hole_ok ?r ?i" using near by (auto simp: hole_ok_def grand_ok_def)
    then have "same_nodes ?r (float_up_or_down_ovs ?r ?i) \<and> heap_inv (float_up_or_down_ovs ?r ?i)"
      using True i r(1) by (intro float_up_or_down_correct)
    with True show ?thesis by (simp add: st'_def heap_remove_ovs_def Let_def)
  next
    case False
    then have "below ?r j" if "in_heap ?r j" for j using near [OF that] that by auto
    then have "heap_inv ?r" using r(1) by (simp add: heap_inv_iff)
    with False r(1) same_nodes_refl show ?thesis by (simp add: st'_def heap_remove_ovs_def Let_def)
  qed
  moreover have "set (heap_elems (fst ?r)) \<subseteq> set (heap_elems (fst st))"
    using r(3) by (metis set_mset_add_mset_insert set_mset_mset subset_insertI)
  ultimately show "heap_inv st'" "mset (heap_elems (fst st)) = add_mset node (mset (heap_elems (fst st')))"
    "hn_priority (snd st' x) = hn_priority (snd st x)"
    "x \<notin> set (heap_elems (fst st)) \<Longrightarrow> snd st' x = snd st x"
    using r(3-5) by (auto simp: same_nodes_def)
qed

lemma heap_pop_ok:
  assumes "heap_inv st" and "heap_n (fst st) > 0"
  shows "heap_inv (fst (heap_pop_ovs (fst st)), snd st)"
    and "mset (heap_elems (fst st)) = add_mset (snd (heap_pop_ovs (fst st))) (mset (heap_elems (fst (heap_pop_ovs (fst st)))))"
proof -
  show "heap_inv (fst (heap_pop_ovs (fst st)), snd st)"
    using assms(1) by (auto simp: heap_inv_def heap_wf_def heap_pop_ovs_def)
  have "[1..<heap_n (fst st) + 1] = [1..<heap_n (fst st)] @ [heap_n (fst st)]" using assms(2) by simp
  then show "mset (heap_elems (fst st)) = add_mset (snd (heap_pop_ovs (fst st))) (mset (heap_elems (fst (heap_pop_ovs (fst st)))))"
    using assms(2) by (simp add: heap_elems_def heap_pop_ovs_def)
qed

lemma heap_empty_inv: "heap_inv (heap_init_ovs, nd)" "heap_elems heap_init_ovs = []"
  by (simp_all add: heap_inv_def heap_wf_def heap_init_ovs_def heap_elems_def)

section \<open>The interface\<close>

text \<open>What a client of the heap relies on: a set of elements with priorities, and an element of
  greatest priority. The client lemmas follow from the interface alone.\<close>

locale prio_queue =
  fixes inv :: "'s \<Rightarrow> bool" and elems :: "'s \<Rightarrow> 'a multiset" and prio :: "'s \<Rightarrow> 'a \<Rightarrow> 'p :: linorder"
    and ins :: "'s \<Rightarrow> 'a \<Rightarrow> 'p \<Rightarrow> 's" and del :: "'s \<Rightarrow> 'a \<Rightarrow> 's" and change :: "'s \<Rightarrow> 'a \<Rightarrow> 'p \<Rightarrow> 's"
    and top :: "'s \<Rightarrow> 'a"
  assumes inv_ins: "inv s \<Longrightarrow> x \<notin># elems s \<Longrightarrow> inv (ins s x p)"
    and elems_ins: "inv s \<Longrightarrow> x \<notin># elems s \<Longrightarrow> elems (ins s x p) = add_mset x (elems s)"
    and prio_ins: "inv s \<Longrightarrow> x \<notin># elems s \<Longrightarrow> prio (ins s x p) y = (if y = x then p else prio s y)"
    and inv_del: "inv s \<Longrightarrow> x \<in># elems s \<Longrightarrow> inv (del s x)"
    and elems_del: "inv s \<Longrightarrow> x \<in># elems s \<Longrightarrow> elems s = add_mset x (elems (del s x))"
    and prio_del: "inv s \<Longrightarrow> x \<in># elems s \<Longrightarrow> prio (del s x) y = prio s y"
    and inv_change: "inv s \<Longrightarrow> x \<in># elems s \<Longrightarrow> inv (change s x p)"
    and elems_change: "inv s \<Longrightarrow> x \<in># elems s \<Longrightarrow> elems (change s x p) = elems s"
    and prio_change: "inv s \<Longrightarrow> x \<in># elems s \<Longrightarrow> prio (change s x p) y = (if y = x then p else prio s y)"
    and top_elem: "inv s \<Longrightarrow> elems s \<noteq> {#} \<Longrightarrow> top s \<in># elems s"
    and top_max: "inv s \<Longrightarrow> x \<in># elems s \<Longrightarrow> prio s x \<le> prio s (top s)"
begin

lemma top_ins:
  assumes "inv s" and "x \<notin># elems s" and "\<And>y. y \<in># elems s \<Longrightarrow> prio s y < p"
  shows "top (ins s x p) = x"
proof -
  have i: "inv (ins s x p)" "elems (ins s x p) = add_mset x (elems s)" using assms by (auto simp: inv_ins elems_ins)
  then have t: "top (ins s x p) = x \<or> top (ins s x p) \<in># elems s" using top_elem [OF i(1)] by auto
  have "p \<le> prio (ins s x p) (top (ins s x p))"
    using top_max [OF i(1), of x] i(2) assms(1,2) by (simp add: prio_ins)
  moreover have "prio (ins s x p) (top (ins s x p)) < p" if h: "top (ins s x p) \<noteq> x"
    using assms(3) [of "top (ins s x p)"] t h assms(1,2) by (simp add: prio_ins)
  ultimately show ?thesis by (meson leD)
qed

text \<open>Taking the greatest element again and again yields the elements in descending priority.\<close>

primrec take_out :: "nat \<Rightarrow> 's \<Rightarrow> 'a list" where
  "take_out 0 s = []"
| "take_out (Suc k) s = top s # take_out k (del s (top s))"

lemma take_out_sorted:
  "inv s \<Longrightarrow> size (elems s) = k \<Longrightarrow>
   mset (take_out k s) = elems s \<and> sorted_wrt (\<lambda>x y. prio s y \<le> prio s x) (take_out k s)"
proof (induction k arbitrary: s)
  case (Suc k)
  have ne: "elems s \<noteq> {#}" using Suc.prems(2) by auto
  note t = top_elem [OF Suc.prems(1) ne]
  note d = inv_del [OF Suc.prems(1) t] elems_del [OF Suc.prems(1) t] prio_del [OF Suc.prems(1) t]
  have "size (elems (del s (top s))) = k" using Suc.prems(2) d(2) by simp
  from Suc.IH [OF d(1) this]
  have ih: "mset (take_out k (del s (top s))) = elems (del s (top s))"
    "sorted_wrt (\<lambda>x y. prio s y \<le> prio s x) (take_out k (del s (top s)))" by (auto simp: d(3))
  moreover have "prio s y \<le> prio s (top s)" if "y \<in> set (take_out k (del s (top s)))" for y
    using that top_max [OF Suc.prems(1), of y] ih(1) d(2) by (metis insertCI set_mset_add_mset_insert set_mset_mset)
  ultimately show ?case using d(2) by simp
qed simp

end

definition heap_contents :: "heap_st \<Rightarrow> ptr multiset" where
  "heap_contents st = mset (heap_elems (fst st))"

lemma heap_contents_empty: "heap_contents st = {#} \<longleftrightarrow> heap_is_empty_ovs (fst st)"
  by (auto simp: heap_contents_def heap_elems_def heap_is_empty_ovs_def)

interpretation ovs_heap: prio_queue heap_inv heap_contents "\<lambda>st x. hn_priority (snd st x)"
  heap_insert_ovs heap_remove_ovs heap_change_ovs "\<lambda>st. heap_max_ovs (fst st)"
proof
  show "heap_inv s \<Longrightarrow> heap_contents s \<noteq> {#} \<Longrightarrow> heap_max_ovs (fst s) \<in># heap_contents s" for s
    unfolding heap_contents_empty heap_is_empty_ovs_def using heap_max_ok(1) by (simp add: heap_contents_def)
  show "heap_inv s \<Longrightarrow> x \<in># heap_contents s \<Longrightarrow> hn_priority (snd s x) \<le> hn_priority (snd s (heap_max_ovs (fst s)))" for s x
    using heap_max_ok(2) [of s x] by (auto simp: heap_contents_def in_heap_elems)
qed (use heap_insert_ok(1-3) heap_remove_ok(1-3) heap_change_ok(1-3) in \<open>auto simp: heap_contents_def\<close>)

section \<open>Properties\<close>

definition heap_example :: heap_st where
  "heap_example = heap_insert_ovs (heap_insert_ovs (heap_init_ovs, \<lambda>_. \<lparr>idx = 0, hn_priority = 0\<rparr>) 10 5) 20 9"

lemma heap_example_inv: "heap_inv heap_example" "heap_contents heap_example = {#10, 20#}"
proof -
  let ?s = "(heap_init_ovs, \<lambda>_ :: ptr. \<lparr>idx = 0, hn_priority = 0\<rparr>)"
  have 0: "heap_inv ?s" "heap_contents ?s = {#}" using heap_empty_inv by (simp_all add: heap_contents_def)
  have 1: "heap_inv (heap_insert_ovs ?s 10 5)" "heap_contents (heap_insert_ovs ?s 10 5) = {#10#}"
    using ovs_heap.inv_ins [OF 0(1), of 10 5] ovs_heap.elems_ins [OF 0(1), of 10 5] 0(2) by simp_all
  show "heap_inv heap_example" "heap_contents heap_example = {#10, 20#}"
    using ovs_heap.inv_ins [OF 1(1), of 20 9] ovs_heap.elems_ins [OF 1(1), of 20 9] 1(2)
    by (simp_all add: heap_example_def add_mset_commute)
qed



text \<open>\<open>heap_rebuild\<close> ends, restores the heap order of any well-formed array and keeps the nodes and
  their priorities; \<open>heap_pop\<close> removes one node in constant time and keeps the invariant.\<close>

theorem heap_rebuild_pop_correct:
  assumes "heap_wf st" and "heap_n (fst st) > 0"
  shows "heap_inv (heap_rebuild_ovs st) \<and> heap_contents (heap_rebuild_ovs st) = heap_contents st
    \<and> (\<forall>x. hn_priority (snd (heap_rebuild_ovs st) x) = hn_priority (snd st x))
    \<and> (case heap_pop_ovs (fst (heap_rebuild_ovs st)) of (h, x) \<Rightarrow>
         heap_inv (h, snd (heap_rebuild_ovs st)) \<and> heap_contents st = add_mset x (mset (heap_elems h)))"
proof -
  have r: "same_nodes st (heap_rebuild_ovs st)" "heap_inv (heap_rebuild_ovs st)" using heap_rebuild_ok [OF assms(1)] by auto
  then have "heap_n (fst (heap_rebuild_ovs st)) > 0" using assms(2) by (simp add: same_nodes_def)
  from heap_pop_ok [OF r(2) this] r show ?thesis
    by (auto simp: same_nodes_def heap_contents_def split: prod.split)
qed

theorem heap_rebuild_pop_correct_witness:
  "heap_inv (heap_rebuild_ovs heap_example) \<and> heap_contents (heap_rebuild_ovs heap_example) = heap_contents heap_example"
proof -
  have "heap_wf heap_example" using heap_example_inv(1) by (simp add: heap_inv_def)
  moreover have "heap_n (fst heap_example) > 0"
    using heap_contents_empty [of heap_example] heap_example_inv(2) by (simp add: heap_is_empty_ovs_def)
  ultimately show ?thesis using heap_rebuild_pop_correct [of heap_example] by blast
qed

end
