(* ===== verification/Meta_Flow.thy ===== *)
theory Meta_Flow
  imports Flow
begin

text \<open>
  Fields of a flow by name: \<open>OFTonSGX/trusted/lib/meta-flow.h\<close>, \<open>meta-flow.c\<close> and the protocol
  helpers of \<open>packets.h\<close>. A member of \<open>struct flow\<close> is read from the memory image of the flow at the
  offset that the layout gives it. \<open>union mf_value\<close> is its 16 bytes; \<open>mf_get_value\<close> overwrites the
  first bytes and leaves the others as they were. \<open>NOT_REACHED\<close> is a fault (\<open>None\<close>).
\<close>

section \<open>Members of a flow\<close>

definition u16_bytes :: "u16 \<Rightarrow> u8 list" where
  "u16_bytes w = [ucast w, ucast (drop_bit 8 w)]"

definition le16 :: "u8 list \<Rightarrow> u16" where
  "le16 bs = ucast (bs ! 0) OR push_bit 8 (ucast (bs ! 1))"

definition le32 :: "u8 list \<Rightarrow> u32" where
  "le32 bs = ucast (bs ! 0) OR push_bit 8 (ucast (bs ! 1)) OR push_bit 16 (ucast (bs ! 2)) OR push_bit 24 (ucast (bs ! 3))"

definition member_at :: "flow \<Rightarrow> nat \<Rightarrow> nat \<Rightarrow> u8 list" where
  "member_at f ofs n = take n (drop ofs (concat (map u32_bytes f)))"

definition member :: "flow \<Rightarrow> string \<Rightarrow> nat \<Rightarrow> u8 list" where
  "member f name n = member_at f (flow_offsetof name) n"

definition flow_tnl_members :: "(string \<times> nat \<times> nat) list" where
  "flow_tnl_members = [(''tun_id'', 8, 8), (''ip_src'', 4, 4), (''ip_dst'', 4, 4), (''flags'', 2, 2),
     (''ip_tos'', 1, 1), (''ip_ttl'', 1, 1)]"

definition tunnel_member :: "flow \<Rightarrow> string \<Rightarrow> nat \<Rightarrow> u8 list" where
  "tunnel_member f name n = member_at f (flow_offsetof ''tunnel'' + the (map_of (fst (place_members 0 flow_tnl_members)) name)) n"

definition dl_type :: "flow \<Rightarrow> u16" where "dl_type f = le16 (member f ''dl_type'' 2)"
definition vlan_tci :: "flow \<Rightarrow> u16" where "vlan_tci f = le16 (member f ''vlan_tci'' 2)"
definition mpls_lse :: "flow \<Rightarrow> u32" where "mpls_lse f = le32 (member f ''mpls_lse'' 4)"
definition tp_src :: "flow \<Rightarrow> u16" where "tp_src f = le16 (member f ''tp_src'' 2)"
definition tp_dst :: "flow \<Rightarrow> u16" where "tp_dst f = le16 (member f ''tp_dst'' 2)"
definition nw_proto :: "flow \<Rightarrow> u8" where "nw_proto f = member f ''nw_proto'' 1 ! 0"
definition nw_tos :: "flow \<Rightarrow> u8" where "nw_tos f = member f ''nw_tos'' 1 ! 0"

definition reg_bytes :: "flow \<Rightarrow> nat \<Rightarrow> u8 list" where
  "reg_bytes f k = u32_bytes (htonl (le32 (member_at f (flow_offsetof ''regs'' + 4 * k) 4)))"

section \<open>Protocol helpers\<close>

definition ETH_TYPE_IP :: u16 where "ETH_TYPE_IP = 0x0800"
definition ETH_TYPE_ARP :: u16 where "ETH_TYPE_ARP = 0x0806"
definition ETH_TYPE_IPV6 :: u16 where "ETH_TYPE_IPV6 = 0x86dd"
definition ETH_TYPE_RARP :: u16 where "ETH_TYPE_RARP = 0x8035"
definition ETH_TYPE_MPLS :: u16 where "ETH_TYPE_MPLS = 0x8847"
definition ETH_TYPE_MPLS_MCAST :: u16 where "ETH_TYPE_MPLS_MCAST = 0x8848"
definition VLAN_CFI :: u16 where "VLAN_CFI = 0x1000"
definition VLAN_PCP_MASK :: u16 where "VLAN_PCP_MASK = 0xe000"
definition VLAN_PCP_SHIFT :: nat where "VLAN_PCP_SHIFT = 13"
definition ND_NEIGHBOR_SOLICIT :: u16 where "ND_NEIGHBOR_SOLICIT = 135"
definition ND_NEIGHBOR_ADVERT :: u16 where "ND_NEIGHBOR_ADVERT = 136"
definition IPPROTO_TCP :: u8 where "IPPROTO_TCP = 6"
definition IPPROTO_UDP :: u8 where "IPPROTO_UDP = 17"
definition IPPROTO_ICMP :: u8 where "IPPROTO_ICMP = 1"
definition IPPROTO_ICMPV6 :: u8 where "IPPROTO_ICMPV6 = 58"
definition ETH_ADDR_LEN :: nat where "ETH_ADDR_LEN = 6"
definition IP_ECN_MASK :: u8 where "IP_ECN_MASK = 0x03"
definition IP_DSCP_MASK :: u8 where "IP_DSCP_MASK = 0xfc"
definition MPLS_BOS_MASK :: u32 where "MPLS_BOS_MASK = 0x00000100"
definition MPLS_TC_MASK :: u32 where "MPLS_TC_MASK = 0x00000e00"
definition MPLS_TC_SHIFT :: nat where "MPLS_TC_SHIFT = 9"
definition MPLS_LABEL_MASK :: u32 where "MPLS_LABEL_MASK = 0xfffff000"
definition MPLS_LABEL_SHIFT :: nat where "MPLS_LABEL_SHIFT = 12"

lemmas packet_consts = ETH_TYPE_IP_def ETH_TYPE_ARP_def ETH_TYPE_IPV6_def ETH_TYPE_RARP_def ETH_TYPE_MPLS_def
  ETH_TYPE_MPLS_MCAST_def VLAN_CFI_def VLAN_PCP_MASK_def VLAN_PCP_SHIFT_def ND_NEIGHBOR_SOLICIT_def
  ND_NEIGHBOR_ADVERT_def IPPROTO_TCP_def IPPROTO_UDP_def IPPROTO_ICMP_def IPPROTO_ICMPV6_def ETH_ADDR_LEN_def
  IP_ECN_MASK_def IP_DSCP_MASK_def MPLS_BOS_MASK_def MPLS_TC_MASK_def MPLS_TC_SHIFT_def MPLS_LABEL_MASK_def
  MPLS_LABEL_SHIFT_def VLAN_VID_MASK_def VLAN_VID_SHIFT_def

definition eth_type_mpls :: "u16 \<Rightarrow> bool" where
  "eth_type_mpls eth_type \<longleftrightarrow> eth_type = htons ETH_TYPE_MPLS \<or> eth_type = htons ETH_TYPE_MPLS_MCAST"

definition dl_type_is_ip_any :: "u16 \<Rightarrow> bool" where
  "dl_type_is_ip_any t \<longleftrightarrow> t = htons ETH_TYPE_IP \<or> t = htons ETH_TYPE_IPV6"

definition is_ip_any :: "flow \<Rightarrow> bool" where "is_ip_any f \<longleftrightarrow> dl_type_is_ip_any (dl_type f)"

definition is_icmpv4 :: "flow \<Rightarrow> bool" where
  "is_icmpv4 f \<longleftrightarrow> dl_type f = htons ETH_TYPE_IP \<and> nw_proto f = IPPROTO_ICMP"

definition is_icmpv6 :: "flow \<Rightarrow> bool" where
  "is_icmpv6 f \<longleftrightarrow> dl_type f = htons ETH_TYPE_IPV6 \<and> nw_proto f = IPPROTO_ICMPV6"

definition mpls_lse_to_bos :: "u32 \<Rightarrow> u8" where
  "mpls_lse_to_bos lse = (if lse AND htonl MPLS_BOS_MASK \<noteq> 0 then 1 else 0)"

definition mpls_lse_to_tc :: "u32 \<Rightarrow> u8" where
  "mpls_lse_to_tc lse = ucast (drop_bit MPLS_TC_SHIFT (ntohl lse AND MPLS_TC_MASK))"

definition vlan_tci_to_pcp :: "u16 \<Rightarrow> u16" where
  "vlan_tci_to_pcp tci = drop_bit VLAN_PCP_SHIFT (ntohs tci AND VLAN_PCP_MASK)"

definition mpls_lse_to_label :: "u32 \<Rightarrow> u32" where
  "mpls_lse_to_label lse = drop_bit MPLS_LABEL_SHIFT (ntohl lse AND MPLS_LABEL_MASK)"

section \<open>Fields\<close>

datatype mf_field_id =
    MFF_TUN_ID | MFF_TUN_SRC | MFF_TUN_DST | MFF_TUN_FLAGS | MFF_TUN_TTL | MFF_TUN_TOS
    | MFF_METADATA | MFF_IN_PORT | MFF_SKB_PRIORITY | MFF_SKB_MARK | MFF_REG0 | MFF_REG1
    | MFF_REG2 | MFF_REG3 | MFF_REG4 | MFF_REG5 | MFF_REG6 | MFF_REG7 | MFF_ETH_SRC | MFF_ETH_DST
    | MFF_ETH_TYPE | MFF_VLAN_TCI | MFF_DL_VLAN | MFF_VLAN_VID | MFF_DL_VLAN_PCP | MFF_VLAN_PCP
    | MFF_MPLS_LABEL | MFF_MPLS_TC | MFF_MPLS_BOS | MFF_IPV4_SRC | MFF_IPV4_DST | MFF_IPV6_SRC
    | MFF_IPV6_DST | MFF_IPV6_LABEL | MFF_IP_PROTO | MFF_IP_DSCP | MFF_IP_DSCP_SHIFTED
    | MFF_IP_ECN | MFF_IP_TTL | MFF_IP_FRAG | MFF_ARP_OP | MFF_ARP_SPA | MFF_ARP_TPA | MFF_ARP_SHA
    | MFF_ARP_THA | MFF_TCP_SRC | MFF_TCP_DST | MFF_UDP_SRC | MFF_UDP_DST | MFF_ICMPV4_TYPE
    | MFF_ICMPV4_CODE | MFF_ICMPV6_TYPE | MFF_ICMPV6_CODE | MFF_ND_TARGET | MFF_ND_SLL
    | MFF_ND_TLL | MFF_N_IDS

datatype mf_prereqs =
    MFP_NONE | MFP_ARP | MFP_VLAN_VID | MFP_IPV4 | MFP_IPV6 | MFP_IP_ANY | MFP_MPLS | MFP_TCP | MFP_UDP
  | MFP_ICMPV4 | MFP_ICMPV6 | MFP_ND | MFP_ND_SOLICIT | MFP_ND_ADVERT

datatype mf_maskable = MFM_NONE | MFM_FULLY

datatype mf_string =
    MFS_DECIMAL | MFS_HEXADECIMAL | MFS_ETHERNET | MFS_IPV4 | MFS_IPV6 | MFS_OFP_PORT | MFS_FRAG | MFS_TNL_FLAGS

record mf_field =
  mf_id :: mf_field_id
  mf_name :: string
  extra_name :: "string option"
  mf_n_bytes :: nat
  mf_n_bits :: nat
  maskable :: mf_maskable
  mf_fmt :: mf_string
  prereqs :: mf_prereqs
  writable :: bool
  nxm_header :: u32
  nxm_name :: "string option"
  oxm_header :: u32
  oxm_name :: "string option"

record mf_subfield =
  sf_field :: mf_field
  sf_ofs :: nat
  sf_n_bits :: nat

type_synonym mf_value = "u8 list"

definition sizeof_mf_value :: nat where "sizeof_mf_value = 16"

primrec prereq_ok :: "mf_prereqs \<Rightarrow> flow \<Rightarrow> bool" where
  "prereq_ok MFP_NONE f = True"
| "prereq_ok MFP_ARP f = (dl_type f = htons ETH_TYPE_ARP \<or> dl_type f = htons ETH_TYPE_RARP)"
| "prereq_ok MFP_IPV4 f = (dl_type f = htons ETH_TYPE_IP)"
| "prereq_ok MFP_IPV6 f = (dl_type f = htons ETH_TYPE_IPV6)"
| "prereq_ok MFP_VLAN_VID f = (vlan_tci f AND htons VLAN_CFI \<noteq> 0)"
| "prereq_ok MFP_MPLS f = eth_type_mpls (dl_type f)"
| "prereq_ok MFP_IP_ANY f = is_ip_any f"
| "prereq_ok MFP_TCP f = (is_ip_any f \<and> nw_proto f = IPPROTO_TCP)"
| "prereq_ok MFP_UDP f = (is_ip_any f \<and> nw_proto f = IPPROTO_UDP)"
| "prereq_ok MFP_ICMPV4 f = is_icmpv4 f"
| "prereq_ok MFP_ICMPV6 f = is_icmpv6 f"
| "prereq_ok MFP_ND f = (is_icmpv6 f \<and> tp_dst f = htons 0
     \<and> (tp_src f = htons ND_NEIGHBOR_SOLICIT \<or> tp_src f = htons ND_NEIGHBOR_ADVERT))"
| "prereq_ok MFP_ND_SOLICIT f = (is_icmpv6 f \<and> tp_dst f = htons 0 \<and> tp_src f = htons ND_NEIGHBOR_SOLICIT)"
| "prereq_ok MFP_ND_ADVERT f = (is_icmpv6 f \<and> tp_dst f = htons 0 \<and> tp_src f = htons ND_NEIGHBOR_ADVERT)"

definition mf_are_prereqs_ok :: "mf_field \<Rightarrow> flow \<Rightarrow> bool" where
  "mf_are_prereqs_ok mf f = prereq_ok (prereqs mf) f"

text \<open>The bytes that the cases of \<open>mf_get_value\<close> store.\<close>

primrec mf_value_bytes :: "mf_field_id \<Rightarrow> flow \<Rightarrow> u8 list option" where
  "mf_value_bytes MFF_TUN_ID f = Some (tunnel_member f ''tun_id'' 8)"
| "mf_value_bytes MFF_TUN_SRC f = Some (tunnel_member f ''ip_src'' 4)"
| "mf_value_bytes MFF_TUN_DST f = Some (tunnel_member f ''ip_dst'' 4)"
| "mf_value_bytes MFF_TUN_FLAGS f = Some (u16_bytes (htons (le16 (tunnel_member f ''flags'' 2))))"
| "mf_value_bytes MFF_TUN_TTL f = Some (tunnel_member f ''ip_ttl'' 1)"
| "mf_value_bytes MFF_TUN_TOS f = Some (tunnel_member f ''ip_tos'' 1)"
| "mf_value_bytes MFF_METADATA f = Some (member f ''metadata'' 8)"
| "mf_value_bytes MFF_IN_PORT f = Some (u16_bytes (htons (ucast (le32 (member f ''in_port'' 4)))))"
| "mf_value_bytes MFF_SKB_PRIORITY f = Some (u32_bytes (htonl (le32 (member f ''skb_priority'' 4))))"
| "mf_value_bytes MFF_SKB_MARK f = Some (u32_bytes (htonl (le32 (member f ''skb_mark'' 4))))"
| "mf_value_bytes MFF_REG0 f = Some (reg_bytes f 0)"
| "mf_value_bytes MFF_REG1 f = Some (reg_bytes f 1)"
| "mf_value_bytes MFF_REG2 f = Some (reg_bytes f 2)"
| "mf_value_bytes MFF_REG3 f = Some (reg_bytes f 3)"
| "mf_value_bytes MFF_REG4 f = Some (reg_bytes f 4)"
| "mf_value_bytes MFF_REG5 f = Some (reg_bytes f 5)"
| "mf_value_bytes MFF_REG6 f = Some (reg_bytes f 6)"
| "mf_value_bytes MFF_REG7 f = Some (reg_bytes f 7)"
| "mf_value_bytes MFF_ETH_SRC f = Some (member f ''dl_src'' ETH_ADDR_LEN)"
| "mf_value_bytes MFF_ETH_DST f = Some (member f ''dl_dst'' ETH_ADDR_LEN)"
| "mf_value_bytes MFF_ETH_TYPE f = Some (u16_bytes (dl_type f))"
| "mf_value_bytes MFF_VLAN_TCI f = Some (u16_bytes (vlan_tci f))"
| "mf_value_bytes MFF_DL_VLAN f = Some (u16_bytes (vlan_tci f AND htons VLAN_VID_MASK))"
| "mf_value_bytes MFF_VLAN_VID f = Some (u16_bytes (vlan_tci f AND htons (VLAN_VID_MASK OR VLAN_CFI)))"
| "mf_value_bytes MFF_DL_VLAN_PCP f = Some ([ucast (vlan_tci_to_pcp (vlan_tci f))])"
| "mf_value_bytes MFF_VLAN_PCP f = Some ([ucast (vlan_tci_to_pcp (vlan_tci f))])"
| "mf_value_bytes MFF_MPLS_LABEL f = Some (u32_bytes (htonl (mpls_lse_to_label (mpls_lse f))))"
| "mf_value_bytes MFF_MPLS_TC f = Some ([mpls_lse_to_tc (mpls_lse f)])"
| "mf_value_bytes MFF_MPLS_BOS f = Some ([mpls_lse_to_bos (mpls_lse f)])"
| "mf_value_bytes MFF_IPV4_SRC f = Some (member f ''nw_src'' 4)"
| "mf_value_bytes MFF_IPV4_DST f = Some (member f ''nw_dst'' 4)"
| "mf_value_bytes MFF_IPV6_SRC f = Some (member f ''ipv6_src'' 16)"
| "mf_value_bytes MFF_IPV6_DST f = Some (member f ''ipv6_dst'' 16)"
| "mf_value_bytes MFF_IPV6_LABEL f = Some (member f ''ipv6_label'' 4)"
| "mf_value_bytes MFF_IP_PROTO f = Some ([nw_proto f])"
| "mf_value_bytes MFF_IP_DSCP f = Some ([nw_tos f AND IP_DSCP_MASK])"
| "mf_value_bytes MFF_IP_DSCP_SHIFTED f = Some ([drop_bit 2 (nw_tos f)])"
| "mf_value_bytes MFF_IP_ECN f = Some ([nw_tos f AND IP_ECN_MASK])"
| "mf_value_bytes MFF_IP_TTL f = Some (member f ''nw_ttl'' 1)"
| "mf_value_bytes MFF_IP_FRAG f = Some (member f ''nw_frag'' 1)"
| "mf_value_bytes MFF_ARP_OP f = Some (u16_bytes (htons (ucast (nw_proto f))))"
| "mf_value_bytes MFF_ARP_SPA f = Some (member f ''nw_src'' 4)"
| "mf_value_bytes MFF_ARP_TPA f = Some (member f ''nw_dst'' 4)"
| "mf_value_bytes MFF_ARP_SHA f = Some (member f ''arp_sha'' ETH_ADDR_LEN)"
| "mf_value_bytes MFF_ARP_THA f = Some (member f ''arp_tha'' ETH_ADDR_LEN)"
| "mf_value_bytes MFF_TCP_SRC f = Some (u16_bytes (tp_src f))"
| "mf_value_bytes MFF_TCP_DST f = Some (u16_bytes (tp_dst f))"
| "mf_value_bytes MFF_UDP_SRC f = Some (u16_bytes (tp_src f))"
| "mf_value_bytes MFF_UDP_DST f = Some (u16_bytes (tp_dst f))"
| "mf_value_bytes MFF_ICMPV4_TYPE f = Some ([ucast (ntohs (tp_src f))])"
| "mf_value_bytes MFF_ICMPV4_CODE f = Some ([ucast (ntohs (tp_dst f))])"
| "mf_value_bytes MFF_ICMPV6_TYPE f = Some ([ucast (ntohs (tp_src f))])"
| "mf_value_bytes MFF_ICMPV6_CODE f = Some ([ucast (ntohs (tp_dst f))])"
| "mf_value_bytes MFF_ND_TARGET f = Some (member f ''nd_target'' 16)"
| "mf_value_bytes MFF_ND_SLL f = Some (member f ''arp_sha'' ETH_ADDR_LEN)"
| "mf_value_bytes MFF_ND_TLL f = Some (member f ''arp_tha'' ETH_ADDR_LEN)"
| "mf_value_bytes MFF_N_IDS f = None"

definition mf_get_value :: "mf_field \<Rightarrow> flow \<Rightarrow> mf_value \<Rightarrow> mf_value option" where
  "mf_get_value mf f value = do { bs \<leftarrow> mf_value_bytes (mf_id mf) f; Some (bs @ drop (length bs) value) }"

section \<open>Byte order of the stored values\<close>

lemma bit_ntohs: "N < 16 \<Longrightarrow> bit (ntohs w) N = bit w (if N < 8 then N + 8 else N - 8)"
  by (auto simp: ntohs_def bswap_16_sgx_def bit_simps add.commute dest: bit_imp_le_length)

lemma be_bit_u16: "N < 16 \<Longrightarrow> be_bit (u16_bytes w) N = bit (ntohs w) N"
proof -
  assume "N < 16"
  then have "N < 8 \<and> N div 8 = 0 \<and> N mod 8 = N \<or> 8 \<le> N \<and> N div 8 = 1 \<and> N mod 8 = N - 8" by presburger
  then show ?thesis
    using \<open>N < 16\<close> by (auto simp: be_bit_def u16_bytes_def bit_ntohs bit_simps add.commute)
qed

lemma be_bit_u32:
  assumes "N < 32"
  shows "be_bit (u32_bytes w) N = bit (ntohl w) N"
proof -
  have d: "N div 8 < 4" "N mod 8 < 8" using assms by auto
  have "u32_bytes w ! (4 - (N div 8 + 1)) = ucast (drop_bit (8 * (3 - N div 8)) w)"
  proof -
    from d(1) consider "N div 8 = 0" | "N div 8 = 1" | "N div 8 = 2" | "N div 8 = 3" by linarith
    then show ?thesis by cases (simp_all add: u32_bytes_def)
  qed
  moreover have "length (u32_bytes w) = 4" by (simp add: u32_bytes_def)
  ultimately have "be_bit (u32_bytes w) N = bit (ucast (drop_bit (8 * (3 - N div 8)) w) :: u8) (N mod 8)"
    by (simp only: be_bit_def)
  also have "\<dots> = bit w (8 * (3 - N div 8) + N mod 8)" using d(2) by (simp add: bit_ucast_iff bit_drop_bit_eq)
  finally show ?thesis by (simp add: ntohl_def bit_bswap_32 [OF assms])
qed

lemma be_bit_u8: "N < 8 \<Longrightarrow> be_bit [b] N = bit b N"
  by (simp add: be_bit_def)

lemma ntohs_and: "ntohs (a AND b) = ntohs a AND ntohs b"
  by (rule bit_word_eqI) (simp add: bit_ntohs bit_and_iff)

lemma htons_inj: "htons a = htons b \<longleftrightarrow> a = b"
  by (metis ntohs_htons)

section \<open>Sizes and widths\<close>

text \<open>The member of \<open>union mf_value\<close> used for each field, by its size.\<close>

primrec mf_len :: "mf_field_id \<Rightarrow> nat" where
  "mf_len MFF_TUN_ID = 8"
| "mf_len MFF_TUN_SRC = 4"
| "mf_len MFF_TUN_DST = 4"
| "mf_len MFF_TUN_FLAGS = 2"
| "mf_len MFF_TUN_TTL = 1"
| "mf_len MFF_TUN_TOS = 1"
| "mf_len MFF_METADATA = 8"
| "mf_len MFF_IN_PORT = 2"
| "mf_len MFF_SKB_PRIORITY = 4"
| "mf_len MFF_SKB_MARK = 4"
| "mf_len MFF_REG0 = 4"
| "mf_len MFF_REG1 = 4"
| "mf_len MFF_REG2 = 4"
| "mf_len MFF_REG3 = 4"
| "mf_len MFF_REG4 = 4"
| "mf_len MFF_REG5 = 4"
| "mf_len MFF_REG6 = 4"
| "mf_len MFF_REG7 = 4"
| "mf_len MFF_ETH_SRC = 6"
| "mf_len MFF_ETH_DST = 6"
| "mf_len MFF_ETH_TYPE = 2"
| "mf_len MFF_VLAN_TCI = 2"
| "mf_len MFF_DL_VLAN = 2"
| "mf_len MFF_VLAN_VID = 2"
| "mf_len MFF_DL_VLAN_PCP = 1"
| "mf_len MFF_VLAN_PCP = 1"
| "mf_len MFF_MPLS_LABEL = 4"
| "mf_len MFF_MPLS_TC = 1"
| "mf_len MFF_MPLS_BOS = 1"
| "mf_len MFF_IPV4_SRC = 4"
| "mf_len MFF_IPV4_DST = 4"
| "mf_len MFF_IPV6_SRC = 16"
| "mf_len MFF_IPV6_DST = 16"
| "mf_len MFF_IPV6_LABEL = 4"
| "mf_len MFF_IP_PROTO = 1"
| "mf_len MFF_IP_DSCP = 1"
| "mf_len MFF_IP_DSCP_SHIFTED = 1"
| "mf_len MFF_IP_ECN = 1"
| "mf_len MFF_IP_TTL = 1"
| "mf_len MFF_IP_FRAG = 1"
| "mf_len MFF_ARP_OP = 2"
| "mf_len MFF_ARP_SPA = 4"
| "mf_len MFF_ARP_TPA = 4"
| "mf_len MFF_ARP_SHA = 6"
| "mf_len MFF_ARP_THA = 6"
| "mf_len MFF_TCP_SRC = 2"
| "mf_len MFF_TCP_DST = 2"
| "mf_len MFF_UDP_SRC = 2"
| "mf_len MFF_UDP_DST = 2"
| "mf_len MFF_ICMPV4_TYPE = 1"
| "mf_len MFF_ICMPV4_CODE = 1"
| "mf_len MFF_ICMPV6_TYPE = 1"
| "mf_len MFF_ICMPV6_CODE = 1"
| "mf_len MFF_ND_TARGET = 16"
| "mf_len MFF_ND_SLL = 6"
| "mf_len MFF_ND_TLL = 6"
| "mf_len MFF_N_IDS = 0"

text \<open>The fields with fewer significant bits than their bytes hold, by the code.\<close>

definition narrow_fields :: "(mf_field_id \<times> nat) list" where
  "narrow_fields = [(MFF_DL_VLAN, 12), (MFF_VLAN_VID, 13), (MFF_DL_VLAN_PCP, 3), (MFF_VLAN_PCP, 3), (MFF_MPLS_LABEL, 20), (MFF_MPLS_TC, 3), (MFF_MPLS_BOS, 1), (MFF_IP_DSCP_SHIFTED, 6), (MFF_IP_ECN, 2)]"

lemma length_member_at: "flow_wf f \<Longrightarrow> ofs + n \<le> 184 \<Longrightarrow> length (member_at f ofs n) = n"
  by (simp add: member_at_def length_concat_u32_bytes FLOW_U32S_eq)

lemma member_offsets:
  "flow_offsetof ''tunnel'' = 0" "flow_offsetof ''metadata'' = 24" "flow_offsetof ''ipv6_src'' = 32"
  "flow_offsetof ''ipv6_dst'' = 48" "flow_offsetof ''nd_target'' = 64" "flow_offsetof ''regs'' = 84"
  "flow_offsetof ''nw_src'' = 116" "flow_offsetof ''nw_dst'' = 120" "flow_offsetof ''ipv6_label'' = 124"
  "flow_offsetof ''dl_src'' = 150" "flow_offsetof ''dl_dst'' = 156" "flow_offsetof ''arp_sha'' = 164"
  "flow_offsetof ''arp_tha'' = 170" "flow_offsetof ''nw_ttl'' = 176" "flow_offsetof ''nw_frag'' = 177"
  by code_simp+

lemma tunnel_offsets:
  "map_of (fst (place_members 0 flow_tnl_members)) ''tun_id'' = Some 0"
  "map_of (fst (place_members 0 flow_tnl_members)) ''ip_src'' = Some 8"
  "map_of (fst (place_members 0 flow_tnl_members)) ''ip_dst'' = Some 12"
  "map_of (fst (place_members 0 flow_tnl_members)) ''flags'' = Some 16"
  "map_of (fst (place_members 0 flow_tnl_members)) ''ip_tos'' = Some 18"
  "map_of (fst (place_members 0 flow_tnl_members)) ''ip_ttl'' = Some 19"
  by code_simp+

lemma mf_value_length:
  assumes "flow_wf f" and "fid \<noteq> MFF_N_IDS"
  shows "\<exists>bs. mf_value_bytes fid f = Some bs \<and> length bs = mf_len fid"
  using assms by (cases fid)
    (simp_all add: member_def tunnel_member_def member_offsets tunnel_offsets length_member_at ETH_ADDR_LEN_def
      reg_bytes_def u16_bytes_def u32_bytes_def)

lemma mf_len_bound: "mf_len fid \<le> sizeof_mf_value"
  by (cases fid) (simp_all add: sizeof_mf_value_def)

lemma and_mask_high: "m = mask k \<Longrightarrow> k \<le> N \<Longrightarrow> \<not> bit (x AND m) N"
  by (simp add: bit_and_iff bit_mask_iff)

lemma drop_bit_high: "LENGTH('a) \<le> N + k \<Longrightarrow> \<not> bit (drop_bit k (x :: 'a :: len word)) N"
  by (simp add: bit_drop_bit_eq bit_imp_le_length) (metis add.commute bit_imp_le_length not_le)

lemma mf_value_narrow:
  assumes "(fid, w) \<in> set narrow_fields" and "mf_value_bytes fid f = Some bs" and "w \<le> N" "N < 8 * length bs"
  shows "\<not> be_bit bs N"
proof -
  have l: "length (u16_bytes x) = 2" "length (u32_bytes y) = 4" for x y by (simp_all add: u16_bytes_def u32_bytes_def)
  have vid: "\<not> bit (ntohs t AND VLAN_VID_MASK) N" if "12 \<le> N" for t
    by (rule and_mask_high [OF _ that]) (simp add: VLAN_VID_MASK_def mask_eq_exp_minus_1)
  have cfi: "\<not> bit (ntohs t AND (VLAN_VID_MASK OR VLAN_CFI)) N" if "13 \<le> N" for t
    by (rule and_mask_high [OF _ that]) (simp add: VLAN_VID_MASK_def VLAN_CFI_def mask_eq_exp_minus_1)
  have pcp: "\<not> bit (ucast (vlan_tci_to_pcp t) :: u8) N" if "3 \<le> N" for t
  proof -
    have "\<not> bit (drop_bit 13 (ntohs t AND VLAN_PCP_MASK)) N" using that by (intro drop_bit_high) simp
    then show ?thesis by (simp only: vlan_tci_to_pcp_def VLAN_PCP_SHIFT_def bit_ucast_iff simp_thms)
  qed
  have lab: "\<not> bit (mpls_lse_to_label t) N" if "20 \<le> N" for t
    unfolding mpls_lse_to_label_def MPLS_LABEL_SHIFT_def using that by (intro drop_bit_high) simp
  have tc: "\<not> bit (mpls_lse_to_tc t) N" if "3 \<le> N" for t
  proof -
    have m: "MPLS_TC_MASK = push_bit 9 (mask 3)" by (simp add: MPLS_TC_MASK_def mask_eq_exp_minus_1 push_bit_eq_mult)
    have "\<not> bit MPLS_TC_MASK (9 + N)"
      unfolding m bit_push_bit_iff bit_mask_iff using that by simp
    then have "\<not> bit (drop_bit 9 (ntohl t AND MPLS_TC_MASK)) N" by (simp add: bit_drop_bit_eq bit_and_iff)
    then show ?thesis by (simp only: mpls_lse_to_tc_def MPLS_TC_SHIFT_def bit_ucast_iff simp_thms)
  qed
  have bos: "\<not> bit (mpls_lse_to_bos t) N" if "1 \<le> N" for t
    using that by (simp add: mpls_lse_to_bos_def bit_1_iff)
  have ecn: "\<not> bit (t AND IP_ECN_MASK) N" if "2 \<le> N" for t
    by (rule and_mask_high [OF _ that]) (simp add: IP_ECN_MASK_def mask_eq_exp_minus_1)
  have dscp: "\<not> bit (drop_bit 2 (t :: u8)) N" if "6 \<le> N" for t using that by (simp add: drop_bit_high)
  show ?thesis
    using assms vid cfi pcp lab tc bos ecn dscp
    by (auto simp: narrow_fields_def l be_bit_u16 be_bit_u32 be_bit_u8 ntohs_and)
qed

section \<open>Properties\<close>

text \<open>\<open>mf_get_value\<close> covers every field: it stores a value of the field's size inside the
  16 bytes of \<open>union mf_value\<close>, leaves the remaining bytes alone, and the bits of the value
  above the significant ones are zero (12 for a VLAN id, 3 for its priority, 20 for an MPLS label,
  and so on).\<close>

theorem mf_get_value_bounds:
  assumes "flow_wf f" and "mf_id mf \<noteq> MFF_N_IDS" and "length value = sizeof_mf_value"
  shows "\<exists>v. mf_get_value mf f value = Some v \<and> length v = sizeof_mf_value
    \<and> drop (mf_len (mf_id mf)) v = drop (mf_len (mf_id mf)) value
    \<and> (\<forall>(fid, w) \<in> set narrow_fields. fid = mf_id mf \<longrightarrow>
         (\<forall>N. w \<le> N \<and> N < 8 * mf_len fid \<longrightarrow> \<not> be_bit (take (mf_len fid) v) N))"
proof -
  obtain bs where bs: "mf_value_bytes (mf_id mf) f = Some bs" "length bs = mf_len (mf_id mf)"
    using mf_value_length [OF assms(1,2)] by blast
  then show ?thesis
    using assms(3) mf_len_bound [of "mf_id mf"] mf_value_narrow [OF _ bs(1)]
    by (auto simp: mf_get_value_def)
qed

definition example_field :: mf_field where
  "example_field = \<lparr>mf_id = MFF_DL_VLAN, mf_name = ''dl_vlan'', extra_name = None, mf_n_bytes = 2, mf_n_bits = 12,
     maskable = MFM_NONE, mf_fmt = MFS_DECIMAL, prereqs = MFP_NONE, writable = True, nxm_header = 0,
     nxm_name = None, oxm_header = 0, oxm_name = None\<rparr>"

theorem mf_get_value_bounds_witness:
  "\<exists>v. mf_get_value example_field (replicate FLOW_U32S 0xffffffff) (replicate sizeof_mf_value 7) = Some v
    \<and> length v = sizeof_mf_value
    \<and> drop (mf_len (mf_id example_field)) v = drop (mf_len (mf_id example_field)) (replicate sizeof_mf_value 7)
    \<and> (\<forall>(fid, w) \<in> set narrow_fields. fid = mf_id example_field \<longrightarrow>
         (\<forall>N. w \<le> N \<and> N < 8 * mf_len fid \<longrightarrow> \<not> be_bit (take (mf_len fid) v) N))"
  by (rule mf_get_value_bounds) (simp_all add: example_field_def)

text \<open>A flow with Ethernet type IPv6 and protocol ICMPv6.\<close>

definition icmpv6_flow :: flow where
  "icmpv6_flow = (replicate FLOW_U32S 0)[36 := 0xdd86, 40 := 0x003a0000]"

lemma icmpv6_flow_prereq: "prereq_ok MFP_ICMPV6 icmpv6_flow"
  by code_simp

text \<open>the prerequisites are layered as the protocols are: neighbour discovery needs ICMPv6,
  TCP, UDP and ICMP need IP, and ARP, IP and MPLS exclude each other.\<close>

theorem mf_prereqs_layered:
  "(prereq_ok MFP_ND f \<longleftrightarrow> prereq_ok MFP_ND_SOLICIT f \<or> prereq_ok MFP_ND_ADVERT f)
   \<and> \<not> (prereq_ok MFP_ND_SOLICIT f \<and> prereq_ok MFP_ND_ADVERT f)
   \<and> (prereq_ok MFP_ND f \<longrightarrow> prereq_ok MFP_ICMPV6 f)
   \<and> (prereq_ok MFP_ICMPV6 f \<longrightarrow> prereq_ok MFP_IPV6 f) \<and> (prereq_ok MFP_ICMPV4 f \<longrightarrow> prereq_ok MFP_IPV4 f)
   \<and> (prereq_ok MFP_IP_ANY f \<longleftrightarrow> prereq_ok MFP_IPV4 f \<or> prereq_ok MFP_IPV6 f)
   \<and> (prereq_ok MFP_TCP f \<or> prereq_ok MFP_UDP f \<longrightarrow> prereq_ok MFP_IP_ANY f)
   \<and> \<not> (prereq_ok MFP_TCP f \<and> prereq_ok MFP_UDP f) \<and> \<not> (prereq_ok MFP_IPV4 f \<and> prereq_ok MFP_IPV6 f)
   \<and> \<not> (prereq_ok MFP_IP_ANY f \<and> (prereq_ok MFP_ARP f \<or> prereq_ok MFP_MPLS f))
   \<and> \<not> (prereq_ok MFP_ARP f \<and> prereq_ok MFP_MPLS f)"
  by (auto simp: is_icmpv6_def is_icmpv4_def is_ip_any_def dl_type_is_ip_any_def eth_type_mpls_def htons_inj packet_consts)

end
