(* ===== verification/Enclave.thy ===== *)
theory Enclave
  imports Classifier_Spec OVS_Heap Meta_Flow
begin

text \<open>
  The state of the enclave (\<open>OFTonSGX/trusted/lib/ofproto-provider.h\<close>, \<open>trusted/enclave.c\<close>) and the
  entry points of \<open>trusted/cls_rule/cls-rule.c\<close>.

  The globals \<open>SGX_oftables\<close>, \<open>SGX_table_dpif\<close>, \<open>SGX_n_tables\<close> and \<open>SGX_hmap_table\<close> are arrays indexed
  by the bridge; every entry point works on the entries of one bridge, which form a \<open>bridge\<close> here.
  \<open>on_bridge\<close> is the access by \<open>bridge_id\<close>. Rules (\<open>struct sgx_cls_rule\<close>) and eviction groups are
  objects at addresses in stores; the heap nodes embedded in them are in node stores of their own,
  and the address of the embedded \<open>struct cls_rule\<close> is the address of the \<open>struct sgx_cls_rule\<close>
  (\<open>CONTAINER_OF\<close>). Memory that the untrusted side passes in is a value; what the code writes to
  it is part of the result. A null dereference, an index outside an array or a failed assertion is
  a fault (\<open>None\<close>); allocation succeeds.
\<close>

section \<open>State\<close>

record sgx_cls_rule =
  s_cls_rule :: cls_rule
  o_cls_rule :: ut_ptr
  evict_group :: "ptr option"
  evictable :: bool

record eviction_group =
  evg_rules :: heap

record oftable =
  flags :: u32
  t_cls :: classifier
  tname :: "string option"
  max_flows :: u32
  eviction_fields :: "mf_subfield list option"
  eviction_group_id_basis :: u32
  eviction_groups_by_id :: "ptr hmap"
  eviction_groups_by_size :: heap

text \<open>\<open>n_eviction_fields\<close> is the length of the array \<open>eviction_fields\<close> points to, 0 for NULL. The two
  table pointers of \<open>SGX_table_dpif\<close> point into the classifier of the same table.\<close>

record SGX_table_dpif =
  catchall_table :: "ptr option"
  other_table :: "ptr option"
  tag_basis :: u32

record bridge =
  oftables :: "oftable list"
  table_dpif :: "SGX_table_dpif list"
  n_tables :: int
  reg :: "ptr hmap"
  rstore :: "ptr \<Rightarrow> sgx_cls_rule"
  rnext :: ptr
  rule_nodes :: node_store
  gstore :: "ptr \<Rightarrow> eviction_group"
  gnext :: ptr
  size_nodes :: node_store
  rand :: "nat \<Rightarrow> u16"
  rand_pos :: nat

text \<open>\<open>reg\<close> is \<open>SGX_hmap_table\<close>'s map; \<open>rnext\<close> and \<open>gnext\<close> are the next addresses the allocator returns;
  \<open>rand\<close> is the stream of values that \<open>random_uint16\<close> reads from \<open>sgx_read_rand\<close>.\<close>

definition random_uint16 :: "bridge \<Rightarrow> u16 \<times> bridge" where
  "random_uint16 br = (rand br (rand_pos br), br\<lparr>rand_pos := rand_pos br + 1\<rparr>)"

type_synonym enclave = "u8 \<Rightarrow> bridge"

definition N_BRIDGES :: nat where "N_BRIDGES = 100"

definition on_bridge :: "u8 \<Rightarrow> (bridge \<Rightarrow> ('r \<times> bridge) option) \<Rightarrow> enclave \<Rightarrow> ('r \<times> enclave) option" where
  "on_bridge b f e = (if unat b < N_BRIDGES
     then map_option (\<lambda>(r, br). (r, e(b := br))) (f (e b)) else None)"

abbreviation rules_of :: "bridge \<Rightarrow> rule_store" where
  "rules_of br \<equiv> \<lambda>r. s_cls_rule (rstore br r)"

definition OFTABLE_HIDDEN :: u32 where "OFTABLE_HIDDEN = 1"
definition OFTABLE_READONLY :: u32 where "OFTABLE_READONLY = 2"
definition OFPFF_CHECK_OVERLAP :: u16 where "OFPFF_CHECK_OVERLAP = 2"
definition OFP_MAX_TABLE_NAME_LEN :: nat where "OFP_MAX_TABLE_NAME_LEN = 32"
definition UINT16_MAX :: nat where "UINT16_MAX = 65535"
definition UINT_MAX :: u32 where "UINT_MAX = 0xffffffff"

definition get_table :: "bridge \<Rightarrow> nat \<Rightarrow> oftable option" where
  "get_table br t = (if t < length (oftables br) then Some (oftables br ! t) else None)"

definition put_table :: "bridge \<Rightarrow> nat \<Rightarrow> oftable \<Rightarrow> bridge" where
  "put_table br t tb = br\<lparr>oftables := (oftables br)[t := tb]\<rparr>"

definition get_dpif :: "bridge \<Rightarrow> nat \<Rightarrow> SGX_table_dpif option" where
  "get_dpif br t = (if t < length (table_dpif br) then Some (table_dpif br ! t) else None)"

section \<open>The registry of rules\<close>

text \<open>\<open>(uint32_t)(uintptr_t) out\<close>, widened to the \<open>size_t\<close> hash of the map.\<close>

definition ut_hash :: "ut_ptr \<Rightarrow> u64" where
  "ut_hash out = ucast (ucast out :: u32)"

definition sgx_rule_from_ut_cr :: "bridge \<Rightarrow> ut_ptr \<Rightarrow> ptr option" where
  "sgx_rule_from_ut_cr br out =
     (case HMAP_FOR_EACH_WITH_HASH (reg br) (ut_hash out) of [] \<Rightarrow> None | r # _ \<Rightarrow> Some r)"

definition zero_sgx_rule :: sgx_cls_rule where
  "zero_sgx_rule = \<lparr>s_cls_rule = \<lparr>cr_match = \<lparr>mm_flow = \<lparr>mf_values = [], mf_map = [0, 0]\<rparr>,
       mm_mask = \<lparr>masks = \<lparr>mf_values = [], mf_map = [0, 0]\<rparr>\<rparr>\<rparr>, priority = 0\<rparr>,
     o_cls_rule = 0, evict_group = None, evictable = False\<rparr>"

definition node_insert :: "bridge \<Rightarrow> u64 \<Rightarrow> (ptr \<times> bridge) option" where
  "node_insert br hash = do {
     let new = rnext br;
     h \<leftarrow> hmap_insert True (reg br) new hash;
     Some (new, br\<lparr>reg := h, rstore := (rstore br)(new := zero_sgx_rule), rnext := new + 1,
       rule_nodes := (rule_nodes br)(new := \<lparr>idx = 0, hn_priority = 0\<rparr>)\<rparr>) }"

definition node_delete :: "bridge \<Rightarrow> ut_ptr \<Rightarrow> bridge option" where
  "node_delete br out = do {
     r \<leftarrow> sgx_rule_from_ut_cr br out;
     h \<leftarrow> hmap_remove (reg br) r;
     Some (br\<lparr>reg := h\<rparr>) }"

definition sgx_cls_rule_init_i :: "match \<Rightarrow> u32 \<Rightarrow> cls_rule" where
  "sgx_cls_rule_init_i m p = cls_rule_init m p"

section \<open>Entry points on rules\<close>

definition ecall_cls_rule_init :: "bridge \<Rightarrow> ut_ptr \<Rightarrow> match \<Rightarrow> u32 \<Rightarrow> bridge option" where
  "ecall_cls_rule_init br o_cr m p = do {
     (r, br) \<leftarrow> node_insert br (ut_hash o_cr);
     let sr = rstore br r;
     Some (br\<lparr>rstore := (rstore br)(r := sr\<lparr>o_cls_rule := o_cr, s_cls_rule := cls_rule_init m p, evictable := True\<rparr>)\<rparr>) }"

definition ecall_cr_rule_overlaps :: "bridge \<Rightarrow> nat \<Rightarrow> ut_ptr \<Rightarrow> bool option" where
  "ecall_cr_rule_overlaps br t out = do {
     r \<leftarrow> sgx_rule_from_ut_cr br out;
     tb \<leftarrow> get_table br t;
     Some (classifier_rule_overlaps (rules_of br) (t_cls tb) (rules_of br r)) }"

definition ecall_cls_rule_destroy :: "bridge \<Rightarrow> ut_ptr \<Rightarrow> bridge option" where
  "ecall_cls_rule_destroy br out = do {
     r \<leftarrow> sgx_rule_from_ut_cr br out;
     node_delete br (o_cls_rule (rstore br r)) }"

definition ecall_cls_rule_hash :: "bridge \<Rightarrow> ut_ptr \<Rightarrow> u32 \<Rightarrow> u32 option" where
  "ecall_cls_rule_hash br o_cr basis = do {
     r \<leftarrow> sgx_rule_from_ut_cr br o_cr;
     Some (cls_rule_hash (rules_of br r) basis) }"

definition ecall_cls_rule_equal :: "bridge \<Rightarrow> ut_ptr \<Rightarrow> ut_ptr \<Rightarrow> bool option" where
  "ecall_cls_rule_equal br out_a out_b = do {
     a \<leftarrow> sgx_rule_from_ut_cr br out_a;
     b \<leftarrow> sgx_rule_from_ut_cr br out_b;
     Some (cls_rule_equal (rules_of br a) (rules_of br b)) }"

definition ecall_cls_remove :: "bridge \<Rightarrow> nat \<Rightarrow> ut_ptr \<Rightarrow> bridge option" where
  "ecall_cls_remove br t o_cr = do {
     r \<leftarrow> sgx_rule_from_ut_cr br o_cr;
     tb \<leftarrow> get_table br t;
     c \<leftarrow> classifier_remove (rules_of br) (t_cls tb) r;
     Some (put_table br t (tb\<lparr>t_cls := c\<rparr>)) }"

definition ecall_cr_priority :: "bridge \<Rightarrow> ut_ptr \<Rightarrow> u32 option" where
  "ecall_cr_priority br o_cr = do {
     r \<leftarrow> sgx_rule_from_ut_cr br o_cr;
     Some (priority (rules_of br r)) }"

definition ecall_cls_rule_is_loose_match :: "bridge \<Rightarrow> ut_ptr \<Rightarrow> minimatch \<Rightarrow> int option" where
  "ecall_cls_rule_is_loose_match br o_cr criteria = do {
     r \<leftarrow> sgx_rule_from_ut_cr br o_cr;
     Some (if cls_rule_is_loose_match (rules_of br r) criteria then 100 else 0) }"

definition ecall_cls_rule_format :: "bridge \<Rightarrow> ut_ptr \<Rightarrow> (match \<times> u32) option" where
  "ecall_cls_rule_format br o_cr = do {
     r \<leftarrow> sgx_rule_from_ut_cr br o_cr;
     Some (minimatch_expand (cr_match (rules_of br r)), priority (rules_of br r)) }"

definition ecall_rule_calculate_tag :: "bridge \<Rightarrow> ut_ptr \<Rightarrow> flow \<Rightarrow> nat \<Rightarrow> u32 option" where
  "ecall_rule_calculate_tag br o_cr f t = do {
     r \<leftarrow> sgx_rule_from_ut_cr br o_cr;
     if minimask_is_catchall (rule_mask (rules_of br) r) then Some 0
     else do {
       d \<leftarrow> get_dpif br t;
       Some (flow_hash_in_minimask f (rule_mask (rules_of br) r) (tag_basis d)) } }"

definition ecall_rule_calculate_tag_s :: "bridge \<Rightarrow> nat \<Rightarrow> flow \<Rightarrow> u32 option" where
  "ecall_rule_calculate_tag_s br t f = do {
     d \<leftarrow> get_dpif br t;
     ct \<leftarrow> other_table d;
     tb \<leftarrow> get_table br t;
     let m = t_mask (tstore (t_cls tb) ct);
     if minimask_is_catchall m then Some 0 else Some (flow_hash_in_minimask f m (tag_basis d)) }"

definition ecall_miniflow_expand :: "bridge \<Rightarrow> ut_ptr \<Rightarrow> flow option" where
  "ecall_miniflow_expand br o_cr = do {
     r \<leftarrow> sgx_rule_from_ut_cr br o_cr;
     Some (miniflow_expand (rule_flow (rules_of br) r)) }"

definition ecall_minimask_get_vid_mask :: "bridge \<Rightarrow> ut_ptr \<Rightarrow> u16 option" where
  "ecall_minimask_get_vid_mask br o_cr = do {
     r \<leftarrow> sgx_rule_from_ut_cr br o_cr;
     Some (minimask_get_vid_mask (rule_mask (rules_of br) r)) }"

definition ecall_miniflow_get_vid :: "bridge \<Rightarrow> ut_ptr \<Rightarrow> u16 option" where
  "ecall_miniflow_get_vid br o_cr = do {
     r \<leftarrow> sgx_rule_from_ut_cr br o_cr;
     Some (miniflow_get_vid (rule_flow (rules_of br) r)) }"

definition ecall_minimatch_expand :: "bridge \<Rightarrow> ut_ptr \<Rightarrow> match option" where
  "ecall_minimatch_expand br o_cr = do {
     r \<leftarrow> sgx_rule_from_ut_cr br o_cr;
     Some (minimatch_expand (cr_match (rules_of br r))) }"

text \<open>\<open>ecall_cls_rules_format\<close> is given the address of an array of \<open>struct cls_rule\<close> (136 bytes each);
  it returns the matches and drops the priorities.\<close>

definition sizeof_cls_rule :: u64 where "sizeof_cls_rule = 136"

fun ecall_cls_rules_format :: "bridge \<Rightarrow> ut_ptr \<Rightarrow> nat \<Rightarrow> match list option" where
  "ecall_cls_rules_format br crs 0 = Some []"
| "ecall_cls_rules_format br crs (Suc n) = do {
     (m, _) \<leftarrow> ecall_cls_rule_format br crs;
     ms \<leftarrow> ecall_cls_rules_format br (crs + sizeof_cls_rule) n;
     Some (m # ms) }"

definition ecall_minimatch_expand_and_get_priority :: "bridge \<Rightarrow> ut_ptr \<Rightarrow> (match \<times> u32) option" where
  "ecall_minimatch_expand_and_get_priority br o_cr = do {
     m \<leftarrow> ecall_minimatch_expand br o_cr;
     p \<leftarrow> ecall_cr_priority br o_cr;
     Some (m, p) }"

definition ecall_miniflow_expand_and_tag :: "bridge \<Rightarrow> ut_ptr \<Rightarrow> nat \<Rightarrow> (flow \<times> u32) option" where
  "ecall_miniflow_expand_and_tag br o_cr t = do {
     f \<leftarrow> ecall_miniflow_expand br o_cr;
     tag \<leftarrow> ecall_rule_calculate_tag br o_cr f t;
     Some (f, tag) }"

section \<open>Handing rules out\<close>

text \<open>The loops that fill a caller's buffer. The \<open>_r\<close> entry points write the visited rules to \<open>buf\<close> and
  stop when \<open>p > elem\<close>; a write outside the buffer is a fault. \<open>elem\<close> is an \<open>int\<close> compared as a
  \<open>size_t\<close>. The \<open>_c\<close> entry points pass a null buffer and only count.\<close>

fun collect_r :: "'a list \<Rightarrow> nat \<Rightarrow> 'a list \<Rightarrow> nat \<Rightarrow> ('a list \<times> nat) option" where
  "collect_r [] p buf elem = Some (buf, p)"
| "collect_r (x # xs) p buf elem =
     (if p > elem then Some (buf, p)
      else if p < length buf then collect_r xs (p + 1) (buf[p := x]) elem else None)"

definition size_of_int :: "int \<Rightarrow> nat" where
  "size_of_int i = nat (i mod 2 ^ 64)"

definition SIZE_MAX :: nat where "SIZE_MAX = 2 ^ 64 - 1"

text \<open>The paged loops: \<open>i\<close> counts the visited items, \<open>acc\<close> is what is written; an \<open>end_index\<close> of \<open>-1\<close>
  (\<open>SIZE_MAX\<close>) is no limit.\<close>

fun page_loop :: "nat \<Rightarrow> nat \<Rightarrow> nat \<Rightarrow> 'a list \<Rightarrow> nat \<Rightarrow> 'a list \<Rightarrow> 'a list \<times> nat" where
  "page_loop start stop buf_size [] i acc = (acc, i)"
| "page_loop start stop buf_size (x # xs) i acc =
     (let buffer_is_full = length acc \<ge> buf_size;
          is_outside_range = i < start \<or> (stop \<noteq> SIZE_MAX \<and> i \<ge> stop)
      in page_loop start stop buf_size xs (i + 1)
           (if is_outside_range \<or> buffer_is_full then acc else acc @ [x]))"

definition ut_rules :: "bridge \<Rightarrow> ptr list \<Rightarrow> ut_ptr list" where
  "ut_rules br rs = map (\<lambda>r. o_cls_rule (rstore br r)) rs"

lemma page_loop_index [simp]: "snd (page_loop start stop bs xs i acc) = i + length xs"
  by (induction xs arbitrary: i acc) (simp_all add: Let_def)

lemma page_loop_grows: "(acc', i') = page_loop start stop bs xs i acc \<Longrightarrow> i \<le> i'"
  using page_loop_index [of start stop bs xs i acc] by (simp add: prod_eq_iff)

end
