(* ===== verification/Eviction.thy ===== *)
theory Eviction
  imports Enclave
begin

text \<open>
  Eviction groups: \<open>OFTonSGX/trusted/eviction/eviction.c\<close>, with the getters of \<open>oftable.c\<close> that it
  calls. Every table with eviction enabled keeps its groups in a hash map by group id and in a heap
  by size; every group keeps its rules in a heap by eviction priority.

  \<open>union mf_value value\<close> in \<open>eviction_group_hash_rule\<close> is not initialised: its initial bytes are the
  argument \<open>junk\<close>. Freeing an object removes it from every structure and is not represented
  otherwise.
\<close>

section \<open>Getters\<close>

definition ecall_oftable_cls_count :: "bridge \<Rightarrow> nat \<Rightarrow> int option" where
  "ecall_oftable_cls_count br t = do { tb \<leftarrow> get_table br t; Some (classifier_count (t_cls tb)) }"

definition ecall_oftable_mflows :: "bridge \<Rightarrow> nat \<Rightarrow> u32 option" where
  "ecall_oftable_mflows br t = do { tb \<leftarrow> get_table br t; Some (max_flows tb) }"

definition ecall_oftable_get_cls_rules :: "bridge \<Rightarrow> nat \<Rightarrow> nat \<Rightarrow> nat \<Rightarrow> nat \<Rightarrow> (ut_ptr list \<times> nat) option" where
  "ecall_oftable_get_cls_rules br t start stop buf_size = do {
     tb \<leftarrow> get_table br t;
     rs \<leftarrow> CLS_CURSOR_FOR_EACH (rules_of br) (t_cls tb) None;
     Some (page_loop start stop buf_size (ut_rules br rs) 0 []) }"

definition ecall_is_eviction_fields_enabled :: "bridge \<Rightarrow> nat \<Rightarrow> bool option" where
  "ecall_is_eviction_fields_enabled br t = do { tb \<leftarrow> get_table br t; Some (eviction_fields tb \<noteq> None) }"

section \<open>Groups\<close>

definition hash_subfield :: "mf_value \<Rightarrow> flow \<Rightarrow> mf_subfield \<Rightarrow> u32 \<Rightarrow> u32 option" where
  "hash_subfield junk f sf hash =
     (if mf_are_prereqs_ok (sf_field sf) f
      then do {
        let n_bytes = mf_n_bytes (sf_field sf);
        value \<leftarrow> mf_get_value (sf_field sf) f junk;
        value \<leftarrow> (if sf_ofs sf \<noteq> 0 then bitwise_zero value n_bytes 0 (sf_ofs sf) else Some value);
        value \<leftarrow> (if sf_ofs sf + sf_n_bits sf < n_bytes * 8
          then (let start = sf_ofs sf + sf_n_bits sf in bitwise_zero value n_bytes start (n_bytes * 8 - start))
          else Some value);
        if n_bytes \<le> length value then Some (hash_bytes (take n_bytes value) hash) else None }
      else Some (hash_int hash 0))"

fun hash_subfields :: "mf_value \<Rightarrow> flow \<Rightarrow> mf_subfield list \<Rightarrow> u32 \<Rightarrow> u32 option" where
  "hash_subfields junk f [] hash = Some hash"
| "hash_subfields junk f (sf # sfs) hash = do {
     hash \<leftarrow> hash_subfield junk f sf hash;
     hash_subfields junk f sfs hash }"

definition eviction_group_hash_rule :: "mf_value \<Rightarrow> oftable \<Rightarrow> cls_rule \<Rightarrow> u32 option" where
  "eviction_group_hash_rule junk tb cr =
     hash_subfields junk (miniflow_expand (mm_flow (cr_match cr)))
       (case eviction_fields tb of None \<Rightarrow> [] | Some sfs \<Rightarrow> sfs) (eviction_group_id_basis tb)"

definition sgx_evg_find :: "bridge \<Rightarrow> nat \<Rightarrow> u32 \<Rightarrow> u32 \<Rightarrow> (ptr \<times> bridge) option" where
  "sgx_evg_find br t evg_id p = do {
     tb \<leftarrow> get_table br t;
     case HMAP_FOR_EACH_WITH_HASH (eviction_groups_by_id tb) (ucast evg_id) of
       evg # _ \<Rightarrow> Some (evg, br)
     | [] \<Rightarrow> do {
         let evg = gnext br;
         h \<leftarrow> hmap_insert True (eviction_groups_by_id tb) evg (ucast evg_id);
         let (hp, nd) = heap_insert_ovs (eviction_groups_by_size tb, size_nodes br) evg p;
         Some (evg, (put_table br t (tb\<lparr>eviction_groups_by_id := h, eviction_groups_by_size := hp\<rparr>))
           \<lparr>size_nodes := nd, gnext := evg + 1, gstore := (gstore br)(evg := \<lparr>evg_rules = heap_init_ovs\<rparr>)\<rparr>) } }"

definition sgx_evg_group_resize :: "bridge \<Rightarrow> nat \<Rightarrow> u32 \<Rightarrow> ptr \<Rightarrow> bridge option" where
  "sgx_evg_group_resize br t p evg = do {
     tb \<leftarrow> get_table br t;
     let (hp, nd) = heap_change_ovs (eviction_groups_by_size tb, size_nodes br) evg p;
     Some ((put_table br t (tb\<lparr>eviction_groups_by_size := hp\<rparr>))\<lparr>size_nodes := nd\<rparr>) }"

text \<open>\<open>(MIN(UINT16_MAX, n_rules) << 16) | random_uint16()\<close>.\<close>

definition evg_priority :: "nat \<Rightarrow> u16 \<Rightarrow> u32" where
  "evg_priority n rnd = push_bit 16 (of_nat (min UINT16_MAX n)) OR ucast rnd"

definition ecall_evg_add_rule :: "mf_value \<Rightarrow> bridge \<Rightarrow> nat \<Rightarrow> ut_ptr \<Rightarrow> u32 \<Rightarrow> u32 \<Rightarrow> heap_node \<Rightarrow> bridge option" where
  "ecall_evg_add_rule junk br t o_cr p rule_p node = do {
     r \<leftarrow> sgx_rule_from_ut_cr br o_cr;
     tb \<leftarrow> get_table br t;
     evg_id \<leftarrow> eviction_group_hash_rule junk tb (rules_of br r);
     (evg, br) \<leftarrow> sgx_evg_find br t evg_id p;
     let br = br\<lparr>rstore := (rstore br)(r := (rstore br r)\<lparr>evict_group := Some evg\<rparr>),
                 rule_nodes := (rule_nodes br)(r := node)\<rparr>;
     let (hp, nd) = heap_insert_ovs (evg_rules (gstore br evg), rule_nodes br) r rule_p;
     let br = br\<lparr>gstore := (gstore br)(evg := \<lparr>evg_rules = hp\<rparr>), rule_nodes := nd\<rparr>;
     let (rnd, br) = random_uint16 br;
     sgx_evg_group_resize br t (evg_priority (heap_count_ovs hp) rnd) evg }"

text \<open>The loop of \<open>sgx_evg_destroy\<close> that empties the heap of a group.\<close>

function pop_rules :: "heap \<Rightarrow> (ptr \<Rightarrow> sgx_cls_rule) \<Rightarrow> heap \<times> (ptr \<Rightarrow> sgx_cls_rule)" where
  "pop_rules h st = (if heap_is_empty_ovs h then (h, st)
     else case heap_pop_ovs h of (h, r) \<Rightarrow> pop_rules h (st(r := (st r)\<lparr>evict_group := None\<rparr>)))"
  by pat_completeness auto
termination
  by (relation "measure (\<lambda>(h, st). heap_n h)") (auto simp: heap_is_empty_ovs_def heap_pop_ovs_def)

declare pop_rules.simps [simp del]

definition sgx_evg_destroy :: "bridge \<Rightarrow> nat \<Rightarrow> ptr \<Rightarrow> bridge option" where
  "sgx_evg_destroy br t evg = do {
     let (hp, st) = pop_rules (evg_rules (gstore br evg)) (rstore br);
     let br = br\<lparr>gstore := (gstore br)(evg := \<lparr>evg_rules = hp\<rparr>), rstore := st\<rparr>;
     tb \<leftarrow> get_table br t;
     h \<leftarrow> hmap_remove (eviction_groups_by_id tb) evg;
     let (hp, nd) = heap_remove_ovs (eviction_groups_by_size tb, size_nodes br) evg;
     Some ((put_table br t (tb\<lparr>eviction_groups_by_id := h, eviction_groups_by_size := hp\<rparr>))\<lparr>size_nodes := nd\<rparr>) }"

definition ecall_evg_remove_rule :: "bridge \<Rightarrow> nat \<Rightarrow> ut_ptr \<Rightarrow> bridge option" where
  "ecall_evg_remove_rule br t o_cr = do {
     r \<leftarrow> sgx_rule_from_ut_cr br o_cr;
     case evict_group (rstore br r) of
       None \<Rightarrow> Some br
     | Some evg \<Rightarrow> do {
         let br = br\<lparr>rstore := (rstore br)(r := (rstore br r)\<lparr>evict_group := None\<rparr>)\<rparr>;
         let (hp, nd) = heap_remove_ovs (evg_rules (gstore br evg), rule_nodes br) r;
         let br = br\<lparr>gstore := (gstore br)(evg := \<lparr>evg_rules = hp\<rparr>), rule_nodes := nd\<rparr>;
         if heap_is_empty_ovs hp then sgx_evg_destroy br t evg
         else do {
           let (rnd, br) = random_uint16 br;
           sgx_evg_group_resize br t (evg_priority (heap_count_ovs hp) rnd) evg } } }"

section \<open>Choosing a rule\<close>

definition group_rules :: "bridge \<Rightarrow> ptr \<Rightarrow> ptr list option" where
  "group_rules br evg = HEAP_FOR_EACH (evg_rules (gstore br evg), rule_nodes br)"

fun choose_in_groups :: "bridge \<Rightarrow> ptr list \<Rightarrow> ut_ptr option option" where
  "choose_in_groups br [] = Some None"
| "choose_in_groups br (evg # evgs) = do {
     rs \<leftarrow> group_rules br evg;
     case find (\<lambda>r. evictable (rstore br r)) rs of
       Some r \<Rightarrow> Some (Some (o_cls_rule (rstore br r)))
     | None \<Rightarrow> choose_in_groups br evgs }"

definition ecall_choose_rule_to_evict :: "bridge \<Rightarrow> nat \<Rightarrow> ut_ptr option option" where
  "ecall_choose_rule_to_evict br t = do {
     tb \<leftarrow> get_table br t;
     if eviction_fields tb = None then Some None
     else do {
       evgs \<leftarrow> HEAP_FOR_EACH (eviction_groups_by_size tb, size_nodes br);
       choose_in_groups br evgs } }"

definition set_evictable :: "bridge \<Rightarrow> ptr \<Rightarrow> bool \<Rightarrow> bridge" where
  "set_evictable br r v = br\<lparr>rstore := (rstore br)(r := (rstore br r)\<lparr>evictable := v\<rparr>)\<rparr>"

definition ecall_choose_rule_to_evict_p :: "bridge \<Rightarrow> nat \<Rightarrow> ut_ptr \<Rightarrow> (ut_ptr option \<times> bridge) option" where
  "ecall_choose_rule_to_evict_p br t replacer = do {
     r \<leftarrow> sgx_rule_from_ut_cr br replacer;
     let was_evictable = evictable (rstore br r);
     let br = set_evictable br r False;
     tmp \<leftarrow> ecall_choose_rule_to_evict br t;
     Some (tmp, set_evictable br r was_evictable) }"

text \<open>The helper \<open>choose_rule_to_evict\<close>: over all groups, the evictable rule of greatest eviction
  priority that is not excluded, the first one visited among equals.\<close>

definition better_victim :: "bridge \<Rightarrow> ptr list \<Rightarrow> ptr \<Rightarrow> ptr option \<Rightarrow> ptr option" where
  "better_victim br excl r victim =
     (if evictable (rstore br r) \<and> r \<notin> set excl
      then (case victim of
          None \<Rightarrow> Some r
        | Some v \<Rightarrow> if hn_priority (rule_nodes br v) < hn_priority (rule_nodes br r) then Some r else Some v)
      else victim)"

fun victim_in_groups :: "bridge \<Rightarrow> ptr list \<Rightarrow> ptr list \<Rightarrow> ptr option \<Rightarrow> ptr option option" where
  "victim_in_groups br excl [] victim = Some victim"
| "victim_in_groups br excl (evg # evgs) victim = do {
     rs \<leftarrow> group_rules br evg;
     victim_in_groups br excl evgs (fold (better_victim br excl) rs victim) }"

definition choose_rule_to_evict :: "bridge \<Rightarrow> nat \<Rightarrow> ptr list \<Rightarrow> ptr option option" where
  "choose_rule_to_evict br t excl = do {
     tb \<leftarrow> get_table br t;
     if eviction_fields tb = None then Some None
     else do {
       evgs \<leftarrow> HEAP_FOR_EACH (eviction_groups_by_size tb, size_nodes br);
       victim_in_groups br excl evgs None } }"

section \<open>Enabling and disabling\<close>

fun destroy_groups :: "bridge \<Rightarrow> nat \<Rightarrow> ptr list \<Rightarrow> bridge option" where
  "destroy_groups br t [] = Some br"
| "destroy_groups br t (evg # evgs) = do { br \<leftarrow> sgx_evg_destroy br t evg; destroy_groups br t evgs }"

definition ecall_oftable_disable_eviction :: "bridge \<Rightarrow> nat \<Rightarrow> bridge option" where
  "ecall_oftable_disable_eviction br t = do {
     tb \<leftarrow> get_table br t;
     if eviction_fields tb = None then Some br
     else do {
       evgs \<leftarrow> HMAP_FOR_EACH (eviction_groups_by_id tb);
       br \<leftarrow> destroy_groups br t evgs;
       tb \<leftarrow> get_table br t;
       Some (put_table br t (tb\<lparr>eviction_fields := None\<rparr>)) } }"

text \<open>The result is the new state and \<open>*no_change\<close>, which keeps its value unless nothing changes.\<close>

definition ecall_oftable_enable_eviction :: "bridge \<Rightarrow> nat \<Rightarrow> mf_subfield list \<Rightarrow> u32 \<Rightarrow> bool \<Rightarrow> (bool \<times> bridge) option" where
  "ecall_oftable_enable_eviction br t sfs random_v no_change = do {
     tb \<leftarrow> get_table br t;
     if eviction_fields tb = Some sfs then Some (True, br)
     else do {
       br \<leftarrow> ecall_oftable_disable_eviction br t;
       tb \<leftarrow> get_table br t;
       Some (no_change, put_table br t (tb\<lparr>eviction_fields := Some sfs, eviction_group_id_basis := random_v,
         eviction_groups_by_id := hmap_init, eviction_groups_by_size := heap_init_ovs\<rparr>)) } }"

definition table_ut_rules :: "bridge \<Rightarrow> nat \<Rightarrow> ut_ptr list option" where
  "table_ut_rules br t = do {
     tb \<leftarrow> get_table br t;
     rs \<leftarrow> CLS_CURSOR_FOR_EACH (rules_of br) (t_cls tb) None;
     Some (ut_rules br rs) }"

definition ecall_oftable_enable_eviction_r :: "bridge \<Rightarrow> nat \<Rightarrow> ut_ptr list \<Rightarrow> int \<Rightarrow> (ut_ptr list \<times> nat) option" where
  "ecall_oftable_enable_eviction_r br t buf elem = do {
     rs \<leftarrow> table_ut_rules br t;
     collect_r rs 0 buf (size_of_int elem) }"

definition ecall_oftable_enable_eviction_c :: "bridge \<Rightarrow> nat \<Rightarrow> nat option" where
  "ecall_oftable_enable_eviction_c br t = map_option length (table_ut_rules br t)"

definition ecall_need_to_evict :: "bridge \<Rightarrow> nat \<Rightarrow> bool option" where
  "ecall_need_to_evict br t = do {
     enabled \<leftarrow> ecall_is_eviction_fields_enabled br t;
     cnt \<leftarrow> ecall_oftable_cls_count br t;
     mflows \<leftarrow> ecall_oftable_mflows br t;
     Some (enabled \<and> (of_int cnt :: u32) > mflows) }"

definition ecall_get_cls_rules_and_enable_eviction :: "bridge \<Rightarrow> nat \<Rightarrow> nat \<Rightarrow> mf_subfield list \<Rightarrow> u32 \<Rightarrow> bool
    \<Rightarrow> ((ut_ptr list \<times> nat) option \<times> bool \<times> bool \<times> bridge) option" where
  "ecall_get_cls_rules_and_enable_eviction br t buf_size sfs random_v no_change = do {
     (no_change, br) \<leftarrow> ecall_oftable_enable_eviction br t sfs random_v no_change;
     enabled \<leftarrow> ecall_is_eviction_fields_enabled br t;
     if no_change \<or> \<not> enabled then Some (None, no_change, enabled, br)
     else do {
       res \<leftarrow> ecall_oftable_get_cls_rules br t 0 SIZE_MAX buf_size;
       Some (Some res, no_change, enabled, br) } }"

fun ecall_eviction_group_add_rules :: "mf_value \<Rightarrow> bridge \<Rightarrow> nat \<Rightarrow> (ut_ptr \<times> heap_node \<times> u32) list \<Rightarrow> u32 \<Rightarrow> bridge option" where
  "ecall_eviction_group_add_rules junk br t [] group_p = Some br"
| "ecall_eviction_group_add_rules junk br t ((o_cr, node, rule_p) # rest) group_p = do {
     br \<leftarrow> ecall_evg_add_rule junk br t o_cr group_p rule_p node;
     ecall_eviction_group_add_rules junk br t rest group_p }"

section \<open>Evicting\<close>

text \<open>What \<open>ecall_ofproto_evict\<close> records for each rule it takes out: the table, the rule and the two
  priorities. The rules from \<open>start_index\<close> on go to the caller's buffers of \<open>buf_size\<close> entries. The
  loop variable is a \<open>size_t\<close>, narrowed to \<open>uint8_t\<close> in the calls; \<open>max_flows\<close> is read into an \<open>int\<close>.\<close>

record evicted =
  ev_table :: nat
  ev_rule :: ut_ptr
  ev_hash :: u32
  ev_group_prio :: u32
  ev_rule_prio :: u32

function evict_loop :: "nat \<Rightarrow> nat \<Rightarrow> nat \<Rightarrow> int \<Rightarrow> int \<Rightarrow> evicted list \<Rightarrow> bridge \<Rightarrow> (evicted list \<times> bridge) option" where
  "evict_loop start buf_size t cnt mflows evs br =
     (if cnt \<le> mflows then Some (evs, br)
      else do {
        tmp \<leftarrow> ecall_choose_rule_to_evict br (t mod 256);
        case tmp of
          None \<Rightarrow> Some (evs, br)
        | Some o_cr \<Rightarrow>
            if length evs \<ge> start + buf_size then None
            else do {
              hash \<leftarrow> ecall_cls_rule_hash br o_cr (of_nat t);
              r \<leftarrow> sgx_rule_from_ut_cr br o_cr;
              evg \<leftarrow> evict_group (rstore br r);
              let ev = \<lparr>ev_table = t mod 256, ev_rule = o_cr, ev_hash = hash,
                        ev_group_prio = hn_priority (size_nodes br evg), ev_rule_prio = hn_priority (rule_nodes br r)\<rparr>;
              br \<leftarrow> ecall_evg_remove_rule br (t mod 256) o_cr;
              evict_loop start buf_size t (cnt - 1) mflows (evs @ [ev]) br } })"
  by pat_completeness auto
termination
  by (relation "measure (\<lambda>(start, buf_size, t, cnt, mflows, evs, br). nat (cnt - mflows))") auto

declare evict_loop.simps [simp del]

fun evict_tables :: "nat \<Rightarrow> nat \<Rightarrow> nat list \<Rightarrow> evicted list \<Rightarrow> int \<Rightarrow> bridge \<Rightarrow> (evicted list \<times> int \<times> bridge) option" where
  "evict_tables start buf_size [] evs tot br = Some (evs, tot, br)"
| "evict_tables start buf_size (t # ts) evs tot br = do {
     enabled \<leftarrow> ecall_is_eviction_fields_enabled br (t mod 256);
     if \<not> enabled then evict_tables start buf_size ts evs tot br
     else do {
       cnt \<leftarrow> ecall_oftable_cls_count br (t mod 256);
       mf \<leftarrow> ecall_oftable_mflows br (t mod 256);
       let mflows = sint mf;
       (evs, br) \<leftarrow> evict_loop start buf_size t cnt mflows evs br;
       evict_tables start buf_size ts evs (tot + (if cnt > mflows then cnt - mflows else 0)) br } }"

fun put_back :: "mf_value \<Rightarrow> evicted list \<Rightarrow> bridge \<Rightarrow> bridge option" where
  "put_back junk [] br = Some br"
| "put_back junk (ev # evs) br = do {
     r \<leftarrow> sgx_rule_from_ut_cr br (ev_rule ev);
     br \<leftarrow> ecall_evg_add_rule junk br (ev_table ev) (ev_rule ev) (ev_group_prio ev) (ev_rule_prio ev) (rule_nodes br r);
     put_back junk evs br }"

definition ecall_ofproto_evict :: "mf_value \<Rightarrow> bridge \<Rightarrow> int \<Rightarrow> nat \<Rightarrow> nat
    \<Rightarrow> (u64 \<times> (ut_ptr \<times> u32) list \<times> int \<times> bridge) option" where
  "ecall_ofproto_evict junk br ofproto_n_tables start buf_size = do {
     (evs, tot, br) \<leftarrow> evict_tables start buf_size [0..<size_of_int ofproto_n_tables] [] 0 br;
     br \<leftarrow> put_back junk evs br;
     Some (of_nat (length evs) - of_nat start, map (\<lambda>ev. (ev_rule ev, ev_hash ev)) (drop start evs), tot, br) }"

end
