(* ===== verification/Oftable.thy ===== *)
theory Oftable
  imports Eviction
begin

text \<open>
  The tables of a bridge: \<open>OFTonSGX/trusted/oftable/oftable.c\<close> and the table loops of
  \<open>trusted/enclave.h\<close>. A C string of the caller is the list of its characters before the terminating
  zero; a read past the terminating zero is a fault. Output arguments that a call may leave alone are
  passed in and returned.
\<close>

section \<open>Setting up\<close>

definition oftable_init :: oftable where
  "oftable_init = \<lparr>flags = 0, t_cls = classifier_init, tname = None, max_flows = UINT_MAX,
     eviction_fields = None, eviction_group_id_basis = 0,
     eviction_groups_by_id = hmap_init, eviction_groups_by_size = heap_init_ovs\<rparr>"

definition sgx_table_cls_init :: "bridge \<Rightarrow> bridge" where
  "sgx_table_cls_init br = br\<lparr>reg := hmap_init\<rparr>"

text \<open>The field \<open>basis\<close> is left as the allocator returned it: \<open>junk i\<close>.\<close>

definition sgx_table_dpif_init :: "(nat \<Rightarrow> u32) \<Rightarrow> bridge \<Rightarrow> int \<Rightarrow> bridge" where
  "sgx_table_dpif_init junk br n = br\<lparr>table_dpif :=
     map (\<lambda>i. \<lparr>catchall_table = None, other_table = None, tag_basis = junk i\<rparr>) [0..<nat n]\<rparr>"

definition ecall_ofproto_init_tables :: "(nat \<Rightarrow> u32) \<Rightarrow> bridge \<Rightarrow> int \<Rightarrow> bridge" where
  "ecall_ofproto_init_tables junk br n =
     sgx_table_dpif_init junk
       (sgx_table_cls_init (br\<lparr>n_tables := n, oftables := replicate (nat n) oftable_init\<rparr>)) n"

section \<open>Attributes\<close>

definition c_char_at :: "string \<Rightarrow> nat \<Rightarrow> char option" where
  "c_char_at s i = (if i < length s then Some (s ! i) else if i = length s then Some (CHR 0x00) else None)"

definition ecall_oftable_set_name :: "u8 \<Rightarrow> bridge \<Rightarrow> nat \<Rightarrow> string option \<Rightarrow> bridge option" where
  "ecall_oftable_set_name bridge_id br t nm = do {
     tb \<leftarrow> get_table br t;
     case nm of
       None \<Rightarrow> Some (put_table br t (tb\<lparr>tname := None\<rparr>))
     | Some s \<Rightarrow> do {
         c \<leftarrow> c_char_at s (unat bridge_id);
         if c \<noteq> CHR 0x00
         then let s' = take OFP_MAX_TABLE_NAME_LEN s in
           (case tname tb of
             None \<Rightarrow> Some (put_table br t (tb\<lparr>tname := Some s'\<rparr>))
           | Some old \<Rightarrow>
               if take (length s') old \<noteq> s' then Some (put_table br t (tb\<lparr>tname := Some s'\<rparr>)) else Some br)
         else Some (put_table br t (tb\<lparr>tname := None\<rparr>)) } }"

definition ecall_oftable_name :: "bridge \<Rightarrow> nat \<Rightarrow> char list \<Rightarrow> nat \<Rightarrow> char list option" where
  "ecall_oftable_name br t buf len = do {
     tb \<leftarrow> get_table br t;
     if length buf < len then None
     else Some (case tname tb of
         Some s \<Rightarrow> if len > length s then s @ CHR 0x00 # drop (length s + 1) buf else take len s @ drop len buf
       | None \<Rightarrow> replicate len (CHR 0x00) @ drop len buf) }"

definition ecall_oftable_get_flags :: "bridge \<Rightarrow> nat \<Rightarrow> u32 option" where
  "ecall_oftable_get_flags br t = do { tb \<leftarrow> get_table br t; Some (flags tb) }"

definition ecall_oftable_mflows_set :: "bridge \<Rightarrow> nat \<Rightarrow> u32 \<Rightarrow> bridge option" where
  "ecall_oftable_mflows_set br t v = do { tb \<leftarrow> get_table br t; Some (put_table br t (tb\<lparr>max_flows := v\<rparr>)) }"

definition ecall_oftable_set_readonly :: "bridge \<Rightarrow> nat \<Rightarrow> bridge option" where
  "ecall_oftable_set_readonly br t = do {
     tb \<leftarrow> get_table br t;
     Some (put_table br t (tb\<lparr>flags := OFTABLE_HIDDEN OR OFTABLE_READONLY\<rparr>)) }"

definition ecall_oftable_is_readonly :: "bridge \<Rightarrow> nat \<Rightarrow> u32 option" where
  "ecall_oftable_is_readonly br t = do { tb \<leftarrow> get_table br t; Some (flags tb AND OFTABLE_READONLY) }"

fun hidden_check_from :: "bridge \<Rightarrow> nat list \<Rightarrow> unit option" where
  "hidden_check_from br [] = Some ()"
| "hidden_check_from br (i # is) = do {
     f \<leftarrow> ecall_oftable_get_flags br i;
     nf \<leftarrow> ecall_oftable_get_flags br (i + 1);
     if f AND OFTABLE_HIDDEN = 0 \<or> nf AND OFTABLE_HIDDEN \<noteq> 0 then hidden_check_from br is else None }"

definition ecall_oftable_hidden_check :: "bridge \<Rightarrow> unit option" where
  "ecall_oftable_hidden_check br = hidden_check_from br [0..<nat (n_tables br - 1)]"

section \<open>Rules of a table\<close>

definition ecall_oftable_classifier_replace :: "bridge \<Rightarrow> nat \<Rightarrow> ut_ptr \<Rightarrow> (ut_ptr option \<times> bridge) option" where
  "ecall_oftable_classifier_replace br t ut_cr = do {
     r \<leftarrow> sgx_rule_from_ut_cr br ut_cr;
     tb \<leftarrow> get_table br t;
     (c, old) \<leftarrow> classifier_replace (rules_of br) (t_cls tb) r;
     Some (map_option (\<lambda>q. o_cls_rule (rstore br q)) old, put_table br t (tb\<lparr>t_cls := c\<rparr>)) }"

definition ecall_oftable_is_other_table :: "bridge \<Rightarrow> nat \<Rightarrow> int option" where
  "ecall_oftable_is_other_table br i = do {
     d \<leftarrow> get_dpif br i;
     Some (if other_table d \<noteq> None then 100 else 0) }"

text \<open>One iteration of the loop that looks for the catch-all table and the only other table.\<close>

definition taggable_step :: "classifier \<Rightarrow> ptr \<Rightarrow> ptr option \<times> ptr option \<Rightarrow> ptr option \<times> ptr option" where
  "taggable_step c t = (\<lambda>(catchall, other).
     if cls_table_is_catchall (tstore c t) then (Some t, other)
     else if other = None then (catchall, Some t)
     else (catchall, None))"

definition ecall_oftable_update_taggable :: "bridge \<Rightarrow> nat \<Rightarrow> (int \<times> bridge) option" where
  "ecall_oftable_update_taggable br t = do {
     tb \<leftarrow> get_table br t;
     d \<leftarrow> get_dpif br t;
     (catchall, other) \<leftarrow> (if hmap_count (tables (t_cls tb)) = 1 \<or> hmap_count (tables (t_cls tb)) = 2
       then do { ts \<leftarrow> HMAP_FOR_EACH (tables (t_cls tb)); Some (fold (taggable_step (t_cls tb)) ts (None, None)) }
       else Some (None, None));
     if catchall_table d \<noteq> catchall \<or> other_table d \<noteq> other
     then Some (4, br\<lparr>table_dpif := (table_dpif br)[t := d\<lparr>catchall_table := catchall, other_table := other\<rparr>]\<rparr>)
     else Some (0, br) }"

definition ecall_oftable_cls_find_match_exactly :: "bridge \<Rightarrow> nat \<Rightarrow> match \<Rightarrow> u32 \<Rightarrow> ut_ptr option option" where
  "ecall_oftable_cls_find_match_exactly br t target p = do {
     tb \<leftarrow> get_table br t;
     Some (map_option (\<lambda>r. o_cls_rule (rstore br r))
       (classifier_find_match_exactly (rules_of br) (t_cls tb) target p)) }"

definition ecall_oftable_cls_lookup :: "bridge \<Rightarrow> nat \<Rightarrow> flow \<Rightarrow> flow_wildcards option
    \<Rightarrow> (ut_ptr option \<times> flow_wildcards option) option" where
  "ecall_oftable_cls_lookup br t f wc = do {
     tb \<leftarrow> get_table br t;
     let (res, wc) = classifier_lookup (rules_of br) (t_cls tb) f wc;
     Some (map_option (\<lambda>r. o_cls_rule (rstore br r)) res, wc) }"

section \<open>Loops over the tables\<close>

text \<open>\<open>table_id\<close> is a \<open>uint8_t\<close>: the index that \<open>next_matching_table\<close> hands to \<open>next_visible_table\<close> is
  taken modulo 256, and the loop may not end.\<close>

function next_visible_table :: "bridge \<Rightarrow> nat \<Rightarrow> nat \<Rightarrow> nat option option" where
  "next_visible_table br n t =
     (if t < n then do {
        tb \<leftarrow> get_table br t;
        if flags tb AND OFTABLE_HIDDEN = 0 then Some (Some t) else next_visible_table br n (t + 1) }
      else Some None)"
  by pat_completeness auto
termination
  by (relation "measure (\<lambda>(br, n, t). n - t)") auto

declare next_visible_table.simps [simp del]

definition first_matching_table :: "bridge \<Rightarrow> nat \<Rightarrow> u8 \<Rightarrow> nat option option" where
  "first_matching_table br n table_id =
     (if table_id = 0xff then next_visible_table br n 0
      else if unat table_id < n then Some (Some (unat table_id)) else Some None)"

definition next_matching_table :: "bridge \<Rightarrow> nat \<Rightarrow> nat \<Rightarrow> u8 \<Rightarrow> nat option option" where
  "next_matching_table br n t table_id =
     (if table_id = 0xff then next_visible_table br n ((t + 1) mod 256) else Some None)"

partial_function (option) matching_from :: "bridge \<Rightarrow> nat \<Rightarrow> u8 \<Rightarrow> nat option \<Rightarrow> nat list option" where
  "matching_from br n table_id pos = (if pos = None then Some []
     else do {
       pos' \<leftarrow> next_matching_table br n (the pos) table_id;
       rest \<leftarrow> matching_from br n table_id pos';
       Some (the pos # rest) })"

declare matching_from.simps [code]

definition FOR_EACH_MATCHING_TABLE :: "bridge \<Rightarrow> u8 \<Rightarrow> int \<Rightarrow> nat list option" where
  "FOR_EACH_MATCHING_TABLE br table_id n = do {
     pos \<leftarrow> first_matching_table br (nat n) table_id;
     matching_from br (nat n) table_id pos }"

text \<open>The rules of the tables \<open>ts\<close> that the target loosely matches, in the order the nested loops visit
  them.\<close>

fun tables_rules :: "bridge \<Rightarrow> cls_rule option \<Rightarrow> nat list \<Rightarrow> ptr list option" where
  "tables_rules br target [] = Some []"
| "tables_rules br target (t # ts) = do {
     tb \<leftarrow> get_table br t;
     rs \<leftarrow> CLS_CURSOR_FOR_EACH (rules_of br) (t_cls tb) target;
     rest \<leftarrow> tables_rules br target ts;
     Some (rs @ rest) }"

definition loose_rules :: "bridge \<Rightarrow> int \<Rightarrow> u8 \<Rightarrow> cls_rule \<Rightarrow> ut_ptr list option" where
  "loose_rules br n table_id cr = do {
     ts \<leftarrow> FOR_EACH_MATCHING_TABLE br table_id n;
     rs \<leftarrow> tables_rules br (Some cr) ts;
     Some (ut_rules br rs) }"

definition ecall_collect_rules_loose_c :: "bridge \<Rightarrow> int \<Rightarrow> u8 \<Rightarrow> match \<Rightarrow> nat option" where
  "ecall_collect_rules_loose_c br n table_id m =
     map_option length (loose_rules br n table_id (sgx_cls_rule_init_i m 0))"

definition ecall_collect_rules_loose_r :: "bridge \<Rightarrow> int \<Rightarrow> ut_ptr list \<Rightarrow> int \<Rightarrow> u8 \<Rightarrow> match \<Rightarrow> (ut_ptr list \<times> nat) option" where
  "ecall_collect_rules_loose_r br n buf elem table_id m = do {
     rs \<leftarrow> loose_rules br n table_id (sgx_cls_rule_init_i m 0);
     collect_r rs 0 buf (size_of_int elem) }"

definition flushed_tables :: "bridge \<Rightarrow> nat list option" where
  "flushed_tables br = (if nat (n_tables br) \<le> length (oftables br)
     then Some (filter (\<lambda>t. flags (oftables br ! t) AND OFTABLE_HIDDEN = 0) [0..<nat (n_tables br)]) else None)"

definition flush_rules :: "bridge \<Rightarrow> ut_ptr list option" where
  "flush_rules br = do {
     ts \<leftarrow> flushed_tables br;
     rs \<leftarrow> tables_rules br None ts;
     Some (ut_rules br rs) }"

definition ecall_flush_c :: "bridge \<Rightarrow> nat option" where
  "ecall_flush_c br = map_option length (flush_rules br)"

definition ecall_flush_r :: "bridge \<Rightarrow> ut_ptr list \<Rightarrow> int \<Rightarrow> (ut_ptr list \<times> nat) option" where
  "ecall_flush_r br buf elem = do {
     rs \<leftarrow> flush_rules br;
     collect_r rs 0 buf (size_of_int elem) }"

fun strict_in_tables :: "bridge \<Rightarrow> cls_rule \<Rightarrow> nat list \<Rightarrow> ptr list option" where
  "strict_in_tables br cr [] = Some []"
| "strict_in_tables br cr (t # ts) = do {
     tb \<leftarrow> get_table br t;
     rest \<leftarrow> strict_in_tables br cr ts;
     Some (case classifier_find_rule_exactly (rules_of br) (t_cls tb) cr of
         None \<Rightarrow> rest
       | Some r \<Rightarrow> r # rest) }"

definition strict_rules :: "bridge \<Rightarrow> int \<Rightarrow> u8 \<Rightarrow> cls_rule \<Rightarrow> ut_ptr list option" where
  "strict_rules br n table_id cr = do {
     ts \<leftarrow> FOR_EACH_MATCHING_TABLE br table_id n;
     rs \<leftarrow> strict_in_tables br cr ts;
     Some (ut_rules br rs) }"

definition ecall_collect_rules_strict_c :: "bridge \<Rightarrow> int \<Rightarrow> u8 \<Rightarrow> match \<Rightarrow> u32 \<Rightarrow> nat option" where
  "ecall_collect_rules_strict_c br n table_id m p =
     map_option length (strict_rules br n table_id (sgx_cls_rule_init_i m p))"

definition ecall_collect_rules_strict_r :: "bridge \<Rightarrow> int \<Rightarrow> ut_ptr list \<Rightarrow> int \<Rightarrow> u8 \<Rightarrow> match \<Rightarrow> u32
    \<Rightarrow> (ut_ptr list \<times> nat) option" where
  "ecall_collect_rules_strict_r br n buf elem table_id m p = do {
     rs \<leftarrow> strict_rules br n table_id (sgx_cls_rule_init_i m p);
     collect_r rs 0 buf (size_of_int elem) }"

section \<open>Combined entry points\<close>

definition rule_is_hidden :: "bridge \<Rightarrow> ut_ptr \<Rightarrow> bool option" where
  "rule_is_hidden br o_cr = do { p \<leftarrow> ecall_cr_priority br o_cr; Some (unat p > UINT16_MAX) }"

text \<open>\<open>*need_to_evict\<close> and \<open>*is_read_only\<close> are the last two arguments.\<close>

definition ecall_oftable_configure :: "u8 \<Rightarrow> bridge \<Rightarrow> nat \<Rightarrow> string option \<Rightarrow> u32 \<Rightarrow> mf_subfield list option
    \<Rightarrow> bool \<Rightarrow> bool \<Rightarrow> (bool \<times> bool \<times> bridge) option" where
  "ecall_oftable_configure bridge_id br t nm mflows groups need_to_evict is_read_only = do {
     br \<leftarrow> ecall_oftable_set_name bridge_id br t nm;
     ro \<leftarrow> ecall_oftable_is_readonly br t;
     if ro \<noteq> 0 then Some (need_to_evict, True, br)
     else if groups \<noteq> None then Some (need_to_evict, is_read_only, br)
     else do {
       br \<leftarrow> ecall_oftable_disable_eviction br t;
       br \<leftarrow> ecall_oftable_mflows_set br t mflows;
       need_to_evict \<leftarrow> ecall_need_to_evict br t;
       Some (need_to_evict, is_read_only, br) } }"

fun ecall_oftable_remove_rules :: "bridge \<Rightarrow> (nat \<times> ut_ptr) list \<Rightarrow> (bool list \<times> bridge) option" where
  "ecall_oftable_remove_rules br [] = Some ([], br)"
| "ecall_oftable_remove_rules br ((t, o_cr) # rest) = do {
     hidden \<leftarrow> rule_is_hidden br o_cr;
     br \<leftarrow> ecall_cls_remove br t o_cr;
     br \<leftarrow> ecall_evg_remove_rule br t o_cr;
     br \<leftarrow> ecall_cls_rule_destroy br o_cr;
     (hs, br) \<leftarrow> ecall_oftable_remove_rules br rest;
     Some (hidden # hs, br) }"

record add_flow_out =
  af_victim :: "ut_ptr option"
  af_evict :: "ut_ptr option"
  af_evict_rule_hash :: u32
  af_vid :: u16
  af_vid_mask :: u16
  af_table_overflow :: bool
  af_is_rule_modifiable :: bool
  af_is_deletion_pending :: bool
  af_is_rule_overlapping :: bool
  af_is_read_only :: bool

fun deletion_pending :: "bridge \<Rightarrow> ut_ptr \<Rightarrow> ut_ptr list \<Rightarrow> bool option" where
  "deletion_pending br cr [] = Some False"
| "deletion_pending br cr (p # ps) = do {
     e \<leftarrow> ecall_cls_rule_equal br cr p;
     if e then Some True else deletion_pending br cr ps }"

text \<open>\<open>ecall_add_flow\<close> in two parts: the checks before the rule goes into the table, and the rest.\<close>

definition add_flow_evict :: "bridge \<Rightarrow> nat \<Rightarrow> ut_ptr \<Rightarrow> add_flow_out \<Rightarrow> (add_flow_out \<times> bridge) option" where
  "add_flow_evict br t cr out = do {
     cnt \<leftarrow> ecall_oftable_cls_count br t;
     mf \<leftarrow> ecall_oftable_mflows br t;
     if (of_int cnt :: u32) > mf
     then do {
       (evict, br) \<leftarrow> ecall_choose_rule_to_evict_p br t cr;
       let out = out\<lparr>af_table_overflow := True, af_evict := evict\<rparr>;
       case evict of
         None \<Rightarrow> Some (out, br)
       | Some e \<Rightarrow> do {
           br \<leftarrow> ecall_cls_remove br t e;
           br \<leftarrow> ecall_evg_remove_rule br t e;
           h \<leftarrow> ecall_cls_rule_hash br e (of_nat t);
           Some (out\<lparr>af_evict_rule_hash := h\<rparr>, br) } }
     else Some (out, br) }"

definition add_flow_insert :: "mf_value \<Rightarrow> bridge \<Rightarrow> nat \<Rightarrow> ut_ptr \<Rightarrow> u32 \<Rightarrow> u32 \<Rightarrow> heap_node \<Rightarrow> bool \<Rightarrow> add_flow_out
    \<Rightarrow> (add_flow_out \<times> bridge) option" where
  "add_flow_insert junk br t cr group_p rule_p node has_timeout out = do {
     (victim, br) \<leftarrow> ecall_oftable_classifier_replace br t cr;
     let out = out\<lparr>af_victim := victim\<rparr>;
     br \<leftarrow> (case victim of None \<Rightarrow> Some br | Some v \<Rightarrow> ecall_evg_remove_rule br t v);
     enabled \<leftarrow> ecall_is_eviction_fields_enabled br t;
     br \<leftarrow> (if enabled \<and> has_timeout then ecall_evg_add_rule junk br t cr group_p rule_p node else Some br);
     fl \<leftarrow> ecall_oftable_get_flags br t;
     if victim \<noteq> None \<and> fl AND OFTABLE_READONLY \<noteq> 0
     then Some (out\<lparr>af_is_rule_modifiable := False\<rparr>, br)
     else do {
       (out, br) \<leftarrow> add_flow_evict br t cr out;
       v \<leftarrow> ecall_miniflow_get_vid br cr;
       vm \<leftarrow> ecall_minimask_get_vid_mask br cr;
       Some (out\<lparr>af_vid := v, af_vid_mask := vm\<rparr>, br) } }"

definition ecall_add_flow :: "mf_value \<Rightarrow> bridge \<Rightarrow> nat \<Rightarrow> ut_ptr \<Rightarrow> match \<Rightarrow> u32 \<Rightarrow> u16 \<Rightarrow> u32 \<Rightarrow> u32 \<Rightarrow> heap_node
    \<Rightarrow> ut_ptr list \<Rightarrow> bool \<Rightarrow> add_flow_out \<Rightarrow> (add_flow_out \<times> bridge) option" where
  "ecall_add_flow junk br t cr m p fl group_p rule_p node pending has_timeout out = do {
     ro \<leftarrow> ecall_oftable_is_readonly br t;
     if ro \<noteq> 0 then Some (out\<lparr>af_is_read_only := True\<rparr>, br)
     else do {
       br \<leftarrow> ecall_cls_rule_init br cr m p;
       del \<leftarrow> deletion_pending br cr pending;
       if del then do {
         br \<leftarrow> ecall_cls_rule_destroy br cr;
         Some (out\<lparr>af_is_deletion_pending := True\<rparr>, br) }
       else do {
         overlap \<leftarrow> (if fl AND OFPFF_CHECK_OVERLAP \<noteq> 0 then ecall_cr_rule_overlaps br t cr else Some False);
         if overlap then do {
           br \<leftarrow> ecall_cls_rule_destroy br cr;
           Some (out\<lparr>af_is_rule_overlapping := True\<rparr>, br) }
         else add_flow_insert junk br t cr group_p rule_p node has_timeout out } } }"

record deleted_flow =
  df_is_hidden :: bool
  df_match :: match
  df_priority :: u32
  df_hash :: u32

fun ecall_delete_flows :: "bridge \<Rightarrow> (nat \<times> ut_ptr) list \<Rightarrow> (deleted_flow list \<times> bridge) option" where
  "ecall_delete_flows br [] = Some ([], br)"
| "ecall_delete_flows br ((t, cr) # rest) = do {
     r \<leftarrow> sgx_rule_from_ut_cr br cr;
     let o_cr = o_cls_rule (rstore br r);
     hidden \<leftarrow> rule_is_hidden br o_cr;
     m \<leftarrow> ecall_minimatch_expand br o_cr;
     p \<leftarrow> ecall_cr_priority br o_cr;
     h \<leftarrow> ecall_cls_rule_hash br o_cr (of_nat t);
     br \<leftarrow> ecall_cls_remove br t o_cr;
     br \<leftarrow> ecall_evg_remove_rule br t o_cr;
     (ds, br) \<leftarrow> ecall_delete_flows br rest;
     Some (\<lparr>df_is_hidden = hidden, df_match = m, df_priority = p, df_hash = h\<rparr> # ds, br) }"

text \<open>What the two collecting entry points write for a rule: its address, whether it is hidden and
  whether the table \<open>table_id\<close> is modifiable.\<close>

definition collected :: "bridge \<Rightarrow> u8 \<Rightarrow> ut_ptr \<Rightarrow> (ut_ptr \<times> bool \<times> bool) option" where
  "collected br table_id o_cr = do {
     hidden \<leftarrow> rule_is_hidden br o_cr;
     fl \<leftarrow> ecall_oftable_get_flags br (unat table_id);
     Some (o_cr, hidden, fl AND OFTABLE_READONLY = 0) }"

definition ecall_collect_rules_strict :: "bridge \<Rightarrow> u8 \<Rightarrow> int \<Rightarrow> match \<Rightarrow> u32 \<Rightarrow> nat
    \<Rightarrow> (ut_ptr \<times> bool \<times> bool) list option" where
  "ecall_collect_rules_strict br table_id n m p buffer_size = do {
     rs \<leftarrow> strict_rules br n table_id (sgx_cls_rule_init_i m p);
     if length rs \<le> buffer_size then those (map (collected br table_id) rs) else None }"

definition ecall_collect_rules_loose :: "bridge \<Rightarrow> u8 \<Rightarrow> int \<Rightarrow> nat \<Rightarrow> match \<Rightarrow> nat
    \<Rightarrow> ((ut_ptr \<times> bool \<times> bool) list \<times> nat) option" where
  "ecall_collect_rules_loose br table_id n start m buffer_size = do {
     rs \<leftarrow> loose_rules br n table_id (sgx_cls_rule_init_i m 0);
     let (page, cnt) = page_loop start SIZE_MAX buffer_size rs 0 [];
     cs \<leftarrow> those (map (collected br table_id) page);
     Some (cs, cnt) }"

definition sgx_oftable_destroy :: "bridge \<Rightarrow> nat \<Rightarrow> bridge option" where
  "sgx_oftable_destroy br t = do {
     tb \<leftarrow> get_table br t;
     if classifier_is_empty (t_cls tb) then do {
       br \<leftarrow> ecall_oftable_disable_eviction br t;
       tb \<leftarrow> get_table br t;
       c \<leftarrow> classifier_destroy (t_cls tb);
       Some (put_table br t (tb\<lparr>t_cls := c\<rparr>)) }
     else None }"

end
