(* ===== verification/Ofproto.thy ===== *)
theory Ofproto
  imports Oftable
begin

text \<open>
  The entry points on a whole bridge: \<open>OFTonSGX/trusted/ofproto/ofproto.c\<close>, \<open>trusted/stats/stats.c\<close>
  and \<open>trusted/dpif/dpif.c\<close>.

  \<open>ecall_ofproto_get_vlan_r\<close> and \<open>ecall_ofproto_get_vlan_usage\<close> iterate over the tables of a pointer
  \<open>oftable\<close> that is never assigned: the table it happens to point to is the argument \<open>indet\<close>.
\<close>

section \<open>The whole bridge\<close>

fun destroy_oftables :: "bridge \<Rightarrow> nat list \<Rightarrow> bridge option" where
  "destroy_oftables br [] = Some br"
| "destroy_oftables br (t # ts) = do { br \<leftarrow> sgx_oftable_destroy br t; destroy_oftables br ts }"

definition ecall_ofproto_destroy :: "bridge \<Rightarrow> bridge option" where
  "ecall_ofproto_destroy br = destroy_oftables br (map (\<lambda>i. i mod 256) [0..<nat (n_tables br)])"

fun count_rules :: "bridge \<Rightarrow> nat list \<Rightarrow> u32 \<Rightarrow> u32 option" where
  "count_rules br [] n = Some n"
| "count_rules br (t # ts) n = do {
     tb \<leftarrow> get_table br t;
     count_rules br ts (n + of_int (classifier_count (t_cls tb))) }"

definition ecall_total_rules :: "bridge \<Rightarrow> u32 option" where
  "ecall_total_rules br = count_rules br [0..<nat (n_tables br)] 0"

section \<open>VLANs in use\<close>

text \<open>The VLAN ids of the rules in the map of the tables whose mask covers the whole VLAN id.\<close>

fun vids_of_tables :: "bridge \<Rightarrow> oftable \<Rightarrow> ptr list \<Rightarrow> u16 list option" where
  "vids_of_tables br tb [] = Some []"
| "vids_of_tables br tb (t # ts) = do {
     let ct = tstore (t_cls tb) t;
     vids \<leftarrow> (if minimask_get_vid_mask (t_mask ct) = VLAN_VID_MASK
       then do {
         rings \<leftarrow> HMAP_FOR_EACH (t_rules ct);
         Some (map (\<lambda>ring. miniflow_get_vid (rule_flow (rules_of br) (hd ring))) rings) }
       else Some []);
     rest \<leftarrow> vids_of_tables br tb ts;
     Some (vids @ rest) }"

definition vlan_ids :: "bridge \<Rightarrow> oftable \<Rightarrow> u16 list option" where
  "vlan_ids br tb = do { ts \<leftarrow> HMAP_FOR_EACH (tables (t_cls tb)); vids_of_tables br tb ts }"

definition vlan_visits :: "bridge \<Rightarrow> oftable \<Rightarrow> u16 list option" where
  "vlan_visits br indet = (if n_tables br \<le> 0 then Some []
     else do { vids \<leftarrow> vlan_ids br indet; Some (concat (replicate (nat (n_tables br)) vids)) })"

definition ecall_ofproto_get_vlan_c :: "bridge \<Rightarrow> oftable \<Rightarrow> nat option" where
  "ecall_ofproto_get_vlan_c br indet = map_option length (vlan_visits br indet)"

definition ecall_ofproto_get_vlan_r :: "bridge \<Rightarrow> oftable \<Rightarrow> u16 list \<Rightarrow> int \<Rightarrow> (u16 list \<times> nat) option" where
  "ecall_ofproto_get_vlan_r br indet buf elem = do {
     vids \<leftarrow> vlan_visits br indet;
     collect_r vids 0 buf (size_of_int elem) }"

text \<open>The inner \<open>i\<close> of \<open>ecall_ofproto_get_vlan_usage\<close> shadows the outer one and is both the table
  counter and the number of ids seen; the outer one stays 0 and is what \<open>*n_vlan\<close> gets.\<close>

function vlan_usage_loop :: "u16 list \<Rightarrow> nat \<Rightarrow> nat \<Rightarrow> nat \<Rightarrow> nat \<Rightarrow> nat \<Rightarrow> u16 list \<Rightarrow> u16 list" where
  "vlan_usage_loop vids n start stop buf_size i acc =
     (if i < n then (case page_loop start stop buf_size vids i acc of
         (acc, i) \<Rightarrow> vlan_usage_loop vids n start stop buf_size (i + 1) acc)
      else acc)"
  by pat_completeness auto
termination
  using page_loop_index by (relation "measure (\<lambda>(vids, n, start, stop, buf_size, i, acc). n - i)")
    (auto dest!: page_loop_grows)

declare vlan_usage_loop.simps [simp del]

definition ecall_ofproto_get_vlan_usage :: "bridge \<Rightarrow> oftable \<Rightarrow> nat \<Rightarrow> nat \<Rightarrow> nat \<Rightarrow> (u16 list \<times> nat) option" where
  "ecall_ofproto_get_vlan_usage br indet buf_size start stop =
     (if n_tables br = 0 then Some ([], 0)
      else do {
        vids \<leftarrow> vlan_ids br indet;
        Some (vlan_usage_loop vids (size_of_int (n_tables br)) start stop buf_size 0 [], 0) })"

section \<open>Monitors\<close>

definition ecall_collect_ofmonitor_util_c :: "bridge \<Rightarrow> int \<Rightarrow> u8 \<Rightarrow> minimatch \<Rightarrow> nat option" where
  "ecall_collect_ofmonitor_util_c br n table_id m =
     map_option length (loose_rules br n table_id (cls_rule_init_from_minimatch m 0))"

definition ecall_collect_ofmonitor_util_r :: "bridge \<Rightarrow> int \<Rightarrow> ut_ptr list \<Rightarrow> int \<Rightarrow> u8 \<Rightarrow> minimatch
    \<Rightarrow> (ut_ptr list \<times> nat) option" where
  "ecall_collect_ofmonitor_util_r br n buf elem table_id m = do {
     rs \<leftarrow> loose_rules br n table_id (cls_rule_init_from_minimatch m 0);
     collect_r rs 0 buf (size_of_int elem) }"

section \<open>Flushing\<close>

text \<open>The loop removes the rule it is at after it has found the next one, so that it visits the rules
  the table held at its start. \<open>acc\<close> is what has been written: the rule and its hash; \<open>cnt\<close> counts
  the visited rules.\<close>

fun flush_loop :: "nat \<Rightarrow> nat \<Rightarrow> ut_ptr list \<Rightarrow> int \<Rightarrow> (ut_ptr \<times> u32) list \<Rightarrow> bridge
    \<Rightarrow> (int \<times> (ut_ptr \<times> u32) list \<times> bridge) option" where
  "flush_loop buf_size t [] cnt acc br = Some (cnt, acc, br)"
| "flush_loop buf_size t (o_cr # rest) cnt acc br =
     (if length acc \<ge> buf_size then flush_loop buf_size t rest (cnt + 1) acc br
      else do {
        h \<leftarrow> ecall_cls_rule_hash br o_cr (of_nat t);
        br \<leftarrow> ecall_cls_remove br (t mod 256) o_cr;
        br \<leftarrow> ecall_evg_remove_rule br (t mod 256) o_cr;
        flush_loop buf_size t rest (cnt + 1) (acc @ [(o_cr, h)]) br })"

fun flush_tables :: "nat \<Rightarrow> nat list \<Rightarrow> int \<Rightarrow> (ut_ptr \<times> u32) list \<Rightarrow> bridge
    \<Rightarrow> (int \<times> (ut_ptr \<times> u32) list \<times> bridge) option" where
  "flush_tables buf_size [] cnt acc br = Some (cnt, acc, br)"
| "flush_tables buf_size (t # ts) cnt acc br = do {
     tb \<leftarrow> get_table br t;
     if flags tb AND OFTABLE_HIDDEN \<noteq> 0 then flush_tables buf_size ts cnt acc br
     else do {
       rs \<leftarrow> table_ut_rules br t;
       (cnt, acc, br) \<leftarrow> flush_loop buf_size t rs cnt acc br;
       flush_tables buf_size ts cnt acc br } }"

definition ecall_ofproto_flush :: "bridge \<Rightarrow> nat \<Rightarrow> ((ut_ptr \<times> u32) list \<times> int \<times> bridge) option" where
  "ecall_ofproto_flush br buf_size = do {
     (cnt, acc, br) \<leftarrow> flush_tables buf_size [0..<size_of_int (n_tables br)] 0 [] br;
     Some (acc, cnt, br) }"

text \<open>\<open>*match\<close> and \<open>*priority\<close> are written for a visible rule only.\<close>

definition ecall_ofproto_rule_send_removed :: "bridge \<Rightarrow> ut_ptr \<Rightarrow> (match \<times> u32) option option" where
  "ecall_ofproto_rule_send_removed br cr = do {
     p \<leftarrow> ecall_cr_priority br cr;
     if unat p > UINT16_MAX then Some None
     else do { m \<leftarrow> ecall_minimatch_expand br cr; Some (Some (m, p)) } }"

section \<open>Statistics\<close>

definition bridge_rules :: "bridge \<Rightarrow> ut_ptr list option" where
  "bridge_rules br = do {
     rs \<leftarrow> tables_rules br None [0..<nat (n_tables br)];
     Some (ut_rules br rs) }"

definition ecall_flow_stats_c :: "bridge \<Rightarrow> nat option" where
  "ecall_flow_stats_c br = map_option length (bridge_rules br)"

definition ecall_flow_stats_r :: "bridge \<Rightarrow> ut_ptr list \<Rightarrow> int \<Rightarrow> (ut_ptr list \<times> nat) option" where
  "ecall_flow_stats_r br buf elem = do {
     rs \<leftarrow> bridge_rules br;
     collect_r rs 0 buf (size_of_int elem) }"

definition stats_visible :: "bridge \<Rightarrow> ut_ptr \<Rightarrow> bool option" where
  "stats_visible br o_cr = map_option Not (rule_is_hidden br o_cr)"

definition stats_entry :: "bridge \<Rightarrow> ut_ptr \<Rightarrow> (ut_ptr \<times> match \<times> u32) option" where
  "stats_entry br o_cr = do {
     p \<leftarrow> ecall_cr_priority br o_cr;
     m \<leftarrow> ecall_minimatch_expand br o_cr;
     Some (o_cr, m, p) }"

definition ecall_collect_rules_loose_stats_request :: "bridge \<Rightarrow> u8 \<Rightarrow> int \<Rightarrow> nat \<Rightarrow> nat \<Rightarrow> match
    \<Rightarrow> ((ut_ptr \<times> match \<times> u32) list \<times> nat) option" where
  "ecall_collect_rules_loose_stats_request br table_id n start buffer_size m = do {
     rs \<leftarrow> loose_rules br n table_id (sgx_cls_rule_init_i m 0);
     vis \<leftarrow> those (map (stats_visible br) rs);
     let (page, cnt) = page_loop start SIZE_MAX buffer_size (map fst (filter snd (zip rs vis))) 0 [];
     es \<leftarrow> those (map (stats_entry br) page);
     Some (es, cnt) }"

section \<open>Destroying the datapath\<close>

definition ecall_dpif_destroy_c :: "bridge \<Rightarrow> nat option" where
  "ecall_dpif_destroy_c br = map_option length (bridge_rules br)"

definition ecall_dpif_destroy_r :: "bridge \<Rightarrow> ut_ptr list \<Rightarrow> int \<Rightarrow> (ut_ptr list \<times> nat) option" where
  "ecall_dpif_destroy_r br buf elem = do {
     rs \<leftarrow> bridge_rules br;
     collect_r rs 0 buf (size_of_int elem) }"

end
