(* ===== verification/OVS_List.thy ===== *)
theory OVS_List
  imports Prelude
begin

text \<open>
  The intrusive doubly linked lists of \<open>OFTonSGX/trusted/lib/list.c\<close> and \<open>list.h\<close>, at pointer
  level: a store maps the address of every \<open>struct list\<close> to its \<open>prev\<close> and \<open>next\<close> fields, each
  operation performs the source's assignments in the source's order, and an access outside the
  store is a fault (\<open>None\<close>).

  \<open>is_list s l xs\<close> says that \<open>l\<close> is the head of a circular list whose elements are \<open>xs\<close>, front
  first. Every operation is shown to perform the corresponding operation on \<open>xs\<close> and to leave
  everything else in the store alone; the locale \<open>intrusive_list\<close> is that contract.
\<close>

section \<open>State and operations\<close>

record list_node =
  prev :: ptr
  "next" :: ptr

type_synonym list_store = "ptr \<rightharpoonup> list_node"

definition get_next :: "list_store \<Rightarrow> ptr \<Rightarrow> ptr option" where
  "get_next s p = map_option list_node.next (s p)"

definition get_prev :: "list_store \<Rightarrow> ptr \<Rightarrow> ptr option" where
  "get_prev s p = map_option prev (s p)"

definition set_next :: "list_store \<Rightarrow> ptr \<Rightarrow> ptr \<Rightarrow> list_store option" where
  "set_next s p v = do { n \<leftarrow> s p; Some (s(p \<mapsto> n\<lparr>next := v\<rparr>)) }"

definition set_prev :: "list_store \<Rightarrow> ptr \<Rightarrow> ptr \<Rightarrow> list_store option" where
  "set_prev s p v = do { n \<leftarrow> s p; Some (s(p \<mapsto> n\<lparr>prev := v\<rparr>)) }"

definition list_init :: "list_store \<Rightarrow> ptr \<Rightarrow> list_store option" where
  "list_init s l = do { s \<leftarrow> set_prev s l l; set_next s l l }"

text \<open>\<open>memset(list, 0xcc, sizeof *list)\<close>.\<close>

definition list_poison :: "list_store \<Rightarrow> ptr \<Rightarrow> list_store option" where
  "list_poison s l = do {
     s \<leftarrow> set_prev s l 0xcccccccccccccccc; set_next s l 0xcccccccccccccccc }"

definition list_insert :: "list_store \<Rightarrow> ptr \<Rightarrow> ptr \<Rightarrow> list_store option" where
  "list_insert s before elem = do {
     p \<leftarrow> get_prev s before;
     s \<leftarrow> set_prev s elem p;
     s \<leftarrow> set_next s elem before;
     p \<leftarrow> get_prev s before;
     s \<leftarrow> set_next s p elem;
     set_prev s before elem }"

definition list_splice :: "list_store \<Rightarrow> ptr \<Rightarrow> ptr \<Rightarrow> ptr \<Rightarrow> list_store option" where
  "list_splice s before first last' =
     (if first = last' then Some s
      else do {
        last' \<leftarrow> get_prev s last';
        fp \<leftarrow> get_prev s first; ln \<leftarrow> get_next s last';
        s \<leftarrow> set_next s fp ln;
        ln \<leftarrow> get_next s last'; fp \<leftarrow> get_prev s first;
        s \<leftarrow> set_prev s ln fp;
        bp \<leftarrow> get_prev s before;
        s \<leftarrow> set_prev s first bp;
        s \<leftarrow> set_next s last' before;
        bp \<leftarrow> get_prev s before;
        s \<leftarrow> set_next s bp first;
        set_prev s before last' })"

definition list_push_front :: "list_store \<Rightarrow> ptr \<Rightarrow> ptr \<Rightarrow> list_store option" where
  "list_push_front s l elem = do { n \<leftarrow> get_next s l; list_insert s n elem }"

definition list_push_back :: "list_store \<Rightarrow> ptr \<Rightarrow> ptr \<Rightarrow> list_store option" where
  "list_push_back s l elem = list_insert s l elem"

definition list_replace :: "list_store \<Rightarrow> ptr \<Rightarrow> ptr \<Rightarrow> list_store option" where
  "list_replace s element position = do {
     n \<leftarrow> get_next s position;
     s \<leftarrow> set_next s element n;
     n \<leftarrow> get_next s element;
     s \<leftarrow> set_prev s n element;
     p \<leftarrow> get_prev s position;
     s \<leftarrow> set_prev s element p;
     p \<leftarrow> get_prev s element;
     set_next s p element }"

definition list_moved :: "list_store \<Rightarrow> ptr \<Rightarrow> list_store option" where
  "list_moved s l = do {
     n \<leftarrow> get_next s l;
     p \<leftarrow> get_prev s l;
     s \<leftarrow> set_prev s n l;
     set_next s p l }"

definition list_remove :: "list_store \<Rightarrow> ptr \<Rightarrow> (list_store \<times> ptr) option" where
  "list_remove s elem = do {
     p \<leftarrow> get_prev s elem; n \<leftarrow> get_next s elem;
     s \<leftarrow> set_next s p n;
     n \<leftarrow> get_next s elem; p \<leftarrow> get_prev s elem;
     s \<leftarrow> set_prev s n p;
     n \<leftarrow> get_next s elem;
     Some (s, n) }"

definition list_pop_front :: "list_store \<Rightarrow> ptr \<Rightarrow> (list_store \<times> ptr) option" where
  "list_pop_front s l = do {
     front \<leftarrow> get_next s l; (s, _) \<leftarrow> list_remove s front; Some (s, front) }"

definition list_pop_back :: "list_store \<Rightarrow> ptr \<Rightarrow> (list_store \<times> ptr) option" where
  "list_pop_back s l = do {
     back \<leftarrow> get_prev s l; (s, _) \<leftarrow> list_remove s back; Some (s, back) }"

definition list_is_empty :: "list_store \<Rightarrow> ptr \<Rightarrow> bool option" where
  "list_is_empty s l = do { n \<leftarrow> get_next s l; Some (n = l) }"

definition list_is_short :: "list_store \<Rightarrow> ptr \<Rightarrow> bool option" where
  "list_is_short s l = do { n \<leftarrow> get_next s l; p \<leftarrow> get_prev s l; Some (n = p) }"

definition list_is_singleton :: "list_store \<Rightarrow> ptr \<Rightarrow> bool option" where
  "list_is_singleton s l = do {
     short \<leftarrow> list_is_short s l; e \<leftarrow> list_is_empty s l; Some (short \<and> \<not> e) }"

text \<open>A failed \<open>ovs_assert\<close> is a fault.\<close>

definition list_front :: "list_store \<Rightarrow> ptr \<Rightarrow> ptr option" where
  "list_front s l = do { e \<leftarrow> list_is_empty s l; if e then None else get_next s l }"

definition list_back :: "list_store \<Rightarrow> ptr \<Rightarrow> ptr option" where
  "list_back s l = do { e \<leftarrow> list_is_empty s l; if e then None else get_prev s l }"

text \<open>The loops over a list need not end on a damaged list; then the value is \<open>None\<close>.\<close>

partial_function (option) list_size_loop :: "list_store \<Rightarrow> ptr \<Rightarrow> ptr \<Rightarrow> nat \<Rightarrow> nat option" where
  "list_size_loop s l e cnt =
     (if e = l then Some cnt
      else do { n \<leftarrow> get_next s e; list_size_loop s l n (cnt + 1) })"

definition list_size :: "list_store \<Rightarrow> ptr \<Rightarrow> nat option" where
  "list_size s l = do { e \<leftarrow> get_next s l; list_size_loop s l e 0 }"

partial_function (option) list_walk :: "list_store \<Rightarrow> ptr \<Rightarrow> ptr \<Rightarrow> ptr list option" where
  "list_walk s l e =
     (if e = l then Some []
      else do { n \<leftarrow> get_next s e; es \<leftarrow> list_walk s l n; Some (e # es) })"

definition LIST_FOR_EACH :: "list_store \<Rightarrow> ptr \<Rightarrow> ptr list option" where
  "LIST_FOR_EACH s l = do { e \<leftarrow> get_next s l; list_walk s l e }"

partial_function (option) list_walk_reverse :: "list_store \<Rightarrow> ptr \<Rightarrow> ptr \<Rightarrow> ptr list option" where
  "list_walk_reverse s l e =
     (if e = l then Some []
      else do { n \<leftarrow> get_prev s e; es \<leftarrow> list_walk_reverse s l n; Some (e # es) })"

declare list_size_loop.simps [code] list_walk.simps [code] list_walk_reverse.simps [code]

definition LIST_FOR_EACH_REVERSE :: "list_store \<Rightarrow> ptr \<Rightarrow> ptr list option" where
  "LIST_FOR_EACH_REVERSE s l = do { e \<leftarrow> get_prev s l; list_walk_reverse s l e }"

section \<open>The represented list\<close>

definition lnk :: "list_store \<Rightarrow> ptr \<Rightarrow> ptr \<Rightarrow> bool" where
  "lnk s x y \<longleftrightarrow> get_next s x = Some y \<and> get_prev s y = Some x"

abbreviation lseg :: "list_store \<Rightarrow> ptr list \<Rightarrow> bool" where
  "lseg s \<equiv> successively (lnk s)"

definition is_list :: "list_store \<Rightarrow> ptr \<Rightarrow> ptr list \<Rightarrow> bool" where
  "is_list s l xs \<longleftrightarrow> distinct (l # xs) \<and> lseg s (l # xs @ [l])"

text \<open>Nothing but the nodes in \<open>A\<close> differs between two stores.\<close>

definition only_changed :: "ptr set \<Rightarrow> list_store \<Rightarrow> list_store \<Rightarrow> bool" where
  "only_changed A s s' \<longleftrightarrow> dom s' = dom s \<and> (\<forall>p. p \<notin> A \<longrightarrow> s' p = s p)"

section \<open>Field access\<close>

named_theorems field_simps

lemma get_set_fields [field_simps]:
  "set_next s p v = Some s' \<Longrightarrow> get_next s' q = (if q = p then Some v else get_next s q)"
  "set_next s p v = Some s' \<Longrightarrow> get_prev s' q = get_prev s q"
  "set_prev s p v = Some s' \<Longrightarrow> get_prev s' q = (if q = p then Some v else get_prev s q)"
  "set_prev s p v = Some s' \<Longrightarrow> get_next s' q = get_next s q"
  by (auto simp: set_next_def set_prev_def get_next_def get_prev_def split: bind_splits)

lemma set_field_total:
  "p \<in> dom s \<Longrightarrow> \<exists>s'. set_next s p v = Some s' \<and> dom s' = dom s \<and> (\<forall>q. q \<noteq> p \<longrightarrow> s' q = s q)"
  "p \<in> dom s \<Longrightarrow> \<exists>s'. set_prev s p v = Some s' \<and> dom s' = dom s \<and> (\<forall>q. q \<noteq> p \<longrightarrow> s' q = s q)"
  by (auto simp: set_next_def set_prev_def)

lemma in_set_tlD: "x \<in> set (tl ys) \<Longrightarrow> x \<in> set ys"
  by (cases ys) auto

lemma get_field_dom: "get_next s p = Some v \<Longrightarrow> p \<in> dom s" "get_prev s p = Some v \<Longrightarrow> p \<in> dom s"
  by (auto simp: get_next_def get_prev_def)

lemma get_field_same:
  "s' p = s p \<Longrightarrow> get_next s' p = get_next s p" "s' p = s p \<Longrightarrow> get_prev s' p = get_prev s p"
  by (simp_all add: get_next_def get_prev_def)

text \<open>A segment survives when the outgoing \<open>next\<close> and the incoming \<open>prev\<close> fields do.\<close>

lemma lseg_cong:
  assumes "lseg s ys"
    and "\<And>x. x \<in> set (butlast ys) \<Longrightarrow> get_next s' x = get_next s x"
    and "\<And>x. x \<in> set (tl ys) \<Longrightarrow> get_prev s' x = get_prev s x"
  shows "lseg s' ys"
  using assms
proof (induction ys rule: induct_list012)
  case (3 x y ys)
  have "lnk s' x y" using 3 by (simp add: lnk_def)
  moreover have "lseg s' (y # ys)" using 3 by (intro "3.IH") (auto split: if_splits)
  ultimately show ?case by simp
qed auto

lemma lseg_split:
  "lseg s (us @ x # vs) \<longleftrightarrow> lseg s (us @ [x]) \<and> lseg s (x # vs)"
  by (auto simp: successively_append_iff)

lemma lseg_Cons2: "lseg s (x # y # ys) \<longleftrightarrow> lnk s x y \<and> lseg s (y # ys)"
  by simp

lemma lseg_dom: "lseg s (x # y # ys) \<Longrightarrow> set (x # y # ys) \<subseteq> dom s"
  by (induction ys arbitrary: x y) (auto simp: lnk_def dest: get_field_dom)

lemma is_list_dom: "is_list s l xs \<Longrightarrow> insert l (set xs) \<subseteq> dom s"
  using lseg_dom [of s l l "[]"] lseg_dom [of s l "hd xs" "tl xs @ [l]"]
  by (cases xs) (auto simp: is_list_def)

text \<open>Where two elements meet in a circular list: what lies to their left and to their right.\<close>

definition joint :: "ptr list \<Rightarrow> ptr \<Rightarrow> ptr \<Rightarrow> ptr list \<Rightarrow> bool" where
  "joint us p b vs \<longleftrightarrow> p \<notin> set us \<and> b \<notin> set (tl (us @ [p]))
     \<and> b \<notin> set vs \<and> p \<notin> set (butlast (b # vs))"

lemma joint_ring:
  assumes "distinct (l # xs)" and "l # xs @ [l] = us @ p # b # vs"
  shows "joint us p b vs"
proof (cases us)
  case Nil
  with assms show ?thesis by (cases vs rule: rev_cases) (auto simp: joint_def)
next
  case (Cons u us')
  then have u: "u = l" "xs @ [l] = us' @ p # b # vs" using assms(2) by auto
  show ?thesis
  proof (cases vs rule: rev_cases)
    case Nil
    with u have "xs = us' @ [p]" "b = l" by auto
    with assms(1) u Cons Nil show ?thesis by (auto simp: joint_def)
  next
    case (snoc vs' v)
    with u have "xs = us' @ p # b # vs'" "v = l" by auto
    with assms(1) u Cons snoc show ?thesis by (auto simp: joint_def)
  qed
qed

section \<open>The operations on segments\<close>

lemma list_insert_exec:
  assumes "get_prev s b = Some p" and "p \<in> dom s" and "e \<in> dom s" and "e \<noteq> b" and "e \<noteq> p"
  shows "\<exists>s'. list_insert s b e = Some s' \<and> only_changed {e, p, b} s s'
    \<and> (\<forall>q. get_next s' q = (if q = p then Some e else if q = e then Some b else get_next s q))
    \<and> (\<forall>q. get_prev s' q = (if q = b then Some e else if q = e then Some p else get_prev s q))"
proof -
  have "b \<in> dom s" using assms(1) by (rule get_field_dom)
  obtain s1 where 1: "set_prev s e p = Some s1" "dom s1 = dom s" "\<forall>q. q \<noteq> e \<longrightarrow> s1 q = s q"
    using set_field_total(2) assms(3) by blast
  obtain s2 where 2: "set_next s1 e b = Some s2" "dom s2 = dom s" "\<forall>q. q \<noteq> e \<longrightarrow> s2 q = s1 q"
    using set_field_total(1) [of e s1 b] assms(3) 1(2) by auto
  obtain s3 where 3: "set_next s2 p e = Some s3" "dom s3 = dom s" "\<forall>q. q \<noteq> p \<longrightarrow> s3 q = s2 q"
    using set_field_total(1) [of p s2 e] assms(2) 2(2) by auto
  obtain s4 where 4: "set_prev s3 b e = Some s4" "dom s4 = dom s" "\<forall>q. q \<noteq> b \<longrightarrow> s4 q = s3 q"
    using set_field_total(2) [of b s3 e] \<open>b \<in> dom s\<close> 3(2) by auto
  note fs = get_set_fields(3,4) [OF 1(1)] get_set_fields(1,2) [OF 2(1)]
    get_set_fields(1,2) [OF 3(1)] get_set_fields(3,4) [OF 4(1)]
  have "list_insert s b e = Some s4" using assms 1(1) 2(1) 3(1) 4(1) by (simp add: list_insert_def fs)
  moreover have "only_changed {e, p, b} s s4" using 1 2 3 4 by (simp add: only_changed_def)
  ultimately show ?thesis using assms by (simp add: fs)
qed

lemma lseg_insert:
  assumes "lseg s (us @ p # b # vs)" and "joint us p b vs"
    and "e \<in> dom s" and "e \<notin> set (us @ p # b # vs)"
  shows "\<exists>s'. list_insert s b e = Some s' \<and> only_changed {e, p, b} s s' \<and> lseg s' (us @ p # e # b # vs)"
proof -
  have segs: "lseg s (us @ [p])" "lnk s p b" "lseg s (b # vs)"
    using assms(1) lseg_split [of s us p "b # vs"] by auto
  then have "get_prev s b = Some p" "p \<in> dom s" by (auto simp: lnk_def dest: get_field_dom)
  then obtain s' where s': "list_insert s b e = Some s'" "only_changed {e, p, b} s s'"
    and n: "\<And>q. get_next s' q = (if q = p then Some e else if q = e then Some b else get_next s q)"
    and pr: "\<And>q. get_prev s' q = (if q = b then Some e else if q = e then Some p else get_prev s q)"
    using list_insert_exec [of s b p e] assms(3,4) by auto
  have "lseg s' (us @ [p])"
    by (rule lseg_cong [OF segs(1)]) (use assms(2,4) in \<open>auto simp: n pr joint_def dest: in_set_tlD\<close>)
  moreover have "lseg s' (b # vs)"
    by (rule lseg_cong [OF segs(3)]) (use assms(2,4) in \<open>auto simp: n pr joint_def dest: in_set_butlastD split: if_splits\<close>)
  moreover have "lnk s' p e" "lnk s' e b" using assms(4) by (auto simp: lnk_def n pr)
  ultimately show ?thesis using s' lseg_split [of s' us p "e # b # vs"] by auto
qed

lemma list_remove_exec:
  assumes "get_prev s e = Some p" and "get_next s e = Some n" and "p \<in> dom s" and "n \<in> dom s"
    and "e \<noteq> p" and "e \<noteq> n"
  shows "\<exists>s'. list_remove s e = Some (s', n) \<and> only_changed {p, n} s s'
    \<and> (\<forall>q. get_next s' q = (if q = p then Some n else get_next s q))
    \<and> (\<forall>q. get_prev s' q = (if q = n then Some p else get_prev s q))"
proof -
  obtain s1 where 1: "set_next s p n = Some s1" "dom s1 = dom s" "\<forall>q. q \<noteq> p \<longrightarrow> s1 q = s q"
    using set_field_total(1) assms(3) by blast
  obtain s2 where 2: "set_prev s1 n p = Some s2" "dom s2 = dom s" "\<forall>q. q \<noteq> n \<longrightarrow> s2 q = s1 q"
    using set_field_total(2) [of n s1 p] assms(4) 1(2) by auto
  note fs = get_set_fields(1,2) [OF 1(1)] get_set_fields(3,4) [OF 2(1)]
  have "list_remove s e = Some (s2, n)" using assms 1(1) 2(1) by (simp add: list_remove_def fs)
  moreover have "only_changed {p, n} s s2" using 1 2 by (simp add: only_changed_def)
  ultimately show ?thesis using assms by (simp add: fs)
qed

lemma lseg_remove:
  assumes "lseg s (us @ p # e # n # vs)" and "joint us p n vs" and "e \<notin> set (us @ p # n # vs)"
  shows "\<exists>s'. list_remove s e = Some (s', n) \<and> only_changed {p, n} s s' \<and> lseg s' (us @ p # n # vs)"
proof -
  have segs: "lseg s (us @ [p])" "lnk s p e" "lnk s e n" "lseg s (n # vs)"
    using assms(1) lseg_split [of s us p "e # n # vs"] by auto
  then have "get_prev s e = Some p" "get_next s e = Some n" "p \<in> dom s" "n \<in> dom s"
    by (auto simp: lnk_def dest: get_field_dom)
  then obtain s' where s': "list_remove s e = Some (s', n)" "only_changed {p, n} s s'"
    and n: "\<And>q. get_next s' q = (if q = p then Some n else get_next s q)"
    and pr: "\<And>q. get_prev s' q = (if q = n then Some p else get_prev s q)"
    using list_remove_exec [of s e p n] assms(3) by auto
  have "lseg s' (us @ [p])"
    by (rule lseg_cong [OF segs(1)]) (use assms(2) in \<open>auto simp: n pr joint_def\<close>)
  moreover have "lseg s' (n # vs)"
    by (rule lseg_cong [OF segs(4)]) (use assms(2) in \<open>auto simp: n pr joint_def\<close>)
  moreover have "lnk s' p n" by (auto simp: lnk_def n pr)
  ultimately show ?thesis using s' lseg_split [of s' us p "n # vs"] by auto
qed

lemma list_replace_exec:
  assumes "get_prev s x = Some p" and "get_next s x = Some n" and "p \<in> dom s" and "n \<in> dom s"
    and "e \<in> dom s" and "e \<noteq> p" and "e \<noteq> n" and "x \<noteq> p" and "x \<noteq> n" and "x \<noteq> e"
  shows "\<exists>s'. list_replace s e x = Some s' \<and> only_changed {e, p, n} s s'
    \<and> (\<forall>q. get_next s' q = (if q = p then Some e else if q = e then Some n else get_next s q))
    \<and> (\<forall>q. get_prev s' q = (if q = n then Some e else if q = e then Some p else get_prev s q))"
proof -
  obtain s1 where 1: "set_next s e n = Some s1" "dom s1 = dom s" "\<forall>q. q \<noteq> e \<longrightarrow> s1 q = s q"
    using set_field_total(1) assms(5) by blast
  obtain s2 where 2: "set_prev s1 n e = Some s2" "dom s2 = dom s" "\<forall>q. q \<noteq> n \<longrightarrow> s2 q = s1 q"
    using set_field_total(2) [of n s1 e] assms(4) 1(2) by auto
  obtain s3 where 3: "set_prev s2 e p = Some s3" "dom s3 = dom s" "\<forall>q. q \<noteq> e \<longrightarrow> s3 q = s2 q"
    using set_field_total(2) [of e s2 p] assms(5) 2(2) by auto
  obtain s4 where 4: "set_next s3 p e = Some s4" "dom s4 = dom s" "\<forall>q. q \<noteq> p \<longrightarrow> s4 q = s3 q"
    using set_field_total(1) [of p s3 e] assms(3) 3(2) by auto
  note fs = get_set_fields(1,2) [OF 1(1)] get_set_fields(3,4) [OF 2(1)]
    get_set_fields(3,4) [OF 3(1)] get_set_fields(1,2) [OF 4(1)]
  have "list_replace s e x = Some s4" using assms 1(1) 2(1) 3(1) 4(1) by (simp add: list_replace_def fs)
  moreover have "only_changed {e, p, n} s s4" using 1 2 3 4 by (simp add: only_changed_def)
  ultimately show ?thesis using assms by (simp add: fs)
qed

lemma lseg_relink:
  assumes "lseg s (us @ p # x # n # vs)" and "joint us p n vs" and "e \<notin> set (us @ p # n # vs)"
    and n: "\<And>q. get_next s' q = (if q = p then Some e else if q = e then Some n else get_next s q)"
    and pr: "\<And>q. get_prev s' q = (if q = n then Some e else if q = e then Some p else get_prev s q)"
  shows "lseg s' (us @ p # e # n # vs)"
proof -
  have segs: "lseg s (us @ [p])" "lseg s (n # vs)"
    using assms(1) lseg_split [of s us p "x # n # vs"] by auto
  have "lseg s' (us @ [p])"
    by (rule lseg_cong [OF segs(1)]) (use assms(2,3) in \<open>auto simp: n pr joint_def dest: in_set_tlD\<close>)
  moreover have "lseg s' (n # vs)"
    by (rule lseg_cong [OF segs(2)])
      (use assms(2,3) in \<open>auto simp: n pr joint_def dest: in_set_butlastD split: if_splits\<close>)
  moreover have "lnk s' p e" "lnk s' e n" using assms(3) by (auto simp: lnk_def n pr)
  ultimately show ?thesis using lseg_split [of s' us p "e # n # vs"] by auto
qed

lemma lseg_neighbours:
  assumes "lseg s (us @ p # x # n # vs)"
  shows "get_prev s x = Some p" "get_next s x = Some n" "p \<in> dom s" "n \<in> dom s" "x \<in> dom s"
  using assms lseg_split [of s us p "x # n # vs"] by (auto simp: lnk_def dest: get_field_dom)

lemma lseg_replace:
  assumes "lseg s (us @ p # x # n # vs)" and "joint us p n vs" and "x \<notin> set (us @ p # n # vs)"
    and "e \<in> dom s" and "e \<notin> set (us @ p # x # n # vs)"
  shows "\<exists>s'. list_replace s e x = Some s' \<and> only_changed {e, p, n} s s' \<and> lseg s' (us @ p # e # n # vs)"
proof -
  obtain s' where s': "list_replace s e x = Some s'" "only_changed {e, p, n} s s'"
    and n: "\<And>q. get_next s' q = (if q = p then Some e else if q = e then Some n else get_next s q)"
    and pr: "\<And>q. get_prev s' q = (if q = n then Some e else if q = e then Some p else get_prev s q)"
    using list_replace_exec [of s x p n e] lseg_neighbours [OF assms(1)] assms(3-) by auto
  have "lseg s' (us @ p # e # n # vs)"
    by (rule lseg_relink [OF assms(1,2) _ n pr]) (use assms(5) in auto)
  with s' show ?thesis by blast
qed

text \<open>\<open>list_moved\<close>: the node \<open>x\<close> was copied to the new address \<open>e\<close>; the neighbours still point to
  \<open>x\<close> and are redirected.\<close>

lemma lseg_moved:
  assumes "lseg s (us @ p # x # n # vs)" and "joint us p n vs"
    and "e \<in> dom s" and "e \<notin> set (us @ p # x # n # vs)"
  shows "\<exists>s'. list_moved (s(e := s x)) e = Some s' \<and> lseg s' (us @ p # e # n # vs)"
proof -
  let ?s = "s(e := s x)"
  note nb = lseg_neighbours [OF assms(1)]
  have f: "get_next ?s q = (if q = e then Some n else get_next s q)"
    "get_prev ?s q = (if q = e then Some p else get_prev s q)" for q
    using nb by (auto simp: get_next_def get_prev_def)
  have d: "n \<in> dom ?s" "p \<in> dom ?s" using nb by auto
  obtain s1 where 1: "set_prev ?s n e = Some s1" "dom s1 = dom ?s" using set_field_total(2) [OF d(1)] by blast
  obtain s2 where 2: "set_next s1 p e = Some s2" using set_field_total(1) [of p s1 e] d(2) 1(2) by auto
  note fs = get_set_fields(3,4) [OF 1(1)] get_set_fields(1,2) [OF 2(1)]
  have "list_moved ?s e = Some s2" using 1(1) 2 by (simp add: list_moved_def f)
  moreover have "lseg s2 (us @ p # e # n # vs)"
    by (rule lseg_relink [OF assms(1,2)]) (use assms(4) in \<open>auto simp: f fs\<close>)
  ultimately show ?thesis by blast
qed

section \<open>The operations on whole lists\<close>

lemma ring_joint:
  assumes "distinct (l # xs @ ys)"
  obtains us p n vs where "n = hd (ys @ [l])" "p = last (l # xs)"
    and "\<forall>zs. l # (xs @ zs @ ys) @ [l] = us @ p # zs @ n # vs"
    and "joint us p n vs" and "set (us @ p # n # vs) = insert l (set (xs @ ys))"
proof -
  obtain n vs where n: "ys @ [l] = n # vs" by (cases ys) auto
  obtain us p where p: "l # xs = us @ [p]" by (metis list.distinct(1) rev_exhaust)
  have r: "\<forall>zs. l # (xs @ zs @ ys) @ [l] = us @ p # zs @ n # vs"
    using n p by (metis append.assoc append_Cons append_Nil)
  then have r0: "l # (xs @ ys) @ [l] = us @ p # n # vs" by (metis append_Nil)
  have "joint us p n vs" by (rule joint_ring [OF assms r0])
  moreover have "set (us @ p # n # vs) = insert l (set (xs @ ys))" by (subst r0 [symmetric]) auto
  moreover have "n = hd (ys @ [l])" "p = last (l # xs)" using n p by auto
  ultimately show ?thesis using r that by blast
qed

lemma only_changed_mono: "only_changed A s s' \<Longrightarrow> A \<subseteq> B \<Longrightarrow> only_changed B s s'"
  by (auto simp: only_changed_def)

lemma is_list_insert:
  assumes "is_list s l (xs @ ys)" and "e \<in> dom s" and "e \<notin> insert l (set (xs @ ys))"
  shows "\<exists>s'. list_insert s (hd (ys @ [l])) e = Some s' \<and> is_list s' l (xs @ e # ys)
    \<and> only_changed (insert e (insert l (set (xs @ ys)))) s s'"
proof -
  from assms(1) have ls: "distinct (l # xs @ ys)" "lseg s (l # (xs @ [] @ ys) @ [l])"
    by (auto simp: is_list_def)
  obtain us p n vs where n: "n = hd (ys @ [l])" "p = last (l # xs)"
    and r: "\<forall>zs. l # (xs @ zs @ ys) @ [l] = us @ p # zs @ n # vs"
    and j: "joint us p n vs" and set: "set (us @ p # n # vs) = insert l (set (xs @ ys))"
    by (rule ring_joint [OF ls(1)])
  have seg: "lseg s (us @ p # n # vs)" using ls(2) r by (metis append_Nil)
  obtain s' where s': "list_insert s n e = Some s'" "lseg s' (us @ p # e # n # vs)"
    "only_changed {e, p, n} s s'"
    using lseg_insert [OF seg j assms(2)] assms(3) set by auto
  have "lseg s' (l # (xs @ [e] @ ys) @ [l])" using s'(2) r [rule_format, of "[e]"] by simp
  moreover have "only_changed (insert e (insert l (set (xs @ ys)))) s s'"
    by (rule only_changed_mono [OF s'(3)]) (use set in auto)
  ultimately show ?thesis using s'(1) n ls(1) assms(3) by (auto simp: is_list_def)
qed

lemma is_list_remove:
  assumes "is_list s l (xs @ e # ys)"
  shows "\<exists>s'. list_remove s e = Some (s', hd (ys @ [l])) \<and> is_list s' l (xs @ ys)
    \<and> only_changed (insert l (set (xs @ ys))) s s'"
proof -
  from assms have ls: "distinct (l # xs @ ys)" "lseg s (l # (xs @ [e] @ ys) @ [l])"
    "e \<notin> insert l (set (xs @ ys))"
    by (auto simp: is_list_def)
  obtain us p n vs where n: "n = hd (ys @ [l])" "p = last (l # xs)"
    and r: "\<forall>zs. l # (xs @ zs @ ys) @ [l] = us @ p # zs @ n # vs"
    and j: "joint us p n vs" and set: "set (us @ p # n # vs) = insert l (set (xs @ ys))"
    by (rule ring_joint [OF ls(1)])
  have seg: "lseg s (us @ p # e # n # vs)" using ls(2) r [rule_format, of "[e]"] by simp
  obtain s' where s': "list_remove s e = Some (s', n)" "lseg s' (us @ p # n # vs)"
    "only_changed {p, n} s s'"
    using lseg_remove [OF seg j] ls(3) set by auto
  have "lseg s' (l # (xs @ [] @ ys) @ [l])" using s'(2) r by (metis append_Nil)
  moreover have "only_changed (insert l (set (xs @ ys))) s s'"
    by (rule only_changed_mono [OF s'(3)]) (use set in auto)
  ultimately show ?thesis using s'(1) n ls(1) by (auto simp: is_list_def)
qed

lemma is_list_replace:
  assumes "is_list s l (xs @ x # ys)" and "e \<in> dom s" and "e \<notin> insert l (set (xs @ x # ys))"
  shows "\<exists>s'. list_replace s e x = Some s' \<and> is_list s' l (xs @ e # ys)
    \<and> only_changed (insert e (insert l (set (xs @ ys)))) s s'"
proof -
  from assms(1) have ls: "distinct (l # xs @ ys)" "lseg s (l # (xs @ [x] @ ys) @ [l])"
    "x \<notin> insert l (set (xs @ ys))"
    by (auto simp: is_list_def)
  obtain us p n vs where n: "n = hd (ys @ [l])" "p = last (l # xs)"
    and r: "\<forall>zs. l # (xs @ zs @ ys) @ [l] = us @ p # zs @ n # vs"
    and j: "joint us p n vs" and set: "set (us @ p # n # vs) = insert l (set (xs @ ys))"
    by (rule ring_joint [OF ls(1)])
  have seg: "lseg s (us @ p # x # n # vs)" using ls(2) r [rule_format, of "[x]"] by simp
  obtain s' where s': "list_replace s e x = Some s'" "lseg s' (us @ p # e # n # vs)"
    "only_changed {e, p, n} s s'"
    using lseg_replace [OF seg j _ assms(2)] ls(3) assms(3) set by auto
  have "lseg s' (l # (xs @ [e] @ ys) @ [l])" using s'(2) r [rule_format, of "[e]"] by simp
  moreover have "only_changed (insert e (insert l (set (xs @ ys)))) s s'"
    by (rule only_changed_mono [OF s'(3)]) (use set in auto)
  ultimately show ?thesis using s'(1) ls(1) assms(3) by (auto simp: is_list_def)
qed

lemma is_list_ends:
  assumes "is_list s l xs"
  shows "get_next s l = Some (hd (xs @ [l]))" and "get_prev s l = Some (last (l # xs))"
proof -
  show "get_next s l = Some (hd (xs @ [l]))"
    using assms by (cases xs) (auto simp: is_list_def lnk_def)
  show "get_prev s l = Some (last (l # xs))"
    using assms by (cases xs rule: rev_cases)
      (auto simp: is_list_def lnk_def successively_append_iff successively_Cons)
qed

lemma only_changed_dom: "only_changed A s s' \<Longrightarrow> dom s' = dom s"
  by (simp add: only_changed_def)

lemma is_list_init:
  "l \<in> dom s \<Longrightarrow> \<exists>s'. list_init s l = Some s' \<and> is_list s' l [] \<and> only_changed {l} s s'"
  by (auto simp: list_init_def set_next_def set_prev_def is_list_def lnk_def get_next_def get_prev_def
      only_changed_def)

lemma is_list_push_back:
  assumes "is_list s l xs" and "e \<in> dom s" and "e \<notin> insert l (set xs)"
  shows "\<exists>s'. list_push_back s l e = Some s' \<and> is_list s' l (xs @ [e])
    \<and> only_changed (insert e (insert l (set xs))) s s'"
  using is_list_insert [of s l xs "[]" e] assms by (simp add: list_push_back_def)

lemma is_list_push_front:
  assumes "is_list s l xs" and "e \<in> dom s" and "e \<notin> insert l (set xs)"
  shows "\<exists>s'. list_push_front s l e = Some s' \<and> is_list s' l (e # xs)
    \<and> only_changed (insert e (insert l (set xs))) s s'"
  using is_list_insert [of s l "[]" xs e] assms by (simp add: list_push_front_def is_list_ends)

lemma is_list_pop_front:
  assumes "is_list s l (x # xs)"
  shows "\<exists>s'. list_pop_front s l = Some (s', x) \<and> is_list s' l xs \<and> only_changed (insert l (set xs)) s s'"
  using is_list_remove [of s l "[]" x xs] is_list_ends [OF assms] assms by (auto simp: list_pop_front_def)

lemma is_list_pop_back:
  assumes "is_list s l (xs @ [x])"
  shows "\<exists>s'. list_pop_back s l = Some (s', x) \<and> is_list s' l xs \<and> only_changed (insert l (set xs)) s s'"
  using is_list_remove [of s l xs x "[]"] is_list_ends [OF assms] assms by (auto simp: list_pop_back_def)

lemma list_splice_single:
  assumes "get_next s e = Some n" and "get_prev s n = Some e" and "e \<noteq> n"
  shows "list_splice s b e n = do { (s', _) \<leftarrow> list_remove s e; list_insert s' b e }"
proof -
  have "get_next s2 e \<noteq> None" if "set_next s p n = Some s1" "set_prev s1 q p' = Some s2" for s1 s2 p q p'
    using assms(1) by (auto simp: get_set_fields(4) [OF that(2)] get_set_fields(1) [OF that(1)])
  with assms show ?thesis
    by (auto simp: list_splice_def list_remove_def list_insert_def get_set_fields split: bind_splits)
qed

lemma is_list_splice:
  assumes "is_list s l (xs @ e # ys)" and "xs @ ys = us @ vs"
  shows "\<exists>s'. list_splice s (hd (vs @ [l])) e (hd (ys @ [l])) = Some s' \<and> is_list s' l (us @ e # vs)
    \<and> only_changed (insert l (set (xs @ e # ys))) s s'"
proof -
  have sets: "set us \<union> set vs = set xs \<union> set ys" using assms(2) by (metis set_append)
  obtain s1 where s1: "list_remove s e = Some (s1, hd (ys @ [l]))" "is_list s1 l (us @ vs)"
    "only_changed (insert l (set (xs @ ys))) s s1"
    using is_list_remove [OF assms(1)] assms(2) by auto
  have e: "e \<in> dom s1" "e \<notin> insert l (set (us @ vs))"
    using assms(1) is_list_dom [OF assms(1)] only_changed_dom [OF s1(3)] sets
    by (auto simp: is_list_def)
  obtain s2 where s2: "list_insert s1 (hd (vs @ [l])) e = Some s2" "is_list s2 l (us @ e # vs)"
    "only_changed (insert e (insert l (set (us @ vs)))) s1 s2"
    using is_list_insert [OF s1(2) e] by blast
  have "get_next s e = Some (hd (ys @ [l]))" "get_prev s (hd (ys @ [l])) = Some e" "e \<noteq> hd (ys @ [l])"
    using assms(1) by (cases ys; auto simp: is_list_def lnk_def successively_append_iff successively_Cons)+
  then have "list_splice s (hd (vs @ [l])) e (hd (ys @ [l])) = Some s2"
    using s1(1) s2(1) by (simp add: list_splice_single)
  moreover have "only_changed (insert l (set (xs @ e # ys))) s s2"
    using s1(3) s2(3) sets by (auto simp: only_changed_def)
  ultimately show ?thesis using s2(2) by blast
qed

section \<open>Traversals\<close>

lemma lseg_append_Cons: "lseg s (x # xs @ [l]) \<Longrightarrow> get_next s x = Some (hd (xs @ [l]))"
  by (cases xs) (auto simp: lnk_def)

lemma list_walk_lseg: "lseg s (xs @ [l]) \<Longrightarrow> l \<notin> set xs \<Longrightarrow> list_walk s l (hd (xs @ [l])) = Some xs"
proof (induction xs)
  case (Cons x xs)
  then have "lseg s (xs @ [l])" by (cases xs) auto
  with Cons show ?case
    by (subst list_walk.simps) (auto simp: lseg_append_Cons)
qed (simp add: list_walk.simps)

lemma LIST_FOR_EACH_list: "is_list s l xs \<Longrightarrow> LIST_FOR_EACH s l = Some xs"
  using list_walk_lseg [of s xs l]
  by (cases xs) (auto simp: LIST_FOR_EACH_def lnk_def is_list_def)

lemma list_size_loop_lseg:
  "lseg s (xs @ [l]) \<Longrightarrow> l \<notin> set xs \<Longrightarrow> list_size_loop s l (hd (xs @ [l])) cnt = Some (cnt + length xs)"
proof (induction xs arbitrary: cnt)
  case (Cons x xs)
  then have "lseg s (xs @ [l])" by (cases xs) auto
  with Cons show ?case
    by (subst list_size_loop.simps) (auto simp: lseg_append_Cons)
qed (simp add: list_size_loop.simps)

lemma list_size_list: "is_list s l xs \<Longrightarrow> list_size s l = Some (length xs)"
  using list_size_loop_lseg [of s xs l 0]
  by (cases xs) (auto simp: list_size_def lnk_def is_list_def)

lemma list_walk_reverse_lseg:
  "lseg s (l # xs) \<Longrightarrow> l \<notin> set xs \<Longrightarrow> list_walk_reverse s l (last (l # xs)) = Some (rev xs)"
proof (induction xs rule: rev_induct)
  case (snoc x xs)
  then have "lseg s (l # xs)" "get_prev s x = Some (last (l # xs))"
    by (auto simp: successively_append_iff successively_Cons lnk_def)
  with snoc show ?case
    by (subst list_walk_reverse.simps) auto
qed (simp add: list_walk_reverse.simps)

lemma LIST_FOR_EACH_REVERSE_list: "is_list s l xs \<Longrightarrow> LIST_FOR_EACH_REVERSE s l = Some (rev xs)"
  using list_walk_reverse_lseg [of s l xs]
  by (auto simp: LIST_FOR_EACH_REVERSE_def is_list_ends is_list_def successively_append_iff successively_Cons)

lemma list_is_empty_list: "is_list s l xs \<Longrightarrow> list_is_empty s l = Some (xs = [])"
  by (cases xs) (auto simp: list_is_empty_def lnk_def is_list_def)

lemma list_is_short_list: "is_list s l xs \<Longrightarrow> list_is_short s l = Some (length xs \<le> 1)"
proof -
  assume l: "is_list s l xs"
  have "hd (xs @ [l]) = last (l # xs) \<longleftrightarrow> length xs \<le> 1"
    using l by (cases xs; cases "tl xs") (auto simp: is_list_def)
  then show ?thesis using is_list_ends [OF l] by (simp add: list_is_short_def)
qed

lemma list_is_singleton_list: "is_list s l xs \<Longrightarrow> list_is_singleton s l = Some (length xs = 1)"
  by (cases xs) (auto simp: list_is_singleton_def list_is_short_list list_is_empty_list)

lemma list_front_list: "is_list s l xs \<Longrightarrow> list_front s l = (if xs = [] then None else Some (hd xs))"
  by (auto simp: list_front_def list_is_empty_list is_list_ends)

lemma list_back_list: "is_list s l xs \<Longrightarrow> list_back s l = (if xs = [] then None else Some (last xs))"
  by (auto simp: list_back_def list_is_empty_list is_list_ends)

lemma is_list_moved:
  assumes "is_list s l (xs @ x # ys)" and "e \<in> dom s" and "e \<notin> insert l (set (xs @ x # ys))"
  shows "\<exists>s'. list_moved (s(e := s x)) e = Some s' \<and> is_list s' l (xs @ e # ys)"
proof -
  from assms(1) have ls: "distinct (l # xs @ ys)" "lseg s (l # (xs @ [x] @ ys) @ [l])"
    by (auto simp: is_list_def)
  obtain us p n vs where n: "n = hd (ys @ [l])" "p = last (l # xs)"
    and r: "\<forall>zs. l # (xs @ zs @ ys) @ [l] = us @ p # zs @ n # vs"
    and j: "joint us p n vs" and set: "set (us @ p # n # vs) = insert l (set (xs @ ys))"
    by (rule ring_joint [OF ls(1)])
  have seg: "lseg s (us @ p # x # n # vs)" using ls(2) r [rule_format, of "[x]"] by simp
  obtain s' where s': "list_moved (s(e := s x)) e = Some s'" "lseg s' (us @ p # e # n # vs)"
    using lseg_moved [OF seg j assms(2)] assms(3) set by auto
  have "lseg s' (l # (xs @ [e] @ ys) @ [l])" using s'(2) r [rule_format, of "[e]"] by simp
  with s'(1) ls(1) assms(3) show ?thesis by (auto simp: is_list_def)
qed

section \<open>The list interface\<close>

text \<open>What the users of \<open>struct list\<close> rely on: appending and taking from the front of the list
  below a head, on a store that knows which nodes exist.\<close>

locale intrusive_list =
  fixes rep :: "'s \<Rightarrow> 'p \<Rightarrow> 'p list \<Rightarrow> bool"
    and node :: "'s \<Rightarrow> 'p \<Rightarrow> bool"
    and push_back :: "'s \<Rightarrow> 'p \<Rightarrow> 'p \<Rightarrow> 's option"
    and remove :: "'s \<Rightarrow> 'p \<Rightarrow> ('s \<times> 'p) option"
    and pop_front :: "'s \<Rightarrow> 'p \<Rightarrow> ('s \<times> 'p) option"
  assumes push_back: "rep s l xs \<Longrightarrow> node s e \<Longrightarrow> e \<notin> insert l (set xs) \<Longrightarrow>
      \<exists>s'. push_back s l e = Some s' \<and> rep s' l (xs @ [e]) \<and> node s' = node s"
    and remove: "rep s l (xs @ e # ys) \<Longrightarrow>
      \<exists>s' n. remove s e = Some (s', n) \<and> rep s' l (xs @ ys) \<and> node s' = node s"
    and pop_front: "rep s l (x # xs) \<Longrightarrow>
      \<exists>s'. pop_front s l = Some (s', x) \<and> rep s' l xs \<and> node s' = node s"
    and rep_nodes: "rep s l xs \<Longrightarrow> x \<in> set xs \<Longrightarrow> node s x"
    and rep_distinct: "rep s l xs \<Longrightarrow> distinct (l # xs)"
begin

primrec push_all :: "'s \<Rightarrow> 'p \<Rightarrow> 'p list \<Rightarrow> 's option" where
  "push_all s l [] = Some s"
| "push_all s l (e # es) = do { s' \<leftarrow> push_back s l e; push_all s' l es }"

primrec pop_many :: "'s \<Rightarrow> 'p \<Rightarrow> nat \<Rightarrow> ('s \<times> 'p list) option" where
  "pop_many s l 0 = Some (s, [])"
| "pop_many s l (Suc k) = do { (s', x) \<leftarrow> pop_front s l; (s'', xs) \<leftarrow> pop_many s' l k; Some (s'', x # xs) }"

lemma push_all_rep:
  assumes "rep s l xs" and "\<forall>e \<in> set es. node s e" and "distinct es" and "set es \<inter> insert l (set xs) = {}"
  shows "\<exists>s'. push_all s l es = Some s' \<and> rep s' l (xs @ es) \<and> node s' = node s"
  using assms
proof (induction es arbitrary: s xs)
  case (Cons e es)
  obtain s1 where s1: "push_back s l e = Some s1" "rep s1 l (xs @ [e])" "node s1 = node s"
    using push_back [of s l xs e] Cons.prems by auto
  have "\<exists>s'. push_all s1 l es = Some s' \<and> rep s' l ((xs @ [e]) @ es) \<and> node s' = node s1"
    by (rule Cons.IH [OF s1(2)]) (use Cons.prems s1(3) in auto)
  with s1 show ?case by auto
qed simp

lemma pop_many_rep:
  "rep s l (xs @ ys) \<Longrightarrow> \<exists>s'. pop_many s l (length xs) = Some (s', xs) \<and> rep s' l ys \<and> node s' = node s"
proof (induction xs arbitrary: s)
  case (Cons x xs)
  obtain s1 where s1: "pop_front s l = Some (s1, x)" "rep s1 l (xs @ ys)" "node s1 = node s"
    using pop_front [of s l x "xs @ ys"] Cons.prems by auto
  with Cons.IH [OF s1(2)] show ?case by auto
qed simp

text \<open>A touched element moves to the back; the order of the others is kept.\<close>

lemma move_to_back:
  assumes "rep s l (xs @ e # ys)"
  shows "\<exists>s' n s''. remove s e = Some (s', n) \<and> push_back s' l e = Some s'' \<and> rep s'' l (xs @ ys @ [e])
    \<and> node s'' = node s"
proof -
  obtain s' n where s': "remove s e = Some (s', n)" "rep s' l (xs @ ys)" "node s' = node s"
    using remove [OF assms] by blast
  have "node s' e" "e \<notin> insert l (set (xs @ ys))"
    using rep_nodes [OF assms, of e] rep_distinct [OF assms] s'(3) by auto
  with s' push_back [OF s'(2)] show ?thesis by fastforce
qed

end

interpretation ovs_list: intrusive_list is_list "\<lambda>s p. p \<in> dom s" list_push_back list_remove list_pop_front
proof
  fix s l xs e ys x
  show "\<exists>s'. list_push_back s l e = Some s' \<and> is_list s' l (xs @ [e])
      \<and> (\<lambda>p. p \<in> dom s') = (\<lambda>p. p \<in> dom s)"
    if "is_list s l xs" "e \<in> dom s" "e \<notin> insert l (set xs)"
    using is_list_push_back [OF that] by (auto dest: only_changed_dom)
  show "\<exists>s' n. list_remove s e = Some (s', n) \<and> is_list s' l (xs @ ys)
      \<and> (\<lambda>p. p \<in> dom s') = (\<lambda>p. p \<in> dom s)"
    if "is_list s l (xs @ e # ys)"
    using is_list_remove [OF that] by (auto dest: only_changed_dom)
  show "\<exists>s'. list_pop_front s l = Some (s', x) \<and> is_list s' l xs
      \<and> (\<lambda>p. p \<in> dom s') = (\<lambda>p. p \<in> dom s)"
    if "is_list s l (x # xs)"
    using is_list_pop_front [OF that] by (auto dest: only_changed_dom)
  show "x \<in> dom s" if "is_list s l xs" "x \<in> set xs" using is_list_dom [OF that(1)] that(2) by auto
  show "distinct (l # xs)" if "is_list s l xs" using that by (simp add: is_list_def)
qed

section \<open>Properties\<close>

definition ring_example :: list_store where
  "ring_example = [1 \<mapsto> \<lparr>prev = 3, next = 2\<rparr>, 2 \<mapsto> \<lparr>prev = 1, next = 3\<rparr>,
     3 \<mapsto> \<lparr>prev = 2, next = 1\<rparr>, 4 \<mapsto> \<lparr>prev = 0, next = 0\<rparr>, 5 \<mapsto> \<lparr>prev = 0, next = 0\<rparr>]"

lemma ring_example_list: "is_list ring_example 1 [2, 3]"
  by (simp add: is_list_def lnk_def get_next_def get_prev_def ring_example_def)

lemma ring_example_dom: "p \<in> {1, 2, 3, 4, 5} \<Longrightarrow> p \<in> dom ring_example"
  by (auto simp: ring_example_def)

text \<open>Inserting a node before any position of a list (the position may be the head, which is
  the end of the list) never faults, puts the node exactly there, and changes no node outside
  the list.\<close>

theorem list_insert_correct:
  assumes "is_list s l (xs @ ys)" and "e \<in> dom s" and "e \<notin> insert l (set (xs @ ys))"
  shows "\<exists>s'. list_insert s (hd (ys @ [l])) e = Some s' \<and> is_list s' l (xs @ e # ys)
    \<and> only_changed (insert e (insert l (set (xs @ ys)))) s s'"
  by (rule is_list_insert [OF assms])

theorem list_insert_correct_witness:
  "\<exists>s'. list_insert ring_example (hd ([3] @ [1])) 4 = Some s' \<and> is_list s' 1 ([2] @ 4 # [3])
    \<and> only_changed (insert 4 (insert 1 (set ([2] @ [3])))) ring_example s'"
  by (rule list_insert_correct) (use ring_example_list ring_example_dom in auto)

text \<open>splicing one element of a list before another position of the same list (the way the
  classifier re-orders its tables) moves that element and keeps the order of all the others.\<close>

theorem list_splice_moves_one:
  assumes "is_list s l (xs @ e # ys)" and "xs @ ys = us @ vs"
  shows "\<exists>s'. list_splice s (hd (vs @ [l])) e (hd (ys @ [l])) = Some s' \<and> is_list s' l (us @ e # vs)
    \<and> only_changed (insert l (set (xs @ e # ys))) s s'"
  by (rule is_list_splice [OF assms])

text \<open>the lists are first-in first-out queues: pushing any nodes to the back of an empty list
  and popping as many from the front returns them in order and leaves the list empty.\<close>

theorem list_fifo:
  assumes "is_list s l []" and "set es \<subseteq> dom s" and "distinct (l # es)"
  shows "\<exists>s1 s2. ovs_list.push_all s l es = Some s1 \<and> list_size s1 l = Some (length es)
    \<and> LIST_FOR_EACH s1 l = Some es
    \<and> ovs_list.pop_many s1 l (length es) = Some (s2, es) \<and> list_is_empty s2 l = Some True"
proof -
  obtain s1 where s1: "ovs_list.push_all s l es = Some s1" "is_list s1 l es"
    using ovs_list.push_all_rep [OF assms(1), of es] assms(2,3) by auto
  obtain s2 where "ovs_list.pop_many s1 l (length es) = Some (s2, es)" "is_list s2 l []"
    using ovs_list.pop_many_rep [of s1 l es "[]"] s1(2) by auto
  with s1 show ?thesis by (auto simp: list_size_list LIST_FOR_EACH_list list_is_empty_list)
qed

theorem list_fifo_witness:
  "\<exists>s1 s2. ovs_list.push_all (ring_example(1 \<mapsto> \<lparr>prev = 1, next = 1\<rparr>)) 1 [4, 2, 5] = Some s1
    \<and> list_size s1 1 = Some (length [4, 2, 5 :: ptr]) \<and> LIST_FOR_EACH s1 1 = Some [4, 2, 5]
    \<and> ovs_list.pop_many s1 1 (length [4, 2, 5 :: ptr]) = Some (s2, [4, 2, 5])
    \<and> list_is_empty s2 1 = Some True"
  by (rule list_fifo)
    (auto simp: is_list_def lnk_def get_next_def get_prev_def ring_example_def)

end
