(* ===== verification/Shared_Memory.thy ===== *)
theory Shared_Memory
  imports OVS_Hmap
begin

text \<open>
  The paged memory that the two sides share (\<open>OFTonSGX/include/common.h\<close>,
  \<open>untrusted/shared-memory-untrusted.c\<close>, \<open>trusted/shared-memory-trusted.c\<close>), and hash maps whose
  buckets live in it (\<open>resize\<close> of \<open>trusted/lib/hmap.c\<close> when it is given a shared memory).

  The entries of the array of page pointers are the pages themselves, \<open>None\<close> for a pointer that is
  not initialised or dangles; \<open>sm_next\<close> is the next address \<open>malloc\<close> returns, and \<open>junk a\<close> is the
  value of the field \<open>status\<close> in fresh memory, which is never initialised. An index of \<open>-1\<close> is
  \<open>None\<close>. Messages to the console are left out.
\<close>

section \<open>State\<close>

definition PAGE_STATUS_FREE :: u64 where "PAGE_STATUS_FREE = 0"
definition PAGE_STATUS_ALLOCATED :: u8 where "PAGE_STATUS_ALLOCATED = 1"
definition DEFAULT_PAGE_SIZE :: u64 where "DEFAULT_PAGE_SIZE = 64"
definition MAX_N_PAGES :: nat where "MAX_N_PAGES = 10"

record page =
  pg_bytes :: ptr
  pg_size :: u64
  pg_status :: u64
  pg_pending :: u8

record shared_memory =
  sm_pages :: "page option list"
  sm_cap :: nat
  sm_allocated :: "u8 list"
  sm_default :: u64
  sm_next :: ptr

definition page_at :: "shared_memory \<Rightarrow> nat \<Rightarrow> page option" where
  "page_at sm i = (if i < length (sm_pages sm) then sm_pages sm ! i else None)"

definition allocated_at :: "shared_memory \<Rightarrow> nat \<Rightarrow> bool option" where
  "allocated_at sm i = (if i < length (sm_allocated sm) then Some (sm_allocated sm ! i \<noteq> 0) else None)"

definition set_page :: "shared_memory \<Rightarrow> nat \<Rightarrow> page \<Rightarrow> shared_memory" where
  "set_page sm i p = sm\<lparr>sm_pages := (sm_pages sm)[i := Some p]\<rparr>"

section \<open>The untrusted side\<close>

text \<open>The loops that look for the first index with a property.\<close>

fun first_index :: "(nat \<Rightarrow> bool option) \<Rightarrow> nat list \<Rightarrow> nat option option" where
  "first_index P [] = Some None"
| "first_index P (i # is) = do { b \<leftarrow> P i; if b then Some (Some i) else first_index P is }"

definition next_unallocated_page :: "shared_memory \<Rightarrow> nat option option" where
  "next_unallocated_page sm = first_index (\<lambda>i. map_option Not (allocated_at sm i)) [0..<sm_cap sm]"

text \<open>A test of an allocated page.\<close>

definition allocated_with :: "shared_memory \<Rightarrow> (page \<Rightarrow> bool) \<Rightarrow> nat \<Rightarrow> bool option" where
  "allocated_with sm P i = do {
     a \<leftarrow> allocated_at sm i;
     if \<not> a then Some False else do { p \<leftarrow> page_at sm i; Some (P p) } }"

definition next_free_page :: "shared_memory \<Rightarrow> nat option option" where
  "next_free_page sm = first_index (allocated_with sm (\<lambda>p. pg_status p = PAGE_STATUS_FREE)) [0..<sm_cap sm]"

definition shared_memory_allocate_page :: "(ptr \<Rightarrow> u64) \<Rightarrow> shared_memory \<Rightarrow> u64 \<Rightarrow> (nat option \<times> shared_memory) option" where
  "shared_memory_allocate_page junk sm page_sz = do {
     n \<leftarrow> next_unallocated_page sm;
     n \<leftarrow> (if n = None then next_free_page sm else Some n);
     case n of
       None \<Rightarrow> Some (None, sm)
     | Some i \<Rightarrow> Some (Some i, sm\<lparr>sm_allocated := (sm_allocated sm)[i := 1],
         sm_pages := (sm_pages sm)[i := Some \<lparr>pg_bytes = sm_next sm,
           pg_size = (if page_sz \<noteq> 0 then 2 * page_sz else sm_default sm), pg_status = junk (sm_next sm), pg_pending = 0\<rparr>],
         sm_next := sm_next sm + 1\<rparr>) }"

text \<open>A failed allocation ends the program; so do all the others then (\<open>None\<close>).\<close>

fun allocate_pages :: "(ptr \<Rightarrow> u64) \<Rightarrow> nat \<Rightarrow> shared_memory \<Rightarrow> shared_memory option" where
  "allocate_pages junk 0 sm = Some sm"
| "allocate_pages junk (Suc k) sm = do {
     (n, sm) \<leftarrow> shared_memory_allocate_page junk sm 0;
     if n = None then None else allocate_pages junk k sm }"

definition shared_memory_init :: "(ptr \<Rightarrow> u64) \<Rightarrow> shared_memory option" where
  "shared_memory_init junk = allocate_pages junk (MAX_N_PAGES div 2)
     \<lparr>sm_pages = replicate MAX_N_PAGES None, sm_cap = MAX_N_PAGES, sm_allocated = replicate MAX_N_PAGES 0,
      sm_default = DEFAULT_PAGE_SIZE, sm_next = 0\<rparr>"

fun deallocate_from :: "nat list \<Rightarrow> shared_memory \<Rightarrow> shared_memory option" where
  "deallocate_from [] sm = Some sm"
| "deallocate_from (i # is) sm = do {
     marked \<leftarrow> allocated_with sm (\<lambda>p. pg_pending p \<noteq> 0) i;
     deallocate_from is (if marked
       then sm\<lparr>sm_allocated := (sm_allocated sm)[i := 0], sm_pages := (sm_pages sm)[i := None]\<rparr> else sm) }"

definition shared_memory_deallocate_marked_pages :: "shared_memory \<Rightarrow> shared_memory option" where
  "shared_memory_deallocate_marked_pages sm = deallocate_from [0..<sm_cap sm] sm"

section \<open>The trusted side\<close>

definition shared_memory_index_of_allocated_page :: "shared_memory \<Rightarrow> ptr \<Rightarrow> nat option option" where
  "shared_memory_index_of_allocated_page sm page_addr =
     first_index (allocated_with sm (\<lambda>p. pg_bytes p = page_addr)) [0..<sm_cap sm]"

definition shared_memory_mark_page_for_deallocation :: "shared_memory \<Rightarrow> ptr \<Rightarrow> shared_memory option" where
  "shared_memory_mark_page_for_deallocation sm page_addr = do {
     n \<leftarrow> shared_memory_index_of_allocated_page sm page_addr;
     case n of
       None \<Rightarrow> Some sm
     | Some i \<Rightarrow> do { p \<leftarrow> page_at sm i; Some (set_page sm i (p\<lparr>pg_pending := 1\<rparr>)) } }"

definition shared_memory_free_page :: "shared_memory \<Rightarrow> ptr \<Rightarrow> shared_memory option" where
  "shared_memory_free_page sm page_addr = do {
     n \<leftarrow> shared_memory_index_of_allocated_page sm page_addr;
     case n of
       None \<Rightarrow> Some sm
     | Some i \<Rightarrow> do { p \<leftarrow> page_at sm i; Some (set_page sm i (p\<lparr>pg_status := PAGE_STATUS_FREE\<rparr>)) } }"

text \<open>The search does not stop at the first page that will do: the last one is taken.\<close>

fun last_index :: "(nat \<Rightarrow> bool option) \<Rightarrow> nat list \<Rightarrow> nat option \<Rightarrow> nat option option" where
  "last_index P [] n = Some n"
| "last_index P (i # is) n = do { b \<leftarrow> P i; last_index P is (if b then Some i else n) }"

definition shared_memory_get_page :: "(ptr \<Rightarrow> u64) \<Rightarrow> shared_memory \<Rightarrow> u64 \<Rightarrow> u8 \<Rightarrow> (page option \<times> shared_memory) option" where
  "shared_memory_get_page junk sm requested_size page_status = do {
     n \<leftarrow> last_index (allocated_with sm (\<lambda>p. requested_size \<le> pg_size p \<and> pg_status p = PAGE_STATUS_FREE)) [0..<sm_cap sm] None;
     (n, sm) \<leftarrow> (if n = None then shared_memory_allocate_page junk sm requested_size else Some (n, sm));
     case n of
       None \<Rightarrow> Some (None, sm)
     | Some i \<Rightarrow> do {
         p \<leftarrow> page_at sm i;
         let p = p\<lparr>pg_status := ucast page_status\<rparr>;
         Some (Some p, set_page sm i p) } }"

section \<open>Hash maps in shared memory\<close>

text \<open>\<open>sm_buckets\<close> is where the array of buckets is, \<open>None\<close> while it is the one inside the map.\<close>

record 'a sm_hmap =
  sm_map :: "'a hmap"
  sm_buckets :: "ptr option"

definition hmap_init_sm :: "'a sm_hmap" where
  "hmap_init_sm = \<lparr>sm_map = hmap_init, sm_buckets = None\<rparr>"

definition resize_sm :: "(ptr \<Rightarrow> u64) \<Rightarrow> 'a sm_hmap \<Rightarrow> u64 \<Rightarrow> shared_memory \<Rightarrow> u8 \<Rightarrow> ('a sm_hmap \<times> shared_memory) option" where
  "resize_sm junk h new_mask sm page_type =
     (if new_mask AND (new_mask + 1) \<noteq> 0 \<or> new_mask = - 1 then None
      else do {
        (page_ok, bs, sm) \<leftarrow> (if new_mask \<noteq> 0 then do {
            (pg, sm) \<leftarrow> shared_memory_get_page junk sm (8 * (new_mask + 1)) page_type;
            Some (pg \<noteq> None, map_option pg_bytes pg, sm) }
          else Some (True, None, sm));
        if \<not> page_ok then Some (h, sm)
        else do {
          m \<leftarrow> resize True (sm_map h) new_mask;
          sm \<leftarrow> (case sm_buckets h of None \<Rightarrow> Some sm | Some a \<Rightarrow> shared_memory_free_page sm a);
          Some (\<lparr>sm_map = m, sm_buckets = bs\<rparr>, sm) } })"

definition hmap_expand_sm :: "(ptr \<Rightarrow> u64) \<Rightarrow> 'a sm_hmap \<Rightarrow> shared_memory \<Rightarrow> u8 \<Rightarrow> ('a sm_hmap \<times> shared_memory) option" where
  "hmap_expand_sm junk h sm page_type = (let new_mask = calc_mask (of_nat (hn (sm_map h))) in
     if new_mask > hmask (sm_map h) then resize_sm junk h new_mask sm page_type else Some (h, sm))"

definition hmap_insert_sm :: "(ptr \<Rightarrow> u64) \<Rightarrow> 'a sm_hmap \<Rightarrow> 'a \<Rightarrow> u64 \<Rightarrow> shared_memory \<Rightarrow> u8 \<Rightarrow> ('a sm_hmap \<times> shared_memory) option" where
  "hmap_insert_sm junk h x hash sm page_type = (let h = h\<lparr>sm_map := hmap_insert_fast (sm_map h) x hash\<rparr> in
     if hn (sm_map h) div 2 > unat (hmask (sm_map h)) then hmap_expand_sm junk h sm page_type else Some (h, sm))"

definition hmap_remove_sm :: "'a sm_hmap \<Rightarrow> 'a \<Rightarrow> 'a sm_hmap option" where
  "hmap_remove_sm h x = do { m \<leftarrow> hmap_remove (sm_map h) x; Some (h\<lparr>sm_map := m\<rparr>) }"

section \<open>Invariant\<close>

definition sm_inv :: "shared_memory \<Rightarrow> bool" where
  "sm_inv sm \<longleftrightarrow> length (sm_pages sm) = sm_cap sm \<and> length (sm_allocated sm) = sm_cap sm
     \<and> (\<forall>i < sm_cap sm. sm_allocated sm ! i \<noteq> 0 \<longrightarrow> (\<exists>p. sm_pages sm ! i = Some p \<and> pg_bytes p < sm_next sm))
     \<and> (\<forall>i < sm_cap sm. \<forall>j < sm_cap sm. sm_allocated sm ! i \<noteq> 0 \<longrightarrow> sm_allocated sm ! j \<noteq> 0 \<longrightarrow>
          pg_bytes (the (sm_pages sm ! i)) = pg_bytes (the (sm_pages sm ! j)) \<longrightarrow> i = j)"

text \<open>The allocated pages, and those of them that are handed out.\<close>

definition live_pages :: "shared_memory \<Rightarrow> page set" where
  "live_pages sm = {p. \<exists>i < sm_cap sm. sm_allocated sm ! i \<noteq> 0 \<and> sm_pages sm ! i = Some p}"

definition in_use :: "shared_memory \<Rightarrow> ptr set" where
  "in_use sm = {pg_bytes p |p. p \<in> live_pages sm \<and> pg_status p \<noteq> PAGE_STATUS_FREE}"

lemma first_index_eq:
  assumes "\<forall>i \<in> set is. P i = Some (Q i)"
  shows "first_index P is = Some (find Q is)"
  using assms by (induction "is") simp_all

lemma last_index_ok:
  assumes "\<forall>i \<in> set is. P i = Some (Q i)"
  shows "\<exists>r. last_index P is n = Some r \<and> (case r of None \<Rightarrow> n = None \<and> (\<forall>i \<in> set is. \<not> Q i)
    | Some i \<Rightarrow> i \<in> set is \<and> Q i \<or> r = n)"
  using assms
proof (induction "is" arbitrary: n)
  case (Cons i "is")
  from Cons.IH [of "if Q i then Some i else n"] Cons.prems show ?case by (fastforce split: option.splits if_splits)
qed (simp split: option.split)

lemma allocated_at_ok: "sm_inv sm \<Longrightarrow> i < sm_cap sm \<Longrightarrow> allocated_at sm i = Some (sm_allocated sm ! i \<noteq> 0)"
  by (simp add: sm_inv_def allocated_at_def)

lemma allocated_with_ok:
  assumes "sm_inv sm" and "i < sm_cap sm"
  shows "allocated_with sm P i = Some (sm_allocated sm ! i \<noteq> 0 \<and> P (the (sm_pages sm ! i)))"
proof -
  have "length (sm_pages sm) = sm_cap sm" "length (sm_allocated sm) = sm_cap sm" using assms(1) by (simp_all add: sm_inv_def)
  moreover have "\<exists>p. sm_pages sm ! i = Some p" if "sm_allocated sm ! i \<noteq> 0" using assms that unfolding sm_inv_def by blast
  ultimately show ?thesis using assms(2) by (auto simp: allocated_with_def allocated_at_def page_at_def)
qed

lemma page_at_ok:
  assumes "sm_inv sm" and "i < sm_cap sm" and "sm_allocated sm ! i \<noteq> 0"
  obtains p where "page_at sm i = Some p" "sm_pages sm ! i = Some p" "p \<in> live_pages sm" "pg_bytes p < sm_next sm"
proof -
  have "length (sm_pages sm) = sm_cap sm" using assms(1) by (simp add: sm_inv_def)
  moreover obtain p where "sm_pages sm ! i = Some p" "pg_bytes p < sm_next sm" using assms unfolding sm_inv_def by blast
  ultimately show thesis using that assms(2,3) by (auto simp: page_at_def live_pages_def)
qed

section \<open>Changing one page\<close>

definition in_use_but :: "nat \<Rightarrow> shared_memory \<Rightarrow> ptr set" where
  "in_use_but i sm = {pg_bytes p |p. \<exists>j < sm_cap sm. j \<noteq> i \<and> sm_allocated sm ! j \<noteq> 0 \<and> sm_pages sm ! j = Some p \<and> pg_status p \<noteq> PAGE_STATUS_FREE}"

lemma in_use_split:
  assumes "i < sm_cap sm"
  shows "in_use sm = in_use_but i sm \<union> {pg_bytes p |p. sm_allocated sm ! i \<noteq> 0 \<and> sm_pages sm ! i = Some p \<and> pg_status p \<noteq> PAGE_STATUS_FREE}"
  using assms unfolding in_use_def in_use_but_def live_pages_def by blast

lemma in_use_but_fresh:
  assumes "sm_inv sm" and "i < sm_cap sm" and "sm_allocated sm ! i \<noteq> 0" and "sm_pages sm ! i = Some p"
  shows "pg_bytes p \<notin> in_use_but i sm"
proof
  assume "pg_bytes p \<in> in_use_but i sm"
  then obtain j q where j: "j < sm_cap sm" "j \<noteq> i" "sm_allocated sm ! j \<noteq> 0" "sm_pages sm ! j = Some q" "pg_bytes p = pg_bytes q"
    unfolding in_use_but_def by blast
  then have "pg_bytes (the (sm_pages sm ! j)) = pg_bytes (the (sm_pages sm ! i))" using assms(4) by simp
  then have "j = i" using assms(1-3) j(1,3) unfolding sm_inv_def by blast
  with j(2) show False by contradiction
qed

lemma in_use_but_less: "sm_inv sm \<Longrightarrow> a \<in> in_use_but i sm \<Longrightarrow> a < sm_next sm"
  unfolding in_use_but_def sm_inv_def by fastforce

lemma in_use_but_cong:
  assumes "sm_cap sm' = sm_cap sm" and "\<And>j. j \<noteq> i \<Longrightarrow> sm_allocated sm' ! j = sm_allocated sm ! j \<and> sm_pages sm' ! j = sm_pages sm ! j"
  shows "in_use_but i sm' = in_use_but i sm"
proof -
  have "j \<noteq> i \<and> sm_allocated sm' ! j \<noteq> 0 \<and> sm_pages sm' ! j = Some p \<longleftrightarrow> j \<noteq> i \<and> sm_allocated sm ! j \<noteq> 0 \<and> sm_pages sm ! j = Some p" for j p
    using assms(2) [of j] by auto
  then show ?thesis unfolding in_use_but_def assms(1) by blast
qed

text \<open>The page at \<open>i\<close> is rewritten in place, or replaced by one at a new address.\<close>

lemma sm_inv_update:
  assumes inv: "sm_inv sm" and i: "i < sm_cap sm"
    and b: "sm_allocated sm ! i \<noteq> 0 \<and> pg_bytes p = pg_bytes (the (sm_pages sm ! i)) \<and> n = sm_next sm \<or> pg_bytes p = sm_next sm \<and> n = sm_next sm + 1"
    and a: "a \<noteq> 0"
  shows "sm_inv (sm\<lparr>sm_allocated := (sm_allocated sm)[i := a], sm_pages := (sm_pages sm)[i := Some p], sm_next := n\<rparr>)" (is "sm_inv ?s")
proof -
  have l: "length (sm_pages sm) = sm_cap sm" "length (sm_allocated sm) = sm_cap sm" using inv by (simp_all add: sm_inv_def)
  have lt: "pg_bytes (the (sm_pages sm ! j)) < sm_next sm \<and> sm_pages sm ! j \<noteq> None" if "j < sm_cap sm" "sm_allocated sm ! j \<noteq> 0" for j
    using inv that unfolding sm_inv_def by fastforce
  have inj: "j = k" if "j < sm_cap sm" "k < sm_cap sm" "sm_allocated sm ! j \<noteq> 0" "sm_allocated sm ! k \<noteq> 0"
    "pg_bytes (the (sm_pages sm ! j)) = pg_bytes (the (sm_pages sm ! k))" for j k
    using inv that unfolding sm_inv_def by blast
  have pn: "pg_bytes p < n" "sm_next sm \<le> n" using b lt i by auto
  have np: "pg_bytes (the (sm_pages sm ! j)) \<noteq> pg_bytes p" if "j < sm_cap sm" "sm_allocated sm ! j \<noteq> 0" "j \<noteq> i" for j
    using b inj [OF that(1) i that(2)] lt [OF that(1,2)] that(3) by auto
  have ex: "\<exists>q. sm_pages ?s ! j = Some q \<and> pg_bytes q < n" if "j < sm_cap sm" "sm_allocated ?s ! j \<noteq> 0" for j
    using that lt [of j] pn l i by (cases "j = i") auto
  have un: "j = k" if "j < sm_cap sm" "k < sm_cap sm" "sm_allocated ?s ! j \<noteq> 0" "sm_allocated ?s ! k \<noteq> 0"
    "pg_bytes (the (sm_pages ?s ! j)) = pg_bytes (the (sm_pages ?s ! k))" for j k
    using that inj [of j k] np [of j] np [of k] l i by (cases "j = i"; cases "k = i") auto
  show ?thesis unfolding sm_inv_def using l ex un by simp
qed

lemma in_use_update:
  assumes "sm_inv sm" and "i < sm_cap sm" and "a \<noteq> 0"
  shows "in_use (sm\<lparr>sm_allocated := (sm_allocated sm)[i := a], sm_pages := (sm_pages sm)[i := Some p], sm_next := n\<rparr>)
    = in_use_but i sm \<union> (if pg_status p \<noteq> PAGE_STATUS_FREE then {pg_bytes p} else {})" (is "in_use ?s = _")
proof -
  have "length (sm_pages sm) = sm_cap sm" "length (sm_allocated sm) = sm_cap sm" using assms(1) by (simp_all add: sm_inv_def)
  moreover have "in_use_but i ?s = in_use_but i sm" by (rule in_use_but_cong) simp_all
  ultimately show ?thesis using assms(2,3) in_use_split [of i ?s] by auto
qed

lemma set_page_as_update:
  "sm_allocated sm ! i \<noteq> 0 \<Longrightarrow> set_page sm i p =
     sm\<lparr>sm_allocated := (sm_allocated sm)[i := sm_allocated sm ! i], sm_pages := (sm_pages sm)[i := Some p], sm_next := sm_next sm\<rparr>"
  by (simp add: set_page_def)

lemma set_page_inv:
  assumes "sm_inv sm" and "i < sm_cap sm" and "sm_allocated sm ! i \<noteq> 0" and "pg_bytes p = pg_bytes (the (sm_pages sm ! i))"
  shows "sm_inv (set_page sm i p)"
    and "in_use (set_page sm i p) = in_use_but i sm \<union> (if pg_status p \<noteq> PAGE_STATUS_FREE then {pg_bytes p} else {})"
  unfolding set_page_as_update [of sm i, OF assms(3)]
  using sm_inv_update [OF assms(1,2)] in_use_update [OF assms(1,2)] assms(3,4) by blast+

section \<open>The operations\<close>

text \<open>A page that is not handed out: not allocated, or free.\<close>

definition spare :: "shared_memory \<Rightarrow> nat \<Rightarrow> bool" where
  "spare sm i \<longleftrightarrow> sm_allocated sm ! i = 0 \<or> pg_status (the (sm_pages sm ! i)) = PAGE_STATUS_FREE"

lemma spare_in_use: "i < sm_cap sm \<Longrightarrow> spare sm i \<Longrightarrow> in_use sm = in_use_but i sm"
  using in_use_split [of i sm] by (auto simp: spare_def)

definition new_page :: "(ptr \<Rightarrow> u64) \<Rightarrow> shared_memory \<Rightarrow> u64 \<Rightarrow> page" where
  "new_page junk sm sz = \<lparr>pg_bytes = sm_next sm, pg_size = (if sz \<noteq> 0 then 2 * sz else sm_default sm),
     pg_status = junk (sm_next sm), pg_pending = 0\<rparr>"

lemma find_upt_cases:
  obtains "find P [0..<n] = None" "\<forall>i < n. \<not> P i" | i where "find P [0..<n] = Some i" "i < n" "P i"
  by (cases "find P [0..<n]") (auto simp: find_None_iff find_Some_iff)

lemma allocate_page_ok:
  assumes "sm_inv sm"
  obtains "shared_memory_allocate_page junk sm sz = Some (None, sm)" "\<forall>i < sm_cap sm. \<not> spare sm i"
  | i where "shared_memory_allocate_page junk sm sz = Some (Some i, sm\<lparr>sm_allocated := (sm_allocated sm)[i := 1],
      sm_pages := (sm_pages sm)[i := Some (new_page junk sm sz)], sm_next := sm_next sm + 1\<rparr>)" "i < sm_cap sm" "spare sm i"
proof -
  let ?U = "\<lambda>i. sm_allocated sm ! i = 0" and ?F = "\<lambda>i. sm_allocated sm ! i \<noteq> 0 \<and> pg_status (the (sm_pages sm ! i)) = PAGE_STATUS_FREE"
  have u: "next_unallocated_page sm = Some (find ?U [0..<sm_cap sm])"
    unfolding next_unallocated_page_def by (rule first_index_eq) (simp add: allocated_at_ok [OF assms])
  have f: "next_free_page sm = Some (find ?F [0..<sm_cap sm])"
    unfolding next_free_page_def by (rule first_index_eq) (simp add: allocated_with_ok [OF assms])
  show thesis
  proof (rule find_upt_cases [of ?U "sm_cap sm"])
    fix i assume "find ?U [0..<sm_cap sm] = Some i" "i < sm_cap sm" "?U i"
    then show thesis using that(2) [of i] u by (simp add: shared_memory_allocate_page_def new_page_def spare_def)
  next
    assume nu: "find ?U [0..<sm_cap sm] = None" "\<forall>i < sm_cap sm. \<not> ?U i"
    show thesis
    proof (rule find_upt_cases [of ?F "sm_cap sm"])
      fix i assume "find ?F [0..<sm_cap sm] = Some i" "i < sm_cap sm" "?F i"
      then show thesis using that(2) [of i] u f nu(1) by (simp add: shared_memory_allocate_page_def new_page_def spare_def)
    next
      assume "find ?F [0..<sm_cap sm] = None" "\<forall>i < sm_cap sm. \<not> ?F i"
      then show thesis using that(1) u f nu by (simp add: shared_memory_allocate_page_def spare_def)
    qed
  qed
qed

text \<open>What \<open>shared_memory_get_page\<close> promises its callers.\<close>

lemma get_page_ok:
  assumes inv: "sm_inv sm" and st: "st \<noteq> 0"
  obtains "shared_memory_get_page junk sm sz st = Some (None, sm)" "\<forall>i < sm_cap sm. \<not> spare sm i"
  | p sm' where "shared_memory_get_page junk sm sz st = Some (Some p, sm')" "sm_inv sm'" "sm_cap sm' = sm_cap sm"
    "pg_bytes p \<notin> in_use sm" "in_use sm' = insert (pg_bytes p) (in_use sm)" "p \<in> live_pages sm'"
    "sz < 2 ^ 63 \<Longrightarrow> sz \<le> pg_size p" "sm_next sm \<le> sm_next sm'"
proof -
  let ?G = "\<lambda>i. sm_allocated sm ! i \<noteq> 0 \<and> sz \<le> pg_size (the (sm_pages sm ! i)) \<and> pg_status (the (sm_pages sm ! i)) = PAGE_STATUS_FREE"
  have l: "length (sm_pages sm) = sm_cap sm" "length (sm_allocated sm) = sm_cap sm" using inv by (simp_all add: sm_inv_def)
  have "(ucast (ucast st :: u64) :: u8) = st" by (rule bit_word_eqI) (simp add: bit_simps)
  then have st': "(ucast st :: u64) \<noteq> PAGE_STATUS_FREE" using st by (metis PAGE_STATUS_FREE_def unsigned_0)
  obtain r where r: "last_index (allocated_with sm (\<lambda>p. sz \<le> pg_size p \<and> pg_status p = PAGE_STATUS_FREE)) [0..<sm_cap sm] None = Some r"
    "case r of None \<Rightarrow> \<forall>i < sm_cap sm. \<not> ?G i | Some i \<Rightarrow> i < sm_cap sm \<and> ?G i"
    using last_index_ok [of "[0..<sm_cap sm]" "allocated_with sm (\<lambda>p. sz \<le> pg_size p \<and> pg_status p = PAGE_STATUS_FREE)" ?G None]
    by (auto simp: allocated_with_ok [OF inv] split: option.splits)
  show thesis
  proof (cases r)
    case (Some i)
    then have i: "i < sm_cap sm" "?G i" using r(2) by simp_all
    obtain p where p: "page_at sm i = Some p" "sm_pages sm ! i = Some p" using page_at_ok [OF inv i(1)] i(2) by blast
    let ?p = "p\<lparr>pg_status := ucast st\<rparr>"
    have u: "in_use sm = in_use_but i sm" using spare_in_use [OF i(1)] i(2) by (simp add: spare_def)
    have e: "shared_memory_get_page junk sm sz st = Some (Some ?p, set_page sm i ?p)"
      using r(1) Some p(1) by (simp add: shared_memory_get_page_def Let_def)
    show thesis
    proof (rule that(2) [OF e])
      show "sm_inv (set_page sm i ?p)" "in_use (set_page sm i ?p) = insert (pg_bytes ?p) (in_use sm)"
        using set_page_inv [OF inv i(1), of ?p] i(2) p(2) st' u by simp_all
      show "pg_bytes ?p \<notin> in_use sm" using in_use_but_fresh [OF inv i(1) _ p(2)] i(2) u by simp
      show "?p \<in> live_pages (set_page sm i ?p)" using i l by (auto simp: live_pages_def set_page_def)
    qed (use i(2) p(2) in \<open>simp_all add: set_page_def\<close>)
  next
    case None
    show thesis
    proof (rule allocate_page_ok [OF inv, of junk sz])
      assume "shared_memory_allocate_page junk sm sz = Some (None, sm)" "\<forall>i < sm_cap sm. \<not> spare sm i"
      then show thesis using that(1) r(1) None by (simp add: shared_memory_get_page_def Let_def)
    next
      fix i
      let ?s = "sm\<lparr>sm_allocated := (sm_allocated sm)[i := 1], sm_pages := (sm_pages sm)[i := Some (new_page junk sm sz)], sm_next := sm_next sm + 1\<rparr>"
      let ?p = "(new_page junk sm sz)\<lparr>pg_status := ucast st\<rparr>"
      let ?s' = "sm\<lparr>sm_allocated := (sm_allocated sm)[i := 1], sm_pages := (sm_pages sm)[i := Some ?p], sm_next := sm_next sm + 1\<rparr>"
      assume a: "shared_memory_allocate_page junk sm sz = Some (Some i, ?s)" and i: "i < sm_cap sm" "spare sm i"
      have "page_at ?s i = Some (new_page junk sm sz)" using i(1) l by (simp add: page_at_def)
      moreover have "set_page ?s i ?p = ?s'" by (simp add: set_page_def)
      ultimately have e: "shared_memory_get_page junk sm sz st = Some (Some ?p, ?s')"
        using r(1) None a by (simp add: shared_memory_get_page_def Let_def)
      have b: "pg_bytes ?p = sm_next sm" by (simp add: new_page_def)
      have u: "in_use sm = in_use_but i sm" by (rule spare_in_use [OF i])
      show thesis
      proof (rule that(2) [OF e])
        show "sm_inv ?s'" by (rule sm_inv_update [OF inv i(1)]) (use b in simp_all)
        show "in_use ?s' = insert (pg_bytes ?p) (in_use sm)" using in_use_update [OF inv i(1), where a = 1 and p = ?p and n = "sm_next sm + 1"] st' u by simp
        show "pg_bytes ?p \<notin> in_use sm" using in_use_but_less [OF inv] u b by fastforce
        show "?p \<in> live_pages ?s'" using i(1) l by (auto simp: live_pages_def)
        show "sz \<le> pg_size ?p" if "sz < 2 ^ 63"
        proof -
          have "unat (2 * sz) = 2 * unat sz" using that by (simp add: unat_word_ariths word_less_nat_alt)
          then show ?thesis by (simp add: new_page_def word_le_nat_alt)
        qed
      qed simp_all
    qed
  qed
qed

lemma free_page_ok:
  assumes inv: "sm_inv sm"
  obtains sm' where "shared_memory_free_page sm a = Some sm'" "sm_inv sm'" "in_use sm' = in_use sm - {a}" "sm_cap sm' = sm_cap sm"
    "sm_next sm' = sm_next sm"
proof -
  let ?B = "\<lambda>i. sm_allocated sm ! i \<noteq> 0 \<and> pg_bytes (the (sm_pages sm ! i)) = a"
  have f: "shared_memory_index_of_allocated_page sm a = Some (find ?B [0..<sm_cap sm])"
    unfolding shared_memory_index_of_allocated_page_def by (rule first_index_eq) (simp add: allocated_with_ok [OF inv])
  show thesis
  proof (rule find_upt_cases [of ?B "sm_cap sm"])
    assume n: "find ?B [0..<sm_cap sm] = None" "\<forall>i < sm_cap sm. \<not> ?B i"
    have "a \<notin> in_use sm" using n(2) unfolding in_use_def live_pages_def by force
    then show thesis using that [of sm] f n(1) inv by (simp add: shared_memory_free_page_def)
  next
    fix i assume i: "find ?B [0..<sm_cap sm] = Some i" "i < sm_cap sm" "?B i"
    obtain p where p: "page_at sm i = Some p" "sm_pages sm ! i = Some p" using page_at_ok [OF inv i(2)] i(3) by blast
    let ?p = "p\<lparr>pg_status := PAGE_STATUS_FREE\<rparr>"
    have e: "shared_memory_free_page sm a = Some (set_page sm i ?p)" using f i(1) p(1) by (simp add: shared_memory_free_page_def)
    have "in_use sm - {a} = in_use_but i sm"
      using in_use_split [OF i(2)] in_use_but_fresh [OF inv i(2) _ p(2)] i(3) p(2) by auto
    then show thesis using that [OF e] set_page_inv [OF inv i(2), of ?p] i(3) p(2) by (simp add: set_page_def)
  qed
qed

section \<open>Setting up\<close>

text \<open>Five of the ten pages are allocated at once. Their status is whatever the memory held.\<close>

definition initial_memory :: "(ptr \<Rightarrow> u64) \<Rightarrow> shared_memory" where
  "initial_memory junk = \<lparr>sm_pages = map (\<lambda>a. Some \<lparr>pg_bytes = a, pg_size = 64, pg_status = junk a, pg_pending = 0\<rparr>) [0, 1, 2, 3, 4] @ replicate 5 None,
     sm_cap = 10, sm_allocated = [1, 1, 1, 1, 1, 0, 0, 0, 0, 0], sm_default = 64, sm_next = 5\<rparr>"

lemma shared_memory_init_eq: "shared_memory_init junk = Some (initial_memory junk)"
proof -
  have "MAX_N_PAGES div 2 = Suc (Suc (Suc (Suc (Suc 0))))" by (simp add: MAX_N_PAGES_def)
  then show ?thesis
    by (simp add: shared_memory_init_def initial_memory_def shared_memory_allocate_page_def next_unallocated_page_def allocated_at_def
      MAX_N_PAGES_def DEFAULT_PAGE_SIZE_def eval_nat_numeral)
qed

lemma initial_memory_inv: "sm_inv (initial_memory junk)"
  by (simp add: sm_inv_def initial_memory_def numeral_eq_Suc All_less_Suc)

lemma initial_memory_in_use: "in_use (initial_memory junk) = {a. a < 5 \<and> junk a \<noteq> PAGE_STATUS_FREE}"
proof -
  let ?p = "\<lambda>a. \<lparr>pg_bytes = a, pg_size = 64, pg_status = junk a, pg_pending = 0\<rparr>"
  have a: "sm_allocated (initial_memory junk) ! i \<noteq> 0 \<longleftrightarrow> i < 5" if "i < 10" for i
    using that by (auto simp: initial_memory_def numeral_eq_Suc less_Suc_eq)
  have b: "sm_pages (initial_memory junk) ! i = Some (?p i)" if "i < 5" for i
    using that by (auto simp: initial_memory_def numeral_eq_Suc less_Suc_eq)
  have "live_pages (initial_memory junk) = {p. \<exists>i < 10. i < 5 \<and> p = ?p i}"
    unfolding live_pages_def using a b by (auto simp: initial_memory_def)
  also have "\<dots> = ?p ` {..<5}" by auto
  finally have "in_use (initial_memory junk) = {a \<in> {..<5}. junk a \<noteq> PAGE_STATUS_FREE}" by (force simp: in_use_def image_iff)
  then show ?thesis by auto
qed

section \<open>Hash maps\<close>

lemma resize_sm_ok:
  assumes inv: "sm_inv sm" and wf: "hmap_wf (sm_map h)" and m: "low_mask m" and st: "st \<noteq> 0"
    and b: "set_option (sm_buckets h) \<subseteq> in_use sm"
  obtains h' sm' page_ok where "resize_sm junk h m sm st = Some (h', sm')" "resize page_ok (sm_map h) m = Some (sm_map h')"
    "sm_inv sm'" "in_use sm' = in_use sm - set_option (sm_buckets h) \<union> set_option (sm_buckets h')"
    "set_option (sm_buckets h') \<inter> (in_use sm - set_option (sm_buckets h)) = {}"
proof -
  have a: "m AND (m + 1) = 0" "m \<noteq> - 1" using low_mask_asserts [OF m] by simp_all
  obtain m' where m': "resize True (sm_map h) m = Some m'" using resize_wf [OF wf m, of True] by blast
  note goal = that
  have fin: thesis
    if s1: "sm_inv s1" "in_use s1 = in_use sm \<union> set_option bs" "set_option bs \<inter> in_use sm = {}"
      and e: "resize_sm junk h m sm st = do { s \<leftarrow> (case sm_buckets h of None \<Rightarrow> Some s1 | Some a \<Rightarrow> shared_memory_free_page s1 a);
          Some (\<lparr>sm_map = m', sm_buckets = bs\<rparr>, s) }" for s1 bs
  proof (cases "sm_buckets h")
    case None
    then show thesis using goal [where h' = "\<lparr>sm_map = m', sm_buckets = bs\<rparr>" and sm' = s1 and page_ok = True] e s1 m' by simp
  next
    case (Some a)
    obtain s2 where s2: "shared_memory_free_page s1 a = Some s2" "sm_inv s2" "in_use s2 = in_use s1 - {a}" by (rule free_page_ok [OF s1(1)])
    have "a \<notin> set_option bs" using b Some s1(3) by auto
    then show thesis
      using goal [where h' = "\<lparr>sm_map = m', sm_buckets = bs\<rparr>" and sm' = s2 and page_ok = True] e s1 s2 m' Some by auto
  qed
  show thesis
  proof (cases "m = 0")
    case True
    then show thesis using fin [OF inv, of None] a m' by (simp add: resize_sm_def)
  next
    case False
    show thesis
    proof (rule get_page_ok [OF inv st, of junk "8 * (m + 1)"])
      assume "shared_memory_get_page junk sm (8 * (m + 1)) st = Some (None, sm)"
      then have "resize_sm junk h m sm st = Some (h, sm)" using a False by (simp add: resize_sm_def)
      moreover have "resize False (sm_map h) m = Some (sm_map h)" using a False by (simp add: resize_def)
      ultimately show thesis using that [where h' = h and sm' = sm and page_ok = False] inv b by auto
    next
      fix p s1
      assume "shared_memory_get_page junk sm (8 * (m + 1)) st = Some (Some p, s1)" "sm_inv s1" "pg_bytes p \<notin> in_use sm"
        "in_use s1 = insert (pg_bytes p) (in_use sm)"
      then show thesis using fin [of s1 "Some (pg_bytes p)"] a False m' by (simp add: resize_sm_def)
    qed
  qed
qed

lemma hmap_insert_sm_ok:
  assumes inv: "sm_inv sm" and wf: "hmap_wf (sm_map h)" and st: "st \<noteq> 0" and b: "set_option (sm_buckets h) \<subseteq> in_use sm"
  obtains h' sm' page_ok where "hmap_insert_sm junk h x hash sm st = Some (h', sm')"
    "hmap_insert page_ok (sm_map h) x hash = Some (sm_map h')" "hmap_wf (sm_map h')"
    "hmap_nodes (sm_map h') = add_mset (hash, x) (hmap_nodes (sm_map h))"
    "sm_inv sm'" "in_use sm' = in_use sm - set_option (sm_buckets h) \<union> set_option (sm_buckets h')"
    "set_option (sm_buckets h') \<inter> (in_use sm - set_option (sm_buckets h)) = {}"
proof -
  let ?h = "h\<lparr>sm_map := hmap_insert_fast (sm_map h) x hash\<rparr>"
  let ?m = "calc_mask (of_nat (hn (sm_map ?h)))"
  have "\<exists>h' sm' page_ok. hmap_insert_sm junk h x hash sm st = Some (h', sm') \<and> hmap_insert page_ok (sm_map h) x hash = Some (sm_map h')
      \<and> sm_inv sm' \<and> in_use sm' = in_use sm - set_option (sm_buckets h) \<union> set_option (sm_buckets h')
      \<and> set_option (sm_buckets h') \<inter> (in_use sm - set_option (sm_buckets h)) = {}"
  proof (cases "hn (sm_map ?h) div 2 > unat (hmask (sm_map ?h)) \<and> ?m > hmask (sm_map ?h)")
    case False
    then have "hmap_insert_sm junk h x hash sm st = Some (?h, sm)" "hmap_insert True (sm_map h) x hash = Some (sm_map ?h)"
      by (auto simp: hmap_insert_sm_def hmap_insert_def hmap_expand_sm_def hmap_expand_def Let_def)
    then show ?thesis using inv b by (intro exI [of _ ?h] exI [of _ sm] exI [of _ True]) auto
  next
    case True
    have w: "hmap_wf (sm_map ?h)" "set_option (sm_buckets ?h) \<subseteq> in_use sm" using hmap_insert_fast_wf(1) [OF wf] b by simp_all
    obtain h' sm' page_ok where r: "resize_sm junk ?h ?m sm st = Some (h', sm')" "resize page_ok (sm_map ?h) ?m = Some (sm_map h')"
      "sm_inv sm'" "in_use sm' = in_use sm - set_option (sm_buckets ?h) \<union> set_option (sm_buckets h')"
      "set_option (sm_buckets h') \<inter> (in_use sm - set_option (sm_buckets ?h)) = {}"
      by (rule resize_sm_ok [OF inv w(1) calc_mask_low st w(2)])
    have "hmap_insert_sm junk h x hash sm st = Some (h', sm')" "hmap_insert page_ok (sm_map h) x hash = Some (sm_map h')"
      using True r(1,2) by (auto simp: hmap_insert_sm_def hmap_insert_def hmap_expand_sm_def hmap_expand_def Let_def)
    then show ?thesis using r(3-5) by (intro exI [of _ h'] exI [of _ sm'] exI [of _ page_ok]) simp
  qed
  then obtain h' sm' page_ok where r: "hmap_insert_sm junk h x hash sm st = Some (h', sm')" "hmap_insert page_ok (sm_map h) x hash = Some (sm_map h')"
      "sm_inv sm'" "in_use sm' = in_use sm - set_option (sm_buckets h) \<union> set_option (sm_buckets h')"
      "set_option (sm_buckets h') \<inter> (in_use sm - set_option (sm_buckets h)) = {}" by (elim exE conjE) (rule that)
  then show thesis using that [OF r(1,2) _ _ r(3-5)] hmap_insert_wf [OF wf, of page_ok x hash] by auto
qed

section \<open>Correctness\<close>

text \<open>C37: A page handed out by the shared memory was not in use, is marked as in use, and (for requests below half the address
  space) is large enough; freeing it gives it back and nothing else. Only when every page is in use is none
  handed out.\<close>

theorem shared_memory_pages:
  assumes "sm_inv sm" and "st \<noteq> 0"
  shows "\<exists>res sm'. shared_memory_get_page junk sm sz st = Some (res, sm') \<and> sm_inv sm' \<and> (case res of
      None \<Rightarrow> sm' = sm \<and> (\<forall>i < sm_cap sm. \<not> spare sm i)
    | Some p \<Rightarrow> pg_bytes p \<notin> in_use sm \<and> in_use sm' = insert (pg_bytes p) (in_use sm) \<and> (sz < 2 ^ 63 \<longrightarrow> sz \<le> pg_size p)
        \<and> (\<exists>sm''. shared_memory_free_page sm' (pg_bytes p) = Some sm'' \<and> sm_inv sm'' \<and> in_use sm'' = in_use sm))"
proof (rule get_page_ok [OF assms, of junk sz])
  fix p sm'
  assume g: "shared_memory_get_page junk sm sz st = Some (Some p, sm')" "sm_inv sm'" "pg_bytes p \<notin> in_use sm"
    "in_use sm' = insert (pg_bytes p) (in_use sm)" "sz < 2 ^ 63 \<Longrightarrow> sz \<le> pg_size p"
  obtain sm'' where "shared_memory_free_page sm' (pg_bytes p) = Some sm''" "sm_inv sm''" "in_use sm'' = in_use sm' - {pg_bytes p}"
    by (rule free_page_ok [OF g(2)])
  then show ?thesis using g by auto
qed (use assms(1) in simp)

theorem shared_memory_pages_witness:
  "\<exists>res sm'. shared_memory_get_page (\<lambda>_. 0) (initial_memory (\<lambda>_. 0)) 32 1 = Some (res, sm') \<and> sm_inv sm' \<and> (case res of
      None \<Rightarrow> sm' = initial_memory (\<lambda>_. 0) \<and> (\<forall>i < sm_cap (initial_memory (\<lambda>_. 0)). \<not> spare (initial_memory (\<lambda>_. 0)) i)
    | Some p \<Rightarrow> pg_bytes p \<notin> in_use (initial_memory (\<lambda>_. 0)) \<and> in_use sm' = insert (pg_bytes p) (in_use (initial_memory (\<lambda>_. 0)))
        \<and> (32 < (2 ^ 63 :: u64) \<longrightarrow> 32 \<le> pg_size p)
        \<and> (\<exists>sm''. shared_memory_free_page sm' (pg_bytes p) = Some sm'' \<and> sm_inv sm'' \<and> in_use sm'' = in_use (initial_memory (\<lambda>_. 0))))"
  by (rule shared_memory_pages [OF initial_memory_inv]) simp

end
