(* ===== verification/Cache.thy ===== *)
theory Cache
  imports OVS_List Shared_Memory Match
begin

text \<open>
  The cache of lookups in memory shared with the untrusted side: \<open>flow_map_cache\<close> of
  \<open>OFTonSGX/include/common.h\<close>, \<open>trusted/cache-trusted.c\<close> and \<open>.h\<close>, \<open>untrusted/cache-untrusted.c\<close>.

  Entries are objects at addresses; the address of the embedded list node is that of the entry, and
  \<open>lru_head\<close> is the address of the head of the eviction queue. The hash stored in the node of the
  map \<open>entries\<close> is \<open>ce_hash\<close>; a null rule is 0. The checksum lives in the enclave. The functions run
  under the spinlock of the cache and are sequential here. \<open>junk\<close> is the content of fresh memory, \<open>mem\<close>
  the untrusted memory that \<open>ut_cr_addr_hash\<close> reads.
\<close>

section \<open>State\<close>

record cls_cache_entry =
  ce_cr :: ut_ptr
  ce_hash :: u64
  ce_nr :: int

record flow_map_cache =
  fc_cap :: nat
  fc_entries :: "ptr sm_hmap"
  fc_lists :: list_store
  fc_ut_crs :: "ptr sm_hmap"
  fc_sm :: shared_memory
  fc_ces :: "ptr \<Rightarrow> cls_cache_entry"
  fc_checksum :: u64

definition MAX_CACHE_SIZE :: nat where "MAX_CACHE_SIZE = 5"
definition lru_head :: ptr where "lru_head = 0"
definition FLOW_CACHE_UPDATE_TYPE_INSERT :: int where "FLOW_CACHE_UPDATE_TYPE_INSERT = 0"
definition FLOW_CACHE_UPDATE_TYPE_DELETE :: int where "FLOW_CACHE_UPDATE_TYPE_DELETE = 1"

section \<open>Hashes\<close>

definition flow_map_cache_calculate_hash :: "flow \<Rightarrow> flow_wildcards option \<Rightarrow> int \<Rightarrow> int \<Rightarrow> u64" where
  "flow_map_cache_calculate_hash f wc bridge_id table_id =
     (case wc of Some w \<Rightarrow> ucast (flow_hash_in_minimask f (minimask_init w) 0) | None \<Rightarrow> flow_hash f 0)
     + of_int (bridge_id + table_id)"

text \<open>Eight bytes of the rule itself are hashed, not its address.\<close>

definition ut_cr_addr_hash :: "(ut_ptr \<Rightarrow> u8 list) \<Rightarrow> ut_ptr \<Rightarrow> u32" where
  "ut_cr_addr_hash mem ut_cr = hash_bytes (take 8 (mem ut_cr)) 0"

definition cache_entry_hash :: "cls_cache_entry \<Rightarrow> u32 \<Rightarrow> u32" where
  "cache_entry_hash ce basis = hash_int (ucast (ce_hash ce + ce_cr ce)) basis"

definition flow_map_cache_hash :: "flow_map_cache \<Rightarrow> u64 option" where
  "flow_map_cache_hash fc = do {
     es \<leftarrow> HMAP_FOR_EACH (sm_map (fc_entries fc));
     Some (fold (\<lambda>e hash. hash + ucast (cache_entry_hash (fc_ces fc e) 0)) es 0) }"

definition flow_map_cache_is_valid :: "flow_map_cache \<Rightarrow> bool option" where
  "flow_map_cache_is_valid fc = do { h \<leftarrow> flow_map_cache_hash fc; Some (h = fc_checksum fc) }"

definition flow_map_cache_update_hash :: "flow_map_cache \<Rightarrow> ptr \<Rightarrow> int \<Rightarrow> u64 option" where
  "flow_map_cache_update_hash fc e update_type =
     (let h = ucast (cache_entry_hash (fc_ces fc e) 0) in
      if update_type = FLOW_CACHE_UPDATE_TYPE_INSERT then Some (fc_checksum fc + h)
      else if update_type = FLOW_CACHE_UPDATE_TYPE_DELETE then Some (fc_checksum fc - h)
      else None)"

section \<open>Entries\<close>

definition remove_cache_entry :: "flow_map_cache \<Rightarrow> ptr \<Rightarrow> bool \<Rightarrow> flow_map_cache option" where
  "remove_cache_entry fc e update_lru_list = do {
     es \<leftarrow> hmap_remove_sm (fc_entries fc) e;
     us \<leftarrow> hmap_remove_sm (fc_ut_crs fc) e;
     ls \<leftarrow> (if update_lru_list then do { (s, _) \<leftarrow> list_remove (fc_lists fc) e; list_insert s lru_head e } else Some (fc_lists fc));
     Some (fc\<lparr>fc_entries := es, fc_ut_crs := us, fc_lists := ls, fc_ces := (fc_ces fc)(e := (fc_ces fc e)\<lparr>ce_cr := 0\<rparr>)\<rparr>) }"

definition insert_cache_entry :: "(ptr \<Rightarrow> u64) \<Rightarrow> flow_map_cache \<Rightarrow> ptr \<Rightarrow> u64 \<Rightarrow> flow_map_cache option" where
  "insert_cache_entry junk fc e hash = do {
     (es, sm) \<leftarrow> hmap_insert_sm junk (fc_entries fc) e hash (fc_sm fc) PAGE_STATUS_ALLOCATED;
     (us, sm) \<leftarrow> hmap_insert_sm junk (fc_ut_crs fc) e hash sm PAGE_STATUS_ALLOCATED;
     (s, _) \<leftarrow> list_remove (fc_lists fc) e;
     s \<leftarrow> list_push_back s lru_head e;
     let fc = fc\<lparr>fc_entries := es, fc_ut_crs := us, fc_sm := sm, fc_lists := s, fc_ces := (fc_ces fc)(e := (fc_ces fc e)\<lparr>ce_hash := hash\<rparr>)\<rparr>;
     c \<leftarrow> flow_map_cache_update_hash fc e FLOW_CACHE_UPDATE_TYPE_INSERT;
     Some (fc\<lparr>fc_checksum := c\<rparr>) }"

section \<open>Operations\<close>

definition flow_map_cache_remove_ut_cr :: "(ut_ptr \<Rightarrow> u8 list) \<Rightarrow> flow_map_cache \<Rightarrow> ut_ptr \<Rightarrow> flow_map_cache option" where
  "flow_map_cache_remove_ut_cr mem fc ut_cr =
     (case find (\<lambda>e. ce_cr (fc_ces fc e) = ut_cr) (HMAP_FOR_EACH_WITH_HASH (sm_map (fc_ut_crs fc)) (ucast (ut_cr_addr_hash mem ut_cr))) of
        None \<Rightarrow> Some fc
      | Some e \<Rightarrow> do {
          c \<leftarrow> flow_map_cache_update_hash fc e FLOW_CACHE_UPDATE_TYPE_DELETE;
          remove_cache_entry (fc\<lparr>fc_checksum := c\<rparr>) e True })"

text \<open>The loop over the eviction queue stops at its first entry. On an empty queue the code would take the
  head for an entry.\<close>

definition flow_map_cache_insert :: "(ptr \<Rightarrow> u64) \<Rightarrow> flow_map_cache \<Rightarrow> flow \<Rightarrow> flow_wildcards option \<Rightarrow> ut_ptr \<Rightarrow> int \<Rightarrow> int \<Rightarrow> flow_map_cache option" where
  "flow_map_cache_insert junk fc f wc ut_cr bridge_id table_id = do {
     e \<leftarrow> get_next (fc_lists fc) lru_head;
     if e = lru_head then None else do {
       fc \<leftarrow> (if ce_cr (fc_ces fc e) \<noteq> 0
         then do {
           c \<leftarrow> flow_map_cache_update_hash fc e FLOW_CACHE_UPDATE_TYPE_DELETE;
           remove_cache_entry (fc\<lparr>fc_checksum := c\<rparr>) e False }
         else Some fc);
       let fc = fc\<lparr>fc_ces := (fc_ces fc)(e := (fc_ces fc e)\<lparr>ce_cr := ut_cr\<rparr>)\<rparr>;
       insert_cache_entry junk fc e (flow_map_cache_calculate_hash f wc bridge_id table_id) } }"

definition flow_map_cache_insert_rule :: "(ptr \<Rightarrow> u64) \<Rightarrow> flow_map_cache \<Rightarrow> minimatch \<Rightarrow> ut_ptr \<Rightarrow> int \<Rightarrow> int \<Rightarrow> flow_map_cache option" where
  "flow_map_cache_insert_rule junk fc m ut_cr bridge_id table_id =
     flow_map_cache_insert junk fc (miniflow_expand (mm_flow m)) (Some (minimask_expand (mm_mask m))) ut_cr bridge_id table_id"

fun flush_entries :: "ptr list \<Rightarrow> flow_map_cache \<Rightarrow> flow_map_cache option" where
  "flush_entries [] fc = Some fc"
| "flush_entries (e # es) fc = do { fc \<leftarrow> remove_cache_entry fc e False; flush_entries es fc }"

definition flow_map_cache_flush :: "flow_map_cache \<Rightarrow> flow_map_cache option" where
  "flow_map_cache_flush fc = do {
     es \<leftarrow> HMAP_FOR_EACH (sm_map (fc_entries fc));
     fc \<leftarrow> flush_entries es fc;
     Some (fc\<lparr>fc_checksum := 0\<rparr>) }"

text \<open>The untrusted side: \<open>*ce\<close> is the result.\<close>

definition flow_map_cache_get_entry :: "flow_map_cache \<Rightarrow> flow \<Rightarrow> flow_wildcards option \<Rightarrow> int \<Rightarrow> int \<Rightarrow> (ptr option \<times> flow_map_cache) option" where
  "flow_map_cache_get_entry fc f wc bridge_id table_id =
     (case HMAP_FOR_EACH_WITH_HASH (sm_map (fc_entries fc)) (flow_map_cache_calculate_hash f wc bridge_id table_id) of
        [] \<Rightarrow> Some (None, fc)
      | e # _ \<Rightarrow> do {
          (s, _) \<leftarrow> list_remove (fc_lists fc) e;
          s \<leftarrow> list_push_back s lru_head e;
          Some (Some e, fc\<lparr>fc_lists := s\<rparr>) })"

text \<open>The entries are allocated at the addresses after that of the head; \<open>store\<close> and \<open>ces\<close> are the memory as
  it was.\<close>

fun init_entries :: "nat \<Rightarrow> nat \<Rightarrow> flow_map_cache \<Rightarrow> flow_map_cache option" where
  "init_entries 0 i fc = Some fc"
| "init_entries (Suc k) i fc = do {
     let e = lru_head + 1 + i;
     s \<leftarrow> list_insert (fc_lists fc) lru_head e;
     init_entries k (i + 1) (fc\<lparr>fc_lists := s, fc_ces := (fc_ces fc)(e := (fc_ces fc e)\<lparr>ce_cr := 0, ce_nr := int i\<rparr>)\<rparr>) }"

definition flow_map_cache_init :: "(ptr \<Rightarrow> u64) \<Rightarrow> list_store \<Rightarrow> (ptr \<Rightarrow> cls_cache_entry) \<Rightarrow> flow_map_cache option" where
  "flow_map_cache_init junk store ces = do {
     sm \<leftarrow> shared_memory_init junk;
     s \<leftarrow> list_init store lru_head;
     init_entries MAX_CACHE_SIZE 0 \<lparr>fc_cap = MAX_CACHE_SIZE, fc_entries = hmap_init_sm, fc_lists = s, fc_ut_crs = hmap_init_sm,
       fc_sm = sm, fc_ces = ces, fc_checksum = 0\<rparr> }"

section \<open>Invariant\<close>

text \<open>\<open>held fc us\<close>: both maps hold exactly the entries \<open>us\<close>, each under its hash, and their buckets are in
  different pages, both in use.\<close>

definition map_holds :: "flow_map_cache \<Rightarrow> ptr list \<Rightarrow> ptr sm_hmap \<Rightarrow> bool" where
  "map_holds fc us h \<longleftrightarrow> hmap_wf (sm_map h) \<and> hmap_nodes (sm_map h) = image_mset (\<lambda>e. (ce_hash (fc_ces fc e), e)) (mset us)"

definition pages_ok :: "flow_map_cache \<Rightarrow> bool" where
  "pages_ok fc \<longleftrightarrow> sm_inv (fc_sm fc) \<and> set_option (sm_buckets (fc_entries fc)) \<subseteq> in_use (fc_sm fc)
     \<and> set_option (sm_buckets (fc_ut_crs fc)) \<subseteq> in_use (fc_sm fc) \<and> set_option (sm_buckets (fc_entries fc)) \<inter> set_option (sm_buckets (fc_ut_crs fc)) = {}"

definition held :: "flow_map_cache \<Rightarrow> ptr list \<Rightarrow> bool" where
  "held fc us \<longleftrightarrow> distinct us \<and> map_holds fc us (fc_entries fc) \<and> map_holds fc us (fc_ut_crs fc) \<and> pages_ok fc"

definition used :: "flow_map_cache \<Rightarrow> ptr list \<Rightarrow> ptr list" where
  "used fc es = filter (\<lambda>e. ce_cr (fc_ces fc e) \<noteq> 0) es"

definition entry_sum :: "flow_map_cache \<Rightarrow> ptr list \<Rightarrow> u64" where
  "entry_sum fc us = sum_mset (image_mset (\<lambda>e. ucast (cache_entry_hash (fc_ces fc e) 0)) (mset us))"

text \<open>\<open>cache_inv fc es\<close>: the eviction queue holds the entries \<open>es\<close>, the next one to be evicted first; those with a
  rule are in the maps and in the checksum.\<close>

definition cache_inv :: "flow_map_cache \<Rightarrow> ptr list \<Rightarrow> bool" where
  "cache_inv fc es \<longleftrightarrow> is_list (fc_lists fc) lru_head es \<and> length es = fc_cap fc \<and> fc_cap fc > 0
     \<and> held fc (used fc es) \<and> fc_checksum fc = entry_sum fc (used fc es)"

text \<open>The cache as a list of slots in the order of their eviction.\<close>

definition slot :: "flow_map_cache \<Rightarrow> ptr \<Rightarrow> (u64 \<times> ut_ptr) option" where
  "slot fc e = (if ce_cr (fc_ces fc e) = 0 then None else Some (ce_hash (fc_ces fc e), ce_cr (fc_ces fc e)))"

definition slots :: "flow_map_cache \<Rightarrow> ptr list \<Rightarrow> (u64 \<times> ut_ptr) option list" where
  "slots fc es = map (slot fc) es"

section \<open>Taking an entry out and putting one in\<close>

lemma map_holds_cong:
  assumes "map_holds fc us h" and "mset us' = mset us" and "\<And>e. e \<in> set us \<Longrightarrow> ce_hash (fc_ces fc' e) = ce_hash (fc_ces fc e)"
  shows "map_holds fc' us' h"
proof -
  have "image_mset (\<lambda>e. (ce_hash (fc_ces fc' e), e)) (mset us') = image_mset (\<lambda>e. (ce_hash (fc_ces fc e), e)) (mset us)"
    unfolding assms(2) by (rule image_mset_cong) (use assms(3) in simp)
  then show ?thesis using assms(1) by (simp add: map_holds_def)
qed

lemma entry_sum_cong:
  assumes "mset us' = mset us" and "\<And>e. e \<in> set us \<Longrightarrow> fc_ces fc' e = fc_ces fc e"
  shows "entry_sum fc' us' = entry_sum fc us"
  unfolding entry_sum_def assms(1) by (rule arg_cong [where f = sum_mset], rule image_mset_cong) (use assms(2) in simp)

lemma map_holds_elems:
  assumes "map_holds fc us h"
  shows "mset (hmap_elems (sm_map h)) = mset us" and "distinct us \<Longrightarrow> distinct (hmap_elems (sm_map h))"
    and "set (hmap_elems (sm_map h)) = set us"
proof -
  show m: "mset (hmap_elems (sm_map h)) = mset us"
    using assms by (simp add: hmap_elems_nodes map_holds_def image_mset.compositionality comp_def)
  show "distinct us \<Longrightarrow> distinct (hmap_elems (sm_map h))" using mset_eq_imp_distinct_iff [OF m] by simp
  show "set (hmap_elems (sm_map h)) = set us" by (rule mset_eq_setD [OF m])
qed

lemma map_holds_remove:
  assumes h: "map_holds fc us h" and d: "distinct us" and e: "e \<in> set us"
  shows "\<exists>h'. hmap_remove_sm h e = Some h' \<and> sm_buckets h' = sm_buckets h \<and> map_holds fc (remove1 e us) h'"
proof -
  have "(ce_hash (fc_ces fc e), e) \<in># hmap_nodes (sm_map h)" using h e by (simp add: map_holds_def)
  from hmap_remove_wf [OF _ map_holds_elems(2) [OF h d] this] obtain m where
    "hmap_remove (sm_map h) e = Some m" "hmap_wf m" "hmap_nodes m = hmap_nodes (sm_map h) - {#(ce_hash (fc_ces fc e), e)#}"
    using h by (auto simp: map_holds_def)
  then show ?thesis using h e by (simp add: hmap_remove_sm_def map_holds_def image_mset_Diff)
qed

text \<open>An entry leaves both maps; the queue and the checksum are not touched.\<close>

lemma remove_entry_ok:
  assumes h: "held fc us" and e: "e \<in> set us"
  shows "\<exists>es ut. remove_cache_entry fc e False = Some (fc\<lparr>fc_entries := es, fc_ut_crs := ut, fc_ces := (fc_ces fc)(e := (fc_ces fc e)\<lparr>ce_cr := 0\<rparr>)\<rparr>)
    \<and> held (fc\<lparr>fc_entries := es, fc_ut_crs := ut, fc_ces := (fc_ces fc)(e := (fc_ces fc e)\<lparr>ce_cr := 0\<rparr>)\<rparr>) (remove1 e us)"
proof -
  have d: "distinct us" and m: "map_holds fc us (fc_entries fc)" "map_holds fc us (fc_ut_crs fc)" and p: "pages_ok fc"
    using h by (simp_all add: held_def)
  obtain es where es: "hmap_remove_sm (fc_entries fc) e = Some es" "sm_buckets es = sm_buckets (fc_entries fc)" "map_holds fc (remove1 e us) es"
    using map_holds_remove [OF m(1) d e] by blast
  obtain ut where ut: "hmap_remove_sm (fc_ut_crs fc) e = Some ut" "sm_buckets ut = sm_buckets (fc_ut_crs fc)" "map_holds fc (remove1 e us) ut"
    using map_holds_remove [OF m(2) d e] by blast
  let ?fc = "fc\<lparr>fc_entries := es, fc_ut_crs := ut, fc_ces := (fc_ces fc)(e := (fc_ces fc e)\<lparr>ce_cr := 0\<rparr>)\<rparr>"
  have "remove_cache_entry fc e False = Some ?fc" using es(1) ut(1) by (simp add: remove_cache_entry_def)
  moreover have "map_holds ?fc (remove1 e us) es" "map_holds ?fc (remove1 e us) ut"
    by (rule map_holds_cong [OF es(3)] map_holds_cong [OF ut(3)]; simp)+
  moreover have "pages_ok ?fc" using p es(2) ut(2) by (simp add: pages_ok_def)
  ultimately show ?thesis using d by (auto simp: held_def)
qed

lemma remove_entry_queue:
  "remove_cache_entry fc e True = do {
     fc \<leftarrow> remove_cache_entry fc e False;
     (s, _) \<leftarrow> list_remove (fc_lists fc) e;
     s \<leftarrow> list_push_back s lru_head e;
     Some (fc\<lparr>fc_lists := s\<rparr>) }"
  by (auto simp: remove_cache_entry_def list_push_back_def split: bind_splits)

lemma entry_sum_remove:
  assumes "distinct us" and "e \<in> set us" and "\<And>x. x \<in> set us \<Longrightarrow> x \<noteq> e \<Longrightarrow> fc_ces fc' x = fc_ces fc x"
  shows "entry_sum fc' (remove1 e us) = entry_sum fc us - ucast (cache_entry_hash (fc_ces fc e) 0)"
proof -
  have "entry_sum fc' (remove1 e us) = entry_sum fc (remove1 e us)" by (rule entry_sum_cong) (use assms in auto)
  moreover have "entry_sum fc us = ucast (cache_entry_hash (fc_ces fc e) 0) + entry_sum fc (remove1 e us)"
    unfolding entry_sum_def using assms(2) by (subst insert_DiffM [of e "mset us", symmetric]) (simp_all del: insert_DiffM)
  ultimately show ?thesis by simp
qed

lemma insert_entry_ok:
  assumes h: "held fc us" and e: "e \<notin> set us" and l: "is_list (fc_lists fc) lru_head (xs @ e # ys)"
    and c: "fc_checksum fc = entry_sum fc us"
  obtains fc' where "insert_cache_entry junk fc e hash = Some fc'" "held fc' (us @ [e])" "is_list (fc_lists fc') lru_head (xs @ ys @ [e])"
    "fc_ces fc' = (fc_ces fc)(e := (fc_ces fc e)\<lparr>ce_hash := hash\<rparr>)" "fc_cap fc' = fc_cap fc" "fc_checksum fc' = entry_sum fc' (us @ [e])"
proof -
  have d: "distinct us" and m: "map_holds fc us (fc_entries fc)" "map_holds fc us (fc_ut_crs fc)" and p: "pages_ok fc"
    using h by (simp_all add: held_def)
  have st: "PAGE_STATUS_ALLOCATED \<noteq> 0" by (simp add: PAGE_STATUS_ALLOCATED_def)
  have p': "sm_inv (fc_sm fc)" "set_option (sm_buckets (fc_entries fc)) \<subseteq> in_use (fc_sm fc)"
    "set_option (sm_buckets (fc_ut_crs fc)) \<subseteq> in_use (fc_sm fc)" "set_option (sm_buckets (fc_entries fc)) \<inter> set_option (sm_buckets (fc_ut_crs fc)) = {}"
    using p by (simp_all add: pages_ok_def)
  obtain es sm1 where es: "hmap_insert_sm junk (fc_entries fc) e hash (fc_sm fc) PAGE_STATUS_ALLOCATED = Some (es, sm1)" "hmap_wf (sm_map es)"
    "hmap_nodes (sm_map es) = add_mset (hash, e) (hmap_nodes (sm_map (fc_entries fc)))" "sm_inv sm1"
    "in_use sm1 = in_use (fc_sm fc) - set_option (sm_buckets (fc_entries fc)) \<union> set_option (sm_buckets es)"
    "set_option (sm_buckets es) \<inter> (in_use (fc_sm fc) - set_option (sm_buckets (fc_entries fc))) = {}"
    by (rule hmap_insert_sm_ok [OF p'(1) _ st p'(2)]) (use m(1) in \<open>simp_all add: map_holds_def\<close>)
  have u1: "set_option (sm_buckets (fc_ut_crs fc)) \<subseteq> in_use sm1" using es(5) p'(3,4) by auto
  obtain ut sm2 where ut: "hmap_insert_sm junk (fc_ut_crs fc) e hash sm1 PAGE_STATUS_ALLOCATED = Some (ut, sm2)" "hmap_wf (sm_map ut)"
    "hmap_nodes (sm_map ut) = add_mset (hash, e) (hmap_nodes (sm_map (fc_ut_crs fc)))" "sm_inv sm2"
    "in_use sm2 = in_use sm1 - set_option (sm_buckets (fc_ut_crs fc)) \<union> set_option (sm_buckets ut)"
    "set_option (sm_buckets ut) \<inter> (in_use sm1 - set_option (sm_buckets (fc_ut_crs fc))) = {}"
    by (rule hmap_insert_sm_ok [OF es(4) _ st u1]) (use m(2) in \<open>simp_all add: map_holds_def\<close>)
  obtain s1 n s2 where s: "list_remove (fc_lists fc) e = Some (s1, n)" "list_push_back s1 lru_head e = Some s2" "is_list s2 lru_head (xs @ ys @ [e])"
    using ovs_list.move_to_back [OF l] by blast
  let ?f = "fc\<lparr>fc_entries := es, fc_ut_crs := ut, fc_sm := sm2, fc_lists := s2, fc_ces := (fc_ces fc)(e := (fc_ces fc e)\<lparr>ce_hash := hash\<rparr>)\<rparr>"
  let ?c = "fc_checksum fc + ucast (cache_entry_hash (fc_ces ?f e) 0)"
  have i: "insert_cache_entry junk fc e hash = Some (?f\<lparr>fc_checksum := ?c\<rparr>)"
    using es(1) ut(1) s(1,2) by (simp add: insert_cache_entry_def flow_map_cache_update_hash_def Let_def)
  have mh: "map_holds (?f\<lparr>fc_checksum := ?c\<rparr>) (us @ [e]) h'"
    if "map_holds fc us h" "hmap_wf (sm_map h')" "hmap_nodes (sm_map h') = add_mset (hash, e) (hmap_nodes (sm_map h))" for h h'
    using that e by (auto simp: map_holds_def intro!: image_mset_cong)
  have b: "set_option (sm_buckets es) \<inter> set_option (sm_buckets (fc_ut_crs fc)) = {}" using es(6) p'(3,4) by auto
  have "pages_ok (?f\<lparr>fc_checksum := ?c\<rparr>)"
    unfolding pages_ok_def using ut(4,5,6) es(5) b by auto
  then have hd: "held (?f\<lparr>fc_checksum := ?c\<rparr>) (us @ [e])" using mh [OF m(1) es(2,3)] mh [OF m(2) ut(2,3)] d e by (simp add: held_def)
  have "entry_sum (?f\<lparr>fc_checksum := ?c\<rparr>) us = entry_sum fc us" by (rule entry_sum_cong) (use e in auto)
  then have "?c = entry_sum (?f\<lparr>fc_checksum := ?c\<rparr>) (us @ [e])" using c by (simp add: entry_sum_def)
  then show thesis using that [OF i hd] s(3) by simp
qed

section \<open>The operations on slots\<close>

lemma slot_None: "slot fc e = None \<longleftrightarrow> ce_cr (fc_ces fc e) = 0"
  by (simp add: slot_def)

lemma slot_Some: "slot fc e = Some (h, c) \<longleftrightarrow> c \<noteq> 0 \<and> ce_cr (fc_ces fc e) = c \<and> ce_hash (fc_ces fc e) = h"
  by (auto simp: slot_def)

lemma used_cong: "(\<And>e. e \<in> set es \<Longrightarrow> fc_ces fc' e = fc_ces fc e) \<Longrightarrow> used fc' es = used fc es"
  unfolding used_def by (rule filter_cong) simp_all

lemma slots_cong: "(\<And>e. e \<in> set es \<Longrightarrow> fc_ces fc' e = fc_ces fc e) \<Longrightarrow> slots fc' es = slots fc es"
  by (simp add: slots_def slot_def)

lemma held_cong:
  assumes "held fc us" and "mset us' = mset us" and "fc_entries fc' = fc_entries fc" and "fc_ut_crs fc' = fc_ut_crs fc"
    and "fc_sm fc' = fc_sm fc" and "\<And>e. e \<in> set us \<Longrightarrow> ce_hash (fc_ces fc' e) = ce_hash (fc_ces fc e)"
  shows "held fc' us'"
proof -
  have "distinct us'" using assms(1,2) mset_eq_imp_distinct_iff by (auto simp: held_def)
  moreover have "map_holds fc' us' (fc_entries fc')" "map_holds fc' us' (fc_ut_crs fc')"
    using assms(1) unfolding held_def assms(3,4) by (auto intro: map_holds_cong [OF _ assms(2,6)])
  moreover have "pages_ok fc'" using assms(1,3-5) by (simp add: held_def pages_ok_def)
  ultimately show ?thesis by (simp add: held_def)
qed

lemma cache_inv_intro:
  assumes "is_list (fc_lists fc) lru_head es" and "length es = fc_cap fc" and "fc_cap fc > 0" and "held fc us"
    and "mset (used fc es) = mset us" and "fc_checksum fc = entry_sum fc us"
  shows "cache_inv fc es"
  using assms held_cong [OF assms(4,5)] entry_sum_cong [OF assms(5), of fc fc] by (simp add: cache_inv_def)

lemma in_used: "e \<in> set (used fc es) \<longleftrightarrow> e \<in> set es \<and> ce_cr (fc_ces fc e) \<noteq> 0"
  by (auto simp: used_def)

lemma used_split:
  assumes "distinct (xs @ e # ys)" and "ce_cr (fc_ces fc e) \<noteq> 0"
  shows "remove1 e (used fc (xs @ e # ys)) = used fc (xs @ ys)"
  using assms by (simp add: used_def remove1_append)

lemma insert_ok:
  assumes inv: "cache_inv fc (e # es)" and c: "ut_cr \<noteq> 0"
  shows "\<exists>fc'. flow_map_cache_insert junk fc f wc ut_cr b t = Some fc' \<and> cache_inv fc' (es @ [e])
    \<and> slots fc' (es @ [e]) = slots fc es @ [Some (flow_map_cache_calculate_hash f wc b t, ut_cr)]"
proof -
  let ?h = "flow_map_cache_calculate_hash f wc b t"
  have l: "is_list (fc_lists fc) lru_head (e # es)" and n: "Suc (length es) = fc_cap fc" and hu: "held fc (used fc (e # es))"
    and ck: "fc_checksum fc = entry_sum fc (used fc (e # es))"
    using inv by (simp_all add: cache_inv_def)
  have g: "get_next (fc_lists fc) lru_head = Some e" using is_list_ends [OF l] by simp
  have de: "distinct (e # es)" "e \<noteq> lru_head" using l by (auto simp: is_list_def)
  have "\<exists>fc1. (if ce_cr (fc_ces fc e) \<noteq> 0 then do { c \<leftarrow> flow_map_cache_update_hash fc e FLOW_CACHE_UPDATE_TYPE_DELETE;
           remove_cache_entry (fc\<lparr>fc_checksum := c\<rparr>) e False } else Some fc) = Some fc1
      \<and> held fc1 (used fc es) \<and> fc_checksum fc1 = entry_sum fc1 (used fc es) \<and> fc_lists fc1 = fc_lists fc \<and> fc_cap fc1 = fc_cap fc
      \<and> (\<forall>x. x \<noteq> e \<longrightarrow> fc_ces fc1 x = fc_ces fc x)"
  proof (cases "ce_cr (fc_ces fc e) = 0")
    case True
    then have "used fc (e # es) = used fc es" by (simp add: used_def)
    with True hu ck show ?thesis by simp
  next
    case False
    let ?c = "fc_checksum fc - ucast (cache_entry_hash (fc_ces fc e) 0)"
    have e: "e \<in> set (used fc (e # es))" using False by (simp add: in_used)
    have h1: "held (fc\<lparr>fc_checksum := ?c\<rparr>) (used fc (e # es))" by (rule held_cong [OF hu]) simp_all
    have r: "remove1 e (used fc (e # es)) = used fc es" using used_split [of "[]" e es fc] de(1) False by simp
    obtain es' ut where m: "remove_cache_entry (fc\<lparr>fc_checksum := ?c\<rparr>) e False = Some (fc\<lparr>fc_checksum := ?c, fc_entries := es', fc_ut_crs := ut,
        fc_ces := (fc_ces fc)(e := (fc_ces fc e)\<lparr>ce_cr := 0\<rparr>)\<rparr>)" (is "_ = Some ?f")
      "held (fc\<lparr>fc_checksum := ?c, fc_entries := es', fc_ut_crs := ut, fc_ces := (fc_ces fc)(e := (fc_ces fc e)\<lparr>ce_cr := 0\<rparr>)\<rparr>) (used fc es)"
      using remove_entry_ok [OF h1 e] unfolding r by auto
    have "entry_sum ?f (used fc es) = ?c" using entry_sum_remove [OF _ e, of ?f fc] hu ck unfolding r held_def by simp
    then show ?thesis using False m
      by (simp add: flow_map_cache_update_hash_def FLOW_CACHE_UPDATE_TYPE_DELETE_def FLOW_CACHE_UPDATE_TYPE_INSERT_def)
  qed
  then obtain fc1 where f1: "(if ce_cr (fc_ces fc e) \<noteq> 0 then do { c \<leftarrow> flow_map_cache_update_hash fc e FLOW_CACHE_UPDATE_TYPE_DELETE;
           remove_cache_entry (fc\<lparr>fc_checksum := c\<rparr>) e False } else Some fc) = Some fc1"
      "held fc1 (used fc es)" "fc_checksum fc1 = entry_sum fc1 (used fc es)" "fc_lists fc1 = fc_lists fc" "fc_cap fc1 = fc_cap fc"
      "\<forall>x. x \<noteq> e \<longrightarrow> fc_ces fc1 x = fc_ces fc x" by (elim exE conjE) (rule that)
  let ?f = "fc1\<lparr>fc_ces := (fc_ces fc1)(e := (fc_ces fc1 e)\<lparr>ce_cr := ut_cr\<rparr>)\<rparr>"
  have eu: "e \<notin> set (used fc es)" using de(1) by (simp add: in_used)
  obtain fc2 where f2: "insert_cache_entry junk ?f e ?h = Some fc2" "held fc2 (used fc es @ [e])" "is_list (fc_lists fc2) lru_head (es @ [e])"
    "fc_ces fc2 = (fc_ces ?f)(e := (fc_ces ?f e)\<lparr>ce_hash := ?h\<rparr>)" "fc_cap fc2 = fc_cap ?f" "fc_checksum fc2 = entry_sum fc2 (used fc es @ [e])"
  proof (rule insert_entry_ok [of ?f "used fc es" e "[]" es junk ?h])
    show "held ?f (used fc es)" by (rule held_cong [OF f1(2)]) simp_all
    show "fc_checksum ?f = entry_sum ?f (used fc es)"
    proof -
      have "fc_ces ?f x = fc_ces fc1 x" if "x \<in> set (used fc es)" for x using that eu by auto
      then show ?thesis using f1(3) entry_sum_cong [of "used fc es" "used fc es" ?f fc1] by simp
    qed
  qed (use l f1(4) eu in simp_all)
  have same: "fc_ces fc2 x = fc_ces fc x" if "x \<in> set es" for x using that de(1) f1(6) f2(4) by auto
  have new: "ce_cr (fc_ces fc2 e) = ut_cr" "ce_hash (fc_ces fc2 e) = ?h" using f2(4) by simp_all
  have "cache_inv fc2 (es @ [e])"
    by (rule cache_inv_intro [OF f2(3) _ _ f2(2) _ f2(6)])
      (use n f1(5) f2(5) new(1) c used_cong [of es fc2 fc] same in \<open>simp_all add: used_def\<close>)
  moreover have "slots fc2 (es @ [e]) = slots fc es @ [Some (?h, ut_cr)]"
    using slots_cong [of es fc2 fc] same new c by (simp add: slots_def slot_def)
  moreover have "flow_map_cache_insert junk fc f wc ut_cr b t = Some fc2"
    using f1(1) f2(1) g de(2) by (simp add: flow_map_cache_insert_def Let_def)
  ultimately show ?thesis by blast
qed

lemma touched:
  assumes inv: "cache_inv fc (xs @ e # ys)"
  shows "\<exists>s1 n s2. list_remove (fc_lists fc) e = Some (s1, n) \<and> list_push_back s1 lru_head e = Some s2
    \<and> cache_inv (fc\<lparr>fc_lists := s2\<rparr>) (xs @ ys @ [e]) \<and> slots (fc\<lparr>fc_lists := s2\<rparr>) (xs @ ys @ [e]) = slots fc (xs @ ys @ [e])"
proof -
  have l: "is_list (fc_lists fc) lru_head (xs @ e # ys)" using inv by (simp add: cache_inv_def)
  obtain s1 n s2 where s: "list_remove (fc_lists fc) e = Some (s1, n)" "list_push_back s1 lru_head e = Some s2" "is_list s2 lru_head (xs @ ys @ [e])"
    using ovs_list.move_to_back [OF l] by blast
  have "held (fc\<lparr>fc_lists := s2\<rparr>) (used fc (xs @ e # ys))" by (rule held_cong [of fc]) (use inv in \<open>simp_all add: cache_inv_def\<close>)
  then have "cache_inv (fc\<lparr>fc_lists := s2\<rparr>) (xs @ ys @ [e])"
    by (rule cache_inv_intro [rotated 3]) (use inv s(3) in \<open>auto simp: cache_inv_def used_def entry_sum_def\<close>)
  then show ?thesis using s by (auto simp: slots_def slot_def)
qed

lemma with_hash_used:
  assumes "cache_inv fc es"
  shows "e \<in> set (HMAP_FOR_EACH_WITH_HASH (sm_map (fc_entries fc)) h) \<longleftrightarrow> e \<in> set (used fc es) \<and> ce_hash (fc_ces fc e) = h"
    and "e \<in> set (HMAP_FOR_EACH_WITH_HASH (sm_map (fc_ut_crs fc)) h) \<longleftrightarrow> e \<in> set (used fc es) \<and> ce_hash (fc_ces fc e) = h"
  using assms set_with_hash [of "sm_map (fc_entries fc)" e h] set_with_hash [of "sm_map (fc_ut_crs fc)" e h]
  by (auto simp: cache_inv_def held_def map_holds_def)

lemma get_entry_ok:
  fixes f wc b t
  assumes inv: "cache_inv fc es"
  defines "h \<equiv> flow_map_cache_calculate_hash f wc b t"
  shows "(flow_map_cache_get_entry fc f wc b t = Some (None, fc) \<and> (\<forall>c. Some (h, c) \<notin> set (slots fc es)))
    \<or> (\<exists>xs e ys fc' c. es = xs @ e # ys \<and> flow_map_cache_get_entry fc f wc b t = Some (Some e, fc') \<and> slot fc' e = Some (h, c)
        \<and> slot fc e = Some (h, c) \<and> cache_inv fc' (xs @ ys @ [e]) \<and> slots fc' (xs @ ys @ [e]) = slots fc (xs @ ys @ [e]))"
proof (cases "HMAP_FOR_EACH_WITH_HASH (sm_map (fc_entries fc)) h")
  case Nil
  then have "\<not> (e \<in> set (used fc es) \<and> ce_hash (fc_ces fc e) = h)" for e using with_hash_used(1) [OF inv, of e h] by simp
  then have "\<forall>c. Some (h, c) \<notin> set (slots fc es)" by (force simp: slots_def slot_def in_used split: if_splits)
  with Nil show ?thesis by (simp add: flow_map_cache_get_entry_def h_def)
next
  case (Cons e rest)
  then have e: "e \<in> set es" "ce_cr (fc_ces fc e) \<noteq> 0" "ce_hash (fc_ces fc e) = h"
    using with_hash_used(1) [OF inv, of e h] by (simp_all add: in_used)
  obtain xs ys where es: "es = xs @ e # ys" using split_list [OF e(1)] by blast
  obtain s1 n s2 where s: "list_remove (fc_lists fc) e = Some (s1, n)" "list_push_back s1 lru_head e = Some s2"
    "cache_inv (fc\<lparr>fc_lists := s2\<rparr>) (xs @ ys @ [e])" "slots (fc\<lparr>fc_lists := s2\<rparr>) (xs @ ys @ [e]) = slots fc (xs @ ys @ [e])"
    using touched [of fc xs e ys] inv unfolding es by blast
  have "flow_map_cache_get_entry fc f wc b t = Some (Some e, fc\<lparr>fc_lists := s2\<rparr>)"
    using Cons s(1,2) by (simp add: flow_map_cache_get_entry_def h_def)
  moreover have "slot fc e = Some (h, ce_cr (fc_ces fc e))" "slot (fc\<lparr>fc_lists := s2\<rparr>) e = Some (h, ce_cr (fc_ces fc e))"
    using e by (simp_all add: slot_def)
  ultimately show ?thesis using es s(3,4) by blast
qed

lemma remove_ut_cr_ok:
  fixes mem ut_cr
  assumes inv: "cache_inv fc es"
  defines "h \<equiv> ucast (ut_cr_addr_hash mem ut_cr)"
  shows "(flow_map_cache_remove_ut_cr mem fc ut_cr = Some fc \<and> (ut_cr \<noteq> 0 \<longrightarrow> Some (h, ut_cr) \<notin> set (slots fc es)))
    \<or> (\<exists>xs e ys fc'. es = xs @ e # ys \<and> flow_map_cache_remove_ut_cr mem fc ut_cr = Some fc' \<and> slot fc e = Some (h, ut_cr)
        \<and> cache_inv fc' (xs @ ys @ [e]) \<and> slots fc' (xs @ ys @ [e]) = slots fc (xs @ ys) @ [None])"
proof (cases "find (\<lambda>e. ce_cr (fc_ces fc e) = ut_cr) (HMAP_FOR_EACH_WITH_HASH (sm_map (fc_ut_crs fc)) h)")
  case None
  then have n: "\<not> (e \<in> set (used fc es) \<and> ce_hash (fc_ces fc e) = h \<and> ce_cr (fc_ces fc e) = ut_cr)" for e
    using with_hash_used(2) [OF inv, of e h] by (auto simp: find_None_iff)
  then have "Some (h, ut_cr) \<notin> set (slots fc es)" by (force simp: slots_def slot_def in_used split: if_splits)
  with None show ?thesis by (simp add: flow_map_cache_remove_ut_cr_def h_def)
next
  case (Some e)
  then have "e \<in> set (HMAP_FOR_EACH_WITH_HASH (sm_map (fc_ut_crs fc)) h)" and c: "ce_cr (fc_ces fc e) = ut_cr"
    by (auto dest: find_SomeD)
  then have e: "e \<in> set (used fc es)" "ce_hash (fc_ces fc e) = h" using with_hash_used(2) [OF inv, of e h] by simp_all
  then have e': "e \<in> set es" "ut_cr \<noteq> 0" using c by (simp_all add: in_used)
  obtain xs ys where es: "es = xs @ e # ys" using split_list [OF e'(1)] by blast
  have l: "is_list (fc_lists fc) lru_head (xs @ e # ys)" and n: "length es = fc_cap fc" "fc_cap fc > 0"
    and hu: "held fc (used fc es)" and ck: "fc_checksum fc = entry_sum fc (used fc es)"
    using inv es by (simp_all add: cache_inv_def)
  have d: "distinct (xs @ e # ys)" using l by (simp add: is_list_def)
  let ?c = "fc_checksum fc - ucast (cache_entry_hash (fc_ces fc e) 0)"
  have h1: "held (fc\<lparr>fc_checksum := ?c\<rparr>) (used fc es)" by (rule held_cong [OF hu]) simp_all
  have r: "remove1 e (used fc es) = used fc (xs @ ys)" unfolding es by (rule used_split) (use d c e'(2) in simp_all)
  obtain es' ut where m: "remove_cache_entry (fc\<lparr>fc_checksum := ?c\<rparr>) e False = Some (fc\<lparr>fc_checksum := ?c, fc_entries := es', fc_ut_crs := ut,
      fc_ces := (fc_ces fc)(e := (fc_ces fc e)\<lparr>ce_cr := 0\<rparr>)\<rparr>)" (is "_ = Some ?f")
    "held (fc\<lparr>fc_checksum := ?c, fc_entries := es', fc_ut_crs := ut, fc_ces := (fc_ces fc)(e := (fc_ces fc e)\<lparr>ce_cr := 0\<rparr>)\<rparr>) (used fc (xs @ ys))"
    using remove_entry_ok [OF h1 e(1)] unfolding r by auto
  have sum: "entry_sum ?f (used fc (xs @ ys)) = ?c" using entry_sum_remove [OF _ e(1), of ?f fc] hu ck unfolding r held_def by simp
  have same: "fc_ces ?f x = fc_ces fc x" if "x \<in> set (xs @ ys)" for x using that d by auto
  have u: "used ?f (xs @ e # ys) = used fc (xs @ ys)" using used_cong [of "xs @ ys" ?f fc] same by (simp add: used_def)
  have i: "cache_inv ?f (xs @ e # ys)"
    by (rule cache_inv_intro [OF _ _ _ m(2)]) (use l n sum u es in simp_all)
  obtain s1 k s2 where s: "list_remove (fc_lists ?f) e = Some (s1, k)" "list_push_back s1 lru_head e = Some s2"
    "cache_inv (?f\<lparr>fc_lists := s2\<rparr>) (xs @ ys @ [e])" "slots (?f\<lparr>fc_lists := s2\<rparr>) (xs @ ys @ [e]) = slots ?f (xs @ ys @ [e])"
    using touched [OF i] by blast
  have "flow_map_cache_remove_ut_cr mem fc ut_cr = Some (?f\<lparr>fc_lists := s2\<rparr>)"
    using Some m(1) s(1,2) unfolding flow_map_cache_remove_ut_cr_def h_def
    by (simp add: remove_entry_queue flow_map_cache_update_hash_def FLOW_CACHE_UPDATE_TYPE_DELETE_def FLOW_CACHE_UPDATE_TYPE_INSERT_def)
  moreover have "slots (?f\<lparr>fc_lists := s2\<rparr>) (xs @ ys @ [e]) = slots fc (xs @ ys) @ [None]"
    unfolding s(4) using slots_cong [of "xs @ ys" ?f fc] same by (simp add: slots_def slot_None)
  moreover have "slot fc e = Some (h, ut_cr)" using c e'(2) e(2) by (simp add: slot_Some)
  ultimately show ?thesis using es s(3) by blast
qed

lemma flush_entries_ok:
  assumes "held fc us" and "mset xs = mset us"
  shows "\<exists>fc'. flush_entries xs fc = Some fc' \<and> held fc' [] \<and> fc_lists fc' = fc_lists fc \<and> fc_cap fc' = fc_cap fc
    \<and> fc_ces fc' = (\<lambda>e. if e \<in> set xs then (fc_ces fc e)\<lparr>ce_cr := 0\<rparr> else fc_ces fc e)"
  using assms
proof (induction xs arbitrary: fc us)
  case Nil
  then show ?case by simp
next
  case (Cons x xs)
  have x: "x \<in> set us" using mset_eq_setD [OF Cons.prems(2)] by auto
  have "x \<notin> set xs" using mset_eq_imp_distinct_iff [OF Cons.prems(2)] Cons.prems(1) by (simp add: held_def)
  obtain es ut where m: "remove_cache_entry fc x False = Some (fc\<lparr>fc_entries := es, fc_ut_crs := ut, fc_ces := (fc_ces fc)(x := (fc_ces fc x)\<lparr>ce_cr := 0\<rparr>)\<rparr>)"
    "held (fc\<lparr>fc_entries := es, fc_ut_crs := ut, fc_ces := (fc_ces fc)(x := (fc_ces fc x)\<lparr>ce_cr := 0\<rparr>)\<rparr>) (remove1 x us)"
    using remove_entry_ok [OF Cons.prems(1) x] by blast
  have "mset xs = mset (remove1 x us)" using Cons.prems(2) by (metis add_mset_remove_trivial mset.simps(2) mset_remove1)
  from Cons.IH [OF m(2) this] m(1) \<open>x \<notin> set xs\<close> show ?case by (auto simp: fun_eq_iff)
qed

lemma flush_ok_cache:
  assumes inv: "cache_inv fc es"
  shows "\<exists>fc'. flow_map_cache_flush fc = Some fc' \<and> cache_inv fc' es \<and> slots fc' es = map (\<lambda>_. None) es"
proof -
  have hu: "held fc (used fc es)" and l: "is_list (fc_lists fc) lru_head es" and n: "length es = fc_cap fc" "fc_cap fc > 0"
    using inv by (simp_all add: cache_inv_def)
  have m: "map_holds fc (used fc es) (fc_entries fc)" using hu by (simp add: held_def)
  have fe: "HMAP_FOR_EACH (sm_map (fc_entries fc)) = Some (hmap_elems (sm_map (fc_entries fc)))"
    by (rule HMAP_FOR_EACH_elems) (use m in \<open>simp add: map_holds_def\<close>)
  obtain fc1 where f1: "flush_entries (hmap_elems (sm_map (fc_entries fc))) fc = Some fc1" "held fc1 []" "fc_lists fc1 = fc_lists fc"
    "fc_cap fc1 = fc_cap fc" "fc_ces fc1 = (\<lambda>e. if e \<in> set (used fc es) then (fc_ces fc e)\<lparr>ce_cr := 0\<rparr> else fc_ces fc e)"
    using flush_entries_ok [OF hu map_holds_elems(1) [OF m]] map_holds_elems(3) [OF m] by auto
  let ?f = "fc1\<lparr>fc_checksum := 0\<rparr>"
  have z: "ce_cr (fc_ces ?f e) = 0" if "e \<in> set es" for e using that f1(5) by (simp add: in_used)
  have "held ?f []" by (rule held_cong [OF f1(2)]) simp_all
  then have "cache_inv ?f es"
    by (rule cache_inv_intro [rotated 3]) (use l n f1(3,4) z in \<open>simp_all add: used_def entry_sum_def\<close>)
  moreover have "slots ?f es = map (\<lambda>_. None) es" using z by (simp add: slots_def slot_None)
  moreover have "flow_map_cache_flush fc = Some ?f" using fe f1(1) by (simp add: flow_map_cache_flush_def)
  ultimately show ?thesis by blast
qed

lemma cache_valid:
  assumes inv: "cache_inv fc es"
  shows "flow_map_cache_is_valid fc = Some True"
proof -
  have m: "map_holds fc (used fc es) (fc_entries fc)" and c: "fc_checksum fc = entry_sum fc (used fc es)"
    using inv by (simp_all add: cache_inv_def held_def)
  have f: "fold (\<lambda>e hash. hash + g e) xs (a :: u64) = a + sum_list (map g xs)" for g :: "ptr \<Rightarrow> u64" and xs a
    by (induction xs arbitrary: a) (simp_all add: ac_simps)
  have "HMAP_FOR_EACH (sm_map (fc_entries fc)) = Some (hmap_elems (sm_map (fc_entries fc)))"
    by (rule HMAP_FOR_EACH_elems) (use m in \<open>simp add: map_holds_def\<close>)
  moreover have "sum_list (map (\<lambda>e. ucast (cache_entry_hash (fc_ces fc e) 0)) (hmap_elems (sm_map (fc_entries fc)))) = entry_sum fc (used fc es)"
    unfolding entry_sum_def map_holds_elems(1) [OF m, symmetric] by (simp add: sum_mset_sum_list flip: mset_map)
  ultimately show ?thesis using c by (simp add: flow_map_cache_is_valid_def flow_map_cache_hash_def f)
qed

lemma init_entries_ok:
  assumes "is_list (fc_lists fc) lru_head xs" and "{lru_head + 1 + i..lru_head + i + k} \<subseteq> dom (fc_lists fc)"
    and "\<forall>x \<in> set xs. x < lru_head + 1 + i \<and> ce_cr (fc_ces fc x) = 0"
  shows "\<exists>fc'. init_entries k i fc = Some fc' \<and> is_list (fc_lists fc') lru_head (xs @ [lru_head + 1 + i..<lru_head + 1 + i + k])
    \<and> (\<forall>x \<in> set xs \<union> {lru_head + 1 + i..<lru_head + 1 + i + k}. ce_cr (fc_ces fc' x) = 0)
    \<and> fc_entries fc' = fc_entries fc \<and> fc_ut_crs fc' = fc_ut_crs fc \<and> fc_sm fc' = fc_sm fc \<and> fc_cap fc' = fc_cap fc \<and> fc_checksum fc' = fc_checksum fc"
  using assms
proof (induction k arbitrary: i fc xs)
  case 0
  then show ?case by simp
next
  case (Suc k)
  let ?e = "lru_head + 1 + i"
  have "?e \<in> dom (fc_lists fc)" by (rule subsetD [OF Suc.prems(2)]) simp
  moreover have "?e \<notin> insert lru_head (set xs)" using Suc.prems(3) by auto
  ultimately obtain s where s: "list_push_back (fc_lists fc) lru_head ?e = Some s" "is_list s lru_head (xs @ [?e])" "(\<lambda>p. p \<in> dom s) = (\<lambda>p. p \<in> dom (fc_lists fc))"
    using ovs_list.push_back [OF Suc.prems(1)] by blast
  have dm: "dom s = dom (fc_lists fc)" using s(3) by (auto simp: fun_eq_iff)
  let ?f = "fc\<lparr>fc_lists := s, fc_ces := (fc_ces fc)(?e := (fc_ces fc ?e)\<lparr>ce_cr := 0, ce_nr := int i\<rparr>)\<rparr>"
  have eq: "[?e..<?e + Suc k] = ?e # [?e + 1..<?e + Suc k]" using upt_conv_Cons [of ?e "?e + Suc k"] by simp
  have app: "(xs @ [?e]) @ [lru_head + 1 + (i + 1)..<lru_head + 1 + (i + 1) + k] = xs @ [?e..<?e + Suc k]" unfolding eq by simp
  have un: "set (xs @ [?e]) \<union> {lru_head + 1 + (i + 1)..<lru_head + 1 + (i + 1) + k} = set xs \<union> {?e..<?e + Suc k}" by auto
  have "\<exists>fc'. init_entries k (i + 1) ?f = Some fc' \<and> is_list (fc_lists fc') lru_head ((xs @ [?e]) @ [lru_head + 1 + (i + 1)..<lru_head + 1 + (i + 1) + k])
    \<and> (\<forall>x \<in> set (xs @ [?e]) \<union> {lru_head + 1 + (i + 1)..<lru_head + 1 + (i + 1) + k}. ce_cr (fc_ces fc' x) = 0)
    \<and> fc_entries fc' = fc_entries ?f \<and> fc_ut_crs fc' = fc_ut_crs ?f \<and> fc_sm fc' = fc_sm ?f \<and> fc_cap fc' = fc_cap ?f \<and> fc_checksum fc' = fc_checksum ?f"
  proof (rule Suc.IH)
    have "{lru_head + 1 + (i + 1)..lru_head + (i + 1) + k} \<subseteq> {lru_head + 1 + i..lru_head + i + Suc k}" by auto
    from subset_trans [OF this Suc.prems(2)] show "{lru_head + 1 + (i + 1)..lru_head + (i + 1) + k} \<subseteq> dom (fc_lists ?f)" using dm by simp
  qed (use Suc.prems(3) s(2) in auto)
  moreover have "init_entries (Suc k) i fc = init_entries k (i + 1) ?f" using s(1) by (simp add: list_push_back_def)
  ultimately show ?case unfolding app un by simp
qed

lemma cache_init_ok:
  assumes "{0..5} \<subseteq> dom store"
  shows "\<exists>fc. flow_map_cache_init junk store ces = Some fc \<and> cache_inv fc [1, 2, 3, 4, 5] \<and> slots fc [1, 2, 3, 4, 5] = replicate 5 None"
proof -
  obtain s where s: "list_init store lru_head = Some s" "is_list s lru_head []" "dom s = dom store"
  proof -
    have "0 \<in> dom store" using assms by auto
    then obtain nd where "store 0 = Some nd" by blast
    then show thesis using that [of "store(0 \<mapsto> nd\<lparr>prev := 0, next := 0\<rparr>)"]
      by (auto simp: list_init_def set_prev_def set_next_def lru_head_def is_list_def lnk_def get_next_def get_prev_def)
  qed
  let ?f = "\<lparr>fc_cap = MAX_CACHE_SIZE, fc_entries = hmap_init_sm, fc_lists = s, fc_ut_crs = hmap_init_sm,
       fc_sm = initial_memory junk, fc_ces = ces, fc_checksum = 0\<rparr>"
  have r: "[1..<Suc 5] = [1, 2, 3, 4, 5]" by (simp add: upt_rec)
  obtain fc where fc: "init_entries 5 0 ?f = Some fc" "is_list (fc_lists fc) lru_head [1, 2, 3, 4, 5]" "\<forall>x \<in> {1..<6}. ce_cr (fc_ces fc x) = 0"
    "fc_entries fc = hmap_init_sm" "fc_ut_crs fc = hmap_init_sm" "fc_sm fc = initial_memory junk" "fc_cap fc = 5" "fc_checksum fc = 0"
  proof -
    have "{1..5} \<subseteq> dom store" using assms by (auto dest: subsetD)
    then show thesis using init_entries_ok [of ?f "[]" 0 5] s r that by (auto simp: lru_head_def MAX_CACHE_SIZE_def)
  qed
  have "held fc []" using fc(4-6) initial_memory_inv by (simp add: held_def map_holds_def pages_ok_def hmap_init_sm_def)
  then have "cache_inv fc [1, 2, 3, 4, 5]"
    by (rule cache_inv_intro [rotated 3]) (use fc in \<open>simp_all add: used_def entry_sum_def\<close>)
  moreover have "slots fc [1, 2, 3, 4, 5] = replicate 5 None" using fc(3) by (simp add: slots_def slot_None eval_nat_numeral)
  moreover have "flow_map_cache_init junk store ces = Some fc"
    using fc(1) s(1) by (simp add: flow_map_cache_init_def shared_memory_init_eq MAX_CACHE_SIZE_def)
  ultimately show ?thesis by blast
qed

section \<open>Refinement\<close>

text \<open>The operations on the cache, and what each does to the slots: a bounded queue of rules in the order of
  their last use.\<close>

datatype cache_op =
    Insert flow "flow_wildcards option" ut_ptr int int
  | Insert_Rule minimatch ut_ptr int int
  | Get_Entry flow "flow_wildcards option" int int
  | Remove_Ut_Cr "ut_ptr \<Rightarrow> u8 list" ut_ptr
  | Flush

definition cache_exec :: "(ptr \<Rightarrow> u64) \<Rightarrow> cache_op \<Rightarrow> flow_map_cache \<Rightarrow> ((u64 \<times> ut_ptr) option \<times> flow_map_cache) option" where
  "cache_exec junk c fc = (case c of
     Insert f wc cr b t \<Rightarrow> map_option (Pair None) (flow_map_cache_insert junk fc f wc cr b t)
   | Insert_Rule m cr b t \<Rightarrow> map_option (Pair None) (flow_map_cache_insert_rule junk fc m cr b t)
   | Get_Entry f wc b t \<Rightarrow> map_option (\<lambda>(e, fc). (do { e \<leftarrow> e; slot fc e }, fc)) (flow_map_cache_get_entry fc f wc b t)
   | Remove_Ut_Cr mem cr \<Rightarrow> map_option (Pair None) (flow_map_cache_remove_ut_cr mem fc cr)
   | Flush \<Rightarrow> map_option (Pair None) (flow_map_cache_flush fc))"

fun stores :: "cache_op \<Rightarrow> (u64 \<times> ut_ptr) option" where
  "stores (Insert f wc cr b t) = Some (flow_map_cache_calculate_hash f wc b t, cr)"
| "stores (Insert_Rule m cr b t) = Some (flow_map_cache_calculate_hash (miniflow_expand (mm_flow m)) (Some (minimask_expand (mm_mask m))) b t, cr)"
| "stores _ = None"

definition no_null :: "cache_op \<Rightarrow> bool" where
  "no_null c \<longleftrightarrow> (case stores c of Some (h, cr) \<Rightarrow> cr \<noteq> 0 | None \<Rightarrow> True)"

type_synonym slot_list = "(u64 \<times> ut_ptr) option list"

inductive cache_spec :: "cache_op \<Rightarrow> slot_list \<Rightarrow> (u64 \<times> ut_ptr) option \<Rightarrow> slot_list \<Rightarrow> bool" where
  replace_oldest: "stores c = Some new \<Longrightarrow> cache_spec c (old # ss) None (ss @ [Some new])"
| miss: "h = flow_map_cache_calculate_hash f wc b t \<Longrightarrow> \<forall>cr. Some (h, cr) \<notin> set ss \<Longrightarrow> cache_spec (Get_Entry f wc b t) ss None ss"
| hit: "h = flow_map_cache_calculate_hash f wc b t \<Longrightarrow> x = Some (h, cr) \<Longrightarrow> cache_spec (Get_Entry f wc b t) (ss @ x # ss') x (ss @ ss' @ [x])"
| absent: "h = ucast (ut_cr_addr_hash mem cr) \<Longrightarrow> cr \<noteq> 0 \<longrightarrow> Some (h, cr) \<notin> set ss \<Longrightarrow> cache_spec (Remove_Ut_Cr mem cr) ss None ss"
| removed: "h = ucast (ut_cr_addr_hash mem cr) \<Longrightarrow> cache_spec (Remove_Ut_Cr mem cr) (ss @ Some (h, cr) # ss') None (ss @ ss' @ [None])"
| flushed: "cache_spec Flush ss None (map (\<lambda>_. None) ss)"

lemma cache_exec_ok:
  assumes inv: "cache_inv fc es" and c: "no_null c"
  shows "\<exists>r fc' es'. cache_exec junk c fc = Some (r, fc') \<and> cache_inv fc' es' \<and> fc_cap fc' = fc_cap fc \<and> cache_spec c (slots fc es) r (slots fc' es')"
proof -
  obtain e es1 where es: "es = e # es1" using inv by (cases es) (auto simp: cache_inv_def)
  have capq: "fc_cap fc' = fc_cap fc" if "cache_inv fc' es'" "length es' = length es" for fc' es' using inv that by (simp add: cache_inv_def)
  have ins: ?thesis if st: "stores c = Some (flow_map_cache_calculate_hash f wc b t, cr)"
    and ex: "\<And>fc. cache_exec junk c fc = map_option (Pair None) (flow_map_cache_insert junk fc f wc cr b t)" for f wc b t cr
  proof -
    obtain fc' where f: "flow_map_cache_insert junk fc f wc cr b t = Some fc'" "cache_inv fc' (es1 @ [e])"
      "slots fc' (es1 @ [e]) = slots fc es1 @ [Some (flow_map_cache_calculate_hash f wc b t, cr)]"
      using insert_ok [of fc e es1 cr junk f wc b t] inv c st unfolding es no_null_def by auto
    moreover have "fc_cap fc' = fc_cap fc" by (rule capq [OF f(2)]) (simp add: es)
    moreover have "cache_spec c (slots fc es) None (slots fc' (es1 @ [e]))"
      unfolding f(3) es using replace_oldest [OF st, of "slot fc e" "slots fc es1"] by (simp add: slots_def)
    ultimately show ?thesis using ex by auto
  qed
  show ?thesis
  proof (cases c)
    case (Get_Entry f wc b t)
    consider "flow_map_cache_get_entry fc f wc b t = Some (None, fc)" "\<forall>cr. Some (flow_map_cache_calculate_hash f wc b t, cr) \<notin> set (slots fc es)"
      | xs e ys fc' cr where "es = xs @ e # ys" "flow_map_cache_get_entry fc f wc b t = Some (Some e, fc')"
        "slot fc' e = Some (flow_map_cache_calculate_hash f wc b t, cr)" "slot fc e = Some (flow_map_cache_calculate_hash f wc b t, cr)"
        "cache_inv fc' (xs @ ys @ [e])" "slots fc' (xs @ ys @ [e]) = slots fc (xs @ ys @ [e])"
      using get_entry_ok [OF inv, of f wc b t] by blast
    then show ?thesis
    proof cases
      case 1
      then show ?thesis using inv miss [OF refl 1(2)] Get_Entry by (auto simp: cache_exec_def)
    next
      case 2
      have "cache_exec junk c fc = Some (Some (flow_map_cache_calculate_hash f wc b t, cr), fc')"
        using 2(2,3) Get_Entry by (simp add: cache_exec_def)
      moreover have "fc_cap fc' = fc_cap fc" by (rule capq [OF 2(5)]) (simp add: 2(1))
      moreover have "cache_spec c (slots fc es) (slot fc e) (slots fc' (xs @ ys @ [e]))"
        unfolding 2(6) using hit [OF refl 2(4), of "slots fc xs" "slots fc ys"] Get_Entry by (simp add: 2(1) slots_def)
      ultimately show ?thesis using 2(4,5) by auto
    qed
  next
    case (Remove_Ut_Cr mem cr)
    consider "flow_map_cache_remove_ut_cr mem fc cr = Some fc" "cr \<noteq> 0 \<longrightarrow> Some (ucast (ut_cr_addr_hash mem cr), cr) \<notin> set (slots fc es)"
      | xs e ys fc' where "es = xs @ e # ys" "flow_map_cache_remove_ut_cr mem fc cr = Some fc'" "slot fc e = Some (ucast (ut_cr_addr_hash mem cr), cr)"
        "cache_inv fc' (xs @ ys @ [e])" "slots fc' (xs @ ys @ [e]) = slots fc (xs @ ys) @ [None]"
      using remove_ut_cr_ok [OF inv, of mem cr] by blast
    then show ?thesis
    proof cases
      case 1
      then show ?thesis using inv absent [OF refl 1(2)] Remove_Ut_Cr by (auto simp: cache_exec_def)
    next
      case 2
      have "cache_exec junk c fc = Some (None, fc')" using 2(2) Remove_Ut_Cr by (simp add: cache_exec_def)
      moreover have "fc_cap fc' = fc_cap fc" by (rule capq [OF 2(4)]) (simp add: 2(1))
      moreover have "cache_spec c (slots fc es) None (slots fc' (xs @ ys @ [e]))"
        unfolding 2(5) using removed [OF refl, of mem cr "slots fc xs" "slots fc ys"] 2(3) Remove_Ut_Cr by (simp add: 2(1) slots_def)
      ultimately show ?thesis using 2(4) by blast
    qed
  next
    case Flush
    obtain fc' where f: "flow_map_cache_flush fc = Some fc'" "cache_inv fc' es" "slots fc' es = map (\<lambda>_. None) es"
      using flush_ok_cache [OF inv] by blast
    moreover have "map (\<lambda>_. None) (slots fc es) = slots fc' es" using f(3) by (simp add: slots_def)
    ultimately show ?thesis using Flush flushed [of "slots fc es"] capq [OF f(2)] by (auto simp: cache_exec_def)
  qed (rule ins; simp add: cache_exec_def flow_map_cache_insert_rule_def)+
qed

fun cache_run :: "(ptr \<Rightarrow> u64) \<Rightarrow> cache_op list \<Rightarrow> flow_map_cache \<Rightarrow> flow_map_cache option" where
  "cache_run junk [] fc = Some fc"
| "cache_run junk (c # cs) fc = do { (_, fc) \<leftarrow> cache_exec junk c fc; cache_run junk cs fc }"

lemma cache_run_ok:
  assumes "cache_inv fc es" and "list_all no_null cs"
  shows "\<exists>fc' es'. cache_run junk cs fc = Some fc' \<and> cache_inv fc' es' \<and> fc_cap fc' = fc_cap fc"
  using assms
proof (induction cs arbitrary: fc es)
  case (Cons c cs)
  obtain r fc1 es1 where "cache_exec junk c fc = Some (r, fc1)" "cache_inv fc1 es1" "fc_cap fc1 = fc_cap fc"
    using cache_exec_ok [OF Cons.prems(1), of c junk] Cons.prems(2) by auto
  with Cons.IH [of fc1 es1] Cons.prems(2) show ?case by auto
qed auto

definition fresh_nodes :: list_store where
  "fresh_nodes p = (if p \<le> 5 then Some \<lparr>prev = 0, next = 0\<rparr> else None)"

lemma fresh_nodes_dom: "{0..5} \<subseteq> dom fresh_nodes"
  by (auto simp: fresh_nodes_def)

text \<open>C35: Every operation of the flow cache returns, keeps its invariant, and does to its slots what the abstract bounded queue
  does: a new rule takes the place of the least recently used slot, a hit moves to the back, a removal empties the slot
  of that rule (if the rule was stored under the hash that the removal looks for), a flush empties all slots.\<close>

theorem cache_refines:
  assumes "cache_inv fc es" and "no_null c"
  shows "\<exists>r fc' es'. cache_exec junk c fc = Some (r, fc') \<and> cache_inv fc' es' \<and> cache_spec c (slots fc es) r (slots fc' es')"
  using cache_exec_ok [OF assms] by blast

theorem cache_refines_witness:
  "\<exists>fc es. flow_map_cache_init (\<lambda>_. 0) fresh_nodes (\<lambda>_. \<lparr>ce_cr = 0, ce_hash = 0, ce_nr = 0\<rparr>) = Some fc \<and> cache_inv fc es
    \<and> (\<exists>r fc' es'. cache_exec (\<lambda>_. 0) (Insert (replicate FLOW_U32S 0) None 77 0 0) fc = Some (r, fc') \<and> cache_inv fc' es'
      \<and> cache_spec (Insert (replicate FLOW_U32S 0) None 77 0 0) (slots fc es) r (slots fc' es'))"
proof -
  obtain fc where fc: "flow_map_cache_init (\<lambda>_. 0) fresh_nodes (\<lambda>_. \<lparr>ce_cr = 0, ce_hash = 0, ce_nr = 0\<rparr>) = Some fc" "cache_inv fc [1, 2, 3, 4, 5]"
    using cache_init_ok [OF fresh_nodes_dom] by blast
  have "no_null (Insert (replicate FLOW_U32S 0) None 77 0 0)" by (simp add: no_null_def)
  with fc cache_refines [OF fc(2), of "Insert (replicate FLOW_U32S 0) None 77 0 0" "\<lambda>_. 0"] show ?thesis by blast
qed

text \<open>C36: Starting from \<open>flow_map_cache_init\<close>, any sequence of operations that stores no null rule runs without a fault, and
  the checksum the enclave keeps is then the one it computes from the shared memory: the cache of an honest untrusted
  side is always found valid.\<close>

theorem cache_always_valid:
  assumes "{0..5} \<subseteq> dom store" and "list_all no_null cs"
  shows "\<exists>fc fc'. flow_map_cache_init junk store ces = Some fc \<and> cache_run junk cs fc = Some fc'
    \<and> flow_map_cache_is_valid fc' = Some True \<and> hn (sm_map (fc_entries fc')) \<le> MAX_CACHE_SIZE"
proof -
  obtain fc where fc: "flow_map_cache_init junk store ces = Some fc" "cache_inv fc [1, 2, 3, 4, 5]"
    using cache_init_ok [OF assms(1)] by blast
  obtain fc' es' where r: "cache_run junk cs fc = Some fc'" "cache_inv fc' es'" "fc_cap fc' = fc_cap fc"
    using cache_run_ok [OF fc(2) assms(2)] by blast
  have "hn (sm_map (fc_entries fc')) = length (used fc' es')"
    using r(2) hmap_wf_hn [of "sm_map (fc_entries fc')"] by (simp add: cache_inv_def held_def map_holds_def)
  also have "\<dots> \<le> length es'" by (simp add: used_def)
  also have "\<dots> = MAX_CACHE_SIZE" using fc(2) r(2,3) by (simp add: cache_inv_def MAX_CACHE_SIZE_def)
  finally show ?thesis using fc(1) r(1) cache_valid [OF r(2)] by blast
qed

theorem cache_always_valid_witness:
  "\<exists>fc fc'. flow_map_cache_init (\<lambda>_. 0) fresh_nodes (\<lambda>_. \<lparr>ce_cr = 0, ce_hash = 0, ce_nr = 0\<rparr>) = Some fc
    \<and> cache_run (\<lambda>_. 0) [Insert (replicate FLOW_U32S 0) None 77 0 0, Get_Entry (replicate FLOW_U32S 0) None 0 0, Flush] fc = Some fc'
    \<and> flow_map_cache_is_valid fc' = Some True \<and> hn (sm_map (fc_entries fc')) \<le> MAX_CACHE_SIZE"
  by (rule cache_always_valid [OF fresh_nodes_dom]) (simp add: no_null_def)

end
