(* ===== verification/Call_Table.thy ===== *)
theory Call_Table
  imports Ofproto Cache
begin

text \<open>
  The dispatcher of hot calls (\<open>execute_function\<close> of \<open>OFTonSGX/trusted/call-table.c\<close>): one definition for each case of its
  \<open>switch\<close>, and the table of all cases.

  A call carries an array of untyped pointers. \<open>obj\<close> is what such a pointer points to: for a number the bytes of the
  variable (the machine is little-endian), for everything else the object itself; \<open>Out\<close> is memory that is only
  written. A case reads a number with the type of its own cast. When that is wider than the variable the bytes
  behind it, \<open>e_stack\<close>, are read as well. \<open>fc_return\<close> is the memory \<open>return_value\<close> points to. What a call writes through
  its pointers is returned as a list of objects.
\<close>

section \<open>Numbers in memory\<close>

definition le_bytes :: "nat \<Rightarrow> 'a::len word \<Rightarrow> u8 list" where
  "le_bytes k w = map (\<lambda>i. ucast (drop_bit (8 * i) w)) [0..<k]"

fun of_le :: "u8 list \<Rightarrow> 'a::len word" where
  "of_le [] = 0"
| "of_le (b # bs) = ucast b OR push_bit 8 (of_le bs)"

lemma length_le_bytes [simp]: "length (le_bytes k w) = k"
  by (simp add: le_bytes_def)

lemma bit_of_le:
  "bit (of_le bs :: 'a::len word) i \<longleftrightarrow> i < LENGTH('a) \<and> i div 8 < length bs \<and> bit (bs ! (i div 8)) (i mod 8)"
proof (induction bs arbitrary: i)
  case (Cons b bs)
  show ?case
  proof (cases "i < 8")
    case True
    then show ?thesis using Cons.IH by (auto simp: bit_simps)
  next
    case False
    then obtain k where k: "i = k + 8" by (metis add.commute le_Suc_ex not_less)
    have "\<not> bit b i" using False by (auto dest: bit_imp_le_length)
    moreover have "(k + 8) div 8 = Suc (k div 8)" by simp
    ultimately show ?thesis using Cons.IH [of k] by (auto simp: bit_simps k)
  qed
qed simp

lemma of_le_le_bytes:
  fixes w :: "'a::len word"
  assumes "LENGTH('a) \<le> 8 * k"
  shows "of_le (le_bytes k w) = w"
proof (rule bit_word_eqI)
  fix i assume i: "i < LENGTH('a)"
  then have "i div 8 < k" using assms by simp
  moreover have "8 * (i div 8) + i mod 8 = i" by simp
  ultimately show "bit (of_le (le_bytes k w) :: 'a word) i \<longleftrightarrow> bit w i"
    using i by (simp add: bit_of_le le_bytes_def bit_simps)
qed

lemma of_le_read [simp]:
  "of_le (le_bytes 1 (x :: u8)) = x" "of_le (le_bytes (Suc 0) (x :: u8)) = x" "of_le (le_bytes 2 (y :: u16)) = y"
  "of_le (le_bytes 4 (z :: u32)) = z" "of_le (le_bytes 8 (v :: u64)) = v"
  by (simp_all add: of_le_le_bytes)

lemma le_bytes_Suc: "le_bytes (Suc k) w = ucast w # map (\<lambda>i. ucast (drop_bit (8 * Suc i) w)) [0..<k]"
  by (simp add: le_bytes_def upt_conv_Cons map_Suc_upt [symmetric] comp_def del: upt_Suc map_Suc_upt)

text \<open>A read that is narrower than the variable gives its low byte; one that is wider has it as its low byte.\<close>

lemma of_le_narrow [simp]: "(of_le (take (Suc 0) (le_bytes 4 (n :: u32))) :: u8) = ucast n"
  by (simp add: numeral_eq_Suc le_bytes_Suc)

lemma of_le_low_byte: "(ucast (of_le (x # bs) :: u32) :: u8) = x"
  by (rule bit_word_eqI) (auto simp: bit_simps)

lemma of_le_wide [simp]: "(ucast (of_le (take 4 (le_bytes (Suc 0) x @ bs)) :: u32) :: u8) = x"
proof -
  have "take 4 (le_bytes (Suc 0) x @ bs) = x # take 3 bs" by (simp add: le_bytes_Suc numeral_eq_Suc)
  then show ?thesis by (simp only: of_le_low_byte)
qed

lemma of_le_wide_append [simp]: "(ucast (of_le (le_bytes (Suc 0) x @ bs) :: u32) :: u8) = x"
  using of_le_low_byte [of x bs] by (simp only: le_bytes_Suc upt_0 list.map(1) append_Cons append_Nil ucast_id)

section \<open>Calls and state\<close>

datatype obj =
    Bytes "u8 list" | Rule ut_ptr | Cell "ut_ptr option" | Match match | Minimatch minimatch | Flow flow
  | Wildcards "flow_wildcards option" | Node heap_node | Nodes "heap_node list" | Subfields "mf_subfield list"
  | Groups "mf_subfield list option" | Str "string option" | Chars "char list" | Rules "ut_ptr list" | U16s "u16 list"
  | U32s "u32 list" | U8s "u8 list" | Flag bool | Deleted deleted_flow | Stat ut_ptr match u32 | Out

record function_call =
  fc_id :: u8
  fc_args :: "obj list"
  fc_return :: "u8 list"

text \<open>The enclave and the cache. \<open>env\<close> is memory that the code reads without having set it: behind a local variable, the
  table of the VLAN entry points, the value of a field, the status of new pages; and the memory of the untrusted rules.\<close>

record sgx =
  sx_enclave :: enclave
  sx_cache :: flow_map_cache

record env =
  e_stack :: "u8 list"
  e_indet :: oftable
  e_value :: mf_value
  e_pages :: "ptr \<Rightarrow> u64"
  e_mem :: "ut_ptr \<Rightarrow> u8 list"

type_synonym 'r outcome = "('r \<times> obj list \<times> sgx) option"

type_synonym call_case = "env \<Rightarrow> function_call \<Rightarrow> sgx \<Rightarrow> u8 list outcome"

abbreviation u8_obj :: "u8 \<Rightarrow> obj" where "u8_obj x \<equiv> Bytes (le_bytes (Suc 0) x)"
abbreviation u16_obj :: "u16 \<Rightarrow> obj" where "u16_obj x \<equiv> Bytes (le_bytes 2 x)"
abbreviation u32_obj :: "u32 \<Rightarrow> obj" where "u32_obj x \<equiv> Bytes (le_bytes 4 x)"
abbreviation size_obj :: "u64 \<Rightarrow> obj" where "size_obj x \<equiv> Bytes (le_bytes 8 x)"
abbreviation bool_obj :: "bool \<Rightarrow> obj" where "bool_obj x \<equiv> Bytes (le_bytes (Suc 0) (of_bool x :: u8))"

definition arg :: "function_call \<Rightarrow> nat \<Rightarrow> obj option" where
  "arg fc i = (if i < length (fc_args fc) then Some (fc_args fc ! i) else None)"

definition rd :: "nat \<Rightarrow> env \<Rightarrow> function_call \<Rightarrow> nat \<Rightarrow> 'a::len word option" where
  "rd k e fc i = (case arg fc i of Some (Bytes bs) \<Rightarrow> Some (of_le (take k (bs @ e_stack e))) | _ \<Rightarrow> None)"

abbreviation rd_u8 :: "env \<Rightarrow> function_call \<Rightarrow> nat \<Rightarrow> u8 option" where "rd_u8 \<equiv> rd (Suc 0)"
abbreviation rd_u16 :: "env \<Rightarrow> function_call \<Rightarrow> nat \<Rightarrow> u16 option" where "rd_u16 \<equiv> rd 2"
abbreviation rd_u32 :: "env \<Rightarrow> function_call \<Rightarrow> nat \<Rightarrow> u32 option" where "rd_u32 \<equiv> rd 4"
abbreviation rd_u64 :: "env \<Rightarrow> function_call \<Rightarrow> nat \<Rightarrow> u64 option" where "rd_u64 \<equiv> rd 8"

definition rd_bool :: "env \<Rightarrow> function_call \<Rightarrow> nat \<Rightarrow> bool option" where
  "rd_bool e fc i = map_option (\<lambda>x. x \<noteq> 0) (rd_u8 e fc i)"

definition rule_arg :: "function_call \<Rightarrow> nat \<Rightarrow> ut_ptr option" where "rule_arg fc i = (case arg fc i of Some (Rule x) \<Rightarrow> Some x | _ \<Rightarrow> None)"
definition cell_arg :: "function_call \<Rightarrow> nat \<Rightarrow> ut_ptr option option" where "cell_arg fc i = (case arg fc i of Some (Cell x) \<Rightarrow> Some x | _ \<Rightarrow> None)"
definition match_arg :: "function_call \<Rightarrow> nat \<Rightarrow> match option" where "match_arg fc i = (case arg fc i of Some (Match x) \<Rightarrow> Some x | _ \<Rightarrow> None)"
definition minimatch_arg :: "function_call \<Rightarrow> nat \<Rightarrow> minimatch option" where "minimatch_arg fc i = (case arg fc i of Some (Minimatch x) \<Rightarrow> Some x | _ \<Rightarrow> None)"
definition flow_arg :: "function_call \<Rightarrow> nat \<Rightarrow> flow option" where "flow_arg fc i = (case arg fc i of Some (Flow x) \<Rightarrow> Some x | _ \<Rightarrow> None)"
definition wildcards_arg :: "function_call \<Rightarrow> nat \<Rightarrow> flow_wildcards option option" where "wildcards_arg fc i = (case arg fc i of Some (Wildcards x) \<Rightarrow> Some x | _ \<Rightarrow> None)"
definition node_arg :: "function_call \<Rightarrow> nat \<Rightarrow> heap_node option" where "node_arg fc i = (case arg fc i of Some (Node x) \<Rightarrow> Some x | _ \<Rightarrow> None)"
definition nodes_arg :: "function_call \<Rightarrow> nat \<Rightarrow> heap_node list option" where "nodes_arg fc i = (case arg fc i of Some (Nodes x) \<Rightarrow> Some x | _ \<Rightarrow> None)"
definition subfields_arg :: "function_call \<Rightarrow> nat \<Rightarrow> mf_subfield list option" where "subfields_arg fc i = (case arg fc i of Some (Subfields x) \<Rightarrow> Some x | _ \<Rightarrow> None)"
definition groups_arg :: "function_call \<Rightarrow> nat \<Rightarrow> mf_subfield list option option" where "groups_arg fc i = (case arg fc i of Some (Groups x) \<Rightarrow> Some x | _ \<Rightarrow> None)"
definition str_arg :: "function_call \<Rightarrow> nat \<Rightarrow> string option option" where "str_arg fc i = (case arg fc i of Some (Str x) \<Rightarrow> Some x | _ \<Rightarrow> None)"
definition chars_arg :: "function_call \<Rightarrow> nat \<Rightarrow> char list option" where "chars_arg fc i = (case arg fc i of Some (Chars x) \<Rightarrow> Some x | _ \<Rightarrow> None)"
definition rules_arg :: "function_call \<Rightarrow> nat \<Rightarrow> ut_ptr list option" where "rules_arg fc i = (case arg fc i of Some (Rules x) \<Rightarrow> Some x | _ \<Rightarrow> None)"
definition u16s_arg :: "function_call \<Rightarrow> nat \<Rightarrow> u16 list option" where "u16s_arg fc i = (case arg fc i of Some (U16s x) \<Rightarrow> Some x | _ \<Rightarrow> None)"
definition u32s_arg :: "function_call \<Rightarrow> nat \<Rightarrow> u32 list option" where "u32s_arg fc i = (case arg fc i of Some (U32s x) \<Rightarrow> Some x | _ \<Rightarrow> None)"
definition u8s_arg :: "function_call \<Rightarrow> nat \<Rightarrow> u8 list option" where "u8s_arg fc i = (case arg fc i of Some (U8s x) \<Rightarrow> Some x | _ \<Rightarrow> None)"
definition flag_arg :: "function_call \<Rightarrow> nat \<Rightarrow> bool option" where "flag_arg fc i = (case arg fc i of Some (Flag x) \<Rightarrow> Some x | _ \<Rightarrow> None)"

lemmas arg_defs = arg_def rd_def rd_bool_def rule_arg_def cell_arg_def match_arg_def minimatch_arg_def flow_arg_def wildcards_arg_def
  node_arg_def nodes_arg_def subfields_arg_def groups_arg_def str_arg_def chars_arg_def rules_arg_def u16s_arg_def u32s_arg_def
  u8s_arg_def flag_arg_def

text \<open>An array of \<open>n\<close> elements; reading past its end is a fault.\<close>

definition array :: "'a list \<Rightarrow> u64 \<Rightarrow> 'a list option" where
  "array xs n = (if unat n \<le> length xs then Some (take (unat n) xs) else None)"

definition int_array :: "'a list \<Rightarrow> u32 \<Rightarrow> 'a list option" where
  "int_array xs n = (if nat (sint n) \<le> length xs then Some (take (nat (sint n)) xs) else None)"

text \<open>The entry point of a bridge: one that changes it and returns something, one that only reads it, one that only changes it.\<close>

definition at_bridge :: "u8 \<Rightarrow> (bridge \<Rightarrow> ('r \<times> bridge) option) \<Rightarrow> sgx \<Rightarrow> ('r \<times> sgx) option" where
  "at_bridge b f s = map_option (\<lambda>(r, en). (r, s\<lparr>sx_enclave := en\<rparr>)) (on_bridge b f (sx_enclave s))"

definition query :: "u8 \<Rightarrow> (bridge \<Rightarrow> 'r option) \<Rightarrow> sgx \<Rightarrow> ('r \<times> sgx) option" where
  "query b f = at_bridge b (\<lambda>br. map_option (\<lambda>v. (v, br)) (f br))"

definition update :: "u8 \<Rightarrow> (bridge \<Rightarrow> bridge option) \<Rightarrow> sgx \<Rightarrow> (unit \<times> sgx) option" where
  "update b f = at_bridge b (\<lambda>br. map_option (Pair ()) (f br))"

text \<open>\<open>*(T *) fc->return_value = w\<close>, with \<open>k\<close> the size of \<open>T\<close>.\<close>

definition ret :: "nat \<Rightarrow> 'a::len word \<Rightarrow> function_call \<Rightarrow> obj list \<Rightarrow> sgx \<Rightarrow> u8 list outcome" where
  "ret k w fc outs s = (if k \<le> length (fc_return fc) then Some (le_bytes k w @ drop k (fc_return fc), outs, s) else None)"

definition no_ret :: "function_call \<Rightarrow> obj list \<Rightarrow> sgx \<Rightarrow> u8 list outcome" where
  "no_ret fc outs s = Some (fc_return fc, outs, s)"

text \<open>What the cases do to the cache.\<close>

definition uncache :: "env \<Rightarrow> ut_ptr \<Rightarrow> sgx \<Rightarrow> sgx option" where
  "uncache e cr s = map_option (\<lambda>c. s\<lparr>sx_cache := c\<rparr>) (flow_map_cache_remove_ut_cr (e_mem e) (sx_cache s) cr)"

fun uncache_all :: "env \<Rightarrow> ut_ptr list \<Rightarrow> sgx \<Rightarrow> sgx option" where
  "uncache_all e [] s = Some s"
| "uncache_all e (cr # crs) s = do { s \<leftarrow> uncache e cr s; uncache_all e crs s }"

definition flush_cache :: "sgx \<Rightarrow> sgx option" where
  "flush_cache s = map_option (\<lambda>c. s\<lparr>sx_cache := c\<rparr>) (flow_map_cache_flush (sx_cache s))"

definition encache :: "env \<Rightarrow> flow \<Rightarrow> flow_wildcards option \<Rightarrow> ut_ptr \<Rightarrow> int \<Rightarrow> int \<Rightarrow> sgx \<Rightarrow> sgx option" where
  "encache e f wc cr b t s = map_option (\<lambda>c. s\<lparr>sx_cache := c\<rparr>) (flow_map_cache_insert (e_pages e) (sx_cache s) f wc cr b t)"

text \<open>The output arguments of \<open>ecall_add_flow\<close>, in the order of its parameters.\<close>

definition add_out :: "ut_ptr option \<Rightarrow> ut_ptr option \<Rightarrow> u32 \<Rightarrow> u16 \<Rightarrow> u16 \<Rightarrow> bool \<Rightarrow> bool \<Rightarrow> bool \<Rightarrow> bool \<Rightarrow> bool \<Rightarrow> add_flow_out" where
  "add_out vic evi hsh vid vm ovf modi delp ovl ro = \<lparr>af_victim = vic, af_evict = evi, af_evict_rule_hash = hsh, af_vid = vid, af_vid_mask = vm,
     af_table_overflow = ovf, af_is_rule_modifiable = modi, af_is_deletion_pending = delp, af_is_rule_overlapping = ovl, af_is_read_only = ro\<rparr>"

definition out_objs :: "add_flow_out \<Rightarrow> obj list" where
  "out_objs o' = [Cell (af_victim o'), Cell (af_evict o'), u32_obj (af_evict_rule_hash o'), u16_obj (af_vid o'), u16_obj (af_vid_mask o'),
     Flag (af_table_overflow o'), Flag (af_is_rule_modifiable o'), Flag (af_is_deletion_pending o'), Flag (af_is_rule_overlapping o'),
     Flag (af_is_read_only o')]"

definition collected_objs :: "(ut_ptr \<times> bool \<times> bool) list \<Rightarrow> obj list" where
  "collected_objs cs = Rules (map fst cs) # map (\<lambda>(_, hidden, _). Flag hidden) cs @ map (\<lambda>(_, _, modi). Flag modi) cs"

section \<open>The numbers of the calls\<close>

definition hotcall_ecall_oftable_set_readonly :: u8 where "hotcall_ecall_oftable_set_readonly = 2"
definition hotcall_ecall_oftable_is_readonly :: u8 where "hotcall_ecall_oftable_is_readonly = 3"
definition hotcall_ecall_cls_rule_init :: u8 where "hotcall_ecall_cls_rule_init = 4"
definition hotcall_ecall_cr_rule_overlaps :: u8 where "hotcall_ecall_cr_rule_overlaps = 5"
definition hotcall_ecall_cls_rule_destroy :: u8 where "hotcall_ecall_cls_rule_destroy = 6"
definition hotcall_ecall_cls_rule_hash :: u8 where "hotcall_ecall_cls_rule_hash = 7"
definition hotcall_ecall_cls_rule_equal :: u8 where "hotcall_ecall_cls_rule_equal = 8"
definition hotcall_ecall_oftable_classifier_replace :: u8 where "hotcall_ecall_oftable_classifier_replace = 9"
definition hotcall_ecall_oftable_get_flags :: u8 where "hotcall_ecall_oftable_get_flags = 10"
definition hotcall_ecall_oftable_cls_count :: u8 where "hotcall_ecall_oftable_cls_count = 11"
definition hotcall_ecall_is_eviction_fields_enabled :: u8 where "hotcall_ecall_is_eviction_fields_enabled = 12"
definition hotcall_ecall_evg_add_rule :: u8 where "hotcall_ecall_evg_add_rule = 14"
definition hotcall_ecall_evg_remove_rule :: u8 where "hotcall_ecall_evg_remove_rule = 15"
definition hotcall_ecall_cls_remove :: u8 where "hotcall_ecall_cls_remove = 16"
definition hotcall_ecall_choose_rule_to_evict :: u8 where "hotcall_ecall_choose_rule_to_evict = 17"
definition hotcall_ecall_oftable_mflows :: u8 where "hotcall_ecall_oftable_mflows = 18"
definition hotcall_ecall_choose_rule_to_evict_p :: u8 where "hotcall_ecall_choose_rule_to_evict_p = 19"
definition hotcall_ecall_minimatch_expand :: u8 where "hotcall_ecall_minimatch_expand = 20"
definition hotcall_ecall_cr_priority :: u8 where "hotcall_ecall_cr_priority = 21"
definition hotcall_ecall_oftable_cls_find_match_exactly :: u8 where "hotcall_ecall_oftable_cls_find_match_exactly = 22"
definition hotcall_ecall_collect_rules_loose_c :: u8 where "hotcall_ecall_collect_rules_loose_c = 23"
definition hotcall_ecall_collect_rules_loose_r :: u8 where "hotcall_ecall_collect_rules_loose_r = 24"
definition hotcall_ecall_collect_rules_strict_c :: u8 where "hotcall_ecall_collect_rules_strict_c = 25"
definition hotcall_ecall_collect_rules_strict_r :: u8 where "hotcall_ecall_collect_rules_strict_r = 26"
definition hotcall_ecall_oftable_enable_eviction :: u8 where "hotcall_ecall_oftable_enable_eviction = 27"
definition hotcall_ecall_oftable_disable_eviction :: u8 where "hotcall_ecall_oftable_disable_eviction = 28"
definition hotcall_ecall_oftable_enable_eviction_c :: u8 where "hotcall_ecall_oftable_enable_eviction_c = 29"
definition hotcall_ecall_oftable_enable_eviction_r :: u8 where "hotcall_ecall_oftable_enable_eviction_r = 30"
definition hotcall_ecall_oftable_mflows_set :: u8 where "hotcall_ecall_oftable_mflows_set = 31"
definition hotcall_ecall_ofproto_destroy :: u8 where "hotcall_ecall_ofproto_destroy = 32"
definition hotcall_ecall_total_rules :: u8 where "hotcall_ecall_total_rules = 33"
definition hotcall_ecall_oftable_name :: u8 where "hotcall_ecall_oftable_name = 34"
definition hotcall_ecall_collect_ofmonitor_util_c :: u8 where "hotcall_ecall_collect_ofmonitor_util_c = 35"
definition hotcall_ecall_collect_ofmonitor_util_r :: u8 where "hotcall_ecall_collect_ofmonitor_util_r = 36"
definition hotcall_ecall_cls_rule_is_loose_match :: u8 where "hotcall_ecall_cls_rule_is_loose_match = 37"
definition hotcall_ecall_flush_c :: u8 where "hotcall_ecall_flush_c = 38"
definition hotcall_ecall_flush_r :: u8 where "hotcall_ecall_flush_r = 39"
definition hotcall_ecall_flow_stats_c :: u8 where "hotcall_ecall_flow_stats_c = 40"
definition hotcall_ecall_flow_stats_r :: u8 where "hotcall_ecall_flow_stats_r = 41"
definition hotcall_ecall_oftable_cls_lookup :: u8 where "hotcall_ecall_oftable_cls_lookup = 42"
definition hotcall_ecall_dpif_destroy_c :: u8 where "hotcall_ecall_dpif_destroy_c = 44"
definition hotcall_ecall_dpif_destroy_r :: u8 where "hotcall_ecall_dpif_destroy_r = 45"
definition hotcall_ecall_cls_rule_format :: u8 where "hotcall_ecall_cls_rule_format = 46"
definition hotcall_ecall_miniflow_expand :: u8 where "hotcall_ecall_miniflow_expand = 47"
definition hotcall_ecall_rule_calculate_tag :: u8 where "hotcall_ecall_rule_calculate_tag = 48"
definition hotcall_ecall_oftable_update_taggable :: u8 where "hotcall_ecall_oftable_update_taggable = 50"
definition hotcall_ecall_oftable_is_other_table :: u8 where "hotcall_ecall_oftable_is_other_table = 51"
definition hotcall_ecall_rule_calculate_tag_s :: u8 where "hotcall_ecall_rule_calculate_tag_s = 52"
definition hotcall_ecall_oftable_hidden_check :: u8 where "hotcall_ecall_oftable_hidden_check = 53"
definition hotcall_ecall_oftable_set_name :: u8 where "hotcall_ecall_oftable_set_name = 54"
definition hotcall_ecall_minimask_get_vid_mask :: u8 where "hotcall_ecall_minimask_get_vid_mask = 55"
definition hotcall_ecall_miniflow_get_vid :: u8 where "hotcall_ecall_miniflow_get_vid = 56"
definition hotcall_ecall_ofproto_get_vlan_c :: u8 where "hotcall_ecall_ofproto_get_vlan_c = 57"
definition hotcall_ecall_ofproto_get_vlan_r :: u8 where "hotcall_ecall_ofproto_get_vlan_r = 58"
definition hotcall_ecall_oftable_get_cls_rules :: u8 where "hotcall_ecall_oftable_get_cls_rules = 59"
definition hotcall_ecall_get_cls_rules_and_enable_eviction :: u8 where "hotcall_ecall_get_cls_rules_and_enable_eviction = 60"
definition hotcall_ecall_eviction_group_add_rules :: u8 where "hotcall_ecall_eviction_group_add_rules = 61"
definition hotcall_ecall_ofproto_get_vlan_usage :: u8 where "hotcall_ecall_ofproto_get_vlan_usage = 62"
definition hotcall_ecall_ofproto_flush :: u8 where "hotcall_ecall_ofproto_flush = 63"
definition hotcall_ecall_ofproto_evict :: u8 where "hotcall_ecall_ofproto_evict = 64"
definition hotcall_ecall_add_flow :: u8 where "hotcall_ecall_add_flow = 65"
definition hotcall_ecall_collect_rules_loose :: u8 where "hotcall_ecall_collect_rules_loose = 66"
definition hotcall_ecall_collect_rules_strict :: u8 where "hotcall_ecall_collect_rules_strict = 67"
definition hotcall_ecall_delete_flows :: u8 where "hotcall_ecall_delete_flows = 68"
definition hotcall_ecall_oftable_configure :: u8 where "hotcall_ecall_oftable_configure = 69"
definition hotcall_ecall_need_to_evict :: u8 where "hotcall_ecall_need_to_evict = 70"
definition hotcall_ecall_collect_rules_loose_stats_request :: u8 where "hotcall_ecall_collect_rules_loose_stats_request = 71"
definition hotcall_ecall_ofproto_rule_send_removed :: u8 where "hotcall_ecall_ofproto_rule_send_removed = 72"
definition hotcall_ecall_oftable_remove_rules :: u8 where "hotcall_ecall_oftable_remove_rules = 73"
definition hotcall_ecall_cls_rules_format :: u8 where "hotcall_ecall_cls_rules_format = 75"
definition hotcall_ecall_minimatch_expand_and_get_priority :: u8 where "hotcall_ecall_minimatch_expand_and_get_priority = 76"
definition hotcall_ecall_miniflow_expand_and_tag :: u8 where "hotcall_ecall_miniflow_expand_and_tag = 77"

lemmas hotcall_ids =
  hotcall_ecall_oftable_set_readonly_def
  hotcall_ecall_oftable_is_readonly_def
  hotcall_ecall_cls_rule_init_def
  hotcall_ecall_cr_rule_overlaps_def
  hotcall_ecall_cls_rule_destroy_def
  hotcall_ecall_cls_rule_hash_def
  hotcall_ecall_cls_rule_equal_def
  hotcall_ecall_oftable_classifier_replace_def
  hotcall_ecall_oftable_get_flags_def
  hotcall_ecall_oftable_cls_count_def
  hotcall_ecall_is_eviction_fields_enabled_def
  hotcall_ecall_evg_add_rule_def
  hotcall_ecall_evg_remove_rule_def
  hotcall_ecall_cls_remove_def
  hotcall_ecall_choose_rule_to_evict_def
  hotcall_ecall_oftable_mflows_def
  hotcall_ecall_choose_rule_to_evict_p_def
  hotcall_ecall_minimatch_expand_def
  hotcall_ecall_cr_priority_def
  hotcall_ecall_oftable_cls_find_match_exactly_def
  hotcall_ecall_collect_rules_loose_c_def
  hotcall_ecall_collect_rules_loose_r_def
  hotcall_ecall_collect_rules_strict_c_def
  hotcall_ecall_collect_rules_strict_r_def
  hotcall_ecall_oftable_enable_eviction_def
  hotcall_ecall_oftable_disable_eviction_def
  hotcall_ecall_oftable_enable_eviction_c_def
  hotcall_ecall_oftable_enable_eviction_r_def
  hotcall_ecall_oftable_mflows_set_def
  hotcall_ecall_ofproto_destroy_def
  hotcall_ecall_total_rules_def
  hotcall_ecall_oftable_name_def
  hotcall_ecall_collect_ofmonitor_util_c_def
  hotcall_ecall_collect_ofmonitor_util_r_def
  hotcall_ecall_cls_rule_is_loose_match_def
  hotcall_ecall_flush_c_def
  hotcall_ecall_flush_r_def
  hotcall_ecall_flow_stats_c_def
  hotcall_ecall_flow_stats_r_def
  hotcall_ecall_oftable_cls_lookup_def
  hotcall_ecall_dpif_destroy_c_def
  hotcall_ecall_dpif_destroy_r_def
  hotcall_ecall_cls_rule_format_def
  hotcall_ecall_miniflow_expand_def
  hotcall_ecall_rule_calculate_tag_def
  hotcall_ecall_oftable_update_taggable_def
  hotcall_ecall_oftable_is_other_table_def
  hotcall_ecall_rule_calculate_tag_s_def
  hotcall_ecall_oftable_hidden_check_def
  hotcall_ecall_oftable_set_name_def
  hotcall_ecall_minimask_get_vid_mask_def
  hotcall_ecall_miniflow_get_vid_def
  hotcall_ecall_ofproto_get_vlan_c_def
  hotcall_ecall_ofproto_get_vlan_r_def
  hotcall_ecall_oftable_get_cls_rules_def
  hotcall_ecall_get_cls_rules_and_enable_eviction_def
  hotcall_ecall_eviction_group_add_rules_def
  hotcall_ecall_ofproto_get_vlan_usage_def
  hotcall_ecall_ofproto_flush_def
  hotcall_ecall_ofproto_evict_def
  hotcall_ecall_add_flow_def
  hotcall_ecall_collect_rules_loose_def
  hotcall_ecall_collect_rules_strict_def
  hotcall_ecall_delete_flows_def
  hotcall_ecall_oftable_configure_def
  hotcall_ecall_need_to_evict_def
  hotcall_ecall_collect_rules_loose_stats_request_def
  hotcall_ecall_ofproto_rule_send_removed_def
  hotcall_ecall_oftable_remove_rules_def
  hotcall_ecall_cls_rules_format_def
  hotcall_ecall_minimatch_expand_and_get_priority_def
  hotcall_ecall_miniflow_expand_and_tag_def

section \<open>The cases\<close>

definition call_oftable_set_readonly :: call_case where
  "call_oftable_set_readonly e fc s = do {
     b \<leftarrow> rd_u8 e fc 0; t \<leftarrow> rd_u8 e fc 1;
     (_, s) \<leftarrow> update b (\<lambda>br. ecall_oftable_set_readonly br (unat t)) s;
     no_ret fc ([]) s }"

definition call_oftable_is_readonly :: call_case where
  "call_oftable_is_readonly e fc s = do {
     b \<leftarrow> rd_u8 e fc 0; t \<leftarrow> rd_u8 e fc 1;
     (v, s) \<leftarrow> query b (\<lambda>br. ecall_oftable_is_readonly br (unat t)) s;
     ret 4 (v :: u32) fc ([]) s }"

definition call_cls_rule_init :: call_case where
  "call_cls_rule_init e fc s = do {
     b \<leftarrow> rd_u8 e fc 0; cr \<leftarrow> rule_arg fc 1; m \<leftarrow> match_arg fc 2;
     p \<leftarrow> rd_u32 e fc 3;
     (_, s) \<leftarrow> update b (\<lambda>br. ecall_cls_rule_init br cr m p) s;
     no_ret fc ([]) s }"

definition call_cr_rule_overlaps :: call_case where
  "call_cr_rule_overlaps e fc s = do {
     b \<leftarrow> rd_u8 e fc 0; t \<leftarrow> rd_u8 e fc 1; cr \<leftarrow> rule_arg fc 2;
     (v, s) \<leftarrow> query b (\<lambda>br. ecall_cr_rule_overlaps br (unat t) cr) s;
     ret 4 (of_bool v :: u32) fc ([]) s }"

definition call_cls_rule_destroy :: call_case where
  "call_cls_rule_destroy e fc s = do {
     b32 \<leftarrow> rd_u32 e fc 0; let b = (ucast b32 :: u8); cr \<leftarrow> rule_arg fc 1;
     (_, s) \<leftarrow> update b (\<lambda>br. ecall_cls_rule_destroy br cr) s;
     s \<leftarrow> uncache e cr s;
     no_ret fc ([]) s }"

definition call_cls_rule_hash :: call_case where
  "call_cls_rule_hash e fc s = do {
     b \<leftarrow> rd_u8 e fc 0; cr \<leftarrow> rule_arg fc 1; bas \<leftarrow> rd_u32 e fc 2;
     (v, s) \<leftarrow> query b (\<lambda>br. ecall_cls_rule_hash br cr bas) s;
     ret 4 (v :: u32) fc ([]) s }"

definition call_cls_rule_equal :: call_case where
  "call_cls_rule_equal e fc s = do {
     b \<leftarrow> rd_u8 e fc 0; cra \<leftarrow> rule_arg fc 1; crb \<leftarrow> rule_arg fc 2;
     (v, s) \<leftarrow> query b (\<lambda>br. ecall_cls_rule_equal br cra crb) s;
     ret 4 (of_bool v :: u32) fc ([]) s }"

definition call_oftable_classifier_replace :: call_case where
  "call_oftable_classifier_replace e fc s = do {
     b \<leftarrow> rd_u8 e fc 0; t \<leftarrow> rd_u8 e fc 1; cr \<leftarrow> rule_arg fc 2;
     (v, s) \<leftarrow> at_bridge b (\<lambda>br. ecall_oftable_classifier_replace br (unat t) cr) s;
     s \<leftarrow> (case v of None \<Rightarrow> Some s | Some q \<Rightarrow> uncache e q s);
     no_ret fc ([Cell v]) s }"

definition call_oftable_get_flags :: call_case where
  "call_oftable_get_flags e fc s = do {
     b \<leftarrow> rd_u8 e fc 0; t \<leftarrow> rd_u8 e fc 1;
     (v, s) \<leftarrow> query b (\<lambda>br. ecall_oftable_get_flags br (unat t)) s;
     ret 4 (v :: u32) fc ([]) s }"

definition call_oftable_cls_count :: call_case where
  "call_oftable_cls_count e fc s = do {
     b \<leftarrow> rd_u8 e fc 0; t \<leftarrow> rd_u8 e fc 1;
     (v, s) \<leftarrow> query b (\<lambda>br. ecall_oftable_cls_count br (unat t)) s;
     ret 4 (of_int v :: u32) fc ([]) s }"

definition call_is_eviction_fields_enabled :: call_case where
  "call_is_eviction_fields_enabled e fc s = do {
     b \<leftarrow> rd_u8 e fc 0; t \<leftarrow> rd_u8 e fc 1;
     (v, s) \<leftarrow> query b (\<lambda>br. ecall_is_eviction_fields_enabled br (unat t)) s;
     ret 4 (of_bool v :: u32) fc ([]) s }"

definition call_evg_add_rule :: call_case where
  "call_evg_add_rule e fc s = do {
     b \<leftarrow> rd_u8 e fc 0; t \<leftarrow> rd_u8 e fc 1; cr \<leftarrow> rule_arg fc 2;
     gp \<leftarrow> rd_u32 e fc 3; rp \<leftarrow> rd_u32 e fc 4; nd \<leftarrow> node_arg fc 5;
     (_, s) \<leftarrow> update b (\<lambda>br. ecall_evg_add_rule (e_value e) br (unat t) cr gp rp nd) s;
     no_ret fc ([]) s }"

definition call_evg_remove_rule :: call_case where
  "call_evg_remove_rule e fc s = do {
     b \<leftarrow> rd_u8 e fc 0; t \<leftarrow> rd_u8 e fc 1; cr \<leftarrow> rule_arg fc 2;
     (_, s) \<leftarrow> update b (\<lambda>br. ecall_evg_remove_rule br (unat t) cr) s;
     no_ret fc ([]) s }"

definition call_cls_remove :: call_case where
  "call_cls_remove e fc s = do {
     b \<leftarrow> rd_u8 e fc 0; t \<leftarrow> rd_u8 e fc 1; cr \<leftarrow> rule_arg fc 2;
     (_, s) \<leftarrow> update b (\<lambda>br. ecall_cls_remove br (unat t) cr) s;
     s \<leftarrow> uncache e cr s;
     no_ret fc ([]) s }"

definition call_choose_rule_to_evict :: call_case where
  "call_choose_rule_to_evict e fc s = do {
     b \<leftarrow> rd_u8 e fc 0; t \<leftarrow> rd_u8 e fc 1;
     (v, s) \<leftarrow> query b (\<lambda>br. ecall_choose_rule_to_evict br (unat t)) s;
     no_ret fc ([Cell v]) s }"

definition call_choose_rule_to_evict_p :: call_case where
  "call_choose_rule_to_evict_p e fc s = do {
     b \<leftarrow> rd_u8 e fc 0; t \<leftarrow> rd_u8 e fc 1; cr \<leftarrow> rule_arg fc 3;
     (v, s) \<leftarrow> at_bridge b (\<lambda>br. ecall_choose_rule_to_evict_p br (unat t) cr) s;
     no_ret fc ([Cell v]) s }"

definition call_oftable_mflows :: call_case where
  "call_oftable_mflows e fc s = do {
     b \<leftarrow> rd_u8 e fc 0; t \<leftarrow> rd_u8 e fc 1;
     (v, s) \<leftarrow> query b (\<lambda>br. ecall_oftable_mflows br (unat t)) s;
     ret 4 (v :: u32) fc ([]) s }"

definition call_oftable_mflows_set :: call_case where
  "call_oftable_mflows_set e fc s = do {
     b \<leftarrow> rd_u8 e fc 0; t \<leftarrow> rd_u8 e fc 1; val \<leftarrow> rd_u32 e fc 2;
     (_, s) \<leftarrow> update b (\<lambda>br. ecall_oftable_mflows_set br (unat t) val) s;
     no_ret fc ([]) s }"

definition call_minimatch_expand :: call_case where
  "call_minimatch_expand e fc s = do {
     b \<leftarrow> rd_u8 e fc 0; cr \<leftarrow> rule_arg fc 1;
     (m, s) \<leftarrow> query b (\<lambda>br. ecall_minimatch_expand br cr) s;
     no_ret fc ([Match m]) s }"

definition call_cr_priority :: call_case where
  "call_cr_priority e fc s = do {
     b \<leftarrow> rd_u8 e fc 0; cr \<leftarrow> rule_arg fc 1;
     (v, s) \<leftarrow> query b (\<lambda>br. ecall_cr_priority br cr) s;
     ret 4 (v :: u32) fc ([]) s }"

definition call_oftable_cls_find_match_exactly :: call_case where
  "call_oftable_cls_find_match_exactly e fc s = do {
     b \<leftarrow> rd_u8 e fc 0; t \<leftarrow> rd_u8 e fc 1; m \<leftarrow> match_arg fc 2;
     p \<leftarrow> rd_u32 e fc 3;
     (v, s) \<leftarrow> query b (\<lambda>br. ecall_oftable_cls_find_match_exactly br (unat t) m p) s;
     no_ret fc ([Cell v]) s }"

definition call_collect_rules_loose_c :: call_case where
  "call_collect_rules_loose_c e fc s = do {
     b \<leftarrow> rd_u8 e fc 0; n8 \<leftarrow> rd_u8 e fc 1; let n = (ucast n8 :: u32);
     t \<leftarrow> rd_u8 e fc 2; m \<leftarrow> match_arg fc 3;
     (v, s) \<leftarrow> query b (\<lambda>br. ecall_collect_rules_loose_c br (sint n) t m) s;
     ret 4 (of_nat v :: u32) fc ([]) s }"

definition call_collect_rules_loose_r :: call_case where
  "call_collect_rules_loose_r e fc s = do {
     b \<leftarrow> rd_u8 e fc 0; n8 \<leftarrow> rd_u8 e fc 1; let n = (ucast n8 :: u32);
     buf \<leftarrow> rules_arg fc 2; el \<leftarrow> rd_u32 e fc 3; t \<leftarrow> rd_u8 e fc 4;
     m \<leftarrow> match_arg fc 5;
     ((rs, _), s) \<leftarrow> query b (\<lambda>br. ecall_collect_rules_loose_r br (sint n) buf (sint el) t m) s;
     no_ret fc ([Rules rs]) s }"

definition call_collect_rules_strict_c :: call_case where
  "call_collect_rules_strict_c e fc s = do {
     b \<leftarrow> rd_u8 e fc 0; n8 \<leftarrow> rd_u8 e fc 1; let n = (ucast n8 :: u32);
     t \<leftarrow> rd_u8 e fc 2; m \<leftarrow> match_arg fc 3; p \<leftarrow> rd_u32 e fc 4;
     (v, s) \<leftarrow> query b (\<lambda>br. ecall_collect_rules_strict_c br (sint n) t m p) s;
     ret 4 (of_nat v :: u32) fc ([]) s }"

definition call_collect_rules_strict_r :: call_case where
  "call_collect_rules_strict_r e fc s = do {
     b \<leftarrow> rd_u8 e fc 0; n8 \<leftarrow> rd_u8 e fc 1; let n = (ucast n8 :: u32);
     buf \<leftarrow> rules_arg fc 2; el \<leftarrow> rd_u32 e fc 3; t \<leftarrow> rd_u8 e fc 4;
     m \<leftarrow> match_arg fc 5; p \<leftarrow> rd_u32 e fc 6;
     ((rs, _), s) \<leftarrow> query b (\<lambda>br. ecall_collect_rules_strict_r br (sint n) buf (sint el) t m p) s;
     no_ret fc ([Rules rs]) s }"

definition call_oftable_enable_eviction_c :: call_case where
  "call_oftable_enable_eviction_c e fc s = do {
     b \<leftarrow> rd_u8 e fc 0; t \<leftarrow> rd_u8 e fc 1;
     (v, s) \<leftarrow> query b (\<lambda>br. ecall_oftable_enable_eviction_c br (unat t)) s;
     ret 4 (of_nat v :: u32) fc ([]) s }"

definition call_oftable_enable_eviction_r :: call_case where
  "call_oftable_enable_eviction_r e fc s = do {
     b \<leftarrow> rd_u8 e fc 0; buf \<leftarrow> rules_arg fc 1; el \<leftarrow> rd_u32 e fc 2;
     t \<leftarrow> rd_u8 e fc 3;
     ((rs, _), s) \<leftarrow> query b (\<lambda>br. ecall_oftable_enable_eviction_r br (unat t) buf (sint el)) s;
     no_ret fc ([Rules rs]) s }"

definition call_collect_ofmonitor_util_c :: call_case where
  "call_collect_ofmonitor_util_c e fc s = do {
     b \<leftarrow> rd_u8 e fc 0; n8 \<leftarrow> rd_u8 e fc 1; let n = (ucast n8 :: u32);
     t \<leftarrow> rd_u8 e fc 2; mm \<leftarrow> minimatch_arg fc 3;
     (v, s) \<leftarrow> query b (\<lambda>br. ecall_collect_ofmonitor_util_c br (sint n) t mm) s;
     ret 4 (of_nat v :: u32) fc ([]) s }"

definition call_collect_ofmonitor_util_r :: call_case where
  "call_collect_ofmonitor_util_r e fc s = do {
     b \<leftarrow> rd_u8 e fc 0; n8 \<leftarrow> rd_u8 e fc 1; let n = (ucast n8 :: u32);
     buf \<leftarrow> rules_arg fc 2; el \<leftarrow> rd_u32 e fc 3; t \<leftarrow> rd_u8 e fc 4;
     mm \<leftarrow> minimatch_arg fc 5;
     ((rs, _), s) \<leftarrow> query b (\<lambda>br. ecall_collect_ofmonitor_util_r br (sint n) buf (sint el) t mm) s;
     no_ret fc ([Rules rs]) s }"

definition call_oftable_enable_eviction :: call_case where
  "call_oftable_enable_eviction e fc s = do {
     b \<leftarrow> rd_u8 e fc 0; t \<leftarrow> rd_u8 e fc 1; sfs \<leftarrow> subfields_arg fc 2;
     nf \<leftarrow> rd_u64 e fc 3; rv \<leftarrow> rd_u32 e fc 4; nc \<leftarrow> flag_arg fc 5;
     (nc', s) \<leftarrow> at_bridge b (\<lambda>br. do { fs \<leftarrow> array sfs nf; ecall_oftable_enable_eviction br (unat t) fs rv nc }) s;
     no_ret fc ([Flag nc']) s }"

definition call_oftable_disable_eviction :: call_case where
  "call_oftable_disable_eviction e fc s = do {
     b \<leftarrow> rd_u8 e fc 0; t \<leftarrow> rd_u8 e fc 1;
     (_, s) \<leftarrow> update b (\<lambda>br. ecall_oftable_disable_eviction br (unat t)) s;
     no_ret fc ([]) s }"

definition call_ofproto_destroy :: call_case where
  "call_ofproto_destroy e fc s = do {
     b \<leftarrow> rd_u8 e fc 0;
     (_, s) \<leftarrow> update b (\<lambda>br. ecall_ofproto_destroy br) s;
     no_ret fc ([]) s }"

definition call_total_rules :: call_case where
  "call_total_rules e fc s = do {
     b32 \<leftarrow> rd_u32 e fc 0; let b = (ucast b32 :: u8);
     (v, s) \<leftarrow> query b (\<lambda>br. ecall_total_rules br) s;
     ret 4 (v :: u32) fc ([]) s }"

definition call_oftable_name :: call_case where
  "call_oftable_name e fc s = do {
     b \<leftarrow> rd_u8 e fc 0; t \<leftarrow> rd_u8 e fc 1; buf \<leftarrow> chars_arg fc 2;
     len \<leftarrow> rd_u64 e fc 3;
     (nm, s) \<leftarrow> query b (\<lambda>br. ecall_oftable_name br (unat t) buf (unat len)) s;
     no_ret fc ([Chars nm]) s }"

definition call_cls_rule_is_loose_match :: call_case where
  "call_cls_rule_is_loose_match e fc s = do {
     b \<leftarrow> rd_u8 e fc 0; cr \<leftarrow> rule_arg fc 1; mm \<leftarrow> minimatch_arg fc 2;
     (v, s) \<leftarrow> query b (\<lambda>br. ecall_cls_rule_is_loose_match br cr mm) s;
     ret 4 (of_int v :: u32) fc ([]) s }"

definition call_flush_c :: call_case where
  "call_flush_c e fc s = do {
     b \<leftarrow> rd_u8 e fc 0;
     (v, s) \<leftarrow> query b (\<lambda>br. ecall_flush_c br) s;
     ret 4 (of_nat v :: u32) fc ([]) s }"

definition call_flush_r :: call_case where
  "call_flush_r e fc s = do {
     b \<leftarrow> rd_u8 e fc 0; buf \<leftarrow> rules_arg fc 1; el \<leftarrow> rd_u32 e fc 2;
     ((rs, _), s) \<leftarrow> query b (\<lambda>br. ecall_flush_r br buf (sint el)) s;
     no_ret fc ([Rules rs]) s }"

definition call_flow_stats_c :: call_case where
  "call_flow_stats_c e fc s = do {
     b \<leftarrow> rd_u8 e fc 0;
     (v, s) \<leftarrow> query b (\<lambda>br. ecall_flow_stats_c br) s;
     ret 4 (of_nat v :: u32) fc ([]) s }"

definition call_flow_stats_r :: call_case where
  "call_flow_stats_r e fc s = do {
     b \<leftarrow> rd_u8 e fc 0; buf \<leftarrow> rules_arg fc 1; el \<leftarrow> rd_u32 e fc 2;
     ((rs, _), s) \<leftarrow> query b (\<lambda>br. ecall_flow_stats_r br buf (sint el)) s;
     no_ret fc ([Rules rs]) s }"

definition call_oftable_cls_lookup :: call_case where
  "call_oftable_cls_lookup e fc s = do {
     b \<leftarrow> rd_u8 e fc 0; t \<leftarrow> rd_u8 e fc 2; f \<leftarrow> flow_arg fc 3;
     wc \<leftarrow> wildcards_arg fc 4;
     ((v, wc'), s) \<leftarrow> query b (\<lambda>br. ecall_oftable_cls_lookup br (unat t) f wc) s;
     s \<leftarrow> (case v of None \<Rightarrow> Some s | Some cr \<Rightarrow> encache e f wc' cr (uint b) (uint t) s);
     no_ret fc ([Cell v, Wildcards wc']) s }"

definition call_dpif_destroy_c :: call_case where
  "call_dpif_destroy_c e fc s = do {
     b \<leftarrow> rd_u8 e fc 0;
     (v, s) \<leftarrow> query b (\<lambda>br. ecall_dpif_destroy_c br) s;
     ret 4 (of_nat v :: u32) fc ([]) s }"

definition call_dpif_destroy_r :: call_case where
  "call_dpif_destroy_r e fc s = do {
     b \<leftarrow> rd_u8 e fc 0; buf \<leftarrow> rules_arg fc 1; el \<leftarrow> rd_u32 e fc 2;
     ((rs, _), s) \<leftarrow> query b (\<lambda>br. ecall_dpif_destroy_r br buf (sint el)) s;
     no_ret fc ([Rules rs]) s }"

definition call_cls_rule_format :: call_case where
  "call_cls_rule_format e fc s = do {
     b \<leftarrow> rd_u8 e fc 0; cr \<leftarrow> rule_arg fc 1;
     ((m, p), s) \<leftarrow> query b (\<lambda>br. ecall_cls_rule_format br cr) s;
     ret 4 (p :: u32) fc ([Match m]) s }"

definition call_miniflow_expand :: call_case where
  "call_miniflow_expand e fc s = do {
     b \<leftarrow> rd_u8 e fc 0; cr \<leftarrow> rule_arg fc 1;
     (f, s) \<leftarrow> query b (\<lambda>br. ecall_miniflow_expand br cr) s;
     no_ret fc ([Flow f]) s }"

definition call_rule_calculate_tag :: call_case where
  "call_rule_calculate_tag e fc s = do {
     b \<leftarrow> rd_u8 e fc 0; cr \<leftarrow> rule_arg fc 1; f \<leftarrow> flow_arg fc 2;
     t \<leftarrow> rd_u8 e fc 3;
     (v, s) \<leftarrow> query b (\<lambda>br. ecall_rule_calculate_tag br cr f (unat t)) s;
     ret 4 (v :: u32) fc ([]) s }"

definition call_oftable_update_taggable :: call_case where
  "call_oftable_update_taggable e fc s = do {
     b \<leftarrow> rd_u8 e fc 0; t \<leftarrow> rd_u8 e fc 1;
     (v, s) \<leftarrow> at_bridge b (\<lambda>br. ecall_oftable_update_taggable br (unat t)) s;
     s \<leftarrow> (if v = 4 then flush_cache s else Some s);
     ret 4 (of_int v :: u32) fc ([]) s }"

definition call_oftable_is_other_table :: call_case where
  "call_oftable_is_other_table e fc s = do {
     b \<leftarrow> rd_u8 e fc 0; t \<leftarrow> rd_u8 e fc 1;
     (v, s) \<leftarrow> query b (\<lambda>br. ecall_oftable_is_other_table br (unat t)) s;
     ret 4 (of_int v :: u32) fc ([]) s }"

definition call_rule_calculate_tag_s :: call_case where
  "call_rule_calculate_tag_s e fc s = do {
     b \<leftarrow> rd_u8 e fc 0; t \<leftarrow> rd_u8 e fc 1; f \<leftarrow> flow_arg fc 2;
     (v, s) \<leftarrow> query b (\<lambda>br. ecall_rule_calculate_tag_s br (unat t) f) s;
     ret 4 (v :: u32) fc ([]) s }"

definition call_oftable_hidden_check :: call_case where
  "call_oftable_hidden_check e fc s = do {
     b \<leftarrow> rd_u8 e fc 0;
     (_, s) \<leftarrow> query b (\<lambda>br. ecall_oftable_hidden_check br) s;
     no_ret fc ([]) s }"

definition call_oftable_set_name :: call_case where
  "call_oftable_set_name e fc s = do {
     b \<leftarrow> rd_u8 e fc 0; t \<leftarrow> rd_u8 e fc 1; nm \<leftarrow> str_arg fc 2;
     (_, s) \<leftarrow> update b (\<lambda>br. ecall_oftable_set_name b br (unat t) nm) s;
     no_ret fc ([]) s }"

definition call_minimask_get_vid_mask :: call_case where
  "call_minimask_get_vid_mask e fc s = do {
     b \<leftarrow> rd_u8 e fc 0; cr \<leftarrow> rule_arg fc 1;
     (v, s) \<leftarrow> query b (\<lambda>br. ecall_minimask_get_vid_mask br cr) s;
     ret 2 (v :: u16) fc ([]) s }"

definition call_miniflow_get_vid :: call_case where
  "call_miniflow_get_vid e fc s = do {
     b \<leftarrow> rd_u8 e fc 0; cr \<leftarrow> rule_arg fc 1;
     (v, s) \<leftarrow> query b (\<lambda>br. ecall_miniflow_get_vid br cr) s;
     ret 2 (v :: u16) fc ([]) s }"

definition call_ofproto_get_vlan_c :: call_case where
  "call_ofproto_get_vlan_c e fc s = do {
     b \<leftarrow> rd_u8 e fc 0;
     (v, s) \<leftarrow> query b (\<lambda>br. ecall_ofproto_get_vlan_c br (e_indet e)) s;
     ret 4 (of_nat v :: u32) fc ([]) s }"

definition call_ofproto_get_vlan_r :: call_case where
  "call_ofproto_get_vlan_r e fc s = do {
     b \<leftarrow> rd_u8 e fc 0; buf \<leftarrow> u16s_arg fc 1; el \<leftarrow> rd_u32 e fc 2;
     ((vs, _), s) \<leftarrow> query b (\<lambda>br. ecall_ofproto_get_vlan_r br (e_indet e) buf (sint el)) s;
     no_ret fc ([U16s vs]) s }"

definition call_oftable_get_cls_rules :: call_case where
  "call_oftable_get_cls_rules e fc s = do {
     b \<leftarrow> rd_u8 e fc 0; t \<leftarrow> rd_u8 e fc 1; sta \<leftarrow> rd_u64 e fc 2;
     sto \<leftarrow> rd_u64 e fc 3; bs \<leftarrow> rd_u64 e fc 5;
     ((rs, cnt), s) \<leftarrow> query b (\<lambda>br. ecall_oftable_get_cls_rules br (unat t) (unat sta) (unat sto) (unat bs)) s;
     ret 8 (of_nat (length rs) :: u64) fc ([Rules rs, size_obj (of_nat cnt)]) s }"

definition call_get_cls_rules_and_enable_eviction :: call_case where
  "call_get_cls_rules_and_enable_eviction e fc s = do {
     b \<leftarrow> rd_u8 e fc 0; t \<leftarrow> rd_u8 e fc 1; bs \<leftarrow> rd_u64 e fc 5;
     sfs \<leftarrow> subfields_arg fc 7; nf \<leftarrow> rd_u64 e fc 8; rv \<leftarrow> rd_u32 e fc 9;
     nc \<leftarrow> flag_arg fc 10;
     ((res, nc', en'), s) \<leftarrow> at_bridge b (\<lambda>br. do { fs \<leftarrow> array sfs nf; (res, nc, en, br) \<leftarrow> ecall_get_cls_rules_and_enable_eviction br (unat t) (unat bs) fs rv nc; Some ((res, nc, en), br) }) s;
     ret 8 ((case res of None \<Rightarrow> 0 | Some (rs, cnt) \<Rightarrow> of_nat (length rs)) :: u64) fc ((case res of None \<Rightarrow> [] | Some (rs, cnt) \<Rightarrow> [Rules rs, size_obj (of_nat cnt)]) @ [Flag nc', Flag en']) s }"

definition call_eviction_group_add_rules :: call_case where
  "call_eviction_group_add_rules e fc s = do {
     b32 \<leftarrow> rd_u32 e fc 0; let b = (ucast b32 :: u8); t32 \<leftarrow> rd_u32 e fc 1;
     let t = (ucast t32 :: u8); n \<leftarrow> rd_u64 e fc 2; crs \<leftarrow> rules_arg fc 3;
     nds \<leftarrow> nodes_arg fc 4; ps \<leftarrow> u32s_arg fc 5; gp \<leftarrow> rd_u32 e fc 6;
     (_, s) \<leftarrow> update b (\<lambda>br. do { cs \<leftarrow> array crs n; ns \<leftarrow> array nds n; qs \<leftarrow> array ps n; ecall_eviction_group_add_rules (e_value e) br (unat t) (zip cs (zip ns qs)) gp }) s;
     no_ret fc ([]) s }"

definition call_ofproto_get_vlan_usage :: call_case where
  "call_ofproto_get_vlan_usage e fc s = do {
     b \<leftarrow> rd_u8 e fc 0; bs \<leftarrow> rd_u64 e fc 1; sta \<leftarrow> rd_u64 e fc 3;
     sto \<leftarrow> rd_u64 e fc 4;
     ((vs, cnt), s) \<leftarrow> query b (\<lambda>br. ecall_ofproto_get_vlan_usage br (e_indet e) (unat bs) (unat sta) (unat sto)) s;
     ret 8 (of_nat (length vs) :: u64) fc ([U16s vs, size_obj (of_nat cnt)]) s }"

definition call_ofproto_flush :: call_case where
  "call_ofproto_flush e fc s = do {
     b \<leftarrow> rd_u8 e fc 0; bs \<leftarrow> rd_u64 e fc 3;
     ((acc, cnt), s) \<leftarrow> at_bridge b (\<lambda>br. do { (acc, cnt, br) \<leftarrow> ecall_ofproto_flush br (unat bs); Some ((acc, cnt), br) }) s;
     s \<leftarrow> flush_cache s;
     ret 8 (of_nat (length acc) :: u64) fc ([Rules (map fst acc), U32s (map snd acc), size_obj (of_int cnt)]) s }"

definition call_ofproto_evict :: call_case where
  "call_ofproto_evict e fc s = do {
     b \<leftarrow> rd_u8 e fc 0; n8 \<leftarrow> rd_u8 e fc 1; let n = (ucast n8 :: u32);
     sta \<leftarrow> rd_u64 e fc 2; bs \<leftarrow> rd_u64 e fc 5;
     ((w, evs, tot), s) \<leftarrow> at_bridge b (\<lambda>br. do { (w, evs, tot, br) \<leftarrow> ecall_ofproto_evict (e_value e) br (sint n) (unat sta) (unat bs); Some ((w, evs, tot), br) }) s;
     ret 8 (w :: u64) fc ([U32s (map snd evs), Rules (map fst evs), size_obj (of_int tot)]) s }"

definition call_add_flow :: call_case where
  "call_add_flow e fc s = do {
     b \<leftarrow> rd_u8 e fc 0; t \<leftarrow> rd_u8 e fc 1; cr \<leftarrow> rule_arg fc 2;
     vic \<leftarrow> cell_arg fc 3; evi \<leftarrow> cell_arg fc 4; m \<leftarrow> match_arg fc 5;
     hsh \<leftarrow> rd_u32 e fc 6; vid \<leftarrow> rd_u16 e fc 7; vm \<leftarrow> rd_u16 e fc 8;
     p \<leftarrow> rd_u32 e fc 9; fl \<leftarrow> rd_u16 e fc 10; gp \<leftarrow> rd_u32 e fc 11;
     rp \<leftarrow> rd_u32 e fc 12; nd \<leftarrow> node_arg fc 13; pend \<leftarrow> rules_arg fc 14;
     np \<leftarrow> rd_u32 e fc 15; tmo \<leftarrow> rd_bool e fc 16; ovf \<leftarrow> flag_arg fc 17;
     modi \<leftarrow> flag_arg fc 18; ovl \<leftarrow> flag_arg fc 19; delp \<leftarrow> flag_arg fc 20;
     ro \<leftarrow> flag_arg fc 21;
     (out, s) \<leftarrow> at_bridge b (\<lambda>br. do { pd \<leftarrow> int_array pend np; ecall_add_flow (e_value e) br (unat t) cr m p fl gp rp nd pd tmo (add_out vic evi hsh vid vm ovf modi ovl delp ro) }) s;
     no_ret fc (out_objs out) s }"

definition call_collect_rules_strict :: call_case where
  "call_collect_rules_strict e fc s = do {
     b32 \<leftarrow> rd_u32 e fc 0; let b = (ucast b32 :: u8); t32 \<leftarrow> rd_u32 e fc 1;
     let t = (ucast t32 :: u8); n \<leftarrow> rd_u32 e fc 2; m \<leftarrow> match_arg fc 3;
     p \<leftarrow> rd_u32 e fc 4; bs \<leftarrow> rd_u64 e fc 8;
     (cs, s) \<leftarrow> query b (\<lambda>br. ecall_collect_rules_strict br t (sint n) m p (unat bs)) s;
     ret 8 (of_nat (length cs) :: u64) fc (collected_objs cs) s }"

definition call_collect_rules_loose :: call_case where
  "call_collect_rules_loose e fc s = do {
     b \<leftarrow> rd_u8 e fc 0; t \<leftarrow> rd_u8 e fc 1; n \<leftarrow> rd_u32 e fc 2;
     sta \<leftarrow> rd_u64 e fc 3; m \<leftarrow> match_arg fc 4; bs \<leftarrow> rd_u64 e fc 7;
     ((cs, cnt), s) \<leftarrow> query b (\<lambda>br. ecall_collect_rules_loose br t (sint n) (unat sta) m (unat bs)) s;
     ret 8 (of_nat (length cs) :: u64) fc (collected_objs cs @ [size_obj (of_nat cnt)]) s }"

definition call_delete_flows :: call_case where
  "call_delete_flows e fc s = do {
     b \<leftarrow> rd_u8 e fc 0; ts \<leftarrow> u8s_arg fc 1; crs \<leftarrow> rules_arg fc 2;
     n \<leftarrow> rd_u64 e fc 7;
     (ds, s) \<leftarrow> at_bridge b (\<lambda>br. do { us \<leftarrow> array ts n; cs \<leftarrow> array crs n; ecall_delete_flows br (zip (map unat us) cs) }) s;
     s \<leftarrow> uncache_all e (take (unat n) crs) s;
     no_ret fc (map Deleted ds) s }"

definition call_oftable_configure :: call_case where
  "call_oftable_configure e fc s = do {
     b \<leftarrow> rd_u8 e fc 0; t \<leftarrow> rd_u8 e fc 1; nm \<leftarrow> str_arg fc 2;
     mf \<leftarrow> rd_u32 e fc 3; gs \<leftarrow> groups_arg fc 4; need \<leftarrow> flag_arg fc 6;
     ro \<leftarrow> flag_arg fc 7;
     ((need', ro'), s) \<leftarrow> at_bridge b (\<lambda>br. do { (need, ro, br) \<leftarrow> ecall_oftable_configure b br (unat t) nm mf gs need ro; Some ((need, ro), br) }) s;
     no_ret fc ([Flag need', Flag ro']) s }"

definition call_need_to_evict :: call_case where
  "call_need_to_evict e fc s = do {
     b \<leftarrow> rd_u8 e fc 0; t \<leftarrow> rd_u8 e fc 1;
     (v, s) \<leftarrow> query b (\<lambda>br. ecall_need_to_evict br (unat t)) s;
     ret 1 (of_bool v :: u8) fc ([]) s }"

definition call_collect_rules_loose_stats_request :: call_case where
  "call_collect_rules_loose_stats_request e fc s = do {
     b \<leftarrow> rd_u8 e fc 0; t \<leftarrow> rd_u8 e fc 1; n \<leftarrow> rd_u32 e fc 2;
     sta \<leftarrow> rd_u64 e fc 3; bs \<leftarrow> rd_u64 e fc 4; m \<leftarrow> match_arg fc 5;
     ((es, cnt), s) \<leftarrow> query b (\<lambda>br. ecall_collect_rules_loose_stats_request br t (sint n) (unat sta) (unat bs) m) s;
     ret 8 (of_nat (length es) :: u64) fc (map (\<lambda>(cr, m, p). Stat cr m p) es @ [size_obj (of_nat cnt)]) s }"

definition call_ofproto_rule_send_removed :: call_case where
  "call_ofproto_rule_send_removed e fc s = do {
     b \<leftarrow> rd_u8 e fc 0; cr \<leftarrow> rule_arg fc 1;
     (v, s) \<leftarrow> query b (\<lambda>br. ecall_ofproto_rule_send_removed br cr) s;
     no_ret fc ((case v of None \<Rightarrow> [Flag True] | Some (m, p) \<Rightarrow> [Match m, u32_obj p, Flag False])) s }"

definition call_oftable_remove_rules :: call_case where
  "call_oftable_remove_rules e fc s = do {
     b \<leftarrow> rd_u8 e fc 0; ts \<leftarrow> u8s_arg fc 1; crs \<leftarrow> rules_arg fc 2;
     n \<leftarrow> rd_u64 e fc 4;
     (hs, s) \<leftarrow> at_bridge b (\<lambda>br. do { us \<leftarrow> array ts n; cs \<leftarrow> array crs n; ecall_oftable_remove_rules br (zip (map unat us) cs) }) s;
     s \<leftarrow> uncache_all e (take (unat n) crs) s;
     no_ret fc (map Flag hs) s }"

definition call_minimatch_expand_and_get_priority :: call_case where
  "call_minimatch_expand_and_get_priority e fc s = do {
     b \<leftarrow> rd_u8 e fc 0; cr \<leftarrow> rule_arg fc 1;
     ((m, p), s) \<leftarrow> query b (\<lambda>br. ecall_minimatch_expand_and_get_priority br cr) s;
     no_ret fc ([Match m, u32_obj p]) s }"

definition call_miniflow_expand_and_tag :: call_case where
  "call_miniflow_expand_and_tag e fc s = do {
     b \<leftarrow> rd_u8 e fc 0; cr \<leftarrow> rule_arg fc 1; t \<leftarrow> rd_u8 e fc 3;
     ((f, v), s) \<leftarrow> query b (\<lambda>br. ecall_miniflow_expand_and_tag br cr (unat t)) s;
     no_ret fc ([Flow f]) s }"

section \<open>The dispatcher\<close>

definition call_table :: "(u8 \<times> call_case) list" where
  "call_table = [
     (hotcall_ecall_oftable_set_readonly, call_oftable_set_readonly),
     (hotcall_ecall_oftable_is_readonly, call_oftable_is_readonly),
     (hotcall_ecall_cls_rule_init, call_cls_rule_init),
     (hotcall_ecall_cr_rule_overlaps, call_cr_rule_overlaps),
     (hotcall_ecall_cls_rule_destroy, call_cls_rule_destroy),
     (hotcall_ecall_cls_rule_hash, call_cls_rule_hash),
     (hotcall_ecall_cls_rule_equal, call_cls_rule_equal),
     (hotcall_ecall_oftable_classifier_replace, call_oftable_classifier_replace),
     (hotcall_ecall_oftable_get_flags, call_oftable_get_flags),
     (hotcall_ecall_oftable_cls_count, call_oftable_cls_count),
     (hotcall_ecall_is_eviction_fields_enabled, call_is_eviction_fields_enabled),
     (hotcall_ecall_evg_add_rule, call_evg_add_rule),
     (hotcall_ecall_evg_remove_rule, call_evg_remove_rule),
     (hotcall_ecall_cls_remove, call_cls_remove),
     (hotcall_ecall_choose_rule_to_evict, call_choose_rule_to_evict),
     (hotcall_ecall_choose_rule_to_evict_p, call_choose_rule_to_evict_p),
     (hotcall_ecall_oftable_mflows, call_oftable_mflows),
     (hotcall_ecall_oftable_mflows_set, call_oftable_mflows_set),
     (hotcall_ecall_minimatch_expand, call_minimatch_expand),
     (hotcall_ecall_cr_priority, call_cr_priority),
     (hotcall_ecall_oftable_cls_find_match_exactly, call_oftable_cls_find_match_exactly),
     (hotcall_ecall_collect_rules_loose_c, call_collect_rules_loose_c),
     (hotcall_ecall_collect_rules_loose_r, call_collect_rules_loose_r),
     (hotcall_ecall_collect_rules_strict_c, call_collect_rules_strict_c),
     (hotcall_ecall_collect_rules_strict_r, call_collect_rules_strict_r),
     (hotcall_ecall_oftable_enable_eviction_c, call_oftable_enable_eviction_c),
     (hotcall_ecall_oftable_enable_eviction_r, call_oftable_enable_eviction_r),
     (hotcall_ecall_collect_ofmonitor_util_c, call_collect_ofmonitor_util_c),
     (hotcall_ecall_collect_ofmonitor_util_r, call_collect_ofmonitor_util_r),
     (hotcall_ecall_oftable_enable_eviction, call_oftable_enable_eviction),
     (hotcall_ecall_oftable_disable_eviction, call_oftable_disable_eviction),
     (hotcall_ecall_ofproto_destroy, call_ofproto_destroy),
     (hotcall_ecall_total_rules, call_total_rules),
     (hotcall_ecall_oftable_name, call_oftable_name),
     (hotcall_ecall_cls_rule_is_loose_match, call_cls_rule_is_loose_match),
     (hotcall_ecall_flush_c, call_flush_c),
     (hotcall_ecall_flush_r, call_flush_r),
     (hotcall_ecall_flow_stats_c, call_flow_stats_c),
     (hotcall_ecall_flow_stats_r, call_flow_stats_r),
     (hotcall_ecall_oftable_cls_lookup, call_oftable_cls_lookup),
     (hotcall_ecall_dpif_destroy_c, call_dpif_destroy_c),
     (hotcall_ecall_dpif_destroy_r, call_dpif_destroy_r),
     (hotcall_ecall_cls_rule_format, call_cls_rule_format),
     (hotcall_ecall_miniflow_expand, call_miniflow_expand),
     (hotcall_ecall_rule_calculate_tag, call_rule_calculate_tag),
     (hotcall_ecall_oftable_update_taggable, call_oftable_update_taggable),
     (hotcall_ecall_oftable_is_other_table, call_oftable_is_other_table),
     (hotcall_ecall_rule_calculate_tag_s, call_rule_calculate_tag_s),
     (hotcall_ecall_oftable_hidden_check, call_oftable_hidden_check),
     (hotcall_ecall_oftable_set_name, call_oftable_set_name),
     (hotcall_ecall_minimask_get_vid_mask, call_minimask_get_vid_mask),
     (hotcall_ecall_miniflow_get_vid, call_miniflow_get_vid),
     (hotcall_ecall_ofproto_get_vlan_c, call_ofproto_get_vlan_c),
     (hotcall_ecall_ofproto_get_vlan_r, call_ofproto_get_vlan_r),
     (hotcall_ecall_oftable_get_cls_rules, call_oftable_get_cls_rules),
     (hotcall_ecall_get_cls_rules_and_enable_eviction, call_get_cls_rules_and_enable_eviction),
     (hotcall_ecall_eviction_group_add_rules, call_eviction_group_add_rules),
     (hotcall_ecall_ofproto_get_vlan_usage, call_ofproto_get_vlan_usage),
     (hotcall_ecall_ofproto_flush, call_ofproto_flush),
     (hotcall_ecall_ofproto_evict, call_ofproto_evict),
     (hotcall_ecall_add_flow, call_add_flow),
     (hotcall_ecall_collect_rules_strict, call_collect_rules_strict),
     (hotcall_ecall_collect_rules_loose, call_collect_rules_loose),
     (hotcall_ecall_delete_flows, call_delete_flows),
     (hotcall_ecall_oftable_configure, call_oftable_configure),
     (hotcall_ecall_need_to_evict, call_need_to_evict),
     (hotcall_ecall_collect_rules_loose_stats_request, call_collect_rules_loose_stats_request),
     (hotcall_ecall_ofproto_rule_send_removed, call_ofproto_rule_send_removed),
     (hotcall_ecall_oftable_remove_rules, call_oftable_remove_rules),
     (hotcall_ecall_minimatch_expand_and_get_priority, call_minimatch_expand_and_get_priority),
     (hotcall_ecall_miniflow_expand_and_tag, call_miniflow_expand_and_tag)]"

text \<open>A number without a case is only reported on the console.\<close>

definition execute_function :: "env \<Rightarrow> function_call \<Rightarrow> sgx \<Rightarrow> u8 list outcome" where
  "execute_function e fc s = (case map_of call_table (fc_id fc) of Some f \<Rightarrow> f e fc s | None \<Rightarrow> no_ret fc [] s)"

lemma table_oftable_set_readonly: "map_of call_table hotcall_ecall_oftable_set_readonly = Some call_oftable_set_readonly"
  by (simp add: call_table_def hotcall_ids)

lemma table_oftable_is_readonly: "map_of call_table hotcall_ecall_oftable_is_readonly = Some call_oftable_is_readonly"
  by (simp add: call_table_def hotcall_ids)

lemma table_cls_rule_init: "map_of call_table hotcall_ecall_cls_rule_init = Some call_cls_rule_init"
  by (simp add: call_table_def hotcall_ids)

lemma table_cr_rule_overlaps: "map_of call_table hotcall_ecall_cr_rule_overlaps = Some call_cr_rule_overlaps"
  by (simp add: call_table_def hotcall_ids)

lemma table_cls_rule_destroy: "map_of call_table hotcall_ecall_cls_rule_destroy = Some call_cls_rule_destroy"
  by (simp add: call_table_def hotcall_ids)

lemma table_cls_rule_hash: "map_of call_table hotcall_ecall_cls_rule_hash = Some call_cls_rule_hash"
  by (simp add: call_table_def hotcall_ids)

lemma table_cls_rule_equal: "map_of call_table hotcall_ecall_cls_rule_equal = Some call_cls_rule_equal"
  by (simp add: call_table_def hotcall_ids)

lemma table_oftable_classifier_replace: "map_of call_table hotcall_ecall_oftable_classifier_replace = Some call_oftable_classifier_replace"
  by (simp add: call_table_def hotcall_ids)

lemma table_oftable_get_flags: "map_of call_table hotcall_ecall_oftable_get_flags = Some call_oftable_get_flags"
  by (simp add: call_table_def hotcall_ids)

lemma table_oftable_cls_count: "map_of call_table hotcall_ecall_oftable_cls_count = Some call_oftable_cls_count"
  by (simp add: call_table_def hotcall_ids)

lemma table_is_eviction_fields_enabled: "map_of call_table hotcall_ecall_is_eviction_fields_enabled = Some call_is_eviction_fields_enabled"
  by (simp add: call_table_def hotcall_ids)

lemma table_evg_add_rule: "map_of call_table hotcall_ecall_evg_add_rule = Some call_evg_add_rule"
  by (simp add: call_table_def hotcall_ids)

lemma table_evg_remove_rule: "map_of call_table hotcall_ecall_evg_remove_rule = Some call_evg_remove_rule"
  by (simp add: call_table_def hotcall_ids)

lemma table_cls_remove: "map_of call_table hotcall_ecall_cls_remove = Some call_cls_remove"
  by (simp add: call_table_def hotcall_ids)

lemma table_choose_rule_to_evict: "map_of call_table hotcall_ecall_choose_rule_to_evict = Some call_choose_rule_to_evict"
  by (simp add: call_table_def hotcall_ids)

lemma table_choose_rule_to_evict_p: "map_of call_table hotcall_ecall_choose_rule_to_evict_p = Some call_choose_rule_to_evict_p"
  by (simp add: call_table_def hotcall_ids)

lemma table_oftable_mflows: "map_of call_table hotcall_ecall_oftable_mflows = Some call_oftable_mflows"
  by (simp add: call_table_def hotcall_ids)

lemma table_oftable_mflows_set: "map_of call_table hotcall_ecall_oftable_mflows_set = Some call_oftable_mflows_set"
  by (simp add: call_table_def hotcall_ids)

lemma table_minimatch_expand: "map_of call_table hotcall_ecall_minimatch_expand = Some call_minimatch_expand"
  by (simp add: call_table_def hotcall_ids)

lemma table_cr_priority: "map_of call_table hotcall_ecall_cr_priority = Some call_cr_priority"
  by (simp add: call_table_def hotcall_ids)

lemma table_oftable_cls_find_match_exactly: "map_of call_table hotcall_ecall_oftable_cls_find_match_exactly = Some call_oftable_cls_find_match_exactly"
  by (simp add: call_table_def hotcall_ids)

lemma table_collect_rules_loose_c: "map_of call_table hotcall_ecall_collect_rules_loose_c = Some call_collect_rules_loose_c"
  by (simp add: call_table_def hotcall_ids)

lemma table_collect_rules_loose_r: "map_of call_table hotcall_ecall_collect_rules_loose_r = Some call_collect_rules_loose_r"
  by (simp add: call_table_def hotcall_ids)

lemma table_collect_rules_strict_c: "map_of call_table hotcall_ecall_collect_rules_strict_c = Some call_collect_rules_strict_c"
  by (simp add: call_table_def hotcall_ids)

lemma table_collect_rules_strict_r: "map_of call_table hotcall_ecall_collect_rules_strict_r = Some call_collect_rules_strict_r"
  by (simp add: call_table_def hotcall_ids)

lemma table_oftable_enable_eviction_c: "map_of call_table hotcall_ecall_oftable_enable_eviction_c = Some call_oftable_enable_eviction_c"
  by (simp add: call_table_def hotcall_ids)

lemma table_oftable_enable_eviction_r: "map_of call_table hotcall_ecall_oftable_enable_eviction_r = Some call_oftable_enable_eviction_r"
  by (simp add: call_table_def hotcall_ids)

lemma table_collect_ofmonitor_util_c: "map_of call_table hotcall_ecall_collect_ofmonitor_util_c = Some call_collect_ofmonitor_util_c"
  by (simp add: call_table_def hotcall_ids)

lemma table_collect_ofmonitor_util_r: "map_of call_table hotcall_ecall_collect_ofmonitor_util_r = Some call_collect_ofmonitor_util_r"
  by (simp add: call_table_def hotcall_ids)

lemma table_oftable_enable_eviction: "map_of call_table hotcall_ecall_oftable_enable_eviction = Some call_oftable_enable_eviction"
  by (simp add: call_table_def hotcall_ids)

lemma table_oftable_disable_eviction: "map_of call_table hotcall_ecall_oftable_disable_eviction = Some call_oftable_disable_eviction"
  by (simp add: call_table_def hotcall_ids)

lemma table_ofproto_destroy: "map_of call_table hotcall_ecall_ofproto_destroy = Some call_ofproto_destroy"
  by (simp add: call_table_def hotcall_ids)

lemma table_total_rules: "map_of call_table hotcall_ecall_total_rules = Some call_total_rules"
  by (simp add: call_table_def hotcall_ids)

lemma table_oftable_name: "map_of call_table hotcall_ecall_oftable_name = Some call_oftable_name"
  by (simp add: call_table_def hotcall_ids)

lemma table_cls_rule_is_loose_match: "map_of call_table hotcall_ecall_cls_rule_is_loose_match = Some call_cls_rule_is_loose_match"
  by (simp add: call_table_def hotcall_ids)

lemma table_flush_c: "map_of call_table hotcall_ecall_flush_c = Some call_flush_c"
  by (simp add: call_table_def hotcall_ids)

lemma table_flush_r: "map_of call_table hotcall_ecall_flush_r = Some call_flush_r"
  by (simp add: call_table_def hotcall_ids)

lemma table_flow_stats_c: "map_of call_table hotcall_ecall_flow_stats_c = Some call_flow_stats_c"
  by (simp add: call_table_def hotcall_ids)

lemma table_flow_stats_r: "map_of call_table hotcall_ecall_flow_stats_r = Some call_flow_stats_r"
  by (simp add: call_table_def hotcall_ids)

lemma table_oftable_cls_lookup: "map_of call_table hotcall_ecall_oftable_cls_lookup = Some call_oftable_cls_lookup"
  by (simp add: call_table_def hotcall_ids)

lemma table_dpif_destroy_c: "map_of call_table hotcall_ecall_dpif_destroy_c = Some call_dpif_destroy_c"
  by (simp add: call_table_def hotcall_ids)

lemma table_dpif_destroy_r: "map_of call_table hotcall_ecall_dpif_destroy_r = Some call_dpif_destroy_r"
  by (simp add: call_table_def hotcall_ids)

lemma table_cls_rule_format: "map_of call_table hotcall_ecall_cls_rule_format = Some call_cls_rule_format"
  by (simp add: call_table_def hotcall_ids)

lemma table_miniflow_expand: "map_of call_table hotcall_ecall_miniflow_expand = Some call_miniflow_expand"
  by (simp add: call_table_def hotcall_ids)

lemma table_rule_calculate_tag: "map_of call_table hotcall_ecall_rule_calculate_tag = Some call_rule_calculate_tag"
  by (simp add: call_table_def hotcall_ids)

lemma table_oftable_update_taggable: "map_of call_table hotcall_ecall_oftable_update_taggable = Some call_oftable_update_taggable"
  by (simp add: call_table_def hotcall_ids)

lemma table_oftable_is_other_table: "map_of call_table hotcall_ecall_oftable_is_other_table = Some call_oftable_is_other_table"
  by (simp add: call_table_def hotcall_ids)

lemma table_rule_calculate_tag_s: "map_of call_table hotcall_ecall_rule_calculate_tag_s = Some call_rule_calculate_tag_s"
  by (simp add: call_table_def hotcall_ids)

lemma table_oftable_hidden_check: "map_of call_table hotcall_ecall_oftable_hidden_check = Some call_oftable_hidden_check"
  by (simp add: call_table_def hotcall_ids)

lemma table_oftable_set_name: "map_of call_table hotcall_ecall_oftable_set_name = Some call_oftable_set_name"
  by (simp add: call_table_def hotcall_ids)

lemma table_minimask_get_vid_mask: "map_of call_table hotcall_ecall_minimask_get_vid_mask = Some call_minimask_get_vid_mask"
  by (simp add: call_table_def hotcall_ids)

lemma table_miniflow_get_vid: "map_of call_table hotcall_ecall_miniflow_get_vid = Some call_miniflow_get_vid"
  by (simp add: call_table_def hotcall_ids)

lemma table_ofproto_get_vlan_c: "map_of call_table hotcall_ecall_ofproto_get_vlan_c = Some call_ofproto_get_vlan_c"
  by (simp add: call_table_def hotcall_ids)

lemma table_ofproto_get_vlan_r: "map_of call_table hotcall_ecall_ofproto_get_vlan_r = Some call_ofproto_get_vlan_r"
  by (simp add: call_table_def hotcall_ids)

lemma table_oftable_get_cls_rules: "map_of call_table hotcall_ecall_oftable_get_cls_rules = Some call_oftable_get_cls_rules"
  by (simp add: call_table_def hotcall_ids)

lemma table_get_cls_rules_and_enable_eviction: "map_of call_table hotcall_ecall_get_cls_rules_and_enable_eviction = Some call_get_cls_rules_and_enable_eviction"
  by (simp add: call_table_def hotcall_ids)

lemma table_eviction_group_add_rules: "map_of call_table hotcall_ecall_eviction_group_add_rules = Some call_eviction_group_add_rules"
  by (simp add: call_table_def hotcall_ids)

lemma table_ofproto_get_vlan_usage: "map_of call_table hotcall_ecall_ofproto_get_vlan_usage = Some call_ofproto_get_vlan_usage"
  by (simp add: call_table_def hotcall_ids)

lemma table_ofproto_flush: "map_of call_table hotcall_ecall_ofproto_flush = Some call_ofproto_flush"
  by (simp add: call_table_def hotcall_ids)

lemma table_ofproto_evict: "map_of call_table hotcall_ecall_ofproto_evict = Some call_ofproto_evict"
  by (simp add: call_table_def hotcall_ids)

lemma table_add_flow: "map_of call_table hotcall_ecall_add_flow = Some call_add_flow"
  by (simp add: call_table_def hotcall_ids)

lemma table_collect_rules_strict: "map_of call_table hotcall_ecall_collect_rules_strict = Some call_collect_rules_strict"
  by (simp add: call_table_def hotcall_ids)

lemma table_collect_rules_loose: "map_of call_table hotcall_ecall_collect_rules_loose = Some call_collect_rules_loose"
  by (simp add: call_table_def hotcall_ids)

lemma table_delete_flows: "map_of call_table hotcall_ecall_delete_flows = Some call_delete_flows"
  by (simp add: call_table_def hotcall_ids)

lemma table_oftable_configure: "map_of call_table hotcall_ecall_oftable_configure = Some call_oftable_configure"
  by (simp add: call_table_def hotcall_ids)

lemma table_need_to_evict: "map_of call_table hotcall_ecall_need_to_evict = Some call_need_to_evict"
  by (simp add: call_table_def hotcall_ids)

lemma table_collect_rules_loose_stats_request: "map_of call_table hotcall_ecall_collect_rules_loose_stats_request = Some call_collect_rules_loose_stats_request"
  by (simp add: call_table_def hotcall_ids)

lemma table_ofproto_rule_send_removed: "map_of call_table hotcall_ecall_ofproto_rule_send_removed = Some call_ofproto_rule_send_removed"
  by (simp add: call_table_def hotcall_ids)

lemma table_oftable_remove_rules: "map_of call_table hotcall_ecall_oftable_remove_rules = Some call_oftable_remove_rules"
  by (simp add: call_table_def hotcall_ids)

lemma table_minimatch_expand_and_get_priority: "map_of call_table hotcall_ecall_minimatch_expand_and_get_priority = Some call_minimatch_expand_and_get_priority"
  by (simp add: call_table_def hotcall_ids)

lemma table_miniflow_expand_and_tag: "map_of call_table hotcall_ecall_miniflow_expand_and_tag = Some call_miniflow_expand_and_tag"
  by (simp add: call_table_def hotcall_ids)

lemmas table_lookups [simp] =
  table_oftable_set_readonly
  table_oftable_is_readonly
  table_cls_rule_init
  table_cr_rule_overlaps
  table_cls_rule_destroy
  table_cls_rule_hash
  table_cls_rule_equal
  table_oftable_classifier_replace
  table_oftable_get_flags
  table_oftable_cls_count
  table_is_eviction_fields_enabled
  table_evg_add_rule
  table_evg_remove_rule
  table_cls_remove
  table_choose_rule_to_evict
  table_choose_rule_to_evict_p
  table_oftable_mflows
  table_oftable_mflows_set
  table_minimatch_expand
  table_cr_priority
  table_oftable_cls_find_match_exactly
  table_collect_rules_loose_c
  table_collect_rules_loose_r
  table_collect_rules_strict_c
  table_collect_rules_strict_r
  table_oftable_enable_eviction_c
  table_oftable_enable_eviction_r
  table_collect_ofmonitor_util_c
  table_collect_ofmonitor_util_r
  table_oftable_enable_eviction
  table_oftable_disable_eviction
  table_ofproto_destroy
  table_total_rules
  table_oftable_name
  table_cls_rule_is_loose_match
  table_flush_c
  table_flush_r
  table_flow_stats_c
  table_flow_stats_r
  table_oftable_cls_lookup
  table_dpif_destroy_c
  table_dpif_destroy_r
  table_cls_rule_format
  table_miniflow_expand
  table_rule_calculate_tag
  table_oftable_update_taggable
  table_oftable_is_other_table
  table_rule_calculate_tag_s
  table_oftable_hidden_check
  table_oftable_set_name
  table_minimask_get_vid_mask
  table_miniflow_get_vid
  table_ofproto_get_vlan_c
  table_ofproto_get_vlan_r
  table_oftable_get_cls_rules
  table_get_cls_rules_and_enable_eviction
  table_eviction_group_add_rules
  table_ofproto_get_vlan_usage
  table_ofproto_flush
  table_ofproto_evict
  table_add_flow
  table_collect_rules_strict
  table_collect_rules_loose
  table_delete_flows
  table_oftable_configure
  table_need_to_evict
  table_collect_rules_loose_stats_request
  table_ofproto_rule_send_removed
  table_oftable_remove_rules
  table_minimatch_expand_and_get_priority
  table_miniflow_expand_and_tag

lemma table_cls_rules_format [simp]: "map_of call_table hotcall_ecall_cls_rules_format = None"
  by (simp add: call_table_def hotcall_ids)

end
