(* ===== verification/App.thy ===== *)
theory App
  imports Call_Table
begin

text \<open>
  The wrappers that the switch calls (\<open>OFTonSGX/untrusted/app.c\<close>).

  Each wrapper has two bodies, chosen when the program is built: with \<open>HOTCALL\<close> it fills an array of arguments and makes a
  hot call, without it calls the entry point of the enclave. \<open>hot\<close> selects the body. A hot call that is not
  asynchronous runs \<open>execute_function\<close> on the queued call exactly once before it returns (theory \<open>Hotcall\<close>), so it is the
  execution of the call here; the local variable for the result is not initialised. The build without \<open>BATCHING\<close> is
  modelled, where no call is asynchronous. The stubs generated from the EDL files, which are not part of the
  sources, hand the arguments over.
\<close>

section \<open>Making a call\<close>

definition hcall :: "nat \<Rightarrow> env \<Rightarrow> u8 \<Rightarrow> obj list \<Rightarrow> sgx \<Rightarrow> 'a::len word outcome" where
  "hcall k e f_id args s = do {
     (r, outs, s) \<leftarrow> execute_function e \<lparr>fc_id = f_id, fc_args = args, fc_return = take k (e_stack e)\<rparr> s;
     Some (of_le r, outs, s) }"

definition hcall_void :: "nat \<Rightarrow> env \<Rightarrow> u8 \<Rightarrow> obj list \<Rightarrow> sgx \<Rightarrow> unit outcome" where
  "hcall_void k e f_id args s = do {
     (r, outs, s) \<leftarrow> execute_function e \<lparr>fc_id = f_id, fc_args = args, fc_return = take k (e_stack e)\<rparr> s;
     Some ((), outs, s) }"

section \<open>Setting up\<close>

text \<open>\<open>initialize_enclave\<close> belongs to the SGX runtime; \<open>started\<close> is whether it succeeds. The first call also sets up the cache
  in the build with hot calls. \<open>nodes\<close>, \<open>ces\<close> and \<open>junk\<close> are memory as the allocators return it.\<close>

record app =
  enclave_is_initialized :: bool
  bridge_counter :: u8
  app_sgx :: sgx

definition sgx_ofproto_init_tables :: "env \<Rightarrow> (nat \<Rightarrow> u32) \<Rightarrow> list_store \<Rightarrow> (ptr \<Rightarrow> cls_cache_entry) \<Rightarrow> bool \<Rightarrow> bool \<Rightarrow> int \<Rightarrow> app
    \<Rightarrow> (int \<times> app) option" where
  "sgx_ofproto_init_tables e junk nodes ces hot started n a =
     (if \<not> enclave_is_initialized a \<and> \<not> started then Some (-1, a)
      else do {
        a \<leftarrow> (if enclave_is_initialized a then Some a
          else if hot then do {
            c \<leftarrow> flow_map_cache_init (e_pages e) nodes ces;
            Some (a\<lparr>enclave_is_initialized := True, app_sgx := (app_sgx a)\<lparr>sx_cache := c\<rparr>\<rparr>) }
          else Some (a\<lparr>enclave_is_initialized := True\<rparr>));
        let b = bridge_counter a;
        (_, s) \<leftarrow> update b (\<lambda>br. Some (ecall_ofproto_init_tables junk br n)) (app_sgx a);
        Some (uint b, a\<lparr>bridge_counter := b + 1, app_sgx := s\<rparr>) })"

section \<open>The wrappers\<close>

definition SGX_readonly_set :: "env \<Rightarrow> bool \<Rightarrow> u8 \<Rightarrow> u8 \<Rightarrow> sgx \<Rightarrow> unit outcome" where
  "SGX_readonly_set e hot b t s = (if hot
     then hcall_void 0 e hotcall_ecall_oftable_set_readonly [u8_obj b, u8_obj t] s
     else do {
       (_, s) \<leftarrow> update b (\<lambda>br. ecall_oftable_set_readonly br (unat t)) s;
       Some ((), [], s) })"

definition SGX_istable_readonly :: "env \<Rightarrow> bool \<Rightarrow> u8 \<Rightarrow> u8 \<Rightarrow> sgx \<Rightarrow> u32 outcome" where
  "SGX_istable_readonly e hot b t s = (if hot
     then hcall 4 e hotcall_ecall_oftable_is_readonly [u8_obj b, u8_obj t] s
     else do {
       (v, s) \<leftarrow> query b (\<lambda>br. ecall_oftable_is_readonly br (unat t)) s;
       Some (v :: u32, [], s) })"

definition SGX_cls_rule_init :: "env \<Rightarrow> bool \<Rightarrow> u8 \<Rightarrow> ut_ptr \<Rightarrow> match \<Rightarrow> u32 \<Rightarrow> sgx \<Rightarrow> unit outcome" where
  "SGX_cls_rule_init e hot b cr m p s = (if hot
     then hcall_void 0 e hotcall_ecall_cls_rule_init [u8_obj b, Rule cr, Match m, u32_obj p] s
     else do {
       (_, s) \<leftarrow> update b (\<lambda>br. ecall_cls_rule_init br cr m p) s;
       Some ((), [], s) })"

definition SGX_cr_rule_overlaps :: "env \<Rightarrow> bool \<Rightarrow> u8 \<Rightarrow> u8 \<Rightarrow> ut_ptr \<Rightarrow> sgx \<Rightarrow> u32 outcome" where
  "SGX_cr_rule_overlaps e hot b t cr s = (if hot
     then hcall 4 e hotcall_ecall_cr_rule_overlaps [u8_obj b, u8_obj t, Rule cr] s
     else do {
       (v, s) \<leftarrow> query b (\<lambda>br. ecall_cr_rule_overlaps br (unat t) cr) s;
       Some (of_bool v :: u32, [], s) })"

definition SGX_cls_rule_destroy :: "env \<Rightarrow> bool \<Rightarrow> u8 \<Rightarrow> ut_ptr \<Rightarrow> sgx \<Rightarrow> unit outcome" where
  "SGX_cls_rule_destroy e hot b cr s = (if hot
     then hcall_void 0 e hotcall_ecall_cls_rule_destroy [u8_obj b, Rule cr] s
     else do {
       (_, s) \<leftarrow> update b (\<lambda>br. ecall_cls_rule_destroy br cr) s;
       Some ((), [], s) })"

definition SGX_cls_rule_hash :: "env \<Rightarrow> bool \<Rightarrow> u8 \<Rightarrow> ut_ptr \<Rightarrow> u32 \<Rightarrow> sgx \<Rightarrow> u32 outcome" where
  "SGX_cls_rule_hash e hot b cr bas s = (if hot
     then hcall 4 e hotcall_ecall_cls_rule_hash [u8_obj b, Rule cr, u32_obj bas] s
     else do {
       (v, s) \<leftarrow> query b (\<lambda>br. ecall_cls_rule_hash br cr bas) s;
       Some (v :: u32, [], s) })"

definition SGX_cls_rule_equal :: "env \<Rightarrow> bool \<Rightarrow> u8 \<Rightarrow> ut_ptr \<Rightarrow> ut_ptr \<Rightarrow> sgx \<Rightarrow> u32 outcome" where
  "SGX_cls_rule_equal e hot b cra crb s = (if hot
     then hcall 4 e hotcall_ecall_cls_rule_equal [u8_obj b, Rule cra, Rule crb] s
     else do {
       (v, s) \<leftarrow> query b (\<lambda>br. ecall_cls_rule_equal br cra crb) s;
       Some (of_bool v :: u32, [], s) })"

definition SGX_classifier_replace :: "env \<Rightarrow> bool \<Rightarrow> u8 \<Rightarrow> u8 \<Rightarrow> ut_ptr \<Rightarrow> ut_ptr option \<Rightarrow> sgx \<Rightarrow> unit outcome" where
  "SGX_classifier_replace e hot b t cr rem s = (if hot
     then hcall_void 0 e hotcall_ecall_oftable_classifier_replace [u8_obj b, u8_obj t, Rule cr, Cell rem] s
     else do {
       (v, s) \<leftarrow> at_bridge b (\<lambda>br. ecall_oftable_classifier_replace br (unat t) cr) s;
       Some ((), [Cell v], s) })"

definition SGX_rule_get_flags :: "env \<Rightarrow> bool \<Rightarrow> u8 \<Rightarrow> u8 \<Rightarrow> sgx \<Rightarrow> u32 outcome" where
  "SGX_rule_get_flags e hot b t s = (if hot
     then hcall 4 e hotcall_ecall_oftable_get_flags [u8_obj b, u8_obj t] s
     else do {
       (v, s) \<leftarrow> query b (\<lambda>br. ecall_oftable_get_flags br (unat t)) s;
       Some (v :: u32, [], s) })"

definition SGX_cls_count :: "env \<Rightarrow> bool \<Rightarrow> u8 \<Rightarrow> u8 \<Rightarrow> sgx \<Rightarrow> u32 outcome" where
  "SGX_cls_count e hot b t s = (if hot
     then hcall 4 e hotcall_ecall_oftable_cls_count [u8_obj b, u8_obj t] s
     else do {
       (v, s) \<leftarrow> query b (\<lambda>br. ecall_oftable_cls_count br (unat t)) s;
       Some (of_int v :: u32, [], s) })"

definition SGX_eviction_fields_enable :: "env \<Rightarrow> bool \<Rightarrow> u8 \<Rightarrow> u8 \<Rightarrow> sgx \<Rightarrow> u32 outcome" where
  "SGX_eviction_fields_enable e hot b t s = (if hot
     then hcall 4 e hotcall_ecall_is_eviction_fields_enabled [u8_obj b, u8_obj t] s
     else do {
       (v, s) \<leftarrow> query b (\<lambda>br. ecall_is_eviction_fields_enabled br (unat t)) s;
       Some (of_bool v :: u32, [], s) })"

definition SGX_evg_add_rule :: "env \<Rightarrow> bool \<Rightarrow> u8 \<Rightarrow> u8 \<Rightarrow> ut_ptr \<Rightarrow> u32 \<Rightarrow> u32 \<Rightarrow> heap_node \<Rightarrow> sgx \<Rightarrow> unit outcome" where
  "SGX_evg_add_rule e hot b t cr gp rp nd s = (if hot
     then hcall_void 0 e hotcall_ecall_evg_add_rule [u8_obj b, u8_obj t, Rule cr, u32_obj gp, u32_obj rp, Node nd] s
     else do {
       (_, s) \<leftarrow> update b (\<lambda>br. ecall_evg_add_rule (e_value e) br (unat t) cr gp rp nd) s;
       Some ((), [], s) })"

definition SGX_evg_remove_rule :: "env \<Rightarrow> bool \<Rightarrow> u8 \<Rightarrow> u8 \<Rightarrow> ut_ptr \<Rightarrow> sgx \<Rightarrow> unit outcome" where
  "SGX_evg_remove_rule e hot b t cr s = (if hot
     then hcall_void 0 e hotcall_ecall_evg_remove_rule [u8_obj b, u8_obj t, Rule cr] s
     else do {
       (_, s) \<leftarrow> update b (\<lambda>br. ecall_evg_remove_rule br (unat t) cr) s;
       Some ((), [], s) })"

definition SGX_cls_remove :: "env \<Rightarrow> bool \<Rightarrow> u8 \<Rightarrow> u8 \<Rightarrow> ut_ptr \<Rightarrow> sgx \<Rightarrow> unit outcome" where
  "SGX_cls_remove e hot b t cr s = (if hot
     then hcall_void 0 e hotcall_ecall_cls_remove [u8_obj b, u8_obj t, Rule cr] s
     else do {
       (_, s) \<leftarrow> update b (\<lambda>br. ecall_cls_remove br (unat t) cr) s;
       Some ((), [], s) })"

definition SGX_choose_rule_to_evict :: "env \<Rightarrow> bool \<Rightarrow> u8 \<Rightarrow> u8 \<Rightarrow> ut_ptr option \<Rightarrow> sgx \<Rightarrow> unit outcome" where
  "SGX_choose_rule_to_evict e hot b t vic s = (if hot
     then hcall_void 0 e hotcall_ecall_choose_rule_to_evict [u8_obj b, u8_obj t, Cell vic] s
     else do {
       (v, s) \<leftarrow> query b (\<lambda>br. ecall_choose_rule_to_evict br (unat t)) s;
       Some ((), [Cell v], s) })"

definition SGX_choose_rule_to_evict_p :: "env \<Rightarrow> bool \<Rightarrow> u8 \<Rightarrow> u8 \<Rightarrow> ut_ptr option \<Rightarrow> ut_ptr \<Rightarrow> sgx \<Rightarrow> unit outcome" where
  "SGX_choose_rule_to_evict_p e hot b t vic cr s = (if hot
     then hcall_void 0 e hotcall_ecall_choose_rule_to_evict_p [u8_obj b, u8_obj t, Cell vic, Rule cr] s
     else do {
       (v, s) \<leftarrow> at_bridge b (\<lambda>br. ecall_choose_rule_to_evict_p br (unat t) cr) s;
       Some ((), [Cell v], s) })"

definition SGX_table_mflows :: "env \<Rightarrow> bool \<Rightarrow> u8 \<Rightarrow> u8 \<Rightarrow> sgx \<Rightarrow> u32 outcome" where
  "SGX_table_mflows e hot b t s = (if hot
     then hcall 4 e hotcall_ecall_oftable_mflows [u8_obj b, u8_obj t] s
     else do {
       (v, s) \<leftarrow> query b (\<lambda>br. ecall_oftable_mflows br (unat t)) s;
       Some (v :: u32, [], s) })"

definition SGX_table_mflows_set :: "env \<Rightarrow> bool \<Rightarrow> u8 \<Rightarrow> u8 \<Rightarrow> u32 \<Rightarrow> sgx \<Rightarrow> unit outcome" where
  "SGX_table_mflows_set e hot b t val s = (if hot
     then hcall_void 0 e hotcall_ecall_oftable_mflows_set [u8_obj b, u8_obj t, u32_obj val] s
     else do {
       (_, s) \<leftarrow> update b (\<lambda>br. ecall_oftable_mflows_set br (unat t) val) s;
       Some ((), [], s) })"

definition SGX_minimatch_expand :: "env \<Rightarrow> bool \<Rightarrow> u8 \<Rightarrow> ut_ptr \<Rightarrow> sgx \<Rightarrow> unit outcome" where
  "SGX_minimatch_expand e hot b cr s = (if hot
     then hcall_void 0 e hotcall_ecall_minimatch_expand [u8_obj b, Rule cr, Out] s
     else do {
       (m, s) \<leftarrow> query b (\<lambda>br. ecall_minimatch_expand br cr) s;
       Some ((), [Match m], s) })"

definition SGX_cr_priority :: "env \<Rightarrow> bool \<Rightarrow> u8 \<Rightarrow> ut_ptr \<Rightarrow> sgx \<Rightarrow> u32 outcome" where
  "SGX_cr_priority e hot b cr s = (if hot
     then hcall 4 e hotcall_ecall_cr_priority [u8_obj b, Rule cr] s
     else do {
       (v, s) \<leftarrow> query b (\<lambda>br. ecall_cr_priority br cr) s;
       Some (v :: u32, [], s) })"

definition SGX_cls_find_match_exactly :: "env \<Rightarrow> bool \<Rightarrow> u8 \<Rightarrow> u8 \<Rightarrow> match \<Rightarrow> u32 \<Rightarrow> ut_ptr option \<Rightarrow> sgx \<Rightarrow> unit outcome" where
  "SGX_cls_find_match_exactly e hot b t m p res s = (if hot
     then hcall_void 0 e hotcall_ecall_oftable_cls_find_match_exactly [u8_obj b, u8_obj t, Match m, u32_obj p, Cell res] s
     else do {
       (v, s) \<leftarrow> query b (\<lambda>br. ecall_oftable_cls_find_match_exactly br (unat t) m p) s;
       Some ((), [Cell v], s) })"

definition SGX_collect_rules_loose_c :: "env \<Rightarrow> bool \<Rightarrow> u8 \<Rightarrow> u32 \<Rightarrow> u8 \<Rightarrow> match \<Rightarrow> sgx \<Rightarrow> u64 outcome" where
  "SGX_collect_rules_loose_c e hot b n t m s = (if hot
     then hcall 8 e hotcall_ecall_collect_rules_loose_c [u8_obj b, u32_obj n, u8_obj t, Match m] s
     else do {
       (v, s) \<leftarrow> query b (\<lambda>br. ecall_collect_rules_loose_c br (sint n) t m) s;
       Some (of_nat v :: u64, [], s) })"

definition SGX_collect_rules_loose_r :: "env \<Rightarrow> bool \<Rightarrow> u8 \<Rightarrow> u32 \<Rightarrow> ut_ptr list \<Rightarrow> u32 \<Rightarrow> u8 \<Rightarrow> match \<Rightarrow> sgx \<Rightarrow> unit outcome" where
  "SGX_collect_rules_loose_r e hot b n buf el t m s = (if hot
     then hcall_void 0 e hotcall_ecall_collect_rules_loose_r [u8_obj b, u32_obj n, Rules buf, u32_obj el, u8_obj t, Match m] s
     else do {
       ((rs, _), s) \<leftarrow> query b (\<lambda>br. ecall_collect_rules_loose_r br (sint n) buf (sint el) t m) s;
       Some ((), [Rules rs], s) })"

definition SGX_collect_rules_strict_c :: "env \<Rightarrow> bool \<Rightarrow> u8 \<Rightarrow> u32 \<Rightarrow> u8 \<Rightarrow> match \<Rightarrow> u32 \<Rightarrow> sgx \<Rightarrow> u64 outcome" where
  "SGX_collect_rules_strict_c e hot b n t m p s = (if hot
     then hcall 8 e hotcall_ecall_collect_rules_strict_c [u8_obj b, u32_obj n, u8_obj t, Match m, u32_obj p] s
     else do {
       (v, s) \<leftarrow> query b (\<lambda>br. ecall_collect_rules_strict_c br (sint n) t m p) s;
       Some (of_nat v :: u64, [], s) })"

definition SGX_collect_rules_strict_r :: "env \<Rightarrow> bool \<Rightarrow> u8 \<Rightarrow> u32 \<Rightarrow> ut_ptr list \<Rightarrow> u32 \<Rightarrow> u8 \<Rightarrow> match \<Rightarrow> u32 \<Rightarrow> sgx \<Rightarrow> unit outcome" where
  "SGX_collect_rules_strict_r e hot b n buf el t m p s = (if hot
     then hcall_void 0 e hotcall_ecall_collect_rules_strict_r [u8_obj b, u32_obj n, Rules buf, u32_obj el, u8_obj t, Match m, u32_obj p] s
     else do {
       ((rs, _), s) \<leftarrow> query b (\<lambda>br. ecall_collect_rules_strict_r br (sint n) buf (sint el) t m p) s;
       Some ((), [Rules rs], s) })"

definition SGX_oftable_enable_eviction_c :: "env \<Rightarrow> bool \<Rightarrow> u8 \<Rightarrow> u8 \<Rightarrow> sgx \<Rightarrow> u64 outcome" where
  "SGX_oftable_enable_eviction_c e hot b t s = (if hot
     then hcall 8 e hotcall_ecall_oftable_enable_eviction_c [u8_obj b, u8_obj t] s
     else do {
       (v, s) \<leftarrow> query b (\<lambda>br. ecall_oftable_enable_eviction_c br (unat t)) s;
       Some (of_nat v :: u64, [], s) })"

definition SGX_oftable_enable_eviction_r :: "env \<Rightarrow> bool \<Rightarrow> u8 \<Rightarrow> ut_ptr list \<Rightarrow> u32 \<Rightarrow> u8 \<Rightarrow> sgx \<Rightarrow> unit outcome" where
  "SGX_oftable_enable_eviction_r e hot b buf el t s = (if hot
     then hcall_void 0 e hotcall_ecall_oftable_enable_eviction_r [u8_obj b, Rules buf, u32_obj el, u8_obj t] s
     else do {
       ((rs, _), s) \<leftarrow> query b (\<lambda>br. ecall_oftable_enable_eviction_r br (unat t) buf (sint el)) s;
       Some ((), [Rules rs], s) })"

definition SGX_collect_ofmonitor_util_c :: "env \<Rightarrow> bool \<Rightarrow> u8 \<Rightarrow> u32 \<Rightarrow> u8 \<Rightarrow> minimatch \<Rightarrow> sgx \<Rightarrow> u64 outcome" where
  "SGX_collect_ofmonitor_util_c e hot b n t mm s = (if hot
     then hcall 8 e hotcall_ecall_collect_ofmonitor_util_c [u8_obj b, u32_obj n, u8_obj t, Minimatch mm] s
     else do {
       (v, s) \<leftarrow> query b (\<lambda>br. ecall_collect_ofmonitor_util_c br (sint n) t mm) s;
       Some (of_nat v :: u64, [], s) })"

definition SGX_collect_ofmonitor_util_r :: "env \<Rightarrow> bool \<Rightarrow> u8 \<Rightarrow> u32 \<Rightarrow> ut_ptr list \<Rightarrow> u32 \<Rightarrow> u8 \<Rightarrow> minimatch \<Rightarrow> sgx \<Rightarrow> unit outcome" where
  "SGX_collect_ofmonitor_util_r e hot b n buf el t mm s = (if hot
     then hcall_void 0 e hotcall_ecall_collect_ofmonitor_util_r [u8_obj b, u32_obj n, Rules buf, u32_obj el, u8_obj t, Minimatch mm] s
     else do {
       ((rs, _), s) \<leftarrow> query b (\<lambda>br. ecall_collect_ofmonitor_util_r br (sint n) buf (sint el) t mm) s;
       Some ((), [Rules rs], s) })"

definition SGX_oftable_enable_eviction :: "env \<Rightarrow> bool \<Rightarrow> u8 \<Rightarrow> u8 \<Rightarrow> mf_subfield list \<Rightarrow> u64 \<Rightarrow> u32 \<Rightarrow> bool \<Rightarrow> sgx \<Rightarrow> unit outcome" where
  "SGX_oftable_enable_eviction e hot b t sfs nf rv nc s = (if hot
     then hcall_void 0 e hotcall_ecall_oftable_enable_eviction [u8_obj b, u8_obj t, Subfields sfs, size_obj nf, u32_obj rv, Flag nc] s
     else do {
       (nc', s) \<leftarrow> at_bridge b (\<lambda>br. do { fs \<leftarrow> array sfs nf; ecall_oftable_enable_eviction br (unat t) fs rv nc }) s;
       Some ((), [Flag nc'], s) })"

definition SGX_oftable_disable_eviction :: "env \<Rightarrow> bool \<Rightarrow> u8 \<Rightarrow> u8 \<Rightarrow> sgx \<Rightarrow> unit outcome" where
  "SGX_oftable_disable_eviction e hot b t s = (if hot
     then hcall_void 0 e hotcall_ecall_oftable_disable_eviction [u8_obj b, u8_obj t] s
     else do {
       (_, s) \<leftarrow> update b (\<lambda>br. ecall_oftable_disable_eviction br (unat t)) s;
       Some ((), [], s) })"

definition SGX_ofproto_destroy :: "env \<Rightarrow> bool \<Rightarrow> u8 \<Rightarrow> sgx \<Rightarrow> unit outcome" where
  "SGX_ofproto_destroy e hot b s = (if hot
     then hcall_void 0 e hotcall_ecall_ofproto_destroy [u8_obj b] s
     else do {
       (_, s) \<leftarrow> update b (\<lambda>br. ecall_ofproto_destroy br) s;
       Some ((), [], s) })"

definition SGX_total_rules :: "env \<Rightarrow> bool \<Rightarrow> u8 \<Rightarrow> sgx \<Rightarrow> u32 outcome" where
  "SGX_total_rules e hot b s = (if hot
     then hcall 4 e hotcall_ecall_total_rules [u8_obj b] s
     else do {
       (v, s) \<leftarrow> query b (\<lambda>br. ecall_total_rules br) s;
       Some (v :: u32, [], s) })"

definition SGX_table_name :: "env \<Rightarrow> bool \<Rightarrow> u8 \<Rightarrow> u8 \<Rightarrow> char list \<Rightarrow> u64 \<Rightarrow> sgx \<Rightarrow> unit outcome" where
  "SGX_table_name e hot b t buf len s = (if hot
     then hcall_void 0 e hotcall_ecall_oftable_name [u8_obj b, u8_obj t, Chars buf, size_obj len] s
     else do {
       (nm, s) \<leftarrow> query b (\<lambda>br. ecall_oftable_name br (unat t) buf (unat len)) s;
       Some ((), [Chars nm], s) })"

definition SGX_cls_rule_is_loose_match :: "env \<Rightarrow> bool \<Rightarrow> u8 \<Rightarrow> ut_ptr \<Rightarrow> minimatch \<Rightarrow> sgx \<Rightarrow> u32 outcome" where
  "SGX_cls_rule_is_loose_match e hot b cr mm s = (if hot
     then hcall 4 e hotcall_ecall_cls_rule_is_loose_match [u8_obj b, Rule cr, Minimatch mm] s
     else do {
       (v, s) \<leftarrow> query b (\<lambda>br. ecall_cls_rule_is_loose_match br cr mm) s;
       Some (of_int v :: u32, [], s) })"

definition SGX_flush_c :: "env \<Rightarrow> bool \<Rightarrow> u8 \<Rightarrow> sgx \<Rightarrow> u64 outcome" where
  "SGX_flush_c e hot b s = (if hot
     then hcall 8 e hotcall_ecall_flush_c [u8_obj b] s
     else do {
       (v, s) \<leftarrow> query b (\<lambda>br. ecall_flush_c br) s;
       Some (of_nat v :: u64, [], s) })"

definition SGX_flush_r :: "env \<Rightarrow> bool \<Rightarrow> u8 \<Rightarrow> ut_ptr list \<Rightarrow> u32 \<Rightarrow> sgx \<Rightarrow> unit outcome" where
  "SGX_flush_r e hot b buf el s = (if hot
     then hcall_void 0 e hotcall_ecall_flush_r [u8_obj b, Rules buf, u32_obj el] s
     else do {
       ((rs, _), s) \<leftarrow> query b (\<lambda>br. ecall_flush_r br buf (sint el)) s;
       Some ((), [Rules rs], s) })"

definition SGX_flow_stats_c :: "env \<Rightarrow> bool \<Rightarrow> u8 \<Rightarrow> sgx \<Rightarrow> u64 outcome" where
  "SGX_flow_stats_c e hot b s = (if hot
     then hcall 8 e hotcall_ecall_flow_stats_c [u8_obj b] s
     else do {
       (v, s) \<leftarrow> query b (\<lambda>br. ecall_flow_stats_c br) s;
       Some (of_nat v :: u64, [], s) })"

definition SGX_flow_stats_r :: "env \<Rightarrow> bool \<Rightarrow> u8 \<Rightarrow> ut_ptr list \<Rightarrow> u32 \<Rightarrow> sgx \<Rightarrow> unit outcome" where
  "SGX_flow_stats_r e hot b buf el s = (if hot
     then hcall_void 0 e hotcall_ecall_flow_stats_r [u8_obj b, Rules buf, u32_obj el] s
     else do {
       ((rs, _), s) \<leftarrow> query b (\<lambda>br. ecall_flow_stats_r br buf (sint el)) s;
       Some ((), [Rules rs], s) })"

definition SGX_cls_lookup :: "env \<Rightarrow> bool \<Rightarrow> u8 \<Rightarrow> ut_ptr option \<Rightarrow> u8 \<Rightarrow> flow \<Rightarrow> flow_wildcards option \<Rightarrow> sgx \<Rightarrow> unit outcome" where
  "SGX_cls_lookup e hot b res t f wc s = (if hot
     then hcall_void 0 e hotcall_ecall_oftable_cls_lookup [u8_obj b, Cell res, u8_obj t, Flow f, Wildcards wc] s
     else do {
       ((v, wc'), s) \<leftarrow> query b (\<lambda>br. ecall_oftable_cls_lookup br (unat t) f wc) s;
       Some ((), [Cell v, Wildcards wc'], s) })"

definition SGX_dpif_destroy_c :: "env \<Rightarrow> bool \<Rightarrow> u8 \<Rightarrow> sgx \<Rightarrow> u64 outcome" where
  "SGX_dpif_destroy_c e hot b s = (if hot
     then hcall 8 e hotcall_ecall_dpif_destroy_c [u8_obj b] s
     else do {
       (v, s) \<leftarrow> query b (\<lambda>br. ecall_dpif_destroy_c br) s;
       Some (of_nat v :: u64, [], s) })"

definition SGX_dpif_destroy_r :: "env \<Rightarrow> bool \<Rightarrow> u8 \<Rightarrow> ut_ptr list \<Rightarrow> u32 \<Rightarrow> sgx \<Rightarrow> unit outcome" where
  "SGX_dpif_destroy_r e hot b buf el s = (if hot
     then hcall_void 0 e hotcall_ecall_dpif_destroy_r [u8_obj b, Rules buf, u32_obj el] s
     else do {
       ((rs, _), s) \<leftarrow> query b (\<lambda>br. ecall_dpif_destroy_r br buf (sint el)) s;
       Some ((), [Rules rs], s) })"

definition SGX_cls_rule_format :: "env \<Rightarrow> bool \<Rightarrow> u8 \<Rightarrow> ut_ptr \<Rightarrow> sgx \<Rightarrow> u32 outcome" where
  "SGX_cls_rule_format e hot b cr s = (if hot
     then hcall 4 e hotcall_ecall_cls_rule_format [u8_obj b, Rule cr, Out] s
     else do {
       ((m, p), s) \<leftarrow> query b (\<lambda>br. ecall_cls_rule_format br cr) s;
       Some (p :: u32, [Match m], s) })"

definition SGX_miniflow_expand :: "env \<Rightarrow> bool \<Rightarrow> u8 \<Rightarrow> ut_ptr \<Rightarrow> sgx \<Rightarrow> unit outcome" where
  "SGX_miniflow_expand e hot b cr s = (if hot
     then hcall_void 0 e hotcall_ecall_miniflow_expand [u8_obj b, Rule cr, Out] s
     else do {
       (f, s) \<leftarrow> query b (\<lambda>br. ecall_miniflow_expand br cr) s;
       Some ((), [Flow f], s) })"

definition SGX_rule_calculate_tag :: "env \<Rightarrow> bool \<Rightarrow> u8 \<Rightarrow> ut_ptr \<Rightarrow> flow \<Rightarrow> u8 \<Rightarrow> sgx \<Rightarrow> u32 outcome" where
  "SGX_rule_calculate_tag e hot b cr f t s = (if hot
     then hcall 4 e hotcall_ecall_rule_calculate_tag [u8_obj b, Rule cr, Flow f, u8_obj t] s
     else do {
       (v, s) \<leftarrow> query b (\<lambda>br. ecall_rule_calculate_tag br cr f (unat t)) s;
       Some (v :: u32, [], s) })"

definition SGX_table_update_taggable :: "env \<Rightarrow> bool \<Rightarrow> u8 \<Rightarrow> u8 \<Rightarrow> sgx \<Rightarrow> u32 outcome" where
  "SGX_table_update_taggable e hot b t s = (if hot
     then hcall 4 e hotcall_ecall_oftable_update_taggable [u8_obj b, u8_obj t] s
     else do {
       (v, s) \<leftarrow> at_bridge b (\<lambda>br. ecall_oftable_update_taggable br (unat t)) s;
       Some (of_int v :: u32, [], s) })"

definition SGX_is_sgx_other_table :: "env \<Rightarrow> bool \<Rightarrow> u8 \<Rightarrow> u8 \<Rightarrow> sgx \<Rightarrow> u32 outcome" where
  "SGX_is_sgx_other_table e hot b t s = (if hot
     then hcall 4 e hotcall_ecall_oftable_is_other_table [u8_obj b, u8_obj t] s
     else do {
       (v, s) \<leftarrow> query b (\<lambda>br. ecall_oftable_is_other_table br (unat t)) s;
       Some (of_int v :: u32, [], s) })"

definition SGX_rule_calculate_tag_s :: "env \<Rightarrow> bool \<Rightarrow> u8 \<Rightarrow> u8 \<Rightarrow> flow \<Rightarrow> sgx \<Rightarrow> u32 outcome" where
  "SGX_rule_calculate_tag_s e hot b t f s = (if hot
     then hcall 4 e hotcall_ecall_rule_calculate_tag_s [u8_obj b, u8_obj t, Flow f] s
     else do {
       (v, s) \<leftarrow> query b (\<lambda>br. ecall_rule_calculate_tag_s br (unat t) f) s;
       Some (v :: u32, [], s) })"

definition sgx_oftable_check_hidden :: "env \<Rightarrow> bool \<Rightarrow> u8 \<Rightarrow> sgx \<Rightarrow> unit outcome" where
  "sgx_oftable_check_hidden e hot b s = (if hot
     then hcall_void 0 e hotcall_ecall_oftable_hidden_check [u8_obj b] s
     else do {
       (_, s) \<leftarrow> query b (\<lambda>br. ecall_oftable_hidden_check br) s;
       Some ((), [], s) })"

definition SGX_oftable_set_name :: "env \<Rightarrow> bool \<Rightarrow> u8 \<Rightarrow> u8 \<Rightarrow> string option \<Rightarrow> sgx \<Rightarrow> unit outcome" where
  "SGX_oftable_set_name e hot b t nm s = (if hot
     then hcall_void 0 e hotcall_ecall_oftable_set_name [u8_obj b, u8_obj t, Str nm] s
     else do {
       (_, s) \<leftarrow> update b (\<lambda>br. ecall_oftable_set_name b br (unat t) nm) s;
       Some ((), [], s) })"

definition SGX_minimask_get_vid_mask :: "env \<Rightarrow> bool \<Rightarrow> u8 \<Rightarrow> ut_ptr \<Rightarrow> sgx \<Rightarrow> u16 outcome" where
  "SGX_minimask_get_vid_mask e hot b cr s = (if hot
     then hcall 2 e hotcall_ecall_minimask_get_vid_mask [u8_obj b, Rule cr] s
     else do {
       (v, s) \<leftarrow> query b (\<lambda>br. ecall_minimask_get_vid_mask br cr) s;
       Some (v :: u16, [], s) })"

definition SGX_miniflow_get_vid :: "env \<Rightarrow> bool \<Rightarrow> u8 \<Rightarrow> ut_ptr \<Rightarrow> sgx \<Rightarrow> u16 outcome" where
  "SGX_miniflow_get_vid e hot b cr s = (if hot
     then hcall 2 e hotcall_ecall_miniflow_get_vid [u8_obj b, Rule cr] s
     else do {
       (v, s) \<leftarrow> query b (\<lambda>br. ecall_miniflow_get_vid br cr) s;
       Some (v :: u16, [], s) })"

definition SGX_ofproto_get_vlan_usage_c :: "env \<Rightarrow> bool \<Rightarrow> u8 \<Rightarrow> sgx \<Rightarrow> u64 outcome" where
  "SGX_ofproto_get_vlan_usage_c e hot b s = (if hot
     then hcall 8 e hotcall_ecall_ofproto_get_vlan_c [u8_obj b] s
     else do {
       (v, s) \<leftarrow> query b (\<lambda>br. ecall_ofproto_get_vlan_c br (e_indet e)) s;
       Some (of_nat v :: u64, [], s) })"

definition SGX_ofproto_get_vlan_usage__r :: "env \<Rightarrow> bool \<Rightarrow> u8 \<Rightarrow> u16 list \<Rightarrow> u32 \<Rightarrow> sgx \<Rightarrow> unit outcome" where
  "SGX_ofproto_get_vlan_usage__r e hot b buf el s = (if hot
     then hcall_void 0 e hotcall_ecall_ofproto_get_vlan_r [u8_obj b, U16s buf, u32_obj el] s
     else do {
       ((vs, _), s) \<leftarrow> query b (\<lambda>br. ecall_ofproto_get_vlan_r br (e_indet e) buf (sint el)) s;
       Some ((), [U16s vs], s) })"

definition SGX_get_cls_rules :: "env \<Rightarrow> bool \<Rightarrow> u8 \<Rightarrow> u8 \<Rightarrow> u64 \<Rightarrow> u64 \<Rightarrow> u64 \<Rightarrow> sgx \<Rightarrow> unit outcome" where
  "SGX_get_cls_rules e hot b t sta sto bs s = (if hot
     then hcall_void 8 e hotcall_ecall_oftable_get_cls_rules [u8_obj b, u8_obj t, size_obj sta, size_obj sto, Out, size_obj bs, Out] s
     else do {
       ((rs, cnt), s) \<leftarrow> query b (\<lambda>br. ecall_oftable_get_cls_rules br (unat t) (unat sta) (unat sto) (unat bs)) s;
       Some ((), [Rules rs, size_obj (of_nat cnt)], s) })"

definition SGX_get_cls_rules_and_enable_eviction :: "env \<Rightarrow> bool \<Rightarrow> u8 \<Rightarrow> u8 \<Rightarrow> u64 \<Rightarrow> u64 \<Rightarrow> u64 \<Rightarrow> mf_subfield list \<Rightarrow> u64 \<Rightarrow> u32 \<Rightarrow> bool \<Rightarrow> sgx \<Rightarrow> u64 outcome" where
  "SGX_get_cls_rules_and_enable_eviction e hot b t sta sto bs sfs nf rv nc s = (if hot
     then hcall 8 e hotcall_ecall_get_cls_rules_and_enable_eviction [u8_obj b, u8_obj t, size_obj sta, size_obj sto, Out, size_obj bs, Out, Subfields sfs, size_obj nf, u32_obj rv, Flag nc, Out] s
     else do {
       ((res, nc', en'), s) \<leftarrow> at_bridge b (\<lambda>br. do { fs \<leftarrow> array sfs nf; (res, nc, en, br) \<leftarrow> ecall_get_cls_rules_and_enable_eviction br (unat t) (unat bs) fs rv nc; Some ((res, nc, en), br) }) s;
       Some ((case res of None \<Rightarrow> 0 | Some (rs, cnt) \<Rightarrow> of_nat (length rs)) :: u64, (case res of None \<Rightarrow> [] | Some (rs, cnt) \<Rightarrow> [Rules rs, size_obj (of_nat cnt)]) @ [Flag nc', Flag en'], s) })"

definition SGX_eviction_group_add_rules :: "env \<Rightarrow> bool \<Rightarrow> u8 \<Rightarrow> u8 \<Rightarrow> u64 \<Rightarrow> ut_ptr list \<Rightarrow> heap_node list \<Rightarrow> u32 list \<Rightarrow> u32 \<Rightarrow> sgx \<Rightarrow> unit outcome" where
  "SGX_eviction_group_add_rules e hot b t n crs nds ps gp s = (if hot
     then hcall_void 0 e hotcall_ecall_eviction_group_add_rules [u8_obj b, u8_obj t, size_obj n, Rules crs, Nodes nds, U32s ps, u32_obj gp] s
     else do {
       (_, s) \<leftarrow> update b (\<lambda>br. do { cs \<leftarrow> array crs n; ns \<leftarrow> array nds n; qs \<leftarrow> array ps n; ecall_eviction_group_add_rules (e_value e) br (unat t) (zip cs (zip ns qs)) gp }) s;
       Some ((), [], s) })"

definition SGX_ofproto_get_vlan_usage :: "env \<Rightarrow> bool \<Rightarrow> u8 \<Rightarrow> u64 \<Rightarrow> u64 \<Rightarrow> u64 \<Rightarrow> sgx \<Rightarrow> u64 outcome" where
  "SGX_ofproto_get_vlan_usage e hot b bs sta sto s = (if hot
     then hcall 8 e hotcall_ecall_ofproto_get_vlan_usage [u8_obj b, size_obj bs, Out, size_obj sta, size_obj sto, Out] s
     else do {
       ((vs, cnt), s) \<leftarrow> query b (\<lambda>br. ecall_ofproto_get_vlan_usage br (e_indet e) (unat bs) (unat sta) (unat sto)) s;
       Some (of_nat (length vs) :: u64, [U16s vs, size_obj (of_nat cnt)], s) })"

definition SGX_ofproto_flush :: "env \<Rightarrow> bool \<Rightarrow> u8 \<Rightarrow> u64 \<Rightarrow> u64 \<Rightarrow> u64 \<Rightarrow> sgx \<Rightarrow> u64 outcome" where
  "SGX_ofproto_flush e hot b bs sta sto s = (if hot
     then hcall 8 e hotcall_ecall_ofproto_flush [u8_obj b, Out, Out, size_obj bs, size_obj sta, size_obj sto, Out] s
     else do {
       ((acc, cnt), s) \<leftarrow> at_bridge b (\<lambda>br. do { (acc, cnt, br) \<leftarrow> ecall_ofproto_flush br (unat bs); Some ((acc, cnt), br) }) s;
       Some (of_nat (length acc) :: u64, [Rules (map fst acc), U32s (map snd acc), size_obj (of_int cnt)], s) })"

definition SGX_ofproto_evict :: "env \<Rightarrow> bool \<Rightarrow> u8 \<Rightarrow> u32 \<Rightarrow> u64 \<Rightarrow> u64 \<Rightarrow> sgx \<Rightarrow> u64 outcome" where
  "SGX_ofproto_evict e hot b n sta bs s = (if hot
     then hcall 8 e hotcall_ecall_ofproto_evict [u8_obj b, u32_obj n, size_obj sta, Out, Out, size_obj bs, Out] s
     else do {
       ((w, evs, tot), s) \<leftarrow> at_bridge b (\<lambda>br. do { (w, evs, tot, br) \<leftarrow> ecall_ofproto_evict (e_value e) br (sint n) (unat sta) (unat bs); Some ((w, evs, tot), br) }) s;
       Some (w :: u64, [U32s (map snd evs), Rules (map fst evs), size_obj (of_int tot)], s) })"

definition SGX_add_flow :: "env \<Rightarrow> bool \<Rightarrow> u8 \<Rightarrow> u8 \<Rightarrow> ut_ptr \<Rightarrow> ut_ptr option \<Rightarrow> ut_ptr option \<Rightarrow> match \<Rightarrow> u32 \<Rightarrow> u16 \<Rightarrow> u16 \<Rightarrow> u32 \<Rightarrow> u16 \<Rightarrow> u32 \<Rightarrow> u32 \<Rightarrow> heap_node \<Rightarrow> ut_ptr list \<Rightarrow> u32 \<Rightarrow> bool \<Rightarrow> bool \<Rightarrow> bool \<Rightarrow> bool \<Rightarrow> bool \<Rightarrow> bool \<Rightarrow> sgx \<Rightarrow> unit outcome" where
  "SGX_add_flow e hot b t cr vic evi m hsh vid vm p fl gp rp nd pend np tmo ovf modi ovl delp ro s = (if hot
     then hcall_void 0 e hotcall_ecall_add_flow [u8_obj b, u8_obj t, Rule cr, Cell vic, Cell evi, Match m, u32_obj hsh, u16_obj vid, u16_obj vm, u32_obj p, u16_obj fl, u32_obj gp, u32_obj rp, Node nd, Rules pend, u32_obj np, bool_obj tmo, Flag ovf, Flag modi, Flag ovl, Flag delp, Flag ro] s
     else do {
       (out, s) \<leftarrow> at_bridge b (\<lambda>br. do { pd \<leftarrow> int_array pend np; ecall_add_flow (e_value e) br (unat t) cr m p fl gp rp nd pd tmo (add_out vic evi hsh vid vm ovf modi ovl delp ro) }) s;
       Some ((), out_objs out, s) })"

definition SGX_collect_rules_strict :: "env \<Rightarrow> bool \<Rightarrow> u8 \<Rightarrow> u8 \<Rightarrow> u32 \<Rightarrow> match \<Rightarrow> u32 \<Rightarrow> u64 \<Rightarrow> sgx \<Rightarrow> u64 outcome" where
  "SGX_collect_rules_strict e hot b t n m p bs s = (if hot
     then hcall 8 e hotcall_ecall_collect_rules_strict [u8_obj b, u8_obj t, u32_obj n, Match m, u32_obj p, Out, Out, Out, size_obj bs] s
     else do {
       (cs, s) \<leftarrow> query b (\<lambda>br. ecall_collect_rules_strict br t (sint n) m p (unat bs)) s;
       Some (of_nat (length cs) :: u64, collected_objs cs, s) })"

definition SGX_collect_rules_loose :: "env \<Rightarrow> bool \<Rightarrow> u8 \<Rightarrow> u8 \<Rightarrow> u32 \<Rightarrow> u64 \<Rightarrow> match \<Rightarrow> u64 \<Rightarrow> sgx \<Rightarrow> u64 outcome" where
  "SGX_collect_rules_loose e hot b t n sta m bs s = (if hot
     then hcall 8 e hotcall_ecall_collect_rules_loose [u8_obj b, u8_obj t, u32_obj n, size_obj sta, Match m, Out, Out, size_obj bs, Out, Out] s
     else do {
       ((cs, cnt), s) \<leftarrow> query b (\<lambda>br. ecall_collect_rules_loose br t (sint n) (unat sta) m (unat bs)) s;
       Some (of_nat (length cs) :: u64, collected_objs cs @ [size_obj (of_nat cnt)], s) })"

definition SGX_delete_flows :: "env \<Rightarrow> bool \<Rightarrow> u8 \<Rightarrow> u8 list \<Rightarrow> ut_ptr list \<Rightarrow> u64 \<Rightarrow> sgx \<Rightarrow> unit outcome" where
  "SGX_delete_flows e hot b ts crs n s = (if hot
     then hcall_void 0 e hotcall_ecall_delete_flows [u8_obj b, U8s ts, Rules crs, Out, Out, Out, Out, size_obj n] s
     else do {
       (ds, s) \<leftarrow> at_bridge b (\<lambda>br. do { us \<leftarrow> array ts n; cs \<leftarrow> array crs n; ecall_delete_flows br (zip (map unat us) cs) }) s;
       Some ((), map Deleted ds, s) })"

definition SGX_configure_table :: "env \<Rightarrow> bool \<Rightarrow> u8 \<Rightarrow> u8 \<Rightarrow> string option \<Rightarrow> u32 \<Rightarrow> mf_subfield list option \<Rightarrow> u64 \<Rightarrow> bool \<Rightarrow> bool \<Rightarrow> sgx \<Rightarrow> unit outcome" where
  "SGX_configure_table e hot b t nm mf gs ng need ro s = (if hot
     then hcall_void 0 e hotcall_ecall_oftable_configure [u8_obj b, u8_obj t, Str nm, u32_obj mf, Groups gs, size_obj ng, Flag need, Flag ro] s
     else do {
       ((need', ro'), s) \<leftarrow> at_bridge b (\<lambda>br. do { (need, ro, br) \<leftarrow> ecall_oftable_configure b br (unat t) nm mf gs need ro; Some ((need, ro), br) }) s;
       Some ((), [Flag need', Flag ro'], s) })"

definition SGX_need_to_evict :: "env \<Rightarrow> bool \<Rightarrow> u8 \<Rightarrow> u8 \<Rightarrow> sgx \<Rightarrow> u8 outcome" where
  "SGX_need_to_evict e hot b t s = (if hot
     then hcall 1 e hotcall_ecall_need_to_evict [u8_obj b, u8_obj t] s
     else do {
       (v, s) \<leftarrow> query b (\<lambda>br. ecall_need_to_evict br (unat t)) s;
       Some (of_bool v :: u8, [], s) })"

definition SGX_collect_rules_loose_stats_request :: "env \<Rightarrow> bool \<Rightarrow> u8 \<Rightarrow> u8 \<Rightarrow> u32 \<Rightarrow> u64 \<Rightarrow> u64 \<Rightarrow> match \<Rightarrow> sgx \<Rightarrow> u64 outcome" where
  "SGX_collect_rules_loose_stats_request e hot b t n sta bs m s = (if hot
     then hcall 8 e hotcall_ecall_collect_rules_loose_stats_request [u8_obj b, u8_obj t, u32_obj n, size_obj sta, size_obj bs, Match m, Out, Out, Out, Out] s
     else do {
       ((es, cnt), s) \<leftarrow> query b (\<lambda>br. ecall_collect_rules_loose_stats_request br t (sint n) (unat sta) (unat bs) m) s;
       Some (of_nat (length es) :: u64, map (\<lambda>(cr, m, p). Stat cr m p) es @ [size_obj (of_nat cnt)], s) })"

definition SGX_ofproto_rule_send_removed :: "env \<Rightarrow> bool \<Rightarrow> u8 \<Rightarrow> ut_ptr \<Rightarrow> sgx \<Rightarrow> unit outcome" where
  "SGX_ofproto_rule_send_removed e hot b cr s = (if hot
     then hcall_void 0 e hotcall_ecall_ofproto_rule_send_removed [u8_obj b, Rule cr, Out, Out, Out] s
     else do {
       (v, s) \<leftarrow> query b (\<lambda>br. ecall_ofproto_rule_send_removed br cr) s;
       Some ((), (case v of None \<Rightarrow> [Flag True] | Some (m, p) \<Rightarrow> [Match m, u32_obj p, Flag False]), s) })"

definition SGX_remove_rules :: "env \<Rightarrow> bool \<Rightarrow> u8 \<Rightarrow> u8 list \<Rightarrow> ut_ptr list \<Rightarrow> u64 \<Rightarrow> sgx \<Rightarrow> unit outcome" where
  "SGX_remove_rules e hot b ts crs n s = (if hot
     then hcall_void 0 e hotcall_ecall_oftable_remove_rules [u8_obj b, U8s ts, Rules crs, Out, size_obj n] s
     else do {
       (hs, s) \<leftarrow> at_bridge b (\<lambda>br. do { us \<leftarrow> array ts n; cs \<leftarrow> array crs n; ecall_oftable_remove_rules br (zip (map unat us) cs) }) s;
       Some ((), map Flag hs, s) })"

definition SGX_minimatch_expand_and_get_priority :: "env \<Rightarrow> bool \<Rightarrow> u8 \<Rightarrow> ut_ptr \<Rightarrow> sgx \<Rightarrow> unit outcome" where
  "SGX_minimatch_expand_and_get_priority e hot b cr s = (if hot
     then hcall_void 0 e hotcall_ecall_minimatch_expand_and_get_priority [u8_obj b, Rule cr, Out, Out] s
     else do {
       ((m, p), s) \<leftarrow> query b (\<lambda>br. ecall_minimatch_expand_and_get_priority br cr) s;
       Some ((), [Match m, u32_obj p], s) })"

definition SGX_miniflow_expand_and_tag :: "env \<Rightarrow> bool \<Rightarrow> u8 \<Rightarrow> ut_ptr \<Rightarrow> u8 \<Rightarrow> sgx \<Rightarrow> u32 outcome" where
  "SGX_miniflow_expand_and_tag e hot b cr t s = (if hot
     then hcall 4 e hotcall_ecall_miniflow_expand_and_tag [u8_obj b, Rule cr, Out, u8_obj t] s
     else do {
       ((f, v), s) \<leftarrow> query b (\<lambda>br. ecall_miniflow_expand_and_tag br cr (unat t)) s;
       Some (v :: u32, [Flow f], s) })"

definition SGX_cls_rules_format :: "env \<Rightarrow> bool \<Rightarrow> u8 \<Rightarrow> ut_ptr \<Rightarrow> u64 \<Rightarrow> sgx \<Rightarrow> unit outcome" where
  "SGX_cls_rules_format e hot b crs n s = (if hot
     then hcall_void 0 e hotcall_ecall_cls_rules_format [u8_obj b, Rule crs, Out, size_obj n] s
     else do {
       (ms, s) \<leftarrow> query b (\<lambda>br. ecall_cls_rules_format br crs (unat n)) s;
       Some ((), map Match ms, s) })"

section \<open>Both bodies agree\<close>

definition env_ok :: "env \<Rightarrow> bool" where
  "env_ok e \<longleftrightarrow> 8 \<le> length (e_stack e)"

lemma ret_local [simp]:
  assumes "env_ok e" and "k \<le> 8"
  shows "ret k w \<lparr>fc_id = i, fc_args = as, fc_return = take k (e_stack e)\<rparr> outs s = Some (le_bytes k w, outs, s)"
  using assms by (simp add: ret_def env_ok_def)

lemmas hot_simps = hcall_def hcall_void_def execute_function_def arg_defs no_ret_def case_prod_unfold Option.bind_assoc Let_def

lemma ucast_low_byte: "unat (n :: u32) < 256 \<Longrightarrow> ucast (ucast n :: u8) = n"
  by (simp add: word_unat_eq_iff unsigned_ucast_eq take_bit_eq_mod unat_mod)

text \<open>The counts are returned through an \<open>int *\<close> into a \<open>size_t\<close> that is not initialised: only the low half is written.\<close>

definition counted :: "env \<Rightarrow> u64 outcome \<Rightarrow> u64 outcome" where
  "counted e r = map_option (\<lambda>(v, outs, s). (of_le (le_bytes 4 (ucast v :: u32) @ take 4 (drop 4 (e_stack e))), outs, s)) r"

lemma ret_count [simp]:
  assumes "env_ok e"
  shows "ret 4 w \<lparr>fc_id = i, fc_args = as, fc_return = take 8 (e_stack e)\<rparr> outs s = Some (le_bytes 4 w @ take 4 (drop 4 (e_stack e)), outs, s)"
  using assms by (simp add: ret_def env_ok_def drop_take)

lemma map_option_bind: "map_option f (Option.bind x g) = Option.bind x (\<lambda>y. map_option f (g y))"
  by (cases x) simp_all

lemma ucast_of_nat_size: "(ucast (of_nat k :: u64) :: u32) = of_nat k"
  by (simp add: word_unat_eq_iff unsigned_ucast_eq unsigned_of_nat)

lemmas counted_simps = hot_simps counted_def map_option_bind ucast_of_nat_size

lemma hot_SGX_readonly_set: "env_ok e \<Longrightarrow> SGX_readonly_set e True b t s = SGX_readonly_set e False b t s"
  by (simp add: SGX_readonly_set_def call_oftable_set_readonly_def hot_simps)

lemma hot_SGX_istable_readonly: "env_ok e \<Longrightarrow> SGX_istable_readonly e True b t s = SGX_istable_readonly e False b t s"
  by (simp add: SGX_istable_readonly_def call_oftable_is_readonly_def hot_simps)

lemma hot_SGX_cls_rule_init: "env_ok e \<Longrightarrow> SGX_cls_rule_init e True b cr m p s = SGX_cls_rule_init e False b cr m p s"
  by (simp add: SGX_cls_rule_init_def call_cls_rule_init_def hot_simps)

lemma hot_SGX_cr_rule_overlaps: "env_ok e \<Longrightarrow> SGX_cr_rule_overlaps e True b t cr s = SGX_cr_rule_overlaps e False b t cr s"
  by (simp add: SGX_cr_rule_overlaps_def call_cr_rule_overlaps_def hot_simps)

lemma hot_SGX_cls_rule_hash: "env_ok e \<Longrightarrow> SGX_cls_rule_hash e True b cr bas s = SGX_cls_rule_hash e False b cr bas s"
  by (simp add: SGX_cls_rule_hash_def call_cls_rule_hash_def hot_simps)

lemma hot_SGX_cls_rule_equal: "env_ok e \<Longrightarrow> SGX_cls_rule_equal e True b cra crb s = SGX_cls_rule_equal e False b cra crb s"
  by (simp add: SGX_cls_rule_equal_def call_cls_rule_equal_def hot_simps)

lemma hot_SGX_rule_get_flags: "env_ok e \<Longrightarrow> SGX_rule_get_flags e True b t s = SGX_rule_get_flags e False b t s"
  by (simp add: SGX_rule_get_flags_def call_oftable_get_flags_def hot_simps)

lemma hot_SGX_cls_count: "env_ok e \<Longrightarrow> SGX_cls_count e True b t s = SGX_cls_count e False b t s"
  by (simp add: SGX_cls_count_def call_oftable_cls_count_def hot_simps)

lemma hot_SGX_eviction_fields_enable: "env_ok e \<Longrightarrow> SGX_eviction_fields_enable e True b t s = SGX_eviction_fields_enable e False b t s"
  by (simp add: SGX_eviction_fields_enable_def call_is_eviction_fields_enabled_def hot_simps)

lemma hot_SGX_evg_add_rule: "env_ok e \<Longrightarrow> SGX_evg_add_rule e True b t cr gp rp nd s = SGX_evg_add_rule e False b t cr gp rp nd s"
  by (simp add: SGX_evg_add_rule_def call_evg_add_rule_def hot_simps)

lemma hot_SGX_evg_remove_rule: "env_ok e \<Longrightarrow> SGX_evg_remove_rule e True b t cr s = SGX_evg_remove_rule e False b t cr s"
  by (simp add: SGX_evg_remove_rule_def call_evg_remove_rule_def hot_simps)

lemma hot_SGX_choose_rule_to_evict: "env_ok e \<Longrightarrow> SGX_choose_rule_to_evict e True b t vic s = SGX_choose_rule_to_evict e False b t vic s"
  by (simp add: SGX_choose_rule_to_evict_def call_choose_rule_to_evict_def hot_simps)

lemma hot_SGX_choose_rule_to_evict_p: "env_ok e \<Longrightarrow> SGX_choose_rule_to_evict_p e True b t vic cr s = SGX_choose_rule_to_evict_p e False b t vic cr s"
  by (simp add: SGX_choose_rule_to_evict_p_def call_choose_rule_to_evict_p_def hot_simps)

lemma hot_SGX_table_mflows: "env_ok e \<Longrightarrow> SGX_table_mflows e True b t s = SGX_table_mflows e False b t s"
  by (simp add: SGX_table_mflows_def call_oftable_mflows_def hot_simps)

lemma hot_SGX_table_mflows_set: "env_ok e \<Longrightarrow> SGX_table_mflows_set e True b t val s = SGX_table_mflows_set e False b t val s"
  by (simp add: SGX_table_mflows_set_def call_oftable_mflows_set_def hot_simps)

lemma hot_SGX_minimatch_expand: "env_ok e \<Longrightarrow> SGX_minimatch_expand e True b cr s = SGX_minimatch_expand e False b cr s"
  by (simp add: SGX_minimatch_expand_def call_minimatch_expand_def hot_simps)

lemma hot_SGX_cr_priority: "env_ok e \<Longrightarrow> SGX_cr_priority e True b cr s = SGX_cr_priority e False b cr s"
  by (simp add: SGX_cr_priority_def call_cr_priority_def hot_simps)

lemma hot_SGX_cls_find_match_exactly: "env_ok e \<Longrightarrow> SGX_cls_find_match_exactly e True b t m p res s = SGX_cls_find_match_exactly e False b t m p res s"
  by (simp add: SGX_cls_find_match_exactly_def call_oftable_cls_find_match_exactly_def hot_simps)

lemma hot_SGX_collect_rules_loose_r: "env_ok e \<Longrightarrow> unat n < 256 \<Longrightarrow> SGX_collect_rules_loose_r e True b n buf el t m s = SGX_collect_rules_loose_r e False b n buf el t m s"
  by (simp add: SGX_collect_rules_loose_r_def call_collect_rules_loose_r_def hot_simps ucast_low_byte)

lemma hot_SGX_collect_rules_strict_r: "env_ok e \<Longrightarrow> unat n < 256 \<Longrightarrow> SGX_collect_rules_strict_r e True b n buf el t m p s = SGX_collect_rules_strict_r e False b n buf el t m p s"
  by (simp add: SGX_collect_rules_strict_r_def call_collect_rules_strict_r_def hot_simps ucast_low_byte)

lemma hot_SGX_oftable_enable_eviction_r: "env_ok e \<Longrightarrow> SGX_oftable_enable_eviction_r e True b buf el t s = SGX_oftable_enable_eviction_r e False b buf el t s"
  by (simp add: SGX_oftable_enable_eviction_r_def call_oftable_enable_eviction_r_def hot_simps)

lemma hot_SGX_collect_ofmonitor_util_r: "env_ok e \<Longrightarrow> unat n < 256 \<Longrightarrow> SGX_collect_ofmonitor_util_r e True b n buf el t mm s = SGX_collect_ofmonitor_util_r e False b n buf el t mm s"
  by (simp add: SGX_collect_ofmonitor_util_r_def call_collect_ofmonitor_util_r_def hot_simps ucast_low_byte)

lemma hot_SGX_oftable_enable_eviction: "env_ok e \<Longrightarrow> SGX_oftable_enable_eviction e True b t sfs nf rv nc s = SGX_oftable_enable_eviction e False b t sfs nf rv nc s"
  by (simp add: SGX_oftable_enable_eviction_def call_oftable_enable_eviction_def hot_simps)

lemma hot_SGX_oftable_disable_eviction: "env_ok e \<Longrightarrow> SGX_oftable_disable_eviction e True b t s = SGX_oftable_disable_eviction e False b t s"
  by (simp add: SGX_oftable_disable_eviction_def call_oftable_disable_eviction_def hot_simps)

lemma hot_SGX_ofproto_destroy: "env_ok e \<Longrightarrow> SGX_ofproto_destroy e True b s = SGX_ofproto_destroy e False b s"
  by (simp add: SGX_ofproto_destroy_def call_ofproto_destroy_def hot_simps)

lemma hot_SGX_total_rules: "env_ok e \<Longrightarrow> SGX_total_rules e True b s = SGX_total_rules e False b s"
  by (simp add: SGX_total_rules_def call_total_rules_def hot_simps)

lemma hot_SGX_table_name: "env_ok e \<Longrightarrow> SGX_table_name e True b t buf_chars len s = SGX_table_name e False b t buf_chars len s"
  by (simp add: SGX_table_name_def call_oftable_name_def hot_simps)

lemma hot_SGX_cls_rule_is_loose_match: "env_ok e \<Longrightarrow> SGX_cls_rule_is_loose_match e True b cr mm s = SGX_cls_rule_is_loose_match e False b cr mm s"
  by (simp add: SGX_cls_rule_is_loose_match_def call_cls_rule_is_loose_match_def hot_simps)

lemma hot_SGX_flush_r: "env_ok e \<Longrightarrow> SGX_flush_r e True b buf el s = SGX_flush_r e False b buf el s"
  by (simp add: SGX_flush_r_def call_flush_r_def hot_simps)

lemma hot_SGX_flow_stats_r: "env_ok e \<Longrightarrow> SGX_flow_stats_r e True b buf el s = SGX_flow_stats_r e False b buf el s"
  by (simp add: SGX_flow_stats_r_def call_flow_stats_r_def hot_simps)

lemma hot_SGX_dpif_destroy_r: "env_ok e \<Longrightarrow> SGX_dpif_destroy_r e True b buf el s = SGX_dpif_destroy_r e False b buf el s"
  by (simp add: SGX_dpif_destroy_r_def call_dpif_destroy_r_def hot_simps)

lemma hot_SGX_cls_rule_format: "env_ok e \<Longrightarrow> SGX_cls_rule_format e True b cr s = SGX_cls_rule_format e False b cr s"
  by (simp add: SGX_cls_rule_format_def call_cls_rule_format_def hot_simps)

lemma hot_SGX_miniflow_expand: "env_ok e \<Longrightarrow> SGX_miniflow_expand e True b cr s = SGX_miniflow_expand e False b cr s"
  by (simp add: SGX_miniflow_expand_def call_miniflow_expand_def hot_simps)

lemma hot_SGX_rule_calculate_tag: "env_ok e \<Longrightarrow> SGX_rule_calculate_tag e True b cr f t s = SGX_rule_calculate_tag e False b cr f t s"
  by (simp add: SGX_rule_calculate_tag_def call_rule_calculate_tag_def hot_simps)

lemma hot_SGX_is_sgx_other_table: "env_ok e \<Longrightarrow> SGX_is_sgx_other_table e True b t s = SGX_is_sgx_other_table e False b t s"
  by (simp add: SGX_is_sgx_other_table_def call_oftable_is_other_table_def hot_simps)

lemma hot_SGX_rule_calculate_tag_s: "env_ok e \<Longrightarrow> SGX_rule_calculate_tag_s e True b t f s = SGX_rule_calculate_tag_s e False b t f s"
  by (simp add: SGX_rule_calculate_tag_s_def call_rule_calculate_tag_s_def hot_simps)

lemma hot_sgx_oftable_check_hidden: "env_ok e \<Longrightarrow> sgx_oftable_check_hidden e True b s = sgx_oftable_check_hidden e False b s"
  by (simp add: sgx_oftable_check_hidden_def call_oftable_hidden_check_def hot_simps)

lemma hot_SGX_oftable_set_name: "env_ok e \<Longrightarrow> SGX_oftable_set_name e True b t nm s = SGX_oftable_set_name e False b t nm s"
  by (simp add: SGX_oftable_set_name_def call_oftable_set_name_def hot_simps)

lemma hot_SGX_minimask_get_vid_mask: "env_ok e \<Longrightarrow> SGX_minimask_get_vid_mask e True b cr s = SGX_minimask_get_vid_mask e False b cr s"
  by (simp add: SGX_minimask_get_vid_mask_def call_minimask_get_vid_mask_def hot_simps)

lemma hot_SGX_miniflow_get_vid: "env_ok e \<Longrightarrow> SGX_miniflow_get_vid e True b cr s = SGX_miniflow_get_vid e False b cr s"
  by (simp add: SGX_miniflow_get_vid_def call_miniflow_get_vid_def hot_simps)

lemma hot_SGX_ofproto_get_vlan_usage__r: "env_ok e \<Longrightarrow> SGX_ofproto_get_vlan_usage__r e True b buf_u16s el s = SGX_ofproto_get_vlan_usage__r e False b buf_u16s el s"
  by (simp add: SGX_ofproto_get_vlan_usage__r_def call_ofproto_get_vlan_r_def hot_simps)

lemma hot_SGX_get_cls_rules: "env_ok e \<Longrightarrow> SGX_get_cls_rules e True b t sta sto bs s = SGX_get_cls_rules e False b t sta sto bs s"
  by (simp add: SGX_get_cls_rules_def call_oftable_get_cls_rules_def hot_simps)

lemma hot_SGX_get_cls_rules_and_enable_eviction: "env_ok e \<Longrightarrow> SGX_get_cls_rules_and_enable_eviction e True b t sta sto bs sfs nf rv nc s = SGX_get_cls_rules_and_enable_eviction e False b t sta sto bs sfs nf rv nc s"
  by (simp add: SGX_get_cls_rules_and_enable_eviction_def call_get_cls_rules_and_enable_eviction_def hot_simps)

lemma hot_SGX_eviction_group_add_rules: "env_ok e \<Longrightarrow> SGX_eviction_group_add_rules e True b t n_size crs nds ps gp s = SGX_eviction_group_add_rules e False b t n_size crs nds ps gp s"
  by (simp add: SGX_eviction_group_add_rules_def call_eviction_group_add_rules_def hot_simps)

lemma hot_SGX_ofproto_get_vlan_usage: "env_ok e \<Longrightarrow> SGX_ofproto_get_vlan_usage e True b bs sta sto s = SGX_ofproto_get_vlan_usage e False b bs sta sto s"
  by (simp add: SGX_ofproto_get_vlan_usage_def call_ofproto_get_vlan_usage_def hot_simps)

lemma hot_SGX_ofproto_evict: "env_ok e \<Longrightarrow> unat n < 256 \<Longrightarrow> SGX_ofproto_evict e True b n sta bs s = SGX_ofproto_evict e False b n sta bs s"
  by (simp add: SGX_ofproto_evict_def call_ofproto_evict_def hot_simps ucast_low_byte)

lemma hot_SGX_add_flow: "env_ok e \<Longrightarrow> SGX_add_flow e True b t cr vic evi m hsh vid vm p fl gp rp nd pend np tmo ovf modi ovl delp ro s = SGX_add_flow e False b t cr vic evi m hsh vid vm p fl gp rp nd pend np tmo ovf modi ovl delp ro s"
  by (simp add: SGX_add_flow_def call_add_flow_def hot_simps)

lemma hot_SGX_collect_rules_strict: "env_ok e \<Longrightarrow> SGX_collect_rules_strict e True b t n m p bs s = SGX_collect_rules_strict e False b t n m p bs s"
  by (simp add: SGX_collect_rules_strict_def call_collect_rules_strict_def hot_simps)

lemma hot_SGX_collect_rules_loose: "env_ok e \<Longrightarrow> SGX_collect_rules_loose e True b t n sta m bs s = SGX_collect_rules_loose e False b t n sta m bs s"
  by (simp add: SGX_collect_rules_loose_def call_collect_rules_loose_def hot_simps)

lemma hot_SGX_configure_table: "env_ok e \<Longrightarrow> SGX_configure_table e True b t nm mf gs ng need ro s = SGX_configure_table e False b t nm mf gs ng need ro s"
  by (simp add: SGX_configure_table_def call_oftable_configure_def hot_simps)

lemma hot_SGX_need_to_evict: "env_ok e \<Longrightarrow> SGX_need_to_evict e True b t s = SGX_need_to_evict e False b t s"
  by (simp add: SGX_need_to_evict_def call_need_to_evict_def hot_simps)

lemma hot_SGX_collect_rules_loose_stats_request: "env_ok e \<Longrightarrow> SGX_collect_rules_loose_stats_request e True b t n sta bs m s = SGX_collect_rules_loose_stats_request e False b t n sta bs m s"
  by (simp add: SGX_collect_rules_loose_stats_request_def call_collect_rules_loose_stats_request_def hot_simps)

lemma hot_SGX_ofproto_rule_send_removed: "env_ok e \<Longrightarrow> SGX_ofproto_rule_send_removed e True b cr s = SGX_ofproto_rule_send_removed e False b cr s"
  by (simp add: SGX_ofproto_rule_send_removed_def call_ofproto_rule_send_removed_def hot_simps)

lemma hot_SGX_minimatch_expand_and_get_priority: "env_ok e \<Longrightarrow> SGX_minimatch_expand_and_get_priority e True b cr s = SGX_minimatch_expand_and_get_priority e False b cr s"
  by (simp add: SGX_minimatch_expand_and_get_priority_def call_minimatch_expand_and_get_priority_def hot_simps)

lemma hot_SGX_collect_rules_loose_c: "env_ok e \<Longrightarrow> unat n < 256 \<Longrightarrow> SGX_collect_rules_loose_c e True b n t m s = counted e (SGX_collect_rules_loose_c e False b n t m s)"
  by (simp add: SGX_collect_rules_loose_c_def call_collect_rules_loose_c_def counted_simps ucast_low_byte)

lemma hot_SGX_collect_rules_strict_c: "env_ok e \<Longrightarrow> unat n < 256 \<Longrightarrow> SGX_collect_rules_strict_c e True b n t m p s = counted e (SGX_collect_rules_strict_c e False b n t m p s)"
  by (simp add: SGX_collect_rules_strict_c_def call_collect_rules_strict_c_def counted_simps ucast_low_byte)

lemma hot_SGX_oftable_enable_eviction_c: "env_ok e \<Longrightarrow> SGX_oftable_enable_eviction_c e True b t s = counted e (SGX_oftable_enable_eviction_c e False b t s)"
  by (simp add: SGX_oftable_enable_eviction_c_def call_oftable_enable_eviction_c_def counted_simps)

lemma hot_SGX_collect_ofmonitor_util_c: "env_ok e \<Longrightarrow> unat n < 256 \<Longrightarrow> SGX_collect_ofmonitor_util_c e True b n t mm s = counted e (SGX_collect_ofmonitor_util_c e False b n t mm s)"
  by (simp add: SGX_collect_ofmonitor_util_c_def call_collect_ofmonitor_util_c_def counted_simps ucast_low_byte)

lemma hot_SGX_flush_c: "env_ok e \<Longrightarrow> SGX_flush_c e True b s = counted e (SGX_flush_c e False b s)"
  by (simp add: SGX_flush_c_def call_flush_c_def counted_simps)

lemma hot_SGX_flow_stats_c: "env_ok e \<Longrightarrow> SGX_flow_stats_c e True b s = counted e (SGX_flow_stats_c e False b s)"
  by (simp add: SGX_flow_stats_c_def call_flow_stats_c_def counted_simps)

lemma hot_SGX_dpif_destroy_c: "env_ok e \<Longrightarrow> SGX_dpif_destroy_c e True b s = counted e (SGX_dpif_destroy_c e False b s)"
  by (simp add: SGX_dpif_destroy_c_def call_dpif_destroy_c_def counted_simps)

lemma hot_SGX_ofproto_get_vlan_usage_c: "env_ok e \<Longrightarrow> SGX_ofproto_get_vlan_usage_c e True b s = counted e (SGX_ofproto_get_vlan_usage_c e False b s)"
  by (simp add: SGX_ofproto_get_vlan_usage_c_def call_ofproto_get_vlan_c_def counted_simps)

text \<open>The high half of such a count.\<close>

lemma bit_of_le_append4:
  fixes w :: u32
  shows "bit (of_le (le_bytes 4 w @ bs) :: u64) i \<longleftrightarrow> (if i < 32 then bit w i else bit (of_le bs :: u64) (i - 32) \<and> i < 64)"
proof (cases "i < 32")
  case True
  have e: "(le_bytes 4 w @ bs) ! j = ucast (drop_bit (8 * j) w)" if "j < 4" for j using that by (simp add: nth_append le_bytes_def)
  have d: "i div 8 < 4" using True by linarith
  have m: "8 * (i div 8) + i mod 8 = i" by simp
  have "i div 8 < length (le_bytes 4 w @ bs)" using d by (simp only: length_append length_le_bytes)
  then have "bit (of_le (le_bytes 4 w @ bs) :: u64) i \<longleftrightarrow> bit (ucast (drop_bit (8 * (i div 8)) w) :: u8) (i mod 8)"
    using True unfolding bit_of_le e [OF d] by auto
  then show ?thesis using True m by (simp add: bit_simps)
next
  case False
  then obtain k where k: "i = k + 32" by (metis add.commute le_Suc_ex not_less)
  have "(k + 32) div 8 = k div 8 + 4" "(k + 32) mod 8 = k mod 8" by presburger+
  then show ?thesis unfolding k by (auto simp: bit_of_le nth_append)
qed

lemma small_bits: "unat (v :: u64) < 2 ^ 32 \<Longrightarrow> bit v i \<Longrightarrow> i < 32"
  by (metis bit_take_bit_iff take_bit_nat_eq_self unsigned_take_bit_eq word_unat_eq_iff)

lemma of_le_zero: "length bs = 4 \<Longrightarrow> (of_le bs :: u64) = 0 \<longleftrightarrow> bs = replicate 4 0"
proof
  assume l: "length bs = 4" and z: "(of_le bs :: u64) = 0"
  have "bs ! j = 0" if "j < 4" for j
  proof (rule bit_word_eqI)
    fix i assume i: "i < LENGTH(8)"
    then have d: "(8 * j + i) div 8 = j" "(8 * j + i) mod 8 = i" "8 * j + i < 64" using that by auto
    have "\<not> bit (of_le bs :: u64) (8 * j + i)" using z by simp
    then show "bit (bs ! j) i \<longleftrightarrow> bit (0 :: u8) i" using that l d by (simp add: bit_of_le)
  qed
  then show "bs = replicate 4 0" using l by (intro nth_equalityI) auto
qed (simp add: numeral_eq_Suc)

lemma counted_same:
  assumes v: "unat v < 2 ^ 32" and l: "length bs = 4"
  shows "(of_le (le_bytes 4 (ucast v :: u32) @ bs) :: u64) = v \<longleftrightarrow> bs = replicate 4 0"
proof -
  have h: "(of_le bs :: u64) = 0 \<longleftrightarrow> (\<forall>i. 32 \<le> i \<and> i < 64 \<longrightarrow> \<not> bit (of_le bs :: u64) (i - 32))"
  proof -
    have "\<not> bit (of_le bs :: u64) i" if "\<not> i < 32" for i
    proof -
      have "\<not> i div 8 < 4" using that by linarith
      then show ?thesis unfolding bit_of_le l by blast
    qed
    then have "(of_le bs :: u64) = 0 \<longleftrightarrow> (\<forall>i < 32. \<not> bit (of_le bs :: u64) i)"
      by (metis bit_0_eq bit_word_eqI bot_apply bot_bool_def)
    also have "\<dots> \<longleftrightarrow> (\<forall>i. 32 \<le> i \<and> i < 64 \<longrightarrow> \<not> bit (of_le bs :: u64) (i - 32))"
    proof (intro iffI allI impI)
      fix i :: nat assume a: "\<forall>i. 32 \<le> i \<and> i < 64 \<longrightarrow> \<not> bit (of_le bs :: u64) (i - 32)" and "i < 32"
      then show "\<not> bit (of_le bs :: u64) i" using a [rule_format, of "i + 32"] by simp
    qed auto
    finally show ?thesis .
  qed
  have "(of_le (le_bytes 4 (ucast v :: u32) @ bs) :: u64) = v \<longleftrightarrow> (\<forall>i < 64. bit (of_le (le_bytes 4 (ucast v :: u32) @ bs) :: u64) i = bit v i)"
    by (auto intro: bit_word_eqI)
  also have "\<dots> \<longleftrightarrow> (\<forall>i. 32 \<le> i \<and> i < 64 \<longrightarrow> \<not> bit (of_le bs :: u64) (i - 32))"
  proof -
    have "bit (of_le (le_bytes 4 (ucast v :: u32) @ bs) :: u64) i = bit v i \<longleftrightarrow> (32 \<le> i \<longrightarrow> \<not> bit (of_le bs :: u64) (i - 32))" if "i < 64" for i
      using that small_bits [OF v, of i] by (cases "i < 32") (auto simp: bit_of_le_append4 bit_simps)
    then show ?thesis by auto
  qed
  finally show ?thesis using h of_le_zero [OF l] by simp
qed

lemma counted_exact:
  assumes "env_ok e" and "h = counted e d" and "d = Some (v, outs, s')" and "unat v < 2 ^ 32"
  shows "h = Some (v, outs, s') \<longleftrightarrow> take 4 (drop 4 (e_stack e)) = replicate 4 0"
proof -
  have "length (take 4 (drop 4 (e_stack e))) = 4" using assms(1) by (simp add: env_ok_def)
  from counted_same [OF assms(4) this] show ?thesis using assms(2,3) by (simp add: counted_def)
qed

lemma hot_miniflow_expand_and_tag:
  assumes "env_ok e" and "SGX_miniflow_expand_and_tag e False b cr t s = Some (v, outs, s')"
  shows "SGX_miniflow_expand_and_tag e True b cr t s = Some (of_le (take 4 (e_stack e)), outs, s')"
  using assms by (auto simp: SGX_miniflow_expand_and_tag_def call_miniflow_expand_and_tag_def hot_simps split: bind_splits)

lemma hot_cls_rules_format: "SGX_cls_rules_format e True b cr k s = Some ((), [], s)"
  by (simp add: SGX_cls_rules_format_def hot_simps)

section \<open>The cache beside the calls\<close>

text \<open>A hot call that also updates the cache: the result and the enclave are those of the direct call, and the cache
  keeps its invariant.\<close>

definition cache_ok :: "sgx \<Rightarrow> bool" where
  "cache_ok s \<longleftrightarrow> (\<exists>es. cache_inv (sx_cache s) es)"

definition agree :: "'r outcome \<Rightarrow> 'r outcome \<Rightarrow> bool" where
  "agree h d \<longleftrightarrow> (case d of None \<Rightarrow> h = None
     | Some (v, outs, s) \<Rightarrow> (\<exists>s'. h = Some (v, outs, s') \<and> sx_enclave s' = sx_enclave s \<and> cache_ok s'))"

lemma at_bridge_cache: "at_bridge b f s = Some (r, s') \<Longrightarrow> sx_cache s' = sx_cache s"
  by (auto simp: at_bridge_def)

lemma update_cache: "update b f s = Some (r, s') \<Longrightarrow> sx_cache s' = sx_cache s"
  by (auto simp: update_def dest: at_bridge_cache)

lemma query_cache: "query b f s = Some (r, s') \<Longrightarrow> sx_cache s' = sx_cache s"
  by (auto simp: query_def dest: at_bridge_cache)

lemma cache_op_ok:
  assumes "cache_ok s" and "no_null c" and "cache_exec junk c (sx_cache s) = map_option (Pair None) (g (sx_cache s))"
  shows "\<exists>s'. map_option (\<lambda>c. s\<lparr>sx_cache := c\<rparr>) (g (sx_cache s)) = Some s' \<and> sx_enclave s' = sx_enclave s \<and> cache_ok s'"
proof -
  obtain es where "cache_inv (sx_cache s) es" using assms(1) by (auto simp: cache_ok_def)
  from cache_exec_ok [OF this assms(2), of junk] assms(3) show ?thesis by (auto simp: cache_ok_def)
qed

lemma uncache_ok: "cache_ok s \<Longrightarrow> \<exists>s'. uncache e cr s = Some s' \<and> sx_enclave s' = sx_enclave s \<and> cache_ok s'"
  unfolding uncache_def by (rule cache_op_ok [where c = "Remove_Ut_Cr (e_mem e) cr"]) (simp_all add: no_null_def cache_exec_def)

lemma flush_cache_ok: "cache_ok s \<Longrightarrow> \<exists>s'. flush_cache s = Some s' \<and> sx_enclave s' = sx_enclave s \<and> cache_ok s'"
  unfolding flush_cache_def by (rule cache_op_ok [where c = Flush]) (simp_all add: no_null_def cache_exec_def)

lemma encache_ok: "cache_ok s \<Longrightarrow> cr \<noteq> 0 \<Longrightarrow> \<exists>s'. encache e f wc cr b t s = Some s' \<and> sx_enclave s' = sx_enclave s \<and> cache_ok s'"
  unfolding encache_def by (rule cache_op_ok [where c = "Insert f wc cr b t" and junk = "e_pages e"]) (simp_all add: no_null_def cache_exec_def)

lemma uncache_all_ok: "cache_ok s \<Longrightarrow> \<exists>s'. uncache_all e crs s = Some s' \<and> sx_enclave s' = sx_enclave s \<and> cache_ok s'"
proof (induction crs arbitrary: s)
  case (Cons cr crs)
  obtain s1 where s1: "uncache e cr s = Some s1" "sx_enclave s1 = sx_enclave s" "cache_ok s1" using uncache_ok [OF Cons.prems] by blast
  with Cons.IH [OF s1(3)] show ?case by auto
qed simp

text \<open>The shape of such a call: a step of the enclave, then one of the cache.\<close>

lemma agree_step:
  assumes "\<And>r s'. d = Some (r, s') \<Longrightarrow> cache_ok s' \<and> (\<exists>s''. g r s' = Some s'' \<and> sx_enclave s'' = sx_enclave s' \<and> cache_ok s'')"
  shows "agree (Option.bind d (\<lambda>(r, s). Option.bind (g r s) (\<lambda>s. Some (v r, outs r, s)))) (Option.bind d (\<lambda>(r, s). Some (v r, outs r, s)))"
proof (cases d)
  case (Some p)
  then show ?thesis using assms [of "fst p" "snd p"] by (auto simp: agree_def split: prod.split)
qed (simp add: agree_def)

lemma cache_ok_same: "cache_ok s \<Longrightarrow> sx_cache s' = sx_cache s \<Longrightarrow> cache_ok s'"
  by (simp add: cache_ok_def)

lemmas cache_steps = uncache_ok flush_cache_ok uncache_all_ok encache_ok

lemma lookup_not_null:
  assumes "query b (\<lambda>br. ecall_oftable_cls_lookup br (unat t) f wc) s = Some ((Some cr, wc'), s')"
    and "\<forall>w. ecall_oftable_cls_lookup (sx_enclave s b) (unat t) f wc \<noteq> Some (Some 0, w)"
  shows "cr \<noteq> 0"
  using assms by (auto simp: query_def at_bridge_def on_bridge_def split: if_splits)

lemma hot_SGX_cls_rule_destroy:
  assumes "env_ok e" and "cache_ok s"
  shows "agree (SGX_cls_rule_destroy e True b cr s) (SGX_cls_rule_destroy e False b cr s)"
proof -
  note agree_step [where d = "update b (\<lambda>br. ecall_cls_rule_destroy br cr) s" and g = "\<lambda>_ s. uncache e cr s" and v = "\<lambda>_. ()" and outs = "\<lambda>_. []"]
  moreover have "cache_ok s'" if "update b (\<lambda>br. ecall_cls_rule_destroy br cr) s = Some (r, s')" for r s' using cache_ok_same [OF assms(2) update_cache [OF that]] .
  ultimately show ?thesis using assms(1) 
    by (auto simp: SGX_cls_rule_destroy_def call_cls_rule_destroy_def hot_simps cache_steps split: option.splits prod.splits)
qed

lemma hot_SGX_classifier_replace:
  assumes "env_ok e" and "cache_ok s"
  shows "agree (SGX_classifier_replace e True b t cr rem s) (SGX_classifier_replace e False b t cr rem s)"
proof -
  note agree_step [where d = "at_bridge b (\<lambda>br. ecall_oftable_classifier_replace br (unat t) cr) s" and g = "\<lambda>v s. (case v of None \<Rightarrow> Some s | Some q \<Rightarrow> uncache e q s)" and v = "\<lambda>v. ()" and outs = "\<lambda>v. [Cell v]"]
  moreover have "cache_ok s'" if "at_bridge b (\<lambda>br. ecall_oftable_classifier_replace br (unat t) cr) s = Some (r, s')" for r s' using cache_ok_same [OF assms(2) at_bridge_cache [OF that]] .
  ultimately show ?thesis using assms(1) 
    by (auto simp: SGX_classifier_replace_def call_oftable_classifier_replace_def hot_simps cache_steps split: option.splits prod.splits)
qed

lemma hot_SGX_cls_remove:
  assumes "env_ok e" and "cache_ok s"
  shows "agree (SGX_cls_remove e True b t cr s) (SGX_cls_remove e False b t cr s)"
proof -
  note agree_step [where d = "update b (\<lambda>br. ecall_cls_remove br (unat t) cr) s" and g = "\<lambda>_ s. uncache e cr s" and v = "\<lambda>_. ()" and outs = "\<lambda>_. []"]
  moreover have "cache_ok s'" if "update b (\<lambda>br. ecall_cls_remove br (unat t) cr) s = Some (r, s')" for r s' using cache_ok_same [OF assms(2) update_cache [OF that]] .
  ultimately show ?thesis using assms(1) 
    by (auto simp: SGX_cls_remove_def call_cls_remove_def hot_simps cache_steps split: option.splits prod.splits)
qed

lemma hot_SGX_cls_lookup:
  assumes "env_ok e" and "cache_ok s" and "\<forall>w. ecall_oftable_cls_lookup (sx_enclave s b) (unat t) f wc \<noteq> Some (Some 0, w)"
  shows "agree (SGX_cls_lookup e True b res t f wc s) (SGX_cls_lookup e False b res t f wc s)"
proof -
  note agree_step [where d = "query b (\<lambda>br. ecall_oftable_cls_lookup br (unat t) f wc) s" and g = "\<lambda>(v, wc') s. (case v of None \<Rightarrow> Some s | Some cr \<Rightarrow> encache e f wc' cr (uint b) (uint t) s)" and v = "\<lambda>(v, wc'). ()" and outs = "\<lambda>(v, wc'). [Cell v, Wildcards wc']"]
  moreover have "cache_ok s'" if "query b (\<lambda>br. ecall_oftable_cls_lookup br (unat t) f wc) s = Some (r, s')" for r s' using cache_ok_same [OF assms(2) query_cache [OF that]] .
  ultimately show ?thesis using assms(1) lookup_not_null [OF _ assms(3)] 
    by (auto simp: SGX_cls_lookup_def call_oftable_cls_lookup_def hot_simps cache_steps split: option.splits prod.splits)
qed

lemma hot_SGX_table_update_taggable:
  assumes "env_ok e" and "cache_ok s"
  shows "agree (SGX_table_update_taggable e True b t s) (SGX_table_update_taggable e False b t s)"
proof -
  note agree_step [where d = "at_bridge b (\<lambda>br. ecall_oftable_update_taggable br (unat t)) s" and g = "\<lambda>v s. (if v = 4 then flush_cache s else Some s)" and v = "\<lambda>v. (of_int v :: u32)" and outs = "\<lambda>v. []"]
  moreover have "cache_ok s'" if "at_bridge b (\<lambda>br. ecall_oftable_update_taggable br (unat t)) s = Some (r, s')" for r s' using cache_ok_same [OF assms(2) at_bridge_cache [OF that]] .
  ultimately show ?thesis using assms(1) 
    by (auto simp: SGX_table_update_taggable_def call_oftable_update_taggable_def hot_simps cache_steps split: option.splits prod.splits)
qed

lemma hot_SGX_ofproto_flush:
  assumes "env_ok e" and "cache_ok s"
  shows "agree (SGX_ofproto_flush e True b bs sta sto s) (SGX_ofproto_flush e False b bs sta sto s)"
proof -
  note agree_step [where d = "at_bridge b (\<lambda>br. do { (acc, cnt, br) \<leftarrow> ecall_ofproto_flush br (unat bs); Some ((acc, cnt), br) }) s" and g = "\<lambda>(acc, cnt) s. flush_cache s" and v = "\<lambda>(acc, cnt). (of_nat (length acc) :: u64)" and outs = "\<lambda>(acc, cnt). [Rules (map fst acc), U32s (map snd acc), size_obj (of_int cnt)]"]
  moreover have "cache_ok s'" if "at_bridge b (\<lambda>br. do { (acc, cnt, br) \<leftarrow> ecall_ofproto_flush br (unat bs); Some ((acc, cnt), br) }) s = Some (r, s')" for r s' using cache_ok_same [OF assms(2) at_bridge_cache [OF that]] .
  ultimately show ?thesis using assms(1) 
    by (auto simp: SGX_ofproto_flush_def call_ofproto_flush_def hot_simps cache_steps split: option.splits prod.splits)
qed

lemma hot_SGX_delete_flows:
  assumes "env_ok e" and "cache_ok s"
  shows "agree (SGX_delete_flows e True b ts crs n_size s) (SGX_delete_flows e False b ts crs n_size s)"
proof -
  note agree_step [where d = "at_bridge b (\<lambda>br. do { us \<leftarrow> array ts n_size; cs \<leftarrow> array crs n_size; ecall_delete_flows br (zip (map unat us) cs) }) s" and g = "\<lambda>ds s. uncache_all e (take (unat n_size) crs) s" and v = "\<lambda>ds. ()" and outs = "\<lambda>ds. map Deleted ds"]
  moreover have "cache_ok s'" if "at_bridge b (\<lambda>br. do { us \<leftarrow> array ts n_size; cs \<leftarrow> array crs n_size; ecall_delete_flows br (zip (map unat us) cs) }) s = Some (r, s')" for r s' using cache_ok_same [OF assms(2) at_bridge_cache [OF that]] .
  ultimately show ?thesis using assms(1) 
    by (auto simp: SGX_delete_flows_def call_delete_flows_def hot_simps cache_steps split: option.splits prod.splits)
qed

lemma hot_SGX_remove_rules:
  assumes "env_ok e" and "cache_ok s"
  shows "agree (SGX_remove_rules e True b ts crs n_size s) (SGX_remove_rules e False b ts crs n_size s)"
proof -
  note agree_step [where d = "at_bridge b (\<lambda>br. do { us \<leftarrow> array ts n_size; cs \<leftarrow> array crs n_size; ecall_oftable_remove_rules br (zip (map unat us) cs) }) s" and g = "\<lambda>hs s. uncache_all e (take (unat n_size) crs) s" and v = "\<lambda>hs. ()" and outs = "\<lambda>hs. map Flag hs"]
  moreover have "cache_ok s'" if "at_bridge b (\<lambda>br. do { us \<leftarrow> array ts n_size; cs \<leftarrow> array crs n_size; ecall_oftable_remove_rules br (zip (map unat us) cs) }) s = Some (r, s')" for r s' using cache_ok_same [OF assms(2) at_bridge_cache [OF that]] .
  ultimately show ?thesis using assms(1) 
    by (auto simp: SGX_remove_rules_def call_oftable_remove_rules_def hot_simps cache_steps split: option.splits prod.splits)
qed

section \<open>Bridges\<close>

text \<open>Each of the first 100 successful calls gets the next number and sets up that bridge only. The next one indexes past the
  arrays of the enclave.\<close>

lemma init_tables_bridge:
  assumes "enclave_is_initialized a"
  shows "sgx_ofproto_init_tables e junk nodes ces hot started n a =
    (if bridge_counter a < 100 then Some (uint (bridge_counter a), a\<lparr>bridge_counter := bridge_counter a + 1, app_sgx := (app_sgx a)\<lparr>sx_enclave :=
       (sx_enclave (app_sgx a))(bridge_counter a := ecall_ofproto_init_tables junk (sx_enclave (app_sgx a) (bridge_counter a)) n)\<rparr>\<rparr>) else None)"
  using assms by (simp add: sgx_ofproto_init_tables_def update_def at_bridge_def on_bridge_def N_BRIDGES_def word_less_nat_alt Let_def)

lemma init_tables_first:
  assumes "\<not> enclave_is_initialized a" and "{0..5} \<subseteq> dom nodes" and "bridge_counter a < 100"
  shows "\<exists>a'. sgx_ofproto_init_tables e junk nodes ces True True n a = Some (uint (bridge_counter a), a') \<and> enclave_is_initialized a'
    \<and> bridge_counter a' = bridge_counter a + 1 \<and> cache_ok (app_sgx a')"
proof -
  obtain c where "flow_map_cache_init (e_pages e) nodes ces = Some c" "cache_inv c [1, 2, 3, 4, 5]"
    using cache_init_ok [OF assms(2)] by blast
  then show ?thesis using assms(1,3)
    by (auto simp: sgx_ofproto_init_tables_def update_def at_bridge_def on_bridge_def N_BRIDGES_def word_less_nat_alt Let_def cache_ok_def)
qed

end
