(* ===== verification/Registry.thy ===== *)
theory Registry
  imports Oftable
begin

text \<open>
  The registry of rules. Two parts of the enclave keep objects in a hash map that is searched by the
  hash alone, the first node with that hash being the answer: the rules of a bridge, by the low half
  of their untrusted address, and the eviction groups of a table, by group id. While no two nodes have
  the same hash such a map is a finite map from hashes to objects. The interface of that finite map is
  the locale \<open>hash_index\<close>; on it rest the correctness of the registry (\<open>sgx_rule_from_ut_cr\<close>,
  \<open>ecall_cls_rule_init\<close>, \<open>ecall_cls_rule_destroy\<close>) and that of the group index.
\<close>

section \<open>Interface\<close>

locale hash_index =
  fixes inv :: "'s \<Rightarrow> bool" and abs :: "'s \<Rightarrow> 'k \<Rightarrow> 'v option"
    and ins :: "'s \<Rightarrow> 'v \<Rightarrow> 'k \<Rightarrow> 's option" and del :: "'s \<Rightarrow> 'v \<Rightarrow> 's option"
  assumes inj: "inv s \<Longrightarrow> abs s k = Some v \<Longrightarrow> abs s k' = Some v \<Longrightarrow> k = k'"
    and ins: "inv s \<Longrightarrow> abs s k = None \<Longrightarrow> v \<notin> ran (abs s) \<Longrightarrow>
      \<exists>s'. ins s v k = Some s' \<and> inv s' \<and> abs s' = (abs s)(k \<mapsto> v)"
    and del: "inv s \<Longrightarrow> abs s k = Some v \<Longrightarrow> \<exists>s'. del s v = Some s' \<and> inv s' \<and> abs s' = (abs s)(k := None)"
begin

lemma ran_ins: "abs s k = None \<Longrightarrow> ran ((abs s)(k \<mapsto> v)) = insert v (ran (abs s))"
  by (rule ran_map_upd)

lemma ran_del:
  assumes "inv s" and "abs s k = Some v"
  shows "ran ((abs s)(k := None)) = ran (abs s) - {v}"
proof -
  have "x = v" if "abs s k = Some x" for x using that assms(2) by simp
  moreover have "j = k" if "abs s j = Some v" for j by (rule inj [OF assms(1) that assms(2)])
  ultimately show ?thesis unfolding ran_def fun_upd_apply by (auto split: if_splits) metis
qed

lemma ins_del:
  assumes "inv s" and "abs s k = None" and "v \<notin> ran (abs s)"
  shows "\<exists>s' s''. ins s v k = Some s' \<and> del s' v = Some s'' \<and> inv s'' \<and> abs s'' = abs s"
proof -
  obtain s' where s: "ins s v k = Some s'" "inv s'" "abs s' = (abs s)(k \<mapsto> v)" using ins [OF assms] by blast
  then obtain s'' where "del s' v = Some s''" "inv s''" "abs s'' = (abs s')(k := None)"
    using del [OF s(2), of k v] by auto
  moreover have "abs s'' = abs s" using s(3) calculation(3) assms(2) by (simp add: fun_upd_idem)
  ultimately show ?thesis using s(1) by blast
qed

end

section \<open>Hash maps with one node per hash\<close>

definition hmap_abs :: "'a hmap \<Rightarrow> u64 \<Rightarrow> 'a option" where
  "hmap_abs h k = (case HMAP_FOR_EACH_WITH_HASH h k of [] \<Rightarrow> None | x # _ \<Rightarrow> Some x)"

definition hmap_unique :: "'a hmap \<Rightarrow> bool" where
  "hmap_unique h \<longleftrightarrow> hmap_wf h \<and> distinct (hmap_elems h) \<and> inj_on fst (set_mset (hmap_nodes h))"

lemma hmap_abs_nodes:
  assumes "hmap_unique h"
  shows "hmap_abs h k = Some x \<longleftrightarrow> (k, x) \<in># hmap_nodes h"
proof -
  have s: "y \<in> set (HMAP_FOR_EACH_WITH_HASH h k) \<longleftrightarrow> (k, y) \<in># hmap_nodes h" for y
    using assms by (simp add: hmap_unique_def set_with_hash)
  have u: "y = z" if "(k, y) \<in># hmap_nodes h" "(k, z) \<in># hmap_nodes h" for y z
    using inj_onD [of fst "set_mset (hmap_nodes h)" "(k, y)" "(k, z)"] that assms by (simp add: hmap_unique_def)
  show ?thesis
  proof (cases "HMAP_FOR_EACH_WITH_HASH h k")
    case Nil
    then show ?thesis using s [of x] by (simp add: hmap_abs_def)
  next
    case (Cons y ys)
    then have "(k, y) \<in># hmap_nodes h" using s [of y] by simp
    then show ?thesis using u by (auto simp: hmap_abs_def Cons)
  qed
qed

lemma hmap_abs_None: "hmap_unique h \<Longrightarrow> hmap_abs h k = None \<longleftrightarrow> (\<forall>x. (k, x) \<notin># hmap_nodes h)"
  using hmap_abs_nodes [of h k] by (metis not_Some_eq)

lemma hmap_abs_eqI: "hmap_unique h \<Longrightarrow> (\<And>k x. m k = Some x \<longleftrightarrow> (k, x) \<in># hmap_nodes h) \<Longrightarrow> hmap_abs h = m"
  by (rule ext) (metis hmap_abs_nodes not_Some_eq)

lemma ran_hmap_abs: "hmap_unique h \<Longrightarrow> ran (hmap_abs h) = set (hmap_elems h)"
  by (auto simp: ran_def hmap_abs_nodes set_hmap_elems) force

lemma hmap_unique_init [simp]: "hmap_unique hmap_init"
  by (simp add: hmap_unique_def)

lemma hmap_abs_init [simp]: "hmap_abs hmap_init = Map.empty"
  by (rule hmap_abs_eqI) simp_all

lemma hmap_unique_insert:
  assumes "hmap_unique h" and "hmap_abs h k = None" and "x \<notin> set (hmap_elems h)"
  shows "\<exists>h'. hmap_insert ok h x k = Some h' \<and> hmap_unique h' \<and> hmap_abs h' = (hmap_abs h)(k \<mapsto> x)"
proof -
  obtain h' where h: "hmap_insert ok h x k = Some h'" "hmap_wf h'" "hmap_nodes h' = add_mset (k, x) (hmap_nodes h)"
    using hmap_insert_wf [of h ok x k] assms(1) by (auto simp: hmap_unique_def)
  have f: "(k, y) \<notin># hmap_nodes h" for y using assms(1,2) by (simp add: hmap_abs_None)
  have "mset (hmap_elems h') = mset (x # hmap_elems h)" by (simp add: hmap_elems_nodes h(3))
  then have "distinct (hmap_elems h')"
    using mset_eq_imp_distinct_iff [of "hmap_elems h'" "x # hmap_elems h"] assms(1,3) by (simp add: hmap_unique_def)
  moreover have "inj_on fst (set_mset (hmap_nodes h'))" using assms(1) f by (force simp: h(3) hmap_unique_def)
  ultimately have u: "hmap_unique h'" using h(2) by (simp add: hmap_unique_def)
  have "hmap_abs h' = (hmap_abs h)(k \<mapsto> x)" using f by (intro hmap_abs_eqI [OF u]) (auto simp: h(3) hmap_abs_nodes [OF assms(1)])
  with h u show ?thesis by blast
qed

lemma hmap_unique_remove:
  assumes "hmap_unique h" and "hmap_abs h k = Some x"
  shows "\<exists>h'. hmap_remove h x = Some h' \<and> hmap_unique h' \<and> hmap_abs h' = (hmap_abs h)(k := None)"
proof -
  have n: "(k, x) \<in># hmap_nodes h" and d: "distinct (hmap_elems h)"
    using assms by (simp_all add: hmap_abs_nodes hmap_unique_def)
  obtain h' where h: "hmap_remove h x = Some h'" "hmap_wf h'" "hmap_nodes h' = hmap_nodes h - {#(k, x)#}"
    using hmap_remove_wf [OF _ d n] assms(1) by (auto simp: hmap_unique_def)
  then have e: "hmap_nodes h = add_mset (k, x) (hmap_nodes h')" using n by simp
  then have "mset (hmap_elems h) = mset (x # hmap_elems h')" by (simp add: hmap_elems_nodes)
  then have d': "distinct (x # hmap_elems h')" using mset_eq_imp_distinct_iff [of "hmap_elems h" "x # hmap_elems h'"] d by simp
  then have f: "(j, x) \<notin># hmap_nodes h'" for j by (force simp: set_hmap_elems)
  have u: "hmap_unique h'" using h(2) d' assms(1) e by (auto simp: hmap_unique_def)
  have "(k, y) \<notin># hmap_nodes h'" for y
    using assms(1) e f [of k] by (auto simp: hmap_unique_def inj_on_def)
  then have "hmap_abs h' = (hmap_abs h)(k := None)"
    by (intro hmap_abs_eqI [OF u]) (auto simp: e hmap_abs_nodes [OF assms(1)])
  with h u show ?thesis by blast
qed

interpretation hmap_index: hash_index hmap_unique hmap_abs "hmap_insert True" hmap_remove
proof
  fix h :: "'a hmap" and k k' x
  show "hmap_unique h \<Longrightarrow> hmap_abs h k = Some x \<Longrightarrow> hmap_abs h k' = Some x \<Longrightarrow> k = k'"
    using distinct_nodes [of h "(k, x)" "(k', x)"] by (simp add: hmap_abs_nodes hmap_unique_def)
  show "hmap_unique h \<Longrightarrow> hmap_abs h k = None \<Longrightarrow> x \<notin> ran (hmap_abs h) \<Longrightarrow>
      \<exists>h'. hmap_insert True h x k = Some h' \<and> hmap_unique h' \<and> hmap_abs h' = (hmap_abs h)(k \<mapsto> x)"
    by (rule hmap_unique_insert) (simp_all add: ran_hmap_abs)
qed (rule hmap_unique_remove)

section \<open>The registry of a bridge\<close>

abbreviation registered :: "bridge \<Rightarrow> ptr set" where
  "registered br \<equiv> set (hmap_elems (reg br))"

definition reg_inv :: "bridge \<Rightarrow> bool" where
  "reg_inv br \<longleftrightarrow> hmap_unique (reg br)
     \<and> (\<forall>k r. (k, r) \<in># hmap_nodes (reg br) \<longrightarrow> k = ut_hash (o_cls_rule (rstore br r)) \<and> r < rnext br)"

lemma find_rule_abs: "sgx_rule_from_ut_cr br out = hmap_abs (reg br) (ut_hash out)"
  by (simp add: sgx_rule_from_ut_cr_def hmap_abs_def)

lemma find_rule_iff:
  assumes "reg_inv br"
  shows "sgx_rule_from_ut_cr br out = Some r \<longleftrightarrow> r \<in> registered br \<and> ut_hash (o_cls_rule (rstore br r)) = ut_hash out"
proof -
  have u: "hmap_unique (reg br)" using assms by (simp add: reg_inv_def)
  have "sgx_rule_from_ut_cr br out = Some r \<longleftrightarrow> (ut_hash out, r) \<in># hmap_nodes (reg br)"
    by (simp add: find_rule_abs hmap_abs_nodes [OF u])
  then show ?thesis using assms by (auto simp: reg_inv_def set_hmap_elems) force+
qed

lemma find_rule_None:
  "reg_inv br \<Longrightarrow> sgx_rule_from_ut_cr br out = None \<longleftrightarrow> (\<forall>r \<in> registered br. ut_hash (o_cls_rule (rstore br r)) \<noteq> ut_hash out)"
  using find_rule_iff [of br out] by (metis not_Some_eq)

lemma find_registered: "reg_inv br \<Longrightarrow> r \<in> registered br \<Longrightarrow> sgx_rule_from_ut_cr br (o_cls_rule (rstore br r)) = Some r"
  by (simp add: find_rule_iff)

lemma registered_less: "reg_inv br \<Longrightarrow> r \<in> registered br \<Longrightarrow> r < rnext br"
  by (force simp: reg_inv_def set_hmap_elems)

text \<open>What a registered rule becomes: the new object and its node.\<close>

definition new_rule :: "ut_ptr \<Rightarrow> match \<Rightarrow> u32 \<Rightarrow> sgx_cls_rule" where
  "new_rule o_cr m p = \<lparr>s_cls_rule = cls_rule_init m p, o_cls_rule = o_cr, evict_group = None, evictable = True\<rparr>"

lemma cls_rule_init_ok:
  assumes "reg_inv br" and "sgx_rule_from_ut_cr br o_cr = None"
  shows "\<exists>h. ecall_cls_rule_init br o_cr m p = Some (br\<lparr>reg := h, rstore := (rstore br)(rnext br := new_rule o_cr m p),
        rnext := rnext br + 1, rule_nodes := (rule_nodes br)(rnext br := \<lparr>idx = 0, hn_priority = 0\<rparr>)\<rparr>)
      \<and> hmap_unique h \<and> hmap_abs h = (hmap_abs (reg br))(ut_hash o_cr \<mapsto> rnext br)
      \<and> set (hmap_elems h) = insert (rnext br) (registered br)"
proof -
  have u: "hmap_unique (reg br)" and n: "hmap_abs (reg br) (ut_hash o_cr) = None"
    using assms by (simp_all add: reg_inv_def find_rule_abs)
  have "rnext br \<notin> registered br" using registered_less [OF assms(1)] by blast
  then obtain h where h: "hmap_insert True (reg br) (rnext br) (ut_hash o_cr) = Some h" "hmap_unique h"
      "hmap_abs h = (hmap_abs (reg br))(ut_hash o_cr \<mapsto> rnext br)"
    using hmap_index.ins [OF u n, of "rnext br"] by (auto simp: ran_hmap_abs [OF u])
  then have "set (hmap_elems h) = insert (rnext br) (registered br)"
    using hmap_index.ran_ins [OF n] ran_hmap_abs [OF u] ran_hmap_abs [OF h(2)] by metis
  with h show ?thesis
    by (intro exI [of _ h]) (simp add: ecall_cls_rule_init_def node_insert_def zero_sgx_rule_def new_rule_def Let_def)
qed

lemma cls_rule_init_reg_inv:
  assumes "reg_inv br" and "hmap_unique h" and "hmap_abs h = (hmap_abs (reg br))(ut_hash o_cr \<mapsto> rnext br)"
    and "reg br' = h" and "rstore br' = (rstore br)(rnext br := new_rule o_cr m p)" and "rnext br' = rnext br + 1"
  shows "reg_inv br'"
proof -
  have u: "hmap_unique (reg br)" using assms(1) by (simp add: reg_inv_def)
  have "k = ut_hash (o_cls_rule (rstore br' r)) \<and> r < rnext br'" if "(k, r) \<in># hmap_nodes h" for k r
  proof (cases "k = ut_hash o_cr")
    case True
    have "hmap_abs h k = Some r" using that by (simp only: hmap_abs_nodes [OF assms(2)])
    then have "r = rnext br" unfolding assms(3) True by simp
    then show ?thesis unfolding assms(5,6) True by (simp add: new_rule_def)
  next
    case False
    have "hmap_abs h k = Some r" using that by (simp only: hmap_abs_nodes [OF assms(2)])
    then have "(k, r) \<in># hmap_nodes (reg br)" unfolding assms(3) using False by (simp add: hmap_abs_nodes [OF u])
    then have "k = ut_hash (o_cls_rule (rstore br r)) \<and> r < rnext br" using assms(1) unfolding reg_inv_def by blast
    then show ?thesis unfolding assms(5,6) by auto
  qed
  then show ?thesis unfolding reg_inv_def assms(4) using assms(2) by blast
qed

lemma cls_rule_destroy_ok:
  assumes "reg_inv br" and "sgx_rule_from_ut_cr br out = Some r"
  shows "\<exists>h. ecall_cls_rule_destroy br out = Some (br\<lparr>reg := h\<rparr>) \<and> reg_inv (br\<lparr>reg := h\<rparr>)
      \<and> hmap_abs h = (hmap_abs (reg br))(ut_hash out := None) \<and> set (hmap_elems h) = registered br - {r}"
proof -
  have u: "hmap_unique (reg br)" using assms(1) by (simp add: reg_inv_def)
  have r: "r \<in> registered br" "ut_hash (o_cls_rule (rstore br r)) = ut_hash out" using assms by (simp_all add: find_rule_iff)
  have a: "hmap_abs (reg br) (ut_hash out) = Some r" using assms(2) by (simp add: find_rule_abs)
  obtain h where h: "hmap_remove (reg br) r = Some h" "hmap_unique h" "hmap_abs h = (hmap_abs (reg br))(ut_hash out := None)"
    using hmap_index.del [OF u a] by blast
  have s: "set (hmap_elems h) = registered br - {r}"
    using hmap_index.ran_del [OF u a] ran_hmap_abs [OF u] ran_hmap_abs [OF h(2)] h(3) by metis
  have "(k, q) \<in># hmap_nodes h \<Longrightarrow> (k, q) \<in># hmap_nodes (reg br)" for k q
    using hmap_abs_nodes [OF h(2), of k q] hmap_abs_nodes [OF u, of k q] h(3) by (auto split: if_splits)
  then have "reg_inv (br\<lparr>reg := h\<rparr>)" using assms(1) h(2) by (auto simp: reg_inv_def)
  moreover have "ecall_cls_rule_destroy br out = Some (br\<lparr>reg := h\<rparr>)"
    using find_registered [OF assms(1) r(1)] h(1)
    by (simp add: ecall_cls_rule_destroy_def node_delete_def assms(2))
  ultimately show ?thesis using h s by blast
qed

end
