(* ===== verification/Group_Hash.thy ===== *)
theory Group_Hash
  imports Eviction
begin

text \<open>
  The id of the eviction group of a rule (\<open>eviction_group_hash_rule\<close>): it is always defined for
  well-formed subfields, and depends on nothing but the bits of the flow that the subfields select
  and on whether the prerequisites of their fields hold.
\<close>

section \<open>Zeroing inside a longer array\<close>

lemma put_byte_append:
  "i < int (length xs) \<Longrightarrow> put_byte (xs @ ys) i f = map_option (\<lambda>zs. zs @ ys) (put_byte xs i f)"
  by (auto simp: put_byte_def nth_append list_update_append nat_less_iff)

lemma put_byte_length: "put_byte xs i f = Some zs \<Longrightarrow> length zs = length xs"
  by (auto simp: put_byte_def split: if_splits)

lemma bitwise_zero_loop_append:
  "i < int (length xs) \<Longrightarrow> bitwise_zero_loop (xs @ ys) i n = map_option (\<lambda>zs. zs @ ys) (bitwise_zero_loop xs i n)"
proof (induction xs i n rule: bitwise_zero_loop.induct)
  case (1 xs i n)
  show ?case
  proof (cases "8 \<le> n")
    case True
    show ?thesis
    proof (cases "put_byte xs i (\<lambda>_. 0)")
      case None
      then show ?thesis
        using True by (simp add: bitwise_zero_loop.simps [of _ i n] put_byte_append [OF "1.prems"])
    next
      case (Some zs)
      then have "bitwise_zero_loop (zs @ ys) (i - 1) (n - 8) = map_option (\<lambda>zs. zs @ ys) (bitwise_zero_loop zs (i - 1) (n - 8))"
        using "1.IH" [OF True] "1.prems" put_byte_length [OF Some] by simp
      then show ?thesis
        using True Some by (simp add: bitwise_zero_loop.simps [of _ i n] put_byte_append [OF "1.prems"])
    qed
  qed (use "1.prems" in \<open>simp add: bitwise_zero_loop.simps [of _ i n] put_byte_append\<close>)
qed

lemma bitwise_zero_append:
  "bitwise_zero (xs @ ys) (length xs) ofs n = map_option (\<lambda>zs. zs @ ys) (bitwise_zero xs (length xs) ofs n)"
proof -
  have i: "int (length xs) - int (ofs div 8 + 1) < int (length xs)" by simp
  have l: "bitwise_zero_loop (zs @ ys) (int (length xs) - int (ofs div 8 + 1) - 1) k
      = map_option (\<lambda>zs. zs @ ys) (bitwise_zero_loop zs (int (length xs) - int (ofs div 8 + 1) - 1) k)"
    if "length zs = length xs" for zs k
    using that by (intro bitwise_zero_loop_append) simp
  show ?thesis
    unfolding bitwise_zero_def Let_def put_byte_append [OF i] bitwise_zero_loop_append [OF i]
    using l put_byte_length by (auto simp: bind_map_option comp_def map_conv_bind_option intro!: Option.bind_cong)
qed

lemma be_bit_ext:
  assumes "length xs = length ys" and "\<And>N. N < 8 * length xs \<Longrightarrow> be_bit xs N = be_bit ys N"
  shows "xs = ys"
proof (rule nth_equalityI [OF assms(1)])
  fix k assume k: "k < length xs"
  show "xs ! k = ys ! k"
  proof (rule bit_word_eqI)
    fix b assume b: "b < LENGTH(8)"
    let ?N = "8 * (length xs - (k + 1)) + b"
    have "?N div 8 = length xs - (k + 1)" "?N mod 8 = b" using b by simp_all
    moreover have "?N < 8 * length xs" using k b by simp
    moreover have "length xs - (length xs - (k + 1) + 1) = k" using k by simp
    ultimately show "bit (xs ! k) b = bit (ys ! k) b" using assms(2) [of ?N] assms(1) by (simp add: be_bit_def)
  qed
qed

section \<open>Subfields\<close>

definition subfield_ok :: "mf_subfield \<Rightarrow> bool" where
  "subfield_ok sf \<longleftrightarrow> mf_id (sf_field sf) \<noteq> MFF_N_IDS \<and> mf_n_bytes (sf_field sf) = mf_len (mf_id (sf_field sf))
     \<and> sf_ofs sf + sf_n_bits sf \<le> 8 * mf_n_bytes (sf_field sf)"

definition selects :: "mf_subfield \<Rightarrow> nat \<Rightarrow> bool" where
  "selects sf N \<longleftrightarrow> sf_ofs sf \<le> N \<and> N < sf_ofs sf + sf_n_bits sf"

definition same_subfield :: "flow \<Rightarrow> flow \<Rightarrow> mf_subfield \<Rightarrow> bool" where
  "same_subfield f g sf \<longleftrightarrow> mf_are_prereqs_ok (sf_field sf) f = mf_are_prereqs_ok (sf_field sf) g
     \<and> (\<forall>bs cs. mf_value_bytes (mf_id (sf_field sf)) f = Some bs \<longrightarrow> mf_value_bytes (mf_id (sf_field sf)) g = Some cs \<longrightarrow>
          (\<forall>N. selects sf N \<longrightarrow> be_bit bs N = be_bit cs N))"

lemma zero_outside:
  assumes "length bs = n" and "ofs + k \<le> 8 * n"
  shows "\<exists>v w. (if ofs \<noteq> 0 then bitwise_zero (bs @ rest) n 0 ofs else Some (bs @ rest)) = Some v
    \<and> (if ofs + k < n * 8 then bitwise_zero v n (ofs + k) (n * 8 - (ofs + k)) else Some v) = Some (w @ rest)
    \<and> length w = n \<and> (\<forall>N < 8 * n. be_bit w N \<longleftrightarrow> be_bit bs N \<and> ofs \<le> N \<and> N < ofs + k)"
proof -
  obtain b1 where 1: "bitwise_zero bs n 0 ofs = Some b1" "length b1 = n"
    "\<forall>N < 8 * n. be_bit b1 N \<longleftrightarrow> be_bit bs N \<and> \<not> (0 \<le> N \<and> N < ofs)"
    using bitwise_zero_at [of 0 0 ofs bs] assms by auto
  let ?s = "ofs + k"
  obtain b2 where 2: "bitwise_zero b1 n ?s (8 * n - ?s) = Some b2" "length b2 = n"
    "\<forall>N < 8 * n. be_bit b2 N \<longleftrightarrow> be_bit b1 N \<and> \<not> (?s \<le> N \<and> N < ?s + (8 * n - ?s))"
    using bitwise_zero_at [of "?s mod 8" "?s div 8" "8 * n - ?s" b1] 1(2) assms(2) by auto
  have v: "(if ofs \<noteq> 0 then bitwise_zero (bs @ rest) n 0 ofs else Some (bs @ rest)) = Some (b1 @ rest)"
    using 1(1) bitwise_zero_append [of bs rest 0 ofs] assms(1) by (auto simp: bitwise_zero_def)
  have w: "(if ?s < n * 8 then bitwise_zero (b1 @ rest) n ?s (n * 8 - ?s) else Some (b1 @ rest)) = Some (b2 @ rest)"
    using 2(1) bitwise_zero_append [of b1 rest ?s "8 * n - ?s"] 1(2) assms(2) by (auto simp: bitwise_zero_def mult.commute)
  show ?thesis using v w 1(3) 2(2,3) assms(2) by (intro exI [of _ "b1 @ rest"] exI [of _ b2]) auto
qed

lemma hash_subfield_ok:
  assumes "subfield_ok sf" and "flow_wf f" and "length junk = sizeof_mf_value"
  shows "\<exists>bs w. mf_value_bytes (mf_id (sf_field sf)) f = Some bs \<and> length w = mf_n_bytes (sf_field sf)
      \<and> (\<forall>N < 8 * mf_n_bytes (sf_field sf). be_bit w N \<longleftrightarrow> be_bit bs N \<and> selects sf N)
      \<and> hash_subfield junk f sf h = Some (if mf_are_prereqs_ok (sf_field sf) f then hash_bytes w h else hash_int h 0)"
proof -
  let ?n = "mf_n_bytes (sf_field sf)"
  obtain bs where bs: "mf_value_bytes (mf_id (sf_field sf)) f = Some bs" "length bs = ?n"
    using mf_value_length [OF assms(2), of "mf_id (sf_field sf)"] assms(1) by (auto simp: subfield_ok_def)
  have g: "mf_get_value (sf_field sf) f junk = Some (bs @ drop ?n junk)"
    using bs mf_len_bound [of "mf_id (sf_field sf)"] assms(1,3) by (simp add: mf_get_value_def subfield_ok_def)
  obtain v w where z: "(if sf_ofs sf \<noteq> 0 then bitwise_zero (bs @ drop ?n junk) ?n 0 (sf_ofs sf) else Some (bs @ drop ?n junk)) = Some v"
    "(if sf_ofs sf + sf_n_bits sf < ?n * 8 then bitwise_zero v ?n (sf_ofs sf + sf_n_bits sf) (?n * 8 - (sf_ofs sf + sf_n_bits sf)) else Some v)
      = Some (w @ drop ?n junk)"
    "length w = ?n" "\<forall>N < 8 * ?n. be_bit w N \<longleftrightarrow> be_bit bs N \<and> sf_ofs sf \<le> N \<and> N < sf_ofs sf + sf_n_bits sf"
    using zero_outside [OF bs(2), of "sf_ofs sf" "sf_n_bits sf" "drop ?n junk"] assms(1) by (auto simp: subfield_ok_def)
  have "hash_subfield junk f sf h = Some (if mf_are_prereqs_ok (sf_field sf) f then hash_bytes w h else hash_int h 0)"
    unfolding hash_subfield_def Let_def g using z(1-3) by simp
  with bs(1) z(3,4) show ?thesis by (auto simp: selects_def)
qed

lemma hash_subfield_same:
  assumes "subfield_ok sf" and "flow_wf f" "flow_wf g" and "length junk = sizeof_mf_value" "length junk' = sizeof_mf_value"
    and "same_subfield f g sf"
  shows "\<exists>k. hash_subfield junk f sf h = Some k \<and> hash_subfield junk' g sf h = Some k"
proof -
  obtain bs w where f: "mf_value_bytes (mf_id (sf_field sf)) f = Some bs" "length w = mf_n_bytes (sf_field sf)"
    "\<forall>N < 8 * mf_n_bytes (sf_field sf). be_bit w N \<longleftrightarrow> be_bit bs N \<and> selects sf N"
    "hash_subfield junk f sf h = Some (if mf_are_prereqs_ok (sf_field sf) f then hash_bytes w h else hash_int h 0)"
    using hash_subfield_ok [OF assms(1,2,4)] by blast
  obtain cs x where g: "mf_value_bytes (mf_id (sf_field sf)) g = Some cs" "length x = mf_n_bytes (sf_field sf)"
    "\<forall>N < 8 * mf_n_bytes (sf_field sf). be_bit x N \<longleftrightarrow> be_bit cs N \<and> selects sf N"
    "hash_subfield junk' g sf h = Some (if mf_are_prereqs_ok (sf_field sf) g then hash_bytes x h else hash_int h 0)"
    using hash_subfield_ok [OF assms(1,3,5)] by blast
  have "w = x"
  proof (rule be_bit_ext)
    show "be_bit w N = be_bit x N" if "N < 8 * length w" for N
      using that f(2,3) g(3) assms(6) f(1) g(1) by (auto simp: same_subfield_def)
  qed (simp add: f(2) g(2))
  then show ?thesis using f(4) g(4) assms(6) by (simp add: same_subfield_def)
qed

lemma hash_subfields_same:
  assumes "\<forall>sf \<in> set sfs. subfield_ok sf \<and> same_subfield f g sf" and "flow_wf f" "flow_wf g"
    and "length junk = sizeof_mf_value" "length junk' = sizeof_mf_value"
  shows "\<exists>k. hash_subfields junk f sfs h = Some k \<and> hash_subfields junk' g sfs h = Some k"
  using assms(1)
proof (induction sfs arbitrary: h)
  case (Cons sf sfs)
  then obtain k where "hash_subfield junk f sf h = Some k" "hash_subfield junk' g sf h = Some k"
    using hash_subfield_same [OF _ assms(2-5), of sf h] by auto
  with Cons show ?case by auto
qed simp

definition fields_ok :: "oftable \<Rightarrow> bool" where
  "fields_ok tb \<longleftrightarrow> (\<forall>sfs. eviction_fields tb = Some sfs \<longrightarrow> (\<forall>sf \<in> set sfs. subfield_ok sf))"

lemma same_subfield_refl: "same_subfield f f sf"
  by (simp add: same_subfield_def)

lemma group_hash_defined:
  assumes "fields_ok tb" and "length junk = sizeof_mf_value" and "miniflow_wf (mm_flow (cr_match cr))"
  shows "\<exists>h. eviction_group_hash_rule junk tb cr = Some h"
proof -
  let ?f = "miniflow_expand (mm_flow (cr_match cr))" and ?sfs = "case eviction_fields tb of None \<Rightarrow> [] | Some sfs \<Rightarrow> sfs"
  have "\<forall>sf \<in> set ?sfs. subfield_ok sf \<and> same_subfield ?f ?f sf"
    using assms(1) by (cases "eviction_fields tb") (simp_all add: fields_ok_def same_subfield_refl)
  from hash_subfields_same [OF this length_expand length_expand assms(2,2), OF assms(3,3), of "eviction_group_id_basis tb"] show ?thesis
    by (auto simp: eviction_group_hash_rule_def)
qed

text \<open>C27: rules whose flows agree on the bits that the eviction fields of the table select (and on the
  prerequisites of those fields) are in the same eviction group: the group id is defined, and no other
  bit of the flow and no uninitialised byte enters it.\<close>

theorem evict_group_by_subfields:
  assumes "fields_ok tb" and "eviction_fields tb = Some sfs" and "length junk = sizeof_mf_value" "length junk' = sizeof_mf_value"
    and "\<forall>sf \<in> set sfs. same_subfield (miniflow_expand (mm_flow (cr_match a))) (miniflow_expand (mm_flow (cr_match b))) sf"
    and "miniflow_wf (mm_flow (cr_match a))" "miniflow_wf (mm_flow (cr_match b))"
  shows "\<exists>i. eviction_group_hash_rule junk tb a = Some i \<and> eviction_group_hash_rule junk' tb b = Some i"
proof -
  have "\<forall>sf \<in> set sfs. subfield_ok sf \<and> same_subfield (miniflow_expand (mm_flow (cr_match a))) (miniflow_expand (mm_flow (cr_match b))) sf"
    using assms(1,2,5) by (simp add: fields_ok_def)
  from hash_subfields_same [OF this length_expand length_expand assms(3,4), OF assms(6,7)] show ?thesis
    by (simp add: eviction_group_hash_rule_def assms(2))
qed

text \<open>Two rules on the same VLAN, with different priorities of the VLAN tag and different ports.\<close>

definition vlan_table :: oftable where
  "vlan_table = \<lparr>flags = 0, t_cls = classifier_init, tname = None, max_flows = 2,
     eviction_fields = Some [\<lparr>sf_field = example_field, sf_ofs = 0, sf_n_bits = 12\<rparr>], eviction_group_id_basis = 77,
     eviction_groups_by_id = hmap_init, eviction_groups_by_size = heap_init_ovs\<rparr>"

definition vlan_rule :: "u32 \<Rightarrow> cls_rule" where
  "vlan_rule w = \<lparr>cr_match = \<lparr>mm_flow = miniflow_init ((replicate FLOW_U32S 0)[35 := w]), mm_mask = minimask_init \<lparr>wc_masks = replicate FLOW_U32S 0\<rparr>\<rparr>,
     priority = 0\<rparr>"

lemma vlan_rule_wf: "miniflow_wf (mm_flow (cr_match (vlan_rule w)))"
  by (simp add: vlan_rule_def)

lemma vlan_rules_same:
  "same_subfield (miniflow_expand (mm_flow (cr_match (vlan_rule 0x05000000)))) (miniflow_expand (mm_flow (cr_match (vlan_rule 0x05e00001))))
     \<lparr>sf_field = example_field, sf_ofs = 0, sf_n_bits = 12\<rparr>"
proof -
  let ?f = "(replicate FLOW_U32S 0)[35 := 0x05000000 :: u32]" and ?g = "(replicate FLOW_U32S 0)[35 := 0x05e00001 :: u32]"
  have "mf_value_bytes MFF_DL_VLAN ?f = mf_value_bytes MFF_DL_VLAN ?g" by code_simp
  then show ?thesis
    by (simp add: same_subfield_def vlan_rule_def expand_init example_field_def mf_are_prereqs_ok_def)
qed

theorem evict_group_by_subfields_witness:
  "\<exists>i. eviction_group_hash_rule (replicate sizeof_mf_value 1) vlan_table (vlan_rule 0x05000000) = Some i
    \<and> eviction_group_hash_rule (replicate sizeof_mf_value 2) vlan_table (vlan_rule 0x05e00001) = Some i"
proof (rule evict_group_by_subfields)
  show "fields_ok vlan_table" by (simp add: fields_ok_def vlan_table_def subfield_ok_def example_field_def)
  show "eviction_fields vlan_table = Some [\<lparr>sf_field = example_field, sf_ofs = 0, sf_n_bits = 12\<rparr>]"
    by (simp add: vlan_table_def)
qed (simp_all add: vlan_rule_wf vlan_rules_same)

end
