(* ===== verification/Eviction_Correct.thy ===== *)
theory Eviction_Correct
  imports Registry Group_Hash
begin

text \<open>
  The invariant of the eviction groups (\<open>evg_inv\<close>) and its preservation by the operations of
  \<open>eviction.c\<close>: the index by id and the heap by size of a table hold the same groups, no group is in
  two tables, a group and the rules in it point at each other, every rule heap is a heap, no group
  is empty, and the priority of a group in the heap by size carries its number of rules.
\<close>

section \<open>Invariant\<close>

definition groups :: "oftable \<Rightarrow> ptr set" where
  "groups tb = (if eviction_fields tb = None then {} else set (hmap_elems (eviction_groups_by_id tb)))"

abbreviation groups_at :: "bridge \<Rightarrow> nat \<Rightarrow> ptr set" where
  "groups_at br t \<equiv> groups (oftables br ! t)"

definition all_groups :: "bridge \<Rightarrow> ptr set" where
  "all_groups br = (\<Union>t < length (oftables br). groups_at br t)"

definition members :: "bridge \<Rightarrow> ptr \<Rightarrow> ptr list" where
  "members br g = heap_elems (evg_rules (gstore br g))"

definition table_groups_ok :: "node_store \<Rightarrow> oftable \<Rightarrow> bool" where
  "table_groups_ok nd tb \<longleftrightarrow> eviction_fields tb \<noteq> None \<longrightarrow> hmap_unique (eviction_groups_by_id tb)
     \<and> heap_inv (eviction_groups_by_size tb, nd)
     \<and> set (heap_elems (eviction_groups_by_size tb)) = groups tb"

definition evg_tables :: "bridge \<Rightarrow> bool" where
  "evg_tables br \<longleftrightarrow> (\<forall>t < length (oftables br). table_groups_ok (size_nodes br) (oftables br ! t)
     \<and> (\<forall>u < length (oftables br). t \<noteq> u \<longrightarrow> groups_at br t \<inter> groups_at br u = {}))"

definition group_ok :: "bridge \<Rightarrow> ptr \<Rightarrow> bool" where
  "group_ok br g \<longleftrightarrow> g < gnext br \<and> heap_inv (evg_rules (gstore br g), rule_nodes br)
     \<and> (\<forall>r \<in> set (members br g). r < rnext br \<and> evict_group (rstore br r) = Some g)"

definition sized :: "bridge \<Rightarrow> ptr \<Rightarrow> bool" where
  "sized br g \<longleftrightarrow> members br g \<noteq> []
     \<and> drop_bit 16 (hn_priority (size_nodes br g)) = of_nat (min UINT16_MAX (length (members br g)))"

definition evg_back :: "bridge \<Rightarrow> bool" where
  "evg_back br \<longleftrightarrow> (\<forall>r < rnext br. \<forall>g. evict_group (rstore br r) = Some g \<longrightarrow>
     g \<in> all_groups br \<and> r \<in> set (members br g))"

definition evg_inv_but :: "ptr set \<Rightarrow> bridge \<Rightarrow> bool" where
  "evg_inv_but X br \<longleftrightarrow> evg_tables br \<and> evg_back br
     \<and> (\<forall>g \<in> all_groups br. group_ok br g \<and> (g \<notin> X \<longrightarrow> sized br g))"

abbreviation evg_inv :: "bridge \<Rightarrow> bool" where
  "evg_inv \<equiv> evg_inv_but {}"

text \<open>What the operations on groups leave alone.\<close>

definition same_table :: "oftable \<Rightarrow> oftable \<Rightarrow> bool" where
  "same_table tb tb' \<longleftrightarrow> flags tb' = flags tb \<and> t_cls tb' = t_cls tb \<and> tname tb' = tname tb \<and> max_flows tb' = max_flows tb"

definition same_rule :: "sgx_cls_rule \<Rightarrow> sgx_cls_rule \<Rightarrow> bool" where
  "same_rule r r' \<longleftrightarrow> s_cls_rule r' = s_cls_rule r \<and> o_cls_rule r' = o_cls_rule r \<and> evictable r' = evictable r"

definition evg_frame :: "bridge \<Rightarrow> bridge \<Rightarrow> bool" where
  "evg_frame br br' \<longleftrightarrow> reg br' = reg br \<and> rnext br' = rnext br \<and> n_tables br' = n_tables br
     \<and> table_dpif br' = table_dpif br \<and> length (oftables br') = length (oftables br)
     \<and> (\<forall>t < length (oftables br). same_table (oftables br ! t) (oftables br' ! t))
     \<and> (\<forall>r. same_rule (rstore br r) (rstore br' r))"

definition same_fields :: "bridge \<Rightarrow> bridge \<Rightarrow> bool" where
  "same_fields br br' \<longleftrightarrow> (\<forall>t < length (oftables br). eviction_fields (oftables br' ! t) = eviction_fields (oftables br ! t)
     \<and> eviction_group_id_basis (oftables br' ! t) = eviction_group_id_basis (oftables br ! t))"

lemmas frame_defs = evg_frame_def same_table_def same_rule_def

lemma evg_frame_refl [simp]: "evg_frame br br" "same_fields br br"
  by (simp_all add: frame_defs same_fields_def)

lemma evg_frame_trans: "evg_frame a b \<Longrightarrow> evg_frame b c \<Longrightarrow> evg_frame a c"
  by (simp add: frame_defs)

lemma same_fields_trans: "evg_frame a b \<Longrightarrow> same_fields a b \<Longrightarrow> same_fields b c \<Longrightarrow> same_fields a c"
  by (simp add: frame_defs same_fields_def)

section \<open>Tables and heaps\<close>

lemma get_table_iff: "get_table br t = Some tb \<longleftrightarrow> t < length (oftables br) \<and> tb = oftables br ! t"
  by (auto simp: get_table_def)

lemma put_table_simps [simp]:
  "oftables (put_table br t tb) = (oftables br)[t := tb]" "table_dpif (put_table br t tb) = table_dpif br"
  "n_tables (put_table br t tb) = n_tables br" "reg (put_table br t tb) = reg br"
  "rstore (put_table br t tb) = rstore br" "rnext (put_table br t tb) = rnext br"
  "rule_nodes (put_table br t tb) = rule_nodes br" "gstore (put_table br t tb) = gstore br"
  "gnext (put_table br t tb) = gnext br" "size_nodes (put_table br t tb) = size_nodes br"
  by (simp_all add: put_table_def)

lemma heap_inv_cong:
  assumes "heap_inv (h, nd)" and "\<And>x. x \<in> set (heap_elems h) \<Longrightarrow> nd' x = nd x"
  shows "heap_inv (h, nd')"
proof -
  have "nd' (harray h ! i) = nd (harray h ! i)" if "1 \<le> i" "i \<le> heap_n h" for i
    using assms(2) that in_heap_elems by blast
  moreover have "1 \<le> j div 2 \<and> j div 2 \<le> heap_n h" if "2 \<le> j" "j \<le> heap_n h" for j using that by linarith
  ultimately show ?thesis using assms(1) by (auto simp: heap_inv_def heap_wf_def)
qed

lemma heap_elems_length: "length (heap_elems h) = heap_n h"
  by (simp add: heap_elems_def)

lemma heap_empty_iff: "heap_is_empty_ovs h \<longleftrightarrow> heap_elems h = []"
  by (simp add: heap_is_empty_ovs_def heap_elems_def)

lemma heap_count_elems: "heap_count_ovs h = length (heap_elems h)"
  by (simp add: heap_count_ovs_def heap_elems_length)

lemma heap_inv_distinct:
  assumes "heap_inv (h, nd)"
  shows "distinct (heap_elems h)"
proof -
  have "inj_on (\<lambda>i. harray h ! i) (set [1..<heap_n h + 1])"
    using heap_wf_inj [of "(h, nd)"] assms by (auto simp: inj_on_def heap_inv_def)
  then show ?thesis by (simp add: heap_elems_def distinct_map)
qed

lemma heap_remove_set:
  assumes "heap_inv st" and "x \<in> set (heap_elems (fst st))"
  shows "set (heap_elems (fst (heap_remove_ovs st x))) = set (heap_elems (fst st)) - {x}"
proof -
  let ?h = "fst (heap_remove_ovs st x)"
  have m: "mset (heap_elems (fst st)) = mset (x # heap_elems ?h)" using heap_remove_ok(2) [OF assms] by simp
  have "distinct (x # heap_elems ?h)"
    using heap_inv_distinct [of "fst st" "snd st"] assms(1) mset_eq_imp_distinct_iff [OF m] by simp
  moreover have "set (heap_elems (fst st)) = insert x (set (heap_elems ?h))" using mset_eq_setD [OF m] by simp
  ultimately show ?thesis by auto
qed

lemma sized_priority: "drop_bit 16 (evg_priority n rnd) = of_nat (min UINT16_MAX n)"
proof -
  have lt: "min UINT16_MAX n < 2 ^ 16" by (simp add: UINT16_MAX_def)
  have "bit (drop_bit 16 (evg_priority n rnd)) i = bit (of_nat (min UINT16_MAX n) :: u32) i" if "i < 32" for i
  proof (cases "i < 16")
    case True
    have "\<not> bit rnd (16 + i)" using bit_imp_le_length [of rnd "16 + i"] by auto
    with True show ?thesis by (simp add: evg_priority_def bit_simps)
  next
    case False
    then have "\<not> bit (of_nat (min UINT16_MAX n) :: u32) i"
    proof -
      have "(of_nat (min UINT16_MAX n) :: u32) = take_bit 16 (of_nat (min UINT16_MAX n))"
        using lt by (simp only: of_nat_take_bit [symmetric] take_bit_nat_eq_self)
      with False show ?thesis by (metis bit_take_bit_iff)
    qed
    with False show ?thesis by (auto simp: evg_priority_def bit_simps)
  qed
  then show ?thesis by (auto intro: bit_word_eqI)
qed

lemma table_groups_ok_cong:
  "table_groups_ok nd tb \<Longrightarrow> (\<And>x. x \<in> groups tb \<Longrightarrow> nd' x = nd x) \<Longrightarrow> table_groups_ok nd' tb"
  using heap_inv_cong [of "eviction_groups_by_size tb" nd nd'] by (auto simp: table_groups_ok_def)

lemma in_all_groups: "g \<in> all_groups br \<longleftrightarrow> (\<exists>t < length (oftables br). g \<in> groups_at br t)"
  by (auto simp: all_groups_def)

text \<open>The tables of the invariant after the groups of one table have changed.\<close>

lemma evg_tables_update:
  assumes "evg_tables br" and "t < length (oftables br)" and "oftables br' = (oftables br)[t := tb]"
    and "table_groups_ok (size_nodes br') tb"
    and "\<And>x. x \<in> all_groups br - groups_at br t \<Longrightarrow> size_nodes br' x = size_nodes br x"
    and "groups tb \<inter> (all_groups br - groups_at br t) = {}"
  shows "evg_tables br'"
proof -
  let ?n = "length (oftables br)"
  have ok: "table_groups_ok (size_nodes br) (oftables br ! u)" if "u < ?n" for u
    using assms(1) that by (simp add: evg_tables_def)
  have disj: "groups_at br u \<inter> groups_at br v = {}" if "u \<noteq> v" "u < ?n" "v < ?n" for u v
    using assms(1) that by (simp add: evg_tables_def)
  have other: "groups_at br u \<subseteq> all_groups br - groups_at br t" if "u \<noteq> t" "u < ?n" for u
    using disj [OF that assms(2)] that(2) in_all_groups by blast
  have tb: "oftables br' ! u = (if u = t then tb else oftables br ! u)" for u
    unfolding assms(3) using assms(2) by (simp add: nth_list_update)
  have n: "length (oftables br') = ?n" by (simp add: assms(3))
  show ?thesis
    unfolding evg_tables_def n tb
  proof (intro allI impI conjI)
    fix u assume u: "u < ?n"
    show "table_groups_ok (size_nodes br') (if u = t then tb else oftables br ! u)"
    proof (cases "u = t")
      case False
      then have "table_groups_ok (size_nodes br') (oftables br ! u)"
        using assms(5) other [OF False u] by (intro table_groups_ok_cong [OF ok [OF u]]) blast
      with False show ?thesis by simp
    qed (simp add: assms(4))
    fix v assume v: "v < ?n" "u \<noteq> v"
    have "groups tb \<inter> groups_at br w = {}" if "w \<noteq> t" "w < ?n" for w
      using other [OF that] assms(6) by blast
    with u v disj show "groups (if u = t then tb else oftables br ! u) \<inter> groups (if v = t then tb else oftables br ! v) = {}"
      by (cases "u = t"; cases "v = t") (simp_all add: inf_commute)
  qed
qed

lemma all_groups_update:
  assumes "evg_tables br" and "t < length (oftables br)" and "oftables br' = (oftables br)[t := tb]"
  shows "all_groups br' = groups tb \<union> (all_groups br - groups_at br t)"
proof -
  have "g \<notin> groups_at br t" if "g \<in> groups_at br u" "u < length (oftables br)" "u \<noteq> t" for g u
    using assms(1,2) that by (auto simp: evg_tables_def)
  then show ?thesis using assms(2) by (auto simp: in_all_groups assms(3) nth_list_update split: if_splits) metis
qed

lemma groups_unique:
  "evg_inv_but X br \<Longrightarrow> u < length (oftables br) \<Longrightarrow> t < length (oftables br)
    \<Longrightarrow> g \<in> groups_at br u \<Longrightarrow> g \<in> groups_at br t \<Longrightarrow> u = t"
  unfolding evg_inv_but_def evg_tables_def by blast

section \<open>Finding a group\<close>

lemma evg_new_group:
  assumes "evg_inv br" and "t < length (oftables br)" and "eviction_fields (oftables br ! t) \<noteq> None"
    and Nil: "HMAP_FOR_EACH_WITH_HASH (eviction_groups_by_id (oftables br ! t)) (ucast i) = []"
  obtains g br' where "sgx_evg_find br t i p = Some (g, br')" "evg_inv_but {g} br'" "g \<in> groups_at br' t"
    "evg_frame br br'" "same_fields br br'" "rstore br' = rstore br"
    "\<And>h. h \<in> all_groups br \<Longrightarrow> members br' h = members br h" "groups_at br t \<subseteq> groups_at br' t"
    "\<And>u. u \<noteq> t \<Longrightarrow> groups_at br' u = groups_at br u"
    "hmap_abs (eviction_groups_by_id (oftables br' ! t)) = (hmap_abs (eviction_groups_by_id (oftables br ! t)))(ucast i \<mapsto> g)"
proof -
  let ?tb = "oftables br ! t" and ?id = "eviction_groups_by_id (oftables br ! t)"
  have inv: "evg_tables br" "evg_back br" "\<forall>g \<in> all_groups br. group_ok br g \<and> sized br g"
    using assms(1) by (simp_all add: evg_inv_but_def)
  have tok: "table_groups_ok (size_nodes br) ?tb" using inv(1) assms(2) by (simp add: evg_tables_def)
  have u: "hmap_unique ?id" and hi: "heap_inv (eviction_groups_by_size ?tb, size_nodes br)"
    and he: "set (heap_elems (eviction_groups_by_size ?tb)) = groups ?tb"
    using tok assms(3) by (simp_all add: table_groups_ok_def)
  have gr: "groups ?tb = set (hmap_elems ?id)" using assms(3) by (auto simp: groups_def)
  have gt: "get_table br t = Some ?tb" using assms(2) by (simp add: get_table_iff)
  have sub: "groups ?tb \<subseteq> all_groups br" using assms(2) by (auto simp: in_all_groups)
  define g where "g = gnext br"
  have fresh: "g \<notin> all_groups br" using inv(3) by (auto simp: group_ok_def g_def)
  then have fresh': "g \<notin> set (heap_elems (eviction_groups_by_size ?tb))" using he sub by blast
  have a: "hmap_abs ?id (ucast i) = None" using Nil by (simp add: hmap_abs_def)
  obtain h where h: "hmap_insert True ?id g (ucast i) = Some h" "hmap_unique h" "hmap_abs h = (hmap_abs ?id)(ucast i \<mapsto> g)"
    using hmap_index.ins [OF u a, of g] fresh sub by (auto simp: ran_hmap_abs [OF u] gr)
  have hs: "set (hmap_elems h) = insert g (groups ?tb)"
    using hmap_index.ran_ins [OF a, of g] ran_hmap_abs [OF u] ran_hmap_abs [OF h(2)] gr unfolding h(3) by simp
  obtain hp nd where hp: "heap_insert_ovs (eviction_groups_by_size ?tb, size_nodes br) g p = (hp, nd)" by force
  have hpi: "heap_inv (hp, nd)" "set (heap_elems hp) = insert g (groups ?tb)"
    "\<And>x. x \<notin> groups ?tb \<Longrightarrow> x \<noteq> g \<Longrightarrow> nd x = size_nodes br x"
    "\<And>x. x \<noteq> g \<Longrightarrow> hn_priority (nd x) = hn_priority (size_nodes br x)"
    using heap_insert_ok [where node = g and p = p, OF hi] fresh' he unfolding hp
    by (auto simp flip: set_mset_mset)
  define tb' where "tb' = ?tb\<lparr>eviction_groups_by_id := h, eviction_groups_by_size := hp\<rparr>"
  define br' where "br' = (put_table br t tb')\<lparr>size_nodes := nd, gnext := g + 1, gstore := (gstore br)(g := \<lparr>evg_rules = heap_init_ovs\<rparr>)\<rparr>"
  have ots: "oftables br' = (oftables br)[t := tb']" by (simp add: br'_def)
  have gtb: "groups tb' = insert g (groups ?tb)" using assms(3) hs by (simp add: groups_def tb'_def)
  have ag: "all_groups br' = insert g (all_groups br)"
    using all_groups_update [OF inv(1) assms(2) ots] gtb sub by auto
  have mem: "members br' x = (if x = g then [] else members br x)" for x
    by (simp add: members_def br'_def heap_empty_inv(2))
  have tabs: "evg_tables br'"
  proof (rule evg_tables_update [OF inv(1) assms(2) ots])
    show "table_groups_ok (size_nodes br') tb'"
      using h(2) hpi(1,2) gtb by (simp add: table_groups_ok_def br'_def tb'_def)
    show "size_nodes br' x = size_nodes br x" if "x \<in> all_groups br - groups_at br t" for x
      using that fresh hpi(3) [of x] by (auto simp: br'_def)
  qed (use gtb fresh in auto)
  have "group_ok br' x \<and> (x \<notin> {g} \<longrightarrow> sized br' x)" if "x \<in> all_groups br'" for x
  proof (cases "x = g")
    case True
    then show ?thesis using heap_empty_inv(1) by (simp add: group_ok_def mem) (simp add: br'_def)
  next
    case False
    then have "group_ok br x \<and> sized br x" using that ag inv(3) by simp
    with False show ?thesis
      by (simp add: group_ok_def sized_def mem) (simp add: br'_def g_def hpi(4))
  qed
  moreover have "evg_back br'" using inv(2) fresh unfolding evg_back_def ag mem by (auto simp: br'_def)
  ultimately have ei: "evg_inv_but {g} br'" using tabs by (simp add: evg_inv_but_def)
  have ef: "sgx_evg_find br t i p = Some (g, br')"
    by (simp add: sgx_evg_find_def gt Nil Let_def h(1) hp br'_def tb'_def flip: g_def)
  have fr: "evg_frame br br'" "same_fields br br'"
    using assms(2) by (auto simp: frame_defs same_fields_def br'_def tb'_def nth_list_update)
  show thesis
  proof (rule that [OF ef ei _ fr])
    show "rstore br' = rstore br" by (simp add: br'_def)
    show "members br' h = members br h" if "h \<in> all_groups br" for h using that fresh by (auto simp: mem)
    show "hmap_abs (eviction_groups_by_id (oftables br' ! t)) = (hmap_abs ?id)(ucast i \<mapsto> g)"
      using assms(2) h(3) by (simp add: ots) (simp add: tb'_def)
  qed (use assms(2) ots gtb in auto)
qed

lemma evg_find_ok:
  assumes "evg_inv br" and "t < length (oftables br)" and "eviction_fields (oftables br ! t) \<noteq> None"
  obtains g br' where "sgx_evg_find br t i p = Some (g, br')" "evg_inv_but {g} br'" "g \<in> groups_at br' t"
    "evg_frame br br'" "same_fields br br'" "rstore br' = rstore br"
    "\<And>h. h \<in> all_groups br \<Longrightarrow> members br' h = members br h" "groups_at br t \<subseteq> groups_at br' t"
    "\<And>u. u \<noteq> t \<Longrightarrow> groups_at br' u = groups_at br u"
    "hmap_abs (eviction_groups_by_id (oftables br' ! t)) = (hmap_abs (eviction_groups_by_id (oftables br ! t)))(ucast i \<mapsto> g)"
proof -
  let ?tb = "oftables br ! t" and ?id = "eviction_groups_by_id (oftables br ! t)"
  have inv: "evg_tables br" "evg_back br" "\<forall>g \<in> all_groups br. group_ok br g \<and> sized br g"
    using assms(1) by (simp_all add: evg_inv_but_def)
  have tok: "table_groups_ok (size_nodes br) ?tb" using inv(1) assms(2) by (simp add: evg_tables_def)
  have u: "hmap_unique ?id" using tok assms(3) by (simp add: table_groups_ok_def)
  have gr: "groups ?tb = set (hmap_elems ?id)" using assms(3) by (auto simp: groups_def)
  have gt: "get_table br t = Some ?tb" using assms(2) by (simp add: get_table_iff)
  show thesis
  proof (cases "HMAP_FOR_EACH_WITH_HASH ?id (ucast i)")
    case (Cons g rest)
    then have a: "hmap_abs ?id (ucast i) = Some g" by (simp add: hmap_abs_def)
    then have g: "g \<in> groups ?tb" using ran_hmap_abs [OF u] by (auto simp: gr ran_def)
    have "evg_inv_but {g} br" using inv by (simp add: evg_inv_but_def)
    moreover have "hmap_abs ?id = (hmap_abs ?id)(ucast i \<mapsto> g)" using a by (simp add: fun_upd_idem)
    moreover have "sgx_evg_find br t i p = Some (g, br)" by (simp add: sgx_evg_find_def gt Cons)
    ultimately show thesis using that [of g br] g by simp
  next
    case Nil
    from evg_new_group [OF assms Nil] that show thesis by blast
  qed
qed

section \<open>Changing a group\<close>

text \<open>One rule enters or leaves the heap of the group \<open>g\<close>.\<close>

lemma group_change:
  fixes br :: bridge
  assumes inv: "evg_inv_but {g} br" and g: "g \<in> all_groups br" and r: "r < rnext br"
    and e: "evict_group (rstore br r) = None \<or> evict_group (rstore br r) = Some g"
    and h: "heap_inv (hp, rn)" "\<And>x. x \<notin> set (members br g) \<Longrightarrow> x \<noteq> r \<Longrightarrow> rn x = rule_nodes br x"
    and v: "v = Some g \<and> set (heap_elems hp) = insert r (set (members br g))
      \<or> v = None \<and> set (heap_elems hp) = set (members br g) - {r}"
  defines "br' \<equiv> br\<lparr>rstore := (rstore br)(r := (rstore br r)\<lparr>evict_group := v\<rparr>),
      gstore := (gstore br)(g := \<lparr>evg_rules = hp\<rparr>), rule_nodes := rn\<rparr>"
  shows "evg_inv_but {g} br'" and "evg_frame br br'" and "members br' x = (if x = g then heap_elems hp else members br x)"
proof -
  have i: "evg_tables br" "evg_back br" "\<And>x. x \<in> all_groups br \<Longrightarrow> group_ok br x"
    "\<And>x. x \<in> all_groups br \<Longrightarrow> x \<noteq> g \<Longrightarrow> sized br x"
    using inv by (simp_all add: evg_inv_but_def)
  have ag: "all_groups br' = all_groups br" by (simp add: all_groups_def br'_def)
  have tabs: "evg_tables br'" using i(1) by (simp add: evg_tables_def br'_def)
  show mem: "members br' x = (if x = g then heap_elems hp else members br x)" for x
    by (simp add: members_def br'_def)
  have m: "q < rnext br \<and> evict_group (rstore br q) = Some x" if "x \<in> all_groups br" "q \<in> set (members br x)" for q x
    using i(3) [OF that(1)] that(2) by (simp add: group_ok_def)
  have other: "q \<notin> set (members br g) \<and> q \<noteq> r" if "x \<in> all_groups br" "x \<noteq> g" "q \<in> set (members br x)" for q x
    using m [OF that(1,3)] m [OF g, of q] e that(2) by auto
  have rst: "rstore br' q = (if q = r then (rstore br r)\<lparr>evict_group := v\<rparr> else rstore br q)" for q by (simp add: br'_def)
  have ok: "group_ok br' x" if "x \<in> all_groups br" for x
  proof (cases "x = g")
    case True
    have "q < rnext br \<and> evict_group (rstore br' q) = Some g" if "q \<in> set (heap_elems hp)" for q
      using that v r m [OF g] unfolding rst by (cases "q = r") auto
    then show ?thesis using True h(1) i(3) [OF g] unfolding group_ok_def mem by (simp add: br'_def)
  next
    case False
    have "heap_inv (evg_rules (gstore br x), rn)"
    proof (rule heap_inv_cong)
      show "heap_inv (evg_rules (gstore br x), rule_nodes br)" using i(3) [OF that] by (simp add: group_ok_def)
      show "rn q = rule_nodes br q" if q: "q \<in> set (heap_elems (evg_rules (gstore br x)))" for q
        using other [OF \<open>x \<in> all_groups br\<close> False] q h(2) by (simp add: members_def)
    qed
    moreover have "q < rnext br \<and> evict_group (rstore br' q) = Some x" if q: "q \<in> set (members br x)" for q
      using m [OF \<open>x \<in> all_groups br\<close> q] other [OF \<open>x \<in> all_groups br\<close> False q] by (simp add: rst)
    ultimately show ?thesis using False i(3) [OF that] unfolding group_ok_def mem by (simp add: br'_def)
  qed
  have "sized br' x" if "x \<in> all_groups br" "x \<noteq> g" for x
    using i(4) [OF that] that(2) by (simp add: sized_def mem) (simp add: br'_def)
  moreover have "x \<in> all_groups br \<and> q \<in> set (members br' x)" if "q < rnext br" "evict_group (rstore br' q) = Some x" for q x
  proof (cases "q = r")
    case True
    then have "v = Some x" using that(2) by (simp add: rst)
    then show ?thesis using True v g unfolding mem by auto
  next
    case False
    then have "x \<in> all_groups br \<and> q \<in> set (members br x)" using i(2) that by (simp add: evg_back_def rst)
    then show ?thesis using False v unfolding mem by auto
  qed
  then have "evg_back br'" unfolding evg_back_def ag by (simp add: br'_def)
  ultimately show "evg_inv_but {g} br'" using tabs ok by (simp add: evg_inv_but_def ag)
  show "evg_frame br br'" by (simp add: frame_defs rst) (simp add: br'_def)
qed

lemma evg_resize_ok:
  assumes inv: "evg_inv_but {g} br" and "t < length (oftables br)" and "g \<in> groups_at br t" and "members br g \<noteq> []"
  obtains br' where "sgx_evg_group_resize br t (evg_priority (length (members br g)) rnd) g = Some br'"
    "evg_inv br'" "evg_frame br br'" "same_fields br br'" "rstore br' = rstore br" "members br' = members br"
    "\<And>u. groups_at br' u = groups_at br u" "\<And>u. eviction_groups_by_id (oftables br' ! u) = eviction_groups_by_id (oftables br ! u)"
proof -
  let ?tb = "oftables br ! t" and ?p = "evg_priority (length (members br g)) rnd"
  have i: "evg_tables br" "evg_back br" "\<And>x. x \<in> all_groups br \<Longrightarrow> group_ok br x"
    "\<And>x. x \<in> all_groups br \<Longrightarrow> x \<noteq> g \<Longrightarrow> sized br x"
    using inv by (simp_all add: evg_inv_but_def)
  have f: "eviction_fields ?tb \<noteq> None" using assms(3) by (auto simp: groups_def split: if_splits)
  then have t: "hmap_unique (eviction_groups_by_id ?tb)" "heap_inv (eviction_groups_by_size ?tb, size_nodes br)"
    "set (heap_elems (eviction_groups_by_size ?tb)) = groups ?tb"
    using i(1) assms(2) by (auto simp: evg_tables_def table_groups_ok_def)
  obtain hp nd where hp: "heap_change_ovs (eviction_groups_by_size ?tb, size_nodes br) g ?p = (hp, nd)" by force
  have hpi: "heap_inv (hp, nd)" "set (heap_elems hp) = groups ?tb"
    "\<And>x. x \<notin> groups ?tb \<Longrightarrow> nd x = size_nodes br x"
    "\<And>x. hn_priority (nd x) = (if x = g then ?p else hn_priority (size_nodes br x))"
    using heap_change_ok [where node = g and p = ?p, OF t(2)] assms(3) t(3) unfolding hp by (auto simp flip: set_mset_mset)
  define tb' where "tb' = ?tb\<lparr>eviction_groups_by_size := hp\<rparr>"
  define br' where "br' = (put_table br t tb')\<lparr>size_nodes := nd\<rparr>"
  have ots: "oftables br' = (oftables br)[t := tb']" and mem: "members br' = members br"
    by (simp_all add: br'_def members_def fun_eq_iff)
  have gtb: "groups tb' = groups ?tb" by (simp add: groups_def tb'_def)
  have ag: "all_groups br' = all_groups br"
    using all_groups_update [OF i(1) assms(2) ots] gtb assms(2) by (auto simp: in_all_groups)
  have "evg_tables br'"
  proof (rule evg_tables_update [OF i(1) assms(2) ots])
    show "table_groups_ok (size_nodes br') tb'"
      using t(1) hpi(1,2) gtb by (simp add: table_groups_ok_def br'_def tb'_def)
  qed (use gtb hpi(3) in \<open>auto simp: br'_def\<close>)
  moreover have "group_ok br' x \<and> sized br' x" if "x \<in> all_groups br" for x
    using i(3) [OF that] i(4) [OF that] assms(4) sized_priority
    by (auto simp: group_ok_def sized_def mem) (simp_all add: br'_def hpi(4))
  moreover have "evg_back br'" using i(2) unfolding evg_back_def ag mem by (simp add: br'_def)
  ultimately have inv': "evg_inv br'" by (simp add: evg_inv_but_def ag)
  have rs: "sgx_evg_group_resize br t ?p g = Some br'"
    using assms(2) by (simp add: sgx_evg_group_resize_def get_table_def hp br'_def tb'_def)
  have "evg_frame br br'" "same_fields br br'"
    using assms(2) by (auto simp: frame_defs same_fields_def br'_def tb'_def nth_list_update)
  then show thesis
  proof (rule that [OF rs inv'])
    show "groups_at br' u = groups_at br u" for u using gtb assms(2) by (cases "u = t") (simp_all add: ots)
    show "eviction_groups_by_id (oftables br' ! u) = eviction_groups_by_id (oftables br ! u)" for u
      using assms(2) by (cases "u = t") (simp_all add: ots tb'_def)
  qed (simp_all add: mem, simp add: br'_def)
qed

section \<open>Destroying a group\<close>

lemma pop_rules_ok:
  "pop_rules h st = (h', st') \<Longrightarrow> heap_elems h' = []
     \<and> st' = (\<lambda>r. if r \<in> set (heap_elems h) then (st r)\<lparr>evict_group := None\<rparr> else st r)"
proof (induction h st rule: pop_rules.induct)
  case (1 h st)
  show ?case
  proof (cases "heap_is_empty_ovs h")
    case True
    then show ?thesis using "1.prems" by (simp add: pop_rules.simps [of h] heap_empty_iff)
  next
    case False
    obtain h1 r where p: "heap_pop_ovs h = (h1, r)" by force
    have n: "heap_n h > 0" using False by (simp add: heap_is_empty_ovs_def)
    have "[1..<heap_n h + 1] = [1..<heap_n h] @ [heap_n h]" using n by simp
    moreover have "heap_n h1 + 1 = heap_n h" "harray h1 = harray h" "r = harray h ! heap_n h"
      using p n by (auto simp: heap_pop_ovs_def)
    ultimately have e: "heap_elems h = heap_elems h1 @ [r]" unfolding heap_elems_def by simp
    have "pop_rules h1 (st(r := (st r)\<lparr>evict_group := None\<rparr>)) = (h', st')"
      using "1.prems" False p by (simp add: pop_rules.simps [of h])
    from "1.IH" [OF False p [symmetric] this] show ?thesis by (auto simp: e)
  qed
qed

lemma evg_destroy_ok:
  assumes inv: "evg_inv_but {g} br" and "t < length (oftables br)" and "g \<in> groups_at br t"
  obtains br' where "sgx_evg_destroy br t g = Some br'" "evg_inv br'" "evg_frame br br'" "same_fields br br'"
    "groups_at br' t = groups_at br t - {g}" "\<And>u. u \<noteq> t \<Longrightarrow> groups_at br' u = groups_at br u"
    "\<And>r. evict_group (rstore br' r) = (if r \<in> set (members br g) then None else evict_group (rstore br r))"
    "\<And>x. x \<noteq> g \<Longrightarrow> members br' x = members br x"
proof -
  let ?tb = "oftables br ! t" and ?id = "eviction_groups_by_id (oftables br ! t)"
  have i: "evg_tables br" "evg_back br" "\<And>x. x \<in> all_groups br \<Longrightarrow> group_ok br x"
    "\<And>x. x \<in> all_groups br \<Longrightarrow> x \<noteq> g \<Longrightarrow> sized br x"
    using inv by (simp_all add: evg_inv_but_def)
  have f: "eviction_fields ?tb \<noteq> None" using assms(3) by (auto simp: groups_def split: if_splits)
  then have t: "hmap_unique ?id" "heap_inv (eviction_groups_by_size ?tb, size_nodes br)"
    "set (heap_elems (eviction_groups_by_size ?tb)) = groups ?tb" "groups ?tb = set (hmap_elems ?id)"
    using i(1) assms(2) by (auto simp: evg_tables_def table_groups_ok_def groups_def)
  obtain h0 st where pr: "pop_rules (evg_rules (gstore br g)) (rstore br) = (h0, st)" by force
  have st: "st = (\<lambda>r. if r \<in> set (members br g) then (rstore br r)\<lparr>evict_group := None\<rparr> else rstore br r)"
    using pop_rules_ok [OF pr] by (simp add: members_def)
  obtain k where k: "hmap_abs ?id k = Some g" using assms(3) t(4) ran_hmap_abs [OF t(1)] by (auto simp: ran_def)
  obtain h where h: "hmap_remove ?id g = Some h" "hmap_unique h" "hmap_abs h = (hmap_abs ?id)(k := None)"
    using hmap_index.del [OF t(1) k] by blast
  have hs: "set (hmap_elems h) = groups ?tb - {g}"
    using hmap_index.ran_del [OF t(1) k] ran_hmap_abs [OF t(1)] ran_hmap_abs [OF h(2)] unfolding h(3) t(4) by simp
  obtain hp nd where hp: "heap_remove_ovs (eviction_groups_by_size ?tb, size_nodes br) g = (hp, nd)" by force
  have hpi: "heap_inv (hp, nd)" "set (heap_elems hp) = groups ?tb - {g}"
    "\<And>x. x \<notin> groups ?tb \<Longrightarrow> nd x = size_nodes br x" "\<And>x. hn_priority (nd x) = hn_priority (size_nodes br x)"
    using heap_remove_ok [where node = g, OF t(2)] heap_remove_set [OF t(2), of g] assms(3) t(3) by (simp_all add: hp)
  define tb' where "tb' = ?tb\<lparr>eviction_groups_by_id := h, eviction_groups_by_size := hp\<rparr>"
  define br' where "br' = (put_table (br\<lparr>gstore := (gstore br)(g := \<lparr>evg_rules = h0\<rparr>), rstore := st\<rparr>) t tb')\<lparr>size_nodes := nd\<rparr>"
  have ots: "oftables br' = (oftables br)[t := tb']" by (simp add: br'_def)
  have gtb: "groups tb' = groups ?tb - {g}" using f hs by (simp add: groups_def tb'_def)
  have sub: "groups ?tb \<subseteq> all_groups br" using assms(2) by (auto simp: in_all_groups)
  have ag: "all_groups br' = all_groups br - {g}"
    using all_groups_update [OF i(1) assms(2) ots] gtb sub assms(3) by auto
  have mem: "members br' x = members br x" if "x \<noteq> g" for x using that by (simp add: members_def br'_def)
  have m: "q < rnext br \<and> evict_group (rstore br q) = Some x" if "x \<in> all_groups br" "q \<in> set (members br x)" for q x
    using i(3) [OF that(1)] that(2) by (simp add: group_ok_def)
  have other: "q \<notin> set (members br g)" if "x \<in> all_groups br" "x \<noteq> g" "q \<in> set (members br x)" for q x
    using m [OF that(1,3)] m [of g q] sub assms(3) that(2) by auto
  have tabs: "evg_tables br'"
  proof (rule evg_tables_update [OF i(1) assms(2) ots])
    show "table_groups_ok (size_nodes br') tb'"
      using h(2) hpi(1,2) gtb by (simp add: table_groups_ok_def br'_def tb'_def)
  qed (use gtb hpi(3) in \<open>auto simp: br'_def\<close>)
  have "group_ok br' x \<and> sized br' x" if "x \<in> all_groups br" "x \<noteq> g" for x
  proof -
    have "\<forall>r \<in> set (members br x). r < rnext br' \<and> evict_group (rstore br' r) = Some x"
      using m [OF that(1)] other [OF that] by (simp add: br'_def st)
    then show ?thesis using i(3,4) [OF that(1)] that(2)
      unfolding group_ok_def sized_def mem [OF that(2)] by (simp add: br'_def hpi(4))
  qed
  moreover have "x \<in> all_groups br' \<and> q \<in> set (members br' x)"
    if "q < rnext br'" "evict_group (rstore br' q) = Some x" for q x
  proof -
    have q: "q < rnext br" "q \<notin> set (members br g)" "evict_group (rstore br q) = Some x"
      using that by (auto simp: br'_def st split: if_splits)
    then have "x \<in> all_groups br \<and> q \<in> set (members br x)" using i(2) by (simp add: evg_back_def)
    with q(2) show ?thesis using mem [of x] by (cases "x = g") (auto simp: ag)
  qed
  then have "evg_back br'" by (simp add: evg_back_def)
  ultimately have inv': "evg_inv br'" using tabs by (simp add: evg_inv_but_def ag)
  have ds: "sgx_evg_destroy br t g = Some br'"
    using assms(2) by (simp add: sgx_evg_destroy_def pr get_table_def h(1) hp br'_def tb'_def)
  have "evg_frame br br'" "same_fields br br'"
    using assms(2) by (auto simp: frame_defs same_fields_def br'_def tb'_def nth_list_update st)
  then show thesis
  proof (rule that [OF ds inv'])
    show "evict_group (rstore br' r) = (if r \<in> set (members br g) then None else evict_group (rstore br r))" for r
      by (simp add: br'_def st)
  qed (use gtb assms(2) mem ots in auto)
qed

section \<open>Rules in and out of groups\<close>

lemma evg_inv_rand [simp]: "evg_inv_but X (br\<lparr>rand_pos := k\<rparr>) = evg_inv_but X br"
  "members (br\<lparr>rand_pos := k\<rparr>) = members br" "evg_frame br (br\<lparr>rand_pos := k\<rparr>)" "same_fields br (br\<lparr>rand_pos := k\<rparr>)"
proof -
  have m: "members (br\<lparr>rand_pos := k\<rparr>) = members br" and a: "all_groups (br\<lparr>rand_pos := k\<rparr>) = all_groups br"
    by (simp_all add: members_def all_groups_def fun_eq_iff)
  then show "evg_inv_but X (br\<lparr>rand_pos := k\<rparr>) = evg_inv_but X br"
    by (simp add: evg_inv_but_def evg_tables_def evg_back_def group_ok_def sized_def)
qed (simp_all add: members_def fun_eq_iff frame_defs same_fields_def)

lemma evg_add_rule_ok:
  assumes inv: "evg_inv br" and t: "t < length (oftables br)" and f: "eviction_fields (oftables br ! t) \<noteq> None"
    and r: "sgx_rule_from_ut_cr br o_cr = Some r" "r < rnext br" "evict_group (rstore br r) = None"
    and hash: "eviction_group_hash_rule junk (oftables br ! t) (rules_of br r) = Some i"
  obtains br' g where "ecall_evg_add_rule junk br t o_cr p rp node = Some br'" "evg_inv br'" "evg_frame br br'"
    "same_fields br br'" "g \<in> groups_at br' t" "groups_at br t \<subseteq> groups_at br' t"
    "\<And>u. u \<noteq> t \<Longrightarrow> groups_at br' u = groups_at br u"
    "\<And>q. evict_group (rstore br' q) = (if q = r then Some g else evict_group (rstore br q))"
    "hmap_abs (eviction_groups_by_id (oftables br' ! t)) (ucast i) = Some g"
proof -
  obtain g b1 where 1: "sgx_evg_find br t i p = Some (g, b1)" "evg_inv_but {g} b1" "g \<in> groups_at b1 t"
    "evg_frame br b1" "same_fields br b1" "rstore b1 = rstore br"
    "\<And>h. h \<in> all_groups br \<Longrightarrow> members b1 h = members br h" "groups_at br t \<subseteq> groups_at b1 t" "\<And>u. u \<noteq> t \<Longrightarrow> groups_at b1 u = groups_at br u"
    "hmap_abs (eviction_groups_by_id (oftables b1 ! t)) = (hmap_abs (eviction_groups_by_id (oftables br ! t)))(ucast i \<mapsto> g)"
    using evg_find_ok [OF inv t f, of i p] by blast
  have t1: "t < length (oftables b1)" and r1: "r < rnext b1" using 1(4) t r(2) by (simp_all add: evg_frame_def)
  have g1: "g \<in> all_groups b1" using 1(3) t1 by (auto simp: in_all_groups)
  have ok: "group_ok b1 g" using 1(2) g1 by (simp add: evg_inv_but_def)
  then have rm: "r \<notin> set (members b1 g)" using r(3) 1(6) by (auto simp: group_ok_def)
  obtain hp rn where hp: "heap_insert_ovs (evg_rules (gstore b1 g), (rule_nodes b1)(r := node)) r rp = (hp, rn)" by force
  have hi: "heap_inv (evg_rules (gstore b1 g), (rule_nodes b1)(r := node))"
    using ok rm by (auto simp: group_ok_def members_def intro: heap_inv_cong)
  have h: "heap_inv (hp, rn)" "set (heap_elems hp) = insert r (set (members b1 g))"
    "\<And>x. x \<notin> set (members b1 g) \<Longrightarrow> x \<noteq> r \<Longrightarrow> rn x = rule_nodes b1 x"
    using heap_insert_ok [where node = r and p = rp, OF hi] rm unfolding hp
    by (auto simp: members_def simp flip: set_mset_mset)
  define b2 where "b2 = b1\<lparr>rstore := (rstore b1)(r := (rstore b1 r)\<lparr>evict_group := Some g\<rparr>),
      gstore := (gstore b1)(g := \<lparr>evg_rules = hp\<rparr>), rule_nodes := rn\<rparr>"
  have 2: "evg_inv_but {g} b2" "evg_frame b1 b2" "members b2 g = heap_elems hp"
    using group_change [OF 1(2) g1 r1 _ h(1,3), of "Some g"] r(3) h(2) 1(6) by (simp_all add: b2_def)
  have ot2: "oftables b2 = oftables b1" by (simp add: b2_def)
  define b3 where "b3 = b2\<lparr>rand_pos := rand_pos b2 + 1\<rparr>"
  have m3: "members b3 g = heap_elems hp" by (simp add: b3_def 2(3))
  have resize_pre: "evg_inv_but {g} b3" "t < length (oftables b3)" "g \<in> groups_at b3 t" "heap_elems hp \<noteq> []"
    using 2(1) t1 1(3) h(2) by (auto simp: b3_def ot2)
  obtain b4 where 4: "sgx_evg_group_resize b3 t (evg_priority (length (heap_elems hp)) (rand b2 (rand_pos b2))) g = Some b4"
    "evg_inv b4" "evg_frame b3 b4" "same_fields b3 b4" "rstore b4 = rstore b3" "members b4 = members b3"
    "\<And>u. groups_at b4 u = groups_at b3 u" "\<And>u. eviction_groups_by_id (oftables b4 ! u) = eviction_groups_by_id (oftables b3 ! u)"
    using evg_resize_ok [of g b3 t "rand b2 (rand_pos b2)", unfolded m3] resize_pre by blast
  have "ecall_evg_add_rule junk br t o_cr p rp node = Some b4"
    using t r(1) hash 1(1) hp 4(1)
    by (simp add: ecall_evg_add_rule_def get_table_def Let_def random_uint16_def heap_count_elems b3_def b2_def)
  moreover have "evg_frame br b4" using evg_frame_trans [OF evg_frame_trans [OF evg_frame_trans [OF 1(4) 2(2)] evg_inv_rand(3)]] 4(3) by (simp add: b3_def)
  moreover have "same_fields br b4" using 1(4,5) 4(4) by (simp add: same_fields_def evg_frame_def b3_def ot2)
  ultimately show thesis
    using that [of b4 g] 1(3,8,9,10) 4(2,7,8) by (simp add: 4(5) b3_def ot2) (simp add: b2_def 1(6))
qed

lemma evg_remove_rule_ok:
  assumes inv: "evg_inv br" and t: "t < length (oftables br)"
    and r: "sgx_rule_from_ut_cr br o_cr = Some r" "r < rnext br"
    and own: "\<forall>g. evict_group (rstore br r) = Some g \<longrightarrow> g \<in> groups_at br t"
  obtains br' where "ecall_evg_remove_rule br t o_cr = Some br'" "evg_inv br'" "evg_frame br br'" "same_fields br br'"
    "\<And>q. evict_group (rstore br' q) = (if q = r then None else evict_group (rstore br q))"
    "groups_at br' t \<subseteq> groups_at br t" "\<And>u. u \<noteq> t \<Longrightarrow> groups_at br' u = groups_at br u"
    "\<And>q g. evict_group (rstore br' q) = Some g \<Longrightarrow> q < rnext br \<Longrightarrow> g \<in> groups_at br t \<Longrightarrow> g \<in> groups_at br' t"
proof (cases "evict_group (rstore br r)")
  case None
  then show thesis using that [of br] inv r(1) by (simp add: ecall_evg_remove_rule_def)
next
  case (Some g)
  have g: "g \<in> groups_at br t" using own Some by simp
  then have ag: "g \<in> all_groups br" using t by (auto simp: in_all_groups)
  have inv1: "evg_inv_but {g} br" and ok: "group_ok br g" and mr: "r \<in> set (members br g)"
    using inv ag Some r(2) by (auto simp: evg_inv_but_def evg_back_def)
  obtain hp rn where hp: "heap_remove_ovs (evg_rules (gstore br g), rule_nodes br) r = (hp, rn)" by force
  have hi: "heap_inv (evg_rules (gstore br g), rule_nodes br)" using ok by (simp add: group_ok_def)
  have h: "heap_inv (hp, rn)" "set (heap_elems hp) = set (members br g) - {r}"
    "\<And>x. x \<notin> set (members br g) \<Longrightarrow> rn x = rule_nodes br x"
    using heap_remove_ok [where node = r, OF hi] heap_remove_set [OF hi, of r] mr by (simp_all add: hp members_def)
  define b2 where "b2 = br\<lparr>rstore := (rstore br)(r := (rstore br r)\<lparr>evict_group := None\<rparr>),
      gstore := (gstore br)(g := \<lparr>evg_rules = hp\<rparr>), rule_nodes := rn\<rparr>"
  have 2: "evg_inv_but {g} b2" "evg_frame br b2" "\<And>x. members b2 x = (if x = g then heap_elems hp else members br x)"
    using group_change [OF inv1 ag r(2) _ h(1) h(3), of None] Some h(2) by (simp_all add: b2_def)
  have ot2: "oftables b2 = oftables br" by (simp add: b2_def)
  have e2: "evict_group (rstore b2 q) = (if q = r then None else evict_group (rstore br q))" for q by (simp add: b2_def)
  have t2: "t < length (oftables b2)" and g2: "g \<in> groups_at b2 t" using t g by (simp_all add: ot2)
  show thesis
  proof (cases "heap_elems hp = []")
    case True
    obtain b3 where 3: "sgx_evg_destroy b2 t g = Some b3" "evg_inv b3" "evg_frame b2 b3" "same_fields b2 b3"
      "groups_at b3 t = groups_at b2 t - {g}" "\<And>u. u \<noteq> t \<Longrightarrow> groups_at b3 u = groups_at b2 u"
      "\<And>r. evict_group (rstore b3 r) = (if r \<in> set (members b2 g) then None else evict_group (rstore b2 r))"
      "\<And>x. x \<noteq> g \<Longrightarrow> members b3 x = members b2 x"
      using evg_destroy_ok [OF 2(1) t2 g2] by blast
    have e: "ecall_evg_remove_rule br t o_cr = Some b3"
      using r(1) Some hp 3(1) True by (simp add: ecall_evg_remove_rule_def Let_def heap_empty_iff b2_def)
    have e3: "evict_group (rstore b3 q) = (if q = r then None else evict_group (rstore br q))" for q
      using 3(7) [of q] True by (simp add: 2(3) e2)
    have sf: "same_fields br b3" using 3(4) by (simp add: same_fields_def ot2)
    show thesis
    proof (rule that [OF e 3(2) evg_frame_trans [OF 2(2) 3(3)] sf e3])
      fix q x
      assume q: "evict_group (rstore b3 q) = Some x" "q < rnext br" "x \<in> groups_at br t"
      have "q < rnext b3" using q(2) 2(2) 3(3) by (simp add: evg_frame_def)
      then have "x \<in> all_groups b3" using 3(2) q(1) by (simp add: evg_inv_but_def evg_back_def)
      then obtain u where u: "u < length (oftables b3)" "x \<in> groups_at b3 u" by (auto simp: in_all_groups)
      then have "u = t" using groups_unique [OF inv _ t _ q(3)] 3(3,6) by (cases "u = t") (auto simp: ot2 evg_frame_def)
      with u show "x \<in> groups_at b3 t" by simp
    qed (use 3(5,6) in \<open>simp_all add: ot2\<close>)
  next
    case False
    define b3 where "b3 = b2\<lparr>rand_pos := rand_pos b2 + 1\<rparr>"
    have m3: "members b3 g = heap_elems hp" by (simp add: b3_def 2(3))
    have resize_pre: "evg_inv_but {g} b3" "t < length (oftables b3)" "g \<in> groups_at b3 t" "heap_elems hp \<noteq> []"
      using 2(1) t2 g2 False by (auto simp: b3_def)
    obtain b4 where 4: "sgx_evg_group_resize b3 t (evg_priority (length (heap_elems hp)) (rand b2 (rand_pos b2))) g = Some b4"
      "evg_inv b4" "evg_frame b3 b4" "same_fields b3 b4" "rstore b4 = rstore b3" "members b4 = members b3"
      "\<And>u. groups_at b4 u = groups_at b3 u" "\<And>u. eviction_groups_by_id (oftables b4 ! u) = eviction_groups_by_id (oftables b3 ! u)"
      using evg_resize_ok [of g b3 t "rand b2 (rand_pos b2)", unfolded m3] resize_pre by blast
    have "ecall_evg_remove_rule br t o_cr = Some b4"
      using r(1) Some hp 4(1) False
      by (simp add: ecall_evg_remove_rule_def Let_def heap_empty_iff random_uint16_def heap_count_elems b3_def b2_def)
    moreover have "evg_frame br b4" using evg_frame_trans [OF evg_frame_trans [OF 2(2) evg_inv_rand(3)]] 4(3) by (simp add: b3_def)
    moreover have "same_fields br b4" using 4(4) by (simp add: same_fields_def b3_def ot2)
    ultimately show thesis
      using that [of b4] 4(2,7) by (simp add: 4(5) b3_def ot2 e2)
  qed
qed

section \<open>Enabling and disabling\<close>

lemma evg_members_iff:
  assumes "evg_inv_but X br" and "g \<in> all_groups br" and "r < rnext br"
  shows "r \<in> set (members br g) \<longleftrightarrow> evict_group (rstore br r) = Some g"
proof -
  have "group_ok br g" "evg_back br" using assms(1,2) by (simp_all add: evg_inv_but_def)
  then show ?thesis using assms(3) unfolding group_ok_def evg_back_def by blast
qed

lemma evg_inv_put:
  assumes "evg_inv_but X br" and "t < length (oftables br)" and "groups tb = groups_at br t"
    and "table_groups_ok (size_nodes br) tb"
  shows "evg_inv_but X (put_table br t tb)"
proof -
  let ?br = "put_table br t tb"
  have i: "evg_tables br" using assms(1) by (simp add: evg_inv_but_def)
  have "groups tb \<subseteq> all_groups br" using assms(2,3) by (auto simp: in_all_groups)
  then have ag: "all_groups ?br = all_groups br"
    using all_groups_update [OF i assms(2), of ?br tb] assms(3) by (simp add: Un_absorb1)
  have mem: "members ?br = members br" by (simp add: members_def fun_eq_iff)
  have tabs: "evg_tables ?br"
  proof (rule evg_tables_update [OF i assms(2)])
    show "table_groups_ok (size_nodes ?br) tb" using assms(4) by (simp only: put_table_simps)
    show "groups tb \<inter> (all_groups br - groups_at br t) = {}" unfolding assms(3) by blast
  qed simp_all
  have "group_ok ?br g = group_ok br g" "sized ?br g = sized br g" for g
    by (simp_all only: group_ok_def sized_def mem put_table_simps)
  moreover have "evg_back ?br = evg_back br" by (simp only: evg_back_def mem ag put_table_simps)
  ultimately show ?thesis using tabs assms(1) unfolding evg_inv_but_def ag by blast
qed

lemma destroy_groups_ok:
  assumes "evg_inv br" and "t < length (oftables br)" and "set gs \<subseteq> groups_at br t" and "distinct gs"
  shows "\<exists>br'. destroy_groups br t gs = Some br' \<and> evg_inv br' \<and> evg_frame br br' \<and> same_fields br br'
    \<and> groups_at br' t = groups_at br t - set gs \<and> (\<forall>u. u \<noteq> t \<longrightarrow> groups_at br' u = groups_at br u)
    \<and> (\<forall>r < rnext br. evict_group (rstore br' r) =
         (if evict_group (rstore br r) \<in> Some ` set gs then None else evict_group (rstore br r)))"
  using assms
proof (induction gs arbitrary: br)
  case (Cons g gs)
  have g: "g \<in> groups_at br t" and ag: "g \<in> all_groups br" using Cons.prems by (auto simp: in_all_groups)
  have "evg_inv_but {g} br" using Cons.prems(1) by (simp add: evg_inv_but_def)
  then obtain b1 where 1: "sgx_evg_destroy br t g = Some b1" "evg_inv b1" "evg_frame br b1" "same_fields br b1"
    "groups_at b1 t = groups_at br t - {g}" "\<And>u. u \<noteq> t \<Longrightarrow> groups_at b1 u = groups_at br u"
    "\<And>r. evict_group (rstore b1 r) = (if r \<in> set (members br g) then None else evict_group (rstore br r))"
    using evg_destroy_ok [OF _ Cons.prems(2) g] by metis
  have e1: "evict_group (rstore b1 r) = (if evict_group (rstore br r) = Some g then None else evict_group (rstore br r))"
    if "r < rnext br" for r
    using 1(7) evg_members_iff [OF Cons.prems(1) ag that] by simp
  have l: "length (oftables b1) = length (oftables br)" "rnext b1 = rnext br" using 1(3) by (simp_all add: evg_frame_def)
  have p: "t < length (oftables b1)" "set gs \<subseteq> groups_at b1 t" "distinct gs" using Cons.prems l 1(5) by auto
  from Cons.IH [OF 1(2) p] obtain b2 where 2: "destroy_groups b1 t gs = Some b2" "evg_inv b2" "evg_frame b1 b2"
    "same_fields b1 b2" "groups_at b2 t = groups_at b1 t - set gs" "\<forall>u. u \<noteq> t \<longrightarrow> groups_at b2 u = groups_at b1 u"
    "\<forall>r < rnext b1. evict_group (rstore b2 r) = (if evict_group (rstore b1 r) \<in> Some ` set gs then None else evict_group (rstore b1 r))"
    by blast
  have "destroy_groups br t (g # gs) = Some b2" by (simp add: 1(1) 2(1))
  moreover have "evg_frame br b2" "same_fields br b2"
    using evg_frame_trans [OF 1(3) 2(3)] same_fields_trans [OF 1(3,4) 2(4)] by simp_all
  moreover have "groups_at b2 t = groups_at br t - set (g # gs)" using 1(5) 2(5) by auto
  moreover have "\<forall>u. u \<noteq> t \<longrightarrow> groups_at b2 u = groups_at br u" using 1(6) 2(6) by simp
  moreover have "\<forall>r < rnext br. evict_group (rstore b2 r) =
      (if evict_group (rstore br r) \<in> Some ` set (g # gs) then None else evict_group (rstore br r))"
    using 2(7) e1 l(2) by auto
  ultimately show ?case using 2(2) by blast
qed auto

lemma disable_eviction_ok:
  assumes "evg_inv br" and "t < length (oftables br)"
  obtains br' where "ecall_oftable_disable_eviction br t = Some br'" "evg_inv br'" "evg_frame br br'"
    "eviction_fields (oftables br' ! t) = None"
    "\<And>u. u \<noteq> t \<Longrightarrow> groups_at br' u = groups_at br u"
    "\<And>u. u \<noteq> t \<Longrightarrow> u < length (oftables br) \<Longrightarrow> eviction_fields (oftables br' ! u) = eviction_fields (oftables br ! u)"
    "\<And>r. r < rnext br \<Longrightarrow> evict_group (rstore br' r) =
       (if evict_group (rstore br r) \<in> Some ` groups_at br t then None else evict_group (rstore br r))"
proof (cases "eviction_fields (oftables br ! t)")
  case None
  then have "ecall_oftable_disable_eviction br t = Some br" using assms(2) by (simp add: ecall_oftable_disable_eviction_def get_table_def)
  then show thesis using that [of br] assms None by (simp add: groups_def)
next
  case (Some sfs)
  let ?id = "eviction_groups_by_id (oftables br ! t)"
  have "table_groups_ok (size_nodes br) (oftables br ! t)" using assms by (simp add: evg_inv_but_def evg_tables_def)
  then have u: "hmap_unique ?id" using Some by (simp add: table_groups_ok_def)
  then have fe: "HMAP_FOR_EACH ?id = Some (hmap_elems ?id)" "distinct (hmap_elems ?id)"
    using HMAP_FOR_EACH_elems by (auto simp: hmap_unique_def)
  have gs: "groups_at br t = set (hmap_elems ?id)" using Some by (simp add: groups_def)
  obtain b1 where 1: "destroy_groups br t (hmap_elems ?id) = Some b1" "evg_inv b1" "evg_frame br b1" "same_fields br b1"
    "groups_at b1 t = groups_at br t - set (hmap_elems ?id)" "\<forall>u. u \<noteq> t \<longrightarrow> groups_at b1 u = groups_at br u"
    "\<forall>r < rnext br. evict_group (rstore b1 r) =
       (if evict_group (rstore br r) \<in> Some ` set (hmap_elems ?id) then None else evict_group (rstore br r))"
    using destroy_groups_ok [OF assms, of "hmap_elems ?id"] gs fe(2) by blast
  have t1: "t < length (oftables b1)" using 1(3) assms(2) by (simp add: evg_frame_def)
  let ?tb = "(oftables b1 ! t)\<lparr>eviction_fields := None\<rparr>"
  have 2: "evg_inv (put_table b1 t ?tb)"
    using 1(5) gs by (intro evg_inv_put [OF 1(2) t1]) (simp_all add: groups_def table_groups_ok_def)
  have e: "ecall_oftable_disable_eviction br t = Some (put_table b1 t ?tb)"
    using assms(2) Some fe(1) 1(1) t1 by (simp add: ecall_oftable_disable_eviction_def get_table_def)
  have f: "evg_frame br (put_table b1 t ?tb)"
    using 1(3) t1 by (auto simp: frame_defs nth_list_update)
  have sf: "eviction_fields (oftables b1 ! u) = eviction_fields (oftables br ! u)" if "u < length (oftables br)" for u
    using 1(4) that by (simp add: same_fields_def)
  show thesis
  proof (rule that [OF e 2 f])
    show "groups_at (put_table b1 t ?tb) u = groups_at br u" if "u \<noteq> t" for u using that 1(6) by simp
    show "eviction_fields (oftables (put_table b1 t ?tb) ! u) = eviction_fields (oftables br ! u)"
      if "u \<noteq> t" "u < length (oftables br)" for u using that sf by simp
  qed (use t1 1(7) gs in simp_all)
qed

lemma enable_eviction_ok:
  assumes "evg_inv br" and "t < length (oftables br)"
  obtains br' nc' where "ecall_oftable_enable_eviction br t sfs v nc = Some (nc', br')" "evg_inv br'" "evg_frame br br'"
    "eviction_fields (oftables br' ! t) = Some sfs" "nc' = (nc \<or> eviction_fields (oftables br ! t) = Some sfs)"
    "eviction_fields (oftables br ! t) = Some sfs \<Longrightarrow> br' = br"
    "eviction_fields (oftables br ! t) \<noteq> Some sfs \<Longrightarrow> groups_at br' t = {}"
    "\<And>u. u \<noteq> t \<Longrightarrow> groups_at br' u = groups_at br u"
    "\<And>u. u \<noteq> t \<Longrightarrow> u < length (oftables br) \<Longrightarrow> eviction_fields (oftables br' ! u) = eviction_fields (oftables br ! u)"
proof (cases "eviction_fields (oftables br ! t) = Some sfs")
  case True
  then have "ecall_oftable_enable_eviction br t sfs v nc = Some (True, br)"
    using assms(2) by (simp add: ecall_oftable_enable_eviction_def get_table_def)
  then show thesis using that [of True br] assms True by simp
next
  case False
  obtain b1 where 1: "ecall_oftable_disable_eviction br t = Some b1" "evg_inv b1" "evg_frame br b1"
    "eviction_fields (oftables b1 ! t) = None" "\<And>u. u \<noteq> t \<Longrightarrow> groups_at b1 u = groups_at br u"
    "\<And>u. u \<noteq> t \<Longrightarrow> u < length (oftables br) \<Longrightarrow> eviction_fields (oftables b1 ! u) = eviction_fields (oftables br ! u)"
    using disable_eviction_ok [OF assms] by metis
  have t1: "t < length (oftables b1)" using 1(3) assms(2) by (simp add: evg_frame_def)
  define tb where "tb = (oftables b1 ! t)\<lparr>eviction_fields := Some sfs, eviction_group_id_basis := v,
     eviction_groups_by_id := hmap_init, eviction_groups_by_size := heap_init_ovs\<rparr>"
  have g: "groups tb = {}" "groups_at b1 t = {}" using 1(4) by (simp_all add: groups_def tb_def)
  have e: "ecall_oftable_enable_eviction br t sfs v nc = Some (nc, put_table b1 t tb)"
    using assms(2) False 1(1) t1 by (simp add: ecall_oftable_enable_eviction_def get_table_def tb_def)
  have ok: "table_groups_ok (size_nodes b1) tb"
    using g(1) heap_empty_inv by (simp add: table_groups_ok_def tb_def)
  have inv: "evg_inv (put_table b1 t tb)" by (rule evg_inv_put [OF 1(2) t1 _ ok]) (simp add: g)
  have f: "evg_frame br (put_table b1 t tb)" using 1(3) t1 by (auto simp: frame_defs nth_list_update tb_def)
  show thesis
    by (rule that [OF e inv f]) (use t1 False g 1(5,6) in \<open>simp_all add: tb_def\<close>)
qed

section \<open>Choosing a rule\<close>

abbreviation evictable_at :: "bridge \<Rightarrow> ptr \<Rightarrow> bool" where
  "evictable_at br r \<equiv> evictable (rstore br r)"

lemma group_rules_members: "group_ok br g \<Longrightarrow> group_rules br g = Some (members br g)"
  using HEAP_FOR_EACH_elems [of "(evg_rules (gstore br g), rule_nodes br)"]
  by (simp add: group_rules_def group_ok_def heap_inv_def members_def)

lemma choose_in_groups_ok:
  assumes "\<forall>g \<in> set gs. group_ok br g"
  shows "choose_in_groups br gs = Some (case find (\<lambda>g. \<exists>r \<in> set (members br g). evictable_at br r) gs of
      None \<Rightarrow> None
    | Some g \<Rightarrow> map_option (\<lambda>r. o_cls_rule (rstore br r)) (find (\<lambda>r. evictable_at br r) (members br g)))"
  using assms
proof (induction gs)
  case (Cons g gs)
  have g: "group_rules br g = Some (members br g)" using Cons.prems by (simp add: group_rules_members)
  show ?case
  proof (cases "find (\<lambda>r. evictable_at br r) (members br g)")
    case None
    then have "\<not> (\<exists>r \<in> set (members br g). evictable_at br r)" by (auto simp: find_None_iff)
    with None show ?thesis using Cons by (simp add: g)
  next
    case (Some r)
    then have "\<exists>r \<in> set (members br g). evictable_at br r" by (auto dest: find_SomeD)
    with Some show ?thesis by (simp add: g)
  qed
qed simp

lemma find_hd: "xs \<noteq> [] \<Longrightarrow> P (hd xs) \<Longrightarrow> find P xs = Some (hd xs)"
  by (cases xs) simp_all

lemma heap_elems_hd: "heap_n h > 0 \<Longrightarrow> hd (heap_elems h) = heap_max_ovs h"
  unfolding heap_elems_def heap_max_ovs_def by (subst upt_conv_Cons) (simp_all del: upt_Suc)

lemma heap_hd_max:
  assumes "heap_inv (h, nd)" and "x \<in> set (heap_elems h)"
  shows "hn_priority (nd x) \<le> hn_priority (nd (hd (heap_elems h)))" and "hd (heap_elems h) \<in> set (heap_elems h)"
proof -
  have n: "heap_n h > 0" using assms(2) heap_elems_length [of h] by (cases "heap_n h") auto
  then show "hn_priority (nd x) \<le> hn_priority (nd (hd (heap_elems h)))" "hd (heap_elems h) \<in> set (heap_elems h)"
    using heap_max_ok [of "(h, nd)"] assms by (simp_all add: heap_elems_hd)
qed

text \<open>The number of rules of a group as far as the heap by size sees it.\<close>

definition group_size :: "bridge \<Rightarrow> ptr \<Rightarrow> nat" where
  "group_size br g = min UINT16_MAX (length (members br g))"

lemma drop_bit_mono: "(a :: u32) \<le> b \<Longrightarrow> drop_bit k a \<le> drop_bit k b"
  unfolding word_le_nat_alt drop_bit_eq_div unat_div_distrib by (rule div_le_mono)

lemma sized_le:
  assumes "sized br a" and "sized br b" and "hn_priority (size_nodes br a) \<le> hn_priority (size_nodes br b)"
  shows "group_size br a \<le> group_size br b"
proof -
  have lt: "min UINT16_MAX n < 2 ^ LENGTH(32)" for n by (simp add: UINT16_MAX_def)
  have "(of_nat (group_size br a) :: u32) \<le> of_nat (group_size br b)"
    using drop_bit_mono [OF assms(3), of 16] assms(1,2) by (simp add: sized_def group_size_def)
  moreover have "unat (of_nat (group_size br x) :: u32) = group_size br x" for x
    unfolding unat_of_nat group_size_def by (rule mod_less [OF lt])
  ultimately show ?thesis unfolding word_le_nat_alt by simp
qed

lemma choose_rule_ok:
  assumes inv: "evg_inv br" and t: "t < length (oftables br)"
  shows "\<exists>res. ecall_choose_rule_to_evict br t = Some res \<and> (case res of
      None \<Rightarrow> \<forall>g \<in> groups_at br t. \<forall>r \<in> set (members br g). \<not> evictable_at br r
    | Some o_cr \<Rightarrow> \<exists>top \<in> groups_at br t. \<exists>g \<in> groups_at br t. \<exists>r \<in> set (members br g).
        evictable_at br r \<and> o_cr = o_cls_rule (rstore br r) \<and> (\<forall>x \<in> groups_at br t. group_size br x \<le> group_size br top)
        \<and> ((\<exists>q \<in> set (members br top). evictable_at br q) \<longrightarrow> g = top)
        \<and> (evictable_at br (hd (members br g)) \<longrightarrow> (\<forall>q \<in> set (members br g). hn_priority (rule_nodes br q) \<le> hn_priority (rule_nodes br r))))"
proof (cases "eviction_fields (oftables br ! t)")
  case None
  then show ?thesis using t by (simp add: ecall_choose_rule_to_evict_def get_table_def groups_def)
next
  case (Some sfs)
  let ?tb = "oftables br ! t" and ?gs = "heap_elems (eviction_groups_by_size (oftables br ! t))"
  let ?P = "\<lambda>g. \<exists>r \<in> set (members br g). evictable_at br r"
  have "table_groups_ok (size_nodes br) ?tb" using inv t by (simp add: evg_inv_but_def evg_tables_def)
  then have h: "heap_inv (eviction_groups_by_size ?tb, size_nodes br)" "set ?gs = groups ?tb"
    using Some by (simp_all add: table_groups_ok_def)
  have ok: "\<forall>g \<in> groups ?tb. group_ok br g \<and> sized br g" using inv t by (auto simp: evg_inv_but_def in_all_groups)
  have e: "ecall_choose_rule_to_evict br t = Some (case find ?P ?gs of None \<Rightarrow> None
      | Some g \<Rightarrow> map_option (\<lambda>r. o_cls_rule (rstore br r)) (find (\<lambda>r. evictable_at br r) (members br g)))"
    using choose_in_groups_ok [of ?gs br] h ok HEAP_FOR_EACH_elems [of "(eviction_groups_by_size ?tb, size_nodes br)"] Some t
    by (simp add: ecall_choose_rule_to_evict_def get_table_def heap_inv_def)
  show ?thesis
  proof (cases "find ?P ?gs")
    case None
    then have "\<forall>g \<in> groups ?tb. \<forall>r \<in> set (members br g). \<not> evictable_at br r" by (auto simp: find_None_iff h(2))
    then show ?thesis unfolding e None by simp
  next
    case (Some g)
    then have g: "g \<in> groups ?tb" "?P g" using find_SomeD [OF Some] h(2) by auto
    then obtain r where r: "find (\<lambda>r. evictable_at br r) (members br g) = Some r"
      by (cases "find (\<lambda>r. evictable_at br r) (members br g)") (auto simp: find_None_iff)
    have top: "hd ?gs \<in> groups ?tb" "\<forall>x \<in> groups ?tb. hn_priority (size_nodes br x) \<le> hn_priority (size_nodes br (hd ?gs))"
      using heap_hd_max [OF h(1)] g(1) h(2) by auto
    have "g = hd ?gs" if "?P (hd ?gs)" using find_hd [of ?gs ?P] that Some top(1) h(2) by fastforce
    moreover have "r = hd (members br g)" if "evictable_at br (hd (members br g))"
      using find_hd [of "members br g" "\<lambda>r. evictable_at br r"] that r g(2) by fastforce
    moreover have "hn_priority (rule_nodes br q) \<le> hn_priority (rule_nodes br (hd (members br g)))"
      if "q \<in> set (members br g)" for q
      using heap_hd_max(1) [of "evg_rules (gstore br g)" "rule_nodes br" q] ok g(1) that by (simp add: group_ok_def members_def)
    moreover have "\<forall>x \<in> groups ?tb. group_size br x \<le> group_size br (hd ?gs)" using sized_le ok top by blast
    ultimately show ?thesis
      unfolding e Some using find_SomeD [OF r] r g(1) top(1)
      by (simp add: bexI [of _ "hd ?gs"]) (metis (no_types, lifting))
  qed
qed

lemma choose_rule_some:
  assumes "evg_inv br" and "t < length (oftables br)"
  obtains "ecall_choose_rule_to_evict br t = Some None" "\<forall>g \<in> groups_at br t. \<forall>r \<in> set (members br g). \<not> evictable_at br r"
  | g r where "ecall_choose_rule_to_evict br t = Some (Some (o_cls_rule (rstore br r)))"
    "g \<in> groups_at br t" "r \<in> set (members br g)" "evictable_at br r"
proof -
  from choose_rule_ok [OF assms] obtain res where "ecall_choose_rule_to_evict br t = Some res"
    "case res of None \<Rightarrow> \<forall>g \<in> groups_at br t. \<forall>r \<in> set (members br g). \<not> evictable_at br r
     | Some o_cr \<Rightarrow> \<exists>g \<in> groups_at br t. \<exists>r \<in> set (members br g). evictable_at br r \<and> o_cr = o_cls_rule (rstore br r)"
    by (elim exE conjE) (rule that, assumption, simp split: option.splits, blast)
  then show thesis using that by (cases res) auto
qed

end
