(* ===== verification/Bridge.thy ===== *)
theory Bridge
  imports Eviction_Correct Ofproto
begin

text \<open>
  The invariant of a bridge (\<open>bridge_inv\<close>): a consistent registry, one correct classifier per table
  over disjoint sets of registered rules, consistent eviction groups, and the rules of the groups of
  a table are rules of that table. Every entry point that changes a bridge keeps it, provided that
  the untrusted side respects the protocol that the premises state: fresh addresses for new rules,
  addresses of registered rules elsewhere, and table ids in range.
\<close>

section \<open>Invariant\<close>

abbreviation rules_at :: "bridge \<Rightarrow> nat \<Rightarrow> ptr set" where
  "rules_at br t \<equiv> set (cls_rules (t_cls (oftables br ! t)))"

definition core_inv :: "bridge \<Rightarrow> bool" where
  "core_inv br \<longleftrightarrow> reg_inv br \<and> (\<forall>r \<in> registered br. rule_ok (rules_of br) r)
     \<and> nat (n_tables br) = length (oftables br) \<and> length (table_dpif br) = length (oftables br)
     \<and> (\<forall>t < length (oftables br). cls_inv (rules_of br) (t_cls (oftables br ! t)) \<and> rules_at br t \<subseteq> registered br
          \<and> (\<forall>u < length (oftables br). t \<noteq> u \<longrightarrow> rules_at br t \<inter> rules_at br u = {}))"

definition fields_inv :: "bridge \<Rightarrow> bool" where
  "fields_inv br \<longleftrightarrow> (\<forall>tb \<in> set (oftables br). fields_ok tb)"

text \<open>\<open>own_but X\<close>: a rule outside \<open>X\<close> that is in a group of a table is a rule of that table.\<close>

definition own_but :: "ptr set \<Rightarrow> bridge \<Rightarrow> bool" where
  "own_but X br \<longleftrightarrow> (\<forall>t < length (oftables br). \<forall>r < rnext br. \<forall>g \<in> groups_at br t.
     evict_group (rstore br r) = Some g \<longrightarrow> r \<notin> X \<longrightarrow> r \<in> rules_at br t)"

definition bridge_inv_but :: "ptr set \<Rightarrow> bridge \<Rightarrow> bool" where
  "bridge_inv_but X br \<longleftrightarrow> core_inv br \<and> fields_inv br \<and> evg_inv br \<and> own_but X br"

abbreviation bridge_inv :: "bridge \<Rightarrow> bool" where
  "bridge_inv \<equiv> bridge_inv_but {}"

section \<open>Classifiers and changes of the rule store\<close>

lemma ring_ok_cong:
  assumes "\<And>r. r \<in> set ring \<Longrightarrow> rs' r = rs r"
  shows "ring_ok rs' m ring = ring_ok rs m ring"
proof (cases "ring = []")
  case False
  then have h: "rs' (hd ring) = rs (hd ring)" using assms by simp
  have "sorted_wrt (\<lambda>a b. prio rs' b < prio rs' a) ring = sorted_wrt (\<lambda>a b. prio rs b < prio rs a) ring"
    using assms by (intro iffI; elim sorted_wrt_mono_rel [rotated]) simp_all
  then show ?thesis using assms h by (auto simp: ring_ok_def rule_ok_def)
qed (simp add: ring_ok_def)

lemma rings_inv_cong:
  assumes "\<And>ring r. ring \<in> set (hmap_elems h) \<Longrightarrow> r \<in> set ring \<Longrightarrow> rs' r = rs r"
    and "rings_inv rs m h"
  shows "rings_inv rs' m h"
proof -
  have ne: "ring \<noteq> []" if "ring \<in> set (hmap_elems h)" for ring using assms(2) that by (auto simp: rings_inv_def ring_ok_def)
  have hd: "rs' (hd ring) = rs (hd ring)" if "ring \<in> set (hmap_elems h)" for ring using assms(1) ne [OF that] that by simp
  have "fst nd = ring_hash rs' (snd nd)" if "nd \<in># hmap_nodes h" for nd
    using assms(2) that hd [of "snd nd"] by (auto simp: rings_inv_def ring_hash_def rule_node_hash_def set_hmap_elems)
  moreover have "map (\<lambda>ring. rule_flow rs' (hd ring)) (hmap_elems h) = map (\<lambda>ring. rule_flow rs (hd ring)) (hmap_elems h)"
    using hd by simp
  moreover have "ring_ok rs' m ring" if "ring \<in> set (hmap_elems h)" for ring
    using assms that ring_ok_cong [of ring rs' rs m] by (auto simp: rings_inv_def)
  ultimately show ?thesis using assms(2) unfolding rings_inv_def by metis
qed

lemma prio_ok_cong:
  assumes "\<And>r. r \<in># ms \<Longrightarrow> rs' r = rs r"
  shows "prio_ok rs' ms mp mc = prio_ok rs ms mp mc"
proof -
  have "{#r \<in># ms. prio rs' r = p#} = {#r \<in># ms. prio rs r = p#}" for p
    using assms by (intro filter_mset_cong) simp_all
  then show ?thesis using assms by (simp add: prio_ok_def prio_count_def)
qed

lemma cls_inv_cong:
  assumes "cls_inv rs c" and "\<And>r. r \<in> set (cls_rules c) \<Longrightarrow> rs' r = rs r"
  shows "cls_inv rs' c"
proof -
  have "table_inv rs' (tstore c t)" if t: "t \<in> set (hmap_elems (tables c))" for t
  proof -
    have a: "rs' r = rs r" if "r \<in> set (table_rules (tstore c t))" for r
      using assms(2) t that by (auto simp: cls_rules_def)
    have "table_inv rs (tstore c t)" using assms(1) t by (simp add: cls_inv_def)
    moreover have "rings_inv rs m (t_rules (tstore c t)) \<Longrightarrow> rings_inv rs' m (t_rules (tstore c t))" for m
      by (rule rings_inv_cong) (use a in \<open>auto simp: table_rules_def\<close>)
    moreover have "prio_ok rs' (mset (table_rules (tstore c t))) p k = prio_ok rs (mset (table_rules (tstore c t))) p k" for p k
      by (rule prio_ok_cong) (use a in simp)
    ultimately show ?thesis by (simp add: table_inv_def)
  qed
  then show ?thesis using assms(1) by (simp add: cls_inv_def)
qed

section \<open>Frames\<close>

lemma core_frame:
  assumes "core_inv br" and "evg_frame br br'"
  shows "core_inv br'"
proof -
  have rs: "rules_of br' = rules_of br" "\<And>r. o_cls_rule (rstore br' r) = o_cls_rule (rstore br r)"
    using assms(2) by (auto simp: frame_defs fun_eq_iff)
  have f: "reg br' = reg br" "rnext br' = rnext br" "n_tables br' = n_tables br" "table_dpif br' = table_dpif br"
    "length (oftables br') = length (oftables br)" using assms(2) by (simp_all add: evg_frame_def)
  have c: "t_cls (oftables br' ! t) = t_cls (oftables br ! t)" if "t < length (oftables br)" for t
    using assms(2) that by (simp add: frame_defs)
  show ?thesis using assms(1) unfolding core_inv_def reg_inv_def rs f by (simp add: c)
qed

lemma frame_rules_at: "evg_frame br br' \<Longrightarrow> t < length (oftables br) \<Longrightarrow> rules_at br' t = rules_at br t"
  by (simp add: frame_defs)

lemma same_fields_inv:
  assumes "fields_inv br" and "evg_frame br br'" and "same_fields br br'"
  shows "fields_inv br'"
  using assms by (auto simp: fields_inv_def fields_ok_def all_set_conv_all_nth evg_frame_def same_fields_def)

lemma core_cls: "core_inv br \<Longrightarrow> t < length (oftables br) \<Longrightarrow> cls_inv (rules_of br) (t_cls (oftables br ! t))"
  by (simp add: core_inv_def)

lemma core_registered: "core_inv br \<Longrightarrow> t < length (oftables br) \<Longrightarrow> r \<in> rules_at br t \<Longrightarrow> r \<in> registered br"
  by (auto simp: core_inv_def)

lemma core_less: "core_inv br \<Longrightarrow> r \<in> registered br \<Longrightarrow> r < rnext br"
  by (simp add: core_inv_def registered_less)

lemma core_unique: "core_inv br \<Longrightarrow> t < length (oftables br) \<Longrightarrow> u < length (oftables br)
    \<Longrightarrow> r \<in> rules_at br t \<Longrightarrow> r \<in> rules_at br u \<Longrightarrow> t = u"
  unfolding core_inv_def by blast

section \<open>Rules\<close>

text \<open>Registering a rule.\<close>

lemma bridge_rule_init:
  assumes "bridge_inv br" and "sgx_rule_from_ut_cr br o_cr = None" and "match_wf m" and "match_normal m"
  obtains br' where "ecall_cls_rule_init br o_cr m p = Some br'" "bridge_inv br'"
    "sgx_rule_from_ut_cr br' o_cr = Some (rnext br)" "rstore br' = (rstore br)(rnext br := new_rule o_cr m p)"
    "\<And>o'. ut_hash o' \<noteq> ut_hash o_cr \<Longrightarrow> sgx_rule_from_ut_cr br' o' = sgx_rule_from_ut_cr br o'"
    "oftables br' = oftables br" "registered br' = insert (rnext br) (registered br)" "rnext br' = rnext br + 1"
    "table_dpif br' = table_dpif br" "n_tables br' = n_tables br"
proof -
  have i: "core_inv br" "fields_inv br" "evg_inv br" "own_but {} br" using assms(1) by (simp_all add: bridge_inv_but_def)
  have ri: "reg_inv br" using i(1) by (simp add: core_inv_def)
  define r where "r = rnext br"
  obtain h where h: "ecall_cls_rule_init br o_cr m p = Some (br\<lparr>reg := h, rstore := (rstore br)(r := new_rule o_cr m p),
        rnext := r + 1, rule_nodes := (rule_nodes br)(r := \<lparr>idx = 0, hn_priority = 0\<rparr>)\<rparr>)"
      "hmap_unique h" "hmap_abs h = (hmap_abs (reg br))(ut_hash o_cr \<mapsto> r)" "set (hmap_elems h) = insert r (registered br)"
    using cls_rule_init_ok [OF ri assms(2), of m p] unfolding r_def by blast
  define br' where "br' = br\<lparr>reg := h, rstore := (rstore br)(r := new_rule o_cr m p),
        rnext := r + 1, rule_nodes := (rule_nodes br)(r := \<lparr>idx = 0, hn_priority = 0\<rparr>)\<rparr>"
  have s: "oftables br' = oftables br" "rstore br' = (rstore br)(r := new_rule o_cr m p)" "rnext br' = r + 1"
    "reg br' = h" "size_nodes br' = size_nodes br" "gstore br' = gstore br" "gnext br' = gnext br"
    "rule_nodes br' = (rule_nodes br)(r := \<lparr>idx = 0, hn_priority = 0\<rparr>)" "table_dpif br' = table_dpif br" "n_tables br' = n_tables br"
    by (simp_all add: br'_def)
  have fresh: "q \<noteq> r" if "q \<in> registered br" for q using that core_less [OF i(1)] by (auto simp: r_def)
  have ri': "reg_inv br'" by (rule cls_rule_init_reg_inv [OF ri h(2,3) [unfolded r_def]]) (simp_all add: s r_def)
  have rok: "rule_ok (rules_of br') q" if "q \<in> registered br'" for q
  proof (cases "q = r")
    case True
    then show ?thesis using assms(3,4)
      by (simp add: rule_ok_def s new_rule_def cls_rule_init_def minimatch_init_normal)
  next
    case False
    then show ?thesis using that i(1) by (auto simp: s h(4) core_inv_def rule_ok_def)
  qed
  have "cls_inv (rules_of br') (t_cls (oftables br ! t))" if "t < length (oftables br)" for t
    using core_registered [OF i(1) that] fresh by (intro cls_inv_cong [OF core_cls [OF i(1) that]]) (auto simp: s)
  then have core: "core_inv br'"
    using i(1) ri' rok unfolding core_inv_def s h(4) by auto
  have mem: "members br' = members br" by (simp add: members_def s fun_eq_iff)
  have ag: "all_groups br' = all_groups br" by (simp add: all_groups_def s)
  have gr: "group_ok br' g" if "g \<in> all_groups br" for g
  proof -
    have ok: "group_ok br g" using i(3) that by (simp add: evg_inv_but_def)
    then have n: "r \<notin> set (members br g)" by (auto simp: group_ok_def r_def)
    have "heap_inv (evg_rules (gstore br g), rule_nodes br')"
    proof (rule heap_inv_cong)
      show "heap_inv (evg_rules (gstore br g), rule_nodes br)" using ok by (simp add: group_ok_def)
      show "rule_nodes br' x = rule_nodes br x" if "x \<in> set (heap_elems (evg_rules (gstore br g)))" for x
        using that n by (auto simp: s members_def)
    qed
    then show ?thesis using ok n by (auto simp: group_ok_def mem s r_def)
  qed
  have "evg_back br'" using i(3) unfolding evg_inv_but_def evg_back_def ag mem by (auto simp: s new_rule_def r_def less_Suc_eq)
  then have evg: "evg_inv br'"
    using i(3) gr unfolding evg_inv_but_def ag sized_def mem evg_tables_def s by simp
  have own: "own_but {} br'" using i(4) by (auto simp: own_but_def s new_rule_def r_def less_Suc_eq)
  have fi: "fields_inv br'" using i(2) by (simp add: fields_inv_def s)
  show thesis
  proof (rule that [of br'])
    show "bridge_inv br'" using core fi evg own by (simp add: bridge_inv_but_def)
    show "ecall_cls_rule_init br o_cr m p = Some br'" using h(1) by (simp add: br'_def)
  qed (simp_all add: s h(3,4) find_rule_abs, simp_all add: r_def)
qed

text \<open>Forgetting a rule that no table holds.\<close>

lemma bridge_rule_destroy:
  assumes "bridge_inv br" and "sgx_rule_from_ut_cr br o_cr = Some r" and "\<And>t. t < length (oftables br) \<Longrightarrow> r \<notin> rules_at br t"
  obtains h where "ecall_cls_rule_destroy br o_cr = Some (br\<lparr>reg := h\<rparr>)" "bridge_inv (br\<lparr>reg := h\<rparr>)"
    "set (hmap_elems h) = registered br - {r}" "hmap_abs h = (hmap_abs (reg br))(ut_hash o_cr := None)"
proof -
  have i: "core_inv br" "fields_inv br" "evg_inv br" "own_but {} br" using assms(1) by (simp_all add: bridge_inv_but_def)
  have ri: "reg_inv br" using i(1) by (simp add: core_inv_def)
  obtain h where h: "ecall_cls_rule_destroy br o_cr = Some (br\<lparr>reg := h\<rparr>)" "reg_inv (br\<lparr>reg := h\<rparr>)"
    "hmap_abs h = (hmap_abs (reg br))(ut_hash o_cr := None)" "set (hmap_elems h) = registered br - {r}"
    using cls_rule_destroy_ok [OF ri assms(2)] by blast
  have "core_inv (br\<lparr>reg := h\<rparr>)" using i(1) h(2,4) assms(3) by (auto simp: core_inv_def)
  moreover have "evg_inv (br\<lparr>reg := h\<rparr>) = evg_inv br"
    by (simp add: evg_inv_but_def evg_tables_def evg_back_def all_groups_def group_ok_def members_def sized_def)
  ultimately have "bridge_inv (br\<lparr>reg := h\<rparr>)" using i by (simp add: bridge_inv_but_def fields_inv_def own_but_def)
  with h that show thesis by blast
qed

section \<open>Classifiers of the tables\<close>

lemma bridge_put_cls:
  assumes "bridge_inv_but X br" and "t < length (oftables br)" and "cls_inv (rules_of br) c"
    and "set (cls_rules c) \<subseteq> registered br"
    and "\<And>u. u < length (oftables br) \<Longrightarrow> u \<noteq> t \<Longrightarrow> set (cls_rules c) \<inter> rules_at br u = {}"
  shows "bridge_inv_but (X \<union> (rules_at br t - set (cls_rules c))) (put_table br t ((oftables br ! t)\<lparr>t_cls := c\<rparr>))"
proof -
  let ?tb = "(oftables br ! t)\<lparr>t_cls := c\<rparr>" and ?br = "put_table br t ((oftables br ! t)\<lparr>t_cls := c\<rparr>)"
  have i: "core_inv br" "fields_inv br" "evg_inv br" "own_but X br" using assms(1) by (simp_all add: bridge_inv_but_def)
  have g: "groups ?tb = groups_at br t" by (simp add: groups_def)
  have at: "oftables ?br ! u = (if u = t then ?tb else oftables br ! u)" for u using assms(2) by (simp add: nth_list_update)
  have "core_inv ?br"
    using i(1) assms(2-5) unfolding core_inv_def reg_inv_def put_table_simps(2-6) at by (auto simp: Int_commute)
  moreover have "fields_inv ?br" using i(2) assms(2)
    by (auto simp: fields_inv_def fields_ok_def all_set_conv_all_nth nth_list_update)
  moreover have "evg_inv ?br"
  proof (rule evg_inv_put [OF i(3) assms(2) g])
    show "table_groups_ok (size_nodes br) ?tb"
      using i(3) assms(2) g by (simp add: evg_inv_but_def evg_tables_def table_groups_ok_def)
  qed
  moreover have "own_but (X \<union> (rules_at br t - set (cls_rules c))) ?br"
    using i(4) unfolding own_but_def put_table_simps(2-6) at by (auto simp: g)
  ultimately show ?thesis by (simp add: bridge_inv_but_def)
qed

lemma bridge_forget:
  assumes "bridge_inv_but X br" and "\<And>r. r \<in> X \<Longrightarrow> evict_group (rstore br r) = None"
  shows "bridge_inv br"
  using assms unfolding bridge_inv_but_def own_but_def by (metis option.distinct(1))

text \<open>Putting a registered rule that is in no table into table \<open>t\<close>.\<close>

lemma bridge_replace:
  assumes "bridge_inv br" and t: "t < length (oftables br)" and r: "sgx_rule_from_ut_cr br o_cr = Some r"
    and fresh: "\<And>u. u < length (oftables br) \<Longrightarrow> r \<notin> rules_at br u"
  obtains c old where "classifier_replace (rules_of br) (t_cls (oftables br ! t)) r = Some (c, old)"
    "ecall_oftable_classifier_replace br t o_cr = Some (map_option (\<lambda>q. o_cls_rule (rstore br q)) old,
       put_table br t ((oftables br ! t)\<lparr>t_cls := c\<rparr>))"
    "bridge_inv_but (set_option old) (put_table br t ((oftables br ! t)\<lparr>t_cls := c\<rparr>))"
    "set (cls_rules c) = insert r (rules_at br t - set_option old)"
    "cls_abs (rules_of br) c = (cls_abs (rules_of br) (t_cls (oftables br ! t)))(rules_of br r \<mapsto> r)"
    "old = cls_abs (rules_of br) (t_cls (oftables br ! t)) (rules_of br r)" "set_option old \<subseteq> rules_at br t"
    "classifier_count c = classifier_count (t_cls (oftables br ! t)) + (if old = None then 1 else 0)"
proof -
  let ?cls = "t_cls (oftables br ! t)"
  have i: "core_inv br" using assms(1) by (simp add: bridge_inv_but_def)
  have ci: "cls_inv (rules_of br) ?cls" by (rule core_cls [OF i t])
  have rr: "r \<in> registered br" using r i find_rule_iff by (auto simp: core_inv_def)
  then have rok: "rule_ok (rules_of br) r" using i by (simp add: core_inv_def)
  obtain c old where c: "classifier_replace (rules_of br) ?cls r = Some (c, old)" "cls_inv (rules_of br) c"
    "exchange r old (mset (cls_rules ?cls)) (mset (cls_rules c))"
    "\<forall>q. old = Some q \<longrightarrow> q \<in> set (cls_rules ?cls) \<and> rules_of br q = rules_of br r"
    by (rule replace_correct [OF ci rok])
  note ab = exchange_abs [OF ci c(2-4) fresh [OF t]]
  have q: "set_option old \<subseteq> rules_at br t" using c(4) by (cases old) auto
  have sc: "set (cls_rules c) = insert r (rules_at br t - set_option old)"
  proof (cases old)
    case None
    then show ?thesis using c(3) by (simp add: exchange_def flip: set_mset_mset)
  next
    case (Some q)
    have d: "distinct (cls_rules ?cls)" by (rule cls_rules_distinct [OF ci])
    then have "set_mset (mset (cls_rules ?cls) - {#q#}) = rules_at br t - {q}"
      by (metis distinct_remove1_removeAll mset_remove1 set_mset_mset set_removeAll)
    then show ?thesis using c(3) Some by (simp add: exchange_def flip: set_mset_mset)
  qed
  have "bridge_inv_but ({} \<union> (rules_at br t - set (cls_rules c))) (put_table br t ((oftables br ! t)\<lparr>t_cls := c\<rparr>))"
  proof (rule bridge_put_cls [OF assms(1) t c(2)])
    show "set (cls_rules c) \<subseteq> registered br" using sc rr core_registered [OF i t] by auto
    show "set (cls_rules c) \<inter> rules_at br u = {}" if "u < length (oftables br)" "u \<noteq> t" for u
      using sc fresh [OF that(1)] core_unique [OF i t that(1)] that(2) by auto
  qed
  moreover have "{} \<union> (rules_at br t - set (cls_rules c)) = set_option old" using sc q fresh [OF t] by auto
  ultimately have "bridge_inv_but (set_option old) (put_table br t ((oftables br ! t)\<lparr>t_cls := c\<rparr>))" by simp
  moreover have "ecall_oftable_classifier_replace br t o_cr = Some (map_option (\<lambda>q. o_cls_rule (rstore br q)) old,
       put_table br t ((oftables br ! t)\<lparr>t_cls := c\<rparr>))"
    using r t c(1) by (simp add: ecall_oftable_classifier_replace_def get_table_def)
  moreover have "classifier_count c = classifier_count ?cls + (if old = None then 1 else 0)"
    using exchange_size [OF c(3)] ci c(2) by (simp add: classifier_count_def cls_inv_def)
  ultimately show thesis using that c(1) sc ab q by blast
qed

text \<open>Taking a rule of table \<open>t\<close> out of it.\<close>

lemma bridge_cls_remove:
  assumes "bridge_inv br" and t: "t < length (oftables br)" and r: "sgx_rule_from_ut_cr br o_cr = Some r" "r \<in> rules_at br t"
  obtains c where "ecall_cls_remove br t o_cr = Some (put_table br t ((oftables br ! t)\<lparr>t_cls := c\<rparr>))"
    "bridge_inv_but {r} (put_table br t ((oftables br ! t)\<lparr>t_cls := c\<rparr>))" "set (cls_rules c) = rules_at br t - {r}"
    "cls_abs (rules_of br) c = (cls_abs (rules_of br) (t_cls (oftables br ! t)))(rules_of br r := None)"
    "classifier_count c = classifier_count (t_cls (oftables br ! t)) - 1"
    "classifier_remove (rules_of br) (t_cls (oftables br ! t)) r = Some c"
proof -
  let ?cls = "t_cls (oftables br ! t)"
  have i: "core_inv br" using assms(1) by (simp add: bridge_inv_but_def)
  have ci: "cls_inv (rules_of br) ?cls" by (rule core_cls [OF i t])
  obtain c where c: "classifier_remove (rules_of br) ?cls r = Some c" "cls_inv (rules_of br) c"
    "mset (cls_rules ?cls) = add_mset r (mset (cls_rules c))"
    by (rule remove_correct [OF ci r(2)])
  have "distinct (cls_rules ?cls) = distinct (r # cls_rules c)" using c(3) by (intro mset_eq_imp_distinct_iff) simp
  moreover have "set (cls_rules ?cls) = set (r # cls_rules c)" using c(3) by (intro mset_eq_setD) simp
  ultimately have sc: "set (cls_rules c) = rules_at br t - {r}" using cls_rules_distinct [OF ci] by auto
  have "bridge_inv_but ({} \<union> (rules_at br t - set (cls_rules c))) (put_table br t ((oftables br ! t)\<lparr>t_cls := c\<rparr>))"
  proof (rule bridge_put_cls [OF assms(1) t c(2)])
    show "set (cls_rules c) \<subseteq> registered br" using sc core_registered [OF i t] by auto
    show "set (cls_rules c) \<inter> rules_at br u = {}" if "u < length (oftables br)" "u \<noteq> t" for u
      using sc core_unique [OF i t that(1)] that(2) by auto
  qed
  moreover have "{} \<union> (rules_at br t - set (cls_rules c)) = {r}" using sc r(2) by auto
  moreover have "ecall_cls_remove br t o_cr = Some (put_table br t ((oftables br ! t)\<lparr>t_cls := c\<rparr>))"
    using r(1) t c(1) by (simp add: ecall_cls_remove_def get_table_def)
  moreover have "length (cls_rules ?cls) = length (r # cls_rules c)" using c(3) by (intro mset_eq_length) simp
  then have "classifier_count c = classifier_count ?cls - 1" using ci c(2) by (simp add: classifier_count_def cls_inv_def)
  ultimately show thesis using that sc remove_abs [OF ci c(2,3)] c(1) by simp
qed

section \<open>Rules and groups\<close>

lemma bridge_own_group:
  assumes "bridge_inv br" and "t < length (oftables br)" and "r \<in> rules_at br t" and "evict_group (rstore br r) = Some g"
  shows "g \<in> groups_at br t"
proof -
  have i: "core_inv br" "evg_inv br" "own_but {} br" using assms(1) by (simp_all add: bridge_inv_but_def)
  have r: "r < rnext br" using core_less core_registered i(1) assms(2,3) by blast
  then have "g \<in> all_groups br" using i(2) assms(4) by (simp add: evg_inv_but_def evg_back_def)
  then obtain u where u: "u < length (oftables br)" "g \<in> groups_at br u" by (auto simp: in_all_groups)
  then have "r \<in> rules_at br u" using i(3) r assms(4) by (auto simp: own_but_def)
  then show ?thesis using core_unique [OF i(1) u(1) assms(2) _ assms(3)] u(2) by simp
qed

lemma bridge_evg_remove:
  assumes "bridge_inv_but X br" and t: "t < length (oftables br)" and r: "sgx_rule_from_ut_cr br o_cr = Some r"
    and own: "\<forall>g. evict_group (rstore br r) = Some g \<longrightarrow> g \<in> groups_at br t"
  obtains br' where "ecall_evg_remove_rule br t o_cr = Some br'" "bridge_inv_but (X - {r}) br'" "evg_frame br br'" "same_fields br br'"
    "\<And>q. evict_group (rstore br' q) = (if q = r then None else evict_group (rstore br q))"
proof -
  have i: "core_inv br" "fields_inv br" "evg_inv br" "own_but X br" using assms(1) by (simp_all add: bridge_inv_but_def)
  have rl: "r < rnext br" using r i(1) find_rule_iff core_less by (auto simp: core_inv_def)
  obtain br' where b: "ecall_evg_remove_rule br t o_cr = Some br'" "evg_inv br'" "evg_frame br br'" "same_fields br br'"
    "\<And>q. evict_group (rstore br' q) = (if q = r then None else evict_group (rstore br q))"
    "groups_at br' t \<subseteq> groups_at br t" "\<And>u. u \<noteq> t \<Longrightarrow> groups_at br' u = groups_at br u"
    using evg_remove_rule_ok [OF i(3) t r rl own] by metis
  have sub: "groups_at br' u \<subseteq> groups_at br u" for u using b(6,7) by (cases "u = t") auto
  have fr: "length (oftables br') = length (oftables br)" "rnext br' = rnext br" using b(3) by (simp_all add: evg_frame_def)
  have "own_but (X - {r}) br'"
    unfolding own_but_def fr
  proof (intro allI impI ballI)
    fix u q g
    assume a: "u < length (oftables br)" "q < rnext br" "g \<in> groups_at br' u" "evict_group (rstore br' q) = Some g" "q \<notin> X - {r}"
    then have "q \<noteq> r" "evict_group (rstore br q) = Some g" using b(5) by (auto split: if_splits)
    then have "q \<in> rules_at br u" using i(4) a sub [of u] by (auto simp: own_but_def)
    then show "q \<in> rules_at br' u" using frame_rules_at [OF b(3) a(1)] by simp
  qed
  then have "bridge_inv_but (X - {r}) br'"
    using core_frame [OF i(1) b(3)] same_fields_inv [OF i(2) b(3,4)] b(2) by (simp add: bridge_inv_but_def)
  with b that show thesis by blast
qed

lemma bridge_evg_add:
  assumes "bridge_inv br" and t: "t < length (oftables br)" and f: "eviction_fields (oftables br ! t) \<noteq> None"
    and r: "sgx_rule_from_ut_cr br o_cr = Some r" "r \<in> rules_at br t" "evict_group (rstore br r) = None"
    and junk: "length junk = sizeof_mf_value"
  obtains br' g where "ecall_evg_add_rule junk br t o_cr p rp node = Some br'" "bridge_inv br'" "evg_frame br br'"
    "same_fields br br'" "g \<in> groups_at br' t"
    "\<And>q. evict_group (rstore br' q) = (if q = r then Some g else evict_group (rstore br q))"
proof -
  have i: "core_inv br" "fields_inv br" "evg_inv br" "own_but {} br" using assms(1) by (simp_all add: bridge_inv_but_def)
  have rr: "r \<in> registered br" by (rule core_registered [OF i(1) t r(2)])
  have "miniflow_wf (mm_flow (cr_match (rules_of br r)))" using i(1) rr by (simp add: core_inv_def rule_ok_def minimatch_wf_def)
  moreover have "fields_ok (oftables br ! t)" using i(2) t by (simp add: fields_inv_def)
  ultimately obtain h where hash: "eviction_group_hash_rule junk (oftables br ! t) (rules_of br r) = Some h"
    using group_hash_defined [OF _ junk] by blast
  obtain br' g where b: "ecall_evg_add_rule junk br t o_cr p rp node = Some br'" "evg_inv br'" "evg_frame br br'"
    "same_fields br br'" "g \<in> groups_at br' t" "groups_at br t \<subseteq> groups_at br' t"
    "\<And>u. u \<noteq> t \<Longrightarrow> groups_at br' u = groups_at br u"
    "\<And>q. evict_group (rstore br' q) = (if q = r then Some g else evict_group (rstore br q))"
    using evg_add_rule_ok [OF i(3) t f r(1) core_less [OF i(1) rr] r(3) hash, of p rp node] by metis
  have fr: "length (oftables br') = length (oftables br)" "rnext br' = rnext br" using b(3) by (simp_all add: evg_frame_def)
  have "own_but {} br'"
    unfolding own_but_def fr
  proof (intro allI impI ballI)
    fix u q x
    assume a: "u < length (oftables br)" "q < rnext br" "x \<in> groups_at br' u" "evict_group (rstore br' q) = Some x"
    have "q \<in> rules_at br u"
    proof (cases "q = r")
      case True
      then have "u = t" using a b(5,8) fr(1) t groups_unique [OF b(2)] by simp
      then show ?thesis using True r(2) by simp
    next
      case False
      then have e: "evict_group (rstore br q) = Some x" using a(4) b(8) by simp
      then have "x \<in> all_groups br" using i(3) a(2) by (simp add: evg_inv_but_def evg_back_def)
      then obtain v where v: "v < length (oftables br)" "x \<in> groups_at br v" by (auto simp: in_all_groups)
      then have "x \<in> groups_at br' v" using b(6,7) by (cases "v = t") auto
      then have "v = u" using groups_unique [OF b(2)] fr(1) v(1) a(1,3) by simp
      then show ?thesis using v(2) e i(4) a(1,2) by (auto simp: own_but_def)
    qed
    then show "q \<in> rules_at br' u" using frame_rules_at [OF b(3) a(1)] by simp
  qed
  then have "bridge_inv br'"
    using core_frame [OF i(1) b(3)] same_fields_inv [OF i(2) b(3,4)] b(2) by (simp add: bridge_inv_but_def)
  with b that show thesis by blast
qed

text \<open>Taking a rule out of its table and of its group, as flow deletion, flushing and eviction do.\<close>

lemma bridge_take_out:
  assumes "bridge_inv br" and t: "t < length (oftables br)" and r: "sgx_rule_from_ut_cr br o_cr = Some r" "r \<in> rules_at br t"
  obtains b1 br' where "ecall_cls_remove br t o_cr = Some b1" "ecall_evg_remove_rule b1 t o_cr = Some br'" "bridge_inv br'"
    "rules_at br' t = rules_at br t - {r}" "\<And>u. u < length (oftables br) \<Longrightarrow> u \<noteq> t \<Longrightarrow> rules_at br' u = rules_at br u"
    "\<And>q. same_rule (rstore br q) (rstore br' q)" "reg br' = reg br" "length (oftables br') = length (oftables br)"
    "\<And>u. u < length (oftables br) \<Longrightarrow> flags (oftables br' ! u) = flags (oftables br ! u)"
    "n_tables br' = n_tables br" "evict_group (rstore br' r) = None"
    "\<And>u. u < length (oftables br) \<Longrightarrow> u \<noteq> t \<Longrightarrow> t_cls (oftables br' ! u) = t_cls (oftables br ! u)"
    "cls_abs (rules_of br) (t_cls (oftables br' ! t)) = (cls_abs (rules_of br) (t_cls (oftables br ! t)))(rules_of br r := None)"
proof -
  obtain c where c: "ecall_cls_remove br t o_cr = Some (put_table br t ((oftables br ! t)\<lparr>t_cls := c\<rparr>))"
    "bridge_inv_but {r} (put_table br t ((oftables br ! t)\<lparr>t_cls := c\<rparr>))" "set (cls_rules c) = rules_at br t - {r}"
    "cls_abs (rules_of br) c = (cls_abs (rules_of br) (t_cls (oftables br ! t)))(rules_of br r := None)"
    by (rule bridge_cls_remove [OF assms])
  define b1 where "b1 = put_table br t ((oftables br ! t)\<lparr>t_cls := c\<rparr>)"
  have g1: "groups_at b1 t = groups_at br t" using t by (simp add: b1_def groups_def)
  have o: "\<forall>g. evict_group (rstore b1 r) = Some g \<longrightarrow> g \<in> groups_at b1 t"
    using bridge_own_group [OF assms(1) t r(2)] unfolding g1 by (simp add: b1_def)
  have t1: "t < length (oftables b1)" and r1: "sgx_rule_from_ut_cr b1 o_cr = Some r" using t r(1) by (simp_all add: b1_def find_rule_abs)
  obtain br' where b: "ecall_evg_remove_rule b1 t o_cr = Some br'" "bridge_inv_but ({r} - {r}) br'" "evg_frame b1 br'" "same_fields b1 br'"
    "\<And>q. evict_group (rstore br' q) = (if q = r then None else evict_group (rstore b1 q))"
    using bridge_evg_remove [OF c(2) [folded b1_def] t1 r1 o] by metis
  have fl: "flags (oftables b1 ! u) = flags (oftables br ! u)" for u by (cases "u = t") (simp_all add: b1_def t)
  show thesis
  proof (rule that [OF c(1) [folded b1_def] b(1)])
    show "bridge_inv br'" using b(2) by simp
    show "same_rule (rstore br q) (rstore br' q)" for q using b(3) by (simp add: evg_frame_def b1_def)
    show "rules_at br' t = rules_at br t - {r}" using frame_rules_at [OF b(3) t1] c(3) t by (simp add: b1_def)
    show "rules_at br' u = rules_at br u" if "u < length (oftables br)" "u \<noteq> t" for u
      using frame_rules_at [OF b(3), of u] that by (simp add: b1_def)
    show "t_cls (oftables br' ! u) = t_cls (oftables br ! u)" if "u < length (oftables br)" "u \<noteq> t" for u
      using b(3) that by (simp add: frame_defs b1_def)
    show "flags (oftables br' ! u) = flags (oftables br ! u)" if "u < length (oftables br)" for u
      using b(3) that fl [of u] by (simp add: frame_defs b1_def)
    show "cls_abs (rules_of br) (t_cls (oftables br' ! t)) = (cls_abs (rules_of br) (t_cls (oftables br ! t)))(rules_of br r := None)"
      using b(3) t1 c(4) t by (simp add: frame_defs) (simp add: b1_def)
  qed (use b(3,5) in \<open>simp_all add: evg_frame_def b1_def\<close>)
qed

end
