(* ===== verification/Entry_Points.thy ===== *)
theory Entry_Points
  imports Bridge
begin

text \<open>
  What the entry points that change the flow tables do to a bridge that satisfies its invariant:
  deleting, removing and flushing rules, adding a flow with all its outcomes, and configuring a
  table. None of them faults, all of them keep the invariant.
\<close>

section \<open>Lists of rules in tables\<close>

text \<open>The caller names rules of the given tables, none of them twice.\<close>

definition in_table :: "bridge \<Rightarrow> nat \<Rightarrow> ut_ptr \<Rightarrow> bool" where
  "in_table br t o_cr \<longleftrightarrow> t < length (oftables br)
     \<and> (case sgx_rule_from_ut_cr br o_cr of None \<Rightarrow> False | Some r \<Rightarrow> r \<in> rules_at br t)"

definition listed :: "bridge \<Rightarrow> (nat \<times> ut_ptr) list \<Rightarrow> bool" where
  "listed br items \<longleftrightarrow> (\<forall>(t, o_cr) \<in> set items. in_table br t o_cr) \<and> distinct (map (\<lambda>(t, o_cr). ut_hash o_cr) items)"

lemma in_tableE:
  assumes "in_table br t o_cr"
  obtains r where "t < length (oftables br)" "sgx_rule_from_ut_cr br o_cr = Some r" "r \<in> rules_at br t"
  using assms by (auto simp: in_table_def split: option.splits)

lemma find_inj:
  "reg_inv br \<Longrightarrow> sgx_rule_from_ut_cr br a = Some r \<Longrightarrow> sgx_rule_from_ut_cr br b = Some r \<Longrightarrow> ut_hash a = ut_hash b"
  by (simp add: find_rule_iff)

lemma find_reg_cong: "reg br' = reg br \<Longrightarrow> sgx_rule_from_ut_cr br' = sgx_rule_from_ut_cr br"
  by (rule ext) (simp add: find_rule_abs)

text \<open>The rest of the list is still good after the first rule has been taken out.\<close>

lemma listed_tail:
  assumes "reg_inv br" and "listed br ((t, o_cr) # rest)" and "sgx_rule_from_ut_cr br o_cr = Some r"
    and "\<And>a. ut_hash a \<noteq> ut_hash o_cr \<Longrightarrow> sgx_rule_from_ut_cr br' a = sgx_rule_from_ut_cr br a"
    and "length (oftables br') = length (oftables br)"
    and "\<And>u. u < length (oftables br) \<Longrightarrow> rules_at br u - {r} \<subseteq> rules_at br' u"
  shows "listed br' rest"
proof -
  have "in_table br' u a" if a: "(u, a) \<in> set rest" for u a
  proof -
    have h: "ut_hash a \<noteq> ut_hash o_cr" using assms(2) a by (force simp: listed_def)
    obtain q where q: "u < length (oftables br)" "sgx_rule_from_ut_cr br a = Some q" "q \<in> rules_at br u"
      using assms(2) a by (force simp: listed_def elim!: in_tableE)
    have "q \<noteq> r" using find_inj [OF assms(1) q(2)] assms(3) h by blast
    then have "q \<in> rules_at br' u" using assms(6) [OF q(1)] q(3) by blast
    then show ?thesis using assms(4) [OF h] assms(5) q by (simp add: in_table_def)
  qed
  moreover have "distinct (map (\<lambda>(t, o_cr). ut_hash o_cr) rest)" using assms(2) by (simp add: listed_def)
  ultimately show ?thesis by (auto simp: listed_def)
qed

definition rule_of :: "bridge \<Rightarrow> ut_ptr \<Rightarrow> ptr" where
  "rule_of br o_cr = the (sgx_rule_from_ut_cr br o_cr)"

section \<open>Deleting flows\<close>

text \<open>What the caller gets for a deleted flow.\<close>

definition deleted_as :: "bridge \<Rightarrow> nat \<times> ut_ptr \<Rightarrow> deleted_flow" where
  "deleted_as br = (\<lambda>(t, o_cr). let cr = rules_of br (rule_of br o_cr) in
     \<lparr>df_is_hidden = unat (priority cr) > UINT16_MAX, df_match = minimatch_expand (cr_match cr),
      df_priority = priority cr, df_hash = cls_rule_hash cr (of_nat t)\<rparr>)"

lemma deleted_as_rule:
  "sgx_rule_from_ut_cr br o_cr = Some r \<Longrightarrow> deleted_as br (t, o_cr) =
     \<lparr>df_is_hidden = unat (prio (rules_of br) r) > UINT16_MAX, df_match = minimatch_expand (cr_match (rules_of br r)),
      df_priority = prio (rules_of br) r, df_hash = cls_rule_hash (rules_of br r) (of_nat t)\<rparr>"
  by (simp add: deleted_as_def rule_of_def Let_def)

lemma deleted_as_cong:
  "rule_of br' (snd x) = rule_of br (snd x) \<Longrightarrow> (\<And>q. s_cls_rule (rstore br' q) = s_cls_rule (rstore br q)) \<Longrightarrow>
   deleted_as br' x = deleted_as br x"
  by (simp add: deleted_as_def split_beta Let_def)

lemma delete_flows_ok:
  assumes "bridge_inv br" and "listed br items"
  shows "\<exists>br'. ecall_delete_flows br items = Some (map (deleted_as br) items, br') \<and> bridge_inv br'
    \<and> reg br' = reg br \<and> (\<forall>q. s_cls_rule (rstore br' q) = s_cls_rule (rstore br q)) \<and> length (oftables br') = length (oftables br)
    \<and> (\<forall>t < length (oftables br). rules_at br' t = rules_at br t - rule_of br ` snd ` set items)
    \<and> n_tables br' = n_tables br \<and> (\<forall>q. o_cls_rule (rstore br' q) = o_cls_rule (rstore br q))"
  using assms
proof (induction items arbitrary: br)
  case (Cons it rest)
  obtain t o_cr where it: "it = (t, o_cr)" by (cases it)
  have core: "core_inv br" and ri: "reg_inv br" using Cons.prems(1) by (simp_all add: bridge_inv_but_def core_inv_def)
  have "in_table br t o_cr" using Cons.prems(2) by (simp add: listed_def it)
  then obtain r where r: "t < length (oftables br)" "sgx_rule_from_ut_cr br o_cr = Some r" "r \<in> rules_at br t" by (rule in_tableE)
  let ?o = "o_cls_rule (rstore br r)"
  have rr: "r \<in> registered br" by (rule core_registered [OF core r(1,3)])
  have ro: "sgx_rule_from_ut_cr br ?o = Some r" by (rule find_registered [OF ri rr])
  obtain b1 b2 where b: "ecall_cls_remove br t ?o = Some b1" "ecall_evg_remove_rule b1 t ?o = Some b2" "bridge_inv b2"
    "rules_at b2 t = rules_at br t - {r}" "\<And>u. u < length (oftables br) \<Longrightarrow> u \<noteq> t \<Longrightarrow> rules_at b2 u = rules_at br u"
    "\<And>q. same_rule (rstore br q) (rstore b2 q)" "reg b2 = reg br" "length (oftables b2) = length (oftables br)" "n_tables b2 = n_tables br"
    using bridge_take_out [OF Cons.prems(1) r(1) ro r(3)] by metis
  have f: "sgx_rule_from_ut_cr b2 = sgx_rule_from_ut_cr br" by (rule find_reg_cong [OF b(7)])
  have rs: "s_cls_rule (rstore b2 q) = s_cls_rule (rstore br q)" for q using b(6) by (simp add: same_rule_def)
  have r0: "rule_of br o_cr = r" using r(2) by (simp add: rule_of_def)
  have ra: "rules_at b2 u = rules_at br u - {r}" if "u < length (oftables br)" for u
    using that b(4,5) core_unique [OF core that r(1) _ r(3)] by (cases "u = t") auto
  have "listed b2 rest"
  proof (rule listed_tail [OF ri _ r(2)])
    show "listed br ((t, o_cr) # rest)" using Cons.prems(2) by (simp add: it)
  qed (use f b(8) ra in auto)
  from Cons.IH [OF b(3) this] obtain br' where br': "ecall_delete_flows b2 rest = Some (map (deleted_as b2) rest, br')" "bridge_inv br'"
    "reg br' = reg b2" "\<forall>q. s_cls_rule (rstore br' q) = s_cls_rule (rstore b2 q)" "length (oftables br') = length (oftables b2)"
    "\<forall>t < length (oftables b2). rules_at br' t = rules_at b2 t - rule_of b2 ` snd ` set rest" "n_tables br' = n_tables b2" "\<forall>q. o_cls_rule (rstore br' q) = o_cls_rule (rstore b2 q)"
    by (elim exE conjE) (rule that)
  have ro2: "rule_of b2 = rule_of br" by (simp add: rule_of_def f fun_eq_iff)
  then have da: "deleted_as b2 = deleted_as br" using deleted_as_cong [OF _ rs] by (simp add: fun_eq_iff)
  have "ecall_delete_flows br (it # rest) = Some (map (deleted_as br) (it # rest), br')"
    using br'(1) r(2) ro b(1,2)
    by (simp add: it Let_def rule_is_hidden_def ecall_cr_priority_def ecall_minimatch_expand_def ecall_cls_rule_hash_def da
        deleted_as_rule [OF r(2)])
  moreover have "\<forall>t < length (oftables br). rules_at br' t = rules_at br t - rule_of br ` snd ` set (it # rest)"
    using br'(6) b(8) ra by (auto simp: ro2 it r0)
  ultimately show ?case using br' b(6-9) rs by (auto simp: same_rule_def)
qed (auto simp: listed_def)

lemma remove_rules_ok:
  assumes "bridge_inv br" and "listed br items"
  shows "\<exists>br'. ecall_oftable_remove_rules br items = Some (map (\<lambda>it. df_is_hidden (deleted_as br it)) items, br') \<and> bridge_inv br'
    \<and> registered br' = registered br - rule_of br ` snd ` set items \<and> (\<forall>q. s_cls_rule (rstore br' q) = s_cls_rule (rstore br q))
    \<and> length (oftables br') = length (oftables br)
    \<and> (\<forall>t < length (oftables br). rules_at br' t = rules_at br t - rule_of br ` snd ` set items)
    \<and> n_tables br' = n_tables br \<and> (\<forall>q. o_cls_rule (rstore br' q) = o_cls_rule (rstore br q))"
  using assms
proof (induction items arbitrary: br)
  case (Cons it rest)
  obtain t o_cr where it: "it = (t, o_cr)" by (cases it)
  have core: "core_inv br" and ri: "reg_inv br" using Cons.prems(1) by (simp_all add: bridge_inv_but_def core_inv_def)
  have "in_table br t o_cr" using Cons.prems(2) by (simp add: listed_def it)
  then obtain r where r: "t < length (oftables br)" "sgx_rule_from_ut_cr br o_cr = Some r" "r \<in> rules_at br t" by (rule in_tableE)
  obtain b1 b2 where b: "ecall_cls_remove br t o_cr = Some b1" "ecall_evg_remove_rule b1 t o_cr = Some b2" "bridge_inv b2"
    "rules_at b2 t = rules_at br t - {r}" "\<And>u. u < length (oftables br) \<Longrightarrow> u \<noteq> t \<Longrightarrow> rules_at b2 u = rules_at br u"
    "\<And>q. same_rule (rstore br q) (rstore b2 q)" "reg b2 = reg br" "length (oftables b2) = length (oftables br)" "n_tables b2 = n_tables br"
    using bridge_take_out [OF Cons.prems(1) r] by metis
  have f: "sgx_rule_from_ut_cr b2 = sgx_rule_from_ut_cr br" by (rule find_reg_cong [OF b(7)])
  have ra: "rules_at b2 u = rules_at br u - {r}" if "u < length (oftables br)" for u
    using that b(4,5) core_unique [OF core that r(1) _ r(3)] by (cases "u = t") auto
  obtain h where h: "ecall_cls_rule_destroy b2 o_cr = Some (b2\<lparr>reg := h\<rparr>)" "bridge_inv (b2\<lparr>reg := h\<rparr>)"
    "set (hmap_elems h) = registered b2 - {r}" "hmap_abs h = (hmap_abs (reg b2))(ut_hash o_cr := None)"
    by (rule bridge_rule_destroy [OF b(3), of o_cr r]) (use f r(2) ra b(8) in auto)
  let ?b = "b2\<lparr>reg := h\<rparr>"
  have rs: "s_cls_rule (rstore ?b q) = s_cls_rule (rstore br q)" for q using b(6) by (simp add: same_rule_def)
  have r0: "rule_of br o_cr = r" using r(2) by (simp add: rule_of_def)
  have fh: "sgx_rule_from_ut_cr ?b a = sgx_rule_from_ut_cr br a" if "ut_hash a \<noteq> ut_hash o_cr" for a
    using that h(4) f by (simp add: find_rule_abs b(7))
  have "listed ?b rest"
  proof (rule listed_tail [OF ri _ r(2)])
    show "listed br ((t, o_cr) # rest)" using Cons.prems(2) by (simp add: it)
  qed (use fh b(8) ra in auto)
  from Cons.IH [OF h(2) this] obtain br' where br':
    "ecall_oftable_remove_rules ?b rest = Some (map (\<lambda>it. df_is_hidden (deleted_as ?b it)) rest, br')" "bridge_inv br'"
    "registered br' = registered ?b - rule_of ?b ` snd ` set rest" "\<forall>q. s_cls_rule (rstore br' q) = s_cls_rule (rstore ?b q)" "length (oftables br') = length (oftables ?b)"
    "\<forall>t < length (oftables ?b). rules_at br' t = rules_at ?b t - rule_of ?b ` snd ` set rest" "n_tables br' = n_tables ?b" "\<forall>q. o_cls_rule (rstore br' q) = o_cls_rule (rstore ?b q)"
    by (elim exE conjE) (rule that)
  have ro: "rule_of ?b (snd x) = rule_of br (snd x)" if "x \<in> set rest" for x
    using that Cons.prems(2) fh [of "snd x"] by (force simp: rule_of_def listed_def it)
  then have "deleted_as ?b x = deleted_as br x" if "x \<in> set rest" for x
    using that deleted_as_cong [OF _ rs] by blast
  then have da: "map (\<lambda>it. df_is_hidden (deleted_as ?b it)) rest = map (\<lambda>it. df_is_hidden (deleted_as br it)) rest" by simp
  have im: "rule_of ?b ` snd ` set rest = rule_of br ` snd ` set rest" unfolding image_image by (rule image_cong) (use ro in auto)
  have "ecall_oftable_remove_rules br (it # rest) = Some (map (\<lambda>it. df_is_hidden (deleted_as br it)) (it # rest), br')"
    using br'(1) r(2) b(1,2) h(1)
    by (simp add: it rule_is_hidden_def ecall_cr_priority_def da deleted_as_rule [OF r(2)])
  moreover have "registered br' = registered br - rule_of br ` snd ` set (it # rest)"
    using br'(3) h(3) b(7) unfolding im by (auto simp: it r0)
  moreover have "\<forall>t < length (oftables br). rules_at br' t = rules_at br t - rule_of br ` snd ` set (it # rest)"
    using br'(6) b(8) ra unfolding im by (auto simp: it r0)
  ultimately show ?case using br' b(6,8,9) rs by (auto simp: same_rule_def)
qed (auto simp: listed_def)

section \<open>Flushing\<close>

definition flushed_as :: "bridge \<Rightarrow> nat \<Rightarrow> ut_ptr \<Rightarrow> ut_ptr \<times> u32" where
  "flushed_as br t o_cr = (o_cr, cls_rule_hash (rules_of br (rule_of br o_cr)) (of_nat t))"

text \<open>What flushing table \<open>t\<close> leaves alone.\<close>

definition flush_frame :: "nat \<Rightarrow> bridge \<Rightarrow> bridge \<Rightarrow> bool" where
  "flush_frame t br br' \<longleftrightarrow> reg br' = reg br \<and> n_tables br' = n_tables br \<and> length (oftables br') = length (oftables br)
     \<and> (\<forall>q. same_rule (rstore br q) (rstore br' q))
     \<and> (\<forall>u < length (oftables br). flags (oftables br' ! u) = flags (oftables br ! u)
          \<and> (u \<noteq> t \<longrightarrow> t_cls (oftables br' ! u) = t_cls (oftables br ! u)))"

lemma flush_frame_refl [simp]: "flush_frame t br br"
  by (simp add: flush_frame_def same_rule_def)

lemma flush_frame_trans: "flush_frame t a b \<Longrightarrow> flush_frame t b c \<Longrightarrow> flush_frame t a c"
  by (simp add: flush_frame_def same_rule_def)

lemma flush_frame_as:
  assumes "flush_frame t br br'"
  shows "flushed_as br' u = flushed_as br u" and "rule_of br' = rule_of br"
proof -
  show r: "rule_of br' = rule_of br" using assms find_reg_cong [of br' br] by (simp add: rule_of_def fun_eq_iff flush_frame_def)
  show "flushed_as br' u = flushed_as br u" using assms by (simp add: flushed_as_def r fun_eq_iff flush_frame_def same_rule_def)
qed

lemma flush_loop_full: "length acc \<ge> buf \<Longrightarrow> flush_loop buf t rs cnt acc br = Some (cnt + int (length rs), acc, br)"
  by (induction rs arbitrary: cnt) simp_all

lemma flush_loop_ok:
  assumes "bridge_inv br" and "listed br (map (Pair t) rs)" and "t < 256"
  shows "\<exists>br'. flush_loop buf t rs cnt acc br = Some (cnt + int (length rs), acc @ map (flushed_as br t) (take (buf - length acc) rs), br')
    \<and> bridge_inv br' \<and> flush_frame t br br'
    \<and> rules_at br' t = rules_at br t - rule_of br ` set (take (buf - length acc) rs)"
  using assms(1,2)
proof (induction rs arbitrary: br cnt acc)
  case Nil
  then show ?case by auto
next
  case (Cons o_cr rest)
  show ?case
  proof (cases "length acc \<ge> buf")
    case True
    then show ?thesis using Cons.prems(1) by (auto simp: flush_loop_full)
  next
    case False
    have core: "core_inv br" and ri: "reg_inv br" using Cons.prems(1) by (simp_all add: bridge_inv_but_def core_inv_def)
    have "in_table br t o_cr" using Cons.prems(2) by (simp add: listed_def)
    then obtain r where r: "t < length (oftables br)" "sgx_rule_from_ut_cr br o_cr = Some r" "r \<in> rules_at br t" by (rule in_tableE)
    obtain b1 b2 where b: "ecall_cls_remove br t o_cr = Some b1" "ecall_evg_remove_rule b1 t o_cr = Some b2" "bridge_inv b2"
      "rules_at b2 t = rules_at br t - {r}" "\<And>u. u < length (oftables br) \<Longrightarrow> u \<noteq> t \<Longrightarrow> t_cls (oftables b2 ! u) = t_cls (oftables br ! u)"
      "\<And>q. same_rule (rstore br q) (rstore b2 q)" "reg b2 = reg br" "length (oftables b2) = length (oftables br)"
      "\<And>u. u < length (oftables br) \<Longrightarrow> flags (oftables b2 ! u) = flags (oftables br ! u)" "n_tables b2 = n_tables br"
      using bridge_take_out [OF Cons.prems(1) r] by metis
    have fr: "flush_frame t br b2" using b(5-10) by (simp add: flush_frame_def)
    have f: "sgx_rule_from_ut_cr b2 = sgx_rule_from_ut_cr br" by (rule find_reg_cong [OF b(7)])
    have l: "listed b2 (map (Pair t) rest)"
    proof (rule listed_tail [OF ri _ r(2)])
      show "listed br ((t, o_cr) # map (Pair t) rest)" using Cons.prems(2) by simp
      show "rules_at br u - {r} \<subseteq> rules_at b2 u" if "u < length (oftables br)" for u
        using b(4) b(5) [OF that] by (cases "u = t") auto
    qed (use f b(8) in auto)
    let ?acc = "acc @ [flushed_as br t o_cr]"
    from Cons.IH [OF b(3) l, of "cnt + 1" ?acc] obtain br' where br':
      "flush_loop buf t rest (cnt + 1) ?acc b2 = Some (cnt + 1 + int (length rest), ?acc @ map (flushed_as b2 t) (take (buf - length ?acc) rest), br')"
      "bridge_inv br'" "flush_frame t b2 br'" "rules_at br' t = rules_at b2 t - rule_of b2 ` set (take (buf - length ?acc) rest)"
      by (elim exE conjE) (rule that)
    have r0: "rule_of br o_cr = r" using r(2) by (simp add: rule_of_def)
    have tk: "take (buf - length acc) (o_cr # rest) = o_cr # take (buf - length ?acc) rest"
      using False by (simp add: take_Cons' diff_Suc split: nat.split)
    have "flush_loop buf t (o_cr # rest) cnt acc br = flush_loop buf t rest (cnt + 1) ?acc b2"
      using False r(2) b(1,2) assms(3) by (simp add: ecall_cls_rule_hash_def flushed_as_def r0)
    then show ?thesis
      using br' b(4) flush_frame_trans [OF fr br'(3)] unfolding tk flush_frame_as [OF fr] by (auto simp: r0)
  qed
qed

lemma cursor_all:
  assumes "core_inv br" and "t < length (oftables br)"
  shows "CLS_CURSOR_FOR_EACH (rules_of br) (t_cls (oftables br ! t)) None = Some (cls_rules (t_cls (oftables br ! t)))"
  using cursor_loosely [OF core_cls [OF assms], of None] by (simp add: loosely_def)

definition ut_rules_at :: "bridge \<Rightarrow> nat \<Rightarrow> ut_ptr list" where
  "ut_rules_at br t = ut_rules br (cls_rules (t_cls (oftables br ! t)))"

lemma table_ut_rules_ok: "core_inv br \<Longrightarrow> t < length (oftables br) \<Longrightarrow> table_ut_rules br t = Some (ut_rules_at br t)"
  by (simp add: table_ut_rules_def get_table_def cursor_all ut_rules_at_def)

lemma rule_of_at:
  assumes "core_inv br" and "t < length (oftables br)"
  shows "rule_of br ` set (ut_rules_at br t) = rules_at br t"
proof -
  have "rule_of br (o_cls_rule (rstore br r)) = r" if "r \<in> rules_at br t" for r
    using find_registered core_registered [OF assms that] assms(1) by (simp add: rule_of_def core_inv_def)
  then show ?thesis by (auto simp: ut_rules_at_def ut_rules_def image_image)
qed

lemma listed_at:
  assumes "core_inv br" and "t < length (oftables br)"
  shows "listed br (map (Pair t) (ut_rules_at br t))"
proof -
  have ri: "reg_inv br" using assms(1) by (simp add: core_inv_def)
  have f: "sgx_rule_from_ut_cr br (o_cls_rule (rstore br r)) = Some r" if "r \<in> rules_at br t" for r
    using find_registered [OF ri core_registered [OF assms that]] .
  have "inj_on (\<lambda>r. ut_hash (o_cls_rule (rstore br r))) (rules_at br t)"
  proof (rule inj_onI)
    fix a b assume a: "a \<in> rules_at br t" and b: "b \<in> rules_at br t"
      and "ut_hash (o_cls_rule (rstore br a)) = ut_hash (o_cls_rule (rstore br b))"
    then show "a = b" using f [OF a] f [OF b] by (simp add: find_rule_abs)
  qed
  then have "distinct (map ut_hash (ut_rules_at br t))"
    using cls_rules_distinct [OF core_cls [OF assms]] by (simp add: ut_rules_at_def ut_rules_def distinct_map comp_def)
  then show ?thesis
    using assms(2) f by (auto simp: listed_def in_table_def ut_rules_at_def ut_rules_def comp_def)
qed

definition visible :: "bridge \<Rightarrow> nat \<Rightarrow> bool" where
  "visible br t \<longleftrightarrow> flags (oftables br ! t) AND OFTABLE_HIDDEN = 0"

text \<open>All that flushing the tables \<open>ts\<close> has to report.\<close>

definition to_flush :: "bridge \<Rightarrow> nat list \<Rightarrow> (ut_ptr \<times> u32) list" where
  "to_flush br ts = concat (map (\<lambda>t. map (flushed_as br t) (ut_rules_at br t)) (filter (visible br) ts))"

lemma to_flush_cong:
  assumes "flush_frame t br br'" and "t \<notin> set ts" and "\<forall>u \<in> set ts. u < length (oftables br)"
  shows "to_flush br' ts = to_flush br ts"
proof -
  have "visible br' u = visible br u" "ut_rules_at br' u = ut_rules_at br u" if "u \<in> set ts" for u
    using assms that by (auto simp: flush_frame_def visible_def ut_rules_at_def ut_rules_def same_rule_def)
  then show ?thesis unfolding to_flush_def flush_frame_as(1) [OF assms(1)]
    by (intro arg_cong [of _ _ concat] map_cong filter_cong) auto
qed

lemma flush_tables_ok:
  assumes "bridge_inv br" and "distinct ts" and "\<forall>t \<in> set ts. t < length (oftables br) \<and> t < 256"
  shows "\<exists>br'. flush_tables buf ts cnt acc br = Some (cnt + int (length (to_flush br ts)), acc @ take (buf - length acc) (to_flush br ts), br')
    \<and> bridge_inv br' \<and> reg br' = reg br \<and> length (oftables br') = length (oftables br) \<and> n_tables br' = n_tables br
    \<and> (\<forall>u < length (oftables br). u \<notin> set ts \<or> \<not> visible br u \<longrightarrow> t_cls (oftables br' ! u) = t_cls (oftables br ! u))
    \<and> (length (to_flush br ts) \<le> buf - length acc \<longrightarrow> (\<forall>t \<in> set ts. visible br t \<longrightarrow> rules_at br' t = {}))"
  using assms
proof (induction ts arbitrary: br cnt acc)
  case Nil
  then show ?case by (simp add: to_flush_def)
next
  case (Cons t ts)
  have t: "t < length (oftables br)" "t < 256" and core: "core_inv br" using Cons.prems by (simp_all add: bridge_inv_but_def)
  have gt: "get_table br t = Some (oftables br ! t)" using t(1) by (simp add: get_table_def)
  show ?case
  proof (cases "visible br t")
    case False
    then have "flush_tables buf (t # ts) cnt acc br = flush_tables buf ts cnt acc br" "to_flush br (t # ts) = to_flush br ts"
      by (simp_all add: gt visible_def to_flush_def)
    then show ?thesis using Cons.IH [OF Cons.prems(1), of cnt acc] Cons.prems(2,3) False by auto
  next
    case True
    let ?rs = "ut_rules_at br t"
    let ?f = "map (flushed_as br t) ?rs"
    obtain b where b: "flush_loop buf t ?rs cnt acc br = Some (cnt + int (length ?rs), acc @ map (flushed_as br t) (take (buf - length acc) ?rs), b)"
      "bridge_inv b" "flush_frame t br b" "rules_at b t = rules_at br t - rule_of br ` set (take (buf - length acc) ?rs)"
      using flush_loop_ok [OF Cons.prems(1) listed_at [OF core t(1)] t(2), of buf cnt acc] by (elim exE conjE) (rule that)
    let ?acc = "acc @ map (flushed_as br t) (take (buf - length acc) ?rs)"
    have fl: "length (oftables b) = length (oftables br)" "reg b = reg br" "n_tables b = n_tables br" using b(3) by (simp_all add: flush_frame_def)
    have p: "distinct ts" "\<forall>t \<in> set ts. t < length (oftables b) \<and> t < 256" "t \<notin> set ts" using Cons.prems fl(1) by auto
    have tf: "to_flush b ts = to_flush br ts" using Cons.prems(3) by (intro to_flush_cong [OF b(3) p(3)]) simp
    have tc: "to_flush br (t # ts) = ?f @ to_flush br ts" using True by (simp add: to_flush_def)
    from Cons.IH [OF b(2) p(1,2), of "cnt + int (length ?rs)" ?acc] obtain br' where br':
      "flush_tables buf ts (cnt + int (length ?rs)) ?acc b = Some (cnt + int (length ?rs) + int (length (to_flush b ts)),
         ?acc @ take (buf - length ?acc) (to_flush b ts), br')"
      "bridge_inv br'" "reg br' = reg b" "length (oftables br') = length (oftables b)" "n_tables br' = n_tables b"
      "\<forall>u < length (oftables b). u \<notin> set ts \<or> \<not> visible b u \<longrightarrow> t_cls (oftables br' ! u) = t_cls (oftables b ! u)"
      "length (to_flush b ts) \<le> buf - length ?acc \<longrightarrow> (\<forall>t \<in> set ts. visible b t \<longrightarrow> rules_at br' t = {})"
      by (elim exE conjE) (rule that)
    have vis: "visible b u = visible br u" if "u < length (oftables br)" for u using b(3) that by (simp add: flush_frame_def visible_def)
    have e: "flush_tables buf (t # ts) cnt acc br = flush_tables buf ts (cnt + int (length ?rs)) ?acc b"
      using gt True b(1) table_ut_rules_ok [OF core t(1)] by (simp add: visible_def)
    have tk: "?acc @ take (buf - length ?acc) (to_flush b ts) = acc @ take (buf - length acc) (to_flush br (t # ts))"
      unfolding tc tf by (simp add: take_map min_def)
    have keep: "t_cls (oftables br' ! u) = t_cls (oftables br ! u)"
      if "u < length (oftables br)" "u \<notin> set (t # ts) \<or> \<not> visible br u" for u
    proof -
      have "u \<noteq> t" using that(2) True by auto
      then show ?thesis using that b(3) br'(6) vis [OF that(1)] fl(1) by (auto simp: flush_frame_def)
    qed
    have empty: "rules_at br' u = {}" if "length (to_flush br (t # ts)) \<le> buf - length acc" "u \<in> set (t # ts)" "visible br u" for u
    proof -
      have l: "length ?rs + length (to_flush br ts) \<le> buf - length acc" using that(1) tc by simp
      have "rules_at b t = {}" using b(4) rule_of_at [OF core t(1)] l by simp
      moreover have "t_cls (oftables br' ! t) = t_cls (oftables b ! t)" using br'(6) t(1) p(3) fl(1) by simp
      moreover have "length (to_flush b ts) \<le> buf - length ?acc" using l tf by simp
      ultimately show ?thesis using that(2,3) br'(7) vis Cons.prems(3) by (cases "u = t") auto
    qed
    show ?thesis
      unfolding e br'(1) tk using br'(2-5) fl keep empty tf tc by (intro exI [of _ br']) auto
  qed
qed

section \<open>Evicting a rule for a new one\<close>

lemma set_evictable_fields [simp]:
  "oftables (set_evictable br r v) = oftables br" "reg (set_evictable br r v) = reg br" "rnext (set_evictable br r v) = rnext br"
  "members (set_evictable br r v) = members br" "group_size (set_evictable br r v) = group_size br"
  "evict_group (rstore (set_evictable br r v) q) = evict_group (rstore br q)"
  "o_cls_rule (rstore (set_evictable br r v) q) = o_cls_rule (rstore br q)"
  "s_cls_rule (rstore (set_evictable br r v) q) = s_cls_rule (rstore br q)"
  "evictable_at (set_evictable br r v) q = (if q = r then v else evictable_at br q)" "rule_nodes (set_evictable br r v) = rule_nodes br"
  by (simp_all add: set_evictable_def members_def fun_eq_iff group_size_def)

lemma set_evictable_evg [simp]: "evg_inv (set_evictable br r v) = evg_inv br"
proof -
  have "all_groups (set_evictable br r v) = all_groups br" by (simp add: all_groups_def)
  then show ?thesis
    by (simp add: evg_inv_but_def evg_tables_def evg_back_def group_ok_def sized_def) (simp add: set_evictable_def)
qed

lemma set_evictable_twice: "set_evictable (set_evictable br r v) r (evictable (rstore br r)) = br"
  by (simp add: set_evictable_def)

lemma choose_p_ok:
  assumes "bridge_inv br" and t: "t < length (oftables br)" and r: "sgx_rule_from_ut_cr br cr = Some r"
  obtains ev where "ecall_choose_rule_to_evict_p br t cr = Some (map_option (\<lambda>q. o_cls_rule (rstore br q)) ev, br)"
    "set_option ev \<subseteq> rules_at br t - {r}"
    "\<And>q. ev = Some q \<Longrightarrow> evictable_at br q \<and> (\<exists>g \<in> groups_at br t. q \<in> set (members br g))"
    "ev = None \<Longrightarrow> \<forall>g \<in> groups_at br t. \<forall>q \<in> set (members br g). q = r \<or> \<not> evictable_at br q"
proof -
  have i: "core_inv br" "evg_inv br" "own_but {} br" using assms(1) by (simp_all add: bridge_inv_but_def)
  let ?b = "set_evictable br r False"
  have p: "evg_inv ?b" "t < length (oftables ?b)" using t i(2) by simp_all
  have e: "ecall_choose_rule_to_evict_p br t cr = Some (res, br)" if "ecall_choose_rule_to_evict ?b t = Some res" for res
    using r that by (simp add: ecall_choose_rule_to_evict_p_def Let_def set_evictable_twice)
  show thesis
  proof (rule choose_rule_some [OF p])
    assume "ecall_choose_rule_to_evict ?b t = Some None" "\<forall>g \<in> groups_at ?b t. \<forall>q \<in> set (members ?b g). \<not> evictable_at ?b q"
    then show thesis using that [of None] e by (auto split: if_splits)
  next
    fix g q
    assume c: "ecall_choose_rule_to_evict ?b t = Some (Some (o_cls_rule (rstore ?b q)))"
      and q: "g \<in> groups_at ?b t" "q \<in> set (members ?b g)" "evictable_at ?b q"
    have "g \<in> all_groups br" using q(1) t by (auto simp: in_all_groups)
    then have "q < rnext br \<and> evict_group (rstore br q) = Some g" using i(2) q(2) by (simp add: evg_inv_but_def group_ok_def)
    then have "q \<in> rules_at br t" using i(3) t q(1) by (auto simp: own_but_def)
    then show thesis using that [of "Some q"] e [OF c] q by (auto split: if_splits)
  qed
qed

definition overflows :: "bridge \<Rightarrow> nat \<Rightarrow> bool" where
  "overflows br t \<longleftrightarrow> (of_int (classifier_count (t_cls (oftables br ! t))) :: u32) > max_flows (oftables br ! t)"

lemma add_flow_evict_ok:
  assumes "bridge_inv br" and t: "t < length (oftables br)" and r: "sgx_rule_from_ut_cr br cr = Some r"
  obtains ev h br' where "add_flow_evict br t cr out = Some (if overflows br t
      then out\<lparr>af_table_overflow := True, af_evict := map_option (\<lambda>q. o_cls_rule (rstore br q)) ev, af_evict_rule_hash := h\<rparr>
      else out, br')"
    "bridge_inv br'" "reg br' = reg br" "\<And>q. same_rule (rstore br q) (rstore br' q)" "length (oftables br') = length (oftables br)"
    "rules_at br' t = rules_at br t - set_option ev" "set_option ev \<subseteq> rules_at br t - {r}"
    "\<And>u. u < length (oftables br) \<Longrightarrow> u \<noteq> t \<Longrightarrow> rules_at br' u = rules_at br u"
    "\<And>q. ev = Some q \<Longrightarrow> overflows br t \<and> evictable_at br q \<and> (\<exists>g \<in> groups_at br t. q \<in> set (members br g))"
    "overflows br t \<Longrightarrow> ev = None \<Longrightarrow> \<forall>g \<in> groups_at br t. \<forall>q \<in> set (members br g). q = r \<or> \<not> evictable_at br q"
    "\<And>q. ev = Some q \<Longrightarrow> h = cls_rule_hash (rules_of br q) (of_nat t)" "ev = None \<Longrightarrow> h = af_evict_rule_hash out"
proof (cases "overflows br t")
  case False
  then have "add_flow_evict br t cr out = Some (out, br)"
    using t by (simp add: add_flow_evict_def ecall_oftable_cls_count_def ecall_oftable_mflows_def get_table_def overflows_def)
  then show thesis using that [where ev = None and h = "af_evict_rule_hash out" and br' = br] assms(1) False by (simp add: same_rule_def)
next
  case True
  obtain ev where ev: "ecall_choose_rule_to_evict_p br t cr = Some (map_option (\<lambda>q. o_cls_rule (rstore br q)) ev, br)"
    "set_option ev \<subseteq> rules_at br t - {r}"
    "\<And>q. ev = Some q \<Longrightarrow> evictable_at br q \<and> (\<exists>g \<in> groups_at br t. q \<in> set (members br g))"
    "ev = None \<Longrightarrow> \<forall>g \<in> groups_at br t. \<forall>q \<in> set (members br g). q = r \<or> \<not> evictable_at br q"
    using choose_p_ok [OF assms] by blast
  have c: "ecall_oftable_cls_count br t = Some (classifier_count (t_cls (oftables br ! t)))"
    "ecall_oftable_mflows br t = Some (max_flows (oftables br ! t))"
    using t by (simp_all add: ecall_oftable_cls_count_def ecall_oftable_mflows_def get_table_def)
  show thesis
  proof (cases ev)
    case None
    then have "add_flow_evict br t cr out = Some (out\<lparr>af_table_overflow := True, af_evict := None\<rparr>, br)"
      using True ev(1) by (simp add: add_flow_evict_def c overflows_def)
    then show thesis using that [where ev = None and h = "af_evict_rule_hash out" and br' = br] assms(1) True ev(4) None by (simp add: same_rule_def)
  next
    case (Some q)
    let ?e = "o_cls_rule (rstore br q)" and ?h = "cls_rule_hash (rules_of br q) (of_nat t)"
    have core: "core_inv br" using assms(1) by (simp add: bridge_inv_but_def)
    have q: "q \<in> rules_at br t" using ev(2) Some by simp
    have fq: "sgx_rule_from_ut_cr br ?e = Some q"
      using find_registered core_registered [OF core t q] core by (simp add: core_inv_def)
    obtain b1 b2 where b: "ecall_cls_remove br t ?e = Some b1" "ecall_evg_remove_rule b1 t ?e = Some b2" "bridge_inv b2"
      "rules_at b2 t = rules_at br t - {q}" "\<And>u. u < length (oftables br) \<Longrightarrow> u \<noteq> t \<Longrightarrow> rules_at b2 u = rules_at br u"
      "\<And>x. same_rule (rstore br x) (rstore b2 x)" "reg b2 = reg br" "length (oftables b2) = length (oftables br)"
      using bridge_take_out [OF assms(1) t fq q] by metis
    have "ecall_cls_rule_hash b2 ?e (of_nat t) = Some ?h"
      using fq find_reg_cong [OF b(7)] b(6) by (simp add: ecall_cls_rule_hash_def same_rule_def)
    then have e: "add_flow_evict br t cr out = Some (if overflows br t
        then out\<lparr>af_table_overflow := True, af_evict := map_option (\<lambda>q. o_cls_rule (rstore br q)) (Some q), af_evict_rule_hash := ?h\<rparr>
        else out, b2)"
      using True ev(1) Some b(1,2) by (simp add: add_flow_evict_def c overflows_def)
    show thesis
    proof (rule that [OF e b(3,7,6,8)])
      show "rules_at b2 t = rules_at br t - set_option (Some q)" "set_option (Some q) \<subseteq> rules_at br t - {r}"
        using b(4) ev(2) Some by simp_all
      show "rules_at b2 u = rules_at br u" if "u < length (oftables br)" "u \<noteq> t" for u by (rule b(5) [OF that])
    qed (use True ev(3) Some in simp_all)
  qed
qed

section \<open>Adding a flow\<close>

lemma frame_find: "evg_frame br br' \<Longrightarrow> sgx_rule_from_ut_cr br' = sgx_rule_from_ut_cr br"
  by (rule find_reg_cong) (simp add: evg_frame_def)

text \<open>Putting the rule into the table and the displaced rule out of its group.\<close>

lemma add_flow_replace:
  assumes "bridge_inv br" and t: "t < length (oftables br)" and r: "sgx_rule_from_ut_cr br cr = Some r"
    and fresh: "\<And>u. u < length (oftables br) \<Longrightarrow> r \<notin> rules_at br u"
  obtains old b1 b2 where "ecall_oftable_classifier_replace br t cr = Some (map_option (\<lambda>q. o_cls_rule (rstore br q)) old, b1)"
    "(case map_option (\<lambda>q. o_cls_rule (rstore br q)) old of None \<Rightarrow> Some b1 | Some v \<Rightarrow> ecall_evg_remove_rule b1 t v) = Some b2"
    "bridge_inv b2" "old = cls_abs (rules_of br) (t_cls (oftables br ! t)) (rules_of br r)"
    "rules_at b2 t = insert r (rules_at br t - set_option old)" "\<And>u. u < length (oftables br) \<Longrightarrow> u \<noteq> t \<Longrightarrow> rules_at b2 u = rules_at br u"
    "reg b2 = reg br" "\<And>q. same_rule (rstore br q) (rstore b2 q)" "length (oftables b2) = length (oftables br)"
    "evict_group (rstore b2 r) = evict_group (rstore br r)"
    "flags (oftables b2 ! t) = flags (oftables br ! t)" "max_flows (oftables b2 ! t) = max_flows (oftables br ! t)"
    "eviction_fields (oftables b2 ! t) = eviction_fields (oftables br ! t)"
    "classifier_count (t_cls (oftables b2 ! t)) = classifier_count (t_cls (oftables br ! t)) + (if old = None then 1 else 0)"
proof -
  obtain c old where c: "ecall_oftable_classifier_replace br t cr = Some (map_option (\<lambda>q. o_cls_rule (rstore br q)) old,
       put_table br t ((oftables br ! t)\<lparr>t_cls := c\<rparr>))"
    "bridge_inv_but (set_option old) (put_table br t ((oftables br ! t)\<lparr>t_cls := c\<rparr>))"
    "set (cls_rules c) = insert r (rules_at br t - set_option old)"
    "old = cls_abs (rules_of br) (t_cls (oftables br ! t)) (rules_of br r)" "set_option old \<subseteq> rules_at br t"
    "classifier_count c = classifier_count (t_cls (oftables br ! t)) + (if old = None then 1 else 0)"
    by (rule bridge_replace [OF assms])
  define b1 where "b1 = put_table br t ((oftables br ! t)\<lparr>t_cls := c\<rparr>)"
  have core: "core_inv br" using assms(1) by (simp add: bridge_inv_but_def)
  have t1: "t < length (oftables b1)" using t by (simp add: b1_def)
  have b1: "oftables b1 ! t = (oftables br ! t)\<lparr>t_cls := c\<rparr>" "reg b1 = reg br" "rstore b1 = rstore br"
    "length (oftables b1) = length (oftables br)" "\<And>u. u \<noteq> t \<Longrightarrow> oftables b1 ! u = oftables br ! u"
    using t by (simp_all add: b1_def)
  have "\<exists>b2. (case map_option (\<lambda>q. o_cls_rule (rstore br q)) old of None \<Rightarrow> Some b1 | Some v \<Rightarrow> ecall_evg_remove_rule b1 t v) = Some b2
      \<and> bridge_inv b2 \<and> evg_frame b1 b2 \<and> same_fields b1 b2 \<and> evict_group (rstore b2 r) = evict_group (rstore b1 r)"
  proof (cases old)
    case None
    then show ?thesis using c(2) by (auto simp: b1_def)
  next
    case (Some q)
    have q: "q \<in> rules_at br t" "q \<noteq> r" using c(5) Some fresh [OF t] by auto
    have "sgx_rule_from_ut_cr b1 (o_cls_rule (rstore br q)) = Some q"
      using find_registered core_registered [OF core t q(1)] core find_reg_cong [OF b1(2)] by (simp add: core_inv_def)
    moreover have "groups_at b1 t = groups_at br t" by (simp add: b1(1) groups_def)
    then have "\<forall>g. evict_group (rstore b1 q) = Some g \<longrightarrow> g \<in> groups_at b1 t"
      using bridge_own_group [OF assms(1) t q(1)] b1(3) by simp
    ultimately obtain b2 where "ecall_evg_remove_rule b1 t (o_cls_rule (rstore br q)) = Some b2" "bridge_inv_but (set_option old - {q}) b2"
      "evg_frame b1 b2" "same_fields b1 b2" "\<And>x. evict_group (rstore b2 x) = (if x = q then None else evict_group (rstore b1 x))"
      using bridge_evg_remove [OF c(2) [folded b1_def] t1] by metis
    then show ?thesis using Some q(2) by auto
  qed
  then obtain b2 where b2: "(case map_option (\<lambda>q. o_cls_rule (rstore br q)) old of None \<Rightarrow> Some b1 | Some v \<Rightarrow> ecall_evg_remove_rule b1 t v) = Some b2"
    "bridge_inv b2" "evg_frame b1 b2" "same_fields b1 b2" "evict_group (rstore b2 r) = evict_group (rstore b1 r)"
    by (elim exE conjE) (rule that)
  show thesis
  proof (rule that [OF c(1) [folded b1_def] b2(1,2) c(4)])
    show "rules_at b2 t = insert r (rules_at br t - set_option old)" using frame_rules_at [OF b2(3) t1] c(3) b1(1) by simp
    show "rules_at b2 u = rules_at br u" if "u < length (oftables br)" "u \<noteq> t" for u
      using frame_rules_at [OF b2(3), of u] that b1(4,5) by simp
    show "same_rule (rstore br q) (rstore b2 q)" for q using b2(3) b1(3) by (simp add: evg_frame_def)
    show "eviction_fields (oftables b2 ! t) = eviction_fields (oftables br ! t)" using b2(4) t1 b1(1) by (simp add: same_fields_def)
  qed (use b2(3,5) b1 t1 c(6) in \<open>simp_all add: frame_defs\<close>)
qed

text \<open>The table would exceed its limit with the new rule.\<close>

definition would_overflow :: "bridge \<Rightarrow> nat \<Rightarrow> cls_rule \<Rightarrow> bool" where
  "would_overflow br t k \<longleftrightarrow> (let c = t_cls (oftables br ! t) in
     (of_int (classifier_count c + (if cls_abs (rules_of br) c k = None then 1 else 0)) :: u32) > max_flows (oftables br ! t))"

lemma add_flow_insert_ok:
  assumes "bridge_inv br" and t: "t < length (oftables br)" and r: "sgx_rule_from_ut_cr br cr = Some r"
    and fresh: "\<And>u. u < length (oftables br) \<Longrightarrow> r \<notin> rules_at br u" and eg: "evict_group (rstore br r) = None"
    and ro: "flags (oftables br ! t) AND OFTABLE_READONLY = 0" and junk: "length junk = sizeof_mf_value"
  obtains old ev h br' where "add_flow_insert junk br t cr gp rp node timeout out =
      Some ((if would_overflow br t (rules_of br r)
        then out\<lparr>af_victim := map_option (\<lambda>q. o_cls_rule (rstore br q)) old, af_table_overflow := True,
               af_evict := map_option (\<lambda>q. o_cls_rule (rstore br q)) ev, af_evict_rule_hash := h\<rparr>
        else out\<lparr>af_victim := map_option (\<lambda>q. o_cls_rule (rstore br q)) old\<rparr>)
        \<lparr>af_vid := miniflow_get_vid (mm_flow (cr_match (rules_of br r))),
         af_vid_mask := minimask_get_vid_mask (mm_mask (cr_match (rules_of br r)))\<rparr>, br')"
    "bridge_inv br'" "reg br' = reg br" "\<And>q. same_rule (rstore br q) (rstore br' q)" "length (oftables br') = length (oftables br)"
    "old = cls_abs (rules_of br) (t_cls (oftables br ! t)) (rules_of br r)"
    "rules_at br' t = insert r (rules_at br t - set_option old - set_option ev)"
    "set_option ev \<subseteq> rules_at br t - set_option old" "ev \<noteq> None \<Longrightarrow> would_overflow br t (rules_of br r)"
    "\<And>u. u < length (oftables br) \<Longrightarrow> u \<noteq> t \<Longrightarrow> rules_at br' u = rules_at br u"
proof -
  obtain old b1 b2 where b2: "ecall_oftable_classifier_replace br t cr = Some (map_option (\<lambda>q. o_cls_rule (rstore br q)) old, b1)"
    "(case map_option (\<lambda>q. o_cls_rule (rstore br q)) old of None \<Rightarrow> Some b1 | Some v \<Rightarrow> ecall_evg_remove_rule b1 t v) = Some b2"
    "bridge_inv b2" "old = cls_abs (rules_of br) (t_cls (oftables br ! t)) (rules_of br r)"
    "rules_at b2 t = insert r (rules_at br t - set_option old)" "\<And>u. u < length (oftables br) \<Longrightarrow> u \<noteq> t \<Longrightarrow> rules_at b2 u = rules_at br u"
    "reg b2 = reg br" "\<And>q. same_rule (rstore br q) (rstore b2 q)" "length (oftables b2) = length (oftables br)"
    "evict_group (rstore b2 r) = evict_group (rstore br r)"
    "flags (oftables b2 ! t) = flags (oftables br ! t)" "max_flows (oftables b2 ! t) = max_flows (oftables br ! t)"
    "eviction_fields (oftables b2 ! t) = eviction_fields (oftables br ! t)"
    "classifier_count (t_cls (oftables b2 ! t)) = classifier_count (t_cls (oftables br ! t)) + (if old = None then 1 else 0)"
    using add_flow_replace [OF assms(1-3) fresh] by blast
  have t2: "t < length (oftables b2)" using t b2(9) by simp
  have r2: "sgx_rule_from_ut_cr b2 cr = Some r" using r find_reg_cong [OF b2(7)] by simp
  let ?en = "eviction_fields (oftables b2 ! t) \<noteq> None"
  have "\<exists>b3. (if ?en \<and> timeout then ecall_evg_add_rule junk b2 t cr gp rp node else Some b2) = Some b3 \<and> bridge_inv b3 \<and> evg_frame b2 b3"
  proof (cases "?en \<and> timeout")
    case True
    then have "?en" "r \<in> rules_at b2 t" "evict_group (rstore b2 r) = None" using b2(5,10) eg by auto
    from bridge_evg_add [OF b2(3) t2 this(1) r2 this(2,3) junk, of gp rp node]
    obtain b3 where "ecall_evg_add_rule junk b2 t cr gp rp node = Some b3" "bridge_inv b3" "evg_frame b2 b3" by metis
    then show ?thesis using True by simp
  qed (use b2(3) in auto)
  then obtain b3 where b3: "(if ?en \<and> timeout then ecall_evg_add_rule junk b2 t cr gp rp node else Some b2) = Some b3"
    "bridge_inv b3" "evg_frame b2 b3" by blast
  have t3: "t < length (oftables b3)" using t2 b3(3) by (simp add: evg_frame_def)
  have r3: "sgx_rule_from_ut_cr b3 cr = Some r" using r2 frame_find [OF b3(3)] by simp
  have tb3: "same_table (oftables b2 ! t) (oftables b3 ! t)" using b3(3) t2 by (simp add: evg_frame_def)
  have sr3: "same_rule (rstore br q) (rstore b3 q)" for q using b2(8) b3(3) by (simp add: evg_frame_def same_rule_def)
  have ov: "overflows b3 t = would_overflow br t (rules_of br r)"
    using tb3 b2(4,12,14) by (simp add: overflows_def would_overflow_def same_table_def Let_def)
  let ?out = "out\<lparr>af_victim := map_option (\<lambda>q. o_cls_rule (rstore br q)) old\<rparr>"
  obtain ev h b4 where b4: "add_flow_evict b3 t cr ?out = Some (if overflows b3 t
      then ?out\<lparr>af_table_overflow := True, af_evict := map_option (\<lambda>q. o_cls_rule (rstore b3 q)) ev, af_evict_rule_hash := h\<rparr>
      else ?out, b4)"
    "bridge_inv b4" "reg b4 = reg b3" "\<And>q. same_rule (rstore b3 q) (rstore b4 q)" "length (oftables b4) = length (oftables b3)"
    "rules_at b4 t = rules_at b3 t - set_option ev" "set_option ev \<subseteq> rules_at b3 t - {r}"
    "\<And>u. u < length (oftables b3) \<Longrightarrow> u \<noteq> t \<Longrightarrow> rules_at b4 u = rules_at b3 u"
    "\<And>q. ev = Some q \<Longrightarrow> overflows b3 t \<and> evictable_at b3 q \<and> (\<exists>g \<in> groups_at b3 t. q \<in> set (members b3 g))"
    by (rule add_flow_evict_ok [OF b3(2) t3 r3, of ?out]) (erule that; blast)
  have r4: "sgx_rule_from_ut_cr b4 cr = Some r" using r3 find_reg_cong [OF b4(3)] by simp
  have sr4: "same_rule (rstore br q) (rstore b4 q)" for q using sr3 b4(4) by (simp add: same_rule_def)
  have mo: "map_option (\<lambda>q. o_cls_rule (rstore b3 q)) ev = map_option (\<lambda>q. o_cls_rule (rstore br q)) ev"
    using sr3 by (simp add: same_rule_def)
  have vid: "ecall_miniflow_get_vid b4 cr = Some (miniflow_get_vid (mm_flow (cr_match (rules_of br r))))"
    "ecall_minimask_get_vid_mask b4 cr = Some (minimask_get_vid_mask (mm_mask (cr_match (rules_of br r))))"
    using r4 sr4 by (simp_all add: ecall_miniflow_get_vid_def ecall_minimask_get_vid_mask_def same_rule_def)
  have fl: "ecall_oftable_get_flags b3 t = Some (flags (oftables br ! t))" "ecall_is_eviction_fields_enabled b2 t = Some ?en"
    using t2 t3 tb3 b2(11) by (simp_all add: ecall_oftable_get_flags_def ecall_is_eviction_fields_enabled_def get_table_def same_table_def)
  have e: "add_flow_insert junk br t cr gp rp node timeout out =
      Some ((if would_overflow br t (rules_of br r)
        then out\<lparr>af_victim := map_option (\<lambda>q. o_cls_rule (rstore br q)) old, af_table_overflow := True,
               af_evict := map_option (\<lambda>q. o_cls_rule (rstore br q)) ev, af_evict_rule_hash := h\<rparr>
        else out\<lparr>af_victim := map_option (\<lambda>q. o_cls_rule (rstore br q)) old\<rparr>)
        \<lparr>af_vid := miniflow_get_vid (mm_flow (cr_match (rules_of br r))),
         af_vid_mask := minimask_get_vid_mask (mm_mask (cr_match (rules_of br r)))\<rparr>, b4)"
    unfolding add_flow_insert_def b2(1) Option.bind.simps prod.case Let_def b2(2) fl b3(1) b4(1) ov mo vid
    using ro by (simp add: vid)
  show thesis
  proof (rule that [OF e b4(2)])
    show "rules_at b4 t = insert r (rules_at br t - set_option old - set_option ev)" "set_option ev \<subseteq> rules_at br t - set_option old"
      using b4(6,7) frame_rules_at [OF b3(3) t2] b2(5) by auto
    show "ev \<noteq> None \<Longrightarrow> would_overflow br t (rules_of br r)" using b4(9) ov by (cases ev) auto
    show "rules_at b4 u = rules_at br u" if "u < length (oftables br)" "u \<noteq> t" for u
      using that b4(8) b2(6,9) frame_rules_at [OF b3(3), of u] b3(3) by (simp add: evg_frame_def)
  qed (use b4(3,5) b3(3) b2(4,7,9) sr4 in \<open>simp_all add: evg_frame_def\<close>)
qed

text \<open>After registration: the new rule is in no table, and nothing else has changed.\<close>

lemma cls_rule_equal_iff:
  "minimatch_wf (cr_match a) \<Longrightarrow> minimatch_wf (cr_match b) \<Longrightarrow> cls_rule_equal a b \<longleftrightarrow> b = a"
  by (cases a; cases b) (auto simp: cls_rule_equal_def minimatch_equal_iff)

lemma deletion_pending_ok:
  assumes "core_inv br" and "sgx_rule_from_ut_cr br cr = Some r" and "\<forall>q \<in> set pending. sgx_rule_from_ut_cr br q \<noteq> None"
  shows "deletion_pending br cr pending = Some (\<exists>q \<in> set pending. rules_of br (rule_of br q) = rules_of br r)"
proof -
  have ok: "minimatch_wf (cr_match (rules_of br x))" if "sgx_rule_from_ut_cr br a = Some x" for a x
  proof -
    have "reg_inv br" "\<forall>r \<in> registered br. rule_ok (rules_of br) r" using assms(1) by (simp_all add: core_inv_def)
    then show ?thesis using find_rule_iff [of br a x] that by (simp add: rule_ok_def)
  qed
  have e: "ecall_cls_rule_equal br cr a = Some (rules_of br (rule_of br a) = rules_of br r)"
    if a: "sgx_rule_from_ut_cr br a \<noteq> None" for a
  proof -
    obtain x where x: "sgx_rule_from_ut_cr br a = Some x" using a by blast
    then show ?thesis
      using cls_rule_equal_iff [OF ok [OF assms(2)] ok [OF x]] by (simp add: ecall_cls_rule_equal_def assms(2) rule_of_def)
  qed
  show ?thesis using assms(3)
  proof (induction pending)
    case (Cons q qs)
    then show ?case using e [of q] by simp
  qed simp
qed

definition unchanged :: "bridge \<Rightarrow> bridge \<Rightarrow> bool" where
  "unchanged br br' \<longleftrightarrow> oftables br' = oftables br \<and> sgx_rule_from_ut_cr br' = sgx_rule_from_ut_cr br
     \<and> (\<forall>r \<in> registered br. rstore br' r = rstore br r)"

text \<open>The new rule has the priority of a rule of the table and shares a packet with it.\<close>

definition overlapping :: "bridge \<Rightarrow> nat \<Rightarrow> cls_rule \<Rightarrow> bool" where
  "overlapping br t k \<longleftrightarrow> (\<exists>r \<in> rules_at br t. prio (rules_of br) r = priority k
     \<and> (\<exists>f. flow_wf f \<and> matches (cr_match k) f \<and> matches (cr_match (rules_of br r)) f))"

text \<open>A successful addition: the rule is registered and in the table; the rule with the same match and
  priority has been displaced; when the table would exceed its limit a rule other than the new one may
  have been evicted. Nothing else changes.\<close>

definition flow_added :: "bridge \<Rightarrow> nat \<Rightarrow> ut_ptr \<Rightarrow> cls_rule \<Rightarrow> add_flow_out \<Rightarrow> add_flow_out \<Rightarrow> bridge \<Rightarrow> bool" where
  "flow_added br t cr k out out' br' \<longleftrightarrow>
     (\<exists>r old ev. r \<notin> registered br \<and> registered br' = insert r (registered br)
        \<and> sgx_rule_from_ut_cr br' cr = Some r \<and> rules_of br' r = k \<and> o_cls_rule (rstore br' r) = cr
        \<and> old = cls_abs (rules_of br) (t_cls (oftables br ! t)) k
        \<and> af_victim out' = map_option (\<lambda>q. o_cls_rule (rstore br q)) old
        \<and> rules_at br' t = insert r (rules_at br t - set_option old - set_option ev)
        \<and> set_option ev \<subseteq> rules_at br t - set_option old
        \<and> (if would_overflow br t k
           then af_table_overflow out' \<and> af_evict out' = map_option (\<lambda>q. o_cls_rule (rstore br q)) ev
           else ev = None \<and> af_table_overflow out' = af_table_overflow out \<and> af_evict out' = af_evict out)
        \<and> af_vid out' = miniflow_get_vid (mm_flow (cr_match k)) \<and> af_vid_mask out' = minimask_get_vid_mask (mm_mask (cr_match k))
        \<and> (\<forall>u < length (oftables br). u \<noteq> t \<longrightarrow> rules_at br' u = rules_at br u)
        \<and> length (oftables br') = length (oftables br))"

lemma add_flow_fresh:
  assumes "bridge_inv br" and t: "t < length (oftables br)"
    and b0: "bridge_inv b0" "sgx_rule_from_ut_cr b0 cr = Some (rnext br)" "rstore b0 = (rstore br)(rnext br := new_rule cr m p)"
      "oftables b0 = oftables br" "registered b0 = insert (rnext br) (registered br)"
    and ro: "flags (oftables br ! t) AND OFTABLE_READONLY = 0" and junk: "length junk = sizeof_mf_value"
  shows "\<exists>out' br'. add_flow_insert junk b0 t cr gp rp node timeout out = Some (out', br') \<and> bridge_inv br'
    \<and> flow_added br t cr (cls_rule_init m p) out out' br'"
proof -
  let ?r = "rnext br" and ?k = "cls_rule_init m p"
  have core: "core_inv br" using assms(1) by (simp add: bridge_inv_but_def)
  have nr: "?r \<notin> registered br" using core_less [OF core] by blast
  have fresh: "?r \<notin> rules_at b0 u" if "u < length (oftables b0)" for u
    using that core_registered [OF core, of u ?r] nr b0(4) by auto
  have k: "rules_of b0 ?r = ?k" and eg: "evict_group (rstore b0 ?r) = None" by (simp_all add: b0(3) new_rule_def)
  have same: "rstore b0 q = rstore br q" if "q \<in> rules_at br t" for q
    using that core_registered [OF core t that] nr b0(3) by auto
  have ab: "cls_abs (rules_of b0) (t_cls (oftables br ! t)) = cls_abs (rules_of br) (t_cls (oftables br ! t))"
    by (rule cls_abs_cong) (simp add: same)
  have wo: "would_overflow b0 t ?k = would_overflow br t ?k" by (simp add: would_overflow_def b0(4) ab)
  have t0: "t < length (oftables b0)" and ro0: "flags (oftables b0 ! t) AND OFTABLE_READONLY = 0" using t ro b0(4) by simp_all
  obtain old ev h br' where e: "add_flow_insert junk b0 t cr gp rp node timeout out =
      Some ((if would_overflow b0 t (rules_of b0 ?r)
        then out\<lparr>af_victim := map_option (\<lambda>q. o_cls_rule (rstore b0 q)) old, af_table_overflow := True,
               af_evict := map_option (\<lambda>q. o_cls_rule (rstore b0 q)) ev, af_evict_rule_hash := h\<rparr>
        else out\<lparr>af_victim := map_option (\<lambda>q. o_cls_rule (rstore b0 q)) old\<rparr>)
        \<lparr>af_vid := miniflow_get_vid (mm_flow (cr_match (rules_of b0 ?r))),
         af_vid_mask := minimask_get_vid_mask (mm_mask (cr_match (rules_of b0 ?r)))\<rparr>, br')"
    "bridge_inv br'" "reg br' = reg b0" "\<And>q. same_rule (rstore b0 q) (rstore br' q)" "length (oftables br') = length (oftables b0)"
    "old = cls_abs (rules_of b0) (t_cls (oftables b0 ! t)) (rules_of b0 ?r)"
    "rules_at br' t = insert ?r (rules_at b0 t - set_option old - set_option ev)"
    "set_option ev \<subseteq> rules_at b0 t - set_option old" "ev \<noteq> None \<Longrightarrow> would_overflow b0 t (rules_of b0 ?r)"
    "\<And>u. u < length (oftables b0) \<Longrightarrow> u \<noteq> t \<Longrightarrow> rules_at br' u = rules_at b0 u"
    by (rule add_flow_insert_ok [OF b0(1) t0 b0(2) fresh eg ro0 junk, of gp rp node timeout out]) (assumption, (erule that; blast))
  have old: "old = cls_abs (rules_of br) (t_cls (oftables br ! t)) ?k" using e(6) unfolding b0(4) ab k .
  have "set_option old \<subseteq> rules_at br t" using cls_abs_iff [OF core_cls [OF core t]] old by (cases old) auto
  then have mo: "map_option (\<lambda>q. o_cls_rule (rstore b0 q)) old = map_option (\<lambda>q. o_cls_rule (rstore br q)) old"
    by (cases old) (simp_all add: same)
  have ve: "map_option (\<lambda>q. o_cls_rule (rstore b0 q)) ev = map_option (\<lambda>q. o_cls_rule (rstore br q)) ev"
    using e(8) b0(4) by (cases ev) (auto simp: same)
  have rb: "rules_of br' ?r = ?k \<and> o_cls_rule (rstore br' ?r) = cr"
    using e(4) [of ?r] k by (simp add: same_rule_def b0(3) new_rule_def)
  have fr: "sgx_rule_from_ut_cr br' cr = Some ?r" using find_reg_cong [OF e(3)] b0(2) by simp
  define out' where "out' = fst (the (add_flow_insert junk b0 t cr gp rp node timeout out))"
  have o: "add_flow_insert junk b0 t cr gp rp node timeout out = Some (out', br')"
    "af_victim out' = map_option (\<lambda>q. o_cls_rule (rstore br q)) old" "af_vid out' = miniflow_get_vid (mm_flow (cr_match ?k))"
    "af_vid_mask out' = minimask_get_vid_mask (mm_mask (cr_match ?k))"
    using mo by (simp_all add: out'_def e(1) k)
  have ov: "if would_overflow br t ?k then af_table_overflow out' \<and> af_evict out' = map_option (\<lambda>q. o_cls_rule (rstore br q)) ev
      else ev = None \<and> af_table_overflow out' = af_table_overflow out \<and> af_evict out' = af_evict out"
    using ve e(9) by (cases ev) (auto simp: out'_def e(1) k wo)
  have "registered br' = insert ?r (registered br)" using e(3) b0(5) by simp
  moreover have "rules_at br' t = insert ?r (rules_at br t - set_option old - set_option ev)"
    "set_option ev \<subseteq> rules_at br t - set_option old"
    "\<forall>u < length (oftables br). u \<noteq> t \<longrightarrow> rules_at br' u = rules_at br u"
    "length (oftables br') = length (oftables br)"
    using e(5,7,8,10) b0(4) by simp_all
  ultimately have "flow_added br t cr ?k out out' br'"
    unfolding flow_added_def using nr fr rb old o ov by blast
  then show ?thesis using o(1) e(2) by blast
qed

lemma add_flow_ok:
  assumes inv: "bridge_inv br" and t: "t < length (oftables br)" and new: "sgx_rule_from_ut_cr br cr = None"
    and m: "match_wf m" "match_normal m" and junk: "length junk = sizeof_mf_value"
    and pending: "\<forall>q \<in> set pending. sgx_rule_from_ut_cr br q \<noteq> None"
  shows "\<exists>out' br'. ecall_add_flow junk br t cr m p fl gp rp node pending timeout out = Some (out', br') \<and> bridge_inv br'
    \<and> (if flags (oftables br ! t) AND OFTABLE_READONLY \<noteq> 0 then out' = out\<lparr>af_is_read_only := True\<rparr> \<and> br' = br
       else if \<exists>q \<in> set pending. rules_of br (rule_of br q) = cls_rule_init m p
         then out' = out\<lparr>af_is_deletion_pending := True\<rparr> \<and> unchanged br br'
       else if fl AND OFPFF_CHECK_OVERLAP \<noteq> 0 \<and> overlapping br t (cls_rule_init m p)
         then out' = out\<lparr>af_is_rule_overlapping := True\<rparr> \<and> unchanged br br'
       else flow_added br t cr (cls_rule_init m p) out out' br')"
proof (cases "flags (oftables br ! t) AND OFTABLE_READONLY = 0")
  case False
  then show ?thesis using t inv by (simp add: ecall_add_flow_def ecall_oftable_is_readonly_def get_table_def)
next
  case True
  let ?r = "rnext br" and ?k = "cls_rule_init m p"
  have core: "core_inv br" using inv by (simp add: bridge_inv_but_def)
  then have ri: "reg_inv br" by (simp add: core_inv_def)
  obtain b0 where b0: "ecall_cls_rule_init br cr m p = Some b0" "bridge_inv b0" "sgx_rule_from_ut_cr b0 cr = Some ?r"
    "rstore b0 = (rstore br)(?r := new_rule cr m p)"
    "\<And>o'. ut_hash o' \<noteq> ut_hash cr \<Longrightarrow> sgx_rule_from_ut_cr b0 o' = sgx_rule_from_ut_cr br o'"
    "oftables b0 = oftables br" "registered b0 = insert ?r (registered br)"
    using bridge_rule_init [OF inv new m, of p] by metis
  have core0: "core_inv b0" using b0(2) by (simp add: bridge_inv_but_def)
  have nr: "?r \<notin> registered br" using core_less [OF core] by blast
  have hash: "ut_hash a \<noteq> ut_hash cr" if "sgx_rule_from_ut_cr br a \<noteq> None" for a using that new by (auto simp: find_rule_abs)
  have pend: "deletion_pending b0 cr pending = Some (\<exists>q \<in> set pending. rules_of br (rule_of br q) = ?k)"
  proof -
    have "rules_of b0 (rule_of b0 q) = rules_of br (rule_of br q)" if q: "q \<in> set pending" for q
    proof -
      obtain x where x: "sgx_rule_from_ut_cr br q = Some x" using pending q by blast
      then have "x \<noteq> ?r" using nr find_rule_iff [OF ri] by blast
      then show ?thesis using x b0(5) [OF hash [of q]] by (simp add: rule_of_def b0(4))
    qed
    moreover have "\<forall>q \<in> set pending. sgx_rule_from_ut_cr b0 q \<noteq> None" using pending b0(5) hash by auto
    moreover have "rules_of b0 ?r = ?k" by (simp add: b0(4) new_rule_def)
    ultimately show ?thesis using deletion_pending_ok [OF core0 b0(3)] by auto
  qed
  have nt: "?r \<notin> rules_at b0 u" if "u < length (oftables b0)" for u
    using that core_registered [OF core, of u ?r] nr b0(6) by auto
  have ovl: "ecall_cr_rule_overlaps b0 t cr = Some (overlapping br t ?k)"
  proof -
    have "classifier_rule_overlaps (rules_of b0) (t_cls (oftables b0 ! t)) ?k = overlapping b0 t ?k"
      using overlaps_iff [OF core_cls [OF core0, of t], of ?k] t b0(6) by (simp add: overlapping_def cls_rule_init_def)
    moreover have "rstore b0 q = rstore br q" if "q \<in> rules_at br t" for q
      using that core_registered [OF core t that] nr b0(4) by auto
    then have "overlapping b0 t ?k = overlapping br t ?k" by (simp add: overlapping_def b0(6))
    ultimately show ?thesis
      using t b0(3,6) by (simp add: ecall_cr_rule_overlaps_def get_table_def) (simp add: b0(4) new_rule_def)
  qed
  obtain h where h: "ecall_cls_rule_destroy b0 cr = Some (b0\<lparr>reg := h\<rparr>)" "bridge_inv (b0\<lparr>reg := h\<rparr>)"
    "hmap_abs h = (hmap_abs (reg b0))(ut_hash cr := None)"
    by (rule bridge_rule_destroy [OF b0(2,3)]) (use nt in auto)
  have "sgx_rule_from_ut_cr (b0\<lparr>reg := h\<rparr>) a = sgx_rule_from_ut_cr br a" for a
    using b0(5) [of a] new h(3) by (cases "ut_hash a = ut_hash cr") (simp_all add: find_rule_abs)
  then have un: "unchanged br (b0\<lparr>reg := h\<rparr>)" using nr by (auto simp: unchanged_def b0(4,6))
  obtain out' br' where ins: "add_flow_insert junk b0 t cr gp rp node timeout out = Some (out', br')" "bridge_inv br'"
    "flow_added br t cr ?k out out' br'"
    using add_flow_fresh [OF inv t b0(2-4,6,7) True junk] by blast
  have e: "ecall_add_flow junk br t cr m p fl gp rp node pending timeout out =
      (if \<exists>q \<in> set pending. rules_of br (rule_of br q) = ?k then Some (out\<lparr>af_is_deletion_pending := True\<rparr>, b0\<lparr>reg := h\<rparr>)
       else if fl AND OFPFF_CHECK_OVERLAP \<noteq> 0 \<and> overlapping br t ?k then Some (out\<lparr>af_is_rule_overlapping := True\<rparr>, b0\<lparr>reg := h\<rparr>)
       else Some (out', br'))"
    using True t b0(1) pend ovl h(1) ins(1) by (simp add: ecall_add_flow_def ecall_oftable_is_readonly_def get_table_def)
  show ?thesis unfolding e using True h(2) un ins(2,3) by simp
qed

section \<open>Attributes and eviction settings\<close>

text \<open>Changing the name, the flags or the limit of a table.\<close>

lemma bridge_put_attr:
  assumes "bridge_inv br" and "t < length (oftables br)" and "t_cls tb = t_cls (oftables br ! t)"
    and "eviction_fields tb = eviction_fields (oftables br ! t)"
    and "eviction_groups_by_id tb = eviction_groups_by_id (oftables br ! t)"
    and "eviction_groups_by_size tb = eviction_groups_by_size (oftables br ! t)"
  shows "bridge_inv (put_table br t tb)"
proof -
  let ?br = "put_table br t tb"
  have i: "core_inv br" "fields_inv br" "evg_inv br" "own_but {} br" using assms(1) by (simp_all add: bridge_inv_but_def)
  have g: "groups tb = groups_at br t" using assms(4,5) by (simp add: groups_def)
  have at: "t_cls (oftables ?br ! u) = t_cls (oftables br ! u)" "groups_at ?br u = groups_at br u" for u
    using assms(2,3) g by (cases "u = t"; simp)+
  have "core_inv ?br" using i(1) unfolding core_inv_def reg_inv_def put_table_simps(2-6) at by simp
  moreover have "fields_inv ?br" using i(2) assms(2,4) by (auto simp: fields_inv_def fields_ok_def all_set_conv_all_nth nth_list_update)
  moreover have "evg_inv ?br"
  proof (rule evg_inv_put [OF i(3) assms(2) g])
    show "table_groups_ok (size_nodes br) tb"
      using i(3) assms(2,4-6) g by (simp add: evg_inv_but_def evg_tables_def table_groups_ok_def)
  qed
  moreover have "own_but {} ?br" using i(4) unfolding own_but_def put_table_simps(2-6) at by simp
  ultimately show ?thesis by (simp add: bridge_inv_but_def)
qed

lemma bridge_disable:
  assumes "bridge_inv br" and t: "t < length (oftables br)"
  obtains br' where "ecall_oftable_disable_eviction br t = Some br'" "bridge_inv br'" "evg_frame br br'"
    "eviction_fields (oftables br' ! t) = None"
proof -
  have i: "core_inv br" "fields_inv br" "evg_inv br" "own_but {} br" using assms(1) by (simp_all add: bridge_inv_but_def)
  obtain br' where b: "ecall_oftable_disable_eviction br t = Some br'" "evg_inv br'" "evg_frame br br'"
    "eviction_fields (oftables br' ! t) = None" "\<And>u. u \<noteq> t \<Longrightarrow> groups_at br' u = groups_at br u"
    "\<And>u. u \<noteq> t \<Longrightarrow> u < length (oftables br) \<Longrightarrow> eviction_fields (oftables br' ! u) = eviction_fields (oftables br ! u)"
    "\<And>r. r < rnext br \<Longrightarrow> evict_group (rstore br' r) =
       (if evict_group (rstore br r) \<in> Some ` groups_at br t then None else evict_group (rstore br r))"
    by (rule disable_eviction_ok [OF i(3) t]) (erule that; blast)
  have fr: "length (oftables br') = length (oftables br)" "rnext br' = rnext br" using b(3) by (simp_all add: evg_frame_def)
  have "eviction_fields (oftables br' ! u) = (if u = t then None else eviction_fields (oftables br ! u))" if "u < length (oftables br)" for u
    using b(4,6) that by simp
  then have "fields_inv br'" using i(2) fr(1) by (simp add: fields_inv_def fields_ok_def all_set_conv_all_nth)
  moreover have "own_but {} br'"
    unfolding own_but_def fr
  proof (intro allI impI ballI)
    fix u q g
    assume a: "u < length (oftables br)" "q < rnext br" "g \<in> groups_at br' u" "evict_group (rstore br' q) = Some g"
    have "u \<noteq> t" using a(3) b(4) by (auto simp: groups_def)
    then have "g \<in> groups_at br u" "evict_group (rstore br q) = Some g" using a b(5,7) by (auto split: if_splits)
    then have "q \<in> rules_at br u" using i(4) a(1,2) by (auto simp: own_but_def)
    then show "q \<in> rules_at br' u" using frame_rules_at [OF b(3) a(1)] by simp
  qed
  ultimately have "bridge_inv br'" using core_frame [OF i(1) b(3)] b(2) by (simp add: bridge_inv_but_def)
  with b that show thesis by blast
qed

lemma bridge_enable:
  assumes "bridge_inv br" and t: "t < length (oftables br)" and sfs: "\<forall>sf \<in> set sfs. subfield_ok sf"
  obtains nc' br' where "ecall_oftable_enable_eviction br t sfs v nc = Some (nc', br')" "bridge_inv br'" "evg_frame br br'"
    "eviction_fields (oftables br' ! t) = Some sfs"
proof (cases "eviction_fields (oftables br ! t) = Some sfs")
  case True
  then have "ecall_oftable_enable_eviction br t sfs v nc = Some (True, br)"
    using t by (simp add: ecall_oftable_enable_eviction_def get_table_def)
  then show thesis using that assms(1) True by simp
next
  case False
  obtain b1 where b1: "ecall_oftable_disable_eviction br t = Some b1" "bridge_inv b1" "evg_frame br b1"
    "eviction_fields (oftables b1 ! t) = None"
    by (rule bridge_disable [OF assms(1) t])
  have i: "core_inv b1" "fields_inv b1" "evg_inv b1" "own_but {} b1" using b1(2) by (simp_all add: bridge_inv_but_def)
  have t1: "t < length (oftables b1)" using b1(3) t by (simp add: evg_frame_def)
  define tb where "tb = (oftables b1 ! t)\<lparr>eviction_fields := Some sfs, eviction_group_id_basis := v,
     eviction_groups_by_id := hmap_init, eviction_groups_by_size := heap_init_ovs\<rparr>"
  let ?b = "put_table b1 t tb"
  have g: "groups tb = groups_at b1 t" using b1(4) by (simp add: groups_def tb_def)
  have e: "ecall_oftable_enable_eviction br t sfs v nc = Some (nc, ?b)"
    using t False b1(1) t1 by (simp add: ecall_oftable_enable_eviction_def get_table_def tb_def)
  have at: "t_cls (oftables ?b ! u) = t_cls (oftables b1 ! u)" "groups_at ?b u = groups_at b1 u" for u
    using t1 g by (cases "u = t"; simp add: tb_def)+
  have "evg_inv ?b"
    by (rule evg_inv_put [OF i(3) t1 g]) (use heap_empty_inv g b1(4) in \<open>simp add: table_groups_ok_def tb_def groups_def\<close>)
  moreover have "core_inv ?b" using i(1) unfolding core_inv_def reg_inv_def put_table_simps(2-6) at by simp
  moreover have "fields_inv ?b"
    using i(2) t1 sfs by (auto simp: fields_inv_def fields_ok_def all_set_conv_all_nth nth_list_update tb_def)
  moreover have "own_but {} ?b" using i(4) unfolding own_but_def put_table_simps(2-6) at by simp
  ultimately have "bridge_inv ?b" by (simp add: bridge_inv_but_def)
  moreover have "evg_frame br ?b" using b1(3) t1 by (auto simp: frame_defs nth_list_update tb_def)
  ultimately show thesis using that [OF e] t1 by (simp add: tb_def)
qed

lemma bridge_set_name:
  assumes "bridge_inv br" and t: "t < length (oftables br)" and "ecall_oftable_set_name b br t nm = Some br'"
  shows "bridge_inv br' \<and> length (oftables br') = length (oftables br)"
proof -
  have "br' = br \<or> (\<exists>n. br' = put_table br t ((oftables br ! t)\<lparr>tname := n\<rparr>))"
    using assms(3) t by (auto simp: ecall_oftable_set_name_def get_table_def Let_def split: option.splits if_splits bind_splits)
  then show ?thesis using bridge_put_attr [OF assms(1) t] assms(1) by auto
qed

lemma bridge_configure:
  assumes "bridge_inv br" and t: "t < length (oftables br)"
    and "ecall_oftable_configure b br t nm mf gs need ro = Some (need', ro', br')"
  shows "bridge_inv br'"
proof -
  obtain b1 where b1: "ecall_oftable_set_name b br t nm = Some b1" using assms(3) by (auto simp: ecall_oftable_configure_def bind_eq_Some_conv)
  have i: "bridge_inv b1" "t < length (oftables b1)" using bridge_set_name [OF assms(1) t b1] t by simp_all
  obtain b2 where b2: "ecall_oftable_disable_eviction b1 t = Some b2" "bridge_inv b2" "evg_frame b1 b2"
    by (rule bridge_disable [OF i])
  have t2: "t < length (oftables b2)" using b2(3) i(2) by (simp add: evg_frame_def)
  have "br' = b1 \<or> br' = put_table b2 t ((oftables b2 ! t)\<lparr>max_flows := mf\<rparr>)"
    using assms(3) b1 b2(1) t2 by (auto simp: ecall_oftable_configure_def ecall_oftable_mflows_set_def get_table_def bind_eq_Some_conv split: if_splits)
  then show ?thesis using i(1) bridge_put_attr [OF b2(2) t2] by auto
qed

end
