(* ===== verification/Evict_Report.thy ===== *)
theory Evict_Report
  imports Entry_Points
begin

text \<open>
  \<open>ecall_ofproto_evict\<close> finds out which rules have to be evicted by taking them out of their groups one
  by one, and then puts them back. It does not touch a table: afterwards every table, the registry
  and the invariant are as before, and the same rules are in groups.
\<close>

section \<open>The rules taken out\<close>

text \<open>The rules \<open>R\<close> of table \<open>t\<close> have left their groups.\<close>

definition ungrouped :: "bridge \<Rightarrow> ptr set \<Rightarrow> bridge \<Rightarrow> bool" where
  "ungrouped br R br' \<longleftrightarrow> (\<forall>q. evict_group (rstore br' q) = (if q \<in> R then None else evict_group (rstore br q)))"

definition ev_ok :: "bridge \<Rightarrow> evicted \<Rightarrow> bool" where
  "ev_ok br ev \<longleftrightarrow> ev_table ev < length (oftables br) \<and> eviction_fields (oftables br ! ev_table ev) \<noteq> None
     \<and> (\<exists>r \<in> rules_at br (ev_table ev). sgx_rule_from_ut_cr br (ev_rule ev) = Some r \<and> ev_rule ev = o_cls_rule (rstore br r)
          \<and> ev_hash ev = cls_rule_hash (rules_of br r) (of_nat (ev_table ev)))"

definition ev_rules :: "bridge \<Rightarrow> evicted list \<Rightarrow> ptr list" where
  "ev_rules br evs = map (\<lambda>ev. rule_of br (ev_rule ev)) evs"

lemma ev_ok_frame:
  "evg_frame br br' \<Longrightarrow> same_fields br br' \<Longrightarrow> ev_ok br' ev = ev_ok br ev"
  using frame_find [of br br'] by (auto simp: ev_ok_def same_fields_def frame_defs)

lemma ev_rules_frame: "evg_frame br br' \<Longrightarrow> ev_rules br' evs = ev_rules br evs"
  using frame_find [of br br'] by (simp add: ev_rules_def rule_of_def)

lemma rule_of_frame: "evg_frame br br' \<Longrightarrow> rule_of br' = rule_of br"
  using frame_find [of br br'] by (simp add: rule_of_def fun_eq_iff)

text \<open>The rules of table \<open>t\<close> that may be evicted: those in a group that are not held back.\<close>

definition candidates :: "bridge \<Rightarrow> nat \<Rightarrow> ptr set" where
  "candidates br t = {r \<in> rules_at br t. evict_group (rstore br r) \<noteq> None \<and> evictable_at br r}"

lemma candidates_in_groups:
  assumes "bridge_inv br" and "t < length (oftables br)"
  shows "r \<in> candidates br t \<longleftrightarrow> (\<exists>g \<in> groups_at br t. r \<in> set (members br g)) \<and> evictable_at br r"
proof -
  have i: "core_inv br" "evg_inv br" "own_but {} br" using assms(1) by (simp_all add: bridge_inv_but_def)
  have g: "g \<in> all_groups br" if "g \<in> groups_at br t" for g using that assms(2) by (auto simp: in_all_groups)
  have a: "r < rnext br \<and> evict_group (rstore br r) = Some g" if "g \<in> groups_at br t" "r \<in> set (members br g)" for g
    using i(2) g [OF that(1)] that(2) by (simp add: evg_inv_but_def group_ok_def)
  have b: "r \<in> rules_at br t" if "g \<in> groups_at br t" "r \<in> set (members br g)" for g
    using i(3) assms(2) a [OF that] that(1) by (auto simp: own_but_def)
  have c: "g \<in> groups_at br t \<and> r \<in> set (members br g)" if "r \<in> rules_at br t" "evict_group (rstore br r) = Some g" for g
  proof -
    have "g \<in> groups_at br t" by (rule bridge_own_group [OF assms that])
    moreover have "r < rnext br" using core_less core_registered i(1) assms(2) that(1) by blast
    ultimately show ?thesis using evg_members_iff [OF i(2) g] that(2) by simp
  qed
  show ?thesis unfolding candidates_def mem_Collect_eq using a b c by (metis option.exhaust option.distinct(1))
qed

lemma candidates_frame:
  assumes "evg_frame br br'" and "ungrouped br R br'" and "t < length (oftables br)"
  shows "candidates br' t = candidates br t - R"
  using assms(1,2) frame_rules_at [OF assms(1,3)] by (auto simp: candidates_def ungrouped_def evg_frame_def same_rule_def)

text \<open>What taking the rules \<open>new\<close> of table \<open>t\<close> out of their groups, \<open>k\<close> at most, has done.\<close>

definition taken_out :: "bridge \<Rightarrow> nat \<Rightarrow> nat \<Rightarrow> evicted list \<Rightarrow> bridge \<Rightarrow> bool" where
  "taken_out br t k new br' \<longleftrightarrow> bridge_inv br' \<and> evg_frame br br' \<and> same_fields br br'
     \<and> ungrouped br (set (ev_rules br new)) br' \<and> (\<forall>ev \<in> set new. ev_ok br ev \<and> ev_table ev = t)
     \<and> distinct (ev_rules br new) \<and> set (ev_rules br new) \<subseteq> candidates br t
     \<and> length new = min k (card (candidates br t))"

lemma length_ev_rules [simp]: "length (ev_rules br evs) = length evs"
  by (simp add: ev_rules_def)

lemma finite_candidates [simp]: "finite (candidates br t)"
  by (simp add: candidates_def)

lemma taken_out_Nil: "bridge_inv br \<Longrightarrow> k = 0 \<or> candidates br t = {} \<Longrightarrow> taken_out br t k [] br"
  by (auto simp: taken_out_def ungrouped_def ev_rules_def)

text \<open>One round of the loop.\<close>

lemma evict_round:
  assumes "bridge_inv br" and t: "t < length (oftables br)" "t < 256" and cnt: "cnt > mf"
  obtains "evict_loop start buf t cnt mf evs br = Some (evs, br)" "candidates br t = {}"
  | "length evs \<ge> start + buf"
  | ev r b1 where "evict_loop start buf t cnt mf evs br = evict_loop start buf t (cnt - 1) mf (evs @ [ev]) b1"
    "taken_out br t 1 [ev] b1"
proof -
  have i: "core_inv br" "evg_inv br" "own_but {} br" using assms(1) by (simp_all add: bridge_inv_but_def)
  have m: "t mod 256 = t" using t(2) by simp
  note cand = candidates_in_groups [OF assms(1) t(1)]
  show thesis
  proof (rule choose_rule_some [OF i(2) t(1)])
    assume a: "ecall_choose_rule_to_evict br t = Some None" "\<forall>g \<in> groups_at br t. \<forall>r \<in> set (members br g). \<not> evictable_at br r"
    have "candidates br t = {}" using a(2) cand by blast
    then show thesis using that(1) cnt m a(1) by (simp add: evict_loop.simps [of start buf t cnt])
  next
    fix g r
    assume c: "ecall_choose_rule_to_evict br t = Some (Some (o_cls_rule (rstore br r)))"
      and g: "g \<in> groups_at br t" "r \<in> set (members br g)" "evictable_at br r"
    let ?o = "o_cls_rule (rstore br r)"
    have rc: "r \<in> candidates br t" using cand g by blast
    then have rt: "r \<in> rules_at br t" by (simp add: candidates_def)
    have "g \<in> all_groups br" using g(1) t(1) by (auto simp: in_all_groups)
    then have r: "evict_group (rstore br r) = Some g" using i(2) g(2) by (simp add: evg_inv_but_def group_ok_def)
    have fr: "sgx_rule_from_ut_cr br ?o = Some r"
      using find_registered core_registered [OF i(1) t(1) rt] i(1) by (simp add: core_inv_def)
    obtain b1 where b1: "ecall_evg_remove_rule br t ?o = Some b1" "bridge_inv_but ({} - {r}) b1" "evg_frame br b1" "same_fields br b1"
      "\<And>q. evict_group (rstore b1 q) = (if q = r then None else evict_group (rstore br q))"
      using bridge_evg_remove [OF assms(1) t(1) fr] r g(1) by auto
    have f: "eviction_fields (oftables br ! t) \<noteq> None" using g(1) by (auto simp: groups_def split: if_splits)
    show thesis
    proof (cases "length evs \<ge> start + buf")
      case True
      then show thesis by (rule that(2))
    next
      case False
      define ev where "ev = \<lparr>ev_table = t, ev_rule = ?o, ev_hash = cls_rule_hash (rules_of br r) (of_nat t),
        ev_group_prio = hn_priority (size_nodes br g), ev_rule_prio = hn_priority (rule_nodes br r)\<rparr>"
      have e: "evict_loop start buf t cnt mf evs br = evict_loop start buf t (cnt - 1) mf (evs @ [ev]) b1"
        using False cnt c m fr r b1(1) by (simp add: evict_loop.simps [of start buf t cnt] ecall_cls_rule_hash_def ev_def)
      have "ev_ok br ev" using t(1) f rt fr by (auto simp: ev_ok_def ev_def)
      moreover have "ev_rules br [ev] = [r]" using fr by (simp add: ev_rules_def ev_def rule_of_def)
      moreover have "card (candidates br t) \<ge> 1" using rc by (metis One_nat_def Suc_leI card_gt_0_iff empty_iff finite_candidates)
      ultimately have "taken_out br t 1 [ev] b1"
        using b1(2-5) rc by (simp add: taken_out_def ungrouped_def) (simp add: ev_def)
      then show thesis by (rule that(3) [OF e])
    qed
  qed
qed

lemma taken_out_Cons:
  assumes "taken_out br t 1 [ev] b1" and "taken_out b1 t k new br'" and t: "t < length (oftables br)"
  shows "taken_out br t (Suc k) (ev # new) br'"
proof -
  define r where "r = rule_of br (ev_rule ev)"
  have a: "evg_frame br b1" "same_fields br b1" "ungrouped br {r} b1" "ev_ok br ev" "ev_table ev = t" "r \<in> candidates br t"
    using assms(1) by (simp_all add: taken_out_def ev_rules_def r_def)
  have er: "ev_rules b1 new = ev_rules br new" "ev_rules br (ev # new) = r # ev_rules br new"
    using ev_rules_frame [OF a(1)] by (simp_all add: ev_rules_def r_def)
  have n: "bridge_inv br'" "evg_frame b1 br'" "same_fields b1 br'" "ungrouped b1 (set (ev_rules br new)) br'"
    "\<forall>ev \<in> set new. ev_ok b1 ev \<and> ev_table ev = t" "distinct (ev_rules br new)" "set (ev_rules br new) \<subseteq> candidates br t - {r}"
    "length new = min k (card (candidates br t - {r}))"
    using assms(2) candidates_frame [OF a(1,3) t] by (simp_all add: taken_out_def er)
  have "card (candidates br t) = Suc (card (candidates br t - {r}))" using a(6) by (metis card.remove finite_candidates)
  moreover have "ungrouped br (insert r (set (ev_rules br new))) br'" using a(3) n(4) by (auto simp: ungrouped_def)
  ultimately show ?thesis
    using n a evg_frame_trans [OF a(1) n(2)] same_fields_trans [OF a(1,2) n(3)] ev_ok_frame [OF a(1,2)]
    unfolding taken_out_def er by auto
qed

text \<open>With room in the buffers for as many rules as the table has too many, the loop ends with a report.\<close>

lemma evict_loop_ok:
  assumes "bridge_inv br" and "t < length (oftables br)" "t < 256" and "length evs + nat (cnt - mf) \<le> start + buf"
  shows "\<exists>new br'. evict_loop start buf t cnt mf evs br = Some (evs @ new, br') \<and> taken_out br t (nat (cnt - mf)) new br'"
  using assms
proof (induction "nat (cnt - mf)" arbitrary: cnt evs br)
  case 0
  then have "evict_loop start buf t cnt mf evs br = Some (evs, br)" by (simp add: evict_loop.simps [of start buf t cnt])
  then show ?case using 0 taken_out_Nil by auto
next
  case (Suc k)
  have cnt: "cnt > mf" and k: "k = nat (cnt - 1 - mf)" using Suc.hyps(2) by auto
  show ?case
  proof (rule evict_round [OF Suc.prems(1-3) cnt, of start buf evs])
    assume "evict_loop start buf t cnt mf evs br = Some (evs, br)" "candidates br t = {}"
    then show ?thesis using Suc.prems(1) taken_out_Nil by auto
  next
    fix ev r b1
    assume a: "evict_loop start buf t cnt mf evs br = evict_loop start buf t (cnt - 1) mf (evs @ [ev]) b1" "taken_out br t 1 [ev] b1"
    have t1: "bridge_inv b1" "t < length (oftables b1)" using a(2) Suc.prems(2) by (simp_all add: taken_out_def evg_frame_def)
    obtain new br' where n: "evict_loop start buf t (cnt - 1) mf (evs @ [ev]) b1 = Some ((evs @ [ev]) @ new, br')"
      "taken_out b1 t (nat (cnt - 1 - mf)) new br'"
      using Suc.hyps(1) [OF k t1 Suc.prems(3), of "evs @ [ev]"] Suc.hyps(2) Suc.prems(4) k by auto
    show ?thesis
      using n(1) taken_out_Cons [OF a(2) n(2) Suc.prems(2)] Suc.hyps(2) k unfolding a(1) by auto
  qed (use Suc.hyps(2) Suc.prems(4) in simp)
qed

section \<open>All tables\<close>

text \<open>By how many rules a table with eviction exceeds its limit.\<close>

definition excess :: "bridge \<Rightarrow> nat \<Rightarrow> nat" where
  "excess br t = (let tb = oftables br ! t in if eviction_fields tb = None then 0
     else nat (classifier_count (t_cls tb) - sint (max_flows tb)))"

lemma excess_frame: "evg_frame br br' \<Longrightarrow> same_fields br br' \<Longrightarrow> t < length (oftables br) \<Longrightarrow> excess br' t = excess br t"
  by (simp add: excess_def frame_defs same_fields_def Let_def)

text \<open>A report on the tables \<open>ts\<close>: of each as many rules as it has too many, as far as they may be
  evicted, none twice.\<close>

definition report :: "bridge \<Rightarrow> nat list \<Rightarrow> evicted list \<Rightarrow> bool" where
  "report br ts evs \<longleftrightarrow> (\<forall>ev \<in> set evs. ev_ok br ev \<and> ev_table ev \<in> set ts \<and> rule_of br (ev_rule ev) \<in> candidates br (ev_table ev))
     \<and> distinct (ev_rules br evs)
     \<and> (\<forall>t \<in> set ts. length (filter (\<lambda>ev. ev_table ev = t) evs) = min (excess br t) (card (candidates br t)))"

lemma candidates_disjoint:
  assumes "core_inv br" and "t < length (oftables br)" "u < length (oftables br)" and "u \<noteq> t" and "R \<subseteq> candidates br t"
  shows "candidates br u - R = candidates br u"
  using core_unique [OF assms(1-3)] assms(4,5) by (auto simp: candidates_def)

lemma report_append:
  assumes "bridge_inv br" and t: "t < length (oftables br)" "t \<notin> set ts" and ts: "\<forall>u \<in> set ts. u < length (oftables br)"
    and new: "taken_out br t (excess br t) new b1" and rest: "report b1 ts evs"
  shows "report br (t # ts) (new @ evs)"
proof -
  have a: "evg_frame br b1" "same_fields br b1" "ungrouped br (set (ev_rules br new)) b1"
    "\<forall>ev \<in> set new. ev_ok br ev \<and> ev_table ev = t" "distinct (ev_rules br new)" "set (ev_rules br new) \<subseteq> candidates br t"
    "length new = min (excess br t) (card (candidates br t))"
    using new by (simp_all add: taken_out_def)
  have core: "core_inv br" using assms(1) by (simp add: bridge_inv_but_def)
  have cand: "candidates b1 u = candidates br u" if "u \<in> set ts" for u
    using candidates_frame [OF a(1,3)] candidates_disjoint [OF core t(1) _ _ a(6)] ts t(2) that by metis
  have ev: "ev_ok br ev \<and> ev_table ev \<in> set ts \<and> rule_of br (ev_rule ev) \<in> candidates br (ev_table ev)" if "ev \<in> set evs" for ev
    using rest that ev_ok_frame [OF a(1,2)] rule_of_frame [OF a(1)] cand by (auto simp: report_def)
  have nev: "rule_of br (ev_rule ev) \<in> candidates br (ev_table ev)" if "ev \<in> set new" for ev
    using a(4,6) that by (auto simp: ev_rules_def)
  have "set (ev_rules br new) \<inter> set (ev_rules br evs) = {}"
  proof -
    have "x \<notin> candidates br t" if "x \<in> set (ev_rules br evs)" for x
      using that ev ts t core_unique [OF core] by (fastforce simp: ev_rules_def candidates_def)
    then show ?thesis using a(6) by blast
  qed
  then have d: "distinct (ev_rules br (new @ evs))"
    using a(5) rest ev_rules_frame [OF a(1)] by (simp add: report_def) (simp add: ev_rules_def)
  have f: "filter (\<lambda>ev. ev_table ev = t) new = new" "filter (\<lambda>ev. ev_table ev = t) evs = []"
    using a(4) ev t(2) by (auto simp: filter_id_conv filter_empty_conv)
  have g: "filter (\<lambda>ev. ev_table ev = u) new = []" if "u \<in> set ts" for u
    using a(4) t(2) that by (auto simp: filter_empty_conv)
  have "length (filter (\<lambda>ev. ev_table ev = u) (new @ evs)) = min (excess br u) (card (candidates br u))" if "u \<in> set (t # ts)" for u
  proof (cases "u = t")
    case True
    then show ?thesis using f a(7) by simp
  next
    case False
    then have u: "u \<in> set ts" using that by simp
    then show ?thesis using rest cand excess_frame [OF a(1,2)] ts g by (simp add: report_def)
  qed
  then show ?thesis using d ev nev a(4) unfolding report_def by auto
qed

lemma evict_tables_ok:
  assumes "bridge_inv br" and "distinct ts" and "\<forall>t \<in> set ts. t < length (oftables br) \<and> t < 256"
    and "length evs + sum_list (map (excess br) ts) \<le> start + buf"
  shows "\<exists>new br'. evict_tables start buf ts evs tot br = Some (evs @ new, tot + int (sum_list (map (excess br) ts)), br')
    \<and> report br ts new \<and> bridge_inv br' \<and> evg_frame br br' \<and> same_fields br br' \<and> ungrouped br (set (ev_rules br new)) br'"
  using assms
proof (induction ts arbitrary: br evs tot)
  case Nil
  then show ?case by (simp add: report_def ev_rules_def ungrouped_def)
next
  case (Cons t ts)
  have t: "t < length (oftables br)" "t < 256" "t mod 256 = t" using Cons.prems(3) by simp_all
  have gt: "get_table br t = Some (oftables br ! t)" using t(1) by (simp add: get_table_def)
  show ?case
  proof (cases "eviction_fields (oftables br ! t) = None")
    case True
    have ex: "excess br t = 0" using True by (simp add: excess_def)
    have "evict_tables start buf (t # ts) evs tot br = evict_tables start buf ts evs tot br"
      using True t gt by (simp add: ecall_is_eviction_fields_enabled_def)
    moreover have "report br (t # ts) new" if "report br ts new" for new
      using report_append [OF Cons.prems(1) t(1) _ _ taken_out_Nil that] Cons.prems(1-3) ex by auto
    ultimately show ?thesis using Cons.IH [OF Cons.prems(1), of evs tot] Cons.prems(2-4) ex by fastforce
  next
    case False
    let ?c = "classifier_count (t_cls (oftables br ! t))" and ?m = "sint (max_flows (oftables br ! t))"
    have ex: "excess br t = nat (?c - ?m)" using False by (auto simp: excess_def Let_def)
    have "length evs + nat (?c - ?m) \<le> start + buf" using Cons.prems(4) ex by simp
    from evict_loop_ok [OF Cons.prems(1) t(1,2) this] obtain n1 b1 where l:
      "evict_loop start buf t ?c ?m evs br = Some (evs @ n1, b1)" "taken_out br t (excess br t) n1 b1" unfolding ex by blast
    have b: "bridge_inv b1" "evg_frame br b1" "same_fields br b1" "ungrouped br (set (ev_rules br n1)) b1"
      "length n1 \<le> excess br t" using l(2) by (simp_all add: taken_out_def)
    have e1: "map (excess b1) ts = map (excess br) ts" using excess_frame [OF b(2,3)] Cons.prems(3) by simp
    have ok: "distinct ts" "\<forall>t \<in> set ts. t < length (oftables b1) \<and> t < 256"
      "length (evs @ n1) + sum_list (map (excess b1) ts) \<le> start + buf"
      using Cons.prems(2-4) b(2,5) by (auto simp: e1 evg_frame_def)
    from Cons.IH [OF b(1) ok, of "tot + int (excess br t)"] obtain n2 br' where r:
      "evict_tables start buf ts (evs @ n1) (tot + int (excess br t)) b1 = Some ((evs @ n1) @ n2, tot + int (excess br t) + int (sum_list (map (excess br) ts)), br')"
      "report b1 ts n2" "bridge_inv br'" "evg_frame b1 br'" "same_fields b1 br'" "ungrouped b1 (set (ev_rules b1 n2)) br'"
      unfolding e1 by (elim exE conjE) (rule that)
    have "int (excess br t) = (if ?c > ?m then ?c - ?m else 0)" unfolding ex by simp
    then have ev: "evict_tables start buf (t # ts) evs tot br = evict_tables start buf ts (evs @ n1) (tot + int (excess br t)) b1"
      using False t gt l(1)
      by (simp add: ecall_is_eviction_fields_enabled_def ecall_oftable_cls_count_def ecall_oftable_mflows_def)
    have "report br (t # ts) (n1 @ n2)"
      by (rule report_append [OF Cons.prems(1) t(1) _ _ l(2) r(2)]) (use Cons.prems(2,3) in auto)
    moreover have "ungrouped br (set (ev_rules br (n1 @ n2))) br'"
      using b(4) r(6) ev_rules_frame [OF b(2)] by (auto simp: ungrouped_def) (auto simp: ev_rules_def)
    ultimately show ?thesis
      using r(1,3) ev evg_frame_trans [OF b(2) r(4)] same_fields_trans [OF b(2,3) r(5)]
      by (intro exI [of _ "n1 @ n2"] exI [of _ br']) simp
  qed
qed

section \<open>Putting them back\<close>

lemma put_back_ok:
  assumes "bridge_inv br" and "\<forall>ev \<in> set evs. ev_ok br ev" and "distinct (ev_rules br evs)"
    and "\<forall>r \<in> set (ev_rules br evs). evict_group (rstore br r) = None" and junk: "length junk = sizeof_mf_value"
  shows "\<exists>br'. put_back junk evs br = Some br' \<and> bridge_inv br' \<and> evg_frame br br' \<and> same_fields br br'
    \<and> (\<forall>q. evict_group (rstore br' q) = None \<longleftrightarrow> evict_group (rstore br q) = None \<and> q \<notin> set (ev_rules br evs))"
  using assms(1-4)
proof (induction evs arbitrary: br)
  case Nil
  then show ?case by (simp add: ev_rules_def)
next
  case (Cons ev evs)
  obtain r where r: "sgx_rule_from_ut_cr br (ev_rule ev) = Some r" "r \<in> rules_at br (ev_table ev)" "ev_table ev < length (oftables br)"
    "eviction_fields (oftables br ! ev_table ev) \<noteq> None"
    using Cons.prems(2) by (auto simp: ev_ok_def)
  have er: "ev_rules br (ev # evs) = r # ev_rules br evs" using r(1) by (simp add: ev_rules_def rule_of_def)
  have rn: "evict_group (rstore br r) = None" using Cons.prems(4) er by simp
  obtain b1 g where b: "ecall_evg_add_rule junk br (ev_table ev) (ev_rule ev) (ev_group_prio ev) (ev_rule_prio ev) (rule_nodes br r) = Some b1"
    "bridge_inv b1" "evg_frame br b1" "same_fields br b1"
    "\<And>q. evict_group (rstore b1 q) = (if q = r then Some g else evict_group (rstore br q))"
    using bridge_evg_add [OF Cons.prems(1) r(3,4,1,2) rn junk] by metis
  have e1: "ev_rules b1 evs = ev_rules br evs" by (rule ev_rules_frame [OF b(3)])
  have "\<forall>q \<in> set (ev_rules b1 evs). evict_group (rstore b1 q) = None" using Cons.prems(3,4) b(5) er e1 by auto
  then obtain br' where br': "put_back junk evs b1 = Some br'" "bridge_inv br'" "evg_frame b1 br'" "same_fields b1 br'"
    "\<forall>q. evict_group (rstore br' q) = None \<longleftrightarrow> evict_group (rstore b1 q) = None \<and> q \<notin> set (ev_rules br evs)"
    using Cons.IH [OF b(2)] Cons.prems(2,3) ev_ok_frame [OF b(3,4)] er e1 by auto
  then show ?case
    using r(1) b evg_frame_trans [OF b(3) br'(3)] same_fields_trans [OF b(3,4) br'(4)] unfolding er by auto
qed

lemma ofproto_evict_ok:
  assumes "bridge_inv br" and n: "n_tables br \<le> 256" and room: "(\<Sum>t < nat (n_tables br). excess br t) \<le> start + buf"
    and n0: "n_tables br \<ge> 0" and junk: "length junk = sizeof_mf_value"
  shows "\<exists>evs br'. ecall_ofproto_evict junk br (n_tables br) start buf =
      Some (of_nat (length evs) - of_nat start, map (\<lambda>ev. (ev_rule ev, ev_hash ev)) (drop start evs),
        int (\<Sum>t < nat (n_tables br). excess br t), br')
    \<and> report br [0..<nat (n_tables br)] evs \<and> bridge_inv br' \<and> evg_frame br br' \<and> same_fields br br'
    \<and> (\<forall>q. evict_group (rstore br' q) = None \<longleftrightarrow> evict_group (rstore br q) = None)"
proof -
  let ?ts = "[0..<nat (n_tables br)]"
  have len: "nat (n_tables br) = length (oftables br)" using assms(1) by (simp add: bridge_inv_but_def core_inv_def)
  have sz: "size_of_int (n_tables br) = nat (n_tables br)" using n n0 by (simp add: size_of_int_def)
  have sum: "sum_list (map (excess br) ?ts) = (\<Sum>t < nat (n_tables br). excess br t)"
    by (simp add: sum_list_distinct_conv_sum_set atLeast0LessThan)
  from evict_tables_ok [OF assms(1), of ?ts "[]" start buf 0] obtain evs b1 where e:
    "evict_tables start buf ?ts [] 0 br = Some (evs, int (\<Sum>t < nat (n_tables br). excess br t), b1)"
    "report br ?ts evs" "bridge_inv b1" "evg_frame br b1" "same_fields br b1" "ungrouped br (set (ev_rules br evs)) b1"
    using room len n unfolding sum by (force simp del: of_nat_sum)
  have er: "ev_rules b1 evs = ev_rules br evs" by (rule ev_rules_frame [OF e(4)])
  have "\<exists>br'. put_back junk evs b1 = Some br' \<and> bridge_inv br' \<and> evg_frame b1 br' \<and> same_fields b1 br'
    \<and> (\<forall>q. evict_group (rstore br' q) = None \<longleftrightarrow> evict_group (rstore b1 q) = None \<and> q \<notin> set (ev_rules br evs))"
    using put_back_ok [OF e(3) _ _ _ junk, of evs] e(2,6) ev_ok_frame [OF e(4,5)] unfolding er by (simp add: report_def ungrouped_def)
  then obtain br' where p: "put_back junk evs b1 = Some br'" "bridge_inv br'" "evg_frame b1 br'" "same_fields b1 br'"
    "\<forall>q. evict_group (rstore br' q) = None \<longleftrightarrow> evict_group (rstore b1 q) = None \<and> q \<notin> set (ev_rules br evs)"
    by (elim exE conjE) (rule that)
  have "evict_group (rstore br r) \<noteq> None" if "r \<in> set (ev_rules br evs)" for r
    using e(2) that by (auto simp: report_def ev_rules_def candidates_def)
  then have "evict_group (rstore br' q) = None \<longleftrightarrow> evict_group (rstore br q) = None" for q
    using e(6) p(5) by (auto simp: ungrouped_def)
  then show ?thesis
    using e(1,2) p(1,2) evg_frame_trans [OF e(4) p(3)] same_fields_trans [OF e(4,5) p(4)]
    by (intro exI [of _ evs] exI [of _ br']) (simp add: ecall_ofproto_evict_def sz)
qed

end
