(* ===== verification/Tables.thy ===== *)
theory Tables
  imports Entry_Points
begin

text \<open>
  What the entry points that read the tables of a bridge return: the loops over the tables
  (\<open>FOR_EACH_MATCHING_TABLE\<close>), the rules collected by a loose or an exact match, the buffers and pages
  they are handed out in, and the search for the table that tags packets.
\<close>

section \<open>Loops over the tables\<close>

lemma next_visible_ok:
  assumes "n \<le> length (oftables br)"
  shows "next_visible_table br n t = Some (find (visible br) [t..<n])"
proof (induction "n - t" arbitrary: t)
  case 0
  then show ?case by (simp add: next_visible_table.simps [of br n t])
next
  case (Suc k)
  then have t: "t < n" "next_visible_table br n (t + 1) = Some (find (visible br) [t + 1..<n])" by auto
  then show ?case
    using assms by (simp add: next_visible_table.simps [of br n t] upt_conv_Cons get_table_def visible_def)
qed

lemma find_upt_Some:
  assumes "find P [t..<n] = Some u"
  shows "t \<le> u" "u < n" "P u" "filter P [t..<n] = u # filter P [u + 1..<n]"
proof -
  obtain i where i: "i < length [t..<n]" "P ([t..<n] ! i)" "u = [t..<n] ! i" "\<forall>j < i. \<not> P ([t..<n] ! j)"
    using assms by (auto simp: find_Some_iff)
  then show u: "t \<le> u" "u < n" "P u" by auto
  have "[t..<n] = [t..<u] @ u # [u + 1..<n]" using u(1,2) by (metis Suc_eq_plus1 less_imp_le_nat upt_conv_Cons upt_add_eq_append le_iff_add)
  moreover have "filter P [t..<u] = []"
  proof -
    have "\<not> P x" if "t \<le> x" "x < u" for x using i(1,3) i(4) [rule_format, of "x - t"] that by auto
    then show ?thesis by (auto simp: filter_empty_conv)
  qed
  ultimately show "filter P [t..<n] = u # filter P [u + 1..<n]" using u(3) by simp
qed

lemma matching_from_visible:
  assumes "n \<le> length (oftables br)" and "n \<le> 255"
  shows "matching_from br n 0xff (find (visible br) [t..<n]) = Some (filter (visible br) [t..<n])"
proof (induction "n - t" arbitrary: t rule: less_induct)
  case less
  show ?case
  proof (cases "find (visible br) [t..<n]")
    case None
    then have "filter (visible br) [t..<n] = []" by (auto simp: find_None_iff filter_empty_conv)
    then show ?thesis using None by (simp add: matching_from.simps [of br n])
  next
    case (Some u)
    note u = find_upt_Some [OF Some]
    have "(u + 1) mod 256 = u + 1" using u(2) assms(2) by simp
    then have "next_matching_table br n u 0xff = Some (find (visible br) [u + 1..<n])"
      by (simp add: next_matching_table_def next_visible_ok [OF assms(1)])
    moreover have "matching_from br n 0xff (find (visible br) [u + 1..<n]) = Some (filter (visible br) [u + 1..<n])"
      using less u(1,2) by simp
    ultimately show ?thesis using u(4) by (simp add: Some matching_from.simps [of br n 255 "Some u"])
  qed
qed

definition matching_tables :: "bridge \<Rightarrow> u8 \<Rightarrow> nat list" where
  "matching_tables br table_id = (if table_id = 0xff then filter (visible br) [0..<length (oftables br)]
     else if unat table_id < length (oftables br) then [unat table_id] else [])"

lemma matching_tables_ok:
  assumes "core_inv br" and "n_tables br \<le> 255"
  shows "FOR_EACH_MATCHING_TABLE br table_id (n_tables br) = Some (matching_tables br table_id)"
proof -
  have n: "nat (n_tables br) = length (oftables br)" "length (oftables br) \<le> 255" using assms by (auto simp: core_inv_def)
  have one: "matching_from br n table_id (Some t) = Some [t]" if "table_id \<noteq> 0xff" for n t
    using that by (simp add: matching_from.simps [of br n table_id "Some t"] matching_from.simps [of br n table_id None] next_matching_table_def)
  show ?thesis
    using matching_from_visible [of "length (oftables br)" br 0] n one
    by (auto simp: FOR_EACH_MATCHING_TABLE_def first_matching_table_def matching_tables_def next_visible_ok matching_from.simps [of br _ _ None])
qed

text \<open>With 256 tables the index wraps after the last one: when table 255 is visible the loop starts again
  and never ends.\<close>

lemma matching_wraps:
  assumes "length (oftables br) = 256" and "visible br 255" and "t < 256"
  shows "matching_from br 256 0xff (find (visible br) [t..<256]) \<noteq> Some ts"
proof -
  have nx: "next_matching_table br 256 u 0xff = Some (find (visible br) [(u + 1) mod 256..<256])" for u
    using assms(1) by (simp add: next_matching_table_def next_visible_ok)
  have some: "find (visible br) [u..<256] \<noteq> None" if "u < 256" for u
    using that assms(2) by (auto simp: find_None_iff intro!: exI [of _ 255])
  have "matching_from br 256 0xff (find (visible br) [u..<256]) \<noteq> Some ts" if "u < 256" for u
    using that
  proof (induction ts arbitrary: u)
    case Nil
    then show ?case using some [OF Nil] by (auto simp: matching_from.simps [of br 256 255 "Some _"] nx bind_eq_Some_conv)
  next
    case (Cons x ts)
    obtain p where p: "find (visible br) [u..<256] = Some p" using some [OF Cons.prems] by blast
    have "matching_from br 256 0xff (find (visible br) [(p + 1) mod 256..<256]) \<noteq> Some ts" by (rule Cons.IH) simp
    then show ?case unfolding p matching_from.simps [of br 256 255 "Some p"] by (auto simp: nx bind_eq_Some_conv)
  qed
  then show ?thesis using assms(3) by blast
qed

section \<open>Collecting rules\<close>

text \<open>The rules of the tables \<open>ts\<close> with property \<open>P\<close>.\<close>

definition selected :: "bridge \<Rightarrow> (ptr \<Rightarrow> bool) \<Rightarrow> nat list \<Rightarrow> ptr list" where
  "selected br P ts = concat (map (\<lambda>t. filter P (cls_rules (t_cls (oftables br ! t)))) ts)"

lemma in_selected: "r \<in> set (selected br P ts) \<longleftrightarrow> P r \<and> (\<exists>t \<in> set ts. r \<in> rules_at br t)"
  by (auto simp: selected_def)

lemma distinct_selected:
  assumes "core_inv br" and "distinct ts" and "\<forall>t \<in> set ts. t < length (oftables br)"
  shows "distinct (selected br P ts)"
  using assms(2,3)
proof (induction ts)
  case (Cons t ts)
  have "distinct (filter P (cls_rules (t_cls (oftables br ! t))))"
    using cls_rules_distinct [OF core_cls [OF assms(1)]] Cons.prems(2) by simp
  moreover have "r \<notin> set (selected br P ts)" if "r \<in> rules_at br t" for r
    using that core_unique [OF assms(1), of t _ r] Cons.prems by (auto simp: in_selected)
  ultimately show ?case using Cons by (auto simp: selected_def)
qed (simp add: selected_def)

lemma tables_rules_ok:
  assumes "core_inv br" and "\<forall>t \<in> set ts. t < length (oftables br)"
    and "\<And>tg. target = Some tg \<Longrightarrow> minimatch_wf (cr_match tg)"
  shows "tables_rules br target ts = Some (selected br (\<lambda>r. loosely target (rules_of br r)) ts)"
  using assms(2)
proof (induction ts)
  case (Cons t ts)
  then show ?case
    using cursor_loosely [OF core_cls [OF assms(1)] assms(3)] by (simp add: get_table_def selected_def)
qed (simp add: selected_def)

lemma in_matching_tables: "t \<in> set (matching_tables br table_id) \<Longrightarrow> t < length (oftables br)"
  by (auto simp: matching_tables_def split: if_splits)

lemma distinct_matching_tables: "distinct (matching_tables br table_id)"
  by (simp add: matching_tables_def)

lemma loose_rules_ok:
  assumes "core_inv br" and "n_tables br \<le> 255" and "minimatch_wf (cr_match cr)"
  shows "loose_rules br (n_tables br) table_id cr =
    Some (ut_rules br (selected br (\<lambda>r. cls_rule_is_loose_match (rules_of br r) (cr_match cr)) (matching_tables br table_id)))"
  using tables_rules_ok [OF assms(1), of "matching_tables br table_id" "Some cr"] in_matching_tables assms(3)
  by (simp add: loose_rules_def matching_tables_ok [OF assms(1,2)] loosely_def)

lemma filter_eq_single: "distinct xs \<Longrightarrow> r \<in> set xs \<Longrightarrow> filter (\<lambda>q. q = r) xs = [r]"
  by (induction xs) (auto simp: filter_empty_conv)

lemma strict_in_tables_ok:
  assumes "core_inv br" and "\<forall>t \<in> set ts. t < length (oftables br)" and "minimatch_wf (cr_match cr)"
  shows "strict_in_tables br cr ts = Some (selected br (\<lambda>r. rules_of br r = cr) ts)"
  using assms(2)
proof (induction ts)
  case (Cons t ts)
  let ?c = "t_cls (oftables br ! t)"
  have inv: "cls_inv (rules_of br) ?c" using Cons.prems by (simp add: core_cls [OF assms(1)])
  note iff = find_rule_exactly_iff [OF inv assms(3)]
  have "filter (\<lambda>r. rules_of br r = cr) (cls_rules ?c) =
      (case classifier_find_rule_exactly (rules_of br) ?c cr of None \<Rightarrow> [] | Some r \<Rightarrow> [r])"
  proof (cases "classifier_find_rule_exactly (rules_of br) ?c cr")
    case None
    then show ?thesis using iff by (auto simp: filter_empty_conv)
  next
    case (Some r)
    have "rules_of br q = cr \<longleftrightarrow> q = r" if "q \<in> set (cls_rules ?c)" for q
      using that iff [of q] iff [of r] Some by (metis option.inject)
    then have "filter (\<lambda>r. rules_of br r = cr) (cls_rules ?c) = filter (\<lambda>q. q = r) (cls_rules ?c)"
      by (intro filter_cong) simp_all
    also have "\<dots> = [r]" using filter_eq_single [OF cls_rules_distinct [OF inv]] Some iff by blast
    finally show ?thesis by (simp add: Some)
  qed
  then show ?case using Cons by (simp add: get_table_def selected_def split: option.split)
qed (simp add: selected_def)

lemma strict_rules_ok:
  assumes "core_inv br" and "n_tables br \<le> 255" and "minimatch_wf (cr_match cr)"
  shows "strict_rules br (n_tables br) table_id cr =
    Some (ut_rules br (selected br (\<lambda>r. rules_of br r = cr) (matching_tables br table_id)))"
  using strict_in_tables_ok [OF assms(1) _ assms(3)] in_matching_tables
  by (simp add: strict_rules_def matching_tables_ok [OF assms(1,2)])

text \<open>Every rule has its own untrusted address, so nothing is collected twice.\<close>

lemma inj_ut_rules:
  assumes "core_inv br"
  shows "inj_on (\<lambda>r. o_cls_rule (rstore br r)) (registered br)"
  using find_registered assms unfolding core_inv_def by (intro inj_onI) (metis option.inject)

lemma distinct_ut_rules:
  assumes "core_inv br" and "distinct ts" and "\<forall>t \<in> set ts. t < length (oftables br)"
  shows "distinct (ut_rules br (selected br P ts))"
proof -
  have "set (selected br P ts) \<subseteq> registered br" using core_registered [OF assms(1)] assms(3) unfolding subset_iff in_selected by blast
  then show ?thesis
    using distinct_selected [OF assms] inj_on_subset [OF inj_ut_rules [OF assms(1)]] by (simp add: ut_rules_def distinct_map)
qed

section \<open>Buffers and pages\<close>

text \<open>The \<open>_r\<close> entry points stop at \<open>p > elem\<close>: with a buffer of \<open>elem\<close> entries one rule too many is
  written past its end.\<close>

lemma collect_r_fits:
  "p + length xs \<le> length buf \<Longrightarrow> length buf \<le> elem + 1 \<Longrightarrow>
   collect_r xs p buf elem = Some (take p buf @ xs @ drop (p + length xs) buf, p + length xs)"
proof (induction xs arbitrary: p buf)
  case (Cons x xs)
  have "drop p buf = buf ! p # drop (p + 1) buf" using Cons.prems(1) by (simp add: Cons_nth_drop_Suc)
  then show ?case using Cons.IH [of "p + 1" "buf[p := x]"] Cons.prems by (simp add: take_Suc_conv_app_nth)
qed simp

lemma collect_r_overruns: "p + length xs > length buf \<Longrightarrow> p \<le> length buf \<Longrightarrow> length buf \<le> elem \<Longrightarrow> collect_r xs p buf elem = None"
  by (induction xs arbitrary: p buf) auto

lemma page_loop_eq:
  "page_loop start stop bs xs i acc =
     (acc @ take (bs - length acc) (drop (start - i) (if stop = SIZE_MAX then xs else take (stop - i) xs)), i + length xs)"
proof (induction xs arbitrary: i acc)
  case (Cons x xs)
  show ?case
  proof (cases "i < start \<or> stop \<noteq> SIZE_MAX \<and> i \<ge> stop \<or> length acc \<ge> bs")
    case True
    then have "page_loop start stop bs (x # xs) i acc = page_loop start stop bs xs (i + 1) acc" by (auto simp: Let_def)
    then show ?thesis using True unfolding Cons.IH by (cases "i < start"; cases "i < stop") (auto simp: Suc_diff_Suc [symmetric])
  next
    case False
    then have e: "start - i = 0" "start - (i + 1) = 0" "bs - length acc = Suc (bs - length (acc @ [x]))"
      "stop \<noteq> SIZE_MAX \<Longrightarrow> stop - i = Suc (stop - (i + 1))" by auto
    have "page_loop start stop bs (x # xs) i acc = page_loop start stop bs xs (i + 1) (acc @ [x])"
      using False by (auto simp: Let_def)
    then show ?thesis unfolding Cons.IH e(1,2,3) using e(4) by (cases "stop = SIZE_MAX") simp_all
  qed
qed simp

text \<open>Reading page after page gives the whole.\<close>

lemma pages_concat:
  "concat (map (\<lambda>k. fst (page_loop (k * bs) SIZE_MAX bs xs 0 [])) [0..<n]) = take (n * bs) xs"
  by (induction n) (simp_all add: page_loop_eq take_add add.commute [of bs])

section \<open>Tagging\<close>

text \<open>The table of masks that matches everything, and the only other one, of a classifier with at most
  two.\<close>

definition is_catchall_table :: "classifier \<Rightarrow> ptr \<Rightarrow> bool" where
  "is_catchall_table c x \<longleftrightarrow> x \<in> set (hmap_elems (tables c)) \<and> length (hmap_elems (tables c)) \<le> 2
     \<and> cls_table_is_catchall (tstore c x)"

definition is_other_table :: "classifier \<Rightarrow> ptr \<Rightarrow> bool" where
  "is_other_table c x \<longleftrightarrow> x \<in> set (hmap_elems (tables c)) \<and> length (hmap_elems (tables c)) \<le> 2
     \<and> (\<forall>y \<in> set (hmap_elems (tables c)). cls_table_is_catchall (tstore c y) \<longleftrightarrow> y \<noteq> x)"

lemma catchall_unique:
  assumes "cls_inv rs c" and "x \<in> set (hmap_elems (tables c))" "y \<in> set (hmap_elems (tables c))"
    and "cls_table_is_catchall (tstore c x)" "cls_table_is_catchall (tstore c y)"
  shows "x = y"
proof -
  have wf: "minimask_wf (t_mask (tstore c z))" if "z \<in> set (hmap_elems (tables c))" for z
    using assms(1) that by (simp add: cls_inv_def table_inv_def)
  have "miniflow_expand (masks (t_mask (tstore c x))) = miniflow_expand (masks (t_mask (tstore c y)))"
    using assms(4,5) catchall_iff wf assms(2,3) by (simp add: cls_table_is_catchall_def)
  then have "t_mask (tstore c x) = t_mask (tstore c y)"
    using expand_inj wf assms(2,3) by (metis minimask.equality old.unit.exhaust)
  then show ?thesis by (rule cls_inv_mask_inj [OF assms(1-3)])
qed

lemma taggable_fold:
  assumes "cls_inv rs c" and "length ts = 1 \<or> length ts = 2" and "ts = hmap_elems (tables c)"
    and "fold (taggable_step c) ts (None, None) = (catchall, other)"
  shows "catchall = Some x \<longleftrightarrow> is_catchall_table c x" and "other = Some x \<longleftrightarrow> is_other_table c x"
proof -
  have d: "distinct ts" using assms(1,3) by (simp add: cls_inv_def tables_inv_def)
  have u: "a = b" if "a \<in> set ts" "b \<in> set ts" "cls_table_is_catchall (tstore c a)" "cls_table_is_catchall (tstore c b)" for a b
    using catchall_unique [OF assms(1)] that assms(3) by blast
  from assms(2) consider a where "ts = [a]" | a b where "ts = [a, b]"
    by (cases ts rule: remdups_adj.cases) auto
  then have "(catchall = Some x \<longleftrightarrow> is_catchall_table c x) \<and> (other = Some x \<longleftrightarrow> is_other_table c x)"
  proof cases
    case 1
    then show ?thesis
      using assms(3,4) by (auto simp: taggable_step_def is_catchall_table_def is_other_table_def split: if_splits)
  next
    case (2 a b)
    then show ?thesis
      using assms(3) [symmetric] assms(4) d u [of a b]
      by (auto simp: taggable_step_def is_catchall_table_def is_other_table_def split: if_splits)
  qed
  then show "catchall = Some x \<longleftrightarrow> is_catchall_table c x" "other = Some x \<longleftrightarrow> is_other_table c x" by simp_all
qed

text \<open>The table has just been checked: its two pointers are what they should be.\<close>

definition tagged :: "bridge \<Rightarrow> nat \<Rightarrow> bool" where
  "tagged br t \<longleftrightarrow> (\<forall>x. (catchall_table (table_dpif br ! t) = Some x \<longleftrightarrow> is_catchall_table (t_cls (oftables br ! t)) x)
     \<and> (other_table (table_dpif br ! t) = Some x \<longleftrightarrow> is_other_table (t_cls (oftables br ! t)) x))"

lemma bridge_put_dpif:
  assumes "bridge_inv br"
  shows "bridge_inv (br\<lparr>table_dpif := (table_dpif br)[t := d]\<rparr>)"
proof -
  let ?b = "br\<lparr>table_dpif := (table_dpif br)[t := d]\<rparr>"
  have i: "core_inv br" "fields_inv br" "evg_inv br" "own_but {} br" using assms by (simp_all add: bridge_inv_but_def)
  have "core_inv ?b" using i(1) by (simp add: core_inv_def reg_inv_def)
  moreover have "evg_inv ?b = evg_inv br"
    by (simp add: evg_inv_but_def evg_tables_def evg_back_def all_groups_def group_ok_def members_def sized_def)
  ultimately show ?thesis using i by (simp add: bridge_inv_but_def fields_inv_def own_but_def)
qed

lemma update_taggable_ok:
  assumes "bridge_inv br" and t: "t < length (oftables br)"
  obtains res d where "ecall_oftable_update_taggable br t = Some (res, br\<lparr>table_dpif := (table_dpif br)[t := d]\<rparr>)"
    "res = (if d = table_dpif br ! t then 0 else 4)" "tagged (br\<lparr>table_dpif := (table_dpif br)[t := d]\<rparr>) t"
proof -
  let ?c = "t_cls (oftables br ! t)" and ?d = "table_dpif br ! t"
  let ?ts = "hmap_elems (tables ?c)"
  have core: "core_inv br" using assms(1) by (simp add: bridge_inv_but_def)
  have inv: "cls_inv (rules_of br) ?c" by (rule core_cls [OF core t])
  have td: "t < length (table_dpif br)" using core t by (simp add: core_inv_def)
  have wf: "hmap_wf (tables ?c)" using inv by (simp add: cls_inv_def tables_inv_def)
  have n: "hmap_count (tables ?c) = length ?ts"
    using hmap_wf_hn [OF wf] by (simp add: hmap_count_def hmap_elems_def hmap_nodes_def)
  define p where "p = (if length ?ts = 1 \<or> length ?ts = 2 then fold (taggable_step ?c) ?ts (None, None) else (None, None))"
  obtain ca oth where co: "p = (ca, oth)" by (cases p)
  have sp: "ca = Some x \<longleftrightarrow> is_catchall_table ?c x" "oth = Some x \<longleftrightarrow> is_other_table ?c x" for x
  proof -
    have "(ca = Some x \<longleftrightarrow> is_catchall_table ?c x) \<and> (oth = Some x \<longleftrightarrow> is_other_table ?c x)"
    proof (cases "length ?ts = 1 \<or> length ?ts = 2")
      case True
      then show ?thesis using taggable_fold [OF inv True refl] co by (simp add: p_def)
    next
      case False
      then have "\<not> (x \<in> set ?ts \<and> length ?ts \<le> 2)" by (cases ?ts rule: remdups_adj.cases) auto
      then show ?thesis using False co by (auto simp: p_def is_catchall_table_def is_other_table_def)
    qed
    then show "ca = Some x \<longleftrightarrow> is_catchall_table ?c x" "oth = Some x \<longleftrightarrow> is_other_table ?c x" by simp_all
  qed
  let ?d' = "?d\<lparr>catchall_table := ca, other_table := oth\<rparr>"
  have eq: "(?d' = ?d) = (\<not> (catchall_table ?d \<noteq> ca \<or> other_table ?d \<noteq> oth))" by (cases ?d) auto
  have "ecall_oftable_update_taggable br t = Some (if ?d' = ?d then 0 else 4, br\<lparr>table_dpif := (table_dpif br)[t := ?d']\<rparr>)"
  proof -
    have "(if hmap_count (tables ?c) = 1 \<or> hmap_count (tables ?c) = 2
       then do { ts \<leftarrow> HMAP_FOR_EACH (tables ?c); Some (fold (taggable_step ?c) ts (None, None)) } else Some (None, None)) = Some (ca, oth)"
      using co HMAP_FOR_EACH_elems [OF wf] n by (auto simp: p_def split: if_splits)
    then show ?thesis
      using t td eq unfolding ecall_oftable_update_taggable_def by (auto simp: get_table_def get_dpif_def)
  qed
  moreover have "tagged (br\<lparr>table_dpif := (table_dpif br)[t := ?d']\<rparr>) t" using sp td by (simp add: tagged_def)
  ultimately show thesis using that by blast
qed

text \<open>The tag of a packet computed from the table's own mask is the one of every rule that is not a
  catch-all.\<close>

lemma tags_agree:
  assumes "bridge_inv br" and t: "t < length (oftables br)" and "tagged br t" and ct: "other_table (table_dpif br ! t) = Some ct"
    and r: "sgx_rule_from_ut_cr br o_cr = Some r" "r \<in> rules_at br t"
  shows "ecall_rule_calculate_tag br o_cr f t =
    (if minimask_is_catchall (rule_mask (rules_of br) r) then Some 0 else ecall_rule_calculate_tag_s br t f)"
proof -
  let ?c = "t_cls (oftables br ! t)"
  have core: "core_inv br" using assms(1) by (simp add: bridge_inv_but_def)
  have inv: "cls_inv (rules_of br) ?c" by (rule core_cls [OF core t])
  have d: "get_dpif br t = Some (table_dpif br ! t)" using core t by (simp add: core_inv_def get_dpif_def)
  obtain x where x: "x \<in> set (hmap_elems (tables ?c))" "t_mask (tstore ?c x) = rule_mask (rules_of br) r"
    using locate_rule [OF inv r(2)] by metis
  have "is_other_table ?c ct" using assms(3) ct unfolding tagged_def by blast
  then have "minimask_is_catchall (t_mask (tstore ?c x)) \<longleftrightarrow> x \<noteq> ct"
    using x(1) by (simp add: is_other_table_def cls_table_is_catchall_def)
  then show ?thesis
    using x(2) r(1) d t ct by (auto simp: ecall_rule_calculate_tag_def ecall_rule_calculate_tag_s_def get_table_def Let_def)
qed

end
