(* ===== verification/Bridge_Machine.thy ===== *)
theory Bridge_Machine
  imports Evict_Report Tables
begin

text \<open>
  A bridge as a state machine: its untrusted client sets it up with \<open>ecall_ofproto_init_tables\<close> and then
  calls the entry points that change it, in any order. \<open>allowed\<close> says what the client has to observe;
  the shown invariant is what the entry points rely on. No sequence of such calls leads to a fault.
\<close>

section \<open>Calls\<close>

datatype call =
    Cls_rule_init ut_ptr match u32
  | Cls_rule_destroy ut_ptr
  | Add_flow nat ut_ptr match u32 u16 u32 u32 heap_node "ut_ptr list" bool add_flow_out
  | Delete_flows "(nat \<times> ut_ptr) list"
  | Remove_rules "(nat \<times> ut_ptr) list"
  | Ofproto_flush nat
  | Ofproto_evict nat nat
  | Evg_add_rules nat "(ut_ptr \<times> heap_node \<times> u32) list" u32
  | Evg_remove_rule nat ut_ptr
  | Choose_rule_to_evict_p nat ut_ptr
  | Enable_eviction nat "mf_subfield list" u32 bool
  | Disable_eviction nat
  | Set_max_flows nat u32
  | Set_readonly nat
  | Set_name nat "string option"
  | Configure nat "string option" u32 "mf_subfield list option" bool bool
  | Update_taggable nat

text \<open>The tables exist, rules are named by registered addresses and new rules by new ones (by their low
  halves), rules to be taken out of a table are in it, and the buffers are large enough. A name has to
  reach as far as the character that \<open>ecall_oftable_set_name\<close> looks at.\<close>

definition name_ok :: "u8 \<Rightarrow> string option \<Rightarrow> bool" where
  "name_ok b nm \<longleftrightarrow> (case nm of None \<Rightarrow> True | Some s \<Rightarrow> unat b \<le> length s)"

fun allowed :: "u8 \<Rightarrow> bridge \<Rightarrow> call \<Rightarrow> bool" where
  "allowed b br (Cls_rule_init o_cr m p) \<longleftrightarrow> sgx_rule_from_ut_cr br o_cr = None \<and> match_wf m \<and> match_normal m"
| "allowed b br (Cls_rule_destroy o_cr) \<longleftrightarrow> sgx_rule_from_ut_cr br o_cr \<noteq> None
     \<and> (\<forall>t \<in> set [0..<length (oftables br)]. \<not> in_table br t o_cr)"
| "allowed b br (Add_flow t cr m p fl gp rp node pending timeout out) \<longleftrightarrow> t < length (oftables br)
     \<and> sgx_rule_from_ut_cr br cr = None \<and> match_wf m \<and> match_normal m
     \<and> (\<forall>q \<in> set pending. sgx_rule_from_ut_cr br q \<noteq> None)"
| "allowed b br (Delete_flows items) \<longleftrightarrow> listed br items"
| "allowed b br (Remove_rules items) \<longleftrightarrow> listed br items"
| "allowed b br (Ofproto_flush buf) \<longleftrightarrow> 0 \<le> n_tables br \<and> n_tables br \<le> 256"
| "allowed b br (Ofproto_evict start buf) \<longleftrightarrow> 0 \<le> n_tables br \<and> n_tables br \<le> 256
     \<and> (\<Sum>t < nat (n_tables br). excess br t) \<le> start + buf"
| "allowed b br (Evg_add_rules t items gp) \<longleftrightarrow> t < length (oftables br) \<and> eviction_fields (oftables br ! t) \<noteq> None
     \<and> listed br (map (\<lambda>(o_cr, _, _). (t, o_cr)) items)
     \<and> (\<forall>(o_cr, _, _) \<in> set items. evict_group (rstore br (rule_of br o_cr)) = None)"
| "allowed b br (Evg_remove_rule t o_cr) \<longleftrightarrow> in_table br t o_cr"
| "allowed b br (Choose_rule_to_evict_p t o_cr) \<longleftrightarrow> t < length (oftables br) \<and> sgx_rule_from_ut_cr br o_cr \<noteq> None"
| "allowed b br (Enable_eviction t sfs v nc) \<longleftrightarrow> t < length (oftables br) \<and> (\<forall>sf \<in> set sfs. subfield_ok sf)"
| "allowed b br (Disable_eviction t) \<longleftrightarrow> t < length (oftables br)"
| "allowed b br (Set_max_flows t v) \<longleftrightarrow> t < length (oftables br)"
| "allowed b br (Set_readonly t) \<longleftrightarrow> t < length (oftables br)"
| "allowed b br (Set_name t nm) \<longleftrightarrow> t < length (oftables br) \<and> name_ok b nm"
| "allowed b br (Configure t nm mf gs need ro) \<longleftrightarrow> t < length (oftables br) \<and> name_ok b nm"
| "allowed b br (Update_taggable t) \<longleftrightarrow> t < length (oftables br)"

text \<open>\<open>junk\<close> is the uninitialised \<open>union mf_value\<close> of the grouping.\<close>

inductive step :: "u8 \<Rightarrow> bridge \<Rightarrow> call \<Rightarrow> bridge \<Rightarrow> bool" for b where
  rule_init: "allowed b br (Cls_rule_init o_cr m p) \<Longrightarrow> ecall_cls_rule_init br o_cr m p = Some br' \<Longrightarrow>
    step b br (Cls_rule_init o_cr m p) br'"
| rule_destroy: "allowed b br (Cls_rule_destroy o_cr) \<Longrightarrow> ecall_cls_rule_destroy br o_cr = Some br' \<Longrightarrow>
    step b br (Cls_rule_destroy o_cr) br'"
| add_flow: "allowed b br (Add_flow t cr m p fl gp rp node pending timeout out) \<Longrightarrow> length junk = sizeof_mf_value \<Longrightarrow>
    ecall_add_flow junk br t cr m p fl gp rp node pending timeout out = Some (out', br') \<Longrightarrow>
    step b br (Add_flow t cr m p fl gp rp node pending timeout out) br'"
| delete_flows: "allowed b br (Delete_flows items) \<Longrightarrow> ecall_delete_flows br items = Some (ds, br') \<Longrightarrow>
    step b br (Delete_flows items) br'"
| remove_rules: "allowed b br (Remove_rules items) \<Longrightarrow> ecall_oftable_remove_rules br items = Some (hs, br') \<Longrightarrow>
    step b br (Remove_rules items) br'"
| flush: "allowed b br (Ofproto_flush buf) \<Longrightarrow> ecall_ofproto_flush br buf = Some (acc, cnt, br') \<Longrightarrow>
    step b br (Ofproto_flush buf) br'"
| evict: "allowed b br (Ofproto_evict start buf) \<Longrightarrow> length junk = sizeof_mf_value \<Longrightarrow>
    ecall_ofproto_evict junk br (n_tables br) start buf = Some (n, res, tot, br') \<Longrightarrow> step b br (Ofproto_evict start buf) br'"
| add_rules: "allowed b br (Evg_add_rules t items gp) \<Longrightarrow> length junk = sizeof_mf_value \<Longrightarrow>
    ecall_eviction_group_add_rules junk br t items gp = Some br' \<Longrightarrow> step b br (Evg_add_rules t items gp) br'"
| remove_rule: "allowed b br (Evg_remove_rule t o_cr) \<Longrightarrow> ecall_evg_remove_rule br t o_cr = Some br' \<Longrightarrow>
    step b br (Evg_remove_rule t o_cr) br'"
| choose_p: "allowed b br (Choose_rule_to_evict_p t o_cr) \<Longrightarrow> ecall_choose_rule_to_evict_p br t o_cr = Some (res', br') \<Longrightarrow>
    step b br (Choose_rule_to_evict_p t o_cr) br'"
| enable: "allowed b br (Enable_eviction t sfs v nc) \<Longrightarrow> ecall_oftable_enable_eviction br t sfs v nc = Some (nc', br') \<Longrightarrow>
    step b br (Enable_eviction t sfs v nc) br'"
| disable: "allowed b br (Disable_eviction t) \<Longrightarrow> ecall_oftable_disable_eviction br t = Some br' \<Longrightarrow>
    step b br (Disable_eviction t) br'"
| max_flows: "allowed b br (Set_max_flows t v) \<Longrightarrow> ecall_oftable_mflows_set br t v = Some br' \<Longrightarrow>
    step b br (Set_max_flows t v) br'"
| readonly: "allowed b br (Set_readonly t) \<Longrightarrow> ecall_oftable_set_readonly br t = Some br' \<Longrightarrow> step b br (Set_readonly t) br'"
| set_name: "allowed b br (Set_name t nm) \<Longrightarrow> ecall_oftable_set_name b br t nm = Some br' \<Longrightarrow> step b br (Set_name t nm) br'"
| configure: "allowed b br (Configure t nm mf gs need ro) \<Longrightarrow>
    ecall_oftable_configure b br t nm mf gs need ro = Some (need', ro', br') \<Longrightarrow> step b br (Configure t nm mf gs need ro) br'"
| taggable: "allowed b br (Update_taggable t) \<Longrightarrow> ecall_oftable_update_taggable br t = Some (code, br') \<Longrightarrow>
    step b br (Update_taggable t) br'"

inductive reachable :: "u8 \<Rightarrow> bridge \<Rightarrow> bool" for b where
  boot: "rnext br = 0 \<Longrightarrow> gnext br = 0 \<Longrightarrow> reachable b (ecall_ofproto_init_tables junk br n)"
| step: "reachable b br \<Longrightarrow> step b br c br' \<Longrightarrow> reachable b br'"

inductive_cases reachableE: "reachable b br"

section \<open>Invariant\<close>

lemma init_tables_inv:
  assumes "rnext br = 0" and "gnext br = 0"
  shows "bridge_inv (ecall_ofproto_init_tables junk br n)"
proof -
  let ?b = "ecall_ofproto_init_tables junk br n"
  have f: "oftables ?b = replicate (nat n) oftable_init" "rnext ?b = 0" "reg ?b = hmap_init" "n_tables ?b = n"
    "length (table_dpif ?b) = nat n"
    using assms by (simp_all add: ecall_ofproto_init_tables_def sgx_table_dpif_init_def sgx_table_cls_init_def)
  have t: "t_cls oftable_init = classifier_init" "groups oftable_init = {}" "eviction_fields oftable_init = None"
    by (simp_all add: oftable_init_def groups_def)
  have "all_groups ?b = {}" by (simp add: all_groups_def f t)
  then have "evg_inv ?b" by (simp add: evg_inv_but_def evg_tables_def evg_back_def f t table_groups_ok_def)
  moreover have "core_inv ?b" by (simp add: core_inv_def reg_inv_def f t init_inv)
  moreover have "fields_inv ?b" by (simp add: fields_inv_def fields_ok_def f t)
  moreover have "own_but {} ?b" by (simp add: own_but_def f)
  ultimately show ?thesis by (simp add: bridge_inv_but_def)
qed

text \<open>Each call by itself: under its guard it returns, and the invariant holds again.\<close>

lemma evg_add_rules_ok:
  assumes "bridge_inv br" and "allowed b br (Evg_add_rules t items gp)" and junk: "length junk = sizeof_mf_value"
  shows "\<exists>br'. ecall_eviction_group_add_rules junk br t items gp = Some br' \<and> bridge_inv br'"
  using assms(1,2)
proof (induction items arbitrary: br)
  case (Cons it items)
  obtain o_cr node rp where it: "it = (o_cr, node, rp)" by (cases it)
  have t: "t < length (oftables br)" "eviction_fields (oftables br ! t) \<noteq> None" and ev: "evict_group (rstore br (rule_of br o_cr)) = None"
    and li: "listed br ((t, o_cr) # map (\<lambda>(o_cr, _, _). (t, o_cr)) items)"
    using Cons.prems(2) by (simp_all add: it)
  obtain r where r: "sgx_rule_from_ut_cr br o_cr = Some r" "r \<in> rules_at br t"
    using li by (auto simp: listed_def elim!: in_tableE)
  have ri: "reg_inv br" using Cons.prems(1) by (simp add: bridge_inv_but_def core_inv_def)
  have "evict_group (rstore br r) = None" using ev r(1) by (simp add: rule_of_def)
  then obtain b1 g where b1: "ecall_evg_add_rule junk br t o_cr gp rp node = Some b1" "bridge_inv b1" "evg_frame br b1" "same_fields br b1"
    "\<And>q. evict_group (rstore b1 q) = (if q = r then Some g else evict_group (rstore br q))"
    using bridge_evg_add [OF Cons.prems(1) t r _ junk] by metis
  have f: "sgx_rule_from_ut_cr b1 = sgx_rule_from_ut_cr br" by (rule frame_find [OF b1(3)])
  have l: "length (oftables b1) = length (oftables br)" "eviction_fields (oftables b1 ! t) \<noteq> None"
    using b1(3,4) t by (simp_all add: evg_frame_def same_fields_def)
  have "listed b1 (map (\<lambda>(o_cr, _, _). (t, o_cr)) items)"
    by (rule listed_tail [OF ri li r(1)]) (use f l frame_rules_at [OF b1(3)] in auto)
  moreover have "evict_group (rstore b1 (rule_of b1 x)) = None" if x: "(x, y, z) \<in> set items" for x y z
  proof -
    have h: "ut_hash x \<noteq> ut_hash o_cr" and "in_table br t x" using li x by (force simp: listed_def)+
    then obtain q where q: "sgx_rule_from_ut_cr br x = Some q" by (elim in_tableE)
    then have "q \<noteq> r" using find_inj [OF ri q] r(1) h by blast
    moreover have "evict_group (rstore br q) = None" using Cons.prems(2) x q by (force simp: it rule_of_def)
    ultimately show ?thesis using b1(5) q f by (simp add: rule_of_def)
  qed
  ultimately have "allowed b b1 (Evg_add_rules t items gp)" using l t(1) by auto
  then show ?case using Cons.IH [OF b1(2)] b1(1) by (simp add: it)
qed simp

lemma set_name_defined:
  assumes "t < length (oftables br)" and "name_ok b nm"
  shows "\<exists>br'. ecall_oftable_set_name b br t nm = Some br'"
  using assms by (auto simp: ecall_oftable_set_name_def get_table_def name_ok_def c_char_at_def Let_def split: option.splits)

lemma configure_defined:
  assumes "bridge_inv br" and t: "t < length (oftables br)" and "name_ok b nm"
  shows "\<exists>need' ro' br'. ecall_oftable_configure b br t nm mf gs need ro = Some (need', ro', br')"
proof -
  obtain b1 where b1: "ecall_oftable_set_name b br t nm = Some b1" using set_name_defined [OF t assms(3)] by blast
  have i: "bridge_inv b1" "t < length (oftables b1)" using bridge_set_name [OF assms(1) t b1] t by simp_all
  obtain b2 where b2: "ecall_oftable_disable_eviction b1 t = Some b2" "evg_frame b1 b2" by (rule bridge_disable [OF i])
  have "t < length (oftables b2)" using b2(2) i(2) by (simp add: evg_frame_def)
  then show ?thesis
    using b1 i(2) b2(1)
    by (auto simp: ecall_oftable_configure_def ecall_oftable_is_readonly_def ecall_oftable_mflows_set_def ecall_need_to_evict_def
        ecall_is_eviction_fields_enabled_def ecall_oftable_cls_count_def ecall_oftable_mflows_def get_table_def)
qed

lemma flush_ok:
  assumes "bridge_inv br" and "0 \<le> n_tables br" "n_tables br \<le> 256"
  shows "\<exists>br'. ecall_ofproto_flush br buf = Some (take buf (to_flush br [0..<length (oftables br)]),
      int (length (to_flush br [0..<length (oftables br)])), br') \<and> bridge_inv br'
    \<and> reg br' = reg br \<and> length (oftables br') = length (oftables br)
    \<and> (\<forall>u < length (oftables br). \<not> visible br u \<longrightarrow> t_cls (oftables br' ! u) = t_cls (oftables br ! u))
    \<and> (length (to_flush br [0..<length (oftables br)]) \<le> buf \<longrightarrow> (\<forall>t < length (oftables br). visible br t \<longrightarrow> rules_at br' t = {}))"
proof -
  have len: "nat (n_tables br) = length (oftables br)" using assms(1) by (simp add: bridge_inv_but_def core_inv_def)
  have sz: "size_of_int (n_tables br) = length (oftables br)" using assms(2,3) len by (simp add: size_of_int_def)
  have "length (oftables br) \<le> 256" using assms(3) len by linarith
  then show ?thesis
    using flush_tables_ok [OF assms(1), of "[0..<length (oftables br)]" buf 0 "[]"]
    by (auto simp: ecall_ofproto_flush_def sz)
qed

lemma bridge_progress:
  assumes "bridge_inv br" and "allowed b br c"
  shows "\<exists>br'. step b br c br'"
proof -
  define junk :: mf_value where "junk = replicate sizeof_mf_value 0"
  have junk: "length junk = sizeof_mf_value" by (simp add: junk_def)
  show ?thesis
  proof (cases c)
    case (Cls_rule_init o_cr m p)
    have a: "sgx_rule_from_ut_cr br o_cr = None" "match_wf m" "match_normal m" using assms(2) by (simp_all add: Cls_rule_init)
    obtain br' where "ecall_cls_rule_init br o_cr m p = Some br'" using bridge_rule_init [OF assms(1) a] by metis
    then show ?thesis using step.rule_init [OF assms(2) [unfolded Cls_rule_init]] Cls_rule_init by blast
  next
    case (Cls_rule_destroy o_cr)
    then obtain r where r: "sgx_rule_from_ut_cr br o_cr = Some r" "\<And>t. t < length (oftables br) \<Longrightarrow> r \<notin> rules_at br t"
      using assms(2) by (auto simp: in_table_def)
    show ?thesis
      using bridge_rule_destroy [OF assms(1) r] step.rule_destroy assms(2) unfolding Cls_rule_destroy by metis
  next
    case (Add_flow t cr m p fl gp rp node pending timeout out)
    have a: "t < length (oftables br)" "sgx_rule_from_ut_cr br cr = None" "match_wf m" "match_normal m"
      "\<forall>q \<in> set pending. sgx_rule_from_ut_cr br q \<noteq> None" using assms(2) by (simp_all add: Add_flow)
    obtain out' br' where "ecall_add_flow junk br t cr m p fl gp rp node pending timeout out = Some (out', br')"
      using add_flow_ok [OF assms(1) a(1-4) junk a(5)] by blast
    then show ?thesis using step.add_flow [OF assms(2) [unfolded Add_flow] junk] Add_flow by blast
  next
    case (Delete_flows items)
    then show ?thesis using assms delete_flows_ok step.delete_flows by fastforce
  next
    case (Remove_rules items)
    then show ?thesis using assms remove_rules_ok step.remove_rules by fastforce
  next
    case (Ofproto_flush buf)
    have a: "0 \<le> n_tables br" "n_tables br \<le> 256" using assms(2) by (simp_all add: Ofproto_flush)
    obtain acc cnt br' where "ecall_ofproto_flush br buf = Some (acc, cnt, br')" using flush_ok [OF assms(1) a] by blast
    then show ?thesis using step.flush [OF assms(2) [unfolded Ofproto_flush]] Ofproto_flush by blast
  next
    case (Ofproto_evict start buf)
    have a: "n_tables br \<le> 256" "(\<Sum>t < nat (n_tables br). excess br t) \<le> start + buf" "0 \<le> n_tables br"
      using assms(2) by (simp_all add: Ofproto_evict)
    obtain n res tot br' where "ecall_ofproto_evict junk br (n_tables br) start buf = Some (n, res, tot, br')"
      using ofproto_evict_ok [OF assms(1) a junk] by blast
    then show ?thesis using step.evict [OF assms(2) [unfolded Ofproto_evict] junk] Ofproto_evict by blast
  next
    case (Evg_add_rules t items gp)
    then show ?thesis using assms evg_add_rules_ok [OF assms(1) _ junk] step.add_rules [OF _ junk] by blast
  next
    case (Evg_remove_rule t o_cr)
    then show ?thesis
      using assms bridge_own_group [OF assms(1)] step.remove_rule
      by (metis allowed.simps(9) bridge_evg_remove in_tableE)
  next
    case (Choose_rule_to_evict_p t o_cr)
    then show ?thesis using assms choose_p_ok [OF assms(1)] step.choose_p by (metis allowed.simps(10) option.exhaust)
  next
    case (Enable_eviction t sfs v nc)
    then show ?thesis using assms bridge_enable [OF assms(1)] step.enable by (metis allowed.simps(11))
  next
    case (Disable_eviction t)
    then show ?thesis using assms bridge_disable [OF assms(1)] step.disable by (metis allowed.simps(12))
  next
    case (Set_max_flows t v)
    then show ?thesis using assms(2) step.max_flows by (fastforce simp: ecall_oftable_mflows_set_def get_table_def)
  next
    case (Set_readonly t)
    then show ?thesis using assms(2) step.readonly by (fastforce simp: ecall_oftable_set_readonly_def get_table_def)
  next
    case (Set_name t nm)
    then show ?thesis using assms(2) set_name_defined step.set_name by fastforce
  next
    case (Configure t nm mf gs need ro)
    then show ?thesis using assms configure_defined [OF assms(1)] step.configure by (metis allowed.simps(16))
  next
    case (Update_taggable t)
    then show ?thesis using assms update_taggable_ok [OF assms(1)] step.taggable by (metis allowed.simps(17))
  qed
qed

lemma bridge_preservation:
  assumes "step b br c br'" and inv: "bridge_inv br"
  shows "bridge_inv br'"
  using assms(1)
proof cases
  case (rule_init o_cr m p)
  then show ?thesis using bridge_rule_init [OF inv, of o_cr m p] by force
next
  case (rule_destroy o_cr)
  then obtain r where r: "sgx_rule_from_ut_cr br o_cr = Some r" "\<And>t. t < length (oftables br) \<Longrightarrow> r \<notin> rules_at br t"
    by (auto simp: in_table_def)
  show ?thesis using bridge_rule_destroy [OF inv r] rule_destroy(3) by (metis option.inject)
next
  case (add_flow t cr m p fl gp rp node pending timeout out junk out')
  then show ?thesis using add_flow_ok [OF inv _ _ _ _ add_flow(3), of t cr m pending p fl gp rp node timeout out] by auto
next
  case (delete_flows items ds)
  then show ?thesis using delete_flows_ok [OF inv, of items] by auto
next
  case (remove_rules items hs)
  then show ?thesis using remove_rules_ok [OF inv, of items] by auto
next
  case (flush buf acc cnt)
  then show ?thesis using flush_ok [OF inv, of buf] by auto
next
  case (evict start buf junk n res tot)
  then show ?thesis using ofproto_evict_ok [OF inv _ _ _ evict(3), of start buf] by auto
next
  case (add_rules t items gp junk)
  then show ?thesis using evg_add_rules_ok [OF inv add_rules(2,3)] by auto
next
  case (remove_rule t o_cr)
  then obtain r where r: "t < length (oftables br)" "sgx_rule_from_ut_cr br o_cr = Some r" "r \<in> rules_at br t"
    by (auto elim: in_tableE)
  show ?thesis
    using bridge_evg_remove [OF inv r(1,2)] bridge_own_group [OF inv r(1,3)] remove_rule(3) by (metis Diff_empty Diff_eq_empty_iff empty_subsetI option.inject)
next
  case (choose_p t o_cr res')
  then show ?thesis using choose_p_ok [OF inv, of t o_cr] inv by (metis allowed.simps(10) option.exhaust option.inject prod.inject)
next
  case (enable t sfs v nc nc')
  then show ?thesis using bridge_enable [OF inv, of t sfs v nc] by (metis allowed.simps(11) option.inject prod.inject)
next
  case (disable t)
  then show ?thesis using bridge_disable [OF inv, of t] by (metis allowed.simps(12) option.inject)
next
  case (max_flows t v)
  then show ?thesis using bridge_put_attr [OF inv] by (auto simp: ecall_oftable_mflows_set_def get_table_def)
next
  case (readonly t)
  then show ?thesis using bridge_put_attr [OF inv] by (auto simp: ecall_oftable_set_readonly_def get_table_def)
next
  case (set_name t nm)
  then show ?thesis using bridge_set_name [OF inv] by auto
next
  case (configure t nm mf gs need ro need' ro')
  then show ?thesis using bridge_configure [OF inv] by auto
next
  case (taggable t code)
  then show ?thesis
    using update_taggable_ok [OF inv, of t] bridge_put_dpif [OF inv, of t] by (metis allowed.simps(17) option.inject prod.inject)
qed

lemma reachable_inv: "reachable b br \<Longrightarrow> bridge_inv br"
proof (induction rule: reachable.induct)
  case (boot br junk n)
  then show ?case by (rule init_tables_inv)
next
  case (step br c br')
  then show ?case by (blast intro: bridge_preservation)
qed

end
