(* ===== verification/Bridge_Spec.thy ===== *)
theory Bridge_Spec
  imports Bridge_Machine
begin

text \<open>
  The contract of a bridge, as its untrusted client sees it: what the entry points return and how the
  tables change, from any state the bridge can be in.
\<close>



section \<open>An example\<close>

text \<open>A bridge with two tables, and the same bridge after one flow has been added to table 0.\<close>

definition boot_bridge :: bridge where
  "boot_bridge = \<lparr>oftables = [], table_dpif = [], n_tables = 0, reg = hmap_init, rstore = (\<lambda>_. zero_sgx_rule), rnext = 0,
     rule_nodes = (\<lambda>_. \<lparr>idx = 0, hn_priority = 0\<rparr>), gstore = (\<lambda>_. \<lparr>evg_rules = heap_init_ovs\<rparr>), gnext = 0,
     size_nodes = (\<lambda>_. \<lparr>idx = 0, hn_priority = 0\<rparr>), rand = (\<lambda>_. 0), rand_pos = 0\<rparr>"

definition ex_bridge :: bridge where
  "ex_bridge = ecall_ofproto_init_tables (\<lambda>_. 0) boot_bridge 2"

definition ex_match :: match where
  "ex_match = \<lparr>match_flow = (replicate FLOW_U32S 0)[3 := 7], match_wc = \<lparr>wc_masks = (replicate FLOW_U32S 0)[3 := 15]\<rparr>\<rparr>"

definition ex_out :: add_flow_out where
  "ex_out = \<lparr>af_victim = None, af_evict = None, af_evict_rule_hash = 0, af_vid = 0, af_vid_mask = 0, af_table_overflow = False,
     af_is_rule_modifiable = True, af_is_deletion_pending = False, af_is_rule_overlapping = False, af_is_read_only = False\<rparr>"

definition ex_field :: mf_subfield where
  "ex_field = \<lparr>sf_field = example_field, sf_ofs = 0, sf_n_bits = 12\<rparr>"

definition ex_grouped :: bridge where
  "ex_grouped = snd (the (ecall_oftable_enable_eviction ex_bridge 0 [ex_field] 77 False))"

definition ex_junk :: mf_value where
  "ex_junk = replicate sizeof_mf_value 0"

definition ex_added :: bridge where
  "ex_added = snd (the (ecall_add_flow ex_junk ex_grouped 0 0x1000 ex_match 5 0 0 0 \<lparr>idx = 0, hn_priority = 0\<rparr> [] True ex_out))"

lemma ex_bridge_simps [simp]:
  "oftables ex_bridge = [oftable_init, oftable_init]" "reg ex_bridge = hmap_init" "n_tables ex_bridge = 2"
  by (simp_all add: ex_bridge_def ecall_ofproto_init_tables_def sgx_table_dpif_init_def sgx_table_cls_init_def numeral_2_eq_2)

lemma oftable_init_simps [simp]:
  "t_cls oftable_init = classifier_init" "flags oftable_init = 0" "eviction_fields oftable_init = None" "cls_rules classifier_init = []"
  by (simp_all add: oftable_init_def cls_rules_def classifier_init_def)

lemma ex_junk_length [simp]: "length ex_junk = sizeof_mf_value"
  by (simp add: ex_junk_def)

lemma ex_bridge_reachable: "reachable 0 ex_bridge"
  unfolding ex_bridge_def by (rule reachable.boot) (simp_all add: boot_bridge_def)

lemma ex_bridge_inv: "bridge_inv ex_bridge"
  by (rule reachable_inv [OF ex_bridge_reachable])

lemma ex_field_ok: "\<forall>sf \<in> set [ex_field]. subfield_ok sf"
  by (simp add: ex_field_def subfield_ok_def example_field_def)

lemma ex_match_ok: "match_wf ex_match" "match_normal ex_match"
  by (auto simp: ex_match_def match_normal_def nth_list_update FLOW_U32S_eq)

lemma ex_grouped_inv: "bridge_inv ex_grouped" and ex_grouped_frame: "evg_frame ex_bridge ex_grouped"
proof -
  obtain nc br' where "ecall_oftable_enable_eviction ex_bridge 0 [ex_field] 77 False = Some (nc, br')" "bridge_inv br'" "evg_frame ex_bridge br'"
    by (rule bridge_enable [OF ex_bridge_inv _ ex_field_ok, of 0 77 False]) simp_all
  then show "bridge_inv ex_grouped" "evg_frame ex_bridge ex_grouped" by (simp_all add: ex_grouped_def)
qed

lemma ex_grouped_tables [simp]:
  "length (oftables ex_grouped) = 2" "flags (oftables ex_grouped ! 0) = 0" "t_cls (oftables ex_grouped ! 0) = classifier_init"
  "sgx_rule_from_ut_cr ex_grouped o_cr = None"
proof -
  show "length (oftables ex_grouped) = 2" "flags (oftables ex_grouped ! 0) = 0" "t_cls (oftables ex_grouped ! 0) = classifier_init"
    using ex_grouped_frame by (auto simp: frame_defs dest!: spec [of _ 0])
  have "reg ex_grouped = hmap_init" using ex_grouped_frame by (simp add: evg_frame_def)
  then show "sgx_rule_from_ut_cr ex_grouped o_cr = None" by (simp add: find_rule_abs)
qed

lemma ex_added_ok:
  shows "bridge_inv ex_added" and "in_table ex_added 0 0x1000" and "length (oftables ex_added) = 2" and "n_tables ex_added = 2"
proof -
  have "\<exists>out' br'. ecall_add_flow ex_junk ex_grouped 0 0x1000 ex_match 5 0 0 0 \<lparr>idx = 0, hn_priority = 0\<rparr> [] True ex_out = Some (out', br')
      \<and> bridge_inv br' \<and> flow_added ex_grouped 0 0x1000 (cls_rule_init ex_match 5) ex_out out' br'"
    using add_flow_ok [OF ex_grouped_inv _ _ ex_match_ok ex_junk_length, of 0 "0x1000" "[]" 5 0 0 0 "\<lparr>idx = 0, hn_priority = 0\<rparr>" True ex_out]
    by simp
  then obtain out' where a: "bridge_inv ex_added" "flow_added ex_grouped 0 0x1000 (cls_rule_init ex_match 5) ex_out out' ex_added"
    by (auto simp: ex_added_def)
  then show "bridge_inv ex_added" and l: "length (oftables ex_added) = 2" by (auto simp: flow_added_def)
  show "in_table ex_added 0 0x1000" using a(2) l by (auto simp: flow_added_def in_table_def)
  have "nat (n_tables ex_added) = length (oftables ex_added)" using a(1) by (simp add: bridge_inv_but_def core_inv_def)
  then show "n_tables ex_added = 2" using l by simp
qed

section \<open>Safety\<close>



section \<open>Changing the tables\<close>



text \<open>C25: Deleting flows: for each rule named the caller gets its match, priority, hash and whether it is hidden; exactly
  these rules leave the tables, and all stay registered. Removing rules does the same and unregisters them.\<close>

theorem delete_flows_correct:
  assumes "bridge_inv br" and "listed br items"
  shows "(\<exists>br'. ecall_delete_flows br items = Some (map (deleted_as br) items, br') \<and> bridge_inv br' \<and> reg br' = reg br
      \<and> (\<forall>t < length (oftables br). rules_at br' t = rules_at br t - rule_of br ` snd ` set items))
    \<and> (\<exists>br'. ecall_oftable_remove_rules br items = Some (map (\<lambda>it. df_is_hidden (deleted_as br it)) items, br') \<and> bridge_inv br'
      \<and> registered br' = registered br - rule_of br ` snd ` set items
      \<and> (\<forall>t < length (oftables br). rules_at br' t = rules_at br t - rule_of br ` snd ` set items))"
proof (rule conjI)
  show "\<exists>br'. ecall_delete_flows br items = Some (map (deleted_as br) items, br') \<and> bridge_inv br' \<and> reg br' = reg br
      \<and> (\<forall>t < length (oftables br). rules_at br' t = rules_at br t - rule_of br ` snd ` set items)"
    using delete_flows_ok [OF assms] by (elim exE conjE) (intro exI conjI)
  show "\<exists>br'. ecall_oftable_remove_rules br items = Some (map (\<lambda>it. df_is_hidden (deleted_as br it)) items, br') \<and> bridge_inv br'
      \<and> registered br' = registered br - rule_of br ` snd ` set items
      \<and> (\<forall>t < length (oftables br). rules_at br' t = rules_at br t - rule_of br ` snd ` set items)"
    using remove_rules_ok [OF assms] by (elim exE conjE) (intro exI conjI)
qed

theorem delete_flows_correct_witness:
  "(\<exists>br'. ecall_delete_flows ex_added [(0, 0x1000)] = Some ([deleted_as ex_added (0, 0x1000)], br') \<and> bridge_inv br' \<and> reg br' = reg ex_added
      \<and> (\<forall>t < length (oftables ex_added). rules_at br' t = rules_at ex_added t - {rule_of ex_added 0x1000}))
    \<and> (\<exists>br'. ecall_oftable_remove_rules ex_added [(0, 0x1000)] = Some ([df_is_hidden (deleted_as ex_added (0, 0x1000))], br') \<and> bridge_inv br'
      \<and> registered br' = registered ex_added - {rule_of ex_added 0x1000}
      \<and> (\<forall>t < length (oftables ex_added). rules_at br' t = rules_at ex_added t - {rule_of ex_added 0x1000}))"
proof -
  have "listed ex_added [(0, 0x1000)]" using ex_added_ok(2) by (simp add: listed_def)
  from delete_flows_correct [OF ex_added_ok(1) this] show ?thesis unfolding list.map list.set snd_conv image_insert image_empty .
qed

text \<open>Flushing reports the rules of the visible tables, as many as fit into the buffers, counts all of them, and takes the
  reported ones out; with buffers that are large enough the visible tables are empty afterwards. Hidden tables
  keep their rules, and every rule stays registered.\<close>

theorem ofproto_flush_correct:
  assumes "bridge_inv br" and "0 \<le> n_tables br" "n_tables br \<le> 256"
  shows "\<exists>br'. ecall_ofproto_flush br buf = Some (take buf (to_flush br [0..<length (oftables br)]),
      int (length (to_flush br [0..<length (oftables br)])), br') \<and> bridge_inv br'
    \<and> reg br' = reg br \<and> length (oftables br') = length (oftables br)
    \<and> (\<forall>u < length (oftables br). \<not> visible br u \<longrightarrow> t_cls (oftables br' ! u) = t_cls (oftables br ! u))
    \<and> (length (to_flush br [0..<length (oftables br)]) \<le> buf \<longrightarrow> (\<forall>t < length (oftables br). visible br t \<longrightarrow> rules_at br' t = {}))"
  by (rule flush_ok [OF assms])

theorem ofproto_flush_correct_witness:
  "\<exists>br'. ecall_ofproto_flush ex_added 7 = Some (take 7 (to_flush ex_added [0..<length (oftables ex_added)]),
      int (length (to_flush ex_added [0..<length (oftables ex_added)])), br') \<and> bridge_inv br'
    \<and> reg br' = reg ex_added \<and> length (oftables br') = length (oftables ex_added)
    \<and> (\<forall>u < length (oftables ex_added). \<not> visible ex_added u \<longrightarrow> t_cls (oftables br' ! u) = t_cls (oftables ex_added ! u))
    \<and> (length (to_flush ex_added [0..<length (oftables ex_added)]) \<le> 7
        \<longrightarrow> (\<forall>t < length (oftables ex_added). visible ex_added t \<longrightarrow> rules_at br' t = {}))"
  by (rule ofproto_flush_correct [OF ex_added_ok(1)]) (simp_all add: ex_added_ok(4))

section \<open>Eviction\<close>





section \<open>Reading the tables\<close>

text \<open>C6: Looking a packet up in a table returns the untrusted address of a rule of the table that matches the packet and has
  the highest priority among those, and NULL exactly when no rule matches; the address identifies the rule.\<close>

theorem oftable_lookup_correct:
  assumes "bridge_inv br" and "t < length (oftables br)"
  shows "\<exists>res wc'. ecall_oftable_cls_lookup br t f wc = Some (res, wc') \<and> (case res of
      None \<Rightarrow> \<forall>r \<in> rules_at br t. \<not> matches (cr_match (rules_of br r)) f
    | Some o_cr \<Rightarrow> \<exists>r \<in> rules_at br t. sgx_rule_from_ut_cr br o_cr = Some r \<and> o_cr = o_cls_rule (rstore br r)
        \<and> matches (cr_match (rules_of br r)) f
        \<and> (\<forall>r' \<in> rules_at br t. matches (cr_match (rules_of br r')) f \<longrightarrow> prio (rules_of br) r' \<le> prio (rules_of br) r))"
proof -
  let ?c = "t_cls (oftables br ! t)"
  have core: "core_inv br" using assms(1) by (simp add: bridge_inv_but_def)
  have find: "sgx_rule_from_ut_cr br (o_cls_rule (rstore br r)) = Some r" if "r \<in> rules_at br t" for r
    using find_registered core_registered [OF core assms(2) that] core by (simp add: core_inv_def)
  obtain res wc' where l: "classifier_lookup (rules_of br) ?c f wc = (res, wc')" by (cases "classifier_lookup (rules_of br) ?c f wc")
  then show ?thesis
    using classifier_lookup_best [OF core_cls [OF core assms(2)], of f wc] assms(2) find
    by (auto simp: ecall_oftable_cls_lookup_def get_table_def split: option.splits)
qed

theorem oftable_lookup_correct_witness:
  "\<exists>res wc'. ecall_oftable_cls_lookup ex_added 0 ((replicate FLOW_U32S 0)[3 := 23]) None = Some (res, wc') \<and> (case res of
      None \<Rightarrow> \<forall>r \<in> rules_at ex_added 0. \<not> matches (cr_match (rules_of ex_added r)) ((replicate FLOW_U32S 0)[3 := 23])
    | Some o_cr \<Rightarrow> \<exists>r \<in> rules_at ex_added 0. sgx_rule_from_ut_cr ex_added o_cr = Some r \<and> o_cr = o_cls_rule (rstore ex_added r)
        \<and> matches (cr_match (rules_of ex_added r)) ((replicate FLOW_U32S 0)[3 := 23])
        \<and> (\<forall>r' \<in> rules_at ex_added 0. matches (cr_match (rules_of ex_added r')) ((replicate FLOW_U32S 0)[3 := 23])
            \<longrightarrow> prio (rules_of ex_added) r' \<le> prio (rules_of ex_added) r))"
  by (rule oftable_lookup_correct [OF ex_added_ok(1)]) (simp add: ex_added_ok(3))

text \<open>C26: The registry is a map from the low halves of untrusted addresses to rules: registering a rule at an address whose low half
  is new adds exactly that entry, with the match and priority of the caller; the rule is found at every address
  with the same low half; destroying it restores the map.\<close>

theorem registry_correct:
  assumes "reg_inv br" and "sgx_rule_from_ut_cr br o_cr = None"
  shows "\<exists>br' br''. ecall_cls_rule_init br o_cr m p = Some br' \<and> reg_inv br'
    \<and> (\<forall>a. sgx_rule_from_ut_cr br' a = (if (ucast a :: u32) = ucast o_cr then Some (rnext br) else sgx_rule_from_ut_cr br a))
    \<and> rules_of br' (rnext br) = cls_rule_init m p \<and> o_cls_rule (rstore br' (rnext br)) = o_cr
    \<and> ecall_cls_rule_destroy br' o_cr = Some br'' \<and> reg_inv br'' \<and> sgx_rule_from_ut_cr br'' = sgx_rule_from_ut_cr br"
proof -
  have up: "(ucast (ucast x :: u64) :: u32) = x" for x :: u32 by (rule bit_word_eqI) (simp add: bit_simps)
  have low: "ut_hash a = ut_hash b \<longleftrightarrow> (ucast a :: u32) = ucast b" for a b
    unfolding ut_hash_def using up by metis
  obtain h where h: "ecall_cls_rule_init br o_cr m p = Some (br\<lparr>reg := h, rstore := (rstore br)(rnext br := new_rule o_cr m p),
        rnext := rnext br + 1, rule_nodes := (rule_nodes br)(rnext br := \<lparr>idx = 0, hn_priority = 0\<rparr>)\<rparr>)" (is "_ = Some ?b")
    "hmap_unique h" "hmap_abs h = (hmap_abs (reg br))(ut_hash o_cr \<mapsto> rnext br)"
    using cls_rule_init_ok [OF assms, of m p] by blast
  have "reg_inv ?b" by (rule cls_rule_init_reg_inv [OF assms(1) h(2,3)]) simp_all
  then obtain br' where b: "ecall_cls_rule_init br o_cr m p = Some br'" "reg_inv br'"
    "hmap_abs (reg br') = (hmap_abs (reg br))(ut_hash o_cr \<mapsto> rnext br)" "rstore br' (rnext br) = new_rule o_cr m p"
    using h(1,3) that [of ?b] by simp
  have f: "sgx_rule_from_ut_cr br' a = (if (ucast a :: u32) = ucast o_cr then Some (rnext br) else sgx_rule_from_ut_cr br a)" for a
    by (simp add: find_rule_abs b(3) low)
  obtain h where h: "ecall_cls_rule_destroy br' o_cr = Some (br'\<lparr>reg := h\<rparr>)" "reg_inv (br'\<lparr>reg := h\<rparr>)"
    "hmap_abs h = (hmap_abs (reg br'))(ut_hash o_cr := None)"
    using cls_rule_destroy_ok [OF b(2), of o_cr "rnext br"] f by auto
  have "hmap_abs (reg br) (ut_hash o_cr) = None" using assms(2) by (simp add: find_rule_abs)
  then have "hmap_abs h = hmap_abs (reg br)" using h(3) b(3) by (simp add: fun_upd_idem)
  then have "sgx_rule_from_ut_cr (br'\<lparr>reg := h\<rparr>) = sgx_rule_from_ut_cr br" by (simp add: fun_eq_iff find_rule_abs)
  then show ?thesis using b f h by (intro exI [of _ br'] exI [of _ "br'\<lparr>reg := h\<rparr>"]) (simp add: new_rule_def)
qed

theorem registry_correct_witness:
  "\<exists>br' br''. ecall_cls_rule_init ex_grouped 0x700001000 ex_match 3 = Some br' \<and> reg_inv br'
    \<and> (\<forall>a. sgx_rule_from_ut_cr br' a = (if (ucast a :: u32) = ucast (0x700001000 :: ut_ptr) then Some (rnext ex_grouped) else sgx_rule_from_ut_cr ex_grouped a))
    \<and> rules_of br' (rnext ex_grouped) = cls_rule_init ex_match 3 \<and> o_cls_rule (rstore br' (rnext ex_grouped)) = 0x700001000
    \<and> ecall_cls_rule_destroy br' 0x700001000 = Some br'' \<and> reg_inv br'' \<and> sgx_rule_from_ut_cr br'' = sgx_rule_from_ut_cr ex_grouped"
  by (rule registry_correct) (use ex_grouped_inv in \<open>simp_all add: bridge_inv_but_def core_inv_def\<close>)

text \<open>C28: Collecting rules with a loose match: counting and then collecting into a buffer of that size gives every rule of the
  matching tables whose packets all match the given match, each once, and no other. A buffer that is too small is
  overrun: the loop stops one rule too late.\<close>

theorem collect_rules_loose_correct:
  assumes "bridge_inv br" and "0 \<le> n_tables br" "n_tables br \<le> 255"
  shows "\<exists>rs. ecall_collect_rules_loose_c br (n_tables br) table_id m = Some (length rs) \<and> distinct rs
    \<and> set rs = {o_cls_rule (rstore br r) |r t. t \<in> set (matching_tables br table_id) \<and> r \<in> rules_at br t
        \<and> (\<forall>f. flow_wf f \<longrightarrow> matches (cr_match (rules_of br r)) f \<longrightarrow> matches (minimatch_init m) f)}
    \<and> (\<forall>buf. length buf < 2 ^ 31 \<longrightarrow> ecall_collect_rules_loose_r br (n_tables br) buf (int (length buf)) table_id m =
        (if length rs \<le> length buf then Some (rs @ drop (length rs) buf, length rs) else None))"
proof -
  have core: "core_inv br" using assms(1) by (simp add: bridge_inv_but_def)
  let ?cr = "sgx_cls_rule_init_i m 0"
  have wf: "minimatch_wf (cr_match ?cr)" and cr: "cr_match ?cr = minimatch_init m" by (simp_all add: sgx_cls_rule_init_i_def cls_rule_init_def)
  define sel where "sel = selected br (\<lambda>r. cls_rule_is_loose_match (rules_of br r) (cr_match ?cr)) (matching_tables br table_id)"
  have l: "loose_rules br (n_tables br) table_id ?cr = Some (ut_rules br sel)"
    unfolding sel_def by (rule loose_rules_ok [OF core assms(3) wf])
  have d: "distinct (ut_rules br sel)"
    unfolding sel_def using distinct_matching_tables in_matching_tables by (intro distinct_ut_rules [OF core]) auto
  have ok: "cls_rule_is_loose_match (rules_of br r) (cr_match ?cr) \<longleftrightarrow>
      (\<forall>f. flow_wf f \<longrightarrow> matches (cr_match (rules_of br r)) f \<longrightarrow> matches (minimatch_init m) f)"
    if "r \<in> rules_at br t" "t \<in> set (matching_tables br table_id)" for r t
    using loose_match_packets [OF rule_ok_wf(1) [OF cls_rules_ok [OF core_cls [OF core in_matching_tables [OF that(2)]] that(1)]] wf]
    unfolding cr .
  have "set (ut_rules br sel) = {o_cls_rule (rstore br r) |r t. t \<in> set (matching_tables br table_id) \<and> r \<in> rules_at br t
        \<and> (\<forall>f. flow_wf f \<longrightarrow> matches (cr_match (rules_of br r)) f \<longrightarrow> matches (minimatch_init m) f)}"
  proof -
    have "r \<in> set sel \<longleftrightarrow> (\<exists>t. t \<in> set (matching_tables br table_id) \<and> r \<in> rules_at br t
        \<and> (\<forall>f. flow_wf f \<longrightarrow> matches (cr_match (rules_of br r)) f \<longrightarrow> matches (minimatch_init m) f))" for r
      unfolding sel_def in_selected using ok by blast
    then show ?thesis by (auto simp: ut_rules_def)
  qed
  moreover have "ecall_collect_rules_loose_r br (n_tables br) buf (int (length buf)) table_id m =
      (if length (ut_rules br sel) \<le> length buf then Some (ut_rules br sel @ drop (length (ut_rules br sel)) buf, length (ut_rules br sel)) else None)"
    if "length buf < 2 ^ 31" for buf
  proof -
    have "size_of_int (int (length buf)) = length buf" using that by (simp add: size_of_int_def)
    then show ?thesis
      using collect_r_fits [of 0 "ut_rules br sel" buf "length buf"] collect_r_overruns [of buf 0 "ut_rules br sel" "length buf"]
      by (simp add: ecall_collect_rules_loose_r_def l)
  qed
  ultimately show ?thesis using l d by (intro exI [of _ "ut_rules br sel"]) (simp add: ecall_collect_rules_loose_c_def)
qed

theorem collect_rules_loose_correct_witness:
  "\<exists>rs. ecall_collect_rules_loose_c ex_added 2 0xff ex_match = Some (length rs) \<and> distinct rs
    \<and> set rs = {o_cls_rule (rstore ex_added r) |r t. t \<in> set (matching_tables ex_added 0xff) \<and> r \<in> rules_at ex_added t
        \<and> (\<forall>f. flow_wf f \<longrightarrow> matches (cr_match (rules_of ex_added r)) f \<longrightarrow> matches (minimatch_init ex_match) f)}
    \<and> ecall_collect_rules_loose_r ex_added 2 [7, 7] 2 0xff ex_match = (if length rs \<le> 2 then Some (rs @ drop (length rs) [7, 7], length rs) else None)"
proof -
  have n: "0 \<le> n_tables ex_added" "n_tables ex_added \<le> 255" by (simp_all add: ex_added_ok(4))
  from collect_rules_loose_correct [OF ex_added_ok(1) n, of "0xff" ex_match, unfolded ex_added_ok(4)] obtain rs where
    rs: "ecall_collect_rules_loose_c ex_added 2 0xff ex_match = Some (length rs)" "distinct rs"
    "set rs = {o_cls_rule (rstore ex_added r) |r t. t \<in> set (matching_tables ex_added 0xff) \<and> r \<in> rules_at ex_added t
        \<and> (\<forall>f. flow_wf f \<longrightarrow> matches (cr_match (rules_of ex_added r)) f \<longrightarrow> matches (minimatch_init ex_match) f)}"
    "\<forall>buf. length buf < 2 ^ 31 \<longrightarrow> ecall_collect_rules_loose_r ex_added 2 buf (int (length buf)) 0xff ex_match =
        (if length rs \<le> length buf then Some (rs @ drop (length rs) buf, length rs) else None)"
    by (elim exE conjE) (rule that)
  have "ecall_collect_rules_loose_r ex_added 2 [7, 7] 2 0xff ex_match = (if length rs \<le> 2 then Some (rs @ drop (length rs) [7, 7], length rs) else None)"
    using rs(4) [rule_format, of "[7, 7]"] by simp
  with rs(1-3) show ?thesis by (intro exI [of _ rs] conjI)
qed

text \<open>C29: The loop over the matching tables ends for bridges of up to 255 tables and visits the visible tables in order, or the one
  table asked for. With 256 tables the index of a table wraps around: if the last table is visible the loop over
  all tables does not end.\<close>

theorem matching_tables_loop:
  assumes "bridge_inv br"
  shows "if n_tables br \<le> 255 then FOR_EACH_MATCHING_TABLE br table_id (n_tables br) = Some (matching_tables br table_id)
    else n_tables br = 256 \<and> visible br 255 \<longrightarrow> FOR_EACH_MATCHING_TABLE br 0xff (n_tables br) = None"
proof (cases "n_tables br \<le> 255")
  case True
  then show ?thesis using matching_tables_ok [of br table_id] assms by (simp add: bridge_inv_but_def)
next
  case False
  have n: "nat (n_tables br) = length (oftables br)" using assms by (simp add: bridge_inv_but_def core_inv_def)
  have "FOR_EACH_MATCHING_TABLE br 0xff 256 = None" if "n_tables br = 256" "visible br 255"
    using n matching_wraps [of br 0] that
    by (simp add: FOR_EACH_MATCHING_TABLE_def first_matching_table_def next_visible_ok) (metis not_Some_eq)
  then show ?thesis using False by simp
qed

theorem matching_tables_loop_witness:
  "FOR_EACH_MATCHING_TABLE ex_added 0xff 2 = Some (matching_tables ex_added 0xff)
   \<and> FOR_EACH_MATCHING_TABLE (ecall_ofproto_init_tables (\<lambda>_. 0) boot_bridge 256) 0xff 256 = None"
proof -
  let ?b = "ecall_ofproto_init_tables (\<lambda>_. 0) boot_bridge 256"
  have "reachable 0 ?b" by (rule reachable.boot) (simp_all add: boot_bridge_def)
  then have "bridge_inv ?b" by (rule reachable_inv)
  moreover have "n_tables ?b = 256" "visible ?b 255"
    by (simp_all add: ecall_ofproto_init_tables_def sgx_table_dpif_init_def sgx_table_cls_init_def visible_def)
  ultimately show ?thesis
    using matching_tables_loop [OF ex_added_ok(1), of "0xff"] matching_tables_loop [of ?b "0xff"] by (simp add: ex_added_ok(4))
qed

text \<open>The rules of a table can be read page by page: every call returns at most a buffer full of rules from its start index on and
  the number of rules, and the pages together are the rules of the table, each once.\<close>

theorem get_cls_rules_pages:
  assumes "bridge_inv br" and "t < length (oftables br)" and "length (cls_rules (t_cls (oftables br ! t))) \<le> n * buf"
  shows "(\<forall>start. ecall_oftable_get_cls_rules br t start SIZE_MAX buf =
      Some (take buf (drop start (ut_rules_at br t)), length (ut_rules_at br t)))
    \<and> concat (map (\<lambda>k. fst (the (ecall_oftable_get_cls_rules br t (k * buf) SIZE_MAX buf))) [0..<n]) = ut_rules_at br t
    \<and> distinct (ut_rules_at br t) \<and> rule_of br ` set (ut_rules_at br t) = rules_at br t"
proof -
  have core: "core_inv br" using assms(1) by (simp add: bridge_inv_but_def)
  have e: "ecall_oftable_get_cls_rules br t start SIZE_MAX buf = Some (page_loop start SIZE_MAX buf (ut_rules_at br t) 0 [])" for start
    using assms(2) cursor_all [OF core assms(2)]
    by (simp add: ecall_oftable_get_cls_rules_def get_table_def ut_rules_at_def)
  have len: "length (ut_rules_at br t) = length (cls_rules (t_cls (oftables br ! t)))" by (simp add: ut_rules_at_def ut_rules_def)
  have "concat (map (\<lambda>k. fst (the (ecall_oftable_get_cls_rules br t (k * buf) SIZE_MAX buf))) [0..<n]) = ut_rules_at br t"
    unfolding e option.sel pages_concat using assms(3) len by simp
  moreover have "distinct (ut_rules_at br t)"
    using distinct_ut_rules [OF core, of "[t]" "\<lambda>_. True"] assms(2) by (simp add: selected_def ut_rules_at_def)
  moreover have "ecall_oftable_get_cls_rules br t start SIZE_MAX buf =
      Some (take buf (drop start (ut_rules_at br t)), length (ut_rules_at br t))" for start
    by (simp add: e page_loop_eq)
  ultimately show ?thesis using rule_of_at [OF core assms(2)] by blast
qed

theorem get_cls_rules_pages_witness:
  "let n = length (cls_rules (t_cls (oftables ex_added ! 0))) in
    ecall_oftable_get_cls_rules ex_added 0 0 SIZE_MAX 1 = Some (take 1 (ut_rules_at ex_added 0), length (ut_rules_at ex_added 0))
    \<and> concat (map (\<lambda>k. fst (the (ecall_oftable_get_cls_rules ex_added 0 (k * 1) SIZE_MAX 1))) [0..<n]) = ut_rules_at ex_added 0
    \<and> distinct (ut_rules_at ex_added 0) \<and> rule_of ex_added ` set (ut_rules_at ex_added 0) = rules_at ex_added 0"
proof -
  let ?n = "length (cls_rules (t_cls (oftables ex_added ! 0)))"
  have "0 < length (oftables ex_added)" "?n \<le> ?n * 1" by (simp_all add: ex_added_ok(3))
  note p = get_cls_rules_pages [OF ex_added_ok(1) this]
  show ?thesis unfolding Let_def using p [THEN conjunct1, THEN spec [of _ 0]] p [THEN conjunct2] by (simp only: drop_0 simp_thms)
qed

text \<open>Checking a table for tagging: afterwards the two pointers of the table are right (the catch-all table of masks, and the only
  other one, if there are at most two), the result says whether they changed, and nothing else has changed. With
  such an other table the tag of a packet computed from the table is the one computed from any of its rules
  that is not a catch-all, whose tag is 0.\<close>

theorem update_taggable_correct:
  assumes "bridge_inv br" and "t < length (oftables br)"
  shows "\<exists>code br'. ecall_oftable_update_taggable br t = Some (code, br') \<and> bridge_inv br' \<and> tagged br' t
    \<and> oftables br' = oftables br \<and> reg br' = reg br \<and> (if br' = br then code = 0 else code = 4)
    \<and> (\<forall>ct o_cr r f. other_table (table_dpif br' ! t) = Some ct \<longrightarrow> sgx_rule_from_ut_cr br' o_cr = Some r \<longrightarrow> r \<in> rules_at br' t \<longrightarrow>
        ecall_rule_calculate_tag br' o_cr f t =
          (if minimask_is_catchall (rule_mask (rules_of br') r) then Some 0 else ecall_rule_calculate_tag_s br' t f))"
proof -
  obtain code d where u: "ecall_oftable_update_taggable br t = Some (code, br\<lparr>table_dpif := (table_dpif br)[t := d]\<rparr>)"
    "code = (if d = table_dpif br ! t then 0 else 4)" "tagged (br\<lparr>table_dpif := (table_dpif br)[t := d]\<rparr>) t"
    by (rule update_taggable_ok [OF assms])
  let ?b = "br\<lparr>table_dpif := (table_dpif br)[t := d]\<rparr>"
  have i: "bridge_inv ?b" by (rule bridge_put_dpif [OF assms(1)])
  have t: "t < length (table_dpif br)" using assms by (simp add: bridge_inv_but_def core_inv_def)
  have "?b = br \<longleftrightarrow> d = table_dpif br ! t" using t by (metis (no_types, lifting) bridge.select_convs(2) bridge.update_convs(2) bridge.surjective list_update_id nth_list_update_eq)
  moreover have "ecall_rule_calculate_tag ?b o_cr f t =
      (if minimask_is_catchall (rule_mask (rules_of ?b) r) then Some 0 else ecall_rule_calculate_tag_s ?b t f)"
    if "other_table (table_dpif ?b ! t) = Some ct" "sgx_rule_from_ut_cr ?b o_cr = Some r" "r \<in> rules_at ?b t" for ct o_cr r f
    by (rule tags_agree [OF i _ u(3) that]) (use assms(2) in simp)
  ultimately show ?thesis using u i by (intro exI [of _ code] exI [of _ ?b]) simp
qed

theorem update_taggable_correct_witness:
  "\<exists>code br'. ecall_oftable_update_taggable ex_added 0 = Some (code, br') \<and> bridge_inv br' \<and> tagged br' 0
    \<and> oftables br' = oftables ex_added \<and> reg br' = reg ex_added \<and> (if br' = ex_added then code = 0 else code = 4)
    \<and> (\<forall>ct o_cr r f. other_table (table_dpif br' ! 0) = Some ct \<longrightarrow> sgx_rule_from_ut_cr br' o_cr = Some r \<longrightarrow> r \<in> rules_at br' 0 \<longrightarrow>
        ecall_rule_calculate_tag br' o_cr f 0 =
          (if minimask_is_catchall (rule_mask (rules_of br') r) then Some 0 else ecall_rule_calculate_tag_s br' 0 f))"
  by (rule update_taggable_correct [OF ex_added_ok(1)]) (simp add: ex_added_ok(3))

end
