(* ===== verification/App_Spec.thy ===== *)
theory App_Spec
  imports App Bridge_Spec
begin

text \<open>
  What the switch gets from its wrappers (\<open>OFTonSGX/untrusted/app.c\<close>) in the build with hot calls, compared with the build
  that enters the enclave directly.
\<close>

section \<open>An example state\<close>

definition ex_env :: env where
  "ex_env = \<lparr>e_stack = replicate 8 0xAA, e_indet = oftable_init, e_value = replicate 16 0, e_pages = (\<lambda>_. 0), e_mem = (\<lambda>_. replicate 8 0)\<rparr>"

lemma ex_env_ok: "env_ok ex_env"
  by (simp add: env_ok_def ex_env_def)

definition ex_cache :: flow_map_cache where
  "ex_cache = the (flow_map_cache_init (\<lambda>_. 0) fresh_nodes (\<lambda>_. \<lparr>ce_cr = 0, ce_hash = 0, ce_nr = 0\<rparr>))"

definition ex_sgx :: sgx where
  "ex_sgx = \<lparr>sx_enclave = (\<lambda>_. ex_bridge), sx_cache = ex_cache\<rparr>"

lemma ex_cache_ok: "cache_ok ex_sgx"
proof -
  obtain c where "flow_map_cache_init (\<lambda>_. 0) fresh_nodes (\<lambda>_. \<lparr>ce_cr = 0, ce_hash = 0, ce_nr = 0\<rparr>) = Some c" "cache_inv c [1, 2, 3, 4, 5]"
    using cache_init_ok [OF fresh_nodes_dom] by blast
  then show ?thesis by (auto simp: cache_ok_def ex_sgx_def ex_cache_def)
qed

lemma ex_lookup: "ecall_oftable_cls_lookup ex_bridge 0 (replicate FLOW_U32S 0) None = Some (None, None)"
  by (simp add: ecall_oftable_cls_lookup_def ex_bridge_def ecall_ofproto_init_tables_def sgx_table_dpif_init_def sgx_table_cls_init_def
    get_table_def oftable_init_def classifier_lookup_def classifier_init_def)

section \<open>The wrappers\<close>





text \<open>C40: Where hot calls differ. A count comes back with the right low half, but its high half is whatever the stack held: it is the count of
  the direct call exactly when those four bytes are zero. \<open>SGX_miniflow_expand_and_tag\<close> returns four bytes of the stack
  instead of the tag, and \<open>SGX_cls_rules_format\<close> does nothing.\<close>

theorem hot_calls_differ:
  assumes "env_ok e" and "unat n < 256"
  shows "SGX_collect_rules_loose_c e True b n t m s = counted e (SGX_collect_rules_loose_c e False b n t m s) \<and> 
    SGX_collect_rules_strict_c e True b n t m p s = counted e (SGX_collect_rules_strict_c e False b n t m p s) \<and> 
    SGX_oftable_enable_eviction_c e True b t s = counted e (SGX_oftable_enable_eviction_c e False b t s) \<and> 
    SGX_collect_ofmonitor_util_c e True b n t mm s = counted e (SGX_collect_ofmonitor_util_c e False b n t mm s) \<and> 
    SGX_flush_c e True b s = counted e (SGX_flush_c e False b s) \<and> 
    SGX_flow_stats_c e True b s = counted e (SGX_flow_stats_c e False b s) \<and> 
    SGX_dpif_destroy_c e True b s = counted e (SGX_dpif_destroy_c e False b s) \<and> 
    SGX_ofproto_get_vlan_usage_c e True b s = counted e (SGX_ofproto_get_vlan_usage_c e False b s) \<and>
    (\<forall>v outs s'. SGX_flush_c e False b s = Some (v, outs, s') \<longrightarrow> unat v < 2 ^ 32 \<longrightarrow>
      (SGX_flush_c e True b s = Some (v, outs, s') \<longleftrightarrow> take 4 (drop 4 (e_stack e)) = replicate 4 0)) \<and>
    (\<forall>v fl s'. SGX_miniflow_expand_and_tag e False b cr t s = Some (v, fl, s') \<longrightarrow>
      SGX_miniflow_expand_and_tag e True b cr t s = Some (of_le (take 4 (e_stack e)), fl, s')) \<and>
    SGX_cls_rules_format e True b cr k s = Some ((), [], s)"
  by (intro conjI allI impI counted_exact [OF assms(1) hot_SGX_flush_c [OF assms(1)]] hot_miniflow_expand_and_tag [OF assms(1)] hot_cls_rules_format;
    ((rule hot_SGX_collect_rules_loose_c hot_SGX_collect_rules_strict_c hot_SGX_oftable_enable_eviction_c hot_SGX_collect_ofmonitor_util_c hot_SGX_flush_c hot_SGX_flow_stats_c hot_SGX_dpif_destroy_c hot_SGX_ofproto_get_vlan_usage_c; use assms in simp) | assumption))

theorem hot_calls_differ_witness:
  "SGX_collect_rules_loose_c ex_env True 0 2 0xff ex_match ex_sgx = counted ex_env (SGX_collect_rules_loose_c ex_env False 0 2 0xff ex_match ex_sgx)"
  by (rule conjunct1 [OF hot_calls_differ [OF ex_env_ok, of 2]]) simp

end
