(* ===== verification/Hotcall.thy ===== *)
theory Hotcall
  imports OVS_List
begin

text \<open>
  The calls into the enclave without a transition (\<open>OFTonSGX/untrusted/hotcall-untrusted.c\<close> and \<open>.h\<close>, the macro
  \<open>HCALL\<close> of \<open>untrusted/app.c\<close>, \<open>untrusted/spinlock.c\<close>, \<open>trusted/hotcall-trusted.c\<close>).

  Two threads share a \<open>struct hotcall\<close>: the caller queues calls and, for one that is not asynchronous, raises
  \<open>run\<close> and waits for \<open>is_done\<close>; the poller in the enclave takes the lock, executes the queued calls and sets
  \<open>is_done\<close>. Each thread has a program counter, and a step of either is one access to the lock or to a
  flag, the queueing of one call, or the execution of one call; the steps of the two are interleaved
  arbitrarily. Queueing a call is one step because no reachable state lets the poller use the queue
  then, which is part of the invariant. What a call does in the enclave is the argument \<open>exec\<close>; \<open>'c\<close> is the content
  of a \<open>struct function_call\<close>. The lock of the SDK in the enclave works like that of \<open>spinlock.c\<close>, which is a copy of it.
  The build without \<open>TIMEOUT\<close> is modelled: the poller never sleeps.
\<close>

section \<open>State\<close>

datatype upc = U_next | U_clear_done | U_set_run | U_lock | U_spin | U_check | U_unlock_done | U_unlock_retry

datatype tpc = T_lock | T_spin | T_check | T_take | T_first | T_loop ptr | T_done | T_unlock

record ('c, 's) hot =
  hc_spinlock :: u32
  hc_run :: bool
  hc_is_done :: bool
  hc_queue :: list_store
  pfc_fcs :: "ptr \<Rightarrow> 'c"
  pfc_idx :: nat
  enclave :: 's
  todo :: "('c \<times> bool) list"
  upc :: upc
  tpc :: tpc

definition ecall_queue :: ptr where "ecall_queue = 0"
definition pfc_len :: nat where "pfc_len = 20"

text \<open>The address of the list node of \<open>pfc.fcs[i]\<close>.\<close>

definition fcs_node :: "nat \<Rightarrow> ptr" where "fcs_node i = Suc i"

section \<open>The spinlock\<close>

text \<open>\<open>xchg\<close> with 1; the lock is taken when it was 0.\<close>

definition spin_xchg :: "('c, 's) hot \<Rightarrow> bool \<times> ('c, 's) hot" where
  "spin_xchg h = (hc_spinlock h = 0, h\<lparr>hc_spinlock := 1\<rparr>)"

definition sgx_spin_unlock :: "('c, 's) hot \<Rightarrow> ('c, 's) hot" where
  "sgx_spin_unlock h = h\<lparr>hc_spinlock := 0\<rparr>"

section \<open>The caller\<close>

definition get_fcall :: "'c \<Rightarrow> ('c, 's) hot \<Rightarrow> ptr \<times> ('c, 's) hot" where
  "get_fcall c h = (let e = fcs_node (pfc_idx h); i = pfc_idx h + 1 in
     (e, h\<lparr>pfc_fcs := (pfc_fcs h)(e := c), pfc_idx := (if i = pfc_len then 0 else i)\<rparr>))"

definition HCALL :: "'c \<Rightarrow> bool \<Rightarrow> ('c, 's) hot \<Rightarrow> ('c, 's) hot option" where
  "HCALL c async h = (let (e, h) = get_fcall c h in do {
     q \<leftarrow> list_insert (hc_queue h) ecall_queue e;
     Some (h\<lparr>hc_queue := q, upc := (if async then U_next else U_clear_done)\<rparr>) })"

text \<open>\<open>make_hotcall\<close> starts at \<open>U_clear_done\<close>; the program of the caller is the list of its calls.\<close>

definition ustep :: "('c, 's) hot \<Rightarrow> ('c, 's) hot option" where
  "ustep h = (case upc h of
     U_next \<Rightarrow> (case todo h of [] \<Rightarrow> None | (c, async) # cs \<Rightarrow> HCALL c async (h\<lparr>todo := cs\<rparr>))
   | U_clear_done \<Rightarrow> Some (h\<lparr>hc_is_done := False, upc := U_set_run\<rparr>)
   | U_set_run \<Rightarrow> Some (h\<lparr>hc_run := True, upc := U_lock\<rparr>)
   | U_lock \<Rightarrow> (let (got, h) = spin_xchg h in Some (h\<lparr>upc := (if got then U_check else U_spin)\<rparr>))
   | U_spin \<Rightarrow> Some (h\<lparr>upc := (if hc_spinlock h \<noteq> 0 then U_spin else U_lock)\<rparr>)
   | U_check \<Rightarrow> Some (h\<lparr>upc := (if hc_is_done h then U_unlock_done else U_unlock_retry)\<rparr>)
   | U_unlock_done \<Rightarrow> Some ((sgx_spin_unlock h)\<lparr>upc := U_next\<rparr>)
   | U_unlock_retry \<Rightarrow> Some ((sgx_spin_unlock h)\<lparr>upc := U_lock\<rparr>))"

section \<open>The poller\<close>

definition tstep :: "('c \<Rightarrow> 's \<Rightarrow> 's) \<Rightarrow> ('c, 's) hot \<Rightarrow> ('c, 's) hot option" where
  "tstep exec h = (case tpc h of
     T_lock \<Rightarrow> (let (got, h) = spin_xchg h in Some (h\<lparr>tpc := (if got then T_check else T_spin)\<rparr>))
   | T_spin \<Rightarrow> Some (h\<lparr>tpc := (if hc_spinlock h \<noteq> 0 then T_spin else T_lock)\<rparr>)
   | T_check \<Rightarrow> Some (h\<lparr>tpc := (if hc_run h then T_take else T_unlock)\<rparr>)
   | T_take \<Rightarrow> Some (h\<lparr>hc_run := False, tpc := T_first\<rparr>)
   | T_first \<Rightarrow> do { e \<leftarrow> get_next (hc_queue h) ecall_queue; Some (h\<lparr>tpc := T_loop e\<rparr>) }
   | T_loop e \<Rightarrow>
       if e = ecall_queue then Some (h\<lparr>tpc := T_done\<rparr>)
       else do {
         nxt \<leftarrow> get_next (hc_queue h) e;
         let h = h\<lparr>enclave := exec (pfc_fcs h e) (enclave h)\<rparr>;
         (q, _) \<leftarrow> list_remove (hc_queue h) e;
         Some (h\<lparr>hc_queue := q, tpc := T_loop nxt\<rparr>) }
   | T_done \<Rightarrow> Some (h\<lparr>hc_is_done := True, tpc := T_unlock\<rparr>)
   | T_unlock \<Rightarrow> Some ((sgx_spin_unlock h)\<lparr>tpc := T_lock\<rparr>))"

inductive hstep :: "('c \<Rightarrow> 's \<Rightarrow> 's) \<Rightarrow> ('c, 's) hot \<Rightarrow> ('c, 's) hot \<Rightarrow> bool" for exec where
  caller: "ustep h = Some h' \<Longrightarrow> hstep exec h h'"
| poller: "tstep exec h = Some h' \<Longrightarrow> hstep exec h h'"

text \<open>\<open>hotcall_init\<close>: \<open>nodes\<close> is the memory of the list nodes, \<open>fcs\<close> that of the calls.\<close>

definition hotcall_init :: "list_store \<Rightarrow> (ptr \<Rightarrow> 'c) \<Rightarrow> ('c \<times> bool) list \<Rightarrow> 's \<Rightarrow> ('c, 's) hot option" where
  "hotcall_init nodes fcs prog s = do {
     q \<leftarrow> list_init nodes ecall_queue;
     Some \<lparr>hc_spinlock = 0, hc_run = False, hc_is_done = False, hc_queue = q, pfc_fcs = fcs, pfc_idx = 0,
       enclave = s, todo = prog, upc = U_next, tpc = T_lock\<rparr> }"

section \<open>Invariant\<close>

text \<open>No more than 20 calls are ever waiting: \<open>k\<close> are, and \<open>prog\<close> is to come.\<close>

fun fits :: "nat \<Rightarrow> ('c \<times> bool) list \<Rightarrow> bool" where
  "fits k [] = True"
| "fits k ((c, async) # cs) = (k < pfc_len \<and> fits (if async then k + 1 else 0) cs)"

text \<open>The \<open>k\<close> nodes that were taken last from the ring.\<close>

definition ring_nodes :: "nat \<Rightarrow> nat \<Rightarrow> ptr list" where
  "ring_nodes i k = map (\<lambda>j. fcs_node ((i + pfc_len - k + j) mod pfc_len)) [0..<k]"

definition u_inside :: "('c, 's) hot \<Rightarrow> bool" where
  "u_inside h \<longleftrightarrow> upc h \<in> {U_check, U_unlock_done, U_unlock_retry}"

definition t_inside :: "('c, 's) hot \<Rightarrow> bool" where
  "t_inside h \<longleftrightarrow> tpc h \<notin> {T_lock, T_spin}"

text \<open>The poller is between two rounds, or at work on the queue.\<close>

definition t_idle :: "('c, 's) hot \<Rightarrow> bool" where
  "t_idle h \<longleftrightarrow> tpc h \<in> {T_lock, T_spin, T_check, T_unlock}"

definition t_at_work :: "('c, 's) hot \<Rightarrow> bool" where
  "t_at_work h \<longleftrightarrow> tpc h \<in> {T_first, T_done} \<or> (\<exists>e. tpc h = T_loop e)"

definition queue_inv :: "('c, 's) hot \<Rightarrow> ptr list \<Rightarrow> bool" where
  "queue_inv h ns \<longleftrightarrow> is_list (hc_queue h) ecall_queue ns \<and> {0..pfc_len} \<subseteq> dom (hc_queue h) \<and> pfc_idx h < pfc_len
     \<and> length ns \<le> pfc_len \<and> ns = ring_nodes (pfc_idx h) (length ns)
     \<and> (\<forall>e. tpc h = T_loop e \<longrightarrow> e = hd (ns @ [ecall_queue])) \<and> (tpc h = T_done \<longrightarrow> ns = [])"

definition lock_inv :: "('c, 's) hot \<Rightarrow> bool" where
  "lock_inv h \<longleftrightarrow> (hc_spinlock h \<noteq> 0 \<longleftrightarrow> u_inside h \<or> t_inside h) \<and> \<not> (u_inside h \<and> t_inside h)"

definition phase_inv :: "('c, 's) hot \<Rightarrow> ptr list \<Rightarrow> bool" where
  "phase_inv h ns \<longleftrightarrow> (case upc h of
     U_next \<Rightarrow> \<not> hc_run h \<and> t_idle h \<and> fits (length ns) (todo h)
   | U_clear_done \<Rightarrow> \<not> hc_run h \<and> t_idle h
   | U_set_run \<Rightarrow> \<not> hc_run h \<and> \<not> hc_is_done h \<and> t_idle h
   | U_unlock_done \<Rightarrow> \<not> hc_run h \<and> t_idle h \<and> ns = []
   | _ \<Rightarrow> hc_run h \<and> \<not> hc_is_done h \<and> (t_idle h \<or> tpc h = T_take)
       \<or> \<not> hc_run h \<and> \<not> hc_is_done h \<and> t_at_work h
       \<or> \<not> hc_run h \<and> hc_is_done h \<and> t_idle h \<and> ns = [])
   \<and> (upc h \<noteq> U_next \<longrightarrow> fits 0 (todo h))"

text \<open>What was executed, what is queued and what is to come make up the program.\<close>

definition order_inv :: "('c \<Rightarrow> 's \<Rightarrow> 's) \<Rightarrow> ('c \<times> bool) list \<Rightarrow> 's \<Rightarrow> ('c, 's) hot \<Rightarrow> ptr list \<Rightarrow> bool" where
  "order_inv exec prog s h ns \<longleftrightarrow> (\<exists>xs ys. prog = xs @ ys @ todo h \<and> map fst ys = map (pfc_fcs h) ns
     \<and> (upc h = U_next \<longrightarrow> list_all snd ys) \<and> enclave h = fold exec (map fst xs) s)"

definition hinv :: "('c \<Rightarrow> 's \<Rightarrow> 's) \<Rightarrow> ('c \<times> bool) list \<Rightarrow> 's \<Rightarrow> ('c, 's) hot \<Rightarrow> ptr list \<Rightarrow> bool" where
  "hinv exec prog s h ns \<longleftrightarrow> queue_inv h ns \<and> lock_inv h \<and> phase_inv h ns \<and> order_inv exec prog s h ns"

lemmas hinv_defs = hinv_def queue_inv_def lock_inv_def phase_inv_def order_inv_def

lemmas pc_defs = u_inside_def t_inside_def t_idle_def t_at_work_def

section \<open>The ring of calls\<close>

lemma length_ring_nodes [simp]: "length (ring_nodes i k) = k"
  by (simp add: ring_nodes_def)

lemma ring_nodes_0 [simp]: "ring_nodes i 0 = []"
  by (simp add: ring_nodes_def)

definition ring_next :: "nat \<Rightarrow> nat" where
  "ring_next i = (if i + 1 = pfc_len then 0 else i + 1)"

lemma ring_next_less: "i < pfc_len \<Longrightarrow> ring_next i < pfc_len"
  by (auto simp: ring_next_def pfc_len_def)

lemma ring_shift:
  assumes "i < pfc_len" and "k < pfc_len"
  shows "(ring_next i + pfc_len - Suc k + j) mod pfc_len = (i + pfc_len - k + j) mod pfc_len"
proof (cases "i + 1 = pfc_len")
  case True
  then have "i + pfc_len - k + j = (ring_next i + pfc_len - Suc k + j) + pfc_len" using assms by (simp add: ring_next_def)
  then show ?thesis by (simp only: mod_add_self2)
next
  case False
  then have "ring_next i + pfc_len - Suc k + j = i + pfc_len - k + j" using assms by (simp add: ring_next_def)
  then show ?thesis by simp
qed

lemma ring_nodes_snoc:
  assumes "i < pfc_len" and "k < pfc_len"
  shows "ring_nodes (ring_next i) (Suc k) = ring_nodes i k @ [fcs_node i]"
proof -
  have "(i + pfc_len - k + k) mod pfc_len = i" using assms by simp
  then show ?thesis by (simp add: ring_nodes_def ring_shift [OF assms])
qed

lemma ring_nodes_tl:
  assumes "i < pfc_len" and "Suc k \<le> pfc_len"
  shows "tl (ring_nodes i (Suc k)) = ring_nodes i k"
proof -
  have "i + pfc_len - Suc k + Suc j = i + pfc_len - k + j" for j using assms by simp
  then have "map (\<lambda>j. fcs_node ((i + pfc_len - Suc k + j) mod pfc_len)) (map Suc [0..<k]) = ring_nodes i k"
    by (simp add: ring_nodes_def del: map_Suc_upt)
  then show ?thesis by (simp only: ring_nodes_def upt_conv_Cons map_Suc_upt) (simp add: upt_conv_Cons del: upt_Suc)
qed

lemma ring_nodes_fresh:
  assumes "i < pfc_len" and "k < pfc_len"
  shows "fcs_node i \<notin> set (ring_nodes i k)"
proof
  assume "fcs_node i \<in> set (ring_nodes i k)"
  then obtain j where j: "j < k" "(i + pfc_len - k + j) mod pfc_len = i" by (auto simp: ring_nodes_def fcs_node_def)
  have "i + pfc_len - k + j < i + pfc_len" "i < i + pfc_len - k + j" using j(1) assms by simp_all
  then show False using j(2) assms mod_if [of "i + pfc_len - k + j" pfc_len] by (cases "i + pfc_len - k + j < pfc_len") auto
qed

section \<open>The invariant is kept\<close>

lemma HCALL_ok:
  assumes q: "queue_inv h ns" and k: "length ns < pfc_len" and t: "t_idle h"
  obtains h' where "HCALL c async h = Some h'" "queue_inv h' (ns @ [fcs_node (pfc_idx h)])"
    "h' = h\<lparr>hc_queue := hc_queue h', pfc_fcs := (pfc_fcs h)(fcs_node (pfc_idx h) := c), pfc_idx := ring_next (pfc_idx h),
        upc := (if async then U_next else U_clear_done)\<rparr>"
    "fcs_node (pfc_idx h) \<notin> set ns"
proof -
  let ?e = "fcs_node (pfc_idx h)"
  have l: "is_list (hc_queue h) ecall_queue ns" and d: "{0..pfc_len} \<subseteq> dom (hc_queue h)" and i: "pfc_idx h < pfc_len"
    and ns: "ns = ring_nodes (pfc_idx h) (length ns)" using q by (simp_all add: queue_inv_def)
  have f: "?e \<notin> set ns" using ring_nodes_fresh [OF i k] ns by simp
  have "?e \<in> dom (hc_queue h)" by (rule subsetD [OF d]) (use i in \<open>simp add: fcs_node_def\<close>)
  moreover have "?e \<notin> insert ecall_queue (set ns)" using f by (simp add: fcs_node_def ecall_queue_def)
  ultimately obtain q' where q': "list_push_back (hc_queue h) ecall_queue ?e = Some q'" "is_list q' ecall_queue (ns @ [?e])"
    "(\<lambda>p. p \<in> dom q') = (\<lambda>p. p \<in> dom (hc_queue h))"
    using ovs_list.push_back [OF l] by blast
  have dq: "dom q' = dom (hc_queue h)" using q'(3) by (auto simp: fun_eq_iff)
  let ?h = "h\<lparr>hc_queue := q', pfc_fcs := (pfc_fcs h)(?e := c), pfc_idx := ring_next (pfc_idx h), upc := (if async then U_next else U_clear_done)\<rparr>"
  have "HCALL c async h = Some ?h" using q'(1) by (simp add: HCALL_def get_fcall_def Let_def list_push_back_def ring_next_def)
  moreover have "queue_inv ?h (ns @ [?e])"
    using q'(2) dq d ring_next_less [OF i] k ring_nodes_snoc [OF i k] ns t by (auto simp: queue_inv_def t_idle_def)
  ultimately show thesis using that [of ?h] f by simp
qed

lemma ustep_queue:
  assumes "ustep h = Some h'" and "upc h \<noteq> U_next" and "queue_inv h ns"
  shows "queue_inv h' ns"
  using assms by (auto simp: ustep_def queue_inv_def spin_xchg_def sgx_spin_unlock_def split: upc.splits)

lemma ustep_order:
  assumes "ustep h = Some h'" and "upc h \<noteq> U_next" and "order_inv exec prog s h ns" and "upc h = U_unlock_done \<Longrightarrow> ns = []"
  shows "order_inv exec prog s h' ns"
proof -
  have "todo h' = todo h" "pfc_fcs h' = pfc_fcs h" "enclave h' = enclave h" "upc h' = U_next \<Longrightarrow> upc h = U_unlock_done"
    using assms(1,2) by (auto simp: ustep_def spin_xchg_def sgx_spin_unlock_def split: upc.splits if_splits)
  with assms(3,4) show ?thesis unfolding order_inv_def by fastforce
qed

lemma ustep_lock:
  assumes "ustep h = Some h'" and "upc h \<noteq> U_next" and "lock_inv h"
  shows "lock_inv h'"
  using assms by (auto simp: ustep_def lock_inv_def pc_defs spin_xchg_def sgx_spin_unlock_def split: upc.splits if_splits)

lemma ustep_phase:
  assumes "ustep h = Some h'" and "upc h \<noteq> U_next" and "lock_inv h" and "phase_inv h ns" and "upc h = U_unlock_done \<Longrightarrow> ns = []"
  shows "phase_inv h' ns"
proof -
  have fr: "tpc h' = tpc h" "todo h' = todo h"
    using assms(1,2) by (auto simp: ustep_def spin_xchg_def sgx_spin_unlock_def split: upc.splits)
  then have ti: "t_idle h' = t_idle h" "t_at_work h' = t_at_work h" by (simp_all add: t_idle_def t_at_work_def)
  have aw: "t_at_work h \<Longrightarrow> t_inside h" "tpc h = T_take \<Longrightarrow> t_inside h" by (auto simp: pc_defs)
  have ui: "upc h = U_check \<Longrightarrow> \<not> t_inside h" using assms(3) by (simp add: lock_inv_def u_inside_def)
  show ?thesis
  proof (cases "upc h")
    case U_check
    then have "upc h' = (if hc_is_done h then U_unlock_done else U_unlock_retry)" "hc_run h' = hc_run h" "hc_is_done h' = hc_is_done h"
      using assms(1) by (auto simp: ustep_def)
    then show ?thesis using U_check assms(4) aw ui fr ti by (cases "hc_is_done h") (auto simp: phase_inv_def)
  qed (use assms fr ti in \<open>simp_all add: ustep_def phase_inv_def spin_xchg_def sgx_spin_unlock_def, auto split: if_splits\<close>)
qed

lemma ustep_inv:
  assumes st: "ustep h = Some h'" and inv: "hinv exec prog s h ns"
  shows "\<exists>ns'. hinv exec prog s h' ns'"
proof (cases "upc h = U_next")
  case False
  have e: "upc h = U_unlock_done \<Longrightarrow> ns = []" using inv by (simp add: hinv_def phase_inv_def)
  show ?thesis
    using ustep_queue [OF st False] ustep_order [OF st False _ e] ustep_lock [OF st False] ustep_phase [OF st False _ _ e] inv
    unfolding hinv_def by blast
next
  case True
  obtain c async cs where t: "todo h = (c, async) # cs" and H: "HCALL c async (h\<lparr>todo := cs\<rparr>) = Some h'"
    using st True by (auto simp: ustep_def split: list.splits)
  let ?g = "h\<lparr>todo := cs\<rparr>" and ?e = "fcs_node (pfc_idx h)"
  have q: "queue_inv ?g ns" and k: "length ns < pfc_len" and ti: "t_idle ?g" and f: "fits (if async then length ns + 1 else 0) cs"
    and r: "\<not> hc_run h" and l: "lock_inv h"
    using inv True t by (auto simp: hinv_defs t_idle_def)
  obtain xs ys where o: "prog = xs @ ys @ todo h" "map fst ys = map (pfc_fcs h) ns" "list_all snd ys" "enclave h = fold exec (map fst xs) s"
    using inv True by (auto simp: hinv_def order_inv_def)
  obtain h1 where h1: "HCALL c async ?g = Some h1" "queue_inv h1 (ns @ [?e])"
    "h1 = ?g\<lparr>hc_queue := hc_queue h1, pfc_fcs := (pfc_fcs ?g)(?e := c), pfc_idx := ring_next (pfc_idx ?g), upc := (if async then U_next else U_clear_done)\<rparr>"
    "?e \<notin> set ns"
    using HCALL_ok [OF q k ti, of c async] by auto
  have h': "h' = h1" using H h1(1) by simp
  have fl: "hc_run h' = hc_run h" "hc_spinlock h' = hc_spinlock h" "tpc h' = tpc h" "todo h' = cs" "enclave h' = enclave h"
    "upc h' = (if async then U_next else U_clear_done)" "pfc_fcs h' = (pfc_fcs h)(?e := c)"
    unfolding h' by (subst h1(3), simp)+
  have "lock_inv h'" using l fl(2,3,6) True by (auto simp: lock_inv_def pc_defs)
  moreover have "phase_inv h' (ns @ [?e])"
    using r ti f fl(1,3,4,6) by (auto simp: phase_inv_def t_idle_def)
  moreover have "order_inv exec prog s h' (ns @ [?e])"
  proof -
    have "map fst (ys @ [(c, async)]) = map (pfc_fcs h') (ns @ [?e])" using o(2) h1(4) fl(7) by auto
    then show ?thesis unfolding order_inv_def using o(1,3,4) t fl(4,5,6)
      by (intro exI [of _ xs] exI [of _ "ys @ [(c, async)]"]) auto
  qed
  ultimately show ?thesis using h1(2) h' unfolding hinv_def by blast
qed

text \<open>The poller: the loop over the queue first, then its other steps.\<close>

lemma t_loop_inv:
  assumes pc: "tpc h = T_loop e" and st: "tstep exec h = Some h'" and inv: "hinv exec prog s h ns"
  shows "hinv exec prog s h' (tl ns) \<and> (ns = [] \<longrightarrow> tpc h' = T_done) \<and> (ns \<noteq> [] \<longrightarrow> (\<exists>e'. tpc h' = T_loop e')) \<and> upc h' = upc h
    \<and> hc_run h' = hc_run h \<and> hc_is_done h' = hc_is_done h \<and> todo h' = todo h"
proof (cases ns)
  case Nil
  then have "e = ecall_queue" using inv pc by (simp add: hinv_def queue_inv_def)
  then have h': "h' = h\<lparr>tpc := T_done\<rparr>" using st pc by (simp add: tstep_def)
  have "queue_inv h' ns" "order_inv exec prog s h' ns" using inv Nil by (simp_all add: h' hinv_def queue_inv_def order_inv_def)
  moreover have "lock_inv h'" "phase_inv h' ns" using inv pc
    by (auto simp: h' hinv_def lock_inv_def phase_inv_def pc_defs split: upc.splits)
  ultimately show ?thesis using Nil h' by (simp add: hinv_def)
next
  case (Cons x ns')
  have q: "queue_inv h (x # ns')" using inv Cons by (simp add: hinv_def)
  then have l: "is_list (hc_queue h) ecall_queue (x # ns')" by (simp only: queue_inv_def)
  have e: "e = x" using q pc by (simp add: queue_inv_def)
  have ne: "e \<noteq> ecall_queue" using l e by (auto simp: is_list_def)
  have g: "get_next (hc_queue h) e = Some (hd (ns' @ [ecall_queue]))"
    using l e lseg_append_Cons [of "hc_queue h" x ns' ecall_queue] by (simp add: is_list_def)
  obtain q' n where q': "list_remove (hc_queue h) e = Some (q', n)" "is_list q' ecall_queue ns'" "(\<lambda>p. p \<in> dom q') = (\<lambda>p. p \<in> dom (hc_queue h))"
    using ovs_list.remove [of "hc_queue h" ecall_queue "[]" x ns'] l e by auto
  have dq: "dom q' = dom (hc_queue h)" using q'(3) by (auto simp: fun_eq_iff)
  have h': "h' = h\<lparr>enclave := exec (pfc_fcs h e) (enclave h), hc_queue := q', tpc := T_loop (hd (ns' @ [ecall_queue]))\<rparr>"
    using st pc ne g q'(1) by (simp add: tstep_def Let_def)
  have "ns' = ring_nodes (pfc_idx h) (length ns')"
    using q ring_nodes_tl [of "pfc_idx h" "length ns'"] unfolding queue_inv_def by (metis length_Cons list.sel(3))
  then have "queue_inv h' ns'" using q q'(2) dq by (auto simp: h' queue_inv_def)
  moreover have "lock_inv h'" "phase_inv h' ns'" using inv pc Cons
    by (auto simp: h' hinv_def lock_inv_def phase_inv_def pc_defs split: upc.splits)
  moreover have "order_inv exec prog s h' ns'"
  proof -
    obtain xs ys where o: "prog = xs @ ys @ todo h" "map fst ys = map (pfc_fcs h) ns" "upc h = U_next \<longrightarrow> list_all snd ys" "enclave h = fold exec (map fst xs) s"
      using inv by (auto simp: hinv_def order_inv_def)
    obtain y ys' where ys: "ys = y # ys'" "fst y = pfc_fcs h x" "map fst ys' = map (pfc_fcs h) ns'" using o(2) Cons by (cases ys) auto
    then show ?thesis unfolding order_inv_def
      by (intro exI [of _ "xs @ [y]"] exI [of _ ys']) (use o e in \<open>simp add: h'\<close>)
  qed
  ultimately show ?thesis using Cons h' by (simp add: hinv_def)
qed

lemma t_other_inv:
  assumes pc: "\<nexists>e. tpc h = T_loop e" and st: "tstep exec h = Some h'" and inv: "hinv exec prog s h ns"
  shows "hinv exec prog s h' ns"
proof -
  have q: "queue_inv h ns" and l: "lock_inv h" and p: "phase_inv h ns" and o: "order_inv exec prog s h ns"
    using inv by (simp_all add: hinv_def)
  have fr: "hc_queue h' = hc_queue h" "pfc_idx h' = pfc_idx h" "pfc_fcs h' = pfc_fcs h" "enclave h' = enclave h" "todo h' = todo h" "upc h' = upc h"
    using st pc by (auto simp: tstep_def spin_xchg_def sgx_spin_unlock_def split: tpc.splits bind_splits)
  have "order_inv exec prog s h' ns" using o fr by (simp add: order_inv_def)
  moreover have "lock_inv h'"
    using st pc l by (auto simp: tstep_def lock_inv_def pc_defs spin_xchg_def sgx_spin_unlock_def split: tpc.splits bind_splits if_splits)
  moreover have "queue_inv h' ns"
  proof -
    have "e = hd (ns @ [ecall_queue])" if "tpc h' = T_loop e" for e
    proof -
      have "get_next (hc_queue h) ecall_queue = Some e"
        using st pc that by (auto simp: tstep_def spin_xchg_def sgx_spin_unlock_def split: tpc.splits bind_splits if_splits)
      then show ?thesis using q is_list_ends [of "hc_queue h" ecall_queue ns] by (simp add: queue_inv_def)
    qed
    moreover have "tpc h' \<noteq> T_done"
      using st pc by (auto simp: tstep_def spin_xchg_def sgx_spin_unlock_def split: tpc.splits bind_splits if_splits)
    ultimately show ?thesis using q fr by (simp add: queue_inv_def)
  qed
  moreover have "phase_inv h' ns"
  proof (cases "tpc h")
    case T_done
    then have h': "h' = h\<lparr>hc_is_done := True, tpc := T_unlock\<rparr>" and n: "ns = []" using st q by (simp_all add: tstep_def queue_inv_def)
    show ?thesis using p T_done n by (auto simp: h' phase_inv_def pc_defs split: upc.splits)
  next
    case T_take
    then have h': "h' = h\<lparr>hc_run := False, tpc := T_first\<rparr>" using st by (simp add: tstep_def)
    show ?thesis using p T_take by (auto simp: h' phase_inv_def pc_defs split: upc.splits)
  next
    case T_check
    then have h': "h' = h\<lparr>tpc := (if hc_run h then T_take else T_unlock)\<rparr>" using st by (simp add: tstep_def)
    show ?thesis using p T_check by (cases "hc_run h") (auto simp: h' phase_inv_def pc_defs split: upc.splits)
  next
    case T_first
    then obtain e where h': "h' = h\<lparr>tpc := T_loop e\<rparr>" using st by (auto simp: tstep_def split: bind_splits)
    show ?thesis using p T_first by (auto simp: h' phase_inv_def pc_defs split: upc.splits)
  next
    case T_lock
    then have h': "h' = h\<lparr>hc_spinlock := 1, tpc := (if hc_spinlock h = 0 then T_check else T_spin)\<rparr>" using st by (simp add: tstep_def spin_xchg_def)
    show ?thesis using p T_lock by (auto simp: h' phase_inv_def pc_defs split: upc.splits)
  next
    case T_spin
    then have h': "h' = h\<lparr>tpc := (if hc_spinlock h \<noteq> 0 then T_spin else T_lock)\<rparr>" using st by (simp add: tstep_def)
    show ?thesis using p T_spin by (auto simp: h' phase_inv_def pc_defs split: upc.splits)
  next
    case T_unlock
    then have h': "h' = h\<lparr>hc_spinlock := 0, tpc := T_lock\<rparr>" using st by (simp add: tstep_def sgx_spin_unlock_def)
    show ?thesis using p T_unlock by (auto simp: h' phase_inv_def pc_defs split: upc.splits)
  qed (use pc in simp)
  ultimately show ?thesis by (simp add: hinv_def)
qed

lemma hstep_inv:
  assumes "hstep exec h h'" and "hinv exec prog s h ns"
  shows "\<exists>ns'. hinv exec prog s h' ns'"
  using assms
proof cases
  case caller
  then show ?thesis by (rule ustep_inv [OF _ assms(2)])
next
  case poller
  then show ?thesis using t_loop_inv [OF _ poller assms(2)] t_other_inv [OF _ poller assms(2)] by blast
qed

lemma hsteps_inv:
  assumes "(hstep exec)\<^sup>*\<^sup>* h h'" and "hinv exec prog s h ns"
  shows "\<exists>ns'. hinv exec prog s h' ns'"
  using assms(1)
proof (induction rule: rtranclp_induct)
  case (step y z)
  then obtain ns' where "hinv exec prog s y ns'" by blast
  then show ?case by (rule hstep_inv [OF step.hyps(2)])
qed (use assms(2) in blast)

lemma hotcall_init_inv:
  assumes "{0..pfc_len} \<subseteq> dom nodes" and "fits 0 prog"
  shows "\<exists>h. hotcall_init nodes fcs prog s = Some h \<and> hinv exec prog s h []"
proof -
  have "ecall_queue \<in> dom nodes" by (rule subsetD [OF assms(1)]) (simp add: ecall_queue_def)
  then obtain nd where "nodes ecall_queue = Some nd" by blast
  then have i: "list_init nodes ecall_queue = Some (nodes(ecall_queue \<mapsto> nd\<lparr>prev := ecall_queue, next := ecall_queue\<rparr>))" (is "_ = Some ?q")
    by (simp add: list_init_def set_prev_def set_next_def)
  have "is_list ?q ecall_queue []" by (simp add: is_list_def lnk_def get_next_def get_prev_def)
  moreover have "{0..pfc_len} \<subseteq> dom ?q" using assms(1) by (simp add: subset_insertI2)
  ultimately show ?thesis using i assms(2)
    by (simp add: hotcall_init_def hinv_def queue_inv_def lock_inv_def phase_inv_def order_inv_def pc_defs) (simp add: pfc_len_def)
qed

section \<open>Progress\<close>

text \<open>A bound on the number of steps that a helpful schedule needs to complete the program.\<close>

definition waiting :: "('c, 's) hot \<Rightarrow> bool" where
  "waiting h \<longleftrightarrow> upc h \<in> {U_lock, U_spin, U_check, U_unlock_retry}"

definition rank_raised :: "('c, 's) hot \<Rightarrow> nat" where
  "rank_raised h = 200 + (case upc h of U_check \<Rightarrow> 22 | U_unlock_retry \<Rightarrow> 21 | _ \<Rightarrow> 0)
     + (case tpc h of T_unlock \<Rightarrow> 6 | T_spin \<Rightarrow> 5 | T_lock \<Rightarrow> 4 | T_check \<Rightarrow> 3 | T_take \<Rightarrow> 2 | _ \<Rightarrow> 0)"

definition rank_working :: "('c, 's) hot \<Rightarrow> ptr list \<Rightarrow> nat" where
  "rank_working h ns = 100 + length ns + (case tpc h of T_first \<Rightarrow> 2 | T_loop _ \<Rightarrow> 1 | _ \<Rightarrow> 0)"

definition rank_done :: "('c, 's) hot \<Rightarrow> nat" where
  "rank_done h = 2 + (case tpc h of T_check \<Rightarrow> 20 | T_unlock \<Rightarrow> 10 | _ \<Rightarrow> 0)
     + (case upc h of U_unlock_retry \<Rightarrow> 4 | U_spin \<Rightarrow> 3 | U_lock \<Rightarrow> 2 | U_check \<Rightarrow> 1 | _ \<Rightarrow> 0)"

definition hrank :: "('c, 's) hot \<Rightarrow> ptr list \<Rightarrow> nat" where
  "hrank h ns = 400 * length (todo h) + (case upc h of U_next \<Rightarrow> 0 | U_unlock_done \<Rightarrow> 1 | U_clear_done \<Rightarrow> 301 | U_set_run \<Rightarrow> 300
     | _ \<Rightarrow> if hc_run h then rank_raised h else if hc_is_done h then rank_done h else rank_working h ns)"

lemma rank_bounds: "rank_raised h < 300" "rank_done h < 100" "length ns \<le> pfc_len \<Longrightarrow> rank_working h ns < 200"
  by (simp_all add: rank_raised_def rank_done_def rank_working_def pfc_len_def split: upc.split tpc.split)

lemma hrank_waiting:
  "waiting h \<Longrightarrow> hrank h ns = 400 * length (todo h)
     + (if hc_run h then rank_raised h else if hc_is_done h then rank_done h else rank_working h ns)"
  by (auto simp: hrank_def waiting_def)

definition can_descend :: "('c \<Rightarrow> 's \<Rightarrow> 's) \<Rightarrow> ('c \<times> bool) list \<Rightarrow> 's \<Rightarrow> ('c, 's) hot \<Rightarrow> ptr list \<Rightarrow> bool" where
  "can_descend exec prog s h ns \<longleftrightarrow> (\<exists>h' ns'. hstep exec h h' \<and> hinv exec prog s h' ns' \<and> hrank h' ns' < hrank h ns)"

lemma descend_caller:
  assumes "ustep h = Some h'" and "hinv exec prog s h ns" and "\<And>ns'. hinv exec prog s h' ns' \<Longrightarrow> hrank h' ns' < hrank h ns"
  shows "can_descend exec prog s h ns"
  using ustep_inv [OF assms(1,2)] assms(3) hstep.caller [OF assms(1), of exec] unfolding can_descend_def by blast

lemma descend_poller:
  assumes "tstep exec h = Some h'" and "hinv exec prog s h ns" and "\<nexists>e. tpc h = T_loop e" and "hrank h' ns < hrank h ns"
  shows "can_descend exec prog s h ns"
  using t_other_inv [OF assms(3,1,2)] assms(4) hstep.poller [OF assms(1)] unfolding can_descend_def by blast

lemma descend_calling:
  assumes inv: "hinv exec prog s h ns" and u: "\<not> waiting h" and nf: "\<not> (upc h = U_next \<and> todo h = [])"
  shows "can_descend exec prog s h ns"
proof (cases "upc h = U_next")
  case True
  then obtain c async cs where t: "todo h = (c, async) # cs" using nf by (cases "todo h") auto
  let ?g = "h\<lparr>todo := cs\<rparr>"
  have q: "queue_inv ?g ns" "length ns < pfc_len" "t_idle ?g" using inv True t by (auto simp: hinv_defs t_idle_def)
  obtain h1 where h1: "HCALL c async ?g = Some h1"
    "h1 = ?g\<lparr>hc_queue := hc_queue h1, pfc_fcs := (pfc_fcs ?g)(fcs_node (pfc_idx ?g) := c), pfc_idx := ring_next (pfc_idx ?g), upc := (if async then U_next else U_clear_done)\<rparr>"
    using HCALL_ok [OF q, of c async] by blast
  have st: "ustep h = Some h1" using True t h1(1) by (simp add: ustep_def)
  have "todo h1 = cs" "upc h1 = (if async then U_next else U_clear_done)" by (subst h1(2), simp)+
  then show ?thesis by (intro descend_caller [OF st inv]) (use True t in \<open>simp add: hrank_def\<close>)
next
  case False
  then consider "upc h = U_clear_done" | "upc h = U_set_run" | "upc h = U_unlock_done" using u by (cases "upc h") (auto simp: waiting_def)
  then show ?thesis
  proof cases
    case 1
    then have "ustep h = Some (h\<lparr>hc_is_done := False, upc := U_set_run\<rparr>)" by (simp add: ustep_def)
    then show ?thesis by (rule descend_caller [OF _ inv]) (use 1 in \<open>simp add: hrank_def\<close>)
  next
    case 2
    then have "ustep h = Some (h\<lparr>hc_run := True, upc := U_lock\<rparr>)" by (simp add: ustep_def)
    then show ?thesis by (rule descend_caller [OF _ inv]) (use 2 in \<open>simp add: hrank_def rank_bounds\<close>)
  next
    case 3
    then have "ustep h = Some (h\<lparr>hc_spinlock := 0, upc := U_next\<rparr>)" by (simp add: ustep_def sgx_spin_unlock_def)
    then show ?thesis by (rule descend_caller [OF _ inv]) (use 3 in \<open>simp add: hrank_def\<close>)
  qed
qed

lemma descend_raised:
  assumes inv: "hinv exec prog s h ns" and u: "waiting h" and r: "hc_run h"
  shows "can_descend exec prog s h ns"
proof -
  have p: "\<not> hc_is_done h" "t_idle h \<or> tpc h = T_take" and l: "lock_inv h" and n: "length ns \<le> pfc_len"
    using inv u r by (auto simp: hinv_defs waiting_def)
  show ?thesis
  proof (cases "u_inside h")
    case True
    then consider "upc h = U_check" | "upc h = U_unlock_retry" using u by (auto simp: u_inside_def waiting_def)
    then show ?thesis
    proof cases
      case 1
      then have "ustep h = Some (h\<lparr>upc := U_unlock_retry\<rparr>)" using p(1) by (simp add: ustep_def)
      then show ?thesis by (rule descend_caller [OF _ inv]) (use 1 r in \<open>simp add: hrank_def rank_raised_def\<close>)
    next
      case 2
      then have "ustep h = Some (h\<lparr>hc_spinlock := 0, upc := U_lock\<rparr>)" by (simp add: ustep_def sgx_spin_unlock_def)
      then show ?thesis by (rule descend_caller [OF _ inv]) (use 2 r in \<open>simp add: hrank_def rank_raised_def\<close>)
    qed
  next
    case False
    have lk: "hc_spinlock h = 0" if "tpc h \<in> {T_lock, T_spin}" using l False that by (auto simp: lock_inv_def t_inside_def)
    have ps: "tstep exec h = Some (case tpc h of T_lock \<Rightarrow> h\<lparr>hc_spinlock := 1, tpc := T_check\<rparr> | T_spin \<Rightarrow> h\<lparr>tpc := T_lock\<rparr>
        | T_check \<Rightarrow> h\<lparr>tpc := T_take\<rparr> | T_take \<Rightarrow> h\<lparr>hc_run := False, tpc := T_first\<rparr> | _ \<Rightarrow> h\<lparr>hc_spinlock := 0, tpc := T_lock\<rparr>)" (is "_ = Some ?h")
      using p(2) r lk by (auto simp: tstep_def t_idle_def spin_xchg_def sgx_spin_unlock_def)
    have "hrank ?h ns < hrank h ns"
    proof (cases "tpc h = T_take")
      case True
      have "waiting (h\<lparr>hc_run := False, tpc := T_first\<rparr>)" using u by (simp add: waiting_def)
      from hrank_waiting [OF this, of ns] have "hrank ?h ns < 400 * length (todo h) + 200" using True p(1) rank_bounds(3) [OF n] by simp
      also have "\<dots> \<le> hrank h ns" using hrank_waiting [OF u, of ns] r by (simp add: rank_raised_def)
      finally show ?thesis .
    next
      case False
      then show ?thesis using p(2) u r by (auto simp: t_idle_def waiting_def hrank_def rank_raised_def)
    qed
    then show ?thesis by (rule descend_poller [OF ps inv, rotated]) (use p(2) in \<open>auto simp: t_idle_def\<close>)
  qed
qed

lemma descend_done:
  assumes inv: "hinv exec prog s h ns" and u: "waiting h" and r: "\<not> hc_run h" "hc_is_done h"
  shows "can_descend exec prog s h ns"
proof -
  have p: "t_idle h" and l: "lock_inv h" using inv u r by (auto simp: hinv_defs waiting_def)
  show ?thesis
  proof (cases "t_inside h")
    case True
    then consider "tpc h = T_check" | "tpc h = T_unlock" using p by (auto simp: t_inside_def t_idle_def)
    then show ?thesis
    proof cases
      case 1
      then have "tstep exec h = Some (h\<lparr>tpc := T_unlock\<rparr>)" using r by (simp add: tstep_def)
      then show ?thesis by (rule descend_poller [OF _ inv]) (use 1 u r in \<open>auto simp: waiting_def hrank_def rank_done_def\<close>)
    next
      case 2
      then have "tstep exec h = Some (h\<lparr>hc_spinlock := 0, tpc := T_lock\<rparr>)" by (simp add: tstep_def sgx_spin_unlock_def)
      then show ?thesis by (rule descend_poller [OF _ inv]) (use 2 u r in \<open>auto simp: waiting_def hrank_def rank_done_def\<close>)
    qed
  next
    case False
    have lk: "hc_spinlock h = 0" if "upc h \<in> {U_lock, U_spin}" using l False that by (auto simp: lock_inv_def u_inside_def)
    have us: "ustep h = Some (case upc h of U_lock \<Rightarrow> h\<lparr>hc_spinlock := 1, upc := U_check\<rparr> | U_spin \<Rightarrow> h\<lparr>upc := U_lock\<rparr>
        | U_check \<Rightarrow> h\<lparr>upc := U_unlock_done\<rparr> | _ \<Rightarrow> h\<lparr>hc_spinlock := 0, upc := U_lock\<rparr>)" (is "_ = Some ?h")
      using u r lk by (auto simp: ustep_def waiting_def spin_xchg_def sgx_spin_unlock_def)
    show ?thesis by (rule descend_caller [OF us inv]) (use u r in \<open>auto simp: waiting_def hrank_def rank_done_def\<close>)
  qed
qed

lemma descend_working:
  assumes inv: "hinv exec prog s h ns" and u: "waiting h" and r: "\<not> hc_run h" "\<not> hc_is_done h"
  shows "can_descend exec prog s h ns"
proof -
  have p: "t_at_work h" and q: "queue_inv h ns" using inv u r by (auto simp: hinv_defs waiting_def)
  have hw: "hrank h ns = 400 * length (todo h) + rank_working h ns" using hrank_waiting [OF u] r by simp
  consider "tpc h = T_first" | e where "tpc h = T_loop e" | "tpc h = T_done" using p by (auto simp: t_at_work_def)
  then show ?thesis
  proof cases
    case 1
    obtain e where "get_next (hc_queue h) ecall_queue = Some e" using q is_list_ends [of "hc_queue h" ecall_queue ns] by (auto simp: queue_inv_def)
    then have "tstep exec h = Some (h\<lparr>tpc := T_loop e\<rparr>)" using 1 by (simp add: tstep_def)
    then show ?thesis by (rule descend_poller [OF _ inv]) (use 1 u r in \<open>auto simp: waiting_def hrank_def rank_working_def\<close>)
  next
    case 2
    have "\<exists>h'. tstep exec h = Some h'"
    proof (cases ns)
      case Nil
      then show ?thesis using q 2 by (simp add: tstep_def queue_inv_def)
    next
      case (Cons x ns')
      have "is_list (hc_queue h) ecall_queue ns" using q by (simp only: queue_inv_def)
      then have l: "is_list (hc_queue h) ecall_queue (x # ns')" by (simp only: Cons)
      have "e = hd (ns @ [ecall_queue])" using q 2 by (simp add: queue_inv_def)
      then have e: "e = x" by (simp add: Cons)
      obtain q' n where "list_remove (hc_queue h) e = Some (q', n)"
        using ovs_list.remove [of "hc_queue h" ecall_queue "[]" x ns'] l e by auto
      moreover have "get_next (hc_queue h) e = Some (hd (ns' @ [ecall_queue]))"
        using l e lseg_append_Cons [of "hc_queue h" x ns' ecall_queue] by (simp add: is_list_def)
      ultimately show ?thesis using 2 by (simp add: tstep_def Let_def)
    qed
    then obtain h' where st: "tstep exec h = Some h'" by blast
    have i: "hinv exec prog s h' (tl ns)" "ns = [] \<longrightarrow> tpc h' = T_done" "ns \<noteq> [] \<longrightarrow> (\<exists>e'. tpc h' = T_loop e')" "upc h' = upc h"
      "hc_run h' = hc_run h" "hc_is_done h' = hc_is_done h" "todo h' = todo h"
      using t_loop_inv [OF 2 st inv] by simp_all
    have "waiting h'" using u i(4) by (simp add: waiting_def)
    from hrank_waiting [OF this, of "tl ns"] have "hrank h' (tl ns) = 400 * length (todo h) + rank_working h' (tl ns)" using i(5-7) r by simp
    moreover have "rank_working h' (tl ns) < rank_working h ns" using i(2,3) 2 by (cases ns) (auto simp: rank_working_def)
    ultimately show ?thesis using hw i(1) hstep.poller [OF st] unfolding can_descend_def by (intro exI [of _ h'] exI [of _ "tl ns"]) simp
  next
    case 3
    then have "tstep exec h = Some (h\<lparr>hc_is_done := True, tpc := T_unlock\<rparr>)" by (simp add: tstep_def)
    then show ?thesis by (rule descend_poller [OF _ inv]) (use 3 u r in \<open>auto simp: waiting_def hrank_def rank_working_def rank_done_def\<close>)
  qed
qed

lemma can_finish:
  assumes "hinv exec prog s h ns"
  shows "\<exists>h' ns'. (hstep exec)\<^sup>*\<^sup>* h h' \<and> hinv exec prog s h' ns' \<and> upc h' = U_next \<and> todo h' = []"
  using assms
proof (induction "hrank h ns" arbitrary: h ns rule: less_induct)
  case less
  show ?case
  proof (cases "upc h = U_next \<and> todo h = []")
    case True
    then show ?thesis using less.prems by blast
  next
    case False
    have "can_descend exec prog s h ns"
      using descend_calling [OF less.prems] descend_raised [OF less.prems] descend_done [OF less.prems] descend_working [OF less.prems] False
      by (cases "waiting h"; cases "hc_run h"; cases "hc_is_done h") simp_all
    then obtain h1 ns1 where h1: "hstep exec h h1" "hinv exec prog s h1 ns1" "hrank h1 ns1 < hrank h ns" unfolding can_descend_def by blast
    obtain h' ns' where "(hstep exec)\<^sup>*\<^sup>* h1 h'" "hinv exec prog s h' ns'" "upc h' = U_next" "todo h' = []"
      using less.hyps [OF h1(3,2)] by blast
    then show ?thesis using h1(1) by (meson converse_rtranclp_into_rtranclp)
  qed
qed

section \<open>The rings of arguments\<close>

text \<open>The values behind the arguments of asynchronous calls: \<open>next_uint8\<close>, \<open>next_unsigned\<close>, \<open>next_sizet\<close>,
  \<open>next_uint32\<close>, \<open>next_voidptr\<close> and \<open>next_heapnode\<close> have the same body for different types. The result is the place
  of the value. (\<open>next_voidptr\<close> returns the pointer itself, so nothing is read from its ring.)\<close>

record 'a ring =
  ring_vals :: "'a list"
  ring_idx :: nat

definition next_value :: "'a \<Rightarrow> 'a ring \<Rightarrow> nat \<times> 'a ring" where
  "next_value x r = (let i = (if ring_idx r = 20 then 0 else ring_idx r) in
     (i, r\<lparr>ring_vals := (ring_vals r)[i := x], ring_idx := i + 1\<rparr>))"

fun next_values :: "'a list \<Rightarrow> 'a ring \<Rightarrow> nat list \<times> 'a ring" where
  "next_values [] r = ([], r)"
| "next_values (x # xs) r = (let (i, r) = next_value x r; (is, r) = next_values xs r in (i # is, r))"

definition ring_wf :: "'a ring \<Rightarrow> bool" where
  "ring_wf r \<longleftrightarrow> length (ring_vals r) = 20 \<and> ring_idx r \<le> 20"

lemma next_value_wf: "ring_wf r \<Longrightarrow> ring_wf (snd (next_value x r))"
  by (auto simp: ring_wf_def next_value_def Let_def)

lemma next_values_Cons:
  "fst (next_values (x # xs) r) = fst (next_value x r) # fst (next_values xs (snd (next_value x r)))"
  "snd (next_values (x # xs) r) = snd (next_values xs (snd (next_value x r)))"
  by (simp_all add: Let_def split: prod.split)

lemma next_values_places:
  assumes "ring_wf r"
  shows "fst (next_values xs r) = map (\<lambda>j. (ring_idx r + j) mod 20) [0..<length xs]"
  using assms
proof (induction xs arbitrary: r)
  case (Cons x xs)
  let ?r = "snd (next_value x r)" and ?i = "fst (next_value x r)"
  have i: "?i = ring_idx r mod 20" using Cons.prems by (auto simp: ring_wf_def next_value_def Let_def)
  have n: "ring_idx ?r = ?i + 1" by (simp add: next_value_def Let_def)
  have "(?i + (1 + j)) mod 20 = (ring_idx r + (1 + j)) mod 20" for j unfolding i by (rule mod_add_left_eq)
  then have m: "map (\<lambda>j. (ring_idx ?r + j) mod 20) [0..<length xs] = map (\<lambda>j. (ring_idx r + j) mod 20) (map Suc [0..<length xs])"
    by (simp add: n del: map_Suc_upt)
  have "fst (next_values (x # xs) r) = ?i # fst (next_values xs ?r)" by (rule next_values_Cons)
  also have "\<dots> = map (\<lambda>j. (ring_idx r + j) mod 20) (0 # map Suc [0..<length xs])"
    unfolding Cons.IH [OF next_value_wf [OF Cons.prems]] m by (simp add: i)
  also have "0 # map Suc [0..<length xs] = [0..<length (x # xs)]" by (simp add: map_Suc_upt upt_conv_Cons del: upt_Suc)
  finally show ?case .
qed simp

lemma next_values_keep:
  assumes "ring_wf r" and "i < 20" and "i \<notin> set (fst (next_values xs r))"
  shows "ring_vals (snd (next_values xs r)) ! i = ring_vals r ! i"
  using assms
proof (induction xs arbitrary: r)
  case (Cons x xs)
  let ?r = "snd (next_value x r)"
  have s: "snd (next_values (x # xs) r) = snd (next_values xs ?r)" "set (fst (next_values (x # xs) r)) = insert (fst (next_value x r)) (set (fst (next_values xs ?r)))"
    by (simp_all add: next_values_Cons del: next_values.simps)
  have "ring_vals ?r ! i = ring_vals r ! i" using Cons.prems(3) s(2) by (auto simp: next_value_def Let_def)
  then show ?case using Cons.IH [OF next_value_wf [OF Cons.prems(1)] Cons.prems(2)] Cons.prems(3) s by simp
qed simp

lemma next_values_read:
  assumes "ring_wf r" and "length xs \<le> 20"
  shows "map (\<lambda>i. ring_vals (snd (next_values xs r)) ! i) (fst (next_values xs r)) = xs"
  using assms
proof (induction xs arbitrary: r)
  case (Cons x xs)
  let ?r = "snd (next_value x r)" and ?i = "fst (next_value x r)"
  have wf: "ring_wf ?r" by (rule next_value_wf [OF Cons.prems(1)])
  have i: "?i = ring_idx r mod 20" "ring_idx ?r = ?i + 1" using Cons.prems(1) by (auto simp: ring_wf_def next_value_def Let_def)
  have "?i \<notin> set (fst (next_values xs ?r))"
  proof
    assume "?i \<in> set (fst (next_values xs ?r))"
    then obtain j where j: "j < length xs" "?i = (?i + 1 + j) mod 20" using next_values_places [OF wf, of xs] i(2) by auto
    then have "?i + 1 + j < ?i + 20" "?i < 20" using Cons.prems(2) i(1) by simp_all
    then show False using j(2) mod_if [of "?i + 1 + j" 20] by (cases "?i + 1 + j < 20") auto
  qed
  then have "ring_vals (snd (next_values xs ?r)) ! ?i = ring_vals ?r ! ?i" using next_values_keep [OF wf] i(1) by simp
  also have "\<dots> = x" using Cons.prems(1) by (auto simp: ring_wf_def next_value_def Let_def)
  finally show ?case using Cons.IH [OF wf] Cons.prems(2) unfolding next_values_Cons by simp
qed simp

section \<open>Correctness\<close>

definition hot_nodes :: list_store where
  "hot_nodes p = (if p \<le> 20 then Some \<lparr>prev = 0, next = 0\<rparr> else None)"

lemma hot_nodes_dom: "{0..pfc_len} \<subseteq> dom hot_nodes"
  by (auto simp: hot_nodes_def pfc_len_def)

definition log_call :: "nat \<Rightarrow> nat list \<Rightarrow> nat list" where
  "log_call c s = s @ [c]"

text \<open>C33: Hot calls are safe under every interleaving of the caller and the poller. The two are never inside the critical section
  together, the poller never works on the queue while the caller may add to it, the enclave has at any time
  executed a prefix of the calls of the program, each once and in program order, and when \<open>make_hotcall\<close> is about to return
  it has executed all calls issued so far, asynchronous ones included. Never more than 20 calls may be waiting.\<close>

theorem hotcalls_in_order:
  assumes "{0..pfc_len} \<subseteq> dom nodes" and "fits 0 prog" and "hotcall_init nodes fcs prog s = Some h0" and "(hstep exec)\<^sup>*\<^sup>* h0 h"
  shows "\<not> (u_inside h \<and> t_inside h) \<and> \<not> (upc h = U_next \<and> (t_at_work h \<or> hc_run h))
    \<and> (\<exists>xs ys. prog = xs @ ys @ todo h \<and> enclave h = fold exec (map fst xs) s \<and> (upc h = U_unlock_done \<longrightarrow> ys = []))"
proof -
  obtain ns where inv: "hinv exec prog s h ns"
    using hotcall_init_inv [OF assms(1,2), of fcs s exec] assms(3) hsteps_inv [OF assms(4)] by fastforce
  have "\<not> (u_inside h \<and> t_inside h)" using inv by (simp add: hinv_def lock_inv_def)
  moreover have "\<not> (upc h = U_next \<and> (t_at_work h \<or> hc_run h))" using inv by (auto simp: hinv_def phase_inv_def pc_defs)
  moreover have "\<exists>xs ys. prog = xs @ ys @ todo h \<and> enclave h = fold exec (map fst xs) s \<and> (upc h = U_unlock_done \<longrightarrow> ys = [])"
  proof -
    obtain xs ys where o: "prog = xs @ ys @ todo h" "map fst ys = map (pfc_fcs h) ns" "enclave h = fold exec (map fst xs) s"
      using inv by (auto simp: hinv_def order_inv_def)
    have "upc h = U_unlock_done \<longrightarrow> ys = []" using inv o(2) by (auto simp: hinv_def phase_inv_def)
    with o(1,3) show ?thesis by blast
  qed
  ultimately show ?thesis by blast
qed

theorem hotcalls_in_order_witness:
  "\<exists>h0. hotcall_init hot_nodes (\<lambda>_. 0) [(1, True), (2, False)] [] = Some h0
    \<and> \<not> (u_inside h0 \<and> t_inside h0) \<and> \<not> (upc h0 = U_next \<and> (t_at_work h0 \<or> hc_run h0))
    \<and> (\<exists>xs ys. [(1, True), (2, False)] = xs @ ys @ todo h0 \<and> enclave h0 = fold log_call (map fst xs) [] \<and> (upc h0 = U_unlock_done \<longrightarrow> ys = []))"
proof -
  have f: "fits 0 [(1 :: nat, True), (2, False)]" by (simp add: pfc_len_def)
  obtain h0 :: "(nat, nat list) hot" where h0: "hotcall_init hot_nodes (\<lambda>_. 0) [(1, True), (2, False)] [] = Some h0"
    using hotcall_init_inv [OF hot_nodes_dom f, of "\<lambda>_. 0" "[]" log_call] by blast
  then show ?thesis using hotcalls_in_order [OF hot_nodes_dom f h0 rtranclp.rtrancl_refl, of log_call] by blast
qed

text \<open>C34: Hot calls cannot get stuck: from every state that is reachable the two threads can complete the program, and if its last
  call is synchronous the enclave has then executed the whole program in order.\<close>

theorem hotcalls_complete:
  assumes "{0..pfc_len} \<subseteq> dom nodes" and "fits 0 (prog @ [(c, False)])"
    and "hotcall_init nodes fcs (prog @ [(c, False)]) s = Some h0" and "(hstep exec)\<^sup>*\<^sup>* h0 h"
  shows "\<exists>h'. (hstep exec)\<^sup>*\<^sup>* h h' \<and> upc h' = U_next \<and> todo h' = [] \<and> enclave h' = fold exec (map fst prog @ [c]) s"
proof -
  obtain ns where inv: "hinv exec (prog @ [(c, False)]) s h ns"
    using hotcall_init_inv [OF assms(1,2), of fcs s exec] assms(3) hsteps_inv [OF assms(4)] by fastforce
  obtain h' ns' where h': "(hstep exec)\<^sup>*\<^sup>* h h'" "hinv exec (prog @ [(c, False)]) s h' ns'" "upc h' = U_next" "todo h' = []"
    using can_finish [OF inv] by blast
  obtain xs ys where o: "prog @ [(c, False)] = xs @ ys" "list_all snd ys" "enclave h' = fold exec (map fst xs) s"
    using h'(2-4) by (auto simp: hinv_def order_inv_def)
  have "ys = []" using o(1,2) by (cases ys rule: rev_cases) auto
  then have "xs = prog @ [(c, False)]" using o(1) by simp
  then have "enclave h' = fold exec (map fst prog @ [c]) s" using o(3) by simp
  with h' show ?thesis by blast
qed

theorem hotcalls_complete_witness:
  "\<exists>h0 h'. hotcall_init hot_nodes (\<lambda>_. 0) ([(1, True), (2, True)] @ [(3, False)]) [] = Some h0
    \<and> (hstep log_call)\<^sup>*\<^sup>* h0 h' \<and> upc h' = U_next \<and> todo h' = [] \<and> enclave h' = [1, 2, 3]"
proof -
  have f: "fits 0 ([(1 :: nat, True), (2, True)] @ [(3, False)])" by (simp add: pfc_len_def)
  obtain h0 :: "(nat, nat list) hot" where h0: "hotcall_init hot_nodes (\<lambda>_. 0) ([(1, True), (2, True)] @ [(3, False)]) [] = Some h0"
    using hotcall_init_inv [OF hot_nodes_dom f, of "\<lambda>_. 0" "[]" log_call] by blast
  have "fold log_call (map fst [(1, True), (2, True)] @ [3]) [] = [1, 2, 3]" by (simp add: log_call_def)
  then show ?thesis using h0 hotcalls_complete [OF hot_nodes_dom f h0 rtranclp.rtrancl_refl, of log_call] by metis
qed

text \<open>A twenty-first call that is queued before any of the others is executed takes the node of the first: of the 21 calls the
  poller then finds only the last.\<close>

lemma queue_overflow:
  assumes q: "queue_inv h ns" and k: "length ns = pfc_len"
  shows "\<exists>h'. HCALL c async h = Some h' \<and> LIST_FOR_EACH (hc_queue h') ecall_queue = Some [fcs_node (pfc_idx h)]
    \<and> pfc_fcs h' (fcs_node (pfc_idx h)) = c"
proof -
  let ?e = "fcs_node (pfc_idx h)"
  have l: "is_list (hc_queue h) ecall_queue ns" and i: "pfc_idx h < pfc_len" and d: "{0..pfc_len} \<subseteq> dom (hc_queue h)"
    and ns: "ns = ring_nodes (pfc_idx h) pfc_len"
    using q k unfolding queue_inv_def by auto
  have "ns \<noteq> []" "tl ns \<noteq> []" using k by (cases ns; cases "tl ns"; simp add: pfc_len_def)+
  have hd: "hd ns = ?e" using i by (simp add: ns ring_nodes_def hd_map pfc_len_def)
  have dist: "distinct ns" "ecall_queue \<notin> set ns" using l by (simp_all add: is_list_def)
  have le: "last ns \<noteq> ?e" using dist(1) hd \<open>ns \<noteq> []\<close> \<open>tl ns \<noteq> []\<close> by (cases ns) (auto dest: last_in_set)
  have ends: "get_next (hc_queue h) ecall_queue = Some ?e" "get_prev (hc_queue h) ecall_queue = Some (last ns)"
    using is_list_ends [OF l] hd \<open>ns \<noteq> []\<close> by simp_all
  have dom: "last ns \<in> dom (hc_queue h)" "?e \<in> dom (hc_queue h)"
    using subsetD [OF is_list_dom [OF l]] hd last_in_set [OF \<open>ns \<noteq> []\<close>] hd_in_set [OF \<open>ns \<noteq> []\<close>] by auto
  have neq: "?e \<noteq> ecall_queue" by (simp add: fcs_node_def ecall_queue_def)
  obtain q' where q': "list_insert (hc_queue h) ecall_queue ?e = Some q'"
    "\<forall>x. get_next q' x = (if x = last ns then Some ?e else if x = ?e then Some ecall_queue else get_next (hc_queue h) x)"
    using list_insert_exec [OF ends(2) dom neq] le by auto
  have "last ns \<noteq> ecall_queue" using dist(2) \<open>ns \<noteq> []\<close> last_in_set by metis
  then have n: "get_next q' ecall_queue = Some ?e" "get_next q' ?e = Some ecall_queue" using q'(2) ends(1) neq le by auto
  have "LIST_FOR_EACH q' ecall_queue = Some [?e]"
    using n neq by (simp add: LIST_FOR_EACH_def list_walk.simps [of q' ecall_queue])
  then show ?thesis using q'(1) by (auto simp: HCALL_def get_fcall_def Let_def)
qed

text \<open>So do the arguments: up to 20 values put into a ring can all be read back, but a twenty-first takes the place of the
  first.\<close>

lemma argument_ring_of_20:
  assumes "ring_wf r" and "xs \<noteq> []"
  shows "(length xs \<le> 20 \<longrightarrow> map (\<lambda>i. ring_vals (snd (next_values xs r)) ! i) (fst (next_values xs r)) = xs)
    \<and> (length xs = 21 \<longrightarrow> hd (fst (next_values xs r)) = last (fst (next_values xs r)))"
proof -
  have "hd (fst (next_values xs r)) = last (fst (next_values xs r))" if "length xs = 21"
    using assms(1) that by (simp add: next_values_places last_map hd_map)
  then show ?thesis using next_values_read [OF assms(1)] by blast
qed

end
