(* ===== verification/Switch.thy ===== *)
theory Switch
  imports Ofproto
begin

text \<open>
  The flow tables as the switch uses them: the part of \<open>OFTonSGX/ovs_modified/ovs_sgx/ofproto.c\<close> that handles flow
  modifications, flow statistics, eviction and flushing, with the hooks of \<open>ofproto-dpif.c\<close> that run for each rule.

  The file is compiled with \<open>SGX\<close>. With \<open>OPTIMIZED\<close> it uses the combined enclave calls, otherwise one call for each step; \<open>opt\<close>
  selects the build. The enclave calls are the ones of the bridge of the switch, as the wrappers of \<open>app.c\<close> make them
  without \<open>HOTCALL\<close>.

  A \<open>struct rule\<close> contains its \<open>struct cls_rule\<close>, so \<open>rule_from_cls_rule\<close> and \<open>&rule->cr\<close> are inverse to each other and the
  untrusted address of the \<open>cls_rule\<close> stands for the rule. \<open>sw_rules\<close> is the memory of the rules: an access to a rule
  that has been freed is a fault. Each rule has at most one operation in progress, which is kept in the
  rule. Facets, statistics and connections are not part of the state; the messages for the controllers are recorded.
  The functions of Open vSwitch that are not in the repository are in \<open>world\<close>, with the time, the random numbers
  and what uninitialised memory holds.
\<close>

section \<open>Data\<close>

datatype ofperr =
    OFPERR_OFPBRC_EPERM | OFPERR_OFPBRC_BAD_TABLE_ID | OFPERR_OFPFMFC_OVERLAP | OFPERR_OFPFMFC_TABLE_FULL
  | OFPERR_OFPFMFC_BAD_COMMAND | OFPROTO_POSTPONE | Other_error nat

datatype ofoperation_type = OFOPERATION_ADD | OFOPERATION_DELETE | OFOPERATION_MODIFY

datatype removed_reason = OFPRR_IDLE_TIMEOUT | OFPRR_HARD_TIMEOUT | OFPRR_DELETE | OFPRR_EVICTION

record ofoperation =
  op_group :: nat
  op_type :: ofoperation_type
  op_reason :: removed_reason
  op_flow_cookie :: u64
  op_victim :: "ut_ptr option"
  op_ofpacts :: "u8 list option"
  op_error :: "ofperr option"

record rule =
  r_pending :: "ofoperation option"
  r_flow_cookie :: u64
  r_created :: int
  r_modified :: int
  r_used :: int
  r_hard_timeout :: u16
  r_idle_timeout :: u16
  r_table_id :: u8
  r_send_flow_removed :: bool
  r_evg_node :: heap_node
  r_ofpacts :: "u8 list"
  r_tmp_storage_vid :: u16
  r_tmp_storage_vid_mask :: u16
  r_tag :: u32

record ofopgroup =
  g_ops :: "ut_ptr list"
  g_n_running :: nat
  g_ofconn :: "nat option"
  g_buffer_id :: u32
  g_submitted :: bool

record flow_removed =
  fr_rule :: ut_ptr
  fr_match :: match
  fr_priority :: u32
  fr_cookie :: u64
  fr_reason :: removed_reason
  fr_table_id :: u8

datatype ofproto_state = S_OPENFLOW | S_EVICT | S_FLUSH

text \<open>\<open>struct ofproto\<close> and the part of \<open>struct ofproto_dpif\<close> that its rules use. The hash map \<open>deletions\<close> is the list of its
  nodes with their hashes; \<open>expirable\<close> is a list of rules, and a rule's \<open>expirable\<close> node is empty when it is not in
  it. \<open>sw_next_group\<close> is the address that \<open>xzalloc\<close> returns next.\<close>

record switch =
  sw_bridge_id :: u8
  sw_n_tables :: int
  sw_state :: ofproto_state
  sw_bridge :: bridge
  sw_rules :: "ut_ptr \<Rightarrow> rule option"
  sw_groups :: "nat \<Rightarrow> ofopgroup option"
  sw_next_group :: nat
  sw_deletions :: "(ut_ptr \<times> u32) list"
  sw_expirable :: "ut_ptr list"
  sw_pending :: "nat list"
  sw_clogged :: bool
  sw_completions :: "ut_ptr list"
  sw_vlan_bitmap :: "u16 list option"
  sw_vlans_changed :: bool
  sw_need_revalidate :: bool
  sw_revalidate_set :: "u32 list"
  sw_removed :: "flow_removed list"
  sw_reports :: "(ut_ptr \<times> ofoperation_type \<times> removed_reason) list"
  sw_errors :: "(nat \<times> ofperr) list"

record flow_mod =
  fm_table_id :: u8
  fm_match :: match
  fm_priority :: u32
  fm_cookie :: u64
  fm_cookie_mask :: u64
  fm_new_cookie :: u64
  fm_idle_timeout :: u16
  fm_hard_timeout :: u16
  fm_buffer_id :: u32
  fm_out_port :: u16
  fm_flags :: u16
  fm_ofpacts :: "u8 list"

record world =
  w_now :: int
  w_boot :: int
  w_random16 :: u16
  w_random32 :: u32
  w_value :: mf_value
  w_fresh :: rule
  w_ofpacts_equal :: "u8 list \<Rightarrow> u8 list \<Rightarrow> bool"
  w_output_to_port :: "u8 list \<Rightarrow> u16 \<Rightarrow> bool"
  w_tag :: "u32 \<Rightarrow> u32"
  w_execute :: "nat \<Rightarrow> u32 \<Rightarrow> ut_ptr \<Rightarrow> ofperr option"

definition OFPP_ANY :: u16 where "OFPP_ANY = 0xffff"
definition OFPFF_SEND_FLOW_REM :: u16 where "OFPFF_SEND_FLOW_REM = 1"
definition LLONG_MAX :: int where "LLONG_MAX = 2 ^ 63 - 1"

section \<open>Access to the state\<close>

definition upd_rule :: "ut_ptr \<Rightarrow> (rule \<Rightarrow> rule) \<Rightarrow> switch \<Rightarrow> switch option" where
  "upd_rule r f sw = do { x \<leftarrow> sw_rules sw r; Some (sw\<lparr>sw_rules := (sw_rules sw)(r \<mapsto> f x)\<rparr>) }"

definition upd_group :: "nat \<Rightarrow> (ofopgroup \<Rightarrow> ofopgroup) \<Rightarrow> switch \<Rightarrow> switch option" where
  "upd_group g f sw = do { x \<leftarrow> sw_groups sw g; Some (sw\<lparr>sw_groups := (sw_groups sw)(g \<mapsto> f x)\<rparr>) }"

definition enclave_do :: "(bridge \<Rightarrow> bridge option) \<Rightarrow> switch \<Rightarrow> switch option" where
  "enclave_do f sw = do { br \<leftarrow> f (sw_bridge sw); Some (sw\<lparr>sw_bridge := br\<rparr>) }"

definition enclave_call :: "(bridge \<Rightarrow> ('a \<times> bridge) option) \<Rightarrow> switch \<Rightarrow> ('a \<times> switch) option" where
  "enclave_call f sw = do { (v, br) \<leftarrow> f (sw_bridge sw); Some (v, sw\<lparr>sw_bridge := br\<rparr>) }"

definition not_expirable :: "ut_ptr \<Rightarrow> switch \<Rightarrow> switch" where
  "not_expirable r sw = sw\<lparr>sw_expirable := filter (\<lambda>q. q \<noteq> r) (sw_expirable sw)\<rparr>"

definition may_expire :: "rule \<Rightarrow> bool" where
  "may_expire x \<longleftrightarrow> r_hard_timeout x \<noteq> 0 \<or> r_idle_timeout x \<noteq> 0"

section \<open>Rules\<close>

definition ofproto_rule_is_hidden :: "switch \<Rightarrow> ut_ptr \<Rightarrow> bool option" where
  "ofproto_rule_is_hidden sw r = do { p \<leftarrow> ecall_cr_priority (sw_bridge sw) r; Some (unat p > UINT16_MAX) }"

definition rule_is_modifiable :: "switch \<Rightarrow> ut_ptr \<Rightarrow> bool option" where
  "rule_is_modifiable sw r = do {
     x \<leftarrow> sw_rules sw r;
     fl \<leftarrow> ecall_oftable_get_flags (sw_bridge sw) (unat (r_table_id x));
     Some (fl AND OFTABLE_READONLY = 0) }"

definition ofproto_rule_has_out_port :: "world \<Rightarrow> rule \<Rightarrow> u16 \<Rightarrow> bool" where
  "ofproto_rule_has_out_port w x port \<longleftrightarrow> port = OFPP_ANY \<or> w_output_to_port w (r_ofpacts x) port"

definition ofproto_rule_destroy_up :: "switch \<Rightarrow> ut_ptr option \<Rightarrow> switch option" where
  "ofproto_rule_destroy_up sw ro = (case ro of None \<Rightarrow> Some sw
     | Some r \<Rightarrow> do {
         x \<leftarrow> sw_rules sw r;
         sw \<leftarrow> enclave_do (\<lambda>br. ecall_cls_rule_destroy br r) sw;
         Some (sw\<lparr>sw_rules := (sw_rules sw)(r := None)\<rparr>) })"

definition eviction_group_priority :: "world \<Rightarrow> nat \<Rightarrow> u32" where
  "eviction_group_priority w n = push_bit 16 (of_nat (min UINT16_MAX n)) OR ucast (w_random16 w)"

definition rule_eviction_priority :: "world \<Rightarrow> rule \<Rightarrow> u32" where
  "rule_eviction_priority w x = (let
     hard_expiration = (if r_hard_timeout x \<noteq> 0 then r_modified x + uint (r_hard_timeout x) * 1000 else LLONG_MAX);
     idle_expiration = (if r_idle_timeout x \<noteq> 0 then r_used x + uint (r_idle_timeout x) * 1000 else LLONG_MAX);
     expiration = min hard_expiration idle_expiration
   in if expiration = LLONG_MAX then 0
      else 0xffffffff - word_of_int (expiration div 2 ^ 10 - w_boot w div 2 ^ 10))"

definition eviction_group_remove_rule :: "switch \<Rightarrow> ut_ptr \<Rightarrow> switch option" where
  "eviction_group_remove_rule sw r = do {
     x \<leftarrow> sw_rules sw r;
     enclave_do (\<lambda>br. ecall_evg_remove_rule br (unat (r_table_id x)) r) sw }"

definition eviction_group_add_rule :: "world \<Rightarrow> switch \<Rightarrow> ut_ptr \<Rightarrow> switch option" where
  "eviction_group_add_rule w sw r = do {
     x \<leftarrow> sw_rules sw r;
     enabled \<leftarrow> ecall_is_eviction_fields_enabled (sw_bridge sw) (unat (r_table_id x));
     if enabled \<and> may_expire x
     then enclave_do (\<lambda>br. ecall_evg_add_rule (w_value w) br (unat (r_table_id x)) r
            (eviction_group_priority w 0) (rule_eviction_priority w x) (r_evg_node x)) sw
     else Some sw }"

definition oftable_remove_rule :: "switch \<Rightarrow> ut_ptr \<Rightarrow> switch option" where
  "oftable_remove_rule sw r = do {
     x \<leftarrow> sw_rules sw r;
     sw \<leftarrow> enclave_do (\<lambda>br. ecall_cls_remove br (unat (r_table_id x)) r) sw;
     sw \<leftarrow> eviction_group_remove_rule sw r;
     Some (not_expirable r sw) }"

definition oftable_replace_rule :: "world \<Rightarrow> switch \<Rightarrow> ut_ptr \<Rightarrow> (ut_ptr option \<times> switch) option" where
  "oftable_replace_rule w sw r = do {
     x \<leftarrow> sw_rules sw r;
     let sw = (if may_expire x then sw\<lparr>sw_expirable := sw_expirable sw @ [r]\<rparr> else sw);
     (victim, sw) \<leftarrow> enclave_call (\<lambda>br. ecall_oftable_classifier_replace br (unat (r_table_id x)) r) sw;
     sw \<leftarrow> (case victim of None \<Rightarrow> Some sw
       | Some v \<Rightarrow> do { _ \<leftarrow> sw_rules sw v; eviction_group_remove_rule (not_expirable v sw) v });
     sw \<leftarrow> eviction_group_add_rule w sw r;
     Some (victim, sw) }"

definition oftable_substitute_rule :: "world \<Rightarrow> switch \<Rightarrow> ut_ptr \<Rightarrow> ut_ptr option \<Rightarrow> switch option" where
  "oftable_substitute_rule w sw old new = (case new of
     Some n \<Rightarrow> do { (_, sw) \<leftarrow> oftable_replace_rule w sw n; Some sw }
   | None \<Rightarrow> oftable_remove_rule sw old)"

section \<open>Messages\<close>

definition flow_removed_msg :: "ut_ptr \<Rightarrow> rule \<Rightarrow> removed_reason \<Rightarrow> match \<Rightarrow> u32 \<Rightarrow> flow_removed" where
  "flow_removed_msg r x reason m p = \<lparr>fr_rule = r, fr_match = m, fr_priority = p, fr_cookie = r_flow_cookie x,
     fr_reason = reason, fr_table_id = r_table_id x\<rparr>"

definition ofproto_rule_send_removed :: "bool \<Rightarrow> switch \<Rightarrow> ut_ptr \<Rightarrow> removed_reason \<Rightarrow> switch option" where
  "ofproto_rule_send_removed opt sw r reason = do {
     x \<leftarrow> sw_rules sw r;
     mp \<leftarrow> (if opt then ecall_ofproto_rule_send_removed (sw_bridge sw) r
       else do {
         hidden \<leftarrow> ofproto_rule_is_hidden sw r;
         if hidden \<or> \<not> r_send_flow_removed x then Some None
         else do {
           m \<leftarrow> ecall_minimatch_expand (sw_bridge sw) r;
           p \<leftarrow> ecall_cr_priority (sw_bridge sw) r;
           Some (Some (m, p)) } });
     Some (case mp of
         Some (m, p) \<Rightarrow> if r_send_flow_removed x
           then sw\<lparr>sw_removed := sw_removed sw @ [flow_removed_msg r x reason m p]\<rparr> else sw
       | None \<Rightarrow> sw) }"

definition ofproto_rule_send_removed_del :: "switch \<Rightarrow> ut_ptr \<Rightarrow> removed_reason \<Rightarrow> deleted_flow \<Rightarrow> switch option" where
  "ofproto_rule_send_removed_del sw r reason d = do {
     x \<leftarrow> sw_rules sw r;
     Some (if df_is_hidden d \<or> \<not> r_send_flow_removed x then sw
       else sw\<lparr>sw_removed := sw_removed sw @ [flow_removed_msg r x reason (df_match d) (df_priority d)]\<rparr>) }"

section \<open>Operations\<close>

definition ofopgroup_create_unattached :: "switch \<Rightarrow> nat \<times> switch" where
  "ofopgroup_create_unattached sw = (let g = sw_next_group sw in
     (g, sw\<lparr>sw_groups := (sw_groups sw)(g \<mapsto> \<lparr>g_ops = [], g_n_running = 0, g_ofconn = None, g_buffer_id = 0, g_submitted = False\<rparr>),
          sw_next_group := g + 1\<rparr>))"

definition ofopgroup_create :: "switch \<Rightarrow> nat option \<Rightarrow> u32 \<Rightarrow> nat \<times> switch" where
  "ofopgroup_create sw ofconn buffer_id = (let (g, sw) = ofopgroup_create_unattached sw in
     (g, if ofconn = None then sw
         else sw\<lparr>sw_groups := (sw_groups sw)(g := map_option (\<lambda>x. x\<lparr>g_ofconn := ofconn, g_buffer_id := buffer_id\<rparr>) (sw_groups sw g))\<rparr>))"

text \<open>\<open>hash\<close> is \<open>*hashes\<close>, or \<open>None\<close> for the null pointer; then the enclave is asked.\<close>

definition ofoperation_create :: "switch \<Rightarrow> nat \<Rightarrow> ut_ptr \<Rightarrow> ofoperation_type \<Rightarrow> removed_reason \<Rightarrow> u32 option \<Rightarrow> switch option" where
  "ofoperation_create sw g r ty reason hash = do {
     x \<leftarrow> sw_rules sw r;
     if r_pending x \<noteq> None then None
     else do {
       sw \<leftarrow> upd_rule r (\<lambda>x. x\<lparr>r_pending := Some \<lparr>op_group = g, op_type = ty, op_reason = reason,
         op_flow_cookie = r_flow_cookie x, op_victim = None, op_ofpacts = None, op_error = None\<rparr>\<rparr>) sw;
       sw \<leftarrow> upd_group g (\<lambda>gr. gr\<lparr>g_ops := g_ops gr @ [r], g_n_running := g_n_running gr + 1\<rparr>) sw;
       if ty = OFOPERATION_DELETE
       then do {
         h \<leftarrow> (case hash of Some h \<Rightarrow> Some h
           | None \<Rightarrow> ecall_cls_rule_hash (sw_bridge sw) r (ucast (r_table_id x)));
         Some (sw\<lparr>sw_deletions := (r, h) # sw_deletions sw\<rparr>) }
       else Some sw } }"

text \<open>\<open>freed\<close>: the rule of the operation has been freed and \<open>op->rule\<close> set to NULL.\<close>

definition ofoperation_destroy :: "switch \<Rightarrow> ut_ptr \<Rightarrow> ofoperation \<Rightarrow> bool \<Rightarrow> switch option" where
  "ofoperation_destroy sw r op freed = do {
     sw \<leftarrow> (if freed then Some sw else upd_rule r (\<lambda>x. x\<lparr>r_pending := None\<rparr>) sw);
     let sw = (if op_type op = OFOPERATION_DELETE
       then sw\<lparr>sw_deletions := filter (\<lambda>(q, _). q \<noteq> r) (sw_deletions sw)\<rparr> else sw);
     upd_group (op_group op) (\<lambda>gr. gr\<lparr>g_ops := remove1 r (g_ops gr)\<rparr>) sw }"

section \<open>Completing operations\<close>

text \<open>The end of an addition: the victim is freed and the VLAN of the rule noted. In the build with \<open>OPTIMIZED\<close> the VLAN id and its
  mask may have been left in the rule.\<close>

definition vlan_noted :: "bool \<Rightarrow> switch \<Rightarrow> ut_ptr \<Rightarrow> switch option" where
  "vlan_noted opt sw r = do {
     x \<leftarrow> sw_rules sw r;
     vid_mask \<leftarrow> (if opt \<and> r_tmp_storage_vid_mask x \<noteq> 0 then Some (r_tmp_storage_vid_mask x)
       else ecall_minimask_get_vid_mask (sw_bridge sw) r);
     sw \<leftarrow> (if opt then upd_rule r (\<lambda>x. x\<lparr>r_tmp_storage_vid_mask := 0\<rparr>) sw else Some sw);
     if vid_mask = VLAN_VID_MASK
     then (case sw_vlan_bitmap sw of
         None \<Rightarrow> Some (sw\<lparr>sw_vlans_changed := True\<rparr>)
       | Some vids \<Rightarrow> do {
           vid \<leftarrow> (if opt \<and> r_tmp_storage_vid x \<noteq> 0 then Some (r_tmp_storage_vid x)
             else ecall_miniflow_get_vid (sw_bridge sw) r);
           sw \<leftarrow> (if opt then upd_rule r (\<lambda>x. x\<lparr>r_tmp_storage_vid := 0\<rparr>) sw else Some sw);
           Some (if vid \<in> set vids then sw else sw\<lparr>sw_vlan_bitmap := Some (vid # vids), sw_vlans_changed := True\<rparr>) })
     else Some sw }"

definition reported :: "switch \<Rightarrow> ut_ptr \<Rightarrow> rule \<Rightarrow> ofoperation \<Rightarrow> bool option \<Rightarrow> bool option" where
  "reported sw r x op hidden = (if op_error op \<noteq> None then Some False
     else do {
       h \<leftarrow> (case hidden of Some h \<Rightarrow> Some h | None \<Rightarrow> ofproto_rule_is_hidden sw r);
       Some (\<not> h \<and> \<not> (op_type op = OFOPERATION_MODIFY \<and> op_ofpacts op = None \<and> r_flow_cookie x = op_flow_cookie op)) })"

definition complete_op :: "world \<Rightarrow> bool \<Rightarrow> switch \<Rightarrow> ut_ptr \<Rightarrow> bool option \<Rightarrow> switch option" where
  "complete_op w opt sw r hidden = do {
     x \<leftarrow> sw_rules sw r;
     op \<leftarrow> r_pending x;
     rep \<leftarrow> reported sw r x op hidden;
     let sw = (if rep then sw\<lparr>sw_reports := sw_reports sw @ [(r, op_type op, op_reason op)]\<rparr> else sw);
     sw \<leftarrow> upd_rule r (\<lambda>x. x\<lparr>r_pending := None\<rparr>) sw;
     case op_type op of
       OFOPERATION_ADD \<Rightarrow>
         if op_error op = None
         then do {
           sw \<leftarrow> ofproto_rule_destroy_up sw (op_victim op);
           sw \<leftarrow> vlan_noted opt sw r;
           ofoperation_destroy sw r op False }
         else do {
           sw \<leftarrow> oftable_substitute_rule w sw r (op_victim op);
           sw \<leftarrow> ofproto_rule_destroy_up sw (Some r);
           ofoperation_destroy sw r op False }
     | OFOPERATION_DELETE \<Rightarrow>
         if op_error op \<noteq> None then None
         else do {
           sw \<leftarrow> (if opt then Some (sw\<lparr>sw_rules := (sw_rules sw)(r := None)\<rparr>) else ofproto_rule_destroy_up sw (Some r));
           ofoperation_destroy sw r op True }
     | OFOPERATION_MODIFY \<Rightarrow> do {
         sw \<leftarrow> (if op_error op = None then upd_rule r (\<lambda>x. x\<lparr>r_modified := w_now w\<rparr>) sw
           else upd_rule r (\<lambda>x. x\<lparr>r_flow_cookie := op_flow_cookie op,
                  r_ofpacts := (case op_ofpacts op of Some a \<Rightarrow> a | None \<Rightarrow> r_ofpacts x)\<rparr>) sw);
         ofoperation_destroy sw r op False } }"

text \<open>\<open>is_hidden[i++]\<close> is only evaluated for an operation without an error. An index past the end is a fault.\<close>

fun complete_ops :: "world \<Rightarrow> bool \<Rightarrow> switch \<Rightarrow> ut_ptr list \<Rightarrow> bool list option \<Rightarrow> switch option" where
  "complete_ops w opt sw [] hs = Some sw"
| "complete_ops w opt sw (r # rs) hs = do {
     x \<leftarrow> sw_rules sw r;
     op \<leftarrow> r_pending x;
     (h, hs) \<leftarrow> (case hs of None \<Rightarrow> Some (None, None)
       | Some l \<Rightarrow> if op_error op \<noteq> None then Some (None, Some l)
           else (case l of [] \<Rightarrow> None | b # l' \<Rightarrow> Some (Some b, Some l')));
     sw \<leftarrow> complete_op w opt sw r h;
     complete_ops w opt sw rs hs }"

definition op_of :: "switch \<Rightarrow> ut_ptr \<Rightarrow> ofoperation option" where
  "op_of sw r = do { x \<leftarrow> sw_rules sw r; r_pending x }"

definition ofopgroup_complete :: "world \<Rightarrow> bool \<Rightarrow> switch \<Rightarrow> nat \<Rightarrow> bool list option \<Rightarrow> switch option" where
  "ofopgroup_complete w opt sw g hs = do {
     gr \<leftarrow> sw_groups sw g;
     if g_n_running gr \<noteq> 0 then None
     else do {
       ops \<leftarrow> those (map (op_of sw) (g_ops gr));
       let error = (case find (\<lambda>op. op_error op \<noteq> None) ops of Some op \<Rightarrow> op_error op | None \<Rightarrow> None);
       let error = (if error = None then (case g_ofconn gr of
             Some c \<Rightarrow> if g_buffer_id gr \<noteq> 0xffffffff
               then (case find (\<lambda>(r, op). op_type op \<noteq> OFOPERATION_DELETE) (zip (g_ops gr) ops) of
                   Some (r, _) \<Rightarrow> w_execute w c (g_buffer_id gr) r
                 | None \<Rightarrow> None)
               else None
           | None \<Rightarrow> None)
         else error);
       sw \<leftarrow> complete_ops w opt sw (g_ops gr) hs;
       let sw = (if g_submitted gr then sw\<lparr>sw_pending := remove1 g (sw_pending sw)\<rparr> else sw);
       let sw = (case (g_ofconn gr, error) of
           (Some c, Some e) \<Rightarrow> sw\<lparr>sw_errors := sw_errors sw @ [(c, e)]\<rparr>
         | _ \<Rightarrow> sw);
       Some (sw\<lparr>sw_groups := (sw_groups sw)(g := None)\<rparr>) } }"

definition ofopgroup_submit :: "world \<Rightarrow> bool \<Rightarrow> switch \<Rightarrow> nat \<Rightarrow> bool list option \<Rightarrow> switch option" where
  "ofopgroup_submit w opt sw g hs = do {
     gr \<leftarrow> sw_groups sw g;
     if g_n_running gr = 0 then ofopgroup_complete w opt sw g hs
     else do {
       sw \<leftarrow> upd_group g (\<lambda>gr. gr\<lparr>g_submitted := True\<rparr>) sw;
       Some (sw\<lparr>sw_pending := sw_pending sw @ [g]\<rparr>) } }"

definition ofoperation_complete :: "world \<Rightarrow> bool \<Rightarrow> switch \<Rightarrow> ut_ptr \<Rightarrow> ofperr option \<Rightarrow> switch option" where
  "ofoperation_complete w opt sw r err = do {
     op \<leftarrow> op_of sw r;
     gr \<leftarrow> sw_groups sw (op_group op);
     if g_n_running gr = 0 \<or> (err \<noteq> None \<and> op_type op = OFOPERATION_DELETE) then None
     else do {
       sw \<leftarrow> upd_rule r (\<lambda>x. x\<lparr>r_pending := Some (op\<lparr>op_error := err\<rparr>)\<rparr>) sw;
       sw \<leftarrow> upd_group (op_group op) (\<lambda>gr. gr\<lparr>g_n_running := g_n_running gr - 1\<rparr>) sw;
       if g_n_running gr = 1 \<and> g_submitted gr then ofopgroup_complete w opt sw (op_group op) None else Some sw } }"

section \<open>The hooks of the datapath\<close>

definition rule_invalidate :: "switch \<Rightarrow> ut_ptr \<Rightarrow> switch option" where
  "rule_invalidate sw r = do {
     x \<leftarrow> sw_rules sw r;
     (todo, sw) \<leftarrow> enclave_call (\<lambda>br. ecall_oftable_update_taggable br (unat (r_table_id x))) sw;
     let sw = (if todo \<noteq> 0 then sw\<lparr>sw_need_revalidate := True\<rparr> else sw);
     if sw_need_revalidate sw then Some sw
     else do {
       other \<leftarrow> ecall_oftable_is_other_table (sw_bridge sw) (unat (r_table_id x));
       Some (if other \<noteq> 0 \<and> r_tag x \<noteq> 0 then sw\<lparr>sw_revalidate_set := r_tag x # sw_revalidate_set sw\<rparr>
             else sw\<lparr>sw_need_revalidate := True\<rparr>) } }"

definition complete_operation :: "world \<Rightarrow> bool \<Rightarrow> switch \<Rightarrow> ut_ptr \<Rightarrow> switch option" where
  "complete_operation w opt sw r = do {
     sw \<leftarrow> rule_invalidate sw r;
     if sw_clogged sw then Some (sw\<lparr>sw_completions := sw_completions sw @ [r]\<rparr>)
     else ofoperation_complete w opt sw r None }"

definition rule_construct :: "world \<Rightarrow> bool \<Rightarrow> switch \<Rightarrow> ut_ptr \<Rightarrow> switch option" where
  "rule_construct w opt sw r = do {
     x \<leftarrow> sw_rules sw r;
     op \<leftarrow> r_pending x;
     tag \<leftarrow> (case op_victim op of
         Some v \<Rightarrow> do { y \<leftarrow> sw_rules sw v; Some (r_tag y) }
       | None \<Rightarrow>
           if r_table_id x = 0 then Some 0
           else do {
             hash \<leftarrow> (if opt then map_option snd (ecall_miniflow_expand_and_tag (sw_bridge sw) r (unat (r_table_id x)))
               else do {
                 f \<leftarrow> ecall_miniflow_expand (sw_bridge sw) r;
                 ecall_rule_calculate_tag (sw_bridge sw) r f (unat (r_table_id x)) });
             Some (if hash \<noteq> 0 then w_tag w hash else 0) });
     sw \<leftarrow> upd_rule r (\<lambda>x. x\<lparr>r_tag := tag\<rparr>) sw;
     complete_operation w opt sw r }"

definition rule_destruct :: "world \<Rightarrow> bool \<Rightarrow> switch \<Rightarrow> ut_ptr \<Rightarrow> switch option" where
  "rule_destruct w opt sw r = complete_operation w opt sw r"

definition rule_modify_actions :: "world \<Rightarrow> bool \<Rightarrow> switch \<Rightarrow> ut_ptr \<Rightarrow> switch option" where
  "rule_modify_actions w opt sw r = complete_operation w opt sw r"

section \<open>Collecting rules\<close>

definition check_table_id :: "switch \<Rightarrow> u8 \<Rightarrow> ofperr option" where
  "check_table_id sw table_id = (if table_id = 0xff \<or> uint table_id < sw_n_tables sw then None else Some OFPERR_OFPBRC_BAD_TABLE_ID)"

text \<open>The loop over the rules the enclave has returned, each with its hidden flag where the call has returned that too.\<close>

fun collect_loop :: "world \<Rightarrow> switch \<Rightarrow> u64 \<Rightarrow> u64 \<Rightarrow> u16 \<Rightarrow> (ut_ptr \<times> bool option) list \<Rightarrow> ut_ptr list
    \<Rightarrow> (ofperr option \<times> ut_ptr list) option" where
  "collect_loop w sw cookie cmask port [] acc = Some (None, acc)"
| "collect_loop w sw cookie cmask port ((r, h) # rest) acc = do {
     x \<leftarrow> sw_rules sw r;
     if r_pending x \<noteq> None then Some (Some OFPROTO_POSTPONE, acc)
     else do {
       hidden \<leftarrow> (case h of Some b \<Rightarrow> Some b | None \<Rightarrow> ofproto_rule_is_hidden sw r);
       collect_loop w sw cookie cmask port rest
         (if \<not> hidden \<and> ofproto_rule_has_out_port w x port \<and> (r_flow_cookie x XOR cookie) AND cmask = 0 then acc @ [r] else acc) } }"

text \<open>The first \<open>n\<close> elements of an array of which only \<open>xs\<close> has been written.\<close>

definition filled :: "nat \<Rightarrow> 'a list \<Rightarrow> 'a list option" where
  "filled n xs = (if n \<le> length xs then Some (take n xs) else None)"

text \<open>The result is the error, the list of rules, and the array \<open>*modifiable\<close>.\<close>

definition collect_rules_loose :: "world \<Rightarrow> bool \<Rightarrow> switch \<Rightarrow> u8 \<Rightarrow> match \<Rightarrow> u64 \<Rightarrow> u64 \<Rightarrow> u16
    \<Rightarrow> (ofperr option \<times> ut_ptr list \<times> bool list) option" where
  "collect_rules_loose w opt sw table_id m cookie cmask port = (case check_table_id sw table_id of
     Some e \<Rightarrow> Some (Some e, [], [])
   | None \<Rightarrow>
       if opt then do {
         (cs, total) \<leftarrow> ecall_collect_rules_loose (sw_bridge sw) table_id (sw_n_tables sw) 0 m 128;
         more \<leftarrow> (if total > length cs
           then map_option fst (ecall_collect_rules_loose (sw_bridge sw) table_id (sw_n_tables sw) (length cs) m (total - length cs))
           else Some []);
         cs \<leftarrow> filled total (cs @ more);
         (error, rs) \<leftarrow> collect_loop w sw cookie cmask port (map (\<lambda>(r, hidden, _). (r, Some hidden)) cs) [];
         Some (error, rs, map (\<lambda>(_, _, modi). modi) cs) }
       else do {
         n \<leftarrow> ecall_collect_rules_loose_c (sw_bridge sw) (sw_n_tables sw) table_id m;
         if n = 0 then Some (None, [], [])
         else do {
           (buf, _) \<leftarrow> ecall_collect_rules_loose_r (sw_bridge sw) (sw_n_tables sw) (replicate n 0) (int n) table_id m;
           (error, rs) \<leftarrow> collect_loop w sw cookie cmask port (map (\<lambda>r. (r, None)) (take n buf)) [];
           Some (error, rs, []) } })"

text \<open>This one returns 0 also when a rule is pending.\<close>

definition collect_rules_strict :: "world \<Rightarrow> bool \<Rightarrow> switch \<Rightarrow> u8 \<Rightarrow> match \<Rightarrow> u32 \<Rightarrow> u64 \<Rightarrow> u64 \<Rightarrow> u16
    \<Rightarrow> (ofperr option \<times> ut_ptr list \<times> bool list) option" where
  "collect_rules_strict w opt sw table_id m p cookie cmask port = (case check_table_id sw table_id of
     Some e \<Rightarrow> Some (Some e, [], [])
   | None \<Rightarrow>
       if opt then do {
         cs \<leftarrow> ecall_collect_rules_strict (sw_bridge sw) table_id (sw_n_tables sw) m p
           (if table_id = 0xff then size_of_int (sw_n_tables sw) else 1);
         (_, rs) \<leftarrow> collect_loop w sw cookie cmask port (map (\<lambda>(r, hidden, _). (r, Some hidden)) cs) [];
         Some (None, rs, map (\<lambda>(_, _, modi). modi) cs) }
       else do {
         n \<leftarrow> ecall_collect_rules_strict_c (sw_bridge sw) (sw_n_tables sw) table_id m p;
         if n = 0 then Some (None, [], [])
         else do {
           (buf, _) \<leftarrow> ecall_collect_rules_strict_r (sw_bridge sw) (sw_n_tables sw) (replicate n 0) (int n) table_id m p;
           (_, rs) \<leftarrow> collect_loop w sw cookie cmask port (map (\<lambda>r. (r, None)) (take n buf)) [];
           Some (None, rs, []) } })"

section \<open>Flow statistics\<close>

text \<open>\<open>collect_rules_loose_stats_request\<close> exists in the build with \<open>OPTIMIZED\<close>. It returns the selected rules and, for all rules the
  enclave has returned, the matches and priorities.\<close>

definition collect_rules_loose_stats_request :: "world \<Rightarrow> switch \<Rightarrow> u8 \<Rightarrow> match \<Rightarrow> u64 \<Rightarrow> u64 \<Rightarrow> u16
    \<Rightarrow> (ofperr option \<times> ut_ptr list \<times> (match \<times> u32) list) option" where
  "collect_rules_loose_stats_request w sw table_id m cookie cmask port = (case check_table_id sw table_id of
     Some e \<Rightarrow> Some (Some e, [], [])
   | None \<Rightarrow> do {
       (es, total) \<leftarrow> ecall_collect_rules_loose_stats_request (sw_bridge sw) table_id (sw_n_tables sw) 0 2 m;
       more \<leftarrow> (if total > length es
         then map_option fst (ecall_collect_rules_loose_stats_request (sw_bridge sw) table_id (sw_n_tables sw) (length es) (total - length es) m)
         else Some []);
       es \<leftarrow> filled total (es @ more);
       (error, rs) \<leftarrow> collect_loop w sw cookie cmask port (map (\<lambda>(r, _). (r, Some False)) es) [];
       Some (error, rs, map snd es) })"

text \<open>The reply of \<open>handle_flow_stats_request\<close>: for each rule the match and the priority it is reported with.\<close>

definition handle_flow_stats_request :: "world \<Rightarrow> bool \<Rightarrow> switch \<Rightarrow> u8 \<Rightarrow> match \<Rightarrow> u64 \<Rightarrow> u64 \<Rightarrow> u16
    \<Rightarrow> (ofperr + (ut_ptr \<times> match \<times> u32) list) option" where
  "handle_flow_stats_request w opt sw table_id m cookie cmask port =
     (if opt then do {
        (error, rs, mps) \<leftarrow> collect_rules_loose_stats_request w sw table_id m cookie cmask port;
        case error of Some e \<Rightarrow> Some (Inl e)
        | None \<Rightarrow> do {
            mps \<leftarrow> filled (length rs) mps;
            Some (Inr (zip rs mps)) } }
      else do {
        (error, rs, _) \<leftarrow> collect_rules_loose w opt sw table_id m cookie cmask port;
        case error of Some e \<Rightarrow> Some (Inl e)
        | None \<Rightarrow> map_option Inr (those (map (stats_entry (sw_bridge sw)) rs)) })"

section \<open>Adding a flow\<close>

definition is_flow_deletion_pending :: "switch \<Rightarrow> ut_ptr \<Rightarrow> u8 \<Rightarrow> bool option" where
  "is_flow_deletion_pending sw r table_id = (if sw_deletions sw = [] then Some False
     else do {
       h \<leftarrow> ecall_cls_rule_hash (sw_bridge sw) r (ucast table_id);
       deletion_pending (sw_bridge sw) r (map fst (filter (\<lambda>(_, k). k = h) (sw_deletions sw))) })"

definition new_switch_rule :: "world \<Rightarrow> flow_mod \<Rightarrow> u8 \<Rightarrow> rule" where
  "new_switch_rule w fm table_id = (w_fresh w)\<lparr>r_pending := None, r_flow_cookie := fm_new_cookie fm,
     r_created := w_now w, r_modified := w_now w, r_used := w_now w,
     r_idle_timeout := fm_idle_timeout fm, r_hard_timeout := fm_hard_timeout fm, r_table_id := table_id,
     r_send_flow_removed := fm_flags fm AND OFPFF_SEND_FLOW_REM \<noteq> 0, r_ofpacts := fm_ofpacts fm\<rparr>"

text \<open>From the creation of the group to its submission. \<open>rule_construct\<close> of the datapath never fails.\<close>

definition add_flow_commit :: "world \<Rightarrow> bool \<Rightarrow> switch \<Rightarrow> nat option \<Rightarrow> flow_mod \<Rightarrow> ut_ptr \<Rightarrow> ut_ptr option \<Rightarrow> ut_ptr option \<Rightarrow> u32
    \<Rightarrow> switch option" where
  "add_flow_commit w opt sw ofconn fm r victim evict evict_hash = do {
     let (g, sw) = ofopgroup_create sw ofconn (fm_buffer_id fm);
     sw \<leftarrow> ofoperation_create sw g r OFOPERATION_ADD OFPRR_IDLE_TIMEOUT None;
     sw \<leftarrow> upd_rule r (\<lambda>x. x\<lparr>r_pending := map_option (\<lambda>op. op\<lparr>op_victim := victim\<rparr>) (r_pending x)\<rparr>) sw;
     sw \<leftarrow> rule_construct w opt sw r;
     sw \<leftarrow> (case evict of None \<Rightarrow> Some sw
       | Some ev \<Rightarrow> do {
           sw \<leftarrow> ofproto_rule_send_removed opt sw ev OFPRR_DELETE;
           sw \<leftarrow> (if opt then do {
               sw \<leftarrow> ofoperation_create sw g ev OFOPERATION_DELETE OFPRR_DELETE (Some evict_hash);
               Some (not_expirable ev sw) }
             else do {
               sw \<leftarrow> ofoperation_create sw g ev OFOPERATION_DELETE OFPRR_DELETE None;
               oftable_remove_rule sw ev });
           rule_destruct w opt sw ev });
     ofopgroup_submit w opt sw g None }"

text \<open>The choice between the outcomes once the rule is in its table, and \<open>exit\<close>: back out if an error occurred. \<open>overflow\<close> is \<open>None\<close> when the
  table is not over its limit, else the rule to evict.\<close>

definition add_flow_finish :: "world \<Rightarrow> bool \<Rightarrow> switch \<Rightarrow> nat option \<Rightarrow> flow_mod \<Rightarrow> ut_ptr \<Rightarrow> ut_ptr option \<Rightarrow> bool \<Rightarrow> ut_ptr option option \<Rightarrow> u32
    \<Rightarrow> (ofperr option \<times> switch) option" where
  "add_flow_finish w opt sw ofconn fm r victim modifiable overflow evict_hash = do {
     victim_pending \<leftarrow> (case victim of None \<Rightarrow> Some False | Some v \<Rightarrow> do { y \<leftarrow> sw_rules sw v; Some (r_pending y \<noteq> None) });
     error \<leftarrow> (if \<not> modifiable then Some (Some OFPERR_OFPBRC_EPERM)
       else if victim_pending then Some (Some OFPROTO_POSTPONE)
       else (case overflow of
           None \<Rightarrow> Some None
         | Some None \<Rightarrow> Some (Some OFPERR_OFPFMFC_TABLE_FULL)
         | Some (Some ev) \<Rightarrow> do { y \<leftarrow> sw_rules sw ev; Some (if r_pending y \<noteq> None then Some OFPROTO_POSTPONE else None) }));
     case error of
       None \<Rightarrow> do {
         sw \<leftarrow> add_flow_commit w opt sw ofconn fm r victim (case overflow of None \<Rightarrow> None | Some ev \<Rightarrow> ev) evict_hash;
         Some (None, sw) }
     | Some e \<Rightarrow> do {
         sw \<leftarrow> oftable_substitute_rule w sw r victim;
         sw \<leftarrow> ofproto_rule_destroy_up sw (Some r);
         Some (Some e, sw) } }"

definition no_out :: "u32 \<Rightarrow> u16 \<Rightarrow> u16 \<Rightarrow> add_flow_out" where
  "no_out hash vid vid_mask = \<lparr>af_victim = None, af_evict = None, af_evict_rule_hash = hash, af_vid = vid, af_vid_mask = vid_mask,
     af_table_overflow = False, af_is_rule_modifiable = True, af_is_deletion_pending = False, af_is_rule_overlapping = False,
     af_is_read_only = False\<rparr>"

text \<open>\<open>r\<close> is the address that \<open>rule_alloc\<close> returns, with \<open>w_fresh\<close> in its memory. \<open>junk\<close> are the uninitialised locals
  \<open>evict_rule_hash\<close>, \<open>vid\<close> and \<open>vid_mask\<close>.\<close>

definition add_flow_opt :: "world \<Rightarrow> u32 \<times> u16 \<times> u16 \<Rightarrow> switch \<Rightarrow> nat option \<Rightarrow> flow_mod \<Rightarrow> ut_ptr \<Rightarrow> u8 \<Rightarrow> (ofperr option \<times> switch) option" where
  "add_flow_opt w junk sw ofconn fm r t = do {
     let x = new_switch_rule w fm t;
     let sw = sw\<lparr>sw_rules := (sw_rules sw)(r \<mapsto> x)\<rparr>;
     let (h, v, vm) = junk;
     (out, sw) \<leftarrow> enclave_call (\<lambda>br. ecall_add_flow (w_value w) br (unat t) r (fm_match fm) (fm_priority fm) (fm_flags fm)
       (eviction_group_priority w 0) (rule_eviction_priority w x) (r_evg_node x) (map fst (sw_deletions sw)) (may_expire x) (no_out h v vm)) sw;
     let freed = sw\<lparr>sw_rules := (sw_rules sw)(r := None)\<rparr>;
     if af_is_read_only out then Some (Some OFPERR_OFPBRC_EPERM, freed)
     else if af_is_deletion_pending out then Some (Some OFPROTO_POSTPONE, freed)
     else if af_is_rule_overlapping out then Some (Some OFPERR_OFPFMFC_OVERLAP, freed)
     else do {
       sw \<leftarrow> upd_rule r (\<lambda>x. x\<lparr>r_tmp_storage_vid := (if af_vid out \<noteq> 0 then af_vid out else r_tmp_storage_vid x),
         r_tmp_storage_vid_mask := (if af_vid_mask out \<noteq> 0 then af_vid_mask out else r_tmp_storage_vid_mask x)\<rparr>) sw;
       let sw = (if may_expire x then sw\<lparr>sw_expirable := sw_expirable sw @ [r]\<rparr> else sw);
       sw \<leftarrow> (case af_victim out of None \<Rightarrow> Some sw | Some v \<Rightarrow> do { _ \<leftarrow> sw_rules sw v; Some (not_expirable v sw) });
       add_flow_finish w True sw ofconn fm r (af_victim out) (af_is_rule_modifiable out)
         (if af_table_overflow out then Some (af_evict out) else None) (af_evict_rule_hash out) } }"

definition add_flow_plain :: "world \<Rightarrow> switch \<Rightarrow> nat option \<Rightarrow> flow_mod \<Rightarrow> ut_ptr \<Rightarrow> u8 \<Rightarrow> (ofperr option \<times> switch) option" where
  "add_flow_plain w sw ofconn fm r t = do {
     ro \<leftarrow> ecall_oftable_is_readonly (sw_bridge sw) (unat t);
     if ro \<noteq> 0 then Some (Some OFPERR_OFPBRC_EPERM, sw)
     else do {
       let sw = sw\<lparr>sw_rules := (sw_rules sw)(r \<mapsto> w_fresh w)\<rparr>;
       sw \<leftarrow> enclave_do (\<lambda>br. ecall_cls_rule_init br r (fm_match fm) (fm_priority fm)) sw;
       del \<leftarrow> is_flow_deletion_pending sw r t;
       overlap \<leftarrow> (if del then Some False
         else if fm_flags fm AND OFPFF_CHECK_OVERLAP \<noteq> 0 then ecall_cr_rule_overlaps (sw_bridge sw) (unat t) r else Some False);
       if del \<or> overlap
       then do {
         sw \<leftarrow> enclave_do (\<lambda>br. ecall_cls_rule_destroy br r) sw;
         Some (Some (if del then OFPROTO_POSTPONE else OFPERR_OFPFMFC_OVERLAP), sw\<lparr>sw_rules := (sw_rules sw)(r := None)\<rparr>) }
       else do {
         let sw = sw\<lparr>sw_rules := (sw_rules sw)(r \<mapsto> new_switch_rule w fm t)\<rparr>;
         (victim, sw) \<leftarrow> oftable_replace_rule w sw r;
         modifiable \<leftarrow> (case victim of None \<Rightarrow> Some True | Some v \<Rightarrow> rule_is_modifiable sw v);
         busy \<leftarrow> (case victim of None \<Rightarrow> Some False | Some v \<Rightarrow> do { y \<leftarrow> sw_rules sw v; Some (r_pending y \<noteq> None) });
         (overflow, sw) \<leftarrow> (if \<not> modifiable \<or> busy then Some (None, sw)
           else do {
             cnt \<leftarrow> ecall_oftable_cls_count (sw_bridge sw) (unat t);
             mf \<leftarrow> ecall_oftable_mflows (sw_bridge sw) (unat t);
             if (of_int cnt :: u32) > mf
             then do {
               (ev, sw) \<leftarrow> enclave_call (\<lambda>br. ecall_choose_rule_to_evict_p br (unat t) r) sw;
               Some (Some ev, sw) }
             else Some (None, sw) });
         add_flow_finish w False sw ofconn fm r victim modifiable overflow 0 } } }"

text \<open>The datapath has no \<open>rule_choose_table\<close>.\<close>

definition add_flow :: "world \<Rightarrow> u32 \<times> u16 \<times> u16 \<Rightarrow> bool \<Rightarrow> switch \<Rightarrow> nat option \<Rightarrow> flow_mod \<Rightarrow> ut_ptr \<Rightarrow> (ofperr option \<times> switch) option" where
  "add_flow w junk opt sw ofconn fm r = (case check_table_id sw (fm_table_id fm) of
     Some e \<Rightarrow> Some (Some e, sw)
   | None \<Rightarrow> let t = (if fm_table_id fm = 0xff then 0 else fm_table_id fm) in
       if opt then add_flow_opt w junk sw ofconn fm r t else add_flow_plain w sw ofconn fm r t)"

section \<open>Deleting flows\<close>

definition delete_flow_up :: "world \<Rightarrow> bool \<Rightarrow> switch \<Rightarrow> nat \<Rightarrow> ut_ptr \<Rightarrow> switch option" where
  "delete_flow_up w opt sw g r = do {
     sw \<leftarrow> ofproto_rule_send_removed opt sw r OFPRR_DELETE;
     sw \<leftarrow> ofoperation_create sw g r OFOPERATION_DELETE OFPRR_DELETE None;
     sw \<leftarrow> oftable_remove_rule sw r;
     rule_destruct w opt sw r }"

fun delete_plain :: "world \<Rightarrow> switch \<Rightarrow> nat \<Rightarrow> ut_ptr list \<Rightarrow> switch option" where
  "delete_plain w sw g [] = Some sw"
| "delete_plain w sw g (r # rs) = do { sw \<leftarrow> delete_flow_up w False sw g r; delete_plain w sw g rs }"

fun delete_opt :: "world \<Rightarrow> switch \<Rightarrow> nat \<Rightarrow> (ut_ptr \<times> deleted_flow) list \<Rightarrow> switch option" where
  "delete_opt w sw g [] = Some sw"
| "delete_opt w sw g ((r, d) # rs) = do {
     sw \<leftarrow> ofproto_rule_send_removed_del sw r OFPRR_DELETE d;
     sw \<leftarrow> ofoperation_create sw g r OFOPERATION_DELETE OFPRR_DELETE (Some (df_hash d));
     sw \<leftarrow> rule_destruct w True (not_expirable r sw) r;
     delete_opt w sw g rs }"

definition table_item :: "switch \<Rightarrow> ut_ptr \<Rightarrow> (nat \<times> ut_ptr) option" where
  "table_item sw r = do { x \<leftarrow> sw_rules sw r; Some (unat (r_table_id x), r) }"

definition delete_flows_up :: "world \<Rightarrow> bool \<Rightarrow> switch \<Rightarrow> nat option \<Rightarrow> ut_ptr list \<Rightarrow> switch option" where
  "delete_flows_up w opt sw ofconn rs = do {
     let (g, sw) = ofopgroup_create sw ofconn 0xffffffff;
     sw \<leftarrow> (if opt then do {
         items \<leftarrow> those (map (table_item sw) rs);
         (ds, sw) \<leftarrow> enclave_call (\<lambda>br. ecall_delete_flows br items) sw;
         delete_opt w sw g (zip rs ds) }
       else delete_plain w sw g rs);
     ofopgroup_submit w opt sw g None }"

definition delete_flows_loose :: "world \<Rightarrow> bool \<Rightarrow> switch \<Rightarrow> nat option \<Rightarrow> flow_mod \<Rightarrow> (ofperr option \<times> switch) option" where
  "delete_flows_loose w opt sw ofconn fm = do {
     (error, rs, _) \<leftarrow> collect_rules_loose w opt sw (fm_table_id fm) (fm_match fm) (fm_cookie fm) (fm_cookie_mask fm) (fm_out_port fm);
     if error \<noteq> None \<or> rs = [] then Some (error, sw)
     else do { sw \<leftarrow> delete_flows_up w opt sw ofconn rs; Some (None, sw) } }"

definition delete_flow_strict :: "world \<Rightarrow> bool \<Rightarrow> switch \<Rightarrow> nat option \<Rightarrow> flow_mod \<Rightarrow> (ofperr option \<times> switch) option" where
  "delete_flow_strict w opt sw ofconn fm = do {
     (error, rs, _) \<leftarrow> collect_rules_strict w opt sw (fm_table_id fm) (fm_match fm) (fm_priority fm) (fm_cookie fm) (fm_cookie_mask fm) (fm_out_port fm);
     if error \<noteq> None \<or> length rs \<noteq> 1 then Some (error, sw)
     else do { sw \<leftarrow> delete_flows_up w opt sw ofconn rs; Some (None, sw) } }"

definition ofproto_rule_expire :: "world \<Rightarrow> bool \<Rightarrow> switch \<Rightarrow> ut_ptr \<Rightarrow> removed_reason \<Rightarrow> switch option" where
  "ofproto_rule_expire w opt sw r reason = (if reason \<noteq> OFPRR_HARD_TIMEOUT \<and> reason \<noteq> OFPRR_IDLE_TIMEOUT then None
     else do {
       sw \<leftarrow> ofproto_rule_send_removed opt sw r reason;
       let (g, sw) = ofopgroup_create_unattached sw;
       sw \<leftarrow> ofoperation_create sw g r OFOPERATION_DELETE reason None;
       sw \<leftarrow> oftable_remove_rule sw r;
       sw \<leftarrow> rule_destruct w opt sw r;
       ofopgroup_submit w opt sw g None })"

definition ofproto_delete_flow :: "world \<Rightarrow> bool \<Rightarrow> switch \<Rightarrow> match \<Rightarrow> u32 \<Rightarrow> (bool \<times> switch) option" where
  "ofproto_delete_flow w opt sw m p = do {
     found \<leftarrow> ecall_oftable_cls_find_match_exactly (sw_bridge sw) 0 m p;
     case found of None \<Rightarrow> Some (True, sw)
     | Some r \<Rightarrow> do {
         x \<leftarrow> sw_rules sw r;
         if r_pending x \<noteq> None then Some (False, sw)
         else do {
           let (g, sw) = ofopgroup_create_unattached sw;
           sw \<leftarrow> ofoperation_create sw g r OFOPERATION_DELETE OFPRR_DELETE None;
           sw \<leftarrow> oftable_remove_rule sw r;
           sw \<leftarrow> rule_destruct w opt sw r;
           sw \<leftarrow> ofopgroup_submit w opt sw g None;
           Some (True, sw) } } }"

section \<open>Modifying flows\<close>

text \<open>The loop of \<open>modify_flows__\<close>. In the build with \<open>OPTIMIZED\<close> the array \<open>modifiable\<close> is read in step with the list of rules.\<close>

fun modify_loop :: "world \<Rightarrow> bool \<Rightarrow> switch \<Rightarrow> nat \<Rightarrow> flow_mod \<Rightarrow> ut_ptr list \<Rightarrow> bool list \<Rightarrow> ofperr option
    \<Rightarrow> (ofperr option \<times> switch) option" where
  "modify_loop w opt sw g fm [] ms err = Some (err, sw)"
| "modify_loop w opt sw g fm (r # rs) ms err = do {
     (modi, ms) \<leftarrow> (if opt then (case ms of [] \<Rightarrow> None | b # ms' \<Rightarrow> Some (b, ms'))
       else do { b \<leftarrow> rule_is_modifiable sw r; Some (b, ms) });
     if \<not> modi then modify_loop w opt sw g fm rs ms err
     else do {
       x \<leftarrow> sw_rules sw r;
       let changed = (\<not> w_ofpacts_equal w (fm_ofpacts fm) (r_ofpacts x));
       let cookie = (if fm_new_cookie fm \<noteq> 0xffffffffffffffff then fm_new_cookie fm else r_flow_cookie x);
       sw \<leftarrow> ofoperation_create sw g r OFOPERATION_MODIFY OFPRR_IDLE_TIMEOUT None;
       sw \<leftarrow> upd_rule r (\<lambda>x. x\<lparr>r_flow_cookie := cookie\<rparr>) sw;
       sw \<leftarrow> (if changed then do {
           sw \<leftarrow> upd_rule r (\<lambda>x. x\<lparr>r_pending := map_option (\<lambda>op. op\<lparr>op_ofpacts := Some (r_ofpacts x)\<rparr>) (r_pending x),
             r_ofpacts := fm_ofpacts fm\<rparr>) sw;
           rule_modify_actions w opt sw r }
         else ofoperation_complete w opt sw r None);
       modify_loop w opt sw g fm rs ms None } }"

definition modify_flows_up :: "world \<Rightarrow> bool \<Rightarrow> switch \<Rightarrow> nat option \<Rightarrow> flow_mod \<Rightarrow> ut_ptr list \<Rightarrow> bool list
    \<Rightarrow> (ofperr option \<times> switch) option" where
  "modify_flows_up w opt sw ofconn fm rs ms = do {
     let (g, sw) = ofopgroup_create sw ofconn (fm_buffer_id fm);
     (error, sw) \<leftarrow> modify_loop w opt sw g fm rs ms (Some OFPERR_OFPBRC_EPERM);
     sw \<leftarrow> ofopgroup_submit w opt sw g None;
     Some (error, sw) }"

definition modify_flows_add :: "world \<Rightarrow> u32 \<times> u16 \<times> u16 \<Rightarrow> bool \<Rightarrow> switch \<Rightarrow> nat option \<Rightarrow> flow_mod \<Rightarrow> ut_ptr \<Rightarrow> (ofperr option \<times> switch) option" where
  "modify_flows_add w junk opt sw ofconn fm r =
     (if fm_cookie_mask fm \<noteq> 0 \<or> fm_new_cookie fm = 0xffffffffffffffff then Some (None, sw)
      else add_flow w junk opt sw ofconn fm r)"

definition modify_flows_loose :: "world \<Rightarrow> u32 \<times> u16 \<times> u16 \<Rightarrow> bool \<Rightarrow> switch \<Rightarrow> nat option \<Rightarrow> flow_mod \<Rightarrow> ut_ptr \<Rightarrow> (ofperr option \<times> switch) option" where
  "modify_flows_loose w junk opt sw ofconn fm r = do {
     (error, rs, ms) \<leftarrow> collect_rules_loose w opt sw (fm_table_id fm) (fm_match fm) (fm_cookie fm) (fm_cookie_mask fm) OFPP_ANY;
     if error \<noteq> None then Some (error, sw)
     else if rs = [] then modify_flows_add w junk opt sw ofconn fm r
     else modify_flows_up w opt sw ofconn fm rs ms }"

definition modify_flow_strict :: "world \<Rightarrow> u32 \<times> u16 \<times> u16 \<Rightarrow> bool \<Rightarrow> switch \<Rightarrow> nat option \<Rightarrow> flow_mod \<Rightarrow> ut_ptr \<Rightarrow> (ofperr option \<times> switch) option" where
  "modify_flow_strict w junk opt sw ofconn fm r = do {
     (error, rs, ms) \<leftarrow> collect_rules_strict w opt sw (fm_table_id fm) (fm_match fm) (fm_priority fm) (fm_cookie fm) (fm_cookie_mask fm) OFPP_ANY;
     if error \<noteq> None then Some (error, sw)
     else if rs = [] then modify_flows_add w junk opt sw ofconn fm r
     else if length rs = 1 then modify_flows_up w opt sw ofconn fm rs ms
     else Some (None, sw) }"

datatype flow_mod_command = OFPFC_ADD | OFPFC_MODIFY | OFPFC_MODIFY_STRICT | OFPFC_DELETE | OFPFC_DELETE_STRICT | Bad_command

definition handle_flow_mod_up :: "world \<Rightarrow> u32 \<times> u16 \<times> u16 \<Rightarrow> bool \<Rightarrow> switch \<Rightarrow> nat option \<Rightarrow> flow_mod_command \<Rightarrow> flow_mod \<Rightarrow> ut_ptr
    \<Rightarrow> (ofperr option \<times> switch) option" where
  "handle_flow_mod_up w junk opt sw ofconn cmd fm r = (if length (sw_pending sw) \<ge> 50 then Some (Some OFPROTO_POSTPONE, sw)
     else (case cmd of
       OFPFC_ADD \<Rightarrow> add_flow w junk opt sw ofconn fm r
     | OFPFC_MODIFY \<Rightarrow> modify_flows_loose w junk opt sw ofconn fm r
     | OFPFC_MODIFY_STRICT \<Rightarrow> modify_flow_strict w junk opt sw ofconn fm r
     | OFPFC_DELETE \<Rightarrow> delete_flows_loose w opt sw ofconn fm
     | OFPFC_DELETE_STRICT \<Rightarrow> delete_flow_strict w opt sw ofconn fm
     | Bad_command \<Rightarrow> Some (Some OFPERR_OFPFMFC_BAD_COMMAND, sw)))"

definition ofproto_add_flow :: "world \<Rightarrow> u32 \<times> u16 \<times> u16 \<Rightarrow> bool \<Rightarrow> switch \<Rightarrow> match \<Rightarrow> u32 \<Rightarrow> u8 list \<Rightarrow> ut_ptr \<Rightarrow> switch option" where
  "ofproto_add_flow w junk opt sw m p acts r = do {
     found \<leftarrow> ecall_oftable_cls_find_match_exactly (sw_bridge sw) 0 m p;
     must_add \<leftarrow> (case found of None \<Rightarrow> Some True
       | Some q \<Rightarrow> do { x \<leftarrow> sw_rules sw q; Some (\<not> w_ofpacts_equal w (r_ofpacts x) acts) });
     if must_add
     then map_option snd (add_flow w junk opt sw None
       \<lparr>fm_table_id = 0, fm_match = m, fm_priority = p, fm_cookie = 0, fm_cookie_mask = 0, fm_new_cookie = 0, fm_idle_timeout = 0,
        fm_hard_timeout = 0, fm_buffer_id = 0xffffffff, fm_out_port = 0, fm_flags = 0, fm_ofpacts = acts\<rparr> r)
     else Some sw }"

section \<open>Flushing and evicting\<close>

fun flush_ops :: "world \<Rightarrow> bool \<Rightarrow> switch \<Rightarrow> nat \<Rightarrow> u32 option \<Rightarrow> ut_ptr list \<Rightarrow> switch option" where
  "flush_ops w opt sw g h [] = Some sw"
| "flush_ops w opt sw g h (r # rs) = do {
     sw \<leftarrow> ofoperation_create sw g r OFOPERATION_DELETE OFPRR_DELETE h;
     sw \<leftarrow> (if opt then Some (not_expirable r sw) else oftable_remove_rule sw r);
     sw \<leftarrow> rule_destruct w opt sw r;
     flush_ops w opt sw g h rs }"

text \<open>With \<open>OPTIMIZED\<close> every operation gets \<open>hashes\<close>, that is the hash of the first rule, and after a second call \<open>n_rules\<close> is the count of
  that call.\<close>

definition flush_collect :: "switch \<Rightarrow> (((ut_ptr \<times> u32) list \<times> int) \<times> switch) option" where
  "flush_collect sw = do {
     ((found, cnt), sw) \<leftarrow> enclave_call (\<lambda>br. map_option (\<lambda>(a, c, br). ((a, c), br)) (ecall_ofproto_flush br 32)) sw;
     if cnt > int (length found)
     then do {
       ((more, cnt'), sw) \<leftarrow> enclave_call (\<lambda>br. map_option (\<lambda>(a, c, br). ((a, c), br))
         (ecall_ofproto_flush br (nat (cnt - int (length found))))) sw;
       Some ((found @ more, cnt'), sw) }
     else Some ((found, cnt), sw) }"

definition ofproto_flush_up :: "world \<Rightarrow> bool \<Rightarrow> switch \<Rightarrow> switch option" where
  "ofproto_flush_up w opt sw = do {
     let (g, sw) = ofopgroup_create_unattached sw;
     sw \<leftarrow> (if opt then do {
         ((found, cnt), sw) \<leftarrow> flush_collect sw;
         rs \<leftarrow> filled (nat cnt) found;
         flush_ops w opt sw g (case found of [] \<Rightarrow> None | (_, h) # _ \<Rightarrow> Some h) (map fst rs) }
       else do {
         n \<leftarrow> ecall_flush_c (sw_bridge sw);
         if n = 0 then Some sw
         else do {
           (buf, _) \<leftarrow> ecall_flush_r (sw_bridge sw) (replicate n 0) (int n);
           flush_ops w opt sw g None (take n buf) } });
     ofopgroup_submit w opt sw g None }"

fun evict_ops :: "switch \<Rightarrow> nat \<Rightarrow> (ut_ptr \<times> u32) list \<Rightarrow> (nat \<times> ut_ptr) list \<Rightarrow> ((nat \<times> ut_ptr) list \<times> switch) option" where
  "evict_ops sw g [] acc = Some (acc, sw)"
| "evict_ops sw g ((r, h) # rest) acc = do {
     x \<leftarrow> sw_rules sw r;
     if r_pending x \<noteq> None then Some (acc, sw)
     else do {
       sw \<leftarrow> ofoperation_create sw g r OFOPERATION_DELETE OFPRR_EVICTION (Some h);
       evict_ops sw g rest (acc @ [(unat (r_table_id x), r)]) } }"

fun destruct_all :: "world \<Rightarrow> switch \<Rightarrow> ut_ptr list \<Rightarrow> switch option" where
  "destruct_all w sw [] = Some sw"
| "destruct_all w sw (r # rs) = do { sw \<leftarrow> rule_destruct w True (not_expirable r sw) r; destruct_all w sw rs }"

definition evict_collect :: "world \<Rightarrow> switch \<Rightarrow> (((ut_ptr \<times> u32) list \<times> int) \<times> switch) option" where
  "evict_collect w sw = do {
     ((n, evs, total_evictions), sw) \<leftarrow> enclave_call (\<lambda>br. map_option (\<lambda>(n, evs, k, br). ((n, evs, k), br))
       (ecall_ofproto_evict (w_value w) br (sw_n_tables sw) 0 32)) sw;
     if (of_int total_evictions :: u64) - n > 0
     then do {
       ((_, more, _), sw) \<leftarrow> enclave_call (\<lambda>br. map_option (\<lambda>(n, evs, k, br). ((n, evs, k), br))
         (ecall_ofproto_evict (w_value w) br (sw_n_tables sw) (unat n) (unat ((of_int total_evictions :: u64) - n)))) sw;
       Some ((evs @ more, total_evictions), sw) }
     else Some ((evs, total_evictions), sw) }"

definition ofproto_evict_opt :: "world \<Rightarrow> switch \<Rightarrow> switch option" where
  "ofproto_evict_opt w sw = do {
     let (g, sw) = ofopgroup_create_unattached sw;
     ((evs, total_evictions), sw) \<leftarrow> evict_collect w sw;
     evs \<leftarrow> filled (nat total_evictions) evs;
     (items, sw) \<leftarrow> evict_ops sw g evs [];
     (hidden, sw) \<leftarrow> enclave_call (\<lambda>br. ecall_oftable_remove_rules br items) sw;
     sw \<leftarrow> destruct_all w sw (map snd items);
     ofopgroup_submit w True sw g (Some hidden) }"

text \<open>Without \<open>OPTIMIZED\<close>: the loop over one table; it ends because each round takes a rule out of the table.\<close>

partial_function (option) evict_table :: "world \<Rightarrow> nat \<Rightarrow> nat \<Rightarrow> switch \<Rightarrow> switch option" where
  "evict_table w g t sw = do {
     cnt \<leftarrow> ecall_oftable_cls_count (sw_bridge sw) t;
     mf \<leftarrow> ecall_oftable_mflows (sw_bridge sw) t;
     enabled \<leftarrow> ecall_is_eviction_fields_enabled (sw_bridge sw) t;
     if \<not> ((of_int cnt :: u32) > mf \<and> enabled) then Some sw
     else do {
       tmp \<leftarrow> ecall_choose_rule_to_evict (sw_bridge sw) t;
       case tmp of None \<Rightarrow> Some sw
       | Some r \<Rightarrow> do {
           x \<leftarrow> sw_rules sw r;
           if r_pending x \<noteq> None then Some sw
           else do {
             sw \<leftarrow> ofoperation_create sw g r OFOPERATION_DELETE OFPRR_EVICTION None;
             sw \<leftarrow> oftable_remove_rule sw r;
             sw \<leftarrow> rule_destruct w False sw r;
             evict_table w g t sw } } } }"

fun evict_plain :: "world \<Rightarrow> nat \<Rightarrow> nat list \<Rightarrow> switch \<Rightarrow> switch option" where
  "evict_plain w g [] sw = Some sw"
| "evict_plain w g (t # ts) sw = do { sw \<leftarrow> evict_table w g t sw; evict_plain w g ts sw }"

definition ofproto_evict_up :: "world \<Rightarrow> bool \<Rightarrow> switch \<Rightarrow> switch option" where
  "ofproto_evict_up w opt sw = (if opt then ofproto_evict_opt w sw
     else do {
       let (g, sw) = ofopgroup_create_unattached sw;
       sw \<leftarrow> evict_plain w g (map (\<lambda>i. i mod 256) [0..<nat (sw_n_tables sw)]) sw;
       ofopgroup_submit w opt sw g None })"

section \<open>Configuring tables\<close>

fun group_add_all :: "world \<Rightarrow> switch \<Rightarrow> ut_ptr list \<Rightarrow> switch option" where
  "group_add_all w sw [] = Some sw"
| "group_add_all w sw (r # rs) = do { sw \<leftarrow> eviction_group_add_rule w sw r; group_add_all w sw rs }"

definition group_item :: "world \<Rightarrow> switch \<Rightarrow> ut_ptr \<Rightarrow> (bool \<times> ut_ptr \<times> heap_node \<times> u32) option" where
  "group_item w sw r = do { x \<leftarrow> sw_rules sw r; Some (may_expire x, r, r_evg_node x, rule_eviction_priority w x) }"

definition oftable_enable_eviction :: "world \<Rightarrow> bool \<Rightarrow> switch \<Rightarrow> nat \<Rightarrow> mf_subfield list \<Rightarrow> switch option" where
  "oftable_enable_eviction w opt sw t sfs =
     (if opt then do {
        ((page, no_change, enabled), sw) \<leftarrow> enclave_call (\<lambda>br. map_option (\<lambda>(p, nc, en, br). ((p, nc, en), br))
          (ecall_get_cls_rules_and_enable_eviction br t 32 sfs (w_random32 w) False)) sw;
        if no_change \<or> \<not> enabled then Some sw
        else do {
          (rs, n_rules) \<leftarrow> page;
          (rs, n_rules) \<leftarrow> (if n_rules > length rs
            then do {
              (more, n) \<leftarrow> ecall_oftable_get_cls_rules (sw_bridge sw) t (length rs) SIZE_MAX (n_rules - length rs);
              Some (rs @ more, n) }
            else Some (rs, n_rules));
          rs \<leftarrow> filled n_rules rs;
          items \<leftarrow> those (map (group_item w sw) rs);
          enclave_do (\<lambda>br. ecall_eviction_group_add_rules (w_value w) br t (map snd (filter fst items)) (eviction_group_priority w 0)) sw } }
      else do {
        (no_change, sw) \<leftarrow> enclave_call (\<lambda>br. ecall_oftable_enable_eviction br t sfs (w_random32 w) False) sw;
        if no_change then Some sw
        else do {
          n \<leftarrow> ecall_oftable_enable_eviction_c (sw_bridge sw) t;
          if n = 0 then Some sw
          else do {
            (buf, _) \<leftarrow> ecall_oftable_enable_eviction_r (sw_bridge sw) t (replicate n 0) (int n);
            group_add_all w sw (take n buf) } } })"

definition schedule_eviction :: "switch \<Rightarrow> switch" where
  "schedule_eviction sw = (case sw_state sw of S_OPENFLOW \<Rightarrow> sw\<lparr>sw_state := S_EVICT\<rparr> | S_EVICT \<Rightarrow> sw | S_FLUSH \<Rightarrow> sw)"

definition ofproto_configure_table :: "world \<Rightarrow> bool \<Rightarrow> switch \<Rightarrow> int \<Rightarrow> string option \<Rightarrow> u32 \<Rightarrow> mf_subfield list option \<Rightarrow> switch option" where
  "ofproto_configure_table w opt sw table_id nm mflows groups =
     (if \<not> (0 \<le> table_id \<and> table_id < sw_n_tables sw) then None
      else let t = nat table_id mod 256 in
        if opt then do {
          ((need, ro), sw) \<leftarrow> enclave_call (\<lambda>br. map_option (\<lambda>(need, ro, br). ((need, ro), br))
            (ecall_oftable_configure (sw_bridge_id sw) br t nm mflows groups False False)) sw;
          if ro then Some sw
          else do {
            (need, sw) \<leftarrow> (case groups of None \<Rightarrow> Some (need, sw)
              | Some sfs \<Rightarrow> do {
                  sw \<leftarrow> oftable_enable_eviction w opt sw t sfs;
                  sw \<leftarrow> enclave_do (\<lambda>br. ecall_oftable_mflows_set br t mflows) sw;
                  need \<leftarrow> ecall_need_to_evict (sw_bridge sw) t;
                  Some (need, sw) });
            Some (if need then schedule_eviction sw else sw) } }
        else do {
          sw \<leftarrow> enclave_do (\<lambda>br. ecall_oftable_set_name (sw_bridge_id sw) br t nm) sw;
          ro \<leftarrow> ecall_oftable_is_readonly (sw_bridge sw) t;
          if ro \<noteq> 0 then Some sw
          else do {
            sw \<leftarrow> (case groups of
                Some sfs \<Rightarrow> oftable_enable_eviction w opt sw t sfs
              | None \<Rightarrow> enclave_do (\<lambda>br. ecall_oftable_disable_eviction br t) sw);
            sw \<leftarrow> enclave_do (\<lambda>br. ecall_oftable_mflows_set br t mflows) sw;
            cnt \<leftarrow> ecall_oftable_cls_count (sw_bridge sw) t;
            mf \<leftarrow> ecall_oftable_mflows (sw_bridge sw) t;
            enabled \<leftarrow> ecall_is_eviction_fields_enabled (sw_bridge sw) t;
            Some (if (of_int cnt :: u32) > mf \<and> enabled then schedule_eviction sw else sw) } })"

text \<open>The part of \<open>ofproto_run\<close> that evicts or flushes; the connections are served outside.\<close>

definition ofproto_run_state :: "world \<Rightarrow> bool \<Rightarrow> switch \<Rightarrow> switch option" where
  "ofproto_run_state w opt sw = (case sw_state sw of
     S_OPENFLOW \<Rightarrow> Some sw
   | S_EVICT \<Rightarrow> do {
       sw \<leftarrow> ofproto_evict_up w opt sw;
       Some (if sw_pending sw = [] \<and> sw_deletions sw = [] then sw\<lparr>sw_state := S_OPENFLOW\<rparr> else sw) }
   | S_FLUSH \<Rightarrow> do {
       sw \<leftarrow> ofproto_flush_up w opt sw;
       Some (if sw_pending sw = [] \<and> sw_deletions sw = [] then sw\<lparr>sw_state := S_OPENFLOW\<rparr> else sw) })"

end
