(* ===== verification/Switch_Collect.thy ===== *)
theory Switch_Collect
  imports Switch Bridge_Spec
begin

text \<open>
  What the switch finds in the tables of its enclave: \<open>collect_rules_loose\<close>, \<open>collect_rules_strict\<close> and the flow statistics, in both
  builds. \<open>switch_ok\<close> ties the rules of the switch to the rules of the enclave.
\<close>

section \<open>The switch and its enclave\<close>

definition switch_ok :: "switch \<Rightarrow> bool" where
  "switch_ok sw \<longleftrightarrow> bridge_inv (sw_bridge sw) \<and> sw_n_tables sw = n_tables (sw_bridge sw)
     \<and> 0 \<le> n_tables (sw_bridge sw) \<and> n_tables (sw_bridge sw) \<le> 255
     \<and> (\<forall>t < length (oftables (sw_bridge sw)). \<forall>r \<in> rules_at (sw_bridge sw) t.
          \<exists>x. sw_rules sw (o_cls_rule (rstore (sw_bridge sw) r)) = Some x \<and> unat (r_table_id x) = t)"

lemma switch_okD:
  assumes "switch_ok sw"
  shows "bridge_inv (sw_bridge sw)" "core_inv (sw_bridge sw)" "sw_n_tables sw = n_tables (sw_bridge sw)" "0 \<le> n_tables (sw_bridge sw)"
    "n_tables (sw_bridge sw) \<le> 255" "length (oftables (sw_bridge sw)) = nat (n_tables (sw_bridge sw))"
  using assms by (auto simp: switch_ok_def bridge_inv_but_def core_inv_def)

text \<open>The rules that a loose or a strict request is about, in the order of the tables.\<close>

definition loosely_matched :: "bridge \<Rightarrow> u8 \<Rightarrow> match \<Rightarrow> ut_ptr list" where
  "loosely_matched br table_id m =
     ut_rules br (selected br (\<lambda>r. cls_rule_is_loose_match (rules_of br r) (minimatch_init m)) (matching_tables br table_id))"

definition strictly_matched :: "bridge \<Rightarrow> u8 \<Rightarrow> match \<Rightarrow> u32 \<Rightarrow> ut_ptr list" where
  "strictly_matched br table_id m p =
     ut_rules br (selected br (\<lambda>r. rules_of br r = cls_rule_init m p) (matching_tables br table_id))"

text \<open>The rule \<open>a\<close> of a table is one the request selects: visible, with the output port and with the cookie.\<close>

definition hidden_rule :: "bridge \<Rightarrow> ut_ptr \<Rightarrow> bool" where
  "hidden_rule br a \<longleftrightarrow> unat (prio (rules_of br) (rule_of br a)) > UINT16_MAX"

definition wanted :: "world \<Rightarrow> switch \<Rightarrow> u64 \<Rightarrow> u64 \<Rightarrow> u16 \<Rightarrow> ut_ptr \<Rightarrow> bool" where
  "wanted w sw cookie cmask port a \<longleftrightarrow> (case sw_rules sw a of None \<Rightarrow> False
     | Some x \<Rightarrow> ofproto_rule_has_out_port w x port \<and> (r_flow_cookie x XOR cookie) AND cmask = 0)"

definition busy_rule :: "switch \<Rightarrow> ut_ptr \<Rightarrow> bool" where
  "busy_rule sw a \<longleftrightarrow> op_of sw a \<noteq> None"

text \<open>What a scan of \<open>as\<close> returns: it stops at the first rule with an operation in progress.\<close>

definition scanned :: "switch \<Rightarrow> (ut_ptr \<Rightarrow> bool) \<Rightarrow> ut_ptr list \<Rightarrow> ofperr option \<times> ut_ptr list" where
  "scanned sw P as = (if \<exists>a \<in> set as. busy_rule sw a then Some OFPROTO_POSTPONE else None,
     filter P (takeWhile (\<lambda>a. \<not> busy_rule sw a) as))"

lemma collect_loop_scanned:
  assumes "\<forall>(a, h) \<in> set as. sw_rules sw a \<noteq> None
    \<and> (case h of Some b \<Rightarrow> b = hid a | None \<Rightarrow> ofproto_rule_is_hidden sw a = Some (hid a))"
  shows "collect_loop w sw cookie cmask port as acc =
    (case scanned sw (\<lambda>a. \<not> hid a \<and> wanted w sw cookie cmask port a) (map fst as) of (e, rs) \<Rightarrow> Some (e, acc @ rs))"
  using assms
proof (induction as arbitrary: acc)
  case (Cons ah as)
  obtain a h where ah: "ah = (a, h)" by (cases ah)
  obtain x where x: "sw_rules sw a = Some x" using Cons.prems by (auto simp: ah)
  have h: "(case h of Some b \<Rightarrow> Some b | None \<Rightarrow> ofproto_rule_is_hidden sw a) = Some (hid a)"
    using Cons.prems by (auto simp: ah split: option.splits)
  show ?case using Cons.prems Cons.IH
    by (auto simp: ah x h scanned_def busy_rule_def op_of_def wanted_def)
qed (simp add: scanned_def)

lemma matched_in_table:
  assumes "core_inv br" and "a \<in> set (ut_rules br (selected br P (matching_tables br table_id)))"
  obtains r t where "a = o_cls_rule (rstore br r)" "t \<in> set (matching_tables br table_id)" "t < length (oftables br)" "r \<in> rules_at br t"
    "P r" "sgx_rule_from_ut_cr br a = Some r" "rule_of br a = r"
proof -
  obtain r t where r: "a = o_cls_rule (rstore br r)" "t \<in> set (matching_tables br table_id)" "r \<in> rules_at br t" "P r"
    using assms(2) by (auto simp: ut_rules_def in_selected)
  moreover have "t < length (oftables br)" using r(2) by (rule in_matching_tables)
  moreover have "sgx_rule_from_ut_cr br a = Some r"
    using assms(1) r calculation by (metis core_registered core_inv_def find_registered)
  ultimately show thesis by (intro that) (simp_all add: rule_of_def)
qed

lemma those_map_Some: "\<forall>x \<in> set xs. f x = Some (g x) \<Longrightarrow> those (map f xs) = Some (map g xs)"
  by (induction xs) auto

lemma filled_exact: "length xs = n \<Longrightarrow> filled n xs = Some xs"
  by (simp add: filled_def)

section \<open>Loose requests\<close>

lemma loose_rules_matched:
  assumes "switch_ok sw"
  shows "loose_rules (sw_bridge sw) (sw_n_tables sw) table_id (sgx_cls_rule_init_i m 0) = Some (loosely_matched (sw_bridge sw) table_id m)"
proof -
  have "cr_match (sgx_cls_rule_init_i m 0) = minimatch_init m" by (simp add: sgx_cls_rule_init_i_def cls_rule_init_def)
  then show ?thesis using switch_okD [OF assms] loose_rules_ok [of "sw_bridge sw" "sgx_cls_rule_init_i m 0" table_id]
    by (simp add: loosely_matched_def)
qed

lemma loosely_matched_rule:
  assumes "switch_ok sw" and "a \<in> set (loosely_matched (sw_bridge sw) table_id m)"
  obtains x where "sw_rules sw a = Some x" "unat (r_table_id x) \<in> set (matching_tables (sw_bridge sw) table_id)"
    "in_table (sw_bridge sw) (unat (r_table_id x)) a" "ecall_cr_priority (sw_bridge sw) a = Some (prio (rules_of (sw_bridge sw)) (rule_of (sw_bridge sw) a))"
proof -
  let ?br = "sw_bridge sw"
  obtain r t where r: "a = o_cls_rule (rstore ?br r)" "t \<in> set (matching_tables ?br table_id)" "t < length (oftables ?br)" "r \<in> rules_at ?br t"
      "sgx_rule_from_ut_cr ?br a = Some r" "rule_of ?br a = r"
    by (rule matched_in_table [OF switch_okD(2) [OF assms(1)] assms(2) [unfolded loosely_matched_def]])
  obtain x where "sw_rules sw a = Some x" "unat (r_table_id x) = t"
    using assms(1) r(1,3,4) unfolding switch_ok_def by blast
  then show thesis using r by (intro that [of x]) (simp_all add: in_table_def ecall_cr_priority_def)
qed

lemma is_hidden_matched:
  assumes "switch_ok sw" and "a \<in> set (loosely_matched (sw_bridge sw) table_id m)"
  shows "ofproto_rule_is_hidden sw a = Some (hidden_rule (sw_bridge sw) a)" "rule_is_hidden (sw_bridge sw) a = Some (hidden_rule (sw_bridge sw) a)"
  by (rule loosely_matched_rule [OF assms]; simp add: ofproto_rule_is_hidden_def rule_is_hidden_def hidden_rule_def)+

text \<open>The outcome of a loose request. A page of 128 rules and the rest of them are all the rules.\<close>

definition loose_scan :: "world \<Rightarrow> switch \<Rightarrow> u8 \<Rightarrow> match \<Rightarrow> u64 \<Rightarrow> u64 \<Rightarrow> u16 \<Rightarrow> ofperr option \<times> ut_ptr list" where
  "loose_scan w sw table_id m cookie cmask port =
     scanned sw (\<lambda>a. \<not> hidden_rule (sw_bridge sw) a \<and> wanted w sw cookie cmask port a) (loosely_matched (sw_bridge sw) table_id m)"

lemma collected_matched:
  assumes "switch_ok sw" and "get_table (sw_bridge sw) (unat table_id) = Some tb" and "a \<in> set (loosely_matched (sw_bridge sw) table_id m)"
  shows "collected (sw_bridge sw) table_id a = Some (a, hidden_rule (sw_bridge sw) a, flags tb AND OFTABLE_READONLY = 0)"
  using is_hidden_matched [OF assms(1,3)] assms(2) by (simp add: collected_def ecall_oftable_get_flags_def)

lemma collect_page:
  assumes "switch_ok sw" and "get_table (sw_bridge sw) (unat table_id) = Some tb"
  shows "ecall_collect_rules_loose (sw_bridge sw) table_id (sw_n_tables sw) start m buf =
    Some (map (\<lambda>a. (a, hidden_rule (sw_bridge sw) a, flags tb AND OFTABLE_READONLY = 0)) (take buf (drop start (loosely_matched (sw_bridge sw) table_id m))),
      length (loosely_matched (sw_bridge sw) table_id m))"
proof -
  let ?as = "take buf (drop start (loosely_matched (sw_bridge sw) table_id m))"
  have "set ?as \<subseteq> set (loosely_matched (sw_bridge sw) table_id m)" by (meson set_take_subset set_drop_subset subset_trans)
  then have "those (map (collected (sw_bridge sw) table_id) ?as) =
      Some (map (\<lambda>a. (a, hidden_rule (sw_bridge sw) a, flags tb AND OFTABLE_READONLY = 0)) ?as)"
    using collected_matched [OF assms] by (intro those_map_Some) blast
  then show ?thesis by (simp add: ecall_collect_rules_loose_def loose_rules_matched [OF assms(1)] page_loop_eq)
qed

lemma collect_loop_loose:
  assumes "switch_ok sw" and "\<And>a. a \<in> set (loosely_matched (sw_bridge sw) table_id m) \<Longrightarrow> h a = None \<or> h a = Some (hidden_rule (sw_bridge sw) a)"
  shows "collect_loop w sw cookie cmask port (map (\<lambda>a. (a, h a)) (loosely_matched (sw_bridge sw) table_id m)) [] =
    Some (loose_scan w sw table_id m cookie cmask port)"
proof -
  let ?as = "loosely_matched (sw_bridge sw) table_id m"
  have "sw_rules sw a \<noteq> None" if "a \<in> set ?as" for a
    by (rule loosely_matched_rule [OF assms(1) that]) simp
  then have "\<forall>(a, k) \<in> set (map (\<lambda>a. (a, h a)) ?as). sw_rules sw a \<noteq> None
      \<and> (case k of Some b \<Rightarrow> b = hidden_rule (sw_bridge sw) a | None \<Rightarrow> ofproto_rule_is_hidden sw a = Some (hidden_rule (sw_bridge sw) a))"
    using assms(2) is_hidden_matched(1) [OF assms(1)] by (force split: option.split)
  from collect_loop_scanned [OF this] show ?thesis by (simp add: loose_scan_def comp_def split: prod.split)
qed

lemma collect_rules_loose_opt:
  assumes "switch_ok sw" and "get_table (sw_bridge sw) (unat table_id) = Some tb"
  shows "collect_rules_loose w True sw table_id m cookie cmask port = (case loose_scan w sw table_id m cookie cmask port of
    (e, rs) \<Rightarrow> Some (e, rs, replicate (length (loosely_matched (sw_bridge sw) table_id m)) (flags tb AND OFTABLE_READONLY = 0)))"
proof -
  let ?as = "loosely_matched (sw_bridge sw) table_id m"
  have "unat table_id < length (oftables (sw_bridge sw))" using assms(2) by (simp add: get_table_def split: if_splits)
  then have "int (unat table_id) < sw_n_tables sw" using switch_okD(3,4,6) [OF assms(1)] by linarith
  then have c: "check_table_id sw table_id = None" by (simp add: check_table_id_def)
  let ?c = "\<lambda>a. (a, hidden_rule (sw_bridge sw) a, flags tb AND OFTABLE_READONLY = 0)"
  have l: "collect_loop w sw cookie cmask port (map (\<lambda>a. (a, Some (hidden_rule (sw_bridge sw) a))) ?as) [] = Some (loose_scan w sw table_id m cookie cmask port)"
    by (rule collect_loop_loose [OF assms(1)]) simp
  have m: "map (\<lambda>(r, hidden, _). (r, Some hidden)) (map ?c ?as) = map (\<lambda>a. (a, Some (hidden_rule (sw_bridge sw) a))) ?as"
    "map (\<lambda>(_, _, modi). modi) (map ?c ?as) = replicate (length ?as) (flags tb AND OFTABLE_READONLY = 0)"
    by (auto intro: nth_equalityI)
  show ?thesis
  proof (cases "length ?as > 128")
    case True
    have p: "map ?c (take 128 ?as) @ map ?c (drop 128 ?as) = map ?c ?as"
      by (simp flip: map_append)
    have "collect_rules_loose w True sw table_id m cookie cmask port = do {
        (error, rs) \<leftarrow> collect_loop w sw cookie cmask port (map (\<lambda>(r, hidden, _). (r, Some hidden)) (map ?c ?as)) [];
        Some (error, rs, map (\<lambda>(_, _, modi). modi) (map ?c ?as)) }"
      using True by (simp add: collect_rules_loose_def c collect_page [OF assms] p filled_exact del: map_map map_append)
    then show ?thesis unfolding m l by (simp split: prod.split)
  next
    case False
    then have "collect_rules_loose w True sw table_id m cookie cmask port = do {
        (error, rs) \<leftarrow> collect_loop w sw cookie cmask port (map (\<lambda>(r, hidden, _). (r, Some hidden)) (map ?c ?as)) [];
        Some (error, rs, map (\<lambda>(_, _, modi). modi) (map ?c ?as)) }"
      by (simp add: collect_rules_loose_def c collect_page [OF assms] filled_exact del: map_map)
    then show ?thesis unfolding m l by (simp split: prod.split)
  qed
qed

lemma collect_rules_loose_plain:
  assumes "switch_ok sw" and "check_table_id sw table_id = None" and "length (loosely_matched (sw_bridge sw) table_id m) < 2 ^ 31"
  shows "collect_rules_loose w False sw table_id m cookie cmask port = (case loose_scan w sw table_id m cookie cmask port of
    (e, rs) \<Rightarrow> Some (e, rs, []))"
proof -
  let ?as = "loosely_matched (sw_bridge sw) table_id m"
  have n: "size_of_int (int (length ?as)) = length ?as" using assms(3) by (simp add: size_of_int_def)
  have r: "collect_r ?as 0 (replicate (length ?as) 0) (length ?as) = Some (?as, length ?as)"
    using collect_r_fits [of 0 ?as "replicate (length ?as) 0" "length ?as"] by simp
  have l: "collect_loop w sw cookie cmask port (map (\<lambda>a. (a, None)) ?as) [] = Some (loose_scan w sw table_id m cookie cmask port)"
    by (rule collect_loop_loose [OF assms(1)]) simp
  have e: "?as = [] \<Longrightarrow> loose_scan w sw table_id m cookie cmask port = (None, [])"
    by (simp add: loose_scan_def scanned_def)
  show ?thesis
  proof (cases "?as = []")
    case True
    then show ?thesis using e [OF True]
      by (simp add: collect_rules_loose_def assms(2) ecall_collect_rules_loose_c_def loose_rules_matched [OF assms(1)])
  next
    case False
    then show ?thesis using l
      by (simp add: collect_rules_loose_def assms(2) ecall_collect_rules_loose_c_def ecall_collect_rules_loose_r_def
        loose_rules_matched [OF assms(1)] n r split: prod.split)
  qed
qed

lemma collect_rules_loose_opt_all:
  assumes "switch_ok sw" and "loosely_matched (sw_bridge sw) 0xff m \<noteq> []"
  shows "collect_rules_loose w True sw 0xff m cookie cmask port = None"
proof -
  let ?as = "loosely_matched (sw_bridge sw) 0xff m"
  obtain a as where as: "?as = a # as" using assms(2) by (cases ?as) auto
  have "get_table (sw_bridge sw) 255 = None" using switch_okD(4-6) [OF assms(1)] by (auto simp: get_table_def)
  then have "collected (sw_bridge sw) 0xff a = None" by (simp add: collected_def ecall_oftable_get_flags_def split: option.split)
  then have "ecall_collect_rules_loose (sw_bridge sw) 0xff (sw_n_tables sw) 0 m 128 = None"
    by (simp add: ecall_collect_rules_loose_def loose_rules_matched [OF assms(1)] page_loop_eq as)
  then show ?thesis by (simp add: collect_rules_loose_def check_table_id_def)
qed

section \<open>Flow statistics\<close>

definition visible_matched :: "bridge \<Rightarrow> u8 \<Rightarrow> match \<Rightarrow> ut_ptr list" where
  "visible_matched br table_id m = filter (\<lambda>a. \<not> hidden_rule br a) (loosely_matched br table_id m)"

text \<open>The match and the priority of a rule.\<close>

definition described :: "bridge \<Rightarrow> ut_ptr \<Rightarrow> match \<times> u32" where
  "described br a = (minimatch_expand (cr_match (rules_of br (rule_of br a))), prio (rules_of br) (rule_of br a))"

lemma stats_entry_matched:
  assumes "switch_ok sw" and "a \<in> set (loosely_matched (sw_bridge sw) table_id m)"
  shows "stats_entry (sw_bridge sw) a = Some (a, described (sw_bridge sw) a)"
proof -
  obtain r where "sgx_rule_from_ut_cr (sw_bridge sw) a = Some r" "rule_of (sw_bridge sw) a = r"
    by (rule matched_in_table [OF switch_okD(2) [OF assms(1)] assms(2) [unfolded loosely_matched_def]])
  then show ?thesis by (simp add: stats_entry_def ecall_cr_priority_def ecall_minimatch_expand_def described_def)
qed

lemma stats_page:
  assumes "switch_ok sw"
  shows "ecall_collect_rules_loose_stats_request (sw_bridge sw) table_id (sw_n_tables sw) start buf m =
    Some (map (\<lambda>a. (a, described (sw_bridge sw) a)) (take buf (drop start (visible_matched (sw_bridge sw) table_id m))),
      length (visible_matched (sw_bridge sw) table_id m))"
proof -
  let ?as = "loosely_matched (sw_bridge sw) table_id m" and ?vs = "visible_matched (sw_bridge sw) table_id m"
  have "those (map (stats_visible (sw_bridge sw)) ?as) = Some (map (\<lambda>a. \<not> hidden_rule (sw_bridge sw) a) ?as)"
    using is_hidden_matched(2) [OF assms] by (intro those_map_Some) (simp add: stats_visible_def)
  moreover have "map fst (filter snd (zip ?as (map (\<lambda>a. \<not> hidden_rule (sw_bridge sw) a) ?as))) = ?vs"
    unfolding visible_matched_def by (induction ?as) (auto simp: zip_map2 zip_same_conv_map filter_map comp_def)
  moreover have "those (map (stats_entry (sw_bridge sw)) (take buf (drop start ?vs))) =
      Some (map (\<lambda>a. (a, described (sw_bridge sw) a)) (take buf (drop start ?vs)))"
    using stats_entry_matched [OF assms]
    by (intro those_map_Some) (auto simp: visible_matched_def dest!: in_set_takeD in_set_dropD)
  moreover have "length (filter snd (zip ?as (map (\<lambda>a. \<not> hidden_rule (sw_bridge sw) a) ?as))) = length ?vs"
    using calculation(2) by (metis length_map)
  ultimately show ?thesis
    by (simp add: ecall_collect_rules_loose_stats_request_def loose_rules_matched [OF assms] page_loop_eq)
qed

lemma stats_collect_loop:
  assumes "switch_ok sw"
  shows "collect_loop w sw cookie cmask port (map (\<lambda>a. (a, Some False)) (visible_matched (sw_bridge sw) table_id m)) [] =
    Some (scanned sw (wanted w sw cookie cmask port) (visible_matched (sw_bridge sw) table_id m))"
proof -
  let ?vs = "visible_matched (sw_bridge sw) table_id m"
  have "sw_rules sw a \<noteq> None" if "a \<in> set ?vs" for a
    by (rule loosely_matched_rule [OF assms, of a table_id m]) (use that in \<open>simp_all add: visible_matched_def\<close>)
  then have "\<forall>(a, k) \<in> set (map (\<lambda>a. (a, Some False)) ?vs). sw_rules sw a \<noteq> None
      \<and> (case k of Some b \<Rightarrow> b = False | None \<Rightarrow> ofproto_rule_is_hidden sw a = Some False)" by auto
  from collect_loop_scanned [OF this, of w cookie cmask port "[]"] show ?thesis by (simp add: comp_def split: prod.split)
qed

lemma stats_request_opt:
  assumes "switch_ok sw" and "check_table_id sw table_id = None"
  shows "collect_rules_loose_stats_request w sw table_id m cookie cmask port =
    (case scanned sw (wanted w sw cookie cmask port) (visible_matched (sw_bridge sw) table_id m) of
      (e, rs) \<Rightarrow> Some (e, rs, map (described (sw_bridge sw)) (visible_matched (sw_bridge sw) table_id m)))"
proof -
  let ?vs = "visible_matched (sw_bridge sw) table_id m" and ?c = "\<lambda>a. (a, described (sw_bridge sw) a)"
  have p: "map ?c (take 2 ?vs) @ map ?c (drop 2 ?vs) = map ?c ?vs" by (simp flip: map_append)
  have m: "map (\<lambda>(r, _). (r, Some False)) (map ?c ?vs) = map (\<lambda>a. (a, Some False)) ?vs" "map snd (map ?c ?vs) = map (described (sw_bridge sw)) ?vs"
    by (auto intro: nth_equalityI)
  have "collect_rules_loose_stats_request w sw table_id m cookie cmask port = do {
      (error, rs) \<leftarrow> collect_loop w sw cookie cmask port (map (\<lambda>(r, _). (r, Some False)) (map ?c ?vs)) [];
      Some (error, rs, map snd (map ?c ?vs)) }"
    using p by (cases "length ?vs > 2")
      (simp_all add: collect_rules_loose_stats_request_def assms(2) stats_page [OF assms(1)] filled_exact del: map_map map_append)
  then show ?thesis unfolding m stats_collect_loop [OF assms(1)] by (simp split: prod.split)
qed

lemma zip_take_length: "zip xs (take (length xs) ys) = zip xs ys"
  by (induction xs arbitrary: ys) (auto simp: take_Cons' zip_Cons1 split: list.split)

lemma zip_map_snd: "zip xs (map f xs) = map (\<lambda>x. (x, f x)) xs"
  by (induction xs) auto

lemma scanned_idle: "\<forall>a \<in> set as. \<not> busy_rule sw a \<Longrightarrow> scanned sw P as = (None, filter P as)"
  by (auto simp: scanned_def takeWhile_eq_all_conv [THEN iffD2])

text \<open>C21: Flow statistics of an idle switch. Without \<open>OPTIMIZED\<close> every selected rule is reported with its own match and priority.
  With \<open>OPTIMIZED\<close> the matches and priorities come from the list of all visible rules that match, in step with the selected rules: the reply is
  the same when the request selects all of them, and otherwise rules are reported with the match of another rule.\<close>

theorem flow_stats_builds:
  assumes "switch_ok sw" and "uint table_id < sw_n_tables sw" and "length (loosely_matched (sw_bridge sw) table_id m) < 2 ^ 31"
    and "\<forall>a \<in> set (loosely_matched (sw_bridge sw) table_id m). \<not> busy_rule sw a"
  shows "handle_flow_stats_request w False sw table_id m cookie cmask port = Some (Inr (map (\<lambda>a. (a, described (sw_bridge sw) a))
      (filter (wanted w sw cookie cmask port) (visible_matched (sw_bridge sw) table_id m))))
    \<and> handle_flow_stats_request w True sw table_id m cookie cmask port = Some (Inr (zip
      (filter (wanted w sw cookie cmask port) (visible_matched (sw_bridge sw) table_id m))
      (map (described (sw_bridge sw)) (visible_matched (sw_bridge sw) table_id m))))
    \<and> ((\<forall>a \<in> set (visible_matched (sw_bridge sw) table_id m). wanted w sw cookie cmask port a) \<longrightarrow>
      handle_flow_stats_request w True sw table_id m cookie cmask port = handle_flow_stats_request w False sw table_id m cookie cmask port)"
proof -
  let ?vs = "visible_matched (sw_bridge sw) table_id m" and ?W = "wanted w sw cookie cmask port"
  have c: "check_table_id sw table_id = None" using assms(2) by (simp add: check_table_id_def)
  have idle: "\<forall>a \<in> set ?vs. \<not> busy_rule sw a" using assms(4) by (simp add: visible_matched_def)
  have f: "filter (\<lambda>a. \<not> hidden_rule (sw_bridge sw) a \<and> ?W a) (loosely_matched (sw_bridge sw) table_id m) = filter ?W ?vs"
    by (simp add: visible_matched_def conj_commute)
  have e: "those (map (stats_entry (sw_bridge sw)) (filter ?W ?vs)) = Some (map (\<lambda>a. (a, described (sw_bridge sw) a)) (filter ?W ?vs))"
    using stats_entry_matched [OF assms(1)] by (intro those_map_Some) (auto simp: visible_matched_def)
  have plain: "handle_flow_stats_request w False sw table_id m cookie cmask port = Some (Inr (map (\<lambda>a. (a, described (sw_bridge sw) a)) (filter ?W ?vs)))"
    by (simp add: handle_flow_stats_request_def collect_rules_loose_plain [OF assms(1) c assms(3)] loose_scan_def scanned_idle [OF assms(4)] f e)
  have "length (filter ?W ?vs) \<le> length ?vs" by simp
  then have opt: "handle_flow_stats_request w True sw table_id m cookie cmask port = Some (Inr (zip (filter ?W ?vs) (map (described (sw_bridge sw)) ?vs)))"
    by (simp add: handle_flow_stats_request_def stats_request_opt [OF assms(1) c] scanned_idle [OF idle] filled_def
      zip_take_length)
  show ?thesis using plain opt by (auto simp: filter_id_conv [THEN iffD2] zip_map_snd)
qed

section \<open>A switch with one rule\<close>

definition ex_rule :: rule where
  "ex_rule = \<lparr>r_pending = None, r_flow_cookie = 9, r_created = 0, r_modified = 0, r_used = 0, r_hard_timeout = 10, r_idle_timeout = 0, r_table_id = 0,
     r_send_flow_removed = True, r_evg_node = \<lparr>idx = 0, hn_priority = 0\<rparr>, r_ofpacts = [], r_tmp_storage_vid = 0, r_tmp_storage_vid_mask = 0, r_tag = 0\<rparr>"

definition ex_switch :: switch where
  "ex_switch = \<lparr>sw_bridge_id = 0, sw_n_tables = 2, sw_state = S_OPENFLOW, sw_bridge = ex_added, sw_rules = [0x1000 \<mapsto> ex_rule], sw_groups = Map.empty,
     sw_next_group = 1, sw_deletions = [], sw_expirable = [0x1000], sw_pending = [], sw_clogged = False, sw_completions = [],
     sw_vlan_bitmap = None, sw_vlans_changed = False, sw_need_revalidate = False, sw_revalidate_set = [], sw_removed = [],
     sw_reports = [], sw_errors = []\<rparr>"

definition ex_world :: world where
  "ex_world = \<lparr>w_now = 0, w_boot = 0, w_random16 = 0, w_random32 = 0, w_value = ex_junk, w_fresh = ex_rule, w_ofpacts_equal = (=),
     w_output_to_port = (\<lambda>_ _. False), w_tag = (\<lambda>h. h), w_execute = (\<lambda>_ _ _. None)\<rparr>"

lemma ex_added_rules:
  "rules_at ex_added 0 = {rule_of ex_added 0x1000}" "rules_at ex_added 1 = {}" "o_cls_rule (rstore ex_added (rule_of ex_added 0x1000)) = 0x1000"
proof -
  have "\<exists>out' br'. ecall_add_flow ex_junk ex_grouped 0 0x1000 ex_match 5 0 0 0 \<lparr>idx = 0, hn_priority = 0\<rparr> [] True ex_out = Some (out', br')
      \<and> flow_added ex_grouped 0 0x1000 (cls_rule_init ex_match 5) ex_out out' br'"
    using add_flow_ok [OF ex_grouped_inv _ _ ex_match_ok ex_junk_length, of 0 "0x1000" "[]" 5 0 0 0 "\<lparr>idx = 0, hn_priority = 0\<rparr>" True ex_out]
    by (auto simp del: One_nat_def)
  then obtain out' where a: "flow_added ex_grouped 0 0x1000 (cls_rule_init ex_match 5) ex_out out' ex_added" by (auto simp: ex_added_def)
  have "t_cls (oftables ex_grouped ! 1) = classifier_init" using ex_grouped_frame by (auto simp: frame_defs dest!: spec [of _ 1])
  then have one: "rules_at ex_grouped 1 = {}" and zero: "rules_at ex_grouped 0 = {}"
    by (simp_all add: cls_rules_def classifier_init_def del: One_nat_def)
  show "rules_at ex_added 0 = {rule_of ex_added 0x1000}" using a zero by (auto simp: flow_added_def rule_of_def)
  have "\<forall>u < 2. u \<noteq> 0 \<longrightarrow> rules_at ex_added u = rules_at ex_grouped u" using a by (auto simp: flow_added_def)
  then show "rules_at ex_added 1 = {}" using one by (metis one_less_numeral_iff semiring_norm(76) zero_neq_one)
  show "o_cls_rule (rstore ex_added (rule_of ex_added 0x1000)) = 0x1000" using a by (auto simp: flow_added_def rule_of_def)
qed

lemma ex_added_rule:
  assumes "t < length (oftables ex_added)" and "r \<in> rules_at ex_added t"
  shows "t = 0" "o_cls_rule (rstore ex_added r) = 0x1000"
proof -
  show "t = 0"
  proof (rule ccontr)
    assume "t \<noteq> 0"
    then have "t = 1" using assms(1) by (simp add: ex_added_ok(3))
    then show False using assms(2) ex_added_rules(2) by (metis empty_iff)
  qed
  then show "o_cls_rule (rstore ex_added r) = 0x1000" using assms(2) ex_added_rules(1,3) by (metis singletonD)
qed

lemma ex_switch_ok: "switch_ok ex_switch"
proof -
  have "\<exists>x. sw_rules ex_switch (o_cls_rule (rstore ex_added r)) = Some x \<and> unat (r_table_id x) = t" if "t < length (oftables ex_added)" "r \<in> rules_at ex_added t" for t r
    using ex_added_rule [OF that] by (simp add: ex_switch_def ex_rule_def)
  then show ?thesis by (simp add: switch_ok_def ex_switch_def ex_added_ok)
qed

lemma ex_switch_matched: "set (loosely_matched (sw_bridge ex_switch) table_id m) \<subseteq> {0x1000}" "length (loosely_matched (sw_bridge ex_switch) table_id m) < 2 ^ 31"
proof -
  have core: "core_inv ex_added" using ex_added_ok(1) by (simp add: bridge_inv_but_def)
  have "a = 0x1000" if a: "a \<in> set (loosely_matched ex_added table_id m)" for a
  proof -
    obtain r t where "a = o_cls_rule (rstore ex_added r)" "t < length (oftables ex_added)" "r \<in> rules_at ex_added t"
      by (rule matched_in_table [OF core a [unfolded loosely_matched_def]])
    then show ?thesis using ex_added_rule(2) by blast
  qed
  then show s: "set (loosely_matched (sw_bridge ex_switch) table_id m) \<subseteq> {0x1000}" by (auto simp: ex_switch_def)
  have "distinct (loosely_matched ex_added table_id m)"
    unfolding loosely_matched_def using distinct_matching_tables in_matching_tables by (intro distinct_ut_rules [OF core]) auto
  then have "length (loosely_matched ex_added table_id m) \<le> card {0x1000 :: ut_ptr}"
    using s by (metis card_mono distinct_card finite.emptyI finite_insert ex_switch_def switch.select_convs(4))
  then show "length (loosely_matched (sw_bridge ex_switch) table_id m) < 2 ^ 31" by (simp add: ex_switch_def)
qed

lemma ex_switch_idle: "\<forall>a \<in> set (loosely_matched (sw_bridge ex_switch) table_id m). \<not> busy_rule ex_switch a"
  using ex_switch_matched(1) by (auto simp: busy_rule_def op_of_def ex_switch_def ex_rule_def dest!: subsetD)

theorem flow_stats_builds_witness:
  "handle_flow_stats_request ex_world False ex_switch 0 ex_match 0 0 OFPP_ANY = Some (Inr (map (\<lambda>a. (a, described (sw_bridge ex_switch) a))
      (filter (wanted ex_world ex_switch 0 0 OFPP_ANY) (visible_matched (sw_bridge ex_switch) 0 ex_match))))
    \<and> handle_flow_stats_request ex_world True ex_switch 0 ex_match 0 0 OFPP_ANY = Some (Inr (zip
      (filter (wanted ex_world ex_switch 0 0 OFPP_ANY) (visible_matched (sw_bridge ex_switch) 0 ex_match))
      (map (described (sw_bridge ex_switch)) (visible_matched (sw_bridge ex_switch) 0 ex_match))))"
proof -
  have "uint (0 :: u8) < sw_n_tables ex_switch" by (simp add: ex_switch_def)
  from flow_stats_builds [OF ex_switch_ok this ex_switch_matched(2) ex_switch_idle, of ex_world ex_match 0 0 OFPP_ANY]
  show ?thesis by (elim conjE) (intro conjI)
qed

text \<open>C20: The rules of a loose request. Without \<open>OPTIMIZED\<close> every request is answered: with an error for a table that does not exist, else with
  the rules of the tables that the request selects, up to the first one with an operation in progress. With \<open>OPTIMIZED\<close> a request
  for one table gets the same answer, however many pages of 128 rules it takes. A request for all tables that matches a rule
  reads the flags of table 255, outside of the tables.\<close>

theorem collect_rules_loose_builds:
  assumes "switch_ok sw" and "length (loosely_matched (sw_bridge sw) table_id m) < 2 ^ 31"
  shows "collect_rules_loose w False sw table_id m cookie cmask port =
      (if table_id \<noteq> 0xff \<and> uint table_id \<ge> sw_n_tables sw then Some (Some OFPERR_OFPBRC_BAD_TABLE_ID, [], [])
       else Some (fst (loose_scan w sw table_id m cookie cmask port), snd (loose_scan w sw table_id m cookie cmask port), []))
    \<and> map_option (\<lambda>(e, rs, _). (e, rs)) (collect_rules_loose w True sw table_id m cookie cmask port) =
      (if table_id = 0xff \<and> loosely_matched (sw_bridge sw) table_id m \<noteq> [] then None
       else map_option (\<lambda>(e, rs, _). (e, rs)) (collect_rules_loose w False sw table_id m cookie cmask port))"
proof -
  have plain: "collect_rules_loose w False sw table_id m cookie cmask port =
      (if table_id \<noteq> 0xff \<and> uint table_id \<ge> sw_n_tables sw then Some (Some OFPERR_OFPBRC_BAD_TABLE_ID, [], [])
       else Some (fst (loose_scan w sw table_id m cookie cmask port), snd (loose_scan w sw table_id m cookie cmask port), []))"
    using collect_rules_loose_plain [OF assms(1) _ assms(2), of w cookie cmask port]
    by (auto simp: check_table_id_def collect_rules_loose_def [of w False] split: prod.splits)
  consider (bad) "table_id \<noteq> 0xff" "uint table_id \<ge> sw_n_tables sw" | (one) "uint table_id < sw_n_tables sw"
    | (all) "table_id = 0xff" "uint table_id \<ge> sw_n_tables sw" by linarith
  then have "map_option (\<lambda>(e, rs, _). (e, rs)) (collect_rules_loose w True sw table_id m cookie cmask port) =
      (if table_id = 0xff \<and> loosely_matched (sw_bridge sw) table_id m \<noteq> [] then None
       else map_option (\<lambda>(e, rs, _). (e, rs)) (collect_rules_loose w False sw table_id m cookie cmask port))"
  proof cases
    case bad
    then show ?thesis unfolding plain by (simp add: collect_rules_loose_def check_table_id_def)
  next
    case one
    then have "unat table_id < length (oftables (sw_bridge sw))" using switch_okD(3,4,6) [OF assms(1)] by (simp add: zless_nat_eq_int_zless)
    then have "get_table (sw_bridge sw) (unat table_id) = Some (oftables (sw_bridge sw) ! unat table_id)" by (simp add: get_table_def)
    moreover have "table_id \<noteq> 0xff" using one switch_okD(3,5) [OF assms(1)] by auto
    ultimately show ?thesis using one unfolding plain by (simp add: collect_rules_loose_opt [OF assms(1)] split: prod.split)
  next
    case all
    show ?thesis
    proof (cases "loosely_matched (sw_bridge sw) table_id m = []")
      case True
      have "ecall_collect_rules_loose (sw_bridge sw) table_id (sw_n_tables sw) 0 m 128 = Some ([], 0)"
        using True by (simp add: ecall_collect_rules_loose_def loose_rules_matched [OF assms(1)] page_loop_eq)
      moreover have "loose_scan w sw table_id m cookie cmask port = (None, [])" using True by (simp add: loose_scan_def scanned_def)
      ultimately show ?thesis using True all unfolding plain by (simp add: collect_rules_loose_def check_table_id_def filled_def)
    next
      case False
      then show ?thesis using all collect_rules_loose_opt_all [OF assms(1)] by simp
    qed
  qed
  with plain show ?thesis by blast
qed

theorem collect_rules_loose_builds_witness:
  "collect_rules_loose ex_world False ex_switch 0 ex_match 0 0 OFPP_ANY =
      Some (fst (loose_scan ex_world ex_switch 0 ex_match 0 0 OFPP_ANY), snd (loose_scan ex_world ex_switch 0 ex_match 0 0 OFPP_ANY), [])
    \<and> map_option (\<lambda>(e, rs, _). (e, rs)) (collect_rules_loose ex_world True ex_switch 0 ex_match 0 0 OFPP_ANY) =
      map_option (\<lambda>(e, rs, _). (e, rs)) (collect_rules_loose ex_world False ex_switch 0 ex_match 0 0 OFPP_ANY)"
  using collect_rules_loose_builds [OF ex_switch_ok ex_switch_matched(2), of ex_world 0 ex_match 0 0 OFPP_ANY] by (simp add: ex_switch_def)

end
