(* ===== verification/Switch_Delete.thy ===== *)
theory Switch_Delete
  imports Switch_Collect
begin

text \<open>
  Deleting flows through the switch: a group of delete operations, from the creation of its operations to the release of
  its rules, for both builds.
\<close>

section \<open>The enclave while rules are taken out\<close>

text \<open>\<open>bridge_less br D br'\<close>: the rules \<open>D\<close> have left the tables, everything else the switch can observe of rules and registry is as before.\<close>

definition bridge_less :: "bridge \<Rightarrow> ptr set \<Rightarrow> bridge \<Rightarrow> bool" where
  "bridge_less br D br' \<longleftrightarrow> bridge_inv br' \<and> reg br' = reg br \<and> n_tables br' = n_tables br \<and> length (oftables br') = length (oftables br)
     \<and> (\<forall>q. s_cls_rule (rstore br' q) = s_cls_rule (rstore br q) \<and> o_cls_rule (rstore br' q) = o_cls_rule (rstore br q))
     \<and> (\<forall>t < length (oftables br). rules_at br' t = rules_at br t - D)"

lemma bridge_less_refl: "bridge_inv br \<Longrightarrow> bridge_less br {} br"
  by (simp add: bridge_less_def)

lemma bridge_less_trans: "bridge_less a D b \<Longrightarrow> bridge_less b E c \<Longrightarrow> bridge_less a (D \<union> E) c"
  by (simp add: bridge_less_def) blast

lemma bridge_lessD:
  assumes "bridge_less br D br'"
  shows "bridge_inv br'" "length (oftables br') = length (oftables br)" "sgx_rule_from_ut_cr br' = sgx_rule_from_ut_cr br"
    "rule_of br' = rule_of br" "rules_of br' = rules_of br" "n_tables br' = n_tables br" "reg br' = reg br"
    "\<And>q. o_cls_rule (rstore br' q) = o_cls_rule (rstore br q)"
    "\<And>t. t < length (oftables br) \<Longrightarrow> rules_at br' t = rules_at br t - D"
    "\<And>q. s_cls_rule (rstore br' q) = s_cls_rule (rstore br q)"
proof -
  show f: "sgx_rule_from_ut_cr br' = sgx_rule_from_ut_cr br" using assms by (intro find_reg_cong) (simp add: bridge_less_def)
  then show "rule_of br' = rule_of br" by (simp add: rule_of_def fun_eq_iff)
qed (use assms in \<open>auto simp: bridge_less_def fun_eq_iff\<close>)

lemma bridge_less_dpif: "bridge_inv br \<Longrightarrow> bridge_less br {} (br\<lparr>table_dpif := (table_dpif br)[t := d]\<rparr>)"
  using bridge_put_dpif [of br t d] by (simp add: bridge_less_def)

lemma bridge_less_delete:
  assumes "bridge_inv br" and "listed br items"
  obtains br' where "ecall_delete_flows br items = Some (map (deleted_as br) items, br')" "bridge_less br (rule_of br ` snd ` set items) br'"
proof -
  obtain br' where b: "ecall_delete_flows br items = Some (map (deleted_as br) items, br')" "bridge_inv br'" "reg br' = reg br"
    "\<forall>q. s_cls_rule (rstore br' q) = s_cls_rule (rstore br q)" "length (oftables br') = length (oftables br)"
    "\<forall>t < length (oftables br). rules_at br' t = rules_at br t - rule_of br ` snd ` set items"
    "n_tables br' = n_tables br" "\<forall>q. o_cls_rule (rstore br' q) = o_cls_rule (rstore br q)"
    using delete_flows_ok [OF assms] by (elim exE conjE) (rule that)
  from b(1) show thesis by (rule that) (use b in \<open>simp add: bridge_less_def\<close>)
qed

lemma bridge_less_take_out:
  assumes "bridge_inv br" and "in_table br t a"
  obtains b1 br' where "ecall_cls_remove br t a = Some b1" "ecall_evg_remove_rule b1 t a = Some br'" "bridge_less br {rule_of br a} br'"
proof -
  obtain r where r: "t < length (oftables br)" "sgx_rule_from_ut_cr br a = Some r" "r \<in> rules_at br t" using assms(2) by (rule in_tableE)
  have core: "core_inv br" using assms(1) by (simp add: bridge_inv_but_def)
  obtain b1 br' where b: "ecall_cls_remove br t a = Some b1" "ecall_evg_remove_rule b1 t a = Some br'" "bridge_inv br'"
    "rules_at br' t = rules_at br t - {r}" "\<And>u. u < length (oftables br) \<Longrightarrow> u \<noteq> t \<Longrightarrow> rules_at br' u = rules_at br u"
    "\<And>q. same_rule (rstore br q) (rstore br' q)" "reg br' = reg br" "length (oftables br') = length (oftables br)" "n_tables br' = n_tables br"
    using bridge_take_out [OF assms(1) r] by metis
  have "rules_at br' u = rules_at br u - {r}" if "u < length (oftables br)" for u
    using that b(4,5) core_unique [OF core that r(1) _ r(3)] by (cases "u = t") auto
  then have "bridge_less br {rule_of br a} br'" using b r(2) by (simp add: bridge_less_def same_rule_def rule_of_def)
  with b(1,2) show thesis by (rule that)
qed

lemma in_table_less:
  assumes "bridge_less br D br'" and "in_table br t a" and "rule_of br a \<notin> D"
  shows "in_table br' t a"
  using assms(2,3) bridge_lessD [OF assms(1)] by (auto simp: in_table_def rule_of_def split: option.splits)

section \<open>A group of delete operations\<close>

definition delete_op :: "nat \<Rightarrow> removed_reason \<Rightarrow> rule \<Rightarrow> ofoperation" where
  "delete_op g reason x = \<lparr>op_group = g, op_type = OFOPERATION_DELETE, op_reason = reason, op_flow_cookie = r_flow_cookie x,
     op_victim = None, op_ofpacts = None, op_error = None\<rparr>"

definition marked :: "nat \<Rightarrow> removed_reason \<Rightarrow> ut_ptr set \<Rightarrow> (ut_ptr \<Rightarrow> rule option) \<Rightarrow> ut_ptr \<Rightarrow> rule option" where
  "marked g reason R rules r = (if r \<in> R then map_option (\<lambda>x. x\<lparr>r_pending := Some (delete_op g reason x)\<rparr>) (rules r) else rules r)"

text \<open>The state of the switch \<open>sw\<close> when the group \<open>g\<close> has a delete operation for each rule of \<open>ds\<close>, of which \<open>k\<close> are still running.\<close>

definition deleting :: "switch \<Rightarrow> nat \<Rightarrow> ofopgroup \<Rightarrow> removed_reason \<Rightarrow> (ut_ptr \<times> u32) list \<Rightarrow> nat \<Rightarrow> switch" where
  "deleting sw g gr reason ds k = sw\<lparr>
     sw_rules := marked g reason (fst ` set ds) (sw_rules sw),
     sw_groups := (sw_groups sw)(g \<mapsto> gr\<lparr>g_ops := map fst ds, g_n_running := k\<rparr>),
     sw_deletions := rev ds @ sw_deletions sw\<rparr>"

lemma deleting_simps [simp]:
  "sw_bridge (deleting sw g gr reason ds k) = sw_bridge sw" "sw_clogged (deleting sw g gr reason ds k) = sw_clogged sw"
  "sw_n_tables (deleting sw g gr reason ds k) = sw_n_tables sw" "sw_need_revalidate (deleting sw g gr reason ds k) = sw_need_revalidate sw"
  "sw_revalidate_set (deleting sw g gr reason ds k) = sw_revalidate_set sw" "sw_removed (deleting sw g gr reason ds k) = sw_removed sw"
  "sw_expirable (deleting sw g gr reason ds k) = sw_expirable sw" "sw_reports (deleting sw g gr reason ds k) = sw_reports sw"
  "sw_groups (deleting sw g gr reason ds k) g = Some (gr\<lparr>g_ops := map fst ds, g_n_running := k\<rparr>)"
  "r \<notin> fst ` set ds \<Longrightarrow> sw_rules (deleting sw g gr reason ds k) r = sw_rules sw r"
  by (simp_all add: deleting_def marked_def)

lemma deleting_rule:
  "r \<in> fst ` set ds \<Longrightarrow> sw_rules sw r = Some x \<Longrightarrow>
    sw_rules (deleting sw g gr reason ds k) r = Some (x\<lparr>r_pending := Some (delete_op g reason x)\<rparr>)"
  by (simp add: deleting_def marked_def)

text \<open>The other parts of the state can be changed inside.\<close>

lemma deleting_inside:
  "(deleting sw g gr reason ds k)\<lparr>sw_bridge := br\<rparr> = deleting (sw\<lparr>sw_bridge := br\<rparr>) g gr reason ds k"
  "(deleting sw g gr reason ds k)\<lparr>sw_need_revalidate := nr\<rparr> = deleting (sw\<lparr>sw_need_revalidate := nr\<rparr>) g gr reason ds k"
  "(deleting sw g gr reason ds k)\<lparr>sw_revalidate_set := rv\<rparr> = deleting (sw\<lparr>sw_revalidate_set := rv\<rparr>) g gr reason ds k"
  "(deleting sw g gr reason ds k)\<lparr>sw_removed := ms\<rparr> = deleting (sw\<lparr>sw_removed := ms\<rparr>) g gr reason ds k"
  "(deleting sw g gr reason ds k)\<lparr>sw_reports := rs\<rparr> = deleting (sw\<lparr>sw_reports := rs\<rparr>) g gr reason ds k"
  "not_expirable r (deleting sw g gr reason ds k) = deleting (not_expirable r sw) g gr reason ds k"
  by (cases sw; simp add: deleting_def not_expirable_def)+

lemma create_delete:
  assumes "sw_rules sw r = Some x" and "r_pending x = None" and "r \<notin> fst ` set ds"
    and "case ho of Some h' \<Rightarrow> h' = h | None \<Rightarrow> ecall_cls_rule_hash (sw_bridge sw) r (ucast (r_table_id x)) = Some h"
  shows "ofoperation_create (deleting sw g gr reason ds k) g r OFOPERATION_DELETE reason ho = Some (deleting sw g gr reason (ds @ [(r, h)]) (Suc k))"
  using assms
  by (cases sw; cases ho) (auto simp: ofoperation_create_def upd_rule_def upd_group_def deleting_def marked_def delete_op_def fun_eq_iff)

section \<open>The hook of the datapath\<close>

text \<open>What changes from \<open>s\<close> to \<open>s'\<close> while rules are taken out, besides the group.\<close>

definition within :: "switch \<Rightarrow> switch \<Rightarrow> bool" where
  "within s s' \<longleftrightarrow> s' = s\<lparr>sw_bridge := sw_bridge s', sw_need_revalidate := sw_need_revalidate s', sw_revalidate_set := sw_revalidate_set s',
     sw_expirable := sw_expirable s', sw_removed := sw_removed s'\<rparr>"

lemma within_refl: "within s s"
  by (simp add: within_def)

lemma within_trans: "within a b \<Longrightarrow> within b c \<Longrightarrow> within a c"
  by (cases a; cases b; cases c) (simp add: within_def)

lemma withinD:
  assumes "within s s'"
  shows "sw_rules s' = sw_rules s" "sw_clogged s' = sw_clogged s" "sw_groups s' = sw_groups s" "sw_deletions s' = sw_deletions s"
    "sw_n_tables s' = sw_n_tables s" "sw_reports s' = sw_reports s" "sw_next_group s' = sw_next_group s" "sw_pending s' = sw_pending s"
    "sw_errors s' = sw_errors s" "sw_state s' = sw_state s" "sw_completions s' = sw_completions s"
  using assms by (cases s; cases s'; simp add: within_def)+

definition took_out :: "switch \<Rightarrow> ut_ptr list \<Rightarrow> ptr set \<Rightarrow> flow_removed list \<Rightarrow> switch \<Rightarrow> bool" where
  "took_out s rs D ms s' \<longleftrightarrow> within s s' \<and> bridge_less (sw_bridge s) D (sw_bridge s')
     \<and> sw_expirable s' = filter (\<lambda>q. q \<notin> set rs) (sw_expirable s) \<and> sw_removed s' = sw_removed s @ ms"

lemma took_out_refl: "bridge_inv (sw_bridge s) \<Longrightarrow> took_out s [] {} [] s"
  by (simp add: took_out_def within_refl bridge_less_refl)

lemma took_out_trans:
  assumes "took_out a rs D ms b" and "took_out b qs E ns c"
  shows "took_out a (rs @ qs) (D \<union> E) (ms @ ns) c"
  using assms within_trans bridge_less_trans by (auto simp: took_out_def conj_commute)

lemma rule_destruct_deleting:
  assumes "bridge_inv (sw_bridge s)" and "\<not> sw_clogged s" and "\<not> g_submitted gr" and "r \<in> fst ` set ds" and "sw_rules s r = Some x"
    and "unat (r_table_id x) < length (oftables (sw_bridge s))"
  obtains s' where "rule_destruct w opt (deleting s g gr reason ds (Suc k)) r = Some (deleting s' g gr reason ds k)" "took_out s [] {} [] s'"
proof -
  let ?br = "sw_bridge s" and ?t = "unat (r_table_id x)"
  obtain res d where u: "ecall_oftable_update_taggable ?br ?t = Some (res, ?br\<lparr>table_dpif := (table_dpif ?br)[?t := d]\<rparr>)"
    using update_taggable_ok [OF assms(1,6)] by metis
  let ?b = "?br\<lparr>table_dpif := (table_dpif ?br)[?t := d]\<rparr>"
  obtain other where other: "ecall_oftable_is_other_table ?b ?t = Some other"
    using update_taggable_ok [OF assms(1,6)] assms(1,6) by (auto simp: ecall_oftable_is_other_table_def get_dpif_def bridge_inv_but_def core_inv_def)
  have rule: "sw_rules (deleting s g gr reason ds (Suc k)) r = Some (x\<lparr>r_pending := Some (delete_op g reason x)\<rparr>)"
    by (rule deleting_rule [OF assms(4,5)])
  define s' where "s' = (if res \<noteq> 0 then s\<lparr>sw_bridge := ?b, sw_need_revalidate := True\<rparr>
    else if sw_need_revalidate s then s\<lparr>sw_bridge := ?b\<rparr>
    else if other \<noteq> 0 \<and> r_tag x \<noteq> 0 then s\<lparr>sw_bridge := ?b, sw_revalidate_set := r_tag x # sw_revalidate_set s\<rparr>
    else s\<lparr>sw_bridge := ?b, sw_need_revalidate := True\<rparr>)"
  have i: "rule_invalidate (deleting s g gr reason ds (Suc k)) r = Some (deleting s' g gr reason ds (Suc k))"
    by (simp add: rule_invalidate_def rule enclave_call_def u other deleting_inside s'_def)
  have s: "sw_clogged s' = sw_clogged s" "sw_rules s' = sw_rules s" by (simp_all add: s'_def)
  have "ofoperation_complete w opt (deleting s' g gr reason ds (Suc k)) r None = Some (deleting s' g gr reason ds k)"
    using assms(3-5) s(2) by (cases s') (auto simp: ofoperation_complete_def op_of_def deleting_rule delete_op_def upd_rule_def upd_group_def deleting_def marked_def fun_eq_iff)
  then have "rule_destruct w opt (deleting s g gr reason ds (Suc k)) r = Some (deleting s' g gr reason ds k)"
    using assms(2) s(1) by (simp add: rule_destruct_def complete_operation_def i)
  moreover have "took_out s [] {} [] s'" using bridge_less_dpif [OF assms(1)]
    by (cases s) (simp add: took_out_def within_def s'_def)
  ultimately show thesis by (rule that)
qed

section \<open>Completing the group\<close>

definition released :: "removed_reason \<Rightarrow> (ut_ptr \<Rightarrow> bool) \<Rightarrow> ut_ptr list \<Rightarrow> bridge \<Rightarrow> switch \<Rightarrow> switch" where
  "released reason hid rs br sw = sw\<lparr>sw_bridge := br, sw_rules := sw_rules sw |` (- set rs),
     sw_deletions := filter (\<lambda>(q, _). q \<notin> set rs) (sw_deletions sw),
     sw_reports := sw_reports sw @ map (\<lambda>r. (r, OFOPERATION_DELETE, reason)) (filter (\<lambda>r. \<not> hid r) rs)\<rparr>"

lemma released_Nil: "released reason hid [] (sw_bridge sw) sw = sw"
  by (simp add: released_def restrict_map_def)

lemma released_Cons: "released reason hid rs br' (released reason hid [r] br sw) = released reason hid (r # rs) br' sw"
  by (cases sw) (auto simp: released_def restrict_map_def fun_eq_iff intro: filter_cong)

lemma marked_none: "marked g reason {} rules = rules"
  by (simp add: marked_def fun_eq_iff)

lemma marked_release:
  assumes "r \<notin> R"
  shows "(marked g reason (insert r R) rules)(r := None) = marked g reason R (rules(r := None))"
  using assms by (auto simp: marked_def fun_eq_iff)

lemma complete_delete:
  assumes "sw_rules sw r = Some x" and "r \<notin> fst ` set ds"
    and "case ho of Some b \<Rightarrow> b = hid r | None \<Rightarrow> ofproto_rule_is_hidden sw r = Some (hid r)"
    and "if opt then br = sw_bridge sw else ecall_cls_rule_destroy (sw_bridge sw) r = Some br"
  shows "complete_op w opt (deleting sw g gr reason ((r, h) # ds) 0) r ho = Some (deleting (released reason hid [r] br sw) g gr reason ds 0)"
proof -
  let ?d = "deleting sw g gr reason ((r, h) # ds) 0"
  let ?x = "x\<lparr>r_pending := Some (delete_op g reason x)\<rparr>"
  have rule: "sw_rules ?d r = Some ?x" by (rule deleting_rule) (use assms(1) in simp_all)
  have rep: "reported ?d r ?x (delete_op g reason x) ho = Some (\<not> hid r)"
    using assms(3) by (cases "ecall_cr_priority (sw_bridge sw) r") (auto simp: reported_def delete_op_def ofproto_rule_is_hidden_def split: option.splits)
  have del: "filter (\<lambda>(q, _). q \<noteq> r) (rev ds) = rev ds" using assms(2) by (intro filter_True) force
  have rs: "(marked g reason (insert r (fst ` set ds)) rules)(r := None) = marked g reason (fst ` set ds) (rules |` (- {r}))" for rules
    using marked_release [OF assms(2)] by (simp add: restrict_complement_singleton_eq)
  show ?thesis
  proof (cases opt)
    case True
    then show ?thesis using assms(4)
      by (simp add: complete_op_def rule rep upd_rule_def Let_def)
        (cases sw; cases gr; simp add: delete_op_def ofoperation_destroy_def upd_group_def deleting_def released_def rs del)
  next
    case False
    then have e: "ecall_cls_rule_destroy (sw_bridge sw) r = Some br" using assms(4) by simp
    show ?thesis using False e
      by (simp add: complete_op_def rule rep upd_rule_def Let_def)
        (cases sw; cases gr; simp add: delete_op_def ofproto_rule_destroy_up_def enclave_do_def ofoperation_destroy_def upd_group_def deleting_def released_def rs del)
  qed
qed

text \<open>How the group learns whether the rule is hidden, and that the enclave can release it.\<close>

definition releasable :: "bool \<Rightarrow> bridge \<Rightarrow> (ut_ptr \<Rightarrow> bool) \<Rightarrow> ut_ptr list \<Rightarrow> bool list option \<Rightarrow> bool" where
  "releasable opt br hid rs hs \<longleftrightarrow> bridge_inv br \<and> distinct (map ut_hash rs) \<and> (case hs of
     Some l \<Rightarrow> opt \<and> l = map hid rs
   | None \<Rightarrow> \<forall>r \<in> set rs. sgx_rule_from_ut_cr br r = Some (rule_of br r) \<and> hid r = hidden_rule br r
       \<and> (\<forall>t < length (oftables br). rule_of br r \<notin> rules_at br t))"

lemma releasable_tail:
  assumes "releasable opt br hid (r # rs) hs"
  obtains h where "if opt then br\<lparr>reg := h\<rparr> = br else ecall_cls_rule_destroy br r = Some (br\<lparr>reg := h\<rparr>)"
    "releasable opt (br\<lparr>reg := h\<rparr>) hid rs (map_option tl hs)" "\<not> opt \<Longrightarrow> set (hmap_elems h) = registered br - {rule_of br r}"
    "\<And>q. q \<in> set rs \<Longrightarrow> rule_of (br\<lparr>reg := h\<rparr>) q = rule_of br q"
proof (cases opt)
  case True
  then show thesis using assms by (intro that [of "reg br"]) (auto simp: releasable_def split: option.splits)
next
  case False
  then have hs: "hs = None" and inv: "bridge_inv br" and r: "sgx_rule_from_ut_cr br r = Some (rule_of br r)"
    and out: "\<And>t. t < length (oftables br) \<Longrightarrow> rule_of br r \<notin> rules_at br t"
    using assms by (auto simp: releasable_def split: option.splits)
  obtain h where h: "ecall_cls_rule_destroy br r = Some (br\<lparr>reg := h\<rparr>)" "bridge_inv (br\<lparr>reg := h\<rparr>)"
    "set (hmap_elems h) = registered br - {rule_of br r}" "hmap_abs h = (hmap_abs (reg br))(ut_hash r := None)"
    by (rule bridge_rule_destroy [OF inv r out])
  have f: "sgx_rule_from_ut_cr (br\<lparr>reg := h\<rparr>) q = sgx_rule_from_ut_cr br q" if "q \<in> set rs" for q
  proof -
    have "ut_hash q \<noteq> ut_hash r" using that assms by (auto simp: releasable_def) (metis imageI)
    then show ?thesis by (simp add: find_rule_abs h(4))
  qed
  then have ro: "rule_of (br\<lparr>reg := h\<rparr>) q = rule_of br q" if "q \<in> set rs" for q using that by (simp add: rule_of_def)
  then have "releasable opt (br\<lparr>reg := h\<rparr>) hid rs (map_option tl hs)"
    using assms h(2) f by (auto simp: hs releasable_def hidden_rule_def)
  then show thesis using False h ro by (intro that [of h]) auto
qed

lemma complete_deletes:
  assumes "releasable opt (sw_bridge s) hid (map fst ds) hs" and "\<forall>r \<in> fst ` set ds. sw_rules s r \<noteq> None"
  shows "\<exists>h. complete_ops w opt (deleting s g gr reason ds 0) (map fst ds) hs =
      Some (deleting (released reason hid (map fst ds) ((sw_bridge s)\<lparr>reg := h\<rparr>) s) g gr reason [] 0)
    \<and> bridge_inv ((sw_bridge s)\<lparr>reg := h\<rparr>)
    \<and> (if opt then h = reg (sw_bridge s) else set (hmap_elems h) = registered (sw_bridge s) - rule_of (sw_bridge s) ` fst ` set ds)"
  using assms
proof (induction ds arbitrary: s hs)
  case Nil
  then show ?case by (intro exI [of _ "reg (sw_bridge s)"]) (simp add: released_Nil releasable_def)
next
  case (Cons d ds)
  obtain r dh where d: "d = (r, dh)" by (cases d)
  have rel: "releasable opt (sw_bridge s) hid (r # map fst ds) hs" using Cons.prems(1) by (simp add: d)
  then have new: "r \<notin> fst ` set ds" by (auto simp: releasable_def)
  obtain x where x: "sw_rules s r = Some x" using Cons.prems(2) by (auto simp: d)
  obtain h where h: "if opt then (sw_bridge s)\<lparr>reg := h\<rparr> = sw_bridge s else ecall_cls_rule_destroy (sw_bridge s) r = Some ((sw_bridge s)\<lparr>reg := h\<rparr>)"
    "releasable opt ((sw_bridge s)\<lparr>reg := h\<rparr>) hid (map fst ds) (map_option tl hs)"
    "\<not> opt \<Longrightarrow> set (hmap_elems h) = registered (sw_bridge s) - {rule_of (sw_bridge s) r}"
    "\<And>q. q \<in> set (map fst ds) \<Longrightarrow> rule_of ((sw_bridge s)\<lparr>reg := h\<rparr>) q = rule_of (sw_bridge s) q"
    by (rule releasable_tail [OF rel]) (rule that)
  let ?s = "released reason hid [r] ((sw_bridge s)\<lparr>reg := h\<rparr>) s" and ?ho = "map_option hd hs"
  have hid: "case ?ho of Some b \<Rightarrow> b = hid r | None \<Rightarrow> ofproto_rule_is_hidden s r = Some (hid r)"
    using rel by (auto simp: releasable_def ofproto_rule_is_hidden_def ecall_cr_priority_def hidden_rule_def split: option.splits)
  have step: "complete_op w opt (deleting s g gr reason (d # ds) 0) r ?ho = Some (deleting ?s g gr reason ds 0)"
    unfolding d
  proof (rule complete_delete [where x = x and hid = hid])
    show "sw_rules s r = Some x" "r \<notin> fst ` set ds" using x new by simp_all
    show "case ?ho of Some b \<Rightarrow> b = hid r | None \<Rightarrow> ofproto_rule_is_hidden s r = Some (hid r)" by (rule hid)
    show "if opt then (sw_bridge s)\<lparr>reg := h\<rparr> = sw_bridge s else ecall_cls_rule_destroy (sw_bridge s) r = Some ((sw_bridge s)\<lparr>reg := h\<rparr>)" by (rule h(1))
  qed
  have rule: "sw_rules (deleting s g gr reason (d # ds) 0) r = Some (x\<lparr>r_pending := Some (delete_op g reason x)\<rparr>)"
    by (rule deleting_rule) (simp_all add: d x)
  have b: "sw_bridge ?s = (sw_bridge s)\<lparr>reg := h\<rparr>" by (simp add: released_def)
  have "\<forall>q \<in> fst ` set ds. sw_rules ?s q \<noteq> None" using Cons.prems(2) new by (auto simp: released_def d restrict_map_def)
  moreover have "releasable opt (sw_bridge ?s) hid (map fst ds) (map_option tl hs)" unfolding b by (rule h(2))
  ultimately obtain h' where IH:
    "complete_ops w opt (deleting ?s g gr reason ds 0) (map fst ds) (map_option tl hs) =
      Some (deleting (released reason hid (map fst ds) ((sw_bridge ?s)\<lparr>reg := h'\<rparr>) ?s) g gr reason [] 0)"
    "bridge_inv ((sw_bridge ?s)\<lparr>reg := h'\<rparr>)"
    "if opt then h' = reg (sw_bridge ?s) else set (hmap_elems h') = registered (sw_bridge ?s) - rule_of (sw_bridge ?s) ` fst ` set ds"
    using Cons.IH [of ?s "map_option tl hs"] by blast
  have ops: "complete_ops w opt (deleting s g gr reason (d # ds) 0) (map fst (d # ds)) hs =
      complete_ops w opt (deleting ?s g gr reason ds 0) (map fst ds) (map_option tl hs)"
    using step rel by (cases hs) (auto simp: d rule [unfolded d] delete_op_def releasable_def split: list.splits)
  have ro: "rule_of (sw_bridge ?s) ` fst ` set ds = rule_of (sw_bridge s) ` fst ` set ds"
    unfolding b by (rule image_cong) (use h(4) in auto)
  have "if opt then h' = reg (sw_bridge s) else set (hmap_elems h') = registered (sw_bridge s) - rule_of (sw_bridge s) ` fst ` set (d # ds)"
    using IH(3) h(1,3) unfolding ro unfolding b by (auto simp: d split: if_splits)
  moreover have "released reason hid (map fst ds) ((sw_bridge ?s)\<lparr>reg := h'\<rparr>) ?s = released reason hid (map fst (d # ds)) ((sw_bridge s)\<lparr>reg := h'\<rparr>) s"
    using released_Cons by (simp add: b d)
  ultimately show ?case using IH(1,2) unfolding ops b by (intro exI [of _ h']) simp
qed

lemma submit_deletes:
  assumes "releasable opt (sw_bridge s) hid (map fst ds) hs" and "\<forall>r \<in> fst ` set ds. sw_rules s r \<noteq> None" and "\<not> g_submitted gr"
  obtains h where "ofopgroup_submit w opt (deleting s g gr reason ds 0) g hs =
      Some ((released reason hid (map fst ds) ((sw_bridge s)\<lparr>reg := h\<rparr>) s)\<lparr>sw_groups := (sw_groups s)(g := None)\<rparr>)"
    "bridge_inv ((sw_bridge s)\<lparr>reg := h\<rparr>)"
    "if opt then h = reg (sw_bridge s) else set (hmap_elems h) = registered (sw_bridge s) - rule_of (sw_bridge s) ` fst ` set ds"
proof -
  let ?d = "deleting s g gr reason ds 0"
  obtain h where h: "complete_ops w opt ?d (map fst ds) hs =
      Some (deleting (released reason hid (map fst ds) ((sw_bridge s)\<lparr>reg := h\<rparr>) s) g gr reason [] 0)"
    "bridge_inv ((sw_bridge s)\<lparr>reg := h\<rparr>)"
    "if opt then h = reg (sw_bridge s) else set (hmap_elems h) = registered (sw_bridge s) - rule_of (sw_bridge s) ` fst ` set ds"
    using complete_deletes [OF assms(1,2)] by blast
  let ?op = "\<lambda>r. delete_op g reason (the (sw_rules s r))"
  have "op_of ?d r = Some (?op r)" if r: "r \<in> fst ` set ds" for r
  proof -
    obtain x where "sw_rules s r = Some x" using assms(2) r by blast
    then show ?thesis using deleting_rule [OF r] by (simp add: op_of_def)
  qed
  then have ops: "those (map (op_of ?d) (map fst ds)) = Some (map ?op (map fst ds))" by (intro those_map_Some) auto
  have e: "find (\<lambda>op. op_error op \<noteq> None) (map ?op rs) = None" for rs by (simp add: find_None_iff delete_op_def)
  have f: "find (\<lambda>(r, op). op_type op \<noteq> OFOPERATION_DELETE) (zip rs (map ?op rs)) = None" for rs
    by (auto simp: zip_map_snd find_None_iff delete_op_def)
  define R where "R = deleting (released reason hid (map fst ds) ((sw_bridge s)\<lparr>reg := h\<rparr>) s) g gr reason [] 0"
  have "ofopgroup_complete w opt ?d g hs = Some (R\<lparr>sw_groups := (sw_groups R)(g := None)\<rparr>)"
    using assms(3) h(1) [folded R_def] ops by (cases "g_ofconn gr") (simp_all add: ofopgroup_complete_def e f del: map_map not_None_eq)
  then have "ofopgroup_submit w opt ?d g hs = Some (R\<lparr>sw_groups := (sw_groups R)(g := None)\<rparr>)"
    by (simp add: ofopgroup_submit_def)
  also have "R\<lparr>sw_groups := (sw_groups R)(g := None)\<rparr> =
      (released reason hid (map fst ds) ((sw_bridge s)\<lparr>reg := h\<rparr>) s)\<lparr>sw_groups := (sw_groups s)(g := None)\<rparr>"
    by (cases s) (simp add: R_def deleting_def released_def marked_none)
  finally have "ofopgroup_submit w opt ?d g hs =
      Some ((released reason hid (map fst ds) ((sw_bridge s)\<lparr>reg := h\<rparr>) s)\<lparr>sw_groups := (sw_groups s)(g := None)\<rparr>)" .
  then show thesis using h(2,3) by (rule that)
qed

section \<open>Taking rules out one by one\<close>

text \<open>The rules of a request: different rules of the switch with no operation in progress, each in its table.\<close>

definition deletable :: "switch \<Rightarrow> ut_ptr list \<Rightarrow> bool" where
  "deletable s rs \<longleftrightarrow> distinct (map ut_hash rs)
     \<and> (\<forall>r \<in> set rs. \<exists>x. sw_rules s r = Some x \<and> r_pending x = None \<and> in_table (sw_bridge s) (unat (r_table_id x)) r)"

definition removal_notice :: "switch \<Rightarrow> removed_reason \<Rightarrow> ut_ptr \<Rightarrow> flow_removed list" where
  "removal_notice s reason r = (case sw_rules s r of None \<Rightarrow> [] | Some x \<Rightarrow>
     if hidden_rule (sw_bridge s) r \<or> \<not> r_send_flow_removed x then []
     else [flow_removed_msg r x reason (fst (described (sw_bridge s) r)) (snd (described (sw_bridge s) r))])"

lemma deletable_tail:
  assumes "deletable s (r # rs)" and "within s s'" and "bridge_less (sw_bridge s) {rule_of (sw_bridge s) r} (sw_bridge s')"
    and "reg_inv (sw_bridge s)"
  shows "deletable s' rs" "r \<notin> set rs"
    "rule_of (sw_bridge s') ` set rs = rule_of (sw_bridge s) ` set rs"
    "\<And>q. removal_notice s' reason q = removal_notice s reason q" "\<And>q. hidden_rule (sw_bridge s') q = hidden_rule (sw_bridge s) q"
proof -
  note b = bridge_lessD [OF assms(3)]
  show new: "r \<notin> set rs" using assms(1) by (auto simp: deletable_def)
  have "\<exists>x. sw_rules s' q = Some x \<and> r_pending x = None \<and> in_table (sw_bridge s') (unat (r_table_id x)) q" if q: "q \<in> set rs" for q
  proof -
    obtain x where x: "sw_rules s q = Some x" "r_pending x = None" "in_table (sw_bridge s) (unat (r_table_id x)) q"
      using assms(1) q by (auto simp: deletable_def)
    obtain t where y: "in_table (sw_bridge s) t r" using assms(1) by (auto simp: deletable_def)
    have "ut_hash q \<noteq> ut_hash r" using assms(1) q by (auto simp: deletable_def) (metis imageI)
    then have "rule_of (sw_bridge s) q \<noteq> rule_of (sw_bridge s) r"
      using x(3) y find_inj [OF assms(4), of q _ r] by (auto simp: in_table_def rule_of_def split: option.splits)
    then show ?thesis using x in_table_less [OF assms(3) x(3)] withinD(1) [OF assms(2)] by simp
  qed
  then show "deletable s' rs" using assms(1) by (simp add: deletable_def)
  show "rule_of (sw_bridge s') ` set rs = rule_of (sw_bridge s) ` set rs" by (simp add: b(4))
  show h: "hidden_rule (sw_bridge s') q = hidden_rule (sw_bridge s) q" for q by (simp add: hidden_rule_def b(4,10))
  show "removal_notice s' reason q = removal_notice s reason q" for q
    using h by (simp add: removal_notice_def withinD(1) [OF assms(2)] described_def b(4,10) split: option.split)
qed

lemma take_out_step:
  assumes "bridge_inv (sw_bridge s)" and "\<not> sw_clogged s" and "\<not> g_submitted gr"
    and x: "sw_rules s r = Some x" "r_pending x = None" "in_table (sw_bridge s) (unat (r_table_id x)) r" and new: "r \<notin> fst ` set ds"
  obtains h s' where "(do { sw \<leftarrow> ofoperation_create (deleting s g gr reason ds 0) g r OFOPERATION_DELETE reason None;
      sw \<leftarrow> oftable_remove_rule sw r; rule_destruct w opt sw r }) = Some (deleting s' g gr reason (ds @ [(r, h)]) 0)"
    "took_out s [r] {rule_of (sw_bridge s) r} [] s'"
proof -
  let ?t = "unat (r_table_id x)"
  obtain q where q: "?t < length (oftables (sw_bridge s))" "sgx_rule_from_ut_cr (sw_bridge s) r = Some q" using x(3) by (rule in_tableE)
  obtain h where h: "ecall_cls_rule_hash (sw_bridge s) r (ucast (r_table_id x)) = Some h" by (simp add: ecall_cls_rule_hash_def q(2))
  have c: "ofoperation_create (deleting s g gr reason ds 0) g r OFOPERATION_DELETE reason None = Some (deleting s g gr reason (ds @ [(r, h)]) (Suc 0))"
    by (rule create_delete [OF x(1,2) new]) (simp add: h)
  obtain b1 br where b: "ecall_cls_remove (sw_bridge s) ?t r = Some b1" "ecall_evg_remove_rule b1 ?t r = Some br"
    "bridge_less (sw_bridge s) {rule_of (sw_bridge s) r} br"
    by (rule bridge_less_take_out [OF assms(1) x(3)])
  let ?ds = "ds @ [(r, h)]" and ?s = "not_expirable r (s\<lparr>sw_bridge := br\<rparr>)"
  have r: "sw_rules (deleting s' g gr reason ?ds k) r = Some (x\<lparr>r_pending := Some (delete_op g reason x)\<rparr>)" if "sw_rules s' r = Some x" for s' k
    by (rule deleting_rule) (use that in simp_all)
  have o: "oftable_remove_rule (deleting s g gr reason ?ds (Suc 0)) r = Some (deleting ?s g gr reason ?ds (Suc 0))"
    by (simp add: oftable_remove_rule_def r x(1) enclave_do_def b deleting_inside eviction_group_remove_rule_def)
  have t: "took_out s [r] {rule_of (sw_bridge s) r} [] ?s"
    using b(3) by (cases s) (simp add: took_out_def within_def not_expirable_def)
  have len: "?t < length (oftables (sw_bridge ?s))" using q(1) bridge_lessD(2) [OF b(3)] by (simp add: not_expirable_def)
  obtain s' where d: "rule_destruct w opt (deleting ?s g gr reason ?ds (Suc 0)) r = Some (deleting s' g gr reason ?ds 0)" "took_out ?s [] {} [] s'"
    by (rule rule_destruct_deleting [of ?s gr r ?ds x w opt g reason 0])
      (use bridge_lessD(1) [OF b(3)] assms(2,3) x(1) len in \<open>simp_all add: not_expirable_def\<close>)
  show thesis by (rule that [of s' h]) (use c o d took_out_trans [OF t d(2)] in simp_all)
qed

lemma send_removed_ok:
  assumes "sw_rules s r = Some x" and "sgx_rule_from_ut_cr (sw_bridge s) r \<noteq> None"
  shows "ofproto_rule_send_removed opt s r reason = Some (s\<lparr>sw_removed := sw_removed s @ removal_notice s reason r\<rparr>)"
proof -
  obtain q where "sgx_rule_from_ut_cr (sw_bridge s) r = Some q" using assms(2) by blast
  then show ?thesis using assms(1)
    by (cases opt) (auto simp: ofproto_rule_send_removed_def ecall_ofproto_rule_send_removed_def ofproto_rule_is_hidden_def ecall_cr_priority_def
      ecall_minimatch_expand_def removal_notice_def hidden_rule_def described_def rule_of_def)
qed

lemma delete_plain_ok:
  assumes "bridge_inv (sw_bridge s)" and "\<not> sw_clogged s" and "\<not> g_submitted gr" and "deletable s rs" and "set rs \<inter> fst ` set ds = {}"
  shows "\<exists>s' hs. delete_plain w (deleting s g gr OFPRR_DELETE ds 0) g rs = Some (deleting s' g gr OFPRR_DELETE (ds @ zip rs hs) 0)
    \<and> length hs = length rs \<and> took_out s rs (rule_of (sw_bridge s) ` set rs) (concat (map (removal_notice s OFPRR_DELETE) rs)) s'"
  using assms
proof (induction rs arbitrary: s ds)
  case Nil
  then show ?case using took_out_refl by (intro exI [of _ s] exI [of _ "[]"]) simp
next
  case (Cons r rs)
  obtain x where x: "sw_rules s r = Some x" "r_pending x = None" "in_table (sw_bridge s) (unat (r_table_id x)) r"
    using Cons.prems(4) by (auto simp: deletable_def)
  have new: "r \<notin> fst ` set ds" using Cons.prems(5) by auto
  have find: "sgx_rule_from_ut_cr (sw_bridge s) r \<noteq> None" using x(3) by (auto simp: in_table_def split: option.splits)
  let ?s = "s\<lparr>sw_removed := sw_removed s @ removal_notice s OFPRR_DELETE r\<rparr>"
  have n: "removal_notice (deleting s g gr OFPRR_DELETE ds 0) OFPRR_DELETE r = removal_notice s OFPRR_DELETE r"
    using new by (simp add: removal_notice_def split: option.split)
  have send: "ofproto_rule_send_removed False (deleting s g gr OFPRR_DELETE ds 0) r OFPRR_DELETE = Some (deleting ?s g gr OFPRR_DELETE ds 0)"
    using send_removed_ok [of "deleting s g gr OFPRR_DELETE ds 0" r x False OFPRR_DELETE] new x(1) find by (simp add: n deleting_inside)
  obtain h s1 where s1: "(do { sw \<leftarrow> ofoperation_create (deleting ?s g gr OFPRR_DELETE ds 0) g r OFOPERATION_DELETE OFPRR_DELETE None;
      sw \<leftarrow> oftable_remove_rule sw r; rule_destruct w False sw r }) = Some (deleting s1 g gr OFPRR_DELETE (ds @ [(r, h)]) 0)"
    "took_out ?s [r] {rule_of (sw_bridge ?s) r} [] s1"
    by (rule take_out_step [of ?s gr r x ds]) (use Cons.prems(1-3) x new in simp_all)
  have up: "delete_flow_up w False (deleting s g gr OFPRR_DELETE ds 0) g r = Some (deleting s1 g gr OFPRR_DELETE (ds @ [(r, h)]) 0)"
    using s1(1) by (simp add: delete_flow_up_def send)
  have "took_out s [] {} (removal_notice s OFPRR_DELETE r) ?s"
    using bridge_less_refl [OF Cons.prems(1)] by (cases s) (simp add: took_out_def within_def)
  from took_out_trans [OF this s1(2)] have t: "took_out s [r] {rule_of (sw_bridge s) r} (removal_notice s OFPRR_DELETE r) s1" by simp
  then have w1: "within s s1" "bridge_less (sw_bridge s) {rule_of (sw_bridge s) r} (sw_bridge s1)" by (simp_all add: took_out_def)
  have ri: "reg_inv (sw_bridge s)" using Cons.prems(1) by (simp add: bridge_inv_but_def core_inv_def)
  note tl = deletable_tail [OF Cons.prems(4) w1 ri]
  have "\<exists>s' hs. delete_plain w (deleting s1 g gr OFPRR_DELETE (ds @ [(r, h)]) 0) g rs =
      Some (deleting s' g gr OFPRR_DELETE ((ds @ [(r, h)]) @ zip rs hs) 0) \<and> length hs = length rs
    \<and> took_out s1 rs (rule_of (sw_bridge s1) ` set rs) (concat (map (removal_notice s1 OFPRR_DELETE) rs)) s'"
    using Cons.prems(2,3,5) tl(1,2) withinD(2) [OF w1(1)] bridge_lessD(1) [OF w1(2)] by (intro Cons.IH) auto
  then obtain s' hs where IH: "delete_plain w (deleting s1 g gr OFPRR_DELETE (ds @ [(r, h)]) 0) g rs =
      Some (deleting s' g gr OFPRR_DELETE ((ds @ [(r, h)]) @ zip rs hs) 0)" "length hs = length rs"
    "took_out s1 rs (rule_of (sw_bridge s1) ` set rs) (concat (map (removal_notice s1 OFPRR_DELETE) rs)) s'" by blast
  have "took_out s (r # rs) (rule_of (sw_bridge s) ` set (r # rs)) (concat (map (removal_notice s OFPRR_DELETE) (r # rs))) s'"
    using took_out_trans [OF t IH(3)] tl(3) by (simp add: tl(4) cong: map_cong)
  then show ?case using up IH(1,2) by (intro exI [of _ s'] exI [of _ "h # hs"]) simp
qed

section \<open>Taking rules out in one call\<close>

definition deletion_notice :: "switch \<Rightarrow> ut_ptr \<times> deleted_flow \<Rightarrow> flow_removed list" where
  "deletion_notice s = (\<lambda>(r, d). case sw_rules s r of None \<Rightarrow> [] | Some x \<Rightarrow>
     if df_is_hidden d \<or> \<not> r_send_flow_removed x then [] else [flow_removed_msg r x OFPRR_DELETE (df_match d) (df_priority d)])"

lemma delete_opt_ok:
  assumes "bridge_inv (sw_bridge s)" and "\<not> sw_clogged s" and "\<not> g_submitted gr" and "distinct (map fst l)" and "fst ` set l \<inter> fst ` set ds = {}"
    and "\<forall>r \<in> fst ` set l. \<exists>x. sw_rules s r = Some x \<and> r_pending x = None \<and> unat (r_table_id x) < length (oftables (sw_bridge s))"
  shows "\<exists>s'. delete_opt w (deleting s g gr OFPRR_DELETE ds 0) g l =
      Some (deleting s' g gr OFPRR_DELETE (ds @ map (\<lambda>(r, d). (r, df_hash d)) l) 0)
    \<and> took_out s (map fst l) {} (concat (map (deletion_notice s) l)) s'"
  using assms
proof (induction l arbitrary: s ds)
  case Nil
  then show ?case using took_out_refl by (intro exI [of _ s]) simp
next
  case (Cons rd l)
  obtain r d where rd: "rd = (r, d)" by (cases rd)
  obtain x where x: "sw_rules s r = Some x" "r_pending x = None" "unat (r_table_id x) < length (oftables (sw_bridge s))"
    using Cons.prems(6) by (auto simp: rd)
  have new: "r \<notin> fst ` set ds" using Cons.prems(5) by (auto simp: rd)
  let ?s = "not_expirable r (s\<lparr>sw_removed := sw_removed s @ deletion_notice s rd\<rparr>)" and ?ds = "ds @ [(r, df_hash d)]"
  have send: "ofproto_rule_send_removed_del (deleting s g gr OFPRR_DELETE ds 0) r OFPRR_DELETE d =
      Some (deleting (s\<lparr>sw_removed := sw_removed s @ deletion_notice s rd\<rparr>) g gr OFPRR_DELETE ds 0)"
    using new x(1) by (simp add: ofproto_rule_send_removed_del_def deletion_notice_def rd deleting_inside)
  have c: "ofoperation_create (deleting (s\<lparr>sw_removed := sw_removed s @ deletion_notice s rd\<rparr>) g gr OFPRR_DELETE ds 0) g r OFOPERATION_DELETE OFPRR_DELETE (Some (df_hash d)) =
      Some (deleting (s\<lparr>sw_removed := sw_removed s @ deletion_notice s rd\<rparr>) g gr OFPRR_DELETE ?ds (Suc 0))"
    by (rule create_delete [where x = x]) (use x new in simp_all)
  obtain s1 where s1: "rule_destruct w True (deleting ?s g gr OFPRR_DELETE ?ds (Suc 0)) r = Some (deleting s1 g gr OFPRR_DELETE ?ds 0)"
    "took_out ?s [] {} [] s1"
    by (rule rule_destruct_deleting [of ?s gr r ?ds x w True g OFPRR_DELETE 0]) (use Cons.prems(1-3) x in \<open>simp_all add: not_expirable_def\<close>)
  have "took_out s [r] {} (deletion_notice s rd) ?s"
    using bridge_less_refl [OF Cons.prems(1)] by (cases s) (simp add: took_out_def within_def not_expirable_def)
  from took_out_trans [OF this s1(2)] have t: "took_out s [r] {} (deletion_notice s rd) s1" by simp
  then have w1: "within s s1" "bridge_less (sw_bridge s) {} (sw_bridge s1)" by (simp_all add: took_out_def)
  have n: "deletion_notice s1 = deletion_notice s" using withinD(1) [OF w1(1)] by (simp add: deletion_notice_def fun_eq_iff)
  have "\<exists>s'. delete_opt w (deleting s1 g gr OFPRR_DELETE ?ds 0) g l =
      Some (deleting s' g gr OFPRR_DELETE (?ds @ map (\<lambda>(r, d). (r, df_hash d)) l) 0)
    \<and> took_out s1 (map fst l) {} (concat (map (deletion_notice s1) l)) s'"
    using Cons.prems(2-6) withinD(1,2) [OF w1(1)] bridge_lessD(1,2) [OF w1(2)] by (intro Cons.IH) (auto simp: rd)
  then obtain s' where IH: "delete_opt w (deleting s1 g gr OFPRR_DELETE ?ds 0) g l =
      Some (deleting s' g gr OFPRR_DELETE (?ds @ map (\<lambda>(r, d). (r, df_hash d)) l) 0)"
    "took_out s1 (map fst l) {} (concat (map (deletion_notice s1) l)) s'" by blast
  have "took_out s (map fst (rd # l)) {} (concat (map (deletion_notice s) (rd # l))) s'"
    using took_out_trans [OF t IH(2)] by (simp add: n rd)
  then show ?case using IH(1) s1(1) send c by (intro exI [of _ s']) (simp add: rd deleting_inside)
qed

lemma deletable_items:
  assumes "deletable s rs"
  obtains items where "those (map (table_item s) rs) = Some items" "listed (sw_bridge s) items" "map snd items = rs"
    "zip rs (map (deleted_as (sw_bridge s)) items) = map (\<lambda>r. (r, deleted_as (sw_bridge s) (unat (r_table_id (the (sw_rules s r))), r))) rs"
proof -
  let ?i = "\<lambda>r. (unat (r_table_id (the (sw_rules s r))), r)"
  have "those (map (table_item s) rs) = Some (map ?i rs)"
    using assms by (intro those_map_Some) (auto simp: deletable_def table_item_def)
  moreover have "listed (sw_bridge s) (map ?i rs)" using assms by (auto simp: deletable_def listed_def comp_def)
  moreover have "map snd (map ?i rs) = rs" by (simp add: comp_def)
  moreover have "zip rs (map (deleted_as (sw_bridge s)) (map ?i rs)) = map (\<lambda>r. (r, deleted_as (sw_bridge s) (?i r))) rs"
    by (simp add: comp_def zip_map_snd)
  ultimately show thesis by (rule that)
qed

section \<open>Deleting flows\<close>

text \<open>What freeing the rules \<open>rs\<close> leaves behind when the rules \<open>D\<close> have left the tables. Without \<open>OPTIMIZED\<close> the enclave forgets the rules, with it they stay registered.\<close>

definition flows_freed :: "bool \<Rightarrow> removed_reason \<Rightarrow> ut_ptr list \<Rightarrow> ptr set \<Rightarrow> switch \<Rightarrow> switch \<Rightarrow> bool" where
  "flows_freed opt reason rs D sw sw' \<longleftrightarrow> (let br = sw_bridge sw; br' = sw_bridge sw' in
     sw_rules sw' = sw_rules sw |` (- set rs) \<and> sw_groups sw' = sw_groups sw \<and> sw_deletions sw' = filter (\<lambda>(q, _). q \<notin> set rs) (sw_deletions sw)
     \<and> sw_expirable sw' = filter (\<lambda>q. q \<notin> set rs) (sw_expirable sw)
     \<and> sw_reports sw' = sw_reports sw @ map (\<lambda>r. (r, OFOPERATION_DELETE, reason)) (filter (\<lambda>r. \<not> hidden_rule br r) rs)
     \<and> sw_pending sw' = sw_pending sw \<and> sw_errors sw' = sw_errors sw \<and> sw_state sw' = sw_state sw
     \<and> registered br' = registered br - (if opt then {} else rule_of br ` set rs)
     \<and> (\<forall>q. rules_of br' q = rules_of br q) \<and> length (oftables br') = length (oftables br)
     \<and> (\<forall>t < length (oftables br). rules_at br' t = rules_at br t - D))"

definition flows_deleted :: "bool \<Rightarrow> removed_reason \<Rightarrow> ut_ptr list \<Rightarrow> switch \<Rightarrow> switch \<Rightarrow> bool" where
  "flows_deleted opt reason rs sw sw' \<longleftrightarrow> flows_freed opt reason rs (rule_of (sw_bridge sw) ` set rs) sw sw'"

lemma switch_ok_less:
  assumes "switch_ok sw" and "bridge_inv br'" and "n_tables br' = n_tables (sw_bridge sw)" and "sw_n_tables sw' = sw_n_tables sw" and "sw_bridge sw' = br'"
    and "length (oftables br') = length (oftables (sw_bridge sw))" and "\<And>q. o_cls_rule (rstore br' q) = o_cls_rule (rstore (sw_bridge sw) q)"
    and "\<And>t. t < length (oftables (sw_bridge sw)) \<Longrightarrow> rules_at br' t = rules_at (sw_bridge sw) t - D" and "rule_of (sw_bridge sw) ` R \<subseteq> D"
    and "sw_rules sw' = sw_rules sw |` (- R)"
  shows "switch_ok sw'"
proof -
  let ?br = "sw_bridge sw"
  have "\<exists>x. sw_rules sw' (o_cls_rule (rstore br' r)) = Some x \<and> unat (r_table_id x) = t"
    if t: "t < length (oftables ?br)" and r: "r \<in> rules_at br' t" for r t
  proof -
    have in_t: "r \<in> rules_at ?br t" and out: "r \<notin> rule_of ?br ` R" using r assms(8) [OF t] assms(9) by blast+
    have "sgx_rule_from_ut_cr ?br (o_cls_rule (rstore ?br r)) = Some r"
      using switch_okD(2) [OF assms(1)] core_registered [OF _ t in_t] by (metis core_inv_def find_registered)
    then have "o_cls_rule (rstore ?br r) \<notin> R" using out by (force simp: rule_of_def)
    moreover obtain x where "sw_rules sw (o_cls_rule (rstore ?br r)) = Some x \<and> unat (r_table_id x) = t"
      using assms(1) t in_t unfolding switch_ok_def by blast
    ultimately show ?thesis by (simp add: assms(7,10) restrict_map_def)
  qed
  then show ?thesis using assms(1-6) by (simp add: switch_ok_def)
qed

definition opened :: "switch \<Rightarrow> switch" where
  "opened sw = sw\<lparr>sw_next_group := sw_next_group sw + 1\<rparr>"

lemma opened_simps [simp]:
  "sw_bridge (opened sw) = sw_bridge sw" "sw_rules (opened sw) = sw_rules sw" "sw_clogged (opened sw) = sw_clogged sw"
  "sw_groups (opened sw) = sw_groups sw" "sw_removed (opened sw) = sw_removed sw" "sw_n_tables (opened sw) = sw_n_tables sw"
  "deletable (opened sw) rs = deletable sw rs" "removal_notice (opened sw) reason = removal_notice sw reason"
  by (simp_all add: opened_def deletable_def removal_notice_def fun_eq_iff split: option.split)

lemma create_group:
  obtains gr where "ofopgroup_create sw c b = (sw_next_group sw, deleting (opened sw) (sw_next_group sw) gr reason [] 0)" "\<not> g_submitted gr"
proof
  let ?gr = "\<lparr>g_ops = [], g_n_running = 0, g_ofconn = c, g_buffer_id = (if c = None then 0 else b), g_submitted = False\<rparr>"
  show "ofopgroup_create sw c b = (sw_next_group sw, deleting (opened sw) (sw_next_group sw) ?gr reason [] 0)"
    by (cases sw) (simp add: ofopgroup_create_def ofopgroup_create_unattached_def deleting_def opened_def Let_def marked_none)
qed simp

lemma finish_deletes:
  assumes sw: "switch_ok sw" "sw_groups sw (sw_next_group sw) = None" and d: "deletable sw rs" and sub: "\<not> g_submitted gr"
    and t: "took_out (opened sw) qs D ms s'" and rs: "map fst ds = rs" and qs: "set qs = set rs" and D: "rule_of (sw_bridge sw) ` set rs \<subseteq> D"
  obtains sw' where "ofopgroup_submit w opt (deleting s' (sw_next_group sw) gr reason ds 0) (sw_next_group sw) None = Some sw'"
    "switch_ok sw'" "flows_freed opt reason rs D sw sw'" "sw_removed sw' = sw_removed sw @ ms"
proof -
  let ?br = "sw_bridge sw" and ?g = "sw_next_group sw"
  let ?hid = "hidden_rule ?br"
  have w: "within (opened sw) s'" and less: "bridge_less ?br D (sw_bridge s')"
    and out: "sw_expirable s' = filter (\<lambda>q. q \<notin> set rs) (sw_expirable sw)" "sw_removed s' = sw_removed sw @ ms"
    using t by (simp_all add: took_out_def opened_def qs)
  note b = bridge_lessD [OF less]
  have find: "sgx_rule_from_ut_cr ?br r = Some (rule_of ?br r)" if "r \<in> set rs" for r
    using d that by (auto simp: deletable_def in_table_def rule_of_def split: option.splits)
  have rel: "releasable opt (sw_bridge s') ?hid (map fst ds) None"
    using d find b(1,9) D unfolding rs by (auto simp: releasable_def b(2-4) hidden_rule_def b(10) deletable_def)
  have has: "\<forall>r \<in> fst ` set ds. sw_rules s' r \<noteq> None"
    using d rs withinD(1) [OF w] by (force simp: deletable_def)
  obtain h where h: "ofopgroup_submit w opt (deleting s' ?g gr reason ds 0) ?g None =
      Some ((released reason ?hid rs ((sw_bridge s')\<lparr>reg := h\<rparr>) s')\<lparr>sw_groups := (sw_groups s')(?g := None)\<rparr>)"
    "bridge_inv ((sw_bridge s')\<lparr>reg := h\<rparr>)"
    "if opt then h = reg (sw_bridge s') else set (hmap_elems h) = registered (sw_bridge s') - rule_of (sw_bridge s') ` fst ` set ds"
    by (rule submit_deletes [OF rel has sub, of w ?g reason, unfolded rs])
  let ?sw' = "(released reason ?hid rs ((sw_bridge s')\<lparr>reg := h\<rparr>) s')\<lparr>sw_groups := (sw_groups s')(?g := None)\<rparr>"
  have im: "fst ` set ds = set rs" using rs by (metis list.set_map)
  have reg: "set (hmap_elems h) = registered ?br - (if opt then {} else rule_of ?br ` set rs)"
    using h(3) by (simp add: b(4,7) im split: if_splits)
  have fields: "sw_groups ?sw' = sw_groups sw" using withinD(3) [OF w] sw(2) by (simp add: fun_upd_idem)
  have "flows_freed opt reason rs D sw ?sw'"
    unfolding flows_freed_def Let_def using fields withinD [OF w] out reg b(2,9,10)
    by (simp add: released_def) (simp add: opened_def)
  moreover have "switch_ok ?sw'"
    by (rule switch_ok_less [OF sw(1), of "(sw_bridge s')\<lparr>reg := h\<rparr>" _ D "set rs"])
      (use h(2) b withinD [OF w] D in \<open>simp_all add: released_def\<close>)
  moreover have "sw_removed ?sw' = sw_removed sw @ ms" using out(2) by (simp add: released_def)
  ultimately show thesis using h(1) by (intro that)
qed

lemma deletion_notice_same:
  assumes "sw_rules s = sw_rules sw"
  shows "deletion_notice s (r, deleted_as (sw_bridge sw) (t, r)) = removal_notice sw OFPRR_DELETE r"
  by (simp add: deletion_notice_def removal_notice_def assms deleted_as_def hidden_rule_def described_def Let_def split: option.split)

lemma opt_deletes:
  assumes sw: "bridge_inv (sw_bridge sw)" "\<not> sw_clogged sw" "\<not> g_submitted gr" and d: "deletable sw rs"
  obtains s' ds where "(do { items \<leftarrow> those (map (table_item (deleting (opened sw) g gr OFPRR_DELETE [] 0)) rs);
      (dfs, s) \<leftarrow> enclave_call (\<lambda>br. ecall_delete_flows br items) (deleting (opened sw) g gr OFPRR_DELETE [] 0);
      delete_opt w s g (zip rs dfs) }) = Some (deleting s' g gr OFPRR_DELETE ds 0)"
    "took_out (opened sw) rs (rule_of (sw_bridge sw) ` set rs) (concat (map (removal_notice sw OFPRR_DELETE) rs)) s'" "map fst ds = rs"
proof -
  let ?br = "sw_bridge sw" and ?t = "\<lambda>r. unat (r_table_id (the (sw_rules sw r)))"
  obtain items where i: "those (map (table_item sw) rs) = Some items" "listed ?br items" "map snd items = rs"
    "zip rs (map (deleted_as ?br) items) = map (\<lambda>r. (r, deleted_as ?br (?t r, r))) rs"
    by (rule deletable_items [OF d])
  have ti: "table_item (deleting (opened sw) g gr OFPRR_DELETE [] 0) = table_item sw" by (simp add: table_item_def fun_eq_iff)
  obtain br1 where b1: "ecall_delete_flows ?br items = Some (map (deleted_as ?br) items, br1)" "bridge_less ?br (rule_of ?br ` snd ` set items) br1"
    by (rule bridge_less_delete [OF sw(1) i(2)])
  have im: "snd ` set items = set rs" using i(3) by (metis list.set_map)
  let ?s1 = "(opened sw)\<lparr>sw_bridge := br1\<rparr>" and ?l = "map (\<lambda>r. (r, deleted_as ?br (?t r, r))) rs"
  have t1: "took_out (opened sw) [] (rule_of ?br ` set rs) [] ?s1"
    using b1(2) by (cases sw) (simp add: took_out_def within_def im opened_def)
  have fst_l: "map fst ?l = rs" "fst ` set ?l = set rs" by (simp_all add: comp_def image_image)
  have dis: "distinct rs" using d distinct_map by (auto simp: deletable_def)
  have rules: "\<forall>r \<in> fst ` set ?l. \<exists>x. sw_rules ?s1 r = Some x \<and> r_pending x = None \<and> unat (r_table_id x) < length (oftables (sw_bridge ?s1))"
    unfolding fst_l using d bridge_lessD(2) [OF b1(2)] by (auto simp: deletable_def in_table_def)
  have "\<exists>s'. delete_opt w (deleting ?s1 g gr OFPRR_DELETE [] 0) g ?l = Some (deleting s' g gr OFPRR_DELETE ([] @ map (\<lambda>(r, d). (r, df_hash d)) ?l) 0)
      \<and> took_out ?s1 (map fst ?l) {} (concat (map (deletion_notice ?s1) ?l)) s'"
    by (rule delete_opt_ok [OF _ _ sw(3) _ _ rules])
      (use bridge_lessD(1) [OF b1(2)] sw(2) dis in \<open>simp_all add: fst_l del: map_map\<close>)
  then obtain s' where s': "delete_opt w (deleting ?s1 g gr OFPRR_DELETE [] 0) g ?l = Some (deleting s' g gr OFPRR_DELETE (map (\<lambda>(r, d). (r, df_hash d)) ?l) 0)"
    "took_out ?s1 rs {} (concat (map (deletion_notice ?s1) ?l)) s'" unfolding fst_l append_Nil by blast
  have notices: "map (deletion_notice ?s1) ?l = map (removal_notice sw OFPRR_DELETE) rs" by (simp add: deletion_notice_same)
  have t: "took_out (opened sw) rs (rule_of ?br ` set rs) (concat (map (removal_notice sw OFPRR_DELETE) rs)) s'"
    using took_out_trans [OF t1 s'(2)] unfolding notices by simp
  have "map fst (map (\<lambda>(r, d). (r, df_hash d)) ?l) = rs" by (simp add: comp_def)
  moreover have "(do { items \<leftarrow> those (map (table_item (deleting (opened sw) g gr OFPRR_DELETE [] 0)) rs);
      (dfs, s) \<leftarrow> enclave_call (\<lambda>br. ecall_delete_flows br items) (deleting (opened sw) g gr OFPRR_DELETE [] 0);
      delete_opt w s g (zip rs dfs) }) = Some (deleting s' g gr OFPRR_DELETE (map (\<lambda>(r, d). (r, df_hash d)) ?l) 0)"
    using s'(1) i(4) by (simp add: ti i(1) enclave_call_def b1(1) deleting_inside del: map_map)
  ultimately show thesis using t by (intro that)
qed

lemma delete_flows_up_ok:
  assumes sw: "switch_ok sw" "sw_groups sw (sw_next_group sw) = None" "\<not> sw_clogged sw" and d: "deletable sw rs"
  obtains sw' where "delete_flows_up w opt sw c rs = Some sw'" "switch_ok sw'" "flows_deleted opt OFPRR_DELETE rs sw sw'"
    "sw_removed sw' = sw_removed sw @ concat (map (removal_notice sw OFPRR_DELETE) rs)"
proof -
  let ?g = "sw_next_group sw" and ?R = "rule_of (sw_bridge sw) ` set rs" and ?ms = "concat (map (removal_notice sw OFPRR_DELETE) rs)"
  have inv: "bridge_inv (sw_bridge sw)" using switch_okD(1) [OF sw(1)] .
  obtain gr where gr: "ofopgroup_create sw c 0xffffffff = (?g, deleting (opened sw) ?g gr OFPRR_DELETE [] 0)" "\<not> g_submitted gr"
    by (rule create_group)
  obtain s' ds where s': "delete_flows_up w opt sw c rs = ofopgroup_submit w opt (deleting s' ?g gr OFPRR_DELETE ds 0) ?g None"
    "took_out (opened sw) rs ?R ?ms s'" "map fst ds = rs"
  proof (cases opt)
    case True
    obtain s' ds where o: "(do { items \<leftarrow> those (map (table_item (deleting (opened sw) ?g gr OFPRR_DELETE [] 0)) rs);
      (dfs, s) \<leftarrow> enclave_call (\<lambda>br. ecall_delete_flows br items) (deleting (opened sw) ?g gr OFPRR_DELETE [] 0);
      delete_opt w s ?g (zip rs dfs) }) = Some (deleting s' ?g gr OFPRR_DELETE ds 0)"
      "took_out (opened sw) rs ?R ?ms s'" "map fst ds = rs"
      by (rule opt_deletes [OF inv sw(3) gr(2) d])
    show thesis using o(1) by (rule_tac that [OF _ o(2,3)]) (simp only: delete_flows_up_def gr(1) Let_def prod.case True if_True o(1) Option.bind.simps)
  next
    case False
    obtain s' hs where p: "delete_plain w (deleting (opened sw) ?g gr OFPRR_DELETE [] 0) ?g rs = Some (deleting s' ?g gr OFPRR_DELETE (zip rs hs) 0)"
      "length hs = length rs" "took_out (opened sw) rs ?R ?ms s'"
      using delete_plain_ok [of "opened sw" gr rs "[]" w ?g] inv sw(3) gr(2) d by auto
    show thesis using p(1) by (rule_tac that [OF _ p(3), of "zip rs hs"]) (simp_all add: delete_flows_up_def gr(1) False p(2))
  qed
  obtain sw' where "ofopgroup_submit w opt (deleting s' ?g gr OFPRR_DELETE ds 0) ?g None = Some sw'"
    "switch_ok sw'" "flows_deleted opt OFPRR_DELETE rs sw sw'" "sw_removed sw' = sw_removed sw @ ?ms"
    by (rule finish_deletes [OF sw(1,2) d gr(2) s'(2,3) refl subset_refl, folded flows_deleted_def])
  then show thesis using s'(1) by (intro that) simp_all
qed

end
