(* ===== verification/Switch_Spec.thy ===== *)
theory Switch_Spec
  imports Switch_Delete
begin

text \<open>
  What a flow modification does from the request to the tables of the enclave and the memory of the switch.
\<close>

section \<open>Rules that a request selects\<close>

lemma deletable_in_tables:
  assumes "switch_ok sw" and "distinct as" and "\<And>a. a \<in> set as \<Longrightarrow> \<not> busy_rule sw a"
    and "\<And>a. a \<in> set as \<Longrightarrow> \<exists>t < length (oftables (sw_bridge sw)). \<exists>r \<in> rules_at (sw_bridge sw) t. a = o_cls_rule (rstore (sw_bridge sw) r)"
  shows "deletable sw as"
proof -
  let ?br = "sw_bridge sw"
  have find: "\<exists>t r. t < length (oftables ?br) \<and> r \<in> rules_at ?br t \<and> a = o_cls_rule (rstore ?br r) \<and> sgx_rule_from_ut_cr ?br a = Some r"
    if a: "a \<in> set as" for a
    using assms(4) [OF a] switch_okD(2) [OF assms(1)] by (metis core_registered core_inv_def find_registered)
  have "inj_on ut_hash (set as)"
  proof (rule inj_onI)
    fix a b assume a: "a \<in> set as" and b: "b \<in> set as" and h: "ut_hash a = ut_hash b"
    obtain r where r: "a = o_cls_rule (rstore ?br r)" "sgx_rule_from_ut_cr ?br a = Some r" using find [OF a] by blast
    obtain q where q: "b = o_cls_rule (rstore ?br q)" "sgx_rule_from_ut_cr ?br b = Some q" using find [OF b] by blast
    have "r = q" using r(2) q(2) h by (simp add: find_rule_abs)
    then show "a = b" using r(1) q(1) by simp
  qed
  then have "distinct (map ut_hash as)" using assms(2) by (simp add: distinct_map)
  moreover have "\<exists>x. sw_rules sw a = Some x \<and> r_pending x = None \<and> in_table ?br (unat (r_table_id x)) a" if a: "a \<in> set as" for a
  proof -
    obtain t r where t: "t < length (oftables ?br)" "r \<in> rules_at ?br t" "a = o_cls_rule (rstore ?br r)" "sgx_rule_from_ut_cr ?br a = Some r"
      using find [OF a] by blast
    then obtain x where "sw_rules sw a = Some x" "unat (r_table_id x) = t" using assms(1) unfolding switch_ok_def by blast
    then show ?thesis using t assms(3) [OF a] by (intro exI [of _ x]) (simp add: busy_rule_def op_of_def in_table_def)
  qed
  ultimately show ?thesis by (simp add: deletable_def)
qed

lemma deletable_matched:
  assumes "switch_ok sw" and "\<forall>a \<in> set (loosely_matched (sw_bridge sw) table_id m). \<not> busy_rule sw a"
  shows "deletable sw (filter P (loosely_matched (sw_bridge sw) table_id m))"
proof (rule deletable_in_tables [OF assms(1)])
  let ?br = "sw_bridge sw" and ?as = "loosely_matched (sw_bridge sw) table_id m"
  note core = switch_okD(2) [OF assms(1)]
  have "distinct ?as"
    unfolding loosely_matched_def using distinct_matching_tables in_matching_tables by (intro distinct_ut_rules [OF core]) auto
  then show "distinct (filter P ?as)" by simp
  fix a assume a: "a \<in> set (filter P ?as)"
  then show "\<not> busy_rule sw a" using assms(2) by simp
  have m: "a \<in> set ?as" using a by simp
  show "\<exists>t < length (oftables ?br). \<exists>r \<in> rules_at ?br t. a = o_cls_rule (rstore ?br r)"
    by (rule matched_in_table [OF core m [unfolded loosely_matched_def]]) blast
qed

text \<open>The rules that a request for deletion selects.\<close>

definition selected_rules :: "world \<Rightarrow> switch \<Rightarrow> flow_mod \<Rightarrow> ut_ptr list" where
  "selected_rules w sw fm = filter (\<lambda>a. \<not> hidden_rule (sw_bridge sw) a \<and> wanted w sw (fm_cookie fm) (fm_cookie_mask fm) (fm_out_port fm) a)
     (loosely_matched (sw_bridge sw) (fm_table_id fm) (fm_match fm))"

lemma flows_deleted_none: "flows_deleted opt reason [] sw sw"
  by (simp add: flows_deleted_def flows_freed_def restrict_map_def Let_def)


definition ex_delete :: flow_mod where
  "ex_delete = \<lparr>fm_table_id = 0, fm_match = ex_match, fm_priority = 0, fm_cookie = 0, fm_cookie_mask = 0, fm_new_cookie = 0, fm_idle_timeout = 0,
     fm_hard_timeout = 0, fm_buffer_id = 0xffffffff, fm_out_port = OFPP_ANY, fm_flags = 0, fm_ofpacts = []\<rparr>"


end
