(* ===== verification/Switch_Flush.thy ===== *)
theory Switch_Flush
  imports Switch_Spec
begin

text \<open>
  Flushing a switch and expiring a rule, for both builds.
\<close>

section \<open>The enclave call\<close>

lemma flush_frame_less:
  assumes inv: "core_inv br" and br': "bridge_inv br'" "flush_frame t br br'" "rules_at br' t = rules_at br t - D" and D: "D \<subseteq> rules_at br t" and t: "t < length (oftables br)"
  shows "bridge_less br D br'"
proof -
  have "rules_at br' u = rules_at br u - D" if "u < length (oftables br)" for u
  proof (cases "u = t")
    case False
    then have "rules_at br u \<inter> D = {}" using D core_unique [OF inv that t] by blast
    moreover have "rules_at br' u = rules_at br u" using br'(2) that False by (simp add: flush_frame_def)
    ultimately show ?thesis by blast
  qed (use br'(3) in simp)
  then show ?thesis using br'(1,2) by (simp add: bridge_less_def flush_frame_def same_rule_def)
qed

lemma flush_tables_less:
  assumes "bridge_inv br" and "distinct ts" and "\<forall>t \<in> set ts. t < length (oftables br) \<and> t < 256"
  shows "\<exists>br'. flush_tables buf ts cnt acc br = Some (cnt + int (length (to_flush br ts)), acc @ take (buf - length acc) (to_flush br ts), br')
    \<and> bridge_less br (rule_of br ` fst ` set (take (buf - length acc) (to_flush br ts))) br'
    \<and> (\<forall>u < length (oftables br). visible br' u = visible br u)"
  using assms
proof (induction ts arbitrary: br cnt acc)
  case Nil
  then show ?case by (simp add: to_flush_def bridge_less_refl)
next
  case (Cons t ts)
  have t: "t < length (oftables br)" "t < 256" and core: "core_inv br" using Cons.prems by (simp_all add: bridge_inv_but_def)
  have gt: "get_table br t = Some (oftables br ! t)" using t(1) by (simp add: get_table_def)
  show ?case
  proof (cases "visible br t")
    case False
    then have "flush_tables buf (t # ts) cnt acc br = flush_tables buf ts cnt acc br" "to_flush br (t # ts) = to_flush br ts"
      by (simp_all add: gt visible_def to_flush_def)
    then show ?thesis using Cons.IH [OF Cons.prems(1), of cnt acc] Cons.prems(2,3) by auto
  next
    case True
    let ?rs = "ut_rules_at br t" and ?k = "buf - length acc"
    let ?f = "map (flushed_as br t) ?rs"
    obtain b where b: "flush_loop buf t ?rs cnt acc br = Some (cnt + int (length ?rs), acc @ map (flushed_as br t) (take ?k ?rs), b)"
      "bridge_inv b" "flush_frame t br b" "rules_at b t = rules_at br t - rule_of br ` set (take ?k ?rs)"
      using flush_loop_ok [OF Cons.prems(1) listed_at [OF core t(1)] t(2), of buf cnt acc] by (elim exE conjE) (rule that)
    let ?acc = "acc @ map (flushed_as br t) (take ?k ?rs)"
    have D: "rule_of br ` set (take ?k ?rs) \<subseteq> rules_at br t"
      using rule_of_at [OF core t(1)] set_take_subset [of ?k ?rs] by blast
    have less: "bridge_less br (rule_of br ` set (take ?k ?rs)) b" by (rule flush_frame_less [OF core b(2-4) D t(1)])
    note bl = bridge_lessD [OF less]
    have p: "distinct ts" "\<forall>t \<in> set ts. t < length (oftables b) \<and> t < 256" "t \<notin> set ts" using Cons.prems bl(2) by auto
    have tf: "to_flush b ts = to_flush br ts" using Cons.prems(3) by (intro to_flush_cong [OF b(3) p(3)]) simp
    have tc: "to_flush br (t # ts) = ?f @ to_flush br ts" using True by (simp add: to_flush_def)
    obtain br' where br':
      "flush_tables buf ts (cnt + int (length ?rs)) ?acc b = Some (cnt + int (length ?rs) + int (length (to_flush b ts)),
         ?acc @ take (buf - length ?acc) (to_flush b ts), br')"
      "bridge_less b (rule_of b ` fst ` set (take (buf - length ?acc) (to_flush b ts))) br'" "\<forall>u < length (oftables b). visible br' u = visible b u"
      using Cons.IH [OF b(2) p(1,2), of "cnt + int (length ?rs)" ?acc] by (elim exE conjE) (rule that)
    have vis: "visible b u = visible br u" if "u < length (oftables br)" for u using b(3) that by (simp add: flush_frame_def visible_def)
    have e: "flush_tables buf (t # ts) cnt acc br = flush_tables buf ts (cnt + int (length ?rs)) ?acc b"
      using gt True b(1) table_ut_rules_ok [OF core t(1)] by (simp add: visible_def)
    have tk: "take ?k (to_flush br (t # ts)) = map (flushed_as br t) (take ?k ?rs) @ take (buf - length ?acc) (to_flush b ts)"
      unfolding tc tf by (simp add: take_map min_def)
    have "rule_of br ` fst ` set (take ?k (to_flush br (t # ts))) =
        rule_of br ` set (take ?k ?rs) \<union> rule_of b ` fst ` set (take (buf - length ?acc) (to_flush b ts))"
      unfolding tk by (simp add: image_Un image_image flushed_as_def bl(4))
    then have "bridge_less br (rule_of br ` fst ` set (take ?k (to_flush br (t # ts)))) br'"
      using bridge_less_trans [OF less br'(2)] by simp
    then show ?thesis using br'(1,3) vis bl(2) unfolding e tk by (intro exI [of _ br']) (simp add: tf tc)
  qed
qed

text \<open>The rules of the tables that are not hidden.\<close>

definition flushable :: "bridge \<Rightarrow> ut_ptr list" where
  "flushable br = map fst (to_flush br [0..<length (oftables br)])"

lemma flush_call:
  assumes "bridge_inv br" and "0 \<le> n_tables br" "n_tables br \<le> 255"
  obtains fs br' where "ecall_ofproto_flush br buf = Some (fs, int (length (flushable br)), br')" "map fst fs = take buf (flushable br)"
    "bridge_less br (rule_of br ` set (take buf (flushable br))) br'" "\<And>u. u < length (oftables br) \<Longrightarrow> visible br' u = visible br u"
proof -
  have len: "nat (n_tables br) = length (oftables br)" using assms(1) by (simp add: bridge_inv_but_def core_inv_def)
  have sz: "size_of_int (n_tables br) = length (oftables br)" using assms(2,3) len by (simp add: size_of_int_def)
  have l: "length (oftables br) \<le> 256" using assms(3) len by linarith
  let ?F = "to_flush br [0..<length (oftables br)]"
  have im: "fst ` set (take buf ?F) = set (take buf (flushable br))" by (simp add: flushable_def take_map)
  obtain br' where "flush_tables buf [0..<length (oftables br)] 0 [] br = Some (int (length ?F), take buf ?F, br')"
    "bridge_less br (rule_of br ` set (take buf (flushable br))) br'" "\<forall>u < length (oftables br). visible br' u = visible br u"
    using flush_tables_less [OF assms(1), of "[0..<length (oftables br)]" buf 0 "[]"] l unfolding im [symmetric] by auto
  then show thesis by (intro that [of "take buf ?F" br']) (simp_all add: ecall_ofproto_flush_def sz flushable_def take_map)
qed

lemma flushable_eq: "flushable br = ut_rules br (selected br (\<lambda>_. True) (filter (visible br) [0..<length (oftables br)]))"
  by (simp add: flushable_def to_flush_def selected_def ut_rules_def map_concat comp_def flushed_as_def ut_rules_at_def)

lemma flush_rules_ok:
  assumes "core_inv br"
  shows "flush_rules br = Some (flushable br)"
proof -
  have len: "nat (n_tables br) = length (oftables br)" using assms by (simp add: core_inv_def)
  have "flushed_tables br = Some (filter (visible br) [0..<length (oftables br)])"
    by (simp add: flushed_tables_def len visible_def [abs_def])
  then show ?thesis using tables_rules_ok [OF assms, of "filter (visible br) [0..<length (oftables br)]" None]
    by (simp add: flush_rules_def flushable_eq loosely_def)
qed

lemma in_flushable:
  "a \<in> set (flushable br) \<longleftrightarrow> (\<exists>t < length (oftables br). visible br t \<and> (\<exists>r \<in> rules_at br t. a = o_cls_rule (rstore br r)))"
  unfolding flushable_eq ut_rules_def set_map image_iff Bex_def in_selected by auto

lemma distinct_flushable: "core_inv br \<Longrightarrow> distinct (flushable br)"
  unfolding flushable_eq by (intro distinct_ut_rules) auto

lemma deletable_flushable:
  assumes "switch_ok sw" and "\<And>a. a \<in> set (flushable (sw_bridge sw)) \<Longrightarrow> \<not> busy_rule sw a"
  shows "deletable sw (flushable (sw_bridge sw))"
proof (rule deletable_in_tables [OF assms(1)])
  show "distinct (flushable (sw_bridge sw))" by (rule distinct_flushable [OF switch_okD(2) [OF assms(1)]])
qed (use assms(2) in \<open>auto simp: in_flushable\<close>)

text \<open>What the first call of a flush leaves for the second.\<close>

lemma flushable_rest:
  assumes "core_inv br" and "bridge_less br (rule_of br ` set (take n (flushable br))) br'"
    and "\<And>u. u < length (oftables br) \<Longrightarrow> visible br' u = visible br u"
  shows "set (flushable br') = set (drop n (flushable br))" "length (flushable br') = length (flushable br) - n"
proof -
  note b = bridge_lessD [OF assms(2)]
  let ?F = "flushable br"
  have d: "distinct ?F" by (rule distinct_flushable [OF assms(1)])
  have rest: "set (drop n ?F) = set ?F - set (take n ?F)"
    using d set_take_disj_set_drop_if_distinct [of ?F n n] by (metis Diff_cancel Un_Diff Un_empty_left append_take_drop_id Diff_triv inf_commute order_refl set_append)
  have find: "rule_of br (o_cls_rule (rstore br r)) = r" if "t < length (oftables br)" "r \<in> rules_at br t" for t r
    using assms(1) core_registered [OF assms(1) that] by (simp add: rule_of_def find_registered core_inv_def)
  have "a \<in> set (flushable br') \<longleftrightarrow> a \<in> set ?F \<and> a \<notin> set (take n ?F)" for a
  proof -
    have "r \<in> rule_of br ` set (take n ?F) \<longleftrightarrow> o_cls_rule (rstore br r) \<in> set (take n ?F)" if r: "t < length (oftables br)" "r \<in> rules_at br t" for t r
    proof
      assume "r \<in> rule_of br ` set (take n ?F)"
      then obtain q where q: "q \<in> set (take n ?F)" "r = rule_of br q" by blast
      then have "q \<in> set ?F" using in_set_takeD by fast
      then obtain u p where "u < length (oftables br)" "p \<in> rules_at br u" "q = o_cls_rule (rstore br p)" by (auto simp: in_flushable)
      then show "o_cls_rule (rstore br r) \<in> set (take n ?F)" using q find by auto
    qed (metis find [OF r] imageI)
    then have "r \<in> rules_at br' t \<longleftrightarrow> r \<in> rules_at br t \<and> o_cls_rule (rstore br r) \<notin> set (take n ?F)" if "t < length (oftables br)" for t r
      using b(9) [OF that] that by blast
    then show ?thesis unfolding in_flushable b(2,8) using assms(3) by blast
  qed
  then show s: "set (flushable br') = set (drop n ?F)" unfolding rest by blast
  have "distinct (flushable br')" using b(1) by (intro distinct_flushable) (simp add: bridge_inv_but_def)
  then have "length (flushable br') = card (set (drop n ?F))" using s distinct_card by metis
  also have "\<dots> = length ?F - n" using d by (simp add: distinct_card)
  finally show "length (flushable br') = length ?F - n" .
qed

section \<open>The operations of a flush\<close>

lemma deletable_subset:
  assumes "deletable sw qs" and "distinct rs" and "set rs \<subseteq> set qs"
  shows "deletable sw rs"
proof -
  have "inj_on ut_hash (set qs)" using assms(1) by (simp add: deletable_def distinct_map)
  then have "distinct (map ut_hash rs)" using assms(2,3) by (simp add: distinct_map inj_on_subset)
  then show ?thesis using assms(1,3) by (auto simp: deletable_def)
qed

lemma flush_ops_plain:
  assumes "bridge_inv (sw_bridge s)" and "\<not> sw_clogged s" and "\<not> g_submitted gr" and "deletable s rs" and "set rs \<inter> fst ` set ds = {}"
  shows "\<exists>s' hs. flush_ops w False (deleting s g gr OFPRR_DELETE ds 0) g None rs = Some (deleting s' g gr OFPRR_DELETE (ds @ zip rs hs) 0)
    \<and> length hs = length rs \<and> took_out s rs (rule_of (sw_bridge s) ` set rs) [] s'"
  using assms
proof (induction rs arbitrary: s ds)
  case Nil
  then show ?case using took_out_refl by (intro exI [of _ s] exI [of _ "[]"]) simp
next
  case (Cons r rs)
  obtain x where x: "sw_rules s r = Some x" "r_pending x = None" "in_table (sw_bridge s) (unat (r_table_id x)) r"
    using Cons.prems(4) by (auto simp: deletable_def)
  have new: "r \<notin> fst ` set ds" using Cons.prems(5) by auto
  obtain h s1 where s1: "(do { sw \<leftarrow> ofoperation_create (deleting s g gr OFPRR_DELETE ds 0) g r OFOPERATION_DELETE OFPRR_DELETE None;
      sw \<leftarrow> oftable_remove_rule sw r; rule_destruct w False sw r }) = Some (deleting s1 g gr OFPRR_DELETE (ds @ [(r, h)]) 0)"
    "took_out s [r] {rule_of (sw_bridge s) r} [] s1"
    by (rule take_out_step [OF Cons.prems(1-3) x new])
  then have w1: "within s s1" "bridge_less (sw_bridge s) {rule_of (sw_bridge s) r} (sw_bridge s1)" by (simp_all add: took_out_def)
  have ri: "reg_inv (sw_bridge s)" using Cons.prems(1) by (simp add: bridge_inv_but_def core_inv_def)
  note tl = deletable_tail [OF Cons.prems(4) w1 ri]
  have "\<exists>s' hs. flush_ops w False (deleting s1 g gr OFPRR_DELETE (ds @ [(r, h)]) 0) g None rs =
      Some (deleting s' g gr OFPRR_DELETE ((ds @ [(r, h)]) @ zip rs hs) 0) \<and> length hs = length rs
    \<and> took_out s1 rs (rule_of (sw_bridge s1) ` set rs) [] s'"
    using Cons.prems(2,3,5) tl(1,2) withinD(2) [OF w1(1)] bridge_lessD(1) [OF w1(2)] by (intro Cons.IH) auto
  then obtain s' hs where IH: "flush_ops w False (deleting s1 g gr OFPRR_DELETE (ds @ [(r, h)]) 0) g None rs =
      Some (deleting s' g gr OFPRR_DELETE ((ds @ [(r, h)]) @ zip rs hs) 0)" "length hs = length rs"
    "took_out s1 rs (rule_of (sw_bridge s1) ` set rs) [] s'" by blast
  have "took_out s (r # rs) (rule_of (sw_bridge s) ` set (r # rs)) [] s'" using took_out_trans [OF s1(2) IH(3)] tl(3) by simp
  moreover have "flush_ops w False (deleting s g gr OFPRR_DELETE ds 0) g None (r # rs) =
      (do { sw \<leftarrow> do { sw \<leftarrow> ofoperation_create (deleting s g gr OFPRR_DELETE ds 0) g r OFOPERATION_DELETE OFPRR_DELETE None;
        sw \<leftarrow> oftable_remove_rule sw r; rule_destruct w False sw r }; flush_ops w False sw g None rs })" by simp
  ultimately show ?case unfolding s1(1) using IH(1,2) by (intro exI [of _ s'] exI [of _ "h # hs"]) simp
qed

lemma flush_ops_opt:
  assumes "bridge_inv (sw_bridge s)" and "\<not> sw_clogged s" and "\<not> g_submitted gr" and "distinct rs" and "set rs \<inter> fst ` set ds = {}"
    and "\<forall>r \<in> set rs. \<exists>x. sw_rules s r = Some x \<and> r_pending x = None \<and> unat (r_table_id x) < length (oftables (sw_bridge s))"
  shows "\<exists>s'. flush_ops w True (deleting s g gr OFPRR_DELETE ds 0) g (Some h) rs =
      Some (deleting s' g gr OFPRR_DELETE (ds @ map (\<lambda>r. (r, h)) rs) 0) \<and> took_out s rs {} [] s'"
  using assms
proof (induction rs arbitrary: s ds)
  case Nil
  then show ?case using took_out_refl by (intro exI [of _ s]) simp
next
  case (Cons r rs)
  obtain x where x: "sw_rules s r = Some x" "r_pending x = None" "unat (r_table_id x) < length (oftables (sw_bridge s))"
    using Cons.prems(6) by auto
  have new: "r \<notin> fst ` set ds" using Cons.prems(5) by auto
  let ?s = "not_expirable r s" and ?ds = "ds @ [(r, h)]"
  have c: "ofoperation_create (deleting s g gr OFPRR_DELETE ds 0) g r OFOPERATION_DELETE OFPRR_DELETE (Some h) = Some (deleting s g gr OFPRR_DELETE ?ds (Suc 0))"
    by (rule create_delete [where x = x]) (use x new in simp_all)
  obtain s1 where s1: "rule_destruct w True (deleting ?s g gr OFPRR_DELETE ?ds (Suc 0)) r = Some (deleting s1 g gr OFPRR_DELETE ?ds 0)"
    "took_out ?s [] {} [] s1"
    by (rule rule_destruct_deleting [of ?s gr r ?ds x w True g OFPRR_DELETE 0]) (use Cons.prems(1-3) x in \<open>simp_all add: not_expirable_def\<close>)
  have "took_out s [r] {} [] ?s"
    using bridge_less_refl [OF Cons.prems(1)] by (cases s) (simp add: took_out_def within_def not_expirable_def)
  from took_out_trans [OF this s1(2)] have t: "took_out s [r] {} [] s1" by simp
  then have w1: "within s s1" "bridge_less (sw_bridge s) {} (sw_bridge s1)" by (simp_all add: took_out_def)
  have "\<exists>s'. flush_ops w True (deleting s1 g gr OFPRR_DELETE ?ds 0) g (Some h) rs =
      Some (deleting s' g gr OFPRR_DELETE (?ds @ map (\<lambda>r. (r, h)) rs) 0) \<and> took_out s1 rs {} [] s'"
    using Cons.prems(2-6) withinD(1,2) [OF w1(1)] bridge_lessD(1,2) [OF w1(2)] by (intro Cons.IH) auto
  then obtain s' where IH: "flush_ops w True (deleting s1 g gr OFPRR_DELETE ?ds 0) g (Some h) rs =
      Some (deleting s' g gr OFPRR_DELETE (?ds @ map (\<lambda>r. (r, h)) rs) 0)" "took_out s1 rs {} [] s'" by blast
  have "took_out s (r # rs) {} [] s'" using took_out_trans [OF t IH(2)] by simp
  then show ?case using IH(1) s1(1) c by (intro exI [of _ s']) (simp add: deleting_inside)
qed

section \<open>Flushing\<close>

lemma unattached: "ofopgroup_create_unattached sw = ofopgroup_create sw None 0"
  by (simp add: ofopgroup_create_def split: prod.split)

lemma flush_collect_ok:
  assumes "bridge_inv (sw_bridge S)" and "0 \<le> n_tables (sw_bridge S)" "n_tables (sw_bridge S) \<le> 255"
  obtains fs gs cnt br' where "flush_collect S = Some ((fs, cnt), S\<lparr>sw_bridge := br'\<rparr>)" "filled (nat cnt) fs = Some gs" "fs = [] \<Longrightarrow> gs = []"
    "bridge_less (sw_bridge S) (rule_of (sw_bridge S) ` set (flushable (sw_bridge S))) br'"
    "distinct (map fst gs)" "fst ` set gs \<subseteq> set (flushable (sw_bridge S))"
    "if length (flushable (sw_bridge S)) \<le> 32 then map fst gs = flushable (sw_bridge S) else length gs = length (flushable (sw_bridge S)) - 32"
proof -
  let ?br = "sw_bridge S" and ?F = "flushable (sw_bridge S)"
  have core: "core_inv ?br" using assms(1) by (simp add: bridge_inv_but_def)
  have d: "distinct ?F" by (rule distinct_flushable [OF core])
  obtain fs br1 where f: "ecall_ofproto_flush ?br 32 = Some (fs, int (length ?F), br1)" "map fst fs = take 32 ?F"
    "bridge_less ?br (rule_of ?br ` set (take 32 ?F)) br1" "\<And>u. u < length (oftables ?br) \<Longrightarrow> visible br1 u = visible ?br u"
    by (rule flush_call [OF assms, of 32]) (rule that)
  have lf: "length fs = min (length ?F) 32" using arg_cong [OF f(2), of length] by simp
  show thesis
  proof (cases "length ?F \<le> 32")
    case True
    have "flush_collect S = Some ((fs, int (length ?F)), S\<lparr>sw_bridge := br1\<rparr>)" using True lf by (simp add: flush_collect_def enclave_call_def f(1))
    moreover have "filled (nat (int (length ?F))) fs = Some fs" using True lf by (simp add: filled_def)
    moreover have "map fst fs = ?F" using f(2) True by simp
    ultimately show thesis using f(3) d True by (intro that [of fs "int (length ?F)" br1 fs]) (simp_all flip: set_map)
  next
    case False
    note b1 = bridge_lessD [OF f(3)]
    note rest = flushable_rest [OF core f(3,4)]
    obtain fs2 br2 where f2: "ecall_ofproto_flush br1 (length ?F - 32) = Some (fs2, int (length (flushable br1)), br2)"
      "map fst fs2 = take (length ?F - 32) (flushable br1)" "bridge_less br1 (rule_of br1 ` set (take (length ?F - 32) (flushable br1))) br2"
      using flush_call [of br1 "length ?F - 32"] b1(1,6) assms(2,3) by metis
    let ?fs = "fs @ fs2" and ?gs = "take (length ?F - 32) (fs @ fs2)"
    have m2: "map fst fs2 = flushable br1" using f2(2) rest(2) by simp
    have l2: "length fs2 = length ?F - 32" using arg_cong [OF m2, of length] rest(2) by simp
    have c: "flush_collect S = Some ((?fs, int (length ?F - 32)), S\<lparr>sw_bridge := br2\<rparr>)"
      using False lf f2(1) rest(2) by (simp add: flush_collect_def enclave_call_def f(1) nat_diff_distrib)
    have all: "distinct (map fst ?fs)" "fst ` set ?fs = set ?F"
    proof -
      have "set (take 32 ?F) \<inter> set (drop 32 ?F) = {}" using d by (simp add: set_take_disj_set_drop_if_distinct)
      moreover have "distinct (flushable br1)" using b1(1) by (intro distinct_flushable) (simp add: bridge_inv_but_def)
      ultimately show "distinct (map fst ?fs)" using d by (simp add: f(2) m2 rest(1))
      have "fst ` set ?fs = set (take 32 ?F) \<union> set (drop 32 ?F)" by (metis f(2) m2 rest(1) map_append set_append set_map)
      then show "fst ` set ?fs = set ?F" by (metis append_take_drop_id set_append)
    qed
    have "rule_of ?br ` set (take 32 ?F) \<union> rule_of br1 ` set (take (length ?F - 32) (flushable br1)) = rule_of ?br ` set ?F"
      using rest by (simp add: b1(4) flip: image_Un) (metis append_take_drop_id set_append)
    then have less: "bridge_less ?br (rule_of ?br ` set ?F) br2" using bridge_less_trans [OF f(3) f2(3)] by simp
    have dg: "distinct (map fst ?gs)" using distinct_take [OF all(1), of "length ?F - 32"] unfolding take_map .
    have sg: "fst ` set ?gs \<subseteq> set ?F" using all(2) set_take_subset [of "length ?F - 32" ?fs] by blast
    have "filled (nat (int (length ?F - 32))) ?fs = Some ?gs" unfolding nat_int filled_def using lf l2 by simp
    then show thesis by (rule that [OF c _ _ less dg sg]) (use False lf l2 in auto)
  qed
qed


lemma ex_switch_flushable: "set (flushable (sw_bridge ex_switch)) \<subseteq> {0x1000}" "length (flushable (sw_bridge ex_switch)) \<le> 1"
proof -
  have "a = 0x1000" if a: "a \<in> set (flushable ex_added)" for a
  proof -
    obtain t r where "t < length (oftables ex_added)" "r \<in> rules_at ex_added t" "a = o_cls_rule (rstore ex_added r)"
      using a unfolding in_flushable by blast
    then show ?thesis using ex_added_rule(2) by blast
  qed
  then show s: "set (flushable (sw_bridge ex_switch)) \<subseteq> {0x1000}" by (auto simp: ex_switch_def)
  have "distinct (flushable ex_added)" using ex_added_ok(1) by (intro distinct_flushable) (simp add: bridge_inv_but_def)
  then have "length (flushable ex_added) \<le> card {0x1000 :: ut_ptr}"
    using s by (metis card_mono distinct_card finite.emptyI finite_insert ex_switch_def switch.select_convs(4))
  then show "length (flushable (sw_bridge ex_switch)) \<le> 1" by (simp add: ex_switch_def)
qed


section \<open>Expiring a rule\<close>

text \<open>C19: A rule whose timeout has passed, in both builds: the controllers are told when the rule asked for it, the rule leaves its table and its
  memory is freed; with \<open>OPTIMIZED\<close> its registration stays in the enclave. Any other reason fails the assertion.\<close>

theorem ofproto_rule_expire_correct:
  assumes "switch_ok sw" and "sw_groups sw (sw_next_group sw) = None" and "\<not> sw_clogged sw" and "sw_rules sw r = Some x" and "r_pending x = None"
    and "in_table (sw_bridge sw) (unat (r_table_id x)) r"
  shows "if reason = OFPRR_HARD_TIMEOUT \<or> reason = OFPRR_IDLE_TIMEOUT
    then \<exists>sw'. ofproto_rule_expire w opt sw r reason = Some sw' \<and> switch_ok sw' \<and> flows_deleted opt reason [r] sw sw'
      \<and> sw_removed sw' = sw_removed sw @ removal_notice sw reason r
    else ofproto_rule_expire w opt sw r reason = None"
proof (cases "reason = OFPRR_HARD_TIMEOUT \<or> reason = OFPRR_IDLE_TIMEOUT")
  case True
  let ?br = "sw_bridge sw" and ?s = "sw\<lparr>sw_removed := sw_removed sw @ removal_notice sw reason r\<rparr>"
  have d: "deletable sw [r]" using assms(4-6) by (simp add: deletable_def)
  have find: "sgx_rule_from_ut_cr ?br r \<noteq> None" using assms(6) by (auto simp: in_table_def split: option.splits)
  obtain gr where gr: "ofopgroup_create ?s None 0 = (sw_next_group ?s, deleting (opened ?s) (sw_next_group ?s) gr reason [] 0)" "\<not> g_submitted gr"
    by (rule create_group)
  obtain h s1 where s1: "(do { s \<leftarrow> ofoperation_create (deleting (opened ?s) (sw_next_group sw) gr reason [] 0) (sw_next_group sw) r OFOPERATION_DELETE reason None;
      s \<leftarrow> oftable_remove_rule s r; rule_destruct w opt s r }) = Some (deleting s1 (sw_next_group sw) gr reason ([] @ [(r, h)]) 0)"
    "took_out (opened ?s) [r] {rule_of (sw_bridge (opened ?s)) r} [] s1"
    by (rule take_out_step [of "opened ?s" gr r x "[]"]) (use assms switch_okD(1) [OF assms(1)] gr(2) in simp_all)
  have "took_out (opened sw) [] {} (removal_notice sw reason r) (opened ?s)"
    using bridge_less_refl [OF switch_okD(1) [OF assms(1)]] by (cases sw) (simp add: took_out_def within_def opened_def)
  from took_out_trans [OF this s1(2)] have t: "took_out (opened sw) [r] (rule_of ?br ` set [r]) (removal_notice sw reason r) s1" by simp
  have "ofproto_rule_expire w opt sw r reason =
      (do { s \<leftarrow> do { s \<leftarrow> ofoperation_create (deleting (opened ?s) (sw_next_group sw) gr reason [] 0) (sw_next_group sw) r OFOPERATION_DELETE reason None;
        s \<leftarrow> oftable_remove_rule s r; rule_destruct w opt s r }; ofopgroup_submit w opt s (sw_next_group sw) None })"
    using True gr(1) by (auto simp: ofproto_rule_expire_def send_removed_ok [OF assms(4) find] unattached)
  then have up: "ofproto_rule_expire w opt sw r reason = ofopgroup_submit w opt (deleting s1 (sw_next_group sw) gr reason [(r, h)] 0) (sw_next_group sw) None"
    unfolding s1(1) by simp
  have f: "map fst [(r, h)] = [r]" by simp
  obtain sw' where "ofopgroup_submit w opt (deleting s1 (sw_next_group sw) gr reason [(r, h)] 0) (sw_next_group sw) None = Some sw'"
    "switch_ok sw'" "flows_deleted opt reason [r] sw sw'" "sw_removed sw' = sw_removed sw @ removal_notice sw reason r"
    by (rule finish_deletes [OF assms(1,2) d gr(2) t f refl subset_refl, folded flows_deleted_def])
  then show ?thesis using True up by auto
qed (auto simp: ofproto_rule_expire_def)

theorem ofproto_rule_expire_correct_witness:
  "\<exists>sw'. ofproto_rule_expire ex_world True ex_switch 0x1000 OFPRR_HARD_TIMEOUT = Some sw' \<and> switch_ok sw'
    \<and> flows_deleted True OFPRR_HARD_TIMEOUT [0x1000] ex_switch sw'
    \<and> sw_removed sw' = sw_removed ex_switch @ removal_notice ex_switch OFPRR_HARD_TIMEOUT 0x1000"
proof -
  have p: "sw_groups ex_switch (sw_next_group ex_switch) = None" "\<not> sw_clogged ex_switch" "sw_rules ex_switch 0x1000 = Some ex_rule" "r_pending ex_rule = None"
    "in_table (sw_bridge ex_switch) (unat (r_table_id ex_rule)) 0x1000"
    using ex_added_ok(2) by (simp_all add: ex_switch_def ex_rule_def)
  show ?thesis using ofproto_rule_expire_correct [OF ex_switch_ok p, of OFPRR_HARD_TIMEOUT ex_world True] by simp
qed

end
