(* ===== verification/Switch_Evict.thy ===== *)
theory Switch_Evict
  imports Switch_Flush
begin

text \<open>
  Eviction through the switch in the build with \<open>OPTIMIZED\<close>: the report of the enclave, the removal of the reported rules
  and the group of delete operations.
\<close>

section \<open>The report\<close>

lemma report_length:
  assumes "report br ts evs" and "distinct ts"
  shows "length evs = (\<Sum>t \<leftarrow> ts. min (excess br t) (card (candidates br t)))"
proof -
  have "length evs = (\<Sum>t \<leftarrow> ts. length (filter (\<lambda>ev. ev_table ev = t) evs))"
    if "\<forall>ev \<in> set evs. ev_table ev \<in> set ts" using that
  proof (induction evs)
    case (Cons ev evs)
    have "(\<Sum>t \<leftarrow> ts. length (filter (\<lambda>e. ev_table e = t) (ev # evs))) =
        (\<Sum>t \<leftarrow> ts. (if ev_table ev = t then 1 else 0) + length (filter (\<lambda>e. ev_table e = t) evs))"
      by (rule arg_cong [of _ _ sum_list]) simp
    also have "\<dots> = (\<Sum>t \<leftarrow> ts. if ev_table ev = t then 1 else 0) + length evs" using Cons by (simp add: sum_list_addf)
    also have "(\<Sum>t \<leftarrow> ts. if ev_table ev = t then 1 else 0) = (1 :: nat)"
      using assms(2) Cons.prems by (simp add: sum_list_distinct_conv_sum_set)
    finally show ?case by simp
  qed simp
  then have "length evs = (\<Sum>t \<leftarrow> ts. length (filter (\<lambda>ev. ev_table ev = t) evs))" using assms(1) by (simp add: report_def)
  also have "\<dots> = (\<Sum>t \<leftarrow> ts. min (excess br t) (card (candidates br t)))"
    using assms(1) by (intro arg_cong [of _ _ sum_list] map_cong) (simp_all add: report_def)
  finally show ?thesis .
qed

text \<open>How many rules the tables have too many, and how many of those may be evicted.\<close>

definition surplus :: "bridge \<Rightarrow> nat" where
  "surplus br = (\<Sum>t < length (oftables br). excess br t)"

definition evictable_surplus :: "bridge \<Rightarrow> nat" where
  "evictable_surplus br = (\<Sum>t < length (oftables br). min (excess br t) (card (candidates br t)))"

lemma evictable_surplus_le: "evictable_surplus br \<le> surplus br"
  unfolding evictable_surplus_def surplus_def by (intro sum_mono) simp

lemma surplus_all:
  assumes "evictable_surplus br = surplus br" and "t < length (oftables br)"
  shows "min (excess br t) (card (candidates br t)) = excess br t"
proof (rule ccontr)
  assume "min (excess br t) (card (candidates br t)) \<noteq> excess br t"
  then have "evictable_surplus br < surplus br"
    unfolding evictable_surplus_def surplus_def using assms(2) by (intro sum_strict_mono_ex1 bexI [of _ t]) auto
  then show False using assms(1) by simp
qed

lemma report_surplus: "report br [0..<length (oftables br)] evs \<Longrightarrow> length evs = evictable_surplus br"
  by (simp add: report_length evictable_surplus_def atLeast0LessThan flip: sum_list_distinct_conv_sum_set)
    (simp add: sum_list_distinct_conv_sum_set atLeast0LessThan)

lemma frame_less: "bridge_inv br' \<Longrightarrow> evg_frame br br' \<Longrightarrow> bridge_less br {} br'"
  by (simp add: bridge_less_def frame_defs)

lemma frame_surplus:
  assumes "evg_frame br br'" and "same_fields br br'" and "\<forall>q. evict_group (rstore br' q) = None \<longleftrightarrow> evict_group (rstore br q) = None"
  shows "surplus br' = surplus br" "evictable_surplus br' = evictable_surplus br"
proof -
  have l: "length (oftables br') = length (oftables br)" using assms(1) by (simp add: evg_frame_def)
  have e: "excess br' t = excess br t" if "t < length (oftables br)" for t using excess_frame [OF assms(1,2) that] .
  have c: "candidates br' t = candidates br t" if "t < length (oftables br)" for t
    using frame_rules_at [OF assms(1) that] assms(1,3) by (auto simp: candidates_def evg_frame_def same_rule_def)
  show "surplus br' = surplus br" "evictable_surplus br' = evictable_surplus br"
    unfolding surplus_def evictable_surplus_def l using e c by (auto intro!: sum.cong)
qed

lemma evict_call:
  assumes "switch_ok sw" and "surplus (sw_bridge sw) \<le> start + buf" and "length (w_value w) = sizeof_mf_value"
  obtains evs br' where "ecall_ofproto_evict (w_value w) (sw_bridge sw) (sw_n_tables sw) start buf =
      Some (of_nat (length evs) - of_nat start, map (\<lambda>ev. (ev_rule ev, ev_hash ev)) (drop start evs), int (surplus (sw_bridge sw)), br')"
    "report (sw_bridge sw) [0..<length (oftables (sw_bridge sw))] evs" "bridge_inv br'" "evg_frame (sw_bridge sw) br'"
    "surplus br' = surplus (sw_bridge sw)" "evictable_surplus br' = evictable_surplus (sw_bridge sw)"
proof -
  note k = switch_okD [OF assms(1)]
  have n: "n_tables (sw_bridge sw) \<le> 256" using k(5) by simp
  have s: "(\<Sum>t < nat (n_tables (sw_bridge sw)). excess (sw_bridge sw) t) \<le> start + buf" using assms(2) k(6) by (simp add: surplus_def)
  obtain evs br' where e: "ecall_ofproto_evict (w_value w) (sw_bridge sw) (n_tables (sw_bridge sw)) start buf =
      Some (of_nat (length evs) - of_nat start, map (\<lambda>ev. (ev_rule ev, ev_hash ev)) (drop start evs),
        int (\<Sum>t < nat (n_tables (sw_bridge sw)). excess (sw_bridge sw) t), br')"
    "report (sw_bridge sw) [0..<nat (n_tables (sw_bridge sw))] evs" "bridge_inv br'" "evg_frame (sw_bridge sw) br'" "same_fields (sw_bridge sw) br'"
    "\<forall>q. evict_group (rstore br' q) = None \<longleftrightarrow> evict_group (rstore (sw_bridge sw) q) = None"
    using ofproto_evict_ok [OF k(1) n s k(4) assms(3)] by (elim exE conjE) (rule that)
  then show thesis using frame_surplus [OF e(4-6)] k(3,6) by (intro that [of evs br']) (simp_all add: surplus_def)
qed

section \<open>The operations\<close>

lemma evict_ops_ok:
  assumes "distinct (map fst evs)" and "fst ` set evs \<inter> fst ` set ds = {}" and "\<forall>r \<in> fst ` set evs. \<exists>x. sw_rules s r = Some x \<and> r_pending x = None"
  shows "evict_ops (deleting s g gr OFPRR_EVICTION ds k) g evs acc =
    Some (acc @ map (\<lambda>(r, h). (unat (r_table_id (the (sw_rules s r))), r)) evs, deleting s g gr OFPRR_EVICTION (ds @ evs) (k + length evs))"
  using assms
proof (induction evs arbitrary: ds k acc)
  case (Cons rh evs)
  obtain r h where rh: "rh = (r, h)" by (cases rh)
  obtain x where x: "sw_rules s r = Some x" "r_pending x = None" using Cons.prems(3) by (auto simp: rh)
  have new: "r \<notin> fst ` set ds" using Cons.prems(2) by (auto simp: rh)
  have c: "ofoperation_create (deleting s g gr OFPRR_EVICTION ds k) g r OFOPERATION_DELETE OFPRR_EVICTION (Some h) =
      Some (deleting s g gr OFPRR_EVICTION (ds @ [(r, h)]) (Suc k))"
    by (rule create_delete [where x = x]) (use x new in simp_all)
  have "evict_ops (deleting s g gr OFPRR_EVICTION (ds @ [(r, h)]) (Suc k)) g evs (acc @ [(unat (r_table_id x), r)]) =
      Some ((acc @ [(unat (r_table_id x), r)]) @ map (\<lambda>(r, h). (unat (r_table_id (the (sw_rules s r))), r)) evs,
        deleting s g gr OFPRR_EVICTION ((ds @ [(r, h)]) @ evs) (Suc k + length evs))"
    using Cons.prems by (intro Cons.IH) (auto simp: rh)
  then show ?case using c new x by (simp add: rh)
qed simp

lemma destruct_all_ok:
  assumes "bridge_inv (sw_bridge s)" and "\<not> sw_clogged s" and "\<not> g_submitted gr" and "set rs \<subseteq> fst ` set ds"
    and "\<forall>r \<in> set rs. \<exists>x. sw_rules s r = Some x \<and> unat (r_table_id x) < length (oftables (sw_bridge s))"
  shows "\<exists>s'. destruct_all w (deleting s g gr reason ds (length rs)) rs = Some (deleting s' g gr reason ds 0) \<and> took_out s rs {} [] s'"
  using assms
proof (induction rs arbitrary: s)
  case Nil
  then show ?case using took_out_refl by (intro exI [of _ s]) simp
next
  case (Cons r rs)
  obtain x where x: "sw_rules s r = Some x" "unat (r_table_id x) < length (oftables (sw_bridge s))" using Cons.prems(5) by auto
  let ?s = "not_expirable r s"
  obtain s1 where s1: "rule_destruct w True (deleting ?s g gr reason ds (Suc (length rs))) r = Some (deleting s1 g gr reason ds (length rs))"
    "took_out ?s [] {} [] s1"
    by (rule rule_destruct_deleting [of ?s gr r ds x w True g reason "length rs"]) (use Cons.prems(1-4) x in \<open>simp_all add: not_expirable_def\<close>)
  have "took_out s [r] {} [] ?s"
    using bridge_less_refl [OF Cons.prems(1)] by (cases s) (simp add: took_out_def within_def not_expirable_def)
  from took_out_trans [OF this s1(2)] have t: "took_out s [r] {} [] s1" by simp
  then have w1: "within s s1" "bridge_less (sw_bridge s) {} (sw_bridge s1)" by (simp_all add: took_out_def)
  have "\<exists>s'. destruct_all w (deleting s1 g gr reason ds (length rs)) rs = Some (deleting s' g gr reason ds 0) \<and> took_out s1 rs {} [] s'"
    using Cons.prems withinD(1,2) [OF w1(1)] bridge_lessD(1,2) [OF w1(2)] by (intro Cons.IH) auto
  then obtain s' where IH: "destruct_all w (deleting s1 g gr reason ds (length rs)) rs = Some (deleting s' g gr reason ds 0)" "took_out s1 rs {} [] s'"
    by blast
  have "took_out s (r # rs) {} [] s'" using took_out_trans [OF t IH(2)] by simp
  then show ?case using IH(1) s1(1) by (intro exI [of _ s']) (simp add: deleting_inside)
qed

section \<open>Eviction\<close>

text \<open>The collected rules: as many as may be evicted, followed by what the second call adds, which is nothing.\<close>

lemma evict_collect_ok:
  assumes "switch_ok sw" and "surplus (sw_bridge sw) \<le> 32" and "length (w_value w) = sizeof_mf_value"
    and S: "sw_bridge S = sw_bridge sw" "sw_n_tables S = sw_n_tables sw"
  obtains evs br' where "evict_collect w S = Some ((map (\<lambda>ev. (ev_rule ev, ev_hash ev)) evs, int (surplus (sw_bridge sw))), S\<lparr>sw_bridge := br'\<rparr>)"
    "report (sw_bridge sw) [0..<length (oftables (sw_bridge sw))] evs" "length evs = evictable_surplus (sw_bridge sw)" "bridge_less (sw_bridge sw) {} br'"
proof -
  have room: "surplus (sw_bridge sw) \<le> 0 + 32" using assms(2) by simp
  obtain evs b1 where e: "ecall_ofproto_evict (w_value w) (sw_bridge sw) (sw_n_tables sw) 0 32 =
      Some (of_nat (length evs) - of_nat 0, map (\<lambda>ev. (ev_rule ev, ev_hash ev)) (drop 0 evs), int (surplus (sw_bridge sw)), b1)"
    "report (sw_bridge sw) [0..<length (oftables (sw_bridge sw))] evs" "bridge_inv b1" "evg_frame (sw_bridge sw) b1"
    "surplus b1 = surplus (sw_bridge sw)" "evictable_surplus b1 = evictable_surplus (sw_bridge sw)"
    by (rule evict_call [OF assms(1) room assms(3)])
  have l: "length evs = evictable_surplus (sw_bridge sw)" by (rule report_surplus [OF e(2)])
  have le: "length evs \<le> surplus (sw_bridge sw)" using l evictable_surplus_le by simp
  define k where "k = surplus (sw_bridge sw) - length evs"
  have left: "(of_int (int (surplus (sw_bridge sw))) :: u64) - of_nat (length evs) = of_nat k" using le by (simp add: k_def of_nat_diff)
  have small: "k \<le> 32" "length evs \<le> 32" using assms(2) le by (simp_all add: k_def)
  then have un: "unat (of_nat k :: u64) = k" "unat (of_nat (length evs) :: u64) = length evs" by (simp_all add: unat_of_nat)
  show thesis
  proof (cases "k = 0")
    case True
    have "evict_collect w S = Some ((map (\<lambda>ev. (ev_rule ev, ev_hash ev)) evs, int (surplus (sw_bridge sw))), S\<lparr>sw_bridge := b1\<rparr>)"
      using left True by (simp add: evict_collect_def enclave_call_def S e(1))
    then show thesis using e(2) l frame_less [OF e(3,4)] by (rule that)
  next
    case False
    let ?sw1 = "sw\<lparr>sw_bridge := b1\<rparr>"
    have ok1: "switch_ok ?sw1"
      using switch_ok_less [OF assms(1), of b1 ?sw1 "{}" "{}"] bridge_lessD [OF frame_less [OF e(3,4)]] by (simp add: restrict_map_def)
    have r1: "surplus (sw_bridge ?sw1) \<le> length evs + k" using e(5) le by (simp add: k_def)
    obtain evs2 b2 where "ecall_ofproto_evict (w_value w) (sw_bridge ?sw1) (sw_n_tables ?sw1) (length evs) k =
        Some (of_nat (length evs2) - of_nat (length evs), map (\<lambda>ev. (ev_rule ev, ev_hash ev)) (drop (length evs) evs2), int (surplus (sw_bridge ?sw1)), b2)"
      "report (sw_bridge ?sw1) [0..<length (oftables (sw_bridge ?sw1))] evs2" "bridge_inv b2" "evg_frame (sw_bridge ?sw1) b2"
      by (rule evict_call [OF ok1 r1 assms(3)]) (rule that)
    then have e2: "ecall_ofproto_evict (w_value w) b1 (sw_n_tables sw) (length evs) k =
        Some (of_nat (length evs2) - of_nat (length evs), map (\<lambda>ev. (ev_rule ev, ev_hash ev)) (drop (length evs) evs2), int (surplus b1), b2)"
      "report b1 [0..<length (oftables b1)] evs2" "bridge_inv b2" "evg_frame b1 b2" by simp_all
    have "length evs2 = length evs" using report_surplus [OF e2(2)] e(6) l by simp
    then have none: "drop (length evs) evs2 = []" by simp
    have pos: "(0 :: u64) < of_nat k" using un(1) False by (metis unat_gt_0 gr0I word_gt_0)
    have "evict_collect w S = Some ((map (\<lambda>ev. (ev_rule ev, ev_hash ev)) evs, int (surplus (sw_bridge sw))), S\<lparr>sw_bridge := b2\<rparr>)"
      using left pos un e2(1) none by (simp add: evict_collect_def enclave_call_def S e(1))
    then show thesis using e(2) l bridge_less_trans [OF frame_less [OF e(3,4)] frame_less [OF e2(3,4)]] by (intro that) simp_all
  qed
qed

text \<open>The rules of a report, as the switch sees them.\<close>

lemma report_deletable:
  assumes "switch_ok sw" and "report (sw_bridge sw) [0..<length (oftables (sw_bridge sw))] evs"
    and idle: "\<forall>t < length (oftables (sw_bridge sw)). \<forall>r \<in> rules_at (sw_bridge sw) t. \<not> busy_rule sw (o_cls_rule (rstore (sw_bridge sw) r))"
  shows "deletable sw (map ev_rule evs)" "\<And>r. r \<in> set (map ev_rule evs) \<Longrightarrow> \<exists>t < length (oftables (sw_bridge sw)). rule_of (sw_bridge sw) r \<in> candidates (sw_bridge sw) t"
    "\<And>t. t < length (oftables (sw_bridge sw)) \<Longrightarrow>
      card (rules_at (sw_bridge sw) t \<inter> rule_of (sw_bridge sw) ` set (map ev_rule evs)) = min (excess (sw_bridge sw) t) (card (candidates (sw_bridge sw) t))"
proof -
  let ?br = "sw_bridge sw"
  have ev: "ev_table e < length (oftables ?br) \<and> rule_of ?br (ev_rule e) \<in> rules_at ?br (ev_table e) \<and> rule_of ?br (ev_rule e) \<in> candidates ?br (ev_table e)
      \<and> ev_rule e = o_cls_rule (rstore ?br (rule_of ?br (ev_rule e)))" if "e \<in> set evs" for e
    using assms(2) that by (auto simp: report_def ev_ok_def rule_of_def)
  have d: "distinct (ev_rules ?br evs)" using assms(2) by (simp add: report_def)
  then have "distinct (map ev_rule evs)" by (auto simp: ev_rules_def distinct_map inj_on_def)
  then show "deletable sw (map ev_rule evs)"
  proof (rule deletable_in_tables [OF assms(1)])
    fix a assume "a \<in> set (map ev_rule evs)"
    then obtain e where e: "e \<in> set evs" "a = ev_rule e" by auto
    then show "\<exists>t < length (oftables ?br). \<exists>r \<in> rules_at ?br t. a = o_cls_rule (rstore ?br r)" "\<not> busy_rule sw a"
      using ev [OF e(1)] idle by metis+
  qed
  show "\<exists>t < length (oftables ?br). rule_of ?br r \<in> candidates ?br t" if "r \<in> set (map ev_rule evs)" for r using that ev by auto
  show "card (rules_at ?br t \<inter> rule_of ?br ` set (map ev_rule evs)) = min (excess ?br t) (card (candidates ?br t))" if t: "t < length (oftables ?br)" for t
  proof -
    let ?E = "filter (\<lambda>e. ev_table e = t) evs"
    have "rule_of ?br (ev_rule e) \<in> rules_at ?br t \<longleftrightarrow> ev_table e = t" if "e \<in> set evs" for e
      using ev [OF that] core_unique [OF switch_okD(2) [OF assms(1)] _ t] by blast
    then have "rules_at ?br t \<inter> rule_of ?br ` set (map ev_rule evs) = set (ev_rules ?br ?E)" by (auto simp: ev_rules_def)
    moreover have "distinct (ev_rules ?br ?E)" using d by (simp add: ev_rules_def distinct_map_filter)
    ultimately have "card (rules_at ?br t \<inter> rule_of ?br ` set (map ev_rule evs)) = length ?E" using distinct_card by fastforce
    then show ?thesis using assms(2) t by (simp add: report_def)
  qed
qed

lemma evict_rules_ok:
  assumes sw: "switch_ok sw" "sw_groups sw (sw_next_group sw) = None" "\<not> sw_clogged sw" and sub: "\<not> g_submitted gr"
    and b1: "bridge_less (sw_bridge sw) {} br1" and d: "deletable sw rs" and rs: "map fst pairs = rs"
  shows "\<exists>sw'. (do { (items, s) \<leftarrow> evict_ops (deleting ((opened sw)\<lparr>sw_bridge := br1\<rparr>) (sw_next_group sw) gr OFPRR_EVICTION [] 0) (sw_next_group sw) pairs [];
      (hidden, s) \<leftarrow> enclave_call (\<lambda>br. ecall_oftable_remove_rules br items) s;
      s \<leftarrow> destruct_all w s (map snd items);
      ofopgroup_submit w True s (sw_next_group sw) (Some hidden) }) = Some sw'
    \<and> switch_ok sw' \<and> sw_removed sw' = sw_removed sw \<and> flows_freed False OFPRR_EVICTION rs (rule_of (sw_bridge sw) ` set rs) sw sw'"
proof -
  let ?br = "sw_bridge sw" and ?g = "sw_next_group sw" and ?s1 = "(opened sw)\<lparr>sw_bridge := br1\<rparr>"
  let ?i = "\<lambda>r. (unat (r_table_id (the (sw_rules sw r))), r)" and ?hid = "hidden_rule (sw_bridge sw)"
  note b = bridge_lessD [OF b1]
  have im: "fst ` set pairs = set rs" using rs by (metis list.set_map)
  have dis: "distinct rs" using d distinct_map by (auto simp: deletable_def)
  have x: "\<exists>x. sw_rules sw r = Some x \<and> r_pending x = None \<and> in_table ?br (unat (r_table_id x)) r" if "r \<in> set rs" for r
    using d that by (auto simp: deletable_def)
  have ops: "evict_ops (deleting ?s1 ?g gr OFPRR_EVICTION [] 0) ?g pairs [] =
      Some (map ?i rs, deleting ?s1 ?g gr OFPRR_EVICTION pairs (length rs))"
  proof -
    have "evict_ops (deleting ?s1 ?g gr OFPRR_EVICTION [] 0) ?g pairs [] =
        Some ([] @ map (\<lambda>(r, h). (unat (r_table_id (the (sw_rules ?s1 r))), r)) pairs, deleting ?s1 ?g gr OFPRR_EVICTION ([] @ pairs) (0 + length pairs))"
      by (rule evict_ops_ok) (use dis x in \<open>auto simp: rs im\<close>)
    moreover have "map (\<lambda>(r, h). (unat (r_table_id (the (sw_rules ?s1 r))), r)) pairs = map ?i rs"
      by (simp add: split_beta flip: rs)
    moreover have "length pairs = length rs" using rs by auto
    ultimately show ?thesis by simp
  qed
  have in1: "in_table br1 (unat (r_table_id (the (sw_rules sw r)))) r" if "r \<in> set rs" for r
    using x [OF that] in_table_less [OF b1] by auto
  then have listed: "listed br1 (map ?i rs)" using d by (auto simp: listed_def deletable_def comp_def)
  obtain br2 where r: "ecall_oftable_remove_rules br1 (map ?i rs) = Some (map (\<lambda>it. df_is_hidden (deleted_as br1 it)) (map ?i rs), br2)" "bridge_inv br2"
    "registered br2 = registered br1 - rule_of br1 ` snd ` set (map ?i rs)" "\<forall>q. s_cls_rule (rstore br2 q) = s_cls_rule (rstore br1 q)"
    "length (oftables br2) = length (oftables br1)"
    "\<forall>t < length (oftables br1). rules_at br2 t = rules_at br1 t - rule_of br1 ` snd ` set (map ?i rs)"
    "n_tables br2 = n_tables br1" "\<forall>q. o_cls_rule (rstore br2 q) = o_cls_rule (rstore br1 q)"
    using remove_rules_ok [OF b(1) listed] by (elim exE conjE) (rule that)
  have hid: "map (\<lambda>it. df_is_hidden (deleted_as br1 it)) (map ?i rs) = map ?hid rs"
    by (simp add: deleted_as_def hidden_rule_def b(4,10) Let_def)
  let ?s2 = "(opened sw)\<lparr>sw_bridge := br2\<rparr>"
  have len: "length (oftables br2) = length (oftables ?br)" using r(5) b(2) by simp
  have "\<exists>s'. destruct_all w (deleting ?s2 ?g gr OFPRR_EVICTION pairs (length rs)) rs = Some (deleting s' ?g gr OFPRR_EVICTION pairs 0) \<and> took_out ?s2 rs {} [] s'"
    by (rule destruct_all_ok) (use r(2) sw(3) sub im x len in \<open>auto simp: in_table_def\<close>)
  then obtain s' where s': "destruct_all w (deleting ?s2 ?g gr OFPRR_EVICTION pairs (length rs)) rs = Some (deleting s' ?g gr OFPRR_EVICTION pairs 0)"
    "took_out ?s2 rs {} [] s'" by blast
  then have w: "within ?s2 s'" and less: "bridge_less br2 {} (sw_bridge s')"
    and out: "sw_expirable s' = filter (\<lambda>q. q \<notin> set rs) (sw_expirable sw)" "sw_removed s' = sw_removed sw" by (simp_all add: took_out_def opened_def)
  note c = bridge_lessD [OF less]
  have rel: "releasable True (sw_bridge s') ?hid (map fst pairs) (Some (map ?hid rs))" using d c(1) by (simp add: releasable_def rs deletable_def)
  have has: "\<forall>r \<in> fst ` set pairs. sw_rules s' r \<noteq> None" using x withinD(1) [OF w] im by force
  obtain h where h: "ofopgroup_submit w True (deleting s' ?g gr OFPRR_EVICTION pairs 0) ?g (Some (map ?hid rs)) =
      Some ((released OFPRR_EVICTION ?hid rs ((sw_bridge s')\<lparr>reg := h\<rparr>) s')\<lparr>sw_groups := (sw_groups s')(?g := None)\<rparr>)"
    "bridge_inv ((sw_bridge s')\<lparr>reg := h\<rparr>)" "if True then h = reg (sw_bridge s') else set (hmap_elems h) = registered (sw_bridge s') - rule_of (sw_bridge s') ` fst ` set pairs"
    by (rule submit_deletes [OF rel has sub, of w ?g OFPRR_EVICTION, unfolded rs])
  let ?sw' = "(released OFPRR_EVICTION ?hid rs (sw_bridge s') s')\<lparr>sw_groups := (sw_groups s')(?g := None)\<rparr>"
  have submit: "ofopgroup_submit w True (deleting s' ?g gr OFPRR_EVICTION pairs 0) ?g (Some (map ?hid rs)) = Some ?sw'" using h(1,3) by simp
  have snd: "snd ` set (map ?i rs) = set rs" by (simp add: image_image)
  have tables: "rules_at (sw_bridge s') t = rules_at ?br t - rule_of ?br ` set rs" if "t < length (oftables ?br)" for t
    using that c(9) [of t] r(6) b(2,4,9) len unfolding snd by auto
  have regs: "registered (sw_bridge s') = registered ?br - rule_of ?br ` set rs" using c(7) r(3) b(4,7) unfolding snd by simp
  have "flows_freed False OFPRR_EVICTION rs (rule_of ?br ` set rs) sw ?sw'"
    unfolding flows_freed_def Let_def using withinD [OF w] out regs tables c(2,10) r(4) b(2,10) len sw(2)
    by (simp add: released_def) (simp add: opened_def fun_upd_idem)
  moreover have "switch_ok ?sw'"
    by (rule switch_ok_less [OF sw(1), of "sw_bridge s'" _ "rule_of ?br ` set rs" "set rs"])
      (use c r(7,8) b(6,8) len withinD [OF w] tables in \<open>simp_all add: released_def\<close>)
  moreover have "sw_removed ?sw' = sw_removed sw" using out(2) by (simp add: released_def)
  moreover have "map snd (map ?i rs) = rs" by (simp add: comp_def)
  ultimately show ?thesis using ops r(1) hid s'(1) submit
    by (intro exI [of _ ?sw']) (simp add: enclave_call_def deleting_inside del: map_map)
qed


text \<open>The switch with one rule, with a limit of no flows on both tables.\<close>

definition ex_limited :: switch where
  "ex_limited = (let br = put_table ex_added 0 ((oftables ex_added ! 0)\<lparr>max_flows := 0\<rparr>)
     in ex_switch\<lparr>sw_bridge := put_table br 1 ((oftables br ! 1)\<lparr>max_flows := 0\<rparr>)\<rparr>)"

lemma ex_limited_tables:
  "bridge_inv (sw_bridge ex_limited)" "length (oftables (sw_bridge ex_limited)) = 2" "rstore (sw_bridge ex_limited) = rstore ex_added"
  "t < 2 \<Longrightarrow> t_cls (oftables (sw_bridge ex_limited) ! t) = t_cls (oftables ex_added ! t) \<and> max_flows (oftables (sw_bridge ex_limited) ! t) = 0"
  "n_tables (sw_bridge ex_limited) = 2"
proof -
  let ?b = "put_table ex_added 0 ((oftables ex_added ! 0)\<lparr>max_flows := 0\<rparr>)"
  have b: "bridge_inv ?b" by (rule bridge_put_attr) (simp_all add: ex_added_ok)
  have "bridge_inv (put_table ?b 1 ((oftables ?b ! 1)\<lparr>max_flows := 0\<rparr>))" by (rule bridge_put_attr [OF b]) (simp_all add: ex_added_ok)
  then show "bridge_inv (sw_bridge ex_limited)" by (simp add: ex_limited_def Let_def)
  show "length (oftables (sw_bridge ex_limited)) = 2" "rstore (sw_bridge ex_limited) = rstore ex_added" "n_tables (sw_bridge ex_limited) = 2"
    by (simp_all add: ex_limited_def ex_added_ok)
  assume "t < 2"
  then have "t = 0 \<or> t = 1" by auto
  then show "t_cls (oftables (sw_bridge ex_limited) ! t) = t_cls (oftables ex_added ! t) \<and> max_flows (oftables (sw_bridge ex_limited) ! t) = 0"
    by (auto simp: ex_limited_def ex_added_ok)
qed

lemma ex_limited_ok:
  "switch_ok ex_limited" "surplus (sw_bridge ex_limited) \<le> 1"
  "\<forall>t < length (oftables (sw_bridge ex_limited)). \<forall>r \<in> rules_at (sw_bridge ex_limited) t. \<not> busy_rule ex_limited (o_cls_rule (rstore (sw_bridge ex_limited) r))"
proof -
  let ?br = "sw_bridge ex_limited"
  note l = ex_limited_tables
  have at: "rules_at ?br t = rules_at ex_added t" if "t < 2" for t using l(4) [OF that] by simp
  have one: "t = 0 \<and> o_cls_rule (rstore ?br r) = 0x1000" if "t < 2" "r \<in> rules_at ?br t" for t r
    using ex_added_rule [of t r] that at l(3) by (simp add: ex_added_ok(3))
  have f: "sw_rules ex_limited = [0x1000 \<mapsto> ex_rule]" "sw_n_tables ex_limited = 2" "sw_groups ex_limited = Map.empty"
    by (simp_all add: ex_limited_def ex_switch_def)
  show "switch_ok ex_limited" using l(1,2,5) one f by (auto simp: switch_ok_def ex_rule_def)
  show "\<forall>t < length (oftables ?br). \<forall>r \<in> rules_at ?br t. \<not> busy_rule ex_limited (o_cls_rule (rstore ?br r))"
    using one f l(2) by (auto simp: busy_rule_def op_of_def ex_rule_def)
  have e: "excess ?br t \<le> card (rules_at ex_added t)" if "t < 2" for t
  proof -
    have "cls_inv (rules_of ex_added) (t_cls (oftables ex_added ! t))" using ex_added_ok(1,3) that by (simp add: bridge_inv_but_def core_inv_def)
    then have "classifier_count (t_cls (oftables ex_added ! t)) = int (card (rules_at ex_added t))"
      using cls_rules_distinct distinct_card by (fastforce simp: cls_inv_def classifier_count_def)
    then show ?thesis using l(4) [OF that] by (simp add: excess_def Let_def)
  qed
  have "surplus ?br \<le> excess ?br 0 + excess ?br 1" unfolding surplus_def l(2) by (simp add: numeral_2_eq_2)
  also have "\<dots> \<le> 1" using e [of 0] e [of 1] ex_added_rules(1,2) by (simp del: One_nat_def)
  finally show "surplus ?br \<le> 1" .
qed


end
