(* ===== verification/Tls.thy ===== *)
theory Tls
  imports Prelude
begin

text \<open>
  The enclave that holds the credentials and the TLS session of the switch (\<open>TLSonSGX/trusted/enclave.c\<close>, \<open>trusted/sealing/\<close>,
  \<open>trusted/call-table.c\<close>) and the OpenSSL interface on top of it (\<open>untrusted/wrapper_sgx.cpp\<close>).

  The functions of mbedtls and of the SGX SDK are not in the repository: they are the fields of the record \<open>tls_lib\<close>, an argument of the
  definitions. \<open>'crt\<close> is an X.509 certificate, \<open>'key\<close> a private key, \<open>'cx\<close> the content of an \<open>mbedtls_ssl_context\<close> and
  \<open>'w\<close> everything outside of these structures that the functions read and change: the network, the random numbers, and the buffers a context points to.

  A pointer is NULL, or points to an object that is live, or to one that has been freed; reading through it is a fault unless the object
  is live. Memory that is not initialised, or that lies behind the end of a buffer that is read too far, holds the bytes \<open>lib_garbage\<close>. Writing behind the end of
  a buffer is a fault. Printing is left out.
\<close>

section \<open>Memory\<close>

type_synonym bytes = "u8 list"

datatype 'a cell = Null | Live 'a | Freed

fun deref :: "'a cell \<Rightarrow> 'a option" where
  "deref (Live x) = Some x"
| "deref _ = None"

text \<open>\<open>memcpy\<close> to the start of a buffer.\<close>

definition overwrite :: "bytes \<Rightarrow> bytes \<Rightarrow> bytes option" where
  "overwrite buf bs = (if length bs \<le> length buf then Some (bs @ drop (length bs) buf) else None)"

text \<open>\<open>memcpy\<close> of \<open>n\<close> bytes from a buffer.\<close>

definition copy_from :: "bytes \<Rightarrow> nat \<Rightarrow> bytes option" where
  "copy_from buf n = (if n \<le> length buf then Some (take n buf) else None)"

definition strlen :: "bytes \<Rightarrow> nat option" where
  "strlen buf = (if 0 \<in> set buf then Some (length (takeWhile (\<lambda>b. b \<noteq> 0) buf)) else None)"

text \<open>The offset of the first occurrence before the end of the string; \<open>None\<close> stands for NULL, which no caller can use.\<close>

fun strstr :: "bytes \<Rightarrow> bytes \<Rightarrow> nat option" where
  "strstr word [] = None"
| "strstr word (b # bs) = (if take (length word) (b # bs) = word then Some 0
     else if b = 0 then None else map_option Suc (strstr word bs))"

definition c_str :: "string \<Rightarrow> bytes" where
  "c_str s = map of_char s"

section \<open>The libraries\<close>

record ('crt, 'key) ssl_conf =
  c_authmode :: int
  c_ca_chain :: "'crt option"
  c_own_cert :: "('crt \<times> 'key) option"

record ('crt, 'key, 'cx, 'w) tls_lib =
  lib_garbage :: "nat \<Rightarrow> u8"
  ERR_WANT_READ :: int
  ERR_WANT_WRITE :: int
  ERR_PEER_CLOSE_NOTIFY :: int
  VERIFY_NONE :: int
  VERIFY_OPTIONAL :: int
  VERIFY_REQUIRED :: int
  ctr_drbg_seed :: "'w \<Rightarrow> int \<times> 'w"
  pk_init :: 'key
  pk_setup :: "'key \<Rightarrow> int \<times> 'key"
  rsa_gen_key :: "'key \<Rightarrow> 'w \<Rightarrow> int \<times> 'key \<times> 'w"
  pk_write_key_pem :: "'key \<Rightarrow> bytes \<Rightarrow> bytes"
  csr_pem :: "'key \<Rightarrow> bytes \<Rightarrow> 'w \<Rightarrow> bytes \<times> 'w"
  pk_parse_key :: "'key \<Rightarrow> bytes \<Rightarrow> 'key"
  crt_init :: 'crt
  crt_parse :: "'crt \<Rightarrow> bytes \<Rightarrow> int \<times> 'crt"
  crt_raw :: "'crt \<Rightarrow> bytes"
  net_connect :: "'w \<Rightarrow> int \<times> 'w"
  ssl_init_cx :: 'cx
  ssl_setup :: "'cx \<Rightarrow> int \<times> 'cx"
  ssl_set_bio :: "'cx \<Rightarrow> int \<Rightarrow> 'cx"
  ssl_handshake :: "('crt, 'key) ssl_conf \<Rightarrow> 'cx \<Rightarrow> 'w \<Rightarrow> int \<times> 'cx \<times> 'w"
  ssl_read :: "'cx \<Rightarrow> nat \<Rightarrow> 'w \<Rightarrow> (int \<times> bytes) \<times> 'cx \<times> 'w"
  ssl_write :: "'cx \<Rightarrow> bytes \<Rightarrow> 'w \<Rightarrow> int \<times> 'cx \<times> 'w"
  ssl_close_notify :: "'cx \<Rightarrow> 'w \<Rightarrow> int \<times> 'cx \<times> 'w"
  ssl_peer_cert :: "'cx \<Rightarrow> 'crt option"
  ssl_state_nr :: "'cx \<Rightarrow> int"
  sgx_calc_sealed_data_size :: "nat \<Rightarrow> u32"
  sgx_seal_data :: "bytes \<Rightarrow> bytes option"
  sgx_unseal_data :: "bytes \<Rightarrow> bytes option"
  sgx_get_encrypt_txt_len :: "bytes \<Rightarrow> nat"

abbreviation garbage :: "('crt, 'key, 'cx, 'w) tls_lib \<Rightarrow> nat \<Rightarrow> bytes" where
  "garbage lib n \<equiv> map (lib_garbage lib) [0..<n]"

section \<open>State of the enclave\<close>

record ('crt, 'key) ssl_ctx =
  ctx_cert :: 'crt
  ctx_pk :: 'key
  ctx_CA_cert :: 'crt
  ctx_authmode :: int

record ('crt, 'key, 'cx) ssl_session =
  ss_cntx :: 'cx
  ss_conf :: "('crt, 'key) ssl_conf option"
  ss_last_error :: int
  ss_fd :: int
  ss_ssl_ctx :: bool

record ('crt, 'key, 'cx) tls =
  t_ssl :: "('crt, 'key, 'cx) ssl_session cell"
  t_ctx :: "('crt, 'key) ssl_ctx cell"
  t_cacert :: "'crt cell"
  t_cert :: "'crt cell"
  t_key :: 'key
  t_keys_generated :: bool

text \<open>The static variables when the enclave starts; \<open>k\<close> is the zeroed \<open>key\<close>.\<close>

definition tls_start :: "'key \<Rightarrow> ('crt, 'key, 'cx) tls" where
  "tls_start k = \<lparr>t_ssl = Null, t_ctx = Null, t_cacert = Null, t_cert = Null, t_key = k, t_keys_generated = False\<rparr>"

section \<open>Sealed resources\<close>

record SSL_resource =
  sr_sealed_data :: bytes
  sr_len :: u32
  sr_unsealed_len :: u32
  sr_type :: u8
  sr_exists :: u8

definition N_SSL_RESOURCES :: nat where "N_SSL_RESOURCES = 3"
definition SSL_RESOURCE_CA_CERT :: u8 where "SSL_RESOURCE_CA_CERT = 0"
definition SSL_RESOURCE_CERT :: u8 where "SSL_RESOURCE_CERT = 1"
definition SSL_RESOURCE_PK :: u8 where "SSL_RESOURCE_PK = 2"
definition SEALED_MAX :: nat where "SEALED_MAX = 10000"

definition ecall_seal :: "('crt, 'key, 'cx, 'w) tls_lib \<Rightarrow> bytes \<Rightarrow> bytes option" where
  "ecall_seal lib text = sgx_seal_data lib text"

definition ecall_unseal :: "('crt, 'key, 'cx, 'w) tls_lib \<Rightarrow> bytes \<Rightarrow> bytes option" where
  "ecall_unseal lib sealed = sgx_unseal_data lib sealed"

text \<open>The result is a pointer, NULL when unsealing or parsing fails; the outer option is the fault.\<close>

definition unseal_certificate :: "('crt, 'key, 'cx, 'w) tls_lib \<Rightarrow> bytes \<Rightarrow> 'crt cell option" where
  "unseal_certificate lib sealed = (let n = sgx_get_encrypt_txt_len lib sealed in
     case ecall_unseal lib sealed of
       None \<Rightarrow> Some Null
     | Some text \<Rightarrow> do {
         cert_unsealed \<leftarrow> overwrite (garbage lib n) text;
         let (ret, crt) = crt_parse lib (crt_init lib) cert_unsealed;
         Some (if ret \<noteq> 0 then Null else Live crt) })"

definition unseal_key :: "('crt, 'key, 'cx, 'w) tls_lib \<Rightarrow> bytes \<Rightarrow> 'key \<Rightarrow> 'key option" where
  "unseal_key lib sealed k = (let n = sgx_get_encrypt_txt_len lib sealed in
     case ecall_unseal lib sealed of
       None \<Rightarrow> Some k
     | Some text \<Rightarrow> do {
         key_unsealed \<leftarrow> overwrite (garbage lib n @ [0]) text;
         Some (pk_parse_key lib k key_unsealed) })"

text \<open>The flag is \<open>sgx_res = SGX_SUCCESS\<close>.\<close>

definition seal_ssl_resource :: "('crt, 'key, 'cx, 'w) tls_lib \<Rightarrow> bytes \<Rightarrow> SSL_resource \<Rightarrow> (bool \<times> SSL_resource) option" where
  "seal_ssl_resource lib text r = (let sealed_data_len = sgx_calc_sealed_data_size lib (length text) in
     case ecall_seal lib text of
       None \<Rightarrow> Some (False, r)
     | Some sealed \<Rightarrow> do {
         sealed_data \<leftarrow> overwrite (garbage lib (unat sealed_data_len)) sealed;
         data \<leftarrow> overwrite (sr_sealed_data r) sealed_data;
         Some (True, r\<lparr>sr_len := sealed_data_len, sr_unsealed_len := of_nat (length text), sr_sealed_data := data\<rparr>) })"

definition all_ssl_resources_exist :: "SSL_resource list \<Rightarrow> bool" where
  "all_ssl_resources_exist rs = (\<forall>r \<in> set rs. sr_exists r \<noteq> 0)"

fun load_sealed_ssl_resources :: "('crt, 'key, 'cx, 'w) tls_lib \<Rightarrow> SSL_resource list \<Rightarrow> ('crt, 'key, 'cx) tls \<Rightarrow> ('crt, 'key, 'cx) tls option" where
  "load_sealed_ssl_resources lib [] s = Some s"
| "load_sealed_ssl_resources lib (r # rs) s = do {
     sealed_data \<leftarrow> copy_from (sr_sealed_data r) (unat (sr_len r));
     s \<leftarrow> (if sr_type r = SSL_RESOURCE_CA_CERT then do { c \<leftarrow> unseal_certificate lib sealed_data; Some (s\<lparr>t_cacert := c\<rparr>) }
       else if sr_type r = SSL_RESOURCE_CERT then do { c \<leftarrow> unseal_certificate lib sealed_data; Some (s\<lparr>t_cert := c\<rparr>) }
       else if sr_type r = SSL_RESOURCE_PK then do { k \<leftarrow> unseal_key lib sealed_data (t_key s); Some (s\<lparr>t_key := k\<rparr>) }
       else None);
     load_sealed_ssl_resources lib rs s }"

section \<open>Asking the certificate authority\<close>

text \<open>The loop of \<open>send_recv\<close>. \<open>sizeof(recv_buf1)\<close> is the size of a pointer, so that only eight bytes are cleared. When the loop is left by \<open>break\<close>
  the function ends without a return value. The context is a copy of that of the caller.\<close>

partial_function (option) recv_loop :: "('crt, 'key, 'cx, 'w) tls_lib \<Rightarrow> 'cx \<Rightarrow> bytes \<Rightarrow> 'w \<Rightarrow> (nat option \<times> bytes \<times> 'w) option" where
  "recv_loop lib cx buf w = do {
     buf \<leftarrow> overwrite buf (replicate 8 0);
     let ((ret, bs), cx, w) = ssl_read lib cx 6000 w;
     if ret = ERR_WANT_READ lib \<or> ret = ERR_WANT_WRITE lib then recv_loop lib cx buf w
     else if ret = ERR_PEER_CLOSE_NOTIFY lib \<or> ret \<le> 0 then Some (None, buf, w)
     else do { buf \<leftarrow> overwrite buf bs; Some (Some (nat ret), buf, w) } }"

definition send_recv :: "('crt, 'key, 'cx, 'w) tls_lib \<Rightarrow> 'cx \<Rightarrow> bytes \<Rightarrow> bytes \<Rightarrow> 'w \<Rightarrow> (nat option \<times> bytes \<times> 'w) option" where
  "send_recv lib cx send_buf recv_buf w = (
     let (write_res, cx, w) = ssl_write lib cx (take 2000 (send_buf @ garbage lib 2000)) w
     in recv_loop lib cx recv_buf w)"

text \<open>What \<open>generate_keys\<close> returns: the resources, the flag \<open>*write_resources_to_disk\<close>, the state of the enclave and the rest of the world.\<close>

type_synonym ('crt, 'key, 'cx, 'w) init_result = "SSL_resource list \<times> bool \<times> ('crt, 'key, 'cx) tls \<times> 'w"

text \<open>The answer to the request for a certificate: the text from the first dashes on, and a NUL.\<close>

definition received_pem :: "bytes \<Rightarrow> nat \<Rightarrow> bytes option" where
  "received_pem cer_buf cer_len = do {
     start \<leftarrow> strstr (c_str ''-----'') cer_buf;
     if cer_len < start then None
     else do { cert \<leftarrow> copy_from (drop start cer_buf) (cer_len - start); Some (cert @ [0]) } }"

text \<open>From the parsing of the certificate to the end. \<open>mbedtls_ssl_free\<close> frees the session, to which the certificate of the peer belongs.\<close>

definition keep_certificates :: "('crt, 'key, 'cx, 'w) tls_lib \<Rightarrow> 'cx \<Rightarrow> bytes \<Rightarrow> SSL_resource list \<Rightarrow> bool \<Rightarrow> ('crt, 'key, 'cx) tls \<Rightarrow> 'w \<Rightarrow>
    ('crt, 'key, 'cx, 'w) init_result option" where
  "keep_certificates lib cx cer_buf1 rs wr s w = do {
     let (res, crt) = crt_parse lib (crt_init lib) cer_buf1;
     let s = s\<lparr>t_cert := Live crt\<rparr>;
     if res \<noteq> 0 then Some (rs, wr, s, w)
     else do {
       (_, r1) \<leftarrow> seal_ssl_resource lib cer_buf1 (rs ! 1);
       let rs = rs[1 := r1\<lparr>sr_type := SSL_RESOURCE_CERT\<rparr>];
       ca \<leftarrow> ssl_peer_cert lib cx;
       (_, r0) \<leftarrow> seal_ssl_resource lib (crt_raw lib ca) (rs ! 0);
       let rs = rs[0 := r0\<lparr>sr_type := SSL_RESOURCE_CA_CERT\<rparr>];
       let (_, _, w) = ssl_close_notify lib cx w;
       Some (rs, True, s\<lparr>t_cacert := Freed\<rparr>, w) } }"

definition request_certificate :: "('crt, 'key, 'cx, 'w) tls_lib \<Rightarrow> bytes \<Rightarrow> bytes \<Rightarrow> SSL_resource list \<Rightarrow> bool \<Rightarrow> ('crt, 'key, 'cx) tls \<Rightarrow> 'w \<Rightarrow>
    ('crt, 'key, 'cx, 'w) init_result option" where
  "request_certificate lib ima csr_buf rs wr s w = do {
     let (fd, w) = net_connect lib w;
     let conf = \<lparr>c_authmode = VERIFY_NONE lib, c_ca_chain = None, c_own_cert = None\<rparr>;
     let (_, cx) = ssl_setup lib (ssl_init_cx lib);
     let cx = ssl_set_bio lib cx fd;
     let (res, cx, w) = ssl_handshake lib conf cx w;
     if res \<noteq> 0 then Some (rs, wr, s, w)
     else do {
       (_, ima_res, w) \<leftarrow> send_recv lib cx ima (garbage lib 128) w;
       if take 4 ima_res \<noteq> c_str ''MOK'' @ [0] then Some (rs, wr, s, w)
       else do {
         (cer_len, cer_buf, w) \<leftarrow> send_recv lib cx csr_buf (garbage lib 6000) w;
         cer_len \<leftarrow> cer_len;
         cer_buf1 \<leftarrow> received_pem cer_buf cer_len;
         keep_certificates lib cx cer_buf1 rs wr s w } } }"

definition PK_LENGTH :: nat where "PK_LENGTH = 2048"

definition generate_keys :: "('crt, 'key, 'cx, 'w) tls_lib \<Rightarrow> bytes \<Rightarrow> SSL_resource list \<Rightarrow> bool \<Rightarrow> ('crt, 'key, 'cx) tls \<Rightarrow> 'w \<Rightarrow>
    ('crt, 'key, 'cx, 'w) init_result option" where
  "generate_keys lib ima rs wr s w = do {
     let s = s\<lparr>t_key := pk_init lib\<rparr>;
     if all_ssl_resources_exist rs then do { s \<leftarrow> load_sealed_ssl_resources lib rs s; Some (rs, wr, s, w) }
     else do {
       let (ret, k) = pk_setup lib (t_key s);
       let s = s\<lparr>t_key := k\<rparr>;
       if ret \<noteq> 0 then Some (rs, wr, s, w)
       else do {
         let (ret, k, w) = rsa_gen_key lib k w;
         let s = s\<lparr>t_key := k\<rparr>;
         if ret \<noteq> 0 then Some (rs, wr, s, w)
         else do {
           let prk_buf = pk_write_key_pem lib k (replicate PK_LENGTH 0);
           n \<leftarrow> strlen prk_buf;
           (_, r2) \<leftarrow> seal_ssl_resource lib (take n prk_buf) (rs ! 2);
           let rs = rs[2 := r2\<lparr>sr_type := SSL_RESOURCE_PK\<rparr>];
           let (csr_buf, w) = csr_pem lib k (replicate PK_LENGTH 0) w;
           request_certificate lib ima csr_buf rs wr s w } } } }"

definition ecall_ssl_library_init :: "('crt, 'key, 'cx, 'w) tls_lib \<Rightarrow> bytes \<Rightarrow> SSL_resource list \<Rightarrow> bool \<Rightarrow> ('crt, 'key, 'cx) tls \<Rightarrow> 'w \<Rightarrow>
    ('crt, 'key, 'cx, 'w) init_result option" where
  "ecall_ssl_library_init lib ima_buf rs wr s w = do {
     let (ret, w) = ctr_drbg_seed lib w;
     if ret \<noteq> 0 then Some (rs, wr, s, w)
     else if t_keys_generated s then Some (rs, wr, s, w)
     else do {
       (rs, wr, s, w) \<leftarrow> generate_keys lib ima_buf rs wr s w;
       Some (rs, wr, s\<lparr>t_keys_generated := True\<rparr>, w) } }"

section \<open>Contexts and sessions\<close>

definition ecall_ssl_ctx_new :: "('crt, 'key, 'cx) tls \<Rightarrow> ('crt, 'key, 'cx) tls option" where
  "ecall_ssl_ctx_new s = do {
     ca \<leftarrow> deref (t_cacert s);
     crt \<leftarrow> deref (t_cert s);
     Some (s\<lparr>t_ctx := Live \<lparr>ctx_cert = crt, ctx_pk = t_key s, ctx_CA_cert = ca, ctx_authmode = 0\<rparr>\<rparr>) }"

definition ecall_ssl_ctx_free :: "('crt, 'key, 'cx) tls \<Rightarrow> ('crt, 'key, 'cx) tls option" where
  "ecall_ssl_ctx_free s = Some (s\<lparr>t_ctx := Null\<rparr>)"

definition ecall_ssl_ctx_set_verify :: "('crt, 'key, 'cx, 'w) tls_lib \<Rightarrow> ('crt, 'key, 'cx) tls \<Rightarrow> ('crt, 'key, 'cx) tls option" where
  "ecall_ssl_ctx_set_verify lib s = do {
     c \<leftarrow> deref (t_ctx s);
     Some (s\<lparr>t_ctx := Live (c\<lparr>ctx_authmode := VERIFY_OPTIONAL lib\<rparr>)\<rparr>) }"

text \<open>\<open>calloc\<close> leaves \<open>fd\<close> and \<open>last_error\<close> zero and \<open>ssl_ctx\<close> NULL when \<open>mbedtls_ssl_setup\<close> fails.\<close>

definition ecall_ssl_new :: "('crt, 'key, 'cx, 'w) tls_lib \<Rightarrow> ('crt, 'key, 'cx) tls \<Rightarrow> ('crt, 'key, 'cx) tls option" where
  "ecall_ssl_new lib s = do {
     c \<leftarrow> deref (t_ctx s);
     let conf = \<lparr>c_authmode = ctx_authmode c, c_ca_chain = Some (ctx_CA_cert c), c_own_cert = Some (ctx_cert c, ctx_pk c)\<rparr>;
     let (res, cx) = ssl_setup lib (ssl_init_cx lib);
     Some (s\<lparr>t_ssl := Live \<lparr>ss_cntx = cx, ss_conf = Some conf, ss_last_error = 0, ss_fd = (if res \<noteq> 0 then 0 else - 1), ss_ssl_ctx = (res = 0)\<rparr>\<rparr>) }"

text \<open>\<open>&ssl->cntx\<close> is the address of the session itself, so that freeing it frees the session, which the next line uses.\<close>

definition ecall_ssl_free :: "('crt, 'key, 'cx) tls \<Rightarrow> ('crt, 'key, 'cx) tls option" where
  "ecall_ssl_free s = do {
     x \<leftarrow> deref (t_ssl s);
     let s = s\<lparr>t_ssl := Live (x\<lparr>ss_conf := None\<rparr>)\<rparr>;
     let s = s\<lparr>t_ssl := Freed\<rparr>;
     x \<leftarrow> deref (t_ssl s);
     if \<not> ss_ssl_ctx x then None
     else Some (s\<lparr>t_ssl := Null\<rparr>) }"

definition ecall_ssl_set_fd :: "('crt, 'key, 'cx, 'w) tls_lib \<Rightarrow> int \<Rightarrow> ('crt, 'key, 'cx) tls \<Rightarrow> (int \<times> ('crt, 'key, 'cx) tls) option" where
  "ecall_ssl_set_fd lib fd s = do {
     x \<leftarrow> deref (t_ssl s);
     Some (1, s\<lparr>t_ssl := Live (x\<lparr>ss_fd := fd, ss_cntx := ssl_set_bio lib (ss_cntx x) fd, ss_last_error := 0\<rparr>)\<rparr>) }"

section \<open>The connection\<close>

definition ecall_ssl_read :: "('crt, 'key, 'cx, 'w) tls_lib \<Rightarrow> nat \<Rightarrow> ('crt, 'key, 'cx) tls \<Rightarrow> 'w \<Rightarrow> ((int \<times> bytes) \<times> ('crt, 'key, 'cx) tls \<times> 'w) option" where
  "ecall_ssl_read lib n s w = do {
     x \<leftarrow> deref (t_ssl s);
     let ((ret, bs), cx, w) = ssl_read lib (ss_cntx x) n w;
     Some ((ret, bs), s\<lparr>t_ssl := Live (x\<lparr>ss_cntx := cx, ss_last_error := ret\<rparr>)\<rparr>, w) }"

definition ecall_ssl_write :: "('crt, 'key, 'cx, 'w) tls_lib \<Rightarrow> bytes \<Rightarrow> ('crt, 'key, 'cx) tls \<Rightarrow> 'w \<Rightarrow> (int \<times> ('crt, 'key, 'cx) tls \<times> 'w) option" where
  "ecall_ssl_write lib buf s w = do {
     x \<leftarrow> deref (t_ssl s);
     let (ret, cx, w) = ssl_write lib (ss_cntx x) buf w;
     Some (ret, s\<lparr>t_ssl := Live (x\<lparr>ss_cntx := cx, ss_last_error := ret\<rparr>)\<rparr>, w) }"

definition ecall_ssl_get_error :: "('crt, 'key, 'cx) tls \<Rightarrow> int option" where
  "ecall_ssl_get_error s = (case t_ssl s of Null \<Rightarrow> Some 100 | c \<Rightarrow> do { x \<leftarrow> deref c; Some (ss_last_error x) })"

text \<open>The handshake of a session whose configuration is gone is a fault.\<close>

definition handshake :: "('crt, 'key, 'cx, 'w) tls_lib \<Rightarrow> ('crt, 'key, 'cx) ssl_session \<Rightarrow> 'w \<Rightarrow> (int \<times> ('crt, 'key, 'cx) ssl_session \<times> 'w) option" where
  "handshake lib x w = do {
     conf \<leftarrow> ss_conf x;
     let (ret, cx, w) = ssl_handshake lib conf (ss_cntx x) w;
     Some (ret, x\<lparr>ss_cntx := cx\<rparr>, w) }"

definition ecall_ssl_connect :: "('crt, 'key, 'cx, 'w) tls_lib \<Rightarrow> ('crt, 'key, 'cx) tls \<Rightarrow> 'w \<Rightarrow> (int \<times> ('crt, 'key, 'cx) tls \<times> 'w) option" where
  "ecall_ssl_connect lib s w = do {
     x \<leftarrow> deref (t_ssl s);
     (ret, x, w) \<leftarrow> handshake lib x w;
     let ret = (if ret = 0 then 1 else ret);
     Some (ret, s\<lparr>t_ssl := Live (x\<lparr>ss_last_error := ret\<rparr>)\<rparr>, w) }"

definition ecall_ssl_accept :: "('crt, 'key, 'cx, 'w) tls_lib \<Rightarrow> ('crt, 'key, 'cx) tls \<Rightarrow> 'w \<Rightarrow> (int \<times> ('crt, 'key, 'cx) tls \<times> 'w) option" where
  "ecall_ssl_accept lib s w = do {
     x \<leftarrow> deref (t_ssl s);
     (ret, x, w) \<leftarrow> handshake lib x w;
     Some (ret, s\<lparr>t_ssl := Live (x\<lparr>ss_last_error := ret\<rparr>)\<rparr>, w) }"

definition ecall_ssl_shutdown :: "('crt, 'key, 'cx, 'w) tls_lib \<Rightarrow> ('crt, 'key, 'cx) tls \<Rightarrow> 'w \<Rightarrow> (int \<times> ('crt, 'key, 'cx) tls \<times> 'w) option" where
  "ecall_ssl_shutdown lib s w = do {
     x \<leftarrow> deref (t_ssl s);
     let (ret, cx, w) = ssl_close_notify lib (ss_cntx x) w;
     Some (ret, s\<lparr>t_ssl := Live (x\<lparr>ss_cntx := cx\<rparr>)\<rparr>, w) }"

definition ecall_ssl_get_state :: "('crt, 'key, 'cx, 'w) tls_lib \<Rightarrow> ('crt, 'key, 'cx) tls \<Rightarrow> int option" where
  "ecall_ssl_get_state lib s = (case t_ssl s of Null \<Rightarrow> Some 100
     | c \<Rightarrow> do { x \<leftarrow> deref c; let n = ssl_state_nr lib (ss_cntx x); Some (if n = 16 then 3 else n) })"

definition ecall_ssl_get_peer_certificate :: "('crt, 'key, 'cx, 'w) tls_lib \<Rightarrow> ('crt, 'key, 'cx) tls \<Rightarrow> 'crt option" where
  "ecall_ssl_get_peer_certificate lib s = do { x \<leftarrow> deref (t_ssl s); ssl_peer_cert lib (ss_cntx x) }"

end
