(* ===== verification/Tls_Wrapper.thy ===== *)
theory Tls_Wrapper
  imports Tls
begin

text \<open>
  The untrusted side of the TLS enclave (\<open>TLSonSGX/untrusted/wrapper_sgx.cpp\<close>) and the call table of the enclave (\<open>trusted/call-table.c\<close>): the OpenSSL functions
  that the switch calls, in the build with direct calls and in the build with hot calls (\<open>HOTCALL_TLS\<close>), and the files in which the sealed
  resources are kept between runs.
\<close>

section \<open>The call table\<close>

text \<open>What an element of \<open>args\<close> points to.\<close>

datatype 'crt targ = A_chars bytes | A_int int | A_resources "SSL_resource list" | A_bool bool | A_crt 'crt

fun targ_chars :: "'crt targ \<Rightarrow> bytes option" where
  "targ_chars (A_chars b) = Some b" | "targ_chars _ = None"

fun targ_int :: "'crt targ \<Rightarrow> int option" where
  "targ_int (A_int i) = Some i" | "targ_int _ = None"

fun targ_resources :: "'crt targ \<Rightarrow> SSL_resource list option" where
  "targ_resources (A_resources r) = Some r" | "targ_resources _ = None"

fun targ_bool :: "'crt targ \<Rightarrow> bool option" where
  "targ_bool (A_bool b) = Some b" | "targ_bool _ = None"

definition targ_at :: "'a targ list \<Rightarrow> nat \<Rightarrow> 'a targ option" where
  "targ_at args i = (if i < length args then Some (args ! i) else None)"

definition hotcall_ecall_ssl_write :: int where "hotcall_ecall_ssl_write = 0"
definition hotcall_ecall_ssl_read :: int where "hotcall_ecall_ssl_read = 1"
definition hotcall_ecall_ssl_library_init :: int where "hotcall_ecall_ssl_library_init = 2"
definition hotcall_ecall_ssl_ctx_new :: int where "hotcall_ecall_ssl_ctx_new = 3"
definition hotcall_ecall_ssl_new :: int where "hotcall_ecall_ssl_new = 4"
definition hotcall_ecall_ssl_ctx_free :: int where "hotcall_ecall_ssl_ctx_free = 5"
definition hotcall_ecall_ssl_ctx_set_verify :: int where "hotcall_ecall_ssl_ctx_set_verify = 6"
definition hotcall_ecall_ssl_get_peer_certificate :: int where "hotcall_ecall_ssl_get_peer_certificate = 7"
definition hotcall_ecall_ssl_load_error_strings :: int where "hotcall_ecall_ssl_load_error_strings = 8"
definition hotcall_ecall_ssl_free :: int where "hotcall_ecall_ssl_free = 9"
definition hotcall_ecall_ssl_get_error :: int where "hotcall_ecall_ssl_get_error = 10"
definition hotcall_ecall_ssl_set_fd :: int where "hotcall_ecall_ssl_set_fd = 11"
definition hotcall_ecall_ssl_connect :: int where "hotcall_ecall_ssl_connect = 12"
definition hotcall_ecall_ssl_accept :: int where "hotcall_ecall_ssl_accept = 13"
definition hotcall_ecall_ssl_get_state :: int where "hotcall_ecall_ssl_get_state = 14"
definition hotcall_ecall_ssl_shutdown :: int where "hotcall_ecall_ssl_shutdown = 15"

lemmas tls_call_numbers =
  hotcall_ecall_ssl_write_def hotcall_ecall_ssl_read_def hotcall_ecall_ssl_library_init_def hotcall_ecall_ssl_ctx_new_def hotcall_ecall_ssl_new_def
  hotcall_ecall_ssl_ctx_free_def hotcall_ecall_ssl_ctx_set_verify_def hotcall_ecall_ssl_get_peer_certificate_def
  hotcall_ecall_ssl_load_error_strings_def hotcall_ecall_ssl_free_def hotcall_ecall_ssl_get_error_def hotcall_ecall_ssl_set_fd_def
  hotcall_ecall_ssl_connect_def hotcall_ecall_ssl_accept_def hotcall_ecall_ssl_get_state_def hotcall_ecall_ssl_shutdown_def

text \<open>The result: what is written through \<open>ret\<close>, if anything, the arguments afterwards, the state and the world.\<close>

type_synonym ('crt, 'key, 'cx, 'w) call_result = "(int option \<times> 'crt targ list \<times> ('crt, 'key, 'cx) tls \<times> 'w) option"

definition to_ret :: "'crt targ list \<Rightarrow> (int \<times> ('crt, 'key, 'cx) tls \<times> 'w) option \<Rightarrow> ('crt, 'key, 'cx, 'w) call_result" where
  "to_ret args r = do { (i, s, w) \<leftarrow> r; Some (Some i, args, s, w) }"

definition no_value :: "'crt targ list \<Rightarrow> 'w \<Rightarrow> ('crt, 'key, 'cx) tls option \<Rightarrow> ('crt, 'key, 'cx, 'w) call_result" where
  "no_value args w r = do { s \<leftarrow> r; Some (None, args, s, w) }"

definition tls_execute_function :: "('crt, 'key, 'cx, 'w) tls_lib \<Rightarrow> int \<Rightarrow> 'crt targ list \<Rightarrow> ('crt, 'key, 'cx) tls \<Rightarrow> 'w \<Rightarrow> ('crt, 'key, 'cx, 'w) call_result" where
  "tls_execute_function lib f args s w =
     (if f = hotcall_ecall_ssl_write then do {
        buf \<leftarrow> targ_at args 0 \<bind> targ_chars; n \<leftarrow> targ_at args 1 \<bind> targ_int;
        bs \<leftarrow> copy_from buf (nat n);
        to_ret args (ecall_ssl_write lib bs s w) }
      else if f = hotcall_ecall_ssl_read then do {
        buf \<leftarrow> targ_at args 0 \<bind> targ_chars; n \<leftarrow> targ_at args 1 \<bind> targ_int;
        ((ret, bs), s, w) \<leftarrow> ecall_ssl_read lib (nat n) s w;
        buf \<leftarrow> overwrite buf bs;
        Some (Some ret, args[0 := A_chars buf], s, w) }
      else if f = hotcall_ecall_ssl_library_init then do {
        ima \<leftarrow> targ_at args 0 \<bind> targ_chars; rs \<leftarrow> targ_at args 2 \<bind> targ_resources; wr \<leftarrow> targ_at args 3 \<bind> targ_bool;
        (rs, wr, s, w) \<leftarrow> ecall_ssl_library_init lib ima rs wr s w;
        Some (None, args[2 := A_resources rs, 3 := A_bool wr], s, w) }
      else if f = hotcall_ecall_ssl_ctx_new then no_value args w (ecall_ssl_ctx_new s)
      else if f = hotcall_ecall_ssl_new then no_value args w (ecall_ssl_new lib s)
      else if f = hotcall_ecall_ssl_ctx_free then no_value args w (ecall_ssl_ctx_free s)
      else if f = hotcall_ecall_ssl_ctx_set_verify then no_value args w (ecall_ssl_ctx_set_verify lib s)
      else if f = hotcall_ecall_ssl_get_peer_certificate then do {
        c \<leftarrow> ecall_ssl_get_peer_certificate lib s;
        Some (None, args[0 := A_crt c], s, w) }
      else if f = hotcall_ecall_ssl_load_error_strings then no_value args w (Some s)
      else if f = hotcall_ecall_ssl_free then no_value args w (ecall_ssl_free s)
      else if f = hotcall_ecall_ssl_get_error then do { i \<leftarrow> ecall_ssl_get_error s; Some (Some i, args, s, w) }
      else if f = hotcall_ecall_ssl_set_fd then do {
        fd \<leftarrow> targ_at args 0 \<bind> targ_int;
        (i, s) \<leftarrow> ecall_ssl_set_fd lib fd s;
        Some (Some i, args, s, w) }
      else if f = hotcall_ecall_ssl_connect then to_ret args (ecall_ssl_connect lib s w)
      else if f = hotcall_ecall_ssl_accept then to_ret args (ecall_ssl_accept lib s w)
      else if f = hotcall_ecall_ssl_get_state then do { i \<leftarrow> ecall_ssl_get_state lib s; Some (Some i, args, s, w) }
      else if f = hotcall_ecall_ssl_shutdown then to_ret args (ecall_ssl_shutdown lib s w)
      else Some (None, args, s, w))"

section \<open>The untrusted state\<close>

text \<open>The enclave and the rest of the world, and the files of the working directory; a file outside of \<open>ta_writable\<close> cannot be opened for writing.\<close>

record ('crt, 'key, 'cx, 'w) tls_app =
  ta_tls :: "('crt, 'key, 'cx) tls"
  ta_world :: 'w
  ta_files :: "string \<Rightarrow> bytes option"
  ta_writable :: "string \<Rightarrow> bool"

text \<open>\<open>ECALL\<close> with hot calls: \<open>return_val\<close> points to a variable that holds \<open>r\<close> before the call.\<close>

definition tls_hotcall :: "('crt, 'key, 'cx, 'w) tls_lib \<Rightarrow> int \<Rightarrow> 'crt targ list \<Rightarrow> int \<Rightarrow> ('crt, 'key, 'cx, 'w) tls_app \<Rightarrow>
    (int \<times> 'crt targ list \<times> ('crt, 'key, 'cx, 'w) tls_app) option" where
  "tls_hotcall lib f args r a = do {
     (i, args, s, w) \<leftarrow> tls_execute_function lib f args (ta_tls a) (ta_world a);
     Some (case i of None \<Rightarrow> r | Some i \<Rightarrow> i, args, a\<lparr>ta_tls := s, ta_world := w\<rparr>) }"

definition after_call :: "('crt, 'key, 'cx, 'w) tls_app \<Rightarrow> ('r \<times> ('crt, 'key, 'cx) tls \<times> 'w) option \<Rightarrow> ('r \<times> ('crt, 'key, 'cx, 'w) tls_app) option" where
  "after_call a r = do { (i, s, w) \<leftarrow> r; Some (i, a\<lparr>ta_tls := s, ta_world := w\<rparr>) }"

definition after_void :: "('crt, 'key, 'cx, 'w) tls_app \<Rightarrow> ('crt, 'key, 'cx) tls option \<Rightarrow> ('crt, 'key, 'cx, 'w) tls_app option" where
  "after_void a r = do { s \<leftarrow> r; Some (a\<lparr>ta_tls := s\<rparr>) }"

definition hot_void :: "('crt, 'key, 'cx, 'w) tls_lib \<Rightarrow> int \<Rightarrow> ('crt, 'key, 'cx, 'w) tls_app \<Rightarrow> ('crt, 'key, 'cx, 'w) tls_app option" where
  "hot_void lib f a = do { (_, _, a) \<leftarrow> tls_hotcall lib f [] 0 a; Some a }"

definition hot_value :: "('crt, 'key, 'cx, 'w) tls_lib \<Rightarrow> int \<Rightarrow> 'crt targ list \<Rightarrow> ('crt, 'key, 'cx, 'w) tls_app \<Rightarrow> (int \<times> ('crt, 'key, 'cx, 'w) tls_app) option" where
  "hot_value lib f args a = do { (i, _, a) \<leftarrow> tls_hotcall lib f args 0 a; Some (i, a) }"

section \<open>Sealed resources on disk\<close>

definition getIMAmeasure :: "(string \<times> string) list \<Rightarrow> string" where
  "getIMAmeasure lines = (let currentMeasure = foldl (\<lambda>m (col4, col5). if col5 = ''/usr/local/sbin/ovs-vswitchd'' then col4 else m) [] lines;
     currentMeasure = ''sha256:TEST_MEASSUREMENT''
     in ''IMA'' @ currentMeasure)"

text \<open>A path is built in an array of 32 characters.\<close>

definition resource_path :: "string \<Rightarrow> string \<Rightarrow> string option" where
  "resource_path prefix program_name = (if length prefix + length program_name < 32 then Some (prefix @ program_name) else None)"

definition resource_prefix :: "u8 \<Rightarrow> string option" where
  "resource_prefix t = (if t = SSL_RESOURCE_CA_CERT then Some ''./.sealed_ca_cert_''
     else if t = SSL_RESOURCE_CERT then Some ''./.sealed_cert_''
     else if t = SSL_RESOURCE_PK then Some ''./.sealed_pk_''
     else None)"

text \<open>An empty file fails the assertion; a file with more than 10000 bytes after the first is read behind the end of the array.\<close>

definition read_ssl_resource :: "(string \<Rightarrow> bytes option) \<Rightarrow> string \<Rightarrow> SSL_resource \<Rightarrow> SSL_resource option" where
  "read_ssl_resource files path r = (case files path of
       None \<Rightarrow> Some (r\<lparr>sr_exists := 0\<rparr>)
     | Some [] \<Rightarrow> None
     | Some (t # bs) \<Rightarrow> do {
         data \<leftarrow> overwrite (sr_sealed_data r) bs;
         Some (r\<lparr>sr_exists := 1, sr_type := t, sr_len := of_nat (length bs), sr_sealed_data := data\<rparr>) })"

fun read_all_resources :: "(string \<Rightarrow> bytes option) \<Rightarrow> string \<Rightarrow> nat list \<Rightarrow> SSL_resource list \<Rightarrow> SSL_resource list option" where
  "read_all_resources files program_name [] rs = Some rs"
| "read_all_resources files program_name (i # is) rs = do {
     prefix \<leftarrow> resource_prefix (of_nat i);
     path \<leftarrow> resource_path prefix program_name;
     r \<leftarrow> read_ssl_resource files path (rs ! i);
     read_all_resources files program_name is (rs[i := r]) }"

definition read_ssl_resources :: "(string \<Rightarrow> bytes option) \<Rightarrow> string \<Rightarrow> SSL_resource list \<Rightarrow> SSL_resource list option" where
  "read_ssl_resources files program_name rs = read_all_resources files program_name [0..<N_SSL_RESOURCES] rs"

text \<open>The loop that writes the resources; a type that is not known ends it.\<close>

fun write_resources :: "('crt, 'key, 'cx, 'w) tls_app \<Rightarrow> string \<Rightarrow> SSL_resource list \<Rightarrow> ('crt, 'key, 'cx, 'w) tls_app option" where
  "write_resources a program_name [] = Some a"
| "write_resources a program_name (r # rs) = (case resource_prefix (sr_type r) of
       None \<Rightarrow> Some a
     | Some prefix \<Rightarrow> do {
         path \<leftarrow> resource_path prefix program_name;
         if ta_writable a path
         then do {
           bs \<leftarrow> copy_from (sr_sealed_data r) (unat (sr_len r));
           write_resources (a\<lparr>ta_files := (ta_files a)(path := Some (sr_type r # bs))\<rparr>) program_name rs }
         else write_resources a program_name rs })"

text \<open>\<open>rs\<close> is the uninitialised array of resources; the buffer with the measurement is copied with the 256 bytes that \<open>mSize\<close> says.\<close>

definition SSL_library_init :: "('crt, 'key, 'cx, 'w) tls_lib \<Rightarrow> bool \<Rightarrow> SSL_resource list \<Rightarrow> (string \<times> string) list \<Rightarrow> string \<Rightarrow>
    ('crt, 'key, 'cx, 'w) tls_app \<Rightarrow> ('crt, 'key, 'cx, 'w) tls_app option" where
  "SSL_library_init lib hot rs lines program_name a = do {
     let lastMeasure = take 256 (c_str (getIMAmeasure lines) @ [0] @ garbage lib 256);
     rs \<leftarrow> read_ssl_resources (ta_files a) program_name rs;
     (rs, wr, a) \<leftarrow> (if hot
       then do {
         (_, args, a) \<leftarrow> tls_hotcall lib hotcall_ecall_ssl_library_init [A_chars lastMeasure, A_int 256, A_resources rs, A_bool False] 0 a;
         rs \<leftarrow> targ_at args 2 \<bind> targ_resources;
         wr \<leftarrow> targ_at args 3 \<bind> targ_bool;
         Some (rs, wr, a) }
       else do {
         (rs, wr, s, w) \<leftarrow> ecall_ssl_library_init lib lastMeasure rs False (ta_tls a) (ta_world a);
         Some (rs, wr, a\<lparr>ta_tls := s, ta_world := w\<rparr>) });
     if \<not> wr then Some a else write_resources a program_name rs }"

section \<open>The OpenSSL functions\<close>

definition SSL_CTX_new :: "('crt, 'key, 'cx, 'w) tls_lib \<Rightarrow> bool \<Rightarrow> ('crt, 'key, 'cx, 'w) tls_app \<Rightarrow> ('crt, 'key, 'cx, 'w) tls_app option" where
  "SSL_CTX_new lib hot a = (if hot then hot_void lib hotcall_ecall_ssl_ctx_new a else after_void a (ecall_ssl_ctx_new (ta_tls a)))"

definition SSL_CTX_free :: "('crt, 'key, 'cx, 'w) tls_lib \<Rightarrow> bool \<Rightarrow> ('crt, 'key, 'cx, 'w) tls_app \<Rightarrow> ('crt, 'key, 'cx, 'w) tls_app option" where
  "SSL_CTX_free lib hot a = (if hot then hot_void lib hotcall_ecall_ssl_ctx_free a else after_void a (ecall_ssl_ctx_free (ta_tls a)))"

definition SSL_CTX_set_verify :: "('crt, 'key, 'cx, 'w) tls_lib \<Rightarrow> bool \<Rightarrow> ('crt, 'key, 'cx, 'w) tls_app \<Rightarrow> ('crt, 'key, 'cx, 'w) tls_app option" where
  "SSL_CTX_set_verify lib hot a = (if hot then hot_void lib hotcall_ecall_ssl_ctx_set_verify a else after_void a (ecall_ssl_ctx_set_verify lib (ta_tls a)))"

definition SSL_new :: "('crt, 'key, 'cx, 'w) tls_lib \<Rightarrow> bool \<Rightarrow> ('crt, 'key, 'cx, 'w) tls_app \<Rightarrow> ('crt, 'key, 'cx, 'w) tls_app option" where
  "SSL_new lib hot a = (if hot then hot_void lib hotcall_ecall_ssl_new a else after_void a (ecall_ssl_new lib (ta_tls a)))"

definition SSL_free :: "('crt, 'key, 'cx, 'w) tls_lib \<Rightarrow> bool \<Rightarrow> ('crt, 'key, 'cx, 'w) tls_app \<Rightarrow> ('crt, 'key, 'cx, 'w) tls_app option" where
  "SSL_free lib hot a = (if hot then hot_void lib hotcall_ecall_ssl_free a else after_void a (ecall_ssl_free (ta_tls a)))"

definition SSL_get_peer_certificate :: "('crt, 'key, 'cx, 'w) tls_lib \<Rightarrow> bool \<Rightarrow> ('crt, 'key, 'cx, 'w) tls_app \<Rightarrow> 'crt option" where
  "SSL_get_peer_certificate lib hot a = (if hot
     then do {
       (_, args, _) \<leftarrow> tls_hotcall lib hotcall_ecall_ssl_get_peer_certificate [A_crt (crt_init lib)] 0 a;
       case args of [A_crt c] \<Rightarrow> Some c | _ \<Rightarrow> None }
     else ecall_ssl_get_peer_certificate lib (ta_tls a))"

definition SSL_get_error :: "('crt, 'key, 'cx, 'w) tls_lib \<Rightarrow> bool \<Rightarrow> int \<Rightarrow> ('crt, 'key, 'cx, 'w) tls_app \<Rightarrow> int option" where
  "SSL_get_error lib hot ret a = (if hot then map_option fst (hot_value lib hotcall_ecall_ssl_get_error [A_int ret] a) else ecall_ssl_get_error (ta_tls a))"

definition SSL_NOTHING :: int where "SSL_NOTHING = 1"
definition SSL_WRITING :: int where "SSL_WRITING = 2"
definition SSL_READING :: int where "SSL_READING = 3"

definition SSL_want :: "('crt, 'key, 'cx, 'w) tls_lib \<Rightarrow> bool \<Rightarrow> ('crt, 'key, 'cx, 'w) tls_app \<Rightarrow> int option" where
  "SSL_want lib hot a = do {
     ret1 \<leftarrow> SSL_get_error lib hot 1 a;
     Some (if ret1 = ERR_WANT_READ lib then SSL_READING else if ret1 = ERR_WANT_WRITE lib then SSL_WRITING else ret1) }"

definition SSL_set_fd :: "('crt, 'key, 'cx, 'w) tls_lib \<Rightarrow> bool \<Rightarrow> int \<Rightarrow> ('crt, 'key, 'cx, 'w) tls_app \<Rightarrow> (int \<times> ('crt, 'key, 'cx, 'w) tls_app) option" where
  "SSL_set_fd lib hot fd a = do {
     (_, a) \<leftarrow> (if hot then hot_value lib hotcall_ecall_ssl_set_fd [A_int fd] a
       else do { (i, s) \<leftarrow> ecall_ssl_set_fd lib fd (ta_tls a); Some (i, a\<lparr>ta_tls := s\<rparr>) });
     Some (1, a) }"

text \<open>\<open>SSL_read\<close> with the bytes that it puts into the buffer.\<close>

definition SSL_read :: "('crt, 'key, 'cx, 'w) tls_lib \<Rightarrow> bool \<Rightarrow> bytes \<Rightarrow> nat \<Rightarrow> ('crt, 'key, 'cx, 'w) tls_app \<Rightarrow> ((int \<times> bytes) \<times> ('crt, 'key, 'cx, 'w) tls_app) option" where
  "SSL_read lib hot buf num a = (if hot
     then do {
       (ret, args, a) \<leftarrow> tls_hotcall lib hotcall_ecall_ssl_read [A_chars buf, A_int (int num)] 0 a;
       buf \<leftarrow> targ_at args 0 \<bind> targ_chars;
       Some ((ret, take (nat ret) buf), a) }
     else do {
       ((ret, bs), a) \<leftarrow> after_call a (ecall_ssl_read lib num (ta_tls a) (ta_world a));
       buf \<leftarrow> overwrite buf bs;
       Some ((ret, take (nat ret) buf), a) })"

definition SSL_write :: "('crt, 'key, 'cx, 'w) tls_lib \<Rightarrow> bool \<Rightarrow> bytes \<Rightarrow> ('crt, 'key, 'cx, 'w) tls_app \<Rightarrow> (int \<times> ('crt, 'key, 'cx, 'w) tls_app) option" where
  "SSL_write lib hot buf a = (if hot then hot_value lib hotcall_ecall_ssl_write [A_chars buf, A_int (int (length buf))] a
     else after_call a (ecall_ssl_write lib buf (ta_tls a) (ta_world a)))"

definition SSL_connect :: "('crt, 'key, 'cx, 'w) tls_lib \<Rightarrow> bool \<Rightarrow> ('crt, 'key, 'cx, 'w) tls_app \<Rightarrow> (int \<times> ('crt, 'key, 'cx, 'w) tls_app) option" where
  "SSL_connect lib hot a = (if hot then hot_value lib hotcall_ecall_ssl_connect [] a else after_call a (ecall_ssl_connect lib (ta_tls a) (ta_world a)))"

definition SSL_accept :: "('crt, 'key, 'cx, 'w) tls_lib \<Rightarrow> bool \<Rightarrow> ('crt, 'key, 'cx, 'w) tls_app \<Rightarrow> (int \<times> ('crt, 'key, 'cx, 'w) tls_app) option" where
  "SSL_accept lib hot a = (if hot then hot_value lib hotcall_ecall_ssl_accept [] a else after_call a (ecall_ssl_accept lib (ta_tls a) (ta_world a)))"

definition SSL_shutdown :: "('crt, 'key, 'cx, 'w) tls_lib \<Rightarrow> bool \<Rightarrow> ('crt, 'key, 'cx, 'w) tls_app \<Rightarrow> (int \<times> ('crt, 'key, 'cx, 'w) tls_app) option" where
  "SSL_shutdown lib hot a = (if hot then hot_value lib hotcall_ecall_ssl_shutdown [] a else after_call a (ecall_ssl_shutdown lib (ta_tls a) (ta_world a)))"

definition SSL_get_state :: "('crt, 'key, 'cx, 'w) tls_lib \<Rightarrow> bool \<Rightarrow> ('crt, 'key, 'cx, 'w) tls_app \<Rightarrow> int option" where
  "SSL_get_state lib hot a = (if hot then map_option fst (hot_value lib hotcall_ecall_ssl_get_state [] a) else ecall_ssl_get_state lib (ta_tls a))"

text \<open>Functions of OpenSSL that the wrapper answers without asking the enclave.\<close>

definition SSL_get_verify_mode :: int where "SSL_get_verify_mode = 1"
definition SSL_CTX_check_private_key :: int where "SSL_CTX_check_private_key = 1"

section \<open>The two builds\<close>

lemma hot_is_direct:
  "SSL_CTX_new lib hot a = after_void a (ecall_ssl_ctx_new (ta_tls a))"
  "SSL_CTX_free lib hot a = after_void a (ecall_ssl_ctx_free (ta_tls a))"
  "SSL_CTX_set_verify lib hot a = after_void a (ecall_ssl_ctx_set_verify lib (ta_tls a))"
  "SSL_new lib hot a = after_void a (ecall_ssl_new lib (ta_tls a))"
  "SSL_free lib hot a = after_void a (ecall_ssl_free (ta_tls a))"
  "SSL_get_peer_certificate lib hot a = ecall_ssl_get_peer_certificate lib (ta_tls a)"
  "SSL_get_error lib hot ret a = ecall_ssl_get_error (ta_tls a)"
  "SSL_get_state lib hot a = ecall_ssl_get_state lib (ta_tls a)"
  by (cases a; simp add: SSL_CTX_new_def SSL_CTX_free_def SSL_CTX_set_verify_def SSL_new_def SSL_free_def SSL_get_peer_certificate_def SSL_get_error_def
      SSL_get_state_def hot_void_def hot_value_def after_void_def tls_hotcall_def tls_execute_function_def tls_call_numbers no_value_def targ_at_def
      split: option.split bind_splits)+

lemma hot_is_direct_values:
  "SSL_write lib hot buf a = after_call a (ecall_ssl_write lib buf (ta_tls a) (ta_world a))"
  "SSL_connect lib hot a = after_call a (ecall_ssl_connect lib (ta_tls a) (ta_world a))"
  "SSL_accept lib hot a = after_call a (ecall_ssl_accept lib (ta_tls a) (ta_world a))"
  "SSL_shutdown lib hot a = after_call a (ecall_ssl_shutdown lib (ta_tls a) (ta_world a))"
  "SSL_set_fd lib hot fd a = do { (i, s) \<leftarrow> ecall_ssl_set_fd lib fd (ta_tls a); Some (1, a\<lparr>ta_tls := s\<rparr>) }"
  "SSL_read lib hot buf n a = do {
     ((ret, bs), a) \<leftarrow> after_call a (ecall_ssl_read lib n (ta_tls a) (ta_world a));
     buf \<leftarrow> overwrite buf bs;
     Some ((ret, take (nat ret) buf), a) }"
  by (cases a; simp add: SSL_write_def SSL_connect_def SSL_accept_def SSL_shutdown_def SSL_set_fd_def SSL_read_def hot_value_def after_call_def tls_hotcall_def
      tls_execute_function_def tls_call_numbers to_ret_def targ_at_def copy_from_def split: option.split bind_splits prod.splits)+

end
