(* ===== verification/Tls_Spec.thy ===== *)
theory Tls_Spec
  imports Tls_Wrapper
begin

text \<open>
  The credentials of the switch: how they come into the enclave, when they are written to disk, and what a later run makes of them.
\<close>

section \<open>Sealing\<close>

text \<open>What the SDK promises of sealing, for the sizes that occur; a sealed text fits the array of a resource.\<close>

definition sealing_ok :: "('crt, 'key, 'cx, 'w) tls_lib \<Rightarrow> bool" where
  "sealing_ok lib \<longleftrightarrow> (\<forall>t. length t \<le> 6001 \<longrightarrow> (\<exists>b. sgx_seal_data lib t = Some b \<and> sgx_unseal_data lib b = Some t
     \<and> sgx_get_encrypt_txt_len lib b = length t \<and> length b = unat (sgx_calc_sealed_data_size lib (length t)) \<and> length b \<le> SEALED_MAX))"

text \<open>A resource that holds the sealed text \<open>t\<close>.\<close>

definition holds :: "('crt, 'key, 'cx, 'w) tls_lib \<Rightarrow> bytes \<Rightarrow> bytes \<Rightarrow> bool" where
  "holds lib t b \<longleftrightarrow> sgx_unseal_data lib b = Some t \<and> sgx_get_encrypt_txt_len lib b = length t \<and> length b \<le> SEALED_MAX"

lemma overwrite_all: "length bs = length buf \<Longrightarrow> overwrite buf bs = Some bs"
  by (simp add: overwrite_def)

lemma copy_from_overwritten: "overwrite buf bs = Some buf' \<Longrightarrow> copy_from buf' (length bs) = Some bs"
  by (auto simp: overwrite_def copy_from_def split: if_splits)

lemma seal_ok:
  assumes "sealing_ok lib" and "length t \<le> 6001" and "length (sr_sealed_data r) = SEALED_MAX"
  obtains b r' where "seal_ssl_resource lib t r = Some (True, r')" "holds lib t b" "copy_from (sr_sealed_data r') (unat (sr_len r')) = Some b"
    "length (sr_sealed_data r') = SEALED_MAX"
proof -
  obtain b where b: "sgx_seal_data lib t = Some b" "sgx_unseal_data lib b = Some t" "sgx_get_encrypt_txt_len lib b = length t"
    "length b = unat (sgx_calc_sealed_data_size lib (length t))" "length b \<le> SEALED_MAX"
    using assms(1,2) by (auto simp: sealing_ok_def)
  have o: "overwrite (sr_sealed_data r) b = Some (b @ drop (length b) (sr_sealed_data r))" using b(5) assms(3) by (simp add: overwrite_def)
  let ?r = "r\<lparr>sr_len := sgx_calc_sealed_data_size lib (length t), sr_unsealed_len := of_nat (length t), sr_sealed_data := b @ drop (length b) (sr_sealed_data r)\<rparr>"
  have "seal_ssl_resource lib t r = Some (True, ?r)"
    using b(1,4) o by (simp add: seal_ssl_resource_def ecall_seal_def overwrite_all Let_def)
  then show thesis
    using b assms(3) copy_from_overwritten [OF o] by (intro that [of ?r b]) (simp_all add: holds_def)
qed

lemma unseal_certificate_ok: "holds lib t b \<Longrightarrow> crt_parse lib (crt_init lib) t = (0, c) \<Longrightarrow> unseal_certificate lib b = Some (Live c)"
  by (simp add: unseal_certificate_def ecall_unseal_def holds_def overwrite_all)

lemma unseal_key_ok: "holds lib t b \<Longrightarrow> unseal_key lib b k = Some (pk_parse_key lib k (t @ [0]))"
  by (simp add: unseal_key_def ecall_unseal_def holds_def overwrite_def)

section \<open>The files\<close>

definition blank :: "SSL_resource list \<Rightarrow> bool" where
  "blank rs \<longleftrightarrow> length rs = N_SSL_RESOURCES \<and> (\<forall>r \<in> set rs. length (sr_sealed_data r) = SEALED_MAX)"

definition resource_file :: "string \<Rightarrow> nat \<Rightarrow> string" where
  "resource_file name i = (if i = 0 then ''./.sealed_ca_cert_'' else if i = 1 then ''./.sealed_cert_'' else ''./.sealed_pk_'') @ name"

lemma resource_paths:
  assumes "length name \<le> 13" and "i < N_SSL_RESOURCES"
  shows "(do { prefix \<leftarrow> resource_prefix (of_nat i); resource_path prefix name }) = Some (resource_file name i)"
proof -
  have "i = 0 \<or> i = 1 \<or> i = 2" using assms(2) by (auto simp: N_SSL_RESOURCES_def)
  then show ?thesis using assms(1)
    by (auto simp: resource_prefix_def resource_path_def resource_file_def SSL_RESOURCE_CA_CERT_def SSL_RESOURCE_CERT_def SSL_RESOURCE_PK_def)
qed

lemma resource_files_distinct: "i < 3 \<Longrightarrow> j < 3 \<Longrightarrow> i \<noteq> j \<Longrightarrow> resource_file name i \<noteq> resource_file name j"
  by (auto simp: resource_file_def)

lemma blankE:
  assumes "blank rs"
  obtains r0 r1 r2 where "rs = [r0, r1, r2]" "length (sr_sealed_data r0) = SEALED_MAX" "length (sr_sealed_data r1) = SEALED_MAX" "length (sr_sealed_data r2) = SEALED_MAX"
  using assms by (auto simp: blank_def N_SSL_RESOURCES_def length_Suc_conv numeral_3_eq_3)

lemma read_resources_step:
  assumes "length name \<le> 13" and "i < N_SSL_RESOURCES"
  shows "read_all_resources files name (i # is) rs = do { r \<leftarrow> read_ssl_resource files (resource_file name i) (rs ! i); read_all_resources files name is (rs[i := r]) }"
  using resource_paths [OF assms] by (auto split: bind_splits)

lemma read_resources:
  assumes "length name \<le> 13"
  shows "read_ssl_resources files name [r0, r1, r2] = do {
    r0 \<leftarrow> read_ssl_resource files (resource_file name 0) r0;
    r1 \<leftarrow> read_ssl_resource files (resource_file name 1) r1;
    r2 \<leftarrow> read_ssl_resource files (resource_file name 2) r2;
    Some [r0, r1, r2] }"
proof -
  have "[0..<N_SSL_RESOURCES] = [0, 1, 2]" by (simp add: N_SSL_RESOURCES_def upt_rec)
  then show ?thesis using read_resources_step [OF assms]
    by (simp add: read_ssl_resources_def N_SSL_RESOURCES_def del: read_all_resources.simps(2))
qed

section \<open>Initialisation\<close>

lemma library_init_direct:
  "SSL_library_init lib hot rs lines name a = do {
     rs \<leftarrow> read_ssl_resources (ta_files a) name rs;
     (rs, wr, s, w) \<leftarrow> ecall_ssl_library_init lib (take 256 (c_str (getIMAmeasure lines) @ [0] @ garbage lib 256)) rs False (ta_tls a) (ta_world a);
     let a = a\<lparr>ta_tls := s, ta_world := w\<rparr>;
     if \<not> wr then Some a else write_resources a name rs }"
  by (simp add: SSL_library_init_def tls_hotcall_def tls_execute_function_def tls_call_numbers targ_at_def Let_def split: bind_splits)

text \<open>Everything up to a handshake with the certificate authority that succeeds: \<open>k\<close> is the new key, \<open>csr\<close> the request for a certificate, \<open>cx\<close> the session.\<close>

definition connected_to_ca :: "('crt, 'key, 'cx, 'w) tls_lib \<Rightarrow> 'w \<Rightarrow> 'key \<Rightarrow> bytes \<Rightarrow> 'cx \<Rightarrow> 'w \<Rightarrow> bool" where
  "connected_to_ca lib w k csr cx w' \<longleftrightarrow> (\<exists>w1 k0 w2 w3 fd w4. ctr_drbg_seed lib w = (0, w1) \<and> pk_setup lib (pk_init lib) = (0, k0)
     \<and> rsa_gen_key lib k0 w1 = (0, k, w2) \<and> csr_pem lib k (replicate PK_LENGTH 0) w2 = (csr, w3) \<and> net_connect lib w3 = (fd, w4)
     \<and> ssl_handshake lib \<lparr>c_authmode = VERIFY_NONE lib, c_ca_chain = None, c_own_cert = None\<rparr>
         (ssl_set_bio lib (snd (ssl_setup lib (ssl_init_cx lib))) fd) w4 = (0, cx, w'))"

definition key_pem :: "('crt, 'key, 'cx, 'w) tls_lib \<Rightarrow> 'key \<Rightarrow> bytes" where
  "key_pem lib k = takeWhile (\<lambda>b. b \<noteq> 0) (pk_write_key_pem lib k (replicate PK_LENGTH 0))"

lemma init_up_to_ca:
  assumes "connected_to_ca lib w k csr cx w'" and "\<not> t_keys_generated s" and "\<not> all_ssl_resources_exist rs"
    and "0 \<in> set (pk_write_key_pem lib k (replicate PK_LENGTH 0))" and "seal_ssl_resource lib (key_pem lib k) (rs ! 2) = Some (b, r2)"
  shows "ecall_ssl_library_init lib ima rs wr s w = do {
     (_, ima_res, w) \<leftarrow> send_recv lib cx ima (garbage lib 128) w';
     (rs, wr, s, w) \<leftarrow>
      (if take 4 ima_res \<noteq> c_str ''MOK'' @ [0] then Some (rs[2 := r2\<lparr>sr_type := SSL_RESOURCE_PK\<rparr>], wr, s\<lparr>t_key := k\<rparr>, w)
       else do {
         (cer_len, cer_buf, w) \<leftarrow> send_recv lib cx csr (garbage lib 6000) w;
         cer_len \<leftarrow> cer_len;
         cer_buf1 \<leftarrow> received_pem cer_buf cer_len;
         keep_certificates lib cx cer_buf1 (rs[2 := r2\<lparr>sr_type := SSL_RESOURCE_PK\<rparr>]) wr (s\<lparr>t_key := k\<rparr>) w });
     Some (rs, wr, s\<lparr>t_keys_generated := True\<rparr>, w) }"
proof -
  obtain w1 k0 w2 w3 fd w4 where c: "ctr_drbg_seed lib w = (0, w1)" "pk_setup lib (pk_init lib) = (0, k0)" "rsa_gen_key lib k0 w1 = (0, k, w2)"
    "csr_pem lib k (replicate PK_LENGTH 0) w2 = (csr, w3)" "net_connect lib w3 = (fd, w4)"
    "ssl_handshake lib \<lparr>c_authmode = VERIFY_NONE lib, c_ca_chain = None, c_own_cert = None\<rparr>
       (ssl_set_bio lib (snd (ssl_setup lib (ssl_init_cx lib))) fd) w4 = (0, cx, w')"
    using assms(1) by (auto simp: connected_to_ca_def)
  obtain r cx0 where st: "ssl_setup lib (ssl_init_cx lib) = (r, cx0)" by (cases "ssl_setup lib (ssl_init_cx lib)")
  have "take (length (key_pem lib k)) (pk_write_key_pem lib k (replicate PK_LENGTH 0)) = key_pem lib k"
    by (simp add: key_pem_def takeWhile_eq_take [symmetric])
  then have n: "strlen (pk_write_key_pem lib k (replicate PK_LENGTH 0)) = Some (length (key_pem lib k))"
    "take (length (key_pem lib k)) (pk_write_key_pem lib k (replicate PK_LENGTH 0)) = key_pem lib k"
    using assms(4) by (simp_all add: strlen_def key_pem_def)
  show ?thesis using c st assms(2,3,5) n
    by (simp add: ecall_ssl_library_init_def generate_keys_def request_certificate_def Let_def split: bind_splits)
qed

text \<open>A switch that has never asked for its credentials.\<close>

definition unenrolled :: "string \<Rightarrow> ('crt, 'key, 'cx, 'w) tls_app \<Rightarrow> bool" where
  "unenrolled name a \<longleftrightarrow> length name \<le> 13 \<and> (\<forall>i < N_SSL_RESOURCES. ta_files a (resource_file name i) = None)
     \<and> \<not> t_keys_generated (ta_tls a) \<and> t_cert (ta_tls a) = Null \<and> t_cacert (ta_tls a) = Null"

definition ima_bytes :: "('crt, 'key, 'cx, 'w) tls_lib \<Rightarrow> (string \<times> string) list \<Rightarrow> bytes" where
  "ima_bytes lib lines = take 256 (c_str (getIMAmeasure lines) @ [0] @ garbage lib 256)"

lemma read_missing:
  assumes "unenrolled name a" and "blank rs"
  obtains r0 r1 r2 where "read_ssl_resources (ta_files a) name rs = Some [r0, r1, r2]" "\<not> all_ssl_resources_exist [r0, r1, r2]"
    "length (sr_sealed_data r0) = SEALED_MAX" "length (sr_sealed_data r1) = SEALED_MAX" "length (sr_sealed_data r2) = SEALED_MAX"
proof -
  obtain r0 r1 r2 where rs: "rs = [r0, r1, r2]" "length (sr_sealed_data r0) = SEALED_MAX" "length (sr_sealed_data r1) = SEALED_MAX" "length (sr_sealed_data r2) = SEALED_MAX"
    by (rule blankE [OF assms(2)])
  have "length name \<le> 13" "ta_files a (resource_file name 0) = None" "ta_files a (resource_file name 1) = None" "ta_files a (resource_file name 2) = None"
    using assms(1) by (simp_all add: unenrolled_def N_SSL_RESOURCES_def)
  then show thesis using rs
    by (intro that [of "r0\<lparr>sr_exists := 0\<rparr>" "r1\<lparr>sr_exists := 0\<rparr>" "r2\<lparr>sr_exists := 0\<rparr>"])
      (simp_all add: read_resources read_ssl_resource_def all_ssl_resources_exist_def)
qed

lemma key_pem_length: "length (pk_write_key_pem lib k (replicate PK_LENGTH 0)) = PK_LENGTH \<Longrightarrow> length (key_pem lib k) \<le> 6001"
  using length_takeWhile_le [of "\<lambda>b. b \<noteq> 0" "pk_write_key_pem lib k (replicate PK_LENGTH 0)"] by (simp add: key_pem_def PK_LENGTH_def)

lemma read_blank:
  assumes "\<forall>i < N_SSL_RESOURCES. ta_files a (resource_file name i) = None" and "length name \<le> 13" and "blank rs"
  shows "\<exists>rs'. read_ssl_resources (ta_files a) name rs = Some rs'"
  by (rule blankE [OF assms(3)]) (use assms(1,2) in \<open>simp add: read_resources read_ssl_resource_def N_SSL_RESOURCES_def\<close>)


section \<open>A later run\<close>

text \<open>The files of a switch with credentials: \<open>ts\<close> are the texts that are sealed in them.\<close>

definition enrolled_files :: "('crt, 'key, 'cx, 'w) tls_lib \<Rightarrow> string \<Rightarrow> (string \<Rightarrow> bytes option) \<Rightarrow> bytes list \<Rightarrow> bool" where
  "enrolled_files lib name files ts \<longleftrightarrow> length ts = N_SSL_RESOURCES
     \<and> (\<forall>i < N_SSL_RESOURCES. \<exists>b. files (resource_file name i) = Some (of_nat i # b) \<and> holds lib (ts ! i) b)"

lemma read_kept:
  assumes "files path = Some (t # b)" and "length b \<le> SEALED_MAX" and "length (sr_sealed_data r) = SEALED_MAX"
  obtains r' where "read_ssl_resource files path r = Some r'" "copy_from (sr_sealed_data r') (unat (sr_len r')) = Some b" "sr_type r' = t" "sr_exists r' = 1"
proof -
  have o: "overwrite (sr_sealed_data r) b = Some (b @ drop (length b) (sr_sealed_data r))" using assms(2,3) by (simp add: overwrite_def)
  have "unat (of_nat (length b) :: u32) = length b" using assms(2) by (simp add: SEALED_MAX_def unat_of_nat)
  then show thesis using copy_from_overwritten [OF o] o assms(1)
    by (intro that [of "r\<lparr>sr_exists := 1, sr_type := t, sr_len := of_nat (length b), sr_sealed_data := b @ drop (length b) (sr_sealed_data r)\<rparr>"])
      (simp_all add: read_ssl_resource_def)
qed

lemma later_run:
  assumes f: "enrolled_files lib name (ta_files a) [ca_text, cert_text, key_text]" and name: "length name \<le> 13" and rs: "blank rs"
    and seed: "ctr_drbg_seed lib (ta_world a) = (0, v)" and s: "\<not> t_keys_generated (ta_tls a)"
    and ca: "crt_parse lib (crt_init lib) ca_text = (0, ca)" and crt: "crt_parse lib (crt_init lib) cert_text = (0, crt)"
  shows "SSL_library_init lib hot rs lines name a = Some (a\<lparr>ta_world := v, ta_tls := (ta_tls a)\<lparr>t_cacert := Live ca, t_cert := Live crt,
      t_key := pk_parse_key lib (pk_init lib) (key_text @ [0]), t_keys_generated := True\<rparr>\<rparr>)"
proof -
  obtain r0 r1 r2 where r: "rs = [r0, r1, r2]" "length (sr_sealed_data r0) = SEALED_MAX" "length (sr_sealed_data r1) = SEALED_MAX" "length (sr_sealed_data r2) = SEALED_MAX"
    by (rule blankE [OF rs])
  have "\<forall>i < 3. \<exists>b. ta_files a (resource_file name i) = Some (of_nat i # b) \<and> holds lib ([ca_text, cert_text, key_text] ! i) b"
    using f by (simp add: enrolled_files_def N_SSL_RESOURCES_def)
  from this [rule_format, of 0] this [rule_format, of 1] this [rule_format, of 2] obtain b0 b1 b2 where
    b: "ta_files a (resource_file name 0) = Some (0 # b0)" "holds lib ca_text b0"
       "ta_files a (resource_file name 1) = Some (1 # b1)" "holds lib cert_text b1"
       "ta_files a (resource_file name 2) = Some (2 # b2)" "holds lib key_text b2" by auto
  have l: "length b0 \<le> SEALED_MAX" "length b1 \<le> SEALED_MAX" "length b2 \<le> SEALED_MAX" using b by (simp_all add: holds_def)
  obtain q0 where q0: "read_ssl_resource (ta_files a) (resource_file name 0) r0 = Some q0" "copy_from (sr_sealed_data q0) (unat (sr_len q0)) = Some b0"
    "sr_type q0 = 0" "sr_exists q0 = 1" by (rule read_kept [where files = "ta_files a", OF b(1) l(1) r(2)])
  obtain q1 where q1: "read_ssl_resource (ta_files a) (resource_file name 1) r1 = Some q1" "copy_from (sr_sealed_data q1) (unat (sr_len q1)) = Some b1"
    "sr_type q1 = 1" "sr_exists q1 = 1" by (rule read_kept [where files = "ta_files a", OF b(3) l(2) r(3)])
  obtain q2 where q2: "read_ssl_resource (ta_files a) (resource_file name 2) r2 = Some q2" "copy_from (sr_sealed_data q2) (unat (sr_len q2)) = Some b2"
    "sr_type q2 = 2" "sr_exists q2 = 1" by (rule read_kept [where files = "ta_files a", OF b(5) l(3) r(4)])
  have "load_sealed_ssl_resources lib [q0, q1, q2] ((ta_tls a)\<lparr>t_key := pk_init lib\<rparr>) =
      Some ((ta_tls a)\<lparr>t_cacert := Live ca, t_cert := Live crt, t_key := pk_parse_key lib (pk_init lib) (key_text @ [0])\<rparr>)"
    using q0(2,3) q1(2,3) q2(2,3) unseal_certificate_ok [OF b(2) ca] unseal_certificate_ok [OF b(4) crt] unseal_key_ok [OF b(6)]
    by (cases "ta_tls a") (simp add: SSL_RESOURCE_CA_CERT_def SSL_RESOURCE_CERT_def SSL_RESOURCE_PK_def)
  moreover have "all_ssl_resources_exist [q0, q1, q2]" using q0(4) q1(4) q2(4) by (simp add: all_ssl_resources_exist_def)
  ultimately show ?thesis using q0(1) q1(1) q2(1) seed s
    by (cases a; cases "ta_tls a")
      (simp add: library_init_direct r(1) read_resources [OF name] ecall_ssl_library_init_def generate_keys_def Let_def del: load_sealed_ssl_resources.simps)
qed

lemma write_kept:
  assumes "length name \<le> 13" and "i < N_SSL_RESOURCES" and "sr_type r = of_nat i" and "copy_from (sr_sealed_data r) (unat (sr_len r)) = Some b"
    and "ta_writable a (resource_file name i)"
  shows "write_resources a name (r # rs) = write_resources (a\<lparr>ta_files := (ta_files a)(resource_file name i := Some (of_nat i # b))\<rparr>) name rs"
proof -
  obtain p where "resource_prefix (of_nat i) = Some p" "resource_path p name = Some (resource_file name i)"
    using resource_paths [OF assms(1,2)] by (auto simp: bind_eq_Some_conv)
  then show ?thesis using assms(3-5) by simp
qed

lemma keep_certificates_ok:
  assumes "sealing_ok lib" and parse: "crt_parse lib (crt_init lib) pem = (0, crt)" and peer: "ssl_peer_cert lib cx = Some ca"
    and len: "length pem \<le> 6001" "length (crt_raw lib ca) \<le> 6001"
    and r: "length (sr_sealed_data r0) = SEALED_MAX" "length (sr_sealed_data r1) = SEALED_MAX"
  obtains q0 q1 b0 b1 v where "keep_certificates lib cx pem [r0, r1, r2] wr s w = Some ([q0, q1, r2], True, s\<lparr>t_cert := Live crt, t_cacert := Freed\<rparr>, v)"
    "sr_type q0 = 0" "copy_from (sr_sealed_data q0) (unat (sr_len q0)) = Some b0" "holds lib (crt_raw lib ca) b0"
    "sr_type q1 = 1" "copy_from (sr_sealed_data q1) (unat (sr_len q1)) = Some b1" "holds lib pem b1"
proof -
  obtain b1 q1 where q1: "seal_ssl_resource lib pem r1 = Some (True, q1)" "holds lib pem b1" "copy_from (sr_sealed_data q1) (unat (sr_len q1)) = Some b1"
    by (rule seal_ok [OF assms(1) len(1) r(2)])
  obtain b0 q0 where q0: "seal_ssl_resource lib (crt_raw lib ca) r0 = Some (True, q0)" "holds lib (crt_raw lib ca) b0" "copy_from (sr_sealed_data q0) (unat (sr_len q0)) = Some b0"
    by (rule seal_ok [OF assms(1) len(2) r(1)])
  obtain x y v where c: "ssl_close_notify lib cx w = (x, y, v)" by (cases "ssl_close_notify lib cx w")
  show thesis
    by (rule that [of "q0\<lparr>sr_type := SSL_RESOURCE_CA_CERT\<rparr>" "q1\<lparr>sr_type := SSL_RESOURCE_CERT\<rparr>" v b0 b1])
      (use q0 q1 c in \<open>simp_all add: keep_certificates_def parse peer SSL_RESOURCE_CA_CERT_def SSL_RESOURCE_CERT_def\<close>)
qed

lemma write_three:
  assumes name: "length name \<le> 13" and wr: "\<forall>i < N_SSL_RESOURCES. ta_writable a (resource_file name i)"
    and q0: "sr_type q0 = 0" "copy_from (sr_sealed_data q0) (unat (sr_len q0)) = Some b0" "holds lib t0 b0"
    and q1: "sr_type q1 = 1" "copy_from (sr_sealed_data q1) (unat (sr_len q1)) = Some b1" "holds lib t1 b1"
    and q2: "sr_type q2 = 2" "copy_from (sr_sealed_data q2) (unat (sr_len q2)) = Some b2" "holds lib t2 b2"
  shows "\<exists>files. write_resources a name [q0, q1, q2] = Some (a\<lparr>ta_files := files\<rparr>) \<and> enrolled_files lib name files [t0, t1, t2]"
proof -
  let ?f = "resource_file name"
  let ?files = "(ta_files a)(?f 0 := Some (0 # b0), ?f 1 := Some (1 # b1), ?f 2 := Some (2 # b2))"
  have w: "write_resources a name [q0, q1, q2] = Some (a\<lparr>ta_files := ?files\<rparr>)"
    using write_kept [OF name, of 0 q0 b0 a "[q1, q2]"] write_kept [OF name, of 1 q1 b1 "a\<lparr>ta_files := (ta_files a)(?f 0 := Some (0 # b0))\<rparr>" "[q2]"]
      write_kept [OF name, of 2 q2 b2 "a\<lparr>ta_files := (ta_files a)(?f 0 := Some (0 # b0), ?f 1 := Some (1 # b1))\<rparr>" "[]"]
      wr q0(1,2) q1(1,2) q2(1,2) by (simp add: N_SSL_RESOURCES_def del: write_resources.simps(2))
  have d: "?f 0 \<noteq> ?f 1" "?f 0 \<noteq> ?f 2" "?f 1 \<noteq> ?f 2" by (simp_all add: resource_file_def)
  have "\<exists>b. ?files (?f i) = Some (of_nat i # b) \<and> holds lib ([t0, t1, t2] ! i) b" if "i < 3" for i
  proof -
    have "i = 0 \<or> i = 1 \<or> i = 2" using that by auto
    then show ?thesis using d q0(3) q1(3) q2(3) by auto
  qed
  then have "enrolled_files lib name ?files [t0, t1, t2]" by (simp add: enrolled_files_def N_SSL_RESOURCES_def del: fun_upd_apply)
  then show ?thesis using w by blast
qed

lemma overwrite_length: "overwrite buf bs = Some buf' \<Longrightarrow> length buf' = length buf"
  by (auto simp: overwrite_def split: if_splits)

lemma recv_loop_length:
  assumes "recv_loop lib cx buf w = Some x"
  shows "length (fst (snd x)) = length buf"
proof (rule recv_loop.raw_induct [where P = "\<lambda>lib cx buf w x. length (fst (snd x)) = length buf", OF _ assms])
  fix loop and lib :: "('crt, 'key, 'cx, 'w) tls_lib" and cx buf w x
  assume IH: "\<And>lib cx buf w x. loop lib cx buf w = Some x \<Longrightarrow> length (fst (snd x)) = length buf"
    and body: "(do { buf \<leftarrow> overwrite buf (replicate 8 0);
      let ((ret, bs), cx, w) = ssl_read lib cx 6000 w;
      if ret = ERR_WANT_READ lib \<or> ret = ERR_WANT_WRITE lib then loop lib cx buf w
      else if ret = ERR_PEER_CLOSE_NOTIFY lib \<or> ret \<le> 0 then Some (None, buf, w)
      else do { buf \<leftarrow> overwrite buf bs; Some (Some (nat ret), buf, w) } }) = Some x"
  obtain ret bs cx' w' where rd: "ssl_read lib cx 6000 w = ((ret, bs), cx', w')" by (metis prod.exhaust)
  obtain b where b: "overwrite buf (replicate 8 0) = Some b" using body by (auto simp: bind_eq_Some_conv)
  have "length (fst (snd x)) = length b" using body b rd IH [of lib cx' b w' x]
    by (auto simp: bind_eq_Some_conv dest: overwrite_length split: if_splits)
  then show "length (fst (snd x)) = length buf" using overwrite_length [OF b] by simp
qed

lemma received_pem_length: "received_pem buf n = Some pem \<Longrightarrow> length pem \<le> Suc (length buf)"
  by (auto simp: received_pem_def copy_from_def bind_eq_Some_conv split: if_splits)


section \<open>An example\<close>

text \<open>An authority that answers a switch in the world 0 with \<open>MOK\<close> and a certificate, and any other with a refusal.\<close>

definition ex_tls :: "(bytes, bytes, nat, nat) tls_lib" where
  "ex_tls = \<lparr>lib_garbage = (\<lambda>_. 1), ERR_WANT_READ = - 26880, ERR_WANT_WRITE = - 26752, ERR_PEER_CLOSE_NOTIFY = - 30848,
     VERIFY_NONE = 0, VERIFY_OPTIONAL = 1, VERIFY_REQUIRED = 2, ctr_drbg_seed = (\<lambda>w. (0, w)), pk_init = [], pk_setup = (\<lambda>k. (0, k)),
     rsa_gen_key = (\<lambda>k w. (0, [75], w)), pk_write_key_pem = (\<lambda>k buf. k @ drop (length k) buf), csr_pem = (\<lambda>k buf w. (buf, w)),
     pk_parse_key = (\<lambda>_. butlast), crt_init = [], crt_parse = (\<lambda>_ bs. (0, bs)), crt_raw = (\<lambda>c. c), net_connect = (\<lambda>w. (3, w)),
     ssl_init_cx = 0, ssl_setup = (\<lambda>cx. (0, cx)), ssl_set_bio = (\<lambda>cx fd. cx), ssl_handshake = (\<lambda>_ cx w. (0, cx, w)),
     ssl_read = (\<lambda>cx n w. if w = 0 then ((3, c_str ''MOK''), cx, 1) else if w = 1 then ((6, c_str ''-----C''), cx, 2) else ((2, c_str ''NO''), cx, 3)),
     ssl_write = (\<lambda>cx bs w. (int (length bs), cx, w)), ssl_close_notify = (\<lambda>cx w. (0, cx, w)), ssl_peer_cert = (\<lambda>_. Some [1]),
     ssl_state_nr = int, sgx_calc_sealed_data_size = of_nat, sgx_seal_data = Some, sgx_unseal_data = Some, sgx_get_encrypt_txt_len = length\<rparr>"

definition ex_app :: "nat \<Rightarrow> (bytes, bytes, nat, nat) tls_app" where
  "ex_app w = \<lparr>ta_tls = tls_start [], ta_world = w, ta_files = (\<lambda>_. None), ta_writable = (\<lambda>_. True)\<rparr>"

definition ex_resources :: "SSL_resource list" where
  "ex_resources = replicate N_SSL_RESOURCES \<lparr>sr_sealed_data = replicate SEALED_MAX 9, sr_len = 0, sr_unsealed_len = 0, sr_type = 0, sr_exists = 0\<rparr>"

lemma send_recv_once:
  assumes "ssl_write lib cx (take 2000 (send_buf @ garbage lib 2000)) w = (r, cx1, w1)" and "ssl_read lib cx1 6000 w1 = ((ret, bs), cx2, w2)"
    and "0 < ret" and "ret \<noteq> ERR_WANT_READ lib" and "ret \<noteq> ERR_WANT_WRITE lib" and "ret \<noteq> ERR_PEER_CLOSE_NOTIFY lib" and "8 \<le> length buf" and "length bs \<le> length buf"
  shows "send_recv lib cx send_buf buf w = Some (Some (nat ret), bs @ drop (length bs) (replicate 8 0 @ drop 8 buf), w2)"
  using assms by (simp add: send_recv_def recv_loop.simps [of lib cx1] overwrite_def)

lemma ex_tls_ok:
  "sealing_ok ex_tls" "blank ex_resources" "unenrolled ''ovs-vswitchd'' (ex_app w)" "connected_to_ca ex_tls (ta_world (ex_app w)) [75] (replicate PK_LENGTH 0) 0 w"
  "length (pk_write_key_pem ex_tls [75] (replicate PK_LENGTH 0)) = PK_LENGTH" "0 \<in> set (pk_write_key_pem ex_tls [75] (replicate PK_LENGTH 0))"
proof -
  show "sealing_ok ex_tls" by (simp add: sealing_ok_def ex_tls_def unat_of_nat SEALED_MAX_def)
  show "blank ex_resources" by (simp add: blank_def ex_resources_def)
  show "unenrolled ''ovs-vswitchd'' (ex_app w)" by (simp add: unenrolled_def ex_app_def tls_start_def)
  show "connected_to_ca ex_tls (ta_world (ex_app w)) [75] (replicate PK_LENGTH 0) 0 w" by (simp add: connected_to_ca_def ex_tls_def ex_app_def)
  show "length (pk_write_key_pem ex_tls [75] (replicate PK_LENGTH 0)) = PK_LENGTH" "0 \<in> set (pk_write_key_pem ex_tls [75] (replicate PK_LENGTH 0))"
    by (simp_all add: ex_tls_def PK_LENGTH_def)
qed

lemma ex_answer:
  assumes "8 \<le> length buf"
  shows "send_recv ex_tls 0 b buf 0 = Some (Some 3, c_str ''MOK'' @ drop 3 (replicate 8 0 @ drop 8 buf), 1)"
    "send_recv ex_tls 0 b buf 1 = Some (Some 6, c_str ''-----C'' @ drop 6 (replicate 8 0 @ drop 8 buf), 2)"
    "send_recv ex_tls 0 b buf 2 = Some (Some 2, c_str ''NO'' @ drop 2 (replicate 8 0 @ drop 8 buf), 3)"
  using assms send_recv_once [of ex_tls 0 b 0 _ 0 0 3 "c_str ''MOK''" 0 1 buf] send_recv_once [of ex_tls 0 b 1 _ 0 1 6 "c_str ''-----C''" 0 2 buf]
    send_recv_once [of ex_tls 0 b 2 _ 0 2 2 "c_str ''NO''" 0 3 buf]
  by (simp_all add: ex_tls_def c_str_def del: upt_rec_numeral)



end
