(* ===== verification/Stream_Ssl.thy ===== *)
theory Stream_Ssl
  imports Tls_Spec
begin

text \<open>
  SSL streams of the switch over the TLS enclave (\<open>TLSonSGX/ovs_modified/ovs_sgx/stream-ssl.c\<close>, the build with \<open>SGX_TLS\<close>).

  The results of system calls and of functions of Open vSwitch outside of the file are arguments. The protocol logging is left out. A fault of the enclave or an
  assertion that fails is \<open>None\<close>.
\<close>

section \<open>Constants and state\<close>

definition EIO :: int where "EIO = 5"
definition EAGAIN :: int where "EAGAIN = 11"
definition EPIPE :: int where "EPIPE = 32"
definition EPROTO :: int where "EPROTO = 71"
definition ENOPROTOOPT :: int where "ENOPROTOOPT = 92"
definition POLLIN :: int where "POLLIN = 1"
definition POLLOUT :: int where "POLLOUT = 4"

lemmas stream_constants = EIO_def EAGAIN_def EPIPE_def EPROTO_def ENOPROTOOPT_def POLLIN_def POLLOUT_def SSL_NOTHING_def SSL_READING_def SSL_WRITING_def

datatype ssl_state = STATE_TCP_CONNECTING | STATE_SSL_CONNECTING

datatype session_type = CLIENT | SERVER

record ssl_stream =
  sv_state :: ssl_state
  sv_type :: session_type
  sv_fd :: int
  sv_txbuf :: "bytes option"
  sv_session_nr :: u32
  sv_rx_want :: int
  sv_tx_want :: int
  sv_n_head :: int

record ssl_config_file =
  cf_read :: bool
  cf_file_name :: "string option"
  cf_mtime :: "int \<times> int"

text \<open>The static variables of the file, with the enclave below.\<close>

record ('crt, 'key, 'cx, 'w) ssl_globals =
  sg_private_key :: ssl_config_file
  sg_certificate :: ssl_config_file
  sg_ca_cert :: ssl_config_file
  sg_verify_peer_cert :: bool
  sg_bootstrap_ca_cert :: bool
  sg_next_session_nr :: u32
  sg_init_status :: int
  sg_app :: "('crt, 'key, 'cx, 'w) tls_app"

section \<open>Errors\<close>

definition want_to_poll_events :: "int \<Rightarrow> int option" where
  "want_to_poll_events want = (if want = SSL_NOTHING then None else if want = SSL_READING then Some POLLIN
     else if want = SSL_WRITING then Some POLLOUT else None)"

definition ssl_wants_io :: "('crt, 'key, 'cx, 'w) tls_lib \<Rightarrow> int \<Rightarrow> bool" where
  "ssl_wants_io lib ssl_error = (ssl_error = ERR_WANT_WRITE lib \<or> ssl_error = ERR_WANT_READ lib)"

definition SSL_ERROR_SYSCALL :: int where "SSL_ERROR_SYSCALL = 5"
definition SSL_ERROR_ZERO_RETURN :: int where "SSL_ERROR_ZERO_RETURN = 6"

text \<open>The result and \<open>*want\<close>. All other cases log a message and return \<open>EIO\<close>. \<open>queued\<close> is the next error of the queue of OpenSSL, \<open>err\<close> is \<open>errno\<close>.\<close>

definition interpret_ssl_error :: "('crt, 'key, 'cx, 'w) tls_lib \<Rightarrow> int \<Rightarrow> int \<Rightarrow> int \<Rightarrow> int \<Rightarrow> int \<times> int" where
  "interpret_ssl_error lib queued err ret error =
     (if error = ERR_WANT_READ lib then (EAGAIN, SSL_READING)
      else if error = ERR_WANT_WRITE lib then (EAGAIN, SSL_WRITING)
      else if error = SSL_ERROR_SYSCALL \<and> queued = 0 then (if ret < 0 then err else EPROTO, SSL_NOTHING)
      else (EIO, SSL_NOTHING))"

section \<open>Initialisation\<close>

text \<open>\<open>random\<close> is the result of \<open>RAND_status\<close>, \<open>entropy\<close> that of \<open>get_entropy\<close>; \<open>rs\<close> and \<open>lines\<close> are arguments of \<open>SSL_library_init\<close>.\<close>

record init_env =
  ie_resources :: "SSL_resource list"
  ie_lines :: "(string \<times> string) list"
  ie_program_name :: string
  ie_random :: bool
  ie_entropy :: int

definition do_ssl_init :: "('crt, 'key, 'cx, 'w) tls_lib \<Rightarrow> bool \<Rightarrow> init_env \<Rightarrow> ('crt, 'key, 'cx, 'w) ssl_globals \<Rightarrow> (int \<times> ('crt, 'key, 'cx, 'w) ssl_globals) option" where
  "do_ssl_init lib hot e g = do {
     a \<leftarrow> SSL_library_init lib hot (ie_resources e) (ie_lines e) (ie_program_name e) (sg_app g);
     if \<not> ie_random e \<and> ie_entropy e \<noteq> 0
     then Some (if ie_entropy e > 0 then ie_entropy e else ENOPROTOOPT, g\<lparr>sg_app := a\<rparr>)
     else do {
       a \<leftarrow> SSL_CTX_new lib hot a;
       a \<leftarrow> SSL_CTX_set_verify lib hot a;
       Some (0, g\<lparr>sg_app := a\<rparr>) } }"

definition ssl_init :: "('crt, 'key, 'cx, 'w) tls_lib \<Rightarrow> bool \<Rightarrow> init_env \<Rightarrow> ('crt, 'key, 'cx, 'w) ssl_globals \<Rightarrow> (int \<times> ('crt, 'key, 'cx, 'w) ssl_globals) option" where
  "ssl_init lib hot e g = (if sg_init_status g < 0
     then do {
       (r, g) \<leftarrow> do_ssl_init lib hot e g;
       if r < 0 then None else Some (r, g\<lparr>sg_init_status := r\<rparr>) }
     else Some (sg_init_status g, g))"

section \<open>Configuration\<close>

definition stream_ssl_is_configured :: "('crt, 'key, 'cx, 'w) ssl_globals \<Rightarrow> bool" where
  "stream_ssl_is_configured g = (cf_file_name (sg_private_key g) \<noteq> None \<or> cf_file_name (sg_certificate g) \<noteq> None \<or> cf_file_name (sg_ca_cert g) \<noteq> None)"

text \<open>The part of \<open>update_ssl_config\<close> after \<open>ssl_init\<close>; \<open>mtime\<close> is what \<open>get_mtime\<close> stores.\<close>

definition update_config :: "ssl_config_file \<Rightarrow> string option \<Rightarrow> int \<times> int \<Rightarrow> bool \<times> ssl_config_file" where
  "update_config c file_name mtime = (case file_name of
       None \<Rightarrow> (False, c)
     | Some f \<Rightarrow> if cf_file_name c = Some f \<and> mtime = cf_mtime c then (False, c)
         else (True, c\<lparr>cf_mtime := mtime, cf_file_name := Some f\<rparr>))"

definition update_ssl_config :: "('crt, 'key, 'cx, 'w) tls_lib \<Rightarrow> bool \<Rightarrow> init_env \<Rightarrow> (('crt, 'key, 'cx, 'w) ssl_globals \<Rightarrow> ssl_config_file) \<Rightarrow>
    (ssl_config_file \<Rightarrow> ('crt, 'key, 'cx, 'w) ssl_globals \<Rightarrow> ('crt, 'key, 'cx, 'w) ssl_globals) \<Rightarrow> string option \<Rightarrow> (string \<Rightarrow> int \<times> int) \<Rightarrow>
    ('crt, 'key, 'cx, 'w) ssl_globals \<Rightarrow> (bool \<times> ('crt, 'key, 'cx, 'w) ssl_globals) option" where
  "update_ssl_config lib hot e get put file_name get_mtime g = do {
     (r, g) \<leftarrow> ssl_init lib hot e g;
     if r \<noteq> 0 then Some (False, g)
     else let (b, c) = update_config (get g) file_name (case file_name of None \<Rightarrow> (0, 0) | Some f \<Rightarrow> get_mtime f) in Some (b, put c g) }"

definition put_private_key :: "ssl_config_file \<Rightarrow> ('crt, 'key, 'cx, 'w) ssl_globals \<Rightarrow> ('crt, 'key, 'cx, 'w) ssl_globals" where
  "put_private_key c g = g\<lparr>sg_private_key := c\<rparr>"
definition put_certificate :: "ssl_config_file \<Rightarrow> ('crt, 'key, 'cx, 'w) ssl_globals \<Rightarrow> ('crt, 'key, 'cx, 'w) ssl_globals" where
  "put_certificate c g = g\<lparr>sg_certificate := c\<rparr>"
definition put_ca_cert :: "ssl_config_file \<Rightarrow> ('crt, 'key, 'cx, 'w) ssl_globals \<Rightarrow> ('crt, 'key, 'cx, 'w) ssl_globals" where
  "put_ca_cert c g = g\<lparr>sg_ca_cert := c\<rparr>"

text \<open>With \<open>SGX_TLS\<close> the files are never read: the credentials are those of the enclave.\<close>

definition set_private_key_read :: "('crt, 'key, 'cx, 'w) ssl_globals \<Rightarrow> ('crt, 'key, 'cx, 'w) ssl_globals" where
  "set_private_key_read g = g\<lparr>sg_private_key := (sg_private_key g)\<lparr>cf_read := True\<rparr>\<rparr>"
definition set_certificate_read :: "('crt, 'key, 'cx, 'w) ssl_globals \<Rightarrow> ('crt, 'key, 'cx, 'w) ssl_globals" where
  "set_certificate_read g = g\<lparr>sg_certificate := (sg_certificate g)\<lparr>cf_read := True\<rparr>\<rparr>"

definition stream_ssl_set_private_key_file :: "('crt, 'key, 'cx, 'w) tls_lib \<Rightarrow> bool \<Rightarrow> init_env \<Rightarrow> string option \<Rightarrow> (string \<Rightarrow> int \<times> int) \<Rightarrow>
    ('crt, 'key, 'cx, 'w) ssl_globals \<Rightarrow> ('crt, 'key, 'cx, 'w) ssl_globals option" where
  "stream_ssl_set_private_key_file lib hot e f mt g = do {
     (b, g) \<leftarrow> update_ssl_config lib hot e sg_private_key put_private_key f mt g;
     Some (if b then set_private_key_read g else g) }"

definition stream_ssl_set_certificate_file :: "('crt, 'key, 'cx, 'w) tls_lib \<Rightarrow> bool \<Rightarrow> init_env \<Rightarrow> string option \<Rightarrow> (string \<Rightarrow> int \<times> int) \<Rightarrow>
    ('crt, 'key, 'cx, 'w) ssl_globals \<Rightarrow> ('crt, 'key, 'cx, 'w) ssl_globals option" where
  "stream_ssl_set_certificate_file lib hot e f mt g = do {
     (b, g) \<leftarrow> update_ssl_config lib hot e sg_certificate put_certificate f mt g;
     Some (if b then set_certificate_read g else g) }"

definition stream_ssl_set_key_and_cert :: "('crt, 'key, 'cx, 'w) tls_lib \<Rightarrow> bool \<Rightarrow> init_env \<Rightarrow> string option \<Rightarrow> string option \<Rightarrow> (string \<Rightarrow> int \<times> int) \<Rightarrow>
    ('crt, 'key, 'cx, 'w) ssl_globals \<Rightarrow> ('crt, 'key, 'cx, 'w) ssl_globals option" where
  "stream_ssl_set_key_and_cert lib hot e kf cf mt g = do {
     (b, g) \<leftarrow> update_ssl_config lib hot e sg_private_key put_private_key kf mt g;
     (b, g) \<leftarrow> (if b then Some (True, g) else update_ssl_config lib hot e sg_certificate put_certificate cf mt g);
     Some (if b then set_private_key_read (set_certificate_read g) else g) }"

definition stream_ssl_set_ca_cert_file_impl :: "('crt, 'key, 'cx, 'w) tls_lib \<Rightarrow> bool \<Rightarrow> init_env \<Rightarrow> string option \<Rightarrow> bool \<Rightarrow> (string \<Rightarrow> int \<times> int) \<Rightarrow>
    ('crt, 'key, 'cx, 'w) ssl_globals \<Rightarrow> ('crt, 'key, 'cx, 'w) ssl_globals option" where
  "stream_ssl_set_ca_cert_file_impl lib hot e f force mt g = do {
     (b, g) \<leftarrow> update_ssl_config lib hot e sg_ca_cert put_ca_cert f mt g;
     Some (if \<not> b \<and> \<not> force then g else g\<lparr>sg_ca_cert := (sg_ca_cert g)\<lparr>cf_read := True\<rparr>\<rparr>) }"

definition stream_ssl_set_ca_cert_file :: "('crt, 'key, 'cx, 'w) tls_lib \<Rightarrow> bool \<Rightarrow> init_env \<Rightarrow> string option \<Rightarrow> (string \<Rightarrow> int \<times> int) \<Rightarrow>
    ('crt, 'key, 'cx, 'w) ssl_globals \<Rightarrow> ('crt, 'key, 'cx, 'w) ssl_globals option" where
  "stream_ssl_set_ca_cert_file lib hot e f mt g = stream_ssl_set_ca_cert_file_impl lib hot e f False mt g"

section \<open>Opening\<close>

text \<open>\<open>nodelay\<close> is \<open>errno\<close> when disabling the algorithm of Nagle fails, and 0 otherwise. \<open>SSL_set_verify\<close> does nothing.\<close>

definition new_ssl_stream :: "('crt, 'key, 'cx, 'w) tls_lib \<Rightarrow> bool \<Rightarrow> int \<Rightarrow> int \<Rightarrow> session_type \<Rightarrow> ssl_state \<Rightarrow> ('crt, 'key, 'cx, 'w) ssl_globals \<Rightarrow>
    ((int + ssl_stream) \<times> ('crt, 'key, 'cx, 'w) ssl_globals) option" where
  "new_ssl_stream lib hot nodelay fd type state g = (
     if \<not> cf_read (sg_private_key g) \<or> \<not> cf_read (sg_certificate g)
       \<or> (\<not> cf_read (sg_ca_cert g) \<and> sg_verify_peer_cert g \<and> \<not> sg_bootstrap_ca_cert g) \<or> SSL_CTX_check_private_key = 0
     then Some (Inl ENOPROTOOPT, g)
     else if nodelay \<noteq> 0 then Some (Inl nodelay, g)
     else do {
       a \<leftarrow> SSL_new lib hot (sg_app g);
       (_, a) \<leftarrow> SSL_set_fd lib hot fd a;
       Some (Inr \<lparr>sv_state = state, sv_type = type, sv_fd = fd, sv_txbuf = None, sv_session_nr = sg_next_session_nr g,
           sv_rx_want = SSL_NOTHING, sv_tx_want = SSL_NOTHING, sv_n_head = 0\<rparr>,
         g\<lparr>sg_app := a, sg_next_session_nr := sg_next_session_nr g + 1\<rparr>) })"

text \<open>\<open>error\<close> and \<open>fd\<close> come from \<open>inet_open_active\<close>.\<close>

definition ssl_open :: "('crt, 'key, 'cx, 'w) tls_lib \<Rightarrow> bool \<Rightarrow> init_env \<Rightarrow> int \<Rightarrow> int \<Rightarrow> int \<Rightarrow> ('crt, 'key, 'cx, 'w) ssl_globals \<Rightarrow>
    ((int + ssl_stream) \<times> ('crt, 'key, 'cx, 'w) ssl_globals) option" where
  "ssl_open lib hot e error fd nodelay g = do {
     (r, g) \<leftarrow> ssl_init lib hot e g;
     if r \<noteq> 0 then Some (Inl r, g)
     else if fd \<ge> 0 then new_ssl_stream lib hot nodelay fd CLIENT (if error \<noteq> 0 then STATE_TCP_CONNECTING else STATE_SSL_CONNECTING) g
     else Some (Inl error, g) }"

text \<open>\<open>fd\<close> is the result of \<open>inet_open_passive\<close>; the stream is its descriptor.\<close>

definition pssl_open :: "('crt, 'key, 'cx, 'w) tls_lib \<Rightarrow> bool \<Rightarrow> init_env \<Rightarrow> int \<Rightarrow> ('crt, 'key, 'cx, 'w) ssl_globals \<Rightarrow>
    ((int + int) \<times> ('crt, 'key, 'cx, 'w) ssl_globals) option" where
  "pssl_open lib hot e fd g = do {
     (r, g) \<leftarrow> ssl_init lib hot e g;
     Some (if r \<noteq> 0 then Inl r else if fd < 0 then Inl (- fd) else Inr fd, g) }"

text \<open>\<open>fd\<close> is the result of \<open>accept\<close> (\<open>err\<close> is \<open>errno\<close>), \<open>nonblock\<close> that of \<open>set_nonblocking\<close>.\<close>

definition pssl_accept :: "('crt, 'key, 'cx, 'w) tls_lib \<Rightarrow> bool \<Rightarrow> int \<Rightarrow> int \<Rightarrow> int \<Rightarrow> int \<Rightarrow> ('crt, 'key, 'cx, 'w) ssl_globals \<Rightarrow>
    ((int + ssl_stream) \<times> ('crt, 'key, 'cx, 'w) ssl_globals) option" where
  "pssl_accept lib hot fd err nonblock nodelay g = (
     if fd < 0 then Some (Inl err, g)
     else if nonblock \<noteq> 0 then Some (Inl nonblock, g)
     else new_ssl_stream lib hot nodelay fd SERVER STATE_SSL_CONNECTING g)"

section \<open>Connecting\<close>

text \<open>\<open>completion\<close> is the result of \<open>check_connection_completion\<close>, \<open>peeked\<close> that of \<open>recv\<close> with \<open>MSG_PEEK\<close>.\<close>

definition ssl_connect :: "('crt, 'key, 'cx, 'w) tls_lib \<Rightarrow> bool \<Rightarrow> int \<Rightarrow> int \<Rightarrow> ssl_stream \<Rightarrow> ('crt, 'key, 'cx, 'w) ssl_globals \<Rightarrow>
    (int \<times> ssl_stream \<times> ('crt, 'key, 'cx, 'w) ssl_globals) option" where
  "ssl_connect lib hot completion peeked sv g = (
     if sv_state sv = STATE_TCP_CONNECTING \<and> completion \<noteq> 0 then Some (completion, sv, g)
     else do {
       let sv = sv\<lparr>sv_state := STATE_SSL_CONNECTING\<rparr>;
       let sv = (if sv_n_head sv \<le> 0 then sv\<lparr>sv_n_head := peeked\<rparr> else sv);
       (retval, a) \<leftarrow> (if sv_type sv = CLIENT then SSL_connect lib hot (sg_app g) else SSL_accept lib hot (sg_app g));
       let g = g\<lparr>sg_app := a\<rparr>;
       if retval \<noteq> 1
       then do {
         error \<leftarrow> SSL_get_error lib hot retval a;
         Some (if retval < 0 \<and> ssl_wants_io lib error then EAGAIN else EPROTO, sv, g) }
       else if sg_bootstrap_ca_cert g then Some (1, sv, g)
       else if sg_verify_peer_cert g \<and> (SSL_get_verify_mode AND (0 OR 1)) \<noteq> 1 then Some (EPROTO, sv, g)
       else Some (0, sv, g) })"

definition ssl_close :: "('crt, 'key, 'cx, 'w) tls_lib \<Rightarrow> bool \<Rightarrow> ssl_stream \<Rightarrow> ('crt, 'key, 'cx, 'w) ssl_globals \<Rightarrow> ('crt, 'key, 'cx, 'w) ssl_globals option" where
  "ssl_close lib hot sv g = do {
     (_, a) \<leftarrow> SSL_shutdown lib hot (sg_app g);
     a \<leftarrow> SSL_free lib hot a;
     Some (g\<lparr>sg_app := a\<rparr>) }"

section \<open>Receiving and sending\<close>

definition ssl_recv :: "('crt, 'key, 'cx, 'w) tls_lib \<Rightarrow> bool \<Rightarrow> int \<Rightarrow> int \<Rightarrow> bytes \<Rightarrow> ssl_stream \<Rightarrow> ('crt, 'key, 'cx, 'w) tls_app \<Rightarrow>
    ((int \<times> bytes) \<times> ssl_stream \<times> ('crt, 'key, 'cx, 'w) tls_app) option" where
  "ssl_recv lib hot queued err buf sv a = (
     if length buf = 0 then None
     else do {
       old_state \<leftarrow> SSL_get_state lib hot a;
       ((ret, bs), a) \<leftarrow> SSL_read lib hot buf (length buf) a;
       new_state \<leftarrow> SSL_get_state lib hot a;
       let sv = (if old_state \<noteq> new_state then sv\<lparr>sv_tx_want := SSL_NOTHING\<rparr> else sv);
       let sv = sv\<lparr>sv_rx_want := SSL_NOTHING\<rparr>;
       if ret > 0 then Some ((ret, bs), sv, a)
       else do {
         error \<leftarrow> SSL_get_error lib hot ret a;
         if error = SSL_ERROR_ZERO_RETURN then Some ((0, bs), sv, a)
         else let (e, want) = interpret_ssl_error lib queued err ret error in Some ((- e, bs), sv\<lparr>sv_rx_want := want\<rparr>, a) } })"

definition ssl_clear_txbuf :: "ssl_stream \<Rightarrow> ssl_stream" where
  "ssl_clear_txbuf sv = sv\<lparr>sv_txbuf := None\<rparr>"

text \<open>The loop runs while the enclave takes some of the bytes; \<open>ofpbuf_pull\<close> of more than there are is a fault.\<close>

partial_function (option) ssl_do_tx :: "('crt, 'key, 'cx, 'w) tls_lib \<Rightarrow> bool \<Rightarrow> int \<Rightarrow> int \<Rightarrow> ssl_stream \<Rightarrow> ('crt, 'key, 'cx, 'w) tls_app \<Rightarrow>
    (int \<times> ssl_stream \<times> ('crt, 'key, 'cx, 'w) tls_app) option" where
  "ssl_do_tx lib hot queued err sv a = do {
     txbuf \<leftarrow> sv_txbuf sv;
     old_state \<leftarrow> SSL_get_state lib hot a;
     (ret, a) \<leftarrow> SSL_write lib hot txbuf a;
     new_state \<leftarrow> SSL_get_state lib hot a;
     let sv = (if old_state \<noteq> new_state then sv\<lparr>sv_rx_want := SSL_NOTHING\<rparr> else sv);
     let sv = sv\<lparr>sv_tx_want := SSL_NOTHING\<rparr>;
     if ret > 0
     then if int (length txbuf) < ret then None
       else let sv = sv\<lparr>sv_txbuf := Some (drop (nat ret) txbuf)\<rparr> in
         if drop (nat ret) txbuf = [] then Some (0, sv, a) else ssl_do_tx lib hot queued err sv a
     else do {
       ssl_error \<leftarrow> SSL_get_error lib hot ret a;
       if ssl_error = SSL_ERROR_ZERO_RETURN then Some (EPIPE, sv, a)
       else let (e, want) = interpret_ssl_error lib queued err ret ssl_error in Some (e, sv\<lparr>sv_tx_want := want\<rparr>, a) } }"

definition ssl_send :: "('crt, 'key, 'cx, 'w) tls_lib \<Rightarrow> bool \<Rightarrow> int \<Rightarrow> int \<Rightarrow> bytes \<Rightarrow> ssl_stream \<Rightarrow> ('crt, 'key, 'cx, 'w) tls_app \<Rightarrow>
    (int \<times> ssl_stream \<times> ('crt, 'key, 'cx, 'w) tls_app) option" where
  "ssl_send lib hot queued err buffer sv a = (
     if sv_txbuf sv \<noteq> None then Some (- EAGAIN, sv, a)
     else do {
       (error, sv, a) \<leftarrow> ssl_do_tx lib hot queued err (sv\<lparr>sv_txbuf := Some buffer\<rparr>) a;
       if error = 0 then Some (int (length buffer), ssl_clear_txbuf sv, a)
       else if error = EAGAIN then Some (int (length buffer), sv, a)
       else Some (- error, sv\<lparr>sv_txbuf := None\<rparr>, a) })"

definition ssl_run :: "('crt, 'key, 'cx, 'w) tls_lib \<Rightarrow> bool \<Rightarrow> int \<Rightarrow> int \<Rightarrow> ssl_stream \<Rightarrow> ('crt, 'key, 'cx, 'w) tls_app \<Rightarrow> (ssl_stream \<times> ('crt, 'key, 'cx, 'w) tls_app) option" where
  "ssl_run lib hot queued err sv a = (
     if sv_txbuf sv = None then Some (sv, a)
     else do {
       (error, sv, a) \<leftarrow> ssl_do_tx lib hot queued err sv a;
       Some (if error \<noteq> EAGAIN then ssl_clear_txbuf sv else sv, a) })"

section \<open>Waiting\<close>

datatype wake = Immediately | On_fd int int

definition ssl_run_wait :: "ssl_stream \<Rightarrow> wake list option" where
  "ssl_run_wait sv = (if sv_tx_want sv \<noteq> SSL_NOTHING then do { ev \<leftarrow> want_to_poll_events (sv_tx_want sv); Some [On_fd (sv_fd sv) ev] } else Some [])"

definition pssl_wait :: "int \<Rightarrow> wake list" where
  "pssl_wait fd = [On_fd fd POLLIN]"

datatype stream_wait_type = STREAM_CONNECT | STREAM_RECV | STREAM_SEND

text \<open>\<open>connected\<close> is the result of \<open>stream_connect\<close>, which has been called on the stream.\<close>

definition ssl_wait :: "('crt, 'key, 'cx, 'w) tls_lib \<Rightarrow> bool \<Rightarrow> int \<Rightarrow> stream_wait_type \<Rightarrow> ssl_stream \<Rightarrow> ('crt, 'key, 'cx, 'w) tls_app \<Rightarrow> wake list option" where
  "ssl_wait lib hot connected wait sv a = (case wait of
       STREAM_CONNECT \<Rightarrow> if connected \<noteq> EAGAIN then Some [Immediately]
         else (case sv_state sv of
             STATE_TCP_CONNECTING \<Rightarrow> Some [On_fd (sv_fd sv) POLLOUT]
           | STATE_SSL_CONNECTING \<Rightarrow> do { want \<leftarrow> SSL_want lib hot a; ev \<leftarrow> want_to_poll_events want; Some [On_fd (sv_fd sv) ev] })
     | STREAM_RECV \<Rightarrow> if sv_rx_want sv \<noteq> SSL_NOTHING then do { ev \<leftarrow> want_to_poll_events (sv_rx_want sv); Some [On_fd (sv_fd sv) ev] } else Some [Immediately]
     | STREAM_SEND \<Rightarrow> if sv_txbuf sv = None then Some [Immediately] else Some [])"

end
