(* ===== verification/Stream_Spec.thy ===== *)
theory Stream_Spec
  imports Stream_Ssl
begin

text \<open>
  What the SSL streams of the switch do: results of connecting, receiving and sending on every branch, and how the peer is verified.
\<close>

section \<open>What mbedtls promises\<close>

definition lib_codes :: "('crt, 'key, 'cx, 'w) tls_lib \<Rightarrow> bool" where
  "lib_codes lib \<longleftrightarrow> ERR_WANT_READ lib < 0 \<and> ERR_WANT_WRITE lib < 0 \<and> ERR_WANT_READ lib \<noteq> ERR_WANT_WRITE lib"

text \<open>A write that returns \<open>r > 0\<close> has taken the first \<open>r\<close> bytes; \<open>delivered\<close> is what has been taken so far.\<close>

definition write_ok :: "('crt, 'key, 'cx, 'w) tls_lib \<Rightarrow> ('w \<Rightarrow> bytes) \<Rightarrow> bool" where
  "write_ok lib delivered \<longleftrightarrow> (\<forall>cx bs w r cx' w'. ssl_write lib cx bs w = (r, cx', w') \<longrightarrow>
     (if 0 < r then r \<le> int (length bs) \<and> delivered w' = delivered w @ take (nat r) bs else delivered w' = delivered w))"

text \<open>A read that returns \<open>r > 0\<close> has stored \<open>r\<close> bytes of the buffer, and no other read stores any.\<close>

definition read_ok :: "('crt, 'key, 'cx, 'w) tls_lib \<Rightarrow> bool" where
  "read_ok lib \<longleftrightarrow> (\<forall>cx n w r bs cx' w'. ssl_read lib cx n w = ((r, bs), cx', w') \<longrightarrow> length bs = nat r \<and> length bs \<le> n)"

definition pending_tx :: "ssl_stream \<Rightarrow> bytes" where
  "pending_tx sv = (case sv_txbuf sv of None \<Rightarrow> [] | Some b \<Rightarrow> b)"

section \<open>Sending\<close>

text \<open>How the loop can end: the buffer is empty, the enclave waits for the socket, or there was an error.\<close>

definition tx_end :: "int \<Rightarrow> bytes \<Rightarrow> int \<Rightarrow> bool" where
  "tx_end r rest want \<longleftrightarrow> r = 0 \<and> rest = [] \<and> want = SSL_NOTHING \<or> r = EAGAIN \<and> want \<in> {SSL_READING, SSL_WRITING} \<or> r = EIO \<and> want = SSL_NOTHING"

lemma get_state_live: "t_ssl s = Live x \<Longrightarrow> \<exists>n. ecall_ssl_get_state lib s = Some n"
  by (simp add: ecall_ssl_get_state_def Let_def)

lemma interpret_negative:
  assumes "lib_codes lib" and "ret \<le> 0"
  shows "\<exists>r want. interpret_ssl_error lib q e ret ret = (r, want) \<and> (r = EAGAIN \<and> want \<in> {SSL_READING, SSL_WRITING} \<or> r = EIO \<and> want = SSL_NOTHING)
    \<and> (r = EAGAIN \<longleftrightarrow> ssl_wants_io lib ret)"
  using assms by (auto simp: interpret_ssl_error_def SSL_ERROR_SYSCALL_def ssl_wants_io_def stream_constants)

lemma do_tx_ok:
  assumes lib: "write_ok lib delivered" "lib_codes lib"
  shows "t_ssl (ta_tls a) = Live x \<Longrightarrow> sv_txbuf sv = Some d \<Longrightarrow>
    \<exists>r n sv' a' x'. ssl_do_tx lib hot q e sv a = Some (r, sv', a') \<and> n \<le> length d \<and> sv_txbuf sv' = Some (drop n d)
      \<and> delivered (ta_world a') = delivered (ta_world a) @ take n d \<and> t_ssl (ta_tls a') = Live x' \<and> tx_end r (drop n d) (sv_tx_want sv')
      \<and> (r \<noteq> 0 \<longrightarrow> n = length d \<longrightarrow> d = [])"
proof (induction "length d" arbitrary: d sv a x rule: less_induct)
  case less
  obtain ret cx w where wr: "ssl_write lib (ss_cntx x) d (ta_world a) = (ret, cx, w)" by (metis prod.exhaust)
  let ?x = "x\<lparr>ss_cntx := cx, ss_last_error := ret\<rparr>"
  let ?a = "a\<lparr>ta_tls := (ta_tls a)\<lparr>t_ssl := Live ?x\<rparr>, ta_world := w\<rparr>"
  have W: "SSL_write lib hot d a = Some (ret, ?a)" using less.prems(1) wr by (simp add: hot_is_direct_values after_call_def ecall_ssl_write_def)
  obtain o1 where o1: "ecall_ssl_get_state lib (ta_tls a) = Some o1" using get_state_live [OF less.prems(1)] by blast
  obtain o2 where o2: "ecall_ssl_get_state lib (ta_tls ?a) = Some o2" using get_state_live [of "ta_tls ?a" ?x] by auto
  let ?sv = "(if o1 \<noteq> o2 then sv\<lparr>sv_rx_want := SSL_NOTHING\<rparr> else sv)\<lparr>sv_tx_want := SSL_NOTHING\<rparr>"
  note step = ssl_do_tx.simps [of lib hot q e sv a] less.prems(2) W o1 o2
  show ?case
  proof (cases "0 < ret")
    case True
    then have r: "ret \<le> int (length d)" "delivered w = delivered (ta_world a) @ take (nat ret) d" using lib(1) wr by (auto simp: write_ok_def)
    let ?d = "drop (nat ret) d"
    show ?thesis
    proof (cases "?d = []")
      case True
      have "ssl_do_tx lib hot q e sv a = Some (0, ?sv\<lparr>sv_txbuf := Some ?d\<rparr>, ?a)" using \<open>0 < ret\<close> r(1) True step by (simp add: hot_is_direct Let_def)
      then show ?thesis using r True
        by (intro exI [of _ 0] exI [of _ "nat ret"] exI [of _ "?sv\<lparr>sv_txbuf := Some ?d\<rparr>"] exI [of _ ?a] exI [of _ ?x]) (simp add: tx_end_def)
    next
      case False
      let ?v = "?sv\<lparr>sv_txbuf := Some ?d\<rparr>"
      have e: "ssl_do_tx lib hot q e sv a = ssl_do_tx lib hot q e ?v ?a" using \<open>0 < ret\<close> r(1) False step by (simp add: hot_is_direct Let_def)
      have lt: "length ?d < length d" using \<open>0 < ret\<close> r(1) False by auto
      obtain r2 n sv' a' x' where IH: "ssl_do_tx lib hot q e ?v ?a = Some (r2, sv', a')" "n \<le> length ?d" "sv_txbuf sv' = Some (drop n ?d)"
        "delivered (ta_world a') = delivered (ta_world ?a) @ take n ?d" "t_ssl (ta_tls a') = Live x'" "tx_end r2 (drop n ?d) (sv_tx_want sv')"
        "r2 \<noteq> 0 \<longrightarrow> n = length ?d \<longrightarrow> ?d = []"
        by (rule exE [OF less.hyps [OF lt, of ?a ?x ?v]]) (simp, simp, elim exE conjE, rule that)
      have t: "take (nat ret) d @ take n ?d = take (nat ret + n) d" by (simp add: take_add)
      show ?thesis using IH e r \<open>0 < ret\<close> False t
        by (intro exI [of _ r2] exI [of _ "nat ret + n"] exI [of _ sv'] exI [of _ a'] exI [of _ x']) (auto simp: add.commute)
    qed
  next
    case False
    then have dl: "delivered w = delivered (ta_world a)" using lib(1) wr by (auto simp: write_ok_def)
    obtain r want where i: "interpret_ssl_error lib q e ret ret = (r, want)" "r = EAGAIN \<and> want \<in> {SSL_READING, SSL_WRITING} \<or> r = EIO \<and> want = SSL_NOTHING"
      using interpret_negative [OF lib(2), of ret q e] False by auto
    have "ssl_do_tx lib hot q e sv a = Some (r, ?sv\<lparr>sv_tx_want := want\<rparr>, ?a)"
      using False i(1) step by (simp add: hot_is_direct ecall_ssl_get_error_def SSL_ERROR_ZERO_RETURN_def Let_def)
    then show ?thesis using dl i(2) less.prems(2)
      by (intro exI [of _ r] exI [of _ 0] exI [of _ "?sv\<lparr>sv_tx_want := want\<rparr>"] exI [of _ ?a] exI [of _ ?x]) (auto simp: tx_end_def)
  qed
qed


section \<open>Receiving\<close>

text \<open>C14: Receiving returns the bytes that the enclave has read, or \<open>-EAGAIN\<close> and what to wait for when the enclave waits for the socket. Everything else, also the
  end of the connection, is \<open>-EIO\<close>: the result 0, which means that the peer has closed the connection, never occurs.\<close>

theorem ssl_recv_correct:
  assumes "read_ok lib" and "lib_codes lib" and "t_ssl (ta_tls a) = Live x" and "buf \<noteq> []" and "ssl_read lib (ss_cntx x) (length buf) (ta_world a) = ((ret, bs), cx, w)"
  shows "\<exists>r sv' a'. ssl_recv lib hot q e buf sv a = Some ((r, bs), sv', a') \<and> ta_world a' = w \<and> r \<noteq> 0
    \<and> r = (if 0 < ret then ret else if ssl_wants_io lib ret then - EAGAIN else - EIO)
    \<and> (sv_rx_want sv' = SSL_NOTHING \<longleftrightarrow> r \<noteq> - EAGAIN) \<and> (\<exists>ev. ssl_wait lib hot 0 STREAM_RECV sv' a' = Some [ev])"
proof -
  let ?x = "x\<lparr>ss_cntx := cx, ss_last_error := ret\<rparr>"
  let ?a = "a\<lparr>ta_tls := (ta_tls a)\<lparr>t_ssl := Live ?x\<rparr>, ta_world := w\<rparr>"
  have len: "length bs = nat ret" "length bs \<le> length buf" using assms(1,5) unfolding read_ok_def by blast+
  have R: "SSL_read lib hot buf (length buf) a = Some ((ret, bs), ?a)"
    using assms(3,5) len by (simp add: hot_is_direct_values after_call_def ecall_ssl_read_def overwrite_def)
  obtain o1 where o1: "ecall_ssl_get_state lib (ta_tls a) = Some o1" using get_state_live [OF assms(3)] by blast
  obtain o2 where o2: "ecall_ssl_get_state lib (ta_tls ?a) = Some o2" using get_state_live [of "ta_tls ?a" ?x] by auto
  let ?sv = "(if o1 \<noteq> o2 then sv\<lparr>sv_tx_want := SSL_NOTHING\<rparr> else sv)\<lparr>sv_rx_want := SSL_NOTHING\<rparr>"
  show ?thesis
  proof (cases "0 < ret")
    case True
    then show ?thesis using R o1 o2 assms(4)
      by (intro exI [of _ ret] exI [of _ ?sv] exI [of _ ?a]) (simp add: ssl_recv_def hot_is_direct ssl_wait_def stream_constants Let_def)
  next
    case False
    obtain r want where i: "interpret_ssl_error lib q e ret ret = (r, want)" "r = EAGAIN \<and> want \<in> {SSL_READING, SSL_WRITING} \<or> r = EIO \<and> want = SSL_NOTHING"
      "r = EAGAIN \<longleftrightarrow> ssl_wants_io lib ret"
      using interpret_negative [OF assms(2), of ret q e] False by auto
    have "ssl_recv lib hot q e buf sv a = Some ((- r, bs), ?sv\<lparr>sv_rx_want := want\<rparr>, ?a)"
      using False R o1 o2 i(1) assms(4) by (simp add: ssl_recv_def hot_is_direct ecall_ssl_get_error_def SSL_ERROR_ZERO_RETURN_def Let_def)
    then show ?thesis using False i(2,3)
      by (intro exI [of _ "- r"] exI [of _ "?sv\<lparr>sv_rx_want := want\<rparr>"] exI [of _ ?a]) (auto simp: ssl_wait_def want_to_poll_events_def stream_constants)
  qed
qed

section \<open>Connecting\<close>

text \<open>C13: Connecting, once the TCP connection stands. A client is connected exactly when the handshake is complete and must try again exactly when it waits for the socket.
  A server is never connected: \<open>SSL_accept\<close> passes on the result 0 of a complete handshake, which the stream takes for an error.\<close>

theorem ssl_connect_correct:
  assumes "lib_codes lib" and "t_ssl (ta_tls (sg_app g)) = Live x" and "ss_conf x = Some conf" and "\<not> sg_bootstrap_ca_cert g"
    and "ssl_handshake lib conf (ss_cntx x) (ta_world (sg_app g)) = (ret, cx, w)" and "ret \<le> 0" and "sv_state sv = STATE_SSL_CONNECTING \<or> completion = 0"
  shows "\<exists>r sv' g' x'. ssl_connect lib hot completion peeked sv g = Some (r, sv', g') \<and> sv_state sv' = STATE_SSL_CONNECTING
    \<and> t_ssl (ta_tls (sg_app g')) = Live x' \<and> ss_cntx x' = cx \<and> ta_world (sg_app g') = w
    \<and> r = (if ret = 0 then (if sv_type sv = CLIENT then 0 else EPROTO) else if ssl_wants_io lib ret then EAGAIN else EPROTO)"
proof -
  let ?err = "if ret = 0 \<and> sv_type sv = CLIENT then 1 else ret"
  let ?x = "x\<lparr>ss_cntx := cx, ss_last_error := ?err\<rparr>"
  let ?a = "(sg_app g)\<lparr>ta_tls := (ta_tls (sg_app g))\<lparr>t_ssl := Live ?x\<rparr>, ta_world := w\<rparr>" and ?g = "g\<lparr>sg_app := (sg_app g)\<lparr>ta_tls := (ta_tls (sg_app g))\<lparr>t_ssl := Live ?x\<rparr>, ta_world := w\<rparr>\<rparr>"
  let ?sv = "(let sv = sv\<lparr>sv_state := STATE_SSL_CONNECTING\<rparr> in if sv_n_head sv \<le> 0 then sv\<lparr>sv_n_head := peeked\<rparr> else sv)"
  have C: "(if sv_type sv = CLIENT then SSL_connect lib hot (sg_app g) else SSL_accept lib hot (sg_app g)) = Some (?err, ?a)"
    using assms(2,3,5) by (simp add: hot_is_direct_values after_call_def ecall_ssl_connect_def ecall_ssl_accept_def handshake_def)
  have wants: "ssl_wants_io lib n \<Longrightarrow> n < 0" for n using assms(1) by (auto simp: ssl_wants_io_def lib_codes_def)
  define r where "r = (if ?err = 1 then 0 else if ssl_wants_io lib ret then EAGAIN else EPROTO)"
  have tcp: "\<not> (sv_state sv = STATE_TCP_CONNECTING \<and> completion \<noteq> 0)" using assms(7) by auto
  have ty: "sv_type ?sv = sv_type sv" by (simp add: Let_def)
  have io: "(?err < 0 \<and> ssl_wants_io lib ?err) = ssl_wants_io lib ret" if "?err \<noteq> 1" using wants [of ret] that by auto
  have C': "(if sv_type ?sv = CLIENT then SSL_connect lib hot (sg_app g) else SSL_accept lib hot (sg_app g)) = Some (?err, ?a)" unfolding ty by (rule C)
  have "ssl_connect lib hot completion peeked sv g = (do {
      (retval, a) \<leftarrow> (if sv_type ?sv = CLIENT then SSL_connect lib hot (sg_app g) else SSL_accept lib hot (sg_app g));
      let g = g\<lparr>sg_app := a\<rparr>;
      if retval \<noteq> 1
      then do {
        error \<leftarrow> SSL_get_error lib hot retval a;
        Some (if retval < 0 \<and> ssl_wants_io lib error then EAGAIN else EPROTO, ?sv, g) }
      else if sg_bootstrap_ca_cert g then Some (1, ?sv, g)
      else if sg_verify_peer_cert g \<and> (SSL_get_verify_mode AND (0 OR 1)) \<noteq> 1 then Some (EPROTO, ?sv, g)
      else Some (0, ?sv, g) })"
    unfolding ssl_connect_def if_not_P [OF tcp] Let_def ..
  also have "\<dots> = Some (r, ?sv, ?g)"
  proof (cases "?err = 1")
    case True
    then show ?thesis unfolding C' r_def using assms(4) by (simp add: SSL_get_verify_mode_def Let_def)
  next
    case False
    have "SSL_get_error lib hot ?err ?a = Some ?err" by (simp add: hot_is_direct ecall_ssl_get_error_def)
    then show ?thesis unfolding C' r_def if_not_P [OF False] using False io [OF False] by (simp add: Let_def del: if_split)
  qed
  finally have "ssl_connect lib hot completion peeked sv g = Some (r, ?sv, ?g)" .
  moreover have "sv_state ?sv = STATE_SSL_CONNECTING" by (simp add: Let_def)
  moreover have "r = (if ret = 0 then (if sv_type sv = CLIENT then 0 else EPROTO) else if ssl_wants_io lib ret then EAGAIN else EPROTO)"
    using wants [of 0] assms(6) by (auto simp: r_def)
  ultimately show ?thesis by (intro exI [of _ r] exI [of _ ?sv] exI [of _ ?g] exI [of _ ?x]) simp
qed

section \<open>Verification of the peer\<close>

lemma ssl_free_faults: "ecall_ssl_free s = None"
  by (cases "t_ssl s") (simp_all add: ecall_ssl_free_def Let_def)

lemma ssl_close_faults: "ssl_close lib hot sv g = None"
  by (simp add: ssl_close_def hot_is_direct hot_is_direct_values after_void_def after_call_def ssl_free_faults split: bind_splits prod.splits)

text \<open>C12: The session of a stream has the certificates and the key of the enclave, and it only verifies the peer optionally, whatever the switch has configured:
  a handshake with a peer whose certificate does not verify completes. Closing the stream uses the session after freeing it.\<close>

theorem stream_session_correct:
  assumes "do_ssl_init lib hot env g = Some (0, g1)" and "sg_app g2 = sg_app g1" and "new_ssl_stream lib hot nodelay fd type state g2 = Some (Inr sv, g3)"
  shows "\<exists>x ca crt. t_ssl (ta_tls (sg_app g3)) = Live x \<and> t_cacert (ta_tls (sg_app g3)) = Live ca \<and> t_cert (ta_tls (sg_app g3)) = Live crt
    \<and> ss_conf x = Some \<lparr>c_authmode = VERIFY_OPTIONAL lib, c_ca_chain = Some ca, c_own_cert = Some (crt, t_key (ta_tls (sg_app g3)))\<rparr>
    \<and> ss_fd x = fd \<and> sv_fd sv = fd \<and> cf_read (sg_private_key g2) \<and> cf_read (sg_certificate g2) \<and> ssl_close lib hot' sv g3 = None"
proof -
  obtain a where a: "SSL_library_init lib hot (ie_resources env) (ie_lines env) (ie_program_name env) (sg_app g) = Some a"
    and i: "ie_random env \<or> ie_entropy env = 0"
    and c: "(do { a \<leftarrow> SSL_CTX_new lib hot a; a \<leftarrow> SSL_CTX_set_verify lib hot a; Some (0, g\<lparr>sg_app := a\<rparr>) }) = Some (0, g1)"
    using assms(1) by (auto simp: do_ssl_init_def bind_eq_Some_conv ENOPROTOOPT_def split: if_splits)
  let ?s = "ta_tls a"
  obtain ca crt where l: "t_cacert ?s = Live ca" "t_cert ?s = Live crt"
    using c by (cases "t_cacert ?s"; cases "t_cert ?s") (simp_all add: hot_is_direct after_void_def ecall_ssl_ctx_new_def)
  let ?ctx = "\<lparr>ctx_cert = crt, ctx_pk = t_key ?s, ctx_CA_cert = ca, ctx_authmode = VERIFY_OPTIONAL lib\<rparr>"
  have g1: "sg_app g1 = a\<lparr>ta_tls := ?s\<lparr>t_ctx := Live ?ctx\<rparr>\<rparr>"
    using c l by (auto simp: hot_is_direct after_void_def ecall_ssl_ctx_new_def ecall_ssl_ctx_set_verify_def)
  obtain res cx where st: "ssl_setup lib (ssl_init_cx lib) = (res, cx)" by (cases "ssl_setup lib (ssl_init_cx lib)")
  show ?thesis using assms(3) l st unfolding new_ssl_stream_def assms(2) g1
    by (auto simp: hot_is_direct hot_is_direct_values after_void_def ecall_ssl_new_def ecall_ssl_set_fd_def ssl_close_faults split: if_splits)
qed

section \<open>An example\<close>

text \<open>A connection that takes two bytes at a time, four in all, and then waits for the socket.\<close>

definition ex_conn :: "(bytes, bytes, nat, bytes) tls_lib" where
  "ex_conn = \<lparr>lib_garbage = (\<lambda>_. 1), ERR_WANT_READ = - 26880, ERR_WANT_WRITE = - 26752, ERR_PEER_CLOSE_NOTIFY = - 30848,
     VERIFY_NONE = 0, VERIFY_OPTIONAL = 1, VERIFY_REQUIRED = 2, ctr_drbg_seed = (\<lambda>w. (0, w)), pk_init = [], pk_setup = (\<lambda>k. (0, k)),
     rsa_gen_key = (\<lambda>k w. (0, [75], w)), pk_write_key_pem = (\<lambda>k buf. buf), csr_pem = (\<lambda>k buf w. (buf, w)),
     pk_parse_key = (\<lambda>_. butlast), crt_init = [], crt_parse = (\<lambda>_ bs. (0, bs)), crt_raw = (\<lambda>c. c), net_connect = (\<lambda>w. (3, w)),
     ssl_init_cx = 0, ssl_setup = (\<lambda>cx. (0, cx)), ssl_set_bio = (\<lambda>cx fd. cx), ssl_handshake = (\<lambda>_ cx w. (0, cx, w)),
     ssl_read = (\<lambda>cx n w. ((int (min n 3), take n [97, 98, 99]), cx, w)),
     ssl_write = (\<lambda>cx bs w. if length w < 4 then (int (min 2 (length bs)), cx, w @ take 2 bs) else (- 26880, cx, w)),
     ssl_close_notify = (\<lambda>cx w. (0, cx, w)), ssl_peer_cert = (\<lambda>_. Some [1]),
     ssl_state_nr = int, sgx_calc_sealed_data_size = of_nat, sgx_seal_data = Some, sgx_unseal_data = Some, sgx_get_encrypt_txt_len = length\<rparr>"

definition ex_session :: "(bytes, bytes, nat) ssl_session" where
  "ex_session = \<lparr>ss_cntx = 0, ss_conf = Some \<lparr>c_authmode = 1, c_ca_chain = Some [1], c_own_cert = Some ([2], [3])\<rparr>, ss_last_error = 0, ss_fd = 8, ss_ssl_ctx = True\<rparr>"

definition ex_conn_app :: "(bytes, bytes, nat, bytes) tls_app" where
  "ex_conn_app = \<lparr>ta_tls = \<lparr>t_ssl = Live ex_session, t_ctx = Null, t_cacert = Live [1], t_cert = Live [2], t_key = [3], t_keys_generated = True\<rparr>,
     ta_world = [], ta_files = (\<lambda>_. None), ta_writable = (\<lambda>_. True)\<rparr>"

definition ex_stream :: "session_type \<Rightarrow> ssl_stream" where
  "ex_stream type = \<lparr>sv_state = STATE_SSL_CONNECTING, sv_type = type, sv_fd = 8, sv_txbuf = None, sv_session_nr = 0, sv_rx_want = SSL_NOTHING, sv_tx_want = SSL_NOTHING, sv_n_head = 0\<rparr>"

definition ex_globals :: "(bytes, bytes, nat, bytes) ssl_globals" where
  "ex_globals = (let c = \<lparr>cf_read = True, cf_file_name = Some ''key.pem'', cf_mtime = (0, 0)\<rparr> in
     \<lparr>sg_private_key = c, sg_certificate = c, sg_ca_cert = c, sg_verify_peer_cert = True, sg_bootstrap_ca_cert = False, sg_next_session_nr = 0,
       sg_init_status = - 1, sg_app = ex_conn_app\<rparr>)"

lemma ex_conn_ok: "write_ok ex_conn (\<lambda>w. w)" "read_ok ex_conn" "lib_codes ex_conn" "t_ssl (ta_tls ex_conn_app) = Live ex_session"
  by (auto simp: write_ok_def read_ok_def lib_codes_def ex_conn_def ex_conn_app_def min_def)


theorem ssl_recv_correct_witness:
  "\<exists>sv' a'. ssl_recv ex_conn False 0 0 [0, 0, 0, 0] (ex_stream CLIENT) ex_conn_app = Some ((3, [97, 98, 99]), sv', a') \<and> sv_rx_want sv' = SSL_NOTHING"
proof -
  have "ssl_read ex_conn (ss_cntx ex_session) (length [0, 0, 0, 0 :: u8]) (ta_world ex_conn_app) = ((3, [97, 98, 99]), 0, [])"
    by (simp add: ex_conn_def ex_session_def ex_conn_app_def)
  from ssl_recv_correct [OF ex_conn_ok(2-4) _ this, of False 0 0 "ex_stream CLIENT"] show ?thesis by (auto simp: EAGAIN_def)
qed

theorem ssl_connect_correct_witness:
  "(\<exists>sv' g'. ssl_connect ex_conn True 0 2 (ex_stream CLIENT) ex_globals = Some (0, sv', g'))
    \<and> (\<exists>sv' g'. ssl_connect ex_conn True 0 2 (ex_stream SERVER) ex_globals = Some (EPROTO, sv', g'))"
proof -
  have p: "t_ssl (ta_tls (sg_app ex_globals)) = Live ex_session" "ss_conf ex_session = Some \<lparr>c_authmode = 1, c_ca_chain = Some [1], c_own_cert = Some ([2], [3])\<rparr>"
    "\<not> sg_bootstrap_ca_cert ex_globals"
    "ssl_handshake ex_conn \<lparr>c_authmode = 1, c_ca_chain = Some [1], c_own_cert = Some ([2], [3])\<rparr> (ss_cntx ex_session) (ta_world (sg_app ex_globals)) = (0, 0, [])"
    "(0 :: int) \<le> 0"
    by (simp_all add: ex_globals_def Let_def ex_conn_app_def ex_session_def ex_conn_def)
  have st: "sv_state (ex_stream t) = STATE_SSL_CONNECTING \<or> (0 :: int) = 0" for t by simp
  show ?thesis using ssl_connect_correct [OF ex_conn_ok(3) p st [of CLIENT], of True 2] ssl_connect_correct [OF ex_conn_ok(3) p st [of SERVER], of True 2]
    by (auto simp: ex_stream_def)
qed

theorem stream_session_correct_witness:
  "\<exists>g1 sv g3 x. do_ssl_init ex_conn True \<lparr>ie_resources = ex_resources, ie_lines = [], ie_program_name = ''ovs-vswitchd'', ie_random = True, ie_entropy = 0\<rparr> ex_globals = Some (0, g1)
    \<and> new_ssl_stream ex_conn True 0 9 CLIENT STATE_SSL_CONNECTING g1 = Some (Inr sv, g3) \<and> t_ssl (ta_tls (sg_app g3)) = Live x
    \<and> ss_conf x = Some \<lparr>c_authmode = 1, c_ca_chain = Some [1], c_own_cert = Some ([2], [3])\<rparr> \<and> ss_fd x = 9 \<and> ssl_close ex_conn True sv g3 = None"
proof -
  let ?env = "\<lparr>ie_resources = ex_resources, ie_lines = [], ie_program_name = ''ovs-vswitchd'', ie_random = True, ie_entropy = 0\<rparr>"
  have none: "\<forall>i < N_SSL_RESOURCES. ta_files ex_conn_app (resource_file ''ovs-vswitchd'' i) = None" by (simp add: ex_conn_app_def)
  obtain rs where "read_ssl_resources (ta_files ex_conn_app) ''ovs-vswitchd'' ex_resources = Some rs"
    using read_blank [OF none _ ex_tls_ok(2)] by auto
  then have a: "SSL_library_init ex_conn True ex_resources [] ''ovs-vswitchd'' ex_conn_app = Some ex_conn_app"
    by (simp add: library_init_direct ecall_ssl_library_init_def del: upt_rec_numeral) (simp add: ex_conn_def ex_conn_app_def)
  let ?s = "(ta_tls ex_conn_app)\<lparr>t_ctx := Live \<lparr>ctx_cert = [2], ctx_pk = [3], ctx_CA_cert = [1], ctx_authmode = 1\<rparr>\<rparr>"
  let ?g1 = "ex_globals\<lparr>sg_app := ex_conn_app\<lparr>ta_tls := ?s\<rparr>\<rparr>"
  have i: "do_ssl_init ex_conn True ?env ex_globals = Some (0, ?g1)"
    using a by (simp add: do_ssl_init_def ex_globals_def Let_def hot_is_direct after_void_def ecall_ssl_ctx_new_def ecall_ssl_ctx_set_verify_def)
      (simp add: ex_conn_app_def ex_conn_def)
  obtain sv g3 where n: "new_ssl_stream ex_conn True 0 9 CLIENT STATE_SSL_CONNECTING ?g1 = Some (Inr sv, g3)" and k: "t_key (ta_tls (sg_app g3)) = [3]"
      "t_cacert (ta_tls (sg_app g3)) = Live [1]" "t_cert (ta_tls (sg_app g3)) = Live [2]"
    by (simp add: new_ssl_stream_def hot_is_direct hot_is_direct_values after_void_def ecall_ssl_new_def ecall_ssl_set_fd_def SSL_CTX_check_private_key_def
      ex_globals_def Let_def ex_conn_def ex_conn_app_def)
  have v: "VERIFY_OPTIONAL ex_conn = 1" by (simp add: ex_conn_def)
  show ?thesis using stream_session_correct [OF i refl n, of True] i n k v by auto
qed

end
