(* ===== verification/Tls_Hotcall.thy ===== *)
theory Tls_Hotcall
  imports Tls_Wrapper
begin

text \<open>
  Hot calls of the TLS enclave (\<open>TLSonSGX/untrusted/hotcall-untrusted.cpp\<close>, \<open>untrusted/spinlock.cpp\<close>, \<open>trusted/hotcall-trusted.c\<close>). Here one call at a time
  is passed in the members of \<open>async_ecall\<close>. The caller writes them without holding the lock and then waits for \<open>is_done\<close>; the poller reads them
  under the lock. A step of either thread is one access to a member or to the lock, or the execution of a call; the steps of the threads are interleaved arbitrarily.
  What a call does in the enclave and to the memory behind its pointers is the argument \<open>exec\<close>. The build without \<open>TIMEOUT\<close> is modelled.
\<close>

section \<open>State\<close>

text \<open>A call: the function, the list of arguments and the pointer to the result.\<close>

type_synonym 'v tls_call = "int \<times> 'v \<times> 'v"

datatype mpc = M_next | M_args | M_ret | M_is_done | M_run | M_lock | M_spin | M_check | M_unlock_done | M_unlock_retry

datatype ppc = P_lock | P_spin | P_check | P_clear | P_exec | P_done | P_unlock

record ('v, 's) async_ecall =
  ac_spinlock :: u32
  ac_run :: bool
  ac_is_done :: bool
  ac_function :: int
  ac_args :: 'v
  ac_ret :: 'v
  ac_memory :: 's
  ac_call :: "'v tls_call"
  ac_todo :: "'v tls_call list"
  ac_mpc :: mpc
  ac_ppc :: ppc

section \<open>The caller\<close>

definition make_hotcall :: "('v, 's) async_ecall \<Rightarrow> ('v, 's) async_ecall option" where
  "make_hotcall h = (case ac_mpc h of
     M_next \<Rightarrow> (case ac_todo h of [] \<Rightarrow> None | c # cs \<Rightarrow> Some (h\<lparr>ac_call := c, ac_todo := cs, ac_function := fst c, ac_mpc := M_args\<rparr>))
   | M_args \<Rightarrow> Some (h\<lparr>ac_args := fst (snd (ac_call h)), ac_mpc := M_ret\<rparr>)
   | M_ret \<Rightarrow> Some (h\<lparr>ac_ret := snd (snd (ac_call h)), ac_mpc := M_is_done\<rparr>)
   | M_is_done \<Rightarrow> Some (h\<lparr>ac_is_done := False, ac_mpc := M_run\<rparr>)
   | M_run \<Rightarrow> Some (h\<lparr>ac_run := True, ac_mpc := M_lock\<rparr>)
   | M_lock \<Rightarrow> Some (h\<lparr>ac_spinlock := 1, ac_mpc := (if ac_spinlock h = 0 then M_check else M_spin)\<rparr>)
   | M_spin \<Rightarrow> Some (h\<lparr>ac_mpc := (if ac_spinlock h \<noteq> 0 then M_spin else M_lock)\<rparr>)
   | M_check \<Rightarrow> Some (h\<lparr>ac_mpc := (if ac_is_done h then M_unlock_done else M_unlock_retry)\<rparr>)
   | M_unlock_done \<Rightarrow> Some (h\<lparr>ac_spinlock := 0, ac_mpc := M_next\<rparr>)
   | M_unlock_retry \<Rightarrow> Some (h\<lparr>ac_spinlock := 0, ac_mpc := M_lock\<rparr>))"

section \<open>The poller\<close>

definition ecall_start_poller_tls :: "('v tls_call \<Rightarrow> 's \<Rightarrow> 's) \<Rightarrow> ('v, 's) async_ecall \<Rightarrow> ('v, 's) async_ecall option" where
  "ecall_start_poller_tls exec h = (case ac_ppc h of
     P_lock \<Rightarrow> Some (h\<lparr>ac_spinlock := 1, ac_ppc := (if ac_spinlock h = 0 then P_check else P_spin)\<rparr>)
   | P_spin \<Rightarrow> Some (h\<lparr>ac_ppc := (if ac_spinlock h \<noteq> 0 then P_spin else P_lock)\<rparr>)
   | P_check \<Rightarrow> Some (h\<lparr>ac_ppc := (if ac_run h then P_clear else P_unlock)\<rparr>)
   | P_clear \<Rightarrow> Some (h\<lparr>ac_run := False, ac_ppc := P_exec\<rparr>)
   | P_exec \<Rightarrow> Some (h\<lparr>ac_memory := exec (ac_function h, ac_args h, ac_ret h) (ac_memory h), ac_ppc := P_done\<rparr>)
   | P_done \<Rightarrow> Some (h\<lparr>ac_is_done := True, ac_ppc := P_unlock\<rparr>)
   | P_unlock \<Rightarrow> Some (h\<lparr>ac_spinlock := 0, ac_ppc := P_lock\<rparr>))"

inductive tls_step :: "('v tls_call \<Rightarrow> 's \<Rightarrow> 's) \<Rightarrow> ('v, 's) async_ecall \<Rightarrow> ('v, 's) async_ecall \<Rightarrow> bool" for exec where
  caller: "make_hotcall h = Some h' \<Longrightarrow> tls_step exec h h'"
| poller: "ecall_start_poller_tls exec h = Some h' \<Longrightarrow> tls_step exec h h'"

text \<open>\<open>async_ecall\<close> is a static variable; \<open>v\<close> is NULL.\<close>

definition async_start :: "'v \<Rightarrow> 'v tls_call list \<Rightarrow> 's \<Rightarrow> ('v, 's) async_ecall" where
  "async_start v prog s = \<lparr>ac_spinlock = 0, ac_run = False, ac_is_done = False, ac_function = 0, ac_args = v, ac_ret = v, ac_memory = s,
     ac_call = (0, v, v), ac_todo = prog, ac_mpc = M_next, ac_ppc = P_lock\<rparr>"

section \<open>Invariant\<close>

fun m_inside :: "mpc \<Rightarrow> bool" where
  "m_inside M_check = True" | "m_inside M_unlock_done = True" | "m_inside M_unlock_retry = True" | "m_inside _ = False"

fun m_writing :: "mpc \<Rightarrow> bool" where
  "m_writing M_next = True" | "m_writing M_args = True" | "m_writing M_ret = True" | "m_writing M_is_done = True" | "m_writing M_run = True" | "m_writing _ = False"

fun p_inside :: "ppc \<Rightarrow> bool" where
  "p_inside P_lock = False" | "p_inside P_spin = False" | "p_inside _ = True"

fun p_at_rest :: "ppc \<Rightarrow> bool" where
  "p_at_rest P_clear = False" | "p_at_rest P_exec = False" | "p_at_rest P_done = False" | "p_at_rest _ = True"

definition mutex_inv :: "('v, 's) async_ecall \<Rightarrow> bool" where
  "mutex_inv h \<longleftrightarrow> \<not> (m_inside (ac_mpc h) \<and> p_inside (ac_ppc h)) \<and> (ac_spinlock h \<noteq> 0 \<longleftrightarrow> m_inside (ac_mpc h) \<or> p_inside (ac_ppc h))"

text \<open>The progress of the call that is being made, after \<open>past\<close> calls that are done.\<close>

definition call_written :: "('v, 's) async_ecall \<Rightarrow> bool" where
  "call_written h \<longleftrightarrow> (case ac_mpc h of M_next \<Rightarrow> True | M_args \<Rightarrow> ac_function h = fst (ac_call h)
     | M_ret \<Rightarrow> ac_function h = fst (ac_call h) \<and> ac_args h = fst (snd (ac_call h))
     | _ \<Rightarrow> (ac_function h, ac_args h, ac_ret h) = ac_call h)"

definition call_inv :: "('v tls_call \<Rightarrow> 's \<Rightarrow> 's) \<Rightarrow> 'v tls_call list \<Rightarrow> 's \<Rightarrow> ('v, 's) async_ecall \<Rightarrow> bool" where
  "call_inv exec past s h \<longleftrightarrow> call_written h \<and> (
     if m_writing (ac_mpc h) then \<not> ac_run h \<and> p_at_rest (ac_ppc h) \<and> ac_memory h = fold exec past s
       \<and> (ac_mpc h = M_run \<longrightarrow> \<not> ac_is_done h)
     else if ac_is_done h then \<not> ac_run h \<and> p_at_rest (ac_ppc h) \<and> ac_memory h = fold exec (past @ [ac_call h]) s
     else ac_mpc h \<noteq> M_unlock_done \<and> (ac_run h \<and> (p_at_rest (ac_ppc h) \<or> ac_ppc h = P_clear) \<and> ac_memory h = fold exec past s
       \<or> \<not> ac_run h \<and> ac_ppc h = P_exec \<and> ac_memory h = fold exec past s
       \<or> \<not> ac_run h \<and> ac_ppc h = P_done \<and> ac_memory h = fold exec (past @ [ac_call h]) s))"

text \<open>The calls that are done, the one that is being made and those to come are the program.\<close>

definition tls_inv :: "('v tls_call \<Rightarrow> 's \<Rightarrow> 's) \<Rightarrow> 'v tls_call list \<Rightarrow> 's \<Rightarrow> ('v, 's) async_ecall \<Rightarrow> bool" where
  "tls_inv exec prog s h \<longleftrightarrow> mutex_inv h \<and> (\<exists>past. call_inv exec past s h
     \<and> prog = past @ (if ac_mpc h = M_next then [] else [ac_call h]) @ ac_todo h)"

lemma start_inv: "tls_inv exec prog s (async_start v prog s)"
  unfolding tls_inv_def by (intro conjI exI [of _ "[]"]) (simp_all add: async_start_def mutex_inv_def call_inv_def call_written_def)

lemma mutex_caller:
  assumes "make_hotcall h = Some h'" and "mutex_inv h"
  shows "mutex_inv h'"
proof (cases "ac_mpc h = M_next")
  case True
  then show ?thesis using assms by (auto simp: make_hotcall_def mutex_inv_def split: list.splits)
next
  case False
  have "ac_ppc h' = ac_ppc h" using assms(1) False by (cases "ac_mpc h") (auto simp: make_hotcall_def)
  then show ?thesis using assms False by (cases "ac_mpc h") (auto simp: make_hotcall_def mutex_inv_def split: if_splits)
qed

lemma mutex_poller:
  assumes "ecall_start_poller_tls exec h = Some h'" and "mutex_inv h"
  shows "mutex_inv h'"
proof -
  have "ac_mpc h' = ac_mpc h" using assms(1) by (cases "ac_ppc h") (auto simp: ecall_start_poller_tls_def)
  then show ?thesis using assms by (cases "ac_ppc h") (auto simp: ecall_start_poller_tls_def mutex_inv_def split: if_splits)
qed

lemma call_inv_cong:
  assumes "call_inv exec past s h" and "call_written h'" and "ac_mpc h' = ac_mpc h" "ac_call h' = ac_call h" "ac_run h' = ac_run h" "ac_is_done h' = ac_is_done h"
    "ac_memory h' = ac_memory h" and "p_at_rest (ac_ppc h)" "p_at_rest (ac_ppc h')"
  shows "call_inv exec past s h'"
proof -
  have "ac_ppc h \<noteq> P_exec" "ac_ppc h \<noteq> P_done" using assms(8) by auto
  then show ?thesis using assms(1,2,8,9) unfolding call_inv_def assms(3-7) by auto
qed

lemma call_poller:
  assumes st: "ecall_start_poller_tls exec h = Some h'" and inv: "call_inv exec past s h"
  shows "call_inv exec past s h' \<and> ac_mpc h' = ac_mpc h \<and> ac_call h' = ac_call h \<and> ac_todo h' = ac_todo h"
proof -
  have fr: "ac_mpc h' = ac_mpc h" "ac_call h' = ac_call h" "ac_todo h' = ac_todo h" "ac_function h' = ac_function h" "ac_args h' = ac_args h" "ac_ret h' = ac_ret h"
    using st by (cases "ac_ppc h"; auto simp: ecall_start_poller_tls_def)+
  have c: "call_written h" using inv by (simp add: call_inv_def)
  have "call_written h' = call_written h" unfolding call_written_def fr ..
  then have cw: "call_written h'" using c by simp
  have same: "ac_run h' = ac_run h" "ac_is_done h' = ac_is_done h" "ac_memory h' = ac_memory h" if "p_at_rest (ac_ppc h)"
    using that st by (cases "ac_ppc h"; auto simp: ecall_start_poller_tls_def)+
  have "call_inv exec past s h'"
  proof (cases "p_at_rest (ac_ppc h)")
    case True
    show ?thesis
    proof (cases "p_at_rest (ac_ppc h')")
      case False
      then have n: "ac_ppc h' = P_clear" "ac_run h" using True st by (cases "ac_ppc h"; auto simp: ecall_start_poller_tls_def split: if_splits)+
      then have "\<not> m_writing (ac_mpc h)" "\<not> ac_is_done h" "ac_mpc h \<noteq> M_unlock_done" "ac_memory h = fold exec past s"
        using inv by (auto simp: call_inv_def split: if_splits)
      then show ?thesis unfolding call_inv_def fr same [OF True] n(1) using cw n(2) by simp
    qed (rule call_inv_cong [OF inv cw fr(1,2) same [OF True] True])
  next
    case False
    then have w: "\<not> m_writing (ac_mpc h)" "\<not> ac_is_done h" "ac_mpc h \<noteq> M_unlock_done" using inv by (auto simp: call_inv_def split: if_splits)
    have args: "(ac_function h, ac_args h, ac_ret h) = ac_call h" using w(1) c by (cases "ac_mpc h") (simp_all add: call_written_def)
    consider "ac_ppc h = P_clear" "ac_memory h = fold exec past s" | "ac_ppc h = P_exec" "\<not> ac_run h" "ac_memory h = fold exec past s"
      | "ac_ppc h = P_done" "\<not> ac_run h" "ac_memory h = fold exec (past @ [ac_call h]) s"
      using inv False w by (auto simp: call_inv_def)
    then show ?thesis
    proof cases
      case 1
      then have "h' = h\<lparr>ac_run := False, ac_ppc := P_exec\<rparr>" using st by (simp add: ecall_start_poller_tls_def)
      then show ?thesis using w 1 cw by (simp add: call_inv_def)
    next
      case 2
      then have "h' = h\<lparr>ac_memory := exec (ac_call h) (ac_memory h), ac_ppc := P_done\<rparr>" using st unfolding args [symmetric] by (simp add: ecall_start_poller_tls_def)
      then show ?thesis using w 2 cw by (simp add: call_inv_def)
    next
      case 3
      then have "h' = h\<lparr>ac_is_done := True, ac_ppc := P_unlock\<rparr>" using st by (simp add: ecall_start_poller_tls_def)
      then show ?thesis using w 3 cw by (simp add: call_inv_def)
    qed
  qed
  then show ?thesis using fr by simp
qed

lemma call_inv_waiting:
  assumes "call_inv exec past s h" and "\<not> m_writing (ac_mpc h)" "\<not> m_writing (ac_mpc h')" and "ac_mpc h' = M_unlock_done \<Longrightarrow> ac_is_done h"
    and "h'\<lparr>ac_mpc := ac_mpc h, ac_spinlock := ac_spinlock h\<rparr> = h"
  shows "call_inv exec past s h'"
proof -
  have fr: "ac_call h' = ac_call h" "ac_run h' = ac_run h" "ac_is_done h' = ac_is_done h" "ac_memory h' = ac_memory h" "ac_ppc h' = ac_ppc h"
    "ac_function h' = ac_function h" "ac_args h' = ac_args h" "ac_ret h' = ac_ret h"
    by (subst assms(5) [symmetric], simp)+
  have c: "call_written x \<longleftrightarrow> (ac_function x, ac_args x, ac_ret x) = ac_call x" if "\<not> m_writing (ac_mpc x)" for x :: "('a, 'b) async_ecall"
    using that by (cases "ac_mpc x") (simp_all add: call_written_def)
  have "call_written h'" using assms(1) c [OF assms(2)] c [OF assms(3)] fr by (simp add: call_inv_def)
  then show ?thesis using assms(1-4) unfolding call_inv_def fr by (cases "ac_is_done h") auto
qed

lemma call_caller:
  assumes "make_hotcall h = Some h'" and "call_inv exec past s h"
  shows "\<exists>past'. call_inv exec past' s h' \<and>
    past @ (if ac_mpc h = M_next then [] else [ac_call h]) @ ac_todo h = past' @ (if ac_mpc h' = M_next then [] else [ac_call h']) @ ac_todo h'"
proof (cases "ac_mpc h")
  case M_next
  then obtain c cs where "ac_todo h = c # cs" "h' = h\<lparr>ac_call := c, ac_todo := cs, ac_function := fst c, ac_mpc := M_args\<rparr>"
    using assms(1) by (auto simp: make_hotcall_def split: list.splits)
  then show ?thesis using assms(2) M_next by (intro exI [of _ past]) (simp add: call_inv_def call_written_def)
next
  case M_unlock_done
  then have "ac_is_done h" "h' = h\<lparr>ac_spinlock := 0, ac_mpc := M_next\<rparr>" using assms by (simp_all add: make_hotcall_def call_inv_def split: if_splits)
  then show ?thesis using assms(2) M_unlock_done by (intro exI [of _ "past @ [ac_call h]"]) (simp add: call_inv_def call_written_def)
next
  case M_args
  then have "h' = h\<lparr>ac_args := fst (snd (ac_call h)), ac_mpc := M_ret\<rparr>" using assms(1) by (simp add: make_hotcall_def)
  then show ?thesis using assms(2) M_args by (intro exI [of _ past]) (simp add: call_inv_def call_written_def)
next
  case M_ret
  then have h': "h' = h\<lparr>ac_ret := snd (snd (ac_call h)), ac_mpc := M_is_done\<rparr>" using assms(1) by (simp add: make_hotcall_def)
  show ?thesis using assms(2) M_ret unfolding h' by (intro exI [of _ past]) (simp add: call_inv_def call_written_def)
next
  case M_is_done
  then have "h' = h\<lparr>ac_is_done := False, ac_mpc := M_run\<rparr>" using assms(1) by (simp add: make_hotcall_def)
  then show ?thesis using assms(2) M_is_done by (intro exI [of _ past]) (simp add: call_inv_def call_written_def)
next
  case M_run
  then have "h' = h\<lparr>ac_run := True, ac_mpc := M_lock\<rparr>" using assms(1) by (simp add: make_hotcall_def)
  then show ?thesis using assms(2) M_run by (intro exI [of _ past]) (simp add: call_inv_def call_written_def)
next
  case M_check
  then have h': "h' = h\<lparr>ac_mpc := (if ac_is_done h then M_unlock_done else M_unlock_retry)\<rparr>" using assms(1) by (simp add: make_hotcall_def)
  have "call_inv exec past s h'" by (rule call_inv_waiting [OF assms(2)]) (use M_check in \<open>auto simp: h' split: if_splits\<close>)
  then show ?thesis using M_check by (intro exI [of _ past]) (simp add: h')
next
  case M_lock
  then have h': "h' = h\<lparr>ac_spinlock := 1, ac_mpc := (if ac_spinlock h = 0 then M_check else M_spin)\<rparr>" using assms(1) by (simp add: make_hotcall_def)
  have "call_inv exec past s h'" by (rule call_inv_waiting [OF assms(2)]) (use M_lock in \<open>auto simp: h' split: if_splits\<close>)
  then show ?thesis using M_lock by (intro exI [of _ past]) (simp add: h')
next
  case M_spin
  then have h': "h' = h\<lparr>ac_mpc := (if ac_spinlock h \<noteq> 0 then M_spin else M_lock)\<rparr>" using assms(1) by (simp add: make_hotcall_def)
  have "call_inv exec past s h'" by (rule call_inv_waiting [OF assms(2)]) (use M_spin in \<open>auto simp: h' split: if_splits\<close>)
  then show ?thesis using M_spin by (intro exI [of _ past]) (simp add: h')
next
  case M_unlock_retry
  then have h': "h' = h\<lparr>ac_spinlock := 0, ac_mpc := M_lock\<rparr>" using assms(1) by (simp add: make_hotcall_def)
  have "call_inv exec past s h'" by (rule call_inv_waiting [OF assms(2)]) (use M_unlock_retry in \<open>auto simp: h' split: if_splits\<close>)
  then show ?thesis using M_unlock_retry by (intro exI [of _ past]) (simp add: h')
qed

lemma tls_inv_step:
  assumes "tls_step exec h h'" and "tls_inv exec prog s h"
  shows "tls_inv exec prog s h'"
  using assms
proof cases
  case caller
  then show ?thesis using assms(2) mutex_caller [OF caller] call_caller [OF caller] unfolding tls_inv_def by metis
next
  case poller
  then show ?thesis using assms(2) mutex_poller [OF poller] call_poller [OF poller] unfolding tls_inv_def by metis
qed

lemma tls_inv_reachable: "(tls_step exec)\<^sup>*\<^sup>* (async_start v prog s) h \<Longrightarrow> tls_inv exec prog s h"
  by (induction rule: rtranclp_induct) (auto intro: start_inv tls_inv_step)

section \<open>Progress\<close>

text \<open>How far the two threads are from the end of the call: first the caller writes the members, then the poller has to take the call and execute it, then the caller has to
  see that it is done. In the second and third part the thread that holds the lock moves first.\<close>

fun rank_writing :: "mpc \<Rightarrow> nat" where
  "rank_writing M_args = 64" | "rank_writing M_ret = 63" | "rank_writing M_is_done = 62" | "rank_writing M_run = 61" | "rank_writing _ = 0"

fun rank_retry :: "mpc \<Rightarrow> nat" where
  "rank_retry M_check = 2" | "rank_retry M_unlock_retry = 1" | "rank_retry _ = 0"

fun rank_poller :: "ppc \<Rightarrow> nat" where
  "rank_poller P_unlock = 6" | "rank_poller P_spin = 5" | "rank_poller P_lock = 4" | "rank_poller P_check = 3" | "rank_poller P_clear = 2" | "rank_poller P_exec = 1" | "rank_poller P_done = 0"

fun rank_return :: "mpc \<Rightarrow> nat" where
  "rank_return M_unlock_retry = 5" | "rank_return M_spin = 4" | "rank_return M_lock = 3" | "rank_return M_check = 2" | "rank_return M_unlock_done = 1" | "rank_return _ = 0"

fun rank_leave :: "ppc \<Rightarrow> nat" where
  "rank_leave P_check = 2" | "rank_leave P_unlock = 1" | "rank_leave _ = 0"

definition call_rank :: "('v, 's) async_ecall \<Rightarrow> nat" where
  "call_rank h = 100 * length (ac_todo h) + (if m_writing (ac_mpc h) then rank_writing (ac_mpc h)
     else if ac_is_done h then 3 * rank_return (ac_mpc h) + rank_leave (ac_ppc h) else 30 + 3 * rank_poller (ac_ppc h) + rank_retry (ac_mpc h))"

definition gets_closer :: "('v tls_call \<Rightarrow> 's \<Rightarrow> 's) \<Rightarrow> ('v, 's) async_ecall \<Rightarrow> bool" where
  "gets_closer exec h \<longleftrightarrow> (\<exists>h'. tls_step exec h h' \<and> call_rank h' < call_rank h)"

lemma caller_closer: "make_hotcall h = Some h' \<Longrightarrow> call_rank h' < call_rank h \<Longrightarrow> gets_closer exec h"
  unfolding gets_closer_def by (blast intro: tls_step.caller)

lemma poller_closer: "ecall_start_poller_tls exec h = Some h' \<Longrightarrow> call_rank h' < call_rank h \<Longrightarrow> gets_closer exec h"
  unfolding gets_closer_def by (blast intro: tls_step.poller)

lemma writing_closer:
  assumes "m_writing (ac_mpc h)" and "\<not> (ac_mpc h = M_next \<and> ac_todo h = [])"
  shows "gets_closer exec h"
proof (cases "ac_mpc h")
  case M_next
  then obtain c cs where "ac_todo h = c # cs" using assms(2) by (cases "ac_todo h") auto
  then show ?thesis using M_next by (intro caller_closer [of h "h\<lparr>ac_call := c, ac_todo := cs, ac_function := fst c, ac_mpc := M_args\<rparr>"])
    (simp_all add: make_hotcall_def call_rank_def)
next
  case M_args
  then show ?thesis by (intro caller_closer [of h]) (simp add: make_hotcall_def, simp add: call_rank_def)
next
  case M_ret
  then show ?thesis by (intro caller_closer [of h]) (simp add: make_hotcall_def, simp add: call_rank_def)
next
  case M_is_done
  then show ?thesis by (intro caller_closer [of h]) (simp add: make_hotcall_def, simp add: call_rank_def)
next
  case M_run
  have "30 + 3 * rank_poller (ac_ppc h) < 61" by (cases "ac_ppc h") simp_all
  moreover have "rank_return M_lock * 3 + rank_leave (ac_ppc h) < 61" by (cases "ac_ppc h") simp_all
  ultimately show ?thesis using M_run by (intro caller_closer [of h]) (simp add: make_hotcall_def, simp add: call_rank_def)
qed (use assms(1) in simp_all)

lemma done_closer:
  assumes "\<not> m_writing (ac_mpc h)" and "ac_is_done h" and "mutex_inv h" and "\<not> ac_run h" "p_at_rest (ac_ppc h)"
  shows "gets_closer exec h"
proof (cases "p_inside (ac_ppc h)")
  case True
  then consider "ac_ppc h = P_check" | "ac_ppc h = P_unlock" using assms(5) by (cases "ac_ppc h") auto
  then show ?thesis
  proof cases
    case 1
    show ?thesis by (rule poller_closer [of exec h]) (use assms 1 in \<open>simp add: ecall_start_poller_tls_def\<close>, use assms 1 in \<open>simp add: call_rank_def\<close>)
  next
    case 2
    show ?thesis by (rule poller_closer [of exec h]) (use assms 2 in \<open>simp add: ecall_start_poller_tls_def\<close>, use assms 2 in \<open>simp add: call_rank_def\<close>)
  qed
next
  case False
  then have l: "ac_spinlock h \<noteq> 0 \<longleftrightarrow> m_inside (ac_mpc h)" using assms(3) by (simp add: mutex_inv_def)
  have pl: "rank_leave (ac_ppc h) = 0" using False by (cases "ac_ppc h") auto
  show ?thesis
  proof (cases "ac_mpc h")
    case M_unlock_done
    show ?thesis by (rule caller_closer [of h]) (use assms M_unlock_done in \<open>simp add: make_hotcall_def\<close>, use assms M_unlock_done pl in \<open>simp add: call_rank_def\<close>)
  next
    case M_check
    show ?thesis by (rule caller_closer [of h]) (use assms M_check in \<open>simp add: make_hotcall_def\<close>, use assms M_check pl in \<open>simp add: call_rank_def\<close>)
  next
    case M_lock
    show ?thesis by (rule caller_closer [of h]) (use assms M_lock l in \<open>simp add: make_hotcall_def\<close>, use assms M_lock pl in \<open>simp add: call_rank_def\<close>)
  next
    case M_spin
    show ?thesis by (rule caller_closer [of h]) (use assms M_spin l in \<open>simp add: make_hotcall_def\<close>, use assms M_spin pl in \<open>simp add: call_rank_def\<close>)
  next
    case M_unlock_retry
    show ?thesis by (rule caller_closer [of h]) (use assms M_unlock_retry in \<open>simp add: make_hotcall_def\<close>, use assms M_unlock_retry pl in \<open>simp add: call_rank_def\<close>)
  qed (use assms(1) in simp_all)
qed

lemma working_closer:
  assumes w: "\<not> m_writing (ac_mpc h)" and d: "\<not> ac_is_done h" and m: "mutex_inv h" and u: "ac_mpc h \<noteq> M_unlock_done"
    and r: "p_at_rest (ac_ppc h) \<Longrightarrow> ac_run h"
  shows "gets_closer exec h"
proof (cases "m_inside (ac_mpc h)")
  case True
  then consider "ac_mpc h = M_check" | "ac_mpc h = M_unlock_retry" using u by (cases "ac_mpc h") auto
  then show ?thesis
  proof cases
    case 1
    show ?thesis by (rule caller_closer [of h]) (use 1 d in \<open>simp add: make_hotcall_def\<close>, use 1 d in \<open>simp add: call_rank_def\<close>)
  next
    case 2
    show ?thesis by (rule caller_closer [of h]) (use 2 d in \<open>simp add: make_hotcall_def\<close>, use 2 d in \<open>simp add: call_rank_def\<close>)
  qed
next
  case False
  then have l: "ac_spinlock h \<noteq> 0 \<longleftrightarrow> p_inside (ac_ppc h)" using m by (simp add: mutex_inv_def)
  have ret: "rank_return (ac_mpc h) \<le> 4" using False by (cases "ac_mpc h") simp_all
  note step = ecall_start_poller_tls_def and rank = call_rank_def
  show ?thesis
  proof (cases "ac_ppc h")
    case P_lock
    show ?thesis by (rule poller_closer [of exec h]) (use P_lock l in \<open>simp add: step\<close>, use P_lock w d in \<open>simp add: rank\<close>)
  next
    case P_spin
    show ?thesis by (rule poller_closer [of exec h]) (use P_spin l in \<open>simp add: step\<close>, use P_spin w d in \<open>simp add: rank\<close>)
  next
    case P_check
    show ?thesis by (rule poller_closer [of exec h]) (use P_check r in \<open>simp add: step\<close>, use P_check w d in \<open>simp add: rank\<close>)
  next
    case P_clear
    show ?thesis by (rule poller_closer [of exec h]) (use P_clear in \<open>simp add: step\<close>, use P_clear w d in \<open>simp add: rank\<close>)
  next
    case P_exec
    show ?thesis by (rule poller_closer [of exec h]) (use P_exec in \<open>simp add: step\<close>, use P_exec w d in \<open>simp add: rank\<close>)
  next
    case P_done
    show ?thesis by (rule poller_closer [of exec h]) (use P_done in \<open>simp add: step\<close>, use P_done w d ret in \<open>simp add: rank\<close>)
  next
    case P_unlock
    show ?thesis by (rule poller_closer [of exec h]) (use P_unlock in \<open>simp add: step\<close>, use P_unlock w d in \<open>simp add: rank\<close>)
  qed
qed

lemma inv_closer:
  assumes "tls_inv exec prog s h" and "\<not> (ac_mpc h = M_next \<and> ac_todo h = [])"
  shows "gets_closer exec h"
proof -
  obtain past where i: "mutex_inv h" "call_inv exec past s h" using assms(1) by (auto simp: tls_inv_def)
  consider "m_writing (ac_mpc h)" | "\<not> m_writing (ac_mpc h)" "ac_is_done h" "\<not> ac_run h" "p_at_rest (ac_ppc h)"
    | "\<not> m_writing (ac_mpc h)" "\<not> ac_is_done h" "ac_mpc h \<noteq> M_unlock_done" "p_at_rest (ac_ppc h) \<longrightarrow> ac_run h"
    using i(2) by (auto simp: call_inv_def split: if_splits)
  then show ?thesis
  proof cases
    case 1
    then show ?thesis using assms(2) by (rule writing_closer)
  next
    case 2
    then show ?thesis using i(1) by (intro done_closer)
  next
    case 3
    then show ?thesis using i(1) by (intro working_closer) auto
  qed
qed

lemma can_complete: "tls_inv exec prog s h \<Longrightarrow> \<exists>h'. (tls_step exec)\<^sup>*\<^sup>* h h' \<and> tls_inv exec prog s h' \<and> ac_mpc h' = M_next \<and> ac_todo h' = []"
proof (induction "call_rank h" arbitrary: h rule: less_induct)
  case less
  show ?case
  proof (cases "ac_mpc h = M_next \<and> ac_todo h = []")
    case False
    obtain h1 where h1: "tls_step exec h h1" "call_rank h1 < call_rank h" using inv_closer [OF less.prems False] unfolding gets_closer_def by blast
    then show ?thesis using less.hyps [OF h1(2) tls_inv_step [OF h1(1) less.prems]] by (meson converse_rtranclp_into_rtranclp)
  qed (use less.prems in blast)
qed

section \<open>The calls\<close>

text \<open>C15: The hot calls of the TLS enclave. Under every interleaving the two threads are never inside the critical section together, the caller never writes the members
  of a call while the poller may read them, the calls are executed each once and in order, and when \<open>make_hotcall\<close> returns its call has been executed. From every
  reachable state the threads can complete the program.\<close>

theorem tls_hotcalls_correct:
  assumes "(tls_step exec)\<^sup>*\<^sup>* (async_start v prog s) h"
  shows "\<not> (m_inside (ac_mpc h) \<and> p_inside (ac_ppc h)) \<and> (m_writing (ac_mpc h) \<longrightarrow> ac_ppc h \<noteq> P_exec \<and> \<not> ac_run h)
    \<and> (\<exists>past cur. prog = past @ cur @ ac_todo h \<and> length cur \<le> 1 \<and> ac_memory h \<in> {fold exec past s, fold exec (past @ cur) s}
      \<and> (ac_mpc h = M_next \<longrightarrow> cur = []) \<and> (ac_mpc h = M_unlock_done \<longrightarrow> ac_memory h = fold exec (past @ cur) s))
    \<and> (\<exists>h'. (tls_step exec)\<^sup>*\<^sup>* h h' \<and> ac_mpc h' = M_next \<and> ac_todo h' = [] \<and> ac_memory h' = fold exec prog s)"
proof -
  have inv: "tls_inv exec prog s h" using assms by (rule tls_inv_reachable)
  then obtain past where i: "mutex_inv h" "call_inv exec past s h" "prog = past @ (if ac_mpc h = M_next then [] else [ac_call h]) @ ac_todo h"
    by (auto simp: tls_inv_def)
  have mem: "ac_memory h \<in> {fold exec past s, fold exec (past @ (if ac_mpc h = M_next then [] else [ac_call h])) s}"
    "ac_mpc h = M_unlock_done \<Longrightarrow> ac_memory h = fold exec (past @ [ac_call h]) s"
    using i(2) by (auto simp: call_inv_def split: if_splits)
  obtain h' where h': "(tls_step exec)\<^sup>*\<^sup>* h h'" "tls_inv exec prog s h'" "ac_mpc h' = M_next" "ac_todo h' = []" using can_complete [OF inv] by blast
  then have "ac_memory h' = fold exec prog s" by (auto simp: tls_inv_def call_inv_def)
  moreover have "m_writing (ac_mpc h) \<longrightarrow> ac_ppc h \<noteq> P_exec \<and> \<not> ac_run h" using i(2) by (auto simp: call_inv_def)
  moreover have "\<exists>past cur. prog = past @ cur @ ac_todo h \<and> length cur \<le> 1 \<and> ac_memory h \<in> {fold exec past s, fold exec (past @ cur) s}
      \<and> (ac_mpc h = M_next \<longrightarrow> cur = []) \<and> (ac_mpc h = M_unlock_done \<longrightarrow> ac_memory h = fold exec (past @ cur) s)"
    by (intro exI [of _ past] exI [of _ "if ac_mpc h = M_next then [] else [ac_call h]"] conjI) (use i(3) mem in \<open>auto split: if_splits\<close>)
  ultimately show ?thesis using i(1) h' unfolding mutex_inv_def by blast
qed

theorem tls_hotcalls_correct_witness:
  "\<exists>h'. (tls_step (\<lambda>(f, a, r) m. m @ [f]))\<^sup>*\<^sup>* (async_start () [(4, (), ()), (12, (), ())] []) h' \<and> ac_mpc h' = M_next \<and> ac_todo h' = [] \<and> ac_memory h' = [4, 12]"
  using tls_hotcalls_correct [OF rtranclp.rtrancl_refl, where exec = "\<lambda>(f, a, r) m. m @ [f]" and v = "()" and prog = "[(4, (), ()), (12, (), ())]" and s = "[]"]
  by auto

end
