(* ===== verification/Spec2Isabelle.thy ===== *)
theory Spec2Isabelle
  imports App_Spec Hotcall Switch_Evict Stream_Spec Tls_Hotcall
begin

text \<open>
  A verification development for Open vSwitch with its OpenFlow tables inside an SGX enclave
  (\<open>src/OFTonSGX\<close>) and with the credentials and the session of its TLS connections inside another (\<open>src/TLSonSGX\<close>).

  \<^bold>\<open>The program.\<close> The switch keeps its flow tables in an enclave. The enclave
  (\<open>trusted/\<close>) holds, for each bridge, an array of tables, each with a classifier over compressed
  matches and with eviction groups in heaps, and a registry that maps the untrusted address of a rule to its
  trusted copy. The switch calls it through the wrappers of \<open>untrusted/app.c\<close>, which either make a
  direct enclave call or put a \<open>struct function_call\<close> into a queue in shared memory that a thread
  in the enclave polls (hot calls). A cache of lookups, also in shared memory, is written by
  the enclave and read by the switch; a checksum in the enclave protects it. The streams to controllers go through a wrapper with the interface of
  OpenSSL to a second enclave, which asks a certificate authority for a certificate and seals it with its key to disk.

  \<^bold>\<open>Conventions.\<close> A C function that can dereference NULL, index outside an array or fail an
  assertion returns an \<open>option\<close>, with \<open>None\<close> for the fault. Machine integers are words of
  their width; counters of objects in memory are natural numbers or integers. Objects linked by
  pointers are records in a store from addresses, or, where every use of the pointer goes through one
  container, members of a list. Uninitialised memory is an argument (\<open>junk\<close>), and so are the random numbers of
  \<open>sgx_read_rand\<close>. A pointer result is an \<open>option\<close> with \<open>None\<close> for NULL. Memory allocation succeeds.

  \<^bold>\<open>Theories and sources.\<close>
  \<^item> \<open>Prelude\<close>: types of the sources, generic lemmas. \<open>Util\<close> (\<open>lib/util\<close>, \<open>lib/sgx_htons\<close>), \<open>Hash\<close>
    (\<open>lib/hash\<close>), \<open>OVS_List\<close> (\<open>lib/list\<close>, on a store of list nodes), \<open>OVS_Hmap\<close> (\<open>lib/hmap\<close>, buckets as lists
    of chains), \<open>OVS_Heap\<close> (\<open>lib/heap\<close>, an array and the back index of each node): the data structures
    and what each operation does to the abstract list, bag or priority queue.
  \<^item> \<open>Flow\<close>, \<open>Match\<close>, \<open>Meta_Flow\<close> (\<open>lib/flow\<close>, \<open>lib/match\<close>, \<open>lib/meta-flow\<close>): flows as arrays of 32-bit words, their
    compressed form and the fields in them: round trips, comparison and hashing under masks, bounds.
  \<^item> \<open>Classifier\<close> (\<open>lib/classifier\<close>): all operations. \<open>Classifier_Correct\<close> has the invariant \<open>cls_inv\<close> and
    the searches, \<open>Classifier_Update\<close> insertion and removal, \<open>Classifier_Cursor\<close> iteration, and
    \<open>Classifier_Spec\<close> the specification as a map from matches and priorities to rules.
  \<^item> \<open>Enclave\<close> (\<open>enclave.c\<close>, \<open>cls_rule/cls-rule.c\<close>, \<open>lib/ofproto-provider.h\<close>), \<open>Eviction\<close> (\<open>eviction/eviction.c\<close>),
    \<open>Oftable\<close> (\<open>oftable/oftable.c\<close>), \<open>Ofproto\<close> (\<open>ofproto/ofproto.c\<close>, \<open>stats/stats.c\<close>, \<open>dpif/dpif.c\<close>): the state
    \<open>bridge\<close> and one definition for each enclave call. \<open>Registry\<close>, \<open>Group_Hash\<close>, \<open>Eviction_Correct\<close>, \<open>Bridge\<close> have
    the invariants of the registry, of the eviction groups and of the whole bridge (\<open>bridge_inv\<close>); \<open>Entry_Points\<close>,
    \<open>Evict_Report\<close>, \<open>Tables\<close> what the calls do under it; \<open>Bridge_Machine\<close> the bridge as
    a transition system of allowed calls; \<open>Bridge_Spec\<close> the contract that the switch relies on.
  \<^item> \<open>Shared_Memory\<close> (\<open>shared-memory-trusted.c\<close>, \<open>shared-memory-untrusted.c\<close>, the shared maps of \<open>lib/hmap.c\<close>) and
    \<open>Cache\<close> (\<open>cache-trusted.c\<close>, \<open>cache-untrusted.c\<close>): pages and the cache, which refines a queue of five slots
    in order of last use and keeps its checksum valid.
  \<^item> \<open>Hotcall\<close> (\<open>hotcall-trusted.c\<close>, \<open>hotcall-untrusted.c\<close>, \<open>spinlock.c\<close>, the macro \<open>HCALL\<close>): the switch's thread and the poller as
    an interleaving of atomic steps; mutual exclusion, order and completion of the calls for every interleaving.
  \<^item> \<open>Call_Table\<close> (\<open>call-table.c\<close>) and \<open>App\<close> (\<open>app.c\<close>): marshalling of arguments into typed cells and every case and wrapper;
    \<open>App_Spec\<close> compares the builds with hot calls and with direct calls.
  \<^item> \<open>Switch\<close> (\<open>ovs_modified/ovs_sgx/ofproto.c\<close>, the hooks of \<open>ofproto-dpif.c\<close>): the switch's side of the tables, for the builds with
    and without \<open>OPTIMIZED\<close>: its rules, operations and operation groups, and adding, modifying, deleting, expiring, evicting and flushing
    flows through the calls of the enclave. The record \<open>world\<close> holds what comes from code outside of the repository: the time, random numbers,
    fresh memory, the comparison and the outputs of actions. \<open>Switch_Collect\<close> has the selection of rules and the statistics,
    \<open>Switch_Delete\<close> the operations and groups of deletions, \<open>Switch_Spec\<close> deletion by match, \<open>Switch_Flush\<close> flushing and expiry, \<open>Switch_Evict\<close>
    eviction, each from the request to the tables in the enclave and the memory of the switch, and where the two builds differ.
  \<^item> \<open>Tls\<close> (\<open>TLSonSGX/trusted/enclave.c\<close>, \<open>sealing/\<close>): the TLS enclave over the functions of mbedtls and of the SGX SDK, which are the fields of
    the record \<open>tls_lib\<close>. \<open>Tls_Wrapper\<close> (\<open>call-table.c\<close>, \<open>untrusted/wrapper_sgx.cpp\<close>): the OpenSSL interface in both builds and the sealed files;
    \<open>Tls_Spec\<close> shows how credentials get into the enclave and survive a restart. \<open>Stream_Ssl\<close> (\<open>stream-ssl.c\<close>): the streams of the switch, with
    \<open>Stream_Spec\<close> on connecting, sending and receiving. \<open>Tls_Hotcall\<close> (\<open>hotcall-trusted.c\<close>, \<open>hotcall-untrusted.cpp\<close>): the hot calls of this enclave, one at a time,
    as an interleaving of two threads.

  \<^bold>\<open>Interfaces.\<close> The locales state what one part promises another: \<open>hash_search\<close> (\<open>OVS_Hmap\<close>), a search by a hash
  that respects an equality, interpreted on the three searches of the classifier; \<open>hash_index\<close> (\<open>Registry\<close>), a map searched by
  hash alone, for the registry and the eviction groups; \<open>intrusive_list\<close> (\<open>OVS_List\<close>), a sequence on linked nodes, for
  queues and the cache; \<open>prio_queue\<close> (\<open>OVS_Heap\<close>), for the eviction heaps. Each is interpreted on the definitions of the model and
  the properties use the facts obtained there.

  \<^bold>\<open>Bounds.\<close> Loops that may not end are \<open>partial_function (option)\<close>, and termination is proved where a property
  says that the code returns (the loop over matching tables ends for up to 255 tables). The rings of hot calls have 20 places, the
  cache has 5 entries and the shared memory 10 pages, as in the sources. The enclave has 100 bridges.

  \<^bold>\<open>Not modelled.\<close> \<open>src/CA_server\<close> and \<open>src/SDN_Controller\<close> (test peers over mbedtls and OpenSSL), \<open>src/benchmark\<close>;
  the interface descriptions (\<open>.edl\<close>) and the stubs generated from them; \<open>ocall.c\<close>, \<open>sgx-utils.c\<close>, \<open>enclave-utils.c\<close> (printing, creation of the enclave);
  \<open>heap-b.c\<close> (an unused copy of the heap); the build with \<open>TIMEOUT\<close>; \<open>prepare_hotcall_function\<close> and \<open>get_n_args\<close>, which
  nothing calls; \<open>ecall_async_test\<close> (a benchmark stub); of the files of Open vSwitch under \<open>ovs_modified/\<close> everything but the handling
  of flows: ports, mirrors, facets, the datapath and the connections to controllers depend on the rest of Open vSwitch, and \<open>ovs_vanilla\<close> is the
  copy without the enclave.
\<close>

end
